(* ===== verification/Prelude.thy ===== *)
theory Prelude
  imports Main "HOL-Library.Word"
begin

text \<open>
  Shared by every theory of the development.

  \<^item> The outcome type of code that can panic: \<open>'a run\<close> is \<open>panic + 'a\<close>, with \<open>Inl\<close> for a
    panic (a failed \<^verbatim>\<open>assert!\<close>, an \<^verbatim>\<open>expect\<close> on \<^verbatim>\<open>None\<close>, an index out of bounds) and \<open>Inr\<close>
    for a normal return; \<open>rbind\<close> sequences two such computations. \<open>Loop_Unfinished\<close> is no panic: it
    is the result of a loop that was given too short a schedule.
  \<^item> Unsigned 64-bit arithmetic on \<open>nat\<close> with the wrap-around written out. The workspace
    profile does not set \<^verbatim>\<open>overflow-checks\<close>, so a release build wraps.
  \<^item> Generic lemmas on lists and on remainders that the component theories share, collected in
    \<open>run_simps\<close> and \<open>list_upd\<close>.
\<close>

section \<open>Panics as values\<close>

datatype panic = Assert_Failed | Expect_None | Index_Out_Of_Bounds | Explicit_Panic | Loop_Unfinished

type_synonym 'a run = "panic + 'a"

named_theorems run_simps
named_theorems list_upd

definition rbind :: "'a run \<Rightarrow> ('a \<Rightarrow> 'b run) \<Rightarrow> 'b run" where
  "rbind m f = (case m of Inl e \<Rightarrow> Inl e | Inr x \<Rightarrow> f x)"

definition rassert :: "bool \<Rightarrow> unit run" where
  "rassert b = (if b then Inr () else Inl Assert_Failed)"

definition rexpect :: "'a option \<Rightarrow> 'a run" where
  "rexpect x = (case x of None \<Rightarrow> Inl Expect_None | Some v \<Rightarrow> Inr v)"

definition rindex :: "'a list \<Rightarrow> nat \<Rightarrow> 'a run" where
  "rindex xs i = (if i < length xs then Inr (xs ! i) else Inl Index_Out_Of_Bounds)"

text \<open>A fold whose body may panic: \<^verbatim>\<open>for x in xs { ... }\<close> over a state.\<close>

primrec rfold :: "('x \<Rightarrow> 's \<Rightarrow> 's run) \<Rightarrow> 'x list \<Rightarrow> 's \<Rightarrow> 's run" where
  "rfold f [] s = Inr s"
| "rfold f (x # xs) s = rbind (f x s) (rfold f xs)"

definition is_ok :: "'a run \<Rightarrow> bool" where
  "is_ok m = (case m of Inl _ \<Rightarrow> False | Inr _ \<Rightarrow> True)"

section \<open>Unsigned 64-bit arithmetic\<close>

definition u64_add :: "nat \<Rightarrow> nat \<Rightarrow> nat" where
  "u64_add a b = (a + b) mod 2 ^ 64"

definition u64_mul :: "nat \<Rightarrow> nat \<Rightarrow> nat" where
  "u64_mul a b = (a * b) mod 2 ^ 64"

definition u64_sub :: "nat \<Rightarrow> nat \<Rightarrow> nat" where
  "u64_sub a b = nat ((int a - int b) mod 2 ^ 64)"

definition u32_add :: "nat \<Rightarrow> nat \<Rightarrow> nat" where
  "u32_add a b = (a + b) mod 2 ^ 32"

text \<open>\<^verbatim>\<open>x as u8\<close>, \<^verbatim>\<open>x as u16\<close>, \<^verbatim>\<open>x as u32\<close> of a wider unsigned integer keep the low bits.\<close>

definition as_u8 :: "nat \<Rightarrow> nat" where "as_u8 x = x mod 2 ^ 8"

definition as_u16 :: "nat \<Rightarrow> nat" where "as_u16 x = x mod 2 ^ 16"

definition as_u32 :: "nat \<Rightarrow> nat" where "as_u32 x = x mod 2 ^ 32"

section \<open>Lemmas on panicking computations\<close>

lemma rbind_Inl [simp, run_simps]: "rbind (Inl e) f = Inl e"
  by (simp add: rbind_def)

lemma rbind_Inr [simp, run_simps]: "rbind (Inr x) f = f x"
  by (simp add: rbind_def)

lemma rbind_eq_Inr [run_simps]: "rbind m f = Inr y \<longleftrightarrow> (\<exists>x. m = Inr x \<and> f x = Inr y)"
  by (cases m) simp_all

lemma rbind_assoc: "rbind (rbind m f) g = rbind m (\<lambda>x. rbind (f x) g)"
  by (cases m) simp_all

lemma rbind_cong [fundef_cong]:
  "m = m' \<Longrightarrow> (\<And>x. m' = Inr x \<Longrightarrow> f x = f' x) \<Longrightarrow> rbind m f = rbind m' f'"
  by (cases m') simp_all

lemma rassert_simps [simp]: "rassert True = Inr ()" "rassert False = Inl Assert_Failed"
  by (simp_all add: rassert_def)

lemma rassert_eq_Inr [run_simps]: "rassert b = Inr u \<longleftrightarrow> b"
  by (cases b) simp_all

lemma rexpect_simps [simp]: "rexpect (Some v) = Inr v" "rexpect None = Inl Expect_None"
  by (simp_all add: rexpect_def)

lemma rexpect_eq_Inr [run_simps]: "rexpect x = Inr v \<longleftrightarrow> x = Some v"
  by (cases x) simp_all

lemma rindex_in [simp]: "i < length xs \<Longrightarrow> rindex xs i = Inr (xs ! i)"
  by (simp add: rindex_def)

lemma rindex_eq_Inr [run_simps]: "rindex xs i = Inr v \<longleftrightarrow> i < length xs \<and> v = xs ! i"
  by (auto simp: rindex_def)

lemma is_ok_simps [simp]: "is_ok (Inr x)" "\<not> is_ok (Inl e)"
  by (simp_all add: is_ok_def)

lemma is_ok_iff: "is_ok m \<longleftrightarrow> (\<exists>x. m = Inr x)"
  by (cases m) simp_all

lemma rfold_append: "rfold f (xs @ ys) s = rbind (rfold f xs s) (rfold f ys)"
  by (induction xs arbitrary: s) (simp_all add: rbind_assoc cong: rbind_cong)

text \<open>A loop that keeps an invariant and whose body does not panic under it.\<close>

lemma rfold_invariant:
  assumes "P s" and "\<And>x s. x \<in> set xs \<Longrightarrow> P s \<Longrightarrow> \<exists>s'. f x s = Inr s' \<and> P s'"
  shows "\<exists>s'. rfold f xs s = Inr s' \<and> P s'"
  using assms
proof (induction xs arbitrary: s)
  case Nil
  then show ?case by simp
next
  case (Cons x xs)
  obtain s1 where "f x s = Inr s1" "P s1" using Cons.prems by auto
  moreover have "\<exists>s'. rfold f xs s1 = Inr s' \<and> P s'"
    using \<open>P s1\<close> Cons.prems(2) by (intro Cons.IH) auto
  ultimately show ?case by simp
qed

text \<open>Runs of operations each of which the caller may issue in the state it is issued in.\<close>

fun admits_run :: "('x \<Rightarrow> 's \<Rightarrow> bool) \<Rightarrow> ('x \<Rightarrow> 's \<Rightarrow> 's run) \<Rightarrow> 'x list \<Rightarrow> 's \<Rightarrow> bool" where
  "admits_run admits step [] s = True"
| "admits_run admits step (x # xs) s =
     (admits x s \<and> (case step x s of Inl _ \<Rightarrow> True | Inr s' \<Rightarrow> admits_run admits step xs s'))"

lemma admits_any [simp]: "admits_run (\<lambda>_ _. True) step xs s"
  by (induction xs arbitrary: s) (auto split: sum.split)

lemma admits_run_invariant:
  assumes "P s" "admits_run admits step xs s" and step: "\<And>s x. P s \<Longrightarrow> admits x s \<Longrightarrow> \<exists>s'. step x s = Inr s' \<and> P s'"
  shows "\<exists>s'. rfold step xs s = Inr s' \<and> P s'"
  using assms(1,2)
proof (induction xs arbitrary: s)
  case (Cons x xs)
  then obtain s1 where "step x s = Inr s1" "P s1" using step [of s x] by auto
  then show ?case using Cons.IH [of s1] Cons.prems by simp
qed simp

text \<open>A run in which a step may also fail, in a way that \<open>B\<close> describes: it goes through, or stops at the first such step.\<close>

lemma admits_run_outcome:
  assumes "P s" "admits_run admits step xs s"
    and step: "\<And>x s. P s \<Longrightarrow> admits x s \<Longrightarrow> (\<exists>s'. step x s = Inr s' \<and> P s') \<or> (\<exists>e. step x s = Inl e \<and> B x s e)"
  shows "(\<exists>s'. rfold step xs s = Inr s' \<and> P s') \<or>
     (\<exists>i s' e. i < length xs \<and> rfold step (take i xs) s = Inr s' \<and> P s' \<and> B (xs ! i) s' e \<and> rfold step xs s = Inl e)"
  using assms(1,2)
proof (induction xs arbitrary: s)
  case (Cons x xs)
  from step [of s x] Cons.prems consider (ok) s1 where "step x s = Inr s1" "P s1" | (fail) e where "step x s = Inl e" "B x s e" by auto
  then show ?case
  proof cases
    case ok
    then have "admits_run admits step xs s1" using Cons.prems(2) by simp
    from Cons.IH [OF ok(2) this] show ?thesis
    proof (elim disjE exE conjE)
      fix i s' e assume "i < length xs" "rfold step (take i xs) s1 = Inr s'" "P s'" "B (xs ! i) s' e" "rfold step xs s1 = Inl e"
      then show ?thesis using ok(1) by (intro disjI2 exI [of _ "Suc i"] exI [of _ s'] exI [of _ e]) simp
    qed (use ok(1) in auto)
  next
    case fail
    then show ?thesis using Cons.prems(1) by (intro disjI2 exI [of _ 0] exI [of _ s] exI [of _ e]) simp
  qed
qed simp

section \<open>Lemmas on 64-bit arithmetic\<close>

lemma u64_add_small [simp]: "a + b < 2 ^ 64 \<Longrightarrow> u64_add a b = a + b"
  by (simp add: u64_add_def)

lemma u64_add_bound [simp]: "u64_add a b < 2 ^ 64"
  by (simp add: u64_add_def)

lemma u64_mul_small [simp]: "a * b < 2 ^ 64 \<Longrightarrow> u64_mul a b = a * b"
  by (simp add: u64_mul_def)

lemma u64_sub_small [simp]:
  assumes "b \<le> a" and "a < 2 ^ 64" shows "u64_sub a b = a - b"
proof -
  have "(int a - int b) mod 2 ^ 64 = int a - int b"
    using assms by (intro mod_pos_pos_trivial) auto
  then show ?thesis using assms by (simp add: u64_sub_def of_nat_diff [symmetric] del: of_nat_diff)
qed

lemma u32_add_small [simp]: "a + b < 2 ^ 32 \<Longrightarrow> u32_add a b = a + b"
  by (simp add: u32_add_def)

lemma as_u16_small [simp]: "x < 2 ^ 16 \<Longrightarrow> as_u16 x = x"
  by (simp add: as_u16_def)

lemma as_u32_small [simp]: "x < 2 ^ 32 \<Longrightarrow> as_u32 x = x"
  by (simp add: as_u32_def)

lemma as_u8_small [simp]: "x < 2 ^ 8 \<Longrightarrow> as_u8 x = x"
  by (simp add: as_u8_def)

lemma as_u_bounds [simp]: "as_u8 x < 256" "as_u16 x < 65536" "as_u32 x < 4294967296"
  by (simp_all add: as_u8_def as_u16_def as_u32_def)

section \<open>Lemmas on sorted lists and filters\<close>

lemma insort_insert_fresh: "x \<notin> set xs \<Longrightarrow> insort_insert x xs = insort x xs"
  by (simp add: insort_insert_key_def)

lemma sorted_insort_insert_key: "sorted xs \<Longrightarrow> distinct xs \<Longrightarrow>
    sorted (insort_insert x xs) \<and> distinct (insort_insert x xs)"
  by (simp add: insort_insert_key_def sorted_insort distinct_insort)

lemma length_insort_insert: "length (insort_insert x xs) \<le> Suc (length xs)"
  by (simp add: insort_insert_key_def)

lemma set_map_filter_iff: "y \<in> set (List.map_filter f xs) \<longleftrightarrow> (\<exists>x\<in>set xs. f x = Some y)"
  by (force simp: List.map_filter_def)

lemma filter_less_all: "\<forall>d\<in>set xs. d < (x::nat) \<Longrightarrow> filter (\<lambda>d. d < x) xs = xs"
  by (induction xs) auto

section \<open>The first element that satisfies a predicate\<close>

text \<open>\<^verbatim>\<open>iter_mut().find(p)\<close> and a change of what it finds; \<^verbatim>\<open>remove\<close> of the element \<^verbatim>\<open>find\<close> gives.\<close>

primrec upd_first :: "('a \<Rightarrow> bool) \<Rightarrow> ('a \<Rightarrow> 'a) \<Rightarrow> 'a list \<Rightarrow> 'a list" where
  "upd_first p f [] = []"
| "upd_first p f (x # xs) = (if p x then f x # xs else x # upd_first p f xs)"

primrec del_first :: "('a \<Rightarrow> bool) \<Rightarrow> 'a list \<Rightarrow> 'a list" where
  "del_first p [] = []"
| "del_first p (x # xs) = (if p x then xs else x # del_first p xs)"

lemma map_upd_first: "(\<And>x. p x \<Longrightarrow> g (f x) = g x) \<Longrightarrow> map g (upd_first p f xs) = map g xs"
  by (induction xs) auto

lemma set_upd_first: "x \<in> set (upd_first p f xs) \<Longrightarrow> x \<in> set xs \<or> (\<exists>y\<in>set xs. p y \<and> x = f y)"
  by (induction xs) (auto split: if_splits)

lemma del_first_subset: "set (del_first p xs) \<subseteq> set xs"
  by (induction xs) auto

lemma del_first_distinct: "distinct (map f xs) \<Longrightarrow> distinct (map f (del_first p xs))"
proof (induction xs)
  case (Cons x xs)
  then show ?case using del_first_subset [of p xs] by auto
qed simp

lemma del_first_sorted: "sorted (map g xs) \<Longrightarrow> sorted (map g (del_first p xs))"
proof (induction xs)
  case (Cons x xs)
  then show ?case using del_first_subset [of p xs] by auto
qed simp

lemma find_split: "find p xs = Some x \<Longrightarrow> \<exists>ys zs. xs = ys @ x # zs \<and> p x \<and> (\<forall>y\<in>set ys. \<not> p y) \<and> (\<forall>f. upd_first p f xs = ys @ f x # zs)"
proof (induction xs)
  case (Cons y xs)
  show ?case
  proof (cases "p y")
    case True
    then show ?thesis using Cons.prems by (intro exI [of _ "[]"] exI [of _ xs]) simp
  next
    case False
    then obtain ys zs where "xs = ys @ x # zs" "p x" "\<forall>y\<in>set ys. \<not> p y" "\<forall>f. upd_first p f xs = ys @ f x # zs" using Cons by auto
    then show ?thesis using False by (intro exI [of _ "y # ys"] exI [of _ zs]) simp
  qed
qed simp

end
