(* ===== verification/Index_Map.thy ===== *)
theory Index_Map
  imports Prelude "HOL-Library.Multiset"
begin

text \<open>
  The ordered containers the server keeps its tables in. \<^verbatim>\<open>IndexMap\<close> is an association list in
  iteration order: inserting a present key replaces its value in place, a new key goes to the
  end, and \<^verbatim>\<open>swap_remove\<close> puts the last entry in the place of the removed one. \<^verbatim>\<open>IndexSet\<close> is
  the same on plain lists. The iteration order matters here, because it is the order of the
  messages that the components emit.

  The locale \<open>keyed_store\<close> states what the components rely on (what a lookup returns after an
  insert or a removal, and that the invariant is kept); \<open>im\<close> is its interpretation on the
  association list, \<open>is\<close>-lemmas do the same for sets through \<open>member_store\<close>.
\<close>

section \<open>Removing by swapping with the last entry\<close>

fun swap_remove_key :: "('a \<Rightarrow> 'k) \<Rightarrow> 'k \<Rightarrow> 'a list \<Rightarrow> 'a list" where
  "swap_remove_key f k [] = []"
| "swap_remove_key f k (x # xs) =
     (if f x = k then (if xs = [] then [] else last xs # butlast xs)
      else x # swap_remove_key f k xs)"

section \<open>Index maps\<close>

type_synonym ('k, 'v) imap = "('k \<times> 'v) list"

definition im_get :: "('k, 'v) imap \<Rightarrow> 'k \<Rightarrow> 'v option" where
  "im_get m k = map_of m k"

fun im_insert :: "'k \<Rightarrow> 'v \<Rightarrow> ('k, 'v) imap \<Rightarrow> ('k, 'v) imap" where
  "im_insert k v [] = [(k, v)]"
| "im_insert k v ((k', v') # m) = (if k' = k then (k, v) # m else (k', v') # im_insert k v m)"

definition im_swap_remove :: "'k \<Rightarrow> ('k, 'v) imap \<Rightarrow> ('k, 'v) imap" where
  "im_swap_remove = swap_remove_key fst"

definition im_contains :: "('k, 'v) imap \<Rightarrow> 'k \<Rightarrow> bool" where
  "im_contains m k = (im_get m k \<noteq> None)"

definition im_wf :: "('k, 'v) imap \<Rightarrow> bool" where
  "im_wf m = distinct (map fst m)"

text \<open>\<^verbatim>\<open>entry(k).or_default()\<close>: the present value, or the default.\<close>

definition im_or :: "('k, 'v) imap \<Rightarrow> 'k \<Rightarrow> 'v \<Rightarrow> 'v" where
  "im_or m k d = (case im_get m k of None \<Rightarrow> d | Some v \<Rightarrow> v)"

section \<open>Index sets\<close>

type_synonym 'a iset = "'a list"

definition is_insert :: "'a \<Rightarrow> 'a iset \<Rightarrow> 'a iset" where
  "is_insert x s = (if x \<in> set s then s else s @ [x])"

definition is_swap_remove :: "'a \<Rightarrow> 'a iset \<Rightarrow> 'a iset" where
  "is_swap_remove = swap_remove_key (\<lambda>x. x)"

section \<open>Interfaces\<close>

locale keyed_store =
  fixes empty :: "'m"
    and get :: "'m \<Rightarrow> 'k \<Rightarrow> 'v option"
    and insert :: "'k \<Rightarrow> 'v \<Rightarrow> 'm \<Rightarrow> 'm"
    and remove :: "'k \<Rightarrow> 'm \<Rightarrow> 'm"
    and invar :: "'m \<Rightarrow> bool"
  assumes get_empty: "get empty = (\<lambda>_. None)"
    and get_insert: "invar m \<Longrightarrow> get (insert k v m) = (get m)(k := Some v)"
    and get_remove: "invar m \<Longrightarrow> get (remove k m) = (get m)(k := None)"
    and invar_empty: "invar empty"
    and invar_insert: "invar m \<Longrightarrow> invar (insert k v m)"
    and invar_remove: "invar m \<Longrightarrow> invar (remove k m)"
begin

lemma remove_insert: "invar m \<Longrightarrow> get m k = None \<Longrightarrow> get (remove k (insert k v m)) = get m"
  by (simp add: get_remove get_insert invar_insert fun_upd_idem)

lemma invar_fold_remove: "invar m \<Longrightarrow> invar (fold remove ks m)"
  by (induction ks arbitrary: m) (simp_all add: invar_remove)

lemma get_fold_remove:
  "invar m \<Longrightarrow> get (fold remove ks m) = (\<lambda>k. if k \<in> set ks then None else get m k)"
  by (induction ks arbitrary: m) (auto simp: get_remove invar_remove fun_eq_iff)

lemma invar_fold_insert: "invar m \<Longrightarrow> invar (fold (\<lambda>(k, v). insert k v) kvs m)"
  by (induction kvs arbitrary: m) (auto simp: invar_insert)

end

locale member_store =
  fixes elems :: "'s \<Rightarrow> 'a set"
    and add :: "'a \<Rightarrow> 's \<Rightarrow> 's"
    and del :: "'a \<Rightarrow> 's \<Rightarrow> 's"
    and ok :: "'s \<Rightarrow> bool"
  assumes elems_add: "ok s \<Longrightarrow> elems (add x s) = Set.insert x (elems s)"
    and elems_del: "ok s \<Longrightarrow> elems (del x s) = elems s - {x}"
    and ok_add: "ok s \<Longrightarrow> ok (add x s)"
    and ok_del: "ok s \<Longrightarrow> ok (del x s)"
begin

lemma elems_del_add: "ok s \<Longrightarrow> x \<notin> elems s \<Longrightarrow> elems (del x (add x s)) = elems s"
  by (simp add: elems_del elems_add ok_add)

lemma elems_fold_del: "ok s \<Longrightarrow> elems (fold del xs s) = elems s - set xs"
  by (induction xs arbitrary: s) (auto simp: elems_del ok_del)

end

section \<open>Removal keeps the other entries\<close>

lemma mset_last_butlast: "xs \<noteq> [] \<Longrightarrow> add_mset (last xs) (mset (butlast xs)) = mset xs"
  by (induction xs) auto

lemma set_last_butlast: "xs \<noteq> [] \<Longrightarrow> insert (last xs) (set (butlast xs)) = set xs"
  using mset_last_butlast [of xs] by (metis set_mset_add_mset_insert set_mset_mset)

lemma mset_swap_remove_key:
  "x \<in> set xs \<Longrightarrow> distinct (map f xs) \<Longrightarrow> mset (swap_remove_key f (f x) xs) = mset xs - {#x#}"
proof (induction xs)
  case Nil
  then show ?case by simp
next
  case (Cons y ys)
  show ?case
  proof (cases "f y = f x")
    case True
    with Cons.prems have "y = x" by (auto simp: image_iff)
    then show ?thesis by (simp add: mset_last_butlast)
  next
    case False
    with Cons show ?thesis by auto
  qed
qed

lemma swap_remove_key_absent: "k \<notin> f ` set xs \<Longrightarrow> swap_remove_key f k xs = xs"
  by (induction xs) auto

lemma set_swap_remove_key:
  assumes "distinct (map f xs)"
  shows "set (swap_remove_key f k xs) = {x \<in> set xs. f x \<noteq> k}"
proof (cases "k \<in> f ` set xs")
  case True
  then obtain x where x: "x \<in> set xs" "k = f x" by auto
  have inj: "inj_on f (set xs)" and d: "distinct xs" using assms by (simp_all add: distinct_map)
  have "set (swap_remove_key f k xs) = set_mset (mset xs - {#x#})"
    using mset_swap_remove_key [OF x(1) assms] x(2) by (metis set_mset_mset)
  also have "\<dots> = set xs - {x}"
    using d x(1) by (metis mset_remove1 set_mset_mset set_remove1_eq)
  also have "\<dots> = {y \<in> set xs. f y \<noteq> k}"
    using inj x by (auto simp: inj_on_def)
  finally show ?thesis .
next
  case False
  then show ?thesis by (auto simp: swap_remove_key_absent)
qed

lemma distinct_swap_remove_key:
  assumes "distinct (map f xs)"
  shows "distinct (map f (swap_remove_key f k xs))"
proof (cases "k \<in> f ` set xs")
  case True
  then obtain x where x: "x \<in> set xs" "k = f x" by auto
  have "mset (map f (swap_remove_key f k xs)) = mset (map f (remove1 x xs))"
    using mset_swap_remove_key [OF x(1) assms] x(2) by (simp add: mset_map)
  moreover have "distinct (map f (remove1 x xs))"
    using assms by (auto simp: distinct_map intro: inj_on_subset dest: notin_set_remove1
        set_remove1_subset [THEN subsetD])
  ultimately show ?thesis by (metis mset_eq_imp_distinct_iff)
next
  case False
  then show ?thesis using assms by (simp add: swap_remove_key_absent)
qed

lemma length_swap_remove_key:
  "length (swap_remove_key f k xs) = (if k \<in> f ` set xs then length xs - 1 else length xs)"
proof (induction xs)
  case Nil
  then show ?case by simp
next
  case (Cons x xs)
  then show ?case by (cases xs) auto
qed

section \<open>Index maps implement the interface\<close>

lemma im_insert_keys: "fst ` set (im_insert k v m) = insert k (fst ` set m)"
  by (induction k v m rule: im_insert.induct) auto

lemma im_get_insert: "im_get (im_insert k v m) = (im_get m)(k := Some v)"
  by (induction m) (auto simp: im_get_def fun_eq_iff)

lemma im_wf_insert: "im_wf m \<Longrightarrow> im_wf (im_insert k v m)"
  unfolding im_wf_def by (induction m) (auto simp: im_insert_keys image_iff)

lemma im_wf_swap_remove: "im_wf m \<Longrightarrow> im_wf (im_swap_remove k m)"
  by (simp add: im_wf_def im_swap_remove_def distinct_swap_remove_key)

lemma im_get_eq_Some: "im_wf m \<Longrightarrow> im_get m k = Some v \<longleftrightarrow> (k, v) \<in> set m"
  by (simp add: im_get_def im_wf_def)

lemma im_get_swap_remove: "im_wf m \<Longrightarrow> im_get (im_swap_remove k m) = (im_get m)(k := None)"
proof (rule ext)
  fix j
  assume wf: "im_wf m"
  have set: "set (im_swap_remove k m) = {x \<in> set m. fst x \<noteq> k}"
    using wf by (simp add: im_wf_def im_swap_remove_def set_swap_remove_key)
  have "im_get (im_swap_remove k m) j = Some v \<longleftrightarrow> ((im_get m)(k := None)) j = Some v" for v
    using wf im_get_eq_Some [OF im_wf_swap_remove [OF wf]] by (auto simp: set im_get_eq_Some)
  then show "im_get (im_swap_remove k m) j = ((im_get m)(k := None)) j"
    by (metis option.exhaust)
qed

interpretation im: keyed_store "[]" im_get im_insert im_swap_remove im_wf
proof unfold_locales
  show "im_get [] = (\<lambda>_. None)" by (simp add: im_get_def fun_eq_iff)
  show "im_wf []" by (simp add: im_wf_def)
qed (simp_all add: im_get_insert im_get_swap_remove im_wf_insert im_wf_swap_remove)

lemma im_get_Nil [simp]: "im_get [] k = None"
  by (simp add: im_get_def)

lemma im_wf_Nil [simp]: "im_wf []"
  by (simp add: im_wf_def)

lemma im_contains_iff: "im_contains m k \<longleftrightarrow> k \<in> fst ` set m"
  by (auto simp: im_contains_def im_get_def map_of_eq_None_iff)

lemma im_get_None_iff: "im_get m k = None \<longleftrightarrow> k \<notin> fst ` set m"
  by (simp add: im_get_def map_of_eq_None_iff)

lemma im_empty_iff: "m = [] \<longleftrightarrow> (\<forall>k. im_get m k = None)"
  by (cases m) (auto simp: im_get_def)

lemma im_or_simps [simp]: "im_or m k d = (case im_get m k of None \<Rightarrow> d | Some v \<Rightarrow> v)"
  by (simp add: im_or_def)

lemmas im_upd [list_upd] = im_get_insert im_get_swap_remove im_wf_insert im_wf_swap_remove

lemma set_im_insert_fresh: "im_get m k = None \<Longrightarrow> im_insert k v m = m @ [(k, v)]"
  by (induction m) (auto simp: im_get_def split: if_splits)

lemma set_im_insert_in: "x \<in> set (im_insert k v m) \<Longrightarrow> x = (k, v) \<or> x \<in> set m"
  by (induction k v m rule: im_insert.induct) (auto split: if_splits)

lemma im_insert_not_Nil [simp]: "im_insert k v m \<noteq> []"
  by (induction k v m rule: im_insert.induct) auto

section \<open>Index sets implement the interface\<close>

interpretation iset: member_store set is_insert is_swap_remove distinct
  by unfold_locales
    (auto simp: is_insert_def is_swap_remove_def set_swap_remove_key
      intro: distinct_swap_remove_key [where f = "\<lambda>x. x", simplified])

lemma set_is_insert [simp]: "set (is_insert x s) = insert x (set s)"
  by (auto simp: is_insert_def)

lemma distinct_is_insert [simp]: "distinct s \<Longrightarrow> distinct (is_insert x s)"
  by (simp add: is_insert_def)

lemma is_insert_not_Nil [simp]: "is_insert x s \<noteq> []"
  by (auto simp: is_insert_def)

lemma set_is_swap_remove [simp]: "distinct s \<Longrightarrow> set (is_swap_remove x s) = set s - {x}"
  by (rule iset.elems_del)

lemma distinct_is_swap_remove [simp]: "distinct s \<Longrightarrow> distinct (is_swap_remove x s)"
  by (rule iset.ok_del)

lemma is_swap_remove_Nil_iff:
  "distinct s \<Longrightarrow> is_swap_remove x s = [] \<longleftrightarrow> set s \<subseteq> {x}"
  using set_is_swap_remove [of s x] by (metis Diff_eq_empty_iff set_empty)

section \<open>Linked tables\<close>

text \<open>A table of members by key and a table of keys by member describe the same relation.\<close>

definition linked :: "('m, 'k) imap \<Rightarrow> ('k, 'm list) imap \<Rightarrow> bool" where
  "linked ms ks \<longleftrightarrow> im_wf ms \<and> im_wf ks \<and>
     (\<forall>m k. im_get ms m = Some k \<longrightarrow> (\<exists>xs. im_get ks k = Some xs \<and> m \<in> set xs)) \<and>
     (\<forall>k xs. im_get ks k = Some xs \<longrightarrow> xs \<noteq> [] \<and> distinct xs \<and> (\<forall>m\<in>set xs. im_get ms m = Some k))"

definition im_map :: "('v \<Rightarrow> 'w) \<Rightarrow> ('k, 'v) imap \<Rightarrow> ('k, 'w) imap" where
  "im_map f m = map (\<lambda>(k, v). (k, f v)) m"

lemma im_get_map [simp]: "im_get (im_map f m) k = map_option f (im_get m k)"
  by (induction m) (auto simp: im_map_def im_get_def)

lemma im_map_keys [simp]: "map fst (im_map f m) = map fst m" "fst ` set (im_map f m) = fst ` set m"
  by (force simp: im_map_def)+

lemma im_wf_map [simp]: "im_wf (im_map f m) = im_wf m"
  by (simp add: im_wf_def)

lemma im_map_insert: "im_map f (im_insert k v m) = im_insert k (f v) (im_map f m)"
  by (induction k v m rule: im_insert.induct) (auto simp: im_map_def)

lemma im_map_swap_remove: "im_map f (im_swap_remove k m) = im_swap_remove k (im_map f m)"
proof (induction m)
  case Nil
  then show ?case by (simp add: im_map_def im_swap_remove_def)
next
  case (Cons x m)
  then show ?case by (cases "m = []")
      (auto simp: im_map_def im_swap_remove_def case_prod_unfold last_map map_butlast)
qed

lemma linked_Nil: "linked [] []"
  by (simp add: linked_def)

lemma linkedD:
  assumes "linked ms ks"
  shows "im_wf ms" "im_wf ks"
    and "im_get ms m = Some k \<Longrightarrow> \<exists>xs. im_get ks k = Some xs \<and> m \<in> set xs"
    and "im_get ks k = Some xs \<Longrightarrow> xs \<noteq> [] \<and> distinct xs \<and> (\<forall>m\<in>set xs. im_get ms m = Some k)"
  using assms by (simp_all add: linked_def)

lemma linkedI:
  assumes "im_wf ms" "im_wf ks"
    and "\<And>m k. im_get ms m = Some k \<Longrightarrow> \<exists>xs. im_get ks k = Some xs \<and> m \<in> set xs"
    and "\<And>k xs. im_get ks k = Some xs \<Longrightarrow> xs \<noteq> [] \<and> distinct xs \<and> (\<forall>m\<in>set xs. im_get ms m = Some k)"
  shows "linked ms ks"
  using assms by (simp add: linked_def)

lemma linked_insert:
  assumes l: "linked ms ks" and k: "im_get ms m = None \<or> im_get ms m = Some k"
  shows "linked (im_insert m k ms) (im_insert k (is_insert m (im_or ks k [])) ks)"
proof (rule linkedI)
  note wf = linkedD(1,2) [OF l] and fwd = linkedD(3) [OF l] and bwd = linkedD(4) [OF l]
  show "im_wf (im_insert m k ms)" "im_wf (im_insert k (is_insert m (im_or ks k [])) ks)"
    using wf by (simp_all add: list_upd)
  show "\<exists>xs. im_get (im_insert k (is_insert m (im_or ks k [])) ks) j = Some xs \<and> x \<in> set xs"
    if "im_get (im_insert m k ms) x = Some j" for x j
    using that fwd [of x j] by (cases "x = m"; cases "j = k") (auto simp: list_upd)
  show "xs \<noteq> [] \<and> distinct xs \<and> (\<forall>x\<in>set xs. im_get (im_insert m k ms) x = Some j)"
    if "im_get (im_insert k (is_insert m (im_or ks k [])) ks) j = Some xs" for j xs
  proof (cases "j = k")
    case True
    then have "xs = is_insert m (im_or ks k [])" using that by (simp add: list_upd)
    then show ?thesis using bwd [of k] True by (auto simp: list_upd split: option.splits)
  next
    case False
    then have old: "im_get ks j = Some xs" using that by (simp add: list_upd)
    then have "m \<notin> set xs" using bwd [OF old] k False by force
    then show ?thesis using bwd [OF old] by (auto simp: list_upd)
  qed
qed

lemma linked_remove:
  assumes l: "linked ms ks" and m: "im_get ms m = Some k" and xs: "im_get ks k = Some xs"
  shows "m \<in> set xs" "distinct xs"
    and "linked (im_swap_remove m ms)
      (if is_swap_remove m xs = [] then im_swap_remove k ks else im_insert k (is_swap_remove m xs) ks)"
proof -
  note wf = linkedD(1,2) [OF l] and fwd = linkedD(3) [OF l] and bwd = linkedD(4) [OF l]
  show mem: "m \<in> set xs" and d: "distinct xs" using fwd [OF m] bwd [OF xs] xs by auto
  let ?ks = "if is_swap_remove m xs = [] then im_swap_remove k ks else im_insert k (is_swap_remove m xs) ks"
  have get: "im_get ?ks = (im_get ks)(k := if is_swap_remove m xs = [] then None else Some (is_swap_remove m xs))"
    using wf by (simp add: list_upd)
  show "linked (im_swap_remove m ms) ?ks"
  proof (rule linkedI)
    show "im_wf (im_swap_remove m ms)" "im_wf ?ks" using wf by (simp_all add: list_upd)
    show "\<exists>ys. im_get ?ks j = Some ys \<and> x \<in> set ys" if "im_get (im_swap_remove m ms) x = Some j" for x j
    proof -
      have x: "x \<noteq> m" "im_get ms x = Some j" using that wf by (auto simp: list_upd split: if_splits)
      show ?thesis
      proof (cases "j = k")
        case True
        then have "x \<in> set (is_swap_remove m xs)" using fwd [OF x(2)] x(1) xs d by auto
        then show ?thesis using True unfolding get by auto
      next
        case False
        then show ?thesis using fwd [OF x(2)] unfolding get by auto
      qed
    qed
    show "ys \<noteq> [] \<and> distinct ys \<and> (\<forall>x\<in>set ys. im_get (im_swap_remove m ms) x = Some j)"
      if "im_get ?ks j = Some ys" for j ys
    proof (cases "j = k")
      case True
      then have "ys = is_swap_remove m xs" "ys \<noteq> []" using that unfolding get by (auto split: if_splits)
      then show ?thesis using bwd [OF xs] d wf True by (auto simp: list_upd)
    next
      case False
      then have old: "im_get ks j = Some ys" using that unfolding get by simp
      then have "m \<notin> set ys" using bwd [OF old] m False by force
      then show ?thesis using bwd [OF old] wf by (auto simp: list_upd)
    qed
  qed
qed

lemma linked_empty: "linked [] ks \<Longrightarrow> ks = []"
proof (rule ccontr)
  assume l: "linked [] ks" and "ks \<noteq> []"
  then obtain k xs where "im_get ks k = Some xs" by (auto simp: im_empty_iff [of ks])
  then show False using linkedD(4) [OF l] by (metis im_get_Nil list.set_intros(1) neq_Nil_conv option.distinct(1))
qed

lemma im_keys_insert: "fst ` set (im_insert k v m) = insert k (fst ` set m)"
  by (rule im_insert_keys)

lemma im_keys_swap_remove: "im_wf m \<Longrightarrow> fst ` set (im_swap_remove k m) = fst ` set m - {k}"
  by (auto simp: im_wf_def im_swap_remove_def set_swap_remove_key)

lemma im_get_Some_key: "im_get m k = Some v \<Longrightarrow> k \<in> fst ` set m"
  using im_get_None_iff [of m k] by simp

lemma im_get_None_key: "im_get m k = None \<Longrightarrow> k \<notin> fst ` set m"
  using im_get_None_iff [of m k] by simp

text \<open>Writing back a value with the same image does not change the image of the table.\<close>

lemma im_map_insert_same: "im_get m k = Some v \<Longrightarrow> f w = f v \<Longrightarrow> im_map f (im_insert k w m) = im_map f m"
  by (induction m) (auto simp: im_map_def im_get_def split: if_splits)

section \<open>Tables of sets\<close>

text \<open>Many-to-many relations are kept as two tables of sets, each the converse of the other. An
  entry disappears with its last element. \<open>st_mem m k x\<close> says that \<open>x\<close> is in the set of \<open>k\<close>.\<close>

definition st_mem :: "('k, 'x list) imap \<Rightarrow> 'k \<Rightarrow> 'x \<Rightarrow> bool" where
  "st_mem m k x = (case im_get m k of None \<Rightarrow> False | Some xs \<Rightarrow> x \<in> set xs)"

definition st_wf :: "('k, 'x list) imap \<Rightarrow> bool" where
  "st_wf m \<longleftrightarrow> im_wf m \<and> (\<forall>k xs. im_get m k = Some xs \<longrightarrow> xs \<noteq> [] \<and> distinct xs)"

definition st_add :: "'k \<Rightarrow> 'x \<Rightarrow> ('k, 'x list) imap \<Rightarrow> ('k, 'x list) imap" where
  "st_add k x m = im_insert k (is_insert x (im_or m k [])) m"

definition st_del :: "'k \<Rightarrow> 'x \<Rightarrow> ('k, 'x list) imap \<Rightarrow> ('k, 'x list) imap" where
  "st_del k x m = (case im_get m k of None \<Rightarrow> m
     | Some xs \<Rightarrow> let l = is_swap_remove x xs in if l = [] then im_swap_remove k m else im_insert k l m)"

definition cross :: "('k, 'x list) imap \<Rightarrow> ('x, 'k list) imap \<Rightarrow> bool" where
  "cross ks ms \<longleftrightarrow> st_wf ks \<and> st_wf ms \<and> (\<forall>k x. st_mem ks k x = st_mem ms x k)"

lemma st_wf_add: "st_wf m \<Longrightarrow> st_wf (st_add k x m)"
  by (auto simp: st_wf_def st_add_def list_upd split: option.splits if_splits)

lemma st_mem_add: "st_mem (st_add k x m) k' x' \<longleftrightarrow> st_mem m k' x' \<or> k' = k \<and> x' = x"
  by (auto simp: st_mem_def st_add_def list_upd split: option.splits)

lemma st_wf_del: "st_wf m \<Longrightarrow> st_wf (st_del k x m)"
  by (auto simp: st_wf_def st_del_def Let_def list_upd split: option.splits if_splits)

lemma st_mem_del:
  assumes "st_wf m" shows "st_mem (st_del k x m) k' x' \<longleftrightarrow> st_mem m k' x' \<and> \<not> (k' = k \<and> x' = x)"
proof (cases "im_get m k")
  case None
  then show ?thesis by (auto simp: st_mem_def st_del_def)
next
  case (Some xs)
  then have "im_wf m" "distinct xs" using assms by (auto simp: st_wf_def)
  then show ?thesis
    using Some set_is_swap_remove [of xs x]
    by (cases "is_swap_remove x xs = []"; cases "k' = k") (auto simp: st_mem_def st_del_def list_upd)
qed

lemma st_keys: "st_wf m \<Longrightarrow> k \<in> fst ` set m \<longleftrightarrow> (\<exists>x. st_mem m k x)"
proof (cases "im_get m k")
  case None
  then show ?thesis using im_get_None_key [OF None] by (simp add: st_mem_def)
next
  case (Some xs)
  moreover assume "st_wf m"
  ultimately have "xs \<noteq> []" by (auto simp: st_wf_def)
  then show ?thesis using Some im_get_Some_key [OF Some] by (auto simp: st_mem_def neq_Nil_conv)
qed

lemma st_keys_add: "fst ` set (st_add k x m) = insert k (fst ` set m)"
  by (simp add: st_add_def im_keys_insert)

lemma st_del_keys:
  assumes "st_wf m" "st_mem m k x"
  shows "fst ` set (st_del k x m) = fst ` set m - (if k \<in> fst ` set (st_del k x m) then {} else {k})" "k \<in> fst ` set m"
proof -
  show k: "k \<in> fst ` set m" using assms st_keys by fast
  have "im_wf m" using assms(1) by (simp add: st_wf_def)
  then show "fst ` set (st_del k x m) = fst ` set m - (if k \<in> fst ` set (st_del k x m) then {} else {k})"
    using k by (auto simp: st_del_def Let_def im_keys_insert im_keys_swap_remove split: option.splits)
qed

lemma cross_Nil: "cross [] []"
  by (simp add: cross_def st_wf_def st_mem_def)

lemma cross_add: "cross ks ms \<Longrightarrow> cross (st_add k x ks) (st_add x k ms)"
  by (auto simp: cross_def st_wf_add st_mem_add)

lemma cross_del: "cross ks ms \<Longrightarrow> cross (st_del k x ks) (st_del x k ms)"
  by (auto simp: cross_def st_wf_del st_mem_del)

lemma cross_empty: "cross ks [] \<Longrightarrow> ks = []"
proof -
  assume c: "cross ks []"
  then have "k \<notin> fst ` set ks" for k using st_keys [of ks k] by (auto simp: cross_def st_mem_def)
  then show "ks = []" by (metis image_is_empty set_empty equals0I)
qed

lemma im_swap_remove_insert: "im_get m k = Some w \<Longrightarrow> im_swap_remove k (im_insert k v m) = im_swap_remove k m"
  by (induction m) (auto simp: im_swap_remove_def im_get_def split: if_splits)

text \<open>An endpoint leaves: its entry goes, and it is deleted from every set it was in.\<close>

lemma st_wf_fold_del: "st_wf m \<Longrightarrow> st_wf (fold (\<lambda>k. st_del k x) ks m)"
  by (induction ks arbitrary: m) (auto simp: st_wf_del)

lemma st_mem_fold_del:
  "st_wf m \<Longrightarrow> st_mem (fold (\<lambda>k. st_del k x) ks m) k' x' \<longleftrightarrow> st_mem m k' x' \<and> \<not> (k' \<in> set ks \<and> x' = x)"
  by (induction ks arbitrary: m) (auto simp: st_wf_del st_mem_del)

lemma cross_leave:
  assumes c: "cross ks ms" and x: "im_get ms x = Some cs"
  shows "cross (fold (\<lambda>k. st_del k x) cs ks) (im_swap_remove x ms)"
proof -
  have wf: "st_wf ks" "st_wf ms" "im_wf ms" using c by (auto simp: cross_def st_wf_def)
  have "st_wf (im_swap_remove x ms)" using wf(2) by (auto simp: st_wf_def list_upd split: if_splits)
  moreover have "st_mem (im_swap_remove x ms) x' k \<longleftrightarrow> st_mem ms x' k \<and> x' \<noteq> x" for x' k
    using wf(3) by (simp add: st_mem_def list_upd)
  moreover have "k \<in> set cs \<longleftrightarrow> st_mem ks k x" for k
    using c x by (simp add: cross_def st_mem_def [of ms])
  ultimately show ?thesis using c wf(1) by (auto simp: cross_def st_wf_fold_del st_mem_fold_del)
qed

end
