(* ===== verification/Index_Map_2d.thy ===== *)
theory Index_Map_2d
  imports Index_Map
begin

text \<open>
  \<^verbatim>\<open>packages/media_utils/src/indexmap_2d.rs\<close>: \<^verbatim>\<open>IndexMap2d\<close>, a table that is looked up from both
  sides, kept as two index maps. \<open>im2_wf\<close> says that the two sides are inverse to each other.
  The locale \<open>two_way_store\<close> is what the endpoint relies on when it keeps the transport's track
  ids beside its own tasks; \<open>im2\<close> is its interpretation.
\<close>

section \<open>The table\<close>

record ('a, 'b) index_map_2d =
  im2_data :: "('a, 'b) imap"
  im2_reverse :: "('b, 'a) imap"

definition im2_default :: "('a, 'b) index_map_2d" where
  "im2_default = \<lparr>im2_data = [], im2_reverse = []\<rparr>"

definition im2_insert :: "'a \<Rightarrow> 'b \<Rightarrow> ('a, 'b) index_map_2d \<Rightarrow> ('a, 'b) index_map_2d" where
  "im2_insert key val m =
     m\<lparr>im2_data := im_insert key val (im2_data m), im2_reverse := im_insert val key (im2_reverse m)\<rparr>"

definition im2_keys1 :: "('a, 'b) index_map_2d \<Rightarrow> 'a list" where
  "im2_keys1 m = map fst (im2_data m)"

definition im2_pairs :: "('a, 'b) index_map_2d \<Rightarrow> ('a \<times> 'b) list" where
  "im2_pairs m = im2_data m"

definition im2_keys2 :: "('a, 'b) index_map_2d \<Rightarrow> 'b list" where
  "im2_keys2 m = map fst (im2_reverse m)"

definition im2_get1 :: "('a, 'b) index_map_2d \<Rightarrow> 'a \<Rightarrow> 'b option" where
  "im2_get1 m = im_get (im2_data m)"

definition im2_get2 :: "('a, 'b) index_map_2d \<Rightarrow> 'b \<Rightarrow> 'a option" where
  "im2_get2 m = im_get (im2_reverse m)"

definition im2_remove1 :: "'a \<Rightarrow> ('a, 'b) index_map_2d \<Rightarrow> ('a, 'b) index_map_2d \<times> 'b option" where
  "im2_remove1 key m =
     (case im_get (im2_data m) key of
        None \<Rightarrow> (m, None)
      | Some val \<Rightarrow> (m\<lparr>im2_data := im_swap_remove key (im2_data m),
                     im2_reverse := im_swap_remove val (im2_reverse m)\<rparr>, Some val))"

definition im2_remove2 :: "'b \<Rightarrow> ('a, 'b) index_map_2d \<Rightarrow> ('a, 'b) index_map_2d \<times> 'a option" where
  "im2_remove2 key m =
     (case im_get (im2_reverse m) key of
        None \<Rightarrow> (m, None)
      | Some val \<Rightarrow> (m\<lparr>im2_reverse := im_swap_remove key (im2_reverse m),
                     im2_data := im_swap_remove val (im2_data m)\<rparr>, Some val))"

definition im2_len :: "('a, 'b) index_map_2d \<Rightarrow> nat" where
  "im2_len m = length (im2_data m)"

definition im2_is_empty :: "('a, 'b) index_map_2d \<Rightarrow> bool" where
  "im2_is_empty m = (im2_data m = [])"

section \<open>The invariant\<close>

definition im2_wf :: "('a, 'b) index_map_2d \<Rightarrow> bool" where
  "im2_wf m \<longleftrightarrow> im_wf (im2_data m) \<and> im_wf (im2_reverse m) \<and>
     (\<forall>a b. im2_get1 m a = Some b \<longleftrightarrow> im2_get2 m b = Some a)"

text \<open>An insertion keeps the table inverse when it does not rebind only one of its sides.\<close>

definition im2_fits :: "'a \<Rightarrow> 'b \<Rightarrow> ('a, 'b) index_map_2d \<Rightarrow> bool" where
  "im2_fits a b m \<longleftrightarrow> im2_get1 m a \<in> {None, Some b} \<and> im2_get2 m b \<in> {None, Some a}"

datatype ('a, 'b) im2_op = Im2_Insert 'a 'b | Im2_Remove1 'a | Im2_Remove2 'b

fun im2_step :: "('a, 'b) im2_op \<Rightarrow> ('a, 'b) index_map_2d \<Rightarrow> ('a, 'b) index_map_2d" where
  "im2_step (Im2_Insert a b) m = im2_insert a b m"
| "im2_step (Im2_Remove1 a) m = fst (im2_remove1 a m)"
| "im2_step (Im2_Remove2 b) m = fst (im2_remove2 b m)"

fun im2_fits_run :: "('a, 'b) im2_op list \<Rightarrow> ('a, 'b) index_map_2d \<Rightarrow> bool" where
  "im2_fits_run [] m = True"
| "im2_fits_run (c # cs) m =
     ((case c of Im2_Insert a b \<Rightarrow> im2_fits a b m | _ \<Rightarrow> True) \<and> im2_fits_run cs (im2_step c m))"

section \<open>The interface\<close>

locale two_way_store =
  fixes look1 :: "'m \<Rightarrow> 'a \<Rightarrow> 'b option"
    and look2 :: "'m \<Rightarrow> 'b \<Rightarrow> 'a option"
    and bind2 :: "'a \<Rightarrow> 'b \<Rightarrow> 'm \<Rightarrow> 'm"
    and drop1 :: "'a \<Rightarrow> 'm \<Rightarrow> 'm"
    and inverse_sides :: "'m \<Rightarrow> bool"
  assumes sides: "inverse_sides m \<Longrightarrow> look1 m a = Some b \<longleftrightarrow> look2 m b = Some a"
    and bind2_sides: "inverse_sides m \<Longrightarrow> look1 m a = None \<Longrightarrow> look2 m b = None \<Longrightarrow>
      inverse_sides (bind2 a b m)"
    and look1_bind2: "inverse_sides m \<Longrightarrow> look1 (bind2 a b m) = (look1 m)(a := Some b)"
    and drop1_sides: "inverse_sides m \<Longrightarrow> inverse_sides (drop1 a m)"
    and look1_drop1: "inverse_sides m \<Longrightarrow> look1 (drop1 a m) = (look1 m)(a := None)"
begin

lemma look1_inj: "inverse_sides m \<Longrightarrow> look1 m a = Some b \<Longrightarrow> look1 m a' = Some b \<Longrightarrow> a = a'"
  by (simp add: sides)

lemma look2_drop1_unreachable: "inverse_sides m \<Longrightarrow> look2 (drop1 a m) b \<noteq> Some a"
  using sides [OF drop1_sides, of m a a b] by (simp add: look1_drop1)

end

section \<open>Every operation keeps the sides inverse\<close>

lemma im2_wf_insert: "im2_wf m \<Longrightarrow> im2_fits a b m \<Longrightarrow> im2_wf (im2_insert a b m)"
  unfolding im2_wf_def im2_fits_def im2_get1_def im2_get2_def im2_insert_def
  by (auto simp: list_upd) (metis option.inject option.distinct(1))+

lemma im2_wf_remove1: "im2_wf m \<Longrightarrow> im2_wf (fst (im2_remove1 a m))"
  unfolding im2_wf_def im2_get1_def im2_get2_def im2_remove1_def
  by (auto simp: list_upd split: option.splits) (metis option.inject)

lemma im2_wf_remove2: "im2_wf m \<Longrightarrow> im2_wf (fst (im2_remove2 b m))"
  unfolding im2_wf_def im2_get1_def im2_get2_def im2_remove2_def
  by (auto simp: list_upd split: option.splits) (metis option.inject)

lemma im2_wf_step: "im2_wf m \<Longrightarrow> (case c of Im2_Insert a b \<Rightarrow> im2_fits a b m | _ \<Rightarrow> True) \<Longrightarrow>
    im2_wf (im2_step c m)"
  by (cases c) (simp_all add: im2_wf_insert im2_wf_remove1 im2_wf_remove2)

interpretation im2: two_way_store im2_get1 im2_get2 im2_insert "\<lambda>a m. fst (im2_remove1 a m)" im2_wf
proof unfold_locales
  fix m :: "('a, 'b) index_map_2d" and a b
  assume wf: "im2_wf m"
  then show "im2_get1 m a = Some b \<longleftrightarrow> im2_get2 m b = Some a" by (simp add: im2_wf_def)
  show "im2_wf (fst (im2_remove1 a m))" using wf by (rule im2_wf_remove1)
  show "im2_get1 (im2_insert a b m) = (im2_get1 m)(a := Some b)"
    by (simp add: im2_get1_def im2_insert_def list_upd)
  show "im2_get1 (fst (im2_remove1 a m)) = (im2_get1 m)(a := None)"
    using wf by (auto simp: im2_get1_def im2_remove1_def im2_wf_def list_upd fun_eq_iff split: option.splits)
  assume "im2_get1 m a = None" "im2_get2 m b = None"
  then show "im2_wf (im2_insert a b m)" using wf by (simp add: im2_wf_insert im2_fits_def)
qed

lemma im2_wf_default: "im2_wf im2_default"
  by (simp add: im2_wf_def im2_default_def im2_get1_def im2_get2_def)

lemma im2_wf_run: "im2_wf m \<Longrightarrow> im2_fits_run cs m \<Longrightarrow> im2_wf (fold im2_step cs m)"
  by (induction cs arbitrary: m) (auto intro: im2_wf_step)

lemma im_wf_map_of: "im_wf m \<Longrightarrow> (a, b) \<in> set m \<longleftrightarrow> im_get m a = Some b"
  by (simp add: im_get_eq_Some)

lemma im2_same_size: "im2_wf m \<Longrightarrow> length (im2_reverse m) = length (im2_data m)"
proof -
  assume wf: "im2_wf m"
  then have s: "set (im2_reverse m) = (\<lambda>(a, b). (b, a)) ` set (im2_data m)"
    by (force simp: im2_wf_def im2_get1_def im2_get2_def im_wf_map_of [symmetric] image_iff)
  have "distinct (im2_data m)" "distinct (im2_reverse m)"
    using wf by (auto simp: im2_wf_def im_wf_def distinct_map)
  then have "length (im2_reverse m) = card (set (im2_reverse m))"
    "length (im2_data m) = card (set (im2_data m))" by (simp_all add: distinct_card)
  moreover have "card ((\<lambda>(a, b). (b, a)) ` set (im2_data m)) = card (set (im2_data m))"
    by (rule card_image) (auto simp: inj_on_def)
  ultimately show ?thesis using s by simp
qed

section \<open>Properties\<close>

text \<open>
  The two sides of the table stay inverse to each other, and of the same size, through every
  sequence of insertions and removals in which no insertion rebinds only one side of an existing
  pair: whatever one side maps to, the other maps back.
\<close>

theorem im2_run_inverse:
  assumes "im2_fits_run cs im2_default"
  defines "m \<equiv> fold im2_step cs im2_default"
  shows "(im2_get1 m a = Some b \<longleftrightarrow> im2_get2 m b = Some a) \<and> length (im2_keys2 m) = im2_len m"
proof -
  have wf: "im2_wf m" unfolding m_def by (rule im2_wf_run [OF im2_wf_default assms(1)])
  then show ?thesis by (simp add: im2.sides im2_keys2_def im2_len_def im2_same_size)
qed

theorem im2_run_inverse_witness:
  "im2_get2 (fold im2_step [Im2_Insert (1::nat) ''a'', Im2_Insert 2 ''b'', Im2_Remove1 1, Im2_Insert 1 ''c'']
      im2_default) ''c'' = Some 1"
proof -
  let ?cs = "[Im2_Insert (1::nat) ''a'', Im2_Insert 2 ''b'', Im2_Remove1 1, Im2_Insert 1 ''c'']"
  have "im2_fits_run ?cs im2_default"
    by (simp add: im2_fits_def im2_default_def im2_get1_def im2_get2_def im2_insert_def im2_remove1_def
        im_get_def im_swap_remove_def)
  from im2_run_inverse [OF this, of 1 "''c''"] show ?thesis
    by (simp add: im2_default_def im2_get1_def im2_insert_def im2_remove1_def im_get_def im_swap_remove_def)
qed

text \<open>
  An insertion that gives a bound key another value leaves the old pair behind on the other
  side: the old value still maps back to the key, and \<^verbatim>\<open>remove1\<close> of the key does not remove it.
\<close>

theorem im2_insert_rebind_stale:
  assumes "im2_wf m" and "im2_get1 m a = Some b" and "c \<noteq> b" and "im2_get2 m c = None"
  shows "im2_get2 (fst (im2_remove1 a (im2_insert a c m))) b = Some a \<and>
     im2_get1 (fst (im2_remove1 a (im2_insert a c m))) a = None"
proof -
  have "im_wf (im_insert c a (im2_reverse m))" "im_wf (im_insert a c (im2_data m))"
    using assms(1) by (simp_all add: im2_wf_def list_upd)
  moreover have "im2_get2 m b = Some a" using assms(2) im2.sides [OF assms(1)] by simp
  ultimately show ?thesis
    using assms(3) by (simp add: im2_get1_def im2_get2_def im2_insert_def im2_remove1_def list_upd)
qed

theorem im2_insert_rebind_stale_witness:
  "im2_get2 (fst (im2_remove1 (1::nat) (im2_insert 1 ''c'' (im2_insert 1 ''a'' im2_default)))) ''a'' = Some 1"
proof -
  let ?m = "im2_insert (1::nat) ''a'' im2_default"
  have "im2_wf ?m"
    by (rule im2_wf_insert [OF im2_wf_default]) (simp add: im2_fits_def im2_get1_def im2_get2_def im2_default_def)
  moreover have "im2_get1 ?m 1 = Some ''a''" "im2_get2 ?m ''c'' = None"
    by (simp_all add: im2_get1_def im2_get2_def im2_insert_def im2_default_def im_get_def)
  ultimately show ?thesis using im2_insert_rebind_stale [of ?m 1 "''a''" "''c''"] by simp
qed

end
