(* ===== verification/Seq_Rewrite.thy ===== *)
theory Seq_Rewrite
  imports Prelude
begin

text \<open>
  \<^verbatim>\<open>packages/media_utils/src/seq_rewrite.rs\<close>: the sequence-number rewriter that every outgoing
  media track uses, so that a receiver sees one gap-free RTP stream although the server switches
  sources and drops packets. The const generic \<^verbatim>\<open>MAX\<close> is the argument \<open>M\<close>; \<^verbatim>\<open>DROPPED_QUEUE_LEN\<close>
  is only a capacity hint and has no effect on results. The sorted set of dropped inputs is a
  strictly sorted list (\<open>insort_insert\<close> is its \<^verbatim>\<open>push\<close>).

  Results: every operation keeps \<open>sr_wf\<close> and does not panic on inputs below \<open>M\<close>
  (\<open>sr_generate_safe\<close>, \<open>sr_drop_value_safe\<close>); on an in-order input stream, in which each number
  is either forwarded or dropped, the outputs are consecutive across wrap-around and source
  switches (\<open>sr_run_consecutive\<close>).
\<close>

record seq_rewrite =
  sr_base :: nat
  sr_max_output :: nat
  sr_max_input :: nat
  sr_seq_delta :: nat
  sr_dropped :: "nat list"
  sr_reinit_flag :: bool
  sr_reinit_offset :: "nat option"

definition sr_default :: seq_rewrite where
  "sr_default = \<lparr>sr_base = 0, sr_max_output = 0, sr_max_input = 0, sr_seq_delta = 0,
     sr_dropped = [], sr_reinit_flag = False, sr_reinit_offset = None\<rparr>"

definition sr_reinit :: "seq_rewrite \<Rightarrow> seq_rewrite" where
  "sr_reinit s = s\<lparr>sr_reinit_flag := True\<rparr>"

definition sr_wrapping_sub :: "nat \<Rightarrow> nat \<Rightarrow> nat \<Rightarrow> nat run" where
  "sr_wrapping_sub M v1 v2 =
     rbind (rassert (v1 < M)) (\<lambda>_.
     rbind (rassert (v2 < M)) (\<lambda>_.
     Inr (if v2 \<le> v1 then v1 - v2 else u64_sub (u64_add v1 M) v2)))"

definition sr_wrapping_add :: "nat \<Rightarrow> nat \<Rightarrow> nat \<Rightarrow> nat" where
  "sr_wrapping_add M v1 v2 = u64_add v1 v2 mod M"

definition sr_is_seq_lower_than :: "nat \<Rightarrow> nat \<Rightarrow> nat \<Rightarrow> bool" where
  "sr_is_seq_lower_than M lhs rhs =
     (rhs > lhs \<and> rhs - lhs \<le> M div 2 \<or> lhs > rhs \<and> lhs - rhs > M div 2)"

definition sr_is_seq_higher_than :: "nat \<Rightarrow> nat \<Rightarrow> nat \<Rightarrow> bool" where
  "sr_is_seq_higher_than M lhs rhs =
     (lhs > rhs \<and> lhs - rhs \<le> M div 2 \<or> rhs > lhs \<and> rhs - lhs > M div 2)"

definition sr_offset :: "nat \<Rightarrow> nat \<Rightarrow> seq_rewrite \<Rightarrow> seq_rewrite" where
  "sr_offset M off s =
     (if sr_reinit_flag s
      then s\<lparr>sr_reinit_offset :=
               Some (u64_add (case sr_reinit_offset s of None \<Rightarrow> 0 | Some o' \<Rightarrow> o') off)\<rparr>
      else s\<lparr>sr_base := sr_wrapping_add M (sr_base s) off\<rparr>)"

definition sr_sync :: "nat \<Rightarrow> nat \<Rightarrow> seq_rewrite \<Rightarrow> seq_rewrite run" where
  "sr_sync M v s =
     rbind (rassert (v < M)) (\<lambda>_.
     rbind (sr_wrapping_sub M (sr_max_output s) v) (\<lambda>b.
     Inr (s\<lparr>sr_base := b, sr_max_input := v, sr_seq_delta := 0, sr_dropped := []\<rparr>)))"

text \<open>The prologue that \<^verbatim>\<open>drop_value\<close> and \<^verbatim>\<open>generate\<close> share: after \<^verbatim>\<open>reinit\<close>, the first input
  of the new stream is aligned with the last output.\<close>

definition sr_resync :: "nat \<Rightarrow> nat \<Rightarrow> seq_rewrite \<Rightarrow> seq_rewrite run" where
  "sr_resync M inp s =
     (if sr_reinit_flag s then
        rbind (sr_wrapping_sub M inp 1) (\<lambda>v.
        rbind (sr_sync M v (s\<lparr>sr_reinit_flag := False\<rparr>)) (\<lambda>s1.
        Inr (case sr_reinit_offset s1 of
               None \<Rightarrow> s1
             | Some off \<Rightarrow> sr_offset M off (s1\<lparr>sr_reinit_offset := None\<rparr>))))
      else Inr s)"

definition sr_extended_seq :: "nat \<Rightarrow> nat \<Rightarrow> seq_rewrite \<Rightarrow> (seq_rewrite \<times> nat) run" where
  "sr_extended_seq M v s =
     rbind (rassert (v < M)) (\<lambda>_.
     let s1 = (if v < sr_max_input s \<and> sr_max_input s - v > M div 2
               then s\<lparr>sr_seq_delta := u64_add (sr_seq_delta s) M\<rparr> else s)
     in Inr (s1, u64_add (sr_seq_delta s1) v))"

definition sr_drop_value :: "nat \<Rightarrow> nat \<Rightarrow> seq_rewrite \<Rightarrow> seq_rewrite run" where
  "sr_drop_value M inp s =
     rbind (rassert (inp < M)) (\<lambda>_.
     rbind (sr_resync M inp s) (\<lambda>s1.
     rbind (sr_extended_seq M inp s1) (\<lambda>(s2, ext).
     let s3 = (if sr_is_seq_higher_than M inp (sr_max_input s2)
               then s2\<lparr>sr_dropped := insort_insert ext (sr_dropped s2)\<rparr> else s2)
     in if length (sr_dropped s3) > 1000
        then (let n = length (sr_dropped s3) - 1000 in
              rbind (sr_wrapping_sub M (sr_base s3) n) (\<lambda>b.
              Inr (s3\<lparr>sr_dropped := drop n (sr_dropped s3), sr_base := b\<rparr>)))
        else Inr s3)))"

text \<open>\<^verbatim>\<open>binary_search\<close> on the sorted set: found, or the insertion point.\<close>

definition sr_binary_search :: "nat list \<Rightarrow> nat \<Rightarrow> nat + nat" where
  "sr_binary_search D x =
     (let i = length (filter (\<lambda>d. d < x) D) in if x \<in> set D then Inl i else Inr i)"

definition sr_emit :: "nat \<Rightarrow> nat \<Rightarrow> nat \<Rightarrow> seq_rewrite \<Rightarrow> (seq_rewrite \<times> nat option) run" where
  "sr_emit M inp b s =
     (let out = sr_wrapping_add M inp b in
      rbind (sr_wrapping_sub M inp (sr_max_input s)) (\<lambda>idelta.
      rbind (sr_wrapping_sub M out (sr_max_output s)) (\<lambda>odelta.
      let s1 = (if idelta < M div 2 then s\<lparr>sr_max_input := inp\<rparr> else s);
          s2 = (if odelta < M div 2 then s1\<lparr>sr_max_output := out\<rparr> else s1)
      in Inr (s2, Some out))))"

definition sr_generate :: "nat \<Rightarrow> nat \<Rightarrow> seq_rewrite \<Rightarrow> (seq_rewrite \<times> nat option) run" where
  "sr_generate M inp s =
     rbind (rassert (inp < M)) (\<lambda>_.
     rbind (sr_resync M inp s) (\<lambda>s1.
     rbind (sr_extended_seq M inp s1) (\<lambda>(s2, ext).
     if sr_dropped s2 \<noteq> [] then
       (case sr_binary_search (sr_dropped s2) ext of
          Inl _ \<Rightarrow> Inr (s2, None)
        | Inr i \<Rightarrow>
            rbind (sr_wrapping_sub M (sr_base s2)
                     (length (sr_dropped s2) - (length (sr_dropped s2) - i)))
              (\<lambda>b. sr_emit M inp b s2))
     else sr_emit M inp (sr_base s2) s2)))"

text \<open>A stream of consecutive inputs starting at \<open>x\<close>, each dropped (\<open>True\<close>) or forwarded
  (\<open>False\<close>), and the outputs the receiver gets.\<close>

fun sr_run :: "nat \<Rightarrow> nat \<Rightarrow> bool list \<Rightarrow> seq_rewrite \<Rightarrow> (seq_rewrite \<times> nat list) run" where
  "sr_run M x [] s = Inr (s, [])"
| "sr_run M x (True # ds) s =
     rbind (sr_drop_value M x s) (\<lambda>s1. sr_run M ((x + 1) mod M) ds s1)"
| "sr_run M x (False # ds) s =
     rbind (sr_generate M x s) (\<lambda>(s1, r).
     rbind (sr_run M ((x + 1) mod M) ds s1) (\<lambda>(s2, os).
     Inr (s2, (case r of None \<Rightarrow> os | Some out \<Rightarrow> out # os))))"

section \<open>Well-formed states, aligned states, and bounded gaps\<close>

definition sr_wf :: "nat \<Rightarrow> seq_rewrite \<Rightarrow> bool" where
  "sr_wf M s \<longleftrightarrow> sr_base s < M \<and> sr_max_output s < M \<and> sr_max_input s < M \<and>
     sorted (sr_dropped s) \<and> distinct (sr_dropped s) \<and> length (sr_dropped s) \<le> 1000"

text \<open>The moduli in use are \<open>2 ^ 16\<close> for sequence numbers and \<open>2 ^ 15\<close> for picture ids.\<close>

definition sr_modulus :: "nat \<Rightarrow> bool" where
  "sr_modulus M \<longleftrightarrow> 1001 < M \<and> M \<le> 2 ^ 32"

text \<open>The state right after the first input of a new stream has been aligned.\<close>

definition sr_synced :: "nat \<Rightarrow> nat \<Rightarrow> seq_rewrite \<Rightarrow> seq_rewrite" where
  "sr_synced M x s = (let v = nat ((int x - 1) mod int M) in
     s\<lparr>sr_reinit_flag := False, sr_base := nat ((int (sr_max_output s) - int v) mod int M),
       sr_max_input := v, sr_seq_delta := 0, sr_dropped := []\<rparr>)"

text \<open>
  \<open>sr_tracks M x g s\<close>: the next input is \<open>x\<close>, which is \<open>g\<close> after the highest forwarded input;
  every remembered drop lies before it, and forwarding it now would produce the successor of the
  highest output. \<open>sr_short_gaps h g ds\<close>: starting \<open>g\<close> after the last forwarded input, no run of
  drops in \<open>ds\<close> reaches the distance \<open>h\<close>.
\<close>

definition sr_tracks :: "nat \<Rightarrow> nat \<Rightarrow> nat \<Rightarrow> seq_rewrite \<Rightarrow> bool" where
  "sr_tracks M x g s \<longleftrightarrow> \<not> sr_reinit_flag s \<and> sr_wf M s \<and> 1 \<le> g \<and>
     x = (sr_max_input s + g) mod M \<and>
     (\<forall>d\<in>set (sr_dropped s). d < sr_seq_delta s + sr_max_input s + g) \<and>
     (int x + int (sr_base s) - int (length (sr_dropped s))) mod int M
       = (int (sr_max_output s) + 1) mod int M"

fun sr_short_gaps :: "nat \<Rightarrow> nat \<Rightarrow> bool list \<Rightarrow> bool" where
  "sr_short_gaps h g [] = True"
| "sr_short_gaps h g (True # ds) = (g + 1 < h \<and> sr_short_gaps h (g + 1) ds)"
| "sr_short_gaps h g (False # ds) = sr_short_gaps h 1 ds"

section \<open>The modular arithmetic\<close>

lemma sr_wrapping_sub_eq:
  assumes "v1 < M" "v2 < M" "M \<le> 2 ^ 32"
  shows "sr_wrapping_sub M v1 v2 = Inr (nat ((int v1 - int v2) mod int M))"
proof -
  have small: "v1 + M < 2 ^ 64" using assms by simp
  show ?thesis
  proof (cases "v2 \<le> v1")
    case True
    then have "(int v1 - int v2) mod int M = int (v1 - v2)" using assms by simp
    with True assms show ?thesis by (simp add: sr_wrapping_sub_def)
  next
    case False
    then have "(int v1 - int v2) mod int M = (int v1 - int v2 + int M) mod int M" by simp
    also have "\<dots> = int v1 - int v2 + int M" using False assms by (intro mod_pos_pos_trivial) auto
    finally have "nat ((int v1 - int v2) mod int M) = v1 + M - v2" using False assms by simp
    with False small assms show ?thesis by (simp add: sr_wrapping_sub_def)
  qed
qed

lemma sr_wrapping_sub_bound:
  "v1 < M \<Longrightarrow> nat ((int v1 - int v2) mod int M) < M"
  by (simp add: nat_less_iff)

lemma sr_wrapping_add_lt: "0 < M \<Longrightarrow> sr_wrapping_add M a b < M"
  by (simp add: sr_wrapping_add_def)

lemma sr_wrapping_add_eq: "a < M \<Longrightarrow> b < M \<Longrightarrow> M \<le> 2 ^ 32 \<Longrightarrow> sr_wrapping_add M a b = (a + b) mod M"
  by (simp add: sr_wrapping_add_def)

lemma sr_wf_default: "sr_modulus M \<Longrightarrow> sr_wf M sr_default"
  by (simp add: sr_wf_def sr_default_def sr_modulus_def)

lemma sr_wf_reinit: "sr_wf M s \<Longrightarrow> sr_wf M (sr_reinit s)"
  by (simp add: sr_wf_def sr_reinit_def)

lemma sr_wf_offset: "sr_modulus M \<Longrightarrow> sr_wf M s \<Longrightarrow> sr_wf M (sr_offset M off s)"
  by (auto simp: sr_wf_def sr_offset_def sr_modulus_def sr_wrapping_add_lt)

lemma sr_sync_eq:
  assumes "sr_wf M s" "v < M" "sr_modulus M"
  shows "sr_sync M v s = Inr (s\<lparr>sr_base := nat ((int (sr_max_output s) - int v) mod int M),
           sr_max_input := v, sr_seq_delta := 0, sr_dropped := []\<rparr>)"
  using assms by (simp add: sr_sync_def sr_wf_def sr_modulus_def sr_wrapping_sub_eq)

lemma sr_resync_reinit:
  assumes "sr_modulus M" "sr_wf M s" "x < M" "sr_reinit_flag s"
  shows "sr_resync M x s = Inr (case sr_reinit_offset s of
           None \<Rightarrow> sr_synced M x s
         | Some off \<Rightarrow> sr_offset M off ((sr_synced M x s)\<lparr>sr_reinit_offset := None\<rparr>))"
proof -
  let ?v = "nat ((int x - int 1) mod int M)"
  let ?s = "s\<lparr>sr_reinit_flag := False\<rparr>"
  have v: "?v < M" using assms by (simp add: nat_less_iff sr_modulus_def)
  have sub: "sr_wrapping_sub M x 1 = Inr ?v"
    using assms by (intro sr_wrapping_sub_eq) (auto simp: sr_modulus_def)
  have wf: "sr_wf M ?s" using assms by (simp add: sr_wf_def)
  have sync: "sr_sync M ?v ?s = Inr (sr_synced M x s)"
    using sr_sync_eq [OF wf v assms(1)] by (simp add: sr_synced_def Let_def)
  have off: "sr_reinit_offset (sr_synced M x s) = sr_reinit_offset s"
    by (simp add: sr_synced_def Let_def)
  show ?thesis
    by (simp only: sr_resync_def assms(4) if_True sub sync rbind_Inr off)
qed

lemma sr_wf_synced: "sr_modulus M \<Longrightarrow> sr_wf M s \<Longrightarrow> sr_wf M (sr_synced M x s)"
  by (simp add: sr_synced_def Let_def sr_wf_def nat_less_iff sr_modulus_def)

lemma sr_resync_safe:
  assumes "sr_modulus M" "sr_wf M s" "x < M"
  shows "\<exists>s1. sr_resync M x s = Inr s1 \<and> sr_wf M s1 \<and> \<not> sr_reinit_flag s1"
proof (cases "sr_reinit_flag s")
  case False
  with assms show ?thesis by (simp add: sr_resync_def)
next
  case True
  let ?t = "sr_synced M x s"
  have t: "sr_wf M ?t" using assms by (simp add: sr_wf_synced)
  have t2: "sr_wf M (sr_offset M off (?t\<lparr>sr_reinit_offset := None\<rparr>))" for off
    using t by (intro sr_wf_offset assms) (simp add: sr_wf_def)
  have "\<not> sr_reinit_flag ?t" by (simp add: sr_synced_def Let_def)
  then show ?thesis
    using sr_resync_reinit [OF assms True] t t2
    by (auto simp: sr_offset_def split: option.split)
qed

lemma sr_extended_seq_eq:
  assumes "x < M"
  shows "\<exists>s2. sr_extended_seq M x s = Inr (s2, u64_add (sr_seq_delta s2) x) \<and>
           (s2 = s \<or> s2 = s\<lparr>sr_seq_delta := u64_add (sr_seq_delta s) M\<rparr>)"
  using assms by (auto simp: sr_extended_seq_def Let_def)

lemma sr_emit_safe:
  assumes "sr_modulus M" "sr_wf M s" "x < M" "b < M"
  shows "\<exists>s1 out. sr_emit M x b s = Inr (s1, Some out) \<and> sr_wf M s1 \<and> out < M"
proof -
  have M: "0 < M" "M \<le> 2 ^ 32" using assms by (auto simp: sr_modulus_def)
  have out: "sr_wrapping_add M x b < M" using M by (simp add: sr_wrapping_add_lt)
  have "sr_max_input s < M" "sr_max_output s < M" using assms by (auto simp: sr_wf_def)
  then show ?thesis
    using assms(2,3) M out
    by (simp add: sr_emit_def sr_wrapping_sub_eq Let_def sr_wf_def)
qed

section \<open>No operation panics\<close>

lemma sr_drop_value_safe:
  assumes "sr_modulus M" "sr_wf M s" "x < M"
  shows "\<exists>s1. sr_drop_value M x s = Inr s1 \<and> sr_wf M s1"
proof -
  have M: "0 < M" "M \<le> 2 ^ 32" "1001 < M" using assms by (auto simp: sr_modulus_def)
  obtain s1 where s1: "sr_resync M x s = Inr s1" "sr_wf M s1"
    using sr_resync_safe [OF assms] by blast
  obtain s2 where s2: "sr_extended_seq M x s1 = Inr (s2, u64_add (sr_seq_delta s2) x)"
      "s2 = s1 \<or> s2 = s1\<lparr>sr_seq_delta := u64_add (sr_seq_delta s1) M\<rparr>"
    using sr_extended_seq_eq [OF assms(3)] by blast
  have wf2: "sr_wf M s2" using s1 s2 by (auto simp: sr_wf_def)
  define s3 where "s3 = (if sr_is_seq_higher_than M x (sr_max_input s2)
      then s2\<lparr>sr_dropped := insort_insert (u64_add (sr_seq_delta s2) x) (sr_dropped s2)\<rparr> else s2)"
  have s3: "sr_base s3 < M" "sr_max_output s3 < M" "sr_max_input s3 < M"
      "sorted (sr_dropped s3)" "distinct (sr_dropped s3)" "length (sr_dropped s3) \<le> 1001"
    using wf2 length_insort_insert [of "u64_add (sr_seq_delta s2) x" "sr_dropped s2"]
    by (auto simp: s3_def sr_wf_def sorted_insort_insert_key)
  have "nat ((int (sr_base s3) - int (length (sr_dropped s3) - 1000)) mod int M) < M"
    using s3 by (simp add: sr_wrapping_sub_bound)
  moreover have "length (sr_dropped s3) - 1000 < M" using s3(6) M(3) by simp
  ultimately show ?thesis
    using s1(1) s2(1) s3 assms(3) M(2)
    by (auto simp: sr_drop_value_def Let_def s3_def [symmetric] sr_wrapping_sub_eq sr_wf_def
        sorted_wrt_drop)
qed

lemma sr_generate_safe:
  assumes "sr_modulus M" "sr_wf M s" "x < M"
  shows "\<exists>s1 r. sr_generate M x s = Inr (s1, r) \<and> sr_wf M s1 \<and> (\<forall>out. r = Some out \<longrightarrow> out < M)"
proof -
  have M: "0 < M" "M \<le> 2 ^ 32" "1001 < M" using assms by (auto simp: sr_modulus_def)
  obtain s1 where s1: "sr_resync M x s = Inr s1" "sr_wf M s1"
    using sr_resync_safe [OF assms] by blast
  obtain s2 where s2: "sr_extended_seq M x s1 = Inr (s2, u64_add (sr_seq_delta s2) x)"
      "s2 = s1 \<or> s2 = s1\<lparr>sr_seq_delta := u64_add (sr_seq_delta s1) M\<rparr>"
    using sr_extended_seq_eq [OF assms(3)] by blast
  have wf2: "sr_wf M s2" using s1 s2 by (auto simp: sr_wf_def)
  have emit: "b < M \<Longrightarrow> \<exists>t out. sr_emit M x b s2 = Inr (t, Some out) \<and> sr_wf M t \<and> out < M" for b
    by (rule sr_emit_safe [OF assms(1) wf2 assms(3)])
  have base: "sr_base s2 < M" and len: "length (sr_dropped s2) < M"
    using wf2 M by (auto simp: sr_wf_def)
  let ?n = "\<lambda>i. length (sr_dropped s2) - (length (sr_dropped s2) - i)"
  have sub: "sr_wrapping_sub M (sr_base s2) (?n i)
      = Inr (nat ((int (sr_base s2) - int (?n i)) mod int M))" for i
    using base len M(2) by (intro sr_wrapping_sub_eq) auto
  have bound: "nat ((int (sr_base s2) - int (?n i)) mod int M) < M" for i
    using base by (rule sr_wrapping_sub_bound)
  show ?thesis
  proof (cases "sr_dropped s2 = []")
    case True
    then show ?thesis using emit [OF base] s1(1) s2(1) assms(3) by (auto simp: sr_generate_def)
  next
    case False
    show ?thesis
    proof (cases "sr_binary_search (sr_dropped s2) (u64_add (sr_seq_delta s2) x)")
      case (Inl i)
      with False show ?thesis using wf2 s1(1) s2(1) assms(3) by (auto simp: sr_generate_def)
    next
      case (Inr i)
      with False show ?thesis
        using emit [OF bound [of i]] s1(1) s2(1) assms(3)
        by (auto simp: sr_generate_def sub simp del: diff_diff_cancel)
    qed
  qed
qed

text \<open>A rewriter that never drops anything works with every modulus, also with the \<open>2 ^ 8\<close> of the
  temporal base layer indices, which is smaller than the drop queue.\<close>

definition sr_nodrop :: "nat \<Rightarrow> seq_rewrite \<Rightarrow> bool" where
  "sr_nodrop M s \<longleftrightarrow> sr_base s < M \<and> sr_max_output s < M \<and> sr_max_input s < M \<and> sr_dropped s = [] \<and>
     sr_reinit_offset s = None"

lemma sr_nodrop_default: "0 < M \<Longrightarrow> sr_nodrop M sr_default"
  by (simp add: sr_nodrop_def sr_default_def)

lemma sr_nodrop_reinit: "sr_nodrop M s \<Longrightarrow> sr_nodrop M (sr_reinit s)"
  by (simp add: sr_nodrop_def sr_reinit_def)

lemma sr_generate_nodrop:
  assumes "1 < M" "M \<le> 2 ^ 32" "sr_nodrop M s" "x < M"
  shows "\<exists>s1 out. sr_generate M x s = Inr (s1, Some out) \<and> sr_nodrop M s1 \<and> out < M"
proof -
  have sub: "\<exists>d. sr_wrapping_sub M a b = Inr d \<and> d < M" if "a < M" "b < M" for a b
    using that assms by (simp add: sr_wrapping_sub_eq sr_wrapping_sub_bound)
  obtain s1 where s1: "sr_resync M x s = Inr s1" "sr_nodrop M s1"
  proof (cases "sr_reinit_flag s")
    case False
    then show ?thesis using assms that by (simp add: sr_resync_def)
  next
    case True
    obtain v where v: "sr_wrapping_sub M x 1 = Inr v" "v < M" using sub [of x 1] assms by auto
    obtain b where "sr_wrapping_sub M (sr_max_output s) v = Inr b" "b < M"
      using sub [of "sr_max_output s" v] assms v by (auto simp: sr_nodrop_def)
    with True v assms(3) show ?thesis
      by (intro that [of "s\<lparr>sr_reinit_flag := False, sr_base := b, sr_max_input := v, sr_seq_delta := 0, sr_dropped := []\<rparr>"])
        (auto simp: sr_resync_def sr_sync_def sr_nodrop_def)
  qed
  obtain s2 where s2: "sr_extended_seq M x s1 = Inr (s2, u64_add (sr_seq_delta s2) x)"
      "s2 = s1 \<or> s2 = s1\<lparr>sr_seq_delta := u64_add (sr_seq_delta s1) M\<rparr>"
    using sr_extended_seq_eq [OF assms(4)] by blast
  have wf: "sr_nodrop M s2" using s1 s2 by (auto simp: sr_nodrop_def)
  have out: "sr_wrapping_add M x (sr_base s2) < M" using assms by (simp add: sr_wrapping_add_lt)
  have "\<exists>t. sr_emit M x (sr_base s2) s2 = Inr (t, Some (sr_wrapping_add M x (sr_base s2))) \<and> sr_nodrop M t"
    using sub [of x "sr_max_input s2"] sub [OF out, of "sr_max_output s2"] wf assms(4) out
    by (auto simp: sr_emit_def Let_def sr_nodrop_def)
  then show ?thesis using s1 s2(1) wf assms(4) out by (auto simp: sr_generate_def sr_nodrop_def)
qed

section \<open>In-order streams come out without gaps\<close>

lemma sr_tracks_ext:
  assumes "sr_tracks M x g s" "sr_modulus M" "g < M div 2" "sr_seq_delta s + 3 * M \<le> 2 ^ 64"
  defines "w \<equiv> (if sr_max_input s + g < M then 0 else M)"
  shows "x = sr_max_input s + g - w" "x < M" "w \<le> M"
    and "sr_is_seq_higher_than M x (sr_max_input s)"
    and "sr_extended_seq M x s =
      Inr (s\<lparr>sr_seq_delta := sr_seq_delta s + w\<rparr>, sr_seq_delta s + sr_max_input s + g)"
proof -
  have mi: "sr_max_input s < M" "x = (sr_max_input s + g) mod M" "0 < M"
    using assms by (auto simp: sr_tracks_def sr_wf_def sr_modulus_def)
  have x: "x = sr_max_input s + g - w \<and> x < M"
  proof (cases "sr_max_input s + g < M")
    case False
    then have "x = (sr_max_input s + g - M) mod M" using mi by (simp add: le_mod_geq)
    also have "\<dots> = sr_max_input s + g - M" using mi assms(3) by (intro mod_less) auto
    finally show ?thesis using False mi assms(3) by (auto simp: w_def)
  qed (use mi in \<open>simp add: w_def\<close>)
  then show "x = sr_max_input s + g - w" "x < M" by auto
  show "w \<le> M" by (simp add: w_def)
  show "sr_is_seq_higher_than M x (sr_max_input s)"
    using x mi assms(1,3) by (auto simp: sr_is_seq_higher_than_def w_def sr_tracks_def)
  have wrap: "(x < sr_max_input s \<and> sr_max_input s - x > M div 2) \<longleftrightarrow> w \<noteq> 0"
    using x mi assms(1,3) by (auto simp: w_def sr_tracks_def)
  have "sr_seq_delta s + w < 2 ^ 64" "sr_seq_delta s + w + x < 2 ^ 64"
    using assms(3,4) x mi by (auto simp: w_def)
  moreover have "sr_seq_delta s + w + x = sr_seq_delta s + sr_max_input s + g"
    using x mi by (auto simp: w_def)
  moreover have "w \<noteq> 0 \<longrightarrow> w = M" by (simp add: w_def)
  ultimately show "sr_extended_seq M x s =
      Inr (s\<lparr>sr_seq_delta := sr_seq_delta s + w\<rparr>, sr_seq_delta s + sr_max_input s + g)"
    using x wrap by (cases "w = 0") (auto simp: sr_extended_seq_def Let_def)
qed

lemma mod_Suc_next: "((m + g) mod M + 1) mod M = (m + (g + 1)) mod (M::nat)"
  by (metis add.assoc mod_add_left_eq)

lemma shift_next: "(int ((x + 1) mod M) + b - (l + 1)) mod int M = (int x + b - l) mod int M"
proof -
  have "(int ((x + 1) mod M) + b - (l + 1)) mod int M
      = ((int x + 1) mod int M + (b - (l + 1))) mod int M"
    by (simp add: zmod_int algebra_simps)
  also have "\<dots> = (int x + 1 + (b - (l + 1))) mod int M" by (rule mod_add_left_eq)
  also have "int x + 1 + (b - (l + 1)) = int x + b - l" by simp
  finally show ?thesis .
qed

lemma sr_tracks_drop:
  assumes tr: "sr_tracks M x g s" and M: "sr_modulus M" and g: "g + 1 < M div 2"
    and sd: "sr_seq_delta s + 3 * M \<le> 2 ^ 64"
  shows "\<exists>s1. sr_drop_value M x s = Inr s1 \<and> sr_tracks M ((x + 1) mod M) (g + 1) s1 \<and>
           sr_max_output s1 = sr_max_output s \<and> sr_seq_delta s1 \<le> sr_seq_delta s + M"
proof -
  define w where "w = (if sr_max_input s + g < M then 0 else M)"
  have g': "g < M div 2" using g by simp
  note ext = sr_tracks_ext [OF tr M g' sd, folded w_def]
  let ?e = "sr_seq_delta s + sr_max_input s + g"
  let ?D = "sr_dropped s"
  have wf: "sr_wf M s" and noflag: "\<not> sr_reinit_flag s" and small: "\<forall>d\<in>set ?D. d < ?e"
    and out: "(int x + int (sr_base s) - int (length ?D)) mod int M = (int (sr_max_output s) + 1) mod int M"
    and xg: "x = (sr_max_input s + g) mod M"
    using tr by (auto simp: sr_tracks_def)
  have fresh: "?e \<notin> set ?D" using small by auto
  have D1: "insort_insert ?e ?D = insort ?e ?D" using fresh by (rule insort_insert_fresh)
  have next_x: "(x + 1) mod M = (sr_max_input s + (g + 1)) mod M"
    unfolding xg by (rule mod_Suc_next)
  have Mi: "0 < int M" "M \<le> 2 ^ 32" "1001 < M" using M by (auto simp: sr_modulus_def)
  have shift: "(int ((x + 1) mod M) + b - (l + 1)) mod int M = (int x + b - l) mod int M" for b l :: int
    by (rule shift_next)
  have srt: "sorted (insort ?e ?D)" "distinct (insort ?e ?D)"
    using wf fresh by (auto simp: sr_wf_def sorted_insort distinct_insort)
  show ?thesis
  proof (cases "length ?D + 1 \<le> 1000")
    case True
    let ?s1 = "s\<lparr>sr_seq_delta := sr_seq_delta s + w, sr_dropped := insort ?e ?D\<rparr>"
    have "sr_drop_value M x s = Inr ?s1"
      using True noflag ext D1 by (simp add: sr_drop_value_def sr_resync_def Let_def)
    moreover have "sr_tracks M ((x + 1) mod M) (g + 1) ?s1"
      using wf noflag small srt True out next_x shift [of "int (sr_base s)" "int (length ?D)"]
      by (auto simp: sr_tracks_def sr_wf_def set_insort_key algebra_simps)
    ultimately show ?thesis using ext(3) by auto
  next
    case False
    then have len: "length ?D = 1000" using wf by (simp add: sr_wf_def)
    let ?b = "nat ((int (sr_base s) - 1) mod int M)"
    let ?s1 = "s\<lparr>sr_seq_delta := sr_seq_delta s + w, sr_dropped := drop 1 (insort ?e ?D), sr_base := ?b\<rparr>"
    have b: "?b < M" using Mi by (simp add: nat_less_iff)
    have sub: "sr_wrapping_sub M (sr_base s) 1 = Inr ?b"
      using sr_wrapping_sub_eq [of "sr_base s" M 1] wf Mi by (simp add: sr_wf_def)
    have "sr_drop_value M x s = Inr ?s1"
      using len noflag ext D1 sub by (simp add: sr_drop_value_def sr_resync_def Let_def)
    moreover have "sr_tracks M ((x + 1) mod M) (g + 1) ?s1"
    proof -
      have "(int ((x + 1) mod M) + int ?b - int (length ?D)) mod int M
          = (int ((x + 1) mod M) + int (sr_base s) - (int (length ?D) + 1)) mod int M"
        using Mi mod_add_right_eq [of "int ((x + 1) mod M) - int (length ?D)" "int (sr_base s) - 1" "int M"]
        by (simp add: algebra_simps)
      also have "\<dots> = (int (sr_max_output s) + 1) mod int M"
        using shift [of "int (sr_base s)" "int (length ?D)"] out by simp
      finally have o': "(int ((x + 1) mod M) + int ?b - int (length ?D)) mod int M
          = (int (sr_max_output s) + 1) mod int M" .
      have "\<forall>d\<in>set (drop 1 (insort ?e ?D)). d < ?e + w + 1"
        using small by (fastforce dest: in_set_dropD simp: set_insort_key)
      then show ?thesis
        using wf noflag srt b next_x len o'
        by (auto simp: sr_tracks_def sr_wf_def sorted_wrt_drop algebra_simps)
    qed
    ultimately show ?thesis using ext(3) by auto
  qed
qed

lemma sr_tracks_generate:
  assumes tr: "sr_tracks M x g s" and M: "sr_modulus M" and g: "g < M div 2"
    and sd: "sr_seq_delta s + 3 * M \<le> 2 ^ 64"
  shows "\<exists>s1. sr_generate M x s = Inr (s1, Some ((sr_max_output s + 1) mod M)) \<and>
           sr_tracks M ((x + 1) mod M) 1 s1 \<and>
           sr_max_output s1 = (sr_max_output s + 1) mod M \<and> sr_seq_delta s1 \<le> sr_seq_delta s + M"
proof -
  define w where "w = (if sr_max_input s + g < M then 0 else M)"
  note ext = sr_tracks_ext [OF tr M g sd, folded w_def]
  let ?e = "sr_seq_delta s + sr_max_input s + g"
  let ?D = "sr_dropped s"
  let ?o = "(sr_max_output s + 1) mod M"
  have wf: "sr_wf M s" and noflag: "\<not> sr_reinit_flag s" and small: "\<forall>d\<in>set ?D. d < ?e"
    and out: "(int x + int (sr_base s) - int (length ?D)) mod int M = (int (sr_max_output s) + 1) mod int M"
    and xg: "x = (sr_max_input s + g) mod M"
    using tr by (auto simp: sr_tracks_def)
  have Mi: "0 < M" "M \<le> 2 ^ 32" "1001 < M" using M by (auto simp: sr_modulus_def)
  define b where "b = nat ((int (sr_base s) - int (length ?D)) mod int M)"
  have b: "b < M" using Mi by (simp add: b_def nat_less_iff)
  have intb: "int b = (int (sr_base s) - int (length ?D)) mod int M" using Mi by (simp add: b_def)
  have xb: "sr_wrapping_add M x b = ?o"
  proof -
    have "int ((x + b) mod M) = (int x + (int (sr_base s) - int (length ?D)) mod int M) mod int M"
      by (simp add: zmod_int intb)
    also have "\<dots> = int ?o" using out by (simp add: mod_add_right_eq zmod_int add_diff_eq add.commute)
    finally show ?thesis using b ext(2) Mi by (simp add: sr_wrapping_add_eq)
  qed
  let ?s2 = "s\<lparr>sr_seq_delta := sr_seq_delta s + w\<rparr>"
  let ?s1 = "?s2\<lparr>sr_max_input := x, sr_max_output := ?o\<rparr>"
  have mi: "sr_max_input s < M" "sr_max_output s < M" using wf by (auto simp: sr_wf_def)
  have idelta: "nat ((int x - int (sr_max_input s)) mod int M) < M div 2"
  proof -
    have "(int x - int (sr_max_input s)) mod int M = int g mod int M"
      unfolding xg by (simp add: zmod_int mod_diff_left_eq)
    then show ?thesis using g by simp
  qed
  have odelta: "nat ((int ?o - int (sr_max_output s)) mod int M) < M div 2"
  proof -
    have "(int ?o - int (sr_max_output s)) mod int M = 1 mod int M"
      by (simp add: zmod_int mod_diff_left_eq)
    then show ?thesis using Mi by simp
  qed
  have emit: "sr_emit M x b ?s2 = Inr (?s1, Some ?o)"
    using xb idelta odelta mi ext(2) Mi
    by (simp add: sr_emit_def Let_def sr_wrapping_sub_eq)
  have search: "sr_binary_search ?D ?e = Inr (length ?D)"
    using small by (auto simp: sr_binary_search_def Let_def filter_less_all)
  have sub: "sr_wrapping_sub M (sr_base s) (length ?D) = Inr b"
    using wf Mi by (simp add: sr_wf_def b_def sr_wrapping_sub_eq)
  have gen: "sr_generate M x s = Inr (?s1, Some ?o)"
  proof (cases "?D = []")
    case True
    then have "b = sr_base s" using wf by (simp add: b_def sr_wf_def)
    with True show ?thesis using noflag ext emit by (simp add: sr_generate_def sr_resync_def)
  next
    case False
    then show ?thesis using noflag ext emit search sub by (simp add: sr_generate_def sr_resync_def)
  qed
  have "sr_tracks M ((x + 1) mod M) 1 ?s1"
  proof -
    have "(int ((x + 1) mod M) + int (sr_base s) - int (length ?D)) mod int M
        = (int x + int (sr_base s) - int (length ?D) + 1) mod int M"
      using shift_next [of x M "int (sr_base s) + 1" "int (length ?D)"] by (simp add: algebra_simps)
    also have "\<dots> = (int ?o + 1) mod int M"
      using out by (metis mod_add_left_eq of_nat_1 of_nat_add zmod_int)
    finally have o': "(int ((x + 1) mod M) + int (sr_base s) - int (length ?D)) mod int M
        = (int ?o + 1) mod int M" .
    have "sr_seq_delta s + w + x = ?e" using ext(1) by (auto simp: w_def)
    then have "\<forall>d\<in>set ?D. d < sr_seq_delta s + w + x + 1" using small by auto
    then show ?thesis using wf noflag o' ext(2) Mi by (simp add: sr_tracks_def sr_wf_def)
  qed
  with gen ext(3) show ?thesis by auto
qed

lemma sr_tracks_run:
  assumes "sr_tracks M x g s" "sr_modulus M" "g < M div 2" "sr_short_gaps (M div 2) g ds"
    and "sr_seq_delta s + (length ds + 3) * M \<le> 2 ^ 64"
  shows "\<exists>s'. sr_run M x ds s = Inr (s', map (\<lambda>k. (sr_max_output s + 1 + k) mod M)
             [0..<length (filter Not ds)]) \<and>
           sr_max_output s' = (sr_max_output s + length (filter Not ds)) mod M"
  using assms
proof (induction M x ds s arbitrary: g rule: sr_run.induct)
  case (1 M x s)
  then show ?case by (simp add: sr_tracks_def sr_wf_def)
next
  case (2 M x ds s)
  have "sr_seq_delta s + 3 * M \<le> 2 ^ 64" using 2 by (simp add: algebra_simps)
  then obtain s1 where s1: "sr_drop_value M x s = Inr s1" "sr_tracks M ((x + 1) mod M) (g + 1) s1"
      "sr_max_output s1 = sr_max_output s" "sr_seq_delta s1 \<le> sr_seq_delta s + M"
    using sr_tracks_drop [OF "2.prems"(1,2)] "2.prems"(4) by auto
  have "sr_seq_delta s1 + (length ds + 3) * M \<le> 2 ^ 64"
    using s1(4) "2.prems"(5) by (simp add: algebra_simps)
  then show ?case
    using "2.IH" [OF s1(1) s1(2) "2.prems"(2)] "2.prems"(4) s1 by auto
next
  case (3 M x ds s)
  have "sr_seq_delta s + 3 * M \<le> 2 ^ 64" using 3 by (simp add: algebra_simps)
  then obtain s1 where s1: "sr_generate M x s = Inr (s1, Some ((sr_max_output s + 1) mod M))"
      "sr_tracks M ((x + 1) mod M) 1 s1"
      "sr_max_output s1 = (sr_max_output s + 1) mod M" "sr_seq_delta s1 \<le> sr_seq_delta s + M"
    using sr_tracks_generate [OF "3.prems"(1,2,3)] by auto
  have sd: "sr_seq_delta s1 + (length ds + 3) * M \<le> 2 ^ 64"
    using s1(4) "3.prems"(5) by (simp add: algebra_simps)
  have "1 < M div 2" using "3.prems"(2) unfolding sr_modulus_def by linarith
  then obtain s' where s': "sr_run M ((x + 1) mod M) ds s1 = Inr (s', map (\<lambda>k. (sr_max_output s1 + 1 + k) mod M)
      [0..<length (filter Not ds)])" "sr_max_output s' = (sr_max_output s1 + length (filter Not ds)) mod M"
    using "3.IH" [OF s1(1) refl s1(2) "3.prems"(2)] sd "3.prems"(4) by auto
  have shift: "Suc (Suc a mod M + k) mod M = Suc (Suc (a + k)) mod M" for a k
    using mod_add_left_eq [of "Suc a" M "Suc k"] by simp
  let ?n = "length (filter Not ds)"
  have "map (\<lambda>k. (sr_max_output s + 1 + k) mod M) [0..<Suc ?n]
      = (sr_max_output s + 1) mod M # map (\<lambda>k. (sr_max_output s1 + 1 + k) mod M) [0..<?n]"
    unfolding s1(3) by (simp add: upt_conv_Cons map_Suc_upt [symmetric] shift del: upt_Suc)
  then show ?case using s1 s' by (simp add: mod_simps del: upt_Suc)
qed

lemma sr_tracks_synced:
  assumes "sr_modulus M" "sr_wf M s" "x < M"
  shows "sr_tracks M x 1 (sr_synced M x s)"
proof -
  let ?v = "nat ((int x - 1) mod int M)"
  have M: "0 < int M" using assms by (simp add: sr_modulus_def)
  have v: "int ?v = (int x - 1) mod int M" using M by simp
  have "int ((?v + 1) mod M) = (int x - 1 + 1) mod int M"
    unfolding zmod_int of_nat_add v by (simp add: mod_add_left_eq)
  then have x: "x = (?v + 1) mod M" using assms(3) by simp
  have "(int x + (int (sr_max_output s) - int ?v) mod int M) mod int M
      = (int x + int (sr_max_output s) - (int x - 1) mod int M) mod int M"
    unfolding v by (simp add: mod_add_right_eq add_diff_eq)
  also have "\<dots> = (int (sr_max_output s) + 1) mod int M"
    by (simp add: mod_diff_right_eq)
  finally have "(int x + (int (sr_max_output s) - int ?v) mod int M) mod int M
      = (int (sr_max_output s) + 1) mod int M" .
  then show ?thesis
    using sr_wf_synced [OF assms(1,2), of x] x M
    by (simp add: sr_tracks_def sr_synced_def Let_def)
qed

lemma sr_resync_absorb:
  assumes "sr_resync M x s = Inr t" "\<not> sr_reinit_flag t"
  shows "sr_drop_value M x s = sr_drop_value M x t" "sr_generate M x s = sr_generate M x t"
  using assms by (simp_all add: sr_drop_value_def sr_generate_def sr_resync_def)

lemma sr_run_synced:
  assumes "sr_modulus M" "sr_wf M s" "x < M" "sr_reinit_flag s" "sr_reinit_offset s = None" "ds \<noteq> []"
  shows "sr_run M x ds s = sr_run M x ds (sr_synced M x s)"
proof -
  have r: "sr_resync M x s = Inr (sr_synced M x s)"
    using sr_resync_reinit [OF assms(1-4)] assms(5) by simp
  have "\<not> sr_reinit_flag (sr_synced M x s)" by (simp add: sr_synced_def Let_def)
  note absorb = sr_resync_absorb [OF r this]
  obtain d ds' where "ds = d # ds'" using assms(6) by (cases ds) auto
  then show ?thesis by (cases d) (simp_all add: absorb)
qed

section \<open>Properties\<close>

text \<open>
  C14. Gap-free rewriting: after \<^verbatim>\<open>reinit\<close> (a new source), let the inputs \<open>x, x+1, \<dots>\<close> (modulo
  \<open>M\<close>) each be either dropped with \<^verbatim>\<open>drop_value\<close> or forwarded with \<^verbatim>\<open>generate\<close>. Then no call
  panics, and the outputs are exactly the successors of the highest output sent before the
  switch: no gap, no repetition, across wrap-around and the trimming of the drop list. The last
  output becomes the new \<^verbatim>\<open>max_output\<close>, so the statement chains over any number of switches.
  Runs of drops must stay below half the number space, and the 64-bit extension must not overflow.
\<close>

theorem sr_run_consecutive:
  assumes "sr_modulus M" "sr_wf M s" "sr_reinit_flag s" "sr_reinit_offset s = None" "x < M"
    and "sr_short_gaps (M div 2) 1 ds" "(length ds + 3) * M \<le> 2 ^ 64"
  shows "\<exists>s'. sr_run M x ds s = Inr (s', map (\<lambda>k. (sr_max_output s + 1 + k) mod M)
             [0..<length (filter Not ds)]) \<and>
           sr_max_output s' = (sr_max_output s + length (filter Not ds)) mod M"
proof (cases "ds = []")
  case True
  then show ?thesis using assms by (simp add: sr_wf_def)
next
  case False
  have "1 < M div 2" using assms(1) unfolding sr_modulus_def by linarith
  moreover have "sr_max_output (sr_synced M x s) = sr_max_output s"
      "sr_seq_delta (sr_synced M x s) = 0"
    by (simp_all add: sr_synced_def Let_def)
  ultimately show ?thesis
    using sr_tracks_run [OF sr_tracks_synced [OF assms(1,2,5)] assms(1) _ assms(6)] assms(7)
      sr_run_synced [OF assms(1,2,5,3,4) False] by auto
qed

theorem sr_run_consecutive_witness:
  "\<exists>s'. sr_run 65536 65534 [False, True, False, True, True, False] (sr_reinit sr_default)
      = Inr (s', [1, 2, 3]) \<and> sr_max_output s' = 3"
proof -
  let ?ds = "[False, True, False, True, True, False]"
  have "sr_modulus 65536" by (simp add: sr_modulus_def)
  moreover have "sr_wf 65536 (sr_reinit sr_default)" by (simp add: sr_wf_def sr_reinit_def sr_default_def)
  moreover have "sr_short_gaps (65536 div 2) 1 ?ds" "(length ?ds + 3) * 65536 \<le> 2 ^ 64" by simp_all
  moreover have r: "sr_max_output (sr_reinit sr_default) = 0" "sr_reinit_flag (sr_reinit sr_default)"
      "sr_reinit_offset (sr_reinit sr_default) = None"
    by (simp_all add: sr_reinit_def sr_default_def)
  moreover have "map (\<lambda>k. (0 + 1 + k) mod 65536) [0..<length (filter Not ?ds)] = [1, 2, 3 :: nat]"
      "(0 + length (filter Not ?ds)) mod 65536 = 3" by simp_all
  ultimately show ?thesis
    using sr_run_consecutive [of 65536 "sr_reinit sr_default" 65534 ?ds]
    by (simp del: sr_run.simps filter.simps upt_Suc)
qed

text \<open>
  No operation of the rewriter panics on an input below the modulus, whatever the order in
  which numbers arrive and are dropped: \<^verbatim>\<open>generate\<close> and \<^verbatim>\<open>drop_value\<close> return, every output stays
  below the modulus, and all four operations keep the state well-formed (in particular at most
  1000 remembered drops, strictly sorted).
\<close>

theorem sr_ops_safe:
  assumes "sr_modulus M" "sr_wf M s" "x < M"
  shows "(\<exists>s1 r. sr_generate M x s = Inr (s1, r) \<and> sr_wf M s1 \<and> (\<forall>out. r = Some out \<longrightarrow> out < M))
       \<and> (\<exists>s1. sr_drop_value M x s = Inr s1 \<and> sr_wf M s1)
       \<and> sr_wf M (sr_reinit s) \<and> sr_wf M (sr_offset M off s)"
  using sr_generate_safe [OF assms] sr_drop_value_safe [OF assms] sr_wf_reinit [OF assms(2)]
    sr_wf_offset [OF assms(1,2)] by blast

theorem sr_ops_safe_witness:
  "\<exists>s1 r. sr_generate 32768 7 (sr_offset 32768 5 sr_default) = Inr (s1, r) \<and> sr_wf 32768 s1"
proof -
  have "sr_modulus 32768" by (simp add: sr_modulus_def)
  moreover have "sr_wf 32768 (sr_offset 32768 5 sr_default)"
    by (simp add: sr_wf_def sr_offset_def sr_default_def sr_wrapping_add_def)
  moreover have "7 < (32768 :: nat)" by simp
  ultimately show ?thesis using sr_ops_safe [of 32768 "sr_offset 32768 5 sr_default" 7] by blast
qed

end
