(* ===== verification/Seq_Extend.thy ===== *)
theory Seq_Extend
  imports Prelude
begin

text \<open>
  \<^verbatim>\<open>packages/media_utils/src/seq_extend.rs\<close>: \<^verbatim>\<open>RtpSeqExtend\<close> turns 16-bit RTP sequence numbers
  into 64-bit ones that do not wrap. \<open>se_at n s\<close> says that the extender stands at the extended
  number \<open>n\<close>; \<open>se_step\<close> gives one call for every number less than half a cycle away, and
  \<open>se_run_exact\<close> lifts it to streams with reordering.
\<close>

definition RTP_SEQ_CYCLE :: nat where "RTP_SEQ_CYCLE = 2 ^ 16"

definition RTP_SEQ_HAFT_CYCLE :: nat where "RTP_SEQ_HAFT_CYCLE = 2 ^ 15"

record seq_extend =
  se_last_seq :: "nat option"
  se_seq_delta :: nat

definition se_default :: seq_extend where
  "se_default = \<lparr>se_last_seq = None, se_seq_delta = 0\<rparr>"

definition se_generate :: "nat \<Rightarrow> seq_extend \<Rightarrow> seq_extend \<times> nat option" where
  "se_generate v s = (case se_last_seq s of
     None \<Rightarrow> (s\<lparr>se_last_seq := Some v\<rparr>, Some v)
   | Some l \<Rightarrow>
       if v > l \<and> v - l > RTP_SEQ_HAFT_CYCLE then
         (if u64_add v (se_seq_delta s) > RTP_SEQ_CYCLE
          then (s, Some (u64_sub (u64_add v (se_seq_delta s)) RTP_SEQ_CYCLE))
          else (s, None))
       else
         (let s1 = (if v < l \<and> l - v > RTP_SEQ_HAFT_CYCLE
                    then s\<lparr>se_seq_delta := u64_add (se_seq_delta s) RTP_SEQ_CYCLE\<rparr> else s);
              s2 = s1\<lparr>se_last_seq := Some v\<rparr>
          in (s2, Some (u64_add v (se_seq_delta s2)))))"

fun se_run :: "nat list \<Rightarrow> seq_extend \<Rightarrow> nat option list" where
  "se_run [] s = []"
| "se_run (v # vs) s = (let (s1, r) = se_generate v s in r # se_run vs s1)"

text \<open>The extender stands at \<open>n\<close>; and the stream condition: every next number is less than
  half a cycle from where the extender stands (a number of an earlier cycle does not move it).\<close>

definition se_at :: "nat \<Rightarrow> seq_extend \<Rightarrow> bool" where
  "se_at n s \<longleftrightarrow> se_last_seq s = Some (n mod RTP_SEQ_CYCLE) \<and>
     se_seq_delta s = n - n mod RTP_SEQ_CYCLE"

definition se_next :: "nat \<Rightarrow> nat \<Rightarrow> nat" where
  "se_next L n = (if n div RTP_SEQ_CYCLE < L div RTP_SEQ_CYCLE then L else n)"

fun se_window :: "nat \<Rightarrow> nat list \<Rightarrow> bool" where
  "se_window L [] = True"
| "se_window L (n # ns) = (n < L + RTP_SEQ_HAFT_CYCLE \<and> L < n + RTP_SEQ_HAFT_CYCLE \<and>
     n + 2 * RTP_SEQ_CYCLE \<le> 2 ^ 64 \<and> se_window (se_next L n) ns)"

section \<open>One call\<close>

lemma se_step:
  assumes at: "se_at L s" and win: "n < L + RTP_SEQ_HAFT_CYCLE" "L < n + RTP_SEQ_HAFT_CYCLE"
    and big: "n + 2 * RTP_SEQ_CYCLE \<le> 2 ^ 64"
  shows "\<exists>s1. se_generate (n mod RTP_SEQ_CYCLE) s = (s1, Some n) \<and> se_at (se_next L n) s1"
proof -
  define q where "q = L div 65536"
  define r where "r = L mod 65536"
  define q' where "q' = n div 65536"
  define r' where "r' = n mod 65536"
  have L: "L = q * 65536 + r" "r < 65536" and n: "n = q' * 65536 + r'" "r' < 65536"
    by (simp_all add: q_def r_def q'_def r'_def div_mult_mod_eq)
  have s: "se_last_seq s = Some r" "se_seq_delta s = q * 65536"
    using at by (simp_all add: se_at_def RTP_SEQ_CYCLE_def r_def q_def minus_mod_eq_div_mult)
  have dist: "n < L + 32768" "L < n + 32768" "n + 131072 \<le> 2 ^ 64"
    using win big by (simp_all add: RTP_SEQ_HAFT_CYCLE_def RTP_SEQ_CYCLE_def)
  have at_n: "se_at n t \<longleftrightarrow> se_last_seq t = Some r' \<and> se_seq_delta t = q' * 65536" for t
    by (simp add: se_at_def RTP_SEQ_CYCLE_def r'_def q'_def minus_mod_eq_div_mult)
  have next_eq: "se_next L n = (if q' < q then L else n)"
    by (simp add: se_next_def RTP_SEQ_CYCLE_def q_def q'_def)
  have out: "u64_add r' (q' * 65536) = n" "u64_sub (u64_add r' ((q' + 1) * 65536)) 65536 = n"
    "u64_add (q * 65536) 65536 = (q + 1) * 65536"
    using n dist L by simp_all
  note code = se_generate_def RTP_SEQ_HAFT_CYCLE_def RTP_SEQ_CYCLE_def Let_def r'_def [symmetric]
    next_eq s
  consider "q' = q" | "q' = q + 1" | "q = q' + 1" using dist L n by linarith
  then show ?thesis
  proof cases
    case 1
    then have "\<not> (r' > r \<and> r' - r > 32768)" "\<not> (r' < r \<and> r - r' > 32768)"
      using dist L n by linarith+
    then show ?thesis using out(1) 1 by (auto simp: code at_n)
  next
    case 2
    then have "\<not> r' > r" "r' < r \<and> r - r' > 32768" using dist L n by linarith+
    then show ?thesis using out(1,3) 2 by (auto simp: code at_n)
  next
    case 3
    then have w: "r' > r \<and> r' - r > 32768" and "0 < r'" using dist L n by linarith+
    then have "65536 < u64_add r' (q * 65536)" using 3 n dist by simp
    then show ?thesis using out(2) 3 at w by (auto simp: code)
  qed
qed

lemma se_run_from:
  "se_at L s \<Longrightarrow> se_window L ns \<Longrightarrow> se_run (map (\<lambda>n. n mod RTP_SEQ_CYCLE) ns) s = map Some ns"
proof (induction ns arbitrary: L s)
  case Nil
  then show ?case by simp
next
  case (Cons n ns)
  then obtain s1 where "se_generate (n mod RTP_SEQ_CYCLE) s = (s1, Some n)" "se_at (se_next L n) s1"
    using se_step [of L s n] by auto
  with Cons show ?case by simp
qed

section \<open>Properties\<close>

text \<open>
  The extender recovers the true 64-bit numbers: if a sender's numbers start below one cycle
  and each next one lies less than half a cycle from where the extender stands (so losses,
  duplicates and reordering around a wrap-around are allowed), then feeding only the low 16 bits
  of every number yields exactly the original numbers.
\<close>

theorem se_run_exact:
  assumes "n < RTP_SEQ_CYCLE" and "se_window n ns"
  shows "se_run (map (\<lambda>k. k mod RTP_SEQ_CYCLE) (n # ns)) se_default = map Some (n # ns)"
proof -
  have "se_generate n se_default = (\<lparr>se_last_seq = Some n, se_seq_delta = 0\<rparr>, Some n)"
    by (simp add: se_generate_def se_default_def)
  moreover have "se_at n \<lparr>se_last_seq = Some n, se_seq_delta = 0\<rparr>"
    using assms(1) by (simp add: se_at_def)
  ultimately show ?thesis using assms by (simp add: se_run_from)
qed

theorem se_run_exact_witness:
  "se_run [65530, 2, 65535, 3] se_default = [Some 65530, Some 65538, Some 65535, Some 65539]"
proof -
  have w: "se_window 65530 [65538, 65535, 65539]"
    by (simp add: RTP_SEQ_CYCLE_def RTP_SEQ_HAFT_CYCLE_def se_next_def)
  have "65530 < RTP_SEQ_CYCLE" by (simp add: RTP_SEQ_CYCLE_def)
  from se_run_exact [OF this w] show ?thesis by (simp add: RTP_SEQ_CYCLE_def)
qed

end
