(* ===== verification/State_Queue.thy ===== *)
theory State_Queue
  imports Prelude
begin

text \<open>
  \<^verbatim>\<open>packages/media_utils/src/state.rs\<close>: the event queues of the state-machine pattern and the
  context that carries a pending state switch. The trait \<^verbatim>\<open>StateQueue\<close> has two implementations,
  \<^verbatim>\<open>VecDeque\<close> and \<^verbatim>\<open>StateDestroyingQueue\<close>, which hands out what is left and then exactly one
  destroy event. Both are interpretations of \<open>drain_queue\<close>: \<open>items\<close> is what is still to come, in
  order. \<open>fifo_queue\<close> adds the push law, which only the plain queue has.
\<close>

section \<open>The queues\<close>

definition vdq_push :: "'a \<Rightarrow> 'a list \<Rightarrow> 'a list" where
  "vdq_push e q = q @ [e]"

definition vdq_pop :: "'a list \<Rightarrow> ('a list \<times> 'a option) run" where
  "vdq_pop q = (case q of [] \<Rightarrow> Inr ([], None) | x # xs \<Rightarrow> Inr (xs, Some x))"

record 'a destroying_queue =
  dq_data :: "'a list"
  dq_destroy_event :: "'a option"

text \<open>\<^verbatim>\<open>build\<close> takes the events out of the old queue, which is left empty.\<close>

definition sdq_build :: "'a list \<Rightarrow> 'a \<Rightarrow> 'a list \<times> 'a destroying_queue" where
  "sdq_build data ev = ([], \<lparr>dq_data = data, dq_destroy_event = Some ev\<rparr>)"

definition sdq_push :: "'a \<Rightarrow> 'a destroying_queue \<Rightarrow> 'a destroying_queue" where
  "sdq_push e q = q\<lparr>dq_data := dq_data q @ [e]\<rparr>"

definition sdq_pop :: "'a destroying_queue \<Rightarrow> ('a destroying_queue \<times> 'a option) run" where
  "sdq_pop q =
     (case dq_destroy_event q of
        None \<Rightarrow> rbind (rassert (dq_data q = [])) (\<lambda>_. Inr (q, None))
      | Some ev \<Rightarrow>
          (case dq_data q of
             [] \<Rightarrow> Inr (q\<lparr>dq_destroy_event := None\<rparr>, Some ev)
           | x # xs \<Rightarrow> Inr (q\<lparr>dq_data := xs\<rparr>, Some x)))"

definition sdq_items :: "'a destroying_queue \<Rightarrow> 'a list" where
  "sdq_items q = dq_data q @ (case dq_destroy_event q of None \<Rightarrow> [] | Some ev \<Rightarrow> [ev])"

definition sdq_live :: "'a destroying_queue \<Rightarrow> bool" where
  "sdq_live q \<longleftrightarrow> (dq_destroy_event q = None \<longrightarrow> dq_data q = [])"

section \<open>The context of a state machine\<close>

record ('c, 's) mc_context =
  mc_ctx :: 'c
  mc_next :: "'s option"

definition mc_from :: "'c \<Rightarrow> ('c, 's) mc_context" where
  "mc_from c = \<lparr>mc_ctx = c, mc_next = None\<rparr>"

definition mc_switch :: "'s \<Rightarrow> ('c, 's) mc_context \<Rightarrow> ('c, 's) mc_context" where
  "mc_switch n c = c\<lparr>mc_next := Some n\<rparr>"

definition mc_next_state :: "('c, 's) mc_context \<Rightarrow> ('c, 's) mc_context \<times> 's option" where
  "mc_next_state c = (c\<lparr>mc_next := None\<rparr>, mc_next c)"

text \<open>Calling \<^verbatim>\<open>pop\<close> a number of times.\<close>

fun pop_times :: "('q \<Rightarrow> ('q \<times> 'a option) run) \<Rightarrow> nat \<Rightarrow> 'q \<Rightarrow> ('q \<times> 'a option list) run" where
  "pop_times pop 0 q = Inr (q, [])"
| "pop_times pop (Suc n) q =
     rbind (pop q) (\<lambda>(q1, r). rbind (pop_times pop n q1) (\<lambda>(q2, rs). Inr (q2, r # rs)))"

section \<open>The interface\<close>

locale drain_queue =
  fixes pop :: "'q \<Rightarrow> ('q \<times> 'a option) run"
    and items :: "'q \<Rightarrow> 'a list"
    and live :: "'q \<Rightarrow> bool"
  assumes pop_nil: "live q \<Longrightarrow> items q = [] \<Longrightarrow> \<exists>q'. pop q = Inr (q', None) \<and> live q' \<and> items q' = []"
    and pop_cons: "live q \<Longrightarrow> items q = x # xs \<Longrightarrow> \<exists>q'. pop q = Inr (q', Some x) \<and> live q' \<and> items q' = xs"
begin

lemma pop_times_items:
  "live q \<Longrightarrow> \<exists>q'. pop_times pop n q =
     Inr (q', map Some (take n (items q)) @ replicate (n - length (items q)) None) \<and>
     live q' \<and> items q' = drop n (items q)"
proof (induction n arbitrary: q)
  case 0
  then show ?case by simp
next
  case (Suc n)
  show ?case
  proof (cases "items q")
    case Nil
    then obtain q1 where "pop q = Inr (q1, None)" "live q1" "items q1 = []"
      using pop_nil Suc.prems by blast
    then show ?thesis using Suc.IH [of q1] Nil by auto
  next
    case (Cons x xs)
    then obtain q1 where "pop q = Inr (q1, Some x)" "live q1" "items q1 = xs"
      using pop_cons Suc.prems by blast
    then show ?thesis using Suc.IH [of q1] Cons by auto
  qed
qed

end

locale fifo_queue = drain_queue +
  fixes push :: "'a \<Rightarrow> 'q \<Rightarrow> 'q"
  assumes items_push: "live q \<Longrightarrow> items (push x q) = items q @ [x]"
    and live_push: "live q \<Longrightarrow> live (push x q)"
begin

lemma items_fold_push: "live q \<Longrightarrow> live (fold push xs q) \<and> items (fold push xs q) = items q @ xs"
  by (induction xs arbitrary: q) (auto simp: items_push live_push)

end

interpretation vdq: fifo_queue vdq_pop "\<lambda>q. q" "\<lambda>_. True" vdq_push
  by unfold_locales (auto simp: vdq_pop_def vdq_push_def)

interpretation sdq: drain_queue sdq_pop sdq_items sdq_live
  by unfold_locales
    (auto simp: sdq_pop_def sdq_items_def sdq_live_def append_eq_Cons_conv split: option.splits list.splits)

section \<open>Properties\<close>

text \<open>
  The destroying queue delivers everything and signals the end once: after \<^verbatim>\<open>build\<close> from a
  queue holding \<open>data\<close> and after pushing \<open>late\<close> events before it is drained, popping more often
  than there are events never panics and yields \<open>data\<close>, then \<open>late\<close>, then the destroy event
  exactly once, then nothing.
\<close>

theorem sdq_delivers_then_destroys:
  assumes "length data + length late < n"
  shows "\<exists>q'. pop_times sdq_pop n (fold sdq_push late (snd (sdq_build data ev))) =
      Inr (q', map Some (data @ late @ [ev]) @ replicate (n - (length data + length late + 1)) None)"
proof -
  have fold: "fold sdq_push late q = q\<lparr>dq_data := dq_data q @ late\<rparr>" for q :: "'a destroying_queue"
    by (induction late arbitrary: q) (simp_all add: sdq_push_def)
  let ?q = "fold sdq_push late (snd (sdq_build data ev))"
  have "sdq_live ?q" "sdq_items ?q = data @ late @ [ev]"
    by (simp_all add: sdq_live_def sdq_items_def fold sdq_build_def)
  then show ?thesis using sdq.pop_times_items [of ?q n] assms by auto
qed

theorem sdq_delivers_then_destroys_witness:
  "\<exists>q'. pop_times sdq_pop 5 (fold sdq_push [3] (snd (sdq_build [1, 2 :: nat] 9))) =
      Inr (q', [Some 1, Some 2, Some 3, Some 9, None])"
  using sdq_delivers_then_destroys [of "[1, 2 :: nat]" "[3]" 5 9] by simp

text \<open>Once the destroy event has been handed out, the queue must not be used again: an event pushed
  afterwards is never delivered, the next \<^verbatim>\<open>pop\<close> runs into the assertion instead.\<close>

lemma sdq_push_after_end_panics:
  assumes "dq_destroy_event q = None"
  shows "sdq_pop (sdq_push e q) = Inl Assert_Failed"
  using assms by (simp add: sdq_pop_def sdq_push_def)

end
