(* ===== verification/Ts_Rewrite.thy ===== *)
theory Ts_Rewrite
  imports Prelude "HOL-Library.Signed_Division"
begin

text \<open>
  \<^verbatim>\<open>packages/media_utils/src/ts_rewrite.rs\<close>: \<^verbatim>\<open>TsRewrite<TS_LIMIT, TS_DELTA_REINIT>\<close> maps the
  RTP timestamps of changing sources onto one continuous time line. The constant parameters are
  the arguments \<open>lim\<close> and \<open>step\<close>. Its signed 64-bit fields are \<open>int\<close>s, every arithmetic operation
  wraps through \<open>i64\<close>; Rust's \<^verbatim>\<open>%\<close> truncates towards zero, which is \<open>smod\<close>.
\<close>

section \<open>Signed 64-bit arithmetic\<close>

definition i64 :: "int \<Rightarrow> int" where
  "i64 x = (x + 2 ^ 63) mod 2 ^ 64 - 2 ^ 63"

text \<open>\<^verbatim>\<open>x as u64\<close> of a signed integer reads its two's complement.\<close>

definition i64_as_u64 :: "int \<Rightarrow> nat" where
  "i64_as_u64 x = nat (x mod 2 ^ 64)"

section \<open>The rewriter\<close>

datatype ts_state = FirstInit | Reinit | Rewriting

record ts_rewrite =
  ts_data_rate :: nat
  ts_delta_ts :: int
  ts_last_extended_ts :: int
  ts_last_rtp_ts :: nat
  ts_state :: ts_state

definition ts_new :: "nat \<Rightarrow> ts_rewrite" where
  "ts_new data_rate = \<lparr>ts_data_rate = data_rate, ts_delta_ts = 0, ts_last_extended_ts = 0,
     ts_last_rtp_ts = 0, ts_state = FirstInit\<rparr>"

definition ts_reinit :: "ts_rewrite \<Rightarrow> ts_rewrite" where
  "ts_reinit s = s\<lparr>ts_delta_ts := 0, ts_state := Reinit\<rparr>"

text \<open>The start of the new time line: \<^verbatim>\<open>now_ts\<close> of the two initial states.\<close>

definition ts_start :: "nat \<Rightarrow> nat \<Rightarrow> ts_rewrite \<Rightarrow> int" where
  "ts_start step now_ms s =
     (if ts_state s = Reinit then
        (let now_ts = i64 (i64 (int now_ms) * i64 (int (ts_data_rate s div 1000)))
         in if now_ts < ts_last_extended_ts s
            then i64 (ts_last_extended_ts s + i64 (int step)) else now_ts)
      else i64 (i64 (int now_ms) * (i64 (int (ts_data_rate s)) sdiv 1000)))"

text \<open>The common tail of \<^verbatim>\<open>generate\<close>.\<close>

definition ts_emit :: "nat \<Rightarrow> nat \<Rightarrow> ts_rewrite \<Rightarrow> ts_rewrite \<times> nat" where
  "ts_emit lim rtp s =
     (let e = i64 (ts_delta_ts s + i64 (int rtp))
      in (s\<lparr>ts_last_extended_ts := e\<rparr>, i64_as_u64 (e smod i64 (int lim))))"

definition ts_generate :: "nat \<Rightarrow> nat \<Rightarrow> nat \<Rightarrow> nat \<Rightarrow> ts_rewrite \<Rightarrow> ts_rewrite \<times> nat" where
  "ts_generate lim step now_ms rtp s =
     (case ts_state s of
        Rewriting \<Rightarrow>
          if i64 (i64 (int (ts_last_rtp_ts s)) + i64 (int lim) sdiv 2) < i64 (int rtp)
          then (s, i64_as_u64 (i64 (ts_delta_ts s + i64 (int rtp)) smod i64 (int lim)))
          else
            (let s1 = s\<lparr>ts_last_rtp_ts := rtp\<rparr>;
                 s2 = (if i64 (i64 (int rtp) + i64 (int lim) sdiv 2) < i64 (int (ts_last_rtp_ts s1))
                       then s1\<lparr>ts_delta_ts := i64 (ts_delta_ts s1 + i64 (int lim))\<rparr> else s1)
             in ts_emit lim rtp s2)
      | _ \<Rightarrow>
          ts_emit lim rtp (s\<lparr>ts_last_rtp_ts := rtp,
            ts_delta_ts := i64 (ts_start step now_ms s - i64 (int rtp)), ts_state := Rewriting\<rparr>))"

fun ts_run :: "nat \<Rightarrow> nat \<Rightarrow> (nat \<times> nat) list \<Rightarrow> ts_rewrite \<Rightarrow> nat list" where
  "ts_run lim step [] s = []"
| "ts_run lim step ((now, rtp) # ps) s =
     (let (s1, o1) = ts_generate lim step now rtp s in o1 # ts_run lim step ps s1)"

section \<open>Lemmas\<close>

lemma i64_small: "- (2 ^ 63) \<le> x \<Longrightarrow> x < 2 ^ 63 \<Longrightarrow> i64 x = x"
  by (simp add: i64_def)

lemma smod_nonneg: "0 \<le> (a::int) \<Longrightarrow> 0 < b \<Longrightarrow> a smod b = a mod b"
  by (cases "a = 0") (simp_all add: signed_modulo_int_def signed_divide_int_def minus_mult_div_eq_mod sgn_if)

lemma half_sdiv: "int n sdiv 2 = int n div 2"
  by (cases "n = 0") (simp_all add: signed_divide_int_def)

lemma emit_value:
  assumes "0 \<le> e" "e < 2 ^ 63" "0 < lim" "lim \<le> (2::nat) ^ 32"
  shows "i64_as_u64 (i64 e smod i64 (int lim)) = nat (e mod int lim)"
proof -
  have lim: "i64 (int lim) = int lim" using assms by (intro i64_small) auto
  have "0 \<le> e mod int lim" "e mod int lim < int lim" using assms by simp_all
  then have "e mod int lim mod 2 ^ 64 = e mod int lim"
    using assms(4) by (intro mod_pos_pos_trivial) simp_all
  then show ?thesis
    using assms by (simp add: i64_small lim smod_nonneg i64_as_u64_def)
qed

text \<open>The next-cycle test compares the timestamp with itself, so the branch is not taken.\<close>

lemma next_cycle_test:
  assumes "rtp < lim" "lim \<le> (2::nat) ^ 32"
  shows "\<not> i64 (i64 (int rtp) + i64 (int lim) sdiv 2) < i64 (int rtp)"
proof -
  have a: "i64 (int rtp) = int rtp" "i64 (int lim) = int lim"
    using assms by (simp_all add: i64_small)
  have "0 \<le> int lim div 2" "int lim div 2 \<le> 2 ^ 32" using assms by simp_all
  then have "i64 (int rtp + int lim div 2) = int rtp + int lim div 2"
    using assms by (intro i64_small) auto
  then show ?thesis using assms by (simp add: a half_sdiv)
qed

text \<open>One call while rewriting: the source's offset never changes.\<close>

lemma ts_generate_rewriting:
  assumes st: "ts_state s = Rewriting" and lim: "rtp < lim" "lim \<le> 2 ^ 32"
    and pos: "0 \<le> ts_delta_ts s + int rtp" "ts_delta_ts s + int rtp < 2 ^ 63"
  shows "\<exists>s1. ts_generate lim step now rtp s =
      (s1, nat ((ts_delta_ts s + int rtp) mod int lim)) \<and>
    ts_state s1 = Rewriting \<and> ts_delta_ts s1 = ts_delta_ts s"
proof -
  have r: "i64 (int rtp) = int rtp" using lim by (simp add: i64_small)
  have v: "i64_as_u64 (i64 (ts_delta_ts s + int rtp) smod i64 (int lim)) =
      nat ((ts_delta_ts s + int rtp) mod int lim)"
    using emit_value [OF pos] lim by simp
  show ?thesis
    using next_cycle_test [OF lim] st v by (auto simp: ts_generate_def ts_emit_def r Let_def)
qed

lemma ts_run_rewriting:
  assumes "ts_state s = Rewriting" "lim \<le> 2 ^ 32"
    and "\<forall>(now, rtp)\<in>set ps. rtp < lim \<and> 0 \<le> ts_delta_ts s + int rtp \<and> ts_delta_ts s + int rtp < 2 ^ 63"
  shows "ts_run lim step ps s = map (\<lambda>(now, rtp). nat ((ts_delta_ts s + int rtp) mod int lim)) ps"
  using assms
proof (induction ps arbitrary: s)
  case Nil
  then show ?case by simp
next
  case (Cons p ps)
  obtain now rtp where p: "p = (now, rtp)" by fastforce
  obtain s1 where "ts_generate lim step now rtp s = (s1, nat ((ts_delta_ts s + int rtp) mod int lim))"
    "ts_state s1 = Rewriting" "ts_delta_ts s1 = ts_delta_ts s"
    using ts_generate_rewriting [of s rtp lim step now] Cons.prems p by auto
  moreover from this have "ts_run lim step ps s1 =
      map (\<lambda>(now, rtp). nat ((ts_delta_ts s + int rtp) mod int lim)) ps"
    using Cons.IH [of s1] Cons.prems by simp
  ultimately show ?case by (simp add: p)
qed

section \<open>Properties\<close>

text \<open>
  C32. A source keeps its pace on the output time line: after \<^verbatim>\<open>new\<close> or \<^verbatim>\<open>reinit\<close> the first
  timestamp \<open>r\<close> is mapped to the start \<open>T\<close> of the time line (the wall clock, or a step behind
  the last output when the clock lags), and every following timestamp \<open>r'\<close>, in order or not and
  also beyond the wrap-around of the source, to \<open>T + r' - r\<close> modulo the limit. The hypotheses
  say that the values fit the signed fields and that no packet falls before the beginning of
  the output time line.
\<close>

theorem ts_run_same_pace:
  assumes st: "ts_state s \<noteq> Rewriting" and lim: "lim \<le> 2 ^ 32"
    and T: "T = ts_start step now s" "0 \<le> T" "T < 2 ^ 62"
    and r: "r < lim" and ps: "\<forall>(now', r')\<in>set ps. r' < lim \<and> int r \<le> T + int r'"
  shows "ts_run lim step ((now, r) # ps) s =
     map (\<lambda>(now', r'). nat ((T + int r' - int r) mod int lim)) ((now, r) # ps)"
proof -
  define s0 where "s0 = s\<lparr>ts_last_rtp_ts := r, ts_delta_ts := T - int r, ts_state := Rewriting\<rparr>"
  have ir: "i64 (int r) = int r" "i64 (T - int r) = T - int r" using r lim T by (simp_all add: i64_small)
  have gen: "ts_generate lim step now r s = ts_emit lim r s0"
    using st by (cases "ts_state s") (simp_all add: ts_generate_def s0_def ir T(1) [symmetric])
  have e: "ts_emit lim r s0 = (s0\<lparr>ts_last_extended_ts := T\<rparr>, nat (T mod int lim))"
    using emit_value [of T lim] T r lim by (simp add: ts_emit_def s0_def ir i64_small Let_def)
  have "ts_run lim step ps (s0\<lparr>ts_last_extended_ts := T\<rparr>) =
      map (\<lambda>(now', r'). nat ((T - int r + int r') mod int lim)) ps"
    using ps T r lim by (subst ts_run_rewriting) (auto simp: s0_def)
  then show ?thesis by (simp add: gen e algebra_simps)
qed

theorem ts_run_same_pace_witness:
  "ts_run (2 ^ 32) 10 [(1000, 4294967290), (1010, 4294967295), (1020, 894)]
      (ts_reinit (ts_new 90000\<lparr>ts_last_extended_ts := 4294967400\<rparr>)) = [114, 119, 1014]"
proof -
  let ?s = "ts_reinit (ts_new 90000\<lparr>ts_last_extended_ts := 4294967400\<rparr>)"
  have T: "4294967410 = ts_start 10 1000 ?s"
    by (simp add: ts_start_def ts_reinit_def ts_new_def i64_small)
  show ?thesis
    using ts_run_same_pace [of ?s "2 ^ 32" 4294967410 10 1000 4294967290 "[(1010, 4294967295), (1020, 894)]"] T
    by (simp add: ts_reinit_def)
qed

text \<open>
  The branch that is meant to extend the time line when the source starts its next cycle is
  never taken, because the last timestamp is overwritten before it is compared: when a source
  wraps around, the offset stays as it is and the extended timestamp that a later \<^verbatim>\<open>reinit\<close>
  compares with falls back by the whole cycle instead of growing.
\<close>

theorem ts_next_cycle_ignored:
  assumes "ts_state s = Rewriting" and "rtp < lim" "lim \<le> 2 ^ 32"
    and "int rtp + int lim div 2 < int (ts_last_rtp_ts s)" and "ts_last_rtp_ts s < lim"
    and "0 \<le> ts_delta_ts s" "ts_delta_ts s < 2 ^ 62"
  shows "fst (ts_generate lim step now rtp s) =
     s\<lparr>ts_last_rtp_ts := rtp, ts_last_extended_ts := ts_delta_ts s + int rtp\<rparr>"
proof -
  have i: "i64 (int rtp) = int rtp" "i64 (int (ts_last_rtp_ts s)) = int (ts_last_rtp_ts s)"
    "i64 (int lim) = int lim" "i64 (ts_delta_ts s + int rtp) = ts_delta_ts s + int rtp"
    using assms by (simp_all add: i64_small)
  have "i64 (int (ts_last_rtp_ts s) + int lim div 2) = int (ts_last_rtp_ts s) + int lim div 2"
    using assms(3,5) by (intro i64_small) simp_all
  then show ?thesis
    using assms next_cycle_test [of rtp lim] by (simp add: ts_generate_def ts_emit_def i half_sdiv Let_def)
qed

theorem ts_next_cycle_ignored_witness:
  "fst (ts_generate (2 ^ 32) 10 77 100 (ts_new 90000\<lparr>ts_state := Rewriting, ts_last_rtp_ts := 4294967000\<rparr>)) =
     ts_new 90000\<lparr>ts_state := Rewriting, ts_last_rtp_ts := 100, ts_last_extended_ts := 100\<rparr>"
  using ts_next_cycle_ignored
    [of "ts_new 90000\<lparr>ts_state := Rewriting, ts_last_rtp_ts := 4294967000\<rparr>" 100 "2 ^ 32" 10 77]
  by (simp add: ts_new_def)

end
