(* ===== verification/Media_Types.thy ===== *)
theory Media_Types
  imports Prelude "HOL-Library.Product_Lexorder"
begin

text \<open>
  \<^verbatim>\<open>packages/protocol/src/media.rs\<close>: the media packets that travel through the cluster, with the
  codec metadata that the selectors read and rewrite, and the table of layer bitrates with the
  layer selection. Sequence numbers, timestamps and layer indices are \<open>nat\<close>s; \<open>pkt_wf\<close> states
  their widths. A Rust array \<^verbatim>\<open>[T; 3]\<close> is a triple; \<open>arr3_get\<close> and \<open>arr3_set\<close> panic beyond it.
\<close>

section \<open>Arrays of three\<close>

type_synonym 'a arr3 = "'a \<times> 'a \<times> 'a"

fun arr3_get :: "'a arr3 \<Rightarrow> nat \<Rightarrow> 'a run" where
  "arr3_get (a, b, c) i =
     (if i = 0 then Inr a else if i = 1 then Inr b else if i = 2 then Inr c else Inl Index_Out_Of_Bounds)"

fun arr3_set :: "'a arr3 \<Rightarrow> nat \<Rightarrow> 'a \<Rightarrow> 'a arr3 run" where
  "arr3_set (a, b, c) i v =
     (if i = 0 then Inr (v, b, c) else if i = 1 then Inr (a, v, c)
      else if i = 2 then Inr (a, b, v) else Inl Index_Out_Of_Bounds)"

section \<open>Kinds, codecs and metadata\<close>

datatype media_kind = Audio | Video

definition kind_is_audio :: "media_kind \<Rightarrow> bool" where
  "kind_is_audio k = (k = Audio)"

definition kind_is_video :: "media_kind \<Rightarrow> bool" where
  "kind_is_video k = (k = Video)"

definition sample_rate :: "media_kind \<Rightarrow> nat" where
  "sample_rate k = (if kind_is_audio k then 48000 else 90000)"

datatype vp9_profile = VP9_P0 | VP9_P2

datatype h264_profile = P42001fNonInterleaved | P42001fSingleNal | P42e01fNonInterleaved
  | P42e01fSingleNal | P4d001fNonInterleaved | P4d001fSingleNal | P64001fNonInterleaved

record h264_sim =
  h264_spatial :: nat

record vp8_sim =
  vp8_picture_id :: "nat option"
  vp8_tl0_pic_idx :: "nat option"
  vp8_spatial :: nat
  vp8_temporal :: nat
  vp8_layer_sync :: bool

record vp9_svc =
  vp9_spatial :: nat
  vp9_temporal :: nat
  vp9_begin_frame :: bool
  vp9_end_frame :: bool
  vp9_spatial_layers :: "nat option"
  vp9_picture_id :: "nat option"
  vp9_switching_point :: bool
  vp9_predicted_frame :: bool

datatype media_scaling = Scaling_None | Simulcast

datatype media_orientation = Deg0 | Deg90 | Deg180 | Deg270

datatype media_codec = Codec_Opus | Codec_Vp8 | Codec_H264 h264_profile | Codec_Vp9 vp9_profile

datatype media_meta =
    Opus "int option"
  | H264 bool h264_profile "h264_sim option" "media_orientation option"
  | Vp8 bool "vp8_sim option" "media_orientation option"
  | Vp9 bool vp9_profile "vp9_svc option" "media_orientation option"

definition meta_is_audio :: "media_meta \<Rightarrow> bool" where
  "meta_is_audio m = (case m of Opus _ \<Rightarrow> True | _ \<Rightarrow> False)"

definition meta_is_video :: "media_meta \<Rightarrow> bool" where
  "meta_is_video m = (\<not> (case m of Opus _ \<Rightarrow> True | _ \<Rightarrow> False))"

definition is_video_key :: "media_meta \<Rightarrow> bool" where
  "is_video_key m = (case m of H264 key _ _ _ \<Rightarrow> key | Vp8 key _ _ \<Rightarrow> key | Vp9 key _ _ _ \<Rightarrow> key | Opus _ \<Rightarrow> False)"

definition meta_codec :: "media_meta \<Rightarrow> media_codec" where
  "meta_codec m = (case m of Opus _ \<Rightarrow> Codec_Opus | H264 _ p _ _ \<Rightarrow> Codec_H264 p | Vp8 _ _ _ \<Rightarrow> Codec_Vp8
     | Vp9 _ p _ _ \<Rightarrow> Codec_Vp9 p)"

definition meta_rotation :: "media_meta \<Rightarrow> media_orientation option" where
  "meta_rotation m = (case m of H264 _ _ _ r \<Rightarrow> r | Vp8 _ _ r \<Rightarrow> r | Vp9 _ _ _ r \<Rightarrow> r | Opus _ \<Rightarrow> None)"

definition meta_audio_level :: "media_meta \<Rightarrow> int option" where
  "meta_audio_level m = (case m of Opus l \<Rightarrow> l | _ \<Rightarrow> None)"

section \<open>Layer bitrates\<close>

type_synonym media_layer_bitrate = "nat option arr3"

type_synonym media_layers_bitrate = "media_layer_bitrate option arr3"

definition layer_new :: "nat arr3 \<Rightarrow> media_layer_bitrate" where
  "layer_new data = (case data of (a, b, c) \<Rightarrow> (Some a, Some b, Some c))"

definition layer_set_layer :: "nat \<Rightarrow> nat \<Rightarrow> media_layer_bitrate \<Rightarrow> media_layer_bitrate run" where
  "layer_set_layer index bitrate l = arr3_set l index (Some bitrate)"

definition layer_get_layer :: "nat \<Rightarrow> media_layer_bitrate \<Rightarrow> nat option run" where
  "layer_get_layer index l = arr3_get l index"

definition layer_number_temporals :: "media_layer_bitrate \<Rightarrow> nat" where
  "layer_number_temporals l = (case l of (a, b, c) \<Rightarrow>
     if a = None then 0 else if b = None then 1 else if c = None then 2 else 3)"

record media_layer_selection =
  sel_spatial :: nat
  sel_temporal :: nat

definition layers_default :: media_layers_bitrate where
  "layers_default = (None, None, None)"

definition layers_default_sim :: media_layers_bitrate where
  "layers_default_sim = (Some (Some 81, None, None), None, None)"

definition layers_set_layer :: "nat \<Rightarrow> media_layer_bitrate \<Rightarrow> media_layers_bitrate \<Rightarrow> media_layers_bitrate run" where
  "layers_set_layer index layer ls = arr3_set ls index (Some layer)"

definition layers_has_layer :: "nat \<Rightarrow> media_layers_bitrate \<Rightarrow> bool run" where
  "layers_has_layer index ls = rbind (arr3_get ls index) (\<lambda>l. Inr (l \<noteq> None))"

definition layers_number_layers :: "media_layers_bitrate \<Rightarrow> nat" where
  "layers_number_layers ls = (case ls of (a, b, c) \<Rightarrow>
     if a = None then 0 else if b = None then 1 else if c = None then 2 else 3)"

definition layers_number_temporals :: "media_layers_bitrate \<Rightarrow> nat" where
  "layers_number_temporals ls = (case fst ls of None \<Rightarrow> 0 | Some l \<Rightarrow> layer_number_temporals l)"

text \<open>The two loops of \<^verbatim>\<open>select_layer\<close>.\<close>

definition select_layer_inner ::
  "nat \<Rightarrow> nat \<Rightarrow> media_layer_bitrate \<Rightarrow> nat \<Rightarrow> nat \<times> nat \<Rightarrow> (nat \<times> nat) run" where
  "select_layer_inner target i layer j acc =
     rbind (arr3_get layer j) (\<lambda>b.
     Inr (case b of None \<Rightarrow> acc | Some bitrate \<Rightarrow> if target \<ge> bitrate then (i, j) else acc))"

definition select_layer_outer ::
  "nat \<Rightarrow> nat \<Rightarrow> media_layers_bitrate \<Rightarrow> nat \<Rightarrow> nat \<times> nat \<Rightarrow> (nat \<times> nat) run" where
  "select_layer_outer target max_temporal ls i acc =
     rbind (arr3_get ls i) (\<lambda>l.
     case l of None \<Rightarrow> Inr acc
     | Some layer \<Rightarrow> rfold (select_layer_inner target i layer) [0..<Suc (min max_temporal 2)] acc)"

definition select_layer ::
  "media_layers_bitrate \<Rightarrow> nat \<Rightarrow> nat \<Rightarrow> nat \<Rightarrow> media_layer_selection option run" where
  "select_layer ls target_bitrate_kbps max_spatial max_temporal =
     rbind (rfold (select_layer_outer target_bitrate_kbps max_temporal ls) [0..<Suc (min max_spatial 2)] (0, 0))
     (\<lambda>(s, t). Inr (Some \<lparr>sel_spatial = s, sel_temporal = t\<rparr>))"

section \<open>Packets\<close>

record media_packet =
  pkt_ts :: nat
  pkt_seq :: nat
  pkt_marker :: bool
  pkt_nackable :: bool
  pkt_layers :: "media_layers_bitrate option"
  pkt_meta :: media_meta
  pkt_data :: "8 word list"

definition build_audio :: "nat \<Rightarrow> nat \<Rightarrow> int option \<Rightarrow> 8 word list \<Rightarrow> media_packet" where
  "build_audio ts seq audio_level data = \<lparr>pkt_ts = ts, pkt_seq = seq, pkt_marker = True, pkt_nackable = False,
     pkt_layers = None, pkt_meta = Opus audio_level, pkt_data = data\<rparr>"

section \<open>Voice activity\<close>

text \<open>\<^verbatim>\<open>packages/media_core/src/endpoint/internal/local_track/voice_activity.rs\<close>.\<close>

definition AUDIO_LEVEL_THRESHOLD :: int where "AUDIO_LEVEL_THRESHOLD = -40"

definition VOICE_ACTIVITY_INTERVAL :: nat where "VOICE_ACTIVITY_INTERVAL = 500"

record voice_activity =
  va_last_activity :: nat

definition va_on_audio :: "nat \<Rightarrow> int option \<Rightarrow> voice_activity \<Rightarrow> voice_activity \<times> int option" where
  "va_on_audio now audio_level s = (case audio_level of
     None \<Rightarrow> (s, None)
   | Some level \<Rightarrow>
       if level \<ge> AUDIO_LEVEL_THRESHOLD \<and> u64_add (va_last_activity s) VOICE_ACTIVITY_INTERVAL \<le> now
       then (s\<lparr>va_last_activity := now\<rparr>, Some level) else (s, None))"

section \<open>Widths and candidates\<close>

text \<open>The widths of a packet's numbers: \<^verbatim>\<open>u16\<close> and \<^verbatim>\<open>u32\<close> fields, 15-bit picture ids, 8-bit
  \<^verbatim>\<open>tl0_pic_idx\<close>.\<close>

definition meta_wf :: "media_meta \<Rightarrow> bool" where
  "meta_wf m = (case m of
     Vp8 _ (Some sim) _ \<Rightarrow> (case vp8_picture_id sim of None \<Rightarrow> True | Some p \<Rightarrow> p < 2 ^ 15) \<and>
       (case vp8_tl0_pic_idx sim of None \<Rightarrow> True | Some p \<Rightarrow> p < 2 ^ 8)
   | Vp9 _ _ (Some svc) _ \<Rightarrow> (case vp9_picture_id svc of None \<Rightarrow> True | Some p \<Rightarrow> p < 2 ^ 15)
   | _ \<Rightarrow> True)"

definition pkt_wf :: "media_packet \<Rightarrow> bool" where
  "pkt_wf p \<longleftrightarrow> pkt_seq p < 2 ^ 16 \<and> pkt_ts p < 2 ^ 32 \<and> meta_wf (pkt_meta p)"

text \<open>The layers that fit the bitrate and the limits.\<close>

definition layer_fits :: "media_layers_bitrate \<Rightarrow> nat \<Rightarrow> nat \<Rightarrow> nat \<Rightarrow> nat \<times> nat \<Rightarrow> bool" where
  "layer_fits ls target max_spatial max_temporal p = (case p of (i, j) \<Rightarrow>
     i \<le> min max_spatial 2 \<and> j \<le> min max_temporal 2 \<and>
     (case arr3_get ls i of Inr (Some l) \<Rightarrow>
        (case arr3_get l j of Inr (Some b) \<Rightarrow> b \<le> target | _ \<Rightarrow> False) | _ \<Rightarrow> False))"

section \<open>Lemmas\<close>

lemma arr3_get_ok: "i \<le> 2 \<Longrightarrow> \<exists>v. arr3_get a i = Inr v"
  by (cases a) auto

lemma arr3_cases: "i \<le> (2::nat) \<Longrightarrow> i = 0 \<or> i = 1 \<or> i = 2"
  by linarith

text \<open>A loop that keeps the last index which passes a test.\<close>

definition keeps_last :: "(nat \<times> nat \<Rightarrow> bool) \<Rightarrow> (nat \<times> nat) set \<Rightarrow> nat \<times> nat \<Rightarrow> nat \<times> nat \<Rightarrow> bool" where
  "keeps_last P S a r \<longleftrightarrow>
     (if \<exists>p\<in>S. P p then r \<in> S \<and> P r \<and> (\<forall>p\<in>S. P p \<longrightarrow> p \<le> r) else r = a)"

lemma keeps_last_empty: "keeps_last P {} a a"
  by (simp add: keeps_last_def)

lemma keeps_last_trans:
  assumes "keeps_last P S a r1" "keeps_last P T r1 r2" "\<forall>p\<in>S. \<forall>q\<in>T. p \<le> q"
  shows "keeps_last P (S \<union> T) a r2"
  using assms unfolding keeps_last_def by (auto split: if_splits)

lemma keeps_last_single: "keeps_last P {p} a (if P p then p else a)"
  by (simp add: keeps_last_def)

lemma inner_loop:
  assumes "arr3_get ls i = Inr (Some layer)" "i \<le> min ms 2" "n \<le> Suc (min mt 2)"
  shows "\<exists>r. rfold (select_layer_inner target i layer) [0..<n] a = Inr r \<and>
     keeps_last (layer_fits ls target ms mt) ({i} \<times> {0..<n}) a r"
  using assms(3)
proof (induction n)
  case 0
  then show ?case by (simp add: keeps_last_empty)
next
  case (Suc n)
  then obtain r where r: "rfold (select_layer_inner target i layer) [0..<n] a = Inr r"
    "keeps_last (layer_fits ls target ms mt) ({i} \<times> {0..<n}) a r" by auto
  obtain b where b: "arr3_get layer n = Inr b" using arr3_get_ok [of n layer] Suc.prems by auto
  let ?r' = "if layer_fits ls target ms mt (i, n) then (i, n) else r"
  have step: "select_layer_inner target i layer n r = Inr ?r'"
    using assms Suc.prems b by (cases b) (auto simp: select_layer_inner_def layer_fits_def)
  have "keeps_last (layer_fits ls target ms mt) ({i} \<times> {0..<n} \<union> {(i, n)}) a ?r'"
    using r(2) keeps_last_single by (rule keeps_last_trans) auto
  moreover have "{i} \<times> {0..<n} \<union> {(i, n)} = {i} \<times> {0..<Suc n}" by auto
  ultimately show ?case using r(1) step by (simp add: rfold_append)
qed

lemma outer_loop:
  assumes "m \<le> Suc (min ms 2)"
  shows "\<exists>r. rfold (select_layer_outer target mt ls) [0..<m] a = Inr r \<and>
     keeps_last (layer_fits ls target ms mt) ({0..<m} \<times> {0..<Suc (min mt 2)}) a r"
  using assms
proof (induction m)
  case 0
  then show ?case by (simp add: keeps_last_empty)
next
  case (Suc m)
  let ?N = "Suc (min mt 2)"
  let ?f = "select_layer_outer target mt ls"
  obtain r where r: "rfold ?f [0..<m] a = Inr r"
    "keeps_last (layer_fits ls target ms mt) ({0..<m} \<times> {0..<?N}) a r" using Suc by auto
  obtain l where l: "arr3_get ls m = Inr l" using arr3_get_ok [of m ls] Suc.prems by auto
  have "\<exists>r'. ?f m r = Inr r' \<and> keeps_last (layer_fits ls target ms mt) ({m} \<times> {0..<?N}) r r'"
  proof (cases l)
    case None
    then show ?thesis using l by (auto simp: select_layer_outer_def keeps_last_def layer_fits_def)
  next
    case (Some layer)
    then show ?thesis using inner_loop [of ls m layer ms ?N mt target r] l Suc.prems
      by (simp add: select_layer_outer_def del: upt_Suc)
  qed
  then obtain r' where r': "?f m r = Inr r'" "keeps_last (layer_fits ls target ms mt) ({m} \<times> {0..<?N}) r r'"
    by blast
  have "keeps_last (layer_fits ls target ms mt) ({0..<m} \<times> {0..<?N} \<union> {m} \<times> {0..<?N}) a r'"
    using r(2) r'(2) by (rule keeps_last_trans) auto
  moreover have "{0..<m} \<times> {0..<?N} \<union> {m} \<times> {0..<?N} = {0..<Suc m} \<times> {0..<?N}" by auto
  ultimately show ?case using r(1) r'(1) by (simp add: rfold_append)
qed

lemma select_layer_ok:
  "\<exists>s t. select_layer ls target ms mt = Inr (Some \<lparr>sel_spatial = s, sel_temporal = t\<rparr>) \<and>
     s \<le> 2 \<and> t \<le> 2 \<and>
     keeps_last (layer_fits ls target ms mt) ({0..<Suc (min ms 2)} \<times> {0..<Suc (min mt 2)}) (0, 0) (s, t)"
proof -
  obtain r where r: "rfold (select_layer_outer target mt ls) [0..<Suc (min ms 2)] (0, 0) = Inr r"
    "keeps_last (layer_fits ls target ms mt) ({0..<Suc (min ms 2)} \<times> {0..<Suc (min mt 2)}) (0, 0) r"
    using outer_loop [of "Suc (min ms 2)" ms target mt ls "(0, 0)"] by blast
  then have "fst r \<le> 2 \<and> snd r \<le> 2" by (auto simp: keeps_last_def split: if_splits)
  with r show ?thesis by (cases r) (simp add: select_layer_def del: upt_Suc)
qed

section \<open>Properties\<close>

text \<open>
  Layer selection always returns a layer and never indexes out of bounds: if some layer
  within the limits has a bitrate not above the target, the result is the last such layer in
  the order of spatial, then temporal layers, and otherwise it is the base layer.
\<close>

theorem select_layer_best:
  "\<exists>s t. select_layer ls target ms mt = Inr (Some \<lparr>sel_spatial = s, sel_temporal = t\<rparr>) \<and>
     (if \<exists>p. layer_fits ls target ms mt p
      then layer_fits ls target ms mt (s, t) \<and> (\<forall>p. \<not> (layer_fits ls target ms mt p \<and> (s, t) < p))
      else (s, t) = (0, 0))"
proof -
  have in_range: "p \<in> {0..<Suc (min ms 2)} \<times> {0..<Suc (min mt 2)}" if "layer_fits ls target ms mt p" for p
    using that by (auto simp: layer_fits_def)
  show ?thesis
    using select_layer_ok [of ls target ms mt] in_range unfolding keeps_last_def
    by (metis (no_types, lifting) leD)
qed

end
