(* ===== verification/Video_Selectors.thy ===== *)
theory Video_Selectors
  imports Media_Types Seq_Rewrite Ts_Rewrite
begin

text \<open>
  \<^verbatim>\<open>packages/media_core/src/endpoint/internal/local_track/packet_selector/\<close>: the four
  implementations of the trait \<^verbatim>\<open>VideoSelector\<close>, which decide for every packet whether it is
  forwarded, switch between simulcast or SVC layers, and keep the rewriters of the shared context
  consistent. An \<^verbatim>\<open>Option<()>\<close> result is a \<open>bool\<close>; every operation returns the selector, the
  context and the packet it was given by mutable reference.

  The locale \<open>video_selector\<close> states what the packet selector relies on: no panic on
  well-formed packets, the context and the packet stay well-formed, and forwarding starts only
  once a key frame has been seen. All four selectors interpret it.
\<close>

section \<open>The shared context\<close>

definition SEQ_MAX :: nat where "SEQ_MAX = 2 ^ 16"

definition TS_MAX :: nat where "TS_MAX = 2 ^ 32"

definition PIC_ID_MAX :: nat where "PIC_ID_MAX = 2 ^ 15"

definition TL0IDX_MAX :: nat where "TL0IDX_MAX = 2 ^ 8"

definition TS_DELTA_REINIT :: nat where "TS_DELTA_REINIT = 10"

datatype action = RequestKeyFrame

record vp8_ctx =
  v8c_pic_id_rewrite :: seq_rewrite
  v8c_tl0idx_rewrite :: seq_rewrite

record vp9_ctx =
  v9c_pic_id_rewrite :: seq_rewrite

record selector_ctx =
  cx_ts_rewrite :: ts_rewrite
  cx_seq_rewrite :: seq_rewrite
  cx_vp8_ctx :: vp8_ctx
  cx_vp9_ctx :: vp9_ctx

definition ctx_new :: "media_kind \<Rightarrow> selector_ctx" where
  "ctx_new kind = \<lparr>cx_ts_rewrite = ts_new (sample_rate kind), cx_seq_rewrite = sr_default,
     cx_vp8_ctx = \<lparr>v8c_pic_id_rewrite = sr_default, v8c_tl0idx_rewrite = sr_default\<rparr>,
     cx_vp9_ctx = \<lparr>v9c_pic_id_rewrite = sr_default\<rparr>\<rparr>"

definition ctx_reinit :: "selector_ctx \<Rightarrow> selector_ctx" where
  "ctx_reinit c = c\<lparr>cx_seq_rewrite := sr_reinit (cx_seq_rewrite c), cx_ts_rewrite := ts_reinit (cx_ts_rewrite c)\<rparr>"

definition ctx_reinit_vp8 :: "selector_ctx \<Rightarrow> selector_ctx" where
  "ctx_reinit_vp8 c = c\<lparr>cx_vp8_ctx := \<lparr>v8c_pic_id_rewrite = sr_reinit (v8c_pic_id_rewrite (cx_vp8_ctx c)),
     v8c_tl0idx_rewrite = sr_reinit (v8c_tl0idx_rewrite (cx_vp8_ctx c))\<rparr>\<rparr>"

definition ctx_reinit_vp9 :: "selector_ctx \<Rightarrow> selector_ctx" where
  "ctx_reinit_vp9 c = c\<lparr>cx_vp9_ctx := \<lparr>v9c_pic_id_rewrite = sr_reinit (v9c_pic_id_rewrite (cx_vp9_ctx c))\<rparr>\<rparr>"

definition ctx_drop_seq :: "nat \<Rightarrow> selector_ctx \<Rightarrow> selector_ctx run" where
  "ctx_drop_seq seq c = rbind (sr_drop_value SEQ_MAX seq (cx_seq_rewrite c)) (\<lambda>r. Inr (c\<lparr>cx_seq_rewrite := r\<rparr>))"

definition to_kbps :: "nat \<Rightarrow> nat" where
  "to_kbps bitrate = as_u16 (bitrate div 1000)"

section \<open>Single stream\<close>

type_synonym selected = "selector_ctx \<times> media_packet \<times> bool"

definition single_select :: "selector_ctx \<Rightarrow> media_packet \<Rightarrow> unit \<Rightarrow> (unit \<times> selected) run" where
  "single_select c p s = Inr (s, c, p, True)"

section \<open>H264 simulcast\<close>

record h264_selector =
  h4_bitrate_kbps :: nat
  h4_layers :: media_layers_bitrate
  h4_current :: "nat option"
  h4_target :: "nat option"
  h4_queue :: "action list"
  h4_limit :: "nat \<times> nat"

definition h264_new :: "nat \<Rightarrow> media_layers_bitrate \<Rightarrow> nat \<times> nat \<Rightarrow> h264_selector run" where
  "h264_new bitrate layers limit =
     rbind (select_layer layers (to_kbps bitrate) (fst limit) (snd limit)) (\<lambda>target.
     Inr \<lparr>h4_bitrate_kbps = to_kbps bitrate, h4_layers = layers, h4_current = None,
       h4_target = map_option sel_spatial target, h4_queue = [], h4_limit = limit\<rparr>)"

definition h264_select_layer :: "h264_selector \<Rightarrow> h264_selector run" where
  "h264_select_layer s =
     rbind (select_layer (h4_layers s) (h4_bitrate_kbps s) (fst (h4_limit s)) (snd (h4_limit s))) (\<lambda>sel.
     let target = map_option sel_spatial sel in
     if target \<noteq> h4_target s then
       (let s1 = s\<lparr>h4_target := target\<rparr> in
        case target of None \<Rightarrow> Inr s1
        | Some t \<Rightarrow> if h4_current s1 = None \<or> Some t \<noteq> h4_current s1
                   then Inr (s1\<lparr>h4_queue := h4_queue s1 @ [RequestKeyFrame]\<rparr>) else Inr s1)
     else Inr s)"

definition h264_try_switch :: "selector_ctx \<Rightarrow> media_packet \<Rightarrow> h264_selector \<Rightarrow> h264_selector \<times> selector_ctx" where
  "h264_try_switch c p s =
     (if h4_target s = h4_current s then (s, c)
      else case pkt_meta p of
        H264 key _ (Some _) _ \<Rightarrow>
          (case (h4_current s, h4_target s) of
             (Some current, Some target) \<Rightarrow>
               if target < current then
                 (if key then (s\<lparr>h4_current := h4_target s\<rparr>, ctx_reinit c)
                  else (s\<lparr>h4_queue := h4_queue s @ [RequestKeyFrame]\<rparr>, c))
               else if target > current then
                 (if key then (s\<lparr>h4_current := Some target\<rparr>, ctx_reinit c)
                  else (s\<lparr>h4_queue := h4_queue s @ [RequestKeyFrame]\<rparr>, c))
               else (s, c)
           | (Some _, None) \<Rightarrow> (s\<lparr>h4_current := None\<rparr>, c)
           | (None, Some target) \<Rightarrow> if key then (s\<lparr>h4_current := Some target\<rparr>, c) else (s, c)
           | (None, None) \<Rightarrow> (s, c))
      | _ \<Rightarrow> (s, c))"

definition h264_is_allow :: "media_packet \<Rightarrow> h264_selector \<Rightarrow> bool" where
  "h264_is_allow p s = (case h4_current s of None \<Rightarrow> False
     | Some current \<Rightarrow>
         (case pkt_meta p of H264 _ _ (Some sim) _ \<Rightarrow> current = h264_spatial sim | _ \<Rightarrow> False))"

definition h264_set_target_bitrate :: "nat \<Rightarrow> h264_selector \<Rightarrow> h264_selector run" where
  "h264_set_target_bitrate bitrate s = h264_select_layer (s\<lparr>h4_bitrate_kbps := to_kbps bitrate\<rparr>)"

definition h264_set_limit_layer :: "nat \<Rightarrow> nat \<Rightarrow> h264_selector \<Rightarrow> h264_selector run" where
  "h264_set_limit_layer max_spatial max_temporal s = h264_select_layer (s\<lparr>h4_limit := (max_spatial, max_temporal)\<rparr>)"

definition h264_select :: "selector_ctx \<Rightarrow> media_packet \<Rightarrow> h264_selector \<Rightarrow> (h264_selector \<times> selected) run" where
  "h264_select c p s =
     rbind (case pkt_layers p of None \<Rightarrow> Inr s
            | Some layers \<Rightarrow> h264_select_layer (s\<lparr>h4_layers := layers\<rparr>)) (\<lambda>s1.
     let (s2, c2) = h264_try_switch c p s1 in Inr (s2, c2, p, h264_is_allow p s2))"

definition h264_pop_action :: "h264_selector \<Rightarrow> h264_selector \<times> action option" where
  "h264_pop_action s = (case h4_queue s of [] \<Rightarrow> (s, None) | a # q \<Rightarrow> (s\<lparr>h4_queue := q\<rparr>, Some a))"

section \<open>VP8 simulcast\<close>

record vp8_selector =
  v8_bitrate_kbps :: nat
  v8_layers :: media_layers_bitrate
  v8_current :: "media_layer_selection option"
  v8_target :: "media_layer_selection option"
  v8_queue :: "action list"
  v8_limit :: "nat \<times> nat"

definition vp8_new :: "nat \<Rightarrow> media_layers_bitrate \<Rightarrow> nat \<times> nat \<Rightarrow> vp8_selector run" where
  "vp8_new bitrate layers limit =
     rbind (select_layer layers (to_kbps bitrate) (fst limit) (snd limit)) (\<lambda>target.
     Inr \<lparr>v8_bitrate_kbps = to_kbps bitrate, v8_layers = layers, v8_current = None,
       v8_target = target, v8_queue = [], v8_limit = limit\<rparr>)"

definition vp8_request :: "vp8_selector \<Rightarrow> vp8_selector" where
  "vp8_request s = s\<lparr>v8_queue := v8_queue s @ [RequestKeyFrame]\<rparr>"

definition vp8_select_layer :: "vp8_selector \<Rightarrow> vp8_selector run" where
  "vp8_select_layer s =
     rbind (select_layer (v8_layers s) (v8_bitrate_kbps s) (fst (v8_limit s)) (snd (v8_limit s))) (\<lambda>target.
     if target \<noteq> v8_target s then
       (let s1 = s\<lparr>v8_target := target\<rparr> in
        case target of None \<Rightarrow> Inr s1
        | Some t \<Rightarrow> (case v8_current s1 of None \<Rightarrow> Inr (vp8_request s1)
            | Some cur \<Rightarrow> if sel_spatial t \<noteq> sel_spatial cur then Inr (vp8_request s1) else Inr s1))
     else Inr s)"

text \<open>\<^verbatim>\<open>try_switch\<close> on a simulcast packet, one function for each direction of a switch.\<close>

definition vp8_switch_temporal :: "vp8_sim \<Rightarrow> media_layer_selection \<Rightarrow> media_layer_selection \<Rightarrow> media_layer_selection" where
  "vp8_switch_temporal sim current target =
     (if sel_temporal target > sel_temporal current then
        (if vp8_spatial sim = sel_spatial current \<and> vp8_temporal sim \<le> sel_temporal target \<and> vp8_layer_sync sim
         then current\<lparr>sel_temporal := sel_temporal target\<rparr> else current)
      else if sel_temporal target < sel_temporal current then current\<lparr>sel_temporal := sel_temporal target\<rparr>
      else current)"

definition vp8_switch_down :: "selector_ctx \<Rightarrow> bool \<Rightarrow> media_layer_selection \<Rightarrow> media_layer_selection \<Rightarrow>
    vp8_selector \<Rightarrow> vp8_selector \<times> selector_ctx" where
  "vp8_switch_down c key current target s =
     (let cur1 = (if sel_temporal current \<noteq> 0 then current\<lparr>sel_temporal := 0\<rparr> else current)
      in if key then (s\<lparr>v8_current := Some (cur1\<lparr>sel_spatial := sel_spatial target, sel_temporal := sel_temporal target\<rparr>)\<rparr>,
                      ctx_reinit (ctx_reinit_vp8 c))
         else (vp8_request (s\<lparr>v8_current := Some cur1\<rparr>), c))"

definition vp8_switch_up :: "selector_ctx \<Rightarrow> bool \<Rightarrow> vp8_sim \<Rightarrow> media_layer_selection \<Rightarrow> media_layer_selection \<Rightarrow>
    vp8_selector \<Rightarrow> vp8_selector \<times> selector_ctx" where
  "vp8_switch_up c key sim current target s =
     (let cur1 = (if vp8_spatial sim = sel_spatial current \<and> sel_temporal current \<noteq> 2 \<and> vp8_layer_sync sim
                  then current\<lparr>sel_temporal := 2\<rparr> else current)
      in if key then (s\<lparr>v8_current := Some (cur1\<lparr>sel_spatial := sel_spatial target, sel_temporal := sel_temporal target\<rparr>)\<rparr>,
                      ctx_reinit (ctx_reinit_vp8 c))
         else (vp8_request (s\<lparr>v8_current := Some cur1\<rparr>), c))"

definition vp8_try_switch :: "selector_ctx \<Rightarrow> media_packet \<Rightarrow> vp8_selector \<Rightarrow> vp8_selector \<times> selector_ctx" where
  "vp8_try_switch c p s =
     (if v8_target s = v8_current s then (s, c)
      else case pkt_meta p of
        Vp8 key (Some sim) _ \<Rightarrow>
          (case (v8_current s, v8_target s) of
             (Some current, Some target) \<Rightarrow>
               if sel_spatial target = sel_spatial current then
                 (s\<lparr>v8_current := Some (vp8_switch_temporal sim current target)\<rparr>, c)
               else if sel_spatial target < sel_spatial current then vp8_switch_down c key current target s
               else vp8_switch_up c key sim current target s
           | (Some _, None) \<Rightarrow> (s\<lparr>v8_current := None\<rparr>, c)
           | (None, Some target) \<Rightarrow> if key then (s\<lparr>v8_current := Some target\<rparr>, ctx_reinit_vp8 c) else (s, c)
           | (None, None) \<Rightarrow> (s, c))
      | _ \<Rightarrow> (s, c))"

text \<open>Rewriting the two VP8 counters of a forwarded packet, in the order of the code; \<open>None\<close> from
  a rewriter returns early and leaves what has been written so far.\<close>

definition vp8_rewrite_tl0 :: "selector_ctx \<Rightarrow> vp8_sim \<Rightarrow> (selector_ctx \<times> vp8_sim \<times> bool) run" where
  "vp8_rewrite_tl0 c sim = (case vp8_tl0_pic_idx sim of None \<Rightarrow> Inr (c, sim, True)
     | Some i \<Rightarrow>
         rbind (sr_generate TL0IDX_MAX i (v8c_tl0idx_rewrite (cx_vp8_ctx c))) (\<lambda>(r, out).
         let c1 = c\<lparr>cx_vp8_ctx := (cx_vp8_ctx c)\<lparr>v8c_tl0idx_rewrite := r\<rparr>\<rparr> in
         Inr (case out of None \<Rightarrow> (c1, sim, False) | Some v \<Rightarrow> (c1, sim\<lparr>vp8_tl0_pic_idx := Some (as_u8 v)\<rparr>, True))))"

definition vp8_rewrite_pic :: "selector_ctx \<Rightarrow> vp8_sim \<Rightarrow> (selector_ctx \<times> vp8_sim \<times> bool) run" where
  "vp8_rewrite_pic c sim = (case vp8_picture_id sim of None \<Rightarrow> Inr (c, sim, True)
     | Some i \<Rightarrow>
         rbind (sr_generate PIC_ID_MAX i (v8c_pic_id_rewrite (cx_vp8_ctx c))) (\<lambda>(r, out).
         let c1 = c\<lparr>cx_vp8_ctx := (cx_vp8_ctx c)\<lparr>v8c_pic_id_rewrite := r\<rparr>\<rparr> in
         Inr (case out of None \<Rightarrow> (c1, sim, False) | Some v \<Rightarrow> (c1, sim\<lparr>vp8_picture_id := Some (as_u16 v)\<rparr>, True))))"

definition vp8_drop :: "selector_ctx \<Rightarrow> media_packet \<Rightarrow> vp8_sim \<Rightarrow> selector_ctx run" where
  "vp8_drop c p sim =
     rbind (case vp8_picture_id sim of None \<Rightarrow> Inr c
            | Some i \<Rightarrow> rbind (sr_drop_value PIC_ID_MAX i (v8c_pic_id_rewrite (cx_vp8_ctx c))) (\<lambda>r.
                Inr (c\<lparr>cx_vp8_ctx := (cx_vp8_ctx c)\<lparr>v8c_pic_id_rewrite := r\<rparr>\<rparr>)))
       (ctx_drop_seq (pkt_seq p))"

definition vp8_is_allow :: "selector_ctx \<Rightarrow> media_packet \<Rightarrow> vp8_selector \<Rightarrow> selected run" where
  "vp8_is_allow c p s = (case v8_current s of None \<Rightarrow> Inr (c, p, False)
     | Some current \<Rightarrow>
         (case pkt_meta p of
            Vp8 key (Some sim) rot \<Rightarrow>
              if vp8_spatial sim = sel_spatial current \<and> vp8_temporal sim \<le> sel_temporal current then
                rbind (vp8_rewrite_tl0 c sim) (\<lambda>(c1, sim1, ok1).
                if \<not> ok1 then Inr (c1, p\<lparr>pkt_meta := Vp8 key (Some sim1) rot\<rparr>, False)
                else rbind (vp8_rewrite_pic c1 sim1) (\<lambda>(c2, sim2, ok2).
                     Inr (c2, p\<lparr>pkt_meta := Vp8 key (Some sim2) rot\<rparr>, ok2)))
              else if vp8_spatial sim = sel_spatial current then
                rbind (vp8_drop c p sim) (\<lambda>c1. Inr (c1, p, False))
              else Inr (c, p, False)
          | _ \<Rightarrow> Inr (c, p, False)))"

definition vp8_on_init :: "selector_ctx \<Rightarrow> selector_ctx" where
  "vp8_on_init c = ctx_reinit_vp8 c"

definition vp8_set_target_bitrate :: "nat \<Rightarrow> vp8_selector \<Rightarrow> vp8_selector run" where
  "vp8_set_target_bitrate bitrate s = vp8_select_layer (s\<lparr>v8_bitrate_kbps := to_kbps bitrate\<rparr>)"

definition vp8_set_limit_layer :: "nat \<Rightarrow> nat \<Rightarrow> vp8_selector \<Rightarrow> vp8_selector run" where
  "vp8_set_limit_layer max_spatial max_temporal s = vp8_select_layer (s\<lparr>v8_limit := (max_spatial, max_temporal)\<rparr>)"

definition vp8_select :: "selector_ctx \<Rightarrow> media_packet \<Rightarrow> vp8_selector \<Rightarrow> (vp8_selector \<times> selected) run" where
  "vp8_select c p s =
     rbind (case pkt_layers p of None \<Rightarrow> Inr s
            | Some layers \<Rightarrow> vp8_select_layer (s\<lparr>v8_layers := layers\<rparr>)) (\<lambda>s1.
     let (s2, c2) = vp8_try_switch c p s1 in
     rbind (vp8_is_allow c2 p s2) (\<lambda>r. Inr (s2, r)))"

definition vp8_pop_action :: "vp8_selector \<Rightarrow> vp8_selector \<times> action option" where
  "vp8_pop_action s = (case v8_queue s of [] \<Rightarrow> (s, None) | a # q \<Rightarrow> (s\<lparr>v8_queue := q\<rparr>, Some a))"

section \<open>VP9 SVC\<close>

record vp9_selector =
  v9_k_svc :: bool
  v9_bitrate_kbps :: nat
  v9_layers :: media_layers_bitrate
  v9_current :: "media_layer_selection option"
  v9_target :: "media_layer_selection option"
  v9_queue :: "action list"
  v9_pre_end_frame :: bool
  v9_limit :: "nat \<times> nat"

definition vp9_new :: "bool \<Rightarrow> nat \<Rightarrow> media_layers_bitrate \<Rightarrow> nat \<times> nat \<Rightarrow> vp9_selector run" where
  "vp9_new k_svc bitrate layers limit =
     rbind (select_layer layers (to_kbps bitrate) (fst limit) (snd limit)) (\<lambda>target.
     Inr \<lparr>v9_k_svc = k_svc, v9_bitrate_kbps = to_kbps bitrate, v9_layers = layers, v9_current = None,
       v9_target = target, v9_queue = [], v9_pre_end_frame = False, v9_limit = limit\<rparr>)"

definition vp9_request :: "vp9_selector \<Rightarrow> vp9_selector" where
  "vp9_request s = s\<lparr>v9_queue := v9_queue s @ [RequestKeyFrame]\<rparr>"

definition vp9_select_layer :: "vp9_selector \<Rightarrow> vp9_selector run" where
  "vp9_select_layer s =
     rbind (select_layer (v9_layers s) (v9_bitrate_kbps s) (fst (v9_limit s)) (snd (v9_limit s))) (\<lambda>target.
     if target \<noteq> v9_target s then
       (let s1 = s\<lparr>v9_target := target\<rparr> in
        case target of None \<Rightarrow> Inr s1
        | Some t \<Rightarrow> (case v9_current s1 of None \<Rightarrow> Inr (vp9_request s1)
            | Some cur \<Rightarrow> if v9_k_svc s1 \<or> sel_spatial t > sel_spatial cur then Inr (vp9_request s1) else Inr s1))
     else Inr s)"

definition vp9_switch_temporal :: "bool \<Rightarrow> vp9_svc \<Rightarrow> media_layer_selection \<Rightarrow> media_layer_selection \<Rightarrow> media_layer_selection" where
  "vp9_switch_temporal pre_end svc current target =
     (if sel_temporal target > sel_temporal current then
        (if vp9_spatial svc = sel_spatial current \<and> vp9_temporal svc > sel_temporal current \<and>
            vp9_switching_point svc \<and> pre_end
         then current\<lparr>sel_temporal := sel_temporal target\<rparr> else current)
      else if sel_temporal target < sel_temporal current then
        (if pre_end then current\<lparr>sel_temporal := sel_temporal target\<rparr> else current)
      else current)"

definition vp9_switch_down :: "selector_ctx \<Rightarrow> bool \<Rightarrow> media_layer_selection \<Rightarrow> media_layer_selection \<Rightarrow>
    vp9_selector \<Rightarrow> vp9_selector \<times> selector_ctx" where
  "vp9_switch_down c key current target s =
     (let cur1 = (if sel_temporal current \<noteq> 0 \<and> v9_pre_end_frame s then current\<lparr>sel_temporal := 0\<rparr> else current)
      in if v9_k_svc s \<and> key \<or> \<not> v9_k_svc s \<and> v9_pre_end_frame s
         then (s\<lparr>v9_current := Some (cur1\<lparr>sel_spatial := sel_spatial target, sel_temporal := sel_temporal target\<rparr>)\<rparr>,
               ctx_reinit (ctx_reinit_vp9 c))
         else if v9_k_svc s then (vp9_request (s\<lparr>v9_current := Some cur1\<rparr>), c)
         else (s\<lparr>v9_current := Some cur1\<rparr>, c))"

definition vp9_switch_up :: "selector_ctx \<Rightarrow> bool \<Rightarrow> vp9_svc \<Rightarrow> media_layer_selection \<Rightarrow> media_layer_selection \<Rightarrow>
    vp9_selector \<Rightarrow> vp9_selector \<times> selector_ctx" where
  "vp9_switch_up c key svc current target s =
     (let cur1 = (if vp9_spatial svc = sel_spatial current \<and> vp9_temporal svc > sel_temporal current \<and>
                     sel_temporal current \<noteq> 2 \<and> vp9_switching_point svc \<and> v9_pre_end_frame s
                  then current\<lparr>sel_temporal := 2\<rparr> else current)
      in if key then (s\<lparr>v9_current := Some (cur1\<lparr>sel_spatial := sel_spatial target, sel_temporal := sel_temporal target\<rparr>)\<rparr>,
                      ctx_reinit (ctx_reinit_vp9 c))
         else (vp9_request (s\<lparr>v9_current := Some cur1\<rparr>), c))"

definition vp9_try_switch :: "selector_ctx \<Rightarrow> media_packet \<Rightarrow> vp9_selector \<Rightarrow> vp9_selector \<times> selector_ctx" where
  "vp9_try_switch c p s =
     (if v9_target s = v9_current s then (s, c)
      else case pkt_meta p of
        Vp9 key _ (Some svc) _ \<Rightarrow>
          (let (s1, c1) =
            (case (v9_current s, v9_target s) of
               (Some current, Some target) \<Rightarrow>
                 if sel_spatial target = sel_spatial current then
                   (s\<lparr>v9_current := Some (vp9_switch_temporal (v9_pre_end_frame s) svc current target)\<rparr>, c)
                 else if sel_spatial target < sel_spatial current then vp9_switch_down c key current target s
                 else vp9_switch_up c key svc current target s
             | (Some _, None) \<Rightarrow> if v9_pre_end_frame s then (s\<lparr>v9_current := None\<rparr>, c) else (s, c)
             | (None, Some target) \<Rightarrow> if key then (s\<lparr>v9_current := Some target\<rparr>, ctx_reinit_vp9 c) else (s, c)
             | (None, None) \<Rightarrow> (s, c))
           in (s1\<lparr>v9_pre_end_frame := vp9_end_frame svc\<rparr>, c1))
      | _ \<Rightarrow> (s, c))"

definition vp9_rewrite_pic :: "selector_ctx \<Rightarrow> vp9_svc \<Rightarrow> (selector_ctx \<times> vp9_svc \<times> bool) run" where
  "vp9_rewrite_pic c svc = (case vp9_picture_id svc of None \<Rightarrow> Inr (c, svc, True)
     | Some i \<Rightarrow>
         rbind (sr_generate PIC_ID_MAX i (v9c_pic_id_rewrite (cx_vp9_ctx c))) (\<lambda>(r, out).
         let c1 = c\<lparr>cx_vp9_ctx := \<lparr>v9c_pic_id_rewrite = r\<rparr>\<rparr> in
         Inr (case out of None \<Rightarrow> (c1, svc, False) | Some v \<Rightarrow> (c1, svc\<lparr>vp9_picture_id := Some (as_u16 v)\<rparr>, True))))"

definition vp9_drop :: "selector_ctx \<Rightarrow> media_packet \<Rightarrow> vp9_svc \<Rightarrow> selector_ctx run" where
  "vp9_drop c p svc =
     rbind (case vp9_picture_id svc of None \<Rightarrow> Inr c
            | Some i \<Rightarrow> rbind (sr_drop_value PIC_ID_MAX i (v9c_pic_id_rewrite (cx_vp9_ctx c))) (\<lambda>r.
                Inr (c\<lparr>cx_vp9_ctx := \<lparr>v9c_pic_id_rewrite = r\<rparr>\<rparr>)))
       (ctx_drop_seq (pkt_seq p))"

definition vp9_is_allow :: "selector_ctx \<Rightarrow> media_packet \<Rightarrow> vp9_selector \<Rightarrow> selected run" where
  "vp9_is_allow c p s = (case v9_current s of None \<Rightarrow> Inr (c, p, False)
     | Some current \<Rightarrow>
         (case pkt_meta p of
            Vp9 key prof (Some svc) rot \<Rightarrow>
              if vp9_spatial svc \<le> sel_spatial current \<and> vp9_temporal svc \<le> sel_temporal current then
                rbind (vp9_rewrite_pic c svc) (\<lambda>(c1, svc1, ok1).
                let p1 = p\<lparr>pkt_meta := Vp9 key prof (Some svc1) rot\<rparr> in
                if \<not> ok1 then Inr (c1, p1, False)
                else if vp9_spatial svc = sel_spatial current \<and> vp9_end_frame svc
                then Inr (c1, p1\<lparr>pkt_marker := True\<rparr>, True)
                else Inr (c1, p1, True))
              else rbind (vp9_drop c p svc) (\<lambda>c1. Inr (c1, p, False))
          | _ \<Rightarrow> Inr (c, p, False)))"

definition vp9_on_init :: "selector_ctx \<Rightarrow> selector_ctx" where
  "vp9_on_init c = ctx_reinit_vp9 c"

definition vp9_set_target_bitrate :: "nat \<Rightarrow> vp9_selector \<Rightarrow> vp9_selector run" where
  "vp9_set_target_bitrate bitrate s = vp9_select_layer (s\<lparr>v9_bitrate_kbps := to_kbps bitrate\<rparr>)"

definition vp9_set_limit_layer :: "nat \<Rightarrow> nat \<Rightarrow> vp9_selector \<Rightarrow> vp9_selector run" where
  "vp9_set_limit_layer max_spatial max_temporal s = vp9_select_layer (s\<lparr>v9_limit := (max_spatial, max_temporal)\<rparr>)"

definition vp9_select :: "selector_ctx \<Rightarrow> media_packet \<Rightarrow> vp9_selector \<Rightarrow> (vp9_selector \<times> selected) run" where
  "vp9_select c p s =
     rbind (case pkt_layers p of None \<Rightarrow> Inr s
            | Some layers \<Rightarrow> vp9_select_layer (s\<lparr>v9_layers := layers\<rparr>)) (\<lambda>s1.
     let (s2, c2) = vp9_try_switch c p s1 in
     rbind (vp9_is_allow c2 p s2) (\<lambda>r. Inr (s2, r)))"

definition vp9_pop_action :: "vp9_selector \<Rightarrow> vp9_selector \<times> action option" where
  "vp9_pop_action s = (case v9_queue s of [] \<Rightarrow> (s, None) | a # q \<Rightarrow> (s\<lparr>v9_queue := q\<rparr>, Some a))"

section \<open>The interface of a selector\<close>

text \<open>A well-formed context: every rewriter is, and the one for \<^verbatim>\<open>tl0_pic_idx\<close> never drops.\<close>

definition ctx_wf :: "selector_ctx \<Rightarrow> bool" where
  "ctx_wf c \<longleftrightarrow> sr_wf SEQ_MAX (cx_seq_rewrite c) \<and> sr_wf PIC_ID_MAX (v8c_pic_id_rewrite (cx_vp8_ctx c)) \<and>
     sr_nodrop TL0IDX_MAX (v8c_tl0idx_rewrite (cx_vp8_ctx c)) \<and>
     sr_wf PIC_ID_MAX (v9c_pic_id_rewrite (cx_vp9_ctx c))"

text \<open>What a selector may do to the packet it looks at.\<close>

definition pkt_kept :: "media_packet \<Rightarrow> media_packet \<Rightarrow> bool" where
  "pkt_kept p q \<longleftrightarrow> pkt_seq q = pkt_seq p \<and> pkt_ts q = pkt_ts p \<and> pkt_data q = pkt_data p \<and>
     is_video_key (pkt_meta q) = is_video_key (pkt_meta p) \<and> (pkt_wf p \<longrightarrow> pkt_wf q)"

locale video_selector =
  fixes select :: "selector_ctx \<Rightarrow> media_packet \<Rightarrow> 's \<Rightarrow> ('s \<times> selected) run"
    and set_bitrate :: "nat \<Rightarrow> 's \<Rightarrow> 's run"
    and set_limit :: "nat \<Rightarrow> nat \<Rightarrow> 's \<Rightarrow> 's run"
    and active :: "'s \<Rightarrow> bool"
  assumes select_ok: "ctx_wf c \<Longrightarrow> pkt_wf p \<Longrightarrow>
      \<exists>s' c' p' ok. select c p s = Inr (s', c', p', ok) \<and> ctx_wf c' \<and> pkt_kept p p'"
    and select_active: "select c p s = Inr (s', c', p', ok) \<Longrightarrow>
      (ok \<longrightarrow> active s') \<and> (active s' \<longrightarrow> active s \<or> is_video_key (pkt_meta p))"
    and set_bitrate_ok: "\<exists>s'. set_bitrate b s = Inr s' \<and> active s' = active s"
    and set_limit_ok: "\<exists>s'. set_limit m n s = Inr s' \<and> active s' = active s"
begin

primrec select_run :: "media_packet list \<Rightarrow> 's \<Rightarrow> selector_ctx \<Rightarrow> ('s \<times> selector_ctx \<times> bool list) run" where
  "select_run [] s c = Inr (s, c, [])"
| "select_run (p # ps) s c = rbind (select c p s) (\<lambda>(s1, c1, _, ok).
     rbind (select_run ps s1 c1) (\<lambda>(s2, c2, oks). Inr (s2, c2, ok # oks)))"

lemma select_run_ok:
  "ctx_wf c \<Longrightarrow> \<forall>p\<in>set ps. pkt_wf p \<Longrightarrow>
     \<exists>s' c' oks. select_run ps s c = Inr (s', c', oks) \<and> ctx_wf c' \<and> length oks = length ps"
proof (induction ps arbitrary: s c)
  case Nil
  then show ?case by simp
next
  case (Cons p ps)
  then obtain s1 c1 p1 ok where "select c p s = Inr (s1, c1, p1, ok)" "ctx_wf c1"
    using select_ok [of c p s] by auto
  moreover from this obtain s2 c2 oks where "select_run ps s1 c1 = Inr (s2, c2, oks)" "ctx_wf c2"
    "length oks = length ps"
    using Cons.IH [of c1 s1] Cons.prems by auto
  ultimately show ?case by auto
qed

lemma select_run_waits_for_key:
  "\<not> active s \<Longrightarrow> \<forall>p\<in>set ps. \<not> is_video_key (pkt_meta p) \<Longrightarrow> select_run ps s c = Inr (s', c', oks) \<Longrightarrow>
     \<not> active s' \<and> True \<notin> set oks"
proof (induction ps arbitrary: s c oks)
  case Nil
  then show ?case by simp
next
  case (Cons p ps)
  obtain s1 c1 p1 ok oks1 where step: "select c p s = Inr (s1, c1, p1, ok)"
    and rest: "select_run ps s1 c1 = Inr (s', c', oks1)" "oks = ok # oks1"
    using Cons.prems(3) by (auto simp: run_simps)
  have "\<not> active s1" "\<not> ok" using select_active [OF step] Cons.prems(1,2) by auto
  with Cons.IH [OF _ _ rest(1)] Cons.prems(2) rest(2) show ?case by auto
qed

end

section \<open>The context stays well-formed\<close>

lemma sr_moduli [simp]: "sr_modulus SEQ_MAX" "sr_modulus PIC_ID_MAX"
  by (simp_all add: sr_modulus_def SEQ_MAX_def PIC_ID_MAX_def)

lemma ctx_wf_reinit [simp]: "ctx_wf c \<Longrightarrow> ctx_wf (ctx_reinit c)" "ctx_wf c \<Longrightarrow> ctx_wf (ctx_reinit_vp8 c)"
  "ctx_wf c \<Longrightarrow> ctx_wf (ctx_reinit_vp9 c)"
  by (simp_all add: ctx_wf_def ctx_reinit_def ctx_reinit_vp8_def ctx_reinit_vp9_def sr_wf_reinit sr_nodrop_reinit)

lemma ctx_wf_new: "ctx_wf (ctx_new kind)"
  by (simp add: ctx_wf_def ctx_new_def sr_wf_default sr_nodrop_default TL0IDX_MAX_def)

lemma ctx_drop_seq_ok:
  assumes "ctx_wf c" "seq < SEQ_MAX" shows "\<exists>c'. ctx_drop_seq seq c = Inr c' \<and> ctx_wf c'"
  using assms sr_drop_value_safe [of SEQ_MAX "cx_seq_rewrite c" seq]
  by (auto simp: ctx_drop_seq_def ctx_wf_def)

lemma select_layer_total: "\<exists>t. select_layer ls b m n = Inr (Some t)"
  using select_layer_ok [of ls b m n] by blast

section \<open>The selectors implement the interface\<close>

subsection \<open>H264\<close>

lemma h264_select_layer_ok: "\<exists>s'. h264_select_layer s = Inr s' \<and> h4_current s' = h4_current s"
proof -
  obtain t where "select_layer (h4_layers s) (h4_bitrate_kbps s) (fst (h4_limit s)) (snd (h4_limit s)) = Inr (Some t)"
    using select_layer_total by blast
  then show ?thesis by (simp add: h264_select_layer_def Let_def)
qed

lemma h264_refresh_ok:
  "\<exists>s'. (case pkt_layers p of None \<Rightarrow> Inr s | Some layers \<Rightarrow> h264_select_layer (s\<lparr>h4_layers := layers\<rparr>)) = Inr s' \<and>
     h4_current s' = h4_current s"
  using h264_select_layer_ok [of "s\<lparr>h4_layers := the (pkt_layers p)\<rparr>"] by (cases "pkt_layers p") auto

lemma h264_try_switch_current:
  assumes "h264_try_switch c p s = (s', c')"
  shows "(ctx_wf c \<longrightarrow> ctx_wf c') \<and>
     (h4_current s' = h4_current s \<or> is_video_key (pkt_meta p) \<or> h4_current s' = None)"
  using assms unfolding h264_try_switch_def
  by (auto simp: is_video_key_def split: if_splits media_meta.splits option.splits)

lemma h264_is_allow_active: "h264_is_allow p s \<Longrightarrow> h4_current s \<noteq> None"
  by (cases "h4_current s") (simp_all add: h264_is_allow_def)

lemma pkt_kept_refl [simp]: "pkt_kept p p"
  by (simp add: pkt_kept_def)

interpretation h264: video_selector h264_select h264_set_target_bitrate h264_set_limit_layer
  "\<lambda>s. h4_current s \<noteq> None"
proof unfold_locales
  fix c and p :: media_packet and s
  obtain s1 where s1: "(case pkt_layers p of None \<Rightarrow> Inr s
      | Some layers \<Rightarrow> h264_select_layer (s\<lparr>h4_layers := layers\<rparr>)) = Inr s1" "h4_current s1 = h4_current s"
    using h264_refresh_ok by blast
  obtain s2 c2 where sw: "h264_try_switch c p s1 = (s2, c2)" by fastforce
  have sel: "h264_select c p s = Inr (s2, c2, p, h264_is_allow p s2)"
    using s1 sw by (simp add: h264_select_def)
  note cur = h264_try_switch_current [OF sw]
  {
    assume "ctx_wf c" "pkt_wf p"
    then show "\<exists>s' c' p' ok. h264_select c p s = Inr (s', c', p', ok) \<and> ctx_wf c' \<and> pkt_kept p p'"
      using sel cur by simp
  next
    fix s' c' p' ok
    assume "h264_select c p s = Inr (s', c', p', ok)"
    then show "(ok \<longrightarrow> h4_current s' \<noteq> None) \<and> (h4_current s' \<noteq> None \<longrightarrow> h4_current s \<noteq> None \<or> is_video_key (pkt_meta p))"
      using sel cur s1(2) h264_is_allow_active [of p s2] by (auto simp del: not_None_eq)
  }
next
  fix b s
  show "\<exists>s'. h264_set_target_bitrate b s = Inr s' \<and> (h4_current s' \<noteq> None) = (h4_current s \<noteq> None)"
    using h264_select_layer_ok [of "s\<lparr>h4_bitrate_kbps := to_kbps b\<rparr>"] by (auto simp: h264_set_target_bitrate_def)
next
  fix m n s
  show "\<exists>s'. h264_set_limit_layer m n s = Inr s' \<and> (h4_current s' \<noteq> None) = (h4_current s \<noteq> None)"
    using h264_select_layer_ok [of "s\<lparr>h4_limit := (m, n)\<rparr>"] by (auto simp: h264_set_limit_layer_def)
qed

subsection \<open>VP8\<close>

lemma vp8_select_layer_ok: "\<exists>s'. vp8_select_layer s = Inr s' \<and> v8_current s' = v8_current s"
proof -
  obtain t where "select_layer (v8_layers s) (v8_bitrate_kbps s) (fst (v8_limit s)) (snd (v8_limit s)) = Inr (Some t)"
    using select_layer_total by blast
  then show ?thesis by (auto simp: vp8_select_layer_def vp8_request_def Let_def split: option.splits)
qed

lemma vp8_refresh_ok:
  "\<exists>s'. (case pkt_layers p of None \<Rightarrow> Inr s | Some layers \<Rightarrow> vp8_select_layer (s\<lparr>v8_layers := layers\<rparr>)) = Inr s' \<and>
     v8_current s' = v8_current s"
  using vp8_select_layer_ok [of "s\<lparr>v8_layers := the (pkt_layers p)\<rparr>"] by (cases "pkt_layers p") auto

lemmas vp8_switch_defs = vp8_switch_down_def vp8_switch_up_def vp8_switch_temporal_def vp8_request_def Let_def

text \<open>Without a key frame the spatial layer stays (or the stream pauses).\<close>

lemma vp8_try_switch_current:
  assumes "vp8_try_switch c p s = (s', c')"
  shows "(ctx_wf c \<longrightarrow> ctx_wf c') \<and>
     (map_option sel_spatial (v8_current s') = map_option sel_spatial (v8_current s) \<or>
      is_video_key (pkt_meta p) \<or> v8_current s' = None)"
proof (cases "v8_target s = v8_current s")
  case True
  then show ?thesis using assms by (simp add: vp8_try_switch_def)
next
  case False
  show ?thesis
  proof (cases "\<exists>key sim rot. pkt_meta p = Vp8 key (Some sim) rot")
    case True
    then obtain key sim rot where m: "pkt_meta p = Vp8 key (Some sim) rot" by blast
    show ?thesis
      using assms False m unfolding vp8_try_switch_def
      by (auto simp: is_video_key_def vp8_switch_defs split: if_splits option.splits)
  next
    case no_sim: False
    then show ?thesis using assms False unfolding vp8_try_switch_def
      by (auto split: media_meta.splits option.splits)
  qed
qed

lemma vp8_rewrite_tl0_ok:
  assumes "ctx_wf c" "case vp8_tl0_pic_idx sim of None \<Rightarrow> True | Some i \<Rightarrow> i < 2 ^ 8"
  shows "\<exists>c' sim' ok. vp8_rewrite_tl0 c sim = Inr (c', sim', ok) \<and> ctx_wf c' \<and>
     vp8_picture_id sim' = vp8_picture_id sim \<and> (case vp8_tl0_pic_idx sim' of None \<Rightarrow> True | Some i \<Rightarrow> i < 2 ^ 8)"
  using assms sr_generate_nodrop [of TL0IDX_MAX "v8c_tl0idx_rewrite (cx_vp8_ctx c)" "the (vp8_tl0_pic_idx sim)"]
  by (cases "vp8_tl0_pic_idx sim") (auto simp: vp8_rewrite_tl0_def ctx_wf_def TL0IDX_MAX_def Let_def)

lemma vp8_rewrite_pic_ok:
  assumes "ctx_wf c" "case vp8_picture_id sim of None \<Rightarrow> True | Some i \<Rightarrow> i < 2 ^ 15"
  shows "\<exists>c' sim' ok. vp8_rewrite_pic c sim = Inr (c', sim', ok) \<and> ctx_wf c' \<and>
     vp8_tl0_pic_idx sim' = vp8_tl0_pic_idx sim \<and> (case vp8_picture_id sim' of None \<Rightarrow> True | Some i \<Rightarrow> i < 2 ^ 15)"
proof (cases "vp8_picture_id sim")
  case None
  then show ?thesis using assms by (auto simp: vp8_rewrite_pic_def)
next
  case (Some i)
  have i: "i < PIC_ID_MAX" using assms Some by (simp add: PIC_ID_MAX_def)
  obtain r out where g: "sr_generate PIC_ID_MAX i (v8c_pic_id_rewrite (cx_vp8_ctx c)) = Inr (r, out)"
    "sr_wf PIC_ID_MAX r" "\<forall>v. out = Some v \<longrightarrow> v < PIC_ID_MAX"
    using sr_generate_safe [of PIC_ID_MAX "v8c_pic_id_rewrite (cx_vp8_ctx c)" i] assms i
    by (auto simp: ctx_wf_def)
  have "v < PIC_ID_MAX \<Longrightarrow> as_u16 v < 32768" for v by (simp add: PIC_ID_MAX_def)
  then show ?thesis using assms Some g
    by (cases out) (auto simp: vp8_rewrite_pic_def ctx_wf_def Let_def)
qed

lemma vp8_drop_ok:
  assumes "ctx_wf c" "pkt_seq p < 2 ^ 16" "case vp8_picture_id sim of None \<Rightarrow> True | Some i \<Rightarrow> i < 2 ^ 15"
  shows "\<exists>c'. vp8_drop c p sim = Inr c' \<and> ctx_wf c'"
proof (cases "vp8_picture_id sim")
  case None
  then show ?thesis using assms ctx_drop_seq_ok [of c "pkt_seq p"] by (simp add: vp8_drop_def SEQ_MAX_def)
next
  case (Some i)
  have i: "i < PIC_ID_MAX" using assms Some by (simp add: PIC_ID_MAX_def)
  obtain r where r: "sr_drop_value PIC_ID_MAX i (v8c_pic_id_rewrite (cx_vp8_ctx c)) = Inr r" "sr_wf PIC_ID_MAX r"
    using sr_drop_value_safe [of PIC_ID_MAX "v8c_pic_id_rewrite (cx_vp8_ctx c)" i] assms i
    by (auto simp: ctx_wf_def)
  let ?c1 = "c\<lparr>cx_vp8_ctx := (cx_vp8_ctx c)\<lparr>v8c_pic_id_rewrite := r\<rparr>\<rparr>"
  have "ctx_wf ?c1" using assms r by (simp add: ctx_wf_def)
  then show ?thesis using assms Some r ctx_drop_seq_ok [of ?c1 "pkt_seq p"] by (simp add: vp8_drop_def SEQ_MAX_def)
qed

lemma vp8_is_allow_ok:
  assumes c: "ctx_wf c" and p: "pkt_wf p"
  shows "\<exists>c' p' ok. vp8_is_allow c p s = Inr (c', p', ok) \<and> ctx_wf c' \<and> pkt_kept p p'"
proof (cases "\<exists>cur key sim rot. v8_current s = Some cur \<and> pkt_meta p = Vp8 key (Some sim) rot")
  case True
  then obtain cur key sim rot where m: "v8_current s = Some cur" "pkt_meta p = Vp8 key (Some sim) rot" by blast
  have w: "case vp8_tl0_pic_idx sim of None \<Rightarrow> True | Some i \<Rightarrow> i < 2 ^ 8"
    "case vp8_picture_id sim of None \<Rightarrow> True | Some i \<Rightarrow> i < 2 ^ 15" "pkt_seq p < 2 ^ 16"
    using p m by (auto simp: pkt_wf_def meta_wf_def)
  have kept: "pkt_kept p (p\<lparr>pkt_meta := Vp8 key (Some sim') rot\<rparr>)"
    if "case vp8_tl0_pic_idx sim' of None \<Rightarrow> True | Some i \<Rightarrow> i < 2 ^ 8"
      "case vp8_picture_id sim' of None \<Rightarrow> True | Some i \<Rightarrow> i < 2 ^ 15" for sim'
    using that m p by (simp add: pkt_kept_def is_video_key_def pkt_wf_def meta_wf_def)
  obtain c1 sim1 ok1 where r1: "vp8_rewrite_tl0 c sim = Inr (c1, sim1, ok1)" "ctx_wf c1"
    "vp8_picture_id sim1 = vp8_picture_id sim" "case vp8_tl0_pic_idx sim1 of None \<Rightarrow> True | Some i \<Rightarrow> i < 2 ^ 8"
    using vp8_rewrite_tl0_ok [OF c w(1)] by blast
  obtain c2 sim2 ok2 where r2: "vp8_rewrite_pic c1 sim1 = Inr (c2, sim2, ok2)" "ctx_wf c2"
    "vp8_tl0_pic_idx sim2 = vp8_tl0_pic_idx sim1" "case vp8_picture_id sim2 of None \<Rightarrow> True | Some i \<Rightarrow> i < 2 ^ 15"
    using vp8_rewrite_pic_ok [OF r1(2), of sim1] r1(3) w(2) by auto
  obtain c3 where r3: "vp8_drop c p sim = Inr c3" "ctx_wf c3" using vp8_drop_ok [OF c w(3,2)] by blast
  show ?thesis
    using m c r1 r2 r3 w kept [of sim1] kept [of sim2] by (auto simp: vp8_is_allow_def)
next
  case False
  then show ?thesis using c unfolding vp8_is_allow_def
    by (auto split: option.splits media_meta.splits)
qed

lemma vp8_is_allow_active: "vp8_is_allow c p s = Inr (c', p', True) \<Longrightarrow> v8_current s \<noteq> None"
  by (cases "v8_current s") (simp_all add: vp8_is_allow_def)

interpretation vp8: video_selector vp8_select vp8_set_target_bitrate vp8_set_limit_layer
  "\<lambda>s. v8_current s \<noteq> None"
proof unfold_locales
  fix c and p :: media_packet and s
  obtain s1 where s1: "(case pkt_layers p of None \<Rightarrow> Inr s
      | Some layers \<Rightarrow> vp8_select_layer (s\<lparr>v8_layers := layers\<rparr>)) = Inr s1" "v8_current s1 = v8_current s"
    using vp8_refresh_ok by blast
  obtain s2 c2 where sw: "vp8_try_switch c p s1 = (s2, c2)" by fastforce
  have sel: "vp8_select c p s = rbind (vp8_is_allow c2 p s2) (\<lambda>r. Inr (s2, r))"
    using s1 sw by (simp add: vp8_select_def)
  note cur = vp8_try_switch_current [OF sw]
  {
    assume "ctx_wf c" "pkt_wf p"
    then show "\<exists>s' c' p' ok. vp8_select c p s = Inr (s', c', p', ok) \<and> ctx_wf c' \<and> pkt_kept p p'"
      using sel cur vp8_is_allow_ok [of c2 p s2] by auto
  next
    fix s' c' p' ok
    assume "vp8_select c p s = Inr (s', c', p', ok)"
    then show "(ok \<longrightarrow> v8_current s' \<noteq> None) \<and> (v8_current s' \<noteq> None \<longrightarrow> v8_current s \<noteq> None \<or> is_video_key (pkt_meta p))"
      using sel cur s1(2) vp8_is_allow_active [of c2 p s2] by (auto simp: run_simps simp del: not_None_eq)
  }
next
  fix b s
  show "\<exists>s'. vp8_set_target_bitrate b s = Inr s' \<and> (v8_current s' \<noteq> None) = (v8_current s \<noteq> None)"
    using vp8_select_layer_ok [of "s\<lparr>v8_bitrate_kbps := to_kbps b\<rparr>"] by (auto simp: vp8_set_target_bitrate_def)
next
  fix m n s
  show "\<exists>s'. vp8_set_limit_layer m n s = Inr s' \<and> (v8_current s' \<noteq> None) = (v8_current s \<noteq> None)"
    using vp8_select_layer_ok [of "s\<lparr>v8_limit := (m, n)\<rparr>"] by (auto simp: vp8_set_limit_layer_def)
qed

subsection \<open>VP9\<close>

lemma vp9_select_layer_ok: "\<exists>s'. vp9_select_layer s = Inr s' \<and> v9_current s' = v9_current s"
proof -
  obtain t where "select_layer (v9_layers s) (v9_bitrate_kbps s) (fst (v9_limit s)) (snd (v9_limit s)) = Inr (Some t)"
    using select_layer_total by blast
  then show ?thesis by (auto simp: vp9_select_layer_def vp9_request_def Let_def split: option.splits)
qed

lemma vp9_refresh_ok:
  "\<exists>s'. (case pkt_layers p of None \<Rightarrow> Inr s | Some layers \<Rightarrow> vp9_select_layer (s\<lparr>v9_layers := layers\<rparr>)) = Inr s' \<and>
     v9_current s' = v9_current s"
  using vp9_select_layer_ok [of "s\<lparr>v9_layers := the (pkt_layers p)\<rparr>"] by (cases "pkt_layers p") auto

lemmas vp9_switch_defs = vp9_switch_down_def vp9_switch_up_def vp9_switch_temporal_def vp9_request_def Let_def

lemma vp9_try_switch_current:
  assumes "vp9_try_switch c p s = (s', c')"
  shows "(ctx_wf c \<longrightarrow> ctx_wf c') \<and> (v9_current s' \<noteq> None \<longrightarrow> v9_current s \<noteq> None \<or> is_video_key (pkt_meta p))"
proof (cases "v9_target s = v9_current s")
  case True
  then show ?thesis using assms by (simp add: vp9_try_switch_def)
next
  case False
  show ?thesis
  proof (cases "\<exists>key prof svc rot. pkt_meta p = Vp9 key prof (Some svc) rot")
    case True
    then obtain key prof svc rot where m: "pkt_meta p = Vp9 key prof (Some svc) rot" by blast
    show ?thesis
      using assms False m unfolding vp9_try_switch_def
      by (auto simp: is_video_key_def vp9_switch_defs split: if_splits option.splits)
  next
    case no_svc: False
    then show ?thesis using assms False unfolding vp9_try_switch_def
      by (auto split: media_meta.splits option.splits)
  qed
qed

lemma vp9_rewrite_pic_ok:
  assumes "ctx_wf c" "case vp9_picture_id svc of None \<Rightarrow> True | Some i \<Rightarrow> i < 2 ^ 15"
  shows "\<exists>c' svc' ok. vp9_rewrite_pic c svc = Inr (c', svc', ok) \<and> ctx_wf c' \<and>
     (case vp9_picture_id svc' of None \<Rightarrow> True | Some i \<Rightarrow> i < 2 ^ 15)"
proof (cases "vp9_picture_id svc")
  case None
  then show ?thesis using assms by (auto simp: vp9_rewrite_pic_def)
next
  case (Some i)
  have i: "i < PIC_ID_MAX" using assms Some by (simp add: PIC_ID_MAX_def)
  obtain r out where g: "sr_generate PIC_ID_MAX i (v9c_pic_id_rewrite (cx_vp9_ctx c)) = Inr (r, out)"
    "sr_wf PIC_ID_MAX r" "\<forall>v. out = Some v \<longrightarrow> v < PIC_ID_MAX"
    using sr_generate_safe [of PIC_ID_MAX "v9c_pic_id_rewrite (cx_vp9_ctx c)" i] assms i
    by (auto simp: ctx_wf_def)
  have "v < PIC_ID_MAX \<Longrightarrow> as_u16 v < 32768" for v by (simp add: PIC_ID_MAX_def)
  then show ?thesis using assms Some g
    by (cases out) (auto simp: vp9_rewrite_pic_def ctx_wf_def Let_def)
qed

lemma vp9_drop_ok:
  assumes "ctx_wf c" "pkt_seq p < 2 ^ 16" "case vp9_picture_id svc of None \<Rightarrow> True | Some i \<Rightarrow> i < 2 ^ 15"
  shows "\<exists>c'. vp9_drop c p svc = Inr c' \<and> ctx_wf c'"
proof (cases "vp9_picture_id svc")
  case None
  then show ?thesis using assms ctx_drop_seq_ok [of c "pkt_seq p"] by (simp add: vp9_drop_def SEQ_MAX_def)
next
  case (Some i)
  have i: "i < PIC_ID_MAX" using assms Some by (simp add: PIC_ID_MAX_def)
  obtain r where r: "sr_drop_value PIC_ID_MAX i (v9c_pic_id_rewrite (cx_vp9_ctx c)) = Inr r" "sr_wf PIC_ID_MAX r"
    using sr_drop_value_safe [of PIC_ID_MAX "v9c_pic_id_rewrite (cx_vp9_ctx c)" i] assms i
    by (auto simp: ctx_wf_def)
  let ?c1 = "c\<lparr>cx_vp9_ctx := \<lparr>v9c_pic_id_rewrite = r\<rparr>\<rparr>"
  have "ctx_wf ?c1" using assms r by (simp add: ctx_wf_def)
  then show ?thesis using assms Some r ctx_drop_seq_ok [of ?c1 "pkt_seq p"] by (simp add: vp9_drop_def SEQ_MAX_def)
qed

lemma vp9_is_allow_ok:
  assumes c: "ctx_wf c" and p: "pkt_wf p"
  shows "\<exists>c' p' ok. vp9_is_allow c p s = Inr (c', p', ok) \<and> ctx_wf c' \<and> pkt_kept p p'"
proof (cases "\<exists>cur key prof svc rot. v9_current s = Some cur \<and> pkt_meta p = Vp9 key prof (Some svc) rot")
  case True
  then obtain cur key prof svc rot where
    m: "v9_current s = Some cur" "pkt_meta p = Vp9 key prof (Some svc) rot" by blast
  have w: "case vp9_picture_id svc of None \<Rightarrow> True | Some i \<Rightarrow> i < 2 ^ 15" "pkt_seq p < 2 ^ 16"
    using p m by (auto simp: pkt_wf_def meta_wf_def)
  obtain c1 svc1 ok1 where r1: "vp9_rewrite_pic c svc = Inr (c1, svc1, ok1)" "ctx_wf c1"
    "case vp9_picture_id svc1 of None \<Rightarrow> True | Some i \<Rightarrow> i < 2 ^ 15"
    using vp9_rewrite_pic_ok [OF c w(1)] by blast
  have kept: "pkt_kept p (p\<lparr>pkt_meta := Vp9 key prof (Some svc1) rot\<rparr>)"
    "pkt_kept p (p\<lparr>pkt_meta := Vp9 key prof (Some svc1) rot, pkt_marker := True\<rparr>)"
    using r1 m p by (simp_all add: pkt_kept_def is_video_key_def pkt_wf_def meta_wf_def)
  obtain c3 where r3: "vp9_drop c p svc = Inr c3" "ctx_wf c3" using vp9_drop_ok [OF c w(2,1)] by blast
  show ?thesis using m c r1 r3 kept by (auto simp: vp9_is_allow_def Let_def)
next
  case False
  then show ?thesis using c unfolding vp9_is_allow_def
    by (auto split: option.splits media_meta.splits)
qed

lemma vp9_is_allow_active: "vp9_is_allow c p s = Inr (c', p', True) \<Longrightarrow> v9_current s \<noteq> None"
  by (cases "v9_current s") (simp_all add: vp9_is_allow_def)

interpretation vp9: video_selector vp9_select vp9_set_target_bitrate vp9_set_limit_layer
  "\<lambda>s. v9_current s \<noteq> None"
proof unfold_locales
  fix c and p :: media_packet and s
  obtain s1 where s1: "(case pkt_layers p of None \<Rightarrow> Inr s
      | Some layers \<Rightarrow> vp9_select_layer (s\<lparr>v9_layers := layers\<rparr>)) = Inr s1" "v9_current s1 = v9_current s"
    using vp9_refresh_ok by blast
  obtain s2 c2 where sw: "vp9_try_switch c p s1 = (s2, c2)" by fastforce
  have sel: "vp9_select c p s = rbind (vp9_is_allow c2 p s2) (\<lambda>r. Inr (s2, r))"
    using s1 sw by (simp add: vp9_select_def)
  note cur = vp9_try_switch_current [OF sw]
  {
    assume "ctx_wf c" "pkt_wf p"
    then show "\<exists>s' c' p' ok. vp9_select c p s = Inr (s', c', p', ok) \<and> ctx_wf c' \<and> pkt_kept p p'"
      using sel cur vp9_is_allow_ok [of c2 p s2] by auto
  next
    fix s' c' p' ok
    assume "vp9_select c p s = Inr (s', c', p', ok)"
    then show "(ok \<longrightarrow> v9_current s' \<noteq> None) \<and> (v9_current s' \<noteq> None \<longrightarrow> v9_current s \<noteq> None \<or> is_video_key (pkt_meta p))"
      using sel cur s1(2) vp9_is_allow_active [of c2 p s2] by (auto simp: run_simps simp del: not_None_eq)
  }
next
  fix b s
  show "\<exists>s'. vp9_set_target_bitrate b s = Inr s' \<and> (v9_current s' \<noteq> None) = (v9_current s \<noteq> None)"
    using vp9_select_layer_ok [of "s\<lparr>v9_bitrate_kbps := to_kbps b\<rparr>"] by (auto simp: vp9_set_target_bitrate_def)
next
  fix m n s
  show "\<exists>s'. vp9_set_limit_layer m n s = Inr s' \<and> (v9_current s' \<noteq> None) = (v9_current s \<noteq> None)"
    using vp9_select_layer_ok [of "s\<lparr>v9_limit := (m, n)\<rparr>"] by (auto simp: vp9_set_limit_layer_def)
qed

subsection \<open>Single stream\<close>

interpretation single: video_selector single_select "\<lambda>_. Inr" "\<lambda>_ _. Inr" "\<lambda>_. True"
  by unfold_locales (auto simp: single_select_def)

section \<open>Switching between simulcast layers\<close>

text \<open>What a selector has forwarded of a stream: the packets, in order.\<close>

fun vp8_run :: "media_packet list \<Rightarrow> vp8_selector \<Rightarrow> selector_ctx \<Rightarrow> (vp8_selector \<times> media_packet list) run" where
  "vp8_run [] s c = Inr (s, [])"
| "vp8_run (p # ps) s c = rbind (vp8_select c p s) (\<lambda>(s1, c1, p1, ok).
     rbind (vp8_run ps s1 c1) (\<lambda>(s2, out). Inr (s2, if ok then p1 # out else out)))"

definition vp8_layer_of :: "media_packet \<Rightarrow> nat option" where
  "vp8_layer_of p = (case pkt_meta p of Vp8 _ (Some sim) _ \<Rightarrow> Some (vp8_spatial sim) | _ \<Rightarrow> None)"

lemma vp8_rewrite_spatial:
  "vp8_rewrite_tl0 c sim = Inr (c', sim', ok) \<Longrightarrow> vp8_spatial sim' = vp8_spatial sim"
  "vp8_rewrite_pic c sim = Inr (c', sim', ok) \<Longrightarrow> vp8_spatial sim' = vp8_spatial sim"
  by (auto simp: vp8_rewrite_tl0_def vp8_rewrite_pic_def run_simps Let_def split: option.splits)

lemma vp8_is_allow_layer:
  assumes "vp8_is_allow c p s = Inr (c', p', True)"
  shows "\<exists>cur. v8_current s = Some cur \<and> vp8_layer_of p' = Some (sel_spatial cur)"
proof -
  obtain cur where cur: "v8_current s = Some cur" using vp8_is_allow_active [OF assms] by auto
  obtain key sim rot where m: "pkt_meta p = Vp8 key (Some sim) rot"
    using assms cur unfolding vp8_is_allow_def by (auto split: media_meta.splits option.splits)
  show ?thesis using assms cur m
    by (auto simp: vp8_is_allow_def vp8_layer_of_def run_simps split: if_splits dest!: vp8_rewrite_spatial)
qed

lemma vp8_select_cases:
  assumes "vp8_select c p s = Inr (s', c', p', ok)"
  shows "(map_option sel_spatial (v8_current s') = map_option sel_spatial (v8_current s) \<or>
      is_video_key (pkt_meta p) \<or> v8_current s' = None) \<and>
     (ok \<longrightarrow> (\<exists>cur. v8_current s' = Some cur \<and> vp8_layer_of p' = Some (sel_spatial cur)))"
proof -
  obtain s1 where s1: "(case pkt_layers p of None \<Rightarrow> Inr s
      | Some layers \<Rightarrow> vp8_select_layer (s\<lparr>v8_layers := layers\<rparr>)) = Inr s1" "v8_current s1 = v8_current s"
    using vp8_refresh_ok by blast
  obtain s2 c2 where sw: "vp8_try_switch c p s1 = (s2, c2)" by fastforce
  have "s' = s2" "vp8_is_allow c2 p s2 = Inr (c', p', ok)"
    using assms s1 sw by (auto simp: vp8_select_def run_simps)
  then show ?thesis using vp8_try_switch_current [OF sw] s1(2) vp8_is_allow_layer [of c2 p s2 c' p'] by auto
qed

text \<open>A stream without key frames stays on the layer it is on.\<close>

definition vp8_on_layer :: "nat \<Rightarrow> vp8_selector \<Rightarrow> bool" where
  "vp8_on_layer l s \<longleftrightarrow> (case v8_current s of None \<Rightarrow> True | Some cur \<Rightarrow> sel_spatial cur = l)"

lemma vp8_run_on_layer:
  assumes "ctx_wf c" "\<forall>p\<in>set ps. pkt_wf p \<and> \<not> is_video_key (pkt_meta p)" "vp8_on_layer l s"
  shows "\<exists>s' out. vp8_run ps s c = Inr (s', out) \<and> vp8_on_layer l s' \<and> (\<forall>q\<in>set out. vp8_layer_of q = Some l)"
  using assms
proof (induction ps arbitrary: s c)
  case Nil
  then show ?case by simp
next
  case (Cons p ps)
  obtain s1 c1 p1 ok where step: "vp8_select c p s = Inr (s1, c1, p1, ok)" "ctx_wf c1"
    using vp8.select_ok [of c p s] Cons.prems by auto
  have on: "vp8_on_layer l s1" and out: "ok \<Longrightarrow> vp8_layer_of p1 = Some l"
    using vp8_select_cases [OF step(1)] Cons.prems(2,3)
    by (auto simp: vp8_on_layer_def split: option.splits)
  obtain s2 os where "vp8_run ps s1 c1 = Inr (s2, os)" "vp8_on_layer l s2" "\<forall>q\<in>set os. vp8_layer_of q = Some l"
    using Cons.IH [OF step(2) _ on] Cons.prems(2) by auto
  then show ?case using step(1) out by auto
qed

section \<open>Properties\<close>

text \<open>
  C31. VP8 simulcast never changes its spatial layer in the middle of a group of pictures: while
  no key frame arrives, whatever the target bitrate, the limits and the layer tables carried by
  the packets ask for, selection does not panic and every forwarded packet belongs to the layer
  that was current before.
\<close>

theorem vp8_no_switch_without_key:
  assumes "ctx_wf c" and "\<forall>p\<in>set ps. pkt_wf p \<and> \<not> is_video_key (pkt_meta p)"
    and "v8_current s = Some cur"
  shows "\<exists>s' out. vp8_run ps s c = Inr (s', out) \<and> (\<forall>q\<in>set out. vp8_layer_of q = Some (sel_spatial cur))"
  using vp8_run_on_layer [OF assms(1,2), of "sel_spatial cur" s] assms(3) by (auto simp: vp8_on_layer_def)

theorem vp8_no_switch_without_key_witness:
  "\<exists>s' out. vp8_run
     [\<lparr>pkt_ts = 5, pkt_seq = 7, pkt_marker = True, pkt_nackable = True, pkt_layers = None,
       pkt_meta = Vp8 False (Some \<lparr>vp8_picture_id = Some 3, vp8_tl0_pic_idx = Some 1, vp8_spatial = 0,
         vp8_temporal = 0, vp8_layer_sync = False\<rparr>) None, pkt_data = []\<rparr>]
     \<lparr>v8_bitrate_kbps = 100, v8_layers = layers_default, v8_current = Some \<lparr>sel_spatial = 0, sel_temporal = 2\<rparr>,
       v8_target = Some \<lparr>sel_spatial = 1, sel_temporal = 2\<rparr>, v8_queue = [], v8_limit = (2, 2)\<rparr> (ctx_new Video)
     = Inr (s', out) \<and> (\<forall>q\<in>set out. vp8_layer_of q = Some 0)"
proof -
  let ?p = "\<lparr>pkt_ts = 5, pkt_seq = 7, pkt_marker = True, pkt_nackable = True, pkt_layers = None,
       pkt_meta = Vp8 False (Some \<lparr>vp8_picture_id = Some 3, vp8_tl0_pic_idx = Some 1, vp8_spatial = 0,
         vp8_temporal = 0, vp8_layer_sync = False\<rparr>) None, pkt_data = []\<rparr> :: media_packet"
  have p: "\<forall>p\<in>set [?p]. pkt_wf p \<and> \<not> is_video_key (pkt_meta p)"
    by (simp add: pkt_wf_def meta_wf_def is_video_key_def)
  show ?thesis
    using vp8_no_switch_without_key [OF ctx_wf_new p, where cur = "\<lparr>sel_spatial = 0, sel_temporal = 2\<rparr>"] by simp
qed

text \<open>
  The key frame that completes a simulcast switch is not required to belong to the target
  layer: while switching from layer \<open>cur\<close> to another layer \<open>tgt\<close>, a key frame of the old layer
  makes the new layer current and is itself dropped, and then a delta frame of the new layer,
  which the receiver cannot decode, is forwarded.
\<close>

theorem vp8_foreign_key_switches:
  assumes "v8_current s = Some cur" "v8_target s = Some tgt" "sel_spatial cur \<noteq> sel_spatial tgt"
    and "pkt_meta p = Vp8 True (Some sim) rot" "pkt_layers p = None" "vp8_spatial sim = sel_spatial cur"
    and "pkt_meta q = Vp8 False (Some sim') rot'" "pkt_layers q = None"
    and "vp8_spatial sim' = sel_spatial tgt" "vp8_temporal sim' \<le> sel_temporal tgt"
    and "vp8_picture_id sim' = None" "vp8_tl0_pic_idx sim' = None"
  shows "\<exists>s1 c1 s2 c2. vp8_select c p s = Inr (s1, c1, p, False) \<and>
     vp8_select c1 q s1 = Inr (s2, c2, q, True) \<and> v8_current s1 = Some tgt"
proof -
  have sw: "vp8_try_switch c p s = (s\<lparr>v8_current := Some tgt\<rparr>, ctx_reinit (ctx_reinit_vp8 c))"
    using assms(1-4) by (auto simp: vp8_try_switch_def vp8_switch_defs)
  have p: "vp8_select c p s = Inr (s\<lparr>v8_current := Some tgt\<rparr>, ctx_reinit (ctx_reinit_vp8 c), p, False)"
    using assms(3-6) by (simp add: vp8_select_def sw vp8_is_allow_def)
  have "vp8_select c1 q (s\<lparr>v8_current := Some tgt\<rparr>) = Inr (s\<lparr>v8_current := Some tgt\<rparr>, c1, q, True)" for c1
    using assms(2,7-12)
    by (simp add: vp8_select_def vp8_try_switch_def vp8_is_allow_def vp8_rewrite_tl0_def vp8_rewrite_pic_def)
  with p show ?thesis by (intro exI conjI) auto
qed

theorem vp8_foreign_key_switches_witness:
  "let pkt = (\<lambda>key layer. \<lparr>pkt_ts = 0, pkt_seq = 0, pkt_marker = True, pkt_nackable = True, pkt_layers = None,
       pkt_meta = Vp8 key (Some \<lparr>vp8_picture_id = None, vp8_tl0_pic_idx = None, vp8_spatial = layer,
         vp8_temporal = 0, vp8_layer_sync = False\<rparr>) None, pkt_data = []\<rparr>);
       s = \<lparr>v8_bitrate_kbps = 100, v8_layers = layers_default, v8_current = Some \<lparr>sel_spatial = 0, sel_temporal = 0\<rparr>,
         v8_target = Some \<lparr>sel_spatial = 1, sel_temporal = 0\<rparr>, v8_queue = [], v8_limit = (2, 2)\<rparr>
   in \<exists>s1 c1 s2 c2. vp8_select (ctx_new Video) (pkt True 0) s = Inr (s1, c1, pkt True 0, False) \<and>
     vp8_select c1 (pkt False 1) s1 = Inr (s2, c2, pkt False 1, True) \<and>
     v8_current s1 = Some \<lparr>sel_spatial = 1, sel_temporal = 0\<rparr>"
  unfolding Let_def by (rule vp8_foreign_key_switches) simp+

end
