(* ===== verification/Packet_Selector.thy ===== *)
theory Packet_Selector
  imports Video_Selectors
begin

text \<open>
  \<^verbatim>\<open>packages/media_core/src/endpoint/internal/local_track/packet_selector.rs\<close>: what an outgoing
  track does with every packet of its source. It notices a change of the source channel, creates
  the codec's selector on the first key frame, asks for key frames at most every 100 ms, and
  rewrites timestamp and sequence number of what it forwards. The boxed trait object is the sum
  type \<open>any_selector\<close>; the \<open>vs_\<close> functions are its dynamic dispatch.
\<close>

section \<open>Dynamic dispatch\<close>

datatype any_selector = Sel_Single | Sel_H264 h264_selector | Sel_Vp8 vp8_selector | Sel_Vp9 vp9_selector

definition vs_on_init :: "any_selector \<Rightarrow> selector_ctx \<Rightarrow> selector_ctx" where
  "vs_on_init v c = (case v of Sel_Single \<Rightarrow> c | Sel_H264 _ \<Rightarrow> c | Sel_Vp8 _ \<Rightarrow> vp8_on_init c | Sel_Vp9 _ \<Rightarrow> vp9_on_init c)"

definition vs_set_target_bitrate :: "nat \<Rightarrow> any_selector \<Rightarrow> any_selector run" where
  "vs_set_target_bitrate bitrate v = (case v of Sel_Single \<Rightarrow> Inr Sel_Single
     | Sel_H264 s \<Rightarrow> rbind (h264_set_target_bitrate bitrate s) (\<lambda>s. Inr (Sel_H264 s))
     | Sel_Vp8 s \<Rightarrow> rbind (vp8_set_target_bitrate bitrate s) (\<lambda>s. Inr (Sel_Vp8 s))
     | Sel_Vp9 s \<Rightarrow> rbind (vp9_set_target_bitrate bitrate s) (\<lambda>s. Inr (Sel_Vp9 s)))"

definition vs_set_limit_layer :: "nat \<Rightarrow> nat \<Rightarrow> any_selector \<Rightarrow> any_selector run" where
  "vs_set_limit_layer m n v = (case v of Sel_Single \<Rightarrow> Inr Sel_Single
     | Sel_H264 s \<Rightarrow> rbind (h264_set_limit_layer m n s) (\<lambda>s. Inr (Sel_H264 s))
     | Sel_Vp8 s \<Rightarrow> rbind (vp8_set_limit_layer m n s) (\<lambda>s. Inr (Sel_Vp8 s))
     | Sel_Vp9 s \<Rightarrow> rbind (vp9_set_limit_layer m n s) (\<lambda>s. Inr (Sel_Vp9 s)))"

definition vs_select :: "selector_ctx \<Rightarrow> media_packet \<Rightarrow> any_selector \<Rightarrow> (any_selector \<times> selected) run" where
  "vs_select c p v = (case v of Sel_Single \<Rightarrow> rbind (single_select c p ()) (\<lambda>(_, r). Inr (Sel_Single, r))
     | Sel_H264 s \<Rightarrow> rbind (h264_select c p s) (\<lambda>(s, r). Inr (Sel_H264 s, r))
     | Sel_Vp8 s \<Rightarrow> rbind (vp8_select c p s) (\<lambda>(s, r). Inr (Sel_Vp8 s, r))
     | Sel_Vp9 s \<Rightarrow> rbind (vp9_select c p s) (\<lambda>(s, r). Inr (Sel_Vp9 s, r)))"

definition vs_pop_action :: "any_selector \<Rightarrow> any_selector \<times> action option" where
  "vs_pop_action v = (case v of Sel_Single \<Rightarrow> (Sel_Single, None)
     | Sel_H264 s \<Rightarrow> (case h264_pop_action s of (s, a) \<Rightarrow> (Sel_H264 s, a))
     | Sel_Vp8 s \<Rightarrow> (case vp8_pop_action s of (s, a) \<Rightarrow> (Sel_Vp8 s, a))
     | Sel_Vp9 s \<Rightarrow> (case vp9_pop_action s of (s, a) \<Rightarrow> (Sel_Vp9 s, a)))"

definition vs_pending :: "any_selector \<Rightarrow> nat" where
  "vs_pending v = (case v of Sel_Single \<Rightarrow> 0 | Sel_H264 s \<Rightarrow> length (h4_queue s) | Sel_Vp8 s \<Rightarrow> length (v8_queue s)
     | Sel_Vp9 s \<Rightarrow> length (v9_queue s))"

definition create_selector :: "media_packet \<Rightarrow> nat \<Rightarrow> nat \<times> nat \<Rightarrow> any_selector option run" where
  "create_selector p bitrate limit =
     (let layers = (case pkt_layers p of None \<Rightarrow> layers_default_sim | Some l \<Rightarrow> l) in
      case pkt_meta p of
        Opus _ \<Rightarrow> Inr None
      | H264 _ _ (Some _) _ \<Rightarrow> rbind (h264_new bitrate layers limit) (\<lambda>s. Inr (Some (Sel_H264 s)))
      | Vp8 _ (Some _) _ \<Rightarrow> rbind (vp8_new bitrate layers limit) (\<lambda>s. Inr (Some (Sel_Vp8 s)))
      | Vp9 _ _ (Some _) _ \<Rightarrow> rbind (vp9_new False bitrate layers limit) (\<lambda>s. Inr (Some (Sel_Vp9 s)))
      | _ \<Rightarrow> Inr (Some Sel_Single))"

section \<open>The packet selector\<close>

definition REQUEST_KEY_FRAME_INTERVAL_MS :: nat where "REQUEST_KEY_FRAME_INTERVAL_MS = 100"

record packet_selector =
  ps_kind :: media_kind
  ps_ctx :: selector_ctx
  ps_selected_channel :: "nat option"
  ps_need_key_frame :: bool
  ps_last_key_frame_ts :: "nat option"
  ps_selector :: "any_selector option"
  ps_queue :: "action list"
  ps_bitrate :: "nat option"
  ps_limit :: "nat \<times> nat"

definition ps_new :: "media_kind \<Rightarrow> nat \<Rightarrow> nat \<Rightarrow> packet_selector" where
  "ps_new kind max_spatial max_temporal = \<lparr>ps_kind = kind, ps_ctx = ctx_new kind, ps_selected_channel = None,
     ps_need_key_frame = False, ps_last_key_frame_ts = None, ps_selector = None, ps_queue = [],
     ps_bitrate = None, ps_limit = (max_spatial, max_temporal)\<rparr>"

text \<open>The interval since the last request has passed.\<close>

definition ps_may_request :: "nat \<Rightarrow> packet_selector \<Rightarrow> bool" where
  "ps_may_request now s = (case ps_last_key_frame_ts s of None \<Rightarrow> True
     | Some l \<Rightarrow> u64_add l REQUEST_KEY_FRAME_INTERVAL_MS \<le> now)"

text \<open>No selector does anything in its own \<^verbatim>\<open>on_tick\<close>.\<close>

definition ps_on_tick :: "nat \<Rightarrow> packet_selector \<Rightarrow> packet_selector" where
  "ps_on_tick now s =
     (if ps_need_key_frame s \<and> ps_may_request now s
      then s\<lparr>ps_last_key_frame_ts := Some now, ps_queue := ps_queue s @ [RequestKeyFrame]\<rparr> else s)"

definition ps_reset :: "packet_selector \<Rightarrow> packet_selector" where
  "ps_reset s = s\<lparr>ps_selected_channel := None, ps_need_key_frame := False, ps_last_key_frame_ts := None,
     ps_bitrate := None\<rparr>"

definition ps_set_target_bitrate :: "nat \<Rightarrow> nat \<Rightarrow> packet_selector \<Rightarrow> packet_selector run" where
  "ps_set_target_bitrate now bitrate s =
     (let s1 = s\<lparr>ps_bitrate := Some bitrate\<rparr> in
      case ps_selector s1 of None \<Rightarrow> Inr s1
      | Some v \<Rightarrow> rbind (vs_set_target_bitrate bitrate v) (\<lambda>v. Inr (s1\<lparr>ps_selector := Some v\<rparr>)))"

definition ps_set_limit_layer :: "nat \<Rightarrow> nat \<Rightarrow> nat \<Rightarrow> packet_selector \<Rightarrow> packet_selector run" where
  "ps_set_limit_layer now max_spatial max_temporal s =
     (let s1 = s\<lparr>ps_limit := (max_spatial, max_temporal)\<rparr> in
      case ps_selector s1 of None \<Rightarrow> Inr s1
      | Some v \<Rightarrow> rbind (vs_set_limit_layer max_spatial max_temporal v) (\<lambda>v. Inr (s1\<lparr>ps_selector := Some v\<rparr>)))"

text \<open>Rewriting of a forwarded packet: the timestamp first, then the sequence number, which may
  turn out to have been dropped.\<close>

definition ps_rewrite :: "nat \<Rightarrow> media_packet \<Rightarrow> packet_selector \<Rightarrow> (packet_selector \<times> media_packet \<times> bool) run" where
  "ps_rewrite now p s =
     (let c = ps_ctx s; (ts1, t) = ts_generate TS_MAX TS_DELTA_REINIT now (pkt_ts p) (cx_ts_rewrite c);
          p1 = p\<lparr>pkt_ts := as_u32 t\<rparr>
      in rbind (sr_generate SEQ_MAX (pkt_seq p1) (cx_seq_rewrite c)) (\<lambda>(r, out).
         let s1 = s\<lparr>ps_ctx := c\<lparr>cx_ts_rewrite := ts1, cx_seq_rewrite := r\<rparr>\<rparr> in
         Inr (case out of None \<Rightarrow> (s1, p1, False) | Some q \<Rightarrow> (s1, p1\<lparr>pkt_seq := as_u16 q\<rparr>, True))))"

definition ps_select_audio :: "nat \<Rightarrow> nat \<Rightarrow> media_packet \<Rightarrow> packet_selector \<Rightarrow> (packet_selector \<times> media_packet \<times> bool) run" where
  "ps_select_audio now channel p s =
     ps_rewrite now p
       (if ps_selected_channel s \<noteq> Some channel
        then s\<lparr>ps_ctx := ctx_reinit (ps_ctx s), ps_selected_channel := Some channel\<rparr> else s)"

definition ps_source_changed :: "nat \<Rightarrow> nat \<Rightarrow> media_packet \<Rightarrow> packet_selector \<Rightarrow> packet_selector" where
  "ps_source_changed now channel p s =
     (let s1 = s\<lparr>ps_ctx := ctx_reinit (ps_ctx s), ps_selected_channel := Some channel, ps_selector := None\<rparr>
      in if \<not> is_video_key (pkt_meta p)
         then s1\<lparr>ps_queue := ps_queue s1 @ [RequestKeyFrame], ps_need_key_frame := True, ps_last_key_frame_ts := Some now\<rparr>
         else s1)"

definition ps_create :: "media_packet \<Rightarrow> nat \<Rightarrow> packet_selector \<Rightarrow> packet_selector run" where
  "ps_create p bitrate s =
     (if ps_selector s = None \<and> is_video_key (pkt_meta p) then
        rbind (create_selector p bitrate (ps_limit s)) (\<lambda>v.
        rbind (rexpect v) (\<lambda>v'. Inr (s\<lparr>ps_selector := Some v', ps_ctx := vs_on_init v' (ps_ctx s)\<rparr>)))
      else Inr s)"

definition ps_select_video_inner :: "nat \<Rightarrow> nat \<Rightarrow> media_packet \<Rightarrow> packet_selector \<Rightarrow> (packet_selector \<times> media_packet \<times> bool) run" where
  "ps_select_video_inner now channel p s =
     (let s1 = (if ps_selected_channel s \<noteq> Some channel then ps_source_changed now channel p s else s) in
      case ps_bitrate s1 of None \<Rightarrow> Inr (s1, p, False)
      | Some bitrate \<Rightarrow>
          (let s2 = (if ps_need_key_frame s1 \<and> is_video_key (pkt_meta p) then s1\<lparr>ps_need_key_frame := False\<rparr> else s1) in
           rbind (ps_create p bitrate s2) (\<lambda>s3.
           case ps_selector s3 of None \<Rightarrow> Inr (s3, p, False)
           | Some v \<Rightarrow> rbind (vs_select (ps_ctx s3) p v) (\<lambda>(v1, c1, p1, ok).
               Inr (s3\<lparr>ps_selector := Some v1, ps_ctx := c1\<rparr>, p1, ok)))))"

definition ps_select_video :: "nat \<Rightarrow> nat \<Rightarrow> media_packet \<Rightarrow> packet_selector \<Rightarrow> (packet_selector \<times> media_packet \<times> bool) run" where
  "ps_select_video now channel p s =
     rbind (ps_select_video_inner now channel p s) (\<lambda>(s1, p1, ok).
     if ok then ps_rewrite now p1 s1 else Inr (s1, p1, False))"

definition ps_select :: "nat \<Rightarrow> nat \<Rightarrow> media_packet \<Rightarrow> packet_selector \<Rightarrow> (packet_selector \<times> media_packet \<times> bool) run" where
  "ps_select now channel p s =
     (if kind_is_audio (ps_kind s) then ps_select_audio now channel p s else ps_select_video now channel p s)"

text \<open>The loop over the selector's own actions: those that come too early are swallowed.\<close>

lemma vs_pop_pending: "vs_pop_action v = (v', Some a) \<Longrightarrow> vs_pending v = Suc (vs_pending v')"
  by (auto simp: vs_pop_action_def vs_pending_def h264_pop_action_def vp8_pop_action_def vp9_pop_action_def
      split: any_selector.splits list.splits)

lemma vs_pop_less: "(v', Some a) = vs_pop_action v \<Longrightarrow> vs_pending v' < vs_pending v"
  using vs_pop_pending [of v v' a] by simp

function ps_pop_selector :: "nat \<Rightarrow> any_selector \<Rightarrow> packet_selector \<Rightarrow> packet_selector \<times> action option" where
  "ps_pop_selector now v s = (case vs_pop_action v of
     (v1, None) \<Rightarrow> (s\<lparr>ps_selector := Some v1\<rparr>, None)
   | (v1, Some RequestKeyFrame) \<Rightarrow>
       if ps_may_request now s
       then (s\<lparr>ps_selector := Some v1, ps_need_key_frame := True, ps_last_key_frame_ts := Some now\<rparr>, Some RequestKeyFrame)
       else ps_pop_selector now v1 s)"
  by pat_completeness auto
termination
  by (relation "measure (\<lambda>(_, v, _). vs_pending v)") (auto intro: vs_pop_less)

declare ps_pop_selector.simps [simp del]

definition ps_pop_output :: "nat \<Rightarrow> packet_selector \<Rightarrow> packet_selector \<times> action option" where
  "ps_pop_output now s = (case ps_queue s of
     a # q \<Rightarrow> (s\<lparr>ps_queue := q\<rparr>, Some a)
   | [] \<Rightarrow> (case ps_selector s of None \<Rightarrow> (s, None) | Some v \<Rightarrow> ps_pop_selector now v s))"

section \<open>Runs\<close>

datatype ps_op =
    Ps_Tick nat
  | Ps_Reset
  | Ps_Bitrate nat nat
  | Ps_Limit nat nat nat
  | Ps_Select nat nat media_packet
  | Ps_Pop nat

datatype ps_out = No_Out | Forwarded media_packet | Asked action

fun ps_step :: "ps_op \<Rightarrow> packet_selector \<Rightarrow> (packet_selector \<times> ps_out) run" where
  "ps_step (Ps_Tick now) s = Inr (ps_on_tick now s, No_Out)"
| "ps_step Ps_Reset s = Inr (ps_reset s, No_Out)"
| "ps_step (Ps_Bitrate now b) s = rbind (ps_set_target_bitrate now b s) (\<lambda>s. Inr (s, No_Out))"
| "ps_step (Ps_Limit now m n) s = rbind (ps_set_limit_layer now m n s) (\<lambda>s. Inr (s, No_Out))"
| "ps_step (Ps_Select now ch p) s = rbind (ps_select now ch p s) (\<lambda>(s, p, ok). Inr (s, if ok then Forwarded p else No_Out))"
| "ps_step (Ps_Pop now) s = (case ps_pop_output now s of (s, a) \<Rightarrow> Inr (s, case a of None \<Rightarrow> No_Out | Some a \<Rightarrow> Asked a))"

primrec ps_run :: "ps_op list \<Rightarrow> packet_selector \<Rightarrow> (packet_selector \<times> ps_out list) run" where
  "ps_run [] s = Inr (s, [])"
| "ps_run (x # xs) s = rbind (ps_step x s) (\<lambda>(s1, o1). rbind (ps_run xs s1) (\<lambda>(s2, os). Inr (s2, o1 # os)))"

fun op_wf :: "ps_op \<Rightarrow> bool" where
  "op_wf (Ps_Select _ _ p) = pkt_wf p"
| "op_wf _ = True"

definition ps_wf :: "packet_selector \<Rightarrow> bool" where
  "ps_wf s = ctx_wf (ps_ctx s)"

definition vs_active :: "any_selector \<Rightarrow> bool" where
  "vs_active v = (case v of Sel_Single \<Rightarrow> True | Sel_H264 s \<Rightarrow> h4_current s \<noteq> None
     | Sel_Vp8 s \<Rightarrow> v8_current s \<noteq> None | Sel_Vp9 s \<Rightarrow> v9_current s \<noteq> None)"

section \<open>Every selector behind the dispatch keeps the contract\<close>

lemma vs_select_active:
  assumes "vs_select c p v = Inr (v', c', p', ok)"
  shows "(ok \<longrightarrow> vs_active v') \<and> (vs_active v' \<longrightarrow> vs_active v \<or> is_video_key (pkt_meta p))"
proof (cases v)
  case Sel_Single
  then show ?thesis using assms by (auto simp: vs_select_def vs_active_def run_simps)
next
  case (Sel_H264 s)
  then obtain s' where "h264_select c p s = Inr (s', c', p', ok)" "v' = Sel_H264 s'"
    using assms by (auto simp: vs_select_def run_simps)
  then show ?thesis using h264.select_active [of c p s] Sel_H264 by (simp add: vs_active_def)
next
  case (Sel_Vp8 s)
  then obtain s' where "vp8_select c p s = Inr (s', c', p', ok)" "v' = Sel_Vp8 s'"
    using assms by (auto simp: vs_select_def run_simps)
  then show ?thesis using vp8.select_active [of c p s] Sel_Vp8 by (simp add: vs_active_def)
next
  case (Sel_Vp9 s)
  then obtain s' where "vp9_select c p s = Inr (s', c', p', ok)" "v' = Sel_Vp9 s'"
    using assms by (auto simp: vs_select_def run_simps)
  then show ?thesis using vp9.select_active [of c p s] Sel_Vp9 by (simp add: vs_active_def)
qed

interpretation any: video_selector vs_select vs_set_target_bitrate vs_set_limit_layer vs_active
proof unfold_locales
  fix c and p :: media_packet and v
  assume wf: "ctx_wf c" "pkt_wf p"
  show "\<exists>v' c' p' ok. vs_select c p v = Inr (v', c', p', ok) \<and> ctx_wf c' \<and> pkt_kept p p'"
  proof (cases v)
    case Sel_Single
    then show ?thesis using single.select_ok [OF wf, of "()"] by (auto simp: vs_select_def)
  next
    case (Sel_H264 s)
    then show ?thesis using h264.select_ok [OF wf, of s] by (auto simp: vs_select_def)
  next
    case (Sel_Vp8 s)
    then show ?thesis using vp8.select_ok [OF wf, of s] by (auto simp: vs_select_def)
  next
    case (Sel_Vp9 s)
    then show ?thesis using vp9.select_ok [OF wf, of s] by (auto simp: vs_select_def)
  qed
next
  fix c and p :: media_packet and v v' c' p' ok
  assume "vs_select c p v = Inr (v', c', p', ok)"
  then show "(ok \<longrightarrow> vs_active v') \<and> (vs_active v' \<longrightarrow> vs_active v \<or> is_video_key (pkt_meta p))"
    by (rule vs_select_active)
next
  fix b v
  show "\<exists>v'. vs_set_target_bitrate b v = Inr v' \<and> vs_active v' = vs_active v"
  proof (cases v)
    case Sel_Single
    then show ?thesis by (simp add: vs_set_target_bitrate_def)
  next
    case (Sel_H264 s)
    then show ?thesis using h264.set_bitrate_ok [of b s] by (auto simp: vs_set_target_bitrate_def vs_active_def)
  next
    case (Sel_Vp8 s)
    then show ?thesis using vp8.set_bitrate_ok [of b s] by (auto simp: vs_set_target_bitrate_def vs_active_def)
  next
    case (Sel_Vp9 s)
    then show ?thesis using vp9.set_bitrate_ok [of b s] by (auto simp: vs_set_target_bitrate_def vs_active_def)
  qed
next
  fix m n v
  show "\<exists>v'. vs_set_limit_layer m n v = Inr v' \<and> vs_active v' = vs_active v"
  proof (cases v)
    case Sel_Single
    then show ?thesis by (simp add: vs_set_limit_layer_def)
  next
    case (Sel_H264 s)
    then show ?thesis using h264.set_limit_ok [of m n s] by (auto simp: vs_set_limit_layer_def vs_active_def)
  next
    case (Sel_Vp8 s)
    then show ?thesis using vp8.set_limit_ok [of m n s] by (auto simp: vs_set_limit_layer_def vs_active_def)
  next
    case (Sel_Vp9 s)
    then show ?thesis using vp9.set_limit_ok [of m n s] by (auto simp: vs_set_limit_layer_def vs_active_def)
  qed
qed

lemma create_selector_ok:
  assumes "is_video_key (pkt_meta p)"
  shows "\<exists>v. create_selector p b l = Inr (Some v)"
proof -
  let ?ls = "case pkt_layers p of None \<Rightarrow> layers_default_sim | Some l \<Rightarrow> l"
  obtain t where "select_layer ?ls (to_kbps b) (fst l) (snd l) = Inr (Some t)"
    using select_layer_total by blast
  then show ?thesis using assms
    by (auto simp: create_selector_def Let_def h264_new_def vp8_new_def vp9_new_def is_video_key_def
        split: media_meta.splits option.splits)
qed

section \<open>No operation panics\<close>

lemma ps_rewrite_ok:
  assumes "ps_wf s" "pkt_wf p"
  shows "\<exists>s' p' ok. ps_rewrite now p s = Inr (s', p', ok) \<and> ps_wf s' \<and> pkt_seq p' < 2 ^ 16 \<and> pkt_ts p' < 2 ^ 32 \<and>
     ps_queue s' = ps_queue s \<and> ps_last_key_frame_ts s' = ps_last_key_frame_ts s \<and> ps_selector s' = ps_selector s \<and>
     ps_selected_channel s' = ps_selected_channel s \<and> ps_kind s' = ps_kind s"
proof -
  obtain ts1 t where ts: "ts_generate TS_MAX TS_DELTA_REINIT now (pkt_ts p) (cx_ts_rewrite (ps_ctx s)) = (ts1, t)"
    by fastforce
  have "pkt_seq p < SEQ_MAX" using assms by (simp add: pkt_wf_def SEQ_MAX_def)
  then obtain r out where r: "sr_generate SEQ_MAX (pkt_seq p) (cx_seq_rewrite (ps_ctx s)) = Inr (r, out)" "sr_wf SEQ_MAX r"
    using sr_generate_safe [of SEQ_MAX "cx_seq_rewrite (ps_ctx s)" "pkt_seq p"] assms
    by (auto simp: ps_wf_def ctx_wf_def)
  have "ctx_wf ((ps_ctx s)\<lparr>cx_ts_rewrite := ts1, cx_seq_rewrite := r\<rparr>)"
    using assms r by (simp add: ps_wf_def ctx_wf_def)
  then show ?thesis using ts r assms by (cases out) (auto simp: ps_rewrite_def ps_wf_def pkt_wf_def Let_def)
qed

lemma ps_create_ok:
  assumes "ps_wf s"
  shows "\<exists>s'. ps_create p b s = Inr s' \<and> ps_wf s' \<and> ps_queue s' = ps_queue s \<and>
     ps_last_key_frame_ts s' = ps_last_key_frame_ts s \<and> ps_selected_channel s' = ps_selected_channel s \<and>
     ps_kind s' = ps_kind s \<and> (ps_selector s = None \<longrightarrow> \<not> is_video_key (pkt_meta p) \<longrightarrow> ps_selector s' = None)"
proof (cases "ps_selector s = None \<and> is_video_key (pkt_meta p)")
  case True
  then obtain v where v: "create_selector p b (ps_limit s) = Inr (Some v)" using create_selector_ok by blast
  have "ctx_wf (vs_on_init v (ps_ctx s))"
    using assms by (cases v) (simp_all add: vs_on_init_def ps_wf_def vp8_on_init_def vp9_on_init_def)
  then show ?thesis using v True by (auto simp: ps_create_def ps_wf_def)
next
  case False
  then show ?thesis using assms by (auto simp: ps_create_def)
qed

text \<open>What one call of \<^verbatim>\<open>select_video_inner\<close> does to the parts of the state the properties speak of.\<close>

lemma ps_source_changed_simps:
  "ps_wf s \<Longrightarrow> ps_wf (ps_source_changed now ch p s)"
  "ps_kind (ps_source_changed now ch p s) = ps_kind s"
  "ps_selected_channel (ps_source_changed now ch p s) = Some ch"
  "ps_selector (ps_source_changed now ch p s) = None"
  by (simp_all add: ps_source_changed_def Let_def ps_wf_def)

definition ps_same_requests :: "packet_selector \<Rightarrow> packet_selector \<Rightarrow> bool" where
  "ps_same_requests s s' \<longleftrightarrow> ps_queue s' = ps_queue s \<and> ps_last_key_frame_ts s' = ps_last_key_frame_ts s"

lemma ps_video_ok:
  assumes wf: "ps_wf s" "pkt_wf p" and ch: "ps_selected_channel s = Some ch"
  shows "\<exists>s' p' ok. ps_select_video_inner now ch p s = Inr (s', p', ok) \<and> ps_wf s' \<and> pkt_wf p' \<and>
     ps_kind s' = ps_kind s \<and> ps_selected_channel s' = Some ch \<and> ps_same_requests s s' \<and>
     (ps_selector s = None \<longrightarrow> \<not> is_video_key (pkt_meta p) \<longrightarrow> ps_selector s' = None \<and> \<not> ok)"
proof (cases "ps_bitrate s")
  case None
  then show ?thesis using wf ch by (auto simp: ps_select_video_inner_def ps_same_requests_def)
next
  case (Some b)
  define s2 where "s2 = (if ps_need_key_frame s \<and> is_video_key (pkt_meta p) then s\<lparr>ps_need_key_frame := False\<rparr> else s)"
  have s2: "ps_wf s2" "ps_queue s2 = ps_queue s" "ps_last_key_frame_ts s2 = ps_last_key_frame_ts s"
    "ps_selected_channel s2 = Some ch" "ps_kind s2 = ps_kind s" "ps_selector s2 = ps_selector s"
    using wf ch by (simp_all add: s2_def ps_wf_def)
  obtain s3 where s3: "ps_create p b s2 = Inr s3" "ps_wf s3" "ps_queue s3 = ps_queue s2"
    "ps_last_key_frame_ts s3 = ps_last_key_frame_ts s2" "ps_selected_channel s3 = ps_selected_channel s2"
    "ps_kind s3 = ps_kind s2" "ps_selector s2 = None \<longrightarrow> \<not> is_video_key (pkt_meta p) \<longrightarrow> ps_selector s3 = None"
    using ps_create_ok [OF s2(1), of p b] by (elim exE conjE) (rule that; assumption)
  have inner: "ps_select_video_inner now ch p s = (case ps_selector s3 of None \<Rightarrow> Inr (s3, p, False)
      | Some v \<Rightarrow> rbind (vs_select (ps_ctx s3) p v) (\<lambda>(v1, c1, p1, ok).
          Inr (s3\<lparr>ps_selector := Some v1, ps_ctx := c1\<rparr>, p1, ok)))"
    using ch Some s3(1) by (simp add: ps_select_video_inner_def Let_def s2_def [symmetric])
  show ?thesis
  proof (cases "ps_selector s3")
    case None
    then show ?thesis using inner s2 s3 wf by (auto simp: ps_same_requests_def)
  next
    case (Some v)
    obtain v1 c1 p1 ok where sel: "vs_select (ps_ctx s3) p v = Inr (v1, c1, p1, ok)" "ctx_wf c1" "pkt_kept p p1"
      using any.select_ok [of "ps_ctx s3" p v] s3(2) wf(2) by (auto simp: ps_wf_def)
    then show ?thesis using inner s2 s3 wf(2) Some by (auto simp: ps_same_requests_def ps_wf_def pkt_kept_def)
  qed
qed

text \<open>A change of the source is noticed first and then handled like any packet of it.\<close>

lemma ps_video_changed:
  "ps_selected_channel s \<noteq> Some ch \<Longrightarrow>
     ps_select_video_inner now ch p s = ps_select_video_inner now ch p (ps_source_changed now ch p s)"
  by (simp add: ps_select_video_inner_def ps_source_changed_simps)

lemma ps_select_ok:
  assumes wf: "ps_wf s" "pkt_wf p"
  shows "\<exists>s' p' ok. ps_select now ch p s = Inr (s', p', ok) \<and> ps_wf s' \<and> pkt_seq p' < 2 ^ 16 \<and> pkt_ts p' < 2 ^ 32 \<and>
     ps_kind s' = ps_kind s \<and> ps_selected_channel s' = Some ch \<and>
     (ps_selected_channel s = Some ch \<longrightarrow> ps_same_requests s s') \<and>
     (ps_kind s = Video \<longrightarrow> (ps_selected_channel s = Some ch \<longrightarrow> ps_selector s = None) \<longrightarrow>
        \<not> is_video_key (pkt_meta p) \<longrightarrow> ps_selector s' = None \<and> \<not> ok)"
proof (cases "ps_kind s")
  case Audio
  let ?s = "if ps_selected_channel s \<noteq> Some ch
        then s\<lparr>ps_ctx := ctx_reinit (ps_ctx s), ps_selected_channel := Some ch\<rparr> else s"
  have "ps_wf ?s" using wf by (simp add: ps_wf_def)
  then show ?thesis using ps_rewrite_ok [of ?s p now] wf Audio
    by (auto simp: ps_select_def kind_is_audio_def ps_select_audio_def ps_same_requests_def)
next
  case Video
  define s1 where "s1 = (if ps_selected_channel s = Some ch then s else ps_source_changed now ch p s)"
  have s1: "ps_wf s1" "ps_selected_channel s1 = Some ch" "ps_kind s1 = Video"
    using wf Video by (auto simp: s1_def ps_source_changed_simps)
  obtain s2 p2 ok where v: "ps_select_video_inner now ch p s = Inr (s2, p2, ok)" "ps_wf s2" "pkt_wf p2"
    "ps_kind s2 = Video" "ps_selected_channel s2 = Some ch" "ps_same_requests s1 s2"
    "ps_selector s1 = None \<longrightarrow> \<not> is_video_key (pkt_meta p) \<longrightarrow> ps_selector s2 = None \<and> \<not> ok"
    using ps_video_ok [OF s1(1) wf(2) s1(2), of now] ps_video_changed [of s ch now p] s1(3) s1_def
    by (metis (no_types, lifting))
  have key: "(ps_selected_channel s = Some ch \<longrightarrow> ps_selector s = None) \<longrightarrow> ps_selector s1 = None"
    by (simp add: s1_def ps_source_changed_simps)
  show ?thesis
  proof (cases ok)
    case True
    obtain s3 p3 ok3 where r: "ps_rewrite now p2 s2 = Inr (s3, p3, ok3)" "ps_wf s3" "pkt_seq p3 < 2 ^ 16"
      "pkt_ts p3 < 2 ^ 32" "ps_queue s3 = ps_queue s2" "ps_last_key_frame_ts s3 = ps_last_key_frame_ts s2"
      "ps_selector s3 = ps_selector s2" "ps_selected_channel s3 = ps_selected_channel s2" "ps_kind s3 = ps_kind s2"
      using ps_rewrite_ok [OF v(2,3), of now] by (elim exE conjE) (rule that; assumption)
    have "ps_select now ch p s = Inr (s3, p3, ok3)"
      using v(1) r(1) True Video by (simp add: ps_select_def kind_is_audio_def ps_select_video_def)
    moreover have "ps_selected_channel s = Some ch \<longrightarrow> ps_same_requests s s3"
      using v(6) r by (simp add: s1_def ps_same_requests_def)
    ultimately show ?thesis using r v Video True key by auto
  next
    case False
    have "ps_select now ch p s = Inr (s2, p2, False)"
      using v(1) False Video by (simp add: ps_select_def kind_is_audio_def ps_select_video_def)
    moreover have "ps_selected_channel s = Some ch \<longrightarrow> ps_same_requests s s2"
      using v(6) by (auto simp: s1_def)
    ultimately show ?thesis using v Video key by (auto simp: pkt_wf_def)
  qed
qed

lemma ps_set_ok:
  assumes "ps_wf s"
  shows "\<exists>s'. ps_set_target_bitrate now b s = Inr s' \<and> ps_wf s' \<and> ps_same_requests s s' \<and>
      ps_kind s' = ps_kind s \<and> ps_selected_channel s' = ps_selected_channel s \<and> (ps_selector s = None \<longrightarrow> ps_selector s' = None)"
    and "\<exists>s'. ps_set_limit_layer now m n s = Inr s' \<and> ps_wf s' \<and> ps_same_requests s s' \<and>
      ps_kind s' = ps_kind s \<and> ps_selected_channel s' = ps_selected_channel s \<and> (ps_selector s = None \<longrightarrow> ps_selector s' = None)"
proof -
  show "\<exists>s'. ps_set_target_bitrate now b s = Inr s' \<and> ps_wf s' \<and> ps_same_requests s s' \<and>
      ps_kind s' = ps_kind s \<and> ps_selected_channel s' = ps_selected_channel s \<and> (ps_selector s = None \<longrightarrow> ps_selector s' = None)"
    using assms any.set_bitrate_ok [of b "the (ps_selector s)"]
    by (cases "ps_selector s") (auto simp: ps_set_target_bitrate_def ps_wf_def ps_same_requests_def)
  show "\<exists>s'. ps_set_limit_layer now m n s = Inr s' \<and> ps_wf s' \<and> ps_same_requests s s' \<and>
      ps_kind s' = ps_kind s \<and> ps_selected_channel s' = ps_selected_channel s \<and> (ps_selector s = None \<longrightarrow> ps_selector s' = None)"
    using assms any.set_limit_ok [of m n "the (ps_selector s)"]
    by (cases "ps_selector s") (auto simp: ps_set_limit_layer_def ps_wf_def ps_same_requests_def)
qed

lemma ps_pop_selector_ok:
  assumes "ps_pop_selector now v s = (s', a)"
  shows "ps_ctx s' = ps_ctx s \<and> ps_kind s' = ps_kind s \<and> ps_selected_channel s' = ps_selected_channel s \<and>
     ps_queue s' = ps_queue s \<and>
     (if a = None then ps_last_key_frame_ts s' = ps_last_key_frame_ts s
      else ps_may_request now s \<and> ps_last_key_frame_ts s' = Some now)"
  using assms
proof (induction now v s rule: ps_pop_selector.induct)
  case (1 now v s)
  obtain v1 a1 where pop: "vs_pop_action v = (v1, a1)" by fastforce
  show ?case
  proof (cases a1)
    case None
    then show ?thesis using 1(2) pop by (auto simp: ps_pop_selector.simps [of now v])
  next
    case (Some r)
    then have "\<not> ps_may_request now s \<Longrightarrow> ps_pop_selector now v1 s = (s', a)"
      using 1(2) pop by (cases r) (simp add: ps_pop_selector.simps [of now v])
    then show ?thesis using 1(2) pop Some "1.IH" [OF pop [symmetric]]
      by (cases r) (auto simp: ps_pop_selector.simps [of now v] split: if_splits)
  qed
qed

section \<open>What a step does\<close>

fun ps_time :: "ps_op \<Rightarrow> nat" where
  "ps_time (Ps_Tick now) = now"
| "ps_time Ps_Reset = 0"
| "ps_time (Ps_Bitrate now _) = now"
| "ps_time (Ps_Limit now _ _) = now"
| "ps_time (Ps_Select now _ _) = now"
| "ps_time (Ps_Pop now) = now"

fun ps_channel_ok :: "nat \<Rightarrow> ps_op \<Rightarrow> bool" where
  "ps_channel_ok ch (Ps_Select _ c _) = (c = ch)"
| "ps_channel_ok ch Ps_Reset = False"
| "ps_channel_ok ch _ = True"

text \<open>How many key-frame requests a step adds: to the queue, or directly to the caller.\<close>

definition ps_issued :: "packet_selector \<Rightarrow> packet_selector \<Rightarrow> ps_out \<Rightarrow> nat" where
  "ps_issued s s' out = length (ps_queue s') + (case out of Asked _ \<Rightarrow> 1 | _ \<Rightarrow> 0) - length (ps_queue s)"

fun out_ok :: "ps_out \<Rightarrow> bool" where
  "out_ok (Forwarded p) = (pkt_seq p < 2 ^ 16 \<and> pkt_ts p < 2 ^ 32)"
| "out_ok _ = True"

lemma ps_same_requests_simps:
  "ps_same_requests s s' \<Longrightarrow> ps_queue s' = ps_queue s" "ps_same_requests s s' \<Longrightarrow> ps_last_key_frame_ts s' = ps_last_key_frame_ts s"
  by (simp_all add: ps_same_requests_def)

lemma ps_step_safe:
  assumes "ps_wf s" "op_wf x"
  shows "\<exists>s' out. ps_step x s = Inr (s', out) \<and> ps_wf s' \<and> out_ok out \<and> ps_kind s' = ps_kind s"
proof (cases x)
  case (Ps_Select now ch p)
  then show ?thesis using ps_select_ok [OF assms(1), of p now ch] assms(2) by auto
next
  case (Ps_Bitrate now b)
  then show ?thesis using ps_set_ok(1) [OF assms(1), of now b] by auto
next
  case (Ps_Limit now m n)
  then show ?thesis using ps_set_ok(2) [OF assms(1), of now m n] by auto
next
  case (Ps_Pop now)
  obtain s' a where pop: "ps_pop_output now s = (s', a)" by fastforce
  have "ps_ctx s' = ps_ctx s \<and> ps_kind s' = ps_kind s"
    using pop ps_pop_selector_ok [of now "the (ps_selector s)" s s' a]
    by (auto simp: ps_pop_output_def split: list.splits option.splits)
  then show ?thesis using Ps_Pop pop assms by (cases a) (auto simp: ps_wf_def)
qed (use assms in \<open>auto simp: ps_on_tick_def ps_reset_def ps_wf_def\<close>)

lemma ps_step_requests:
  assumes "ps_wf s" "op_wf x" "ps_selected_channel s = Some ch" "ps_channel_ok ch x" "ps_step x s = Inr (s', out)"
  shows "ps_selected_channel s' = Some ch \<and>
     (ps_issued s s' out = 0 \<and> ps_last_key_frame_ts s' = ps_last_key_frame_ts s \<or>
      ps_issued s s' out = 1 \<and> ps_last_key_frame_ts s' = Some (ps_time x) \<and> ps_may_request (ps_time x) s)"
proof (cases x)
  case (Ps_Tick now)
  then show ?thesis using assms
    by (cases "ps_need_key_frame s \<and> ps_may_request now s") (auto simp: ps_on_tick_def ps_issued_def)
next
  case (Ps_Select now c p)
  then show ?thesis using ps_select_ok [OF assms(1), of p now ch] assms
    by (auto simp: ps_issued_def ps_same_requests_simps split: if_splits)
next
  case (Ps_Bitrate now b)
  then show ?thesis using ps_set_ok(1) [OF assms(1), of now b] assms(3,5)
    by (auto simp: ps_issued_def ps_same_requests_simps)
next
  case (Ps_Limit now m n)
  then show ?thesis using ps_set_ok(2) [OF assms(1), of now m n] assms(3,5)
    by (auto simp: ps_issued_def ps_same_requests_simps)
next
  case (Ps_Pop now)
  obtain t a where pop: "ps_pop_output now s = (t, a)" by fastforce
  show ?thesis
  proof (cases "ps_queue s")
    case Nil
    have st: "s' = t" "out = (case a of None \<Rightarrow> No_Out | Some a \<Rightarrow> Asked a)" using pop assms(5) Ps_Pop by simp_all
    show ?thesis
    proof (cases "ps_selector s")
      case None
      then show ?thesis using pop st Nil assms(3) by (simp add: ps_pop_output_def ps_issued_def)
    next
      case (Some v)
      then have "ps_pop_selector now v s = (t, a)" using pop Nil by (simp add: ps_pop_output_def)
      from ps_pop_selector_ok [OF this] show ?thesis
        using st Nil assms(3) Ps_Pop by (cases a) (simp_all add: ps_issued_def)
    qed
  next
    case (Cons b q)
    then show ?thesis using pop assms(3,5) Ps_Pop by (auto simp: ps_pop_output_def ps_issued_def)
  qed
next
  case Ps_Reset
  then show ?thesis using assms(4) by simp
qed

section \<open>Runs\<close>

lemma ps_wf_new: "ps_wf (ps_new kind m n)"
  by (simp add: ps_wf_def ps_new_def ctx_wf_new)

lemma ps_run_ok:
  "ps_wf s \<Longrightarrow> \<forall>x\<in>set xs. op_wf x \<Longrightarrow>
     \<exists>s' outs. ps_run xs s = Inr (s', outs) \<and> ps_wf s' \<and> (\<forall>q\<in>set outs. out_ok q)"
proof (induction xs arbitrary: s)
  case Nil
  then show ?case by simp
next
  case (Cons x xs)
  obtain s1 o1 where "ps_step x s = Inr (s1, o1)" "ps_wf s1" "out_ok o1"
    using ps_step_safe [of s x] Cons.prems by auto
  moreover from this obtain s2 os where "ps_run xs s1 = Inr (s2, os)" "ps_wf s2" "\<forall>q\<in>set os. out_ok q"
    using Cons.IH [of s1] Cons.prems by auto
  ultimately show ?case by auto
qed

text \<open>The times at which requests are issued in a run.\<close>

fun ps_request_times :: "ps_op list \<Rightarrow> packet_selector \<Rightarrow> nat list" where
  "ps_request_times [] s = []"
| "ps_request_times (x # xs) s = (case ps_step x s of Inl _ \<Rightarrow> []
     | Inr (s', out) \<Rightarrow> replicate (ps_issued s s' out) (ps_time x) @ ps_request_times xs s')"

lemma ps_request_times_spaced:
  assumes "ps_wf s" "ps_selected_channel s = Some ch"
    and "\<forall>x\<in>set xs. op_wf x \<and> ps_channel_ok ch x \<and> ps_time x + 100 < 2 ^ 64"
    and "case ps_last_key_frame_ts s of None \<Rightarrow> True | Some l \<Rightarrow> l + 100 < 2 ^ 64"
  shows "sorted_wrt (\<lambda>a b. a + 100 \<le> b) (ps_request_times xs s) \<and>
     (\<forall>t\<in>set (ps_request_times xs s). \<forall>l. ps_last_key_frame_ts s = Some l \<longrightarrow> l + 100 \<le> t)"
  using assms
proof (induction xs arbitrary: s)
  case Nil
  then show ?case by simp
next
  case (Cons x xs)
  obtain s1 o1 where step: "ps_step x s = Inr (s1, o1)" "ps_wf s1"
    using ps_step_safe [of s x] Cons.prems by auto
  have req: "ps_selected_channel s1 = Some ch \<and>
     (ps_issued s s1 o1 = 0 \<and> ps_last_key_frame_ts s1 = ps_last_key_frame_ts s \<or>
      ps_issued s s1 o1 = 1 \<and> ps_last_key_frame_ts s1 = Some (ps_time x) \<and> ps_may_request (ps_time x) s)"
    using ps_step_requests [of s x ch s1 o1] Cons.prems step by auto
  then have "case ps_last_key_frame_ts s1 of None \<Rightarrow> True | Some l \<Rightarrow> l + 100 < 2 ^ 64"
    using Cons.prems by auto
  with req Cons have IH: "sorted_wrt (\<lambda>a b. a + 100 \<le> b) (ps_request_times xs s1)"
      "\<forall>t\<in>set (ps_request_times xs s1). \<forall>l. ps_last_key_frame_ts s1 = Some l \<longrightarrow> l + 100 \<le> t"
    using step by auto
  from req show ?case
  proof (elim conjE disjE)
    assume "ps_issued s s1 o1 = 0" "ps_last_key_frame_ts s1 = ps_last_key_frame_ts s"
    then show ?thesis using IH step by simp
  next
    assume new: "ps_issued s s1 o1 = 1" "ps_last_key_frame_ts s1 = Some (ps_time x)" "ps_may_request (ps_time x) s"
    have l: "l + 100 \<le> ps_time x" if "ps_last_key_frame_ts s = Some l" for l
      using new(3) that Cons.prems(4) by (simp add: ps_may_request_def REQUEST_KEY_FRAME_INTERVAL_MS_def)
    have "ps_request_times (x # xs) s = ps_time x # ps_request_times xs s1" using step new(1) by simp
    then show ?thesis using IH new(2) l by fastforce
  qed
qed

text \<open>Waiting for a key frame: the state in which nothing of channel \<open>ch\<close> is forwarded.\<close>

fun ps_delta_of :: "nat \<Rightarrow> ps_op \<Rightarrow> bool" where
  "ps_delta_of ch (Ps_Select _ c p) = (c = ch \<and> pkt_wf p \<and> \<not> is_video_key (pkt_meta p))"
| "ps_delta_of ch _ = True"

definition ps_waiting :: "nat \<Rightarrow> packet_selector \<Rightarrow> bool" where
  "ps_waiting ch s \<longleftrightarrow> ps_wf s \<and> ps_kind s = Video \<and> (ps_selected_channel s = Some ch \<longrightarrow> ps_selector s = None)"

lemma ps_step_waiting:
  assumes "ps_waiting ch s" "ps_delta_of ch x"
  shows "\<exists>s' out. ps_step x s = Inr (s', out) \<and> ps_waiting ch s' \<and> (\<forall>q. out \<noteq> Forwarded q)"
proof (cases x)
  case (Ps_Select now c p)
  then show ?thesis using ps_select_ok [of s p now ch] assms by (auto simp: ps_waiting_def)
next
  case (Ps_Bitrate now b)
  then show ?thesis using ps_set_ok(1) [of s now b] assms by (auto simp: ps_waiting_def)
next
  case (Ps_Limit now m n)
  then show ?thesis using ps_set_ok(2) [of s now m n] assms by (auto simp: ps_waiting_def)
next
  case (Ps_Pop now)
  obtain s' a where pop: "ps_pop_output now s = (s', a)" by fastforce
  have "ps_ctx s' = ps_ctx s \<and> ps_kind s' = ps_kind s \<and> ps_selected_channel s' = ps_selected_channel s \<and>
      (ps_selector s = None \<longrightarrow> ps_selector s' = None)"
    using pop ps_pop_selector_ok [of now "the (ps_selector s)" s s' a]
    by (auto simp: ps_pop_output_def split: list.splits option.splits)
  then show ?thesis using Ps_Pop pop assms by (cases a) (auto simp: ps_waiting_def ps_wf_def)
qed (use assms in \<open>auto simp: ps_on_tick_def ps_reset_def ps_waiting_def ps_wf_def\<close>)

lemma ps_run_waiting:
  "ps_waiting ch s \<Longrightarrow> \<forall>x\<in>set xs. ps_delta_of ch x \<Longrightarrow>
     \<exists>s' outs. ps_run xs s = Inr (s', outs) \<and> ps_waiting ch s' \<and> (\<forall>q. Forwarded q \<notin> set outs)"
proof (induction xs arbitrary: s)
  case Nil
  then show ?case by simp
next
  case (Cons x xs)
  obtain s1 o1 where "ps_step x s = Inr (s1, o1)" "ps_waiting ch s1" "\<forall>q. o1 \<noteq> Forwarded q"
    using ps_step_waiting [of ch s x] Cons.prems by auto
  moreover from this obtain s2 os where "ps_run xs s1 = Inr (s2, os)" "ps_waiting ch s2" "\<forall>q. Forwarded q \<notin> set os"
    using Cons.IH [of s1] Cons.prems by auto
  ultimately show ?case by auto
qed

section \<open>Continuous audio\<close>

text \<open>A sequence of packets \<open>(now, channel, packet)\<close> in which the packets of one channel follow each
  other without loss as long as the channel does not change.\<close>

fun audio_continues :: "(nat \<times> nat) option \<Rightarrow> (nat \<times> nat \<times> media_packet) list \<Rightarrow> bool" where
  "audio_continues lst [] = True"
| "audio_continues lst ((now, ch, p) # r) =
     (pkt_wf p \<and> (case lst of None \<Rightarrow> True | Some (c, q) \<Rightarrow> c = ch \<longrightarrow> pkt_seq p = (q + 1) mod SEQ_MAX) \<and>
      audio_continues (Some (ch, pkt_seq p)) r)"

lemma sr_generate_keeps_offset:
  assumes "sr_generate M x s = Inr (s', out)" "sr_reinit_offset s = None"
  shows "sr_reinit_offset s' = None"
proof -
  have e: "sr_emit M x b t = Inr (s', out) \<Longrightarrow> sr_reinit_offset s' = sr_reinit_offset t" for b t
    by (auto simp: sr_emit_def run_simps Let_def)
  obtain s1 s2 ext where r: "sr_resync M x s = Inr s1" "sr_extended_seq M x s1 = Inr (s2, ext)"
    and g: "(if sr_dropped s2 \<noteq> [] then
       (case sr_binary_search (sr_dropped s2) ext of Inl _ \<Rightarrow> Inr (s2, None)
        | Inr i \<Rightarrow> rbind (sr_wrapping_sub M (sr_base s2) (length (sr_dropped s2) - (length (sr_dropped s2) - i)))
              (\<lambda>b. sr_emit M x b s2))
     else sr_emit M x (sr_base s2) s2) = Inr (s', out)"
    using assms(1) by (auto simp: sr_generate_def run_simps)
  have "sr_reinit_offset s1 = None"
    using r(1) assms(2) by (auto simp: sr_resync_def sr_sync_def run_simps split: if_splits option.splits)
  then have "sr_reinit_offset s2 = None"
    using r(2) by (auto simp: sr_extended_seq_def run_simps Let_def)
  then show ?thesis using g e by (auto simp: run_simps split: if_splits sum.splits)
qed

lemma sr_first_after_reinit:
  assumes "sr_modulus M" "sr_wf M s" "x < M" "sr_reinit_offset s = None" "4 * M \<le> 2 ^ 64"
  shows "\<exists>s1. sr_generate M x (sr_reinit s) = Inr (s1, Some ((sr_max_output s + 1) mod M)) \<and>
     sr_tracks M ((x + 1) mod M) 1 s1 \<and> sr_max_output s1 = (sr_max_output s + 1) mod M \<and> sr_seq_delta s1 \<le> M"
proof -
  let ?s = "sr_reinit s"
  let ?t = "sr_synced M x ?s"
  have s: "sr_wf M ?s" "sr_reinit_flag ?s" "sr_reinit_offset ?s = None" "sr_max_output ?s = sr_max_output s"
    using assms sr_wf_reinit [OF assms(2)] by (simp_all add: sr_reinit_def)
  have r: "sr_resync M x ?s = Inr ?t" using sr_resync_reinit [OF assms(1) s(1) assms(3) s(2)] s(3) by simp
  have t: "\<not> sr_reinit_flag ?t" "sr_max_output ?t = sr_max_output s" "sr_seq_delta ?t = 0"
    by (simp_all add: sr_synced_def Let_def s(4))
  have "1 < M div 2" using assms(1) unfolding sr_modulus_def by linarith
  with sr_tracks_generate [OF sr_tracks_synced [OF assms(1) s(1) assms(3)] assms(1)] assms(5) t
  show ?thesis using sr_resync_absorb(2) [OF r t(1)] by simp
qed

definition ps_audio_at :: "(nat \<times> nat) option \<Rightarrow> nat \<Rightarrow> packet_selector \<Rightarrow> bool" where
  "ps_audio_at lst n s \<longleftrightarrow> ps_wf s \<and> ps_kind s = Audio \<and> sr_reinit_offset (cx_seq_rewrite (ps_ctx s)) = None \<and>
     sr_seq_delta (cx_seq_rewrite (ps_ctx s)) + (n + 4) * SEQ_MAX \<le> 2 ^ 64 \<and>
     ps_selected_channel s = map_option fst lst \<and>
     (case lst of None \<Rightarrow> True | Some (c, q) \<Rightarrow> sr_tracks SEQ_MAX ((q + 1) mod SEQ_MAX) 1 (cx_seq_rewrite (ps_ctx s)))"

definition ps_max_output :: "packet_selector \<Rightarrow> nat" where
  "ps_max_output s = sr_max_output (cx_seq_rewrite (ps_ctx s))"

lemma ps_audio_step:
  assumes at: "ps_audio_at lst (Suc n) s" and wf: "pkt_wf p"
    and cont: "case lst of None \<Rightarrow> True | Some (c, q) \<Rightarrow> c = ch \<longrightarrow> pkt_seq p = (q + 1) mod SEQ_MAX"
  shows "\<exists>s' p'. ps_select now ch p s = Inr (s', p', True) \<and> ps_audio_at (Some (ch, pkt_seq p)) n s' \<and>
     pkt_seq p' = (ps_max_output s + 1) mod SEQ_MAX \<and> ps_max_output s' = (ps_max_output s + 1) mod SEQ_MAX"
proof -
  define s0 where "s0 = (if ps_selected_channel s \<noteq> Some ch
        then s\<lparr>ps_ctx := ctx_reinit (ps_ctx s), ps_selected_channel := Some ch\<rparr> else s)"
  let ?r = "cx_seq_rewrite (ps_ctx s)" and ?u = "cx_seq_rewrite (ps_ctx s0)"
  have x: "pkt_seq p < SEQ_MAX" using wf by (simp add: pkt_wf_def SEQ_MAX_def)
  have r: "sr_wf SEQ_MAX ?r" "sr_reinit_offset ?r = None" "sr_seq_delta ?r + (Suc n + 4) * SEQ_MAX \<le> 2 ^ 64"
    using at by (auto simp: ps_audio_at_def ps_wf_def ctx_wf_def)
  have "\<exists>r1. sr_generate SEQ_MAX (pkt_seq p) ?u = Inr (r1, Some ((ps_max_output s + 1) mod SEQ_MAX)) \<and>
     sr_tracks SEQ_MAX ((pkt_seq p + 1) mod SEQ_MAX) 1 r1 \<and> sr_max_output r1 = (ps_max_output s + 1) mod SEQ_MAX \<and>
     sr_seq_delta r1 \<le> sr_seq_delta ?r + SEQ_MAX"
  proof (cases "ps_selected_channel s = Some ch")
    case True
    then have "sr_tracks SEQ_MAX (pkt_seq p) 1 ?r"
      using at cont by (auto simp: ps_audio_at_def split: option.splits)
    moreover have "1 < SEQ_MAX div 2" by (simp add: SEQ_MAX_def)
    ultimately show ?thesis using sr_tracks_generate [of SEQ_MAX "pkt_seq p" 1 ?r] True r(3)
      by (simp add: s0_def ps_max_output_def algebra_simps)
  next
    case False
    then show ?thesis using sr_first_after_reinit [OF sr_moduli(1) r(1) x r(2)]
      by (force simp: s0_def ctx_reinit_def ps_max_output_def SEQ_MAX_def)
  qed
  then obtain r1 where g: "sr_generate SEQ_MAX (pkt_seq p) ?u = Inr (r1, Some ((ps_max_output s + 1) mod SEQ_MAX))"
    "sr_tracks SEQ_MAX ((pkt_seq p + 1) mod SEQ_MAX) 1 r1" "sr_max_output r1 = (ps_max_output s + 1) mod SEQ_MAX"
    "sr_seq_delta r1 \<le> sr_seq_delta ?r + SEQ_MAX" by blast
  have off: "sr_reinit_offset r1 = None"
    using sr_generate_keeps_offset [OF g(1)] r(2) by (simp add: s0_def ctx_reinit_def sr_reinit_def)
  obtain ts1 t where ts: "ts_generate TS_MAX TS_DELTA_REINIT now (pkt_ts p) (cx_ts_rewrite (ps_ctx s0)) = (ts1, t)"
    by fastforce
  let ?s' = "s0\<lparr>ps_ctx := (ps_ctx s0)\<lparr>cx_ts_rewrite := ts1, cx_seq_rewrite := r1\<rparr>\<rparr>"
  let ?p' = "p\<lparr>pkt_ts := as_u32 t, pkt_seq := as_u16 ((ps_max_output s + 1) mod SEQ_MAX)\<rparr>"
  have kind: "ps_kind s = Audio" "ps_wf s" using at by (auto simp: ps_audio_at_def)
  have "ps_select now ch p s = Inr (?s', ?p', True)"
    using g(1) ts kind by (simp add: ps_select_def kind_is_audio_def ps_select_audio_def s0_def [symmetric] ps_rewrite_def Let_def)
  moreover have "ps_audio_at (Some (ch, pkt_seq p)) n ?s'"
    using g off r(3) kind by (auto simp: ps_audio_at_def ps_wf_def ctx_wf_def sr_tracks_def s0_def ctx_reinit_def algebra_simps)
  moreover have "pkt_seq ?p' = (ps_max_output s + 1) mod SEQ_MAX" by (simp add: as_u16_def SEQ_MAX_def)
  ultimately show ?thesis using g(3) by (auto simp: ps_max_output_def)
qed

lemma ps_audio_run:
  assumes "ps_audio_at lst (length xs) s" "audio_continues lst xs"
  shows "\<exists>s' qs. ps_run (map (\<lambda>(now, ch, p). Ps_Select now ch p) xs) s = Inr (s', map Forwarded qs) \<and>
     map pkt_seq qs = map (\<lambda>k. (ps_max_output s + 1 + k) mod SEQ_MAX) [0..<length xs]"
  using assms
proof (induction xs arbitrary: lst s)
  case Nil
  then show ?case by simp
next
  case (Cons x xs)
  obtain now ch p where x: "x = (now, ch, p)" by (cases x)
  obtain s1 p1 where s1: "ps_select now ch p s = Inr (s1, p1, True)" "ps_audio_at (Some (ch, pkt_seq p)) (length xs) s1"
    "pkt_seq p1 = (ps_max_output s + 1) mod SEQ_MAX" "ps_max_output s1 = (ps_max_output s + 1) mod SEQ_MAX"
    using ps_audio_step [of lst "length xs" s p ch now] Cons.prems x by auto
  obtain s2 qs where s2: "ps_run (map (\<lambda>(now, ch, p). Ps_Select now ch p) xs) s1 = Inr (s2, map Forwarded qs)"
    "map pkt_seq qs = map (\<lambda>k. (ps_max_output s1 + 1 + k) mod SEQ_MAX) [0..<length xs]"
    using Cons.IH [OF s1(2)] Cons.prems(2) x by auto
  have shift: "((a + 1) mod M + 1 + k) mod M = (a + 1 + Suc k) mod M" for a k M :: nat
    using mod_add_left_eq [of "a + 1" M "1 + k"] by (simp add: algebra_simps)
  have "map (\<lambda>k. (ps_max_output s + 1 + k) mod SEQ_MAX) [0..<Suc (length xs)]
      = (ps_max_output s + 1) mod SEQ_MAX # map (\<lambda>k. (ps_max_output s1 + 1 + k) mod SEQ_MAX) [0..<length xs]"
    unfolding s1(4) shift by (simp add: upt_conv_Cons map_Suc_upt [symmetric] del: upt_Suc)
  then have "map pkt_seq (p1 # qs) = map (\<lambda>k. (ps_max_output s + 1 + k) mod SEQ_MAX) [0..<length (x # xs)]"
    using s1(3) s2(2) by simp
  moreover have "ps_run (map (\<lambda>(now, ch, p). Ps_Select now ch p) (x # xs)) s = Inr (s2, map Forwarded (p1 # qs))"
    using s1(1) s2(1) x by simp
  ultimately show ?case by blast
qed

section \<open>Properties\<close>

text \<open>
  C3. The packet selector never panics: from \<^verbatim>\<open>new\<close>, after any sequence of ticks, resets,
  bitrate and layer-limit changes, packets of any channel and codec (with sequence numbers,
  timestamps and picture ids of their widths) and polls, every operation returns, and every
  forwarded packet carries a 16-bit sequence number and a 32-bit timestamp.
\<close>

theorem ps_run_never_panics:
  assumes "\<forall>x\<in>set xs. op_wf x"
  shows "\<exists>s' outs. ps_run xs (ps_new kind m n) = Inr (s', outs) \<and> length outs = length xs \<and>
     (\<forall>q. Forwarded q \<in> set outs \<longrightarrow> pkt_seq q < 2 ^ 16 \<and> pkt_ts q < 2 ^ 32)"
proof -
  have len: "ps_run xs s = Inr (s', outs) \<Longrightarrow> length outs = length xs" for s s' outs
    by (induction xs arbitrary: s outs) (auto simp: run_simps)
  show ?thesis using ps_run_ok [OF ps_wf_new assms, of kind m n] len by fastforce
qed

theorem ps_run_never_panics_witness:
  "\<exists>s' outs. ps_run [Ps_Bitrate 0 2000000,
       Ps_Select 1 9 \<lparr>pkt_ts = 5, pkt_seq = 65535, pkt_marker = True, pkt_nackable = True, pkt_layers = None,
         pkt_meta = Vp8 True None None, pkt_data = []\<rparr>, Ps_Pop 2] (ps_new Video 2 2) = Inr (s', outs) \<and> length outs = 3"
proof -
  let ?xs = "[Ps_Bitrate 0 2000000,
       Ps_Select 1 9 \<lparr>pkt_ts = 5, pkt_seq = 65535, pkt_marker = True, pkt_nackable = True, pkt_layers = None,
         pkt_meta = Vp8 True None None, pkt_data = []\<rparr>, Ps_Pop 2]"
  have "\<forall>x\<in>set ?xs. op_wf x" by (simp add: pkt_wf_def meta_wf_def)
  from ps_run_never_panics [OF this, of Video 2 2] obtain s' outs
    where "ps_run ?xs (ps_new Video 2 2) = Inr (s', outs)" "length outs = length ?xs" by blast
  moreover from this(2) have "length outs = 3" by simp
  ultimately show ?thesis by blast
qed

text \<open>
  C15. Nothing undecodable is sent when a video track changes its source: as long as no key frame
  of the new channel has arrived, none of its packets is forwarded, whatever else happens in
  between (ticks, polls, bitrate and limit changes, resets).
\<close>

theorem ps_waits_for_key_frame:
  assumes "ps_wf s" and "ps_kind s = Video" and "ps_selected_channel s \<noteq> Some ch"
    and "\<forall>x\<in>set xs. ps_delta_of ch x"
  shows "\<exists>s' outs. ps_run xs s = Inr (s', outs) \<and> (\<forall>q. Forwarded q \<notin> set outs)"
  using ps_run_waiting [of ch s xs] assms by (auto simp: ps_waiting_def)

theorem ps_waits_for_key_frame_witness:
  "\<exists>s' outs. ps_run [Ps_Bitrate 0 2000000,
       Ps_Select 1 9 \<lparr>pkt_ts = 5, pkt_seq = 65535, pkt_marker = True, pkt_nackable = True, pkt_layers = None,
         pkt_meta = Vp8 False None None, pkt_data = []\<rparr>, Ps_Pop 2] (ps_new Video 2 2) = Inr (s', outs) \<and>
     (\<forall>q. Forwarded q \<notin> set outs)"
  by (rule ps_waits_for_key_frame [where ch = 9])
    (simp_all add: ps_wf_new ps_new_def pkt_wf_def meta_wf_def is_video_key_def ctx_wf_new ps_wf_def)

text \<open>
  Key-frame requests are rate limited: while a track stays on its channel, any two requests
  that it issues (from its own timer or from the codec's selector) are at least 100 ms apart,
  whatever the order of the calls and of their time stamps.
\<close>

theorem ps_key_requests_spaced:
  assumes "ps_wf s" "ps_selected_channel s = Some ch"
    and "\<forall>x\<in>set xs. op_wf x \<and> ps_channel_ok ch x \<and> ps_time x + 100 < 2 ^ 64"
    and "case ps_last_key_frame_ts s of None \<Rightarrow> True | Some l \<Rightarrow> l + 100 < 2 ^ 64"
  shows "sorted_wrt (\<lambda>a b. a + REQUEST_KEY_FRAME_INTERVAL_MS \<le> b) (ps_request_times xs s)"
  using ps_request_times_spaced [OF assms] by (simp add: REQUEST_KEY_FRAME_INTERVAL_MS_def)

theorem ps_key_requests_spaced_witness:
  "sorted_wrt (\<lambda>a b. a + REQUEST_KEY_FRAME_INTERVAL_MS \<le> b)
     (ps_request_times [Ps_Tick 50, Ps_Tick 120, Ps_Tick 230, Ps_Pop 230]
       (ps_new Video 2 2\<lparr>ps_selected_channel := Some 9, ps_need_key_frame := True, ps_last_key_frame_ts := Some 10\<rparr>))"
  by (rule ps_key_requests_spaced [where ch = 9]) (simp_all add: ps_wf_def ps_new_def ctx_wf_new)

text \<open>
  An audio track that is switched between speakers sends one gap-free stream: every packet
  of the input is forwarded and the output sequence numbers are consecutive (modulo \<open>2 ^ 16\<close>)
  across every change of channel, as long as the packets of one channel arrive in order between
  two changes; for fewer than \<open>2 ^ 47\<close> packets.
\<close>

theorem ps_audio_gap_free:
  assumes "audio_continues None xs" and "length xs < 2 ^ 47"
  shows "\<exists>s' qs. ps_run (map (\<lambda>(now, ch, p). Ps_Select now ch p) xs) (ps_new Audio m n) = Inr (s', map Forwarded qs) \<and>
     map pkt_seq qs = map (\<lambda>k. (1 + k) mod SEQ_MAX) [0..<length xs]"
proof -
  have "ps_audio_at None (length xs) (ps_new Audio m n)"
    using assms(2) ctx_wf_new [of Audio]
    by (simp add: ps_audio_at_def ps_wf_def ps_new_def ctx_new_def sr_default_def SEQ_MAX_def)
  from ps_audio_run [OF this assms(1)] show ?thesis
    by (simp add: ps_max_output_def ps_new_def ctx_new_def sr_default_def)
qed

theorem ps_audio_gap_free_witness:
  "\<exists>s' qs. ps_run [Ps_Select 0 1 (build_audio 0 65535 None []), Ps_Select 20 1 (build_audio 960 0 None []),
       Ps_Select 40 2 (build_audio 77 1234 None [])] (ps_new Audio 0 0) = Inr (s', map Forwarded qs) \<and>
     map pkt_seq qs = [1, 2, 3]"
proof -
  let ?xs = "[(0, 1, build_audio 0 65535 None []), (20, 1, build_audio 960 0 None []), (40, 2, build_audio 77 1234 None [])]
      :: (nat \<times> nat \<times> media_packet) list"
  have "audio_continues None ?xs" by (simp add: build_audio_def pkt_wf_def meta_wf_def SEQ_MAX_def)
  moreover have "length ?xs < 2 ^ 47" by simp
  ultimately obtain s' qs
    where run: "ps_run (map (\<lambda>(now, ch, p). Ps_Select now ch p) ?xs) (ps_new Audio 0 0) = Inr (s', map Forwarded qs)"
      and seqs: "map pkt_seq qs = map (\<lambda>k. (1 + k) mod SEQ_MAX) [0..<length ?xs]"
    using ps_audio_gap_free [of ?xs 0 0] by blast
  have "map (\<lambda>k. (1 + k) mod SEQ_MAX) [0..<length ?xs] = [1, 2, 3]" by (simp add: SEQ_MAX_def)
  then have "map pkt_seq qs = [1, 2, 3]" using seqs by (rule trans [rotated])
  then show ?thesis using run by (intro exI [of _ s'] exI [of _ qs]) (simp del: ps_run.simps)
qed

end
