(* ===== verification/Bitrate_Allocator.thy ===== *)
theory Bitrate_Allocator
  imports Index_Map
begin

text \<open>
  \<^verbatim>\<open>packages/media_core/src/endpoint/internal/bitrate_allocator.rs\<close> and its two parts
  \<^verbatim>\<open>egress.rs\<close>, \<^verbatim>\<open>ingress.rs\<close>: the bitrate budget of an endpoint is divided among its video tracks
  in proportion to their priorities. Track ids and priorities are \<open>nat\<close>s (\<^verbatim>\<open>u16\<close>, \<^verbatim>\<open>u32\<close>); the
  sum of the priorities and the products wrap as in the code.
\<close>

section \<open>Egress\<close>

definition DEFAULT_BITRATE_BPS :: nat where "DEFAULT_BITRATE_BPS = 800000"

definition NO_TRACK_BWE_CURRENT :: nat where "NO_TRACK_BWE_CURRENT = 100000"

definition NO_TRACK_BWE_DESIRED :: nat where "NO_TRACK_BWE_DESIRED = 300000"

datatype set_bitrate = SetBitrate nat

datatype egress_output = Eg_Track nat set_bitrate | Eg_BweConfig nat nat

record egress_allocator =
  eg_max_egress_bitrate :: nat
  eg_changed :: bool
  eg_egress_bitrate :: nat
  eg_tracks :: "(nat, nat) imap"
  eg_queue :: "egress_output list"

definition egress_new :: "nat \<Rightarrow> egress_allocator" where
  "egress_new max_egress_bitrate = \<lparr>eg_max_egress_bitrate = max_egress_bitrate, eg_changed = False,
     eg_egress_bitrate = DEFAULT_BITRATE_BPS, eg_tracks = [], eg_queue = []\<rparr>"

definition egress_set_egress_estimate :: "nat \<Rightarrow> egress_allocator \<Rightarrow> egress_allocator" where
  "egress_set_egress_estimate bitrate s = s\<lparr>eg_egress_bitrate := bitrate, eg_changed := True\<rparr>"

definition egress_set_video_track :: "nat \<Rightarrow> nat \<Rightarrow> egress_allocator \<Rightarrow> egress_allocator" where
  "egress_set_video_track track priority s = s\<lparr>eg_tracks := im_insert track priority (eg_tracks s), eg_changed := True\<rparr>"

definition egress_del_video_track :: "nat \<Rightarrow> egress_allocator \<Rightarrow> egress_allocator" where
  "egress_del_video_track track s = s\<lparr>eg_tracks := im_swap_remove track (eg_tracks s), eg_changed := True\<rparr>"

definition egress_pop_output :: "egress_allocator \<Rightarrow> egress_allocator \<times> egress_output option" where
  "egress_pop_output s = (case eg_queue s of [] \<Rightarrow> (s, None) | x # q \<Rightarrow> (s\<lparr>eg_queue := q\<rparr>, Some x))"

text \<open>The two loops that both directions share: the sum of the priorities, and a share for each
  track.\<close>

definition sum_priorities :: "(nat, nat) imap \<Rightarrow> nat" where
  "sum_priorities tracks = foldl (\<lambda>sum (track, priority). u32_add sum priority) 0 tracks"

definition share :: "nat \<Rightarrow> nat \<Rightarrow> nat \<Rightarrow> nat" where
  "share use_bitrate prio_sum priority = u64_mul use_bitrate priority div prio_sum"

definition egress_process :: "egress_allocator \<Rightarrow> egress_allocator" where
  "egress_process s =
     (if \<not> eg_changed s then s
      else
        (let s1 = s\<lparr>eg_changed := False\<rparr>;
             use_bitrate = min (eg_egress_bitrate s1) (eg_max_egress_bitrate s1);
             sum = sum_priorities (eg_tracks s1);
             s2 = (if sum \<noteq> 0
                   then s1\<lparr>eg_queue := eg_queue s1 @
                     map (\<lambda>(track, priority). Eg_Track track (SetBitrate (share use_bitrate sum priority))) (eg_tracks s1)\<rparr>
                   else s1)
         in if eg_tracks s2 \<noteq> []
            then s2\<lparr>eg_queue := eg_queue s2 @
              [Eg_BweConfig use_bitrate (min (u64_mul use_bitrate 6 div 5) (eg_max_egress_bitrate s2))]\<rparr>
            else s2\<lparr>eg_queue := eg_queue s2 @ [Eg_BweConfig NO_TRACK_BWE_CURRENT NO_TRACK_BWE_DESIRED]\<rparr>))"

definition egress_on_tick :: "egress_allocator \<Rightarrow> egress_allocator" where
  "egress_on_tick s = egress_process s"

section \<open>Ingress\<close>

record ingress_allocator =
  ig_changed :: bool
  ig_ingress_bitrate :: nat
  ig_tracks :: "(nat, nat) imap"
  ig_queue :: "(nat \<times> set_bitrate) list"

definition ingress_new :: "nat \<Rightarrow> ingress_allocator" where
  "ingress_new ingress_bitrate = \<lparr>ig_changed = False, ig_ingress_bitrate = ingress_bitrate, ig_tracks = [], ig_queue = []\<rparr>"

definition ingress_set_video_track :: "nat \<Rightarrow> nat \<Rightarrow> ingress_allocator \<Rightarrow> ingress_allocator" where
  "ingress_set_video_track track priority s = s\<lparr>ig_tracks := im_insert track priority (ig_tracks s), ig_changed := True\<rparr>"

definition ingress_del_video_track :: "nat \<Rightarrow> ingress_allocator \<Rightarrow> ingress_allocator" where
  "ingress_del_video_track track s = s\<lparr>ig_tracks := im_swap_remove track (ig_tracks s), ig_changed := True\<rparr>"

definition ingress_pop_output :: "ingress_allocator \<Rightarrow> ingress_allocator \<times> (nat \<times> set_bitrate) option" where
  "ingress_pop_output s = (case ig_queue s of [] \<Rightarrow> (s, None) | x # q \<Rightarrow> (s\<lparr>ig_queue := q\<rparr>, Some x))"

definition ingress_process :: "ingress_allocator \<Rightarrow> ingress_allocator" where
  "ingress_process s =
     (if \<not> ig_changed s then s
      else
        (let s1 = s\<lparr>ig_changed := False\<rparr>; sum = sum_priorities (ig_tracks s1)
         in if sum \<noteq> 0
            then s1\<lparr>ig_queue := ig_queue s1 @
              map (\<lambda>(track, priority). (track, SetBitrate (share (ig_ingress_bitrate s1) sum priority))) (ig_tracks s1)\<rparr>
            else s1))"

definition ingress_on_tick :: "ingress_allocator \<Rightarrow> ingress_allocator" where
  "ingress_on_tick s = ingress_process s"

section \<open>The allocator of an endpoint\<close>

datatype allocator_output =
    Ba_RemoteTrack nat set_bitrate
  | Ba_LocalTrack nat set_bitrate
  | Ba_BweConfig nat nat

record bitrate_allocator =
  ba_egress :: egress_allocator
  ba_ingress :: ingress_allocator

definition ba_new :: "nat \<Rightarrow> nat \<Rightarrow> bitrate_allocator" where
  "ba_new max_ingress_bitrate max_egress_bitrate =
     \<lparr>ba_egress = egress_new max_egress_bitrate, ba_ingress = ingress_new max_ingress_bitrate\<rparr>"

definition ba_on_tick :: "bitrate_allocator \<Rightarrow> bitrate_allocator" where
  "ba_on_tick s = s\<lparr>ba_egress := egress_on_tick (ba_egress s), ba_ingress := ingress_on_tick (ba_ingress s)\<rparr>"

definition ba_set_egress_estimate :: "nat \<Rightarrow> bitrate_allocator \<Rightarrow> bitrate_allocator" where
  "ba_set_egress_estimate b s = s\<lparr>ba_egress := egress_set_egress_estimate b (ba_egress s)\<rparr>"

definition ba_set_egress_video_track :: "nat \<Rightarrow> nat \<Rightarrow> bitrate_allocator \<Rightarrow> bitrate_allocator" where
  "ba_set_egress_video_track t p s = s\<lparr>ba_egress := egress_set_video_track t p (ba_egress s)\<rparr>"

definition ba_del_egress_video_track :: "nat \<Rightarrow> bitrate_allocator \<Rightarrow> bitrate_allocator" where
  "ba_del_egress_video_track t s = s\<lparr>ba_egress := egress_del_video_track t (ba_egress s)\<rparr>"

definition ba_set_ingress_video_track :: "nat \<Rightarrow> nat \<Rightarrow> bitrate_allocator \<Rightarrow> bitrate_allocator" where
  "ba_set_ingress_video_track t p s = s\<lparr>ba_ingress := ingress_set_video_track t p (ba_ingress s)\<rparr>"

definition ba_del_ingress_video_track :: "nat \<Rightarrow> bitrate_allocator \<Rightarrow> bitrate_allocator" where
  "ba_del_ingress_video_track t s = s\<lparr>ba_ingress := ingress_del_video_track t (ba_ingress s)\<rparr>"

definition ba_pop_output :: "bitrate_allocator \<Rightarrow> bitrate_allocator \<times> allocator_output option" where
  "ba_pop_output s = (case egress_pop_output (ba_egress s) of
     (e, Some (Eg_Track t a)) \<Rightarrow> (s\<lparr>ba_egress := e\<rparr>, Some (Ba_LocalTrack t a))
   | (e, Some (Eg_BweConfig c d)) \<Rightarrow> (s\<lparr>ba_egress := e\<rparr>, Some (Ba_BweConfig c d))
   | (e, None) \<Rightarrow>
       (case ingress_pop_output (ba_ingress s) of
          (i, None) \<Rightarrow> (s\<lparr>ba_egress := e, ba_ingress := i\<rparr>, None)
        | (i, Some (t, a)) \<Rightarrow> (s\<lparr>ba_egress := e, ba_ingress := i\<rparr>, Some (Ba_RemoteTrack t a))))"

text \<open>Polling until nothing is left: everything the allocator has to say, in order.\<close>

definition ba_pending :: "bitrate_allocator \<Rightarrow> nat" where
  "ba_pending s = length (eg_queue (ba_egress s)) + length (ig_queue (ba_ingress s))"

lemma ba_pop_less: "(s1, Some x) = ba_pop_output s \<Longrightarrow> ba_pending s1 < ba_pending s"
  by (auto simp: ba_pending_def ba_pop_output_def egress_pop_output_def ingress_pop_output_def
      split: list.splits egress_output.splits prod.splits)

function ba_drain :: "bitrate_allocator \<Rightarrow> allocator_output list" where
  "ba_drain s = (case ba_pop_output s of (_, None) \<Rightarrow> [] | (s1, Some x) \<Rightarrow> x # ba_drain s1)"
  by pat_completeness auto
termination
  by (relation "measure ba_pending") (auto intro: ba_pop_less)

declare ba_drain.simps [simp del]

fun eg_message :: "egress_output \<Rightarrow> allocator_output" where
  "eg_message (Eg_Track t a) = Ba_LocalTrack t a"
| "eg_message (Eg_BweConfig c d) = Ba_BweConfig c d"

fun bitrate_of :: "set_bitrate \<Rightarrow> nat" where
  "bitrate_of (SetBitrate b) = b"

section \<open>Lemmas\<close>

definition total :: "(nat, nat) imap \<Rightarrow> nat" where
  "total tracks = sum_list (map snd tracks)"

lemma sum_priorities_eq: "total tracks < 2 ^ 32 \<Longrightarrow> sum_priorities tracks = total tracks"
proof -
  have "a + total tracks < 2 ^ 32 \<Longrightarrow>
      foldl (\<lambda>sum (track, priority). u32_add sum priority) a tracks = a + total tracks" for a
    by (induction tracks arbitrary: a) (auto simp: total_def)
  from this [of 0] show "total tracks < 2 ^ 32 \<Longrightarrow> ?thesis" by (simp add: sum_priorities_def)
qed

text \<open>Rounding down every share loses less than one unit for each track.\<close>

lemma sum_shares_le: "(\<Sum>(t, p)\<leftarrow>tracks. B * p div S) \<le> B * total tracks div (S::nat)"
proof (induction tracks)
  case Nil
  then show ?case by simp
next
  case (Cons a tracks)
  obtain t p where "a = (t, p)" by fastforce
  moreover have "B * p div S + B * total tracks div S \<le> (B * p + B * total tracks) div S"
    by (cases "S = 0") (simp_all add: div_add1_eq [of "B * p" "B * total tracks"])
  ultimately show ?case using Cons by (simp add: total_def algebra_simps)
qed

lemma sum_shares_ge:
  assumes "0 < (S::nat)"
  shows "B * total tracks < S * ((\<Sum>(t, p)\<leftarrow>tracks. B * p div S) + length tracks) \<or> tracks = []"
proof (induction tracks)
  case Nil
  then show ?case by simp
next
  case (Cons a tracks)
  obtain t p where a: "a = (t, p)" by fastforce
  have "B * p < S * (B * p div S + 1)" using dividend_less_times_div [OF assms, of "B * p"] by simp
  then show ?case using Cons a by (auto simp: total_def algebra_simps)
qed

lemma share_eq: "B * p < 2 ^ 64 \<Longrightarrow> share B S p = B * p div S"
  by (simp add: share_def)

lemma prio_le_total: "(t, p) \<in> set tracks \<Longrightarrow> p \<le> total tracks"
  by (induction tracks) (auto simp: total_def)

lemma shares_exact:
  assumes "total tracks < 2 ^ 32" "B < 2 ^ 32"
  shows "map (\<lambda>(t, p). share B (sum_priorities tracks) p) tracks = map (\<lambda>(t, p). B * p div total tracks) tracks"
proof -
  have "share B (total tracks) p = B * p div total tracks" if "(t, p) \<in> set tracks" for t p
  proof -
    have "B * p \<le> B * total tracks" using prio_le_total [OF that] by simp
    also have "\<dots> < 2 ^ 32 * 2 ^ 32" using assms by (intro mult_strict_mono) auto
    finally show ?thesis by (simp add: share_eq)
  qed
  then show ?thesis using assms by (auto simp: sum_priorities_eq)
qed

lemma ba_drain_eq: "ba_drain s = map eg_message (eg_queue (ba_egress s)) @
    map (\<lambda>(t, a). Ba_RemoteTrack t a) (ig_queue (ba_ingress s))"
proof (induction s rule: ba_drain.induct)
  case (1 s)
  show ?case
  proof (cases "eg_queue (ba_egress s)")
    case (Cons x q)
    then show ?thesis using 1 ba_drain.simps [of s]
      by (cases x) (simp_all add: ba_pop_output_def egress_pop_output_def)
  next
    case Nil
    then show ?thesis using 1 ba_drain.simps [of s]
      by (cases "ig_queue (ba_ingress s)")
        (auto simp: ba_pop_output_def egress_pop_output_def ingress_pop_output_def)
  qed
qed

section \<open>Properties\<close>

text \<open>
  C30. The egress budget is divided fairly and never exceeded: when something has changed and
  some priority is set, a tick queues, in table order, exactly one bitrate for every video track,
  namely the rounded-down share of the budget that its priority has, then the pacer's
  configuration. The shares add up to at most the budget, which is the smaller of the estimate
  and the configured maximum, and fall short of it by less than one bit per second for each
  track. Priorities must sum to less than \<open>2 ^ 32\<close> and the budget must be below \<open>2 ^ 32\<close>.
\<close>

theorem egress_budget:
  assumes "eg_changed s" and "0 < total (eg_tracks s)" "total (eg_tracks s) < 2 ^ 32"
    and B: "B = min (eg_egress_bitrate s) (eg_max_egress_bitrate s)" "B < 2 ^ 32"
  defines "shares \<equiv> map (\<lambda>(t, p). (t, B * p div total (eg_tracks s))) (eg_tracks s)"
  shows "eg_queue (egress_on_tick s) = eg_queue s @ map (\<lambda>(t, b). Eg_Track t (SetBitrate b)) shares @
       [Eg_BweConfig B (min (B * 6 div 5) (eg_max_egress_bitrate s))] \<and>
     sum_list (map snd shares) \<le> B \<and> B < sum_list (map snd shares) + length (eg_tracks s)"
proof (intro conjI)
  let ?T = "eg_tracks s" and ?S = "total (eg_tracks s)"
  have S: "sum_priorities ?T = ?S" using assms(3) by (rule sum_priorities_eq)
  have ne: "?T \<noteq> []" using assms(2) by (auto simp: total_def)
  have eq: "map (\<lambda>(t, p). share B ?S p) ?T = map (\<lambda>(t, p). B * p div ?S) ?T"
    using shares_exact [OF assms(3) B(2)] S by simp
  then have "map (\<lambda>(t, p). Eg_Track t (SetBitrate (share B ?S p))) ?T =
      map (\<lambda>(t, b). Eg_Track t (SetBitrate b)) shares"
    by (auto simp: shares_def)
  moreover have "u64_mul B 6 = B * 6" using B(2) by simp
  ultimately show "eg_queue (egress_on_tick s) = eg_queue s @ map (\<lambda>(t, b). Eg_Track t (SetBitrate b)) shares @
       [Eg_BweConfig B (min (B * 6 div 5) (eg_max_egress_bitrate s))]"
    using assms(1,2) ne S by (simp add: egress_on_tick_def egress_process_def Let_def B(1) [symmetric])
  have sum: "sum_list (map snd shares) = (\<Sum>(t, p)\<leftarrow>?T. B * p div ?S)"
    by (simp add: shares_def comp_def case_prod_unfold)
  show "sum_list (map snd shares) \<le> B"
    using sum_shares_le [of B ?S ?T] assms(2) by (simp add: sum)
  have "?S * B < ?S * (sum_list (map snd shares) + length ?T)"
    using sum_shares_ge [of ?S B ?T] assms(2) ne by (simp add: sum mult.commute)
  then show "B < sum_list (map snd shares) + length ?T" by simp
qed

theorem egress_budget_witness:
  "eg_queue (egress_on_tick (egress_set_video_track 2 3 (egress_set_video_track 1 1 (egress_new 700001)))) =
     [Eg_Track 1 (SetBitrate 175000), Eg_Track 2 (SetBitrate 525000), Eg_BweConfig 700001 700001]"
proof -
  let ?s = "egress_set_video_track 2 3 (egress_set_video_track 1 1 (egress_new 700001))"
  have s: "eg_changed ?s" "eg_tracks ?s = [(1, 1), (2, 3)]" "eg_queue ?s = []" "eg_egress_bitrate ?s = 800000"
    "eg_max_egress_bitrate ?s = 700001"
    by (simp_all add: egress_set_video_track_def egress_new_def DEFAULT_BITRATE_BPS_def)
  have "700001 = min (eg_egress_bitrate ?s) (eg_max_egress_bitrate ?s)" unfolding s by simp
  from egress_budget [OF s(1) _ _ this] show ?thesis unfolding s by (simp add: total_def)
qed

text \<open>
  The priorities are summed in 32 bits: when they overflow, tracks are given more than the
  whole budget. Two tracks whose priorities add up to \<open>2 ^ 32 + 1\<close> are each assigned about two
  billion times the budget.
\<close>

theorem egress_priority_overflow:
  "eg_queue (egress_on_tick (egress_set_video_track 2 (2 ^ 31 + 1) (egress_set_video_track 1 (2 ^ 31) (egress_new 1000)))) =
     [Eg_Track 1 (SetBitrate (1000 * 2 ^ 31)), Eg_Track 2 (SetBitrate (1000 * (2 ^ 31 + 1))), Eg_BweConfig 1000 1000]"
  by (simp add: egress_set_video_track_def egress_new_def DEFAULT_BITRATE_BPS_def egress_on_tick_def egress_process_def
      sum_priorities_def u32_add_def share_def u64_mul_def)

text \<open>
  Nothing is lost between the allocator and the endpoint: after a tick, polling until the
  allocator is empty delivers every queued egress message first, in order, and then every
  ingress share, each converted to the message of its direction; polling terminates.
\<close>

theorem ba_drain_complete:
  "ba_drain (ba_on_tick s) = map eg_message (eg_queue (egress_process (ba_egress s))) @
     map (\<lambda>(t, a). Ba_RemoteTrack t a) (ig_queue (ingress_process (ba_ingress s)))"
  by (simp add: ba_drain_eq ba_on_tick_def egress_on_tick_def ingress_on_tick_def)

end
