(* ===== verification/Cluster_Types.thy ===== *)
theory Cluster_Types
  imports Media_Types
begin

text \<open>
  The vocabulary of the cluster: \<^verbatim>\<open>packages/protocol/src/endpoint.rs\<close> (peers, tracks, mixer
  configuration), \<^verbatim>\<open>packages/media_core/src/cluster.rs\<close> (messages between endpoints and rooms)
  and \<^verbatim>\<open>packages/media_core/src/cluster/id_generator.rs\<close> (the ids of channels and maps).

  What the cluster calls but does not contain is the record \<open>env\<close> of parameters: the hash of
  \<^verbatim>\<open>DefaultHasher\<close> (its algorithm is unspecified), the bincode codecs of the packets, and the
  feedback type \<open>'f\<close> of the network layer with its accessors. The control and event types of the
  network's publish/subscribe and key-value features list the cases that this code uses.
\<close>

section \<open>Protocol data\<close>

type_synonym peer_id = string

type_synonym track_name = string

type_synonym room_hash = nat

type_synonym bytes = "8 word list"

datatype bitrate_control_mode = MaxBitrate | DynamicConsumers

record peer_meta =
  pm_metadata :: "string option"
  pm_extra_data :: "string option"

record peer_info =
  pi_peer :: peer_id
  pi_meta :: peer_meta

record track_meta =
  tm_kind :: media_kind
  tm_scaling :: media_scaling
  tm_control :: bitrate_control_mode
  tm_metadata :: "string option"

definition default_audio :: track_meta where
  "default_audio = \<lparr>tm_kind = Audio, tm_scaling = Scaling_None, tm_control = MaxBitrate, tm_metadata = None\<rparr>"

record track_info =
  ti_peer :: peer_id
  ti_track :: track_name
  ti_meta :: track_meta

record track_source =
  tsrc_peer :: peer_id
  tsrc_track :: track_name

record room_info_publish =
  rip_peer :: bool
  rip_tracks :: bool

record room_info_subscribe =
  ris_peers :: bool
  ris_tracks :: bool

datatype audio_mixer_mode = Mixer_Auto | Mixer_Manual

record audio_mixer_config =
  amc_mode :: audio_mixer_mode
  amc_outputs :: "nat list"
  amc_sources :: "track_source list"

record audio_mixer_pkt =
  amp_slot :: nat
  amp_peer :: nat
  amp_track :: nat
  amp_audio_level :: "int option"
  amp_source :: "(peer_id \<times> track_name) option"
  amp_ts :: nat
  amp_seq :: nat
  amp_opus_payload :: bytes

record message_channel_packet =
  mcp_from :: peer_id
  mcp_data :: bytes

section \<open>Messages of the cluster\<close>

datatype cluster_remote_track_control =
    Crt_Started track_name track_meta
  | Crt_Media media_packet
  | Crt_Ended track_name track_meta

datatype cluster_remote_track_event = Cre_RequestKeyFrame | Cre_LimitBitrate nat nat

datatype cluster_local_track_control =
    Clt_Subscribe peer_id track_name
  | Clt_RequestKeyFrame
  | Clt_DesiredBitrate nat
  | Clt_Unsubscribe

datatype cluster_local_track_event = Cle_RelayChanged | Cle_SourceChanged | Cle_Media nat media_packet

datatype cluster_audio_mixer_control = Cam_Attach "track_source list" | Cam_Detach "track_source list"

datatype cluster_audio_mixer_event = Cae_SlotSet nat peer_id track_name | Cae_SlotUnset nat

datatype cluster_message_channel_control =
    Cmc_StartPublish
  | Cmc_StopPublish
  | Cmc_Subscribe
  | Cmc_Unsubscribe
  | Cmc_PublishData peer_id bytes

datatype cluster_endpoint_control =
    Cec_Join peer_id peer_meta room_info_publish room_info_subscribe "audio_mixer_config option"
  | Cec_Leave
  | Cec_SubscribePeer peer_id
  | Cec_UnsubscribePeer peer_id
  | Cec_AudioMixer cluster_audio_mixer_control
  | Cec_RemoteTrack nat cluster_remote_track_control
  | Cec_LocalTrack nat cluster_local_track_control
  | Cec_MessageChannel string cluster_message_channel_control

datatype cluster_endpoint_event =
    Cee_PeerJoined peer_id peer_meta
  | Cee_PeerLeaved peer_id peer_meta
  | Cee_TrackStarted peer_id track_name track_meta
  | Cee_TrackStopped peer_id track_name track_meta
  | Cee_AudioMixer cluster_audio_mixer_event
  | Cee_RemoteTrack nat cluster_remote_track_event
  | Cee_LocalTrack nat cluster_local_track_event
  | Cee_MessageChannelData string peer_id bytes

section \<open>The network's features\<close>

datatype 'f channel_control = SubAuto | UnsubAuto | FeedbackAuto 'f | PubStart | PubStop | PubData bytes

datatype 'f channel_event = RouteChanged nat | SourceData nat bytes | FeedbackData 'f

datatype map_control = Map_Set nat bytes | Map_Del nat | Map_Sub | Map_Unsub

datatype map_event = Map_OnSet nat nat bytes | Map_OnDel nat nat | Map_OnRelaySelected nat

text \<open>The parts of a room report to it in the same vocabulary (\<^verbatim>\<open>Output\<close> of \<^verbatim>\<open>media_track.rs\<close>,
  \<^verbatim>\<open>message_channel.rs\<close> and \<^verbatim>\<open>audio_mixer.rs\<close>).\<close>

datatype ('e, 'f) mt_output =
    Mt_Endpoint "'e list" cluster_endpoint_event
  | Mt_Pubsub nat "'f channel_control"
  | Mt_OnResourceEmpty

section \<open>Parameters of the model\<close>

datatype hash_item = Hash_Num nat | Hash_Str string

record 'f cluster_env =
  env_hash :: "hash_item list \<Rightarrow> nat"
  env_media_ser :: "media_packet \<Rightarrow> bytes"
  env_media_de :: "bytes \<Rightarrow> media_packet option"
  env_mixer_ser :: "audio_mixer_pkt \<Rightarrow> bytes"
  env_mixer_de :: "bytes \<Rightarrow> audio_mixer_pkt option"
  env_msg_ser :: "message_channel_packet \<Rightarrow> bytes"
  env_msg_de :: "bytes \<Rightarrow> message_channel_packet option"
  env_peer_ser :: "peer_info \<Rightarrow> bytes"
  env_peer_de :: "bytes \<Rightarrow> peer_info option"
  env_track_ser :: "track_info \<Rightarrow> bytes"
  env_track_de :: "bytes \<Rightarrow> track_info option"
  env_fb_kind :: "'f \<Rightarrow> nat"
  env_fb_min :: "'f \<Rightarrow> nat"
  env_fb_max :: "'f \<Rightarrow> nat"
  env_fb_simple :: "nat \<Rightarrow> nat \<Rightarrow> nat \<Rightarrow> nat \<Rightarrow> 'f"
  env_fb_add :: "'f \<Rightarrow> 'f \<Rightarrow> 'f"

text \<open>A concrete instance of the parameters, with which the theorems are exercised.\<close>

definition demo_env :: "nat cluster_env" where
  "demo_env = \<lparr>env_hash = (\<lambda>xs. foldl (\<lambda>a x. a * 31 + (case x of Hash_Num n \<Rightarrow> n | Hash_Str s \<Rightarrow> length s)) 7 xs),
     env_media_ser = (\<lambda>p. [of_nat (pkt_seq p)]),
     env_media_de = (\<lambda>b. case b of [w] \<Rightarrow> Some (build_audio 0 (unat w) None []) | _ \<Rightarrow> None),
     env_mixer_ser = (\<lambda>p. [of_nat (amp_slot p)]),
     env_mixer_de = (\<lambda>b. case b of [w] \<Rightarrow> Some \<lparr>amp_slot = unat w, amp_peer = 1, amp_track = 4, amp_audio_level = None,
       amp_source = None, amp_ts = 0, amp_seq = 0, amp_opus_payload = []\<rparr> | _ \<Rightarrow> None),
     env_msg_ser = (\<lambda>_. []), env_msg_de = (\<lambda>_. None),
     env_peer_ser = (\<lambda>p. map (\<lambda>c. of_char c) (pi_peer p)),
     env_peer_de = (\<lambda>b. Some \<lparr>pi_peer = map (\<lambda>w. char_of (unat w)) b, pi_meta = \<lparr>pm_metadata = None, pm_extra_data = None\<rparr>\<rparr>),
     env_track_ser = (\<lambda>t. map (\<lambda>c. of_char c) (ti_track t)),
     env_track_de = (\<lambda>b. Some \<lparr>ti_peer = ''alice'', ti_track = map (\<lambda>w. char_of (unat w)) b, ti_meta = default_audio\<rparr>),
     env_fb_kind = (\<lambda>f. f), env_fb_min = (\<lambda>f. f), env_fb_max = (\<lambda>f. f),
     env_fb_simple = (\<lambda>k _ _ _. k), env_fb_add = (+)\<rparr>"

section \<open>Generated ids\<close>

definition room_hash_generate :: "'f cluster_env \<Rightarrow> string \<Rightarrow> string \<Rightarrow> room_hash" where
  "room_hash_generate env app room = env_hash env [Hash_Str app, Hash_Str room]"

definition peer_hash_code :: "'f cluster_env \<Rightarrow> peer_id \<Rightarrow> nat" where
  "peer_hash_code env peer = env_hash env [Hash_Str peer]"

definition peer_map :: "'f cluster_env \<Rightarrow> room_hash \<Rightarrow> peer_id \<Rightarrow> nat" where
  "peer_map env room peer = env_hash env [Hash_Num room, Hash_Str peer]"

definition peers_map :: "room_hash \<Rightarrow> nat" where
  "peers_map room = room"

definition peers_key :: "'f cluster_env \<Rightarrow> peer_id \<Rightarrow> nat" where
  "peers_key env peer = env_hash env [Hash_Str peer]"

definition tracks_map :: "room_hash \<Rightarrow> nat" where
  "tracks_map room = u64_add room 1"

definition tracks_key :: "'f cluster_env \<Rightarrow> peer_id \<Rightarrow> track_name \<Rightarrow> nat" where
  "tracks_key env peer track = env_hash env [Hash_Str peer, Hash_Str track]"

definition gen_track_channel_id :: "'f cluster_env \<Rightarrow> room_hash \<Rightarrow> peer_id \<Rightarrow> track_name \<Rightarrow> nat" where
  "gen_track_channel_id env room peer track = env_hash env [Hash_Num room, Hash_Str peer, Hash_Str track]"

definition gen_msg_channel_id :: "'f cluster_env \<Rightarrow> room_hash \<Rightarrow> string \<Rightarrow> nat" where
  "gen_msg_channel_id env room label = env_hash env [Hash_Num room, Hash_Str label, Hash_Str ''message_channel'']"

definition gen_mixer_auto_channel_id :: "'f cluster_env \<Rightarrow> room_hash \<Rightarrow> nat" where
  "gen_mixer_auto_channel_id env room = env_hash env [Hash_Num room, Hash_Str ''mixer_auto'']"

section \<open>The life of a channel\<close>

text \<open>
  The network expects a client to open a channel before it uses it, and to close every channel it
  has opened exactly once. \<open>sessions A cs\<close> runs the controls \<open>cs\<close>, each classified as opening,
  using or closing a channel, from the set \<open>A\<close> of open channels, and fails on a violation.
\<close>

datatype session_act = Opens | Uses | Closes

fun sessions :: "'c set \<Rightarrow> ('c \<times> session_act) list \<Rightarrow> 'c set option" where
  "sessions A [] = Some A"
| "sessions A ((c, Opens) # cs) = (if c \<in> A then None else sessions (insert c A) cs)"
| "sessions A ((c, Uses) # cs) = (if c \<in> A then sessions A cs else None)"
| "sessions A ((c, Closes) # cs) = (if c \<in> A then sessions (A - {c}) cs else None)"

fun pub_act :: "'f channel_control \<Rightarrow> session_act option" where
  "pub_act PubStart = Some Opens"
| "pub_act PubStop = Some Closes"
| "pub_act (PubData _) = Some Uses"
| "pub_act _ = None"

fun sub_act :: "'f channel_control \<Rightarrow> session_act option" where
  "sub_act SubAuto = Some Opens"
| "sub_act UnsubAuto = Some Closes"
| "sub_act (FeedbackAuto _) = Some Uses"
| "sub_act _ = None"

lemma sessions_append: "sessions A (xs @ ys) = (case sessions A xs of None \<Rightarrow> None | Some B \<Rightarrow> sessions B ys)"
  by (induction A xs rule: sessions.induct) auto

definition mt_ctls :: "('f channel_control \<Rightarrow> session_act option) \<Rightarrow> ('e, 'f) mt_output list \<Rightarrow> (nat \<times> session_act) list" where
  "mt_ctls act os = List.map_filter (\<lambda>x. case x of Mt_Pubsub c ctl \<Rightarrow> map_option (Pair c) (act ctl) | _ \<Rightarrow> None) os"

lemma mt_ctls_append [simp]: "mt_ctls act (xs @ ys) = mt_ctls act xs @ mt_ctls act ys"
  by (simp add: mt_ctls_def List.map_filter_def)

lemma mt_ctls_simps [simp]:
  "mt_ctls act [] = []"
  "mt_ctls act [Mt_Pubsub c ctl] = (case act ctl of None \<Rightarrow> [] | Some a \<Rightarrow> [(c, a)])"
  "mt_ctls act (map (\<lambda>(e, t). Mt_Endpoint [e] (f e t)) xs) = []"
  by (auto simp: mt_ctls_def List.map_filter_def filter_empty_conv split: option.splits)

lemma fold_sessions:
  assumes step: "\<And>x s. ok s \<Longrightarrow> ok (f x s) \<and> (\<exists>cs. emitted (f x s) = emitted s @ cs \<and> sessions (held s) cs = Some (held (f x s)))"
    and "ok s"
  shows "ok (fold f xs s) \<and> (\<exists>cs. emitted (fold f xs s) = emitted s @ cs \<and> sessions (held s) cs = Some (held (fold f xs s)))"
  using assms(2)
proof (induction xs arbitrary: s)
  case (Cons x xs)
  obtain cs where "ok (f x s)" "emitted (f x s) = emitted s @ cs" "sessions (held s) cs = Some (held (f x s))"
    using step [OF Cons.prems, of x] by blast
  moreover obtain ds where "ok (fold f xs (f x s))" "emitted (fold f xs (f x s)) = emitted (f x s) @ ds"
      "sessions (held (f x s)) ds = Some (held (fold f xs (f x s)))" using Cons.IH [OF calculation(1)] by blast
  ultimately show ?case by (intro conjI exI [of _ "cs @ ds"]) (simp_all add: sessions_append)
qed simp

lemma sessions_close_all: "distinct xs \<Longrightarrow> sessions (A \<union> set xs) (map (\<lambda>c. (c, Closes)) xs) = Some (A - set xs)"
proof (induction xs arbitrary: A)
  case (Cons x xs)
  have "insert x (A \<union> set xs) - {x} = (A - {x}) \<union> set xs" "A - {x} - set xs = A - insert x (set xs)"
    using Cons.prems by auto
  then show ?case using Cons.IH [of "A - {x}"] Cons.prems by simp
qed simp

text \<open>
  The interface of a component that manages channels: every step emits controls that fit the set
  of channels it holds before and after, as long as the step is admissible in its state. Then
  every run of admissible steps is a correct series of sessions.
\<close>

definition in_session :: "('s \<Rightarrow> ('c \<times> session_act) list) \<Rightarrow> ('s \<Rightarrow> 'c set) \<Rightarrow> ('s \<Rightarrow> bool) \<Rightarrow> 's \<Rightarrow> bool" where
  "in_session emitted held ok s \<longleftrightarrow> ok s \<and> sessions {} (emitted s) = Some (held s)"

text \<open>The same for a component of which the controls \<open>sent\<close> were already taken out.\<close>

definition logged :: "('s \<Rightarrow> ('c \<times> session_act) list) \<Rightarrow> ('s \<Rightarrow> 'c set) \<Rightarrow> ('s \<Rightarrow> bool) \<Rightarrow> ('c \<times> session_act) list \<Rightarrow> 's \<Rightarrow> bool" where
  "logged emitted held ok sent s \<longleftrightarrow> ok s \<and> sessions {} (sent @ emitted s) = Some (held s)"

lemma logged_pop:
  assumes "logged emitted held ok sent s" "emitted s = D @ emitted s'" "held s' = held s" "ok s'"
  shows "logged emitted held ok (sent @ D) s'"
  using assms by (simp add: logged_def)

locale session_client =
  fixes step :: "'x \<Rightarrow> 's \<Rightarrow> 's run"
    and emitted :: "'s \<Rightarrow> ('c \<times> session_act) list"
    and held :: "'s \<Rightarrow> 'c set"
    and ok :: "'s \<Rightarrow> bool"
    and admits :: "'x \<Rightarrow> 's \<Rightarrow> bool"
  assumes step_ok: "ok s \<Longrightarrow> admits x s \<Longrightarrow>
     \<exists>s' cs. step x s = Inr s' \<and> ok s' \<and> emitted s' = emitted s @ cs \<and> sessions (held s) cs = Some (held s')"
begin

lemma step_in_session:
  assumes "in_session emitted held ok s" "admits x s"
  shows "\<exists>s'. step x s = Inr s' \<and> in_session emitted held ok s'"
proof -
  obtain s' cs where "step x s = Inr s'" "ok s'" "emitted s' = emitted s @ cs" "sessions (held s) cs = Some (held s')"
    using step_ok [of s x] assms by (auto simp: in_session_def)
  then show ?thesis using assms(1) by (simp add: in_session_def sessions_append)
qed

lemma step_logged:
  assumes "logged emitted held ok sent s" "admits x s"
  shows "\<exists>s'. step x s = Inr s' \<and> logged emitted held ok sent s'"
proof -
  obtain s' cs where "step x s = Inr s'" "ok s'" "emitted s' = emitted s @ cs" "sessions (held s) cs = Some (held s')"
    using step_ok [of s x] assms by (auto simp: logged_def)
  then show ?thesis using assms(1) sessions_append [of "{}" "sent @ emitted s" cs] by (simp add: logged_def)
qed

lemma run_sessions:
  "ok s \<Longrightarrow> admits_run admits step xs s \<Longrightarrow>
     \<exists>s' cs. rfold step xs s = Inr s' \<and> ok s' \<and> emitted s' = emitted s @ cs \<and> sessions (held s) cs = Some (held s')"
proof (induction xs arbitrary: s)
  case Nil
  then show ?case by simp
next
  case (Cons x xs)
  obtain s1 cs1 where s1: "step x s = Inr s1" "ok s1" "emitted s1 = emitted s @ cs1" "sessions (held s) cs1 = Some (held s1)"
    using step_ok [of s x] Cons.prems by auto
  moreover obtain s2 cs2 where "rfold step xs s1 = Inr s2" "ok s2" "emitted s2 = emitted s1 @ cs2"
    "sessions (held s1) cs2 = Some (held s2)"
    using Cons.IH [of s1] Cons.prems s1 by auto
  ultimately show ?case by (auto simp: sessions_append)
qed

end

end
