(* ===== verification/Media_Track.thy ===== *)
theory Media_Track
  imports Cluster_Types Index_Map
begin

text \<open>
  \<^verbatim>\<open>packages/media_core/src/cluster/room/media_track.rs\<close> with \<^verbatim>\<open>publisher.rs\<close> and
  \<^verbatim>\<open>subscriber.rs\<close>: the media channels of a room. The publisher owns one network channel for each
  published track, the subscriber one for each track that somebody in the room watches, shared by
  all watchers. \<open>tp_wf\<close> and \<open>ts_wf\<close> tie the two tables of each side together; both sides are
  interpretations of \<open>session_client\<close>, so every channel is opened before it is used and closed
  exactly once. Endpoints are a type parameter \<open>'e\<close>, instants are nanoseconds.
\<close>

section \<open>The publisher\<close>

datatype feedback_kind = Fb_Bitrate nat nat | Fb_KeyFrameRequest

definition feedback_kind_try_from :: "'f cluster_env \<Rightarrow> 'f \<Rightarrow> feedback_kind option" where
  "feedback_kind_try_from env fb =
     (if env_fb_kind env fb = 0 then Some (Fb_Bitrate (env_fb_min env fb) (env_fb_max env fb))
      else if env_fb_kind env fb = 1 then Some Fb_KeyFrameRequest else None)"

record ('e, 'f) room_channel_publisher =
  tp_room :: room_hash
  tp_tracks :: "('e \<times> nat, peer_id \<times> track_name \<times> nat) imap"
  tp_tracks_source :: "(nat, ('e \<times> nat) iset) imap"
  tp_queue :: "('e, 'f) mt_output list"

definition tp_new :: "room_hash \<Rightarrow> ('e, 'f) room_channel_publisher" where
  "tp_new room = \<lparr>tp_room = room, tp_tracks = [], tp_tracks_source = [], tp_queue = []\<rparr>"

definition tp_push :: "('e, 'f) mt_output list \<Rightarrow> ('e, 'f) room_channel_publisher \<Rightarrow> ('e, 'f) room_channel_publisher" where
  "tp_push os s = s\<lparr>tp_queue := tp_queue s @ os\<rparr>"

definition tp_on_track_feedback ::
  "'f cluster_env \<Rightarrow> nat \<Rightarrow> 'f \<Rightarrow> ('e, 'f) room_channel_publisher \<Rightarrow> ('e, 'f) room_channel_publisher" where
  "tp_on_track_feedback env channel fb s = (case feedback_kind_try_from env fb of None \<Rightarrow> s
     | Some kind \<Rightarrow> (case im_get (tp_tracks_source s) channel of None \<Rightarrow> s
        | Some sources \<Rightarrow> tp_push (map (\<lambda>(endpoint, track_id). Mt_Endpoint [endpoint] (Cee_RemoteTrack track_id
            (case kind of Fb_Bitrate lo hi \<Rightarrow> Cre_LimitBitrate lo hi | Fb_KeyFrameRequest \<Rightarrow> Cre_RequestKeyFrame))) sources) s))"

definition tp_on_track_publish ::
  "'f cluster_env \<Rightarrow> 'e \<Rightarrow> nat \<Rightarrow> peer_id \<Rightarrow> track_name \<Rightarrow> ('e, 'f) room_channel_publisher \<Rightarrow> ('e, 'f) room_channel_publisher" where
  "tp_on_track_publish env endpoint track peer name s =
     (let channel_id = gen_track_channel_id env (tp_room s) peer name;
          s1 = s\<lparr>tp_tracks := im_insert (endpoint, track) (peer, name, channel_id) (tp_tracks s)\<rparr>;
          sources = im_or (tp_tracks_source s1) channel_id [];
          s2 = (if sources = [] then tp_push [Mt_Pubsub channel_id PubStart] s1 else s1)
      in s2\<lparr>tp_tracks_source := im_insert channel_id (is_insert (endpoint, track) sources) (tp_tracks_source s2)\<rparr>)"

definition tp_on_track_data ::
  "'f cluster_env \<Rightarrow> 'e \<Rightarrow> nat \<Rightarrow> media_packet \<Rightarrow> ('e, 'f) room_channel_publisher \<Rightarrow> ('e, 'f) room_channel_publisher" where
  "tp_on_track_data env endpoint track media s = (case im_get (tp_tracks s) (endpoint, track) of None \<Rightarrow> s
     | Some (_, _, channel_id) \<Rightarrow> tp_push [Mt_Pubsub channel_id (PubData (env_media_ser env media))] s)"

definition tp_on_track_unpublish ::
  "'e \<Rightarrow> nat \<Rightarrow> ('e, 'f) room_channel_publisher \<Rightarrow> ('e, 'f) room_channel_publisher run" where
  "tp_on_track_unpublish endpoint track s = (case im_get (tp_tracks s) (endpoint, track) of None \<Rightarrow> Inr s
     | Some (peer, name, channel_id) \<Rightarrow>
         let s1 = s\<lparr>tp_tracks := im_swap_remove (endpoint, track) (tp_tracks s)\<rparr> in
         rbind (rexpect (im_get (tp_tracks_source s1) channel_id)) (\<lambda>sources.
         rbind (rassert ((endpoint, track) \<in> set sources)) (\<lambda>_.
         let left = is_swap_remove (endpoint, track) sources in
         if left = [] then
           rbind (rexpect (im_get (tp_tracks_source s1) channel_id)) (\<lambda>_.
           Inr (tp_push [Mt_Pubsub channel_id PubStop]
             (s1\<lparr>tp_tracks_source := im_swap_remove channel_id (tp_tracks_source s1)\<rparr>)))
         else Inr (s1\<lparr>tp_tracks_source := im_insert channel_id left (tp_tracks_source s1)\<rparr>))))"

definition tp_is_empty :: "('e, 'f) room_channel_publisher \<Rightarrow> bool" where
  "tp_is_empty s \<longleftrightarrow> tp_tracks s = [] \<and> tp_tracks_source s = [] \<and> tp_queue s = []"

definition tp_pop_output :: "('e, 'f) room_channel_publisher \<Rightarrow> ('e, 'f) room_channel_publisher \<times> ('e, 'f) mt_output option" where
  "tp_pop_output s = (case tp_queue s of [] \<Rightarrow> (s, None) | x # q \<Rightarrow> (s\<lparr>tp_queue := q\<rparr>, Some x))"

text \<open>\<^verbatim>\<open>Drop\<close> asserts that nothing is left.\<close>

definition tp_drop :: "('e, 'f) room_channel_publisher \<Rightarrow> unit run" where
  "tp_drop s = rbind (rassert (length (tp_queue s) = 0)) (\<lambda>_.
     rbind (rassert (length (tp_tracks s) = 0)) (\<lambda>_. rassert (length (tp_tracks_source s) = 0)))"

section \<open>The subscriber\<close>

definition BITRATE_FEEDBACK_INTERVAL :: nat where "BITRATE_FEEDBACK_INTERVAL = 100"

definition BITRATE_FEEDBACK_TIMEOUT :: nat where "BITRATE_FEEDBACK_TIMEOUT = 2000"

definition KEYFRAME_FEEDBACK_INTERVAL :: nat where "KEYFRAME_FEEDBACK_INTERVAL = 1000"

definition KEYFRAME_FEEDBACK_TIMEOUT :: nat where "KEYFRAME_FEEDBACK_TIMEOUT = 2000"

definition BITRATE_FEEDBACK_KIND :: nat where "BITRATE_FEEDBACK_KIND = 0"

definition KEYFRAME_FEEDBACK_KIND :: nat where "KEYFRAME_FEEDBACK_KIND = 1"

record ('e, 'f) channel_container =
  cc_endpoints :: "('e \<times> nat) list"
  cc_bitrate_fbs :: "('e, nat \<times> 'f) imap"

definition cc_default :: "('e, 'f) channel_container" where
  "cc_default = \<lparr>cc_endpoints = [], cc_bitrate_fbs = []\<rparr>"

record ('e, 'f) room_channel_subscribe =
  tu_room :: room_hash
  tu_channels :: "(nat, ('e, 'f) channel_container) imap"
  tu_subscribers :: "('e \<times> nat, nat \<times> peer_id \<times> track_name) imap"
  tu_queue :: "('e, 'f) mt_output list"

definition tu_new :: "room_hash \<Rightarrow> ('e, 'f) room_channel_subscribe" where
  "tu_new room = \<lparr>tu_room = room, tu_channels = [], tu_subscribers = [], tu_queue = []\<rparr>"

definition tu_push :: "('e, 'f) mt_output list \<Rightarrow> ('e, 'f) room_channel_subscribe \<Rightarrow> ('e, 'f) room_channel_subscribe" where
  "tu_push os s = s\<lparr>tu_queue := tu_queue s @ os\<rparr>"

definition tu_on_track_relay_changed ::
  "nat \<Rightarrow> nat \<Rightarrow> ('e, 'f) room_channel_subscribe \<Rightarrow> ('e, 'f) room_channel_subscribe" where
  "tu_on_track_relay_changed channel relay s = (case im_get (tu_channels s) channel of None \<Rightarrow> s
     | Some c \<Rightarrow> tu_push (map (\<lambda>(endpoint, track). Mt_Endpoint [endpoint] (Cee_LocalTrack track Cle_RelayChanged)) (cc_endpoints c)) s)"

definition tu_on_track_data ::
  "'f cluster_env \<Rightarrow> nat \<Rightarrow> bytes \<Rightarrow> ('e, 'f) room_channel_subscribe \<Rightarrow> ('e, 'f) room_channel_subscribe" where
  "tu_on_track_data env channel data s = (case env_media_de env data of None \<Rightarrow> s
     | Some pkt \<Rightarrow> (case im_get (tu_channels s) channel of None \<Rightarrow> s
        | Some c \<Rightarrow> tu_push (map (\<lambda>(endpoint, track). Mt_Endpoint [endpoint] (Cee_LocalTrack track (Cle_Media channel pkt))) (cc_endpoints c)) s))"

definition tu_on_track_subscribe ::
  "'f cluster_env \<Rightarrow> 'e \<Rightarrow> nat \<Rightarrow> peer_id \<Rightarrow> track_name \<Rightarrow> ('e, 'f) room_channel_subscribe \<Rightarrow> ('e, 'f) room_channel_subscribe" where
  "tu_on_track_subscribe env endpoint track target_peer target_track s =
     (let channel_id = gen_track_channel_id env (tu_room s) target_peer target_track;
          s1 = s\<lparr>tu_subscribers := im_insert (endpoint, track) (channel_id, target_peer, target_track) (tu_subscribers s)\<rparr>;
          c = im_or (tu_channels s1) channel_id cc_default;
          c1 = c\<lparr>cc_endpoints := cc_endpoints c @ [(endpoint, track)]\<rparr>;
          s2 = s1\<lparr>tu_channels := im_insert channel_id c1 (tu_channels s1)\<rparr>
      in if length (cc_endpoints c1) = 1 then tu_push [Mt_Pubsub channel_id SubAuto] s2 else s2)"

definition tu_on_track_request_key ::
  "'f cluster_env \<Rightarrow> 'e \<Rightarrow> nat \<Rightarrow> ('e, 'f) room_channel_subscribe \<Rightarrow> ('e, 'f) room_channel_subscribe" where
  "tu_on_track_request_key env endpoint track s = (case im_get (tu_subscribers s) (endpoint, track) of None \<Rightarrow> s
     | Some (channel_id, _, _) \<Rightarrow> tu_push [Mt_Pubsub channel_id (FeedbackAuto
         (env_fb_simple env KEYFRAME_FEEDBACK_KIND 1 KEYFRAME_FEEDBACK_INTERVAL KEYFRAME_FEEDBACK_TIMEOUT))] s)"

text \<open>The sum of all feedbacks, from the first one on.\<close>

fun sum_feedbacks :: "('f \<Rightarrow> 'f \<Rightarrow> 'f) \<Rightarrow> 'f list \<Rightarrow> 'f option" where
  "sum_feedbacks add [] = None"
| "sum_feedbacks add (f # fs) = Some (foldl add f fs)"

definition tu_on_track_desired_bitrate ::
  "'f cluster_env \<Rightarrow> nat \<Rightarrow> 'e \<Rightarrow> nat \<Rightarrow> nat \<Rightarrow> ('e, 'f) room_channel_subscribe \<Rightarrow> ('e, 'f) room_channel_subscribe" where
  "tu_on_track_desired_bitrate env now endpoint track bitrate s =
     (case im_get (tu_subscribers s) (endpoint, track) of None \<Rightarrow> s
      | Some (channel_id, _, _) \<Rightarrow>
          (case im_get (tu_channels s) channel_id of None \<Rightarrow> s
           | Some c \<Rightarrow>
               let fb = env_fb_simple env BITRATE_FEEDBACK_KIND bitrate BITRATE_FEEDBACK_INTERVAL BITRATE_FEEDBACK_TIMEOUT;
                   fbs = filter (\<lambda>(_, ts, _). (now - ts) div 1000000 < BITRATE_FEEDBACK_TIMEOUT) (im_insert endpoint (now, fb) (cc_bitrate_fbs c));
                   s1 = s\<lparr>tu_channels := im_insert channel_id (c\<lparr>cc_bitrate_fbs := fbs\<rparr>) (tu_channels s)\<rparr>
               in (case sum_feedbacks (env_fb_add env) (map (\<lambda>(_, _, f). f) fbs) of None \<Rightarrow> s1
                   | Some sum_fb \<Rightarrow> tu_push [Mt_Pubsub channel_id (FeedbackAuto sum_fb)] s1)))"

definition tu_on_track_unsubscribe ::
  "'e \<Rightarrow> nat \<Rightarrow> ('e, 'f) room_channel_subscribe \<Rightarrow> ('e, 'f) room_channel_subscribe" where
  "tu_on_track_unsubscribe endpoint track s = (case im_get (tu_subscribers s) (endpoint, track) of None \<Rightarrow> s
     | Some (channel_id, target_peer, target_track) \<Rightarrow>
         let s1 = s\<lparr>tu_subscribers := im_swap_remove (endpoint, track) (tu_subscribers s)\<rparr> in
         (case im_get (tu_channels s1) channel_id of None \<Rightarrow> s1
          | Some c \<Rightarrow>
              if (endpoint, track) \<in> set (cc_endpoints c) then
                (let left = swap_remove_key (\<lambda>x. x) (endpoint, track) (cc_endpoints c) in
                 if left = [] then tu_push [Mt_Pubsub channel_id UnsubAuto]
                   (s1\<lparr>tu_channels := im_swap_remove channel_id (tu_channels s1)\<rparr>)
                 else s1\<lparr>tu_channels := im_insert channel_id (c\<lparr>cc_endpoints := left\<rparr>) (tu_channels s1)\<rparr>)
              else s1))"

definition tu_is_empty :: "('e, 'f) room_channel_subscribe \<Rightarrow> bool" where
  "tu_is_empty s \<longleftrightarrow> tu_subscribers s = [] \<and> tu_channels s = [] \<and> tu_queue s = []"

definition tu_pop_output :: "('e, 'f) room_channel_subscribe \<Rightarrow> ('e, 'f) room_channel_subscribe \<times> ('e, 'f) mt_output option" where
  "tu_pop_output s = (case tu_queue s of [] \<Rightarrow> (s, None) | x # q \<Rightarrow> (s\<lparr>tu_queue := q\<rparr>, Some x))"

definition tu_drop :: "('e, 'f) room_channel_subscribe \<Rightarrow> unit run" where
  "tu_drop s = rbind (rassert (length (tu_queue s) = 0)) (\<lambda>_.
     rbind (rassert (length (tu_channels s) = 0)) (\<lambda>_. rassert (length (tu_subscribers s) = 0)))"

section \<open>Both sides together\<close>

record ('e, 'f) media_track =
  mt_publisher :: "('e, 'f) room_channel_publisher"
  mt_subscriber :: "('e, 'f) room_channel_subscribe"

definition mt_new :: "room_hash \<Rightarrow> ('e, 'f) media_track" where
  "mt_new room = \<lparr>mt_publisher = tp_new room, mt_subscriber = tu_new room\<rparr>"

definition mt_on_pubsub_event ::
  "'f cluster_env \<Rightarrow> nat \<Rightarrow> 'f channel_event \<Rightarrow> ('e, 'f) media_track \<Rightarrow> ('e, 'f) media_track" where
  "mt_on_pubsub_event env channel event s = (case event of
     RouteChanged next \<Rightarrow> s\<lparr>mt_subscriber := tu_on_track_relay_changed channel next (mt_subscriber s)\<rparr>
   | SourceData _ data \<Rightarrow> s\<lparr>mt_subscriber := tu_on_track_data env channel data (mt_subscriber s)\<rparr>
   | FeedbackData fb \<Rightarrow> s\<lparr>mt_publisher := tp_on_track_feedback env channel fb (mt_publisher s)\<rparr>)"

datatype 'e mt_call =
    Mt_Publish 'e nat peer_id track_name
  | Mt_Data 'e nat media_packet
  | Mt_Unpublish 'e nat
  | Mt_Subscribe 'e nat peer_id track_name
  | Mt_RequestKey 'e nat
  | Mt_DesiredBitrate nat 'e nat nat
  | Mt_Unsubscribe 'e nat

fun mt_on_call :: "'f cluster_env \<Rightarrow> 'e mt_call \<Rightarrow> ('e, 'f) media_track \<Rightarrow> ('e, 'f) media_track run" where
  "mt_on_call env (Mt_Publish e t p n) s = Inr (s\<lparr>mt_publisher := tp_on_track_publish env e t p n (mt_publisher s)\<rparr>)"
| "mt_on_call env (Mt_Data e t m) s = Inr (s\<lparr>mt_publisher := tp_on_track_data env e t m (mt_publisher s)\<rparr>)"
| "mt_on_call env (Mt_Unpublish e t) s = rbind (tp_on_track_unpublish e t (mt_publisher s)) (\<lambda>p. Inr (s\<lparr>mt_publisher := p\<rparr>))"
| "mt_on_call env (Mt_Subscribe e t p n) s = Inr (s\<lparr>mt_subscriber := tu_on_track_subscribe env e t p n (mt_subscriber s)\<rparr>)"
| "mt_on_call env (Mt_RequestKey e t) s = Inr (s\<lparr>mt_subscriber := tu_on_track_request_key env e t (mt_subscriber s)\<rparr>)"
| "mt_on_call env (Mt_DesiredBitrate now e t b) s = Inr (s\<lparr>mt_subscriber := tu_on_track_desired_bitrate env now e t b (mt_subscriber s)\<rparr>)"
| "mt_on_call env (Mt_Unsubscribe e t) s = Inr (s\<lparr>mt_subscriber := tu_on_track_unsubscribe e t (mt_subscriber s)\<rparr>)"

definition mt_is_empty :: "('e, 'f) media_track \<Rightarrow> bool" where
  "mt_is_empty s \<longleftrightarrow> tp_is_empty (mt_publisher s) \<and> tu_is_empty (mt_subscriber s)"

text \<open>One round of the polling loop, for the child that the task switcher points to: a child's
  \<^verbatim>\<open>OnResourceEmpty\<close> is not forwarded.\<close>

datatype mt_task = Mt_Task_Publisher | Mt_Task_Subscriber

definition mt_pop_branch :: "mt_task \<Rightarrow> ('e, 'f) media_track \<Rightarrow> ('e, 'f) media_track \<times> ('e, 'f) mt_output option" where
  "mt_pop_branch task s =
     (let (s1, out) = (case task of
          Mt_Task_Publisher \<Rightarrow> (case tp_pop_output (mt_publisher s) of (p, x) \<Rightarrow> (s\<lparr>mt_publisher := p\<rparr>, x))
        | Mt_Task_Subscriber \<Rightarrow> (case tu_pop_output (mt_subscriber s) of (u, x) \<Rightarrow> (s\<lparr>mt_subscriber := u\<rparr>, x)))
      in (s1, case out of Some Mt_OnResourceEmpty \<Rightarrow> None | _ \<Rightarrow> out))"

definition mt_drop :: "('e, 'f) media_track \<Rightarrow> unit run" where
  "mt_drop s = rbind (rassert (tp_is_empty (mt_publisher s))) (\<lambda>_.
     rbind (rassert (tu_is_empty (mt_subscriber s))) (\<lambda>_.
     rbind (tp_drop (mt_publisher s)) (\<lambda>_. tu_drop (mt_subscriber s))))"

section \<open>Members and their channels\<close>

lemma swap_remove_key_keeps: "x \<in> set xs \<Longrightarrow> f x \<noteq> k \<Longrightarrow> x \<in> set (swap_remove_key f k xs)"
proof (induction xs)
  case (Cons y ys)
  then show ?case using set_last_butlast [of ys] by (cases "f y = k") auto
qed simp

text \<open>The part of \<open>linked\<close> that survives when a member is filed under a second key before it was removed from
  the first: every member is listed under its key, and no list is empty.\<close>

definition covered :: "('m, 'k) imap \<Rightarrow> ('k, 'm list) imap \<Rightarrow> bool" where
  "covered ms ks \<longleftrightarrow> im_wf ms \<and> im_wf ks \<and>
     (\<forall>m k. im_get ms m = Some k \<longrightarrow> (\<exists>xs. im_get ks k = Some xs \<and> m \<in> set xs)) \<and> (\<forall>k xs. im_get ks k = Some xs \<longrightarrow> xs \<noteq> [])"

lemma coveredD:
  assumes "covered ms ks"
  shows "im_wf ms" "im_wf ks"
    and "im_get ms m = Some k \<Longrightarrow> \<exists>xs. im_get ks k = Some xs \<and> m \<in> set xs"
    and "im_get ks k = Some xs \<Longrightarrow> xs \<noteq> []"
  using assms by (simp_all add: covered_def)

lemma linked_covered: "linked ms ks \<Longrightarrow> covered ms ks"
  unfolding linked_def covered_def by blast

lemma covered_insert:
  assumes "covered ms ks" "m \<in> set xs" "set (im_or ks k []) \<subseteq> set xs"
  shows "covered (im_insert m k ms) (im_insert k xs ks)"
proof -
  note wf = coveredD(1,2) [OF assms(1)]
  have get: "im_get (im_insert m k ms) = (im_get ms)(m := Some k)" "im_get (im_insert k xs ks) = (im_get ks)(k := Some xs)"
    using wf by (simp_all add: list_upd)
  have "\<exists>ys. im_get (im_insert k xs ks) j = Some ys \<and> x \<in> set ys" if j: "im_get (im_insert m k ms) x = Some j" for x j
  proof (cases "x = m")
    case True
    then show ?thesis using j assms(2) unfolding get by auto
  next
    case False
    then obtain ys where ys: "im_get ks j = Some ys" "x \<in> set ys" using coveredD(3) [OF assms(1), of x j] j [unfolded get] by auto
    then show ?thesis using assms(3) unfolding get by (cases "j = k") auto
  qed
  moreover have "ys \<noteq> []" if "im_get (im_insert k xs ks) j = Some ys" for j ys
    using that coveredD(4) [OF assms(1), of j ys] assms(2) unfolding get by (auto split: if_splits)
  ultimately show ?thesis unfolding covered_def using wf by (simp add: list_upd)
qed

lemma covered_remove:
  assumes "covered ms ks" "im_get ms m = Some k" "im_get ks k = Some xs"
  shows "m \<in> set xs"
    and "covered (im_swap_remove m ms) (if is_swap_remove m xs = [] then im_swap_remove k ks else im_insert k (is_swap_remove m xs) ks)"
proof -
  note wf = coveredD(1,2) [OF assms(1)]
  show "m \<in> set xs" using coveredD(3) [OF assms(1,2)] assms(3) by auto
  have keep: "x \<in> set (is_swap_remove m xs)" if "im_get ms x = Some k" "x \<noteq> m" for x
    using coveredD(3) [OF assms(1) that(1)] that(2) assms(3) swap_remove_key_keeps [of x xs "\<lambda>x. x" m] by (simp add: is_swap_remove_def)
  then have gone: "im_get ms x \<noteq> Some k" if "is_swap_remove m xs = []" "x \<noteq> m" for x using that by force
  show "covered (im_swap_remove m ms) (if is_swap_remove m xs = [] then im_swap_remove k ks else im_insert k (is_swap_remove m xs) ks)"
    unfolding covered_def using wf keep gone coveredD(3,4) [OF assms(1)] by (auto simp: list_upd split: if_splits)
qed

section \<open>Steps and invariants\<close>

text \<open>The calls that reach the publisher and the subscriber.\<close>

datatype ('e, 'f) tp_op =
    Tp_Feedback nat 'f
  | Tp_Publish 'e nat peer_id track_name
  | Tp_Data 'e nat media_packet
  | Tp_Unpublish 'e nat

fun tp_step :: "'f cluster_env \<Rightarrow> ('e, 'f) tp_op \<Rightarrow> ('e, 'f) room_channel_publisher \<Rightarrow> ('e, 'f) room_channel_publisher run" where
  "tp_step env (Tp_Feedback c fb) s = Inr (tp_on_track_feedback env c fb s)"
| "tp_step env (Tp_Publish e t p n) s = Inr (tp_on_track_publish env e t p n s)"
| "tp_step env (Tp_Data e t m) s = Inr (tp_on_track_data env e t m s)"
| "tp_step env (Tp_Unpublish e t) s = tp_on_track_unpublish e t s"

datatype 'e tu_op =
    Tu_Relay nat nat
  | Tu_Data nat bytes
  | Tu_Subscribe 'e nat peer_id track_name
  | Tu_RequestKey 'e nat
  | Tu_DesiredBitrate nat 'e nat nat
  | Tu_Unsubscribe 'e nat

fun tu_step :: "'f cluster_env \<Rightarrow> 'e tu_op \<Rightarrow> ('e, 'f) room_channel_subscribe \<Rightarrow> ('e, 'f) room_channel_subscribe run" where
  "tu_step env (Tu_Relay c n) s = Inr (tu_on_track_relay_changed c n s)"
| "tu_step env (Tu_Data c d) s = Inr (tu_on_track_data env c d s)"
| "tu_step env (Tu_Subscribe e t p n) s = Inr (tu_on_track_subscribe env e t p n s)"
| "tu_step env (Tu_RequestKey e t) s = Inr (tu_on_track_request_key env e t s)"
| "tu_step env (Tu_DesiredBitrate now e t b) s = Inr (tu_on_track_desired_bitrate env now e t b s)"
| "tu_step env (Tu_Unsubscribe e t) s = Inr (tu_on_track_unsubscribe e t s)"

definition tp_wf :: "('e, 'f) room_channel_publisher \<Rightarrow> bool" where
  "tp_wf s \<longleftrightarrow> linked (im_map (\<lambda>(_, _, c). c) (tp_tracks s)) (tp_tracks_source s)"

definition tp_covered :: "('e, 'f) room_channel_publisher \<Rightarrow> bool" where
  "tp_covered s \<longleftrightarrow> covered (im_map (\<lambda>(_, _, c). c) (tp_tracks s)) (tp_tracks_source s)"

definition tp_held :: "('e, 'f) room_channel_publisher \<Rightarrow> nat set" where
  "tp_held s = fst ` set (tp_tracks_source s)"

text \<open>A published track is not published again under another name before it is unpublished.\<close>

fun tp_admits :: "'f cluster_env \<Rightarrow> ('e, 'f) tp_op \<Rightarrow> ('e, 'f) room_channel_publisher \<Rightarrow> bool" where
  "tp_admits env (Tp_Publish e t p n) s = (case im_get (tp_tracks s) (e, t) of None \<Rightarrow> True
     | Some (_, _, c) \<Rightarrow> c = gen_track_channel_id env (tp_room s) p n)"
| "tp_admits env _ s = True"

definition tu_wf :: "('e, 'f) room_channel_subscribe \<Rightarrow> bool" where
  "tu_wf s \<longleftrightarrow> linked (im_map fst (tu_subscribers s)) (im_map cc_endpoints (tu_channels s))"

definition tu_covered :: "('e, 'f) room_channel_subscribe \<Rightarrow> bool" where
  "tu_covered s \<longleftrightarrow> covered (im_map fst (tu_subscribers s)) (im_map cc_endpoints (tu_channels s))"

definition tu_held :: "('e, 'f) room_channel_subscribe \<Rightarrow> nat set" where
  "tu_held s = fst ` set (tu_channels s)"

text \<open>A local track unsubscribes before it subscribes to another source.\<close>

fun tu_admits :: "'e tu_op \<Rightarrow> ('e, 'f) room_channel_subscribe \<Rightarrow> bool" where
  "tu_admits (Tu_Subscribe e t p n) s = (im_get (tu_subscribers s) (e, t) = None)"
| "tu_admits _ s = True"

section \<open>Channel sessions\<close>

subsection \<open>The publisher\<close>

lemma tp_wfD:
  assumes "tp_wf s"
  shows "im_wf (tp_tracks s)" "im_wf (tp_tracks_source s)"
    and "im_get (tp_tracks s) x = Some (p, n, c) \<Longrightarrow> \<exists>xs. im_get (tp_tracks_source s) c = Some xs \<and> x \<in> set xs"
    and "im_get (tp_tracks_source s) c = Some xs \<Longrightarrow> xs \<noteq> []"
proof -
  note l = assms [unfolded tp_wf_def]
  show "im_wf (tp_tracks s)" "im_wf (tp_tracks_source s)" using linkedD(1,2) [OF l] by simp_all
  show "im_get (tp_tracks s) x = Some (p, n, c) \<Longrightarrow> \<exists>xs. im_get (tp_tracks_source s) c = Some xs \<and> x \<in> set xs"
    using linkedD(3) [OF l, of x c] by simp
  show "im_get (tp_tracks_source s) c = Some xs \<Longrightarrow> xs \<noteq> []" using linkedD(4) [OF l, of c xs] by simp
qed

lemma tp_wf_covered: "tp_wf s \<Longrightarrow> tp_covered s"
  unfolding tp_wf_def tp_covered_def by (rule linked_covered)

lemma tp_coveredD:
  assumes "tp_covered s"
  shows "im_wf (tp_tracks s)" "im_wf (tp_tracks_source s)"
    and "im_get (tp_tracks s) x = Some (p, n, c) \<Longrightarrow> \<exists>xs. im_get (tp_tracks_source s) c = Some xs \<and> x \<in> set xs"
    and "im_get (tp_tracks_source s) c = Some xs \<Longrightarrow> xs \<noteq> []"
proof -
  note l = assms [unfolded tp_covered_def]
  show "im_wf (tp_tracks s)" "im_wf (tp_tracks_source s)" using coveredD(1,2) [OF l] by simp_all
  show "im_get (tp_tracks s) x = Some (p, n, c) \<Longrightarrow> \<exists>xs. im_get (tp_tracks_source s) c = Some xs \<and> x \<in> set xs"
    using coveredD(3) [OF l, of x c] by simp
  show "im_get (tp_tracks_source s) c = Some xs \<Longrightarrow> xs \<noteq> []" using coveredD(4) [OF l, of c xs] by simp
qed

lemma tp_publish_covered: "tp_covered s \<Longrightarrow> tp_covered (tp_on_track_publish env e t p n s)"
proof -
  let ?c = "gen_track_channel_id env (tp_room s) p n" and ?xs = "is_insert (e, t) (im_or (tp_tracks_source s) (gen_track_channel_id env (tp_room s) p n) [])"
  assume "tp_covered s"
  moreover have "(e, t) \<in> set ?xs" "set (im_or (tp_tracks_source s) ?c []) \<subseteq> set ?xs" by (auto simp: is_insert_def)
  ultimately have "covered (im_insert (e, t) ?c (im_map (\<lambda>(_, _, c). c) (tp_tracks s))) (im_insert ?c ?xs (tp_tracks_source s))"
    unfolding tp_covered_def by (rule covered_insert)
  then show ?thesis by (cases "im_get (tp_tracks_source s) ?c") (auto simp: tp_covered_def tp_on_track_publish_def tp_push_def Let_def im_map_insert)
qed

lemma tp_publish_wf:
  assumes "tp_wf s" "tp_admits env (Tp_Publish e t p n) s"
  shows "tp_wf (tp_on_track_publish env e t p n s)"
proof -
  let ?c = "gen_track_channel_id env (tp_room s) p n"
  have "im_get (im_map (\<lambda>(_, _, c). c) (tp_tracks s)) (e, t) = None \<or>
      im_get (im_map (\<lambda>(_, _, c). c) (tp_tracks s)) (e, t) = Some ?c"
    using assms(2) by (auto split: option.splits)
  from linked_insert [OF assms(1) [unfolded tp_wf_def] this] show ?thesis
    by (cases "im_get (tp_tracks_source s) ?c")
      (auto simp: tp_wf_def tp_on_track_publish_def tp_push_def Let_def im_map_insert)
qed

lemma tp_publish_sessions:
  assumes "tp_covered s"
  shows "\<exists>cs. mt_ctls pub_act (tp_queue (tp_on_track_publish env e t p n s)) = mt_ctls pub_act (tp_queue s) @ cs \<and>
     sessions (tp_held s) cs = Some (tp_held (tp_on_track_publish env e t p n s))"
proof (cases "im_get (tp_tracks_source s) (gen_track_channel_id env (tp_room s) p n)")
  case None
  then show ?thesis using im_get_None_key [OF None]
    by (simp add: tp_on_track_publish_def tp_push_def tp_held_def Let_def im_keys_insert)
next
  case (Some xs)
  then show ?thesis using tp_coveredD(4) [OF assms Some] im_get_Some_key [OF Some]
    by (simp add: tp_on_track_publish_def tp_held_def Let_def im_keys_insert insert_absorb)
qed

lemma tp_data_tables [simp]: "tp_wf (tp_on_track_data env e t m s) = tp_wf s" "tp_covered (tp_on_track_data env e t m s) = tp_covered s"
  "tp_wf (tp_on_track_feedback env c fb s) = tp_wf s" "tp_covered (tp_on_track_feedback env c fb s) = tp_covered s"
  by (auto simp: tp_on_track_data_def tp_on_track_feedback_def tp_push_def tp_wf_def tp_covered_def split: option.split)

lemma tp_feedback_sessions:
  "\<exists>cs. mt_ctls pub_act (tp_queue (tp_on_track_feedback env c fb s)) = mt_ctls pub_act (tp_queue s) @ cs \<and>
     sessions (tp_held s) cs = Some (tp_held (tp_on_track_feedback env c fb s))"
  by (auto simp: tp_on_track_feedback_def tp_push_def tp_held_def split: option.splits intro!: exI [of _ "[]"])

lemma tp_data_sessions:
  assumes "tp_covered s"
  shows "\<exists>cs. mt_ctls pub_act (tp_queue (tp_on_track_data env e t m s)) = mt_ctls pub_act (tp_queue s) @ cs \<and>
     sessions (tp_held s) cs = Some (tp_held (tp_on_track_data env e t m s))"
proof (cases "im_get (tp_tracks s) (e, t)")
  case None
  then show ?thesis using assms by (simp add: tp_on_track_data_def)
next
  case (Some v)
  then obtain p n c where v: "im_get (tp_tracks s) (e, t) = Some (p, n, c)" by (cases v) auto
  then have "c \<in> tp_held s" using tp_coveredD(3) [OF assms v] im_get_Some_key by (fastforce simp: tp_held_def)
  then show ?thesis using v assms by (simp add: tp_on_track_data_def tp_push_def tp_held_def)
qed

lemma tp_unpublish_covered:
  assumes "tp_covered s"
  shows "\<exists>s' cs. tp_on_track_unpublish e t s = Inr s' \<and> tp_covered s' \<and>
     mt_ctls pub_act (tp_queue s') = mt_ctls pub_act (tp_queue s) @ cs \<and> sessions (tp_held s) cs = Some (tp_held s') \<and>
     im_get (tp_tracks s') = (im_get (tp_tracks s))((e, t) := None)"
proof (cases "im_get (tp_tracks s) (e, t)")
  case None
  then show ?thesis using assms by (auto simp: tp_on_track_unpublish_def fun_eq_iff intro!: exI [of _ "[]"])
next
  case (Some v)
  then obtain p n c where v: "im_get (tp_tracks s) (e, t) = Some (p, n, c)" by (cases v) auto
  then obtain xs where xs: "im_get (tp_tracks_source s) c = Some xs" using tp_coveredD(3) [OF assms v] by auto
  have m: "im_get (im_map (\<lambda>(_, _, c). c) (tp_tracks s)) (e, t) = Some c" using v by simp
  note rem = covered_remove [OF assms [unfolded tp_covered_def] m xs]
  have held: "c \<in> fst ` set (tp_tracks_source s)" using im_get_Some_key [OF xs] .
  have get: "im_get (im_swap_remove (e, t) (tp_tracks s)) = (im_get (tp_tracks s))((e, t) := None)"
    using tp_coveredD(1) [OF assms] by (simp add: list_upd)
  show ?thesis
    using v xs rem held get im_keys_swap_remove [OF tp_coveredD(2) [OF assms], of c]
    by (cases "is_swap_remove (e, t) xs = []")
      (simp_all add: tp_on_track_unpublish_def tp_push_def tp_covered_def tp_held_def Let_def im_map_swap_remove
        im_keys_insert insert_absorb)
qed

lemma tp_unpublish_wf:
  assumes "tp_wf s" "tp_on_track_unpublish e t s = Inr s'"
  shows "tp_wf s'"
proof (cases "im_get (tp_tracks s) (e, t)")
  case None
  then show ?thesis using assms by (simp add: tp_on_track_unpublish_def)
next
  case (Some v)
  then obtain p n c where v: "im_get (tp_tracks s) (e, t) = Some (p, n, c)" by (cases v) auto
  then obtain xs where xs: "im_get (tp_tracks_source s) c = Some xs" using tp_wfD(3) [OF assms(1) v] by auto
  have m: "im_get (im_map (\<lambda>(_, _, c). c) (tp_tracks s)) (e, t) = Some c" using v by simp
  from linked_remove [OF assms(1) [unfolded tp_wf_def] m xs] v xs assms(2) show ?thesis
    by (cases "is_swap_remove (e, t) xs = []") (auto simp: tp_on_track_unpublish_def tp_push_def tp_wf_def Let_def im_map_swap_remove)
qed

lemma tp_unpublish_ok:
  assumes "tp_wf s"
  shows "\<exists>s' cs. tp_on_track_unpublish e t s = Inr s' \<and> tp_wf s' \<and>
     mt_ctls pub_act (tp_queue s') = mt_ctls pub_act (tp_queue s) @ cs \<and> sessions (tp_held s) cs = Some (tp_held s') \<and>
     im_get (tp_tracks s') = (im_get (tp_tracks s))((e, t) := None)"
  using tp_unpublish_covered [OF tp_wf_covered [OF assms], of e t] tp_unpublish_wf [OF assms, of e t] by blast

text \<open>Whatever is called, the controls fit the channels held; the tables stay linked when the call is admissible.\<close>

lemma tp_step_covered:
  assumes "tp_covered s"
  shows "\<exists>s' cs. tp_step env x s = Inr s' \<and> tp_covered s' \<and>
     mt_ctls pub_act (tp_queue s') = mt_ctls pub_act (tp_queue s) @ cs \<and> sessions (tp_held s) cs = Some (tp_held s')"
proof (cases x)
  case (Tp_Feedback c fb)
  then show ?thesis using assms tp_feedback_sessions by simp
next
  case (Tp_Publish e t p n)
  then show ?thesis using tp_publish_covered [OF assms, of env e t p n] tp_publish_sessions [OF assms, of env e t p n] by simp
next
  case (Tp_Data e t m)
  then show ?thesis using tp_data_sessions [OF assms, of env e t m] assms by simp
next
  case (Tp_Unpublish e t)
  then show ?thesis using tp_unpublish_covered [OF assms, of e t] by auto
qed

lemma tp_step_wf: "tp_wf s \<Longrightarrow> tp_admits env x s \<Longrightarrow> tp_step env x s = Inr s' \<Longrightarrow> tp_wf s'"
  by (cases x) (auto intro: tp_publish_wf tp_unpublish_wf simp del: tp_admits.simps)

lemma tp_step_sessions:
  assumes "tp_wf s" "tp_admits env x s"
  shows "\<exists>s' cs. tp_step env x s = Inr s' \<and> tp_wf s' \<and>
     mt_ctls pub_act (tp_queue s') = mt_ctls pub_act (tp_queue s) @ cs \<and> sessions (tp_held s) cs = Some (tp_held s')"
  using tp_step_covered [OF tp_wf_covered [OF assms(1)], of env x] tp_step_wf [OF assms] by blast

text \<open>The publisher as a client of the channel protocol, twice: for every call, and with the linked tables of the
  admissible ones.\<close>

interpretation tpa: session_client "tp_step env" "\<lambda>s. mt_ctls pub_act (tp_queue s)" tp_held tp_covered "\<lambda>_ _. True"
  for env :: "'f cluster_env"
  by unfold_locales (rule tp_step_covered)

interpretation tpc: session_client "tp_step env" "\<lambda>s. mt_ctls pub_act (tp_queue s)" tp_held tp_wf "tp_admits env"
  for env :: "'f cluster_env"
  by unfold_locales (rule tp_step_sessions)

subsection \<open>The subscriber\<close>

lemma tu_wfD:
  assumes "tu_wf s"
  shows "im_wf (tu_subscribers s)" "im_wf (tu_channels s)"
    and "im_get (tu_subscribers s) x = Some (c, p, n) \<Longrightarrow> \<exists>cc. im_get (tu_channels s) c = Some cc \<and> x \<in> set (cc_endpoints cc)"
    and "im_get (tu_channels s) c = Some cc \<Longrightarrow> cc_endpoints cc \<noteq> [] \<and> distinct (cc_endpoints cc) \<and>
      (\<forall>x\<in>set (cc_endpoints cc). \<exists>p n. im_get (tu_subscribers s) x = Some (c, p, n))"
proof -
  note l = assms [unfolded tu_wf_def]
  show "im_wf (tu_subscribers s)" "im_wf (tu_channels s)" using linkedD(1,2) [OF l] by simp_all
  show "im_get (tu_subscribers s) x = Some (c, p, n) \<Longrightarrow> \<exists>cc. im_get (tu_channels s) c = Some cc \<and> x \<in> set (cc_endpoints cc)"
    using linkedD(3) [OF l, of x c] by auto
  show "im_get (tu_channels s) c = Some cc \<Longrightarrow> cc_endpoints cc \<noteq> [] \<and> distinct (cc_endpoints cc) \<and>
      (\<forall>x\<in>set (cc_endpoints cc). \<exists>p n. im_get (tu_subscribers s) x = Some (c, p, n))"
    using linkedD(4) [OF l, of c "cc_endpoints cc"] by fastforce
qed

lemma tu_wf_covered: "tu_wf s \<Longrightarrow> tu_covered s"
  unfolding tu_wf_def tu_covered_def by (rule linked_covered)

lemma tu_coveredD:
  assumes "tu_covered s"
  shows "im_wf (tu_subscribers s)" "im_wf (tu_channels s)"
    and "im_get (tu_subscribers s) x = Some (c, p, n) \<Longrightarrow> \<exists>cc. im_get (tu_channels s) c = Some cc \<and> x \<in> set (cc_endpoints cc)"
    and "im_get (tu_channels s) c = Some cc \<Longrightarrow> cc_endpoints cc \<noteq> []"
proof -
  note l = assms [unfolded tu_covered_def]
  show "im_wf (tu_subscribers s)" "im_wf (tu_channels s)" using coveredD(1,2) [OF l] by simp_all
  show "im_get (tu_subscribers s) x = Some (c, p, n) \<Longrightarrow> \<exists>cc. im_get (tu_channels s) c = Some cc \<and> x \<in> set (cc_endpoints cc)"
    using coveredD(3) [OF l, of x c] by auto
  show "im_get (tu_channels s) c = Some cc \<Longrightarrow> cc_endpoints cc \<noteq> []" using coveredD(4) [OF l, of c "cc_endpoints cc"] by fastforce
qed

lemma tu_subscribe_covered: "tu_covered s \<Longrightarrow> tu_covered (tu_on_track_subscribe env e t p n s)"
proof -
  let ?c = "gen_track_channel_id env (tu_room s) p n"
  let ?xs = "im_or (im_map cc_endpoints (tu_channels s)) ?c [] @ [(e, t)]"
  assume "tu_covered s"
  then have "covered (im_insert (e, t) ?c (im_map fst (tu_subscribers s))) (im_insert ?c ?xs (im_map cc_endpoints (tu_channels s)))"
    unfolding tu_covered_def by (rule covered_insert) auto
  then show ?thesis by (cases "im_get (tu_channels s) ?c")
      (auto simp: tu_covered_def tu_on_track_subscribe_def tu_push_def Let_def im_map_insert cc_default_def)
qed

lemma tu_subscribe_wf:
  assumes "tu_wf s" "tu_admits (Tu_Subscribe e t p n) s"
  shows "tu_wf (tu_on_track_subscribe env e t p n s)"
proof -
  let ?c = "gen_track_channel_id env (tu_room s) p n"
  have "im_get (im_map fst (tu_subscribers s)) (e, t) = None" using assms(2) by simp
  then have l: "linked (im_insert (e, t) ?c (im_map fst (tu_subscribers s)))
      (im_insert ?c (is_insert (e, t) (im_or (im_map cc_endpoints (tu_channels s)) ?c [])) (im_map cc_endpoints (tu_channels s)))"
    using linked_insert [OF assms(1) [unfolded tu_wf_def], of "(e, t)" ?c] by blast
  have "(e, t) \<notin> set (cc_endpoints cc)" if "im_get (tu_channels s) ?c = Some cc" for cc
    using tu_wfD(4) [OF assms(1) that] assms(2) by force
  with l show ?thesis
    by (cases "im_get (tu_channels s) ?c")
      (auto simp: tu_wf_def tu_on_track_subscribe_def tu_push_def Let_def im_map_insert cc_default_def is_insert_def)
qed

lemma tu_subscribe_sessions:
  assumes "tu_covered s"
  shows "\<exists>cs. mt_ctls sub_act (tu_queue (tu_on_track_subscribe env e t p n s)) = mt_ctls sub_act (tu_queue s) @ cs \<and>
     sessions (tu_held s) cs = Some (tu_held (tu_on_track_subscribe env e t p n s))"
proof (cases "im_get (tu_channels s) (gen_track_channel_id env (tu_room s) p n)")
  case None
  then show ?thesis using im_get_None_key [OF None]
    by (simp add: tu_on_track_subscribe_def tu_push_def tu_held_def Let_def im_keys_insert cc_default_def)
next
  case (Some cc)
  then show ?thesis using tu_coveredD(4) [OF assms Some] im_get_Some_key [OF Some]
    by (simp add: tu_on_track_subscribe_def tu_held_def Let_def im_keys_insert insert_absorb)
qed

lemma tu_feedback_sessions:
  assumes "tu_covered s" "im_get (tu_subscribers s) x = Some (c, p, n)"
  shows "sessions (tu_held s) [(c, Uses)] = Some (tu_held s)"
  using tu_coveredD(3) [OF assms] im_get_Some_key by (fastforce simp: tu_held_def)

lemma tu_unsubscribe_covered:
  assumes "tu_covered s"
  shows "\<exists>cs. tu_covered (tu_on_track_unsubscribe e t s) \<and>
     mt_ctls sub_act (tu_queue (tu_on_track_unsubscribe e t s)) = mt_ctls sub_act (tu_queue s) @ cs \<and>
     sessions (tu_held s) cs = Some (tu_held (tu_on_track_unsubscribe e t s)) \<and>
     im_get (tu_subscribers (tu_on_track_unsubscribe e t s)) = (im_get (tu_subscribers s))((e, t) := None)"
proof (cases "im_get (tu_subscribers s) (e, t)")
  case None
  then show ?thesis using assms by (auto simp: tu_on_track_unsubscribe_def fun_eq_iff intro!: exI [of _ "[]"])
next
  case (Some v)
  then obtain c p n where v: "im_get (tu_subscribers s) (e, t) = Some (c, p, n)" by (cases v) auto
  then obtain cc where cc: "im_get (tu_channels s) c = Some cc" "(e, t) \<in> set (cc_endpoints cc)"
    using tu_coveredD(3) [OF assms v] by auto
  have m: "im_get (im_map fst (tu_subscribers s)) (e, t) = Some c" using v by simp
  have k: "im_get (im_map cc_endpoints (tu_channels s)) c = Some (cc_endpoints cc)" using cc by simp
  note rem = covered_remove [OF assms [unfolded tu_covered_def] m k]
  have held: "c \<in> fst ` set (tu_channels s)" using im_get_Some_key [OF cc(1)] .
  have get: "im_get (im_swap_remove (e, t) (tu_subscribers s)) = (im_get (tu_subscribers s))((e, t) := None)"
    using tu_coveredD(1) [OF assms] by (simp add: list_upd)
  show ?thesis
    using v cc rem held get im_keys_swap_remove [OF tu_coveredD(2) [OF assms], of c]
    by (cases "is_swap_remove (e, t) (cc_endpoints cc) = []")
      (simp_all add: tu_on_track_unsubscribe_def tu_push_def tu_covered_def tu_held_def Let_def im_map_swap_remove
        im_map_insert im_keys_insert insert_absorb is_swap_remove_def [symmetric])
qed

lemma tu_unsubscribe_wf:
  assumes "tu_wf s"
  shows "tu_wf (tu_on_track_unsubscribe e t s)"
proof (cases "im_get (tu_subscribers s) (e, t)")
  case None
  then show ?thesis using assms by (simp add: tu_on_track_unsubscribe_def)
next
  case (Some v)
  then obtain c p n where v: "im_get (tu_subscribers s) (e, t) = Some (c, p, n)" by (cases v) auto
  then obtain cc where cc: "im_get (tu_channels s) c = Some cc" "(e, t) \<in> set (cc_endpoints cc)"
    using tu_wfD(3) [OF assms v] by auto
  have m: "im_get (im_map fst (tu_subscribers s)) (e, t) = Some c" using v by simp
  have k: "im_get (im_map cc_endpoints (tu_channels s)) c = Some (cc_endpoints cc)" using cc by simp
  from linked_remove [OF assms [unfolded tu_wf_def] m k] v cc show ?thesis
    by (cases "is_swap_remove (e, t) (cc_endpoints cc) = []")
      (simp_all add: tu_on_track_unsubscribe_def tu_push_def tu_wf_def Let_def im_map_swap_remove im_map_insert is_swap_remove_def [symmetric])
qed

lemma tu_unsubscribe_sessions:
  assumes "tu_wf s"
  shows "\<exists>cs. tu_wf (tu_on_track_unsubscribe e t s) \<and>
     mt_ctls sub_act (tu_queue (tu_on_track_unsubscribe e t s)) = mt_ctls sub_act (tu_queue s) @ cs \<and>
     sessions (tu_held s) cs = Some (tu_held (tu_on_track_unsubscribe e t s)) \<and>
     im_get (tu_subscribers (tu_on_track_unsubscribe e t s)) = (im_get (tu_subscribers s))((e, t) := None)"
  using tu_unsubscribe_covered [OF tu_wf_covered [OF assms], of e t] tu_unsubscribe_wf [OF assms, of e t] by blast

lemma tu_desired_bitrate_tables:
  assumes "tu_covered s"
  shows "tu_wf (tu_on_track_desired_bitrate env now e t b s) = tu_wf s" "tu_covered (tu_on_track_desired_bitrate env now e t b s) = tu_covered s"
proof -
  have "im_map cc_endpoints (tu_channels (tu_on_track_desired_bitrate env now e t b s)) = im_map cc_endpoints (tu_channels s) \<and>
      tu_subscribers (tu_on_track_desired_bitrate env now e t b s) = tu_subscribers s"
    by (auto simp: tu_on_track_desired_bitrate_def Let_def tu_push_def im_map_insert_same split: option.split)
  then show "tu_wf (tu_on_track_desired_bitrate env now e t b s) = tu_wf s" "tu_covered (tu_on_track_desired_bitrate env now e t b s) = tu_covered s"
    by (simp_all add: tu_wf_def tu_covered_def)
qed

lemma tu_desired_bitrate_sessions:
  assumes "tu_covered s"
  shows "\<exists>cs. mt_ctls sub_act (tu_queue (tu_on_track_desired_bitrate env now e t b s)) = mt_ctls sub_act (tu_queue s) @ cs \<and>
     sessions (tu_held s) cs = Some (tu_held (tu_on_track_desired_bitrate env now e t b s))"
proof (cases "im_get (tu_subscribers s) (e, t)")
  case None
  then show ?thesis using assms by (auto simp: tu_on_track_desired_bitrate_def intro!: exI [of _ "[]"])
next
  case (Some v)
  then obtain c p n where v: "im_get (tu_subscribers s) (e, t) = Some (c, p, n)" by (cases v) auto
  then obtain cc where cc: "im_get (tu_channels s) c = Some cc" using tu_coveredD(3) [OF assms v] by auto
  have held: "c \<in> fst ` set (tu_channels s)" using im_get_Some_key [OF cc] .
  show ?thesis
    using v cc held assms
    by (auto simp: tu_on_track_desired_bitrate_def Let_def tu_held_def tu_push_def im_keys_insert
        insert_absorb split: option.splits intro!: exI [of _ "[]"])
qed

lemma tu_quiet_tables [simp]:
  "tu_wf (tu_on_track_relay_changed c n s) = tu_wf s" "tu_covered (tu_on_track_relay_changed c n s) = tu_covered s"
  "tu_wf (tu_on_track_data env c d s) = tu_wf s" "tu_covered (tu_on_track_data env c d s) = tu_covered s"
  "tu_wf (tu_on_track_request_key env e t s) = tu_wf s" "tu_covered (tu_on_track_request_key env e t s) = tu_covered s"
  by (auto simp: tu_on_track_relay_changed_def tu_on_track_data_def tu_on_track_request_key_def tu_push_def tu_wf_def tu_covered_def split: option.split)

lemma tu_step_covered:
  assumes "tu_covered s"
  shows "\<exists>s' cs. tu_step env x s = Inr s' \<and> tu_covered s' \<and>
     mt_ctls sub_act (tu_queue s') = mt_ctls sub_act (tu_queue s) @ cs \<and> sessions (tu_held s) cs = Some (tu_held s')"
proof (cases x)
  case (Tu_Relay c n)
  then show ?thesis using assms
    by (auto simp: tu_on_track_relay_changed_def tu_push_def tu_covered_def tu_held_def split: option.splits intro!: exI [of _ "[]"])
next
  case (Tu_Data c d)
  then show ?thesis using assms
    by (auto simp: tu_on_track_data_def tu_push_def tu_covered_def tu_held_def split: option.splits intro!: exI [of _ "[]"])
next
  case (Tu_Subscribe e t p n)
  then show ?thesis using tu_subscribe_covered [OF assms, of env e t p n] tu_subscribe_sessions [OF assms, of env e t p n] by simp
next
  case (Tu_RequestKey e t)
  show ?thesis
  proof (cases "im_get (tu_subscribers s) (e, t)")
    case None
    then show ?thesis using Tu_RequestKey assms by (auto simp: tu_on_track_request_key_def intro!: exI [of _ "[]"])
  next
    case (Some v)
    then obtain c p n where v: "im_get (tu_subscribers s) (e, t) = Some (c, p, n)" by (cases v) auto
    then show ?thesis using Tu_RequestKey tu_feedback_sessions [OF assms v] assms
      by (auto simp: tu_on_track_request_key_def tu_push_def tu_covered_def tu_held_def split: if_splits)
  qed
next
  case (Tu_DesiredBitrate now e t b)
  then show ?thesis using tu_desired_bitrate_sessions [OF assms, of env now e t b] tu_desired_bitrate_tables(2) [OF assms] assms by simp
next
  case (Tu_Unsubscribe e t)
  then show ?thesis using tu_unsubscribe_covered [OF assms, of e t] by auto
qed

lemma tu_step_wf: "tu_wf s \<Longrightarrow> tu_admits x s \<Longrightarrow> tu_step env x s = Inr s' \<Longrightarrow> tu_wf s'"
  by (cases x) (auto intro: tu_subscribe_wf tu_unsubscribe_wf simp: tu_desired_bitrate_tables(1) [OF tu_wf_covered] simp del: tu_admits.simps)

lemma tu_step_sessions:
  assumes "tu_wf s" "tu_admits x s"
  shows "\<exists>s' cs. tu_step env x s = Inr s' \<and> tu_wf s' \<and>
     mt_ctls sub_act (tu_queue s') = mt_ctls sub_act (tu_queue s) @ cs \<and> sessions (tu_held s) cs = Some (tu_held s')"
  using tu_step_covered [OF tu_wf_covered [OF assms(1)], of env x] tu_step_wf [OF assms] by blast

interpretation tua: session_client "tu_step env" "\<lambda>s. mt_ctls sub_act (tu_queue s)" tu_held tu_covered "\<lambda>_ _. True"
  for env :: "'f cluster_env"
  by unfold_locales (rule tu_step_covered)

interpretation tuc: session_client "tu_step env" "\<lambda>s. mt_ctls sub_act (tu_queue s)" tu_held tu_wf tu_admits
  for env :: "'f cluster_env"
  by unfold_locales (rule tu_step_sessions)

section \<open>From a publisher to its watchers and back\<close>

text \<open>The watchers of a channel, in the order in which they are served.\<close>

definition tu_watchers :: "nat \<Rightarrow> ('e, 'f) room_channel_subscribe \<Rightarrow> ('e \<times> nat) list" where
  "tu_watchers c s = (case im_get (tu_channels s) c of None \<Rightarrow> [] | Some cc \<Rightarrow> cc_endpoints cc)"

lemma tu_watchers_iff:
  assumes "tu_wf s"
  shows "distinct (tu_watchers c s) \<and> (x \<in> set (tu_watchers c s) \<longleftrightarrow> (\<exists>p n. im_get (tu_subscribers s) x = Some (c, p, n)))"
proof (cases "im_get (tu_channels s) c")
  case None
  then show ?thesis using tu_wfD(3) [OF assms, of x c] by (auto simp: tu_watchers_def)
next
  case (Some cc)
  then show ?thesis using tu_wfD(3) [OF assms, of x c] tu_wfD(4) [OF assms Some] by (auto simp: tu_watchers_def)
qed

definition tp_sources :: "nat \<Rightarrow> ('e, 'f) room_channel_publisher \<Rightarrow> ('e \<times> nat) list" where
  "tp_sources c s = (case im_get (tp_tracks_source s) c of None \<Rightarrow> [] | Some xs \<Rightarrow> xs)"

lemma tp_wf_new: "tp_wf (tp_new room)"
  by (simp add: tp_wf_def tp_new_def im_map_def linked_Nil)

lemma tu_wf_new: "tu_wf (tu_new room)"
  by (simp add: tu_wf_def tu_new_def im_map_def linked_Nil)

lemma mt_new_simps [simp]: "tp_held (tp_new room) = {}" "tp_queue (tp_new room) = []"
  "tu_held (tu_new room) = {}" "tu_queue (tu_new room) = []"
  by (simp_all add: tp_new_def tu_new_def tp_held_def tu_held_def)

lemma tp_held_empty: "tp_wf s \<Longrightarrow> tp_tracks s = [] \<Longrightarrow> tp_held s = {}"
  using linked_empty by (force simp: tp_wf_def tp_held_def im_map_def)

lemma tu_held_empty: "tu_wf s \<Longrightarrow> tu_subscribers s = [] \<Longrightarrow> tu_held s = {}"
proof -
  assume "tu_wf s" "tu_subscribers s = []"
  then have "im_map cc_endpoints (tu_channels s) = []" using linked_empty by (simp add: tu_wf_def im_map_def [of fst])
  then show "tu_held s = {}" by (simp add: im_map_def tu_held_def)
qed

section \<open>Properties\<close>

text \<open>
  C23. The publisher of a room keeps to the network's channel protocol: through any sequence of
  publications, packets, feedback and unpublications, no call panics; every channel is started
  before packets are sent on it, never started twice, and stopped at most once for each start. When no
  track was published under another name before it was unpublished, a channel is stopped when its last
  source is gone: once no track is left, no channel is left open.
\<close>

theorem tp_channel_sessions:
  "\<exists>s'. rfold (tp_step env) xs (tp_new room) = Inr s' \<and> sessions {} (mt_ctls pub_act (tp_queue s')) = Some (tp_held s') \<and>
     (admits_run (tp_admits env) (tp_step env) xs (tp_new room) \<longrightarrow> tp_tracks s' = [] \<longrightarrow> tp_held s' = {})"
proof -
  obtain s' where s': "rfold (tp_step env) xs (tp_new room) = Inr s'" "sessions {} (mt_ctls pub_act (tp_queue s')) = Some (tp_held s')"
    using tpa.run_sessions [where env = env and xs = xs and s = "tp_new room", OF tp_wf_covered [OF tp_wf_new] admits_any] by auto
  moreover have "tp_held s' = {}" if "admits_run (tp_admits env) (tp_step env) xs (tp_new room)" "tp_tracks s' = []"
    using tpc.run_sessions [OF tp_wf_new that(1)] s'(1) tp_held_empty [OF _ that(2)] by auto
  ultimately show ?thesis by blast
qed

theorem tp_channel_sessions_witness:
  "\<exists>s'. rfold (tp_step demo_env) [Tp_Publish (1::nat) 5 ''alice'' ''mic'', Tp_Data 1 5 (build_audio 0 9 None []),
        Tp_Unpublish 1 5] (tp_new 3) = Inr s' \<and> sessions {} (mt_ctls pub_act (tp_queue s')) = Some {}"
proof -
  let ?xs = "[Tp_Publish (1::nat) 5 ''alice'' ''mic'', Tp_Data 1 5 (build_audio 0 9 None []), Tp_Unpublish 1 5]"
  note eval = tp_new_def tp_on_track_publish_def tp_push_def tp_on_track_data_def tp_on_track_unpublish_def
    Let_def im_get_def is_insert_def is_swap_remove_def im_swap_remove_def
  have adm: "admits_run (tp_admits demo_env) (tp_step demo_env) ?xs (tp_new 3)" by (simp add: eval)
  obtain s' where s': "rfold (tp_step demo_env) ?xs (tp_new 3) = Inr s'" "sessions {} (mt_ctls pub_act (tp_queue s')) = Some (tp_held s')"
      "tp_tracks s' = [] \<longrightarrow> tp_held s' = {}"
    using tp_channel_sessions [of demo_env ?xs 3] adm by blast
  moreover have "tp_tracks s' = []" using s'(1) by (auto simp: eval)
  ultimately show ?thesis by auto
qed

text \<open>
  C24. The subscriber of a room keeps to the network's channel protocol: through any sequence of
  subscriptions, key-frame and bitrate requests, packets, route changes and unsubscriptions, no
  call panics; every channel is subscribed exactly once however many watchers it has, feedback is sent
  only on subscribed channels, and a channel is unsubscribed at most once for each subscription. When no track
  subscribed a second time before it was unsubscribed, a channel is unsubscribed when its last watcher
  is gone: once nobody watches anything, no channel is left open.
\<close>

theorem tu_channel_sessions:
  "\<exists>s'. rfold (tu_step env) xs (tu_new room) = Inr s' \<and> sessions {} (mt_ctls sub_act (tu_queue s')) = Some (tu_held s') \<and>
     (admits_run tu_admits (tu_step env) xs (tu_new room) \<longrightarrow> tu_subscribers s' = [] \<longrightarrow> tu_held s' = {})"
proof -
  obtain s' where s': "rfold (tu_step env) xs (tu_new room) = Inr s'" "sessions {} (mt_ctls sub_act (tu_queue s')) = Some (tu_held s')"
    using tua.run_sessions [where env = env and xs = xs and s = "tu_new room", OF tu_wf_covered [OF tu_wf_new] admits_any] by auto
  moreover have "tu_held s' = {}" if "admits_run tu_admits (tu_step env) xs (tu_new room)" "tu_subscribers s' = []"
    using tuc.run_sessions [OF tu_wf_new that(1)] s'(1) tu_held_empty [OF _ that(2)] by auto
  ultimately show ?thesis by blast
qed

theorem tu_channel_sessions_witness:
  "\<exists>s'. rfold (tu_step demo_env) [Tu_Subscribe (1::nat) 5 ''alice'' ''mic'', Tu_Subscribe 2 5 ''alice'' ''mic'',
        Tu_RequestKey 2 5, Tu_Unsubscribe 1 5, Tu_Unsubscribe 2 5] (tu_new 3) = Inr s' \<and>
     sessions {} (mt_ctls sub_act (tu_queue s')) = Some {}"
proof -
  let ?xs = "[Tu_Subscribe (1::nat) 5 ''alice'' ''mic'', Tu_Subscribe 2 5 ''alice'' ''mic'', Tu_RequestKey 2 5, Tu_Unsubscribe 1 5, Tu_Unsubscribe 2 5]"
  note eval = tu_new_def tu_on_track_subscribe_def tu_on_track_request_key_def tu_on_track_unsubscribe_def tu_push_def cc_default_def
    Let_def im_get_def im_swap_remove_def
  have adm: "admits_run tu_admits (tu_step demo_env) ?xs (tu_new 3)" by (simp add: eval)
  obtain s' where s': "rfold (tu_step demo_env) ?xs (tu_new 3) = Inr s'" "sessions {} (mt_ctls sub_act (tu_queue s')) = Some (tu_held s')"
      "tu_subscribers s' = [] \<longrightarrow> tu_held s' = {}"
    using tu_channel_sessions [of demo_env ?xs 3] adm by blast
  moreover have "tu_subscribers s' = []" using s'(1) by (auto simp: eval)
  ultimately show ?thesis by auto
qed

text \<open>
  A packet reaches its watchers: if a track is published by a peer under a name, and on
  another node's side of the same room the subscriber is consistent, then the publisher turns a
  packet into one network message, and delivering that message on the subscriber's side queues
  the packet for exactly the local tracks that are subscribed to this channel, each once. The
  packet codec is assumed to decode what it has encoded.
\<close>

theorem mt_packet_reaches_watchers:
  assumes "env_media_de env (env_media_ser env m) = Some m"
    and "im_get (tp_tracks (mt_publisher a)) (e, t) = Some (p, n, c)" and "tu_wf (mt_subscriber b)"
  shows "\<exists>data a' ws. mt_on_call env (Mt_Data e t m) a = Inr a' \<and>
     tp_queue (mt_publisher a') = tp_queue (mt_publisher a) @ [Mt_Pubsub c (PubData data)] \<and>
     tu_queue (mt_subscriber (mt_on_pubsub_event env c (SourceData node data) b)) =
       tu_queue (mt_subscriber b) @ map (\<lambda>(e', t'). Mt_Endpoint [e'] (Cee_LocalTrack t' (Cle_Media c m))) ws \<and>
     distinct ws \<and> set ws = {x. \<exists>p n. im_get (tu_subscribers (mt_subscriber b)) x = Some (c, p, n)}"
proof (intro exI conjI)
  show "mt_on_call env (Mt_Data e t m) a = Inr (a\<lparr>mt_publisher := tp_on_track_data env e t m (mt_publisher a)\<rparr>)" by simp
  show "tp_queue (mt_publisher (a\<lparr>mt_publisher := tp_on_track_data env e t m (mt_publisher a)\<rparr>)) =
      tp_queue (mt_publisher a) @ [Mt_Pubsub c (PubData (env_media_ser env m))]"
    using assms(2) by (simp add: tp_on_track_data_def tp_push_def)
  show "tu_queue (mt_subscriber (mt_on_pubsub_event env c (SourceData node (env_media_ser env m)) b)) =
      tu_queue (mt_subscriber b) @
        map (\<lambda>(e', t'). Mt_Endpoint [e'] (Cee_LocalTrack t' (Cle_Media c m))) (tu_watchers c (mt_subscriber b))"
    using assms(1) by (simp add: mt_on_pubsub_event_def tu_on_track_data_def tu_push_def tu_watchers_def split: option.splits)
  show "distinct (tu_watchers c (mt_subscriber b))"
    "set (tu_watchers c (mt_subscriber b)) = {x. \<exists>p n. im_get (tu_subscribers (mt_subscriber b)) x = Some (c, p, n)}"
    using tu_watchers_iff [OF assms(3)] by blast+
qed

theorem mt_packet_reaches_watchers_witness:
  "let a = mt_new 3\<lparr>mt_publisher := tp_on_track_publish demo_env (1::nat) 5 ''alice'' ''mic'' (tp_new 3)\<rparr>;
       b = mt_new 3\<lparr>mt_subscriber := tu_on_track_subscribe demo_env (2::nat) 6 ''alice'' ''mic'' (tu_new 3)\<rparr>;
       c = gen_track_channel_id demo_env 3 ''alice'' ''mic''; m = build_audio 0 9 None []
   in \<exists>data a' ws. mt_on_call demo_env (Mt_Data 1 5 m) a = Inr a' \<and>
     tp_queue (mt_publisher a') = tp_queue (mt_publisher a) @ [Mt_Pubsub c (PubData data)] \<and>
     tu_queue (mt_subscriber (mt_on_pubsub_event demo_env c (SourceData 0 data) b)) =
       tu_queue (mt_subscriber b) @ map (\<lambda>(e', t'). Mt_Endpoint [e'] (Cee_LocalTrack t' (Cle_Media c m))) ws \<and>
     distinct ws \<and> set ws = {x. \<exists>p n. im_get (tu_subscribers (mt_subscriber b)) x = Some (c, p, n)}"
  unfolding Let_def
proof (rule mt_packet_reaches_watchers)
  show "env_media_de demo_env (env_media_ser demo_env (build_audio 0 9 None [])) = Some (build_audio 0 9 None [])"
    by (simp add: demo_env_def build_audio_def)
  show "im_get (tp_tracks (mt_publisher (mt_new 3\<lparr>mt_publisher := tp_on_track_publish demo_env (1::nat) 5 ''alice'' ''mic'' (tp_new 3)\<rparr>))) (1, 5)
      = Some (''alice'', ''mic'', gen_track_channel_id demo_env 3 ''alice'' ''mic'')"
    by (simp add: tp_on_track_publish_def tp_push_def tp_new_def Let_def im_get_def)
  show "tu_wf (mt_subscriber (mt_new 3\<lparr>mt_subscriber := tu_on_track_subscribe demo_env (2::nat) 6 ''alice'' ''mic'' (tu_new 3)\<rparr>))"
    using tu_subscribe_wf [OF tu_wf_new] by (simp add: tu_new_def)
qed

text \<open>
  A key-frame request travels back: when a watcher of a channel asks for a key frame, the
  feedback that its subscriber sends on the channel makes the publisher ask every source of that
  channel for a key frame. The network's feedback is assumed to keep its kind.
\<close>

theorem mt_key_request_reaches_sources:
  assumes "\<And>k v i t. env_fb_kind env (env_fb_simple env k v i t) = k"
    and "im_get (tu_subscribers (mt_subscriber b)) (e, t) = Some (c, p, n)"
  shows "\<exists>fb b'. mt_on_call env (Mt_RequestKey e t) b = Inr b' \<and>
     tu_queue (mt_subscriber b') = tu_queue (mt_subscriber b) @ [Mt_Pubsub c (FeedbackAuto fb)] \<and>
     tp_queue (mt_publisher (mt_on_pubsub_event env c (FeedbackData fb) a)) =
       tp_queue (mt_publisher a) @
       map (\<lambda>(e', t'). Mt_Endpoint [e'] (Cee_RemoteTrack t' Cre_RequestKeyFrame)) (tp_sources c (mt_publisher a))"
proof (intro exI conjI)
  let ?fb = "env_fb_simple env KEYFRAME_FEEDBACK_KIND 1 KEYFRAME_FEEDBACK_INTERVAL KEYFRAME_FEEDBACK_TIMEOUT"
  show "mt_on_call env (Mt_RequestKey e t) b = Inr (b\<lparr>mt_subscriber := tu_on_track_request_key env e t (mt_subscriber b)\<rparr>)" by simp
  show "tu_queue (mt_subscriber (b\<lparr>mt_subscriber := tu_on_track_request_key env e t (mt_subscriber b)\<rparr>)) =
      tu_queue (mt_subscriber b) @ [Mt_Pubsub c (FeedbackAuto ?fb)]"
    using assms(2) by (simp add: tu_on_track_request_key_def tu_push_def)
  have "feedback_kind_try_from env ?fb = Some Fb_KeyFrameRequest"
    by (simp add: feedback_kind_try_from_def assms(1) KEYFRAME_FEEDBACK_KIND_def)
  then show "tp_queue (mt_publisher (mt_on_pubsub_event env c (FeedbackData ?fb) a)) = tp_queue (mt_publisher a) @
       map (\<lambda>(e', t'). Mt_Endpoint [e'] (Cee_RemoteTrack t' Cre_RequestKeyFrame)) (tp_sources c (mt_publisher a))"
    by (simp add: mt_on_pubsub_event_def tp_on_track_feedback_def tp_push_def tp_sources_def split: option.splits)
qed

theorem mt_key_request_reaches_sources_witness:
  "let b = mt_new 3\<lparr>mt_subscriber := tu_on_track_subscribe demo_env (2::nat) 6 ''alice'' ''mic'' (tu_new 3)\<rparr>;
       a = mt_new 3\<lparr>mt_publisher := tp_on_track_publish demo_env (1::nat) 5 ''alice'' ''mic'' (tp_new 3)\<rparr>;
       c = gen_track_channel_id demo_env 3 ''alice'' ''mic''
   in \<exists>fb b'. mt_on_call demo_env (Mt_RequestKey 2 6) b = Inr b' \<and>
     tu_queue (mt_subscriber b') = tu_queue (mt_subscriber b) @ [Mt_Pubsub c (FeedbackAuto fb)] \<and>
     tp_queue (mt_publisher (mt_on_pubsub_event demo_env c (FeedbackData fb) a)) =
       tp_queue (mt_publisher a) @
       map (\<lambda>(e', t'). Mt_Endpoint [e'] (Cee_RemoteTrack t' Cre_RequestKeyFrame)) (tp_sources c (mt_publisher a))"
  unfolding Let_def
proof (rule mt_key_request_reaches_sources)
  show "env_fb_kind demo_env (env_fb_simple demo_env k v i t) = k" for k v i t by (simp add: demo_env_def)
  show "im_get (tu_subscribers (mt_subscriber (mt_new 3\<lparr>mt_subscriber := tu_on_track_subscribe demo_env (2::nat) 6 ''alice'' ''mic'' (tu_new 3)\<rparr>))) (2, 6)
      = Some (gen_track_channel_id demo_env 3 ''alice'' ''mic'', ''alice'', ''mic'')"
    by (simp add: tu_on_track_subscribe_def tu_push_def tu_new_def Let_def im_get_def cc_default_def)
qed

end
