(* ===== verification/Message_Channel.thy ===== *)
theory Message_Channel
  imports Cluster_Types Index_Map
begin

text \<open>
  \<^verbatim>\<open>packages/media_core/src/cluster/room/message_channel.rs\<close> with \<^verbatim>\<open>publisher.rs\<close> and
  \<^verbatim>\<open>subscriber.rs\<close>: labelled message channels between the endpoints of a room. Each side keeps
  who is on which channel in two tables of sets, one for each direction; \<open>mp_wf\<close> and \<open>ms_wf\<close> say
  that they are the converse of each other. Both sides are interpretations of \<open>session_client\<close>.
\<close>

type_synonym ('e, 'f) mc_output = "('e, 'f) mt_output"

section \<open>The publisher\<close>

record 'e mp_channel =
  mpc_publishers :: "'e iset"

record ('e, 'f) message_channel_publisher =
  mp_room :: room_hash
  mp_channels :: "(nat, 'e mp_channel) imap"
  mp_publishers :: "('e, nat iset) imap"
  mp_queue :: "('e, 'f) mc_output list"

definition mp_new :: "room_hash \<Rightarrow> ('e, 'f) message_channel_publisher" where
  "mp_new room = \<lparr>mp_room = room, mp_channels = [], mp_publishers = [], mp_queue = []\<rparr>"

definition mp_push :: "('e, 'f) mc_output \<Rightarrow> ('e, 'f) message_channel_publisher \<Rightarrow> ('e, 'f) message_channel_publisher" where
  "mp_push x s = s\<lparr>mp_queue := mp_queue s @ [x]\<rparr>"

definition mp_on_channel_pub_start ::
  "'f cluster_env \<Rightarrow> 'e \<Rightarrow> string \<Rightarrow> ('e, 'f) message_channel_publisher \<Rightarrow> ('e, 'f) message_channel_publisher" where
  "mp_on_channel_pub_start env endpoint label s =
     (let channel_id = gen_msg_channel_id env (mp_room s) label;
          s1 = (case im_get (mp_channels s) channel_id of
                  Some c \<Rightarrow> s\<lparr>mp_channels := im_insert channel_id (c\<lparr>mpc_publishers := is_insert endpoint (mpc_publishers c)\<rparr>) (mp_channels s)\<rparr>
                | None \<Rightarrow> mp_push (Mt_Pubsub channel_id PubStart)
                    (s\<lparr>mp_channels := im_insert channel_id \<lparr>mpc_publishers = is_insert endpoint []\<rparr> (mp_channels s)\<rparr>))
      in s1\<lparr>mp_publishers := im_insert endpoint (is_insert channel_id (im_or (mp_publishers s1) endpoint [])) (mp_publishers s1)\<rparr>)"

definition mp_on_channel_pub_stop ::
  "'f cluster_env \<Rightarrow> 'e \<Rightarrow> string \<Rightarrow> ('e, 'f) message_channel_publisher \<Rightarrow> ('e, 'f) message_channel_publisher" where
  "mp_on_channel_pub_stop env endpoint label s =
     (let channel_id = gen_msg_channel_id env (mp_room s) label in
      case im_get (mp_channels s) channel_id of None \<Rightarrow> s
      | Some c \<Rightarrow>
          let c1 = c\<lparr>mpc_publishers := is_swap_remove endpoint (mpc_publishers c)\<rparr>;
              s1 = s\<lparr>mp_channels := im_insert channel_id c1 (mp_channels s)\<rparr>;
              s2 = (case im_get (mp_publishers s1) endpoint of None \<Rightarrow> s1
                    | Some publisher \<Rightarrow>
                        let left = is_swap_remove channel_id publisher in
                        if left = [] then s1\<lparr>mp_publishers := im_swap_remove endpoint (mp_publishers s1)\<rparr>
                        else s1\<lparr>mp_publishers := im_insert endpoint left (mp_publishers s1)\<rparr>)
          in if mpc_publishers c1 = []
             then mp_push (Mt_Pubsub channel_id PubStop) (s2\<lparr>mp_channels := im_swap_remove channel_id (mp_channels s2)\<rparr>)
             else s2)"

definition mp_leave_channel ::
  "'e \<Rightarrow> nat \<Rightarrow> ('e, 'f) message_channel_publisher \<Rightarrow> ('e, 'f) message_channel_publisher" where
  "mp_leave_channel endpoint c s = (case im_get (mp_channels s) c of None \<Rightarrow> s
     | Some channel \<Rightarrow>
         let channel1 = channel\<lparr>mpc_publishers := is_swap_remove endpoint (mpc_publishers channel)\<rparr>;
             s1 = s\<lparr>mp_channels := im_insert c channel1 (mp_channels s)\<rparr>
         in if mpc_publishers channel1 = []
            then mp_push (Mt_Pubsub c PubStop) (s1\<lparr>mp_channels := im_swap_remove c (mp_channels s1)\<rparr>)
            else s1)"

definition mp_on_leave ::
  "'e \<Rightarrow> ('e, 'f) message_channel_publisher \<Rightarrow> ('e, 'f) message_channel_publisher" where
  "mp_on_leave endpoint s = (case im_get (mp_publishers s) endpoint of None \<Rightarrow> s
     | Some channels \<Rightarrow>
         fold (mp_leave_channel endpoint) channels (s\<lparr>mp_publishers := im_swap_remove endpoint (mp_publishers s)\<rparr>))"

definition mp_on_channel_data ::
  "'f cluster_env \<Rightarrow> 'e \<Rightarrow> string \<Rightarrow> message_channel_packet \<Rightarrow> ('e, 'f) message_channel_publisher \<Rightarrow> ('e, 'f) message_channel_publisher" where
  "mp_on_channel_data env endpoint label data s =
     (let channel_id = gen_msg_channel_id env (mp_room s) label in
      case im_get (mp_channels s) channel_id of None \<Rightarrow> s
      | Some c \<Rightarrow> if endpoint \<in> set (mpc_publishers c)
                 then mp_push (Mt_Pubsub channel_id (PubData (env_msg_ser env data))) s else s)"

definition mp_is_empty :: "('e, 'f) message_channel_publisher \<Rightarrow> bool" where
  "mp_is_empty s \<longleftrightarrow> mp_queue s = [] \<and> mp_channels s = [] \<and> mp_publishers s = []"

definition mp_pop_output :: "('e, 'f) message_channel_publisher \<Rightarrow> ('e, 'f) message_channel_publisher \<times> ('e, 'f) mc_output option" where
  "mp_pop_output s = (case mp_queue s of [] \<Rightarrow> (s, None) | x # q \<Rightarrow> (s\<lparr>mp_queue := q\<rparr>, Some x))"

definition mp_drop :: "('e, 'f) message_channel_publisher \<Rightarrow> unit run" where
  "mp_drop s = rbind (rassert (length (mp_queue s) = 0)) (\<lambda>_.
     rbind (rassert (length (mp_publishers s) = 0)) (\<lambda>_. rassert (length (mp_channels s) = 0)))"

section \<open>The subscriber\<close>

record 'e ms_channel =
  msc_subscribers :: "'e iset"
  msc_label :: string

record ('e, 'f) message_channel_subscriber =
  ms_room :: room_hash
  ms_channels :: "(nat, 'e ms_channel) imap"
  ms_subscriptions :: "('e, nat iset) imap"
  ms_queue :: "('e, 'f) mc_output list"

definition ms_new :: "room_hash \<Rightarrow> ('e, 'f) message_channel_subscriber" where
  "ms_new room = \<lparr>ms_room = room, ms_channels = [], ms_subscriptions = [], ms_queue = []\<rparr>"

definition ms_push :: "('e, 'f) mc_output \<Rightarrow> ('e, 'f) message_channel_subscriber \<Rightarrow> ('e, 'f) message_channel_subscriber" where
  "ms_push x s = s\<lparr>ms_queue := ms_queue s @ [x]\<rparr>"

definition ms_on_channel_subscribe ::
  "'f cluster_env \<Rightarrow> 'e \<Rightarrow> string \<Rightarrow> ('e, 'f) message_channel_subscriber \<Rightarrow> ('e, 'f) message_channel_subscriber" where
  "ms_on_channel_subscribe env endpoint label s =
     (let channel_id = gen_msg_channel_id env (ms_room s) label;
          s1 = (case im_get (ms_channels s) channel_id of
                  Some c \<Rightarrow> s\<lparr>ms_channels := im_insert channel_id (c\<lparr>msc_subscribers := is_insert endpoint (msc_subscribers c)\<rparr>) (ms_channels s)\<rparr>
                | None \<Rightarrow> ms_push (Mt_Pubsub channel_id SubAuto)
                    (s\<lparr>ms_channels := im_insert channel_id \<lparr>msc_subscribers = is_insert endpoint [], msc_label = label\<rparr> (ms_channels s)\<rparr>))
      in s1\<lparr>ms_subscriptions := im_insert endpoint (is_insert channel_id (im_or (ms_subscriptions s1) endpoint [])) (ms_subscriptions s1)\<rparr>)"

definition ms_on_channel_unsubscribe ::
  "'f cluster_env \<Rightarrow> 'e \<Rightarrow> string \<Rightarrow> ('e, 'f) message_channel_subscriber \<Rightarrow> ('e, 'f) message_channel_subscriber" where
  "ms_on_channel_unsubscribe env endpoint label s =
     (let channel_id = gen_msg_channel_id env (ms_room s) label in
      case im_get (ms_channels s) channel_id of None \<Rightarrow> s
      | Some c \<Rightarrow>
          let c1 = c\<lparr>msc_subscribers := is_swap_remove endpoint (msc_subscribers c)\<rparr>;
              s1 = s\<lparr>ms_channels := im_insert channel_id c1 (ms_channels s)\<rparr>;
              s2 = (case im_get (ms_subscriptions s1) endpoint of None \<Rightarrow> s1
                    | Some channels \<Rightarrow>
                        let left = is_swap_remove channel_id channels in
                        if left = [] then s1\<lparr>ms_subscriptions := im_swap_remove endpoint (ms_subscriptions s1)\<rparr>
                        else s1\<lparr>ms_subscriptions := im_insert endpoint left (ms_subscriptions s1)\<rparr>)
          in if msc_subscribers c1 = []
             then ms_push (Mt_Pubsub channel_id UnsubAuto) (s2\<lparr>ms_channels := im_swap_remove channel_id (ms_channels s2)\<rparr>)
             else s2)"

definition ms_on_channel_data ::
  "'f cluster_env \<Rightarrow> nat \<Rightarrow> bytes \<Rightarrow> ('e, 'f) message_channel_subscriber \<Rightarrow> ('e, 'f) message_channel_subscriber" where
  "ms_on_channel_data env channel_id data s = (case im_get (ms_channels s) channel_id of None \<Rightarrow> s
     | Some c \<Rightarrow> (case env_msg_de env data of None \<Rightarrow> s
        | Some pkt \<Rightarrow> ms_push (Mt_Endpoint (msc_subscribers c)
            (Cee_MessageChannelData (msc_label c) (mcp_from pkt) (mcp_data pkt))) s))"

definition ms_leave_channel ::
  "'e \<Rightarrow> nat \<Rightarrow> ('e, 'f) message_channel_subscriber \<Rightarrow> ('e, 'f) message_channel_subscriber" where
  "ms_leave_channel endpoint c s = (case im_get (ms_channels s) c of None \<Rightarrow> s
     | Some channel \<Rightarrow>
         let channel1 = channel\<lparr>msc_subscribers := is_swap_remove endpoint (msc_subscribers channel)\<rparr>;
             s1 = s\<lparr>ms_channels := im_insert c channel1 (ms_channels s)\<rparr>
         in if msc_subscribers channel1 = []
            then ms_push (Mt_Pubsub c UnsubAuto) (s1\<lparr>ms_channels := im_swap_remove c (ms_channels s1)\<rparr>)
            else s1)"

definition ms_on_leave ::
  "'e \<Rightarrow> ('e, 'f) message_channel_subscriber \<Rightarrow> ('e, 'f) message_channel_subscriber" where
  "ms_on_leave endpoint s = (case im_get (ms_subscriptions s) endpoint of None \<Rightarrow> s
     | Some channels \<Rightarrow>
         fold (ms_leave_channel endpoint) channels (s\<lparr>ms_subscriptions := im_swap_remove endpoint (ms_subscriptions s)\<rparr>))"

definition ms_is_empty :: "('e, 'f) message_channel_subscriber \<Rightarrow> bool" where
  "ms_is_empty s \<longleftrightarrow> ms_queue s = [] \<and> ms_subscriptions s = [] \<and> ms_channels s = []"

definition ms_pop_output :: "('e, 'f) message_channel_subscriber \<Rightarrow> ('e, 'f) message_channel_subscriber \<times> ('e, 'f) mc_output option" where
  "ms_pop_output s = (case ms_queue s of [] \<Rightarrow> (s, None) | x # q \<Rightarrow> (s\<lparr>ms_queue := q\<rparr>, Some x))"

definition ms_drop :: "('e, 'f) message_channel_subscriber \<Rightarrow> unit run" where
  "ms_drop s = rbind (rassert (length (ms_queue s) = 0)) (\<lambda>_.
     rbind (rassert (length (ms_subscriptions s) = 0)) (\<lambda>_. rassert (length (ms_channels s) = 0)))"

section \<open>Both sides together\<close>

record ('e, 'f) room_message_channel =
  rmc_publisher :: "('e, 'f) message_channel_publisher"
  rmc_subscriber :: "('e, 'f) message_channel_subscriber"

definition rmc_new :: "room_hash \<Rightarrow> ('e, 'f) room_message_channel" where
  "rmc_new room = \<lparr>rmc_publisher = mp_new room, rmc_subscriber = ms_new room\<rparr>"

definition rmc_on_pubsub_event ::
  "'f cluster_env \<Rightarrow> nat \<Rightarrow> 'f channel_event \<Rightarrow> ('e, 'f) room_message_channel \<Rightarrow> ('e, 'f) room_message_channel" where
  "rmc_on_pubsub_event env channel_id event s = (case event of
     SourceData _ data \<Rightarrow> s\<lparr>rmc_subscriber := ms_on_channel_data env channel_id data (rmc_subscriber s)\<rparr>
   | _ \<Rightarrow> s)"

datatype 'e mc_call =
    Mc_PublishStart 'e string
  | Mc_PublishStop 'e string
  | Mc_Data 'e string message_channel_packet
  | Mc_Subscribe 'e string
  | Mc_Unsubscribe 'e string
  | Mc_Leave 'e

fun rmc_on_call :: "'f cluster_env \<Rightarrow> 'e mc_call \<Rightarrow> ('e, 'f) room_message_channel \<Rightarrow> ('e, 'f) room_message_channel" where
  "rmc_on_call env (Mc_PublishStart e l) s = s\<lparr>rmc_publisher := mp_on_channel_pub_start env e l (rmc_publisher s)\<rparr>"
| "rmc_on_call env (Mc_PublishStop e l) s = s\<lparr>rmc_publisher := mp_on_channel_pub_stop env e l (rmc_publisher s)\<rparr>"
| "rmc_on_call env (Mc_Data e l d) s = s\<lparr>rmc_publisher := mp_on_channel_data env e l d (rmc_publisher s)\<rparr>"
| "rmc_on_call env (Mc_Subscribe e l) s = s\<lparr>rmc_subscriber := ms_on_channel_subscribe env e l (rmc_subscriber s)\<rparr>"
| "rmc_on_call env (Mc_Unsubscribe e l) s = s\<lparr>rmc_subscriber := ms_on_channel_unsubscribe env e l (rmc_subscriber s)\<rparr>"
| "rmc_on_call env (Mc_Leave e) s = (let s1 = s\<lparr>rmc_subscriber := ms_on_leave e (rmc_subscriber s)\<rparr> in
     s1\<lparr>rmc_publisher := mp_on_leave e (rmc_publisher s1)\<rparr>)"

definition rmc_is_empty :: "('e, 'f) room_message_channel \<Rightarrow> bool" where
  "rmc_is_empty s \<longleftrightarrow> mp_is_empty (rmc_publisher s) \<and> ms_is_empty (rmc_subscriber s)"

datatype rmc_task = Rmc_Task_Publisher | Rmc_Task_Subscriber

definition rmc_pop_branch :: "rmc_task \<Rightarrow> ('e, 'f) room_message_channel \<Rightarrow> ('e, 'f) room_message_channel \<times> ('e, 'f) mc_output option" where
  "rmc_pop_branch task s =
     (let (s1, out) = (case task of
          Rmc_Task_Publisher \<Rightarrow> (case mp_pop_output (rmc_publisher s) of (p, x) \<Rightarrow> (s\<lparr>rmc_publisher := p\<rparr>, x))
        | Rmc_Task_Subscriber \<Rightarrow> (case ms_pop_output (rmc_subscriber s) of (u, x) \<Rightarrow> (s\<lparr>rmc_subscriber := u\<rparr>, x)))
      in (s1, case out of Some Mt_OnResourceEmpty \<Rightarrow> None | _ \<Rightarrow> out))"

definition rmc_drop :: "('e, 'f) room_message_channel \<Rightarrow> unit run" where
  "rmc_drop s = rbind (rassert (mp_is_empty (rmc_publisher s))) (\<lambda>_.
     rbind (rassert (ms_is_empty (rmc_subscriber s))) (\<lambda>_.
     rbind (mp_drop (rmc_publisher s)) (\<lambda>_. ms_drop (rmc_subscriber s))))"

section \<open>Steps and invariants\<close>

datatype 'e mp_op =
    Mp_Start 'e string
  | Mp_Stop 'e string
  | Mp_Leave 'e
  | Mp_Data 'e string message_channel_packet

fun mp_step :: "'f cluster_env \<Rightarrow> 'e mp_op \<Rightarrow> ('e, 'f) message_channel_publisher \<Rightarrow> ('e, 'f) message_channel_publisher" where
  "mp_step env (Mp_Start e l) s = mp_on_channel_pub_start env e l s"
| "mp_step env (Mp_Stop e l) s = mp_on_channel_pub_stop env e l s"
| "mp_step env (Mp_Leave e) s = mp_on_leave e s"
| "mp_step env (Mp_Data e l d) s = mp_on_channel_data env e l d s"

datatype 'e ms_op =
    Ms_Subscribe 'e string
  | Ms_Unsubscribe 'e string
  | Ms_Leave 'e
  | Ms_Data nat bytes

fun ms_step :: "'f cluster_env \<Rightarrow> 'e ms_op \<Rightarrow> ('e, 'f) message_channel_subscriber \<Rightarrow> ('e, 'f) message_channel_subscriber" where
  "ms_step env (Ms_Subscribe e l) s = ms_on_channel_subscribe env e l s"
| "ms_step env (Ms_Unsubscribe e l) s = ms_on_channel_unsubscribe env e l s"
| "ms_step env (Ms_Leave e) s = ms_on_leave e s"
| "ms_step env (Ms_Data c d) s = ms_on_channel_data env c d s"

definition mp_sets :: "('e, 'f) message_channel_publisher \<Rightarrow> (nat, 'e list) imap" where
  "mp_sets s = im_map mpc_publishers (mp_channels s)"

definition mp_wf :: "('e, 'f) message_channel_publisher \<Rightarrow> bool" where
  "mp_wf s \<longleftrightarrow> cross (mp_sets s) (mp_publishers s)"

definition mp_held :: "('e, 'f) message_channel_publisher \<Rightarrow> nat set" where
  "mp_held s = fst ` set (mp_channels s)"

definition ms_sets :: "('e, 'f) message_channel_subscriber \<Rightarrow> (nat, 'e list) imap" where
  "ms_sets s = im_map msc_subscribers (ms_channels s)"

definition ms_wf :: "('e, 'f) message_channel_subscriber \<Rightarrow> bool" where
  "ms_wf s \<longleftrightarrow> cross (ms_sets s) (ms_subscriptions s)"

definition ms_held :: "('e, 'f) message_channel_subscriber \<Rightarrow> nat set" where
  "ms_held s = fst ` set (ms_channels s)"

section \<open>Channel sessions of the publisher\<close>

lemma mp_leave_channel_ok:
  assumes "st_wf (mp_sets s)"
  shows "\<exists>cs. mt_ctls pub_act (mp_queue (mp_leave_channel e c s)) = mt_ctls pub_act (mp_queue s) @ cs \<and>
     sessions (mp_held s) cs = Some (mp_held (mp_leave_channel e c s)) \<and>
     mp_sets (mp_leave_channel e c s) = st_del c e (mp_sets s) \<and>
     mp_publishers (mp_leave_channel e c s) = mp_publishers s"
proof (cases "im_get (mp_channels s) c")
  case None
  then show ?thesis by (simp add: mp_leave_channel_def st_del_def mp_sets_def)
next
  case (Some ch)
  have wf: "im_wf (mp_channels s)" using assms by (simp add: st_wf_def mp_sets_def)
  show ?thesis
    using Some im_get_Some_key [OF Some] im_keys_swap_remove [OF wf, of c] im_swap_remove_insert [OF Some]
    by (cases "is_swap_remove e (mpc_publishers ch) = []")
      (simp_all add: mp_leave_channel_def st_del_def mp_sets_def mp_held_def mp_push_def Let_def
        im_map_swap_remove im_map_insert im_keys_insert insert_absorb)
qed

lemma mp_leave_fold:
  "st_wf (mp_sets s) \<Longrightarrow>
     \<exists>cs. mt_ctls pub_act (mp_queue (fold (mp_leave_channel e) ks s)) = mt_ctls pub_act (mp_queue s) @ cs \<and>
     sessions (mp_held s) cs = Some (mp_held (fold (mp_leave_channel e) ks s)) \<and>
     mp_sets (fold (mp_leave_channel e) ks s) = fold (\<lambda>k. st_del k e) ks (mp_sets s) \<and>
     mp_publishers (fold (mp_leave_channel e) ks s) = mp_publishers s"
proof (induction ks arbitrary: s)
  case Nil
  then show ?case by simp
next
  case (Cons k ks)
  obtain cs1 where s1: "mt_ctls pub_act (mp_queue (mp_leave_channel e k s)) = mt_ctls pub_act (mp_queue s) @ cs1"
    "sessions (mp_held s) cs1 = Some (mp_held (mp_leave_channel e k s))"
    "mp_sets (mp_leave_channel e k s) = st_del k e (mp_sets s)" "mp_publishers (mp_leave_channel e k s) = mp_publishers s"
    using mp_leave_channel_ok [OF Cons.prems] by blast
  have "st_wf (mp_sets (mp_leave_channel e k s))" using s1(3) Cons.prems by (simp add: st_wf_del)
  from Cons.IH [OF this] s1 show ?case by (auto simp: sessions_append)
qed

lemma mp_stop_eq:
  "mp_on_channel_pub_stop env e l s = (let c = gen_msg_channel_id env (mp_room s) l in
     case im_get (mp_channels s) c of None \<Rightarrow> s
     | Some _ \<Rightarrow> (mp_leave_channel e c s)\<lparr>mp_publishers := st_del e c (mp_publishers s)\<rparr>)"
  by (auto simp: mp_on_channel_pub_stop_def mp_leave_channel_def mp_push_def st_del_def Let_def split: option.splits)

lemma mp_step_ok:
  assumes wf: "mp_wf s"
  shows "\<exists>cs. mp_wf (mp_step env x s) \<and>
     mt_ctls pub_act (mp_queue (mp_step env x s)) = mt_ctls pub_act (mp_queue s) @ cs \<and>
     sessions (mp_held s) cs = Some (mp_held (mp_step env x s))"
proof (cases x)
  case (Mp_Start e l)
  let ?c = "gen_msg_channel_id env (mp_room s) l"
  have sets: "mp_sets (mp_on_channel_pub_start env e l s) = st_add ?c e (mp_sets s)"
    "mp_publishers (mp_on_channel_pub_start env e l s) = st_add e ?c (mp_publishers s)"
    by (cases "im_get (mp_channels s) ?c";
        simp add: mp_on_channel_pub_start_def mp_sets_def mp_push_def st_add_def Let_def im_map_insert)+
  have "mp_wf (mp_on_channel_pub_start env e l s)" using cross_add [OF wf [unfolded mp_wf_def], of ?c e] sets by (simp add: mp_wf_def)
  then show ?thesis
    using Mp_Start im_get_Some_key [of "mp_channels s" ?c] im_get_None_key [of "mp_channels s" ?c]
    by (cases "im_get (mp_channels s) ?c")
      (auto simp: mp_on_channel_pub_start_def mp_push_def mp_held_def Let_def im_keys_insert insert_absorb intro!: exI [of _ "[]"])
next
  case (Mp_Stop e l)
  let ?c = "gen_msg_channel_id env (mp_room s) l"
  show ?thesis
  proof (cases "im_get (mp_channels s) ?c")
    case None
    then show ?thesis using Mp_Stop wf by (auto simp: mp_stop_eq Let_def intro!: exI [of _ "[]"])
  next
    case (Some ch)
    have st: "st_wf (mp_sets s)" using wf by (simp add: mp_wf_def cross_def)
    have "mp_wf (mp_on_channel_pub_stop env e l s)"
      using cross_del [OF wf [unfolded mp_wf_def], of ?c e] Some mp_leave_channel_ok [OF st, of e ?c]
      by (auto simp: mp_stop_eq mp_wf_def mp_sets_def Let_def)
    then show ?thesis using Mp_Stop Some mp_leave_channel_ok [OF st, of e ?c] by (auto simp: mp_stop_eq mp_held_def Let_def)
  qed
next
  case (Mp_Leave e)
  show ?thesis
  proof (cases "im_get (mp_publishers s) e")
    case None
    then show ?thesis using Mp_Leave wf by (auto simp: mp_on_leave_def intro!: exI [of _ "[]"])
  next
    case (Some ks)
    let ?s = "s\<lparr>mp_publishers := im_swap_remove e (mp_publishers s)\<rparr>"
    have same: "mp_sets ?s = mp_sets s" "mp_queue ?s = mp_queue s" "mp_held ?s = mp_held s"
      by (simp_all add: mp_sets_def mp_held_def)
    have "st_wf (mp_sets ?s)" using wf by (simp add: same mp_wf_def cross_def)
    from mp_leave_fold [OF this, of e ks] show ?thesis
      using Mp_Leave Some cross_leave [OF wf [unfolded mp_wf_def] Some]
      by (auto simp: mp_on_leave_def mp_wf_def same)
  qed
next
  case (Mp_Data e l d)
  then show ?thesis using wf im_get_Some_key [of "mp_channels s" "gen_msg_channel_id env (mp_room s) l"]
    by (auto simp: mp_on_channel_data_def mp_push_def mp_wf_def mp_sets_def mp_held_def Let_def split: option.splits
        intro!: exI [of _ "[]"])
qed

section \<open>Channel sessions of the subscriber\<close>

lemma ms_leave_channel_ok:
  assumes "st_wf (ms_sets s)"
  shows "\<exists>cs. mt_ctls sub_act (ms_queue (ms_leave_channel e c s)) = mt_ctls sub_act (ms_queue s) @ cs \<and>
     sessions (ms_held s) cs = Some (ms_held (ms_leave_channel e c s)) \<and>
     ms_sets (ms_leave_channel e c s) = st_del c e (ms_sets s) \<and>
     ms_subscriptions (ms_leave_channel e c s) = ms_subscriptions s"
proof (cases "im_get (ms_channels s) c")
  case None
  then show ?thesis by (simp add: ms_leave_channel_def st_del_def ms_sets_def)
next
  case (Some ch)
  have wf: "im_wf (ms_channels s)" using assms by (simp add: st_wf_def ms_sets_def)
  show ?thesis
    using Some im_get_Some_key [OF Some] im_keys_swap_remove [OF wf, of c] im_swap_remove_insert [OF Some]
    by (cases "is_swap_remove e (msc_subscribers ch) = []")
      (simp_all add: ms_leave_channel_def st_del_def ms_sets_def ms_held_def ms_push_def Let_def
        im_map_swap_remove im_map_insert im_keys_insert insert_absorb)
qed

lemma ms_leave_fold:
  "st_wf (ms_sets s) \<Longrightarrow>
     \<exists>cs. mt_ctls sub_act (ms_queue (fold (ms_leave_channel e) ks s)) = mt_ctls sub_act (ms_queue s) @ cs \<and>
     sessions (ms_held s) cs = Some (ms_held (fold (ms_leave_channel e) ks s)) \<and>
     ms_sets (fold (ms_leave_channel e) ks s) = fold (\<lambda>k. st_del k e) ks (ms_sets s) \<and>
     ms_subscriptions (fold (ms_leave_channel e) ks s) = ms_subscriptions s"
proof (induction ks arbitrary: s)
  case Nil
  then show ?case by simp
next
  case (Cons k ks)
  obtain cs1 where s1: "mt_ctls sub_act (ms_queue (ms_leave_channel e k s)) = mt_ctls sub_act (ms_queue s) @ cs1"
    "sessions (ms_held s) cs1 = Some (ms_held (ms_leave_channel e k s))"
    "ms_sets (ms_leave_channel e k s) = st_del k e (ms_sets s)" "ms_subscriptions (ms_leave_channel e k s) = ms_subscriptions s"
    using ms_leave_channel_ok [OF Cons.prems] by blast
  have "st_wf (ms_sets (ms_leave_channel e k s))" using s1(3) Cons.prems by (simp add: st_wf_del)
  from Cons.IH [OF this] s1 show ?case by (auto simp: sessions_append)
qed

lemma ms_stop_eq:
  "ms_on_channel_unsubscribe env e l s = (let c = gen_msg_channel_id env (ms_room s) l in
     case im_get (ms_channels s) c of None \<Rightarrow> s
     | Some _ \<Rightarrow> (ms_leave_channel e c s)\<lparr>ms_subscriptions := st_del e c (ms_subscriptions s)\<rparr>)"
  by (auto simp: ms_on_channel_unsubscribe_def ms_leave_channel_def ms_push_def st_del_def Let_def split: option.splits)

lemma ms_step_ok:
  assumes wf: "ms_wf s"
  shows "\<exists>cs. ms_wf (ms_step env x s) \<and>
     mt_ctls sub_act (ms_queue (ms_step env x s)) = mt_ctls sub_act (ms_queue s) @ cs \<and>
     sessions (ms_held s) cs = Some (ms_held (ms_step env x s))"
proof (cases x)
  case (Ms_Subscribe e l)
  let ?c = "gen_msg_channel_id env (ms_room s) l"
  have sets: "ms_sets (ms_on_channel_subscribe env e l s) = st_add ?c e (ms_sets s)"
    "ms_subscriptions (ms_on_channel_subscribe env e l s) = st_add e ?c (ms_subscriptions s)"
    by (cases "im_get (ms_channels s) ?c";
        simp add: ms_on_channel_subscribe_def ms_sets_def ms_push_def st_add_def Let_def im_map_insert)+
  have "ms_wf (ms_on_channel_subscribe env e l s)" using cross_add [OF wf [unfolded ms_wf_def], of ?c e] sets by (simp add: ms_wf_def)
  then show ?thesis
    using Ms_Subscribe im_get_Some_key [of "ms_channels s" ?c] im_get_None_key [of "ms_channels s" ?c]
    by (cases "im_get (ms_channels s) ?c")
      (auto simp: ms_on_channel_subscribe_def ms_push_def ms_held_def Let_def im_keys_insert insert_absorb intro!: exI [of _ "[]"])
next
  case (Ms_Unsubscribe e l)
  let ?c = "gen_msg_channel_id env (ms_room s) l"
  show ?thesis
  proof (cases "im_get (ms_channels s) ?c")
    case None
    then show ?thesis using Ms_Unsubscribe wf by (auto simp: ms_stop_eq Let_def intro!: exI [of _ "[]"])
  next
    case (Some ch)
    have st: "st_wf (ms_sets s)" using wf by (simp add: ms_wf_def cross_def)
    have "ms_wf (ms_on_channel_unsubscribe env e l s)"
      using cross_del [OF wf [unfolded ms_wf_def], of ?c e] Some ms_leave_channel_ok [OF st, of e ?c]
      by (auto simp: ms_stop_eq ms_wf_def ms_sets_def Let_def)
    then show ?thesis using Ms_Unsubscribe Some ms_leave_channel_ok [OF st, of e ?c] by (auto simp: ms_stop_eq ms_held_def Let_def)
  qed
next
  case (Ms_Leave e)
  show ?thesis
  proof (cases "im_get (ms_subscriptions s) e")
    case None
    then show ?thesis using Ms_Leave wf by (auto simp: ms_on_leave_def intro!: exI [of _ "[]"])
  next
    case (Some ks)
    let ?s = "s\<lparr>ms_subscriptions := im_swap_remove e (ms_subscriptions s)\<rparr>"
    have same: "ms_sets ?s = ms_sets s" "ms_queue ?s = ms_queue s" "ms_held ?s = ms_held s"
      by (simp_all add: ms_sets_def ms_held_def)
    have "st_wf (ms_sets ?s)" using wf by (simp add: same ms_wf_def cross_def)
    from ms_leave_fold [OF this, of e ks] show ?thesis
      using Ms_Leave Some cross_leave [OF wf [unfolded ms_wf_def] Some]
      by (auto simp: ms_on_leave_def ms_wf_def same)
  qed
next
  case (Ms_Data c d)
  then show ?thesis using wf
    by (auto simp: ms_on_channel_data_def ms_push_def ms_wf_def ms_sets_def ms_held_def mt_ctls_def List.map_filter_def
        split: option.splits intro!: exI [of _ "[]"])
qed

interpretation mpc: session_client "\<lambda>x s. Inr (mp_step env x s)" "\<lambda>s. mt_ctls pub_act (mp_queue s)" mp_held mp_wf "\<lambda>_ _. True"
  for env :: "'f cluster_env"
  by unfold_locales (use mp_step_ok in blast)

interpretation msc: session_client "\<lambda>x s. Inr (ms_step env x s)" "\<lambda>s. mt_ctls sub_act (ms_queue s)" ms_held ms_wf "\<lambda>_ _. True"
  for env :: "'f cluster_env"
  by unfold_locales (use ms_step_ok in blast)

section \<open>Both sides of a room\<close>

fun mc_to_mp :: "'e mc_call \<Rightarrow> 'e mp_op list" where
  "mc_to_mp (Mc_PublishStart e l) = [Mp_Start e l]"
| "mc_to_mp (Mc_PublishStop e l) = [Mp_Stop e l]"
| "mc_to_mp (Mc_Data e l d) = [Mp_Data e l d]"
| "mc_to_mp (Mc_Leave e) = [Mp_Leave e]"
| "mc_to_mp _ = []"

fun mc_to_ms :: "'e mc_call \<Rightarrow> 'e ms_op list" where
  "mc_to_ms (Mc_Subscribe e l) = [Ms_Subscribe e l]"
| "mc_to_ms (Mc_Unsubscribe e l) = [Ms_Unsubscribe e l]"
| "mc_to_ms (Mc_Leave e) = [Ms_Leave e]"
| "mc_to_ms _ = []"

fun mc_endpoint :: "'e mc_call \<Rightarrow> 'e" where
  "mc_endpoint (Mc_PublishStart e _) = e"
| "mc_endpoint (Mc_PublishStop e _) = e"
| "mc_endpoint (Mc_Data e _ _) = e"
| "mc_endpoint (Mc_Subscribe e _) = e"
| "mc_endpoint (Mc_Unsubscribe e _) = e"
| "mc_endpoint (Mc_Leave e) = e"

lemma rmc_call_split:
  "rmc_publisher (rmc_on_call env x s) = fold (mp_step env) (mc_to_mp x) (rmc_publisher s)"
  "rmc_subscriber (rmc_on_call env x s) = fold (ms_step env) (mc_to_ms x) (rmc_subscriber s)"
  by (cases x; simp add: Let_def)+

lemma rmc_run_split:
  "rmc_publisher (fold (rmc_on_call env) cs s) = fold (mp_step env) (concat (map mc_to_mp cs)) (rmc_publisher s)"
  "rmc_subscriber (fold (rmc_on_call env) cs s) = fold (ms_step env) (concat (map mc_to_ms cs)) (rmc_subscriber s)"
  by (induction cs arbitrary: s) (simp_all add: rmc_call_split)

lemma rfold_total: "rfold (\<lambda>x s. Inr (f x s)) xs s = Inr (fold f xs s)"
  by (induction xs arbitrary: s) simp_all

lemma admits_run_total: "admits_run (\<lambda>_ _. True) (\<lambda>x s. Inr (f x s)) xs s"
  by (induction xs arbitrary: s) simp_all

lemma mc_wf_new: "mp_wf (mp_new room)" "ms_wf (ms_new room)"
  by (simp_all add: mp_wf_def mp_sets_def mp_new_def ms_wf_def ms_sets_def ms_new_def im_map_def cross_Nil)

lemma mc_new_simps [simp]: "mp_held (mp_new room) = {}" "mp_queue (mp_new room) = []"
  "ms_held (ms_new room) = {}" "ms_queue (ms_new room) = []"
  by (simp_all add: mp_held_def mp_new_def ms_held_def ms_new_def)

lemma mp_run_ok:
  "mp_wf (fold (mp_step env) xs (mp_new room)) \<and>
     sessions {} (mt_ctls pub_act (mp_queue (fold (mp_step env) xs (mp_new room)))) =
       Some (mp_held (fold (mp_step env) xs (mp_new room)))"
  using mpc.run_sessions [OF mc_wf_new(1) admits_run_total, of env xs room] by (auto simp: rfold_total)

lemma ms_run_ok:
  "ms_wf (fold (ms_step env) xs (ms_new room)) \<and>
     sessions {} (mt_ctls sub_act (ms_queue (fold (ms_step env) xs (ms_new room)))) =
       Some (ms_held (fold (ms_step env) xs (ms_new room)))"
  using msc.run_sessions [OF mc_wf_new(2) admits_run_total, of env xs room] by (auto simp: rfold_total)

subsection \<open>Who is still on some channel\<close>

definition mp_on :: "('e, 'f) message_channel_publisher \<Rightarrow> 'e set" where
  "mp_on s = fst ` set (mp_publishers s)"

definition ms_on :: "('e, 'f) message_channel_subscriber \<Rightarrow> 'e set" where
  "ms_on s = fst ` set (ms_subscriptions s)"

fun mp_gone :: "'e mp_op \<Rightarrow> 'e set \<Rightarrow> 'e set" where
  "mp_gone (Mp_Start e _) A = insert e A"
| "mp_gone (Mp_Leave e) A = A - {e}"
| "mp_gone _ A = A"

fun ms_gone :: "'e ms_op \<Rightarrow> 'e set \<Rightarrow> 'e set" where
  "ms_gone (Ms_Subscribe e _) A = insert e A"
| "ms_gone (Ms_Leave e) A = A - {e}"
| "ms_gone _ A = A"

lemma st_keys_del: "im_wf m \<Longrightarrow> fst ` set (st_del k x m) \<subseteq> fst ` set m"
  by (auto simp: st_del_def Let_def im_keys_insert im_keys_swap_remove im_get_Some_key split: option.splits if_splits)

lemma mp_on_step:
  assumes wf: "mp_wf s" and A: "mp_on s \<subseteq> A"
  shows "mp_on (mp_step env x s) \<subseteq> mp_gone x A"
proof -
  have im: "im_wf (mp_publishers s)" and st: "st_wf (mp_sets s)" using wf by (auto simp: mp_wf_def cross_def st_wf_def)
  show ?thesis
  proof (cases x)
    case (Mp_Start e l)
    then show ?thesis using A by (auto simp: mp_on_def mp_on_channel_pub_start_def mp_push_def Let_def im_keys_insert split: option.splits)
  next
    case (Mp_Stop e l)
    then show ?thesis using A st_keys_del [OF im, of e "gen_msg_channel_id env (mp_room s) l"]
      by (cases "im_get (mp_channels s) (gen_msg_channel_id env (mp_room s) l)") (simp_all add: mp_on_def mp_stop_eq Let_def)
  next
    case (Mp_Leave e)
    show ?thesis
    proof (cases "im_get (mp_publishers s) e")
      case None
      then show ?thesis using Mp_Leave A im_get_None_key [OF None] by (auto simp: mp_on_leave_def mp_on_def)
    next
      case (Some ks)
      have "mp_publishers (fold (mp_leave_channel e) ks (s\<lparr>mp_publishers := im_swap_remove e (mp_publishers s)\<rparr>))
          = im_swap_remove e (mp_publishers s)"
        using mp_leave_fold [of "s\<lparr>mp_publishers := im_swap_remove e (mp_publishers s)\<rparr>" e ks] st by (auto simp: mp_sets_def)
      then show ?thesis using Mp_Leave Some A im_keys_swap_remove [OF im, of e] by (auto simp: mp_on_leave_def mp_on_def)
    qed
  next
    case (Mp_Data e l d)
    then show ?thesis using A by (auto simp: mp_on_def mp_on_channel_data_def mp_push_def Let_def split: option.splits)
  qed
qed

lemma ms_on_step:
  assumes wf: "ms_wf s" and A: "ms_on s \<subseteq> A"
  shows "ms_on (ms_step env x s) \<subseteq> ms_gone x A"
proof -
  have im: "im_wf (ms_subscriptions s)" and st: "st_wf (ms_sets s)" using wf by (auto simp: ms_wf_def cross_def st_wf_def)
  show ?thesis
  proof (cases x)
    case (Ms_Subscribe e l)
    then show ?thesis using A by (auto simp: ms_on_def ms_on_channel_subscribe_def ms_push_def Let_def im_keys_insert split: option.splits)
  next
    case (Ms_Unsubscribe e l)
    then show ?thesis using A st_keys_del [OF im, of e "gen_msg_channel_id env (ms_room s) l"]
      by (cases "im_get (ms_channels s) (gen_msg_channel_id env (ms_room s) l)") (simp_all add: ms_on_def ms_stop_eq Let_def)
  next
    case (Ms_Leave e)
    show ?thesis
    proof (cases "im_get (ms_subscriptions s) e")
      case None
      then show ?thesis using Ms_Leave A im_get_None_key [OF None] by (auto simp: ms_on_leave_def ms_on_def)
    next
      case (Some ks)
      have "ms_subscriptions (fold (ms_leave_channel e) ks (s\<lparr>ms_subscriptions := im_swap_remove e (ms_subscriptions s)\<rparr>))
          = im_swap_remove e (ms_subscriptions s)"
        using ms_leave_fold [of "s\<lparr>ms_subscriptions := im_swap_remove e (ms_subscriptions s)\<rparr>" e ks] st by (auto simp: ms_sets_def)
      then show ?thesis using Ms_Leave Some A im_keys_swap_remove [OF im, of e] by (auto simp: ms_on_leave_def ms_on_def)
    qed
  next
    case (Ms_Data c d)
    then show ?thesis using A by (auto simp: ms_on_def ms_on_channel_data_def ms_push_def split: option.splits)
  qed
qed

lemma mp_on_run: "mp_wf s \<Longrightarrow> mp_on s \<subseteq> A \<Longrightarrow> mp_on (fold (mp_step env) xs s) \<subseteq> fold mp_gone xs A"
proof (induction xs arbitrary: s A)
  case (Cons x xs)
  then show ?case using mp_on_step [OF Cons.prems, of env x] mp_step_ok [OF Cons.prems(1), of env x] by auto
qed simp

lemma ms_on_run: "ms_wf s \<Longrightarrow> ms_on s \<subseteq> A \<Longrightarrow> ms_on (fold (ms_step env) xs s) \<subseteq> fold ms_gone xs A"
proof (induction xs arbitrary: s A)
  case (Cons x xs)
  then show ?case using ms_on_step [OF Cons.prems, of env x] ms_step_ok [OF Cons.prems(1), of env x] by auto
qed simp

lemma gone_bound:
  "A \<subseteq> B \<Longrightarrow> mc_endpoint ` set cs \<subseteq> B \<Longrightarrow> fold mp_gone (concat (map mc_to_mp cs)) A \<subseteq> B"
  "A \<subseteq> B \<Longrightarrow> mc_endpoint ` set cs \<subseteq> B \<Longrightarrow> fold ms_gone (concat (map mc_to_ms cs)) A \<subseteq> B"
proof (induction cs arbitrary: A)
  case (Cons c cs)
  { case 1 then show ?case using Cons.IH(1) [of A] Cons.IH(1) [of "insert (mc_endpoint c) A"]
      Cons.IH(1) [of "A - {mc_endpoint c}"] by (cases c) (simp_all add: subset_iff) }
  { case 2 then show ?case using Cons.IH(2) [of A] Cons.IH(2) [of "insert (mc_endpoint c) A"]
      Cons.IH(2) [of "A - {mc_endpoint c}"] by (cases c) (simp_all add: subset_iff) }
qed simp_all

lemma gone_leave:
  "fold mp_gone (concat (map mc_to_mp (map Mc_Leave es))) A = A - set es"
  "fold ms_gone (concat (map mc_to_ms (map Mc_Leave es))) A = A - set es"
  by (induction es arbitrary: A) auto

section \<open>Properties\<close>

text \<open>
  C25. Message channels keep to the network's channel protocol: whatever the endpoints of a room
  do (start and stop publishing, send, subscribe, unsubscribe, leave, in any order and also
  without having started), every channel is started once before data is sent on it and stopped
  once, and every subscription is opened and closed once; what is open is exactly what the
  tables hold.
\<close>

theorem rmc_channel_sessions:
  "sessions {} (mt_ctls pub_act (mp_queue (rmc_publisher (fold (rmc_on_call env) cs (rmc_new room))))) =
     Some (mp_held (rmc_publisher (fold (rmc_on_call env) cs (rmc_new room)))) \<and>
   sessions {} (mt_ctls sub_act (ms_queue (rmc_subscriber (fold (rmc_on_call env) cs (rmc_new room))))) =
     Some (ms_held (rmc_subscriber (fold (rmc_on_call env) cs (rmc_new room))))"
  by (simp add: rmc_run_split rmc_new_def mp_run_ok ms_run_ok)

text \<open>
  C26. Leaving cleans up: after any history of calls, when every endpoint that took part has left,
  no channel, publisher or subscription is remembered on either side, so that once the queued
  messages are fetched the room's message channels can be dropped without a failed assertion.
\<close>

theorem rmc_all_left:
  fixes env :: "'f cluster_env" and room :: room_hash and cs :: "'e mc_call list"
  assumes "mc_endpoint ` set cs \<subseteq> set es"
  defines "s \<equiv> fold (rmc_on_call env) (cs @ map Mc_Leave es) (rmc_new room)"
  shows "mp_channels (rmc_publisher s) = [] \<and> mp_publishers (rmc_publisher s) = [] \<and>
     ms_channels (rmc_subscriber s) = [] \<and> ms_subscriptions (rmc_subscriber s) = [] \<and>
     rmc_drop (s\<lparr>rmc_publisher := (rmc_publisher s)\<lparr>mp_queue := []\<rparr>,
                rmc_subscriber := (rmc_subscriber s)\<lparr>ms_queue := []\<rparr>\<rparr>) = Inr ()"
proof -
  have p: "rmc_publisher s = fold (mp_step env) (concat (map mc_to_mp (cs @ map Mc_Leave es))) (mp_new room)"
    and u: "rmc_subscriber s = fold (ms_step env) (concat (map mc_to_ms (cs @ map Mc_Leave es))) (ms_new room)"
    by (simp_all only: s_def rmc_run_split) (simp_all add: rmc_new_def)
  have none: "mp_on (mp_new room) \<subseteq> {}" "ms_on (ms_new room) \<subseteq> {}"
    by (simp_all add: mp_on_def mp_new_def ms_on_def ms_new_def)
  have "fold mp_gone (concat (map mc_to_mp (cs @ map Mc_Leave es))) {} = {}"
    "fold ms_gone (concat (map mc_to_ms (cs @ map Mc_Leave es))) {} = {}"
    using gone_bound [OF empty_subsetI assms(1)] by (simp_all add: gone_leave del: map_map)
  then have "mp_on (rmc_publisher s) \<subseteq> {}" "ms_on (rmc_subscriber s) \<subseteq> {}"
    using mp_on_run [OF mc_wf_new(1) none(1), of env "concat (map mc_to_mp (cs @ map Mc_Leave es))"]
      ms_on_run [OF mc_wf_new(2) none(2), of env "concat (map mc_to_ms (cs @ map Mc_Leave es))"]
    unfolding p u by (simp_all only:)
  then have e: "mp_publishers (rmc_publisher s) = []" "ms_subscriptions (rmc_subscriber s) = []"
    by (simp_all add: mp_on_def ms_on_def)
  have "mp_wf (rmc_publisher s)" "ms_wf (rmc_subscriber s)" using mp_run_ok ms_run_ok unfolding p u by blast+
  then have "mp_sets (rmc_publisher s) = []" "ms_sets (rmc_subscriber s) = []"
    using e cross_empty by (fastforce simp: mp_wf_def ms_wf_def)+
  then have "mp_channels (rmc_publisher s) = []" "ms_channels (rmc_subscriber s) = []"
    by (simp_all add: mp_sets_def ms_sets_def im_map_def)
  with e show ?thesis by (simp add: rmc_drop_def mp_drop_def ms_drop_def mp_is_empty_def ms_is_empty_def)
qed

theorem rmc_all_left_witness:
  "mp_channels (rmc_publisher (fold (rmc_on_call demo_env)
     [Mc_PublishStart (1::nat) ''chat'', Mc_Subscribe 2 ''chat'', Mc_Leave 1, Mc_Leave 2] (rmc_new 3))) = []"
  using rmc_all_left [of "[Mc_PublishStart (1::nat) ''chat'', Mc_Subscribe 2 ''chat'']" "[1, 2]" demo_env 3] by simp

end
