(* ===== verification/Audio_Mixer.thy ===== *)
theory Audio_Mixer
  imports Index_Map
begin

text \<open>
  \<^verbatim>\<open>packages/audio_mixer/src/lib.rs\<close>: the selector that gives a fixed number of output slots to the
  audio sources of a room. \<open>am_wf\<close> ties the slots of the sources to the sources of the slots;
  \<open>am_owner\<close> is the abstract view, the source that each slot plays. The locale \<open>slot_selector\<close>
  states what a client relies on: from the answers alone it can follow the owners. Instants are
  nanoseconds, audio levels are the values of \<^verbatim>\<open>i8\<close> (the sum with the threshold is taken in
  \<^verbatim>\<open>i16\<close> by the code and does not overflow there).
\<close>

section \<open>The mixer\<close>

definition SILENT_LEVEL :: int where "SILENT_LEVEL = - 127"

definition SWITCH_AUDIO_THRESHOLD :: int where "SWITCH_AUDIO_THRESHOLD = 30"

definition AUDIO_SLOT_TIMEOUT :: nat where "AUDIO_SLOT_TIMEOUT = 1000 * 1000000"

record source_state =
  ss_last_changed_at :: nat
  ss_slot :: "nat option"

record 'src output_slot_state =
  os_audio_level :: int
  os_source :: 'src

record 'src audio_mixer =
  am_len :: nat
  am_sources :: "('src, source_state) imap"
  am_outputs :: "'src output_slot_state option list"

definition am_new :: "nat \<Rightarrow> 'src audio_mixer" where
  "am_new output = \<lparr>am_len = 0, am_sources = [], am_outputs = replicate output None\<rparr>"

text \<open>The closure of \<^verbatim>\<open>retain\<close> on one entry: the state is the mixer, the entries kept so far and
  the slots cleared so far.\<close>

fun am_retain ::
  "nat \<Rightarrow> 'src \<times> source_state \<Rightarrow> 'src audio_mixer \<times> ('src, source_state) imap \<times> nat list \<Rightarrow>
   ('src audio_mixer \<times> ('src, source_state) imap \<times> nat list) run" where
  "am_retain now (k, v) (m, kept, clear) =
     (if ss_last_changed_at v + AUDIO_SLOT_TIMEOUT \<le> now then
        (case ss_slot v of None \<Rightarrow> Inr (m, kept, clear)
         | Some slot \<Rightarrow> rbind (rindex (am_outputs m) slot) (\<lambda>_.
             Inr (m\<lparr>am_outputs := (am_outputs m)[slot := None], am_len := u64_sub (am_len m) 1\<rparr>, kept, clear @ [slot])))
      else Inr (m, kept @ [(k, v)], clear))"

definition am_on_tick :: "nat \<Rightarrow> 'src audio_mixer \<Rightarrow> ('src audio_mixer \<times> nat list option) run" where
  "am_on_tick now m = rbind (rfold (am_retain now) (am_sources m) (m, [], [])) (\<lambda>(m', kept, clear).
     Inr (m'\<lparr>am_sources := kept\<rparr>, if clear = [] then None else Some clear))"

fun first_empty :: "nat \<Rightarrow> 'a option list \<Rightarrow> nat option" where
  "first_empty i [] = None"
| "first_empty i (x # xs) = (if x = None then Some i else first_empty (Suc i) xs)"

definition am_find_empty_slot :: "'src audio_mixer \<Rightarrow> nat option" where
  "am_find_empty_slot m = first_empty 0 (am_outputs m)"

definition am_has_empty_slot :: "'src audio_mixer \<Rightarrow> bool" where
  "am_has_empty_slot m \<longleftrightarrow> am_len m < length (am_outputs m)"

fun lowest_from :: "(nat \<times> 'src \<times> int) option \<Rightarrow> nat \<Rightarrow> 'src output_slot_state option list \<Rightarrow> (nat \<times> 'src \<times> int) option" where
  "lowest_from best i [] = best"
| "lowest_from best i (None # xs) = lowest_from best (Suc i) xs"
| "lowest_from best i (Some s # xs) =
     lowest_from (case best of None \<Rightarrow> Some (i, os_source s, os_audio_level s)
        | Some (_, _, l) \<Rightarrow> if os_audio_level s \<le> l then Some (i, os_source s, os_audio_level s) else best) (Suc i) xs"

definition am_lowest_slot :: "'src audio_mixer \<Rightarrow> (nat \<times> 'src \<times> int) option" where
  "am_lowest_slot m = lowest_from None 0 (am_outputs m)"

text \<open>\<^verbatim>\<open>self.sources.get_mut(&k).expect(..).slot = slot\<close> and \<^verbatim>\<open>self.outputs[slot] = Some(..)\<close>.\<close>

definition am_set_slot :: "'src \<Rightarrow> nat option \<Rightarrow> 'src audio_mixer \<Rightarrow> 'src audio_mixer run" where
  "am_set_slot k slot m = rbind (rexpect (im_get (am_sources m) k)) (\<lambda>v.
     Inr (m\<lparr>am_sources := im_insert k (v\<lparr>ss_slot := slot\<rparr>) (am_sources m)\<rparr>))"

definition am_set_output :: "nat \<Rightarrow> int \<Rightarrow> 'src \<Rightarrow> 'src audio_mixer \<Rightarrow> 'src audio_mixer run" where
  "am_set_output slot level source m = rbind (rindex (am_outputs m) slot) (\<lambda>_.
     Inr (m\<lparr>am_outputs := (am_outputs m)[slot := Some \<lparr>os_audio_level = level, os_source = source\<rparr>]\<rparr>))"

definition am_known :: "nat \<Rightarrow> 'src \<Rightarrow> int \<Rightarrow> source_state \<Rightarrow> 'src audio_mixer \<Rightarrow> ('src audio_mixer \<times> (nat \<times> bool) option) run" where
  "am_known now source level st m =
     (let m1 = m\<lparr>am_sources := im_insert source (st\<lparr>ss_last_changed_at := now\<rparr>) (am_sources m)\<rparr> in
      case ss_slot st of
        Some slot \<Rightarrow> Inr (m1, Some (slot, False))
      | None \<Rightarrow>
          if am_has_empty_slot m1 then
            rbind (rexpect (am_find_empty_slot m1)) (\<lambda>slot.
            rbind (am_set_slot source (Some slot) m1) (\<lambda>m2.
            rbind (am_set_output slot level source m2) (\<lambda>m3.
            Inr (m3\<lparr>am_len := u64_add (am_len m3) 1\<rparr>, Some (slot, True)))))
          else
            rbind (rexpect (am_lowest_slot m1)) (\<lambda>(lowest_index, lowest_source, lowest_level).
            if lowest_source \<noteq> source \<and> lowest_level + SWITCH_AUDIO_THRESHOLD \<le> level then
              rbind (am_set_slot source (Some lowest_index) m1) (\<lambda>m2.
              rbind (am_set_slot lowest_source None m2) (\<lambda>m3.
              rbind (am_set_output lowest_index level source m3) (\<lambda>m4.
              Inr (m4, Some (lowest_index, True)))))
            else Inr (m1, None)))"

definition am_unknown :: "nat \<Rightarrow> 'src \<Rightarrow> int \<Rightarrow> 'src audio_mixer \<Rightarrow> ('src audio_mixer \<times> (nat \<times> bool) option) run" where
  "am_unknown now source level m = (case am_find_empty_slot m of
     Some slot \<Rightarrow>
       rbind (am_set_output slot level source
         (m\<lparr>am_sources := im_insert source \<lparr>ss_last_changed_at = now, ss_slot = Some slot\<rparr> (am_sources m)\<rparr>)) (\<lambda>m1.
       Inr (m1\<lparr>am_len := u64_add (am_len m1) 1\<rparr>, Some (slot, True)))
   | None \<Rightarrow> Inr (m\<lparr>am_sources := im_insert source \<lparr>ss_last_changed_at = now, ss_slot = None\<rparr> (am_sources m)\<rparr>, None))"

definition am_on_pkt :: "nat \<Rightarrow> 'src \<Rightarrow> int option \<Rightarrow> 'src audio_mixer \<Rightarrow> ('src audio_mixer \<times> (nat \<times> bool) option) run" where
  "am_on_pkt now source audio_level m =
     (let level = (case audio_level of None \<Rightarrow> SILENT_LEVEL | Some l \<Rightarrow> l) in
      case im_get (am_sources m) source of
        Some st \<Rightarrow> am_known now source level st m
      | None \<Rightarrow> am_unknown now source level m)"

section \<open>Invariant and abstract view\<close>

definition am_owner :: "'src audio_mixer \<Rightarrow> nat \<Rightarrow> 'src option" where
  "am_owner m i = (if i < length (am_outputs m) then map_option os_source (am_outputs m ! i) else None)"

definition am_slot_of :: "'src audio_mixer \<Rightarrow> 'src \<Rightarrow> nat option" where
  "am_slot_of m k = Option.bind (im_get (am_sources m) k) ss_slot"

definition occupied :: "'a option list \<Rightarrow> nat" where
  "occupied xs = length (filter (\<lambda>x. x \<noteq> None) xs)"

definition am_wf :: "nat \<Rightarrow> 'src audio_mixer \<Rightarrow> bool" where
  "am_wf n m \<longleftrightarrow> im_wf (am_sources m) \<and> length (am_outputs m) = n \<and> am_len m = occupied (am_outputs m) \<and>
     (\<forall>k i. am_slot_of m k = Some i \<longleftrightarrow> am_owner m i = Some k)"

section \<open>Slots\<close>

lemma first_empty_Some:
  "first_empty j xs = Some i \<Longrightarrow> \<exists>k<length xs. i = j + k \<and> xs ! k = None"
  by (induction j xs rule: first_empty.induct) (force split: if_splits)+

lemma first_empty_None: "first_empty j xs = None \<longleftrightarrow> None \<notin> set xs"
  by (induction j xs rule: first_empty.induct) auto

lemma occupied_simps [simp]: "occupied [] = 0" "occupied (x # xs) = (if x = None then 0 else 1) + occupied xs"
  by (simp_all add: occupied_def)

lemma occupied_le: "occupied xs \<le> length xs"
  by (simp add: occupied_def)

lemma occupied_full: "occupied xs = length xs \<longleftrightarrow> None \<notin> set xs"
proof (induction xs)
  case (Cons x xs)
  then show ?case using occupied_le [of xs] by (cases x) simp_all
qed simp

lemma occupied_set:
  "i < length xs \<Longrightarrow> occupied (xs[i := Some y]) = (if xs ! i = None then Suc (occupied xs) else occupied xs)"
  by (induction xs arbitrary: i) (auto split: nat.splits)

lemma occupied_clear: "i < length xs \<Longrightarrow> xs ! i \<noteq> None \<Longrightarrow> Suc (occupied (xs[i := None])) = occupied xs"
  by (induction xs arbitrary: i) (auto simp: nth_Cons split: nat.splits)

definition clear_all :: "nat list \<Rightarrow> 'a option list \<Rightarrow> 'a option list" where
  "clear_all is xs = fold (\<lambda>i xs. xs[i := None]) is xs"

lemma clear_all_simps [simp]: "clear_all [] xs = xs" "clear_all (i # is) xs = clear_all is (xs[i := None])"
  by (simp_all add: clear_all_def)

lemma length_clear_all [simp]: "length (clear_all is xs) = length xs"
  by (induction "is" arbitrary: xs) simp_all

lemma nth_clear_all: "j < length xs \<Longrightarrow> clear_all is xs ! j = (if j \<in> set is then None else xs ! j)"
  by (induction "is" arbitrary: xs) (auto simp: nth_list_update)

lemma occupied_clear_all:
  "distinct is \<Longrightarrow> \<forall>i\<in>set is. i < length xs \<and> xs ! i \<noteq> None \<Longrightarrow> occupied (clear_all is xs) + length is = occupied xs"
proof (induction "is" arbitrary: xs)
  case Nil
  then show ?case by simp
next
  case (Cons i "is")
  then have "occupied (clear_all is (xs[i := None])) + length is = occupied (xs[i := None])"
    by (intro Cons.IH) (auto simp: nth_list_update)
  then show ?case using occupied_clear [of i xs] Cons.prems by simp
qed

lemma lowest_from_Some:
  "lowest_from best j xs = Some (i, s, l) \<Longrightarrow>
     (best = Some (i, s, l) \<or> (\<exists>k<length xs. i = j + k \<and> xs ! k = Some \<lparr>os_audio_level = l, os_source = s\<rparr>)) \<and>
     (\<forall>x. Some x \<in> set xs \<longrightarrow> l \<le> os_audio_level x) \<and> (\<forall>a b c. best = Some (a, b, c) \<longrightarrow> l \<le> c)"
proof (induction best j xs rule: lowest_from.induct)
  case (1 best j)
  then show ?case by simp
next
  case (2 best j xs)
  then show ?case by (auto intro: exI [of _ "Suc _"])
next
  case (3 best j x xs)
  let ?new = "Some (j, os_source x, os_audio_level x)"
  let ?best = "case best of None \<Rightarrow> ?new | Some (_, _, l) \<Rightarrow> if os_audio_level x \<le> l then ?new else best"
  have ih: "(?best = Some (i, s, l) \<or> (\<exists>k<length xs. i = Suc j + k \<and> xs ! k = Some \<lparr>os_audio_level = l, os_source = s\<rparr>)) \<and>
     (\<forall>x. Some x \<in> set xs \<longrightarrow> l \<le> os_audio_level x) \<and> (\<forall>a b c. ?best = Some (a, b, c) \<longrightarrow> l \<le> c)"
    using 3 by simp
  have b: "?best = best \<or> ?best = ?new" by (auto split: option.splits)
  have le: "l \<le> os_audio_level x" "\<forall>a b c. best = Some (a, b, c) \<longrightarrow> l \<le> c"
    using ih by (auto split: option.splits if_splits)
  have "best = Some (i, s, l) \<or> (\<exists>k<length (Some x # xs). i = j + k \<and> (Some x # xs) ! k = Some \<lparr>os_audio_level = l, os_source = s\<rparr>)"
    using ih b by (auto intro: exI [of _ 0] exI [of _ "Suc _"])
  then show ?case using ih le by auto
qed

lemma lowest_from_None: "lowest_from best j xs = None \<longleftrightarrow> best = None \<and> (\<forall>x\<in>set xs. x = None)"
  by (induction best j xs rule: lowest_from.induct) (auto split: option.splits)

section \<open>The invariant\<close>

lemma am_wf_new: "am_wf n (am_new n)"
  by (simp add: am_wf_def am_new_def am_slot_of_def am_owner_def occupied_def)

lemma am_wfD:
  assumes "am_wf n m"
  shows "im_wf (am_sources m)" "length (am_outputs m) = n" "am_len m = occupied (am_outputs m)" "am_len m \<le> n"
    and "am_slot_of m k = Some i \<longleftrightarrow> am_owner m i = Some k"
  using assms occupied_le [of "am_outputs m"] by (auto simp: am_wf_def)

lemma am_owner_inj: "am_wf n m \<Longrightarrow> am_owner m i = Some k \<Longrightarrow> am_owner m j = Some k \<Longrightarrow> i = j"
  using am_wfD(5) [of n m k i] am_wfD(5) [of n m k j] by simp

lemma am_owner_bound: "am_wf n m \<Longrightarrow> am_owner m i = Some k \<Longrightarrow> i < n"
  using am_wfD(2) [of n m] by (simp add: am_owner_def split: if_splits)

lemma am_not_owner: "am_wf n m \<Longrightarrow> am_slot_of m k = None \<longleftrightarrow> k \<notin> ran (am_owner m)"
  using am_wfD(5) [of n m k] by (fastforce simp: ran_def)

lemma am_owner_set:
  "i < length (am_outputs m) \<Longrightarrow>
     am_owner (m\<lparr>am_outputs := (am_outputs m)[i := Some \<lparr>os_audio_level = l, os_source = k\<rparr>]\<rparr>) = (am_owner m)(i \<mapsto> k)"
  by (auto simp: am_owner_def nth_list_update fun_eq_iff)

lemma am_owner_cong: "am_outputs m = am_outputs m' \<Longrightarrow> am_owner m = am_owner m'"
  by (simp add: am_owner_def fun_eq_iff)

lemma am_slot_of_cong: "am_sources m = am_sources m' \<Longrightarrow> am_slot_of m = am_slot_of m'"
  by (simp add: am_slot_of_def fun_eq_iff)

lemma am_slot_of_set:
  "am_slot_of (m\<lparr>am_sources := im_insert k v (am_sources m)\<rparr>) = (am_slot_of m)(k := ss_slot v)"
  by (auto simp: am_slot_of_def list_upd fun_eq_iff)

text \<open>Touching a source without changing its slot keeps everything.\<close>

lemma am_wf_touch:
  assumes "am_wf n m" "ss_slot v = am_slot_of m k"
  shows "am_wf n (m\<lparr>am_sources := im_insert k v (am_sources m)\<rparr>)"
  using assms by (auto simp: am_wf_def am_slot_of_set list_upd am_owner_cong [of "m\<lparr>am_sources := _\<rparr>" m])

text \<open>A source without a slot takes the slot \<open>i\<close>, whose owner, if any, loses it.\<close>

lemma am_wf_take:
  assumes wf: "am_wf n m" and k: "am_slot_of m k = None" and i: "i < n"
    and out: "am_outputs m' = (am_outputs m)[i := Some \<lparr>os_audio_level = l, os_source = k\<rparr>]"
    and len: "am_len m' = (if am_owner m i = None then Suc (am_len m) else am_len m)"
    and src: "im_wf (am_sources m')"
    and slot: "am_slot_of m' = (\<lambda>x. if x = k then Some i else if am_owner m i = Some x then None else am_slot_of m x)"
  shows "am_wf n m'" "am_owner m' = (am_owner m)(i \<mapsto> k)"
proof -
  have il: "i < length (am_outputs m)" using i am_wfD(2) [OF wf] by simp
  show ow: "am_owner m' = (am_owner m)(i \<mapsto> k)"
    using am_owner_set [OF il, of l k] am_owner_cong [of m' "m\<lparr>am_outputs := am_outputs m'\<rparr>"] out by simp
  have "am_len m' = occupied (am_outputs m')"
    using il len am_wfD(3) [OF wf] by (simp add: out occupied_set am_owner_def)
  moreover have "am_slot_of m' x = Some j \<longleftrightarrow> am_owner m' j = Some x" for x j
    using am_wfD(5) [OF wf, of x j] am_wfD(5) [OF wf, of k j] am_wfD(5) [OF wf, of x i] k unfolding slot ow by auto
  ultimately show "am_wf n m'" using src am_wfD(2) [OF wf] by (simp add: am_wf_def out)
qed

section \<open>Packets\<close>

text \<open>What the answer to a packet of the source \<open>k\<close> says about the owners of the slots.\<close>

definition pkt_answer :: "(nat \<Rightarrow> 'src option) \<Rightarrow> (nat \<Rightarrow> 'src option) \<Rightarrow> 'src \<Rightarrow> (nat \<times> bool) option \<Rightarrow> bool" where
  "pkt_answer own own' k r = (case r of
     None \<Rightarrow> k \<notin> ran own \<and> own' = own
   | Some (i, just_set) \<Rightarrow> if just_set then k \<notin> ran own \<and> own' = own(i \<mapsto> k) else own i = Some k \<and> own' = own)"

text \<open>A slot is taken from its owner only when all slots are in use, and then from a source with
  the lowest level, by a source that is louder by the threshold.\<close>

definition switch_rule :: "'src audio_mixer \<Rightarrow> int \<Rightarrow> (nat \<times> bool) option \<Rightarrow> bool" where
  "switch_rule m level r = (\<forall>i y. r = Some (i, True) \<longrightarrow> am_outputs m ! i = Some y \<longrightarrow>
     None \<notin> set (am_outputs m) \<and> os_audio_level y + SWITCH_AUDIO_THRESHOLD \<le> level \<and>
     (\<forall>x. Some x \<in> set (am_outputs m) \<longrightarrow> os_audio_level y \<le> os_audio_level x))"

definition pkt_ok :: "nat \<Rightarrow> 'src \<Rightarrow> int \<Rightarrow> 'src audio_mixer \<Rightarrow> ('src audio_mixer \<times> (nat \<times> bool) option) run \<Rightarrow> bool" where
  "pkt_ok n k level m res \<longleftrightarrow> (\<exists>m' r. res = Inr (m', r) \<and> am_wf n m' \<and> pkt_answer (am_owner m) (am_owner m') k r \<and>
     switch_rule m level r)"

lemma am_find_empty_wf:
  assumes "am_wf n m" "am_find_empty_slot m = Some i"
  shows "i < n" "am_owner m i = None" "am_outputs m ! i = None" "am_len m < n"
proof -
  have i: "i < length (am_outputs m)" "am_outputs m ! i = None"
    using first_empty_Some [of 0 "am_outputs m" i] assms(2) by (auto simp: am_find_empty_slot_def)
  then show "i < n" "am_owner m i = None" "am_outputs m ! i = None"
    using am_wfD(2) [OF assms(1)] by (simp_all add: am_owner_def)
  have "None \<in> set (am_outputs m)" using i nth_mem by fastforce
  then show "am_len m < n"
    using am_wfD(2-4) [OF assms(1)] occupied_full [of "am_outputs m"] by (simp add: le_neq_implies_less)
qed

lemma am_has_empty_iff: "am_wf n m \<Longrightarrow> am_has_empty_slot m \<longleftrightarrow> am_find_empty_slot m \<noteq> None"
  using am_wfD(2-3) [of n m] occupied_full [of "am_outputs m"] occupied_le [of "am_outputs m"] first_empty_None [of 0 "am_outputs m"]
  by (fastforce simp: am_has_empty_slot_def am_find_empty_slot_def simp del: not_None_eq)

lemma am_unknown_ok:
  assumes wf: "am_wf n m" and n: "n < 2 ^ 64" and k: "im_get (am_sources m) k = None"
  shows "pkt_ok n k level m (am_unknown now k level m)"
proof (cases "am_find_empty_slot m")
  case None
  have s: "am_slot_of m k = None" using k by (simp add: am_slot_of_def)
  have "am_wf n (m\<lparr>am_sources := im_insert k \<lparr>ss_last_changed_at = now, ss_slot = None\<rparr> (am_sources m)\<rparr>)"
    using am_wf_touch [OF wf, of "\<lparr>ss_last_changed_at = now, ss_slot = None\<rparr>" k] s by simp
  then show ?thesis using None s am_not_owner [OF wf, of k]
    by (simp add: pkt_ok_def am_unknown_def pkt_answer_def switch_rule_def am_owner_cong [of "m\<lparr>am_sources := _\<rparr>" m])
next
  case (Some i)
  note e = am_find_empty_wf [OF wf Some]
  have s: "am_slot_of m k = None" using k by (simp add: am_slot_of_def)
  let ?m = "m\<lparr>am_sources := im_insert k \<lparr>ss_last_changed_at = now, ss_slot = Some i\<rparr> (am_sources m),
      am_outputs := (am_outputs m)[i := Some \<lparr>os_audio_level = level, os_source = k\<rparr>], am_len := Suc (am_len m)\<rparr>"
  have "am_slot_of ?m = (\<lambda>x. if x = k then Some i else if am_owner m i = Some x then None else am_slot_of m x)"
    using e by (auto simp: fun_eq_iff am_slot_of_def list_upd)
  then have "am_wf n ?m" "am_owner ?m = (am_owner m)(i \<mapsto> k)"
    using am_wf_take [OF wf s e(1), of ?m level] e am_wfD(1) [OF wf] by (simp_all add: list_upd)
  moreover have "am_unknown now k level m = Inr (?m, Some (i, True))"
    using Some e n am_wfD(2) [OF wf] by (simp add: am_unknown_def am_set_output_def)
  ultimately show ?thesis using am_not_owner [OF wf, of k] s e
    by (simp add: pkt_ok_def pkt_answer_def switch_rule_def)
qed

text \<open>A known source without a slot: it takes an empty slot, or the slot of the lowest source.\<close>

lemma am_claim_empty:
  assumes wf: "am_wf n m" and n: "n < 2 ^ 64" and k: "im_get (am_sources m) k = Some st" "ss_slot st = None"
    and i: "am_find_empty_slot m = Some i"
  shows "\<exists>m2 m3. am_set_slot k (Some i) m = Inr m2 \<and> am_set_output i level k m2 = Inr m3 \<and>
     am_wf n (m3\<lparr>am_len := u64_add (am_len m3) 1\<rparr>) \<and> am_owner (m3\<lparr>am_len := u64_add (am_len m3) 1\<rparr>) = (am_owner m)(i \<mapsto> k)"
proof -
  note e = am_find_empty_wf [OF wf i]
  have s0: "am_slot_of m k = None" using k by (simp add: am_slot_of_def)
  let ?m = "m\<lparr>am_sources := im_insert k (st\<lparr>ss_slot := Some i\<rparr>) (am_sources m),
      am_outputs := (am_outputs m)[i := Some \<lparr>os_audio_level = level, os_source = k\<rparr>], am_len := Suc (am_len m)\<rparr>"
  have "am_slot_of ?m = (\<lambda>x. if x = k then Some i else if am_owner m i = Some x then None else am_slot_of m x)"
    using e by (auto simp: fun_eq_iff am_slot_of_def list_upd)
  then have "am_wf n ?m" "am_owner ?m = (am_owner m)(i \<mapsto> k)"
    using am_wf_take [OF wf s0 e(1), of ?m level] e am_wfD(1) [OF wf] by (simp_all add: list_upd)
  then show ?thesis using k e n am_wfD(2) [OF wf] by (simp add: am_set_slot_def am_set_output_def)
qed

lemma am_lowest_wf:
  assumes wf: "am_wf n m" and n: "0 < n" and full: "am_find_empty_slot m = None"
  obtains i j l where "am_lowest_slot m = Some (i, j, l)" "i < n" "am_owner m i = Some j"
    "am_outputs m ! i = Some \<lparr>os_audio_level = l, os_source = j\<rparr>" "None \<notin> set (am_outputs m)"
    "\<forall>x. Some x \<in> set (am_outputs m) \<longrightarrow> l \<le> os_audio_level x"
proof -
  have nn: "None \<notin> set (am_outputs m)" using full by (simp add: am_find_empty_slot_def first_empty_None)
  have ne: "am_outputs m \<noteq> []" using n am_wfD(2) [OF wf] by auto
  have "am_lowest_slot m \<noteq> None"
  proof
    assume "am_lowest_slot m = None"
    then have "\<forall>x\<in>set (am_outputs m). x = None" by (simp add: am_lowest_slot_def lowest_from_None)
    then show False using nn ne by (metis hd_in_set)
  qed
  then obtain i j l where low: "am_lowest_slot m = Some (i, j, l)" by (metis not_None_eq surj_pair)
  have "i < n" "am_outputs m ! i = Some \<lparr>os_audio_level = l, os_source = j\<rparr>"
      "\<forall>x. Some x \<in> set (am_outputs m) \<longrightarrow> l \<le> os_audio_level x"
    using lowest_from_Some [of None 0 "am_outputs m" i j l] am_wfD(2) [OF wf] low by (auto simp: am_lowest_slot_def)
  moreover from this have "am_owner m i = Some j" using am_wfD(2) [OF wf] by (simp add: am_owner_def)
  ultimately show ?thesis using that [OF low] nn by simp
qed

lemma am_claim_lowest:
  assumes wf: "am_wf n m" and k: "im_get (am_sources m) k = Some st" "ss_slot st = None" and i: "i < n" "am_owner m i = Some j"
  shows "j \<noteq> k" and "\<exists>m2 m3 m4. am_set_slot k (Some i) m = Inr m2 \<and> am_set_slot j None m2 = Inr m3 \<and>
     am_set_output i level k m3 = Inr m4 \<and> am_wf n m4 \<and> am_owner m4 = (am_owner m)(i \<mapsto> k)"
proof -
  have s0: "am_slot_of m k = None" using k by (simp add: am_slot_of_def)
  have sj: "am_slot_of m j = Some i" using am_wfD(5) [OF wf, of j i] i by simp
  then obtain vj where vj: "im_get (am_sources m) j = Some vj" by (auto simp: am_slot_of_def bind_eq_Some_conv)
  show jk: "j \<noteq> k" using sj s0 by auto
  let ?m2 = "m\<lparr>am_sources := im_insert k (st\<lparr>ss_slot := Some i\<rparr>) (am_sources m)\<rparr>"
  let ?m = "?m2\<lparr>am_sources := im_insert j (vj\<lparr>ss_slot := None\<rparr>) (am_sources ?m2),
      am_outputs := (am_outputs m)[i := Some \<lparr>os_audio_level = level, os_source = k\<rparr>]\<rparr>"
  have "am_slot_of ?m = (\<lambda>x. if x = k then Some i else if am_owner m i = Some x then None else am_slot_of m x)"
    using i jk by (auto simp: fun_eq_iff am_slot_of_def list_upd)
  then have "am_wf n ?m" "am_owner ?m = (am_owner m)(i \<mapsto> k)"
    using am_wf_take [OF wf s0 i(1), of ?m level] i am_wfD(1) [OF wf] by (simp_all add: list_upd)
  then show "\<exists>m2 m3 m4. am_set_slot k (Some i) m = Inr m2 \<and> am_set_slot j None m2 = Inr m3 \<and>
     am_set_output i level k m3 = Inr m4 \<and> am_wf n m4 \<and> am_owner m4 = (am_owner m)(i \<mapsto> k)"
    using k jk vj i(1) am_wfD(2) [OF wf] by (simp add: am_set_slot_def am_set_output_def list_upd)
qed

lemma am_known_ok:
  assumes wf: "am_wf n m" and n: "0 < n" "n < 2 ^ 64" and k: "im_get (am_sources m) k = Some st"
  shows "pkt_ok n k level m (am_known now k level st m)"
proof -
  let ?st = "st\<lparr>ss_last_changed_at := now\<rparr>"
  let ?m1 = "m\<lparr>am_sources := im_insert k ?st (am_sources m)\<rparr>"
  have s: "am_slot_of m k = ss_slot st" using k by (simp add: am_slot_of_def)
  have wf1: "am_wf n ?m1" using am_wf_touch [OF wf, of ?st k] s by simp
  have ow1: "am_owner ?m1 = am_owner m" by (simp add: am_owner_cong [of ?m1 m])
  have get1: "im_get (am_sources ?m1) k = Some ?st" by (simp add: list_upd)
  consider i where "ss_slot st = Some i"
    | i where "ss_slot st = None" "am_find_empty_slot ?m1 = Some i"
    | "ss_slot st = None" "am_find_empty_slot ?m1 = None" by fastforce
  then show ?thesis
  proof cases
    case 1
    then have "am_owner m i = Some k" using s am_wfD(5) [OF wf, of k i] by simp
    then show ?thesis using 1 wf1 ow1 by (simp add: am_known_def pkt_ok_def pkt_answer_def switch_rule_def)
  next
    case 2
    then have st: "ss_slot ?st = None" by simp
    show ?thesis using am_claim_empty [OF wf1 n(2) get1 st 2(2), of level] 2 am_has_empty_iff [OF wf1] s am_not_owner [OF wf, of k]
        am_find_empty_wf(3) [OF wf1 2(2)] ow1
      by (auto simp: am_known_def Let_def pkt_ok_def pkt_answer_def switch_rule_def)
  next
    case 3
    then have st: "ss_slot ?st = None" and ran: "k \<notin> ran (am_owner m)" using s am_not_owner [OF wf, of k] by simp_all
    obtain i j l where low: "am_lowest_slot ?m1 = Some (i, j, l)" "i < n" "am_owner ?m1 i = Some j"
        "am_outputs ?m1 ! i = Some \<lparr>os_audio_level = l, os_source = j\<rparr>" "None \<notin> set (am_outputs ?m1)"
        "\<forall>x. Some x \<in> set (am_outputs ?m1) \<longrightarrow> l \<le> os_audio_level x"
      using am_lowest_wf [OF wf1 n(1) 3(2)] .
    note claim = am_claim_lowest [OF wf1 get1 st low(2,3)]
    show ?thesis using claim(1) claim(2) [of level] 3 am_has_empty_iff [OF wf1] low wf1 ow1 ran
      by (auto simp: am_known_def Let_def pkt_ok_def pkt_answer_def switch_rule_def)
  qed
qed

lemma am_on_pkt_ok:
  assumes "am_wf n m" "0 < n" "n < 2 ^ 64"
  shows "pkt_ok n k (case lv of None \<Rightarrow> SILENT_LEVEL | Some l \<Rightarrow> l) m (am_on_pkt now k lv m)"
  using am_known_ok [OF assms] am_unknown_ok [OF assms(1,3)]
  by (auto simp: am_on_pkt_def Let_def split: option.split)

section \<open>Ticks\<close>

definition expired :: "nat \<Rightarrow> source_state \<Rightarrow> bool" where
  "expired now v \<longleftrightarrow> ss_last_changed_at v + AUDIO_SLOT_TIMEOUT \<le> now"

definition expired_slots :: "nat \<Rightarrow> ('src, source_state) imap \<Rightarrow> nat list" where
  "expired_slots now es = List.map_filter (\<lambda>(k, v). if expired now v then ss_slot v else None) es"

lemma expired_slots_Nil [simp]: "expired_slots now [] = []"
  by (simp add: expired_slots_def)

lemma expired_slots_Cons [simp]:
  "expired_slots now ((k, v) # es) =
     (if expired now v then case ss_slot v of None \<Rightarrow> expired_slots now es | Some i \<Rightarrow> i # expired_slots now es
      else expired_slots now es)"
  by (simp add: expired_slots_def List.map_filter_def split: option.split)

lemma set_expired_slots:
  "i \<in> set (expired_slots now es) \<longleftrightarrow> (\<exists>k v. (k, v) \<in> set es \<and> expired now v \<and> ss_slot v = Some i)"
proof (induction es)
  case (Cons e es)
  then show ?case by (cases e) (auto split: option.splits)
qed simp

lemma distinct_expired_slots:
  assumes "distinct (map fst es)"
    and "\<And>k v k' v' i. (k, v) \<in> set es \<Longrightarrow> (k', v') \<in> set es \<Longrightarrow> ss_slot v = Some i \<Longrightarrow> ss_slot v' = Some i \<Longrightarrow> k = k'"
  shows "distinct (expired_slots now es)"
  using assms
proof (induction es)
  case (Cons e es)
  obtain k v where e: "e = (k, v)" by (cases e)
  have "i \<notin> set (expired_slots now es)" if "ss_slot v = Some i" for i
  proof
    assume "i \<in> set (expired_slots now es)"
    then obtain k' v' where x: "(k', v') \<in> set es" "ss_slot v' = Some i" unfolding set_expired_slots by auto
    then have "k = k'" using Cons.prems(2) [of k v k' v' i] that e by simp
    then show False using Cons.prems(1) x e by (force simp: image_iff)
  qed
  moreover have "distinct (expired_slots now es)" 
    using Cons.prems(1) Cons.prems(2) [OF list.set_intros(2) list.set_intros(2)] by (intro Cons.IH) simp_all
  ultimately show ?case by (simp add: e split: option.splits)
qed simp

lemma am_retain_loop:
  assumes "\<forall>i\<in>set (expired_slots now es). i < length (am_outputs m)"
    and "length (expired_slots now es) \<le> am_len m" "am_len m < 2 ^ 64"
  shows "rfold (am_retain now) es (m, kept, clear) =
     Inr (m\<lparr>am_outputs := clear_all (expired_slots now es) (am_outputs m), am_len := am_len m - length (expired_slots now es)\<rparr>,
       kept @ filter (\<lambda>(k, v). \<not> expired now v) es, clear @ expired_slots now es)"
  using assms
proof (induction es arbitrary: m kept clear)
  case Nil
  then show ?case by simp
next
  case (Cons e es)
  obtain k v where e: "e = (k, v)" by (cases e)
  show ?case
  proof (cases "expired now v \<and> ss_slot v \<noteq> None")
    case True
    then obtain i where i: "ss_slot v = Some i" by auto
    let ?m = "m\<lparr>am_outputs := (am_outputs m)[i := None], am_len := am_len m - 1\<rparr>"
    have "rfold (am_retain now) es (?m, kept, clear @ [i]) =
     Inr (?m\<lparr>am_outputs := clear_all (expired_slots now es) (am_outputs ?m), am_len := am_len ?m - length (expired_slots now es)\<rparr>,
       kept @ filter (\<lambda>(k, v). \<not> expired now v) es, (clear @ [i]) @ expired_slots now es)"
      using Cons.prems True i e by (intro Cons.IH) auto
    moreover have "am_retain now e (m, kept, clear) = Inr (?m, kept, clear @ [i])"
      using Cons.prems True i e by (simp add: expired_def)
    ultimately show ?thesis using True i e by simp
  next
    case False
    then have "am_retain now e (m, kept, clear) = Inr (m, if expired now v then kept else kept @ [e], clear)"
      using e by (auto simp: expired_def)
    then show ?thesis using Cons.IH [of m "if expired now v then kept else kept @ [e]" clear] Cons.prems False e
      by (auto simp: expired_def)
  qed
qed

lemma im_get_filter: "im_wf m \<Longrightarrow> im_get (filter P m) k = (case im_get m k of None \<Rightarrow> None | Some v \<Rightarrow> if P (k, v) then Some v else None)"
  by (induction m) (auto simp: im_get_def im_wf_def map_of_eq_None_iff image_iff split: option.splits)

lemma im_wf_filter: "im_wf m \<Longrightarrow> im_wf (filter P m)"
  by (simp add: im_wf_def distinct_map_filter)

text \<open>A tick clears exactly the slots whose source sent nothing for the timeout.\<close>

definition due :: "nat \<Rightarrow> 'src audio_mixer \<Rightarrow> nat set" where
  "due now m = {i. \<exists>k v. am_owner m i = Some k \<and> im_get (am_sources m) k = Some v \<and> expired now v}"

lemma am_expired_slots:
  assumes wf: "am_wf n m"
  shows "set (expired_slots now (am_sources m)) = due now m" "distinct (expired_slots now (am_sources m))"
proof -
  let ?is = "expired_slots now (am_sources m)"
  have ent: "(k, v) \<in> set (am_sources m) \<longleftrightarrow> im_get (am_sources m) k = Some v" for k v
    using im_get_eq_Some [OF am_wfD(1) [OF wf]] by simp
  have own: "am_owner m i = Some k" if "(k, v) \<in> set (am_sources m)" "ss_slot v = Some i" for k v i
    using that am_wfD(5) [OF wf, of k i] by (simp add: ent am_slot_of_def)
  show "set ?is = due now m"
  proof (intro set_eqI iffI)
    fix i assume "i \<in> set ?is"
    then show "i \<in> due now m" using own unfolding set_expired_slots due_def ent by blast
  next
    fix i assume "i \<in> due now m"
    then obtain k v where "am_owner m i = Some k" "im_get (am_sources m) k = Some v" "expired now v" by (auto simp: due_def)
    then show "i \<in> set ?is" using am_wfD(5) [OF wf, of k i] by (auto simp: set_expired_slots ent am_slot_of_def)
  qed
  show "distinct ?is"
    using am_wfD(1) [OF wf] own by (intro distinct_expired_slots) (auto simp: im_wf_def dest: own)
qed

definition am_ticked :: "nat \<Rightarrow> 'src audio_mixer \<Rightarrow> 'src audio_mixer" where
  "am_ticked now m = m\<lparr>am_sources := filter (\<lambda>(k, v). \<not> expired now v) (am_sources m),
     am_outputs := clear_all (expired_slots now (am_sources m)) (am_outputs m),
     am_len := am_len m - length (expired_slots now (am_sources m))\<rparr>"

lemma am_tick_occupied:
  assumes wf: "am_wf n m"
  shows "\<forall>i\<in>set (expired_slots now (am_sources m)). i < length (am_outputs m)"
    and "occupied (clear_all (expired_slots now (am_sources m)) (am_outputs m)) + length (expired_slots now (am_sources m)) = am_len m"
proof -
  have occ: "\<forall>i\<in>set (expired_slots now (am_sources m)). i < length (am_outputs m) \<and> am_outputs m ! i \<noteq> None"
    unfolding am_expired_slots(1) [OF wf] due_def am_owner_def by (auto split: if_splits)
  then show "\<forall>i\<in>set (expired_slots now (am_sources m)). i < length (am_outputs m)" by blast
  show "occupied (clear_all (expired_slots now (am_sources m)) (am_outputs m)) + length (expired_slots now (am_sources m)) = am_len m"
    using occupied_clear_all [OF am_expired_slots(2) [OF wf] occ] am_wfD(3) [OF wf] by simp
qed

lemma am_on_tick_eq:
  assumes wf: "am_wf n m" and n: "n < 2 ^ 64"
  shows "am_on_tick now m = Inr (am_ticked now m,
     if expired_slots now (am_sources m) = [] then None else Some (expired_slots now (am_sources m)))"
  using am_retain_loop [OF am_tick_occupied(1) [OF wf], of now "[]" "[]"] am_tick_occupied(2) [OF wf, of now] am_wfD(4) [OF wf] n
  by (simp add: am_on_tick_def am_ticked_def)

lemma am_on_tick_ok:
  assumes wf: "am_wf n m" and n: "n < 2 ^ 64"
  shows "\<exists>m' r. am_on_tick now m = Inr (m', r) \<and> am_wf n m' \<and> set (case r of None \<Rightarrow> [] | Some is \<Rightarrow> is) = due now m \<and>
     r \<noteq> Some [] \<and> distinct (case r of None \<Rightarrow> [] | Some is \<Rightarrow> is) \<and> am_owner m' = am_owner m |` (- due now m)"
proof -
  let ?is = "expired_slots now (am_sources m)"
  let ?m = "am_ticked now m"
  note due = am_expired_slots(1) [OF wf, of now]
  have ow: "am_owner ?m = am_owner m |` (- due now m)"
    by (auto simp: fun_eq_iff am_ticked_def am_owner_def nth_clear_all restrict_map_def due [symmetric])
  have "am_slot_of ?m k = Some i \<longleftrightarrow> am_owner ?m i = Some k" for k i
    using am_wfD(5) [OF wf, of k i] am_wfD(1) [OF wf] unfolding ow
    by (auto simp: am_ticked_def am_slot_of_def im_get_filter restrict_map_def due_def split: option.splits if_splits)
  then have "am_wf n ?m" using am_tick_occupied(2) [OF wf, of now] am_wfD(1-3) [OF wf]
    by (simp add: am_wf_def am_ticked_def im_wf_filter)
  then show ?thesis unfolding am_on_tick_eq [OF wf n] using ow due am_expired_slots(2) [OF wf, of now]
    by (cases "?is = []") simp_all
qed

section \<open>The interface of the mixer\<close>

text \<open>
  What the rooms rely on. A client that keeps a table of its own beside the mixer, one entry for
  each slot, set when the answer says that a slot was just set and cleared when a tick clears it,
  always finds an entry for a slot that a packet is forwarded to.
\<close>

definition follows :: "nat \<Rightarrow> (nat \<Rightarrow> 'k option) \<Rightarrow> 'x option list \<Rightarrow> bool" where
  "follows n own tbl \<longleftrightarrow> length tbl = n \<and> (\<forall>i<n. (tbl ! i = None) = (own i = None))"

locale slot_selector =
  fixes pkt :: "nat \<Rightarrow> 'k \<Rightarrow> 'l \<Rightarrow> 'm \<Rightarrow> ('m \<times> (nat \<times> bool) option) run"
    and tick :: "nat \<Rightarrow> 'm \<Rightarrow> ('m \<times> nat list option) run"
    and owner :: "'m \<Rightarrow> nat \<Rightarrow> 'k option"
    and good :: "'m \<Rightarrow> bool"
    and slots :: nat
  assumes pkt: "good m \<Longrightarrow> \<exists>m' r. pkt now k l m = Inr (m', r) \<and> good m' \<and> pkt_answer (owner m) (owner m') k r"
    and tick: "good m \<Longrightarrow> \<exists>m' r. tick now m = Inr (m', r) \<and> good m' \<and>
      owner m' = owner m |` (- set (case r of None \<Rightarrow> [] | Some is \<Rightarrow> is)) \<and>
      set (case r of None \<Rightarrow> [] | Some is \<Rightarrow> is) \<subseteq> dom (owner m)"
    and bound: "good m \<Longrightarrow> owner m i = Some k \<Longrightarrow> i < slots"
    and inj: "good m \<Longrightarrow> owner m i = Some k \<Longrightarrow> owner m j = Some k \<Longrightarrow> i = j"
begin

lemma pkt_slot:
  assumes "good m"
  shows "\<exists>m' r. pkt now k l m = Inr (m', r) \<and> good m' \<and> (\<forall>i b. r = Some (i, b) \<longrightarrow> i < slots \<and> owner m' i = Some k)"
proof -
  obtain m' r where m': "pkt now k l m = Inr (m', r)" "good m'" "pkt_answer (owner m) (owner m') k r"
    using pkt [OF assms, of now k l] by blast
  then have "owner m' i = Some k" if "r = Some (i, b)" for i b using that by (simp add: pkt_answer_def split: if_splits)
  then show ?thesis using m' bound [OF m'(2)] by blast
qed

lemma pkt_follow:
  assumes "good m" "follows slots (owner m) tbl"
  obtains (skipped) m' where "pkt now k l m = Inr (m', None)" "good m'" "follows slots (owner m') tbl"
  | (set) m' i where "pkt now k l m = Inr (m', Some (i, True))" "good m'" "i < slots" "owner m' i = Some k"
      "\<And>x. follows slots (owner m') (tbl[i := Some x])"
  | (kept) m' i x where "pkt now k l m = Inr (m', Some (i, False))" "good m'" "i < slots" "owner m' i = Some k"
      "tbl ! i = Some x" "\<And>y. follows slots (owner m') (tbl[i := Some y])" "follows slots (owner m') tbl"
proof -
  obtain m' r where m': "pkt now k l m = Inr (m', r)" "good m'" "pkt_answer (owner m) (owner m') k r"
    using pkt [OF assms(1), of now k l] by blast
  consider "r = None" | i where "r = Some (i, True)" | i where "r = Some (i, False)" by (cases r) auto
  then show ?thesis
  proof cases
    case 1
    then show ?thesis using skipped [of m'] m' assms(2) by (simp add: pkt_answer_def)
  next
    case 2
    then have ow: "owner m' = (owner m)(i \<mapsto> k)" using m' by (simp add: pkt_answer_def)
    then have i: "i < slots" using bound [OF m'(2), of i k] by simp
    then have "follows slots (owner m') (tbl[i := Some x])" for x
      using assms(2) ow by (auto simp: follows_def nth_list_update)
    then show ?thesis using set [of m' i] m' 2 i ow by simp
  next
    case 3
    then have ow: "owner m i = Some k" "owner m' = owner m" using m' by (simp_all add: pkt_answer_def)
    then have i: "i < slots" using bound [OF assms(1)] by blast
    then obtain x where "tbl ! i = Some x" using ow assms(2) by (auto simp: follows_def)
    moreover have "follows slots (owner m') (tbl[i := Some y])" for y
      using assms(2) ow i by (auto simp: follows_def nth_list_update)
    ultimately show ?thesis using kept [of m' i x] m' 3 i ow assms(2) by simp
  qed
qed

lemma tick_follow:
  assumes "good m" "follows slots (owner m) tbl"
  obtains m' r where "tick now m = Inr (m', r)" "good m'"
    "follows slots (owner m') (clear_all (case r of None \<Rightarrow> [] | Some is \<Rightarrow> is) tbl)"
    "\<forall>i\<in>set (case r of None \<Rightarrow> [] | Some is \<Rightarrow> is). i < slots"
proof -
  obtain m' r where "tick now m = Inr (m', r)" "good m'"
      "owner m' = owner m |` (- set (case r of None \<Rightarrow> [] | Some is \<Rightarrow> is))"
      "set (case r of None \<Rightarrow> [] | Some is \<Rightarrow> is) \<subseteq> dom (owner m)"
    using tick [OF assms(1)] by blast
  moreover from this(4) have "\<forall>i\<in>set (case r of None \<Rightarrow> [] | Some is \<Rightarrow> is). i < slots"
    using bound [OF assms(1)] by blast
  moreover from calculation(3) have "follows slots (owner m') (clear_all (case r of None \<Rightarrow> [] | Some is \<Rightarrow> is) tbl)"
    using assms(2) by (cases r) (auto simp: follows_def nth_clear_all restrict_map_def)
  ultimately show ?thesis using that by blast
qed

end

text \<open>\<^verbatim>\<open>for slot in removed { table[slot] = None; }\<close>\<close>

definition clear_slots :: "nat list \<Rightarrow> 'x option list \<Rightarrow> 'x option list run" where
  "clear_slots is tbl = rfold (\<lambda>i t. rbind (rindex t i) (\<lambda>_. Inr (t[i := None]))) is tbl"

lemma clear_slots_eq: "\<forall>i\<in>set is. i < length tbl \<Longrightarrow> clear_slots is tbl = Inr (clear_all is tbl)"
  unfolding clear_slots_def by (induction "is" arbitrary: tbl) simp_all

definition am_good :: "nat \<Rightarrow> 'src audio_mixer \<Rightarrow> bool" where
  "am_good n m \<longleftrightarrow> 0 < n \<and> n < 2 ^ 64 \<and> am_wf n m"

lemma am_good_new: "0 < n \<Longrightarrow> n < 2 ^ 64 \<Longrightarrow> am_good n (am_new n)"
  by (simp add: am_good_def am_wf_new)

lemma am_owner_new [simp]: "am_owner (am_new n) = Map.empty"
  by (simp add: am_owner_def am_new_def fun_eq_iff)

lemma am_good_pkt:
  assumes "am_good n m"
  shows "\<exists>m' r. am_on_pkt now k lv m = Inr (m', r) \<and> am_good n m' \<and> pkt_answer (am_owner m) (am_owner m') k r"
  using assms am_on_pkt_ok [of n m k lv now] by (auto simp: am_good_def pkt_ok_def)

lemma am_good_tick:
  assumes "am_good n m"
  shows "\<exists>m' r. am_on_tick now m = Inr (m', r) \<and> am_good n m' \<and>
     am_owner m' = am_owner m |` (- set (case r of None \<Rightarrow> [] | Some is \<Rightarrow> is)) \<and>
     set (case r of None \<Rightarrow> [] | Some is \<Rightarrow> is) \<subseteq> dom (am_owner m)"
proof -
  have "am_wf n m" "n < 2 ^ 64" using assms by (simp_all add: am_good_def)
  from am_on_tick_ok [OF this, of now]
  obtain m' r where "am_on_tick now m = Inr (m', r)" "am_wf n m'" "set (case r of None \<Rightarrow> [] | Some is \<Rightarrow> is) = due now m"
      "am_owner m' = am_owner m |` (- due now m)"
    by (elim exE conjE) (rule that; assumption)
  moreover have "due now m \<subseteq> dom (am_owner m)" by (auto simp: due_def)
  ultimately show ?thesis using assms by (intro exI [of _ m'] exI [of _ r]) (simp add: am_good_def)
qed

interpretation ams: slot_selector am_on_pkt am_on_tick am_owner "am_good n" n for n
proof
  fix m :: "'src audio_mixer" and now k lv i j
  assume good: "am_good n m"
  then have wf: "am_wf n m" by (simp add: am_good_def)
  show "\<exists>m' r. am_on_pkt now k lv m = Inr (m', r) \<and> am_good n m' \<and> pkt_answer (am_owner m) (am_owner m') k r"
    using am_good_pkt [OF good] .
  show "\<exists>m' r. am_on_tick now m = Inr (m', r) \<and> am_good n m' \<and>
      am_owner m' = am_owner m |` (- set (case r of None \<Rightarrow> [] | Some is \<Rightarrow> is)) \<and>
      set (case r of None \<Rightarrow> [] | Some is \<Rightarrow> is) \<subseteq> dom (am_owner m)" using am_good_tick [OF good] .
  show "i < n" if "am_owner m i = Some k" using am_owner_bound [OF wf that] .
  show "i = j" if "am_owner m i = Some k" "am_owner m j = Some k" using am_owner_inj [OF wf that] .
qed

section \<open>Runs\<close>

text \<open>
  A run of the mixer beside two views: the owners of the slots as a client learns them from the
  answers, and the time of the latest packet of every source.
\<close>

datatype 'src am_op = Am_Pkt nat 'src "int option" | Am_Tick nat

type_synonym 'src am_view = "'src audio_mixer \<times> (nat \<Rightarrow> 'src option) \<times> ('src \<Rightarrow> nat option)"

fun am_step :: "'src am_op \<Rightarrow> 'src am_view \<Rightarrow> 'src am_view run" where
  "am_step (Am_Pkt now k lv) (m, own, seen) = rbind (am_on_pkt now k lv m) (\<lambda>(m', r).
     Inr (m', case r of Some (i, just_set) \<Rightarrow> if just_set then own(i \<mapsto> k) else own | None \<Rightarrow> own, seen(k \<mapsto> now)))"
| "am_step (Am_Tick now) (m, own, seen) = rbind (am_on_tick now m) (\<lambda>(m', r).
     Inr (m', case r of None \<Rightarrow> own | Some is \<Rightarrow> own |` (- set is), seen))"

definition am_init :: "nat \<Rightarrow> 'src am_view" where
  "am_init n = (am_new n, Map.empty, Map.empty)"

definition am_times :: "'src audio_mixer \<Rightarrow> 'src \<Rightarrow> nat option" where
  "am_times m k = map_option ss_last_changed_at (im_get (am_sources m) k)"

fun am_inv :: "nat \<Rightarrow> 'src am_view \<Rightarrow> bool" where
  "am_inv n (m, own, seen) \<longleftrightarrow> am_good n m \<and> own = am_owner m \<and> am_times m \<subseteq>\<^sub>m seen"

lemma am_times_simps [simp]:
  "am_times (m\<lparr>am_len := l\<rparr>) = am_times m"
  "am_times (m\<lparr>am_sources := im_insert k v (am_sources m)\<rparr>) = (am_times m)(k \<mapsto> ss_last_changed_at v)"
  by (auto simp: am_times_def list_upd fun_eq_iff)

lemma am_set_slot_times: "am_set_slot k s m = Inr m' \<Longrightarrow> am_times m' = am_times m"
  by (auto simp: am_set_slot_def am_times_def run_simps list_upd fun_eq_iff)

lemma am_set_output_times: "am_set_output i l k m = Inr m' \<Longrightarrow> am_times m' = am_times m"
  by (auto simp: am_set_output_def run_simps am_times_def)

lemma am_known_times:
  assumes "am_known now k level st m = Inr (m', r)"
  shows "am_times m' = (am_times m)(k \<mapsto> now)"
proof -
  let ?m1 = "m\<lparr>am_sources := im_insert k (st\<lparr>ss_last_changed_at := now\<rparr>) (am_sources m)\<rparr>"
  have t1: "am_times ?m1 = (am_times m)(k \<mapsto> now)" by simp
  have "am_times m' = am_times ?m1"
  proof (cases "ss_slot st")
    case (Some i)
    then show ?thesis using assms by (simp add: am_known_def)
  next
    case None
    show ?thesis
    proof (cases "am_has_empty_slot ?m1")
      case True
      then show ?thesis using assms None
        by (simp add: am_known_def Let_def run_simps del: am_times_simps(2))
          (auto dest!: am_set_slot_times am_set_output_times simp del: am_times_simps(2))
    next
      case False
      obtain i j l where low: "am_lowest_slot ?m1 = Some (i, j, l)"
        using assms None False by (auto simp: am_known_def Let_def run_simps)
      show ?thesis using assms None False low
        by (simp add: am_known_def Let_def run_simps del: am_times_simps(2) split: if_splits)
          (auto dest!: am_set_slot_times am_set_output_times simp del: am_times_simps(2))
    qed
  qed
  then show ?thesis using t1 by simp
qed

lemma am_on_pkt_times:
  assumes "am_on_pkt now k lv m = Inr (m', r)"
  shows "am_times m' = (am_times m)(k \<mapsto> now)"
proof (cases "im_get (am_sources m) k")
  case (Some st)
  then show ?thesis using assms am_known_times by (auto simp: am_on_pkt_def)
next
  case None
  then show ?thesis using assms
    by (auto simp: am_on_pkt_def am_unknown_def run_simps split: option.splits dest!: am_set_output_times)
qed

lemma am_on_tick_times:
  assumes "am_on_tick now m = Inr (m', r)" "am_good n m"
  shows "am_times m' \<subseteq>\<^sub>m am_times m"
proof -
  have wf: "am_wf n m" and n: "n < 2 ^ 64" using assms(2) by (simp_all add: am_good_def)
  have "am_sources m' = filter (\<lambda>(k, v). \<not> expired now v) (am_sources m)"
    using assms(1) am_on_tick_eq [OF wf n, of now] by (auto simp: am_ticked_def)
  then show ?thesis using am_wfD(1) [OF wf]
    by (auto simp: map_le_def am_times_def im_get_filter dom_def split: option.splits if_splits)
qed

lemma am_step_inv:
  assumes "am_inv n s"
  shows "\<exists>s'. am_step x s = Inr s' \<and> am_inv n s'"
proof -
  obtain m own seen where s: "s = (m, own, seen)" by (cases s)
  then have good: "am_good n m" and t: "am_times m \<subseteq>\<^sub>m seen" and own: "own = am_owner m" using assms by simp_all
  show ?thesis
  proof (cases x)
    case (Am_Pkt now k lv)
    obtain m' r where m': "am_on_pkt now k lv m = Inr (m', r)" "am_good n m'" "pkt_answer (am_owner m) (am_owner m') k r"
      using am_good_pkt [OF good, of now k lv] by blast
    then show ?thesis using Am_Pkt s own t am_on_pkt_times [OF m'(1)]
      by (auto simp: pkt_answer_def map_le_def split: option.splits if_splits)
  next
    case (Am_Tick now)
    obtain m' r where m': "am_on_tick now m = Inr (m', r)" "am_good n m'"
        "am_owner m' = am_owner m |` (- set (case r of None \<Rightarrow> [] | Some is \<Rightarrow> is))"
      using am_good_tick [OF good, of now] by blast
    then show ?thesis using Am_Tick s own map_le_trans [OF am_on_tick_times [OF m'(1) good] t]
      by (cases r) (simp_all add: restrict_map_def)
  qed
qed

lemma am_times_new: "am_times (am_new n) \<subseteq>\<^sub>m Map.empty"
  by (simp add: am_times_def am_new_def map_le_def dom_def)

lemma am_init_inv: "0 < n \<Longrightarrow> n < 2 ^ 64 \<Longrightarrow> am_inv n (am_init n)"
  by (simp add: am_init_def am_good_new am_times_new)

lemma am_run_inv:
  assumes "0 < n" "n < 2 ^ 64"
  shows "\<exists>s. rfold am_step ops (am_init n) = Inr s \<and> am_inv n s"
  by (rule rfold_invariant) (use am_init_inv [OF assms] am_step_inv in blast)+

lemma am_len_card:
  assumes "am_wf n m"
  shows "am_len m = card (dom (am_owner m))"
proof -
  have "dom (am_owner m) = {i. i < length (am_outputs m) \<and> am_outputs m ! i \<noteq> None}"
    by (auto simp: am_owner_def split: if_splits)
  then show ?thesis using am_wfD(3) [OF assms] by (simp add: occupied_def length_filter_conv_card)
qed

text \<open>A run with two slots and three sources.\<close>

definition am_demo_ops :: "nat am_op list" where
  "am_demo_ops = [Am_Pkt 0 7 (Some 10), Am_Pkt 1 8 (Some 5), Am_Pkt 2 9 (Some 10)]"

definition am_demo :: "nat audio_mixer" where
  "am_demo = \<lparr>am_len = 2, am_sources = [(7, \<lparr>ss_last_changed_at = 0, ss_slot = Some 0\<rparr>),
     (8, \<lparr>ss_last_changed_at = 1, ss_slot = Some 1\<rparr>), (9, \<lparr>ss_last_changed_at = 2, ss_slot = None\<rparr>)],
     am_outputs = [Some \<lparr>os_audio_level = 10, os_source = 7\<rparr>, Some \<lparr>os_audio_level = 5, os_source = 8\<rparr>]\<rparr>"

lemmas am_eval = am_on_pkt_def am_unknown_def am_known_def am_find_empty_slot_def am_has_empty_slot_def am_lowest_slot_def
  am_set_slot_def am_set_output_def am_new_def im_get_def Let_def

lemma am_demo_run: "rfold am_step am_demo_ops (am_init 2) = Inr (am_demo, [0 \<mapsto> 7, 1 \<mapsto> 8], [7 \<mapsto> 0, 8 \<mapsto> 1, 9 \<mapsto> 2])"
proof -
  have "replicate 2 None = [None, None :: nat output_slot_state option]" by (simp add: numeral_2_eq_2)
  then show ?thesis by (simp add: am_demo_ops_def am_demo_def am_init_def am_eval u64_add_def)
qed

text \<open>A mixer without slots remembers its sources and gives no answers; a second packet of a source it
  remembers finds no empty slot and no lowest one, and panics.\<close>

fun am_slotless :: "'src am_view \<Rightarrow> bool" where
  "am_slotless (m, own, seen) \<longleftrightarrow> am_outputs m = [] \<and> am_len m = 0 \<and> own = Map.empty \<and> (\<forall>(k, v)\<in>set (am_sources m). ss_slot v = None)"

lemma am_retain_slotless:
  "\<forall>(k, v)\<in>set src. ss_slot v = None \<Longrightarrow> \<exists>kept'. rfold (am_retain now) src (m, kept, []) = Inr (m, kept @ kept', []) \<and> set kept' \<subseteq> set src"
proof (induction src arbitrary: kept)
  case (Cons x src)
  obtain k v where x: "x = (k, v)" by (cases x)
  show ?case
  proof (cases "ss_last_changed_at v + AUDIO_SLOT_TIMEOUT \<le> now")
    case True
    from Cons.IH [of kept] obtain kept' where "rfold (am_retain now) src (m, kept, []) = Inr (m, kept @ kept', [])" "set kept' \<subseteq> set src" using Cons.prems by auto
    then show ?thesis using True Cons.prems by (auto simp: x)
  next
    case False
    from Cons.IH [of "kept @ [x]"] obtain kept' where "rfold (am_retain now) src (m, kept @ [x], []) = Inr (m, kept @ [x] @ kept', [])" "set kept' \<subseteq> set src" using Cons.prems by auto
    then show ?thesis using False by (intro exI [of _ "x # kept'"]) (auto simp: x)
  qed
qed simp

definition am_second_packet :: "'src am_op \<Rightarrow> 'src am_view \<Rightarrow> bool" where
  "am_second_packet x s \<longleftrightarrow> (\<exists>now k lv. x = Am_Pkt now k lv \<and> im_get (am_sources (fst s)) k \<noteq> None)"

lemma am_step_slotless:
  assumes "am_slotless s"
  shows "(\<exists>s'. am_step x s = Inr s' \<and> am_slotless s') \<or> (\<exists>e. am_step x s = Inl e \<and> am_second_packet x s \<and> e = Expect_None)"
proof -
  obtain m own seen where s: "s = (m, own, seen)" by (cases s)
  then have m: "am_outputs m = []" "am_len m = 0" "own = Map.empty" "\<forall>(k, v)\<in>set (am_sources m). ss_slot v = None" using assms by simp_all
  show ?thesis
  proof (cases x)
    case (Am_Pkt now k lv)
    show ?thesis
    proof (cases "im_get (am_sources m) k")
      case None
      then show ?thesis using m Am_Pkt by (simp add: s am_on_pkt_def am_unknown_def am_find_empty_slot_def Let_def set_im_insert_fresh)
    next
      case (Some st)
      then have "ss_slot st = None" using m(4) map_of_SomeD [of "am_sources m" k st] by (auto simp: im_get_def)
      then show ?thesis using m Am_Pkt Some by (simp add: s am_on_pkt_def am_known_def am_has_empty_slot_def am_lowest_slot_def Let_def am_second_packet_def)
    qed
  next
    case (Am_Tick now)
    obtain kept where k: "rfold (am_retain now) (am_sources m) (m, [], []) = Inr (m, kept, [])" "set kept \<subseteq> set (am_sources m)"
      using am_retain_slotless [OF m(4), of now m "[]"] by auto
    then have "\<forall>(k, v)\<in>set kept. ss_slot v = None" using m(4) by blast
    then show ?thesis using m(1-3) k Am_Tick by (simp add: s am_on_tick_def)
  qed
qed

text \<open>
  C27. Refinement: in every run of a mixer, a client that only follows the answers (a slot just set belongs to
  the source of the packet, a cleared slot to nobody) knows the owner of every slot. No source owns two slots, all
  slots are in range, and the counter of the mixer is the number of owned slots. No run of a mixer with
  slots panics; a run of a mixer without any ends like this too, or panics at a packet of a source it already knows.
\<close>
theorem am_answers_track_owners:
  assumes "n < 2 ^ 64"
  shows "(\<exists>m own seen. rfold am_step ops (am_init n) = Inr (m, own, seen) \<and> own = am_owner m \<and>
       inj_on own (dom own) \<and> dom own \<subseteq> {..<n} \<and> am_len m = card (dom own)) \<or>
     (n = 0 \<and> (\<exists>i s. i < length ops \<and> rfold am_step (take i ops) (am_init n) = Inr s \<and> am_second_packet (ops ! i) s \<and>
        rfold am_step ops (am_init n) = Inl Expect_None))"
proof (cases "n = 0")
  case True
  have "am_slotless (am_init 0)" by (simp add: am_init_def am_new_def)
  from admits_run_outcome [where step = am_step and xs = ops and B = "\<lambda>x s e. am_second_packet x s \<and> e = Expect_None", OF this admits_any am_step_slotless]
  have "(\<exists>s'. rfold am_step ops (am_init 0) = Inr s' \<and> am_slotless s') \<or> (\<exists>i s' e. i < length ops \<and> rfold am_step (take i ops) (am_init 0) = Inr s' \<and>
      am_slotless s' \<and> (am_second_packet (ops ! i) s' \<and> e = Expect_None) \<and> rfold am_step ops (am_init 0) = Inl e)" by blast
  then show ?thesis
  proof (elim disjE exE conjE)
    fix s' assume "rfold am_step ops (am_init 0) = Inr s'" "am_slotless s'"
    then show ?thesis using True by (cases s') (auto simp: am_owner_def fun_eq_iff)
  qed (use True in blast)
next
  case False
  obtain m own seen where r: "rfold am_step ops (am_init n) = Inr (m, own, seen)" "am_inv n (m, own, seen)"
    using am_run_inv [of n ops] assms False by (metis prod_cases3 neq0_conv)
  then have wf: "am_wf n m" "own = am_owner m" by (simp_all add: am_good_def)
  have "inj_on own (dom own)" using am_owner_inj [OF wf(1)] unfolding wf(2) by (fastforce simp: inj_on_def dom_def)
  moreover have "dom own \<subseteq> {..<n}" using am_owner_bound [OF wf(1)] unfolding wf(2) by auto
  ultimately show ?thesis using r(1) wf am_len_card [OF wf(1)] by simp
qed

theorem am_answers_track_owners_witness:
  "\<exists>m own seen. rfold am_step [Am_Pkt 0 CHR ''a'' (Some 10), Am_Pkt 1 CHR ''b'' (Some 10), Am_Pkt 2 CHR ''c'' (Some 10),
       Am_Pkt 3 CHR ''c'' (Some 50), Am_Tick 2000000000] (am_init 2) = Inr (m, own, seen) \<and> own = am_owner m \<and>
     inj_on own (dom own) \<and> dom own \<subseteq> {..<2} \<and> am_len m = card (dom own)"
  using am_answers_track_owners [of 2 "[Am_Pkt 0 CHR ''a'' (Some 10), Am_Pkt 1 CHR ''b'' (Some 10), Am_Pkt 2 CHR ''c'' (Some 10),
       Am_Pkt 3 CHR ''c'' (Some 50), Am_Tick 2000000000]"] by simp

text \<open>
  Hysteresis: whatever happened before, a source takes over a slot that another source owns
  only if every slot is owned, the slot has the lowest recorded level of all, and the packet is
  louder than it by the threshold.
\<close>
theorem am_switch_only_louder:
  assumes "0 < n" "n < 2 ^ 64" "rfold am_step ops (am_init n) = Inr (m, own, seen)"
    and "am_on_pkt now k lv m = Inr (m', Some (i, True))" "own i = Some j"
  shows "j \<noteq> k \<and> am_owner m' i = Some k \<and> dom own = {..<n} \<and>
     (\<exists>level. am_outputs m ! i = Some \<lparr>os_audio_level = level, os_source = j\<rparr> \<and>
        level + SWITCH_AUDIO_THRESHOLD \<le> (case lv of None \<Rightarrow> SILENT_LEVEL | Some l \<Rightarrow> l) \<and>
        (\<forall>x. Some x \<in> set (am_outputs m) \<longrightarrow> level \<le> os_audio_level x))"
proof -
  have inv: "am_inv n (m, own, seen)" using am_run_inv [OF assms(1,2), of ops] assms(3) by simp
  then have wf: "am_wf n m" and own: "own = am_owner m" by (simp_all add: am_good_def)
  have ok: "pkt_answer (am_owner m) (am_owner m') k (Some (i, True))"
      "switch_rule m (case lv of None \<Rightarrow> SILENT_LEVEL | Some l \<Rightarrow> l) (Some (i, True))"
    using am_on_pkt_ok [OF wf assms(1,2), of k lv now] assms(4) by (simp_all add: pkt_ok_def)
  obtain y where y: "am_outputs m ! i = Some y" "os_source y = j"
    using assms(5) own by (auto simp: am_owner_def split: if_splits)
  then have "y = \<lparr>os_audio_level = os_audio_level y, os_source = j\<rparr>" by simp
  moreover have full: "None \<notin> set (am_outputs m)" and "os_audio_level y + SWITCH_AUDIO_THRESHOLD \<le> (case lv of None \<Rightarrow> SILENT_LEVEL | Some l \<Rightarrow> l)"
    and "\<forall>x. Some x \<in> set (am_outputs m) \<longrightarrow> os_audio_level y \<le> os_audio_level x"
    using ok(2) y(1) unfolding switch_rule_def by blast+
  moreover have "dom own = {..<n}"
    using full am_wfD(2) [OF wf] unfolding own by (auto simp: am_owner_def split: if_splits) (metis nth_mem option.exhaust)
  moreover have "j \<noteq> k" "am_owner m' i = Some k"
    using ok(1) assms(5) own by (auto simp: pkt_answer_def ran_def)
  ultimately show ?thesis using y by metis
qed

theorem am_switch_only_louder_witness:
  "\<exists>m'. am_on_pkt 3 9 (Some 40) am_demo = Inr (m', Some (1, True)) \<and> (8::nat) \<noteq> 9 \<and> am_owner m' 1 = Some 9"
proof -
  obtain m' where m': "am_on_pkt 3 9 (Some 40) am_demo = Inr (m', Some (1, True))"
    by (simp add: am_demo_def am_eval SWITCH_AUDIO_THRESHOLD_def)
  show ?thesis using am_switch_only_louder [OF _ _ am_demo_run m', of 8] m' by simp
qed

text \<open>
  A tick clears exactly the slots whose owner has been silent for the timeout; every other
  slot keeps its owner.
\<close>
theorem am_tick_clears_silent:
  assumes "0 < n" "n < 2 ^ 64" "rfold am_step ops (am_init n) = Inr (m, own, seen)"
  shows "\<exists>m' r. am_on_tick now m = Inr (m', r) \<and>
     set (case r of None \<Rightarrow> [] | Some is \<Rightarrow> is) = {i. \<exists>k t. own i = Some k \<and> seen k = Some t \<and> t + AUDIO_SLOT_TIMEOUT \<le> now} \<and>
     (\<forall>i k t. own i = Some k \<and> seen k = Some t \<longrightarrow> am_owner m' i = (if t + AUDIO_SLOT_TIMEOUT \<le> now then None else Some k))"
proof -
  have inv: "am_inv n (m, own, seen)" using am_run_inv [OF assms(1,2), of ops] assms(3) by simp
  then have wf: "am_wf n m" and own: "own = am_owner m" and t: "am_times m \<subseteq>\<^sub>m seen" by (simp_all add: am_good_def)
  have sv: "\<exists>v. im_get (am_sources m) k = Some v \<and> seen k = Some (ss_last_changed_at v)" if "own i = Some k" for i k
  proof -
    have "am_slot_of m k = Some i" using that am_wfD(5) [OF wf, of k i] unfolding own by simp
    then obtain v where "im_get (am_sources m) k = Some v" by (auto simp: am_slot_of_def bind_eq_Some_conv)
    moreover from this have "seen k = am_times m k" using t by (force simp: map_le_def am_times_def)
    ultimately show ?thesis by (simp add: am_times_def)
  qed
  have due: "due now m = {i. \<exists>k t. own i = Some k \<and> seen k = Some t \<and> t + AUDIO_SLOT_TIMEOUT \<le> now}"
    using sv unfolding due_def expired_def own by fastforce
  have "am_owner m' i = (if t + AUDIO_SLOT_TIMEOUT \<le> now then None else Some k)"
    if "am_owner m' = am_owner m |` (- due now m)" "own i = Some k" "seen k = Some t" for m' i k t
    using that unfolding due own by (auto simp: restrict_map_def)
  then show ?thesis using am_on_tick_ok [OF wf assms(2), of now] unfolding due [symmetric] by blast
qed

theorem am_tick_clears_silent_witness:
  "\<exists>m' r. am_on_tick 1000000000 am_demo = Inr (m', r) \<and> set (case r of None \<Rightarrow> [] | Some is \<Rightarrow> is) = {0} \<and>
     am_owner m' 0 = None \<and> am_owner m' 1 = Some 8"
proof -
  have *: "{i::nat. \<exists>k t. [0 \<mapsto> 7, 1 \<mapsto> 8] i = Some (k::nat) \<and> [7 \<mapsto> 0, 8 \<mapsto> 1, 9 \<mapsto> 2] k = Some t \<and>
      t + AUDIO_SLOT_TIMEOUT \<le> 1000000000} = {0}"
    by (auto simp: AUDIO_SLOT_TIMEOUT_def split: if_splits)
  obtain m' r where "am_on_tick 1000000000 am_demo = Inr (m', r)" "set (case r of None \<Rightarrow> [] | Some is \<Rightarrow> is) = {0}"
      and own: "\<forall>i k t. [0 \<mapsto> 7, 1 \<mapsto> 8] i = Some k \<and> [7 \<mapsto> 0, 8 \<mapsto> 1, 9 \<mapsto> 2] k = Some t \<longrightarrow>
        am_owner m' i = (if t + AUDIO_SLOT_TIMEOUT \<le> 1000000000 then None else Some k)"
    using am_tick_clears_silent [OF _ _ am_demo_run, of 1000000000] unfolding * by auto
  moreover have "am_owner m' 0 = None" using own [rule_format, of 0 7 0] by (simp add: AUDIO_SLOT_TIMEOUT_def)
  moreover have "am_owner m' 1 = Some 8" using own [rule_format, of 1 8 1] by (simp add: AUDIO_SLOT_TIMEOUT_def)
  ultimately show ?thesis by blast
qed

text \<open>
  A mixer without outputs panics at the second packet of a source: it has no empty slot and
  no lowest slot either.
\<close>
theorem am_no_outputs_panics:
  "rbind (am_on_pkt t1 k l1 (am_new 0)) (\<lambda>(m, _). am_on_pkt t2 k l2 m) = Inl Expect_None"
  by (simp add: am_on_pkt_def am_unknown_def am_known_def am_new_def am_find_empty_slot_def am_has_empty_slot_def
      am_lowest_slot_def im_get_def)

end
