(* ===== verification/Room_Mixers.thy ===== *)
theory Room_Mixers
  imports Audio_Mixer Cluster_Types
begin

unbundle bit_operations_syntax

text \<open>
  \<^verbatim>\<open>packages/media_core/src/cluster/room/audio_mixer/\<close>: the three clients of the audio mixer in a
  room. The publisher (\<open>xp\<close>) selects the three loudest tracks of this node and sends them on the
  mix channel; the subscriber (\<open>xs\<close>) mixes what arrives on that channel into the slots of every
  endpoint in automatic mode; the manual mixer (\<open>xm\<close>) mixes the tracks that one endpoint has
  chosen. Each keeps a table beside its mixer; the locale \<open>slot_selector\<close> gives that a slot the
  mixer answers with is in the table.
\<close>

section \<open>The publisher\<close>

definition FIRE_SOURCE_INTERVAL :: nat where "FIRE_SOURCE_INTERVAL = 500 * 1000000"

record track_slot =
  tsl_peer :: peer_id
  tsl_name :: track_name
  tsl_peer_hash :: nat

record xp_output_slot =
  xo_last_fired_source :: nat

record ('e, 'f) audio_mixer_publisher =
  xp_channel_id :: nat
  xp_tracks :: "('e \<times> nat, track_slot) imap"
  xp_mixer :: "('e \<times> nat) audio_mixer"
  xp_slots :: "xp_output_slot option list"
  xp_queue :: "('e, 'f) mt_output list"

definition xp_new :: "nat \<Rightarrow> ('e, 'f) audio_mixer_publisher" where
  "xp_new channel_id = \<lparr>xp_channel_id = channel_id, xp_tracks = [], xp_mixer = am_new 3, xp_slots = [None, None, None], xp_queue = []\<rparr>"

definition xp_push :: "('e, 'f) mt_output \<Rightarrow> ('e, 'f) audio_mixer_publisher \<Rightarrow> ('e, 'f) audio_mixer_publisher" where
  "xp_push x s = s\<lparr>xp_queue := xp_queue s @ [x]\<rparr>"

definition xp_on_tick :: "nat \<Rightarrow> ('e, 'f) audio_mixer_publisher \<Rightarrow> ('e, 'f) audio_mixer_publisher run" where
  "xp_on_tick now s = rbind (am_on_tick now (xp_mixer s)) (\<lambda>(m, r).
     case r of None \<Rightarrow> Inr (s\<lparr>xp_mixer := m\<rparr>)
     | Some removed_slots \<Rightarrow> rbind (clear_slots removed_slots (xp_slots s)) (\<lambda>slots. Inr (s\<lparr>xp_mixer := m, xp_slots := slots\<rparr>)))"

definition xp_on_track_publish ::
  "'f cluster_env \<Rightarrow> 'e \<Rightarrow> nat \<Rightarrow> peer_id \<Rightarrow> track_name \<Rightarrow> ('e, 'f) audio_mixer_publisher \<Rightarrow> ('e, 'f) audio_mixer_publisher run" where
  "xp_on_track_publish env endpoint track peer name s =
     rbind (rassert (\<not> im_contains (xp_tracks s) (endpoint, track))) (\<lambda>_.
     let s1 = (if xp_tracks s = [] then xp_push (Mt_Pubsub (xp_channel_id s) PubStart) s else s) in
     Inr (s1\<lparr>xp_tracks := im_insert (endpoint, track)
       \<lparr>tsl_peer = peer, tsl_name = name, tsl_peer_hash = peer_hash_code env peer\<rparr> (xp_tracks s1)\<rparr>))"

text \<open>The source that the packet carries, and the table after it: set at once with a new slot, and
  then again after the interval.\<close>

definition xp_fire ::
  "nat \<Rightarrow> track_slot \<Rightarrow> nat \<Rightarrow> bool \<Rightarrow> xp_output_slot option list \<Rightarrow> (xp_output_slot option list \<times> (peer_id \<times> track_name) option) run" where
  "xp_fire now info slot just_set slots =
     rbind (rindex slots slot) (\<lambda>cur.
     if just_set then Inr (slots[slot := Some \<lparr>xo_last_fired_source = now\<rparr>], Some (tsl_peer info, tsl_name info))
     else rbind (rexpect cur) (\<lambda>slot_info.
       if xo_last_fired_source slot_info + FIRE_SOURCE_INTERVAL \<le> now
       then Inr (slots[slot := Some \<lparr>xo_last_fired_source = now\<rparr>], Some (tsl_peer info, tsl_name info))
       else Inr (slots, None)))"

definition xp_on_track_data ::
  "'f cluster_env \<Rightarrow> nat \<Rightarrow> 'e \<Rightarrow> nat \<Rightarrow> media_packet \<Rightarrow> ('e, 'f) audio_mixer_publisher \<Rightarrow> ('e, 'f) audio_mixer_publisher run" where
  "xp_on_track_data env now endpoint track media s =
     rbind (rexpect (im_get (xp_tracks s) (endpoint, track))) (\<lambda>info.
     case pkt_meta media of
       Opus audio_level \<Rightarrow>
         rbind (am_on_pkt now (endpoint, track) audio_level (xp_mixer s)) (\<lambda>(m, r).
         case r of None \<Rightarrow> Inr (s\<lparr>xp_mixer := m\<rparr>)
         | Some (slot, just_set) \<Rightarrow>
             rbind (xp_fire now info slot just_set (xp_slots s)) (\<lambda>(slots, source).
             Inr (xp_push (Mt_Pubsub (xp_channel_id s) (PubData (env_mixer_ser env
                 \<lparr>amp_slot = as_u8 slot, amp_peer = tsl_peer_hash info, amp_track = track, amp_audio_level = audio_level,
                  amp_source = source, amp_ts = pkt_ts media, amp_seq = pkt_seq media, amp_opus_payload = pkt_data media\<rparr>)))
               (s\<lparr>xp_mixer := m, xp_slots := slots\<rparr>))))
     | _ \<Rightarrow> Inr s)"

definition xp_on_track_unpublish :: "'e \<Rightarrow> nat \<Rightarrow> ('e, 'f) audio_mixer_publisher \<Rightarrow> ('e, 'f) audio_mixer_publisher run" where
  "xp_on_track_unpublish endpoint track s =
     rbind (rassert (im_contains (xp_tracks s) (endpoint, track))) (\<lambda>_.
     let s1 = s\<lparr>xp_tracks := im_swap_remove (endpoint, track) (xp_tracks s)\<rparr> in
     Inr (if xp_tracks s1 = [] then xp_push (Mt_Pubsub (xp_channel_id s1) PubStop) s1 else s1))"

definition xp_is_empty :: "('e, 'f) audio_mixer_publisher \<Rightarrow> bool" where
  "xp_is_empty s \<longleftrightarrow> xp_queue s = [] \<and> xp_tracks s = []"

definition xp_pop_output :: "('e, 'f) audio_mixer_publisher \<Rightarrow> ('e, 'f) audio_mixer_publisher \<times> ('e, 'f) mt_output option" where
  "xp_pop_output s = (case xp_queue s of [] \<Rightarrow> (s, None) | x # q \<Rightarrow> (s\<lparr>xp_queue := q\<rparr>, Some x))"

definition xp_drop :: "('e, 'f) audio_mixer_publisher \<Rightarrow> unit run" where
  "xp_drop s = rbind (rassert (length (xp_queue s) = 0)) (\<lambda>_. rassert (length (xp_tracks s) = 0))"

section \<open>The subscriber\<close>

record endpoint_slot =
  es_peer :: nat
  es_tracks :: "nat list"

record xs_output_slot =
  xo_source :: "(peer_id \<times> track_name) option"

text \<open>The source of a mixed stream is the node it comes from with the slot on that node.\<close>

record ('e, 'f) audio_mixer_subscriber =
  xs_channel_id :: nat
  xs_queue :: "('e, 'f) mt_output list"
  xs_endpoints :: "('e, endpoint_slot) imap"
  xs_outputs :: "xs_output_slot option list"
  xs_mixer :: "(nat \<times> nat) audio_mixer"

definition xs_new :: "nat \<Rightarrow> nat \<Rightarrow> ('e, 'f) audio_mixer_subscriber" where
  "xs_new outputs channel_id = \<lparr>xs_channel_id = channel_id, xs_queue = [], xs_endpoints = [],
     xs_outputs = replicate outputs None, xs_mixer = am_new outputs\<rparr>"

definition xs_push :: "('e, 'f) mt_output list \<Rightarrow> ('e, 'f) audio_mixer_subscriber \<Rightarrow> ('e, 'f) audio_mixer_subscriber" where
  "xs_push os s = s\<lparr>xs_queue := xs_queue s @ os\<rparr>"

definition xs_to_all :: "cluster_endpoint_event \<Rightarrow> ('e, 'f) audio_mixer_subscriber \<Rightarrow> ('e, 'f) audio_mixer_subscriber" where
  "xs_to_all ev s = xs_push (map (\<lambda>(endpoint, _). Mt_Endpoint [endpoint] ev) (xs_endpoints s)) s"

definition xs_unset :: "nat \<Rightarrow> ('e, 'f) audio_mixer_subscriber \<Rightarrow> ('e, 'f) audio_mixer_subscriber run" where
  "xs_unset slot s = rbind (rindex (xs_outputs s) slot) (\<lambda>_.
     Inr (xs_to_all (Cee_AudioMixer (Cae_SlotUnset (as_u8 slot))) (s\<lparr>xs_outputs := (xs_outputs s)[slot := None]\<rparr>)))"

definition xs_on_tick :: "nat \<Rightarrow> ('e, 'f) audio_mixer_subscriber \<Rightarrow> ('e, 'f) audio_mixer_subscriber run" where
  "xs_on_tick now s = rbind (am_on_tick now (xs_mixer s)) (\<lambda>(m, r).
     case r of None \<Rightarrow> Inr (s\<lparr>xs_mixer := m\<rparr>) | Some removed_slots \<Rightarrow> rfold xs_unset removed_slots (s\<lparr>xs_mixer := m\<rparr>))"

text \<open>The slots that are set now, told to an endpoint that joins.\<close>

definition xs_restore :: "'e \<Rightarrow> xs_output_slot option list \<Rightarrow> ('e, 'f) mt_output list" where
  "xs_restore endpoint outputs = List.map_filter (\<lambda>(index, slot). case slot of None \<Rightarrow> None
     | Some sl \<Rightarrow> (case xo_source sl of None \<Rightarrow> None
        | Some (peer, track) \<Rightarrow> Some (Mt_Endpoint [endpoint] (Cee_AudioMixer (Cae_SlotSet (as_u8 index) peer track)))))
     (enumerate 0 outputs)"

definition xs_on_endpoint_join ::
  "'f cluster_env \<Rightarrow> 'e \<Rightarrow> peer_id \<Rightarrow> nat list \<Rightarrow> ('e, 'f) audio_mixer_subscriber \<Rightarrow> ('e, 'f) audio_mixer_subscriber run" where
  "xs_on_endpoint_join env endpoint peer tracks s =
     rbind (rassert (\<not> im_contains (xs_endpoints s) endpoint)) (\<lambda>_.
     let s1 = (if xs_endpoints s = [] then xs_push [Mt_Pubsub (xs_channel_id s) SubAuto] s else s);
         s2 = xs_push (xs_restore endpoint (xs_outputs s1)) s1 in
     Inr (s2\<lparr>xs_endpoints := im_insert endpoint \<lparr>es_peer = peer_hash_code env peer, es_tracks = tracks\<rparr> (xs_endpoints s2)\<rparr>))"

definition xs_media :: "audio_mixer_pkt \<Rightarrow> media_packet" where
  "xs_media audio = \<lparr>pkt_ts = amp_ts audio, pkt_seq = amp_seq audio, pkt_marker = False, pkt_nackable = False, pkt_layers = None,
     pkt_meta = Opus (amp_audio_level audio), pkt_data = amp_opus_payload audio\<rparr>"

definition xs_track_uuid :: "audio_mixer_pkt \<Rightarrow> nat" where
  "xs_track_uuid audio = take_bit 64 (push_bit 16 (amp_peer audio)) OR amp_track audio"

definition xs_forward ::
  "audio_mixer_pkt \<Rightarrow> nat \<Rightarrow> bool \<Rightarrow> 'e \<times> endpoint_slot \<Rightarrow> ('e, 'f) audio_mixer_subscriber \<Rightarrow> ('e, 'f) audio_mixer_subscriber run" where
  "xs_forward audio slot just_set = (\<lambda>(endpoint, endpoint_slot) s.
     if es_peer endpoint_slot \<noteq> amp_peer audio then
       rbind (rindex (es_tracks endpoint_slot) slot) (\<lambda>track_id.
       Inr (xs_push ((if just_set then [Mt_Endpoint [endpoint] (Cee_LocalTrack track_id Cle_SourceChanged)] else []) @
         [Mt_Endpoint [endpoint] (Cee_LocalTrack track_id (Cle_Media (xs_track_uuid audio) (xs_media audio)))]) s))
     else Inr s)"

text \<open>The slot's source becomes known: it is kept and told to all endpoints.\<close>

definition xs_learn ::
  "audio_mixer_pkt \<Rightarrow> nat \<Rightarrow> ('e, 'f) audio_mixer_subscriber \<Rightarrow> ('e, 'f) audio_mixer_subscriber run" where
  "xs_learn audio slot s = (case amp_source audio of None \<Rightarrow> Inr s
     | Some (peer, track) \<Rightarrow>
         rbind (rindex (xs_outputs s) slot) (\<lambda>cur. rbind (rexpect cur) (\<lambda>sl.
         if xo_source sl = None then
           Inr (xs_to_all (Cee_AudioMixer (Cae_SlotSet (as_u8 slot) peer track))
             (s\<lparr>xs_outputs := (xs_outputs s)[slot := Some (sl\<lparr>xo_source := Some (peer, track)\<rparr>)]\<rparr>))
         else Inr s)))"

definition xs_on_channel_data ::
  "'f cluster_env \<Rightarrow> nat \<Rightarrow> nat \<Rightarrow> bytes \<Rightarrow> ('e, 'f) audio_mixer_subscriber \<Rightarrow> ('e, 'f) audio_mixer_subscriber run" where
  "xs_on_channel_data env now from data s =
     (if xs_endpoints s = [] then Inr s
      else case env_mixer_de env data of None \<Rightarrow> Inr s
      | Some audio \<Rightarrow>
          rbind (am_on_pkt now (from, amp_slot audio) (amp_audio_level audio) (xs_mixer s)) (\<lambda>(m, r).
          let s1 = s\<lparr>xs_mixer := m\<rparr> in
          case r of None \<Rightarrow> Inr s1
          | Some (slot, just_set) \<Rightarrow>
              rbind (if just_set then rbind (rindex (xs_outputs s1) slot) (\<lambda>_.
                       Inr (s1\<lparr>xs_outputs := (xs_outputs s1)[slot := Some \<lparr>xo_source = None\<rparr>]\<rparr>)) else Inr s1) (\<lambda>s2.
              rbind (xs_learn audio slot s2) (\<lambda>s3.
              rfold (xs_forward audio slot just_set) (xs_endpoints s3) s3))))"

definition xs_on_endpoint_leave :: "'e \<Rightarrow> ('e, 'f) audio_mixer_subscriber \<Rightarrow> ('e, 'f) audio_mixer_subscriber run" where
  "xs_on_endpoint_leave endpoint s =
     rbind (rassert (im_contains (xs_endpoints s) endpoint)) (\<lambda>_.
     let s1 = s\<lparr>xs_endpoints := im_swap_remove endpoint (xs_endpoints s)\<rparr> in
     Inr (if xs_endpoints s1 = [] then xs_push [Mt_Pubsub (xs_channel_id s1) UnsubAuto] s1 else s1))"

definition xs_is_empty :: "('e, 'f) audio_mixer_subscriber \<Rightarrow> bool" where
  "xs_is_empty s \<longleftrightarrow> xs_queue s = [] \<and> xs_endpoints s = []"

definition xs_pop_output :: "('e, 'f) audio_mixer_subscriber \<Rightarrow> ('e, 'f) audio_mixer_subscriber \<times> ('e, 'f) mt_output option" where
  "xs_pop_output s = (case xs_queue s of [] \<Rightarrow> (s, None) | x # q \<Rightarrow> (s\<lparr>xs_queue := q\<rparr>, Some x))"

definition xs_drop :: "('e, 'f) audio_mixer_subscriber \<Rightarrow> unit run" where
  "xs_drop s = rbind (rassert (length (xs_queue s) = 0)) (\<lambda>_. rassert (length (xs_endpoints s) = 0))"

section \<open>The manual mixer\<close>

datatype xm_input = Xm_Attach "track_source list" | Xm_Detach "track_source list" | Xm_Pubsub nat nat bytes | Xm_LeaveRoom

record ('e, 'f) manual_mixer =
  xm_endpoint :: 'e
  xm_room :: room_hash
  xm_outputs :: "nat list"
  xm_sources :: "(nat, track_source) imap"
  xm_queue :: "('e, 'f) mt_output list"
  xm_mixer :: "nat audio_mixer"

definition xm_new :: "room_hash \<Rightarrow> 'e \<Rightarrow> nat list \<Rightarrow> ('e, 'f) manual_mixer" where
  "xm_new room endpoint outputs = \<lparr>xm_endpoint = endpoint, xm_room = room, xm_outputs = outputs, xm_sources = [], xm_queue = [],
     xm_mixer = am_new (length outputs)\<rparr>"

definition xm_push :: "('e, 'f) mt_output list \<Rightarrow> ('e, 'f) manual_mixer \<Rightarrow> ('e, 'f) manual_mixer" where
  "xm_push os s = s\<lparr>xm_queue := xm_queue s @ os\<rparr>"

definition xm_attach :: "'f cluster_env \<Rightarrow> track_source \<Rightarrow> ('e, 'f) manual_mixer \<Rightarrow> ('e, 'f) manual_mixer" where
  "xm_attach env source s =
     (let channel_id = gen_track_channel_id env (xm_room s) (tsrc_peer source) (tsrc_track source) in
      if im_get (xm_sources s) channel_id = None
      then xm_push [Mt_Pubsub channel_id SubAuto] (s\<lparr>xm_sources := im_insert channel_id source (xm_sources s)\<rparr>) else s)"

definition xm_on_source_pkt :: "nat \<Rightarrow> nat \<Rightarrow> media_packet \<Rightarrow> ('e, 'f) manual_mixer \<Rightarrow> ('e, 'f) manual_mixer run" where
  "xm_on_source_pkt now channel pkt s = (case pkt_meta pkt of
     Opus audio_level \<Rightarrow>
       rbind (am_on_pkt now channel audio_level (xm_mixer s)) (\<lambda>(m, r).
       let s1 = s\<lparr>xm_mixer := m\<rparr> in
       case r of None \<Rightarrow> Inr s1
       | Some (slot, just_set) \<Rightarrow>
           rbind (rindex (xm_outputs s1) slot) (\<lambda>track_id.
           rbind (if just_set then rbind (rexpect (im_get (xm_sources s1) channel)) (\<lambda>source_info.
                    Inr (xm_push [Mt_Endpoint [xm_endpoint s1] (Cee_LocalTrack track_id Cle_SourceChanged),
                      Mt_Endpoint [xm_endpoint s1] (Cee_AudioMixer (Cae_SlotSet (as_u8 slot) (tsrc_peer source_info) (tsrc_track source_info)))] s1))
                  else Inr s1) (\<lambda>s2.
           Inr (xm_push [Mt_Endpoint [xm_endpoint s2] (Cee_LocalTrack track_id (Cle_Media channel pkt))] s2))))
   | _ \<Rightarrow> Inr s)"

definition xm_detach :: "'f cluster_env \<Rightarrow> track_source \<Rightarrow> ('e, 'f) manual_mixer \<Rightarrow> ('e, 'f) manual_mixer" where
  "xm_detach env source s =
     (let channel_id = gen_track_channel_id env (xm_room s) (tsrc_peer source) (tsrc_track source) in
      if im_get (xm_sources s) channel_id \<noteq> None
      then xm_push [Mt_Pubsub channel_id UnsubAuto] (s\<lparr>xm_sources := im_swap_remove channel_id (xm_sources s)\<rparr>) else s)"

definition xm_on_tick :: "nat \<Rightarrow> ('e, 'f) manual_mixer \<Rightarrow> ('e, 'f) manual_mixer run" where
  "xm_on_tick now s = rbind (am_on_tick now (xm_mixer s)) (\<lambda>(m, r).
     let s1 = s\<lparr>xm_mixer := m\<rparr> in
     Inr (case r of None \<Rightarrow> s1
       | Some removed \<Rightarrow> xm_push (map (\<lambda>slot. Mt_Endpoint [xm_endpoint s1] (Cee_AudioMixer (Cae_SlotUnset (as_u8 slot)))) removed) s1))"

definition xm_on_event :: "'f cluster_env \<Rightarrow> nat \<Rightarrow> xm_input \<Rightarrow> ('e, 'f) manual_mixer \<Rightarrow> ('e, 'f) manual_mixer run" where
  "xm_on_event env now input s = (case input of
     Xm_Attach sources \<Rightarrow> Inr (fold (xm_attach env) sources s)
   | Xm_Detach sources \<Rightarrow> Inr (fold (xm_detach env) sources s)
   | Xm_Pubsub channel _ data \<Rightarrow> (case env_media_de env data of None \<Rightarrow> Inr s | Some pkt \<Rightarrow> xm_on_source_pkt now channel pkt s)
   | Xm_LeaveRoom \<Rightarrow> Inr (xm_push (map (\<lambda>(channel_id, _). Mt_Pubsub channel_id UnsubAuto) (xm_sources s)) (s\<lparr>xm_sources := []\<rparr>)))"

definition xm_is_empty :: "('e, 'f) manual_mixer \<Rightarrow> bool" where
  "xm_is_empty s \<longleftrightarrow> xm_queue s = [] \<and> xm_sources s = []"

definition xm_pop_output :: "('e, 'f) manual_mixer \<Rightarrow> ('e, 'f) manual_mixer \<times> ('e, 'f) mt_output option" where
  "xm_pop_output s = (case xm_queue s of [] \<Rightarrow> (s, None) | x # q \<Rightarrow> (s\<lparr>xm_queue := q\<rparr>, Some x))"

definition xm_drop :: "('e, 'f) manual_mixer \<Rightarrow> unit run" where
  "xm_drop s = rbind (rassert (length (xm_queue s) = 0)) (\<lambda>_. rassert (length (xm_sources s) = 0))"

section \<open>The publisher keeps to its channel\<close>

datatype 'e xp_op =
    Xp_Tick nat
  | Xp_Publish 'e nat peer_id track_name
  | Xp_Data nat 'e nat media_packet
  | Xp_Unpublish 'e nat

fun xp_step :: "'f cluster_env \<Rightarrow> 'e xp_op \<Rightarrow> ('e, 'f) audio_mixer_publisher \<Rightarrow> ('e, 'f) audio_mixer_publisher run" where
  "xp_step env (Xp_Tick now) s = xp_on_tick now s"
| "xp_step env (Xp_Publish e t p n) s = xp_on_track_publish env e t p n s"
| "xp_step env (Xp_Data now e t m) s = xp_on_track_data env now e t m s"
| "xp_step env (Xp_Unpublish e t) s = xp_on_track_unpublish e t s"

definition xp_wf :: "('e, 'f) audio_mixer_publisher \<Rightarrow> bool" where
  "xp_wf s \<longleftrightarrow> im_wf (xp_tracks s) \<and> am_good 3 (xp_mixer s) \<and> follows 3 (am_owner (xp_mixer s)) (xp_slots s)"

definition xp_held :: "('e, 'f) audio_mixer_publisher \<Rightarrow> nat set" where
  "xp_held s = (if xp_tracks s = [] then {} else {xp_channel_id s})"

text \<open>A track is published once, and sends and ends only while it is published.\<close>

fun xp_admits :: "'e xp_op \<Rightarrow> ('e, 'f) audio_mixer_publisher \<Rightarrow> bool" where
  "xp_admits (Xp_Tick _) s = True"
| "xp_admits (Xp_Publish e t _ _) s = (\<not> im_contains (xp_tracks s) (e, t))"
| "xp_admits (Xp_Data _ e t _) s = im_contains (xp_tracks s) (e, t)"
| "xp_admits (Xp_Unpublish e t) s = im_contains (xp_tracks s) (e, t)"

lemma follows_new [simp]: "follows n Map.empty (replicate n None)"
  by (simp add: follows_def)

lemma xp_wf_new: "xp_wf (xp_new c)"
  by (simp add: xp_wf_def xp_new_def am_good_new follows_def nth_Cons split: nat.split)

lemma xp_on_tick_ok:
  assumes "xp_wf s"
  shows "\<exists>m slots. xp_on_tick now s = Inr (s\<lparr>xp_mixer := m, xp_slots := slots\<rparr>) \<and> xp_wf (s\<lparr>xp_mixer := m, xp_slots := slots\<rparr>)"
proof -
  have good: "am_good 3 (xp_mixer s)" "follows 3 (am_owner (xp_mixer s)) (xp_slots s)" and wf: "im_wf (xp_tracks s)"
    using assms by (simp_all add: xp_wf_def)
  obtain m r where m: "am_on_tick now (xp_mixer s) = Inr (m, r)" "am_good 3 m"
      "follows 3 (am_owner m) (clear_all (case r of None \<Rightarrow> [] | Some is \<Rightarrow> is) (xp_slots s))"
      "\<forall>i\<in>set (case r of None \<Rightarrow> [] | Some is \<Rightarrow> is). i < 3"
    using ams.tick_follow [OF good] .
  have len: "length (xp_slots s) = 3" using good(2) by (simp add: follows_def)
  show ?thesis
  proof (cases r)
    case None
    then show ?thesis using m wf by (intro exI [of _ m] exI [of _ "xp_slots s"]) (simp add: xp_on_tick_def xp_wf_def)
  next
    case (Some removed)
    then have "clear_slots removed (xp_slots s) = Inr (clear_all removed (xp_slots s))" using m(4) len by (intro clear_slots_eq) simp
    then show ?thesis using m wf Some
      by (intro exI [of _ m] exI [of _ "clear_all removed (xp_slots s)"]) (simp add: xp_on_tick_def xp_wf_def)
  qed
qed

text \<open>A packet is either dropped or sent on the mix channel as it is, in a slot of its track.\<close>

definition xp_forwarded :: "nat \<Rightarrow> track_slot \<Rightarrow> nat \<Rightarrow> media_packet \<Rightarrow> (peer_id \<times> track_name) option \<Rightarrow> audio_mixer_pkt" where
  "xp_forwarded slot info track media source = \<lparr>amp_slot = slot, amp_peer = tsl_peer_hash info, amp_track = track,
     amp_audio_level = meta_audio_level (pkt_meta media), amp_source = source, amp_ts = pkt_ts media, amp_seq = pkt_seq media,
     amp_opus_payload = pkt_data media\<rparr>"

lemma xp_fire_ok:
  assumes "slots ! i = (if just_set then z else Some x)" "i < length slots"
  shows "\<exists>y src. xp_fire now info i just_set slots = Inr (slots[i := Some y], src) \<and> (src = None \<or> src = Some (tsl_peer info, tsl_name info))"
proof (cases "just_set \<or> xo_last_fired_source x + FIRE_SOURCE_INTERVAL \<le> now")
  case True
  then show ?thesis using assms by (auto simp: xp_fire_def)
next
  case False
  then have "slots[i := Some x] = slots" using assms by (simp add: list_update_same_conv)
  then show ?thesis using assms False by (intro exI [of _ x] exI [of _ None]) (simp add: xp_fire_def)
qed

definition xp_sends :: "'f cluster_env \<Rightarrow> 'e \<Rightarrow> nat \<Rightarrow> media_packet \<Rightarrow> track_slot \<Rightarrow> ('e, 'f) audio_mixer_publisher \<Rightarrow> ('e, 'f) audio_mixer_publisher \<Rightarrow> bool" where
  "xp_sends env e t media info s s' \<longleftrightarrow> xp_queue s' = xp_queue s \<or>
     (\<exists>slot src. slot < 3 \<and> am_owner (xp_mixer s') slot = Some (e, t) \<and> meta_is_audio (pkt_meta media) \<and>
        (src = None \<or> src = Some (tsl_peer info, tsl_name info)) \<and>
        xp_queue s' = xp_queue s @ [Mt_Pubsub (xp_channel_id s) (PubData (env_mixer_ser env (xp_forwarded slot info t media src)))])"

lemma xp_on_track_data_ok:
  assumes "xp_wf s" "im_get (xp_tracks s) (e, t) = Some info"
  shows "\<exists>s'. xp_on_track_data env now e t media s = Inr s' \<and> xp_wf s' \<and> xp_tracks s' = xp_tracks s \<and>
     xp_channel_id s' = xp_channel_id s \<and> xp_sends env e t media info s s'"
proof (cases "pkt_meta media")
  case (Opus lv)
  have good: "am_good 3 (xp_mixer s)" "follows 3 (am_owner (xp_mixer s)) (xp_slots s)" and wf: "im_wf (xp_tracks s)"
    using assms by (simp_all add: xp_wf_def)
  then have len: "length (xp_slots s) = 3" by (simp add: follows_def)
  note unf = xp_on_track_data_def xp_wf_def xp_sends_def xp_push_def xp_forwarded_def meta_is_audio_def meta_audio_level_def as_u8_def
  show ?thesis
  proof (rule ams.pkt_follow [OF good, of now "(e, t)" lv])
    fix m' assume "am_on_pkt now (e, t) lv (xp_mixer s) = Inr (m', None)" "am_good 3 m'" "follows 3 (am_owner m') (xp_slots s)"
    then show ?thesis using Opus assms(2) wf by (simp add: unf)
  next
    fix m' i assume m: "am_on_pkt now (e, t) lv (xp_mixer s) = Inr (m', Some (i, True))" "am_good 3 m'" "i < 3"
        "am_owner m' i = Some (e, t)" "\<And>x. follows 3 (am_owner m') ((xp_slots s)[i := Some x])"
    obtain y src where "xp_fire now info i True (xp_slots s) = Inr ((xp_slots s)[i := Some y], src)"
        "src = None \<or> src = Some (tsl_peer info, tsl_name info)"
      using xp_fire_ok [of "xp_slots s" i True "xp_slots s ! i" _ now info] m(3) len by auto
    then show ?thesis using Opus assms(2) wf m by (fastforce simp: unf)
  next
    fix m' i x assume m: "am_on_pkt now (e, t) lv (xp_mixer s) = Inr (m', Some (i, False))" "am_good 3 m'" "i < 3"
        "am_owner m' i = Some (e, t)" "xp_slots s ! i = Some x" "\<And>y. follows 3 (am_owner m') ((xp_slots s)[i := Some y])"
    obtain y src where "xp_fire now info i False (xp_slots s) = Inr ((xp_slots s)[i := Some y], src)"
        "src = None \<or> src = Some (tsl_peer info, tsl_name info)"
      using xp_fire_ok [of "xp_slots s" i False None x now info] m(3,5) len by auto
    then show ?thesis using Opus assms(2) wf m by (fastforce simp: unf)
  qed
qed (use assms in \<open>simp_all add: xp_on_track_data_def xp_sends_def\<close>)

lemma im_contains_get: "im_contains m k \<longleftrightarrow> (\<exists>v. im_get m k = Some v)"
  using im_get_None_iff [of m k] by (cases "im_get m k") (auto simp: im_contains_iff)

lemma xp_step_sessions:
  assumes wf: "xp_wf s" and adm: "xp_admits x s"
  shows "\<exists>s' cs. xp_step env x s = Inr s' \<and> xp_wf s' \<and>
     mt_ctls pub_act (xp_queue s') = mt_ctls pub_act (xp_queue s) @ cs \<and> sessions (xp_held s) cs = Some (xp_held s')"
proof (cases x)
  case (Xp_Tick now)
  obtain m slots where "xp_on_tick now s = Inr (s\<lparr>xp_mixer := m, xp_slots := slots\<rparr>)" "xp_wf (s\<lparr>xp_mixer := m, xp_slots := slots\<rparr>)"
    using xp_on_tick_ok [OF wf, of now] by blast
  then show ?thesis using Xp_Tick by (simp add: xp_held_def)
next
  case (Xp_Publish e t p n)
  then show ?thesis using wf adm
    by (auto simp: xp_on_track_publish_def xp_held_def xp_wf_def xp_push_def Let_def list_upd)
next
  case (Xp_Data now e t m)
  then obtain info where info: "im_get (xp_tracks s) (e, t) = Some info" using adm by (auto simp: im_contains_get)
  then have ne: "xp_tracks s \<noteq> []" by auto
  from xp_on_track_data_ok [OF wf info, of env now m]
  obtain s' where s': "xp_on_track_data env now e t m s = Inr s'" "xp_wf s'" "xp_tracks s' = xp_tracks s"
      "xp_channel_id s' = xp_channel_id s" "xp_sends env e t m info s s'" by (elim exE conjE) (rule that; assumption)
  have "\<exists>cs. mt_ctls pub_act (xp_queue s') = mt_ctls pub_act (xp_queue s) @ cs \<and> sessions (xp_held s) cs = Some (xp_held s')"
    using s'(5) [unfolded xp_sends_def] s'(3,4) ne
    by (elim disjE exE conjE) (simp_all add: xp_held_def)
  then show ?thesis using s'(1,2) Xp_Data by auto
next
  case (Xp_Unpublish e t)
  then have ne: "xp_tracks s \<noteq> []" using adm by (auto simp: im_contains_def)
  show ?thesis using Xp_Unpublish wf adm ne
    by (auto simp: xp_on_track_unpublish_def xp_held_def xp_wf_def xp_push_def Let_def list_upd)
qed

interpretation xpc: session_client "xp_step env" "\<lambda>s. mt_ctls pub_act (xp_queue s)" xp_held xp_wf xp_admits
  for env :: "'f cluster_env"
  by unfold_locales (rule xp_step_sessions)

section \<open>The subscriber keeps to its channel\<close>

datatype 'e xs_op =
    Xs_Tick nat
  | Xs_Join 'e peer_id "nat list"
  | Xs_Data nat nat bytes
  | Xs_Leave 'e

fun xs_step :: "'f cluster_env \<Rightarrow> 'e xs_op \<Rightarrow> ('e, 'f) audio_mixer_subscriber \<Rightarrow> ('e, 'f) audio_mixer_subscriber run" where
  "xs_step env (Xs_Tick now) s = xs_on_tick now s"
| "xs_step env (Xs_Join e p ts) s = xs_on_endpoint_join env e p ts s"
| "xs_step env (Xs_Data now from d) s = xs_on_channel_data env now from d s"
| "xs_step env (Xs_Leave e) s = xs_on_endpoint_leave e s"

definition xs_wf :: "nat \<Rightarrow> ('e, 'f) audio_mixer_subscriber \<Rightarrow> bool" where
  "xs_wf n s \<longleftrightarrow> im_wf (xs_endpoints s) \<and> am_good n (xs_mixer s) \<and> follows n (am_owner (xs_mixer s)) (xs_outputs s) \<and>
     (\<forall>(e, sl) \<in> set (xs_endpoints s). length (es_tracks sl) = n)"

definition xs_held :: "('e, 'f) audio_mixer_subscriber \<Rightarrow> nat set" where
  "xs_held s = (if xs_endpoints s = [] then {} else {xs_channel_id s})"

text \<open>An endpoint joins once, with one local track for each slot, and leaves only after it joined.\<close>

fun xs_admits :: "nat \<Rightarrow> 'e xs_op \<Rightarrow> ('e, 'f) audio_mixer_subscriber \<Rightarrow> bool" where
  "xs_admits n (Xs_Join e _ ts) s = (\<not> im_contains (xs_endpoints s) e \<and> length ts = n)"
| "xs_admits n (Xs_Leave e) s = im_contains (xs_endpoints s) e"
| "xs_admits n _ s = True"

lemma xs_wf_new: "0 < n \<Longrightarrow> n < 2 ^ 64 \<Longrightarrow> xs_wf n (xs_new n c)"
  by (simp add: xs_wf_def xs_new_def am_good_new)

text \<open>Steps that only queue messages for endpoints, and change the slots.\<close>

definition xs_quiet :: "('e, 'f) audio_mixer_subscriber \<Rightarrow> ('e, 'f) audio_mixer_subscriber \<Rightarrow> bool" where
  "xs_quiet s s' \<longleftrightarrow> xs_endpoints s' = xs_endpoints s \<and> xs_channel_id s' = xs_channel_id s \<and>
     (\<exists>os. xs_queue s' = xs_queue s @ os \<and> (\<forall>x\<in>set os. \<exists>e ev. x = Mt_Endpoint [e] ev))"

lemma xs_quiet_refl [simp]: "xs_quiet s s"
  by (simp add: xs_quiet_def)

lemma xs_quiet_trans: "xs_quiet s s' \<Longrightarrow> xs_quiet s' s'' \<Longrightarrow> xs_quiet s s''"
  unfolding xs_quiet_def by (elim conjE exE) (simp add: ball_Un)

lemma xs_quiet_push: "\<forall>x\<in>set os. \<exists>e ev. x = Mt_Endpoint [e] ev \<Longrightarrow> xs_quiet s (xs_push os s)"
  by (simp add: xs_quiet_def xs_push_def)

lemma xs_quiet_upd [simp]: "xs_quiet s (s\<lparr>xs_outputs := x\<rparr>)" "xs_quiet s (s\<lparr>xs_mixer := m\<rparr>)"
  by (simp_all add: xs_quiet_def)

lemma xs_quiet_to_all: "xs_quiet s (xs_to_all ev s)"
  unfolding xs_to_all_def by (rule xs_quiet_push) auto

lemma mt_ctls_endpoints: "\<forall>x\<in>set os. \<exists>e ev. x = Mt_Endpoint [e] ev \<Longrightarrow> mt_ctls act os = []"
proof (induction os)
  case (Cons x os)
  then obtain e ev where "x = Mt_Endpoint [e] ev" by auto
  then show ?case using Cons by (simp add: mt_ctls_def List.map_filter_def)
qed simp

lemma xs_quiet_sessions:
  "xs_quiet s s' \<Longrightarrow> mt_ctls sub_act (xs_queue s') = mt_ctls sub_act (xs_queue s) \<and> xs_held s' = xs_held s"
  by (auto simp: xs_quiet_def xs_held_def mt_ctls_endpoints)

lemma xs_push_simps [simp]: "xs_endpoints (xs_push os s) = xs_endpoints s" "xs_outputs (xs_push os s) = xs_outputs s"
  "xs_mixer (xs_push os s) = xs_mixer s" "xs_channel_id (xs_push os s) = xs_channel_id s" "xs_queue (xs_push os s) = xs_queue s @ os"
  by (simp_all add: xs_push_def)

lemma xs_to_all_simps [simp]: "xs_endpoints (xs_to_all ev s) = xs_endpoints s" "xs_outputs (xs_to_all ev s) = xs_outputs s"
  "xs_mixer (xs_to_all ev s) = xs_mixer s" "xs_channel_id (xs_to_all ev s) = xs_channel_id s"
  by (simp_all add: xs_to_all_def)

lemma xs_unset_loop:
  assumes "\<forall>i\<in>set is. i < length (xs_outputs s)"
  shows "\<exists>s'. rfold xs_unset is s = Inr s' \<and> xs_quiet s s' \<and> xs_mixer s' = xs_mixer s \<and> xs_outputs s' = clear_all is (xs_outputs s)"
  using assms
proof (induction "is" arbitrary: s)
  case Nil
  then show ?case by simp
next
  case (Cons i "is")
  let ?s1 = "xs_to_all (Cee_AudioMixer (Cae_SlotUnset (as_u8 i))) (s\<lparr>xs_outputs := (xs_outputs s)[i := None]\<rparr>)"
  have "xs_unset i s = Inr ?s1" using Cons.prems by (simp add: xs_unset_def)
  moreover obtain s' where "rfold xs_unset is ?s1 = Inr s'" "xs_quiet ?s1 s'" "xs_mixer s' = xs_mixer ?s1"
      "xs_outputs s' = clear_all is (xs_outputs ?s1)" using Cons.IH [of ?s1] Cons.prems by auto
  moreover have "xs_quiet s ?s1" using xs_quiet_trans [OF xs_quiet_upd(1) xs_quiet_to_all] .
  ultimately show ?case using xs_quiet_trans by fastforce
qed

lemma xs_on_tick_ok:
  assumes "xs_wf n s"
  shows "\<exists>s'. xs_on_tick now s = Inr s' \<and> xs_wf n s' \<and> xs_quiet s s'"
proof -
  have good: "am_good n (xs_mixer s)" "follows n (am_owner (xs_mixer s)) (xs_outputs s)" using assms by (simp_all add: xs_wf_def)
  obtain m r where m: "am_on_tick now (xs_mixer s) = Inr (m, r)" "am_good n m"
      "follows n (am_owner m) (clear_all (case r of None \<Rightarrow> [] | Some is \<Rightarrow> is) (xs_outputs s))"
      "\<forall>i\<in>set (case r of None \<Rightarrow> [] | Some is \<Rightarrow> is). i < n"
    using ams.tick_follow [OF good] .
  have len: "length (xs_outputs s) = n" using good(2) by (simp add: follows_def)
  show ?thesis
  proof (cases r)
    case None
    then show ?thesis using m assms by (simp add: xs_on_tick_def xs_wf_def)
  next
    case (Some removed)
    then obtain s' where s': "rfold xs_unset removed (s\<lparr>xs_mixer := m\<rparr>) = Inr s'" "xs_quiet (s\<lparr>xs_mixer := m\<rparr>) s'" "xs_mixer s' = m"
        "xs_outputs s' = clear_all removed (xs_outputs s)"
      using xs_unset_loop [of removed "s\<lparr>xs_mixer := m\<rparr>"] m(4) len by auto
    have "xs_quiet s s'" using xs_quiet_trans [OF xs_quiet_upd(2) s'(2)] .
    then show ?thesis using m assms Some s' by (simp add: xs_on_tick_def xs_wf_def xs_quiet_def)
  qed
qed

text \<open>What one endpoint is sent for a packet in a slot.\<close>

definition xs_sent :: "audio_mixer_pkt \<Rightarrow> nat \<Rightarrow> bool \<Rightarrow> 'e \<times> endpoint_slot \<Rightarrow> ('e, 'f) mt_output list" where
  "xs_sent audio slot just_set = (\<lambda>(e, sl). if es_peer sl = amp_peer audio then [] else
     (if just_set then [Mt_Endpoint [e] (Cee_LocalTrack (es_tracks sl ! slot) Cle_SourceChanged)] else []) @
     [Mt_Endpoint [e] (Cee_LocalTrack (es_tracks sl ! slot) (Cle_Media (xs_track_uuid audio) (xs_media audio)))])"

lemma xs_push_push: "xs_push ys (xs_push xs s) = xs_push (xs @ ys) s" "xs_push [] s = s"
  by (simp_all add: xs_push_def)

lemma xs_forward_loop:
  "\<forall>(e, sl) \<in> set es. slot < length (es_tracks sl) \<Longrightarrow>
     rfold (xs_forward audio slot just_set) es s = Inr (xs_push (concat (map (xs_sent audio slot just_set) es)) s)"
  by (induction es arbitrary: s) (auto simp: xs_forward_def xs_sent_def xs_push_push)

lemma xs_sent_endpoint: "x \<in> set (xs_sent audio slot js p) \<Longrightarrow> \<exists>e ev. x = Mt_Endpoint [e] ev"
  by (auto simp: xs_sent_def split: prod.splits if_splits)

definition mixer_events :: "('e, 'f) mt_output list \<Rightarrow> bool" where
  "mixer_events os \<longleftrightarrow> (\<forall>x\<in>set os. \<exists>e ev. x = Mt_Endpoint [e] (Cee_AudioMixer ev))"

lemma xs_learn_ok:
  assumes "i < length (xs_outputs s)" "xs_outputs s ! i = Some sl"
  shows "\<exists>os sl'. xs_learn audio i s = Inr (xs_push os (s\<lparr>xs_outputs := (xs_outputs s)[i := Some sl']\<rparr>)) \<and> mixer_events os"
proof (cases "amp_source audio = None \<or> xo_source sl \<noteq> None")
  case True
  have "(xs_outputs s)[i := Some sl] = xs_outputs s" using assms by (simp add: list_update_same_conv)
  then have "s\<lparr>xs_outputs := (xs_outputs s)[i := Some sl]\<rparr> = s" by simp
  then show ?thesis using True assms
    by (intro exI [of _ "[]"] exI [of _ sl]) (auto simp: xs_learn_def xs_push_push mixer_events_def split: option.split)
next
  case False
  then obtain p t where "amp_source audio = Some (p, t)" by auto
  then show ?thesis using assms False
    by (auto simp: xs_learn_def xs_to_all_def mixer_events_def
        intro!: exI [of _ "map (\<lambda>(e, _). Mt_Endpoint [e] (Cee_AudioMixer (Cae_SlotSet (as_u8 i) p t))) (xs_endpoints s)"]
          exI [of _ "sl\<lparr>xo_source := Some (p, t)\<rparr>"])
qed

definition xs_delivers :: "nat \<Rightarrow> nat \<times> nat \<Rightarrow> audio_mixer_pkt \<Rightarrow> ('e, 'f) audio_mixer_subscriber \<Rightarrow> ('e, 'f) audio_mixer_subscriber \<Rightarrow> bool" where
  "xs_delivers n src audio s s' \<longleftrightarrow> xs_queue s' = xs_queue s \<or>
     (\<exists>slot js os. slot < n \<and> am_owner (xs_mixer s') slot = Some src \<and> mixer_events os \<and>
        xs_queue s' = xs_queue s @ os @ concat (map (xs_sent audio slot js) (xs_endpoints s)))"

lemma xs_after_select:
  assumes wf: "xs_wf n s" and m: "am_good n m" "i < n" "am_owner m i = Some src"
    and s1: "s1 = s\<lparr>xs_mixer := m, xs_outputs := (xs_outputs s)[i := Some x]\<rparr>"
    and f: "\<And>y. follows n (am_owner m) ((xs_outputs s)[i := Some y])"
  shows "\<exists>s'. rbind (xs_learn audio i s1) (\<lambda>s3. rfold (xs_forward audio i js) (xs_endpoints s3) s3) = Inr s' \<and>
     xs_wf n s' \<and> xs_quiet s s' \<and> xs_delivers n src audio s s'"
proof -
  have len: "length (xs_outputs s) = n" and tr: "\<forall>(e, sl) \<in> set (xs_endpoints s). i < length (es_tracks sl)"
    using wf m(2) by (auto simp: xs_wf_def follows_def)
  obtain os sl' where l: "xs_learn audio i s1 = Inr (xs_push os (s1\<lparr>xs_outputs := (xs_outputs s)[i := Some sl']\<rparr>))" "mixer_events os"
    using xs_learn_ok [of i s1 x audio] m(2) len by (auto simp: s1)
  let ?sent = "concat (map (xs_sent audio i js) (xs_endpoints s))"
  let ?s' = "xs_push (os @ ?sent) (s1\<lparr>xs_outputs := (xs_outputs s)[i := Some sl']\<rparr>)"
  have "rbind (xs_learn audio i s1) (\<lambda>s3. rfold (xs_forward audio i js) (xs_endpoints s3) s3) = Inr ?s'"
    using l(1) xs_forward_loop [OF tr, of audio js "xs_push os (s1\<lparr>xs_outputs := (xs_outputs s)[i := Some sl']\<rparr>)"]
    by (simp add: s1 xs_push_push)
  moreover have "xs_wf n ?s'" using wf m(1) f by (simp add: xs_wf_def s1)
  moreover have "xs_quiet s ?s'" using l(2) by (fastforce simp: xs_quiet_def s1 mixer_events_def dest: xs_sent_endpoint)
  moreover have "xs_delivers n src audio s ?s'" using m l(2) by (auto simp: xs_delivers_def s1)
  ultimately show ?thesis by blast
qed

lemma xs_on_channel_data_ok:
  assumes wf: "xs_wf n s" and ne: "xs_endpoints s \<noteq> []" and de: "env_mixer_de env data = Some audio"
  shows "\<exists>s'. xs_on_channel_data env now from data s = Inr s' \<and> xs_wf n s' \<and> xs_quiet s s' \<and>
     xs_delivers n (from, amp_slot audio) audio s s'"
proof -
  let ?k = "(from, amp_slot audio)" and ?lv = "amp_audio_level audio"
  have good: "am_good n (xs_mixer s)" "follows n (am_owner (xs_mixer s)) (xs_outputs s)" using wf by (simp_all add: xs_wf_def)
  have len: "length (xs_outputs s) = n" using good(2) by (simp add: follows_def)
  show ?thesis
  proof (rule ams.pkt_follow [OF good, of now ?k ?lv])
    fix m assume "am_on_pkt now ?k ?lv (xs_mixer s) = Inr (m, None)" "am_good n m" "follows n (am_owner m) (xs_outputs s)"
    then show ?thesis using wf ne de by (simp add: xs_on_channel_data_def xs_wf_def xs_delivers_def)
  next
    fix m i assume m: "am_on_pkt now ?k ?lv (xs_mixer s) = Inr (m, Some (i, True))" "am_good n m" "i < n" "am_owner m i = Some ?k"
        "\<And>x. follows n (am_owner m) ((xs_outputs s)[i := Some x])"
    show ?thesis using xs_after_select [OF wf m(2,3,4) refl m(5), where x = "\<lparr>xo_source = None\<rparr>" and audio = audio and js = True] ne de m(1,3) len
      by (simp add: xs_on_channel_data_def Let_def)
  next
    fix m i x assume m: "am_on_pkt now ?k ?lv (xs_mixer s) = Inr (m, Some (i, False))" "am_good n m" "i < n" "am_owner m i = Some ?k"
        "xs_outputs s ! i = Some x" "\<And>y. follows n (am_owner m) ((xs_outputs s)[i := Some y])"
    have "(xs_outputs s)[i := Some x] = xs_outputs s" using m(3,5) len by (simp add: list_update_same_conv)
    then have "s\<lparr>xs_mixer := m\<rparr> = s\<lparr>xs_mixer := m, xs_outputs := (xs_outputs s)[i := Some x]\<rparr>" by simp
    from xs_after_select [OF wf m(2,3,4) this m(6), where audio = audio and js = False] show ?thesis using ne de m(1)
      by (simp add: xs_on_channel_data_def Let_def)
  qed
qed

lemma xs_restore_endpoints: "x \<in> set (xs_restore e outs) \<Longrightarrow> \<exists>e ev. x = Mt_Endpoint [e] ev"
  by (auto simp: xs_restore_def set_map_filter_iff split: option.splits)

lemma mt_ctls_restore [simp]: "mt_ctls act (xs_restore e outs) = []"
  by (intro mt_ctls_endpoints ballI) (erule xs_restore_endpoints)

lemma xs_tracks_insert:
  assumes "im_get es e = None"
  shows "(\<forall>(e, sl) \<in> set (im_insert e sl es). length (es_tracks sl) = n) \<longleftrightarrow>
     length (es_tracks sl) = n \<and> (\<forall>(e, sl) \<in> set es. length (es_tracks sl) = n)"
  using assms by (auto simp: set_im_insert_fresh)

lemma xs_step_sessions:
  assumes wf: "xs_wf n s" and adm: "xs_admits n x s"
  shows "\<exists>s' cs. xs_step env x s = Inr s' \<and> xs_wf n s' \<and>
     mt_ctls sub_act (xs_queue s') = mt_ctls sub_act (xs_queue s) @ cs \<and> sessions (xs_held s) cs = Some (xs_held s')"
proof (cases x)
  case (Xs_Tick now)
  then show ?thesis using xs_on_tick_ok [OF wf, of now] xs_quiet_sessions by fastforce
next
  case (Xs_Join e p ts)
  have "im_get (xs_endpoints s) e = None" using adm Xs_Join im_contains_get [of "xs_endpoints s" e] by auto
  then show ?thesis using wf adm Xs_Join
    by (simp add: xs_on_endpoint_join_def xs_held_def xs_wf_def Let_def list_upd xs_tracks_insert)
next
  case (Xs_Data now nd d)
  show ?thesis
  proof (cases "xs_endpoints s = [] \<or> env_mixer_de env d = None")
    case True
    then have "xs_on_channel_data env now nd d s = Inr s" by (auto simp: xs_on_channel_data_def)
    then show ?thesis using wf Xs_Data by simp
  next
    case False
    then obtain audio where "xs_endpoints s \<noteq> []" "env_mixer_de env d = Some audio" by auto
    from xs_on_channel_data_ok [OF wf this, of now nd]
    obtain s' where "xs_on_channel_data env now nd d s = Inr s'" "xs_wf n s'" "xs_quiet s s'"
      by (elim exE conjE) (rule that; assumption)
    then show ?thesis using Xs_Data xs_quiet_sessions [of s s'] by simp
  qed
next
  case (Xs_Leave e)
  then have ne: "xs_endpoints s \<noteq> []" using adm by (auto simp: im_contains_def)
  have "set (im_swap_remove e (xs_endpoints s)) \<subseteq> set (xs_endpoints s)"
    using wf by (auto simp: xs_wf_def im_get_eq_Some [symmetric] list_upd split: if_splits)
  then show ?thesis using Xs_Leave wf adm ne
    by (auto simp: xs_on_endpoint_leave_def xs_held_def xs_wf_def Let_def list_upd)
qed

interpretation xsc: session_client "xs_step env" "\<lambda>s. mt_ctls sub_act (xs_queue s)" xs_held "xs_wf n" "xs_admits n"
  for env :: "'f cluster_env" and n
  by unfold_locales (rule xs_step_sessions)

section \<open>The manual mixer keeps to its channels\<close>

datatype xm_op = Xm_Tick nat | Xm_Event nat xm_input

fun xm_step :: "'f cluster_env \<Rightarrow> xm_op \<Rightarrow> ('e, 'f) manual_mixer \<Rightarrow> ('e, 'f) manual_mixer run" where
  "xm_step env (Xm_Tick now) s = xm_on_tick now s"
| "xm_step env (Xm_Event now x) s = xm_on_event env now x s"

definition xm_wf :: "('e, 'f) manual_mixer \<Rightarrow> bool" where
  "xm_wf s \<longleftrightarrow> im_wf (xm_sources s) \<and> am_good (length (xm_outputs s)) (xm_mixer s)"

definition xm_held :: "('e, 'f) manual_mixer \<Rightarrow> nat set" where
  "xm_held s = fst ` set (xm_sources s)"

text \<open>Packets arrive only from channels that are attached.\<close>

fun xm_admits :: "xm_op \<Rightarrow> ('e, 'f) manual_mixer \<Rightarrow> bool" where
  "xm_admits (Xm_Event _ (Xm_Pubsub c _ _)) s = im_contains (xm_sources s) c"
| "xm_admits _ s = True"

lemma xm_wf_new: "outputs \<noteq> [] \<Longrightarrow> length outputs < 2 ^ 64 \<Longrightarrow> xm_wf (xm_new room e outputs)"
  by (simp add: xm_wf_def xm_new_def am_good_new)

lemma xm_attach_ok:
  assumes "xm_wf s"
  shows "xm_wf (xm_attach env src s) \<and> (\<exists>cs. mt_ctls sub_act (xm_queue (xm_attach env src s)) = mt_ctls sub_act (xm_queue s) @ cs \<and>
     sessions (xm_held s) cs = Some (xm_held (xm_attach env src s)))"
  using assms im_get_None_key [of "xm_sources s"]
  by (auto simp: xm_attach_def xm_wf_def xm_push_def xm_held_def Let_def list_upd im_keys_insert simp del: not_None_eq)

lemma xm_detach_ok:
  assumes "xm_wf s"
  shows "xm_wf (xm_detach env src s) \<and> (\<exists>cs. mt_ctls sub_act (xm_queue (xm_detach env src s)) = mt_ctls sub_act (xm_queue s) @ cs \<and>
     sessions (xm_held s) cs = Some (xm_held (xm_detach env src s)))"
proof (cases "im_get (xm_sources s) (gen_track_channel_id env (xm_room s) (tsrc_peer src) (tsrc_track src))")
  case None
  then show ?thesis using assms by (simp add: xm_detach_def)
next
  case (Some v)
  then show ?thesis using assms im_get_Some_key [OF Some]
    by (simp add: xm_detach_def xm_wf_def xm_push_def xm_held_def Let_def list_upd im_keys_swap_remove)
qed

text \<open>A packet of an attached channel is forwarded, if at all, to the track of its slot.\<close>

definition xm_sends :: "nat \<Rightarrow> media_packet \<Rightarrow> ('e, 'f) manual_mixer \<Rightarrow> ('e, 'f) manual_mixer \<Rightarrow> bool" where
  "xm_sends channel pkt s s' \<longleftrightarrow> xm_queue s' = xm_queue s \<or>
     (\<exists>slot<length (xm_outputs s). \<exists>os. am_owner (xm_mixer s') slot = Some channel \<and>
        xm_queue s' = xm_queue s @ os @ [Mt_Endpoint [xm_endpoint s] (Cee_LocalTrack (xm_outputs s ! slot) (Cle_Media channel pkt))] \<and>
        (os = [] \<or> (\<exists>src. im_get (xm_sources s) channel = Some src \<and>
           os = [Mt_Endpoint [xm_endpoint s] (Cee_LocalTrack (xm_outputs s ! slot) Cle_SourceChanged),
                 Mt_Endpoint [xm_endpoint s] (Cee_AudioMixer (Cae_SlotSet (as_u8 slot) (tsrc_peer src) (tsrc_track src)))])))"

lemma xm_on_source_pkt_ok:
  assumes wf: "xm_wf s" and c: "im_get (xm_sources s) channel = Some src"
  shows "\<exists>s'. xm_on_source_pkt now channel pkt s = Inr s' \<and> xm_wf s' \<and> xm_sources s' = xm_sources s \<and> xm_sends channel pkt s s'"
proof (cases "pkt_meta pkt")
  case (Opus lv)
  obtain m r where m: "am_on_pkt now channel lv (xm_mixer s) = Inr (m, r)" "am_good (length (xm_outputs s)) m"
      "\<forall>i b. r = Some (i, b) \<longrightarrow> i < length (xm_outputs s) \<and> am_owner m i = Some channel"
    using ams.pkt_slot [of "length (xm_outputs s)" "xm_mixer s" now channel lv] wf unfolding xm_wf_def by blast
  show ?thesis
  proof (cases r)
    case None
    then show ?thesis using m wf Opus by (simp add: xm_on_source_pkt_def xm_wf_def xm_sends_def)
  next
    case (Some ib)
    then obtain i js where ib: "r = Some (i, js)" by (cases ib) auto
    then show ?thesis using m wf Opus c by (cases js) (auto simp: xm_on_source_pkt_def xm_wf_def xm_sends_def xm_push_def)
  qed
qed (use assms in \<open>simp_all add: xm_on_source_pkt_def xm_sends_def\<close>)

lemma xm_sends_ctls: "xm_sends c p s s' \<Longrightarrow> mt_ctls act (xm_queue s') = mt_ctls act (xm_queue s)"
  by (auto simp: xm_sends_def mt_ctls_def List.map_filter_def)

lemma xm_on_tick_ok:
  assumes "xm_wf s"
  shows "\<exists>s'. xm_on_tick now s = Inr s' \<and> xm_wf s' \<and> xm_sources s' = xm_sources s \<and> mt_ctls act (xm_queue s') = mt_ctls act (xm_queue s)"
proof -
  have g: "am_good (length (xm_outputs s)) (xm_mixer s)" using assms by (simp add: xm_wf_def)
  obtain m r where "am_on_tick now (xm_mixer s) = Inr (m, r)" "am_good (length (xm_outputs s)) m"
    using am_good_tick [OF g, of now] by blast
  moreover have "mt_ctls act (map (\<lambda>slot. Mt_Endpoint [e] (f slot)) is) = []" for e f "is"
    by (rule mt_ctls_endpoints) auto
  ultimately show ?thesis using assms by (cases r) (simp_all add: xm_on_tick_def xm_wf_def xm_push_def Let_def)
qed

lemma mt_ctls_unsub_all:
  "mt_ctls sub_act (map (\<lambda>(c, _). Mt_Pubsub c UnsubAuto) ss) = map ((\<lambda>c. (c, Closes)) \<circ> fst) ss"
  by (induction ss) (auto simp: mt_ctls_def List.map_filter_def)

lemma xm_leave_sessions:
  assumes "xm_wf s"
  shows "sessions (xm_held s) (mt_ctls sub_act (map (\<lambda>(c, _). Mt_Pubsub c UnsubAuto) (xm_sources s))) = Some {}"
proof -
  have "distinct (map fst (xm_sources s))" using assms by (simp add: xm_wf_def im_wf_def)
  from sessions_close_all [OF this, of "{}"] show ?thesis by (simp add: xm_held_def mt_ctls_unsub_all)
qed

lemma xm_step_sessions:
  assumes wf: "xm_wf s" and adm: "xm_admits x s"
  shows "\<exists>s' cs. xm_step env x s = Inr s' \<and> xm_wf s' \<and>
     mt_ctls sub_act (xm_queue s') = mt_ctls sub_act (xm_queue s) @ cs \<and> sessions (xm_held s) cs = Some (xm_held s')"
proof (cases x)
  case (Xm_Tick now)
  obtain s' where "xm_on_tick now s = Inr s'" "xm_wf s'" "xm_sources s' = xm_sources s" "mt_ctls sub_act (xm_queue s') = mt_ctls sub_act (xm_queue s)"
    using xm_on_tick_ok [OF wf, of now sub_act] by blast
  then show ?thesis using Xm_Tick by (simp add: xm_held_def)
next
  case (Xm_Event now inp)
  show ?thesis
  proof (cases inp)
    case (Xm_Attach srcs)
    from fold_sessions [where ok = xm_wf and f = "xm_attach env" and emitted = "\<lambda>s. mt_ctls sub_act (xm_queue s)" and held = xm_held,
        OF xm_attach_ok wf, of srcs]
    show ?thesis using Xm_Event Xm_Attach by (auto simp: xm_on_event_def)
  next
    case (Xm_Detach srcs)
    from fold_sessions [where ok = xm_wf and f = "xm_detach env" and emitted = "\<lambda>s. mt_ctls sub_act (xm_queue s)" and held = xm_held,
        OF xm_detach_ok wf, of srcs]
    show ?thesis using Xm_Event Xm_Detach by (auto simp: xm_on_event_def)
  next
    case (Xm_Pubsub c nd d)
    then obtain src where src: "im_get (xm_sources s) c = Some src" using adm Xm_Event by (auto simp: im_contains_get)
    show ?thesis
    proof (cases "env_media_de env d")
      case None
      then show ?thesis using Xm_Event Xm_Pubsub wf by (simp add: xm_on_event_def)
    next
      case (Some pkt)
      obtain s' where "xm_on_source_pkt now c pkt s = Inr s'" "xm_wf s'" "xm_sources s' = xm_sources s" "xm_sends c pkt s s'"
        using xm_on_source_pkt_ok [OF wf src, of now pkt] by blast
      then show ?thesis using Xm_Event Xm_Pubsub Some xm_sends_ctls [of c pkt s s' sub_act] by (simp add: xm_on_event_def xm_held_def)
    qed
  next
    case Xm_LeaveRoom
    then show ?thesis using Xm_Event wf xm_leave_sessions [OF wf]
      by (simp add: xm_on_event_def xm_push_def xm_wf_def xm_held_def)
  qed
qed

interpretation xmc: session_client "xm_step env" "\<lambda>s. mt_ctls sub_act (xm_queue s)" xm_held xm_wf xm_admits
  for env :: "'f cluster_env"
  by unfold_locales (rule xm_step_sessions)

section \<open>Properties\<close>

lemma mixers_new [simp]:
  "xp_held (xp_new c) = {}" "xp_queue (xp_new c) = []" "xs_held (xs_new n c) = {}" "xs_queue (xs_new n c) = []"
  "xm_held (xm_new room e outputs) = {}" "xm_queue (xm_new room e outputs) = []"
  by (simp_all add: xp_held_def xp_new_def xs_held_def xs_new_def xm_held_def xm_new_def)

text \<open>
  The publisher of the mix channel: through any sequence of publications, packets, ticks and
  unpublications in which a track sends and ends only while it is published, no call panics, the
  channel is started with the first track, packets are sent only while it is started, and it is
  stopped when the last track ends.
\<close>
theorem xp_channel_sessions:
  assumes "admits_run xp_admits (xp_step env) xs (xp_new c)"
  shows "\<exists>s'. rfold (xp_step env) xs (xp_new c) = Inr s' \<and>
     sessions {} (mt_ctls pub_act (xp_queue s')) = Some (if xp_tracks s' = [] then {} else {xp_channel_id s'})"
  unfolding xp_held_def [symmetric] using xpc.run_sessions [OF xp_wf_new assms] by auto

lemmas xp_eval = xp_new_def xp_on_track_publish_def xp_on_track_data_def xp_on_track_unpublish_def xp_push_def xp_fire_def

theorem xp_channel_sessions_witness:
  "\<exists>s'. rfold (xp_step demo_env) [Xp_Publish (1::nat) 5 ''alice'' ''mic'', Xp_Data 0 1 5 (build_audio 0 9 None []), Xp_Unpublish 1 5] (xp_new 3) = Inr s' \<and>
     sessions {} (mt_ctls pub_act (xp_queue s')) = Some (if xp_tracks s' = [] then {} else {xp_channel_id s'})"
proof (rule xp_channel_sessions)
  have "replicate 3 None = [None, None, None :: (nat \<times> nat) output_slot_state option]" by (simp add: numeral_3_eq_3)
  then show "admits_run xp_admits (xp_step demo_env) [Xp_Publish (1::nat) 5 ''alice'' ''mic'', Xp_Data 0 1 5 (build_audio 0 9 None []), Xp_Unpublish 1 5] (xp_new 3)"
    by (simp add: xp_eval am_eval im_contains_def build_audio_def)
qed

text \<open>
  The subscriber of the mix channel with \<open>n\<close> slots: through any sequence of joins, packets,
  ticks and leaves in which an endpoint joins once with \<open>n\<close> tracks, no call panics, and the channel
  is subscribed exactly while there is an endpoint.
\<close>
theorem xs_channel_sessions:
  assumes "0 < n" "n < 2 ^ 64" "admits_run (xs_admits n) (xs_step env) xs (xs_new n c)"
  shows "\<exists>s'. rfold (xs_step env) xs (xs_new n c) = Inr s' \<and>
     sessions {} (mt_ctls sub_act (xs_queue s')) = Some (if xs_endpoints s' = [] then {} else {xs_channel_id s'})"
  unfolding xs_held_def [symmetric] using xsc.run_sessions [OF xs_wf_new [OF assms(1,2)] assms(3)] by auto

theorem xs_channel_sessions_witness:
  "\<exists>s'. rfold (xs_step demo_env) [Xs_Join (1::nat) ''alice'' [7, 8], Xs_Leave 1] (xs_new 2 3) = Inr s' \<and>
     sessions {} (mt_ctls sub_act (xs_queue s')) = Some (if xs_endpoints s' = [] then {} else {xs_channel_id s'})"
  by (rule xs_channel_sessions)
    (simp_all add: xs_new_def xs_on_endpoint_join_def xs_on_endpoint_leave_def Let_def im_contains_def im_swap_remove_def im_get_def)

text \<open>The media that one endpoint is sent.\<close>

definition media_to :: "'e \<Rightarrow> ('e, 'f) mt_output list \<Rightarrow> (nat \<times> nat \<times> media_packet) list" where
  "media_to e os = List.map_filter (\<lambda>x. case x of Mt_Endpoint [e'] (Cee_LocalTrack t (Cle_Media u p)) \<Rightarrow>
     if e' = e then Some (t, u, p) else None | _ \<Rightarrow> None) os"

lemma media_to_append [simp]: "media_to e (xs @ ys) = media_to e xs @ media_to e ys" "media_to e [] = []"
  by (simp_all add: media_to_def List.map_filter_def)

lemma media_to_events: "mixer_events os \<Longrightarrow> media_to e os = []"
proof (induction os)
  case (Cons x os)
  then obtain e' ev where "x = Mt_Endpoint [e'] (Cee_AudioMixer ev)" by (auto simp: mixer_events_def)
  then show ?case using Cons by (simp add: media_to_def List.map_filter_def mixer_events_def)
qed simp

lemma media_to_sent:
  "media_to e (xs_sent audio slot js (e', sl)) =
     (if e' = e \<and> es_peer sl \<noteq> amp_peer audio then [(es_tracks sl ! slot, xs_track_uuid audio, xs_media audio)] else [])"
  by (auto simp: xs_sent_def media_to_def List.map_filter_def)

lemma media_to_all:
  assumes "im_wf es"
  shows "media_to e (concat (map (xs_sent audio slot js) es)) = (case im_get es e of None \<Rightarrow> []
     | Some sl \<Rightarrow> if es_peer sl = amp_peer audio then [] else [(es_tracks sl ! slot, xs_track_uuid audio, xs_media audio)])"
  using assms
proof (induction es)
  case (Cons p es)
  obtain e' sl where p: "p = (e', sl)" by (cases p)
  have wf: "im_wf es" and fresh: "im_get es e' = None"
    using Cons.prems p by (auto simp: im_wf_def im_get_None_iff)
  have "im_get (p # es) e = (if e' = e then Some sl else im_get es e)" by (simp add: p im_get_def)
  then show ?case using Cons.IH [OF wf] fresh by (auto simp: p media_to_sent)
qed simp

text \<open>
  C28. Mix-minus: in every state that the subscriber reaches, a packet of the mix channel is
  either sent to nobody, or it was given a slot of its source and every endpoint of another peer
  is sent it once, on the local track of that slot, with its payload unchanged, and no endpoint
  hears its own peer.
\<close>
theorem xs_mix_minus:
  assumes "0 < n" "n < 2 ^ 64" "admits_run (xs_admits n) (xs_step env) xs (xs_new n c)"
    and "rfold (xs_step env) xs (xs_new n c) = Inr s" "env_mixer_de env data = Some audio"
  shows "\<exists>s' sel. xs_on_channel_data env now from data s = Inr s' \<and>
     (\<forall>slot. sel = Some slot \<longrightarrow> slot < n \<and> am_owner (xs_mixer s') slot = Some (from, amp_slot audio)) \<and>
     (\<forall>e sl. im_get (xs_endpoints s) e = Some sl \<longrightarrow> media_to e (xs_queue s') = media_to e (xs_queue s) @
        (case sel of None \<Rightarrow> [] | Some slot \<Rightarrow> if es_peer sl = amp_peer audio then []
           else [(es_tracks sl ! slot, xs_track_uuid audio, xs_media audio)]))"
proof -
  have wf: "xs_wf n s" using xsc.run_sessions [OF xs_wf_new [OF assms(1,2)] assms(3)] assms(4) by auto
  show ?thesis
  proof (cases "xs_endpoints s = []")
    case True
    then show ?thesis by (intro exI [of _ s] exI [of _ None]) (simp add: xs_on_channel_data_def)
  next
    case False
    from xs_on_channel_data_ok [OF wf False assms(5), of now "from"]
    obtain s' where s': "xs_on_channel_data env now from data s = Inr s'" "xs_delivers n (from, amp_slot audio) audio s s'"
      by (elim exE conjE) (rule that; assumption)
    have iwf: "im_wf (xs_endpoints s)" using wf by (simp add: xs_wf_def)
    from s'(2) show ?thesis unfolding xs_delivers_def
    proof (elim disjE exE conjE)
      assume "xs_queue s' = xs_queue s"
      then show ?thesis using s'(1) by (intro exI [of _ s'] exI [of _ None]) simp
    next
      fix slot js os assume "slot < n" "am_owner (xs_mixer s') slot = Some (from, amp_slot audio)" "mixer_events os"
          "xs_queue s' = xs_queue s @ os @ concat (map (xs_sent audio slot js) (xs_endpoints s))"
      then show ?thesis using s'(1)
        by (intro exI [of _ s'] exI [of _ "Some slot"]) (simp add: media_to_events media_to_all [OF iwf])
    qed
  qed
qed

theorem xs_mix_minus_witness:
  "\<exists>s s' sel. rfold (xs_step demo_env) [Xs_Join (1::nat) ''alice'' [7, 8]] (xs_new 2 3) = Inr s \<and>
     xs_on_channel_data demo_env 0 9 [1] s = Inr s' \<and> (\<forall>slot. sel = Some slot \<longrightarrow> am_owner (xs_mixer s') slot = Some (9, 1))"
proof -
  let ?xs = "[Xs_Join (1::nat) ''alice'' [7, 8]]"
  have adm: "admits_run (xs_admits 2) (xs_step demo_env) ?xs (xs_new 2 3)"
    by (simp add: xs_new_def xs_on_endpoint_join_def Let_def im_contains_def)
  obtain s where s: "rfold (xs_step demo_env) ?xs (xs_new 2 3) = Inr s"
    by (simp add: xs_new_def xs_on_endpoint_join_def Let_def im_contains_def)
  obtain audio where a: "env_mixer_de demo_env [1] = Some audio" "amp_slot audio = 1" by (simp add: demo_env_def)
  show ?thesis using xs_mix_minus [OF _ _ adm s a(1), of 0 9] s a(2) by auto
qed

text \<open>
  The manual mixer: through any sequence of attachments, detachments, packets of attached
  channels, ticks and the final leave, no call panics, and it is subscribed to exactly the
  channels that are attached; after leaving, to none.
\<close>
theorem xm_channel_sessions:
  assumes "outputs \<noteq> []" "length outputs < 2 ^ 64" "admits_run xm_admits (xm_step env) xs (xm_new room e outputs)"
  shows "\<exists>s'. rfold (xm_step env) xs (xm_new room e outputs) = Inr s' \<and>
     sessions {} (mt_ctls sub_act (xm_queue s')) = Some (fst ` set (xm_sources s')) \<and>
     (\<exists>s''. xm_on_event env now Xm_LeaveRoom s' = Inr s'' \<and> sessions {} (mt_ctls sub_act (xm_queue s'')) = Some {})"
proof -
  obtain s' where s': "rfold (xm_step env) xs (xm_new room e outputs) = Inr s'" "xm_wf s'"
      "sessions {} (mt_ctls sub_act (xm_queue s')) = Some (xm_held s')"
    using xmc.run_sessions [OF xm_wf_new [OF assms(1,2)] assms(3)] by auto
  moreover have "\<exists>s''. xm_on_event env now Xm_LeaveRoom s' = Inr s'' \<and> sessions {} (mt_ctls sub_act (xm_queue s'')) = Some {}"
    using xm_leave_sessions [OF s'(2)] s'(3) by (simp add: xm_on_event_def xm_push_def sessions_append)
  ultimately show ?thesis by (simp add: xm_held_def)
qed

theorem xm_channel_sessions_witness:
  "\<exists>s'. rfold (xm_step demo_env) [Xm_Event 0 (Xm_Attach [\<lparr>tsrc_peer = ''bob'', tsrc_track = ''mic''\<rparr>])] (xm_new 3 (1::nat) [7]) = Inr s' \<and>
     sessions {} (mt_ctls sub_act (xm_queue s')) = Some (fst ` set (xm_sources s')) \<and>
     (\<exists>s''. xm_on_event demo_env 5 Xm_LeaveRoom s' = Inr s'' \<and> sessions {} (mt_ctls sub_act (xm_queue s'')) = Some {})"
  by (rule xm_channel_sessions) (simp_all add: xm_on_event_def)

end
