(* ===== verification/Room_Metadata.thy ===== *)
theory Room_Metadata
  imports Cluster_Types Index_Map
begin

text \<open>
  \<^verbatim>\<open>packages/media_core/src/cluster/room/metadata.rs\<close>: what a room tells the network's key-value
  maps about its peers and tracks, and what it tells its endpoints about the peers and tracks of
  other nodes. Three kinds of maps are subscribed: the map of all peers, the map of all tracks,
  and the map of one peer's tracks for endpoints that follow that peer only. \<open>md_wf\<close> ties the
  subscriber sets to the endpoints in the room; the component is an interpretation of
  \<open>session_client\<close> with maps in the place of channels.
\<close>

section \<open>State\<close>

record peer_container =
  pc_peer :: peer_id
  pc_publish :: room_info_publish
  pc_sub_peers :: "peer_id iset"
  pc_pub_tracks :: "(nat, track_name) imap"

datatype 'e md_output =
    Md_Kv nat map_control
  | Md_Endpoint "'e list" cluster_endpoint_event
  | Md_OnResourceEmpty

record 'e room_metadata =
  md_room :: room_hash
  md_peers_map :: nat
  md_tracks_map :: nat
  md_peers :: "('e, peer_container) imap"
  md_peers_map_subscribers :: "'e iset"
  md_tracks_map_subscribers :: "'e iset"
  md_peers_tracks_subs :: "(nat, 'e iset) imap"
  md_cluster_peers :: "(nat, peer_info) imap"
  md_cluster_tracks :: "(nat, track_info) imap"
  md_queue :: "'e md_output list"

definition md_new :: "room_hash \<Rightarrow> 'e room_metadata" where
  "md_new room = \<lparr>md_room = room, md_peers_map = peers_map room, md_tracks_map = tracks_map room, md_peers = [],
     md_peers_map_subscribers = [], md_tracks_map_subscribers = [], md_peers_tracks_subs = [],
     md_cluster_peers = [], md_cluster_tracks = [], md_queue = []\<rparr>"

definition md_push :: "'e md_output list \<Rightarrow> 'e room_metadata \<Rightarrow> 'e room_metadata" where
  "md_push os s = s\<lparr>md_queue := md_queue s @ os\<rparr>"

definition get_peer_from_endpoint :: "'e \<Rightarrow> 'e room_metadata \<Rightarrow> peer_id option" where
  "get_peer_from_endpoint endpoint s = map_option pc_peer (im_get (md_peers s) endpoint)"

section \<open>Endpoints come and go\<close>

definition md_join_peers :: "'e \<Rightarrow> 'e room_metadata \<Rightarrow> 'e room_metadata" where
  "md_join_peers endpoint s =
     (let s1 = s\<lparr>md_peers_map_subscribers := is_insert endpoint (md_peers_map_subscribers s)\<rparr>;
          s2 = md_push (map (\<lambda>(_, info). Md_Endpoint [endpoint] (Cee_PeerJoined (pi_peer info) (pi_meta info))) (md_cluster_peers s1)) s1
      in if length (md_peers_map_subscribers s2) = 1 then md_push [Md_Kv (md_peers_map s2) Map_Sub] s2 else s2)"

definition md_join_tracks :: "'e \<Rightarrow> 'e room_metadata \<Rightarrow> 'e room_metadata" where
  "md_join_tracks endpoint s =
     (let s1 = s\<lparr>md_tracks_map_subscribers := is_insert endpoint (md_tracks_map_subscribers s)\<rparr>;
          s2 = md_push (map (\<lambda>(_, info). Md_Endpoint [endpoint] (Cee_TrackStarted (ti_peer info) (ti_track info) (ti_meta info)))
                 (md_cluster_tracks s1)) s1
      in if length (md_tracks_map_subscribers s2) = 1 then md_push [Md_Kv (md_tracks_map s2) Map_Sub] s2 else s2)"

definition md_on_join ::
  "'f cluster_env \<Rightarrow> 'e \<Rightarrow> peer_id \<Rightarrow> peer_meta \<Rightarrow> room_info_publish \<Rightarrow> room_info_subscribe \<Rightarrow> 'e room_metadata \<Rightarrow> 'e room_metadata" where
  "md_on_join env endpoint peer meta publish subscribe s =
     (let s1 = s\<lparr>md_peers := im_insert endpoint \<lparr>pc_peer = peer, pc_publish = publish, pc_sub_peers = [], pc_pub_tracks = []\<rparr> (md_peers s)\<rparr>;
          peer_key = peers_key env peer;
          s2 = (if rip_peer publish
                then md_push [Md_Kv (md_peers_map s1) (Map_Set peer_key (env_peer_ser env \<lparr>pi_peer = peer, pi_meta = meta\<rparr>))] s1 else s1);
          s3 = (if ris_peers subscribe then md_join_peers endpoint s2 else s2)
      in if ris_tracks subscribe then md_join_tracks endpoint s3 else s3)"

text \<open>\<^verbatim>\<open>set.swap_remove(&endpoint) && set.is_empty()\<close>, the same for the peers map and the tracks map.\<close>

definition md_leave_peers :: "'e \<Rightarrow> 'e room_metadata \<Rightarrow> 'e room_metadata" where
  "md_leave_peers endpoint s =
     (let s1 = s\<lparr>md_peers_map_subscribers := is_swap_remove endpoint (md_peers_map_subscribers s)\<rparr>
      in if endpoint \<in> set (md_peers_map_subscribers s) \<and> md_peers_map_subscribers s1 = []
         then md_push [Md_Kv (md_peers_map s1) Map_Unsub] s1 else s1)"

definition md_leave_tracks :: "'e \<Rightarrow> 'e room_metadata \<Rightarrow> 'e room_metadata" where
  "md_leave_tracks endpoint s =
     (let s1 = s\<lparr>md_tracks_map_subscribers := is_swap_remove endpoint (md_tracks_map_subscribers s)\<rparr>
      in if endpoint \<in> set (md_tracks_map_subscribers s) \<and> md_tracks_map_subscribers s1 = []
         then md_push [Md_Kv (md_tracks_map s1) Map_Unsub] s1 else s1)"

definition md_leave_target :: "'f cluster_env \<Rightarrow> 'e \<Rightarrow> peer_id \<Rightarrow> 'e room_metadata \<Rightarrow> 'e room_metadata run" where
  "md_leave_target env endpoint target s =
     (let target_peer_map = peer_map env (md_room s) target in
      rbind (rexpect (im_get (md_peers_tracks_subs s) target_peer_map)) (\<lambda>subs.
      let subs1 = is_swap_remove endpoint subs in
      Inr (if subs1 = [] then md_push [Md_Kv target_peer_map Map_Unsub]
             (s\<lparr>md_peers_tracks_subs := im_swap_remove target_peer_map (md_peers_tracks_subs s)\<rparr>)
           else s\<lparr>md_peers_tracks_subs := im_insert target_peer_map subs1 (md_peers_tracks_subs s)\<rparr>)))"

definition md_on_leave :: "'f cluster_env \<Rightarrow> 'e \<Rightarrow> 'e room_metadata \<Rightarrow> 'e room_metadata run" where
  "md_on_leave env endpoint s = (case im_get (md_peers s) endpoint of None \<Rightarrow> Inr s
     | Some peer \<Rightarrow>
         let s1 = s\<lparr>md_peers := im_swap_remove endpoint (md_peers s)\<rparr>;
             s2 = (if rip_peer (pc_publish peer) then md_push [Md_Kv (md_peers_map s1) (Map_Del (peers_key env (pc_peer peer)))] s1 else s1);
             s3 = md_push (concat (map (\<lambda>(_, track).
                    [Md_Kv (md_tracks_map s2) (Map_Del (tracks_key env (pc_peer peer) track)),
                     Md_Kv (peer_map env (md_room s2) (pc_peer peer)) (Map_Del (tracks_key env (pc_peer peer) track))]) (pc_pub_tracks peer))) s2
         in rfold (md_leave_target env endpoint) (pc_sub_peers peer) (md_leave_tracks endpoint (md_leave_peers endpoint s3)))"

section \<open>Following one peer\<close>

definition md_on_subscribe_peer :: "'f cluster_env \<Rightarrow> 'e \<Rightarrow> peer_id \<Rightarrow> 'e room_metadata \<Rightarrow> 'e room_metadata run" where
  "md_on_subscribe_peer env endpoint target s =
     rbind (rexpect (im_get (md_peers s) endpoint)) (\<lambda>peer.
     let target_peer_map = peer_map env (md_room s) target;
         subs = im_or (md_peers_tracks_subs s) target_peer_map [];
         need_sub = (subs = []);
         s1 = s\<lparr>md_peers_tracks_subs := im_insert target_peer_map (is_insert endpoint subs) (md_peers_tracks_subs s),
                md_peers := im_insert endpoint (peer\<lparr>pc_sub_peers := is_insert target (pc_sub_peers peer)\<rparr>) (md_peers s)\<rparr>
     in Inr (if need_sub then md_push [Md_Kv target_peer_map Map_Sub] s1 else s1))"

definition md_on_unsubscribe_peer :: "'f cluster_env \<Rightarrow> 'e \<Rightarrow> peer_id \<Rightarrow> 'e room_metadata \<Rightarrow> 'e room_metadata run" where
  "md_on_unsubscribe_peer env endpoint target s =
     rbind (rexpect (im_get (md_peers s) endpoint)) (\<lambda>peer.
     let target_peer_map = peer_map env (md_room s) target;
         subs = is_swap_remove endpoint (im_or (md_peers_tracks_subs s) target_peer_map []);
         s1 = s\<lparr>md_peers_tracks_subs := im_insert target_peer_map subs (md_peers_tracks_subs s),
                md_peers := im_insert endpoint (peer\<lparr>pc_sub_peers := is_swap_remove target (pc_sub_peers peer)\<rparr>) (md_peers s)\<rparr>
     in Inr (if subs = [] then md_push [Md_Kv target_peer_map Map_Unsub]
               (s1\<lparr>md_peers_tracks_subs := im_swap_remove target_peer_map (md_peers_tracks_subs s1)\<rparr>) else s1))"

section \<open>Own tracks\<close>

definition md_on_track_publish :: "'f cluster_env \<Rightarrow> 'e \<Rightarrow> nat \<Rightarrow> track_name \<Rightarrow> track_meta \<Rightarrow> 'e room_metadata \<Rightarrow> 'e room_metadata" where
  "md_on_track_publish env endpoint track_id track meta s = (case im_get (md_peers s) endpoint of None \<Rightarrow> s
     | Some peer \<Rightarrow>
         if rip_tracks (pc_publish peer) then
           let info = \<lparr>ti_peer = pc_peer peer, ti_track = track, ti_meta = meta\<rparr>;
               track_key = tracks_key env (pc_peer peer) track;
               s1 = s\<lparr>md_peers := im_insert endpoint (peer\<lparr>pc_pub_tracks := im_insert track_id track (pc_pub_tracks peer)\<rparr>) (md_peers s)\<rparr>
           in md_push [Md_Kv (md_tracks_map s1) (Map_Set track_key (env_track_ser env info)),
                       Md_Kv (peer_map env (md_room s1) (pc_peer peer)) (Map_Set track_key (env_track_ser env info))] s1
         else s)"

definition md_on_track_unpublish :: "'f cluster_env \<Rightarrow> 'e \<Rightarrow> nat \<Rightarrow> 'e room_metadata \<Rightarrow> 'e room_metadata" where
  "md_on_track_unpublish env endpoint track_id s = (case im_get (md_peers s) endpoint of None \<Rightarrow> s
     | Some peer \<Rightarrow> (case im_get (pc_pub_tracks peer) track_id of None \<Rightarrow> s
        | Some track \<Rightarrow>
            let track_key = tracks_key env (pc_peer peer) track;
                s1 = s\<lparr>md_peers := im_insert endpoint (peer\<lparr>pc_pub_tracks := im_swap_remove track_id (pc_pub_tracks peer)\<rparr>) (md_peers s)\<rparr>
            in md_push [Md_Kv (md_tracks_map s1) (Map_Del track_key),
                        Md_Kv (peer_map env (md_room s1) (pc_peer peer)) (Map_Del track_key)] s1))"

section \<open>Peers and tracks of the cluster\<close>

text \<open>\<^verbatim>\<open>data\<close> is \<^verbatim>\<open>Some\<close> for a set and \<^verbatim>\<open>None\<close> for a deletion; data that does not decode is ignored.\<close>

definition md_on_peers_kv_event :: "'f cluster_env \<Rightarrow> nat \<Rightarrow> bytes option \<Rightarrow> 'e room_metadata \<Rightarrow> 'e room_metadata" where
  "md_on_peers_kv_event env peer_key data s =
     (let subscribers = md_peers_map_subscribers s in
      case data of
        Some d \<Rightarrow> (case env_peer_de env d of None \<Rightarrow> s
          | Some info \<Rightarrow>
              let s1 = s\<lparr>md_cluster_peers := im_insert peer_key info (md_cluster_peers s)\<rparr>
              in if subscribers \<noteq> [] then md_push [Md_Endpoint subscribers (Cee_PeerJoined (pi_peer info) (pi_meta info))] s1 else s1)
      | None \<Rightarrow> (case im_get (md_cluster_peers s) peer_key of None \<Rightarrow> s
          | Some info \<Rightarrow>
              let s1 = s\<lparr>md_cluster_peers := im_swap_remove peer_key (md_cluster_peers s)\<rparr>
              in if subscribers \<noteq> [] then md_push [Md_Endpoint subscribers (Cee_PeerLeaved (pi_peer info) (pi_meta info))] s1 else s1))"

definition md_on_tracks_kv_event :: "'f cluster_env \<Rightarrow> nat \<Rightarrow> bytes option \<Rightarrow> 'e room_metadata \<Rightarrow> 'e room_metadata" where
  "md_on_tracks_kv_event env track data s =
     (let subscribers = md_tracks_map_subscribers s in
      case data of
        Some d \<Rightarrow> (case env_track_de env d of None \<Rightarrow> s
          | Some info \<Rightarrow>
              let s1 = s\<lparr>md_cluster_tracks := im_insert track info (md_cluster_tracks s)\<rparr>
              in if subscribers \<noteq> [] then md_push [Md_Endpoint subscribers (Cee_TrackStarted (ti_peer info) (ti_track info) (ti_meta info))] s1 else s1)
      | None \<Rightarrow> (case im_get (md_cluster_tracks s) track of None \<Rightarrow> s
          | Some info \<Rightarrow>
              let s1 = s\<lparr>md_cluster_tracks := im_swap_remove track (md_cluster_tracks s)\<rparr>
              in if subscribers \<noteq> [] then md_push [Md_Endpoint subscribers (Cee_TrackStopped (ti_peer info) (ti_track info) (ti_meta info))] s1 else s1))"

definition md_on_peers_tracks_kv_event :: "'f cluster_env \<Rightarrow> nat \<Rightarrow> nat \<Rightarrow> bytes option \<Rightarrow> 'e room_metadata \<Rightarrow> 'e room_metadata" where
  "md_on_peers_tracks_kv_event env pmap track data s =
     (case data of
        Some d \<Rightarrow> (case env_track_de env d of None \<Rightarrow> s
          | Some info \<Rightarrow> (case im_get (md_peers_tracks_subs s) pmap of None \<Rightarrow> s
             | Some subscribers \<Rightarrow>
                 md_push [Md_Endpoint subscribers (Cee_TrackStarted (ti_peer info) (ti_track info) (ti_meta info))]
                   (s\<lparr>md_cluster_tracks := im_insert track info (md_cluster_tracks s)\<rparr>)))
      | None \<Rightarrow> (case im_get (md_peers_tracks_subs s) pmap of None \<Rightarrow> s
          | Some subscribers \<Rightarrow> (case im_get (md_cluster_tracks s) track of None \<Rightarrow> s
             | Some info \<Rightarrow>
                 md_push [Md_Endpoint subscribers (Cee_TrackStopped (ti_peer info) (ti_track info) (ti_meta info))]
                   (s\<lparr>md_cluster_tracks := im_swap_remove track (md_cluster_tracks s)\<rparr>))))"

definition md_on_kv_event :: "'f cluster_env \<Rightarrow> nat \<Rightarrow> map_event \<Rightarrow> 'e room_metadata \<Rightarrow> 'e room_metadata" where
  "md_on_kv_event env m event s =
     (if md_peers_map s = m then (case event of
        Map_OnSet k _ data \<Rightarrow> md_on_peers_kv_event env k (Some data) s
      | Map_OnDel k _ \<Rightarrow> md_on_peers_kv_event env k None s
      | Map_OnRelaySelected _ \<Rightarrow> s)
      else if md_tracks_map s = m then (case event of
        Map_OnSet k _ data \<Rightarrow> md_on_tracks_kv_event env k (Some data) s
      | Map_OnDel k _ \<Rightarrow> md_on_tracks_kv_event env k None s
      | Map_OnRelaySelected _ \<Rightarrow> s)
      else if im_contains (md_peers_tracks_subs s) m then (case event of
        Map_OnSet k _ data \<Rightarrow> md_on_peers_tracks_kv_event env m k (Some data) s
      | Map_OnDel k _ \<Rightarrow> md_on_peers_tracks_kv_event env m k None s
      | Map_OnRelaySelected _ \<Rightarrow> s)
      else s)"

definition md_is_empty :: "'e room_metadata \<Rightarrow> bool" where
  "md_is_empty s \<longleftrightarrow> md_queue s = [] \<and> md_peers s = [] \<and> md_peers_map_subscribers s = [] \<and> md_tracks_map_subscribers s = [] \<and>
     md_peers_tracks_subs s = []"

definition md_pop_output :: "'e room_metadata \<Rightarrow> 'e room_metadata \<times> 'e md_output option" where
  "md_pop_output s = (case md_queue s of [] \<Rightarrow> (s, None) | x # q \<Rightarrow> (s\<lparr>md_queue := q\<rparr>, Some x))"

definition md_drop :: "'e room_metadata \<Rightarrow> unit run" where
  "md_drop s = rbind (rassert (length (md_queue s) = 0)) (\<lambda>_. rbind (rassert (length (md_peers s) = 0)) (\<lambda>_.
     rbind (rassert (length (md_peers_map_subscribers s) = 0)) (\<lambda>_. rbind (rassert (length (md_tracks_map_subscribers s) = 0)) (\<lambda>_.
     rassert (length (md_peers_tracks_subs s) = 0)))))"

section \<open>Steps and invariant\<close>

datatype 'e md_op =
    Mo_Join 'e peer_id peer_meta room_info_publish room_info_subscribe
  | Mo_Leave 'e
  | Mo_SubscribePeer 'e peer_id
  | Mo_UnsubscribePeer 'e peer_id
  | Mo_Publish 'e nat track_name track_meta
  | Mo_Unpublish 'e nat
  | Mo_Kv nat map_event

fun md_step :: "'f cluster_env \<Rightarrow> 'e md_op \<Rightarrow> 'e room_metadata \<Rightarrow> 'e room_metadata run" where
  "md_step env (Mo_Join e p m pub sub) s = Inr (md_on_join env e p m pub sub s)"
| "md_step env (Mo_Leave e) s = md_on_leave env e s"
| "md_step env (Mo_SubscribePeer e t) s = md_on_subscribe_peer env e t s"
| "md_step env (Mo_UnsubscribePeer e t) s = md_on_unsubscribe_peer env e t s"
| "md_step env (Mo_Publish e t n m) s = Inr (md_on_track_publish env e t n m s)"
| "md_step env (Mo_Unpublish e t) s = Inr (md_on_track_unpublish env e t s)"
| "md_step env (Mo_Kv m ev) s = Inr (md_on_kv_event env m ev s)"

text \<open>
  What the caller owes: an endpoint joins once, follows peers (of the set \<open>P\<close>) while it is in the
  room, and unfollows only a peer that it follows.
\<close>

fun md_admits :: "peer_id set \<Rightarrow> 'e md_op \<Rightarrow> 'e room_metadata \<Rightarrow> bool" where
  "md_admits P (Mo_Join e _ _ _ _) s = (im_get (md_peers s) e = None)"
| "md_admits P (Mo_SubscribePeer e t) s = (im_get (md_peers s) e \<noteq> None \<and> t \<in> P)"
| "md_admits P (Mo_UnsubscribePeer e t) s = (case im_get (md_peers s) e of None \<Rightarrow> False | Some pc \<Rightarrow> t \<in> set (pc_sub_peers pc))"
| "md_admits P _ s = True"

text \<open>The hash of the map ids does not collide on the peers that are followed.\<close>

definition no_map_clash :: "'f cluster_env \<Rightarrow> room_hash \<Rightarrow> peer_id set \<Rightarrow> bool" where
  "no_map_clash env room P \<longleftrightarrow> inj_on (peer_map env room) P \<and> (\<forall>p\<in>P. peer_map env room p \<notin> {peers_map room, tracks_map room})"

definition md_follows :: "'e room_metadata \<Rightarrow> 'e \<Rightarrow> peer_id \<Rightarrow> bool" where
  "md_follows s e p = (case im_get (md_peers s) e of None \<Rightarrow> False | Some pc \<Rightarrow> p \<in> set (pc_sub_peers pc))"

definition md_wf :: "'f cluster_env \<Rightarrow> peer_id set \<Rightarrow> 'e room_metadata \<Rightarrow> bool" where
  "md_wf env P s \<longleftrightarrow> no_map_clash env (md_room s) P \<and> md_peers_map s = peers_map (md_room s) \<and> md_tracks_map s = tracks_map (md_room s) \<and>
     im_wf (md_peers s) \<and>
     distinct (md_peers_map_subscribers s) \<and> (\<forall>e\<in>set (md_peers_map_subscribers s). im_get (md_peers s) e \<noteq> None) \<and>
     distinct (md_tracks_map_subscribers s) \<and> (\<forall>e\<in>set (md_tracks_map_subscribers s). im_get (md_peers s) e \<noteq> None) \<and>
     (\<forall>e pc. im_get (md_peers s) e = Some pc \<longrightarrow> distinct (pc_sub_peers pc) \<and> set (pc_sub_peers pc) \<subseteq> P) \<and>
     st_wf (md_peers_tracks_subs s) \<and>
     (\<forall>m e. st_mem (md_peers_tracks_subs s) m e \<longleftrightarrow> (\<exists>p. md_follows s e p \<and> m = peer_map env (md_room s) p))"

fun map_act :: "map_control \<Rightarrow> session_act option" where
  "map_act Map_Sub = Some Opens"
| "map_act Map_Unsub = Some Closes"
| "map_act _ = None"

definition md_ctls :: "'e md_output list \<Rightarrow> (nat \<times> session_act) list" where
  "md_ctls os = List.map_filter (\<lambda>x. case x of Md_Kv m ctl \<Rightarrow> map_option (Pair m) (map_act ctl) | _ \<Rightarrow> None) os"

lemma md_ctls_simps [simp]:
  "md_ctls (xs @ ys) = md_ctls xs @ md_ctls ys" "md_ctls [] = []"
  "md_ctls (Md_Kv m ctl # xs) = (case map_act ctl of None \<Rightarrow> [] | Some a \<Rightarrow> [(m, a)]) @ md_ctls xs"
  "md_ctls (Md_Endpoint es ev # xs) = md_ctls xs"
  by (auto simp: md_ctls_def List.map_filter_def split: option.splits)

lemma md_ctls_endpoints [simp]: "md_ctls (map (\<lambda>(k, i). Md_Endpoint [e] (f k i)) xs) = []"
  by (induction xs) auto

definition shared_held :: "nat \<Rightarrow> 'e iset \<Rightarrow> nat set" where
  "shared_held m subs = (if subs = [] then {} else {m})"

definition md_held :: "'e room_metadata \<Rightarrow> nat set" where
  "md_held s = shared_held (md_peers_map s) (md_peers_map_subscribers s) \<union> shared_held (md_tracks_map s) (md_tracks_map_subscribers s) \<union>
     fst ` set (md_peers_tracks_subs s)"

lemma md_wfD:
  assumes "md_wf env P s"
  shows "no_map_clash env (md_room s) P" "md_peers_map s = peers_map (md_room s)" "md_tracks_map s = tracks_map (md_room s)"
    and "im_wf (md_peers s)" "st_wf (md_peers_tracks_subs s)"
    and "distinct (md_peers_map_subscribers s)" "distinct (md_tracks_map_subscribers s)"
    and "e \<in> set (md_peers_map_subscribers s) \<Longrightarrow> im_get (md_peers s) e \<noteq> None"
    and "e \<in> set (md_tracks_map_subscribers s) \<Longrightarrow> im_get (md_peers s) e \<noteq> None"
    and "im_get (md_peers s) e = Some pc \<Longrightarrow> distinct (pc_sub_peers pc) \<and> set (pc_sub_peers pc) \<subseteq> P"
    and "st_mem (md_peers_tracks_subs s) m e \<longleftrightarrow> (\<exists>p. md_follows s e p \<and> m = peer_map env (md_room s) p)"
  using assms unfolding md_wf_def by blast+

lemma tracks_map_neq: "tracks_map room \<noteq> peers_map room"
proof
  assume "tracks_map room = peers_map room"
  then have "(room + 1) mod 2 ^ 64 = room" by (simp add: tracks_map_def peers_map_def u64_add_def)
  moreover from this have "room < 2 ^ 64" by (metis mod_less_divisor zero_less_numeral zero_less_power)
  ultimately show False by (cases "room + 1 = 2 ^ 64") simp_all
qed

lemma md_maps_neq: "md_wf env P s \<Longrightarrow> md_tracks_map s \<noteq> md_peers_map s"
  using md_wfD(2,3) [of env P s] tracks_map_neq by metis

lemma md_follows_in: "md_wf env P s \<Longrightarrow> md_follows s e p \<Longrightarrow> p \<in> P"
  using md_wfD(10) [of env P s e] by (auto simp: md_follows_def split: option.splits)

lemma md_sub_maps_apart:
  assumes "md_wf env P s" "m \<in> fst ` set (md_peers_tracks_subs s)"
  shows "m \<noteq> md_peers_map s" "m \<noteq> md_tracks_map s"
proof -
  obtain e p where "md_follows s e p" "m = peer_map env (md_room s) p"
    using assms st_keys [OF md_wfD(5) [OF assms(1)], of m] md_wfD(11) [OF assms(1), of m] by blast
  then show "m \<noteq> md_peers_map s" "m \<noteq> md_tracks_map s"
    using md_wfD(1-3) [OF assms(1)] md_follows_in [OF assms(1)] by (auto simp: no_map_clash_def)
qed

section \<open>Map subscriptions\<close>

text \<open>\<open>md_ok env P s s'\<close>: the step from \<open>s\<close> to \<open>s'\<close> keeps the invariant and its controls fit.\<close>

definition md_ok :: "'f cluster_env \<Rightarrow> peer_id set \<Rightarrow> 'e room_metadata \<Rightarrow> 'e room_metadata \<Rightarrow> bool" where
  "md_ok env P s s' \<longleftrightarrow> md_wf env P s' \<and> (\<exists>cs. md_ctls (md_queue s') = md_ctls (md_queue s) @ cs \<and> sessions (md_held s) cs = Some (md_held s'))"

lemma md_frame [simp]:
  "md_wf env P (s\<lparr>md_queue := q\<rparr>) = md_wf env P s" "md_held (s\<lparr>md_queue := q\<rparr>) = md_held s"
  "md_wf env P (s\<lparr>md_cluster_peers := cp\<rparr>) = md_wf env P s" "md_held (s\<lparr>md_cluster_peers := cp\<rparr>) = md_held s"
  "md_wf env P (s\<lparr>md_cluster_tracks := ct\<rparr>) = md_wf env P s" "md_held (s\<lparr>md_cluster_tracks := ct\<rparr>) = md_held s"
  "md_held (s\<lparr>md_peers := ps\<rparr>) = md_held s"
  "md_wf env P (md_push os s) = md_wf env P s" "md_held (md_push os s) = md_held s"
  by (simp_all add: md_wf_def md_held_def md_follows_def md_push_def)

lemma md_push_simps [simp]:
  "md_queue (md_push os s) = md_queue s @ os" "md_peers (md_push os s) = md_peers s" "md_room (md_push os s) = md_room s"
  "md_peers_map (md_push os s) = md_peers_map s" "md_tracks_map (md_push os s) = md_tracks_map s"
  "md_peers_map_subscribers (md_push os s) = md_peers_map_subscribers s"
  "md_tracks_map_subscribers (md_push os s) = md_tracks_map_subscribers s"
  "md_peers_tracks_subs (md_push os s) = md_peers_tracks_subs s"
  "md_cluster_peers (md_push os s) = md_cluster_peers s" "md_cluster_tracks (md_push os s) = md_cluster_tracks s"
  by (simp_all add: md_push_def)

lemma md_ok_refl: "md_wf env P s \<Longrightarrow> md_ok env P s s"
  by (simp add: md_ok_def)

lemma md_ok_trans: "md_ok env P s s' \<Longrightarrow> md_ok env P s' s'' \<Longrightarrow> md_ok env P s s''"
  unfolding md_ok_def by (elim conjE exE) (simp add: sessions_append)

lemma md_ok_quiet: "md_wf env P s' \<Longrightarrow> md_held s' = md_held s \<Longrightarrow> md_ctls (md_queue s') = md_ctls (md_queue s) \<Longrightarrow> md_ok env P s s'"
  by (simp add: md_ok_def)

lemma md_kv_ok:
  assumes "md_wf env P s"
  shows "md_ok env P s (md_on_kv_event env m ev s)"
proof -
  have "md_ok env P s (md_on_peers_kv_event env k d s)" for k d
    using assms by (auto simp: md_on_peers_kv_event_def Let_def intro!: md_ok_quiet split: option.splits)
  moreover have "md_ok env P s (md_on_tracks_kv_event env k d s)" for k d
    using assms by (auto simp: md_on_tracks_kv_event_def Let_def intro!: md_ok_quiet split: option.splits)
  moreover have "md_ok env P s (md_on_peers_tracks_kv_event env m k d s)" for k d
    using assms by (auto simp: md_on_peers_tracks_kv_event_def intro!: md_ok_quiet split: option.splits)
  ultimately show ?thesis using md_ok_refl [OF assms] by (simp add: md_on_kv_event_def split: map_event.split)
qed

lemma md_wf_touch:
  assumes "md_wf env P s" "im_get (md_peers s) e = Some pc" "pc_sub_peers pc' = pc_sub_peers pc"
  shows "md_wf env P (s\<lparr>md_peers := im_insert e pc' (md_peers s)\<rparr>)"
  using assms by (simp add: md_wf_def md_follows_def list_upd)

lemma md_publish_ok:
  assumes "md_wf env P s"
  shows "md_ok env P s (md_on_track_publish env e t n m s)" "md_ok env P s (md_on_track_unpublish env e t s)"
  using assms md_wf_touch [OF assms]
  by (auto simp: md_on_track_publish_def md_on_track_unpublish_def Let_def intro!: md_ok_quiet split: option.splits)

text \<open>The sets of subscribers of the two shared maps.\<close>

lemma is_insert_length_1: "x \<notin> set xs \<Longrightarrow> length (is_insert x xs) = Suc 0 \<longleftrightarrow> xs = []"
  by (simp add: is_insert_def)

lemma md_join_peers_ok:
  assumes wf: "md_wf env P s" and e: "im_get (md_peers s) e \<noteq> None" "e \<notin> set (md_peers_map_subscribers s)"
  shows "md_ok env P s (md_join_peers e s)"
proof -
  have "md_wf env P (md_join_peers e s)"
    using wf e by (simp add: md_join_peers_def Let_def md_wf_def md_follows_def)
  moreover have "md_peers_map s \<notin> md_held s" if "md_peers_map_subscribers s = []"
    using that md_sub_maps_apart(1) [OF wf] md_maps_neq [OF wf] by (auto simp: md_held_def shared_held_def)
  ultimately show ?thesis using e(2)
    by (auto simp: md_ok_def md_join_peers_def Let_def is_insert_length_1 md_held_def shared_held_def)
qed

lemma md_join_tracks_ok:
  assumes wf: "md_wf env P s" and e: "im_get (md_peers s) e \<noteq> None" "e \<notin> set (md_tracks_map_subscribers s)"
  shows "md_ok env P s (md_join_tracks e s)"
proof -
  have "md_wf env P (md_join_tracks e s)"
    using wf e by (simp add: md_join_tracks_def Let_def md_wf_def md_follows_def)
  moreover have "md_tracks_map s \<notin> md_held s" if "md_tracks_map_subscribers s = []"
    using that md_sub_maps_apart(2) [OF wf] md_maps_neq [OF wf] by (auto simp: md_held_def shared_held_def)
  ultimately show ?thesis using e(2)
    by (auto simp: md_ok_def md_join_tracks_def Let_def is_insert_length_1 md_held_def shared_held_def)
qed

lemma md_wf_enter:
  assumes wf: "md_wf env P s" and e: "im_get (md_peers s) e = None" and pc: "pc_sub_peers pc = []"
  shows "md_wf env P (s\<lparr>md_peers := im_insert e pc (md_peers s)\<rparr>)"
proof -
  let ?s = "s\<lparr>md_peers := im_insert e pc (md_peers s)\<rparr>"
  have f: "md_follows ?s x p = md_follows s x p" for x p using e pc by (simp add: md_follows_def list_upd)
  show ?thesis using wf e pc unfolding md_wf_def f by (auto simp: list_upd)
qed

lemma md_on_join_ok:
  assumes wf: "md_wf env P s" and e: "im_get (md_peers s) e = None"
  shows "md_ok env P s (md_on_join env e p m pub sub s)"
proof -
  let ?pc = "\<lparr>pc_peer = p, pc_publish = pub, pc_sub_peers = [], pc_pub_tracks = []\<rparr>"
  let ?s1 = "s\<lparr>md_peers := im_insert e ?pc (md_peers s)\<rparr>"
  let ?s2 = "if rip_peer pub then md_push [Md_Kv (md_peers_map ?s1) (Map_Set (peers_key env p) (env_peer_ser env \<lparr>pi_peer = p, pi_meta = m\<rparr>))] ?s1 else ?s1"
  let ?s3 = "if ris_peers sub then md_join_peers e ?s2 else ?s2"
  have wf1: "md_wf env P ?s1" using md_wf_enter [OF wf e] by simp
  have sub: "e \<notin> set (md_peers_map_subscribers s)" "e \<notin> set (md_tracks_map_subscribers s)" using md_wfD(8,9) [OF wf] e by blast+
  have ok2: "md_ok env P s ?s2" using wf1 by (auto intro: md_ok_quiet)
  then have wf2: "md_wf env P ?s2" by (simp only: md_ok_def)
  have ok3: "md_ok env P ?s2 ?s3"
    using md_join_peers_ok [OF wf2, of e] md_ok_refl [OF wf2] sub by (auto simp: list_upd)
  then have wf3: "md_wf env P ?s3" by (simp only: md_ok_def)
  have "md_ok env P ?s3 (if ris_tracks sub then md_join_tracks e ?s3 else ?s3)"
    using md_join_tracks_ok [OF wf3, of e] md_ok_refl [OF wf3] sub by (auto simp: list_upd md_join_peers_def Let_def)
  from md_ok_trans [OF md_ok_trans [OF ok2 ok3] this] show ?thesis by (simp add: md_on_join_def Let_def)
qed

definition unsub_left :: "nat \<Rightarrow> (nat, 'e list) imap \<Rightarrow> 'e md_output list" where
  "unsub_left m subs = (if m \<in> fst ` set subs then [] else [Md_Kv m Map_Unsub])"

lemma md_leave_target_eq:
  assumes "st_wf (md_peers_tracks_subs s)" "st_mem (md_peers_tracks_subs s) m e" "m = peer_map env (md_room s) t"
  shows "md_leave_target env e t s = Inr (md_push (unsub_left m (st_del m e (md_peers_tracks_subs s)))
     (s\<lparr>md_peers_tracks_subs := st_del m e (md_peers_tracks_subs s)\<rparr>))"
proof -
  obtain xs where xs: "im_get (md_peers_tracks_subs s) m = Some xs" using assms(2) by (auto simp: st_mem_def split: option.splits)
  have "im_wf (md_peers_tracks_subs s)" using assms(1) by (simp add: st_wf_def)
  then show ?thesis using xs assms(3)
    by (simp add: md_leave_target_def st_del_def Let_def unsub_left_def im_keys_insert im_keys_swap_remove md_push_def)
qed

lemma unsub_left_sessions:
  assumes "st_wf subs" "st_mem subs m e" "m \<notin> A"
  shows "sessions (A \<union> fst ` set subs) (md_ctls (unsub_left m (st_del m e subs))) = Some (A \<union> fst ` set (st_del m e subs))"
  using st_del_keys [OF assms(1,2)] assms(3) by (auto simp: unsub_left_def split: if_splits)

lemma md_leave_loop:
  assumes "st_wf (md_peers_tracks_subs s)" "distinct ts" "inj_on (peer_map env (md_room s)) (set ts)"
    and "\<forall>t\<in>set ts. st_mem (md_peers_tracks_subs s) (peer_map env (md_room s) t) e \<and> peer_map env (md_room s) t \<notin> A"
  shows "\<exists>os. rfold (md_leave_target env e) ts s =
       Inr (md_push os (s\<lparr>md_peers_tracks_subs := fold (\<lambda>k. st_del k e) (map (peer_map env (md_room s)) ts) (md_peers_tracks_subs s)\<rparr>)) \<and>
     sessions (A \<union> fst ` set (md_peers_tracks_subs s)) (md_ctls os) =
       Some (A \<union> fst ` set (fold (\<lambda>k. st_del k e) (map (peer_map env (md_room s)) ts) (md_peers_tracks_subs s)))"
  using assms
proof (induction ts arbitrary: s)
  case Nil
  then show ?case by (intro exI [of _ "[]"]) (simp add: md_push_def)
next
  case (Cons t ts)
  let ?m = "peer_map env (md_room s) t" and ?subs = "md_peers_tracks_subs s"
  let ?s1 = "md_push (unsub_left ?m (st_del ?m e ?subs)) (s\<lparr>md_peers_tracks_subs := st_del ?m e ?subs\<rparr>)"
  have t: "st_mem ?subs ?m e" "?m \<notin> A" using Cons.prems(4) by simp_all
  have wf1: "st_wf (md_peers_tracks_subs ?s1)" using st_wf_del [OF Cons.prems(1)] by simp
  have "peer_map env (md_room s) u \<noteq> ?m" if "u \<in> set ts" for u
    using that Cons.prems(2,3) by (auto simp: inj_on_def)
  then have mem1: "\<forall>u\<in>set ts. st_mem (md_peers_tracks_subs ?s1) (peer_map env (md_room ?s1) u) e \<and> peer_map env (md_room ?s1) u \<notin> A"
    using Cons.prems(4) by (simp add: st_mem_del [OF Cons.prems(1)])
  obtain os where "rfold (md_leave_target env e) ts ?s1 =
       Inr (md_push os (?s1\<lparr>md_peers_tracks_subs := fold (\<lambda>k. st_del k e) (map (peer_map env (md_room s)) ts) (st_del ?m e ?subs)\<rparr>))"
     "sessions (A \<union> fst ` set (st_del ?m e ?subs)) (md_ctls os) =
       Some (A \<union> fst ` set (fold (\<lambda>k. st_del k e) (map (peer_map env (md_room s)) ts) (st_del ?m e ?subs)))"
    using Cons.IH [OF wf1 _ _ mem1] Cons.prems(2,3) by (auto simp: inj_on_def)
  then show ?case
    using md_leave_target_eq [OF Cons.prems(1) t(1) refl] unsub_left_sessions [OF Cons.prems(1) t]
    by (intro exI [of _ "unsub_left ?m (st_del ?m e ?subs) @ os"]) (simp add: sessions_append md_push_def)
qed

lemma shared_leave:
  assumes "distinct xs" "m \<notin> B"
  shows "sessions (shared_held m xs \<union> B) (if e \<in> set xs \<and> is_swap_remove e xs = [] then [(m, Closes)] else []) =
     Some (shared_held m (is_swap_remove e xs) \<union> B)"
proof -
  have "is_swap_remove e xs = [] \<longleftrightarrow> set xs \<subseteq> {e}" using is_swap_remove_Nil_iff [OF assms(1)] .
  then have "is_swap_remove e xs = [] \<longleftrightarrow> xs = []" if "e \<notin> set xs" using that by (cases xs) auto
  then show ?thesis using assms(2) by (cases "e \<in> set xs") (auto simp: shared_held_def)
qed

definition shared_unsub :: "nat \<Rightarrow> 'e \<Rightarrow> 'e iset \<Rightarrow> 'e md_output list" where
  "shared_unsub m e xs = (if e \<in> set xs \<and> is_swap_remove e xs = [] then [Md_Kv m Map_Unsub] else [])"

lemma md_leave_shared_eq:
  "md_leave_peers e s = md_push (shared_unsub (md_peers_map s) e (md_peers_map_subscribers s))
     (s\<lparr>md_peers_map_subscribers := is_swap_remove e (md_peers_map_subscribers s)\<rparr>)"
  "md_leave_tracks e s = md_push (shared_unsub (md_tracks_map s) e (md_tracks_map_subscribers s))
     (s\<lparr>md_tracks_map_subscribers := is_swap_remove e (md_tracks_map_subscribers s)\<rparr>)"
  by (simp_all add: md_leave_peers_def md_leave_tracks_def shared_unsub_def Let_def md_push_def)

lemma shared_unsub_sessions:
  assumes "distinct xs" "m \<notin> B" "A = shared_held m xs \<union> B"
  shows "sessions A (md_ctls (shared_unsub m e xs)) = Some (shared_held m (is_swap_remove e xs) \<union> B)"
proof -
  have c: "md_ctls (shared_unsub m e xs) = (if e \<in> set xs \<and> is_swap_remove e xs = [] then [(m, Closes)] else [])"
    by (simp add: shared_unsub_def)
  show ?thesis unfolding c assms(3) by (rule shared_leave [OF assms(1,2)])
qed

lemma md_ctls_dels [simp]:
  "md_ctls (concat (map (\<lambda>(x, t). [Md_Kv a (Map_Del (f t)), Md_Kv b (Map_Del (f t))]) xs)) = []"
  by (induction xs) auto

lemma md_leave_wf:
  assumes wf: "md_wf env P s" and e: "im_get (md_peers s) e = Some pc"
    and s': "md_room s' = md_room s" "md_peers_map s' = md_peers_map s" "md_tracks_map s' = md_tracks_map s"
      "md_peers s' = im_swap_remove e (md_peers s)" "md_peers_map_subscribers s' = is_swap_remove e (md_peers_map_subscribers s)"
      "md_tracks_map_subscribers s' = is_swap_remove e (md_tracks_map_subscribers s)"
      "md_peers_tracks_subs s' = fold (\<lambda>k. st_del k e) (map (peer_map env (md_room s)) (pc_sub_peers pc)) (md_peers_tracks_subs s)"
  shows "md_wf env P s'"
proof -
  note D = md_wfD(1-7) [OF wf]
  have get: "im_get (md_peers s') = (im_get (md_peers s))(e := None)" using D(4) s'(4) by (simp add: list_upd)
  have fol: "md_follows s' x p \<longleftrightarrow> md_follows s x p \<and> x \<noteq> e" for x p by (simp add: md_follows_def get)
  have "p \<in> set (pc_sub_peers pc) \<longleftrightarrow> md_follows s e p" for p using e by (simp add: md_follows_def)
  then have "st_mem (md_peers_tracks_subs s') m x \<longleftrightarrow> (\<exists>p. md_follows s' x p \<and> m = peer_map env (md_room s) p)" for m x
    using md_wfD(11) [OF wf, of m x] unfolding s'(7) st_mem_fold_del [OF D(5)] fol by auto
  then show ?thesis
    using D md_wfD(8,9,10) [OF wf] st_wf_fold_del [OF D(5)] im_wf_swap_remove [OF D(4)]
    unfolding md_wf_def get s' by (auto simp: im_get_swap_remove [OF D(4)] split: if_splits)
qed

lemma md_followed:
  assumes wf: "md_wf env P s" and e: "im_get (md_peers s) e = Some pc"
  shows "t \<in> set (pc_sub_peers pc) \<Longrightarrow> st_mem (md_peers_tracks_subs s) (peer_map env (md_room s) t) e"
    and "t \<in> set (pc_sub_peers pc) \<Longrightarrow> peer_map env (md_room s) t \<noteq> md_peers_map s \<and> peer_map env (md_room s) t \<noteq> md_tracks_map s"
    and "inj_on (peer_map env (md_room s)) (set (pc_sub_peers pc))" "distinct (pc_sub_peers pc)"
proof -
  note clash = md_wfD(1) [OF wf, unfolded no_map_clash_def]
  have sub: "set (pc_sub_peers pc) \<subseteq> P" "distinct (pc_sub_peers pc)" using md_wfD(10) [OF wf e] by simp_all
  then show "inj_on (peer_map env (md_room s)) (set (pc_sub_peers pc))" "distinct (pc_sub_peers pc)"
    using clash by (auto intro: inj_on_subset)
  assume t: "t \<in> set (pc_sub_peers pc)"
  then have "md_follows s e t" using e by (simp add: md_follows_def)
  then show "st_mem (md_peers_tracks_subs s) (peer_map env (md_room s) t) e"
    unfolding md_wfD(11) [OF wf, of _ e] by blast
  show "peer_map env (md_room s) t \<noteq> md_peers_map s \<and> peer_map env (md_room s) t \<noteq> md_tracks_map s"
    using clash t sub(1) unfolding md_wfD(2,3) [OF wf] by blast
qed

lemma md_on_leave_ok:
  assumes wf: "md_wf env P s"
  shows "\<exists>s'. md_on_leave env e s = Inr s' \<and> md_ok env P s s'"
proof (cases "im_get (md_peers s) e")
  case None
  then show ?thesis using md_ok_refl [OF wf] by (simp add: md_on_leave_def)
next
  case (Some pc)
  note D = md_wfD(1-7) [OF wf]
  let ?p = "md_peers_map s" and ?t = "md_tracks_map s" and ?subs = "md_peers_tracks_subs s" and ?ts = "pc_sub_peers pc"
  let ?ps = "is_swap_remove e (md_peers_map_subscribers s)" and ?tss = "is_swap_remove e (md_tracks_map_subscribers s)"
  let ?pc = "pc_peer pc"
  let ?s1 = "s\<lparr>md_peers := im_swap_remove e (md_peers s)\<rparr>"
  let ?del = "(if rip_peer (pc_publish pc) then [Md_Kv ?p (Map_Del (peers_key env ?pc))] else []) @
    concat (map (\<lambda>(_, track). [Md_Kv ?t (Map_Del (tracks_key env ?pc track)), Md_Kv (peer_map env (md_room s) ?pc) (Map_Del (tracks_key env ?pc track))]) (pc_pub_tracks pc))"
  let ?s4 = "md_leave_tracks e (md_leave_peers e (md_push ?del ?s1))"
  let ?A = "shared_held ?p ?ps \<union> shared_held ?t ?tss"
  note fo = md_followed [OF wf Some]
  have fol: "\<forall>t\<in>set ?ts. st_mem (md_peers_tracks_subs ?s4) (peer_map env (md_room ?s4) t) e \<and> peer_map env (md_room ?s4) t \<notin> ?A"
    using fo(1,2) by (simp add: md_leave_shared_eq shared_held_def)
  have inj: "inj_on (peer_map env (md_room ?s4)) (set ?ts)" using fo(3) by (simp add: md_leave_shared_eq)
  have st: "st_wf (md_peers_tracks_subs ?s4)" using D(5) by (simp add: md_leave_shared_eq)
  obtain os where os: "rfold (md_leave_target env e) ?ts ?s4 =
       Inr (md_push os (?s4\<lparr>md_peers_tracks_subs := fold (\<lambda>k. st_del k e) (map (peer_map env (md_room ?s4)) ?ts) (md_peers_tracks_subs ?s4)\<rparr>))"
     "sessions (?A \<union> fst ` set (md_peers_tracks_subs ?s4)) (md_ctls os) =
       Some (?A \<union> fst ` set (fold (\<lambda>k. st_del k e) (map (peer_map env (md_room ?s4)) ?ts) (md_peers_tracks_subs ?s4)))"
    using md_leave_loop [OF st fo(4) inj fol] by blast
  let ?s5 = "md_push os (?s4\<lparr>md_peers_tracks_subs := fold (\<lambda>k. st_del k e) (map (peer_map env (md_room ?s4)) ?ts) (md_peers_tracks_subs ?s4)\<rparr>)"
  have "md_on_leave env e s = rfold (md_leave_target env e) ?ts ?s4"
    using Some by (simp add: md_on_leave_def Let_def md_push_def)
  then have run: "md_on_leave env e s = Inr ?s5" unfolding os(1) .
  have "md_wf env P ?s5" by (rule md_leave_wf [OF wf Some]) (simp_all add: md_leave_shared_eq)
  moreover have "sessions (md_held s) (md_ctls (shared_unsub ?p e (md_peers_map_subscribers s))) =
      Some (shared_held ?p ?ps \<union> (shared_held ?t (md_tracks_map_subscribers s) \<union> fst ` set ?subs))"
  proof (rule shared_unsub_sessions [OF D(6)])
    show "?p \<notin> shared_held ?t (md_tracks_map_subscribers s) \<union> fst ` set ?subs"
      using md_sub_maps_apart(1) [OF wf] md_maps_neq [OF wf] by (auto simp: shared_held_def)
  qed (simp add: md_held_def Un_assoc)
  moreover have "sessions (shared_held ?p ?ps \<union> (shared_held ?t (md_tracks_map_subscribers s) \<union> fst ` set ?subs))
      (md_ctls (shared_unsub ?t e (md_tracks_map_subscribers s))) = Some (shared_held ?t ?tss \<union> (shared_held ?p ?ps \<union> fst ` set ?subs))"
  proof (rule shared_unsub_sessions [OF D(7)])
    show "?t \<notin> shared_held ?p ?ps \<union> fst ` set ?subs"
      using md_sub_maps_apart(2) [OF wf] md_maps_neq [OF wf] by (auto simp: shared_held_def)
  qed auto
  moreover have "shared_held ?t ?tss \<union> (shared_held ?p ?ps \<union> fst ` set ?subs) = ?A \<union> fst ` set ?subs" by auto
  ultimately show ?thesis unfolding run using os(2)
    by (auto simp: md_ok_def md_leave_shared_eq sessions_append md_held_def)
qed

text \<open>Following and unfollowing one peer.\<close>

lemma md_set_follow:
  assumes wf: "md_wf env P s" and e: "im_get (md_peers s) e = Some pc"
    and pc': "distinct (pc_sub_peers pc')" "set (pc_sub_peers pc') \<subseteq> P"
    and subs: "st_wf subs"
      "\<And>m x. st_mem subs m x \<longleftrightarrow> (if x = e then \<exists>p\<in>set (pc_sub_peers pc'). m = peer_map env (md_room s) p else st_mem (md_peers_tracks_subs s) m x)"
  shows "md_wf env P (s\<lparr>md_peers_tracks_subs := subs, md_peers := im_insert e pc' (md_peers s)\<rparr>)"
proof -
  let ?s = "s\<lparr>md_peers_tracks_subs := subs, md_peers := im_insert e pc' (md_peers s)\<rparr>"
  have fol: "md_follows ?s x p = (if x = e then p \<in> set (pc_sub_peers pc') else md_follows s x p)" for x p
    by (simp add: md_follows_def list_upd)
  have "st_mem subs m x \<longleftrightarrow> (\<exists>p. md_follows ?s x p \<and> m = peer_map env (md_room s) p)" for m x
    unfolding subs(2) fol md_wfD(11) [OF wf] by auto
  then show ?thesis using wf pc' subs(1) unfolding md_wf_def by (simp add: list_upd)
qed

lemma md_on_subscribe_peer_ok:
  assumes wf: "md_wf env P s" and e: "im_get (md_peers s) e = Some pc" and t: "t \<in> P"
  shows "\<exists>s'. md_on_subscribe_peer env e t s = Inr s' \<and> md_ok env P s s'"
proof -
  let ?m = "peer_map env (md_room s) t" and ?subs = "md_peers_tracks_subs s"
  let ?s1 = "s\<lparr>md_peers_tracks_subs := st_add ?m e ?subs, md_peers := im_insert e (pc\<lparr>pc_sub_peers := is_insert t (pc_sub_peers pc)\<rparr>) (md_peers s)\<rparr>"
  note D = md_wfD(1-5) [OF wf]
  have fe: "st_mem ?subs m e \<longleftrightarrow> (\<exists>p\<in>set (pc_sub_peers pc). m = peer_map env (md_room s) p)" for m
    unfolding md_wfD(11) [OF wf] by (auto simp: md_follows_def e)
  have "md_wf env P ?s1"
    using md_wfD(10) [OF wf e] t st_wf_add [OF D(5)] by (intro md_set_follow [OF wf e]) (auto simp: st_mem_add fe)
  moreover have run: "md_on_subscribe_peer env e t s = Inr (if im_or ?subs ?m [] = [] then md_push [Md_Kv ?m Map_Sub] ?s1 else ?s1)"
    using e by (simp add: md_on_subscribe_peer_def Let_def st_add_def)
  moreover have "md_held ?s1 = insert ?m (md_held s)" by (simp add: md_held_def st_keys_add)
  moreover have "im_or ?subs ?m [] = [] \<longleftrightarrow> ?m \<notin> fst ` set ?subs"
    using D(5) im_get_None_key [of ?subs ?m] im_get_Some_key [of ?subs ?m] by (cases "im_get ?subs ?m") (auto simp: st_wf_def)
  moreover have "?m \<noteq> md_peers_map s" "?m \<noteq> md_tracks_map s" using D(1-3) t by (auto simp: no_map_clash_def)
  then have "?m \<in> md_held s \<longleftrightarrow> ?m \<in> fst ` set ?subs" by (auto simp: md_held_def shared_held_def)
  ultimately show ?thesis
    by (cases "im_or ?subs ?m [] = []") (simp_all add: md_ok_def insert_absorb del: im_or_simps)
qed

lemma md_on_unsubscribe_peer_ok:
  assumes wf: "md_wf env P s" and e: "im_get (md_peers s) e = Some pc" and t: "t \<in> set (pc_sub_peers pc)"
  shows "\<exists>s'. md_on_unsubscribe_peer env e t s = Inr s' \<and> md_ok env P s s'"
proof -
  let ?m = "peer_map env (md_room s) t" and ?subs = "md_peers_tracks_subs s"
  let ?pc = "pc\<lparr>pc_sub_peers := is_swap_remove t (pc_sub_peers pc)\<rparr>"
  let ?s1 = "s\<lparr>md_peers_tracks_subs := st_del ?m e ?subs, md_peers := im_insert e ?pc (md_peers s)\<rparr>"
  note D = md_wfD(1-5) [OF wf] and fo = md_followed [OF wf e]
  obtain xs where xs: "im_get ?subs ?m = Some xs" using fo(1) [OF t] by (auto simp: st_mem_def split: option.splits)
  have fe: "st_mem ?subs m e \<longleftrightarrow> (\<exists>p\<in>set (pc_sub_peers pc). m = peer_map env (md_room s) p)" for m
    unfolding md_wfD(11) [OF wf] by (auto simp: md_follows_def e)
  have "st_mem (st_del ?m e ?subs) m x \<longleftrightarrow> (if x = e then \<exists>p\<in>set (pc_sub_peers ?pc). m = peer_map env (md_room s) p else st_mem ?subs m x)" for m x
    using fo(3,4) t by (auto simp: st_mem_del [OF D(5)] fe inj_on_def)
  then have "md_wf env P ?s1"
    using md_wfD(10) [OF wf e] st_wf_del [OF D(5)] by (intro md_set_follow [OF wf e]) auto
  moreover have "md_on_unsubscribe_peer env e t s = Inr (md_push (unsub_left ?m (st_del ?m e ?subs)) ?s1)"
    using e xs D(5) im_keys_swap_remove [of ?subs ?m]
    by (simp add: md_on_unsubscribe_peer_def Let_def st_del_def unsub_left_def im_keys_insert im_swap_remove_insert st_wf_def md_push_def)
  moreover have "sessions (md_held s) (md_ctls (unsub_left ?m (st_del ?m e ?subs))) = Some (md_held ?s1)"
    using unsub_left_sessions [OF D(5) fo(1) [OF t], of "shared_held (md_peers_map s) (md_peers_map_subscribers s) \<union>
        shared_held (md_tracks_map s) (md_tracks_map_subscribers s)"] fo(2) [OF t] by (simp add: md_held_def shared_held_def split: if_splits)
  ultimately show ?thesis by (simp add: md_ok_def)
qed

lemma md_step_sessions:
  assumes wf: "md_wf env P s" and adm: "md_admits P x s"
  shows "\<exists>s' cs. md_step env x s = Inr s' \<and> md_wf env P s' \<and>
     md_ctls (md_queue s') = md_ctls (md_queue s) @ cs \<and> sessions (md_held s) cs = Some (md_held s')"
proof -
  have "\<exists>s'. md_step env x s = Inr s' \<and> md_ok env P s s'"
  proof (cases x)
    case (Mo_UnsubscribePeer e t)
    then obtain pc where "im_get (md_peers s) e = Some pc" "t \<in> set (pc_sub_peers pc)" using adm by (auto split: option.splits)
    then show ?thesis using md_on_unsubscribe_peer_ok [OF wf] Mo_UnsubscribePeer by simp
  qed (use adm md_on_join_ok [OF wf] md_on_leave_ok [OF wf] md_on_subscribe_peer_ok [OF wf] md_publish_ok [OF wf] md_kv_ok [OF wf] in auto)
  then show ?thesis unfolding md_ok_def by blast
qed

interpretation mdc: session_client "md_step env" "\<lambda>s. md_ctls (md_queue s)" md_held "md_wf env P" "md_admits P"
  for env :: "'f cluster_env" and P
  by unfold_locales (rule md_step_sessions)

section \<open>Properties\<close>

lemma md_wf_new: "no_map_clash env room P \<Longrightarrow> md_wf env P (md_new room)"
  by (simp add: md_wf_def md_new_def md_follows_def st_wf_def st_mem_def)

lemma md_new_simps [simp]: "md_held (md_new room) = {}" "md_queue (md_new room) = []"
  by (simp_all add: md_held_def md_new_def shared_held_def)

lemma md_alone:
  assumes wf: "md_wf env P s" and none: "md_peers s = []"
  shows "md_peers_map_subscribers s = [] \<and> md_tracks_map_subscribers s = [] \<and> md_peers_tracks_subs s = []"
proof -
  have "md_peers_map_subscribers s = []" "md_tracks_map_subscribers s = []"
    using md_wfD(8,9) [OF wf] none by (metis im_get_Nil list.set_intros(1) neq_Nil_conv)+
  moreover have "k \<notin> fst ` set (md_peers_tracks_subs s)" for k
    using st_keys [OF md_wfD(5) [OF wf], of k] md_wfD(11) [OF wf, of k] none by (simp add: md_follows_def)
  then have "md_peers_tracks_subs s = []" by (metis image_is_empty set_empty equals0I)
  ultimately show ?thesis by simp
qed

text \<open>
  C22. The metadata of a room keeps to the protocol of the key-value maps: through any sequence of
  joins, leaves, follows, unfollows, publications and map events in which endpoints join once and
  unfollow only what they follow, and for which the map ids do not collide, no call panics; every
  map is subscribed once while somebody is interested in it and unsubscribed when nobody is. When
  the last endpoint has left, no map is subscribed, and once the queue is drained the component
  may be dropped.
\<close>
theorem md_map_sessions:
  assumes "no_map_clash env room P" "admits_run (md_admits P) (md_step env) xs (md_new room)"
  shows "\<exists>s'. rfold (md_step env) xs (md_new room) = Inr s' \<and> sessions {} (md_ctls (md_queue s')) = Some (md_held s') \<and>
     (md_peers s' = [] \<longrightarrow> md_held s' = {} \<and> md_drop (s'\<lparr>md_queue := []\<rparr>) = Inr ())"
proof -
  obtain s' where s': "rfold (md_step env) xs (md_new room) = Inr s'" "md_wf env P s'"
      "sessions {} (md_ctls (md_queue s')) = Some (md_held s')"
    using mdc.run_sessions [OF md_wf_new [OF assms(1)] assms(2)] by auto
  moreover have "md_held s' = {} \<and> md_drop (s'\<lparr>md_queue := []\<rparr>) = Inr ()" if "md_peers s' = []"
    using md_alone [OF s'(2) that] that by (simp add: md_held_def shared_held_def md_drop_def)
  ultimately show ?thesis by blast
qed

lemmas md_eval = md_new_def md_on_join_def md_join_peers_def md_join_tracks_def md_on_subscribe_peer_def md_on_leave_def
  md_leave_peers_def md_leave_tracks_def md_leave_target_def md_push_def Let_def im_get_def is_insert_def is_swap_remove_def im_swap_remove_def

theorem md_map_sessions_witness:
  "\<exists>s'. rfold (md_step demo_env) [Mo_Join (1::nat) ''alice'' \<lparr>pm_metadata = None, pm_extra_data = None\<rparr> \<lparr>rip_peer = True, rip_tracks = True\<rparr>
        \<lparr>ris_peers = True, ris_tracks = False\<rparr>, Mo_SubscribePeer 1 ''bob'', Mo_Leave 1] (md_new 3) = Inr s' \<and>
     sessions {} (md_ctls (md_queue s')) = Some (md_held s')"
proof -
  let ?xs = "[Mo_Join (1::nat) ''alice'' \<lparr>pm_metadata = None, pm_extra_data = None\<rparr> \<lparr>rip_peer = True, rip_tracks = True\<rparr>
        \<lparr>ris_peers = True, ris_tracks = False\<rparr>, Mo_SubscribePeer 1 ''bob'', Mo_Leave 1]"
  have "no_map_clash demo_env 3 {''bob''}"
    by (simp add: no_map_clash_def demo_env_def peer_map_def peers_map_def tracks_map_def u64_add_def)
  moreover have "admits_run (md_admits {''bob''}) (md_step demo_env) ?xs (md_new 3)" by (simp add: md_eval)
  ultimately show ?thesis using md_map_sessions by blast
qed

text \<open>
  A stopped track is reported on one map only. A published track is announced both in the
  map of all tracks and in the map of its peer, but the room keeps one table for both: once the
  deletion has arrived from the map of all tracks, the deletion from the peer's map is ignored,
  and the endpoints that follow the peer are not told that the track has stopped.
\<close>
theorem md_stop_not_told_to_followers:
  assumes "im_wf (md_cluster_tracks s)" "m \<noteq> md_peers_map s" "m \<noteq> md_tracks_map s" "md_tracks_map s \<noteq> md_peers_map s"
  shows "md_on_kv_event env m (Map_OnDel k node) (md_on_kv_event env (md_tracks_map s) (Map_OnDel k node) s) =
     md_on_kv_event env (md_tracks_map s) (Map_OnDel k node) s"
proof -
  let ?s = "md_on_kv_event env (md_tracks_map s) (Map_OnDel k node) s"
  have "im_get (md_cluster_tracks ?s) k = None" "md_peers_map ?s = md_peers_map s" "md_tracks_map ?s = md_tracks_map s"
    using assms(1,4) by (auto simp: md_on_kv_event_def md_on_tracks_kv_event_def Let_def list_upd split: option.split)
  then show ?thesis using assms(2,3)
    by (simp add: md_on_kv_event_def [of env m] md_on_peers_tracks_kv_event_def split: option.split)
qed

theorem md_stop_not_told_to_followers_witness:
  "let s = (md_new 3)\<lparr>md_tracks_map_subscribers := [1::nat], md_peers_tracks_subs := [(90, [2])],
       md_cluster_tracks := [(5, \<lparr>ti_peer = ''bob'', ti_track = ''cam'', ti_meta = default_audio\<rparr>)]\<rparr>
   in md_queue (md_on_kv_event demo_env 90 (Map_OnDel 5 0) (md_on_kv_event demo_env (md_tracks_map s) (Map_OnDel 5 0) s)) =
     [Md_Endpoint [1] (Cee_TrackStopped ''bob'' ''cam'' default_audio)]"
proof -
  let ?s = "(md_new 3)\<lparr>md_tracks_map_subscribers := [1::nat], md_peers_tracks_subs := [(90, [2])],
       md_cluster_tracks := [(5, \<lparr>ti_peer = ''bob'', ti_track = ''cam'', ti_meta = default_audio\<rparr>)]\<rparr>"
  have "md_on_kv_event demo_env 90 (Map_OnDel 5 0) (md_on_kv_event demo_env (md_tracks_map ?s) (Map_OnDel 5 0) ?s) =
      md_on_kv_event demo_env (md_tracks_map ?s) (Map_OnDel 5 0) ?s"
    by (rule md_stop_not_told_to_followers) (simp_all add: md_new_def im_wf_def peers_map_def tracks_map_def u64_add_def)
  moreover have "md_queue (md_on_kv_event demo_env (md_tracks_map ?s) (Map_OnDel 5 0) ?s) =
      [Md_Endpoint [1] (Cee_TrackStopped ''bob'' ''cam'' default_audio)]"
    by (simp add: md_on_kv_event_def md_on_tracks_kv_event_def md_new_def peers_map_def tracks_map_def u64_add_def im_get_def
        im_swap_remove_def md_push_def Let_def)
  ultimately show ?thesis by (simp add: Let_def)
qed

end
