(* ===== verification/Room_Audio_Mixer.thy ===== *)
theory Room_Audio_Mixer
  imports Room_Mixers
begin

text \<open>
  \<^verbatim>\<open>packages/media_core/src/cluster/room/audio_mixer.rs\<close>: the audio mixer of a room, which owns the
  publisher, one subscriber for each supported number of outputs, and one manual mixer for each
  endpoint in manual mode. The group of manual mixers is a task group of the runtime library: it
  is modelled as a table of tasks by index, the index of a new task is an argument, and an event
  for an index that holds no task counts as a failure (the invariant excludes it). Polling is one
  function for each child.
\<close>

section \<open>The task group\<close>

fun tg_run_all :: "('t \<Rightarrow> 't run) \<Rightarrow> (nat, 't) imap \<Rightarrow> (nat, 't) imap run" where
  "tg_run_all f [] = Inr []"
| "tg_run_all f ((i, t) # ts) = rbind (f t) (\<lambda>t'. rbind (tg_run_all f ts) (\<lambda>ts'. Inr ((i, t') # ts')))"

definition tg_run :: "nat \<Rightarrow> ('t \<Rightarrow> 't run) \<Rightarrow> (nat, 't) imap \<Rightarrow> (nat, 't) imap run" where
  "tg_run i f ts = (case im_get ts i of None \<Rightarrow> Inl Explicit_Panic | Some t \<Rightarrow> rbind (f t) (\<lambda>t'. Inr (im_insert i t' ts)))"

section \<open>State\<close>

definition TICK_INTERVAL :: nat where "TICK_INTERVAL = 1000 * 1000000"

record ('e, 'f) room_audio_mixer =
  rx_room :: room_hash
  rx_mix_channel_id :: nat
  rx_auto_mode :: "('e, nat) imap"
  rx_manual_mode :: "('e, nat) imap"
  rx_manual_channels :: "(nat, nat list) imap"
  rx_publisher :: "('e, 'f) audio_mixer_publisher"
  rx_subscriber1 :: "('e, 'f) audio_mixer_subscriber"
  rx_subscriber2 :: "('e, 'f) audio_mixer_subscriber"
  rx_subscriber3 :: "('e, 'f) audio_mixer_subscriber"
  rx_manuals :: "(nat, ('e, 'f) manual_mixer) imap"
  rx_last_tick :: nat

definition rx_new :: "nat \<Rightarrow> room_hash \<Rightarrow> nat \<Rightarrow> ('e, 'f) room_audio_mixer" where
  "rx_new now room mix_channel_id = \<lparr>rx_room = room, rx_mix_channel_id = mix_channel_id, rx_auto_mode = [], rx_manual_mode = [],
     rx_manual_channels = [], rx_publisher = xp_new mix_channel_id, rx_subscriber1 = xs_new 1 mix_channel_id,
     rx_subscriber2 = xs_new 2 mix_channel_id, rx_subscriber3 = xs_new 3 mix_channel_id, rx_manuals = [], rx_last_tick = now\<rparr>"

section \<open>Calls to the children\<close>

definition rx_pub :: "(('e, 'f) audio_mixer_publisher \<Rightarrow> ('e, 'f) audio_mixer_publisher run) \<Rightarrow> ('e, 'f) room_audio_mixer \<Rightarrow> ('e, 'f) room_audio_mixer run" where
  "rx_pub f s = rbind (f (rx_publisher s)) (\<lambda>p. Inr (s\<lparr>rx_publisher := p\<rparr>))"

definition rx_sub1 :: "(('e, 'f) audio_mixer_subscriber \<Rightarrow> ('e, 'f) audio_mixer_subscriber run) \<Rightarrow> ('e, 'f) room_audio_mixer \<Rightarrow> ('e, 'f) room_audio_mixer run" where
  "rx_sub1 f s = rbind (f (rx_subscriber1 s)) (\<lambda>u. Inr (s\<lparr>rx_subscriber1 := u\<rparr>))"

definition rx_sub2 :: "(('e, 'f) audio_mixer_subscriber \<Rightarrow> ('e, 'f) audio_mixer_subscriber run) \<Rightarrow> ('e, 'f) room_audio_mixer \<Rightarrow> ('e, 'f) room_audio_mixer run" where
  "rx_sub2 f s = rbind (f (rx_subscriber2 s)) (\<lambda>u. Inr (s\<lparr>rx_subscriber2 := u\<rparr>))"

definition rx_sub3 :: "(('e, 'f) audio_mixer_subscriber \<Rightarrow> ('e, 'f) audio_mixer_subscriber run) \<Rightarrow> ('e, 'f) room_audio_mixer \<Rightarrow> ('e, 'f) room_audio_mixer run" where
  "rx_sub3 f s = rbind (f (rx_subscriber3 s)) (\<lambda>u. Inr (s\<lparr>rx_subscriber3 := u\<rparr>))"

definition rx_manual :: "nat \<Rightarrow> (('e, 'f) manual_mixer \<Rightarrow> ('e, 'f) manual_mixer run) \<Rightarrow> ('e, 'f) room_audio_mixer \<Rightarrow> ('e, 'f) room_audio_mixer run" where
  "rx_manual i f s = rbind (tg_run i f (rx_manuals s)) (\<lambda>ms. Inr (s\<lparr>rx_manuals := ms\<rparr>))"

section \<open>Operations\<close>

definition rx_on_tick :: "nat \<Rightarrow> ('e, 'f) room_audio_mixer \<Rightarrow> ('e, 'f) room_audio_mixer run" where
  "rx_on_tick now s =
     (if rx_last_tick s + TICK_INTERVAL \<le> now then
        rbind (rx_pub (xp_on_tick now) (s\<lparr>rx_last_tick := now\<rparr>)) (\<lambda>s1.
        rbind (rx_sub1 (xs_on_tick now) s1) (\<lambda>s2.
        rbind (rx_sub2 (xs_on_tick now) s2) (\<lambda>s3.
        rbind (rx_sub3 (xs_on_tick now) s3) (\<lambda>s4.
        rbind (tg_run_all (xm_on_tick now) (rx_manuals s4)) (\<lambda>ms. Inr (s4\<lparr>rx_manuals := ms\<rparr>))))))
      else Inr s)"

definition rx_on_join ::
  "'f cluster_env \<Rightarrow> nat \<Rightarrow> 'e \<Rightarrow> peer_id \<Rightarrow> audio_mixer_config option \<Rightarrow> ('e, 'f) room_audio_mixer \<Rightarrow> ('e, 'f) room_audio_mixer run" where
  "rx_on_join env new_index endpoint peer cfg s = (case cfg of None \<Rightarrow> Inr s
     | Some cfg \<Rightarrow> (case amc_mode cfg of
         Mixer_Auto \<Rightarrow>
           let n = length (amc_outputs cfg);
               s1 = s\<lparr>rx_auto_mode := im_insert endpoint n (rx_auto_mode s)\<rparr> in
           if n = 1 then rx_sub1 (xs_on_endpoint_join env endpoint peer (amc_outputs cfg)) s1
           else if n = 2 then rx_sub2 (xs_on_endpoint_join env endpoint peer (amc_outputs cfg)) s1
           else if n = 3 then rx_sub3 (xs_on_endpoint_join env endpoint peer (amc_outputs cfg)) s1
           else Inr s1
       | Mixer_Manual \<Rightarrow>
           let s1 = s\<lparr>rx_manuals := im_insert new_index (xm_new (rx_room s) endpoint (amc_outputs cfg)) (rx_manuals s)\<rparr> in
           if im_get (rx_manual_mode s1) endpoint \<noteq> None then Inl Explicit_Panic
           else Inr (s1\<lparr>rx_manual_mode := im_insert endpoint new_index (rx_manual_mode s1)\<rparr>)))"

definition rx_on_control ::
  "'f cluster_env \<Rightarrow> nat \<Rightarrow> 'e \<Rightarrow> cluster_audio_mixer_control \<Rightarrow> ('e, 'f) room_audio_mixer \<Rightarrow> ('e, 'f) room_audio_mixer run" where
  "rx_on_control env now endpoint control s =
     rbind (rexpect (im_get (rx_manual_mode s) endpoint)) (\<lambda>index.
     rx_manual index (xm_on_event env now (case control of Cam_Attach sources \<Rightarrow> Xm_Attach sources | Cam_Detach sources \<Rightarrow> Xm_Detach sources)) s)"

definition rx_on_leave :: "'f cluster_env \<Rightarrow> nat \<Rightarrow> 'e \<Rightarrow> ('e, 'f) room_audio_mixer \<Rightarrow> ('e, 'f) room_audio_mixer run" where
  "rx_on_leave env now endpoint s = (case im_get (rx_auto_mode s) endpoint of
     Some outputs \<Rightarrow>
       let s1 = s\<lparr>rx_auto_mode := im_swap_remove endpoint (rx_auto_mode s)\<rparr> in
       if outputs = 1 then rx_sub1 (xs_on_endpoint_leave endpoint) s1
       else if outputs = 2 then rx_sub2 (xs_on_endpoint_leave endpoint) s1
       else if outputs = 3 then rx_sub3 (xs_on_endpoint_leave endpoint) s1
       else Inr s1
   | None \<Rightarrow> (case im_get (rx_manual_mode s) endpoint of None \<Rightarrow> Inr s
      | Some index \<Rightarrow> rx_manual index (xm_on_event env now Xm_LeaveRoom)
          (s\<lparr>rx_manual_mode := im_swap_remove endpoint (rx_manual_mode s)\<rparr>)))"

definition rx_on_track_publish ::
  "'f cluster_env \<Rightarrow> 'e \<Rightarrow> nat \<Rightarrow> peer_id \<Rightarrow> track_name \<Rightarrow> ('e, 'f) room_audio_mixer \<Rightarrow> ('e, 'f) room_audio_mixer run" where
  "rx_on_track_publish env endpoint track peer name = rx_pub (xp_on_track_publish env endpoint track peer name)"

definition rx_on_track_data ::
  "'f cluster_env \<Rightarrow> nat \<Rightarrow> 'e \<Rightarrow> nat \<Rightarrow> media_packet \<Rightarrow> ('e, 'f) room_audio_mixer \<Rightarrow> ('e, 'f) room_audio_mixer run" where
  "rx_on_track_data env now endpoint track media = rx_pub (xp_on_track_data env now endpoint track media)"

definition rx_on_track_unpublish :: "'e \<Rightarrow> nat \<Rightarrow> ('e, 'f) room_audio_mixer \<Rightarrow> ('e, 'f) room_audio_mixer run" where
  "rx_on_track_unpublish endpoint track = rx_pub (xp_on_track_unpublish endpoint track)"

definition rx_on_pubsub_event ::
  "'f cluster_env \<Rightarrow> nat \<Rightarrow> nat \<Rightarrow> 'f channel_event \<Rightarrow> ('e, 'f) room_audio_mixer \<Rightarrow> ('e, 'f) room_audio_mixer run" where
  "rx_on_pubsub_event env now channel event s = (case event of
     SourceData node data \<Rightarrow>
       if channel = rx_mix_channel_id s then
         rbind (rx_sub1 (xs_on_channel_data env now node data) s) (\<lambda>s1.
         rbind (rx_sub2 (xs_on_channel_data env now node data) s1) (\<lambda>s2.
         rx_sub3 (xs_on_channel_data env now node data) s2))
       else (case im_get (rx_manual_channels s) channel of None \<Rightarrow> Inr s
         | Some tasks \<Rightarrow> rfold (\<lambda>index. rx_manual index (xm_on_event env now (Xm_Pubsub channel node data))) tasks s)
   | _ \<Rightarrow> Inr s)"

definition rx_is_empty :: "('e, 'f) room_audio_mixer \<Rightarrow> bool" where
  "rx_is_empty s \<longleftrightarrow> rx_manual_channels s = [] \<and> rx_manual_mode s = [] \<and> xp_is_empty (rx_publisher s) \<and> xs_is_empty (rx_subscriber1 s) \<and>
     xs_is_empty (rx_subscriber2 s) \<and> xs_is_empty (rx_subscriber3 s) \<and> rx_manuals s = []"

section \<open>Polling\<close>

text \<open>What the room does with an output of the manual mixer \<open>index\<close>: subscriptions are shared.\<close>

definition rx_on_manual_output ::
  "nat \<Rightarrow> ('e, 'f) mt_output \<Rightarrow> ('e, 'f) room_audio_mixer \<Rightarrow> (('e, 'f) room_audio_mixer \<times> ('e, 'f) mt_output option) run" where
  "rx_on_manual_output index out s = (case out of
     Mt_Pubsub channel_id SubAuto \<Rightarrow> (case im_get (rx_manual_channels s) channel_id of
         Some slot \<Rightarrow> Inr (s\<lparr>rx_manual_channels := im_insert channel_id (slot @ [index]) (rx_manual_channels s)\<rparr>, None)
       | None \<Rightarrow> Inr (s\<lparr>rx_manual_channels := im_insert channel_id [index] (rx_manual_channels s)\<rparr>, Some out))
   | Mt_Pubsub channel_id UnsubAuto \<Rightarrow>
       rbind (rexpect (im_get (rx_manual_channels s) channel_id)) (\<lambda>slot.
       rbind (rassert (index \<in> set slot)) (\<lambda>_.
       let slot1 = swap_remove_key (\<lambda>x. x) index slot in
       Inr (if slot1 = [] then (s\<lparr>rx_manual_channels := im_swap_remove channel_id (rx_manual_channels s)\<rparr>, Some out)
            else (s\<lparr>rx_manual_channels := im_insert channel_id slot1 (rx_manual_channels s)\<rparr>, None))))
   | Mt_OnResourceEmpty \<Rightarrow>
       let s1 = s\<lparr>rx_manuals := im_swap_remove index (rx_manuals s)\<rparr> in
       Inr (s1, if rx_is_empty s1 then Some Mt_OnResourceEmpty else None)
   | _ \<Rightarrow> Inr (s, Some out))"

datatype rx_task = Rx_Publisher | Rx_Subscriber1 | Rx_Subscriber2 | Rx_Subscriber3 | Rx_Manual nat

text \<open>One round of the polling loop for the child that the switcher points to. A manual mixer hands
  out the head of its queue.\<close>

definition rx_pop_branch :: "rx_task \<Rightarrow> ('e, 'f) room_audio_mixer \<Rightarrow> (('e, 'f) room_audio_mixer \<times> ('e, 'f) mt_output option) run" where
  "rx_pop_branch task s = (case task of
     Rx_Publisher \<Rightarrow> (case xp_pop_output (rx_publisher s) of (p, x) \<Rightarrow> Inr (s\<lparr>rx_publisher := p\<rparr>, if x = Some Mt_OnResourceEmpty then None else x))
   | Rx_Subscriber1 \<Rightarrow> (case xs_pop_output (rx_subscriber1 s) of (u, x) \<Rightarrow> Inr (s\<lparr>rx_subscriber1 := u\<rparr>, if x = Some Mt_OnResourceEmpty then None else x))
   | Rx_Subscriber2 \<Rightarrow> (case xs_pop_output (rx_subscriber2 s) of (u, x) \<Rightarrow> Inr (s\<lparr>rx_subscriber2 := u\<rparr>, if x = Some Mt_OnResourceEmpty then None else x))
   | Rx_Subscriber3 \<Rightarrow> (case xs_pop_output (rx_subscriber3 s) of (u, x) \<Rightarrow> Inr (s\<lparr>rx_subscriber3 := u\<rparr>, if x = Some Mt_OnResourceEmpty then None else x))
   | Rx_Manual index \<Rightarrow> (case im_get (rx_manuals s) index of None \<Rightarrow> Inr (s, None)
      | Some m \<Rightarrow> (case xm_pop_output m of (m', x) \<Rightarrow>
          let s1 = s\<lparr>rx_manuals := im_insert index m' (rx_manuals s)\<rparr> in
          (case x of None \<Rightarrow> Inr (s1, None) | Some out \<Rightarrow> rx_on_manual_output index out s1))))"

definition rx_drop :: "('e, 'f) room_audio_mixer \<Rightarrow> unit run" where
  "rx_drop s = rbind (rassert (length (rx_manual_channels s) = 0)) (\<lambda>_. rbind (rassert (length (rx_manual_mode s) = 0)) (\<lambda>_.
     rbind (rassert (rx_manuals s = [])) (\<lambda>_. rbind (rassert (xp_is_empty (rx_publisher s))) (\<lambda>_.
     rbind (rassert (xs_is_empty (rx_subscriber1 s))) (\<lambda>_. rbind (rassert (xs_is_empty (rx_subscriber2 s))) (\<lambda>_.
     rassert (xs_is_empty (rx_subscriber3 s))))))))"

section \<open>Shared subscriptions of the manual mixers\<close>

text \<open>A control \<open>(i, c, b)\<close>: the manual mixer \<open>i\<close> subscribes (\<open>b\<close>) or unsubscribes the channel \<open>c\<close>. The
  room's answer is appended to a log.\<close>

type_synonym manual_ctl = "nat \<times> nat \<times> bool"

fun rxm_step :: "manual_ctl \<Rightarrow> ('e, 'f) room_audio_mixer \<times> ('e, 'f) mt_output list \<Rightarrow> (('e, 'f) room_audio_mixer \<times> ('e, 'f) mt_output list) run" where
  "rxm_step (i, c, b) (s, log) = rbind (rx_on_manual_output i (Mt_Pubsub c (if b then SubAuto else UnsubAuto)) s) (\<lambda>(s', x).
     Inr (s', log @ (case x of None \<Rightarrow> [] | Some y \<Rightarrow> [y])))"

definition own_ctls :: "nat \<Rightarrow> manual_ctl list \<Rightarrow> (nat \<times> session_act) list" where
  "own_ctls i xs = map (\<lambda>(_, c, b). (c, if b then Opens else Closes)) (filter (\<lambda>(j, _, _). j = i) xs)"

lemma own_ctls_snoc: "own_ctls i (xs @ [(j, c, b)]) = own_ctls i xs @ (if j = i then [(c, if b then Opens else Closes)] else [])"
  by (simp add: own_ctls_def)

lemma sessions_prefix: "sessions A (xs @ ys) \<noteq> None \<Longrightarrow> sessions A xs \<noteq> None"
  by (auto simp: sessions_append split: option.splits)

lemma rxm_subscribe:
  assumes "st_wf (rx_manual_channels s)" "\<not> st_mem (rx_manual_channels s) c i"
  shows "\<exists>s' os. rxm_step (i, c, True) (s, log) = Inr (s', log @ os) \<and> rx_manual_channels s' = st_add c i (rx_manual_channels s) \<and>
     mt_ctls sub_act os = (if c \<in> fst ` set (rx_manual_channels s) then [] else [(c, Opens)])"
proof (cases "im_get (rx_manual_channels s) c")
  case None
  then show ?thesis using im_get_None_key [OF None]
    by (simp add: rx_on_manual_output_def st_add_def is_insert_def)
next
  case (Some xs)
  then have "i \<notin> set xs" using assms(2) by (simp add: st_mem_def)
  then show ?thesis using Some im_get_Some_key [OF Some]
    by (simp add: rx_on_manual_output_def st_add_def is_insert_def)
qed

lemma rxm_unsubscribe:
  assumes "st_wf (rx_manual_channels s)" "st_mem (rx_manual_channels s) c i"
  shows "\<exists>s' os. rxm_step (i, c, False) (s, log) = Inr (s', log @ os) \<and> rx_manual_channels s' = st_del c i (rx_manual_channels s) \<and>
     mt_ctls sub_act os = (if c \<in> fst ` set (st_del c i (rx_manual_channels s)) then [] else [(c, Closes)])"
proof -
  obtain xs where xs: "im_get (rx_manual_channels s) c = Some xs" "i \<in> set xs"
    using assms(2) by (auto simp: st_mem_def split: option.splits)
  have "im_wf (rx_manual_channels s)" using assms(1) by (simp add: st_wf_def)
  then show ?thesis using xs
    by (cases "swap_remove_key (\<lambda>x. x) i xs = []")
      (simp_all add: rx_on_manual_output_def st_del_def is_swap_remove_def Let_def im_keys_insert im_keys_swap_remove)
qed

lemma sessions_st_del:
  assumes "st_wf m" "st_mem m k x"
  shows "sessions (fst ` set m) (if k \<in> fst ` set (st_del k x m) then [] else [(k, Closes)]) = Some (fst ` set (st_del k x m))"
proof -
  define K L where "K = fst ` set m" and "L = fst ` set (st_del k x m)"
  have "L = K - (if k \<in> L then {} else {k})" "k \<in> K" using st_del_keys [OF assms] by (simp_all only: K_def L_def)
  then have "sessions K (if k \<in> L then [] else [(k, Closes)]) = Some L" by (cases "k \<in> L") auto
  then show ?thesis by (simp only: K_def L_def)
qed

lemma st_keys_members: "st_wf m \<Longrightarrow> fst ` set m = {k. \<exists>x. st_mem m k x}"
  by (intro set_eqI) (simp only: st_keys mem_Collect_eq)

definition ctl_act :: "bool \<Rightarrow> session_act" where
  "ctl_act b = (if b then Opens else Closes)"

lemma rxm_step_ok:
  assumes wf: "st_wf (rx_manual_channels s)" and own: "sessions {d. st_mem (rx_manual_channels s) d i} [(c, ctl_act b)] \<noteq> None"
  shows "\<exists>s' os. rxm_step (i, c, b) (s, log) = Inr (s', log @ os) \<and> st_wf (rx_manual_channels s') \<and>
     sessions (fst ` set (rx_manual_channels s)) (mt_ctls sub_act os) = Some (fst ` set (rx_manual_channels s')) \<and>
     (\<forall>j. sessions {d. st_mem (rx_manual_channels s) d j} (if j = i then [(c, ctl_act b)] else []) = Some {d. st_mem (rx_manual_channels s') d j})"
proof (cases b)
  case True
  then have n: "\<not> st_mem (rx_manual_channels s) c i" using own by (simp add: ctl_act_def split: if_splits)
  obtain s' os where s': "rxm_step (i, c, True) (s, log) = Inr (s', log @ os)" "rx_manual_channels s' = st_add c i (rx_manual_channels s)"
      "mt_ctls sub_act os = (if c \<in> fst ` set (rx_manual_channels s) then [] else [(c, Opens)])"
    using rxm_subscribe [OF wf n, of log] by blast
  have "sessions (fst ` set (rx_manual_channels s)) (mt_ctls sub_act os) = Some (fst ` set (rx_manual_channels s'))"
    unfolding s'(2,3) st_keys_add by (simp add: insert_absorb del: image_iff)
  moreover have "\<forall>j. sessions {d. st_mem (rx_manual_channels s) d j} (if j = i then [(c, ctl_act b)] else []) = Some {d. st_mem (rx_manual_channels s') d j}"
    using True n by (auto simp: s'(2) st_mem_add ctl_act_def)
  ultimately show ?thesis using s'(1,2) True st_wf_add [OF wf] by (intro exI [of _ s'] exI [of _ os]) simp
next
  case False
  then have m: "st_mem (rx_manual_channels s) c i" using own by (simp add: ctl_act_def split: if_splits)
  obtain s' os where s': "rxm_step (i, c, False) (s, log) = Inr (s', log @ os)" "rx_manual_channels s' = st_del c i (rx_manual_channels s)"
      "mt_ctls sub_act os = (if c \<in> fst ` set (st_del c i (rx_manual_channels s)) then [] else [(c, Closes)])"
    using rxm_unsubscribe [OF wf m, of log] by blast
  have "sessions (fst ` set (rx_manual_channels s)) (mt_ctls sub_act os) = Some (fst ` set (rx_manual_channels s'))"
    unfolding s'(2,3) by (rule sessions_st_del [OF wf m])
  moreover have "\<forall>j. sessions {d. st_mem (rx_manual_channels s) d j} (if j = i then [(c, ctl_act b)] else []) = Some {d. st_mem (rx_manual_channels s') d j}"
    using False m by (auto simp: s'(2) st_mem_del [OF wf] ctl_act_def)
  ultimately show ?thesis using s'(1,2) False st_wf_del [OF wf] by (intro exI [of _ s'] exI [of _ os]) simp
qed

lemma rxm_run:
  assumes "\<And>i. sessions {} (own_ctls i xs) \<noteq> None" and "rx_manual_channels s0 = []"
  shows "\<exists>s log. rfold rxm_step xs (s0, []) = Inr (s, log) \<and> st_wf (rx_manual_channels s) \<and>
     sessions {} (mt_ctls sub_act log) = Some (fst ` set (rx_manual_channels s)) \<and>
     (\<forall>i. sessions {} (own_ctls i xs) = Some {c. st_mem (rx_manual_channels s) c i})"
  using assms(1)
proof (induction xs rule: rev_induct)
  case Nil
  then show ?case using assms(2) by (simp add: st_wf_def st_mem_def own_ctls_def)
next
  case (snoc x xs)
  obtain i c b where x: "x = (i, c, b)" by (cases x)
  have "sessions {} (own_ctls j xs) \<noteq> None" for j
    using snoc.prems [of j] unfolding x own_ctls_snoc by (rule sessions_prefix)
  from snoc.IH [OF this] obtain s log where s: "rfold rxm_step xs (s0, []) = Inr (s, log)"
      "st_wf (rx_manual_channels s)" "sessions {} (mt_ctls sub_act log) = Some (fst ` set (rx_manual_channels s))"
      "\<forall>i. sessions {} (own_ctls i xs) = Some {c. st_mem (rx_manual_channels s) c i}" by blast
  have own: "sessions {} (own_ctls j (xs @ [x])) = sessions {d. st_mem (rx_manual_channels s) d j} (if j = i then [(c, ctl_act b)] else [])" for j
    using s(4) by (simp add: x own_ctls_snoc sessions_append ctl_act_def)
  then have "sessions {d. st_mem (rx_manual_channels s) d i} [(c, ctl_act b)] \<noteq> None" using snoc.prems [of i] by simp
  from rxm_step_ok [OF s(2) this, of log] obtain s' os where "rxm_step (i, c, b) (s, log) = Inr (s', log @ os)"
      "st_wf (rx_manual_channels s')" "sessions (fst ` set (rx_manual_channels s)) (mt_ctls sub_act os) = Some (fst ` set (rx_manual_channels s'))"
      "\<forall>j. sessions {d. st_mem (rx_manual_channels s) d j} (if j = i then [(c, ctl_act b)] else []) = Some {d. st_mem (rx_manual_channels s') d j}"
    by (elim exE conjE) (rule that; assumption)
  then show ?case using s(1,3) own x
    by (intro exI [of _ s'] exI [of _ "log @ os"]) (simp add: rfold_append sessions_append del: rxm_step.simps)
qed

text \<open>
  The room shares the subscriptions of its manual mixers. If every manual mixer by itself
  subscribes and unsubscribes its channels properly, then in whatever order their controls come,
  the room does not panic, forwards to the network a proper series of sessions, and is
  subscribed at the end to exactly the channels that some mixer is subscribed to.
\<close>
theorem rx_manual_sharing:
  assumes "\<And>i. sessions {} (own_ctls i xs) \<noteq> None"
  shows "\<exists>s log. rfold rxm_step xs (rx_new now room mix :: ('e, 'f) room_audio_mixer, []) = Inr (s, log) \<and>
     sessions {} (mt_ctls sub_act log) = Some (\<Union>i. the (sessions {} (own_ctls i xs)))"
proof -
  from rxm_run [OF assms, of "rx_new now room mix :: ('e, 'f) room_audio_mixer"] obtain s log
    where s: "rfold rxm_step xs (rx_new now room mix :: ('e, 'f) room_audio_mixer, []) = Inr (s, log)" "st_wf (rx_manual_channels s)"
      "sessions {} (mt_ctls sub_act log) = Some (fst ` set (rx_manual_channels s))"
      and own: "\<And>i. sessions {} (own_ctls i xs) = Some {c. st_mem (rx_manual_channels s) c i}"
    by (simp add: rx_new_def) blast
  have "fst ` set (rx_manual_channels s) = (\<Union>i. the (sessions {} (own_ctls i xs)))"
    unfolding own st_keys_members [OF s(2)] by auto
  then show ?thesis using s(1,3) by (intro exI [of _ s] exI [of _ log] conjI) simp_all
qed

theorem rx_manual_sharing_witness:
  "\<exists>s log. rfold rxm_step [(0, 7, True), (1, 7, True), (0, 7, False)] (rx_new 0 3 5 :: (nat, nat) room_audio_mixer, []) = Inr (s, log) \<and>
     sessions {} (mt_ctls sub_act log) = Some (\<Union>i. the (sessions {} (own_ctls i [(0, 7, True), (1, 7, True), (0, 7, False)])))"
  by (rule rx_manual_sharing) (simp add: own_ctls_def)

text \<open>
  The automatic subscribers do not share the mix channel. Two endpoints that join with one
  and with two outputs make the room subscribe the same channel twice, and when the first of them
  leaves, the room unsubscribes the channel although the other endpoint still listens to it.
\<close>
theorem rx_mix_channel_closed_early:
  assumes "e1 \<noteq> e2"
  shows "\<exists>s s'. rbind (rx_on_join env i e1 p1 (Some \<lparr>amc_mode = Mixer_Auto, amc_outputs = [t], amc_sources = []\<rparr>) (rx_new now room c))
        (rx_on_join env j e2 p2 (Some \<lparr>amc_mode = Mixer_Auto, amc_outputs = [u, v], amc_sources = []\<rparr>)) = Inr s \<and>
     rx_on_leave env now e1 s = Inr s' \<and>
     xs_queue (rx_subscriber1 s') = [Mt_Pubsub c SubAuto, Mt_Pubsub c UnsubAuto] \<and>
     xs_queue (rx_subscriber2 s') = [Mt_Pubsub c SubAuto] \<and> im_contains (xs_endpoints (rx_subscriber2 s')) e2"
  using assms
  by (simp add: rx_on_join_def rx_new_def rx_sub1_def rx_sub2_def xs_on_endpoint_join_def xs_new_def xs_push_def Let_def im_contains_def
      rx_on_leave_def xs_on_endpoint_leave_def im_get_def im_swap_remove_def xs_restore_def List.map_filter_def numeral_2_eq_2)

theorem rx_mix_channel_closed_early_witness:
  "\<exists>s s'. rbind (rx_on_join demo_env 0 (1::nat) ''alice'' (Some \<lparr>amc_mode = Mixer_Auto, amc_outputs = [4], amc_sources = []\<rparr>) (rx_new 0 3 5))
        (rx_on_join demo_env 0 2 ''bob'' (Some \<lparr>amc_mode = Mixer_Auto, amc_outputs = [4, 6], amc_sources = []\<rparr>)) = Inr s \<and>
     rx_on_leave demo_env 0 1 s = Inr s' \<and> xs_queue (rx_subscriber1 s') = [Mt_Pubsub 5 SubAuto, Mt_Pubsub 5 UnsubAuto]"
  using rx_mix_channel_closed_early [of "1::nat" 2 demo_env 0 "''alice''" 4 0 3 5 0 "''bob''" 4 6] by auto

section \<open>Invariant\<close>

text \<open>The three subscribers, by their number of outputs.\<close>

definition rx_subscriber :: "nat \<Rightarrow> ('e, 'f) room_audio_mixer \<Rightarrow> ('e, 'f) audio_mixer_subscriber" where
  "rx_subscriber n s = (if n = 1 then rx_subscriber1 s else if n = 2 then rx_subscriber2 s else rx_subscriber3 s)"

definition rx_put :: "nat \<Rightarrow> ('e, 'f) audio_mixer_subscriber \<Rightarrow> ('e, 'f) room_audio_mixer \<Rightarrow> ('e, 'f) room_audio_mixer" where
  "rx_put n u s = (if n = 1 then s\<lparr>rx_subscriber1 := u\<rparr> else if n = 2 then s\<lparr>rx_subscriber2 := u\<rparr> else s\<lparr>rx_subscriber3 := u\<rparr>)"

definition rx_sub :: "nat \<Rightarrow> (('e, 'f) audio_mixer_subscriber \<Rightarrow> ('e, 'f) audio_mixer_subscriber run) \<Rightarrow> ('e, 'f) room_audio_mixer \<Rightarrow> ('e, 'f) room_audio_mixer run" where
  "rx_sub n f s = rbind (f (rx_subscriber n s)) (\<lambda>u. Inr (rx_put n u s))"

lemma rx_sub_simps: "rx_sub1 = rx_sub 1" "rx_sub2 = rx_sub 2" "rx_sub3 = rx_sub 3"
  by (simp_all add: fun_eq_iff rx_sub_def rx_sub1_def rx_sub2_def rx_sub3_def rx_subscriber_def rx_put_def)

lemma rx_put_frame [simp]:
  "rx_manuals (rx_put n u s) = rx_manuals s" "rx_manual_mode (rx_put n u s) = rx_manual_mode s" "rx_auto_mode (rx_put n u s) = rx_auto_mode s"
  "rx_manual_channels (rx_put n u s) = rx_manual_channels s" "rx_publisher (rx_put n u s) = rx_publisher s"
  by (simp_all add: rx_put_def)

lemma rx_subscriber_put: "n \<in> {1, 2, 3} \<Longrightarrow> k \<in> {1, 2, 3} \<Longrightarrow> rx_subscriber k (rx_put n u s) = (if k = n then u else rx_subscriber k s)"
  by (auto simp: rx_subscriber_def rx_put_def)

lemma rx_subscriber_frame [simp]:
  "rx_subscriber n (s\<lparr>rx_auto_mode := a\<rparr>) = rx_subscriber n s" "rx_subscriber n (s\<lparr>rx_manuals := b\<rparr>) = rx_subscriber n s"
  "rx_subscriber n (s\<lparr>rx_manual_mode := c\<rparr>) = rx_subscriber n s" "rx_subscriber n (s\<lparr>rx_manual_channels := d\<rparr>) = rx_subscriber n s"
  "rx_subscriber n (s\<lparr>rx_publisher := p\<rparr>) = rx_subscriber n s" "rx_subscriber n (s\<lparr>rx_last_tick := t\<rparr>) = rx_subscriber n s"
  by (simp_all add: rx_subscriber_def)

text \<open>The endpoints in automatic mode are with the subscriber of their number of outputs.\<close>

definition rx_auto_ok :: "('e, 'f) room_audio_mixer \<Rightarrow> bool" where
  "rx_auto_ok s \<longleftrightarrow> im_wf (rx_auto_mode s) \<and> (\<forall>n\<in>{1, 2, 3}. xs_wf n (rx_subscriber n s) \<and>
     (\<forall>e. im_contains (xs_endpoints (rx_subscriber n s)) e \<longleftrightarrow> im_get (rx_auto_mode s) e = Some n))"

text \<open>A manual mixer, the channels that the room holds for it, and the controls it still has queued.\<close>

definition rx_task_ok :: "(nat, nat list) imap \<Rightarrow> nat \<Rightarrow> ('e, 'f) manual_mixer \<Rightarrow> bool" where
  "rx_task_ok ch i m \<longleftrightarrow> xm_wf m \<and> Mt_OnResourceEmpty \<notin> set (xm_queue m) \<and> sessions {c. st_mem ch c i} (mt_ctls sub_act (xm_queue m)) = Some (xm_held m)"

definition rx_manual_ok :: "('e, nat) imap \<Rightarrow> (nat, ('e, 'f) manual_mixer) imap \<Rightarrow> (nat, nat list) imap \<Rightarrow> bool" where
  "rx_manual_ok mode ms ch \<longleftrightarrow> im_wf mode \<and> im_wf ms \<and> st_wf ch \<and> (\<forall>e i. im_get mode e = Some i \<longrightarrow> im_get ms i \<noteq> None) \<and>
     (\<forall>i. case im_get ms i of None \<Rightarrow> \<forall>c. \<not> st_mem ch c i | Some m \<Rightarrow> rx_task_ok ch i m)"

definition rx_wf :: "('e, 'f) room_audio_mixer \<Rightarrow> bool" where
  "rx_wf s \<longleftrightarrow> xp_wf (rx_publisher s) \<and> rx_auto_ok s \<and> rx_manual_ok (rx_manual_mode s) (rx_manuals s) (rx_manual_channels s)"

text \<open>An endpoint joins a mixer mode once. A new manual mixer gets an index that is not in use, and some outputs.\<close>

definition rx_may_join :: "nat \<Rightarrow> 'e \<Rightarrow> audio_mixer_config option \<Rightarrow> ('e, 'f) room_audio_mixer \<Rightarrow> bool" where
  "rx_may_join new_index e cfg s = (case cfg of None \<Rightarrow> True
     | Some cfg \<Rightarrow> (case amc_mode cfg of
         Mixer_Auto \<Rightarrow> im_get (rx_auto_mode s) e = None
       | Mixer_Manual \<Rightarrow> im_get (rx_manual_mode s) e = None \<and> im_get (rx_manuals s) new_index = None \<and>
           amc_outputs cfg \<noteq> [] \<and> length (amc_outputs cfg) < 2 ^ 64))"

lemma xs_new_endpoints [simp]: "xs_endpoints (xs_new n c) = []"
  by (simp add: xs_new_def)

lemma rx_wf_new: "rx_wf (rx_new now room c)"
  by (auto simp: rx_wf_def rx_new_def rx_auto_ok_def rx_manual_ok_def rx_subscriber_def xp_wf_new xs_wf_new [where n = 1, simplified] xs_wf_new
      im_contains_def st_mem_def st_wf_def)

lemma rx_pub_wf:
  assumes wf: "rx_wf s" and adm: "xp_admits x (rx_publisher s)"
  shows "\<exists>s'. rx_pub (xp_step env x) s = Inr s' \<and> rx_wf s'"
proof -
  obtain p where "xp_step env x (rx_publisher s) = Inr p" "xp_wf p"
    using xp_step_sessions [OF _ adm, of env] wf by (auto simp: rx_wf_def)
  then show ?thesis using wf by (auto simp: rx_pub_def rx_wf_def rx_auto_ok_def)
qed

lemma rx_put_wf:
  assumes wf: "rx_wf s" and n: "n \<in> {1, 2, 3}" and u: "xs_wf n u" and aut: "im_wf aut"
    and e: "\<And>e. im_contains (xs_endpoints u) e \<longleftrightarrow> im_get aut e = Some n"
    and rest: "\<And>k e. k \<noteq> n \<Longrightarrow> im_get aut e = Some k \<longleftrightarrow> im_get (rx_auto_mode s) e = Some k"
  shows "rx_wf (rx_put n u (s\<lparr>rx_auto_mode := aut\<rparr>))"
proof -
  have "rx_subscriber k (rx_put n u (s\<lparr>rx_auto_mode := aut\<rparr>)) = (if k = n then u else rx_subscriber k s)" if "k \<in> {1, 2, 3}" for k
    using rx_subscriber_put [OF n that, of u "s\<lparr>rx_auto_mode := aut\<rparr>"] by simp
  then show ?thesis using wf u aut e rest n unfolding rx_wf_def rx_auto_ok_def by auto
qed

text \<open>Ticks and packets keep the endpoints of a subscriber.\<close>

lemma xs_quiet_step:
  assumes wf: "xs_wf n s" and x: "x = Xs_Tick now \<or> x = Xs_Data now nd d"
  shows "\<exists>u. xs_step env x s = Inr u \<and> xs_wf n u \<and> xs_endpoints u = xs_endpoints s"
proof (cases "x = Xs_Tick now")
  case True
  then show ?thesis using xs_on_tick_ok [OF wf, of now] by (auto simp: xs_quiet_def)
next
  case False
  then have x: "x = Xs_Data now nd d" using x by simp
  show ?thesis
  proof (cases "xs_endpoints s = [] \<or> env_mixer_de env d = None")
    case True
    then have "xs_on_channel_data env now nd d s = Inr s" by (auto simp: xs_on_channel_data_def)
    then show ?thesis using wf x by simp
  next
    case False
    then obtain audio where "env_mixer_de env d = Some audio" "xs_endpoints s \<noteq> []" by auto
    then show ?thesis using xs_on_channel_data_ok [OF wf, of env d audio now nd] x by (auto simp: xs_quiet_def)
  qed
qed

lemma rx_sub_quiet:
  assumes wf: "rx_wf s" and n: "n \<in> {1, 2, 3}" and x: "x = Xs_Tick now \<or> x = Xs_Data now nd d"
  shows "\<exists>s'. rx_sub n (xs_step env x) s = Inr s' \<and> rx_wf s'"
proof -
  have "xs_wf n (rx_subscriber n s)" using wf n unfolding rx_wf_def rx_auto_ok_def by blast
  from xs_quiet_step [OF this x, of env]
  obtain u where u: "xs_step env x (rx_subscriber n s) = Inr u" "xs_wf n u" "xs_endpoints u = xs_endpoints (rx_subscriber n s)" by blast
  have "rx_wf (rx_put n u (s\<lparr>rx_auto_mode := rx_auto_mode s\<rparr>))"
  proof (rule rx_put_wf [OF wf n u(2)])
    show "im_wf (rx_auto_mode s)" using wf by (simp add: rx_wf_def rx_auto_ok_def)
    show "im_contains (xs_endpoints u) e \<longleftrightarrow> im_get (rx_auto_mode s) e = Some n" for e
      using wf n u(3) unfolding rx_wf_def rx_auto_ok_def by metis
  qed simp
  then show ?thesis using u(1) by (auto simp: rx_sub_def)
qed

text \<open>Joining and leaving in automatic mode.\<close>

lemma rx_sub_join:
  assumes wf: "rx_wf s" and n: "n \<in> {1, 2, 3}" and e: "im_get (rx_auto_mode s) e = None" and ts: "length ts = n"
  shows "\<exists>s'. rx_sub n (xs_on_endpoint_join env e p ts) (s\<lparr>rx_auto_mode := im_insert e n (rx_auto_mode s)\<rparr>) = Inr s' \<and> rx_wf s'"
proof -
  have u: "xs_wf n (rx_subscriber n s)" "\<And>d. im_contains (xs_endpoints (rx_subscriber n s)) d \<longleftrightarrow> im_get (rx_auto_mode s) d = Some n"
      "im_wf (rx_auto_mode s)" using wf n unfolding rx_wf_def rx_auto_ok_def by blast+
  have adm: "xs_admits n (Xs_Join e p ts) (rx_subscriber n s)" using u(2) [of e] e ts by simp
  obtain v where v: "xs_on_endpoint_join env e p ts (rx_subscriber n s) = Inr v" "xs_wf n v"
    using xs_step_sessions [OF u(1) adm, of env] by auto
  have "\<exists>sl. xs_endpoints v = im_insert e sl (xs_endpoints (rx_subscriber n s))"
    using v(1) by (auto simp: xs_on_endpoint_join_def Let_def rbind_eq_Inr split: if_splits)
  then have "im_contains (xs_endpoints v) d \<longleftrightarrow> d = e \<or> im_contains (xs_endpoints (rx_subscriber n s)) d" for d
    by (auto simp: im_contains_def im_get_insert)
  then have "rx_wf (rx_put n v (s\<lparr>rx_auto_mode := im_insert e n (rx_auto_mode s)\<rparr>))"
    using u e by (intro rx_put_wf [OF wf n v(2)]) (auto simp: list_upd)
  then show ?thesis using v(1) by (auto simp: rx_sub_def)
qed

lemma rx_sub_leave:
  assumes wf: "rx_wf s" and n: "n \<in> {1, 2, 3}" and e: "im_get (rx_auto_mode s) e = Some n"
  shows "\<exists>s'. rx_sub n (xs_on_endpoint_leave e) (s\<lparr>rx_auto_mode := im_swap_remove e (rx_auto_mode s)\<rparr>) = Inr s' \<and> rx_wf s'"
proof -
  have u: "xs_wf n (rx_subscriber n s)" "\<And>d. im_contains (xs_endpoints (rx_subscriber n s)) d \<longleftrightarrow> im_get (rx_auto_mode s) d = Some n"
      "im_wf (rx_auto_mode s)" using wf n unfolding rx_wf_def rx_auto_ok_def by blast+
  have adm: "xs_admits n (Xs_Leave e) (rx_subscriber n s)" using u(2) [of e] e by simp
  obtain v where v: "xs_on_endpoint_leave e (rx_subscriber n s) = Inr v" "xs_wf n v"
    using xs_step_sessions [OF u(1) adm, of undefined] by auto
  have "xs_endpoints v = im_swap_remove e (xs_endpoints (rx_subscriber n s))"
    using v(1) by (auto simp: xs_on_endpoint_leave_def Let_def rbind_eq_Inr split: if_splits)
  then have "im_contains (xs_endpoints v) d \<longleftrightarrow> d \<noteq> e \<and> im_contains (xs_endpoints (rx_subscriber n s)) d" for d
    using u(1) by (simp add: im_contains_def im_get_swap_remove xs_wf_def)
  then have "rx_wf (rx_put n v (s\<lparr>rx_auto_mode := im_swap_remove e (rx_auto_mode s)\<rparr>))"
    using u e by (intro rx_put_wf [OF wf n v(2)]) (auto simp: list_upd)
  then show ?thesis using v(1) by (auto simp: rx_sub_def)
qed

text \<open>Modes without a subscriber of their own are only remembered.\<close>

lemma rx_auto_other:
  assumes "rx_wf s" "im_wf aut" "\<And>n e. n \<in> {1, 2, 3} \<Longrightarrow> im_get aut e = Some n \<longleftrightarrow> im_get (rx_auto_mode s) e = Some n"
  shows "rx_wf (s\<lparr>rx_auto_mode := aut\<rparr>)"
  using assms unfolding rx_wf_def rx_auto_ok_def by auto

lemma rx_manual_upd:
  assumes "rx_wf s" "rx_manual_ok mode ms ch"
  shows "rx_wf (s\<lparr>rx_manual_mode := mode, rx_manuals := ms, rx_manual_channels := ch\<rparr>)"
  using assms unfolding rx_wf_def rx_auto_ok_def by auto

text \<open>An event for one manual mixer.\<close>

lemma xm_fold_never_empty:
  "(Mt_OnResourceEmpty \<in> set (xm_queue (fold (xm_attach env) srcs m)) \<longrightarrow> Mt_OnResourceEmpty \<in> set (xm_queue m)) \<and>
   (Mt_OnResourceEmpty \<in> set (xm_queue (fold (xm_detach env) srcs m)) \<longrightarrow> Mt_OnResourceEmpty \<in> set (xm_queue m))"
proof (induction srcs arbitrary: m)
  case (Cons x xs)
  have "Mt_OnResourceEmpty \<in> set (xm_queue (xm_attach env x m)) \<Longrightarrow> Mt_OnResourceEmpty \<in> set (xm_queue m)"
    by (simp add: xm_attach_def xm_push_def Let_def split: if_splits)
  moreover have "Mt_OnResourceEmpty \<in> set (xm_queue (xm_detach env x m)) \<Longrightarrow> Mt_OnResourceEmpty \<in> set (xm_queue m)"
    by (simp add: xm_detach_def xm_push_def Let_def split: if_splits)
  ultimately show ?case using Cons.IH [of "xm_attach env x m"] Cons.IH [of "xm_detach env x m"] by simp
qed simp

lemma xm_sends_never_empty: "xm_sends c pkt s s' \<Longrightarrow> Mt_OnResourceEmpty \<in> set (xm_queue s') \<Longrightarrow> Mt_OnResourceEmpty \<in> set (xm_queue s)"
  by (auto simp: xm_sends_def)

lemma xm_step_never_empty:
  assumes wf: "xm_wf m" and adm: "xm_admits x m" and step: "xm_step env x m = Inr m'" and e: "Mt_OnResourceEmpty \<in> set (xm_queue m')"
  shows "Mt_OnResourceEmpty \<in> set (xm_queue m)"
proof (cases x)
  case (Xm_Tick now)
  then show ?thesis using step e by (auto simp: xm_on_tick_def xm_push_def Let_def run_simps split: option.splits)
next
  case (Xm_Event now inp)
  show ?thesis
  proof (cases inp)
    case (Xm_Pubsub c nd d)
    then obtain src where src: "im_get (xm_sources m) c = Some src" using adm Xm_Event by (auto simp: im_contains_get)
    show ?thesis
    proof (cases "env_media_de env d")
      case (Some pkt)
      then show ?thesis using xm_on_source_pkt_ok [OF wf src, of now pkt] xm_sends_never_empty [of c pkt m m'] step e Xm_Event Xm_Pubsub
        by (auto simp: xm_on_event_def)
    qed (use step e Xm_Event Xm_Pubsub in \<open>simp add: xm_on_event_def\<close>)
  qed (use step e Xm_Event xm_fold_never_empty [of env _ m] in \<open>auto simp: xm_on_event_def xm_push_def\<close>)
qed

lemma xm_step_event: "xm_step env (Xm_Event now x) = xm_on_event env now x"
  by (rule ext) simp

lemma rx_task_step:
  assumes "rx_task_ok ch i m" "xm_admits x m"
  shows "\<exists>m'. xm_step env x m = Inr m' \<and> rx_task_ok ch i m'"
proof -
  have wf: "xm_wf m" using assms(1) by (simp add: rx_task_ok_def)
  obtain m' cs where "xm_step env x m = Inr m'" "xm_wf m'" "mt_ctls sub_act (xm_queue m') = mt_ctls sub_act (xm_queue m) @ cs"
      "sessions (xm_held m) cs = Some (xm_held m')" using xm_step_sessions [OF wf assms(2), of env] by blast
  then show ?thesis using assms(1) xm_step_never_empty [OF wf assms(2), of env m'] by (auto simp: rx_task_ok_def sessions_append)
qed

lemma rx_manual_wf:
  assumes wf: "rx_wf s" and m: "im_get (rx_manuals s) i = Some m" and adm: "xm_admits x m"
  shows "\<exists>m'. rx_manual i (xm_step env x) s = Inr (s\<lparr>rx_manuals := im_insert i m' (rx_manuals s)\<rparr>) \<and>
     rx_wf (s\<lparr>rx_manuals := im_insert i m' (rx_manuals s)\<rparr>) \<and> xm_step env x m = Inr m'"
proof -
  have ok: "rx_manual_ok (rx_manual_mode s) (rx_manuals s) (rx_manual_channels s)" using wf by (simp add: rx_wf_def)
  then have "rx_task_ok (rx_manual_channels s) i m" using m unfolding rx_manual_ok_def by (metis option.simps(5))
  from rx_task_step [OF this adm, of env] obtain m' where m': "xm_step env x m = Inr m'" "rx_task_ok (rx_manual_channels s) i m'" by blast
  have "rx_manual_ok (rx_manual_mode s) (im_insert i m' (rx_manuals s)) (rx_manual_channels s)"
    using ok m m'(2) unfolding rx_manual_ok_def by (auto simp: list_upd)
  from rx_manual_upd [OF wf this] show ?thesis using m m'(1) by (auto simp: rx_manual_def tg_run_def)
qed

lemma tg_run_all_ok:
  assumes "\<And>i t. (i, t) \<in> set ts \<Longrightarrow> \<exists>t'. f t = Inr t' \<and> Q i t'"
  shows "\<exists>ts'. tg_run_all f ts = Inr ts' \<and> map fst ts' = map fst ts \<and> (\<forall>(i, t)\<in>set ts'. Q i t)"
  using assms
proof (induction ts)
  case (Cons x ts)
  obtain i t where x: "x = (i, t)" by (cases x)
  obtain t' where t': "f t = Inr t'" "Q i t'" using Cons.prems [of i t] x by auto
  obtain ts' where "tg_run_all f ts = Inr ts'" "map fst ts' = map fst ts" "\<forall>(i, t)\<in>set ts'. Q i t"
    using Cons.IH Cons.prems by (meson list.set_intros(2))
  then show ?case using x t' by auto
qed simp

lemma rx_manual_ok_run:
  assumes ok: "rx_manual_ok mode ms ch" and keys: "map fst ms' = map fst ms" and task: "\<forall>(i, m)\<in>set ms'. rx_task_ok ch i m"
  shows "rx_manual_ok mode ms' ch"
proof -
  have "fst ` set ms' = fst ` set ms" using keys by (metis list.set_map)
  then have k: "im_get ms' i = None \<longleftrightarrow> im_get ms i = None" for i unfolding im_get_None_iff by simp
  have wf: "im_wf ms'" using ok keys by (simp add: rx_manual_ok_def im_wf_def)
  have "case im_get ms' i of None \<Rightarrow> \<forall>c. \<not> st_mem ch c i | Some m \<Rightarrow> rx_task_ok ch i m" for i
  proof (cases "im_get ms' i")
    case None
    then show ?thesis using ok k [of i] unfolding rx_manual_ok_def by (metis option.simps(4))
  next
    case (Some m)
    then show ?thesis using task im_get_eq_Some [OF wf, of i m] by auto
  qed
  then show ?thesis using ok wf k unfolding rx_manual_ok_def by auto
qed

lemma rx_manual_tasks:
  assumes "rx_manual_ok mode ms ch" "(i, m) \<in> set ms"
  shows "rx_task_ok ch i m"
proof -
  have "im_get ms i = Some m" using assms im_get_eq_Some [of ms i m] by (simp add: rx_manual_ok_def)
  then show ?thesis using assms(1) unfolding rx_manual_ok_def by (metis option.simps(5))
qed

text \<open>One call after the other, each of which keeps the invariant.\<close>

lemma rbind_keeps: "\<exists>s. m = Inr s \<and> P s \<Longrightarrow> (\<And>s. P s \<Longrightarrow> \<exists>s'. f s = Inr s' \<and> Q s') \<Longrightarrow> \<exists>s'. rbind m f = Inr s' \<and> Q s'"
  by auto

lemma rx_on_tick_wf:
  assumes "rx_wf s"
  shows "\<exists>s'. rx_on_tick now s = Inr s' \<and> rx_wf s'"
proof (cases "rx_last_tick s + TICK_INTERVAL \<le> now")
  case True
  have s0: "rx_wf (s\<lparr>rx_last_tick := now\<rparr>)" using assms by (simp add: rx_wf_def rx_auto_ok_def)
  have pub: "\<exists>s'. rx_pub (xp_on_tick now) (s\<lparr>rx_last_tick := now\<rparr>) = Inr s' \<and> rx_wf s'"
    using rx_pub_wf [OF s0, of "Xp_Tick now" undefined] by (simp add: rx_pub_def)
  have sub: "\<exists>s'. rx_sub n (xs_on_tick now) t = Inr s' \<and> rx_wf s'" if "rx_wf t" "n \<in> {1, 2, 3}" for n and t :: "('a, 'b) room_audio_mixer"
    using rx_sub_quiet [OF that, of "Xs_Tick now" now undefined undefined undefined] by (simp add: rx_sub_def)
  have man: "\<exists>s'. rbind (tg_run_all (xm_on_tick now) (rx_manuals t)) (\<lambda>ms. Inr (t\<lparr>rx_manuals := ms\<rparr>)) = Inr s' \<and> rx_wf s'"
    if t: "rx_wf t" for t :: "('a, 'b) room_audio_mixer"
  proof -
    have ok: "rx_manual_ok (rx_manual_mode t) (rx_manuals t) (rx_manual_channels t)" using t by (simp add: rx_wf_def)
    have "\<exists>m'. xm_on_tick now m = Inr m' \<and> rx_task_ok (rx_manual_channels t) i m'" if "(i, m) \<in> set (rx_manuals t)" for i m
      using rx_task_step [OF rx_manual_tasks [OF ok that], of "Xm_Tick now" undefined] by simp
    from tg_run_all_ok [of "rx_manuals t" "xm_on_tick now" "rx_task_ok (rx_manual_channels t)", OF this]
    obtain ms' where ms': "tg_run_all (xm_on_tick now) (rx_manuals t) = Inr ms'" "map fst ms' = map fst (rx_manuals t)"
        "\<forall>(i, m)\<in>set ms'. rx_task_ok (rx_manual_channels t) i m" by blast
    from rx_manual_upd [OF t rx_manual_ok_run [OF ok ms'(2,3)]] show ?thesis using ms'(1) by simp
  qed
  show ?thesis using True unfolding rx_on_tick_def rx_sub_simps
    by (simp only: if_True) (intro rbind_keeps [where P = rx_wf] pub sub man; simp)
qed (use assms in \<open>simp add: rx_on_tick_def\<close>)

lemma rx_on_join_wf:
  assumes wf: "rx_wf s" and adm: "rx_may_join i e cfg s"
  shows "\<exists>s'. rx_on_join env i e p cfg s = Inr s' \<and> rx_wf s'"
proof (cases cfg)
  case None
  then show ?thesis using wf by (simp add: rx_on_join_def)
next
  case (Some c)
  show ?thesis
  proof (cases "amc_mode c")
    case Mixer_Auto
    let ?n = "length (amc_outputs c)"
    have e: "im_get (rx_auto_mode s) e = None" using adm Some Mixer_Auto by (simp add: rx_may_join_def)
    have "rx_wf (s\<lparr>rx_auto_mode := im_insert e ?n (rx_auto_mode s)\<rparr>)" if "?n \<notin> {1, 2, 3}"
      using wf e that by (intro rx_auto_other [OF wf]) (auto simp: list_upd rx_wf_def rx_auto_ok_def)
    then show ?thesis using rx_sub_join [OF wf _ e, of ?n "amc_outputs c" env p] Some Mixer_Auto
      by (auto simp: rx_on_join_def Let_def rx_sub_simps)
  next
    case Mixer_Manual
    let ?m = "xm_new (rx_room s) e (amc_outputs c) :: ('a, 'b) manual_mixer"
    have a: "im_get (rx_manual_mode s) e = None" "im_get (rx_manuals s) i = None" "xm_wf ?m"
      using adm Some Mixer_Manual by (auto simp: rx_may_join_def intro: xm_wf_new)
    have ok: "rx_manual_ok (rx_manual_mode s) (rx_manuals s) (rx_manual_channels s)" using wf by (simp add: rx_wf_def)
    have "\<not> st_mem (rx_manual_channels s) d i" for d using ok a(2) unfolding rx_manual_ok_def by (metis option.simps(4))
    then have "rx_task_ok (rx_manual_channels s) i ?m" using a(3) by (simp add: rx_task_ok_def)
    then have "rx_manual_ok (im_insert e i (rx_manual_mode s)) (im_insert i ?m (rx_manuals s)) (rx_manual_channels s)"
      using ok a(1,2) unfolding rx_manual_ok_def by (auto simp: list_upd)
    then show ?thesis using wf a(1) Some Mixer_Manual by (simp add: rx_on_join_def Let_def rx_wf_def rx_auto_ok_def)
  qed
qed

lemma rx_manual_entry: "rx_manual_ok mode ms ch \<Longrightarrow> im_get mode e = Some i \<Longrightarrow> \<exists>m. im_get ms i = Some m"
  by (simp add: rx_manual_ok_def)

lemma rx_on_control_wf:
  assumes wf: "rx_wf s" and "im_contains (rx_manual_mode s) e"
  shows "\<exists>s'. rx_on_control env now e ctl s = Inr s' \<and> rx_wf s'"
proof -
  obtain i where i: "im_get (rx_manual_mode s) e = Some i" using assms(2) by (auto simp: im_contains_def)
  then obtain m where m: "im_get (rx_manuals s) i = Some m" using rx_manual_entry [OF _ i] wf unfolding rx_wf_def by blast
  show ?thesis
  proof (cases ctl)
    case (Cam_Attach srcs)
    then show ?thesis using rx_manual_wf [OF wf m, of "Xm_Event now (Xm_Attach srcs)" env] i
      by (auto simp: rx_on_control_def xm_step_event)
  next
    case (Cam_Detach srcs)
    then show ?thesis using rx_manual_wf [OF wf m, of "Xm_Event now (Xm_Detach srcs)" env] i
      by (auto simp: rx_on_control_def xm_step_event)
  qed
qed

lemma rx_on_leave_wf:
  assumes wf: "rx_wf s"
  shows "\<exists>s'. rx_on_leave env now e s = Inr s' \<and> rx_wf s'"
proof (cases "im_get (rx_auto_mode s) e")
  case (Some n)
  have "rx_wf (s\<lparr>rx_auto_mode := im_swap_remove e (rx_auto_mode s)\<rparr>)" if "n \<notin> {1, 2, 3}"
    using wf Some that by (intro rx_auto_other [OF wf]) (auto simp: list_upd rx_wf_def rx_auto_ok_def)
  then show ?thesis using rx_sub_leave [OF wf, of n e] Some by (auto simp: rx_on_leave_def Let_def rx_sub_simps)
next
  case None
  show ?thesis
  proof (cases "im_get (rx_manual_mode s) e")
    case (Some i)
    have ok: "rx_manual_ok (rx_manual_mode s) (rx_manuals s) (rx_manual_channels s)" using wf by (simp add: rx_wf_def)
    then obtain m where m: "im_get (rx_manuals s) i = Some m" using rx_manual_entry [OF _ Some] by blast
    let ?s = "s\<lparr>rx_manual_mode := im_swap_remove e (rx_manual_mode s)\<rparr>"
    have "rx_manual_ok (im_swap_remove e (rx_manual_mode s)) (rx_manuals s) (rx_manual_channels s)"
      using ok unfolding rx_manual_ok_def by (auto simp: list_upd)
    from rx_manual_upd [OF wf this] have "rx_wf ?s" by simp
    from rx_manual_wf [OF this, of i m "Xm_Event now Xm_LeaveRoom" env] show ?thesis using None Some m
      by (auto simp: rx_on_leave_def xm_step_event)
  qed (use None wf in \<open>simp add: rx_on_leave_def\<close>)
qed

text \<open>The network delivers to the manual mixers only after their queued controls were taken out.\<close>

definition rx_drained :: "('e, 'f) room_audio_mixer \<Rightarrow> bool" where
  "rx_drained s \<longleftrightarrow> (\<forall>(i, m)\<in>set (rx_manuals s). mt_ctls sub_act (xm_queue m) = [])"

lemma rx_drained_attached:
  assumes wf: "rx_wf s" and dr: "rx_drained s" and t: "st_mem (rx_manual_channels s) c i"
  shows "\<exists>m. im_get (rx_manuals s) i = Some m \<and> im_contains (xm_sources m) c"
proof -
  have ok: "rx_manual_ok (rx_manual_mode s) (rx_manuals s) (rx_manual_channels s)" using wf by (simp add: rx_wf_def)
  obtain m where m: "im_get (rx_manuals s) i = Some m" using ok t unfolding rx_manual_ok_def by (metis option.exhaust option.simps(4))
  have "(i, m) \<in> set (rx_manuals s)" using m ok im_get_eq_Some [of "rx_manuals s" i m] by (simp add: rx_manual_ok_def)
  then have "mt_ctls sub_act (xm_queue m) = []" "rx_task_ok (rx_manual_channels s) i m"
    using dr rx_manual_tasks [OF ok] by (auto simp: rx_drained_def)
  then have "xm_held m = {d. st_mem (rx_manual_channels s) d i}" by (simp add: rx_task_ok_def)
  then show ?thesis using m t unfolding xm_held_def im_contains_iff by blast
qed

text \<open>A packet leaves the attached channels as they are.\<close>

lemma xm_pubsub_keeps:
  assumes "xm_wf m" "im_contains (xm_sources m) c" "xm_on_event env now (Xm_Pubsub c nd d) m = Inr m'"
  shows "xm_sources m' = xm_sources m \<and> mt_ctls sub_act (xm_queue m') = mt_ctls sub_act (xm_queue m)"
proof (cases "env_media_de env d")
  case (Some pkt)
  obtain src where src: "im_get (xm_sources m) c = Some src" using assms(2) by (auto simp: im_contains_get)
  show ?thesis using xm_on_source_pkt_ok [OF assms(1) src, of now pkt] xm_sends_ctls [of c pkt m m' sub_act] assms(3) Some
    by (auto simp: xm_on_event_def)
qed (use assms in \<open>simp add: xm_on_event_def\<close>)

lemma rx_pubsub_manuals:
  assumes "rx_wf s" "rx_drained s" "\<forall>i\<in>set tasks. st_mem (rx_manual_channels s) c i"
  shows "\<exists>s'. rfold (\<lambda>i. rx_manual i (xm_on_event env now (Xm_Pubsub c nd d))) tasks s = Inr s' \<and> rx_wf s'"
  using assms
proof (induction tasks arbitrary: s)
  case (Cons i tasks)
  obtain m where m: "im_get (rx_manuals s) i = Some m" "im_contains (xm_sources m) c"
    using rx_drained_attached [OF Cons.prems(1,2), of c i] Cons.prems(3) by auto
  from rx_manual_wf [OF Cons.prems(1) m(1), of "Xm_Event now (Xm_Pubsub c nd d)" env] m(2)
  obtain m' where m': "rx_manual i (xm_on_event env now (Xm_Pubsub c nd d)) s = Inr (s\<lparr>rx_manuals := im_insert i m' (rx_manuals s)\<rparr>)"
      "rx_wf (s\<lparr>rx_manuals := im_insert i m' (rx_manuals s)\<rparr>)" "xm_on_event env now (Xm_Pubsub c nd d) m = Inr m'"
    by (auto simp: xm_step_event)
  have ok: "rx_manual_ok (rx_manual_mode s) (rx_manuals s) (rx_manual_channels s)" using Cons.prems(1) by (simp add: rx_wf_def)
  have im: "(i, m) \<in> set (rx_manuals s)" using m(1) ok im_get_eq_Some [of "rx_manuals s" i m] by (simp add: rx_manual_ok_def)
  have "xm_wf m" using rx_manual_tasks [OF ok im] by (simp add: rx_task_ok_def)
  then have "mt_ctls sub_act (xm_queue m') = []" using xm_pubsub_keeps [OF _ m(2) m'(3)] im Cons.prems(2) by (auto simp: rx_drained_def)
  then have "rx_drained (s\<lparr>rx_manuals := im_insert i m' (rx_manuals s)\<rparr>)"
    using Cons.prems(2) unfolding rx_drained_def by (auto dest: set_im_insert_in)
  from Cons.IH [OF m'(2) this] Cons.prems(3) m'(1) show ?case by simp
qed simp

lemma rx_on_pubsub_event_wf:
  assumes wf: "rx_wf s" and dr: "rx_drained s"
  shows "\<exists>s'. rx_on_pubsub_event env now c ev s = Inr s' \<and> rx_wf s'"
proof (cases ev)
  case (SourceData nd d)
  have sub: "\<exists>s'. rx_sub n (xs_on_channel_data env now nd d) t = Inr s' \<and> rx_wf s'" if "rx_wf t" "n \<in> {1, 2, 3}"
    for n and t :: "('a, 'b) room_audio_mixer"
    using rx_sub_quiet [OF that, of "Xs_Data now nd d" now nd d env] by (simp add: rx_sub_def)
  show ?thesis
  proof (cases "c = rx_mix_channel_id s")
    case True
    have "\<exists>s'. rbind (rx_sub 1 (xs_on_channel_data env now nd d) s) (\<lambda>s1.
         rbind (rx_sub 2 (xs_on_channel_data env now nd d) s1) (\<lambda>s2. rx_sub 3 (xs_on_channel_data env now nd d) s2)) = Inr s' \<and> rx_wf s'"
      by (intro rbind_keeps [where P = rx_wf] sub; simp add: wf)
    then show ?thesis using SourceData True by (simp add: rx_on_pubsub_event_def rx_sub_simps)
  next
    case False
    have "\<forall>i\<in>set tasks. st_mem (rx_manual_channels s) c i" if "im_get (rx_manual_channels s) c = Some tasks" for tasks
      using that by (simp add: st_mem_def)
    then show ?thesis using SourceData False wf rx_pubsub_manuals [OF wf dr, of _ c env now nd d]
      by (cases "im_get (rx_manual_channels s) c") (auto simp: rx_on_pubsub_event_def)
  qed
qed (use wf in \<open>simp_all add: rx_on_pubsub_event_def\<close>)

section \<open>Polling keeps the invariant\<close>

text \<open>A queued control of a manual mixer changes nothing but the table of shared channels.\<close>

lemma rx_on_manual_output_frame:
  assumes "rx_on_manual_output i (Mt_Pubsub c ctl) s = Inr (s', y)"
  shows "s' = s\<lparr>rx_manual_channels := rx_manual_channels s'\<rparr>"
  using assms by (cases ctl) (auto simp: rx_on_manual_output_def Let_def run_simps split: option.splits if_splits)

lemma rx_task_other:
  assumes "rx_task_ok ch j m" "{d. st_mem ch d j} = {d. st_mem ch' d j}"
  shows "rx_task_ok ch' j m"
  using assms by (simp add: rx_task_ok_def)

lemma rx_take_control:
  assumes ok: "rx_manual_ok mode ms (rx_manual_channels s)" and m: "im_get ms i = Some m" and q: "xm_queue m = Mt_Pubsub c ctl # q"
    and b: "ctl = (if b then SubAuto else UnsubAuto)"
  shows "\<exists>s' y. rx_on_manual_output i (Mt_Pubsub c ctl) s = Inr (s', y) \<and> rx_manual_ok mode (im_insert i (m\<lparr>xm_queue := q\<rparr>) ms) (rx_manual_channels s')"
proof -
  let ?A = "\<lambda>s j. {d. st_mem (rx_manual_channels s) d j}"
  have wf: "st_wf (rx_manual_channels s)" using ok by (simp add: rx_manual_ok_def)
  have t: "rx_task_ok (rx_manual_channels s) i m" using ok m unfolding rx_manual_ok_def by (metis option.simps(5))
  have ctls: "mt_ctls sub_act (xm_queue m) = [(c, ctl_act b)] @ mt_ctls sub_act q"
    using mt_ctls_append [of sub_act "[Mt_Pubsub c ctl]" q] by (simp add: q b ctl_act_def)
  then have tail: "sessions (?A s i) ([(c, ctl_act b)] @ mt_ctls sub_act q) = Some (xm_held m)" using t by (simp add: rx_task_ok_def)
  then have "sessions (?A s i) [(c, ctl_act b)] \<noteq> None" unfolding sessions_append by (metis option.distinct(1) option.simps(4))
  from rxm_step_ok [OF wf this, of "[]"] obtain s' os where s': "rxm_step (i, c, b) (s, []) = Inr (s', [] @ os)"
      "st_wf (rx_manual_channels s')" "\<And>j. sessions (?A s j) (if j = i then [(c, ctl_act b)] else []) = Some (?A s' j)"
    by (elim exE conjE) (rule that; (assumption | rule allE))
  obtain y where y: "rx_on_manual_output i (Mt_Pubsub c ctl) s = Inr (s', y)" using s'(1) b by (auto simp: run_simps)
  have "sessions (?A s' i) (mt_ctls sub_act q) = Some (xm_held m)" using tail s'(3) [of i] unfolding sessions_append by simp
  then have ti: "rx_task_ok (rx_manual_channels s') i (m\<lparr>xm_queue := q\<rparr>)"
    using t q by (simp add: rx_task_ok_def xm_wf_def xm_held_def)
  have same: "?A s j = ?A s' j" if "j \<noteq> i" for j using s'(3) [of j] that by simp
  have "case im_get (im_insert i (m\<lparr>xm_queue := q\<rparr>) ms) j of None \<Rightarrow> \<forall>d. \<not> st_mem (rx_manual_channels s') d j
      | Some m \<Rightarrow> rx_task_ok (rx_manual_channels s') j m" for j
  proof (cases "j = i")
    case False
    have "case im_get ms j of None \<Rightarrow> \<forall>d. \<not> st_mem (rx_manual_channels s) d j | Some m \<Rightarrow> rx_task_ok (rx_manual_channels s) j m"
      using ok unfolding rx_manual_ok_def by blast
    then show ?thesis using False same [OF False] rx_task_other [OF _ same [OF False]]
      by (auto simp: im_get_insert split: option.splits)
  qed (simp add: im_get_insert ti)
  then show ?thesis using ok y s'(2) m unfolding rx_manual_ok_def by (auto simp: list_upd)
qed

text \<open>Taking anything else out of the queue.\<close>

lemma rx_take_other:
  assumes ok: "rx_manual_ok mode ms ch" and m: "im_get ms i = Some m" and q: "xm_queue m = x # q"
    and x: "\<And>c. x \<noteq> Mt_Pubsub c SubAuto" "\<And>c. x \<noteq> Mt_Pubsub c UnsubAuto"
  shows "rx_manual_ok mode (im_insert i (m\<lparr>xm_queue := q\<rparr>) ms) ch" "rx_on_manual_output i x s = Inr (s, Some x)"
proof -
  have t: "rx_task_ok ch i m" using ok m unfolding rx_manual_ok_def by (metis option.simps(5))
  have ctls: "mt_ctls sub_act (xm_queue m) = mt_ctls sub_act [x] @ mt_ctls sub_act q"
    using mt_ctls_append [of sub_act "[x]" q] by (simp add: q)
  have "sessions {d. st_mem ch d i} (mt_ctls sub_act q) = Some (xm_held m)"
  proof (cases x)
    case (Mt_Pubsub c ctl)
    then show ?thesis using t ctls x by (cases ctl) (auto simp: rx_task_ok_def split: if_splits)
  qed (use t ctls in \<open>simp_all add: rx_task_ok_def mt_ctls_def List.map_filter_def\<close>)
  then have "rx_task_ok ch i (m\<lparr>xm_queue := q\<rparr>)" using t q by (simp add: rx_task_ok_def xm_wf_def xm_held_def)
  then show "rx_manual_ok mode (im_insert i (m\<lparr>xm_queue := q\<rparr>) ms) ch"
    using ok m unfolding rx_manual_ok_def by (auto simp: list_upd)
  have "x \<noteq> Mt_OnResourceEmpty" using t q by (auto simp: rx_task_ok_def)
  then show "rx_on_manual_output i x s = Inr (s, Some x)"
    using x by (auto simp: rx_on_manual_output_def split: mt_output.splits channel_control.splits)
qed

lemma rx_pop_manual_wf:
  assumes wf: "rx_wf s"
  shows "\<exists>s' y. rx_pop_branch (Rx_Manual i) s = Inr (s', y) \<and> rx_wf s'"
proof (cases "im_get (rx_manuals s) i")
  case None
  then show ?thesis using wf by (simp add: rx_pop_branch_def)
next
  case (Some m)
  have ok: "rx_manual_ok (rx_manual_mode s) (rx_manuals s) (rx_manual_channels s)" using wf by (simp add: rx_wf_def)
  show ?thesis
  proof (cases "xm_queue m")
    case Nil
    then have "rx_manual_ok (rx_manual_mode s) (im_insert i m (rx_manuals s)) (rx_manual_channels s)"
      using ok Some unfolding rx_manual_ok_def by (auto simp: list_upd split: option.splits)
    from rx_manual_upd [OF wf this] show ?thesis using Some Nil by (simp add: rx_pop_branch_def xm_pop_output_def)
  next
    case (Cons x q)
    let ?s = "s\<lparr>rx_manuals := im_insert i (m\<lparr>xm_queue := q\<rparr>) (rx_manuals s)\<rparr>"
    have pop: "rx_pop_branch (Rx_Manual i) s = rx_on_manual_output i x ?s"
      using Some Cons by (simp add: rx_pop_branch_def xm_pop_output_def)
    show ?thesis
    proof (cases "\<exists>c b. x = Mt_Pubsub c (if b then SubAuto else UnsubAuto)")
      case True
      then obtain c b where x: "x = Mt_Pubsub c (if b then SubAuto else UnsubAuto)" by blast
      have ok': "rx_manual_ok (rx_manual_mode s) (rx_manuals s) (rx_manual_channels ?s)" using ok by simp
      obtain s' y where y: "rx_on_manual_output i x ?s = Inr (s', y)"
          "rx_manual_ok (rx_manual_mode s) (im_insert i (m\<lparr>xm_queue := q\<rparr>) (rx_manuals s)) (rx_manual_channels s')"
        using rx_take_control [OF ok' Some Cons [unfolded x] refl] x by auto
      have "s' = ?s\<lparr>rx_manual_channels := rx_manual_channels s'\<rparr>" using y(1) x by (intro rx_on_manual_output_frame) simp
      then have "rx_wf s'" using rx_manual_upd [OF wf y(2)] by simp
      then show ?thesis using pop y(1) by simp
    next
      case False
      then have x: "\<And>c. x \<noteq> Mt_Pubsub c SubAuto" "\<And>c. x \<noteq> Mt_Pubsub c UnsubAuto" by (metis (full_types))+
      from rx_manual_upd [OF wf rx_take_other(1) [OF ok Some Cons x]] show ?thesis
        using pop rx_take_other(2) [OF ok Some Cons x] by simp
    qed
  qed
qed

lemma rx_pop_branch_wf:
  assumes wf: "rx_wf s"
  shows "\<exists>s' y. rx_pop_branch task s = Inr (s', y) \<and> rx_wf s'"
proof (cases task)
  case Rx_Publisher
  then show ?thesis using wf
    by (cases "xp_queue (rx_publisher s)") (auto simp: rx_pop_branch_def xp_pop_output_def rx_wf_def xp_wf_def rx_auto_ok_def)
next
  case (Rx_Manual i)
  then show ?thesis using rx_pop_manual_wf [OF wf] by simp
qed (use wf in \<open>auto simp: rx_pop_branch_def xs_pop_output_def rx_wf_def xs_wf_def rx_auto_ok_def rx_subscriber_def split: list.splits\<close>)

text \<open>The runtime reports that a manual mixer whose endpoint has left is empty.\<close>

lemma rx_gone_wf:
  assumes wf: "rx_wf s" and m: "im_get (rx_manuals s) i = Some m" "xm_is_empty m" and left: "\<forall>e. im_get (rx_manual_mode s) e \<noteq> Some i"
  shows "\<exists>s' y. rx_on_manual_output i Mt_OnResourceEmpty s = Inr (s', y) \<and> rx_wf s'"
proof -
  have ok: "rx_manual_ok (rx_manual_mode s) (rx_manuals s) (rx_manual_channels s)" using wf by (simp add: rx_wf_def)
  have "rx_task_ok (rx_manual_channels s) i m" using ok m unfolding rx_manual_ok_def by (metis option.simps(5))
  then have "\<not> st_mem (rx_manual_channels s) c i" for c using m(2) by (auto simp: rx_task_ok_def xm_is_empty_def xm_held_def)
  then have "rx_manual_ok (rx_manual_mode s) (im_swap_remove i (rx_manuals s)) (rx_manual_channels s)"
    using ok left unfolding rx_manual_ok_def by (auto simp: list_upd)
  from rx_manual_upd [OF wf this] show ?thesis by (simp add: rx_on_manual_output_def Let_def)
qed

section \<open>Runs\<close>

datatype ('e, 'f) rx_op =
    Rx_Tick nat
  | Rx_Join nat 'e peer_id "audio_mixer_config option"
  | Rx_Control nat 'e cluster_audio_mixer_control
  | Rx_Leave nat 'e
  | Rx_Publish 'e nat peer_id track_name
  | Rx_Data nat 'e nat media_packet
  | Rx_Unpublish 'e nat
  | Rx_Pubsub nat nat "'f channel_event"
  | Rx_Poll rx_task
  | Rx_Gone nat

fun rx_step :: "'f cluster_env \<Rightarrow> ('e, 'f) rx_op \<Rightarrow> ('e, 'f) room_audio_mixer \<Rightarrow> ('e, 'f) room_audio_mixer run" where
  "rx_step env (Rx_Tick now) s = rx_on_tick now s"
| "rx_step env (Rx_Join i e p cfg) s = rx_on_join env i e p cfg s"
| "rx_step env (Rx_Control now e c) s = rx_on_control env now e c s"
| "rx_step env (Rx_Leave now e) s = rx_on_leave env now e s"
| "rx_step env (Rx_Publish e t p n) s = rx_on_track_publish env e t p n s"
| "rx_step env (Rx_Data now e t m) s = rx_on_track_data env now e t m s"
| "rx_step env (Rx_Unpublish e t) s = rx_on_track_unpublish e t s"
| "rx_step env (Rx_Pubsub now c ev) s = rx_on_pubsub_event env now c ev s"
| "rx_step env (Rx_Poll task) s = rbind (rx_pop_branch task s) (\<lambda>(s', _). Inr s')"
| "rx_step env (Rx_Gone i) s = rbind (rx_on_manual_output i Mt_OnResourceEmpty s) (\<lambda>(s', _). Inr s')"

fun rx_admits :: "('e, 'f) rx_op \<Rightarrow> ('e, 'f) room_audio_mixer \<Rightarrow> bool" where
  "rx_admits (Rx_Join i e _ cfg) s = rx_may_join i e cfg s"
| "rx_admits (Rx_Control _ e _) s = im_contains (rx_manual_mode s) e"
| "rx_admits (Rx_Publish e t _ _) s = (\<not> im_contains (xp_tracks (rx_publisher s)) (e, t))"
| "rx_admits (Rx_Data _ e t _) s = im_contains (xp_tracks (rx_publisher s)) (e, t)"
| "rx_admits (Rx_Unpublish e t) s = im_contains (xp_tracks (rx_publisher s)) (e, t)"
| "rx_admits (Rx_Pubsub _ _ _) s = rx_drained s"
| "rx_admits (Rx_Gone i) s = ((case im_get (rx_manuals s) i of None \<Rightarrow> False | Some m \<Rightarrow> xm_is_empty m) \<and> i \<notin> snd ` set (rx_manual_mode s))"
| "rx_admits _ s = True"

lemma rx_step_wf:
  assumes wf: "rx_wf s" and adm: "rx_admits x s"
  shows "\<exists>s'. rx_step env x s = Inr s' \<and> rx_wf s'"
proof (cases x)
  case (Rx_Publish e t p n)
  then show ?thesis using rx_pub_wf [OF wf, of "Xp_Publish e t p n" env] adm by (simp add: rx_on_track_publish_def rx_pub_def)
next
  case (Rx_Data now e t m)
  then show ?thesis using rx_pub_wf [OF wf, of "Xp_Data now e t m" env] adm by (simp add: rx_on_track_data_def rx_pub_def)
next
  case (Rx_Unpublish e t)
  then show ?thesis using rx_pub_wf [OF wf, of "Xp_Unpublish e t" env] adm by (simp add: rx_on_track_unpublish_def rx_pub_def)
next
  case (Rx_Poll task)
  then show ?thesis using rx_pop_branch_wf [OF wf, of task] by auto
next
  case (Rx_Gone i)
  then obtain m where m: "im_get (rx_manuals s) i = Some m" "xm_is_empty m" "i \<notin> snd ` set (rx_manual_mode s)"
    using adm by (auto split: option.splits)
  have "\<forall>e. im_get (rx_manual_mode s) e \<noteq> Some i" using m(3) by (force simp: im_get_def dest: map_of_SomeD)
  from rx_gone_wf [OF wf m(1,2) this] Rx_Gone show ?thesis by auto
qed (use assms rx_on_tick_wf rx_on_join_wf rx_on_control_wf rx_on_leave_wf rx_on_pubsub_event_wf in auto)

text \<open>
  C21. The audio mixer of a room never panics, and keeps its tables consistent, through any
  sequence of joins, controls, leaves, publications, packets, ticks and polls that its room may
  issue: an endpoint in automatic mode is with exactly the subscriber of its number of outputs; for
  each manual mixer, the channels that the room holds for it, followed by the controls still in its
  queue, are the channels it has attached; and a channel is held only for mixers that exist. The
  network may deliver once the queued controls of the mixers are taken out, and the runtime may
  report a mixer as empty once its endpoint has left.
\<close>
theorem rx_run_safe:
  assumes "admits_run rx_admits (rx_step env) xs (rx_new now room c :: ('e, 'f) room_audio_mixer)"
  shows "\<exists>s. rfold (rx_step env) xs (rx_new now room c :: ('e, 'f) room_audio_mixer) = Inr s \<and>
     (\<forall>n\<in>{1, 2, 3}. \<forall>e. im_contains (xs_endpoints (rx_subscriber n s)) e \<longleftrightarrow> im_get (rx_auto_mode s) e = Some n) \<and>
     (\<forall>i m. im_get (rx_manuals s) i = Some m \<longrightarrow>
        sessions {d. st_mem (rx_manual_channels s) d i} (mt_ctls sub_act (xm_queue m)) = Some (fst ` set (xm_sources m))) \<and>
     (\<forall>i d. st_mem (rx_manual_channels s) d i \<longrightarrow> im_get (rx_manuals s) i \<noteq> None)"
proof -
  obtain s where s: "rfold (rx_step env) xs (rx_new now room c :: ('e, 'f) room_audio_mixer) = Inr s" "rx_wf s"
    using admits_run_invariant [OF rx_wf_new assms rx_step_wf] by blast
  have ok: "rx_manual_ok (rx_manual_mode s) (rx_manuals s) (rx_manual_channels s)" using s(2) by (simp add: rx_wf_def)
  have aut: "\<forall>n\<in>{1, 2, 3}. \<forall>e. im_contains (xs_endpoints (rx_subscriber n s)) e \<longleftrightarrow> im_get (rx_auto_mode s) e = Some n"
    using s(2) unfolding rx_wf_def rx_auto_ok_def by blast
  have cases: "case im_get (rx_manuals s) i of None \<Rightarrow> \<forall>c. \<not> st_mem (rx_manual_channels s) c i | Some m \<Rightarrow> rx_task_ok (rx_manual_channels s) i m" for i
    using ok unfolding rx_manual_ok_def by blast
  have task: "\<forall>i m. im_get (rx_manuals s) i = Some m \<longrightarrow>
      sessions {d. st_mem (rx_manual_channels s) d i} (mt_ctls sub_act (xm_queue m)) = Some (fst ` set (xm_sources m))"
  proof (intro allI impI)
    fix i m assume "im_get (rx_manuals s) i = Some m"
    then show "sessions {d. st_mem (rx_manual_channels s) d i} (mt_ctls sub_act (xm_queue m)) = Some (fst ` set (xm_sources m))"
      using cases [of i] by (simp add: rx_task_ok_def xm_held_def)
  qed
  have "\<forall>i d. st_mem (rx_manual_channels s) d i \<longrightarrow> im_get (rx_manuals s) i \<noteq> None"
  proof (intro allI impI notI)
    fix i d assume "st_mem (rx_manual_channels s) d i" "im_get (rx_manuals s) i = None"
    then show False using cases [of i] by simp
  qed
  then show ?thesis by (intro exI [of _ s] conjI s(1) aut task)
qed

theorem rx_run_safe_witness:
  "\<exists>s. rfold (rx_step demo_env) [Rx_Join 0 (1::nat) ''alice'' (Some \<lparr>amc_mode = Mixer_Manual, amc_outputs = [4], amc_sources = []\<rparr>),
       Rx_Join 0 2 ''bob'' (Some \<lparr>amc_mode = Mixer_Auto, amc_outputs = [4, 6], amc_sources = []\<rparr>),
       Rx_Control 0 1 (Cam_Attach [\<lparr>tsrc_peer = ''bob'', tsrc_track = ''mic''\<rparr>]), Rx_Poll (Rx_Manual 0), Rx_Leave 0 1]
     (rx_new 0 3 5) = Inr s \<and>
     (\<forall>i d. st_mem (rx_manual_channels s) d i \<longrightarrow> im_get (rx_manuals s) i \<noteq> None)"
proof -
  let ?xs = "[Rx_Join 0 (1::nat) ''alice'' (Some \<lparr>amc_mode = Mixer_Manual, amc_outputs = [4], amc_sources = []\<rparr>),
       Rx_Join 0 2 ''bob'' (Some \<lparr>amc_mode = Mixer_Auto, amc_outputs = [4, 6], amc_sources = []\<rparr>),
       Rx_Control 0 1 (Cam_Attach [\<lparr>tsrc_peer = ''bob'', tsrc_track = ''mic''\<rparr>]), Rx_Poll (Rx_Manual 0), Rx_Leave 0 1]"
  have "admits_run rx_admits (rx_step demo_env) ?xs (rx_new 0 3 5)"
    by (simp add: rx_may_join_def rx_new_def rx_on_join_def Let_def rx_sub2_def xs_on_endpoint_join_def xs_new_def im_contains_def im_get_def
        xs_push_def rx_on_control_def rx_manual_def tg_run_def xm_on_event_def xm_attach_def xm_new_def xm_push_def
        rx_on_leave_def rx_pop_branch_def xm_pop_output_def rx_on_manual_output_def)
  from rx_run_safe [OF this] show ?thesis by blast
qed

end
