(* ===== verification/Cluster_Room.thy ===== *)
theory Cluster_Room
  imports Media_Track Message_Channel Room_Metadata Room_Audio_Mixer
begin

text \<open>
  \<^verbatim>\<open>packages/media_core/src/cluster/room.rs\<close>: a room, which routes the controls of its endpoints and
  the events of the network to its four features (metadata, media tracks, audio mixer, message
  channels) and tags their outputs. The theory composes the guarantees of the four features: through
  all admissible runs, polls included, no feature panics and the controls that leave the room are
  proper sessions of every feature. The features of the network library are represented by the
  constructors that the code uses; the task switcher that picks the feature to poll is a library,
  and polling is one function for each task.
\<close>

section \<open>Messages\<close>

datatype room_feature = Rf_MetaData | Rf_MediaTrack | Rf_AudioMixer | Rf_MessageChannel

datatype room_user_data = RoomUserData room_hash room_feature

datatype 'f features_control = Fc_DhtKv nat map_control | Fc_PubSub nat "'f channel_control"

datatype kv_event = Kv_MapEvent nat map_event | Kv_MapGetRes

datatype 'f features_event = Fe_DhtKv kv_event | Fe_PubSub nat "'f channel_event"

datatype ('e, 'f) cr_input = Cr_Sdn room_user_data "'f features_event" | Cr_Endpoint 'e cluster_endpoint_control

datatype ('e, 'f) cr_output =
    Cr_OutSdn room_user_data "'f features_control"
  | Cr_OutEndpoint "'e list" cluster_endpoint_event
  | Cr_OnResourceEmpty room_hash

section \<open>State\<close>

record ('e, 'f) cluster_room =
  cr_room :: room_hash
  cr_metadata :: "'e room_metadata"
  cr_media_track :: "('e, 'f) media_track"
  cr_audio_mixer :: "('e, 'f) room_audio_mixer"
  cr_message_channel :: "('e, 'f) room_message_channel"

definition cr_new :: "'f cluster_env \<Rightarrow> nat \<Rightarrow> room_hash \<Rightarrow> ('e, 'f) cluster_room" where
  "cr_new env now room = \<lparr>cr_room = room, cr_metadata = md_new room, cr_media_track = mt_new room,
     cr_audio_mixer = rx_new now room (gen_mixer_auto_channel_id env room), cr_message_channel = rmc_new room\<rparr>"

text \<open>Calls to the features.\<close>

definition cr_md :: "('e room_metadata \<Rightarrow> 'e room_metadata run) \<Rightarrow> ('e, 'f) cluster_room \<Rightarrow> ('e, 'f) cluster_room run" where
  "cr_md f s = rbind (f (cr_metadata s)) (\<lambda>x. Inr (s\<lparr>cr_metadata := x\<rparr>))"

definition cr_mt :: "(('e, 'f) media_track \<Rightarrow> ('e, 'f) media_track run) \<Rightarrow> ('e, 'f) cluster_room \<Rightarrow> ('e, 'f) cluster_room run" where
  "cr_mt f s = rbind (f (cr_media_track s)) (\<lambda>x. Inr (s\<lparr>cr_media_track := x\<rparr>))"

definition cr_rx :: "(('e, 'f) room_audio_mixer \<Rightarrow> ('e, 'f) room_audio_mixer run) \<Rightarrow> ('e, 'f) cluster_room \<Rightarrow> ('e, 'f) cluster_room run" where
  "cr_rx f s = rbind (f (cr_audio_mixer s)) (\<lambda>x. Inr (s\<lparr>cr_audio_mixer := x\<rparr>))"

definition cr_mc :: "(('e, 'f) room_message_channel \<Rightarrow> ('e, 'f) room_message_channel) \<Rightarrow> ('e, 'f) cluster_room \<Rightarrow> ('e, 'f) cluster_room run" where
  "cr_mc f s = Inr (s\<lparr>cr_message_channel := f (cr_message_channel s)\<rparr>)"

section \<open>Operations\<close>

definition cr_on_tick :: "nat \<Rightarrow> ('e, 'f) cluster_room \<Rightarrow> ('e, 'f) cluster_room run" where
  "cr_on_tick now = cr_rx (rx_on_tick now)"

definition cr_on_sdn_event ::
  "'f cluster_env \<Rightarrow> nat \<Rightarrow> room_user_data \<Rightarrow> 'f features_event \<Rightarrow> ('e, 'f) cluster_room \<Rightarrow> ('e, 'f) cluster_room run" where
  "cr_on_sdn_event env now userdata event s = (case (userdata, event) of
     (RoomUserData _ Rf_MetaData, Fe_DhtKv (Kv_MapEvent m ev)) \<Rightarrow> cr_md (\<lambda>x. Inr (md_on_kv_event env m ev x)) s
   | (RoomUserData _ Rf_MediaTrack, Fe_PubSub c ev) \<Rightarrow> cr_mt (\<lambda>x. Inr (mt_on_pubsub_event env c ev x)) s
   | (RoomUserData _ Rf_AudioMixer, Fe_PubSub c ev) \<Rightarrow> cr_rx (rx_on_pubsub_event env now c ev) s
   | (RoomUserData _ Rf_MessageChannel, Fe_PubSub c ev) \<Rightarrow> cr_mc (rmc_on_pubsub_event env c ev) s
   | _ \<Rightarrow> Inr s)"

definition cr_on_control_remote_track ::
  "'f cluster_env \<Rightarrow> nat \<Rightarrow> 'e \<Rightarrow> nat \<Rightarrow> cluster_remote_track_control \<Rightarrow> ('e, 'f) cluster_room \<Rightarrow> ('e, 'f) cluster_room run" where
  "cr_on_control_remote_track env now endpoint track control s = (case control of
     Crt_Started name meta \<Rightarrow> (case get_peer_from_endpoint endpoint (cr_metadata s) of None \<Rightarrow> Inr s
       | Some peer \<Rightarrow>
           rbind (if kind_is_audio (tm_kind meta) then cr_rx (rx_on_track_publish env endpoint track peer name) s else Inr s) (\<lambda>s1.
           rbind (cr_mt (mt_on_call env (Mt_Publish endpoint track peer name)) s1) (\<lambda>s2.
           cr_md (\<lambda>x. Inr (md_on_track_publish env endpoint track name meta x)) s2)))
   | Crt_Media media \<Rightarrow>
       rbind (if meta_is_audio (pkt_meta media) then cr_rx (rx_on_track_data env now endpoint track media) s else Inr s) (\<lambda>s1.
       cr_mt (mt_on_call env (Mt_Data endpoint track media)) s1)
   | Crt_Ended _ meta \<Rightarrow>
       rbind (if kind_is_audio (tm_kind meta) then cr_rx (rx_on_track_unpublish endpoint track) s else Inr s) (\<lambda>s1.
       rbind (cr_mt (mt_on_call env (Mt_Unpublish endpoint track)) s1) (\<lambda>s2.
       cr_md (\<lambda>x. Inr (md_on_track_unpublish env endpoint track x)) s2)))"

definition cr_on_control_local_track ::
  "'f cluster_env \<Rightarrow> nat \<Rightarrow> 'e \<Rightarrow> nat \<Rightarrow> cluster_local_track_control \<Rightarrow> ('e, 'f) cluster_room \<Rightarrow> ('e, 'f) cluster_room run" where
  "cr_on_control_local_track env now endpoint track_id control = cr_mt (mt_on_call env (case control of
     Clt_Subscribe target_peer target_track \<Rightarrow> Mt_Subscribe endpoint track_id target_peer target_track
   | Clt_RequestKeyFrame \<Rightarrow> Mt_RequestKey endpoint track_id
   | Clt_DesiredBitrate bitrate \<Rightarrow> Mt_DesiredBitrate now endpoint track_id bitrate
   | Clt_Unsubscribe \<Rightarrow> Mt_Unsubscribe endpoint track_id))"

definition cr_on_control_message_channel ::
  "'f cluster_env \<Rightarrow> 'e \<Rightarrow> string \<Rightarrow> cluster_message_channel_control \<Rightarrow> ('e, 'f) cluster_room \<Rightarrow> ('e, 'f) cluster_room run" where
  "cr_on_control_message_channel env endpoint label control = cr_mc (rmc_on_call env (case control of
     Cmc_Subscribe \<Rightarrow> Mc_Subscribe endpoint label
   | Cmc_Unsubscribe \<Rightarrow> Mc_Unsubscribe endpoint label
   | Cmc_StartPublish \<Rightarrow> Mc_PublishStart endpoint label
   | Cmc_StopPublish \<Rightarrow> Mc_PublishStop endpoint label
   | Cmc_PublishData peer_id data \<Rightarrow> Mc_Data endpoint label \<lparr>mcp_from = peer_id, mcp_data = data\<rparr>))"

definition cr_on_endpoint_control ::
  "'f cluster_env \<Rightarrow> nat \<Rightarrow> nat \<Rightarrow> 'e \<Rightarrow> cluster_endpoint_control \<Rightarrow> ('e, 'f) cluster_room \<Rightarrow> ('e, 'f) cluster_room run" where
  "cr_on_endpoint_control env now new_index endpoint control s = (case control of
     Cec_Join peer meta publish subscribe mixer \<Rightarrow>
       rbind (cr_rx (rx_on_join env new_index endpoint peer mixer) s) (\<lambda>s1.
       cr_md (\<lambda>x. Inr (md_on_join env endpoint peer meta publish subscribe x)) s1)
   | Cec_Leave \<Rightarrow>
       rbind (cr_rx (rx_on_leave env now endpoint) s) (\<lambda>s1.
       rbind (cr_md (md_on_leave env endpoint) s1) (\<lambda>s2.
       cr_mc (rmc_on_call env (Mc_Leave endpoint)) s2))
   | Cec_SubscribePeer target \<Rightarrow> cr_md (md_on_subscribe_peer env endpoint target) s
   | Cec_UnsubscribePeer target \<Rightarrow> cr_md (md_on_unsubscribe_peer env endpoint target) s
   | Cec_AudioMixer control \<Rightarrow> cr_rx (rx_on_control env now endpoint control) s
   | Cec_RemoteTrack track control \<Rightarrow> cr_on_control_remote_track env now endpoint track control s
   | Cec_LocalTrack track control \<Rightarrow> cr_on_control_local_track env now endpoint track control s
   | Cec_MessageChannel label control \<Rightarrow> cr_on_control_message_channel env endpoint label control s)"

definition cr_on_event ::
  "'f cluster_env \<Rightarrow> nat \<Rightarrow> nat \<Rightarrow> ('e, 'f) cr_input \<Rightarrow> ('e, 'f) cluster_room \<Rightarrow> ('e, 'f) cluster_room run" where
  "cr_on_event env now new_index input s = (case input of
     Cr_Endpoint endpoint control \<Rightarrow> cr_on_endpoint_control env now new_index endpoint control s
   | Cr_Sdn userdata event \<Rightarrow> cr_on_sdn_event env now userdata event s)"

definition cr_is_empty :: "('e, 'f) cluster_room \<Rightarrow> bool" where
  "cr_is_empty s \<longleftrightarrow> md_is_empty (cr_metadata s) \<and> mt_is_empty (cr_media_track s) \<and> rx_is_empty (cr_audio_mixer s) \<and>
     rmc_is_empty (cr_message_channel s)"

section \<open>Polling\<close>

datatype cr_task = Cr_Metadata | Cr_MediaTrack mt_task | Cr_AudioMixer rx_task | Cr_MessageChannel rmc_task

text \<open>What the room makes of an output of a feature; an empty feature is not reported.\<close>

definition cr_forward_md :: "room_hash \<Rightarrow> 'e md_output \<Rightarrow> ('e, 'f) cr_output option" where
  "cr_forward_md room out = (case out of
     Md_Kv m control \<Rightarrow> Some (Cr_OutSdn (RoomUserData room Rf_MetaData) (Fc_DhtKv m control))
   | Md_Endpoint endpoints event \<Rightarrow> Some (Cr_OutEndpoint endpoints event)
   | Md_OnResourceEmpty \<Rightarrow> None)"

definition cr_forward :: "room_hash \<Rightarrow> room_feature \<Rightarrow> ('e, 'f) mt_output \<Rightarrow> ('e, 'f) cr_output option" where
  "cr_forward room feature out = (case out of
     Mt_Endpoint endpoints event \<Rightarrow> Some (Cr_OutEndpoint endpoints event)
   | Mt_Pubsub c control \<Rightarrow> Some (Cr_OutSdn (RoomUserData room feature) (Fc_PubSub c control))
   | Mt_OnResourceEmpty \<Rightarrow> None)"

definition cr_pop_branch :: "cr_task \<Rightarrow> ('e, 'f) cluster_room \<Rightarrow> (('e, 'f) cluster_room \<times> ('e, 'f) cr_output option) run" where
  "cr_pop_branch task s = (case task of
     Cr_Metadata \<Rightarrow> (case md_pop_output (cr_metadata s) of (x, out) \<Rightarrow>
       Inr (s\<lparr>cr_metadata := x\<rparr>, Option.bind out (cr_forward_md (cr_room s))))
   | Cr_MediaTrack t \<Rightarrow> (case mt_pop_branch t (cr_media_track s) of (x, out) \<Rightarrow>
       Inr (s\<lparr>cr_media_track := x\<rparr>, Option.bind out (cr_forward (cr_room s) Rf_MediaTrack)))
   | Cr_AudioMixer t \<Rightarrow> rbind (rx_pop_branch t (cr_audio_mixer s)) (\<lambda>(x, out).
       Inr (s\<lparr>cr_audio_mixer := x\<rparr>, Option.bind out (cr_forward (cr_room s) Rf_AudioMixer)))
   | Cr_MessageChannel t \<Rightarrow> (case rmc_pop_branch t (cr_message_channel s) of (x, out) \<Rightarrow>
       Inr (s\<lparr>cr_message_channel := x\<rparr>, Option.bind out (cr_forward (cr_room s) Rf_MessageChannel))))"

definition cr_drop :: "('e, 'f) cluster_room \<Rightarrow> unit run" where
  "cr_drop s = rbind (rassert (rx_is_empty (cr_audio_mixer s))) (\<lambda>_. rbind (rassert (mt_is_empty (cr_media_track s))) (\<lambda>_.
     rbind (rassert (md_is_empty (cr_metadata s))) (\<lambda>_. rbind (rassert (rmc_is_empty (cr_message_channel s))) (\<lambda>_.
     rbind (md_drop (cr_metadata s)) (\<lambda>_. rbind (mt_drop (cr_media_track s)) (\<lambda>_.
     rbind (rx_drop (cr_audio_mixer s)) (\<lambda>_. rmc_drop (cr_message_channel s))))))))"

section \<open>Invariant\<close>

text \<open>The log of a room: what left the room, with the task that gave it out. The controls of one task
  are read off the log.\<close>

type_synonym ('e, 'f) cr_log = "(cr_task \<times> ('e, 'f) cr_output) list"

definition cr_sent_md :: "('e, 'f) cr_log \<Rightarrow> (nat \<times> session_act) list" where
  "cr_sent_md log = List.map_filter (\<lambda>(t, out). case (t, out) of
     (Cr_Metadata, Cr_OutSdn _ (Fc_DhtKv m ctl)) \<Rightarrow> map_option (Pair m) (map_act ctl) | _ \<Rightarrow> None) log"

definition cr_sent :: "cr_task \<Rightarrow> ('f channel_control \<Rightarrow> session_act option) \<Rightarrow> ('e, 'f) cr_log \<Rightarrow> (nat \<times> session_act) list" where
  "cr_sent task act log = List.map_filter (\<lambda>(t, out). case out of
     Cr_OutSdn _ (Fc_PubSub c ctl) \<Rightarrow> if t = task then map_option (Pair c) (act ctl) else None | _ \<Rightarrow> None) log"

lemma cr_sent_simps [simp]:
  "cr_sent_md [] = []" "cr_sent task act [] = []"
  "cr_sent_md (xs @ ys) = cr_sent_md xs @ cr_sent_md ys" "cr_sent task act (xs @ ys) = cr_sent task act xs @ cr_sent task act ys"
  by (simp_all add: cr_sent_md_def cr_sent_def List.map_filter_def)

definition cr_parts :: "'f cluster_env \<Rightarrow> peer_id set \<Rightarrow> ('e, 'f) cr_log \<Rightarrow> ('e, 'f) cluster_room \<Rightarrow> bool" where
  "cr_parts env P log s \<longleftrightarrow>
     logged (\<lambda>x. md_ctls (md_queue x)) md_held (md_wf env P) (cr_sent_md log) (cr_metadata s) \<and>
     logged (\<lambda>x. mt_ctls pub_act (tp_queue x)) tp_held tp_wf (cr_sent (Cr_MediaTrack Mt_Task_Publisher) pub_act log) (mt_publisher (cr_media_track s)) \<and>
     logged (\<lambda>x. mt_ctls sub_act (tu_queue x)) tu_held tu_wf (cr_sent (Cr_MediaTrack Mt_Task_Subscriber) sub_act log) (mt_subscriber (cr_media_track s)) \<and>
     logged (\<lambda>x. mt_ctls pub_act (mp_queue x)) mp_held mp_wf (cr_sent (Cr_MessageChannel Rmc_Task_Publisher) pub_act log) (rmc_publisher (cr_message_channel s)) \<and>
     logged (\<lambda>x. mt_ctls sub_act (ms_queue x)) ms_held ms_wf (cr_sent (Cr_MessageChannel Rmc_Task_Subscriber) sub_act log) (rmc_subscriber (cr_message_channel s)) \<and>
     rx_wf (cr_audio_mixer s)"

text \<open>The audio tracks that the mixer knows are published as media tracks.\<close>

definition cr_link :: "('e, 'f) cluster_room \<Rightarrow> bool" where
  "cr_link s \<longleftrightarrow> (\<forall>k. im_contains (xp_tracks (rx_publisher (cr_audio_mixer s))) k \<longrightarrow> im_contains (tp_tracks (mt_publisher (cr_media_track s))) k)"

lemma cr_parts_new:
  assumes "no_map_clash env room P"
  shows "cr_parts env P [] (cr_new env now room)"
  using md_wf_new [OF assms]
  by (simp add: cr_parts_def cr_new_def logged_def mt_new_def rmc_new_def rx_wf_new mc_wf_new tp_wf_new tu_wf_new)

lemma cr_link_new: "cr_link (cr_new env now room)"
  by (simp add: cr_link_def cr_new_def rx_new_def xp_new_def im_contains_def)

text \<open>A call to a feature keeps the invariant, when the feature admits it.\<close>

lemma cr_md_ok:
  assumes "cr_parts env P log s" "md_admits P x (cr_metadata s)"
  shows "\<exists>y. md_step env x (cr_metadata s) = Inr y \<and> cr_parts env P log (s\<lparr>cr_metadata := y\<rparr>)"
  using mdc.step_logged [OF _ assms(2), of env "cr_sent_md log"] assms(1) by (auto simp: cr_parts_def)

lemma cr_rx_ok:
  assumes "cr_parts env P log s" "rx_admits x (cr_audio_mixer s)"
  shows "\<exists>y. rx_step env x (cr_audio_mixer s) = Inr y \<and> cr_parts env P log (s\<lparr>cr_audio_mixer := y\<rparr>)"
  using rx_step_wf [OF _ assms(2), of env] assms(1) by (auto simp: cr_parts_def)

lemma cr_tp_ok:
  assumes "cr_parts env P log s" "tp_admits env x (mt_publisher (cr_media_track s))"
  shows "\<exists>y. tp_step env x (mt_publisher (cr_media_track s)) = Inr y \<and> cr_parts env P log (s\<lparr>cr_media_track := (cr_media_track s)\<lparr>mt_publisher := y\<rparr>\<rparr>)"
  using tpc.step_logged [OF _ assms(2), of "cr_sent (Cr_MediaTrack Mt_Task_Publisher) pub_act log"] assms(1) by (auto simp: cr_parts_def)

lemma cr_tu_ok:
  assumes "cr_parts env P log s" "tu_admits x (mt_subscriber (cr_media_track s))"
  shows "\<exists>y. tu_step env x (mt_subscriber (cr_media_track s)) = Inr y \<and> cr_parts env P log (s\<lparr>cr_media_track := (cr_media_track s)\<lparr>mt_subscriber := y\<rparr>\<rparr>)"
  using tuc.step_logged [OF _ assms(2), of "cr_sent (Cr_MediaTrack Mt_Task_Subscriber) sub_act log" env] assms(1) by (auto simp: cr_parts_def)

lemma cr_mp_ok:
  assumes "cr_parts env P log s"
  shows "cr_parts env P log (s\<lparr>cr_message_channel := (cr_message_channel s)\<lparr>rmc_publisher := mp_step env x (rmc_publisher (cr_message_channel s))\<rparr>\<rparr>)"
  using mpc.step_logged [of "cr_sent (Cr_MessageChannel Rmc_Task_Publisher) pub_act log" _ env x] assms by (auto simp: cr_parts_def)

lemma cr_ms_ok:
  assumes "cr_parts env P log s"
  shows "cr_parts env P log (s\<lparr>cr_message_channel := (cr_message_channel s)\<lparr>rmc_subscriber := ms_step env x (rmc_subscriber (cr_message_channel s))\<rparr>\<rparr>)"
  using msc.step_logged [of "cr_sent (Cr_MessageChannel Rmc_Task_Subscriber) sub_act log" _ env x] assms by (auto simp: cr_parts_def)

lemma cr_mc_call_ok:
  assumes "cr_parts env P log s"
  shows "cr_parts env P log (s\<lparr>cr_message_channel := rmc_on_call env c (cr_message_channel s)\<rparr>)"
proof (cases c)
  case (Mc_Leave e)
  then show ?thesis using cr_mp_ok [OF cr_ms_ok [OF assms, of "Ms_Leave e"], of "Mp_Leave e"] by (simp add: Let_def)
next
  case (Mc_PublishStart e l)
  then show ?thesis using cr_mp_ok [OF assms, of "Mp_Start e l"] by simp
next
  case (Mc_PublishStop e l)
  then show ?thesis using cr_mp_ok [OF assms, of "Mp_Stop e l"] by simp
next
  case (Mc_Data e l d)
  then show ?thesis using cr_mp_ok [OF assms, of "Mp_Data e l d"] by simp
next
  case (Mc_Subscribe e l)
  then show ?thesis using cr_ms_ok [OF assms, of "Ms_Subscribe e l"] by simp
next
  case (Mc_Unsubscribe e l)
  then show ?thesis using cr_ms_ok [OF assms, of "Ms_Unsubscribe e l"] by simp
qed

text \<open>Steps that leave the tables of published tracks alone.\<close>

definition cr_same_tracks :: "('e, 'f) cluster_room \<Rightarrow> ('e, 'f) cluster_room \<Rightarrow> bool" where
  "cr_same_tracks s s' \<longleftrightarrow> xp_tracks (rx_publisher (cr_audio_mixer s')) = xp_tracks (rx_publisher (cr_audio_mixer s)) \<and>
     tp_tracks (mt_publisher (cr_media_track s')) = tp_tracks (mt_publisher (cr_media_track s))"

lemma cr_same_tracks_link: "cr_same_tracks s s' \<Longrightarrow> cr_link s \<Longrightarrow> cr_link s'"
  by (simp add: cr_same_tracks_def cr_link_def)

text \<open>The controls that an endpoint may send. A published track is ended with the kind it was started
  with, and sends audio packets only if it was started as audio.\<close>

definition cr_is_audio_track :: "'e \<Rightarrow> nat \<Rightarrow> ('e, 'f) cluster_room \<Rightarrow> bool" where
  "cr_is_audio_track e t s \<longleftrightarrow> im_contains (xp_tracks (rx_publisher (cr_audio_mixer s))) (e, t)"

fun cr_admits_control :: "peer_id set \<Rightarrow> nat \<Rightarrow> 'e \<Rightarrow> cluster_endpoint_control \<Rightarrow> ('e, 'f) cluster_room \<Rightarrow> bool" where
  "cr_admits_control P i e (Cec_Join _ _ _ _ mixer) s = (im_get (md_peers (cr_metadata s)) e = None \<and> rx_may_join i e mixer (cr_audio_mixer s))"
| "cr_admits_control P i e (Cec_SubscribePeer t) s = (im_get (md_peers (cr_metadata s)) e \<noteq> None \<and> t \<in> P)"
| "cr_admits_control P i e (Cec_UnsubscribePeer t) s = md_follows (cr_metadata s) e t"
| "cr_admits_control P i e (Cec_AudioMixer _) s = im_contains (rx_manual_mode (cr_audio_mixer s)) e"
| "cr_admits_control P i e (Cec_RemoteTrack t (Crt_Started _ _)) s = (\<not> im_contains (tp_tracks (mt_publisher (cr_media_track s))) (e, t))"
| "cr_admits_control P i e (Cec_RemoteTrack t (Crt_Media m)) s = (meta_is_audio (pkt_meta m) \<longrightarrow> cr_is_audio_track e t s)"
| "cr_admits_control P i e (Cec_RemoteTrack t (Crt_Ended _ meta)) s = (kind_is_audio (tm_kind meta) \<longleftrightarrow> cr_is_audio_track e t s)"
| "cr_admits_control P i e (Cec_LocalTrack t (Clt_Subscribe _ _)) s = (im_get (tu_subscribers (mt_subscriber (cr_media_track s))) (e, t) = None)"
| "cr_admits_control P i e _ s = True"

fun cr_admits_event :: "('e, 'f) cluster_room \<Rightarrow> room_user_data \<Rightarrow> bool" where
  "cr_admits_event s (RoomUserData _ feature) = (feature = Rf_AudioMixer \<longrightarrow> rx_drained (cr_audio_mixer s))"

section \<open>The mixer leaves the published tracks alone\<close>

lemma rx_child_frame:
  "rx_sub1 f s = Inr s' \<Longrightarrow> rx_publisher s' = rx_publisher s"
  "rx_sub2 f s = Inr s' \<Longrightarrow> rx_publisher s' = rx_publisher s"
  "rx_sub3 f s = Inr s' \<Longrightarrow> rx_publisher s' = rx_publisher s"
  "rx_manual i g s = Inr s' \<Longrightarrow> rx_publisher s' = rx_publisher s"
  by (auto simp: rx_sub1_def rx_sub2_def rx_sub3_def rx_manual_def run_simps)

lemma rx_manuals_frame: "rfold (\<lambda>i. rx_manual i g) is s = Inr s' \<Longrightarrow> rx_publisher s' = rx_publisher s"
  by (induction "is" arbitrary: s) (auto simp: run_simps dest!: rx_child_frame(4))

lemma xp_on_tick_tracks: "xp_on_tick now s = Inr s' \<Longrightarrow> xp_tracks s' = xp_tracks s"
  by (auto simp: xp_on_tick_def run_simps Let_def split: option.splits)

lemma rx_on_tick_tracks: "rx_on_tick now s = Inr s' \<Longrightarrow> xp_tracks (rx_publisher s') = xp_tracks (rx_publisher s)"
  by (auto simp: rx_on_tick_def run_simps rx_pub_def split: if_splits dest!: rx_child_frame xp_on_tick_tracks)

lemma rx_on_join_tracks: "rx_on_join env i e p cfg s = Inr s' \<Longrightarrow> rx_publisher s' = rx_publisher s"
  by (auto simp: rx_on_join_def Let_def split: option.splits audio_mixer_mode.splits if_splits dest!: rx_child_frame)

lemma rx_on_leave_tracks: "rx_on_leave env now e s = Inr s' \<Longrightarrow> rx_publisher s' = rx_publisher s"
  by (auto simp: rx_on_leave_def Let_def split: option.splits if_splits dest!: rx_child_frame)

lemma rx_on_control_tracks: "rx_on_control env now e c s = Inr s' \<Longrightarrow> rx_publisher s' = rx_publisher s"
  by (auto simp: rx_on_control_def run_simps dest!: rx_child_frame)

lemma rx_on_pubsub_tracks: "rx_on_pubsub_event env now c ev s = Inr s' \<Longrightarrow> rx_publisher s' = rx_publisher s"
  by (auto simp: rx_on_pubsub_event_def run_simps split: channel_event.splits if_splits option.splits dest!: rx_child_frame rx_manuals_frame)

lemma rx_on_manual_output_tracks: "rx_on_manual_output i out s = Inr (s', y) \<Longrightarrow> rx_publisher s' = rx_publisher s"
  by (auto simp: rx_on_manual_output_def Let_def run_simps split: mt_output.splits channel_control.splits option.splits if_splits)

lemma rx_pop_branch_tracks: "rx_pop_branch t s = Inr (s', y) \<Longrightarrow> xp_tracks (rx_publisher s') = xp_tracks (rx_publisher s)"
  by (auto simp: rx_pop_branch_def xp_pop_output_def Let_def split: rx_task.splits prod.splits list.splits option.splits
      dest!: rx_on_manual_output_tracks)

lemma rx_on_track_publish_tracks:
  assumes "rx_on_track_publish env e t p n s = Inr s'"
  shows "im_contains (xp_tracks (rx_publisher s')) k \<longleftrightarrow> k = (e, t) \<or> im_contains (xp_tracks (rx_publisher s)) k"
proof -
  have "\<exists>x. xp_tracks (rx_publisher s') = im_insert (e, t) x (xp_tracks (rx_publisher s))"
    using assms by (auto simp: rx_on_track_publish_def rx_pub_def xp_on_track_publish_def xp_push_def run_simps Let_def split: if_splits)
  then show ?thesis by (auto simp: im_contains_def im_get_insert)
qed

lemma rx_on_track_unpublish_tracks:
  assumes "rx_on_track_unpublish e t s = Inr s'" "im_wf (xp_tracks (rx_publisher s))"
  shows "im_contains (xp_tracks (rx_publisher s')) k \<longleftrightarrow> k \<noteq> (e, t) \<and> im_contains (xp_tracks (rx_publisher s)) k"
proof -
  have "xp_tracks (rx_publisher s') = im_swap_remove (e, t) (xp_tracks (rx_publisher s))"
    using assms(1) by (auto simp: rx_on_track_unpublish_def rx_pub_def xp_on_track_unpublish_def xp_push_def run_simps Let_def split: if_splits)
  then show ?thesis using assms(2) by (auto simp: im_contains_def im_get_swap_remove)
qed

lemma tp_tracks_frame [simp]:
  "tp_tracks (tp_on_track_data env e t m p) = tp_tracks p" "tp_tracks (tp_on_track_feedback env c fb p) = tp_tracks p"
  by (auto simp: tp_on_track_data_def tp_on_track_feedback_def tp_push_def split: option.splits)

lemma tp_on_track_publish_tracks:
  "im_contains (tp_tracks (tp_on_track_publish env e t p n s)) k \<longleftrightarrow> k = (e, t) \<or> im_contains (tp_tracks s) k"
  by (simp add: tp_on_track_publish_def tp_push_def Let_def im_contains_def im_get_insert)

lemma tp_on_track_unpublish_tracks:
  "tp_on_track_unpublish e t s = Inr s' \<Longrightarrow> k \<noteq> (e, t) \<Longrightarrow> im_wf (tp_tracks s) \<Longrightarrow> im_contains (tp_tracks s) k \<Longrightarrow> im_contains (tp_tracks s') k"
  by (auto simp: tp_on_track_unpublish_def tp_push_def run_simps Let_def im_contains_def im_get_swap_remove split: option.splits if_splits)

section \<open>Every operation of the room keeps the invariant\<close>

definition cr_ok :: "'f cluster_env \<Rightarrow> peer_id set \<Rightarrow> ('e, 'f) cr_log \<Rightarrow> ('e, 'f) cluster_room \<Rightarrow> bool" where
  "cr_ok env P log s \<longleftrightarrow> cr_parts env P log s \<and> cr_link s"

text \<open>The mixer steps other than the publication of tracks.\<close>

lemma cr_rx_keeps:
  assumes ok: "cr_ok env P log s" and adm: "rx_admits x (cr_audio_mixer s)"
    and frame: "\<And>y. rx_step env x (cr_audio_mixer s) = Inr y \<Longrightarrow> xp_tracks (rx_publisher y) = xp_tracks (rx_publisher (cr_audio_mixer s))"
  shows "\<exists>s'. cr_rx (rx_step env x) s = Inr s' \<and> cr_ok env P log s' \<and> cr_metadata s' = cr_metadata s \<and> cr_media_track s' = cr_media_track s"
proof -
  obtain y where y: "rx_step env x (cr_audio_mixer s) = Inr y" "cr_parts env P log (s\<lparr>cr_audio_mixer := y\<rparr>)"
    using cr_rx_ok [of env P log s x] ok adm by (auto simp: cr_ok_def)
  then show ?thesis using ok frame [OF y(1)] by (simp add: cr_ok_def cr_rx_def cr_link_def)
qed

lemma cr_md_keeps:
  assumes ok: "cr_ok env P log s" and adm: "md_admits P x (cr_metadata s)"
  shows "\<exists>s'. cr_md (md_step env x) s = Inr s' \<and> cr_ok env P log s'"
proof -
  obtain y where "md_step env x (cr_metadata s) = Inr y" "cr_parts env P log (s\<lparr>cr_metadata := y\<rparr>)"
    using cr_md_ok [of env P log s x] ok adm by (auto simp: cr_ok_def)
  then show ?thesis using ok by (simp add: cr_ok_def cr_md_def cr_link_def)
qed

lemma cr_mc_keeps: "cr_ok env P log s \<Longrightarrow> \<exists>s'. cr_mc (rmc_on_call env c) s = Inr s' \<and> cr_ok env P log s'"
  using cr_mc_call_ok [of env P log s c] by (simp add: cr_mc_def cr_ok_def cr_link_def)

lemma cr_tu_keeps:
  assumes ok: "cr_ok env P log s" and adm: "tu_admits x (mt_subscriber (cr_media_track s))"
  shows "\<exists>y. tu_step env x (mt_subscriber (cr_media_track s)) = Inr y \<and>
     cr_ok env P log (s\<lparr>cr_media_track := (cr_media_track s)\<lparr>mt_subscriber := y\<rparr>\<rparr>)"
  using cr_tu_ok [of env P log s x] ok adm by (auto simp: cr_ok_def cr_link_def)

text \<open>The steps of the features, as functions.\<close>

lemma cr_steps:
  "md_step env (Mo_Join e p m pub sub) = (\<lambda>x. Inr (md_on_join env e p m pub sub x))"
  "md_step env (Mo_Leave e) = md_on_leave env e"
  "md_step env (Mo_SubscribePeer e t) = md_on_subscribe_peer env e t"
  "md_step env (Mo_UnsubscribePeer e t) = md_on_unsubscribe_peer env e t"
  "md_step env (Mo_Publish e k n tm) = (\<lambda>x. Inr (md_on_track_publish env e k n tm x))"
  "md_step env (Mo_Unpublish e k) = (\<lambda>x. Inr (md_on_track_unpublish env e k x))"
  "md_step env (Mo_Kv c ev) = (\<lambda>x. Inr (md_on_kv_event env c ev x))"
  by (simp_all add: fun_eq_iff)

lemma rx_steps:
  "rx_step env (Rx_Tick now) = rx_on_tick now" "rx_step env (Rx_Join i e p cfg) = rx_on_join env i e p cfg"
  "rx_step env (Rx_Control now e c) = rx_on_control env now e c" "rx_step env (Rx_Leave now e) = rx_on_leave env now e"
  "rx_step env (Rx_Data now e k m) = rx_on_track_data env now e k m" "rx_step env (Rx_Pubsub now ch ev) = rx_on_pubsub_event env now ch ev"
  by (simp_all add: fun_eq_iff)

lemma cr_started_ok:
  assumes ok: "cr_ok env P log s" and new: "\<not> im_contains (tp_tracks (mt_publisher (cr_media_track s))) (e, t)"
  shows "\<exists>s'. cr_on_control_remote_track env now e t (Crt_Started n meta) s = Inr s' \<and> cr_ok env P log s'"
proof (cases "get_peer_from_endpoint e (cr_metadata s)")
  case None
  then show ?thesis using ok by (simp add: cr_on_control_remote_track_def)
next
  case (Some p)
  have "\<exists>s1. (if kind_is_audio (tm_kind meta) then cr_rx (rx_on_track_publish env e t p n) s else Inr s) = Inr s1 \<and> cr_parts env P log s1 \<and>
      cr_media_track s1 = cr_media_track s \<and>
      (\<forall>k. im_contains (xp_tracks (rx_publisher (cr_audio_mixer s1))) k \<longrightarrow> k = (e, t) \<or> im_contains (xp_tracks (rx_publisher (cr_audio_mixer s))) k)"
  proof (cases "kind_is_audio (tm_kind meta)")
    case True
    have "\<not> im_contains (xp_tracks (rx_publisher (cr_audio_mixer s))) (e, t)" using ok new by (auto simp: cr_ok_def cr_link_def)
    then obtain y where "rx_on_track_publish env e t p n (cr_audio_mixer s) = Inr y" "cr_parts env P log (s\<lparr>cr_audio_mixer := y\<rparr>)"
      using cr_rx_ok [of env P log s "Rx_Publish e t p n"] ok by (auto simp: cr_ok_def)
    then show ?thesis using True rx_on_track_publish_tracks [of env e t p n "cr_audio_mixer s" y] by (auto simp: cr_rx_def)
  qed (use ok in \<open>simp add: cr_ok_def\<close>)
  then obtain s1 where s1: "(if kind_is_audio (tm_kind meta) then cr_rx (rx_on_track_publish env e t p n) s else Inr s) = Inr s1"
      "cr_parts env P log s1" "cr_media_track s1 = cr_media_track s"
      "\<forall>k. im_contains (xp_tracks (rx_publisher (cr_audio_mixer s1))) k \<longrightarrow> k = (e, t) \<or> im_contains (xp_tracks (rx_publisher (cr_audio_mixer s))) k"
    by (elim exE conjE) (rule that; assumption)
  let ?q = "tp_on_track_publish env e t p n (mt_publisher (cr_media_track s1))"
  let ?s2 = "s1\<lparr>cr_media_track := (cr_media_track s1)\<lparr>mt_publisher := ?q\<rparr>\<rparr>"
  have "im_get (tp_tracks (mt_publisher (cr_media_track s1))) (e, t) = None" using new unfolding im_contains_def s1(3) by blast
  then have "cr_parts env P log ?s2" using cr_tp_ok [OF s1(2), of "Tp_Publish e t p n"] by simp
  moreover have "cr_link ?s2" using ok s1(3,4) by (auto simp: cr_ok_def cr_link_def tp_on_track_publish_tracks)
  ultimately have "cr_ok env P log ?s2" by (simp add: cr_ok_def)
  from cr_md_keeps [OF this, of "Mo_Publish e t n meta"] show ?thesis
    using Some s1(1) by (simp add: cr_on_control_remote_track_def cr_mt_def cr_steps)
qed

lemma cr_ended_ok:
  assumes ok: "cr_ok env P log s" and kind: "kind_is_audio (tm_kind meta) \<longleftrightarrow> cr_is_audio_track e t s"
  shows "\<exists>s'. cr_on_control_remote_track env now e t (Crt_Ended n meta) s = Inr s' \<and> cr_ok env P log s'"
proof -
  have "\<exists>s1. (if kind_is_audio (tm_kind meta) then cr_rx (rx_on_track_unpublish e t) s else Inr s) = Inr s1 \<and> cr_parts env P log s1 \<and>
      cr_media_track s1 = cr_media_track s \<and>
      (\<forall>k. im_contains (xp_tracks (rx_publisher (cr_audio_mixer s1))) k \<longrightarrow> k \<noteq> (e, t) \<and> im_contains (xp_tracks (rx_publisher (cr_audio_mixer s))) k)"
  proof (cases "kind_is_audio (tm_kind meta)")
    case True
    then obtain y where "rx_on_track_unpublish e t (cr_audio_mixer s) = Inr y" "cr_parts env P log (s\<lparr>cr_audio_mixer := y\<rparr>)"
      using cr_rx_ok [of env P log s "Rx_Unpublish e t"] ok kind by (auto simp: cr_ok_def cr_is_audio_track_def)
    moreover have "im_wf (xp_tracks (rx_publisher (cr_audio_mixer s)))" using ok by (simp add: cr_ok_def cr_parts_def rx_wf_def xp_wf_def)
    ultimately show ?thesis using True rx_on_track_unpublish_tracks [of e t "cr_audio_mixer s" y] by (auto simp: cr_rx_def)
  qed (use ok kind in \<open>auto simp: cr_ok_def cr_is_audio_track_def\<close>)
  then obtain s1 where s1: "(if kind_is_audio (tm_kind meta) then cr_rx (rx_on_track_unpublish e t) s else Inr s) = Inr s1"
      "cr_parts env P log s1" "cr_media_track s1 = cr_media_track s"
      "\<forall>k. im_contains (xp_tracks (rx_publisher (cr_audio_mixer s1))) k \<longrightarrow> k \<noteq> (e, t) \<and> im_contains (xp_tracks (rx_publisher (cr_audio_mixer s))) k"
    by (elim exE conjE) (rule that; assumption)
  obtain q where q: "tp_on_track_unpublish e t (mt_publisher (cr_media_track s1)) = Inr q"
      "cr_parts env P log (s1\<lparr>cr_media_track := (cr_media_track s1)\<lparr>mt_publisher := q\<rparr>\<rparr>)"
    using cr_tp_ok [OF s1(2), of "Tp_Unpublish e t"] by auto
  have "im_wf (tp_tracks (mt_publisher (cr_media_track s1)))"
    using s1(2) tp_wfD [of "mt_publisher (cr_media_track s1)"] by (simp add: cr_parts_def logged_def)
  then have "cr_link (s1\<lparr>cr_media_track := (cr_media_track s1)\<lparr>mt_publisher := q\<rparr>\<rparr>)"
    using ok s1(3,4) tp_on_track_unpublish_tracks [OF q(1)] by (auto simp: cr_ok_def cr_link_def)
  with q(2) have "cr_ok env P log (s1\<lparr>cr_media_track := (cr_media_track s1)\<lparr>mt_publisher := q\<rparr>\<rparr>)" by (simp add: cr_ok_def)
  from cr_md_keeps [OF this, of "Mo_Unpublish e t"] show ?thesis
    using s1(1) q(1) by (simp add: cr_on_control_remote_track_def cr_mt_def cr_steps)
qed

lemma cr_media_ok:
  assumes ok: "cr_ok env P log s" and audio: "meta_is_audio (pkt_meta m) \<longrightarrow> cr_is_audio_track e t s"
  shows "\<exists>s'. cr_on_control_remote_track env now e t (Crt_Media m) s = Inr s' \<and> cr_ok env P log s'"
proof -
  have "\<exists>s1. (if meta_is_audio (pkt_meta m) then cr_rx (rx_on_track_data env now e t m) s else Inr s) = Inr s1 \<and> cr_ok env P log s1"
  proof (cases "meta_is_audio (pkt_meta m)")
    case True
    let ?x = "cr_audio_mixer s"
    have wf: "xp_wf (rx_publisher ?x)" using ok by (simp add: cr_ok_def cr_parts_def rx_wf_def)
    obtain info where info: "im_get (xp_tracks (rx_publisher ?x)) (e, t) = Some info"
      using audio True by (auto simp: cr_is_audio_track_def im_contains_get)
    have frame: "xp_tracks (rx_publisher y) = xp_tracks (rx_publisher ?x)" if "rx_step env (Rx_Data now e t m) ?x = Inr y" for y
      using xp_on_track_data_ok [OF wf info, of env now m] that by (auto simp: rx_on_track_data_def rx_pub_def)
    have "rx_admits (Rx_Data now e t m) ?x" using True audio by (simp add: cr_is_audio_track_def)
    from cr_rx_keeps [OF ok this frame] show ?thesis using True by (auto simp: rx_steps)
  qed (use ok in simp)
  then obtain s1 where s1: "(if meta_is_audio (pkt_meta m) then cr_rx (rx_on_track_data env now e t m) s else Inr s) = Inr s1" "cr_ok env P log s1"
    by blast
  have "cr_ok env P log (s1\<lparr>cr_media_track := (cr_media_track s1)\<lparr>mt_publisher := tp_on_track_data env e t m (mt_publisher (cr_media_track s1))\<rparr>\<rparr>)"
    using cr_tp_ok [of env P log s1 "Tp_Data e t m"] s1(2) by (simp add: cr_ok_def cr_link_def)
  then show ?thesis using s1(1) by (simp add: cr_on_control_remote_track_def cr_mt_def)
qed

lemma cr_local_track_ok:
  assumes ok: "cr_ok env P log s"
    and new: "\<And>p n. c = Clt_Subscribe p n \<Longrightarrow> im_get (tu_subscribers (mt_subscriber (cr_media_track s))) (e, t) = None"
  shows "\<exists>s'. cr_on_control_local_track env now e t c s = Inr s' \<and> cr_ok env P log s'"
proof (cases c)
  case (Clt_Subscribe p n)
  then show ?thesis using cr_tu_keeps [OF ok, of "Tu_Subscribe e t p n"] new [OF Clt_Subscribe]
    by (simp add: cr_on_control_local_track_def cr_mt_def)
next
  case Clt_RequestKeyFrame
  then show ?thesis using cr_tu_keeps [OF ok, of "Tu_RequestKey e t"] by (simp add: cr_on_control_local_track_def cr_mt_def)
next
  case (Clt_DesiredBitrate b)
  then show ?thesis using cr_tu_keeps [OF ok, of "Tu_DesiredBitrate now e t b"] by (simp add: cr_on_control_local_track_def cr_mt_def)
next
  case Clt_Unsubscribe
  then show ?thesis using cr_tu_keeps [OF ok, of "Tu_Unsubscribe e t"] by (simp add: cr_on_control_local_track_def cr_mt_def)
qed

lemma cr_leave_ok:
  assumes ok: "cr_ok env P log s"
  shows "\<exists>s'. cr_on_endpoint_control env now i e Cec_Leave s = Inr s' \<and> cr_ok env P log s'"
proof -
  obtain s1 where s1: "cr_rx (rx_on_leave env now e) s = Inr s1" "cr_ok env P log s1"
    using cr_rx_keeps [OF ok, of "Rx_Leave now e"] rx_on_leave_tracks [of env now e "cr_audio_mixer s"] by (auto simp: rx_steps)
  obtain s2 where s2: "cr_md (md_on_leave env e) s1 = Inr s2" "cr_ok env P log s2"
    using cr_md_keeps [OF s1(2), of "Mo_Leave e"] by (auto simp: cr_steps)
  from cr_mc_keeps [OF s2(2), of "Mc_Leave e"] show ?thesis using s1(1) s2(1) by (simp add: cr_on_endpoint_control_def)
qed

lemma cr_join_ok:
  assumes ok: "cr_ok env P log s" and adm: "cr_admits_control P i e (Cec_Join p m pub sub mixer) s"
  shows "\<exists>s'. cr_on_endpoint_control env now i e (Cec_Join p m pub sub mixer) s = Inr s' \<and> cr_ok env P log s'"
proof -
  obtain s1 where s1: "cr_rx (rx_on_join env i e p mixer) s = Inr s1" "cr_ok env P log s1" "cr_metadata s1 = cr_metadata s"
    using cr_rx_keeps [OF ok, of "Rx_Join i e p mixer"] rx_on_join_tracks [of env i e p mixer "cr_audio_mixer s"] adm by (auto simp: rx_steps)
  from cr_md_keeps [OF s1(2), of "Mo_Join e p m pub sub"] adm s1 show ?thesis
    by (simp add: cr_on_endpoint_control_def cr_steps)
qed

lemma cr_control_ok:
  assumes ok: "cr_ok env P log s" and adm: "cr_admits_control P i e c s"
  shows "\<exists>s'. cr_on_endpoint_control env now i e c s = Inr s' \<and> cr_ok env P log s'"
proof (cases c)
  case (Cec_Join p m pub sub mixer)
  then show ?thesis using cr_join_ok [OF ok] adm by simp
next
  case Cec_Leave
  then show ?thesis using cr_leave_ok [OF ok] by simp
next
  case (Cec_SubscribePeer t)
  then show ?thesis using cr_md_keeps [OF ok, of "Mo_SubscribePeer e t"] adm by (simp add: cr_on_endpoint_control_def cr_steps)
next
  case (Cec_UnsubscribePeer t)
  then show ?thesis using cr_md_keeps [OF ok, of "Mo_UnsubscribePeer e t"] adm
    by (simp add: cr_on_endpoint_control_def cr_steps md_follows_def)
next
  case (Cec_AudioMixer ctl)
  then show ?thesis using cr_rx_keeps [OF ok, of "Rx_Control now e ctl"] rx_on_control_tracks [of env now e ctl "cr_audio_mixer s"] adm
    by (auto simp: cr_on_endpoint_control_def rx_steps)
next
  case (Cec_RemoteTrack t ctl)
  then show ?thesis using adm cr_started_ok [OF ok, of e t] cr_media_ok [OF ok, of _ e t] cr_ended_ok [OF ok, of _ e t]
    by (cases ctl) (auto simp: cr_on_endpoint_control_def)
next
  case (Cec_LocalTrack t ctl)
  have "im_get (tu_subscribers (mt_subscriber (cr_media_track s))) (e, t) = None" if "ctl = Clt_Subscribe p n" for p n
    using adm Cec_LocalTrack that by simp
  from cr_local_track_ok [OF ok this] Cec_LocalTrack show ?thesis by (simp add: cr_on_endpoint_control_def)
next
  case (Cec_MessageChannel l ctl)
  then show ?thesis using cr_mc_keeps [OF ok] by (simp add: cr_on_endpoint_control_def cr_on_control_message_channel_def)
qed

lemma cr_on_sdn_event_ok:
  assumes ok: "cr_ok env P log s" and adm: "cr_admits_event s ud"
  shows "\<exists>s'. cr_on_sdn_event env now ud ev s = Inr s' \<and> cr_ok env P log s'"
proof -
  obtain r f where ud: "ud = RoomUserData r f" by (cases ud)
  show ?thesis
  proof (cases ev)
    case (Fe_DhtKv k)
    then show ?thesis using ok ud cr_md_keeps [OF ok, where x = "Mo_Kv m ev" for m ev]
      by (cases f; cases k) (auto simp: cr_on_sdn_event_def cr_steps)
  next
    case (Fe_PubSub c x)
    show ?thesis
    proof (cases f)
      case Rf_MetaData
      then show ?thesis using ok ud Fe_PubSub by (simp add: cr_on_sdn_event_def)
    next
      case Rf_MediaTrack
      have "cr_ok env P log (s\<lparr>cr_media_track := mt_on_pubsub_event env c x (cr_media_track s)\<rparr>)"
      proof (cases x)
        case (RouteChanged r)
        then show ?thesis using cr_tu_keeps [OF ok, of "Tu_Relay c r"] by (simp add: mt_on_pubsub_event_def)
      next
        case (SourceData nd d)
        then show ?thesis using cr_tu_keeps [OF ok, of "Tu_Data c d"] by (simp add: mt_on_pubsub_event_def)
      next
        case (FeedbackData fb)
        then show ?thesis using cr_tp_ok [of env P log s "Tp_Feedback c fb"] ok
          by (simp add: mt_on_pubsub_event_def cr_ok_def cr_link_def)
      qed
      then show ?thesis using ud Fe_PubSub Rf_MediaTrack by (simp add: cr_on_sdn_event_def cr_mt_def)
    next
      case Rf_AudioMixer
      then show ?thesis using cr_rx_keeps [OF ok, of "Rx_Pubsub now c x"] rx_on_pubsub_tracks [of env now c x "cr_audio_mixer s"] adm ud Fe_PubSub
        by (auto simp: cr_on_sdn_event_def rx_steps)
    next
      case Rf_MessageChannel
      have "cr_ok env P log (s\<lparr>cr_message_channel := rmc_on_pubsub_event env c x (cr_message_channel s)\<rparr>)"
        using cr_ms_ok [of env P log s "Ms_Data c d" for d] ok
        by (cases x) (auto simp: rmc_on_pubsub_event_def cr_ok_def cr_link_def)
      then show ?thesis using ud Fe_PubSub Rf_MessageChannel by (simp add: cr_on_sdn_event_def cr_mc_def)
    qed
  qed
qed

section \<open>Polling keeps the invariant\<close>

definition cr_entry :: "cr_task \<Rightarrow> ('e, 'f) cr_output option \<Rightarrow> ('e, 'f) cr_log" where
  "cr_entry t out = (case out of None \<Rightarrow> [] | Some x \<Rightarrow> [(t, x)])"

lemma cr_entry_md [simp]:
  "cr_sent_md (cr_entry Cr_Metadata (cr_forward_md r x)) = md_ctls [x]"
  "t \<noteq> Cr_Metadata \<Longrightarrow> cr_sent_md (cr_entry t y) = []"
  by (auto simp: cr_sent_md_def cr_entry_def cr_forward_md_def md_ctls_def List.map_filter_def split: md_output.splits option.splits cr_task.splits)

lemma cr_entry_pubsub [simp]:
  "cr_sent t act (cr_entry t (cr_forward r f x)) = mt_ctls act [x]"
  "t' \<noteq> t \<Longrightarrow> cr_sent t act (cr_entry t' y) = []"
  "cr_sent t act (cr_entry t' None) = []" "cr_sent_md (cr_entry t' None) = []"
  by (auto simp: cr_sent_def cr_sent_md_def cr_entry_def cr_forward_def mt_ctls_def List.map_filter_def
      split: mt_output.splits option.splits cr_output.splits features_control.splits)

lemma ctls_Cons: "md_ctls (x # q) = md_ctls [x] @ md_ctls q" "mt_ctls act (y # r) = mt_ctls act [y] @ mt_ctls act r"
  using md_ctls_simps(1) [of "[x]" q] mt_ctls_append [of act "[y]" r] by simp_all

text \<open>Queues are no part of what the features hold.\<close>

lemma md_pop_frame: "md_wf env P (s\<lparr>md_queue := q\<rparr>) = md_wf env P s" "md_held (s\<lparr>md_queue := q\<rparr>) = md_held s"
  by (simp_all add: md_wf_def md_held_def md_follows_def)

lemma tp_pop_frame: "tp_wf (s\<lparr>tp_queue := q\<rparr>) = tp_wf s" "tp_held (s\<lparr>tp_queue := q\<rparr>) = tp_held s"
  by (simp_all add: tp_wf_def tp_held_def)

lemma tu_pop_frame: "tu_wf (s\<lparr>tu_queue := q\<rparr>) = tu_wf s" "tu_held (s\<lparr>tu_queue := q\<rparr>) = tu_held s"
  by (simp_all add: tu_wf_def tu_held_def)

lemma mp_pop_frame: "mp_wf (s\<lparr>mp_queue := q\<rparr>) = mp_wf s" "mp_held (s\<lparr>mp_queue := q\<rparr>) = mp_held s"
  by (simp_all add: mp_wf_def mp_held_def mp_sets_def)

lemma ms_pop_frame: "ms_wf (s\<lparr>ms_queue := q\<rparr>) = ms_wf s" "ms_held (s\<lparr>ms_queue := q\<rparr>) = ms_held s"
  by (simp_all add: ms_wf_def ms_held_def ms_sets_def)

lemmas pop_frames = md_pop_frame tp_pop_frame tu_pop_frame mp_pop_frame ms_pop_frame

lemma mt_ctls_empty [simp]: "mt_ctls act [Mt_OnResourceEmpty] = []"
  by (simp add: mt_ctls_def List.map_filter_def)

lemmas cr_pop_defs = cr_pop_branch_def md_pop_output_def mt_pop_branch_def tp_pop_output_def tu_pop_output_def rmc_pop_branch_def
  mp_pop_output_def ms_pop_output_def cr_ok_def cr_parts_def cr_link_def

lemma cr_pop_md_ok:
  assumes ok: "cr_ok env P log s"
  shows "\<exists>s' out. cr_pop_branch Cr_Metadata s = Inr (s', out) \<and> cr_ok env P (log @ cr_entry Cr_Metadata out) s'"
proof (cases "md_queue (cr_metadata s)")
  case Nil
  then show ?thesis using ok by (simp add: cr_pop_defs)
next
  case (Cons x q)
  have "logged (\<lambda>x. md_ctls (md_queue x)) md_held (md_wf env P) (cr_sent_md log @ md_ctls [x]) ((cr_metadata s)\<lparr>md_queue := q\<rparr>)"
    using ok Cons ctls_Cons(1) [of x q]
    by (intro logged_pop [where s = "cr_metadata s"]) (simp_all add: cr_ok_def cr_parts_def logged_def pop_frames)
  then show ?thesis using ok Cons by (simp add: cr_pop_defs)
qed

text \<open>What the two parts of a feature hand out, and the entry it makes.\<close>

lemma cr_entry_mt:
  "cr_sent t act (cr_entry t (Option.bind (case Some x of Some Mt_OnResourceEmpty \<Rightarrow> None | _ \<Rightarrow> Some x) (cr_forward r f))) = mt_ctls act [x]"
  by (cases x) simp_all

lemma cr_pop_mt_ok:
  assumes ok: "cr_ok env P log s"
  shows "\<exists>s' out. cr_pop_branch (Cr_MediaTrack t) s = Inr (s', out) \<and> cr_ok env P (log @ cr_entry (Cr_MediaTrack t) out) s'"
proof (cases t)
  case Mt_Task_Publisher
  let ?p = "mt_publisher (cr_media_track s)"
  show ?thesis
  proof (cases "tp_queue ?p")
    case Nil
    then show ?thesis using ok Mt_Task_Publisher
      by (simp add: cr_pop_defs)
  next
    case (Cons x q)
    have "logged (\<lambda>x. mt_ctls pub_act (tp_queue x)) tp_held tp_wf
        (cr_sent (Cr_MediaTrack Mt_Task_Publisher) pub_act log @ mt_ctls pub_act [x]) (?p\<lparr>tp_queue := q\<rparr>)"
      using ok Cons ctls_Cons(2) [of pub_act x q]
      by (intro logged_pop [where s = ?p]) (simp_all add: cr_ok_def cr_parts_def logged_def pop_frames)
    then show ?thesis using ok Cons Mt_Task_Publisher cr_entry_mt [of "Cr_MediaTrack t" pub_act x "cr_room s" Rf_MediaTrack]
      by (simp add: cr_pop_defs)
  qed
next
  case Mt_Task_Subscriber
  let ?u = "mt_subscriber (cr_media_track s)"
  show ?thesis
  proof (cases "tu_queue ?u")
    case Nil
    then show ?thesis using ok Mt_Task_Subscriber
      by (simp add: cr_pop_defs)
  next
    case (Cons x q)
    have "logged (\<lambda>x. mt_ctls sub_act (tu_queue x)) tu_held tu_wf
        (cr_sent (Cr_MediaTrack Mt_Task_Subscriber) sub_act log @ mt_ctls sub_act [x]) (?u\<lparr>tu_queue := q\<rparr>)"
      using ok Cons ctls_Cons(2) [of sub_act x q]
      by (intro logged_pop [where s = ?u]) (simp_all add: cr_ok_def cr_parts_def logged_def pop_frames)
    then show ?thesis using ok Cons Mt_Task_Subscriber cr_entry_mt [of "Cr_MediaTrack t" sub_act x "cr_room s" Rf_MediaTrack]
      by (simp add: cr_pop_defs)
  qed
qed

lemma cr_pop_mc_ok:
  assumes ok: "cr_ok env P log s"
  shows "\<exists>s' out. cr_pop_branch (Cr_MessageChannel t) s = Inr (s', out) \<and> cr_ok env P (log @ cr_entry (Cr_MessageChannel t) out) s'"
proof (cases t)
  case Rmc_Task_Publisher
  let ?p = "rmc_publisher (cr_message_channel s)"
  show ?thesis
  proof (cases "mp_queue ?p")
    case (Cons x q)
    have "logged (\<lambda>x. mt_ctls pub_act (mp_queue x)) mp_held mp_wf
        (cr_sent (Cr_MessageChannel Rmc_Task_Publisher) pub_act log @ mt_ctls pub_act [x]) (?p\<lparr>mp_queue := q\<rparr>)"
      using ok Cons ctls_Cons(2) [of pub_act x q]
      by (intro logged_pop [where s = ?p]) (simp_all add: cr_ok_def cr_parts_def logged_def pop_frames)
    then show ?thesis using ok Cons Rmc_Task_Publisher cr_entry_mt [of "Cr_MessageChannel t" pub_act x "cr_room s" Rf_MessageChannel]
      by (simp add: cr_pop_defs)
  qed (use ok Rmc_Task_Publisher in \<open>simp add: cr_pop_defs\<close>)
next
  case Rmc_Task_Subscriber
  let ?u = "rmc_subscriber (cr_message_channel s)"
  show ?thesis
  proof (cases "ms_queue ?u")
    case (Cons x q)
    have "logged (\<lambda>x. mt_ctls sub_act (ms_queue x)) ms_held ms_wf
        (cr_sent (Cr_MessageChannel Rmc_Task_Subscriber) sub_act log @ mt_ctls sub_act [x]) (?u\<lparr>ms_queue := q\<rparr>)"
      using ok Cons ctls_Cons(2) [of sub_act x q]
      by (intro logged_pop [where s = ?u]) (simp_all add: cr_ok_def cr_parts_def logged_def pop_frames)
    then show ?thesis using ok Cons Rmc_Task_Subscriber cr_entry_mt [of "Cr_MessageChannel t" sub_act x "cr_room s" Rf_MessageChannel]
      by (simp add: cr_pop_defs)
  qed (use ok Rmc_Task_Subscriber in \<open>simp add: cr_pop_defs\<close>)
qed

lemma cr_pop_ok:
  assumes ok: "cr_ok env P log s"
  shows "\<exists>s' out. cr_pop_branch t s = Inr (s', out) \<and> cr_ok env P (log @ cr_entry t out) s'"
proof (cases t)
  case (Cr_AudioMixer k)
  obtain x y where x: "rx_pop_branch k (cr_audio_mixer s) = Inr (x, y)" "rx_wf x"
    using rx_pop_branch_wf [of "cr_audio_mixer s" k] ok by (auto simp: cr_ok_def cr_parts_def)
  then show ?thesis using ok Cr_AudioMixer rx_pop_branch_tracks [OF x(1)] by (simp add: cr_pop_branch_def cr_ok_def cr_parts_def cr_link_def)
qed (use cr_pop_md_ok [OF ok] cr_pop_mt_ok [OF ok] cr_pop_mc_ok [OF ok] in simp_all)

section \<open>Runs\<close>

datatype ('e, 'f) cr_op =
    Cro_Tick nat
  | Cro_Event nat nat "('e, 'f) cr_input"
  | Cro_Poll cr_task
  | Cro_ManualEmpty nat

fun cr_step :: "'f cluster_env \<Rightarrow> ('e, 'f) cr_op \<Rightarrow> ('e, 'f) cluster_room \<times> ('e, 'f) cr_log \<Rightarrow> (('e, 'f) cluster_room \<times> ('e, 'f) cr_log) run" where
  "cr_step env (Cro_Tick now) (s, log) = rbind (cr_on_tick now s) (\<lambda>s'. Inr (s', log))"
| "cr_step env (Cro_Event now i x) (s, log) = rbind (cr_on_event env now i x s) (\<lambda>s'. Inr (s', log))"
| "cr_step env (Cro_Poll t) (s, log) = rbind (cr_pop_branch t s) (\<lambda>(s', out). Inr (s', log @ cr_entry t out))"
| "cr_step env (Cro_ManualEmpty i) (s, log) = rbind (cr_rx (rx_step env (Rx_Gone i)) s) (\<lambda>s'. Inr (s', log))"

fun cr_admits :: "peer_id set \<Rightarrow> ('e, 'f) cr_op \<Rightarrow> ('e, 'f) cluster_room \<times> ('e, 'f) cr_log \<Rightarrow> bool" where
  "cr_admits P (Cro_Event _ i (Cr_Endpoint e c)) (s, _) = cr_admits_control P i e c s"
| "cr_admits P (Cro_Event _ _ (Cr_Sdn ud _)) (s, _) = cr_admits_event s ud"
| "cr_admits P (Cro_ManualEmpty i) (s, _) = rx_admits (Rx_Gone i) (cr_audio_mixer s)"
| "cr_admits P _ _ = True"

lemma cr_step_ok:
  assumes ok: "cr_ok env P log s" and adm: "cr_admits P x (s, log)"
  shows "\<exists>s' log'. cr_step env x (s, log) = Inr (s', log') \<and> cr_ok env P log' s'"
proof (cases x)
  case (Cro_Tick now)
  then show ?thesis using cr_rx_keeps [OF ok, of "Rx_Tick now"] rx_on_tick_tracks [of now "cr_audio_mixer s"]
    by (auto simp: cr_on_tick_def rx_steps)
next
  case (Cro_Event now i inp)
  show ?thesis
  proof (cases inp)
    case (Cr_Sdn ud ev)
    then show ?thesis using adm cr_on_sdn_event_ok [OF ok, of ud now ev] Cro_Event by (auto simp: cr_on_event_def)
  next
    case (Cr_Endpoint e c)
    then show ?thesis using adm cr_control_ok [OF ok, of i e c now] Cro_Event by (auto simp: cr_on_event_def)
  qed
next
  case (Cro_Poll t)
  then show ?thesis using cr_pop_ok [OF ok, of t] by auto
next
  case (Cro_ManualEmpty i)
  have frame: "xp_tracks (rx_publisher y) = xp_tracks (rx_publisher (cr_audio_mixer s))" if "rx_step env (Rx_Gone i) (cr_audio_mixer s) = Inr y" for y
    using that by (auto simp: run_simps dest!: rx_on_manual_output_tracks)
  have gone: "rx_admits (Rx_Gone i) (cr_audio_mixer s)" using adm Cro_ManualEmpty by (simp del: rx_admits.simps)
  obtain s' where "cr_rx (rx_step env (Rx_Gone i)) s = Inr s'" "cr_ok env P log s'" using cr_rx_keeps [OF ok gone frame] by blast
  then show ?thesis using Cro_ManualEmpty by simp
qed

text \<open>
  C1. A room never panics on what its endpoints may send, and keeps to the protocol of every
  feature at the network: for each of metadata, media tracks (both directions) and message channels
  (both directions), the controls that left the room so far, followed by those still queued, form a
  proper series of sessions that ends with exactly the maps or channels the feature holds. Here
  endpoints join once, publish a track once, end it with the kind it was started with and send audio
  packets only on audio tracks, and followed peers have distinct map ids.
\<close>
theorem cr_run_safe:
  assumes "no_map_clash env room P" and "admits_run (cr_admits P) (cr_step env) xs (cr_new env now room :: ('e, 'f) cluster_room, [])"
  shows "\<exists>s log. rfold (cr_step env) xs (cr_new env now room :: ('e, 'f) cluster_room, []) = Inr (s, log) \<and>
     sessions {} (cr_sent_md log @ md_ctls (md_queue (cr_metadata s))) = Some (md_held (cr_metadata s)) \<and>
     sessions {} (cr_sent (Cr_MediaTrack Mt_Task_Publisher) pub_act log @ mt_ctls pub_act (tp_queue (mt_publisher (cr_media_track s)))) =
       Some (fst ` set (tp_tracks_source (mt_publisher (cr_media_track s)))) \<and>
     sessions {} (cr_sent (Cr_MediaTrack Mt_Task_Subscriber) sub_act log @ mt_ctls sub_act (tu_queue (mt_subscriber (cr_media_track s)))) =
       Some (fst ` set (tu_channels (mt_subscriber (cr_media_track s)))) \<and>
     sessions {} (cr_sent (Cr_MessageChannel Rmc_Task_Publisher) pub_act log @ mt_ctls pub_act (mp_queue (rmc_publisher (cr_message_channel s)))) =
       Some (fst ` set (mp_channels (rmc_publisher (cr_message_channel s)))) \<and>
     sessions {} (cr_sent (Cr_MessageChannel Rmc_Task_Subscriber) sub_act log @ mt_ctls sub_act (ms_queue (rmc_subscriber (cr_message_channel s)))) =
       Some (fst ` set (ms_channels (rmc_subscriber (cr_message_channel s))))"
proof -
  let ?ok = "\<lambda>(s, log). cr_ok env P log (s :: ('e, 'f) cluster_room)"
  have new: "?ok (cr_new env now room, [])" by (simp add: cr_ok_def cr_parts_new [OF assms(1)] cr_link_new)
  have step: "\<exists>t. cr_step env x u = Inr t \<and> ?ok t" if "?ok u" "cr_admits P x u" for x u
    using cr_step_ok [of env P "snd u" "fst u" x] that by (cases u) auto
  obtain s log where "rfold (cr_step env) xs (cr_new env now room :: ('e, 'f) cluster_room, []) = Inr (s, log)" "cr_parts env P log s"
    using admits_run_invariant [of ?ok, OF new assms(2) step] by (auto simp: cr_ok_def)
  then show ?thesis unfolding cr_parts_def logged_def tp_held_def tu_held_def mp_held_def ms_held_def by blast
qed

lemmas cr_eval = cr_new_def cr_on_event_def cr_on_endpoint_control_def cr_rx_def cr_md_def cr_mt_def cr_mc_def cr_on_control_remote_track_def
  rx_on_join_def rx_on_leave_def rx_new_def mt_new_def tp_new_def rmc_new_def md_new_def get_peer_from_endpoint_def rx_on_track_publish_def
  rx_on_track_unpublish_def rx_pub_def xp_new_def xp_on_track_publish_def xp_on_track_unpublish_def xp_push_def im_contains_def im_get_def
  rx_may_join_def cr_is_audio_track_def kind_is_audio_def default_audio_def md_on_join_def md_push_def Let_def tp_on_track_publish_def
  tp_push_def im_swap_remove_def cr_pop_defs md_on_track_publish_def md_join_peers_def

theorem cr_run_safe_witness:
  "\<exists>s log. rfold (cr_step demo_env)
       [Cro_Event 0 0 (Cr_Endpoint (1::nat) (Cec_Join ''alice'' \<lparr>pm_metadata = None, pm_extra_data = None\<rparr> \<lparr>rip_peer = True, rip_tracks = True\<rparr>
          \<lparr>ris_peers = True, ris_tracks = False\<rparr> None)),
        Cro_Event 0 0 (Cr_Endpoint 1 (Cec_RemoteTrack 4 (Crt_Started ''mic'' default_audio))),
        Cro_Poll (Cr_MediaTrack Mt_Task_Publisher),
        Cro_Event 0 0 (Cr_Endpoint 1 (Cec_RemoteTrack 4 (Crt_Ended ''mic'' default_audio)))]
       (cr_new demo_env 0 3, []) = Inr (s, log) \<and>
     sessions {} (cr_sent_md log @ md_ctls (md_queue (cr_metadata s))) = Some (md_held (cr_metadata s))"
proof -
  let ?xs = "[Cro_Event 0 0 (Cr_Endpoint (1::nat) (Cec_Join ''alice'' \<lparr>pm_metadata = None, pm_extra_data = None\<rparr> \<lparr>rip_peer = True, rip_tracks = True\<rparr>
          \<lparr>ris_peers = True, ris_tracks = False\<rparr> None)),
        Cro_Event 0 0 (Cr_Endpoint 1 (Cec_RemoteTrack 4 (Crt_Started ''mic'' default_audio))),
        Cro_Poll (Cr_MediaTrack Mt_Task_Publisher),
        Cro_Event 0 0 (Cr_Endpoint 1 (Cec_RemoteTrack 4 (Crt_Ended ''mic'' default_audio)))]"
  have clash: "no_map_clash demo_env 3 {}" by (simp add: no_map_clash_def)
  have "admits_run (cr_admits {}) (cr_step demo_env) ?xs (cr_new demo_env 0 3, [])"
    by (simp add: cr_eval split: sum.split)
  from cr_run_safe [OF clash this] show ?thesis by blast
qed

end
