(* ===== verification/Media_Cluster.thy ===== *)
theory Media_Cluster
  imports Cluster_Room
begin

text \<open>
  \<^verbatim>\<open>packages/media_core/src/cluster.rs\<close>: the cluster, a collection of rooms. Rooms live in a task
  group of the runtime library, modelled as a table by index in which the index of a new task is an
  argument; \<open>mcl_rooms_map\<close> finds the index of a room by its hash. The refinement theorem says that
  the cluster is a collection of independent rooms: every room behaves as if it were alone, created
  by the first control addressed to it and dropped when it is reported empty.
\<close>

section \<open>State and operations\<close>

datatype ('e, 'f) mcl_output = Mcl_OutSdn room_user_data "'f features_control" | Mcl_OutEndpoint "'e list" cluster_endpoint_event
  | Mcl_OnResourceEmpty | Mcl_Continue

record ('e, 'f) media_cluster =
  mcl_rooms_map :: "(room_hash, nat) imap"
  mcl_rooms :: "(nat, ('e, 'f) cluster_room) imap"
  mcl_shutdown_flag :: bool

definition mcl_default :: "('e, 'f) media_cluster" where
  "mcl_default = \<lparr>mcl_rooms_map = [], mcl_rooms = [], mcl_shutdown_flag = False\<rparr>"

definition mcl_call :: "nat \<Rightarrow> (('e, 'f) cluster_room \<Rightarrow> ('e, 'f) cluster_room run) \<Rightarrow> ('e, 'f) media_cluster \<Rightarrow> ('e, 'f) media_cluster run" where
  "mcl_call index f s = rbind (tg_run index f (mcl_rooms s)) (\<lambda>rooms. Inr (s\<lparr>mcl_rooms := rooms\<rparr>))"

definition mcl_on_tick :: "nat \<Rightarrow> ('e, 'f) media_cluster \<Rightarrow> ('e, 'f) media_cluster run" where
  "mcl_on_tick now s = rbind (tg_run_all (cr_on_tick now) (mcl_rooms s)) (\<lambda>rooms. Inr (s\<lparr>mcl_rooms := rooms\<rparr>))"

definition mcl_on_sdn_event ::
  "'f cluster_env \<Rightarrow> nat \<Rightarrow> room_user_data \<Rightarrow> 'f features_event \<Rightarrow> ('e, 'f) media_cluster \<Rightarrow> ('e, 'f) media_cluster run" where
  "mcl_on_sdn_event env now userdata event s = (case userdata of RoomUserData room _ \<Rightarrow>
     (case im_get (mcl_rooms_map s) room of None \<Rightarrow> Inr s
      | Some index \<Rightarrow> mcl_call index (cr_on_event env now 0 (Cr_Sdn userdata event)) s))"

text \<open>\<open>new_room\<close> is the index of a room that is created, \<open>new_mixer\<close> that of a manual mixer in the room.\<close>

definition mcl_on_endpoint_control ::
  "'f cluster_env \<Rightarrow> nat \<Rightarrow> nat \<Rightarrow> nat \<Rightarrow> 'e \<Rightarrow> room_hash \<Rightarrow> cluster_endpoint_control \<Rightarrow> ('e, 'f) media_cluster \<Rightarrow> ('e, 'f) media_cluster run" where
  "mcl_on_endpoint_control env now new_room new_mixer endpoint room_hash control s = (case im_get (mcl_rooms_map s) room_hash of
     Some index \<Rightarrow> mcl_call index (cr_on_event env now new_mixer (Cr_Endpoint endpoint control)) s
   | None \<Rightarrow>
       let s1 = s\<lparr>mcl_rooms := im_insert new_room (cr_new env now room_hash) (mcl_rooms s)\<rparr>;
           s2 = s1\<lparr>mcl_rooms_map := im_insert room_hash new_room (mcl_rooms_map s1)\<rparr> in
       mcl_call new_room (cr_on_event env now new_mixer (Cr_Endpoint endpoint control)) s2)"

text \<open>A room ignores the shutdown, so only the flag changes.\<close>

definition mcl_shutdown :: "('e, 'f) media_cluster \<Rightarrow> ('e, 'f) media_cluster" where
  "mcl_shutdown s = (if mcl_shutdown_flag s then s else s\<lparr>mcl_shutdown_flag := True\<rparr>)"

definition mcl_is_empty :: "('e, 'f) media_cluster \<Rightarrow> bool" where
  "mcl_is_empty s \<longleftrightarrow> mcl_shutdown_flag s \<and> mcl_rooms s = []"

text \<open>What the cluster does with an output of the room at \<open>index\<close>. Removing the room drops it.\<close>

definition mcl_on_room_output ::
  "nat \<Rightarrow> ('e, 'f) cr_output \<Rightarrow> ('e, 'f) media_cluster \<Rightarrow> (('e, 'f) media_cluster \<times> ('e, 'f) mcl_output) run" where
  "mcl_on_room_output index out s = (case out of
     Cr_OutSdn userdata control \<Rightarrow> Inr (s, Mcl_OutSdn userdata control)
   | Cr_OutEndpoint endpoints event \<Rightarrow> Inr (s, Mcl_OutEndpoint endpoints event)
   | Cr_OnResourceEmpty room \<Rightarrow>
       rbind (rexpect (im_get (mcl_rooms_map s) room)) (\<lambda>_.
       let s1 = s\<lparr>mcl_rooms_map := im_swap_remove room (mcl_rooms_map s)\<rparr> in
       rbind (case im_get (mcl_rooms s1) index of None \<Rightarrow> Inr () | Some r \<Rightarrow> cr_drop r) (\<lambda>_.
       Inr (s1\<lparr>mcl_rooms := im_swap_remove index (mcl_rooms s1)\<rparr>, Mcl_Continue))))"

definition mcl_pop_branch ::
  "nat \<Rightarrow> cr_task \<Rightarrow> ('e, 'f) media_cluster \<Rightarrow> (('e, 'f) media_cluster \<times> ('e, 'f) mcl_output option) run" where
  "mcl_pop_branch index task s = (case im_get (mcl_rooms s) index of None \<Rightarrow> Inr (s, None)
     | Some r \<Rightarrow> rbind (cr_pop_branch task r) (\<lambda>(r', out).
         let s1 = s\<lparr>mcl_rooms := im_insert index r' (mcl_rooms s)\<rparr> in
         (case out of None \<Rightarrow> Inr (s1, None) | Some x \<Rightarrow> rbind (mcl_on_room_output index x s1) (\<lambda>(s2, y). Inr (s2, Some y)))))"

section \<open>Steps\<close>

datatype ('e, 'f) mcl_op =
    Mo_Tick nat
  | Mo_Sdn nat room_user_data "'f features_event"
  | Mo_Control nat nat nat 'e room_hash cluster_endpoint_control
  | Mo_Shutdown
  | Mo_Poll room_hash cr_task
  | Mo_RoomEmpty room_hash

text \<open>The task group polls the room of hash \<open>r\<close>, or finds it empty.\<close>

fun mcl_step :: "'f cluster_env \<Rightarrow> ('e, 'f) mcl_op \<Rightarrow> ('e, 'f) media_cluster \<Rightarrow> ('e, 'f) media_cluster run" where
  "mcl_step env (Mo_Tick now) s = mcl_on_tick now s"
| "mcl_step env (Mo_Sdn now ud ev) s = mcl_on_sdn_event env now ud ev s"
| "mcl_step env (Mo_Control now i j e r c) s = mcl_on_endpoint_control env now i j e r c s"
| "mcl_step env Mo_Shutdown s = Inr (mcl_shutdown s)"
| "mcl_step env (Mo_Poll r t) s = (case im_get (mcl_rooms_map s) r of None \<Rightarrow> Inr s
     | Some i \<Rightarrow> rbind (mcl_pop_branch i t s) (\<lambda>(s', _). Inr s'))"
| "mcl_step env (Mo_RoomEmpty r) s = (case im_get (mcl_rooms_map s) r of None \<Rightarrow> Inr s
     | Some i \<Rightarrow> rbind (mcl_on_room_output i (Cr_OnResourceEmpty r) s) (\<lambda>(s', _). Inr s'))"

text \<open>The specification: the life of the one room \<open>r\<close>, which may not exist.\<close>

fun room_life :: "'f cluster_env \<Rightarrow> room_hash \<Rightarrow> ('e, 'f) mcl_op \<Rightarrow> ('e, 'f) cluster_room option \<Rightarrow> ('e, 'f) cluster_room option run" where
  "room_life env r (Mo_Tick now) x = (case x of None \<Rightarrow> Inr None | Some y \<Rightarrow> rbind (cr_on_tick now y) (\<lambda>z. Inr (Some z)))"
| "room_life env r (Mo_Sdn now (RoomUserData r' f) ev) x = (if r' \<noteq> r then Inr x else
     case x of None \<Rightarrow> Inr None | Some y \<Rightarrow> rbind (cr_on_event env now 0 (Cr_Sdn (RoomUserData r' f) ev) y) (\<lambda>z. Inr (Some z)))"
| "room_life env r (Mo_Control now i j e r' c) x = (if r' \<noteq> r then Inr x else
     rbind (cr_on_event env now j (Cr_Endpoint e c) (case x of None \<Rightarrow> cr_new env now r | Some y \<Rightarrow> y)) (\<lambda>z. Inr (Some z)))"
| "room_life env r Mo_Shutdown x = Inr x"
| "room_life env r (Mo_Poll r' t) x = (if r' \<noteq> r then Inr x else
     case x of None \<Rightarrow> Inr None | Some y \<Rightarrow> rbind (cr_pop_branch t y) (\<lambda>(z, _). Inr (Some z)))"
| "room_life env r (Mo_RoomEmpty r') x = (if r' \<noteq> r then Inr x else
     case x of None \<Rightarrow> Inr None | Some y \<Rightarrow> rbind (cr_drop y) (\<lambda>_. Inr None))"

definition mcl_room :: "('e, 'f) media_cluster \<Rightarrow> room_hash \<Rightarrow> ('e, 'f) cluster_room option" where
  "mcl_room s r = Option.bind (im_get (mcl_rooms_map s) r) (im_get (mcl_rooms s))"

fun mcl_fresh :: "('e, 'f) mcl_op \<Rightarrow> ('e, 'f) media_cluster \<Rightarrow> bool" where
  "mcl_fresh (Mo_Control _ i _ _ _ _) s = (im_get (mcl_rooms s) i = None)"
| "mcl_fresh _ s = True"

section \<open>Invariant\<close>

text \<open>The index table and the task group describe the same rooms.\<close>

definition mcl_wf :: "('e, 'f) media_cluster \<Rightarrow> bool" where
  "mcl_wf s \<longleftrightarrow> im_wf (mcl_rooms_map s) \<and> im_wf (mcl_rooms s) \<and>
     (\<forall>r i. im_get (mcl_rooms_map s) r = Some i \<longrightarrow> (\<exists>x. im_get (mcl_rooms s) i = Some x \<and> cr_room x = r)) \<and>
     (\<forall>i x. im_get (mcl_rooms s) i = Some x \<longrightarrow> im_get (mcl_rooms_map s) (cr_room x) = Some i)"

lemma mcl_wf_default: "mcl_wf mcl_default"
  by (simp add: mcl_wf_def mcl_default_def)

lemma cr_call_room:
  "cr_md f s = Inr s' \<Longrightarrow> cr_room s' = cr_room s" "cr_mt g s = Inr s' \<Longrightarrow> cr_room s' = cr_room s"
  "cr_rx h s = Inr s' \<Longrightarrow> cr_room s' = cr_room s" "cr_mc k s = Inr s' \<Longrightarrow> cr_room s' = cr_room s"
  by (auto simp: cr_md_def cr_mt_def cr_rx_def cr_mc_def run_simps)

lemma cr_on_event_room: "cr_on_event env now i x s = Inr s' \<Longrightarrow> cr_room s' = cr_room s"
  by (auto simp: cr_on_event_def cr_on_endpoint_control_def cr_on_sdn_event_def cr_on_control_remote_track_def cr_on_control_local_track_def
      cr_on_control_message_channel_def run_simps
      split: cr_input.splits cluster_endpoint_control.splits room_user_data.splits room_feature.splits features_event.splits kv_event.splits
        cluster_remote_track_control.splits option.splits if_splits
      dest!: cr_call_room)

lemma cr_pop_branch_room: "cr_pop_branch t s = Inr (s', y) \<Longrightarrow> cr_room s' = cr_room s"
  by (auto simp: cr_pop_branch_def run_simps split: cr_task.splits prod.splits)

text \<open>Changing, adding and removing one room.\<close>

lemma mcl_wfD:
  assumes "mcl_wf s" "im_get (mcl_rooms_map s) r = Some i"
  obtains x where "im_get (mcl_rooms s) i = Some x" "cr_room x = r" "mcl_room s r = Some x"
  using assms by (auto simp: mcl_wf_def mcl_room_def)

lemma mcl_wf_fwd: "mcl_wf s \<Longrightarrow> im_get (mcl_rooms_map s) r = Some i \<Longrightarrow> \<exists>x. im_get (mcl_rooms s) i = Some x \<and> cr_room x = r"
  by (simp add: mcl_wf_def)

lemma mcl_wf_bwd: "mcl_wf s \<Longrightarrow> im_get (mcl_rooms s) i = Some x \<Longrightarrow> im_get (mcl_rooms_map s) (cr_room x) = Some i"
  by (simp add: mcl_wf_def)

lemma mcl_wf_tables: "mcl_wf s \<Longrightarrow> im_wf (mcl_rooms_map s)" "mcl_wf s \<Longrightarrow> im_wf (mcl_rooms s)"
  by (simp_all add: mcl_wf_def)

lemma mcl_wfI:
  assumes "im_wf (mcl_rooms_map s)" "im_wf (mcl_rooms s)"
    and "\<And>r i. im_get (mcl_rooms_map s) r = Some i \<Longrightarrow> \<exists>x. im_get (mcl_rooms s) i = Some x \<and> cr_room x = r"
    and "\<And>i x. im_get (mcl_rooms s) i = Some x \<Longrightarrow> im_get (mcl_rooms_map s) (cr_room x) = Some i"
  shows "mcl_wf s"
  using assms by (simp add: mcl_wf_def)

lemma mcl_wf_inj: "mcl_wf s \<Longrightarrow> im_get (mcl_rooms_map s) r = Some i \<Longrightarrow> im_get (mcl_rooms_map s) q = Some i \<Longrightarrow> q = r"
  using mcl_wf_fwd [of s r i] mcl_wf_fwd [of s q i] by auto

lemma mcl_put:
  assumes wf: "mcl_wf s" and i: "im_get (mcl_rooms_map s) r = Some i" and y: "cr_room y = r"
  shows "mcl_wf (s\<lparr>mcl_rooms := im_insert i y (mcl_rooms s)\<rparr>)" "mcl_room (s\<lparr>mcl_rooms := im_insert i y (mcl_rooms s)\<rparr>) = (mcl_room s)(r := Some y)"
proof -
  show "mcl_wf (s\<lparr>mcl_rooms := im_insert i y (mcl_rooms s)\<rparr>)"
  proof (rule mcl_wfI)
    fix q j assume "im_get (mcl_rooms_map (s\<lparr>mcl_rooms := im_insert i y (mcl_rooms s)\<rparr>)) q = Some j"
    then have j: "im_get (mcl_rooms_map s) q = Some j" by simp
    show "\<exists>x. im_get (mcl_rooms (s\<lparr>mcl_rooms := im_insert i y (mcl_rooms s)\<rparr>)) j = Some x \<and> cr_room x = q"
      using mcl_wf_inj [OF wf i, of q] j y mcl_wf_fwd [OF wf j] by (cases "j = i") (auto simp: im_get_insert)
  next
    fix j x assume "im_get (mcl_rooms (s\<lparr>mcl_rooms := im_insert i y (mcl_rooms s)\<rparr>)) j = Some x"
    then show "im_get (mcl_rooms_map (s\<lparr>mcl_rooms := im_insert i y (mcl_rooms s)\<rparr>)) (cr_room x) = Some j"
      using mcl_wf_bwd [OF wf, of j x] i y by (auto simp: im_get_insert split: if_splits)
  qed (use mcl_wf_tables [OF wf] in \<open>simp_all add: list_upd\<close>)
  show "mcl_room (s\<lparr>mcl_rooms := im_insert i y (mcl_rooms s)\<rparr>) = (mcl_room s)(r := Some y)"
  proof
    fix q
    show "mcl_room (s\<lparr>mcl_rooms := im_insert i y (mcl_rooms s)\<rparr>) q = ((mcl_room s)(r := Some y)) q"
      using i mcl_wf_inj [OF wf i, of q] by (cases "im_get (mcl_rooms_map s) q") (auto simp: mcl_room_def im_get_insert)
  qed
qed

lemma mcl_add:
  assumes wf: "mcl_wf s" and r: "im_get (mcl_rooms_map s) r = None" and i: "im_get (mcl_rooms s) i = None" and y: "cr_room y = r"
  shows "mcl_wf (s\<lparr>mcl_rooms := im_insert i y (mcl_rooms s), mcl_rooms_map := im_insert r i (mcl_rooms_map s)\<rparr>)"
    "mcl_room (s\<lparr>mcl_rooms := im_insert i y (mcl_rooms s), mcl_rooms_map := im_insert r i (mcl_rooms_map s)\<rparr>) = (mcl_room s)(r := Some y)"
proof -
  have old: "j \<noteq> i" if "im_get (mcl_rooms_map s) q = Some j" for q j using i mcl_wf_fwd [OF wf that] by auto
  have old_r: "cr_room x \<noteq> r" if "im_get (mcl_rooms s) j = Some x" for j x using mcl_wf_bwd [OF wf that] r by auto
  show "mcl_wf (s\<lparr>mcl_rooms := im_insert i y (mcl_rooms s), mcl_rooms_map := im_insert r i (mcl_rooms_map s)\<rparr>)"
    using wf y old old_r unfolding mcl_wf_def by (auto simp: list_upd)
  show "mcl_room (s\<lparr>mcl_rooms := im_insert i y (mcl_rooms s), mcl_rooms_map := im_insert r i (mcl_rooms_map s)\<rparr>) = (mcl_room s)(r := Some y)"
  proof
    fix q
    show "mcl_room (s\<lparr>mcl_rooms := im_insert i y (mcl_rooms s), mcl_rooms_map := im_insert r i (mcl_rooms_map s)\<rparr>) q = ((mcl_room s)(r := Some y)) q"
      using old by (cases "im_get (mcl_rooms_map s) q") (auto simp: mcl_room_def im_get_insert)
  qed
qed

lemma mcl_del:
  assumes wf: "mcl_wf s" and i: "im_get (mcl_rooms_map s) r = Some i"
  shows "mcl_wf (s\<lparr>mcl_rooms_map := im_swap_remove r (mcl_rooms_map s), mcl_rooms := im_swap_remove i (mcl_rooms s)\<rparr>)"
    "mcl_room (s\<lparr>mcl_rooms_map := im_swap_remove r (mcl_rooms_map s), mcl_rooms := im_swap_remove i (mcl_rooms s)\<rparr>) = (mcl_room s)(r := None)"
proof -
  note w = mcl_wf_tables [OF wf]
  have inj: "q = r" if "im_get (mcl_rooms_map s) q = Some i" for q using mcl_wf_inj [OF wf i that] .
  have own: "j = i" if "im_get (mcl_rooms s) j = Some x" "cr_room x = r" for j x
    using mcl_wf_bwd [OF wf that(1)] that(2) i by simp
  show "mcl_wf (s\<lparr>mcl_rooms_map := im_swap_remove r (mcl_rooms_map s), mcl_rooms := im_swap_remove i (mcl_rooms s)\<rparr>)"
  proof (rule mcl_wfI)
    fix q j assume "im_get (mcl_rooms_map (s\<lparr>mcl_rooms_map := im_swap_remove r (mcl_rooms_map s), mcl_rooms := im_swap_remove i (mcl_rooms s)\<rparr>)) q = Some j"
    then have q: "im_get (mcl_rooms_map s) q = Some j" "q \<noteq> r" using w by (auto simp: list_upd split: if_splits)
    then have "j \<noteq> i" using inj by blast
    then show "\<exists>x. im_get (mcl_rooms (s\<lparr>mcl_rooms_map := im_swap_remove r (mcl_rooms_map s), mcl_rooms := im_swap_remove i (mcl_rooms s)\<rparr>)) j = Some x \<and> cr_room x = q"
      using w mcl_wf_fwd [OF wf q(1)] by (simp add: list_upd)
  next
    fix j x assume "im_get (mcl_rooms (s\<lparr>mcl_rooms_map := im_swap_remove r (mcl_rooms_map s), mcl_rooms := im_swap_remove i (mcl_rooms s)\<rparr>)) j = Some x"
    then have j: "im_get (mcl_rooms s) j = Some x" "j \<noteq> i" using w by (auto simp: list_upd split: if_splits)
    then have "cr_room x \<noteq> r" using own by blast
    then show "im_get (mcl_rooms_map (s\<lparr>mcl_rooms_map := im_swap_remove r (mcl_rooms_map s), mcl_rooms := im_swap_remove i (mcl_rooms s)\<rparr>)) (cr_room x) = Some j"
      using w mcl_wf_bwd [OF wf j(1)] by (simp add: list_upd)
  qed (use w in \<open>simp_all add: list_upd\<close>)
  show "mcl_room (s\<lparr>mcl_rooms_map := im_swap_remove r (mcl_rooms_map s), mcl_rooms := im_swap_remove i (mcl_rooms s)\<rparr>) = (mcl_room s)(r := None)"
  proof
    fix q
    show "mcl_room (s\<lparr>mcl_rooms_map := im_swap_remove r (mcl_rooms_map s), mcl_rooms := im_swap_remove i (mcl_rooms s)\<rparr>) q = ((mcl_room s)(r := None)) q"
      using inj w by (cases "im_get (mcl_rooms_map s) q") (auto simp: mcl_room_def list_upd)
  qed
qed

lemma mcl_room_None: "mcl_wf s \<Longrightarrow> im_get (mcl_rooms_map s) r = None \<longleftrightarrow> mcl_room s r = None"
  by (cases "im_get (mcl_rooms_map s) r") (auto simp: mcl_room_def elim: mcl_wfD)

section \<open>Every operation acts on each room alone\<close>

lemma mcl_call_ok:
  assumes wf: "mcl_wf s" and r: "im_get (mcl_rooms_map s) r = Some i" "mcl_room s r = Some x" and f: "f x = Inr y" "cr_room y = cr_room x"
  shows "\<exists>s'. mcl_call i f s = Inr s' \<and> mcl_wf s' \<and> mcl_room s' = (mcl_room s)(r := Some y)"
proof -
  have x: "im_get (mcl_rooms s) i = Some x" "cr_room x = r" using mcl_wf_fwd [OF wf r(1)] r by (auto simp: mcl_room_def)
  then show ?thesis using mcl_put [OF wf r(1), of y] f by (simp add: mcl_call_def tg_run_def)
qed

definition mcl_refines :: "'f cluster_env \<Rightarrow> ('e, 'f) mcl_op \<Rightarrow> ('e, 'f) media_cluster \<Rightarrow> ('e, 'f) media_cluster run \<Rightarrow> bool" where
  "mcl_refines env x s m \<longleftrightarrow> (\<exists>s'. m = Inr s' \<and> mcl_wf s' \<and> (\<forall>r. room_life env r x (mcl_room s r) = Inr (mcl_room s' r)))"

text \<open>It is enough to look at the room the operation is for.\<close>

lemma mcl_refines_one:
  assumes "mcl_wf s'" "m = Inr s'" "mcl_room s' = (mcl_room s)(r := z)" "room_life env r x (mcl_room s r) = Inr z"
    and "\<And>q. q \<noteq> r \<Longrightarrow> room_life env q x (mcl_room s q) = Inr (mcl_room s q)"
  shows "mcl_refines env x s m"
  using assms by (auto simp: mcl_refines_def)

lemma mcl_refines_none:
  assumes "mcl_wf s" "m = Inr s" "\<And>q. room_life env q x (mcl_room s q) = Inr (mcl_room s q)"
  shows "mcl_refines env x s m"
  using assms by (auto simp: mcl_refines_def)

lemma mcl_control_refines:
  fixes s :: "('e, 'f) media_cluster"
  assumes wf: "mcl_wf s" and i: "im_get (mcl_rooms s) i = None" and ok: "\<And>r. is_ok (room_life env r (Mo_Control now i j e r' c) (mcl_room s r))"
  shows "mcl_refines env (Mo_Control now i j e r' c) s (mcl_on_endpoint_control env now i j e r' c s)"
proof (cases "im_get (mcl_rooms_map s) r'")
  case None
  then have none: "mcl_room s r' = None" using mcl_room_None [OF wf] by simp
  obtain y where y: "cr_on_event env now j (Cr_Endpoint e c) (cr_new env now r') = Inr y"
    using ok [of r'] none by (auto simp: is_ok_iff run_simps)
  let ?s = "s\<lparr>mcl_rooms := im_insert i (cr_new env now r') (mcl_rooms s), mcl_rooms_map := im_insert r' i (mcl_rooms_map s)\<rparr>"
  have room: "cr_room (cr_new env now r' :: ('e, 'f) cluster_room) = r'" by (simp add: cr_new_def)
  note add = mcl_add [OF wf None i room]
  have at: "im_get (mcl_rooms_map ?s) r' = Some i" by (simp add: im_get_insert)
  obtain s' where "mcl_call i (cr_on_event env now j (Cr_Endpoint e c)) ?s = Inr s'" "mcl_wf s'" "mcl_room s' = (mcl_room ?s)(r' := Some y)"
    using mcl_call_ok [OF add(1) at, of "cr_new env now r'"] add(2) y cr_on_event_room [OF y] by auto
  then show ?thesis using None none y add(2)
    by (intro mcl_refines_one [of s' _ s r' "Some y"]) (simp_all add: mcl_on_endpoint_control_def Let_def)
next
  case (Some k)
  then obtain x where x: "mcl_room s r' = Some x" by (rule mcl_wfD [OF wf])
  obtain y where y: "cr_on_event env now j (Cr_Endpoint e c) x = Inr y" using ok [of r'] x by (auto simp: is_ok_iff run_simps)
  obtain s' where "mcl_call k (cr_on_event env now j (Cr_Endpoint e c)) s = Inr s'" "mcl_wf s'" "mcl_room s' = (mcl_room s)(r' := Some y)"
    using mcl_call_ok [OF wf Some x, where f = "cr_on_event env now j (Cr_Endpoint e c)", OF y cr_on_event_room [OF y]] by blast
  then show ?thesis using Some x y
    by (intro mcl_refines_one [of s' _ s r' "Some y"]) (simp_all add: mcl_on_endpoint_control_def)
qed

lemma mcl_sdn_refines:
  assumes wf: "mcl_wf s" and ok: "\<And>r. is_ok (room_life env r (Mo_Sdn now ud ev) (mcl_room s r))"
  shows "mcl_refines env (Mo_Sdn now ud ev) s (mcl_on_sdn_event env now ud ev s)"
proof -
  obtain r' f where ud: "ud = RoomUserData r' f" by (cases ud)
  show ?thesis
  proof (cases "im_get (mcl_rooms_map s) r'")
    case None
    then have "mcl_room s r' = None" using mcl_room_None [OF wf] by simp
    then show ?thesis using wf None ud by (intro mcl_refines_none) (auto simp: mcl_on_sdn_event_def)
  next
    case (Some k)
    then obtain x where x: "mcl_room s r' = Some x" by (rule mcl_wfD [OF wf])
    obtain y where y: "cr_on_event env now 0 (Cr_Sdn ud ev) x = Inr y" using ok [of r'] x ud by (auto simp: is_ok_iff run_simps)
    obtain s' where "mcl_call k (cr_on_event env now 0 (Cr_Sdn ud ev)) s = Inr s'" "mcl_wf s'" "mcl_room s' = (mcl_room s)(r' := Some y)"
      using mcl_call_ok [OF wf Some x, where f = "cr_on_event env now 0 (Cr_Sdn ud ev)", OF y cr_on_event_room [OF y]] by blast
    then show ?thesis using Some x y ud
      by (intro mcl_refines_one [of s' _ s r' "Some y"]) (simp_all add: mcl_on_sdn_event_def)
  qed
qed

lemma cr_forward_not_empty: "cr_forward_md r x \<noteq> Some (Cr_OnResourceEmpty q)" "cr_forward r f y \<noteq> Some (Cr_OnResourceEmpty q)"
  by (cases x; simp add: cr_forward_md_def) (cases y; simp add: cr_forward_def)

lemma mcl_poll_refines:
  assumes wf: "mcl_wf s" and ok: "\<And>r. is_ok (room_life env r (Mo_Poll r' t) (mcl_room s r))"
  shows "mcl_refines env (Mo_Poll r' t) s (mcl_step env (Mo_Poll r' t) s)"
proof (cases "im_get (mcl_rooms_map s) r'")
  case None
  then have "mcl_room s r' = None" using mcl_room_None [OF wf] by simp
  then show ?thesis using wf None by (intro mcl_refines_none) auto
next
  case (Some k)
  then obtain x where x: "im_get (mcl_rooms s) k = Some x" "cr_room x = r'" "mcl_room s r' = Some x" by (rule mcl_wfD [OF wf])
  obtain y out where y: "cr_pop_branch t x = Inr (y, out)" using ok [of r'] x(3) by (auto simp: is_ok_iff run_simps)
  let ?s = "s\<lparr>mcl_rooms := im_insert k y (mcl_rooms s)\<rparr>"
  have room: "cr_room y = r'" using cr_pop_branch_room [OF y] x(2) by simp
  have not_empty: "out \<noteq> Some (Cr_OnResourceEmpty q)" for q
    using y by (auto simp: cr_pop_branch_def cr_forward_not_empty run_simps bind_eq_Some_conv split: cr_task.splits prod.splits)
  have "mcl_step env (Mo_Poll r' t) s = Inr ?s"
  proof (cases out)
    case (Some a)
    then show ?thesis using \<open>im_get (mcl_rooms_map s) r' = Some k\<close> x(1) y not_empty
      by (cases a) (auto simp: mcl_pop_branch_def mcl_on_room_output_def Let_def)
  qed (use Some x(1) y in \<open>simp add: mcl_pop_branch_def Let_def\<close>)
  then show ?thesis using mcl_put [OF wf Some room] x(3) y
    by (intro mcl_refines_one [of ?s _ s r' "Some y"]) simp_all
qed

lemma mcl_empty_refines:
  assumes wf: "mcl_wf s" and ok: "\<And>r. is_ok (room_life env r (Mo_RoomEmpty r') (mcl_room s r))"
  shows "mcl_refines env (Mo_RoomEmpty r') s (mcl_step env (Mo_RoomEmpty r') s)"
proof (cases "im_get (mcl_rooms_map s) r'")
  case None
  then have "mcl_room s r' = None" using mcl_room_None [OF wf] by simp
  then show ?thesis using wf None by (intro mcl_refines_none) auto
next
  case (Some k)
  then obtain x where x: "im_get (mcl_rooms s) k = Some x" "cr_room x = r'" "mcl_room s r' = Some x" by (rule mcl_wfD [OF wf])
  have drop: "cr_drop x = Inr ()" using ok [of r'] x(3) by (auto simp: is_ok_iff run_simps)
  let ?s = "s\<lparr>mcl_rooms_map := im_swap_remove r' (mcl_rooms_map s), mcl_rooms := im_swap_remove k (mcl_rooms s)\<rparr>"
  have "mcl_step env (Mo_RoomEmpty r') s = Inr ?s" using Some x(1) drop by (simp add: mcl_on_room_output_def Let_def)
  then show ?thesis using mcl_del [OF wf Some] x(3) drop
    by (intro mcl_refines_one [of ?s _ s r' None]) simp_all
qed

lemma mcl_tick_refines:
  assumes wf: "mcl_wf s" and ok: "\<And>r. is_ok (room_life env r (Mo_Tick now) (mcl_room s r))"
  shows "mcl_refines env (Mo_Tick now) s (mcl_on_tick now s)"
proof -
  note w = mcl_wf_tables [OF wf]
  have tick: "\<exists>y. cr_on_tick now x = Inr y \<and> (im_get (mcl_rooms s) i = Some x \<and> cr_on_tick now x = Inr y)" if "(i, x) \<in> set (mcl_rooms s)" for i x
  proof -
    have x: "im_get (mcl_rooms s) i = Some x" using that im_get_eq_Some [OF w(2)] by simp
    then have "mcl_room s (cr_room x) = Some x" using mcl_wf_bwd [OF wf x] by (simp add: mcl_room_def)
    then show ?thesis using ok [of "cr_room x"] x by (auto simp: is_ok_iff run_simps)
  qed
  let ?Q = "\<lambda>i y. \<exists>x. im_get (mcl_rooms s) i = Some x \<and> cr_on_tick now x = Inr y"
  obtain ts where ts: "tg_run_all (cr_on_tick now) (mcl_rooms s) = Inr ts" "map fst ts = map fst (mcl_rooms s)" "\<forall>(i, y)\<in>set ts. ?Q i y"
    using tg_run_all_ok [of "mcl_rooms s" "cr_on_tick now" ?Q] tick by blast
  have wts: "im_wf ts" using ts(2) w(2) by (simp add: im_wf_def)
  have keys: "im_get ts i = None \<longleftrightarrow> im_get (mcl_rooms s) i = None" for i
    using ts(2) unfolding im_get_None_iff by (metis list.set_map)
  have get: "im_get ts i = (case im_get (mcl_rooms s) i of None \<Rightarrow> None | Some x \<Rightarrow> (case cr_on_tick now x of Inl _ \<Rightarrow> None | Inr y \<Rightarrow> Some y))" for i
  proof (cases "im_get ts i")
    case (Some y)
    then show ?thesis using ts(3) im_get_eq_Some [OF wts, of i y] by auto
  qed (use keys [of i] in simp)
  have room: "cr_room y = cr_room x" if "cr_on_tick now x = Inr y" for x y :: "('a, 'b) cluster_room"
    using that by (simp add: cr_on_tick_def cr_call_room)
  let ?s = "s\<lparr>mcl_rooms := ts\<rparr>"
  have life: "room_life env r (Mo_Tick now) (mcl_room s r) = Inr (mcl_room ?s r)" for r
  proof (cases "im_get (mcl_rooms_map s) r")
    case (Some i)
    then obtain x where x: "im_get (mcl_rooms s) i = Some x" "mcl_room s r = Some x" by (rule mcl_wfD [OF wf])
    then obtain y where "cr_on_tick now x = Inr y" using ok [of r] by (auto simp: is_ok_iff run_simps)
    then show ?thesis using Some x by (simp add: mcl_room_def get)
  qed (simp add: mcl_room_def)
  have "mcl_wf ?s"
  proof (rule mcl_wfI)
    fix r i assume "im_get (mcl_rooms_map ?s) r = Some i"
    then have r: "im_get (mcl_rooms_map s) r = Some i" by simp
    then obtain x where "im_get (mcl_rooms s) i = Some x" "cr_room x = r" using mcl_wf_fwd [OF wf r] by blast
    then show "\<exists>x. im_get (mcl_rooms ?s) i = Some x \<and> cr_room x = r"
      using tick [of i x] im_get_eq_Some [OF w(2), of i x] room by (auto simp: get)
  next
    fix i y assume "im_get (mcl_rooms ?s) i = Some y"
    then obtain x where "im_get (mcl_rooms s) i = Some x" "cr_on_tick now x = Inr y" by (auto simp: get split: option.splits sum.splits)
    then show "im_get (mcl_rooms_map ?s) (cr_room y) = Some i" using mcl_wf_bwd [OF wf] room by simp
  qed (use w wts in simp_all)
  then show ?thesis using ts(1) life by (auto simp: mcl_refines_def mcl_on_tick_def)
qed

lemma mcl_step_refines:
  assumes wf: "mcl_wf s" and fresh: "mcl_fresh x s" and ok: "\<And>r. is_ok (room_life env r x (mcl_room s r))"
  shows "mcl_refines env x s (mcl_step env x s)"
proof (cases x)
  case Mo_Shutdown
  have "mcl_wf (mcl_shutdown s)" "mcl_room (mcl_shutdown s) = mcl_room s" using wf by (simp_all add: mcl_wf_def mcl_shutdown_def mcl_room_def fun_eq_iff)
  then show ?thesis using Mo_Shutdown by (auto simp: mcl_refines_def)
next
  case (Mo_Control now i j e r c)
  then show ?thesis using mcl_control_refines [OF wf, of i env now j e r c] fresh ok by simp
qed (use mcl_tick_refines [OF wf] mcl_sdn_refines [OF wf] mcl_poll_refines [OF wf] mcl_empty_refines [OF wf] ok in fastforce)+

lemma is_ok_rbind: "is_ok (rbind m f) \<Longrightarrow> is_ok m"
  by (cases m) simp_all

lemma mcl_run_refines:
  assumes "mcl_wf s" "admits_run mcl_fresh (mcl_step env) xs s" "\<And>r. is_ok (rfold (room_life env r) xs (mcl_room s r))"
  shows "\<exists>s'. rfold (mcl_step env) xs s = Inr s' \<and> (\<forall>r. rfold (room_life env r) xs (mcl_room s r) = Inr (mcl_room s' r))"
  using assms
proof (induction xs arbitrary: s)
  case (Cons x xs)
  have "is_ok (room_life env r x (mcl_room s r))" for r using Cons.prems(3) [of r] is_ok_rbind by fastforce
  with Cons.prems(2) obtain s1 where s1: "mcl_step env x s = Inr s1" "mcl_wf s1" "\<forall>r. room_life env r x (mcl_room s r) = Inr (mcl_room s1 r)"
    using mcl_step_refines [OF Cons.prems(1), of x env] by (auto simp: mcl_refines_def)
  have "admits_run mcl_fresh (mcl_step env) xs s1" using Cons.prems(2) s1(1) by simp
  moreover have "is_ok (rfold (room_life env r) xs (mcl_room s1 r))" for r using Cons.prems(3) [of r] s1(3) by simp
  ultimately show ?case using Cons.IH [OF s1(2)] s1 by simp
qed simp

text \<open>
  C4. The cluster is a collection of independent rooms. For any sequence of ticks, network events,
  endpoint controls, polls and removals of empty rooms, if the life of every single room (created by
  the first control for its hash, fed only with what is addressed to it, dropped when it is reported
  empty) runs without a panic, then so does the cluster, and afterwards the cluster has under every
  hash exactly the room which that life leads to. New tasks get unused indices.
\<close>
theorem mcl_rooms_independent:
  assumes "admits_run mcl_fresh (mcl_step env) xs (mcl_default :: ('e, 'f) media_cluster)"
    and "\<And>r. is_ok (rfold (room_life env r) xs (None :: ('e, 'f) cluster_room option))"
  shows "\<exists>s. rfold (mcl_step env) xs (mcl_default :: ('e, 'f) media_cluster) = Inr s \<and>
     (\<forall>r. rfold (room_life env r) xs None = Inr (mcl_room s r))"
proof -
  have "mcl_room (mcl_default :: ('e, 'f) media_cluster) r = None" for r by (simp add: mcl_room_def mcl_default_def)
  then show ?thesis using mcl_run_refines [OF mcl_wf_default assms(1)] assms(2) by simp
qed

theorem mcl_rooms_independent_witness:
  "\<exists>s. rfold (mcl_step demo_env) [Mo_Control 0 0 0 (1::nat) 3 Cec_Leave, Mo_Control 0 1 0 2 4 Cec_Leave, Mo_RoomEmpty 3] mcl_default = Inr s \<and>
     mcl_room s 3 = None"
proof -
  let ?xs = "[Mo_Control 0 0 0 (1::nat) 3 Cec_Leave, Mo_Control 0 1 0 2 4 Cec_Leave, Mo_RoomEmpty 3]"
  note eval = cr_eval md_on_leave_def mp_on_leave_def ms_on_leave_def mp_new_def ms_new_def md_is_empty_def rx_is_empty_def mt_is_empty_def
    rmc_is_empty_def tp_is_empty_def tu_is_empty_def mp_is_empty_def ms_is_empty_def xp_is_empty_def xs_is_empty_def xs_new_def tu_new_def
    cr_drop_def md_drop_def mt_drop_def rx_drop_def rmc_drop_def tp_drop_def tu_drop_def mp_drop_def ms_drop_def
  have "admits_run mcl_fresh (mcl_step demo_env) ?xs mcl_default"
    by (simp add: mcl_default_def mcl_on_endpoint_control_def mcl_call_def tg_run_def eval split: sum.split)
  moreover have life: "is_ok (rfold (room_life demo_env r) ?xs None)" for r by (simp add: eval)
  ultimately obtain s where s: "rfold (mcl_step demo_env) ?xs mcl_default = Inr s" "\<forall>r. rfold (room_life demo_env r) ?xs None = Inr (mcl_room s r)"
    using mcl_rooms_independent [of demo_env ?xs] by blast
  have "rfold (room_life demo_env 3) ?xs None = Inr None" by (simp add: eval)
  then have "mcl_room s 3 = None" using s(2) by (metis Inr_inject)
  then show ?thesis using s(1) by blast
qed

end
