(* ===== verification/Conn_Id.thy ===== *)
theory Conn_Id
  imports Prelude
begin

text \<open>
  \<^verbatim>\<open>packages/protocol/src/endpoint.rs\<close>: the ids of connections, which the gateway hands to clients as
  strings and reads back to route a request to its node, session, worker and task. The integers are
  words of their width (\<^verbatim>\<open>usize\<close> has 64 bits). Printing and parsing of integers and the splitting
  of strings are those of the standard library: decimal without leading zeros, and on reading an
  optional plus sign, at least one digit, and an error as soon as the value does not fit.
\<close>

section \<open>Decimal numbers\<close>

definition digit_char :: "nat \<Rightarrow> char" where
  "digit_char d = char_of (48 + d)"

fun show_nat :: "nat \<Rightarrow> string" where
  "show_nat n = (if n < 10 then [digit_char n] else show_nat (n div 10) @ [digit_char (n mod 10)])"

declare show_nat.simps [simp del]

definition char_digit :: "char \<Rightarrow> nat option" where
  "char_digit c = (let k = of_char c in if 48 \<le> k \<and> k < (58::nat) then Some (k - 48) else None)"

fun parse_digits :: "nat \<Rightarrow> nat \<Rightarrow> string \<Rightarrow> nat option" where
  "parse_digits w acc [] = Some acc"
| "parse_digits w acc (c # cs) = (case char_digit c of None \<Rightarrow> None
     | Some d \<Rightarrow> (let v = acc * 10 + d in if v < 2 ^ w then parse_digits w v cs else None))"

definition parse_uint :: "nat \<Rightarrow> string \<Rightarrow> nat option" where
  "parse_uint w s = (let t = (case s of c # cs \<Rightarrow> if c = CHR ''+'' then cs else s | [] \<Rightarrow> []) in
     if t = [] then None else parse_digits w 0 t)"

fun split_on :: "char \<Rightarrow> string \<Rightarrow> string list" where
  "split_on c [] = [[]]"
| "split_on c (x # xs) = (if x = c then [] # split_on c xs else (case split_on c xs of [] \<Rightarrow> [[x]] | p # ps \<Rightarrow> (x # p) # ps))"

section \<open>The ids\<close>

record server_conn_id =
  sci_worker :: "16 word"
  sci_index :: "64 word"

record cluster_conn_id =
  cci_node :: "32 word"
  cci_node_session :: "64 word"
  cci_server_conn :: server_conn_id

datatype conn_error = Missing_Node_Id | Parse_Error_Node_Id | Missing_Node_Session | Parse_Error_Node_Session
  | Missing_Server_Conn | Parse_Error_Server_Conn | Missing_Worker | Parse_Error_Worker | Missing_Index | Parse_Error_Index

text \<open>\<^verbatim>\<open>ok_or(missing)?.parse().map_err(wrong)?\<close>.\<close>

definition parse_part :: "string list \<Rightarrow> nat \<Rightarrow> conn_error \<Rightarrow> conn_error \<Rightarrow> nat \<Rightarrow> conn_error + nat" where
  "parse_part parts i missing wrong w = (if i < length parts
     then (case parse_uint w (parts ! i) of None \<Rightarrow> Inl wrong | Some v \<Rightarrow> Inr v) else Inl missing)"

definition sci_show :: "server_conn_id \<Rightarrow> string" where
  "sci_show c = show_nat (unat (sci_worker c)) @ '','' @ show_nat (unat (sci_index c))"

definition sci_from_str :: "string \<Rightarrow> conn_error + server_conn_id" where
  "sci_from_str s = (let parts = split_on (CHR '','') s in
     case parse_part parts 0 Missing_Worker Parse_Error_Worker 16 of Inl e \<Rightarrow> Inl e
     | Inr worker \<Rightarrow> (case parse_part parts 1 Missing_Index Parse_Error_Index 64 of Inl e \<Rightarrow> Inl e
        | Inr index \<Rightarrow> Inr \<lparr>sci_worker = of_nat worker, sci_index = of_nat index\<rparr>))"

definition cci_show :: "cluster_conn_id \<Rightarrow> string" where
  "cci_show c = show_nat (unat (cci_node c)) @ ''-'' @ show_nat (unat (cci_node_session c)) @ ''-'' @ sci_show (cci_server_conn c)"

definition cci_from_str :: "string \<Rightarrow> conn_error + cluster_conn_id" where
  "cci_from_str s = (let parts = split_on (CHR ''-'') s in
     case parse_part parts 0 Missing_Node_Id Parse_Error_Node_Id 32 of Inl e \<Rightarrow> Inl e
     | Inr node \<Rightarrow> (case parse_part parts 1 Missing_Node_Session Parse_Error_Node_Session 64 of Inl e \<Rightarrow> Inl e
        | Inr node_session \<Rightarrow>
            if 2 < length parts then (case sci_from_str (parts ! 2) of Inl _ \<Rightarrow> Inl Parse_Error_Server_Conn
              | Inr server_conn \<Rightarrow> Inr \<lparr>cci_node = of_nat node, cci_node_session = of_nat node_session, cci_server_conn = server_conn\<rparr>)
            else Inl Missing_Server_Conn))"

section \<open>Layers of routing\<close>

definition cci_down :: "cluster_conn_id \<Rightarrow> server_conn_id \<times> 32 word \<times> 64 word" where
  "cci_down c = (cci_server_conn c, cci_node c, cci_node_session c)"

definition cci_get_down_part :: "cluster_conn_id \<Rightarrow> 32 word \<times> 64 word" where
  "cci_get_down_part c = (cci_node c, cci_node_session c)"

definition sci_down :: "server_conn_id \<Rightarrow> 64 word \<times> 16 word" where
  "sci_down c = (sci_index c, sci_worker c)"

definition sci_up :: "32 word \<times> 64 word \<Rightarrow> server_conn_id \<Rightarrow> cluster_conn_id" where
  "sci_up param c = \<lparr>cci_node = fst param, cci_node_session = snd param, cci_server_conn = c\<rparr>"

definition sci_get_down_part :: "server_conn_id \<Rightarrow> 16 word" where
  "sci_get_down_part c = sci_worker c"

definition usize_up :: "16 word \<Rightarrow> 64 word \<Rightarrow> server_conn_id" where
  "usize_up param index = \<lparr>sci_worker = param, sci_index = index\<rparr>"

section \<open>Printing and parsing of numbers\<close>

lemma char_digit_char [simp]: "d < 10 \<Longrightarrow> char_digit (digit_char d) = Some d"
  by (simp add: char_digit_def digit_char_def)

lemma parse_digits_append:
  "parse_digits w acc (xs @ ys) = Option.bind (parse_digits w acc xs) (\<lambda>v. parse_digits w v ys)"
  by (induction w acc xs rule: parse_digits.induct) (auto simp: Let_def split: option.splits)

lemma parse_show_digits: "n < 2 ^ w \<Longrightarrow> parse_digits w 0 (show_nat n) = Some n"
proof (induction n rule: show_nat.induct)
  case (1 n)
  show ?case
  proof (cases "n < 10")
    case True
    then show ?thesis using 1 by (simp add: show_nat.simps [of n])
  next
    case False
    then have "n div 10 < 2 ^ w" using 1(2) by (meson div_le_dividend le_less_trans)
    then have "parse_digits w 0 (show_nat (n div 10)) = Some (n div 10)" using 1(1) False by blast
    moreover have "n div 10 * 10 + n mod 10 = n" by simp
    ultimately show ?thesis using False 1(2) by (simp add: show_nat.simps [of n] parse_digits_append Let_def)
  qed
qed

definition is_digit :: "char \<Rightarrow> bool" where
  "is_digit c \<longleftrightarrow> char_digit c \<noteq> None"

lemma show_nat_digits: "c \<in> set (show_nat n) \<Longrightarrow> is_digit c"
proof (induction n rule: show_nat.induct)
  case (1 n)
  show ?case
  proof (cases "n < 10")
    case True
    then show ?thesis using 1(2) by (simp add: show_nat.simps [of n] is_digit_def)
  next
    case False
    then show ?thesis using 1 by (auto simp: show_nat.simps [of n] is_digit_def)
  qed
qed

lemma show_nat_not_Nil [simp]: "show_nat n \<noteq> []"
  by (subst show_nat.simps) simp

lemma parse_show [simp]:
  assumes "n < 2 ^ w"
  shows "parse_uint w (show_nat n) = Some n"
proof (cases "show_nat n")
  case (Cons c cs)
  have "is_digit c" using show_nat_digits [of c n] Cons by simp
  then have "c \<noteq> CHR ''+''" by (auto simp: is_digit_def char_digit_def)
  then show ?thesis using parse_show_digits [OF assms] Cons by (simp add: parse_uint_def)
qed simp

lemma split_on_clean: "c \<notin> set p \<Longrightarrow> split_on c p = [p]"
  by (induction p) auto

lemma split_on_append: "c \<notin> set p \<Longrightarrow> split_on c (p @ c # q) = p # split_on c q"
  by (induction p) auto

lemma no_separator [simp]: "CHR '','' \<notin> set (show_nat n)" "CHR ''-'' \<notin> set (show_nat n)"
  by (auto dest!: show_nat_digits simp: is_digit_def char_digit_def)

lemma parse_word [simp]:
  "parse_uint 16 (show_nat (unat (x :: 16 word))) = Some (unat x)"
  "parse_uint 32 (show_nat (unat (y :: 32 word))) = Some (unat y)"
  "parse_uint 64 (show_nat (unat (z :: 64 word))) = Some (unat z)"
  using unsigned_less [where ?'a = nat, of x] unsigned_less [where ?'a = nat, of y] unsigned_less [where ?'a = nat, of z]
  by (simp_all del: One_nat_def)

section \<open>Properties\<close>

lemma sci_roundtrip: "sci_from_str (sci_show c) = Inr c"
  by (simp add: sci_from_str_def sci_show_def split_on_append split_on_clean parse_part_def Let_def)

lemma cci_roundtrip: "cci_from_str (cci_show c) = Inr c"
proof -
  have "CHR ''-'' \<notin> set (sci_show d)" for d by (simp add: sci_show_def)
  then show ?thesis
    by (simp add: cci_from_str_def cci_show_def split_on_append split_on_clean parse_part_def sci_roundtrip Let_def)
qed

text \<open>
  C38. A connection id that is printed is read back unchanged, whatever the node, session, worker and
  task index, as is the part of it that a server knows; different ids have different texts. Going down the layers of routing
  and up again gives the id: a connection id is split into the server's part and the node with its session, the server's part
  into the index of the task and the worker, \<^verbatim>\<open>get_down_part\<close> gives the part that is split off, and joining
  what was split gives the id back; splitting what was joined gives its parts.
\<close>
theorem conn_id_roundtrip:
  "cci_from_str (cci_show c) = Inr c \<and> sci_from_str (sci_show d) = Inr d \<and> (cci_show c = cci_show c' \<longleftrightarrow> c = c') \<and>
   (case cci_down c of (e, part) \<Rightarrow> part = cci_get_down_part c \<and> sci_up part e = c) \<and> cci_down (sci_up part d) = (d, part) \<and>
   (case sci_down d of (index, worker) \<Rightarrow> worker = sci_get_down_part d \<and> usize_up worker index = d) \<and> sci_down (usize_up worker index) = (index, worker)"
proof -
  have "cci_show c = cci_show c' \<longleftrightarrow> c = c'" by (metis cci_roundtrip sum.inject(2))
  moreover have "case cci_down c of (e, part) \<Rightarrow> part = cci_get_down_part c \<and> sci_up part e = c"
    by (simp add: cci_down_def cci_get_down_part_def sci_up_def)
  moreover have "case sci_down d of (index, worker) \<Rightarrow> worker = sci_get_down_part d \<and> usize_up worker index = d"
    by (simp add: sci_down_def sci_get_down_part_def usize_up_def)
  moreover have "cci_down (sci_up part d) = (d, part)" "sci_down (usize_up worker index) = (index, worker)"
    by (simp_all add: cci_down_def sci_up_def sci_down_def usize_up_def)
  ultimately show ?thesis using cci_roundtrip sci_roundtrip by blast
qed

end
