(* ===== verification/Rtp_Codecs.thy ===== *)
theory Rtp_Codecs
  imports Media_Types
begin

text \<open>
  \<^verbatim>\<open>packages/transport_webrtc/src/media/\<close>: the bit reader and the parsers and rewriters of the RTP
  payload descriptors of VP8, VP9 and H.264. Payloads are lists of 8-bit words, every read and every
  index may panic, and the errors of the VP9 parser are values inside the panic type. The loop over the
  VP9 reference indices is a \<open>partial_function\<close>, of which it is proved that it ends.
\<close>

unbundle bit_operations_syntax

section \<open>Bit reader\<close>

type_synonym payload = "8 word list"

type_synonym bit_reader = "payload \<times> nat"

definition br_remaining :: "bit_reader \<Rightarrow> nat" where
  "br_remaining r = length (fst r) * 8 - snd r"

definition br_get_u8 :: "bit_reader \<Rightarrow> (8 word \<times> bit_reader) run" where
  "br_get_u8 r = (if br_remaining r = 0 then Inl Explicit_Panic else
     let offs = snd r div 8; shift = snd r mod 8; r' = (fst r, snd r + 8) in
     rbind (rindex (fst r) offs) (\<lambda>n.
     if 0 < shift then rbind (rindex (fst r) (offs + 1)) (\<lambda>m. Inr (push_bit shift n OR drop_bit (8 - shift) m, r'))
     else Inr (n, r')))"

definition br_get_u16 :: "bit_reader \<Rightarrow> (16 word \<times> bit_reader) run" where
  "br_get_u16 r = rbind (br_get_u8 r) (\<lambda>(hi, r1). rbind (br_get_u8 r1) (\<lambda>(lo, r2).
     Inr (push_bit 8 (ucast hi) OR ucast lo, r2)))"

section \<open>VP8\<close>

record vp8_header =
  vh_x :: "8 word"
  vh_n :: "8 word"
  vh_s :: "8 word"
  vh_pid :: "8 word"
  vh_i :: "8 word"
  vh_l :: "8 word"
  vh_t :: "8 word"
  vh_k :: "8 word"
  vh_picture_id :: "16 word"
  vh_tl0_pic_idx :: "8 word"
  vh_tid :: "8 word"
  vh_y :: "8 word"
  vh_key_idx :: "8 word"

definition vp8_header_default :: vp8_header where
  "vp8_header_default = \<lparr>vh_x = 0, vh_n = 0, vh_s = 0, vh_pid = 0, vh_i = 0, vh_l = 0, vh_t = 0, vh_k = 0, vh_picture_id = 0,
     vh_tl0_pic_idx = 0, vh_tid = 0, vh_y = 0, vh_key_idx = 0\<rparr>"

text \<open>The parser's state: the reader, the payload index and the header. The blocks of \<^verbatim>\<open>parse_rtp\<close> for the
  optional bytes are functions of their own.\<close>

type_synonym vp8_state = "bit_reader \<times> nat \<times> vp8_header"

definition vp8_first :: "8 word \<Rightarrow> vp8_header" where
  "vp8_first b = vp8_header_default\<lparr>vh_x := drop_bit 7 (b AND 0x80), vh_n := drop_bit 5 (b AND 0x20), vh_s := drop_bit 4 (b AND 0x10),
     vh_pid := b AND 0x07\<rparr>"

definition vp8_extension :: "vp8_state \<Rightarrow> vp8_state run" where
  "vp8_extension = (\<lambda>(r, i, h). rbind (br_get_u8 r) (\<lambda>(b, r').
     Inr (r', i + 1, h\<lparr>vh_i := drop_bit 7 (b AND 0x80), vh_l := drop_bit 6 (b AND 0x40), vh_t := drop_bit 5 (b AND 0x20),
       vh_k := drop_bit 4 (b AND 0x10)\<rparr>)))"

definition vp8_picture :: "vp8_state \<Rightarrow> vp8_state run" where
  "vp8_picture = (\<lambda>(r, i, h). rbind (br_get_u8 r) (\<lambda>(b, r').
     if 0 < b AND 0x80 then rbind (br_get_u8 r') (\<lambda>(c, r'').
       Inr (r'', i + 2, h\<lparr>vh_picture_id := push_bit 8 (ucast (b AND 0x7f)) OR ucast c\<rparr>))
     else Inr (r', i + 1, h\<lparr>vh_picture_id := ucast b\<rparr>)))"

definition vp8_tl0 :: "vp8_state \<Rightarrow> vp8_state run" where
  "vp8_tl0 = (\<lambda>(r, i, h). rbind (br_get_u8 r) (\<lambda>(b, r'). Inr (r', i + 1, h\<lparr>vh_tl0_pic_idx := b\<rparr>)))"

definition vp8_temporal_key :: "vp8_state \<Rightarrow> vp8_state run" where
  "vp8_temporal_key = (\<lambda>(r, i, h). rbind (br_get_u8 r) (\<lambda>(b, r').
     let h1 = (if vh_t h = 1 then h\<lparr>vh_tid := drop_bit 6 b, vh_y := drop_bit 5 b AND 0x1\<rparr> else h);
         h2 = (if vh_k h1 = 1 then h1\<lparr>vh_key_idx := b AND 0x1F\<rparr> else h1) in
     Inr (r', i + 1, h2)))"

definition vp8_meta :: "vp8_header \<Rightarrow> 8 word \<Rightarrow> nat option \<Rightarrow> media_orientation option \<Rightarrow> media_meta" where
  "vp8_meta h out rid rotation =
     (let is_key = vh_s h \<noteq> 0 \<and> vh_pid h = 0 \<and> out AND 0x01 = 0 in
      if vh_t h = 1 then Vp8 is_key (Some \<lparr>vp8_picture_id = (if vh_i h \<noteq> 0 then Some (unat (vh_picture_id h)) else None),
          vp8_tl0_pic_idx = (if vh_l h \<noteq> 0 then Some (unat (vh_tl0_pic_idx h)) else None),
          vp8_spatial = (case rid of None \<Rightarrow> 0 | Some r \<Rightarrow> r), vp8_temporal = unat (vh_tid h), vp8_layer_sync = (vh_y h \<noteq> 0)\<rparr>) rotation
      else Vp8 is_key None rotation)"

definition vp8_parse_rtp :: "payload \<Rightarrow> nat option \<Rightarrow> media_orientation option \<Rightarrow> media_meta option run" where
  "vp8_parse_rtp packet rid rotation = (if length packet < 4 then Inr None else
     rbind (br_get_u8 (packet, 0)) (\<lambda>(b, r0).
     let st0 = (r0, 1, vp8_first b) in
     rbind (if vh_x (vp8_first b) = 1 then vp8_extension st0 else Inr st0) (\<lambda>st1.
     rbind (if vh_i (snd (snd st1)) = 1 then vp8_picture st1 else Inr st1) (\<lambda>st2.
     if length packet \<le> fst (snd st2) then Inr None else
     rbind (if vh_l (snd (snd st2)) = 1 then vp8_tl0 st2 else Inr st2) (\<lambda>st3.
     if length packet \<le> fst (snd st3) then Inr None else
     rbind (if vh_t (snd (snd st3)) = 1 \<or> vh_k (snd (snd st3)) = 1 then vp8_temporal_key st3 else Inr st3) (\<lambda>st4.
     if length packet \<le> fst (snd st4) then Inr None else
     rbind (rindex packet (fst (snd st4))) (\<lambda>out.
     Inr (Some (vp8_meta (snd (snd st4)) out rid rotation)))))))))"

definition rset :: "'a list \<Rightarrow> nat \<Rightarrow> 'a \<Rightarrow> 'a list run" where
  "rset xs i x = (if i < length xs then Inr (xs[i := x]) else Inl Index_Out_Of_Bounds)"

text \<open>The rewriting of the picture id at \<open>i\<close>, which VP9 has as well: the new payload and the index after it.\<close>

definition rewrite_picture_id :: "payload \<Rightarrow> nat \<Rightarrow> nat option \<Rightarrow> (payload \<times> nat) run" where
  "rewrite_picture_id payload i picture_id =
     (let p = (case picture_id of None \<Rightarrow> 0 | Some p \<Rightarrow> of_nat p) :: 16 word in
      rbind (rindex payload i) (\<lambda>b.
      if 0 < b AND 0x80 then
        rbind (rset payload i (0x80 OR ucast (drop_bit 8 p))) (\<lambda>payload1.
        rbind (rset payload1 (i + 1) (ucast p)) (\<lambda>payload2. Inr (payload2, i + 2)))
      else rbind (rset payload i (0x7F AND ucast p)) (\<lambda>payload1. Inr (payload1, i + 1))))"

definition vp8_rewrite_rtp :: "payload \<Rightarrow> vp8_sim \<Rightarrow> payload run" where
  "vp8_rewrite_rtp payload sim =
     rbind (rindex payload 0) (\<lambda>b.
     rbind (if drop_bit 7 (b AND 0x80) = 1 then rbind (rindex payload 1) (\<lambda>c. Inr (2, drop_bit 7 (c AND 0x80), drop_bit 6 (c AND 0x40)))
            else Inr (1, 0, 0)) (\<lambda>(i0, i, l).
     rbind (if i = 1 then rewrite_picture_id payload i0 (vp8_picture_id sim) else Inr (payload, i0)) (\<lambda>(payload1, i1).
     if l = 1 then rset payload1 i1 (case vp8_tl0_pic_idx sim of None \<Rightarrow> 0 | Some t \<Rightarrow> of_nat t) else Inr payload1)))"

section \<open>H.264\<close>

definition H264_NALU_TTYPE_STAP_A :: "32 word" where "H264_NALU_TTYPE_STAP_A = 24"

definition H264_NALU_TTYPE_SPS :: "32 word" where "H264_NALU_TTYPE_SPS = 7"

definition H264_NALU_TYPE_BITMASK :: "32 word" where "H264_NALU_TYPE_BITMASK = 0x1F"

definition be_u32 :: "8 word \<Rightarrow> 8 word \<Rightarrow> 8 word \<Rightarrow> 8 word \<Rightarrow> 32 word" where
  "be_u32 a b c d = push_bit 24 (ucast a) OR push_bit 16 (ucast b) OR push_bit 8 (ucast c) OR ucast d"

definition h264_parse_rtp :: "payload \<Rightarrow> h264_profile \<Rightarrow> nat option \<Rightarrow> media_orientation option \<Rightarrow> media_meta option" where
  "h264_parse_rtp payload profile rid rotation = (if length payload < 4 then None else
     let w = be_u32 (payload ! 0) (payload ! 1) (payload ! 2) (payload ! 3);
         nalu_type = drop_bit 24 w AND H264_NALU_TYPE_BITMASK;
         key = (nalu_type = H264_NALU_TTYPE_STAP_A \<and> w AND H264_NALU_TYPE_BITMASK = H264_NALU_TTYPE_SPS) \<or> nalu_type = H264_NALU_TTYPE_SPS in
     Some (H264 key profile (map_option (\<lambda>r. \<lparr>h264_spatial = r\<rparr>) rid) rotation))"

definition h264_rewrite_rtp :: "payload \<Rightarrow> h264_sim \<Rightarrow> payload" where
  "h264_rewrite_rtp payload sim = payload"

section \<open>VP9\<close>

definition MAX_SPATIAL_LAYERS :: "8 word" where "MAX_SPATIAL_LAYERS = 5"

definition MAX_VP9REF_PICS :: nat where "MAX_VP9REF_PICS = 3"

datatype packet_error = ErrShortPacket | ErrTooManySpatialLayers | ErrTooManyPDiff

record vp9_header =
  vn_i :: bool
  vn_p :: bool
  vn_l :: bool
  vn_f :: bool
  vn_b :: bool
  vn_e :: bool
  vn_v :: bool
  vn_z :: bool
  vn_picture_id :: "16 word"
  vn_tid :: "8 word"
  vn_u :: bool
  vn_sid :: "8 word"
  vn_d :: bool
  vn_pdiff :: "8 word list"
  vn_tl0picidx :: "8 word"
  vn_ns :: "8 word"
  vn_y :: bool
  vn_g :: bool
  vn_ng :: "8 word"
  vn_width :: "16 word list"
  vn_height :: "16 word list"
  vn_pgtid :: "8 word list"
  vn_pgu :: "bool list"
  vn_pgpdiff :: "8 word list list"

definition vp9_header_default :: vp9_header where
  "vp9_header_default = \<lparr>vn_i = False, vn_p = False, vn_l = False, vn_f = False, vn_b = False, vn_e = False, vn_v = False, vn_z = False,
     vn_picture_id = 0, vn_tid = 0, vn_u = False, vn_sid = 0, vn_d = False, vn_pdiff = [], vn_tl0picidx = 0, vn_ns = 0, vn_y = False,
     vn_g = False, vn_ng = 0, vn_width = [], vn_height = [], vn_pgtid = [], vn_pgu = [], vn_pgpdiff = []\<rparr>"

text \<open>A parser may panic, or return an error or a value. \<open>vbind\<close> is the operator \<^verbatim>\<open>?\<close>. The state is the
  reader and the header; the payload index of the code is write-only and left out.\<close>

type_synonym 'a vres = "(packet_error + 'a) run"

type_synonym vp9_state = "bit_reader \<times> vp9_header"

definition vbind :: "'a vres \<Rightarrow> ('a \<Rightarrow> 'b vres) \<Rightarrow> 'b vres" where
  "vbind m f = rbind m (\<lambda>x. case x of Inl e \<Rightarrow> Inr (Inl e) | Inr y \<Rightarrow> f y)"

definition vread :: "bit_reader \<Rightarrow> (8 word \<times> bit_reader) vres" where
  "vread r = rbind (br_get_u8 r) (\<lambda>x. Inr (Inr x))"

text \<open>\<^verbatim>\<open>if reader.remaining() < k { return Err(ErrShortPacket) }\<close>\<close>

definition vneed :: "nat \<Rightarrow> bit_reader \<Rightarrow> 'a vres \<Rightarrow> 'a vres" where
  "vneed k r m = (if br_remaining r < k then Inr (Inl ErrShortPacket) else m)"

definition vp9_parse_picture_id :: "vp9_state \<Rightarrow> vp9_state vres" where
  "vp9_parse_picture_id = (\<lambda>(r, h). vneed 1 r (vbind (vread r) (\<lambda>(b, r1).
     if b AND 0x80 \<noteq> 0 then vneed 1 r1 (vbind (vread r1) (\<lambda>(c, r2).
       Inr (Inr (r2, h\<lparr>vn_picture_id := push_bit 8 (ucast (b AND 0x7f)) OR ucast c\<rparr>))))
     else Inr (Inr (r1, h\<lparr>vn_picture_id := ucast (b AND 0x7F)\<rparr>)))))"

definition vp9_parse_layer_info_common :: "vp9_state \<Rightarrow> vp9_state vres" where
  "vp9_parse_layer_info_common = (\<lambda>(r, h). vneed 1 r (vbind (vread r) (\<lambda>(b, r1).
     let h1 = h\<lparr>vn_tid := drop_bit 5 b, vn_u := (b AND 0x10 \<noteq> 0), vn_sid := drop_bit 1 b AND 0x7, vn_d := (b AND 0x01 \<noteq> 0)\<rparr> in
     if MAX_SPATIAL_LAYERS \<le> vn_sid h1 then Inr (Inl ErrTooManySpatialLayers) else Inr (Inr (r1, h1)))))"

definition vp9_parse_layer_info_non_flexible_mode :: "vp9_state \<Rightarrow> vp9_state vres" where
  "vp9_parse_layer_info_non_flexible_mode = (\<lambda>(r, h). vneed 1 r (vbind (vread r) (\<lambda>(b, r1). Inr (Inr (r1, h\<lparr>vn_tl0picidx := b\<rparr>)))))"

definition vp9_parse_layer_info :: "vp9_state \<Rightarrow> vp9_state vres" where
  "vp9_parse_layer_info st = vbind (vp9_parse_layer_info_common st) (\<lambda>(r, h).
     if vn_f h then Inr (Inr (r, h)) else vp9_parse_layer_info_non_flexible_mode (r, h))"

text \<open>The loop \<^verbatim>\<open>while (b & 0x1) != 0\<close>: \<open>None\<close> would mean that it does not end.\<close>

partial_function (option) vp9_ref_loop :: "8 word \<Rightarrow> bit_reader \<Rightarrow> 8 word list \<Rightarrow> (bit_reader \<times> 8 word list) vres option" where
  "vp9_ref_loop b r pdiff = (if b AND 0x1 \<noteq> 0 then
     (if br_remaining r = 0 then Some (Inr (Inl ErrShortPacket)) else
      (case br_get_u8 r of Inl e \<Rightarrow> Some (Inl e)
       | Inr (b', r') \<Rightarrow>
           if MAX_VP9REF_PICS \<le> length (pdiff @ [drop_bit 1 b']) then Some (Inr (Inl ErrTooManyPDiff))
           else vp9_ref_loop b' r' (pdiff @ [drop_bit 1 b'])))
     else Some (Inr (Inr (r, pdiff))))"

definition vp9_parse_ref_indices :: "vp9_state \<Rightarrow> vp9_state vres option" where
  "vp9_parse_ref_indices = (\<lambda>(r, h). map_option (\<lambda>m. vbind m (\<lambda>(r', pdiff). Inr (Inr (r', h\<lparr>vn_pdiff := pdiff\<rparr>))))
     (vp9_ref_loop 1 r (vn_pdiff h)))"

fun vp9_sizes :: "nat \<Rightarrow> bit_reader \<Rightarrow> (bit_reader \<times> 16 word list \<times> 16 word list) run" where
  "vp9_sizes 0 r = Inr (r, [], [])"
| "vp9_sizes (Suc n) r = rbind (br_get_u16 r) (\<lambda>(w, r1). rbind (br_get_u16 r1) (\<lambda>(h, r2).
     rbind (vp9_sizes n r2) (\<lambda>(r3, ws, hs). Inr (r3, w # ws, h # hs))))"

fun vp9_bytes :: "nat \<Rightarrow> bit_reader \<Rightarrow> (bit_reader \<times> 8 word list) run" where
  "vp9_bytes 0 r = Inr (r, [])"
| "vp9_bytes (Suc n) r = rbind (br_get_u8 r) (\<lambda>(b, r1). rbind (vp9_bytes n r1) (\<lambda>(r2, bs). Inr (r2, b # bs)))"

fun vp9_picture_groups :: "nat \<Rightarrow> vp9_state \<Rightarrow> vp9_state vres" where
  "vp9_picture_groups 0 st = Inr (Inr st)"
| "vp9_picture_groups (Suc n) st = (case st of (r, h) \<Rightarrow> vneed 1 r (vbind (vread r) (\<lambda>(b, r1).
     let h1 = h\<lparr>vn_pgtid := vn_pgtid h @ [drop_bit 5 b], vn_pgu := vn_pgu h @ [b AND 0x10 \<noteq> 0]\<rparr>;
         k = unat (drop_bit 2 b AND 0x3) in
     vneed k r1 (vbind (rbind (vp9_bytes k r1) (\<lambda>x. Inr (Inr x))) (\<lambda>(r2, ds).
     vp9_picture_groups n (r2, h1\<lparr>vn_pgpdiff := vn_pgpdiff h1 @ [ds]\<rparr>))))))"

definition vp9_parse_ssdata :: "vp9_state \<Rightarrow> vp9_state vres" where
  "vp9_parse_ssdata = (\<lambda>(r, h). vneed 1 r (vbind (vread r) (\<lambda>(b, r1).
     let h1 = h\<lparr>vn_ns := drop_bit 5 b, vn_y := (b AND 0x10 \<noteq> 0), vn_g := (drop_bit 1 b AND 0x7 \<noteq> 0), vn_ng := 0\<rparr>;
         ns = unat (vn_ns h1 + 1) in
     vbind (if vn_y h1 then vneed (4 * ns) r1 (vbind (rbind (vp9_sizes ns r1) (\<lambda>x. Inr (Inr x))) (\<lambda>(r2, ws, hs).
              Inr (Inr (r2, h1\<lparr>vn_width := ws, vn_height := hs\<rparr>))))
            else Inr (Inr (r1, h1))) (\<lambda>(r2, h2).
     vbind (if vn_g h2 then vneed 1 r2 (vbind (vread r2) (\<lambda>(g, r3). Inr (Inr (r3, h2\<lparr>vn_ng := g\<rparr>))))
            else Inr (Inr (r2, h2))) (\<lambda>(r3, h3).
     vp9_picture_groups (unat (vn_ng h3)) (r3, h3))))))"

definition vp9_first :: "8 word \<Rightarrow> vp9_header \<Rightarrow> vp9_header" where
  "vp9_first b h = h\<lparr>vn_i := (b AND 0x80 \<noteq> 0), vn_p := (b AND 0x40 \<noteq> 0), vn_l := (b AND 0x20 \<noteq> 0), vn_f := (b AND 0x10 \<noteq> 0),
     vn_b := (b AND 0x08 \<noteq> 0), vn_e := (b AND 0x04 \<noteq> 0), vn_v := (b AND 0x02 \<noteq> 0), vn_z := (b AND 0x01 \<noteq> 0)\<rparr>"

definition vp9_result :: "vp9_header \<Rightarrow> bool \<times> vp9_svc option" where
  "vp9_result h = (let is_key = \<not> vn_p h \<and> vn_b h \<and> (vn_sid h = 0 \<or> \<not> vn_d h) in
     if vn_l h then (is_key, Some \<lparr>vp9_spatial = unat (vn_sid h), vp9_temporal = unat (vn_tid h), vp9_begin_frame = vn_b h, vp9_end_frame = vn_e h,
       vp9_spatial_layers = (if vn_v h then Some (unat (vn_ns h + 1)) else None),
       vp9_picture_id = (if vn_i h then Some (unat (vn_picture_id h)) else None),
       vp9_switching_point = vn_u h, vp9_predicted_frame = vn_p h\<rparr>)
     else (is_key, None))"

definition vp9_parse_from :: "payload \<Rightarrow> vp9_header \<Rightarrow> (bool \<times> vp9_svc option) vres option" where
  "vp9_parse_from packet h0 = (if packet = [] then Some (Inr (Inl ErrShortPacket)) else
     (case vbind (vread (packet, 0)) (\<lambda>(b, r).
        let h = vp9_first b h0 in
        vbind (if vn_i h then vp9_parse_picture_id (r, h) else Inr (Inr (r, h))) (\<lambda>(r, h).
        if vn_l h then vp9_parse_layer_info (r, h) else Inr (Inr (r, h)))) of
      Inl e \<Rightarrow> Some (Inl e)
    | Inr (Inl e) \<Rightarrow> Some (Inr (Inl e))
    | Inr (Inr (r, h)) \<Rightarrow>
        map_option (\<lambda>m. vbind m (\<lambda>(r, h).
          vbind (if vn_v h then vp9_parse_ssdata (r, h) else Inr (Inr (r, h))) (\<lambda>(r, h). Inr (Inr (vp9_result h)))))
        (if vn_f h \<and> vn_p h then vp9_parse_ref_indices (r, h) else Some (Inr (Inr (r, h))))))"

definition vp9_parse_rtp :: "payload \<Rightarrow> vp9_profile \<Rightarrow> media_orientation option \<Rightarrow> media_meta option run option" where
  "vp9_parse_rtp payload profile rotation = map_option (\<lambda>m. rbind m (\<lambda>x. Inr (case x of Inl _ \<Rightarrow> None
     | Inr (key, svc) \<Rightarrow> Some (Vp9 key profile svc rotation)))) (vp9_parse_from payload vp9_header_default)"

definition vp9_rewrite_rtp :: "payload \<Rightarrow> vp9_svc \<Rightarrow> payload run" where
  "vp9_rewrite_rtp payload svc =
     rbind (rindex payload 0) (\<lambda>b.
     if b AND 0x80 \<noteq> 0 then rbind (rewrite_picture_id payload 1 (vp9_picture_id svc)) (\<lambda>(payload1, _). Inr payload1) else Inr payload)"

section \<open>Bits of a byte\<close>

lemma drop_and_exp: "n < 8 \<Longrightarrow> drop_bit n (b AND 2 ^ n) = (of_bool (bit b n) :: 8 word)"
  by (rule bit_word_eqI) (auto simp: bit_simps)

lemma flags [simp]:
  "drop_bit 7 (b AND 0x80) = (of_bool (bit b 7) :: 8 word)"
  "drop_bit 6 (b AND 0x40) = (of_bool (bit b 6) :: 8 word)"
  "drop_bit 5 (b AND 0x20) = (of_bool (bit b 5) :: 8 word)"
  "drop_bit 4 (b AND 0x10) = (of_bool (bit b 4) :: 8 word)"
  using drop_and_exp [of 7 b] drop_and_exp [of 6 b] drop_and_exp [of 5 b] drop_and_exp [of 4 b] by simp_all

lemma drop_one [simp]: "drop_bit n b AND 1 = (of_bool (bit b n) :: 8 word)"
  by (simp add: and_one_eq bit_iff_odd_drop_bit mod_2_eq_odd)

lemma high_bit [simp]: "0 < b AND 0x80 \<longleftrightarrow> bit (b :: 8 word) 7" "b AND 0x80 = 0 \<longleftrightarrow> \<not> bit b 7"
  using and_exp_eq_0_iff_not_bit [of b 7] by (simp_all add: word_gt_0)

lemma masks: "(0x7f :: 8 word) = mask 7" "(7 :: 8 word) = mask 3"
  by (simp_all add: mask_eq_exp_minus_1)

lemma be_u16: "unat (push_bit 8 (ucast b) OR ucast c :: 16 word) = unat (b :: 8 word) * 256 + unat (c :: 8 word)"
proof -
  have "push_bit 8 (ucast b) OR ucast c = (push_bit 8 (ucast b) + ucast c :: 16 word)"
    by (rule disjunctive_add [symmetric]) (auto simp: bit_simps dest: bit_imp_le_length)
  also have "\<dots> = of_nat (unat b * 256 + unat c)" by (simp add: push_bit_eq_mult of_nat_unat)
  finally have *: "push_bit 8 (ucast b) OR ucast c = (of_nat (unat b * 256 + unat c) :: 16 word)" .
  have "unat b < 256" "unat c < 256" using unsigned_less [where ?'a = nat, of b] unsigned_less [where ?'a = nat, of c] by simp_all
  then have "unat b * 256 + unat c < 2 ^ 16" by simp
  then show ?thesis unfolding * by (simp add: unat_of_nat take_bit_nat_eq_self del: of_nat_add of_nat_mult)
qed

lemma unat_widen [simp]: "unat (ucast (b :: 8 word) :: 16 word) = unat b"
  using unsigned_less [where ?'a = nat, of b] by (simp add: unsigned_ucast_eq take_bit_nat_eq_self)

lemma unat_low7: "unat (b AND 0x7f :: 8 word) = unat b mod 128"
  unfolding masks take_bit_eq_mask [symmetric] by (simp only: unsigned_take_bit_eq) (simp add: take_bit_eq_mod)

lemma byte_fields:
  "unat (drop_bit 6 (b :: 8 word)) = unat b div 64"
  "b AND 7 = 0 \<longleftrightarrow> unat b mod 8 = 0"
  "b AND 1 = 0 \<longleftrightarrow> \<not> bit b 0"
proof -
  show "unat (drop_bit 6 b) = unat b div 64" by (simp only: unat_drop_bit_eq) (simp add: drop_bit_eq_div)
  have "b AND 7 = 0 \<longleftrightarrow> unat (take_bit 3 b) = 0" unfolding masks take_bit_eq_mask [symmetric] by (simp only: unat_eq_zero)
  also have "unat (take_bit 3 b) = unat b mod 8" by (simp only: unsigned_take_bit_eq) (simp add: take_bit_eq_mod)
  finally show "b AND 7 = 0 \<longleftrightarrow> unat b mod 8 = 0" .
  show "b AND 1 = 0 \<longleftrightarrow> \<not> bit b 0" by (simp add: and_one_eq mod_2_eq_odd bit_0)
qed

lemma br_aligned: "i < length p \<Longrightarrow> br_get_u8 (p, i * 8) = Inr (p ! i, (p, Suc i * 8))"
  by (simp add: br_get_u8_def br_remaining_def)

section \<open>VP8 by positions\<close>

text \<open>The reference: where the fields of a payload descriptor are, from the two flag bytes and the length
  bit of the picture id, and what they mean.\<close>

record vp8_layout =
  vl_i :: bool
  vl_l :: bool
  vl_t :: bool
  vl_k :: bool
  vl_long :: bool
  vl_pid_at :: nat
  vl_tl0_at :: nat
  vl_tk_at :: nat
  vl_out_at :: nat

definition vp8_layout_of :: "payload \<Rightarrow> vp8_layout" where
  "vp8_layout_of p =
     (let x = bit (p ! 0) 7; e = (if x then p ! 1 else 0); i = bit e 7; l = bit e 6; t = bit e 5; k = bit e 4;
          pid_at = (if x then 2 else 1); long = (i \<and> bit (p ! pid_at) 7);
          tl0_at = pid_at + (if long then 2 else if i then 1 else 0);
          tk_at = tl0_at + (if l then 1 else 0); out_at = tk_at + (if t \<or> k then 1 else 0) in
      \<lparr>vl_i = i, vl_l = l, vl_t = t, vl_k = k, vl_long = long, vl_pid_at = pid_at, vl_tl0_at = tl0_at, vl_tk_at = tk_at, vl_out_at = out_at\<rparr>)"

definition vp8_pid :: "payload \<Rightarrow> vp8_layout \<Rightarrow> nat" where
  "vp8_pid p y = (if vl_long y then (unat (p ! vl_pid_at y) mod 128) * 256 + unat (p ! (vl_pid_at y + 1)) else unat (p ! vl_pid_at y))"

definition vp8_parse_ref :: "payload \<Rightarrow> nat option \<Rightarrow> media_orientation option \<Rightarrow> media_meta option" where
  "vp8_parse_ref p rid rotation = (let y = vp8_layout_of p in
     if length p < 4 \<or> length p \<le> vl_out_at y then None else
     Some (Vp8 (bit (p ! 0) 4 \<and> unat (p ! 0) mod 8 = 0 \<and> \<not> bit (p ! vl_out_at y) 0)
       (if vl_t y then Some \<lparr>vp8_picture_id = (if vl_i y then Some (vp8_pid p y) else None),
          vp8_tl0_pic_idx = (if vl_l y then Some (unat (p ! vl_tl0_at y)) else None), vp8_spatial = (case rid of None \<Rightarrow> 0 | Some r \<Rightarrow> r),
          vp8_temporal = unat (p ! vl_tk_at y) div 64, vp8_layer_sync = bit (p ! vl_tk_at y) 5\<rparr> else None) rotation))"

lemmas vp8_defs = vp8_first_def vp8_extension_def vp8_picture_def vp8_tl0_def vp8_temporal_key_def vp8_header_default_def

text \<open>The optional parts, on a reader at byte \<open>i\<close>.\<close>

lemma vp8_picture_at:
  "i + 1 < length p \<Longrightarrow> vp8_picture ((p, i * 8), i, h) = Inr (if bit (p ! i) 7
     then ((p, (i + 2) * 8), i + 2, h\<lparr>vh_picture_id := push_bit 8 (ucast (p ! i AND 0x7f)) OR ucast (p ! (i + 1))\<rparr>)
     else ((p, (i + 1) * 8), i + 1, h\<lparr>vh_picture_id := ucast (p ! i)\<rparr>))"
  using br_aligned [of i p] br_aligned [of "Suc i" p] by (simp add: vp8_picture_def del: mult_Suc)

lemma vp8_tl0_at: "i < length p \<Longrightarrow> vp8_tl0 ((p, i * 8), i, h) = Inr ((p, (i + 1) * 8), i + 1, h\<lparr>vh_tl0_pic_idx := p ! i\<rparr>)"
  using br_aligned [of i p] by (simp add: vp8_tl0_def del: mult_Suc)

lemma vp8_temporal_key_at:
  "i < length p \<Longrightarrow> \<exists>h'. vp8_temporal_key ((p, i * 8), i, h) = Inr ((p, (i + 1) * 8), i + 1, h') \<and>
     vh_s h' = vh_s h \<and> vh_pid h' = vh_pid h \<and> vh_i h' = vh_i h \<and> vh_l h' = vh_l h \<and> vh_t h' = vh_t h \<and> vh_k h' = vh_k h \<and>
     vh_picture_id h' = vh_picture_id h \<and> vh_tl0_pic_idx h' = vh_tl0_pic_idx h \<and>
     (vh_t h = 1 \<longrightarrow> vh_tid h' = drop_bit 6 (p ! i) \<and> vh_y h' = drop_bit 5 (p ! i) AND 1)"
  using br_aligned [of i p] by (simp add: vp8_temporal_key_def Let_def del: mult_Suc)

definition vp8_read :: "payload \<Rightarrow> vp8_header \<Rightarrow> bool" where
  "vp8_read p h \<longleftrightarrow> (let y = vp8_layout_of p in vh_s h = of_bool (bit (p ! 0) 4) \<and> vh_pid h = p ! 0 AND 7 \<and> vh_i h = of_bool (vl_i y) \<and>
     vh_l h = of_bool (vl_l y) \<and> vh_t h = of_bool (vl_t y) \<and> vh_k h = of_bool (vl_k y) \<and>
     (vl_i y \<longrightarrow> unat (vh_picture_id h) = vp8_pid p y))"

lemma vp8_stage_pid:
  assumes "4 \<le> length p"
  shows "\<exists>h. rbind (if vh_x (vp8_first (p ! 0)) = 1 then vp8_extension ((p, 8), 1, vp8_first (p ! 0)) else Inr ((p, 8), 1, vp8_first (p ! 0)))
       (\<lambda>st1. if vh_i (snd (snd st1)) = 1 then vp8_picture st1 else Inr st1) =
     Inr ((p, vl_tl0_at (vp8_layout_of p) * 8), vl_tl0_at (vp8_layout_of p), h) \<and> vp8_read p h"
proof (cases "bit (p ! 0) 7")
  case False
  then show ?thesis by (simp add: vp8_first_def vp8_header_default_def vp8_layout_of_def Let_def vp8_read_def)
next
  case True
  let ?e = "p ! 1"
  let ?h = "(vp8_first (p ! 0))\<lparr>vh_i := of_bool (bit ?e 7), vh_l := of_bool (bit ?e 6), vh_t := of_bool (bit ?e 5), vh_k := of_bool (bit ?e 4)\<rparr>"
  have "br_get_u8 (p, 8) = Inr (?e, (p, 2 * 8))" using br_aligned [of 1 p] assms by simp
  then have ext: "vp8_extension ((p, 8), 1, vp8_first (p ! 0)) = Inr ((p, 2 * 8), 2, ?h)" by (simp add: vp8_extension_def)
  have "vp8_picture ((p, 2 * 8), 2, ?h) = Inr (if bit (p ! 2) 7
      then ((p, 4 * 8), 4, ?h\<lparr>vh_picture_id := push_bit 8 (ucast (p ! 2 AND 0x7f)) OR ucast (p ! 3)\<rparr>)
      else ((p, 3 * 8), 3, ?h\<lparr>vh_picture_id := ucast (p ! 2)\<rparr>))" using vp8_picture_at [of 2 p ?h] assms by simp
  then have pic: "\<exists>h. (if vh_i ?h = 1 then vp8_picture ((p, 2 * 8), 2, ?h) else Inr ((p, 2 * 8), 2, ?h)) =
      Inr ((p, vl_tl0_at (vp8_layout_of p) * 8), vl_tl0_at (vp8_layout_of p), h) \<and> vp8_read p h"
    using True by (cases "bit ?e 7"; cases "bit (p ! 2) 7")
      (simp_all add: vp8_layout_of_def vp8_read_def Let_def vp8_pid_def vp8_first_def vp8_header_default_def be_u16 unat_low7)
  have x: "(vh_x (vp8_first (p ! 0)) = 1) = True" using True by (simp add: vp8_first_def)
  show ?thesis using pic by (simp only: x ext if_True rbind_Inr fst_conv snd_conv)
qed

lemma vp8_meta_read:
  assumes "vp8_read p h" and "vl_l (vp8_layout_of p) \<Longrightarrow> vh_tl0_pic_idx h = p ! vl_tl0_at (vp8_layout_of p)"
    and "vl_t (vp8_layout_of p) \<Longrightarrow> vh_tid h = drop_bit 6 (p ! vl_tk_at (vp8_layout_of p)) \<and> vh_y h = drop_bit 5 (p ! vl_tk_at (vp8_layout_of p)) AND 1"
    and "4 \<le> length p" "vl_out_at (vp8_layout_of p) < length p"
  shows "vp8_parse_ref p rid rotation = Some (vp8_meta h (p ! vl_out_at (vp8_layout_of p)) rid rotation)"
  using assms by (auto simp: vp8_read_def vp8_meta_def vp8_parse_ref_def Let_def byte_fields)

lemma vp8_parse_eq: "vp8_parse_rtp p rid rotation = Inr (vp8_parse_ref p rid rotation)"
proof (cases "length p < 4")
  case True
  then show ?thesis by (simp add: vp8_parse_rtp_def vp8_parse_ref_def Let_def)
next
  case False
  let ?y = "vp8_layout_of p" and ?n = "length p"
  have order: "vl_tk_at ?y = vl_tl0_at ?y + (if vl_l ?y then 1 else 0)" "vl_out_at ?y = vl_tk_at ?y + (if vl_t ?y \<or> vl_k ?y then 1 else 0)"
    by (simp_all add: vp8_layout_of_def Let_def)
  obtain h where h: "rbind (if vh_x (vp8_first (p ! 0)) = 1 then vp8_extension ((p, 8), 1, vp8_first (p ! 0)) else Inr ((p, 8), 1, vp8_first (p ! 0)))
       (\<lambda>st1. if vh_i (snd (snd st1)) = 1 then vp8_picture st1 else Inr st1) = Inr ((p, vl_tl0_at ?y * 8), vl_tl0_at ?y, h)" "vp8_read p h"
    using vp8_stage_pid [of p] False by auto
  have flags: "vh_l h = of_bool (vl_l ?y)" "vh_t h = of_bool (vl_t ?y)" "vh_k h = of_bool (vl_k ?y)" using h(2) by (simp_all add: vp8_read_def Let_def)
  define h3 where "h3 = (if vl_l ?y then h\<lparr>vh_tl0_pic_idx := p ! vl_tl0_at ?y\<rparr> else h)"
  have h3: "vp8_read p h3" "vl_l ?y \<Longrightarrow> vh_tl0_pic_idx h3 = p ! vl_tl0_at ?y" "vh_t h3 = of_bool (vl_t ?y)" "vh_k h3 = of_bool (vl_k ?y)"
    using h(2) flags by (simp_all add: h3_def vp8_read_def Let_def)
  have run: "vp8_parse_rtp p rid rotation = (if ?n \<le> vl_tl0_at ?y then Inr None else
     rbind (if vh_l h = 1 then vp8_tl0 ((p, vl_tl0_at ?y * 8), vl_tl0_at ?y, h) else Inr ((p, vl_tl0_at ?y * 8), vl_tl0_at ?y, h)) (\<lambda>st3.
     if ?n \<le> fst (snd st3) then Inr None else
     rbind (if vh_t (snd (snd st3)) = 1 \<or> vh_k (snd (snd st3)) = 1 then vp8_temporal_key st3 else Inr st3) (\<lambda>st4.
     if ?n \<le> fst (snd st4) then Inr None else
     rbind (rindex p (fst (snd st4))) (\<lambda>out. Inr (Some (vp8_meta (snd (snd st4)) out rid rotation))))))"
  proof -
    have b0: "br_get_u8 (p, 0) = Inr (p ! 0, (p, 8))" using br_aligned [of 0 p] False by (cases p) auto
    obtain st1 where st1: "(if vh_x (vp8_first (p ! 0)) = 1 then vp8_extension ((p, 8), 1, vp8_first (p ! 0)) else Inr ((p, 8), 1, vp8_first (p ! 0))) = Inr st1"
        "(if vh_i (snd (snd st1)) = 1 then vp8_picture st1 else Inr st1) = Inr ((p, vl_tl0_at ?y * 8), vl_tl0_at ?y, h)"
      using h(1) unfolding rbind_eq_Inr by blast
    show ?thesis unfolding vp8_parse_rtp_def by (simp only: False if_False b0 rbind_Inr prod.case Let_def st1 fst_conv snd_conv)
  qed
  have tl0: "(if vh_l h = 1 then vp8_tl0 ((p, vl_tl0_at ?y * 8), vl_tl0_at ?y, h) else Inr ((p, vl_tl0_at ?y * 8), vl_tl0_at ?y, h)) =
      Inr ((p, vl_tk_at ?y * 8), vl_tk_at ?y, h3)" if "vl_tl0_at ?y < ?n"
    using that flags(1) vp8_tl0_at [of "vl_tl0_at ?y" p h] by (simp add: h3_def order(1))
  have tk: "\<exists>h4. (if vh_t h3 = 1 \<or> vh_k h3 = 1 then vp8_temporal_key ((p, vl_tk_at ?y * 8), vl_tk_at ?y, h3) else Inr ((p, vl_tk_at ?y * 8), vl_tk_at ?y, h3)) =
      Inr ((p, vl_out_at ?y * 8), vl_out_at ?y, h4) \<and> (vl_out_at ?y < ?n \<longrightarrow>
        vp8_parse_ref p rid rotation = Some (vp8_meta h4 (p ! vl_out_at ?y) rid rotation))" if in_n: "vl_tk_at ?y < ?n"
  proof (cases "vl_t ?y \<or> vl_k ?y")
    case True
    obtain h4 where h4: "vp8_temporal_key ((p, vl_tk_at ?y * 8), vl_tk_at ?y, h3) = Inr ((p, (vl_tk_at ?y + 1) * 8), vl_tk_at ?y + 1, h4)"
        "vp8_read p h4" "vh_tl0_pic_idx h4 = vh_tl0_pic_idx h3"
        "vl_t ?y \<Longrightarrow> vh_tid h4 = drop_bit 6 (p ! vl_tk_at ?y) \<and> vh_y h4 = drop_bit 5 (p ! vl_tk_at ?y) AND 1"
      using vp8_temporal_key_at [OF in_n, of h3] h3 by (auto simp: vp8_read_def Let_def)
    then show ?thesis using True h3(2-4) False order(2) vp8_meta_read [OF h4(2), of rid rotation] by auto
  next
    case False2: False
    then show ?thesis using h3 False order(2) vp8_meta_read [OF h3(1), of rid rotation] by auto
  qed
  show ?thesis
  proof (cases "vl_tk_at ?y < ?n")
    case True
    then have lt: "vl_tl0_at ?y < ?n" using order by auto
    then have le: "(?n \<le> vl_tl0_at ?y) = False" "(?n \<le> vl_tk_at ?y) = False" using True by auto
    obtain h4 where h4: "(if vh_t h3 = 1 \<or> vh_k h3 = 1 then vp8_temporal_key ((p, vl_tk_at ?y * 8), vl_tk_at ?y, h3) else Inr ((p, vl_tk_at ?y * 8), vl_tk_at ?y, h3)) =
        Inr ((p, vl_out_at ?y * 8), vl_out_at ?y, h4)"
        "vl_out_at ?y < ?n \<longrightarrow> vp8_parse_ref p rid rotation = Some (vp8_meta h4 (p ! vl_out_at ?y) rid rotation)" using tk [OF True] by blast
    have "vp8_parse_rtp p rid rotation = (if ?n \<le> vl_out_at ?y then Inr None else
        rbind (rindex p (vl_out_at ?y)) (\<lambda>out. Inr (Some (vp8_meta h4 out rid rotation))))"
      by (simp only: run le tl0 [OF lt] h4(1) rbind_Inr fst_conv snd_conv if_False)
    then show ?thesis using h4(2) by (auto simp: vp8_parse_ref_def Let_def)
  next
    case False
    then have none: "vp8_parse_ref p rid rotation = None" using order by (simp add: vp8_parse_ref_def Let_def)
    have "vp8_parse_rtp p rid rotation = Inr None" if "vl_tl0_at ?y < ?n"
      using False that by (simp add: run tl0 [OF that])
    moreover have "vp8_parse_rtp p rid rotation = Inr None" if "\<not> vl_tl0_at ?y < ?n" using that by (simp add: run)
    ultimately show ?thesis using none by auto
  qed
qed

text \<open>
  C16. The VP8 parser agrees with the description of the payload descriptor by positions, on every
  payload: it never reads beyond the payload, it answers \<open>None\<close> exactly for payloads of less than
  four bytes or with nothing after the descriptor, and otherwise it returns the fields at their places.
\<close>
theorem vp8_parse_by_positions: "vp8_parse_rtp p rid rotation = Inr (vp8_parse_ref p rid rotation)"
  by (rule vp8_parse_eq)

section \<open>Rewriting VP8\<close>

lemma or_and_low: "(0x80 OR q) AND 0x7f = q AND (0x7f :: 8 word)"
  by (simp add: bit.conj_disj_distrib2)

text \<open>The new bytes of the picture id have the length bit of the old ones, and carry the low bits of the id.\<close>

lemma new_pid_bits: "bit (0x80 OR q :: 8 word) 7" "\<not> bit (0x7F AND q :: 8 word) 7"
  by (simp_all add: bit_simps)

lemma new_pid_long:
  "unat (0x80 OR ucast (drop_bit 8 (of_nat n :: 16 word)) :: 8 word) mod 128 * 256 + unat (ucast (of_nat n :: 16 word) :: 8 word) = n mod 2 ^ 15"
proof -
  let ?p = "of_nat n :: 16 word"
  have "push_bit 8 (ucast (ucast (drop_bit 8 ?p) AND 0x7f :: 8 word)) OR ucast (ucast ?p :: 8 word) = take_bit 15 ?p"
    unfolding masks by (rule bit_word_eqI) (auto simp: bit_simps)
  then have "unat (take_bit 15 ?p) = unat (ucast (drop_bit 8 ?p) AND 0x7f :: 8 word) * 256 + unat (ucast ?p :: 8 word)"
    using be_u16 [of "ucast (drop_bit 8 ?p) AND 0x7f" "ucast ?p"] by simp
  also have "unat (ucast (drop_bit 8 ?p) AND 0x7f :: 8 word) = unat (0x80 OR ucast (drop_bit 8 ?p) :: 8 word) mod 128"
    unfolding unat_low7 [symmetric] or_and_low ..
  finally have "unat (0x80 OR ucast (drop_bit 8 ?p) :: 8 word) mod 128 * 256 + unat (ucast ?p :: 8 word) = unat (take_bit 15 ?p)" by simp
  also have "\<dots> = n mod 2 ^ 15" by (simp only: unsigned_take_bit_eq unat_of_nat) (simp add: take_bit_eq_mod mod_mod_cancel)
  finally show ?thesis .
qed

lemma new_pid_short: "unat (0x7F AND ucast (of_nat n :: 16 word) :: 8 word) = n mod 2 ^ 7"
proof -
  have "(0x7F AND ucast (of_nat n :: 16 word) :: 8 word) = ucast (of_nat n :: 16 word) AND 0x7F" by (simp add: and.commute)
  then have "unat (0x7F AND ucast (of_nat n :: 16 word) :: 8 word) = unat (ucast (of_nat n :: 16 word) :: 8 word) mod 128" by (simp add: unat_low7)
  then show ?thesis by (simp add: unsigned_ucast_eq unat_of_nat take_bit_eq_mod mod_mod_cancel)
qed

text \<open>The bytes that the rewriter changes.\<close>

definition vp8_new_bytes :: "payload \<Rightarrow> nat \<Rightarrow> nat \<Rightarrow> payload" where
  "vp8_new_bytes p n k = (let y = vp8_layout_of p;
     p1 = (if vl_long y then p[2 := 0x80 OR ucast (drop_bit 8 (of_nat n :: 16 word)), 3 := ucast (of_nat n :: 16 word)]
           else if vl_i y then p[2 := 0x7F AND ucast (of_nat n :: 16 word)] else p) in
     if vl_l y then p1[vl_tl0_at y := of_nat k] else p1)"

lemma vp8_rewrite_bytes:
  assumes "4 \<le> length p" "vl_out_at (vp8_layout_of p) < length p" "bit (p ! 0) 7"
  shows "vp8_rewrite_rtp p (sim\<lparr>vp8_picture_id := Some n, vp8_tl0_pic_idx := Some k\<rparr>) = Inr (vp8_new_bytes p n k)"
proof -
  have i: "rindex p 0 = Inr (p ! 0)" "rindex p 1 = Inr (p ! 1)" "rindex p 2 = Inr (p ! 2)" using assms(1) by (auto simp: rindex_def)
  have tl0: "vl_tl0_at (vp8_layout_of p) < length p" using assms(2) by (simp add: vp8_layout_of_def Let_def split: if_splits)
  have pid: "(if bit (p ! 1) 7 then rewrite_picture_id p 2 (Some n) else Inr (p, 2)) =
      Inr (if vl_long (vp8_layout_of p) then p[2 := 0x80 OR ucast (drop_bit 8 (of_nat n :: 16 word)), 3 := ucast (of_nat n :: 16 word)]
           else if vl_i (vp8_layout_of p) then p[2 := 0x7F AND ucast (of_nat n :: 16 word)] else p, vl_tl0_at (vp8_layout_of p))"
    using assms(1,3) i(3) by (cases "bit (p ! 1) 7"; cases "bit (p ! 2) 7") (simp_all add: rewrite_picture_id_def rset_def vp8_layout_of_def Let_def)
  have l: "vl_l (vp8_layout_of p) = bit (p ! 1) 6" using assms(3) by (simp add: vp8_layout_of_def Let_def)
  show ?thesis using assms(3) i(1,2) pid tl0
    by (cases "bit (p ! 1) 7"; cases "bit (p ! 1) 6") (simp_all add: vp8_rewrite_rtp_def vp8_new_bytes_def rset_def l Let_def)
qed

lemma vp8_new_layout:
  assumes "4 \<le> length p" "bit (p ! 0) 7"
  shows "vp8_layout_of (vp8_new_bytes p n k) = vp8_layout_of p" "length (vp8_new_bytes p n k) = length p" "vp8_new_bytes p n k ! 0 = p ! 0"
  using assms
  by (cases "bit (p ! 1) 7"; cases "bit (p ! 2) 7"; cases "bit (p ! 1) 6"; simp add: vp8_new_bytes_def vp8_layout_of_def Let_def new_pid_bits)+

lemma vp8_new_values:
  assumes "4 \<le> length p" "bit (p ! 0) 7" "vl_out_at (vp8_layout_of p) < length p"
  shows "vl_i (vp8_layout_of p) \<Longrightarrow> vp8_pid (vp8_new_bytes p n k) (vp8_layout_of p) = n mod (if vl_long (vp8_layout_of p) then 2 ^ 15 else 2 ^ 7)"
    and "vl_l (vp8_layout_of p) \<Longrightarrow> vp8_new_bytes p n k ! vl_tl0_at (vp8_layout_of p) = of_nat k"
    and "vl_tk_at (vp8_layout_of p) \<le> j \<Longrightarrow> vp8_new_bytes p n k ! j = p ! j"
proof -
  assume "vl_i (vp8_layout_of p)"
  then show "vp8_pid (vp8_new_bytes p n k) (vp8_layout_of p) = n mod (if vl_long (vp8_layout_of p) then 2 ^ 15 else 2 ^ 7)"
    using assms new_pid_long [of n] new_pid_short [of n]
    by (cases "bit (p ! 2) 7"; cases "bit (p ! 1) 6") (simp_all add: vp8_new_bytes_def vp8_layout_of_def Let_def vp8_pid_def)
next
  assume "vl_l (vp8_layout_of p)"
  then show "vp8_new_bytes p n k ! vl_tl0_at (vp8_layout_of p) = of_nat k" using assms
    by (cases "bit (p ! 1) 7"; cases "bit (p ! 2) 7") (simp_all add: vp8_new_bytes_def vp8_layout_of_def Let_def split: if_splits)
next
  assume "vl_tk_at (vp8_layout_of p) \<le> j"
  then show "vp8_new_bytes p n k ! j = p ! j" using assms
    by (cases "bit (p ! 1) 7"; cases "bit (p ! 2) 7"; cases "bit (p ! 1) 6") (simp_all add: vp8_new_bytes_def vp8_layout_of_def Let_def)
qed

lemma vp8_rewrite_parse:
  assumes "vp8_parse_rtp p rid rotation = Inr (Some (Vp8 key (Some sim) rotation))"
  shows "\<exists>q. vp8_rewrite_rtp p (sim\<lparr>vp8_picture_id := Some n, vp8_tl0_pic_idx := Some k\<rparr>) = Inr q \<and> length q = length p \<and>
     (\<forall>j\<ge>vl_tk_at (vp8_layout_of p). q ! j = p ! j) \<and>
     vp8_parse_rtp q rid rotation = Inr (Some (Vp8 key (Some (sim\<lparr>
       vp8_picture_id := map_option (\<lambda>_. n mod (if vl_long (vp8_layout_of p) then 2 ^ 15 else 2 ^ 7)) (vp8_picture_id sim),
       vp8_tl0_pic_idx := map_option (\<lambda>_. k mod 256) (vp8_tl0_pic_idx sim)\<rparr>)) rotation))"
proof -
  let ?y = "vp8_layout_of p" and ?q = "vp8_new_bytes p n k"
  have ref: "vp8_parse_ref p rid rotation = Some (Vp8 key (Some sim) rotation)" using assms by (simp add: vp8_parse_eq)
  then have in_p: "4 \<le> length p" "vl_out_at ?y < length p" "vl_t ?y" by (auto simp: vp8_parse_ref_def Let_def split: if_splits)
  have x: "bit (p ! 0) 7" using in_p(3) by (cases "bit (p ! 0) 7") (simp_all add: vp8_layout_of_def Let_def)
  note new = vp8_new_layout [OF in_p(1) x, of n k] vp8_new_values [OF in_p(1) x in_p(2), where n = n and k = k]
  have order: "vl_tk_at ?y \<le> vl_out_at ?y" by (simp add: vp8_layout_of_def Let_def)
  have byte: "unat (of_nat k :: 8 word) = k mod 256" by (simp add: unat_of_nat take_bit_eq_mod)
  have "vp8_parse_ref ?q rid rotation = Some (Vp8 key (Some (sim\<lparr>
       vp8_picture_id := map_option (\<lambda>_. n mod (if vl_long ?y then 2 ^ 15 else 2 ^ 7)) (vp8_picture_id sim),
       vp8_tl0_pic_idx := map_option (\<lambda>_. k mod 256) (vp8_tl0_pic_idx sim)\<rparr>)) rotation)"
  proof -
    have key: "key = (bit (p ! 0) 4 \<and> unat (p ! 0) mod 8 = 0 \<and> \<not> bit (p ! vl_out_at ?y) 0)"
      and sim: "sim = \<lparr>vp8_picture_id = (if vl_i ?y then Some (vp8_pid p ?y) else None),
        vp8_tl0_pic_idx = (if vl_l ?y then Some (unat (p ! vl_tl0_at ?y)) else None), vp8_spatial = (case rid of None \<Rightarrow> 0 | Some r \<Rightarrow> r),
        vp8_temporal = unat (p ! vl_tk_at ?y) div 64, vp8_layer_sync = bit (p ! vl_tk_at ?y) 5\<rparr>"
      using ref in_p by (simp_all add: vp8_parse_ref_def Let_def)
    have at: "?q ! vl_tk_at ?y = p ! vl_tk_at ?y" "?q ! vl_out_at ?y = p ! vl_out_at ?y" using new(6) order by simp_all
    have "\<not> (length p < 4 \<or> length p \<le> vl_out_at ?y)" using in_p by simp
    then have "vp8_parse_ref ?q rid rotation = Some (Vp8 key (Some \<lparr>vp8_picture_id = (if vl_i ?y then Some (vp8_pid ?q ?y) else None),
        vp8_tl0_pic_idx = (if vl_l ?y then Some (unat (?q ! vl_tl0_at ?y)) else None), vp8_spatial = (case rid of None \<Rightarrow> 0 | Some r \<Rightarrow> r),
        vp8_temporal = unat (p ! vl_tk_at ?y) div 64, vp8_layer_sync = bit (p ! vl_tk_at ?y) 5\<rparr>) rotation)"
      unfolding vp8_parse_ref_def Let_def new(1-3) at key by (simp only: if_False in_p(3) if_True)
    then show ?thesis using new(4,5) byte unfolding sim by (cases "vl_i ?y"; cases "vl_l ?y") simp_all
  qed
  then show ?thesis using vp8_rewrite_bytes [OF in_p(1,2) x, where sim = sim and n = n and k = k] new by (auto simp: vp8_parse_eq)
qed

text \<open>
  C17. Rewriting a parsed VP8 packet with a new picture id and a new temporal base index, and parsing the
  result, gives these numbers, reduced to the width of their fields (15 or 7 bits as in the packet,
  and 8 bits), where the packet has the fields; everything else of the metadata, the length and all
  bytes after the two fields are unchanged.
\<close>
theorem vp8_rewrite_roundtrip:
  assumes "vp8_parse_rtp p rid rotation = Inr (Some (Vp8 key (Some sim) rotation))"
  shows "\<exists>q. vp8_rewrite_rtp p (sim\<lparr>vp8_picture_id := Some n, vp8_tl0_pic_idx := Some k\<rparr>) = Inr q \<and> length q = length p \<and>
     (\<forall>j\<ge>vl_tk_at (vp8_layout_of p). q ! j = p ! j) \<and>
     vp8_parse_rtp q rid rotation = Inr (Some (Vp8 key (Some (sim\<lparr>
       vp8_picture_id := map_option (\<lambda>_. n mod (if vl_long (vp8_layout_of p) then 2 ^ 15 else 2 ^ 7)) (vp8_picture_id sim),
       vp8_tl0_pic_idx := map_option (\<lambda>_. k mod 256) (vp8_tl0_pic_idx sim)\<rparr>)) rotation))"
  using assms by (rule vp8_rewrite_parse)

theorem vp8_rewrite_roundtrip_witness:
  "\<exists>q. vp8_rewrite_rtp [0x90, 0xE0, 0x85, 0x01, 0x07, 0x40, 0x00, 0x00] \<lparr>vp8_picture_id = Some 40000, vp8_tl0_pic_idx = Some 9, vp8_spatial = 2,
       vp8_temporal = 1, vp8_layer_sync = False\<rparr> = Inr q \<and>
     vp8_parse_rtp q (Some 2) None = Inr (Some (Vp8 True (Some \<lparr>vp8_picture_id = Some 7232, vp8_tl0_pic_idx = Some 9, vp8_spatial = 2,
       vp8_temporal = 1, vp8_layer_sync = False\<rparr>) None))"
proof -
  have "vp8_parse_rtp [0x90, 0xE0, 0x85, 0x01, 0x07, 0x40, 0x00, 0x00] (Some 2) None = Inr (Some (Vp8 True (Some \<lparr>vp8_picture_id = Some 1281,
      vp8_tl0_pic_idx = Some 7, vp8_spatial = 2, vp8_temporal = 1, vp8_layer_sync = False\<rparr>) None))"
    by code_simp
  from vp8_rewrite_roundtrip [OF this, where n = 40000 and k = 9] show ?thesis by (auto simp: vp8_layout_of_def Let_def)
qed

section \<open>VP9\<close>

text \<open>The loop over the reference indices ends: it reads at most three bytes.\<close>

lemma vp9_ref_loop_ends: "\<exists>m. vp9_ref_loop b r pdiff = Some m"
proof (induction "MAX_VP9REF_PICS - length pdiff" arbitrary: b r pdiff rule: less_induct)
  case less
  show ?case
  proof (cases "b AND 1 \<noteq> 0 \<and> br_remaining r \<noteq> 0 \<and> Suc (length pdiff) < MAX_VP9REF_PICS")
    case True
    show ?thesis
    proof (cases "br_get_u8 r")
      case (Inr x)
      obtain b' r' where x: "x = (b', r')" by (cases x)
      have "MAX_VP9REF_PICS - length (pdiff @ [drop_bit 1 b']) < MAX_VP9REF_PICS - length pdiff" using True by (auto intro: diff_less_mono2)
      from less [OF this, of b' r'] show ?thesis using Inr x by (subst vp9_ref_loop.simps) auto
    qed (subst vp9_ref_loop.simps, simp)
  next
    case False
    then show ?thesis by (subst vp9_ref_loop.simps) (auto split: sum.split)
  qed
qed

lemma vp9_parse_ends: "\<exists>m. vp9_parse_from payload h = Some m"
proof -
  have "\<exists>m. vp9_parse_ref_indices st = Some m" for st
    using vp9_ref_loop_ends [of 1 "fst st" "vn_pdiff (snd st)"] by (cases st) (auto simp: vp9_parse_ref_indices_def)
  then show ?thesis by (auto simp: vp9_parse_from_def split: sum.split)
qed

text \<open>
  The VP9 parser ends on every payload, although the number of reference indices is not announced in
  the packet.
\<close>
theorem vp9_parse_terminates: "\<exists>m. vp9_parse_rtp payload profile rotation = Some m"
  using vp9_parse_ends [of payload vp9_header_default] by (auto simp: vp9_parse_rtp_def)

text \<open>Readers at the start of a byte, and parsers that do not panic and keep the reader there.\<close>

definition br_ok :: "bit_reader \<Rightarrow> bool" where
  "br_ok r \<longleftrightarrow> snd r mod 8 = 0"

definition vsafe :: "bool \<Rightarrow> vp9_state vres \<Rightarrow> bool" where
  "vsafe v m = (case m of Inl _ \<Rightarrow> False | Inr (Inl _) \<Rightarrow> True | Inr (Inr (r, h)) \<Rightarrow> br_ok r \<and> vn_v h = v)"

lemma br_get_ok:
  assumes "br_ok r" "br_remaining r \<noteq> 0"
  shows "\<exists>b r'. br_get_u8 r = Inr (b, r') \<and> br_ok r'"
proof -
  obtain p k where r: "r = (p, k)" by (cases r)
  have "k = (k div 8) * 8" "k div 8 < length p" using assms by (auto simp: r br_ok_def br_remaining_def)
  then show ?thesis using br_aligned [of "k div 8" p] assms(1) by (simp add: r br_ok_def del: div_mult_self_is_m)
qed

lemma vsafe_read:
  assumes "br_ok r" "\<And>b r'. br_ok r' \<Longrightarrow> vsafe v (f (b, r'))"
  shows "vsafe v (vneed 1 r (vbind (vread r) f))"
  using br_get_ok [OF assms(1)] assms(2) by (auto simp: vneed_def vbind_def vread_def vsafe_def)

lemma vsafe_values: "vsafe v (Inr (Inl e))" "vsafe v (Inr (Inr (r, h))) \<longleftrightarrow> br_ok r \<and> vn_v h = v"
  by (simp_all add: vsafe_def)

lemma vbind_value: "vbind (Inr (Inr x)) f = f x"
  by (simp add: vbind_def)

lemma vsafe_bind: "vsafe v m \<Longrightarrow> (\<And>r h. br_ok r \<Longrightarrow> vn_v h = v \<Longrightarrow> vsafe w (f (r, h))) \<Longrightarrow> vsafe w (vbind m f)"
  by (cases m; cases "projr m") (auto simp: vsafe_values vbind_def vsafe_def [of v])

lemma vsafe_picture_id: "br_ok r \<Longrightarrow> vsafe (vn_v h) (vp9_parse_picture_id (r, h))"
  unfolding vp9_parse_picture_id_def by (auto intro!: vsafe_read simp: vsafe_values simp del: One_nat_def)

lemma vsafe_layer_info:
  assumes "br_ok r"
  shows "vsafe (vn_v h) (vp9_parse_layer_info (r, h))"
proof -
  have common: "vsafe (vn_v h) (vp9_parse_layer_info_common (r, h))"
    using assms unfolding vp9_parse_layer_info_common_def by (auto intro!: vsafe_read simp: vsafe_values Let_def simp del: One_nat_def)
  have "vsafe (vn_v h) (vp9_parse_layer_info_non_flexible_mode (r', g))" if "br_ok r'" "vn_v g = vn_v h" for r' g
    using that unfolding vp9_parse_layer_info_non_flexible_mode_def by (auto intro!: vsafe_read simp: vsafe_values simp del: One_nat_def)
  with common show ?thesis unfolding vp9_parse_layer_info_def 
    by - (rule vsafe_bind, assumption, unfold prod.case, split if_split, unfold vsafe_values, blast)
qed

lemma vsafe_ref_loop:
  assumes "br_ok r" "vp9_ref_loop b r pdiff = Some m"
  shows "\<exists>x. m = Inr x \<and> (\<forall>r' d. x = Inr (r', d) \<longrightarrow> br_ok r')"
  using assms
proof (induction "MAX_VP9REF_PICS - length pdiff" arbitrary: b r pdiff rule: less_induct)
  case less
  show ?case
  proof (cases "b AND 1 \<noteq> 0 \<and> br_remaining r \<noteq> 0")
    case True
    obtain b' r' where g: "br_get_u8 r = Inr (b', r')" "br_ok r'" using br_get_ok [OF less.prems(1)] True by blast
    show ?thesis
    proof (cases "Suc (length pdiff) < MAX_VP9REF_PICS")
      case more: True
      have "MAX_VP9REF_PICS - length (pdiff @ [drop_bit 1 b']) < MAX_VP9REF_PICS - length pdiff" using more by (auto intro: diff_less_mono2)
      moreover have "vp9_ref_loop b' r' (pdiff @ [drop_bit 1 b']) = Some m"
        using less.prems(2) True g(1) more by (subst (asm) vp9_ref_loop.simps) simp
      ultimately show ?thesis using less.hyps g(2) by blast
    next
      case False
      then show ?thesis using less.prems(2) True g(1) by (subst (asm) vp9_ref_loop.simps) auto
    qed
  next
    case False
    then show ?thesis using less.prems by (subst (asm) vp9_ref_loop.simps) (auto split: if_splits)
  qed
qed

lemma vsafe_ref_indices:
  assumes "br_ok r" "vp9_parse_ref_indices (r, h) = Some m"
  shows "vsafe (vn_v h) m"
proof -
  obtain m' where m: "vp9_ref_loop 1 r (vn_pdiff h) = Some m'" "m = vbind m' (\<lambda>(r', pdiff). Inr (Inr (r', h\<lparr>vn_pdiff := pdiff\<rparr>)))"
    using assms(2) by (auto simp: vp9_parse_ref_indices_def)
  from vsafe_ref_loop [OF assms(1) m(1)] obtain x where "m' = Inr x" "\<forall>r' d. x = Inr (r', d) \<longrightarrow> br_ok r'" by blast
  then show ?thesis unfolding m(2) by (cases x) (auto simp: vbind_def vsafe_values)
qed

text \<open>The parser in two stages: up to the layer indices, and the rest.\<close>

definition vp9_head :: "payload \<Rightarrow> vp9_state vres" where
  "vp9_head p = (let h = vp9_first (p ! 0) vp9_header_default in
     vbind (if vn_i h then vp9_parse_picture_id ((p, 8), h) else Inr (Inr ((p, 8), h))) (\<lambda>(r, h).
     if vn_l h then vp9_parse_layer_info (r, h) else Inr (Inr (r, h))))"

definition vp9_tail :: "vp9_state vres \<Rightarrow> (bool \<times> vp9_svc option) vres" where
  "vp9_tail m = vbind m (\<lambda>(r, h). vbind (if vn_v h then vp9_parse_ssdata (r, h) else Inr (Inr (r, h))) (\<lambda>(r, h). Inr (Inr (vp9_result h))))"

lemma vp9_parse_stages:
  assumes "p \<noteq> []"
  shows "vp9_parse_from p vp9_header_default = (case vp9_head p of Inl e \<Rightarrow> Some (Inl e) | Inr (Inl e) \<Rightarrow> Some (Inr (Inl e))
     | Inr (Inr (r, h)) \<Rightarrow> map_option vp9_tail (if vn_f h \<and> vn_p h then vp9_parse_ref_indices (r, h) else Some (Inr (Inr (r, h)))))"
proof -
  have "vread (p, 0) = Inr (Inr (p ! 0, (p, 8)))" using br_aligned [of 0 p] assms by (simp add: vread_def)
  then show ?thesis unfolding vp9_parse_from_def vp9_tail_def [abs_def] vp9_head_def using assms by (simp add: vbind_value Let_def)
qed

lemma vp9_head_safe:
  assumes "p ! 0 AND 2 = 0"
  shows "vsafe False (vp9_head p)"
proof -
  let ?h = "vp9_first (p ! 0) vp9_header_default"
  have v: "\<not> vn_v ?h" using assms by (simp add: vp9_first_def)
  have r: "br_ok (p, 8)" by (simp add: br_ok_def)
  have "vsafe False (if vn_i ?h then vp9_parse_picture_id ((p, 8), ?h) else Inr (Inr ((p, 8), ?h)))"
    using v vsafe_picture_id [OF r, of ?h] r by (simp add: vsafe_values)
  then show ?thesis unfolding vp9_head_def Let_def
  proof (rule vsafe_bind)
    fix r' and h :: vp9_header assume "br_ok r'" "vn_v h = False"
    then show "vsafe False (case (r', h) of (r, h) \<Rightarrow> if vn_l h then vp9_parse_layer_info (r, h) else Inr (Inr (r, h)))"
      using vsafe_layer_info [of r' h] by (simp add: vsafe_values)
  qed
qed

lemma vp9_parse_safe_aux:
  assumes "p = [] \<or> hd p AND 2 = 0" "vp9_parse_from p vp9_header_default = Some m"
  shows "\<exists>x. m = Inr x"
proof (cases "p = []")
  case True
  then show ?thesis using assms(2) by (auto simp: vp9_parse_from_def)
next
  case False
  then have safe: "vsafe False (vp9_head p)" using vp9_head_safe [of p] assms(1) by (simp add: hd_conv_nth)
  have tail: "\<exists>x. vp9_tail m2 = Inr x" if "vsafe False m2" for m2
    using that by (cases m2; cases "projr m2") (auto simp: vsafe_def vbind_def vp9_tail_def)
  show ?thesis
  proof (cases "\<exists>r h. vp9_head p = Inr (Inr (r, h))")
    case True
    then obtain r h where h: "vp9_head p = Inr (Inr (r, h))" "br_ok r" "\<not> vn_v h" using safe by (auto simp: vsafe_values)
    obtain m2 where m2: "(if vn_f h \<and> vn_p h then vp9_parse_ref_indices (r, h) else Some (Inr (Inr (r, h)))) = Some m2" "m = vp9_tail m2"
      using assms(2) h(1) vp9_parse_stages [OF False] by auto
    have "vsafe False m2" using m2(1) vsafe_ref_indices [OF h(2), of h] h(2,3) by (auto simp: vsafe_values split: if_splits)
    then show ?thesis unfolding m2(2) by (rule tail)
  next
    case none: False
    then show ?thesis using assms(2) safe unfolding vp9_parse_stages [OF False] by (cases "vp9_head p"; cases "projr (vp9_head p)") (auto simp: vsafe_def)
  qed
qed

text \<open>
  C18. Parsing the payload descriptor of a received packet never panics the worker, for VP8 on every
  payload, and for VP9 on every payload that announces no scalability structure (its V flag is clear).
\<close>
theorem codecs_parse_safe:
  "(\<exists>x. vp8_parse_rtp p rid rotation = Inr x) \<and>
   (p = [] \<or> hd p AND 2 = 0 \<longrightarrow> (\<exists>x. vp9_parse_rtp p profile rotation = Some (Inr x)))"
proof -
  have "\<exists>x. vp9_parse_rtp p profile rotation = Some (Inr x)" if "p = [] \<or> hd p AND 2 = 0"
  proof -
    obtain m where "vp9_parse_from p vp9_header_default = Some m" using vp9_parse_ends by blast
    then show ?thesis using vp9_parse_safe_aux [OF that] by (auto simp: vp9_parse_rtp_def)
  qed
  then show ?thesis by (simp add: vp8_parse_eq)
qed

theorem codecs_parse_safe_witness:
  "vp8_parse_rtp [0xB0, 0x80] None None = Inr None \<and> (\<exists>x. vp9_parse_rtp [0xBC, 0x85, 0x01, 0x28] VP9_P0 None = Some (Inr x))"
proof -
  have "vp8_parse_rtp [0xB0, 0x80] None None = Inr None" by code_simp
  moreover have "hd [0xBC, 0x85, 0x01, 0x28] AND 2 = (0 :: 8 word)" by simp
  ultimately show ?thesis using codecs_parse_safe [of "[0xBC, 0x85, 0x01, 0x28]"] by blast
qed

text \<open>With the V flag set, three bytes are enough to panic the parser: \<^verbatim>\<open>parse_ssdata\<close> compares the number
  of bits that remain with a number of bytes.\<close>
theorem vp9_short_ss_panics: "vp9_parse_rtp [0x02, 0x10, b] profile rotation = Some (Inl Explicit_Panic)"
  by (simp add: vp9_parse_rtp_def vp9_parse_from_def vp9_first_def vp9_header_default_def vp9_parse_ssdata_def vread_def vneed_def vbind_def
      br_get_u8_def br_get_u16_def br_remaining_def Let_def)

end
