(* ===== verification/Media_Convert.thy ===== *)
theory Media_Convert
  imports Rtp_Codecs Packet_Selector Index_Map
begin

text \<open>
  \<^verbatim>\<open>packages/transport_webrtc/src/media/mod.rs\<close>: the conversion of received RTP packets to the
  packets of the cluster, and the rewriting of the payload descriptors of packets that are sent.
  The types of the WebRTC library (RTP packets with their header extensions, codec specifications)
  are records with the fields the code reads; a layers allocation is the list of its streams, each
  the list of its spatial layers, each the list of the cumulative bitrates of its temporal layers.
  A result is \<open>None\<close> if the VP9 parser would not end, which it always does.
\<close>

section \<open>The library's types\<close>

record format_params =
  fp_profile_level_id :: "nat option"
  fp_packetization_mode :: "nat option"
  fp_profile_id :: "nat option"

datatype str0m_codec = Str0m_Opus | Str0m_H264 | Str0m_Vp8 | Str0m_Vp9 | Str0m_Other

record codec_spec =
  cs_codec :: str0m_codec
  cs_format :: format_params

datatype video_orientation = VDeg0 | VDeg90 | VDeg180 | VDeg270

type_synonym video_layers_allocation = "nat list list list"

record extension_values =
  ext_rid :: "8 word list option"
  ext_audio_level :: "int option"
  ext_video_orientation :: "video_orientation option"
  ext_vla :: "video_layers_allocation option"

record rtp_packet =
  rtp_pt :: nat
  rtp_ssrc :: nat
  rtp_seq :: nat
  rtp_timestamp :: nat
  rtp_marker :: bool
  rtp_ext :: extension_values
  rtp_payload :: "8 word list"

section \<open>Helpers\<close>

definition str0m_codec_convert :: "codec_spec \<Rightarrow> media_codec option" where
  "str0m_codec_convert spec = (case cs_codec spec of
     Str0m_Opus \<Rightarrow> Some Codec_Opus
   | Str0m_H264 \<Rightarrow>
       (case (fp_profile_level_id (cs_format spec), fp_packetization_mode (cs_format spec)) of
          (Some level, Some mode) \<Rightarrow>
            if level = 0x42001f \<and> mode = 1 then Some (Codec_H264 P42001fNonInterleaved)
            else if level = 0x42001f \<and> mode = 0 then Some (Codec_H264 P42001fSingleNal)
            else if level = 0x42e01f \<and> mode = 1 then Some (Codec_H264 P42e01fNonInterleaved)
            else if level = 0x42e01f \<and> mode = 0 then Some (Codec_H264 P42e01fSingleNal)
            else if level = 0x4d001f \<and> mode = 1 then Some (Codec_H264 P4d001fNonInterleaved)
            else if level = 0x4d001f \<and> mode = 0 then Some (Codec_H264 P4d001fSingleNal)
            else if level = 0x64001f \<and> mode = 1 then Some (Codec_H264 P64001fNonInterleaved)
            else None
        | _ \<Rightarrow> None)
   | Str0m_Vp8 \<Rightarrow> Some Codec_Vp8
   | Str0m_Vp9 \<Rightarrow>
       (case fp_profile_id (cs_format spec) of
          Some i \<Rightarrow> if i = 0 then Some (Codec_Vp9 VP9_P0) else if i = 2 then Some (Codec_Vp9 VP9_P2) else None
        | None \<Rightarrow> None)
   | Str0m_Other \<Rightarrow> None)"

definition rid_to_spatial :: "8 word list \<Rightarrow> nat" where
  "rid_to_spatial rid = (case rid of [] \<Rightarrow> 0 | b # _ \<Rightarrow> if b = 0x30 then 0 else if b = 0x31 then 1 else if b = 0x32 then 2 else 0)"

definition from_webrtc_orientation :: "video_orientation \<Rightarrow> media_orientation" where
  "from_webrtc_orientation v = (case v of VDeg0 \<Rightarrow> Deg0 | VDeg90 \<Rightarrow> Deg90 | VDeg180 \<Rightarrow> Deg180 | VDeg270 \<Rightarrow> Deg270)"

definition to_webrtc_orientation :: "media_orientation \<Rightarrow> video_orientation" where
  "to_webrtc_orientation v = (case v of Deg0 \<Rightarrow> VDeg0 | Deg90 \<Rightarrow> VDeg90 | Deg180 \<Rightarrow> VDeg180 | Deg270 \<Rightarrow> VDeg270)"

definition to_webrtc_extensions :: "media_packet \<Rightarrow> extension_values" where
  "to_webrtc_extensions p = \<lparr>ext_rid = None, ext_audio_level = meta_audio_level (pkt_meta p),
     ext_video_orientation = map_option to_webrtc_orientation (meta_rotation (pkt_meta p)), ext_vla = None\<rparr>"

definition layer_default :: media_layer_bitrate where
  "layer_default = (None, None, None)"

definition extract_simulcast :: "video_layers_allocation \<Rightarrow> media_layers_bitrate option run" where
  "extract_simulcast vla = (if vla = [] then Inr None else
     rbind (rfold (\<lambda>(index, sim) layers. case sim of [] \<Rightarrow> Inr layers
       | spatial # _ \<Rightarrow>
           rbind (rfold (\<lambda>(temporal, kbps) layer. layer_set_layer temporal (as_u16 kbps) layer) (enumerate 0 spatial) layer_default)
             (\<lambda>layer. layers_set_layer index layer layers)) (enumerate 0 vla) layers_default)
     (\<lambda>layers. Inr (Some layers)))"

definition extract_svc :: "video_layers_allocation \<Rightarrow> media_layers_bitrate option run" where
  "extract_svc vla = (case vla of [] \<Rightarrow> Inr None
   | stream # _ \<Rightarrow>
     rbind (rfold (\<lambda>(spatial, temporals) (previous_bitrate, layers).
         rbind (rfold (\<lambda>(temporal, kbps) layer. layer_set_layer temporal (as_u16 (as_u16 kbps + previous_bitrate)) layer)
             (enumerate 0 temporals) layer_default) (\<lambda>layer.
         rbind (layers_set_layer spatial layer layers) (\<lambda>layers1.
         Inr (as_u16 (previous_bitrate + as_u16 (if temporals = [] then 0 else last temporals)), layers1))))
       (enumerate 0 stream) (0, layers_default)) (\<lambda>(_, layers). Inr (Some layers)))"

section \<open>Receiving\<close>

record 'mid remote_media_convert =
  rmc_map :: "(nat, media_codec) imap"
  rmc_ssrcs_rid :: "(nat, nat) imap"
  rmc_ssrcs_mid :: "(nat, 'mid) imap"

definition rmc_default :: "'mid remote_media_convert" where
  "rmc_default = \<lparr>rmc_map = [], rmc_ssrcs_rid = [], rmc_ssrcs_mid = []\<rparr>"

definition rmc_set_config :: "(nat \<times> codec_spec) list \<Rightarrow> 'mid remote_media_convert \<Rightarrow> 'mid remote_media_convert" where
  "rmc_set_config params s = fold (\<lambda>(pt, spec) s. case str0m_codec_convert spec of None \<Rightarrow> s
     | Some codec \<Rightarrow> s\<lparr>rmc_map := im_insert pt codec (rmc_map s)\<rparr>) params s"

definition rmc_get_mid :: "nat \<Rightarrow> 'mid option \<Rightarrow> 'mid remote_media_convert \<Rightarrow> 'mid remote_media_convert \<times> 'mid option" where
  "rmc_get_mid ssrc mid s = (case im_get (rmc_ssrcs_mid s) ssrc of Some m \<Rightarrow> (s, Some m)
     | None \<Rightarrow> (case mid of None \<Rightarrow> (s, None)
         | Some m \<Rightarrow> (s\<lparr>rmc_ssrcs_mid := im_insert ssrc m (rmc_ssrcs_mid s)\<rparr>, Some m)))"

definition rmc_remote_pt_to_codec :: "nat \<Rightarrow> 'mid remote_media_convert \<Rightarrow> media_codec option" where
  "rmc_remote_pt_to_codec pt s = im_get (rmc_map s) pt"

text \<open>The layer of a packet: announced by its \<^verbatim>\<open>rid\<close>, or remembered for its source.\<close>

definition rmc_spatial :: "rtp_packet \<Rightarrow> 'mid remote_media_convert \<Rightarrow> 'mid remote_media_convert \<times> nat option" where
  "rmc_spatial rtp s = (case ext_rid (rtp_ext rtp) of
     Some rid \<Rightarrow> (let layer = rid_to_spatial rid in
       (if im_contains (rmc_ssrcs_rid s) (rtp_ssrc rtp) then s
        else s\<lparr>rmc_ssrcs_rid := im_insert (rtp_ssrc rtp) layer (rmc_ssrcs_rid s)\<rparr>, Some layer))
   | None \<Rightarrow> (s, im_get (rmc_ssrcs_rid s) (rtp_ssrc rtp)))"

definition rtp_layers :: "(video_layers_allocation \<Rightarrow> media_layers_bitrate option run) \<Rightarrow> rtp_packet \<Rightarrow> media_layers_bitrate option run" where
  "rtp_layers extract rtp = (case ext_vla (rtp_ext rtp) of None \<Rightarrow> Inr None | Some vla \<Rightarrow> extract vla)"

text \<open>The match on the codec: the flag for retransmission, the layers and the metadata, or nothing for
  a payload that does not parse.\<close>

definition rtp_media :: "media_codec \<Rightarrow> nat option \<Rightarrow> rtp_packet \<Rightarrow> (bool \<times> media_layers_bitrate option \<times> media_meta) option run option" where
  "rtp_media codec spatial rtp =
     (let rotation = map_option from_webrtc_orientation (ext_video_orientation (rtp_ext rtp));
          video = (\<lambda>extract parsed. rbind (rtp_layers extract rtp) (\<lambda>layers. rbind parsed (\<lambda>meta.
            Inr (map_option (\<lambda>m. (True, layers, m)) meta)))) in
      case codec of
        Codec_Opus \<Rightarrow> Some (Inr (Some (False, None, Opus (ext_audio_level (rtp_ext rtp)))))
      | Codec_H264 profile \<Rightarrow> Some (video extract_simulcast (Inr (h264_parse_rtp (rtp_payload rtp) profile spatial rotation)))
      | Codec_Vp8 \<Rightarrow> Some (video extract_simulcast (vp8_parse_rtp (rtp_payload rtp) spatial rotation))
      | Codec_Vp9 profile \<Rightarrow> map_option (video extract_svc) (vp9_parse_rtp (rtp_payload rtp) profile rotation))"

definition rmc_convert :: "rtp_packet \<Rightarrow> 'mid remote_media_convert \<Rightarrow> ('mid remote_media_convert \<times> media_packet option) run option" where
  "rmc_convert rtp s = (case rmc_spatial rtp s of (s1, spatial) \<Rightarrow>
     (case rmc_remote_pt_to_codec (rtp_pt rtp) s1 of None \<Rightarrow> Some (Inr (s1, None))
      | Some codec \<Rightarrow> map_option (\<lambda>r. rbind r (\<lambda>x. Inr (s1, map_option (\<lambda>(nackable, layers, meta).
          \<lparr>pkt_ts = rtp_timestamp rtp, pkt_seq = rtp_seq rtp, pkt_marker = rtp_marker rtp, pkt_nackable = nackable,
            pkt_layers = layers, pkt_meta = meta, pkt_data = rtp_payload rtp\<rparr>) x))) (rtp_media codec spatial rtp)))"

section \<open>Sending\<close>

record local_media_convert =
  lmc_map :: "(media_codec, nat) imap"

definition lmc_default :: local_media_convert where
  "lmc_default = \<lparr>lmc_map = []\<rparr>"

definition lmc_set_config :: "(nat \<times> codec_spec) list \<Rightarrow> local_media_convert \<Rightarrow> local_media_convert" where
  "lmc_set_config params s = fold (\<lambda>(pt, spec) s. case str0m_codec_convert spec of None \<Rightarrow> s
     | Some codec \<Rightarrow> s\<lparr>lmc_map := im_insert codec pt (lmc_map s)\<rparr>) params s"

definition lmc_convert_codec :: "media_codec \<Rightarrow> local_media_convert \<Rightarrow> nat option" where
  "lmc_convert_codec codec s = im_get (lmc_map s) codec"

definition lmc_rewrite_pkt :: "media_packet \<Rightarrow> media_packet run" where
  "lmc_rewrite_pkt p = (case pkt_meta p of
     Opus _ \<Rightarrow> Inr p
   | H264 _ _ sim _ \<Rightarrow> (case sim of None \<Rightarrow> Inr p | Some s \<Rightarrow> Inr (p\<lparr>pkt_data := h264_rewrite_rtp (pkt_data p) s\<rparr>))
   | Vp8 _ sim _ \<Rightarrow> (case sim of None \<Rightarrow> Inr p | Some s \<Rightarrow> rbind (vp8_rewrite_rtp (pkt_data p) s) (\<lambda>data. Inr (p\<lparr>pkt_data := data\<rparr>)))
   | Vp9 _ _ svc _ \<Rightarrow> (case svc of None \<Rightarrow> Inr p | Some s \<Rightarrow> rbind (vp9_rewrite_rtp (pkt_data p) s) (\<lambda>data. Inr (p\<lparr>pkt_data := data\<rparr>))))"

section \<open>Layers allocations\<close>

text \<open>Allocations that fit the tables of three layers.\<close>

definition vla_ok :: "video_layers_allocation \<Rightarrow> bool" where
  "vla_ok vla \<longleftrightarrow> length vla \<le> 3 \<and> (\<forall>stream\<in>set vla. length stream \<le> 3 \<and> (\<forall>temporals\<in>set stream. length temporals \<le> 3))"

lemma arr3_set_ok: "i < 3 \<Longrightarrow> \<exists>a'. arr3_set a i v = Inr a'"
  by (cases a) auto

lemma enumerate_fold_ok:
  assumes "\<And>i x s. i < length xs \<Longrightarrow> x \<in> set xs \<Longrightarrow> \<exists>s'. f (i, x) s = Inr s'"
  shows "\<exists>s'. rfold f (enumerate 0 xs) s = Inr s'"
proof -
  have "\<exists>s'. f ix s = Inr s' \<and> True" if "ix \<in> set (enumerate 0 xs)" for ix s
    using that assms [of "fst ix" "snd ix" s] nth_mem [of "fst ix" xs] by (simp add: in_set_enumerate_eq)
  from rfold_invariant [where P = "\<lambda>_. True", OF _ this] show ?thesis by simp
qed

lemma extract_ok:
  assumes "vla_ok vla"
  shows "\<exists>x. extract_simulcast vla = Inr x" "\<exists>x. extract_svc vla = Inr x"
proof -
  have layer: "\<exists>l'. rfold (\<lambda>(temporal, kbps) layer. layer_set_layer temporal (f kbps) layer) (enumerate 0 ts) l = Inr l'"
    if "length ts \<le> 3" for f ts l
    by (rule enumerate_fold_ok) (use that in \<open>auto simp: layer_set_layer_def intro: arr3_set_ok [simplified]\<close>)
  have set_layer: "\<exists>l'. layers_set_layer i x l = Inr l'" if "i < 3" for i x l
    unfolding layers_set_layer_def by (rule arr3_set_ok [OF that])
  show "\<exists>x. extract_simulcast vla = Inr x"
  proof -
    have "\<exists>s'. rfold (\<lambda>(index, sim) layers. case sim of [] \<Rightarrow> Inr layers
       | spatial # _ \<Rightarrow>
           rbind (rfold (\<lambda>(temporal, kbps) layer. layer_set_layer temporal (as_u16 kbps) layer) (enumerate 0 spatial) layer_default)
             (\<lambda>layer. layers_set_layer index layer layers)) (enumerate 0 vla) layers_default = Inr s'"
    proof (rule enumerate_fold_ok)
      fix i sim layers assume i: "i < length vla" "sim \<in> set vla"
      then have small: "i < 3" "\<forall>t\<in>set sim. length t \<le> 3" using assms by (auto simp: vla_ok_def)
      show "\<exists>s'. (case (i, sim) of (index, sim) \<Rightarrow> \<lambda>layers. case sim of [] \<Rightarrow> Inr layers
       | spatial # _ \<Rightarrow>
           rbind (rfold (\<lambda>(temporal, kbps) layer. layer_set_layer temporal (as_u16 kbps) layer) (enumerate 0 spatial) layer_default)
             (\<lambda>layer. layers_set_layer index layer layers)) layers = Inr s'"
      proof (cases sim)
        case (Cons t ts)
        obtain l where "rfold (\<lambda>(temporal, kbps) layer. layer_set_layer temporal (as_u16 kbps) layer) (enumerate 0 t) layer_default = Inr l"
          using layer [of t as_u16 layer_default] small(2) Cons by auto
        with set_layer [OF small(1), of l layers] Cons show ?thesis by simp
      qed (cases layers, simp)
    qed
    then show ?thesis by (auto simp: extract_simulcast_def)
  qed
  show "\<exists>x. extract_svc vla = Inr x"
  proof (cases vla)
    case (Cons stream rest)
    have "\<exists>s'. rfold (\<lambda>(spatial, temporals) (previous_bitrate, layers).
         rbind (rfold (\<lambda>(temporal, kbps) layer. layer_set_layer temporal (as_u16 (as_u16 kbps + previous_bitrate)) layer)
             (enumerate 0 temporals) layer_default) (\<lambda>layer.
         rbind (layers_set_layer spatial layer layers) (\<lambda>layers1.
         Inr (as_u16 (previous_bitrate + as_u16 (if temporals = [] then 0 else last temporals)), layers1))))
       (enumerate 0 stream) (0, layers_default) = Inr s'"
    proof (rule enumerate_fold_ok)
      fix i ts and st :: "nat \<times> media_layers_bitrate" assume "i < length stream" "ts \<in> set stream"
      then have small: "i < 3" "length ts \<le> 3" using assms Cons by (auto simp: vla_ok_def)
      obtain l where "rfold (\<lambda>(temporal, kbps) layer. layer_set_layer temporal (as_u16 (as_u16 kbps + fst st)) layer)
          (enumerate 0 ts) layer_default = Inr l" using layer [OF small(2), of "\<lambda>k. as_u16 (as_u16 k + fst st)" layer_default] by blast
      with set_layer [OF small(1), of l "snd st"] show "\<exists>s'. (case (i, ts) of (spatial, temporals) \<Rightarrow> \<lambda>(previous_bitrate, layers).
         rbind (rfold (\<lambda>(temporal, kbps) layer. layer_set_layer temporal (as_u16 (as_u16 kbps + previous_bitrate)) layer)
             (enumerate 0 temporals) layer_default) (\<lambda>layer.
         rbind (layers_set_layer spatial layer layers) (\<lambda>layers1.
         Inr (as_u16 (previous_bitrate + as_u16 (if temporals = [] then 0 else last temporals)), layers1)))) st = Inr s'"
        by (cases st) auto
    qed
    with Cons show ?thesis by (auto simp: extract_svc_def)
  qed (simp add: extract_svc_def)
qed

text \<open>A fourth temporal layer, which the header extension can announce, is out of the table.\<close>
theorem vla_four_layers_panics: "extract_simulcast [[[a, b, c, d]]] = Inl Index_Out_Of_Bounds"
  by (simp add: extract_simulcast_def layers_default_def layer_default_def layer_set_layer_def)

section \<open>What the VP9 parser knows of a packet it accepts\<close>

text \<open>After the picture id has been read, no step changes it.\<close>

definition vkeeps :: "16 word \<Rightarrow> vp9_state vres \<Rightarrow> bool" where
  "vkeeps n m = (case m of Inr (Inr (r, h)) \<Rightarrow> vn_picture_id h = n | _ \<Rightarrow> True)"

lemma vkeeps_intros:
  "(\<And>x. vkeeps n (f x)) \<Longrightarrow> vkeeps n (vbind (vread r) f)"
  "vkeeps n m \<Longrightarrow> vkeeps n (vneed k r m)"
  "(\<And>x. vkeeps n (g x)) \<Longrightarrow> vkeeps n (vbind (rbind q (\<lambda>x. Inr (Inr x))) g)"
  "vn_picture_id h = n \<Longrightarrow> vkeeps n (Inr (Inr (rd, h)))"
  "vkeeps n (Inr (Inl e))"
  by (cases "br_get_u8 r"; simp add: vkeeps_def vbind_def vread_def vneed_def; fail | cases q; simp add: vkeeps_def vbind_def vneed_def)+

lemma vkeeps_value: "vkeeps n (Inr (Inr (r, h))) \<longleftrightarrow> vn_picture_id h = n"
  by (simp add: vkeeps_def)

lemma vkeeps_Inl: "vkeeps n (Inl e)"
  by (simp add: vkeeps_def)

lemma vkeeps_bind: "vkeeps n m \<Longrightarrow> (\<And>r h. vn_picture_id h = n \<Longrightarrow> vkeeps n (f (r, h))) \<Longrightarrow> vkeeps n (vbind m f)"
  by (cases m; cases "projr m") (auto simp: vbind_def vkeeps_value vkeeps_Inl intro: vkeeps_intros)

lemma vkeeps_layer_info: "vn_picture_id h = n \<Longrightarrow> vkeeps n (vp9_parse_layer_info (r, h))"
  unfolding vp9_parse_layer_info_def vp9_parse_layer_info_common_def vp9_parse_layer_info_non_flexible_mode_def
  by (intro vkeeps_bind) (auto intro!: vkeeps_intros simp: Let_def)

lemma vkeeps_picture_groups: "vn_picture_id h = n \<Longrightarrow> vkeeps n (vp9_picture_groups k (r, h))"
  by (induction k arbitrary: r h) (auto intro!: vkeeps_intros simp: Let_def)

lemma vkeeps_ssdata:
  assumes "vn_picture_id h = n"
  shows "vkeeps n (vp9_parse_ssdata (r, h))"
  unfolding vp9_parse_ssdata_def
  by (auto intro!: vkeeps_intros vkeeps_bind vkeeps_picture_groups simp: Let_def assms split: prod.splits)

lemma vkeeps_ref_indices: "vn_picture_id h = n \<Longrightarrow> vp9_parse_ref_indices (r, h) = Some m \<Longrightarrow> vkeeps n m"
  unfolding vp9_parse_ref_indices_def by (cases "vp9_ref_loop 1 r (vn_pdiff h)") (auto simp: vbind_def rbind_def vkeeps_def split: sum.splits)

lemma low7_small: "unat (b AND 0x7f :: 8 word) < 128"
  by (simp add: unat_low7)

text \<open>The picture id of an accepted packet is in the packet and has at most 15 bits.\<close>

lemma vp9_picture_id_read:
  assumes "vp9_parse_picture_id ((p, 8), h) = Inr (Inr (r, h'))"
  shows "unat (vn_picture_id h') < 2 ^ 15 \<and> 2 \<le> length p \<and> (bit (p ! 1) 7 \<longrightarrow> 3 \<le> length p)"
proof -
  have len: "2 \<le> length p" using assms by (auto simp: vp9_parse_picture_id_def vneed_def br_remaining_def split: if_splits)
  then have b: "br_get_u8 (p, 8) = Inr (p ! 1, (p, 16))" using br_aligned [of 1 p] by simp
  show ?thesis
  proof (cases "bit (p ! 1) 7")
    case True
    then have len3: "3 \<le> length p" using assms len b
      by (auto simp: vp9_parse_picture_id_def vneed_def vread_def vbind_def br_remaining_def split: if_splits)
    then have c: "br_get_u8 (p, 16) = Inr (p ! 2, (p, 24))" using br_aligned [of 2 p] by simp
    have "vn_picture_id h' = push_bit 8 (ucast (p ! 1 AND 0x7f)) OR ucast (p ! 2)"
      using assms True b c len3 by (auto simp: vp9_parse_picture_id_def vneed_def vread_def vbind_def br_remaining_def)
    then have "unat (vn_picture_id h') = unat (p ! 1 AND 0x7f) * 256 + unat (p ! 2)" by (simp only: be_u16)
    also have "\<dots> < 2 ^ 15" using low7_small [of "p ! 1"] unsigned_less [where ?'a = nat, of "p ! 2"] by simp
    finally show ?thesis using len3 by simp
  next
    case False
    then have "vn_picture_id h' = ucast (p ! 1 AND 0x7F)"
      using assms b len by (auto simp: vp9_parse_picture_id_def vneed_def vread_def vbind_def br_remaining_def split: if_splits)
    then show ?thesis using low7_small [of "p ! 1"] len False by simp
  qed
qed

lemma vbind_eq: "vbind m f = Inr (Inr y) \<longleftrightarrow> (\<exists>x. m = Inr (Inr x) \<and> f x = Inr (Inr y))"
  by (cases m; cases "projr m") (auto simp: vbind_def)

lemma vp9_accepted:
  assumes "vp9_parse_from p vp9_header_default = Some (Inr (Inr (key, svc)))"
  shows "p \<noteq> [] \<and> (bit (p ! 0) 7 \<longrightarrow> 2 \<le> length p \<and> (bit (p ! 1) 7 \<longrightarrow> 3 \<le> length p)) \<and>
     (case svc of None \<Rightarrow> True | Some v \<Rightarrow> (case vp9_picture_id v of None \<Rightarrow> True | Some i \<Rightarrow> i < 2 ^ 15))"
proof -
  have p: "p \<noteq> []" using assms by (auto simp: vp9_parse_from_def)
  define h0 where "h0 = vp9_first (p ! 0) vp9_header_default"
  have i: "vn_i h0 = bit (p ! 0) 7" "vn_picture_id h0 = 0" by (simp_all add: h0_def vp9_first_def vp9_header_default_def)
  obtain r1 h1 where m1: "vp9_head p = Inr (Inr (r1, h1))"
    using assms unfolding vp9_parse_stages [OF p] by (cases "vp9_head p"; cases "projr (vp9_head p)") auto
  then obtain m2 where m2: "(if vn_f h1 \<and> vn_p h1 then vp9_parse_ref_indices (r1, h1) else Some (Inr (Inr (r1, h1)))) = Some m2"
    and res: "vp9_tail m2 = Inr (Inr (key, svc))"
    using assms unfolding vp9_parse_stages [OF p] by auto
  from m1 obtain r0 h where a: "(if vn_i h0 then vp9_parse_picture_id ((p, 8), h0) else Inr (Inr ((p, 8), h0))) = Inr (Inr (r0, h))"
    and l: "(if vn_l h then vp9_parse_layer_info (r0, h) else Inr (Inr (r0, h))) = Inr (Inr (r1, h1))"
    unfolding vp9_head_def Let_def h0_def [symmetric] by (auto simp: vbind_eq)
  have in_p: "unat (vn_picture_id h) < 2 ^ 15 \<and> (bit (p ! 0) 7 \<longrightarrow> 2 \<le> length p \<and> (bit (p ! 1) 7 \<longrightarrow> 3 \<le> length p))"
    using a vp9_picture_id_read [of p h0 r0 h] i by (auto split: if_splits)
  have k1: "vn_picture_id h1 = vn_picture_id h" using l vkeeps_layer_info [of h "vn_picture_id h" r0] by (auto simp: vkeeps_value split: if_splits)
  have k2: "vkeeps (vn_picture_id h) m2" using m2 vkeeps_ref_indices [OF k1, of r1 m2] k1 by (auto simp: vkeeps_value split: if_splits)
  from res obtain r2 h2 where h2: "m2 = Inr (Inr (r2, h2))"
    and last: "vbind (if vn_v h2 then vp9_parse_ssdata (r2, h2) else Inr (Inr (r2, h2))) (\<lambda>(r, h). Inr (Inr (vp9_result h))) = Inr (Inr (key, svc))"
    by (auto simp: vbind_eq vp9_tail_def)
  from last obtain r3 h3 where h3: "(if vn_v h2 then vp9_parse_ssdata (r2, h2) else Inr (Inr (r2, h2))) = Inr (Inr (r3, h3))" "vp9_result h3 = (key, svc)"
    by (auto simp: vbind_eq)
  have "vn_picture_id h2 = vn_picture_id h" using k2 h2 by (simp add: vkeeps_value)
  then have "vn_picture_id h3 = vn_picture_id h" using h3(1) vkeeps_ssdata [of h2 "vn_picture_id h" r2] by (auto simp: vkeeps_value split: if_splits)
  then show ?thesis using p in_p h3(2) by (auto simp: vp9_result_def Let_def split: if_splits)
qed

section \<open>Converted packets\<close>

text \<open>A payload that the rewriting of its descriptor does not index out of bounds.\<close>

fun rewritable :: "media_meta \<Rightarrow> payload \<Rightarrow> bool" where
  "rewritable (Vp8 _ (Some _) _) p = (4 \<le> length p \<and> vl_out_at (vp8_layout_of p) < length p)"
| "rewritable (Vp9 _ _ (Some _) _) p = (p \<noteq> [] \<and> (bit (p ! 0) 7 \<longrightarrow> 2 \<le> length p \<and> (bit (p ! 1) 7 \<longrightarrow> 3 \<le> length p)))"
| "rewritable _ _ = True"

lemma vp8_pid_small:
  assumes "vl_i (vp8_layout_of p)"
  shows "vp8_pid p (vp8_layout_of p) < 2 ^ 15"
proof (cases "vl_long (vp8_layout_of p)")
  case True
  then show ?thesis using unsigned_less [where ?'a = nat, of "p ! (vl_pid_at (vp8_layout_of p) + 1)"]
      mod_less_divisor [of 128 "unat (p ! vl_pid_at (vp8_layout_of p))"] by (simp add: vp8_pid_def)
next
  case False
  then show ?thesis using unsigned_less [where ?'a = nat, of "p ! vl_pid_at (vp8_layout_of p)"] by (simp add: vp8_pid_def)
qed

lemma vp8_accepted:
  assumes "vp8_parse_rtp p rid rotation = Inr (Some m)"
  shows "meta_wf m \<and> rewritable m p \<and> meta_codec m = Codec_Vp8 \<and> meta_rotation m = rotation"
proof -
  have "vp8_parse_ref p rid rotation = Some m" using assms by (simp add: vp8_parse_eq)
  moreover have "unat b < 2 ^ 8" for b :: "8 word" using unsigned_less [where ?'a = nat, of b] by simp
  ultimately show ?thesis using vp8_pid_small [of p]
    by (auto simp: vp8_parse_ref_def Let_def meta_wf_def meta_codec_def meta_rotation_def split: if_splits)
qed

lemma vp9_meta_accepted:
  assumes "vp9_parse_rtp p profile rotation = Some (Inr (Some m))"
  shows "meta_wf m \<and> rewritable m p \<and> meta_codec m = Codec_Vp9 profile \<and> meta_rotation m = rotation"
proof -
  obtain key svc where r: "vp9_parse_from p vp9_header_default = Some (Inr (Inr (key, svc)))" "m = Vp9 key profile svc rotation"
    using assms by (cases "the (vp9_parse_from p vp9_header_default)"; cases "projr (the (vp9_parse_from p vp9_header_default))")
      (auto simp: vp9_parse_rtp_def)
  from vp9_accepted [OF r(1)] show ?thesis
    by (cases svc) (auto simp: r(2) meta_wf_def meta_codec_def meta_rotation_def split: option.splits)
qed

lemma h264_accepted:
  "h264_parse_rtp p profile rid rotation = Some m \<Longrightarrow> meta_wf m \<and> rewritable m p \<and> meta_codec m = Codec_H264 profile \<and> meta_rotation m = rotation"
  by (auto simp: h264_parse_rtp_def Let_def meta_wf_def meta_codec_def meta_rotation_def split: if_splits)

lemma rtp_media_accepted:
  assumes "rtp_media codec spatial rtp = Some (Inr (Some (nackable, layers, m)))"
  shows "meta_wf m \<and> rewritable m (rtp_payload rtp) \<and> meta_codec m = codec \<and> nackable = meta_is_video m \<and>
     (codec \<noteq> Codec_Opus \<longrightarrow> meta_rotation m = map_option from_webrtc_orientation (ext_video_orientation (rtp_ext rtp)))"
proof (cases codec)
  case Codec_Opus
  then show ?thesis using assms by (auto simp: rtp_media_def Let_def meta_wf_def meta_codec_def meta_is_video_def)
next
  case Codec_Vp8
  then show ?thesis using assms vp8_accepted [of "rtp_payload rtp" spatial _ m]
    by (auto simp: rtp_media_def Let_def run_simps meta_is_video_def meta_codec_def split: media_meta.splits)
next
  case (Codec_H264 profile)
  then show ?thesis using assms h264_accepted [of "rtp_payload rtp" profile spatial _ m]
    by (auto simp: rtp_media_def Let_def run_simps meta_is_video_def meta_codec_def split: media_meta.splits)
next
  case (Codec_Vp9 profile)
  then show ?thesis using assms vp9_meta_accepted [of "rtp_payload rtp" profile _ m]
    by (auto simp: rtp_media_def Let_def run_simps meta_is_video_def meta_codec_def split: media_meta.splits)
qed

text \<open>The widths of an RTP header, and what keeps the conversion from panicking.\<close>

definition rtp_wf :: "rtp_packet \<Rightarrow> bool" where
  "rtp_wf rtp \<longleftrightarrow> rtp_seq rtp < 2 ^ 16 \<and> rtp_timestamp rtp < 2 ^ 32"

definition rtp_mild :: "media_codec option \<Rightarrow> rtp_packet \<Rightarrow> bool" where
  "rtp_mild codec rtp \<longleftrightarrow> (case ext_vla (rtp_ext rtp) of None \<Rightarrow> True | Some vla \<Rightarrow> vla_ok vla) \<and>
     (case codec of Some (Codec_Vp9 _) \<Rightarrow> rtp_payload rtp = [] \<or> hd (rtp_payload rtp) AND 2 = 0 | _ \<Rightarrow> True)"

lemma rtp_layers_ok:
  assumes "rtp_mild codec rtp"
  shows "\<exists>x. rtp_layers extract_simulcast rtp = Inr x" "\<exists>x. rtp_layers extract_svc rtp = Inr x"
  using assms extract_ok by (auto simp: rtp_mild_def rtp_layers_def simp del: split_paired_Ex split: option.splits)

lemma rtp_media_safe:
  assumes "rtp_mild (Some codec) rtp"
  shows "\<exists>x. rtp_media codec spatial rtp = Some (Inr x)"
proof -
  obtain l l' where l: "rtp_layers extract_simulcast rtp = Inr l" "rtp_layers extract_svc rtp = Inr l'" using rtp_layers_ok [OF assms] by blast
  show ?thesis
  proof (cases codec)
    case Codec_Vp8
    then show ?thesis using l(1) by (simp add: rtp_media_def Let_def vp8_parse_eq)
  next
    case (Codec_Vp9 profile)
    let ?rot = "map_option from_webrtc_orientation (ext_video_orientation (rtp_ext rtp))"
    obtain m where m: "vp9_parse_from (rtp_payload rtp) vp9_header_default = Some m" using vp9_parse_ends by blast
    then obtain x where "m = Inr x" using vp9_parse_safe_aux [OF _ m] assms Codec_Vp9 by (auto simp: rtp_mild_def)
    with m l(2) Codec_Vp9 show ?thesis by (simp add: rtp_media_def Let_def vp9_parse_rtp_def)
  qed (use l in \<open>simp_all add: rtp_media_def Let_def\<close>)
qed

lemma rmc_spatial_map: "rmc_map (fst (rmc_spatial rtp s)) = rmc_map s"
  by (simp add: rmc_spatial_def Let_def split: option.split)

lemma rmc_convert_accepted:
  assumes "rmc_convert rtp s = Some (Inr (s', Some p))"
  shows "\<exists>codec. im_get (rmc_map s) (rtp_pt rtp) = Some codec \<and> meta_codec (pkt_meta p) = codec \<and>
     pkt_nackable p = meta_is_video (pkt_meta p) \<and> rewritable (pkt_meta p) (rtp_payload rtp) \<and> meta_wf (pkt_meta p) \<and>
     (codec \<noteq> Codec_Opus \<longrightarrow> meta_rotation (pkt_meta p) = map_option from_webrtc_orientation (ext_video_orientation (rtp_ext rtp))) \<and>
     pkt_data p = rtp_payload rtp \<and> pkt_seq p = rtp_seq rtp \<and> pkt_ts p = rtp_timestamp rtp \<and> pkt_marker p = rtp_marker rtp"
proof -
  obtain s1 spatial where sp: "rmc_spatial rtp s = (s1, spatial)" by (cases "rmc_spatial rtp s")
  obtain codec where c: "im_get (rmc_map s) (rtp_pt rtp) = Some codec"
    using assms sp rmc_spatial_map [of rtp s] by (auto simp: rmc_convert_def rmc_remote_pt_to_codec_def split: option.splits)
  obtain r where r: "rtp_media codec spatial rtp = Some r" using assms sp c rmc_spatial_map [of rtp s]
    by (auto simp: rmc_convert_def rmc_remote_pt_to_codec_def)
  obtain nackable layers m where x: "r = Inr (Some (nackable, layers, m))" using assms sp c r rmc_spatial_map [of rtp s]
    by (auto simp: rmc_convert_def rmc_remote_pt_to_codec_def run_simps)
  have p: "p = \<lparr>pkt_ts = rtp_timestamp rtp, pkt_seq = rtp_seq rtp, pkt_marker = rtp_marker rtp, pkt_nackable = nackable,
            pkt_layers = layers, pkt_meta = m, pkt_data = rtp_payload rtp\<rparr>" using assms sp c r x rmc_spatial_map [of rtp s]
    by (auto simp: rmc_convert_def rmc_remote_pt_to_codec_def)
  from rtp_media_accepted [of codec spatial rtp nackable layers m] r x c show ?thesis by (simp add: p)
qed

lemma rmc_convert_safe:
  assumes "rtp_mild (im_get (rmc_map s) (rtp_pt rtp)) rtp"
  shows "\<exists>s' x. rmc_convert rtp s = Some (Inr (s', x)) \<and> rmc_map s' = rmc_map s"
proof -
  obtain s1 spatial where sp: "rmc_spatial rtp s = (s1, spatial)" "rmc_map s1 = rmc_map s"
    using rmc_spatial_map [of rtp s] by (cases "rmc_spatial rtp s") auto
  show ?thesis
  proof (cases "im_get (rmc_map s) (rtp_pt rtp)")
    case None
    then show ?thesis using sp by (simp add: rmc_convert_def rmc_remote_pt_to_codec_def)
  next
    case (Some codec)
    then obtain x where "rtp_media codec spatial rtp = Some (Inr x)" using rtp_media_safe assms by metis
    then show ?thesis using sp Some by (simp add: rmc_convert_def rmc_remote_pt_to_codec_def)
  qed
qed

text \<open>Conversion always returns, and leaves the negotiated table alone.\<close>

lemma rtp_media_ends: "\<exists>r. rtp_media codec spatial rtp = Some r"
proof (cases codec)
  case (Codec_Vp9 profile)
  obtain m where "vp9_parse_from (rtp_payload rtp) vp9_header_default = Some m" using vp9_parse_ends by blast
  with Codec_Vp9 show ?thesis by (simp add: rtp_media_def Let_def vp9_parse_rtp_def)
qed (simp_all add: rtp_media_def Let_def)

lemma rmc_convert_ends: "\<exists>r. rmc_convert rtp s = Some r"
proof (cases "im_get (rmc_map s) (rtp_pt rtp)")
  case None
  then show ?thesis using rmc_spatial_map [of rtp s] by (cases "rmc_spatial rtp s") (simp add: rmc_convert_def rmc_remote_pt_to_codec_def)
next
  case (Some codec)
  then show ?thesis using rmc_spatial_map [of rtp s] rtp_media_ends [of codec "snd (rmc_spatial rtp s)" rtp]
    by (cases "rmc_spatial rtp s") (auto simp: rmc_convert_def rmc_remote_pt_to_codec_def)
qed

lemma rmc_convert_map: "rmc_convert rtp s = Some (Inr (s', x)) \<Longrightarrow> rmc_map s' = rmc_map s"
  using rmc_spatial_map [of rtp s] by (cases "rmc_spatial rtp s") (auto simp: rmc_convert_def rmc_remote_pt_to_codec_def run_simps split: option.splits)

text \<open>
  C19. Every packet that the conversion hands to the cluster has the codec negotiated for its payload
  type, its numbers have the widths that the rewriters of the viewers rely on, and sequence number,
  timestamp, marker, rotation and payload are those of the RTP packet; only video is retransmitted.
\<close>
theorem rmc_convert_typed:
  assumes "rtp_wf rtp" and "rmc_convert rtp s = Some (Inr (s', Some p))"
  shows "pkt_wf p \<and> im_get (rmc_map s) (rtp_pt rtp) = Some (meta_codec (pkt_meta p)) \<and> pkt_nackable p = meta_is_video (pkt_meta p) \<and>
     pkt_seq p = rtp_seq rtp \<and> pkt_ts p = rtp_timestamp rtp \<and> pkt_marker p = rtp_marker rtp \<and> pkt_data p = rtp_payload rtp \<and>
     (meta_is_video (pkt_meta p) \<longrightarrow> ext_video_orientation (to_webrtc_extensions p) = ext_video_orientation (rtp_ext rtp))"
proof -
  have "map_option to_webrtc_orientation (map_option from_webrtc_orientation v) = v" for v
    by (cases v) (auto simp: to_webrtc_orientation_def from_webrtc_orientation_def split: video_orientation.splits)
  moreover have "meta_is_video (pkt_meta p) \<longleftrightarrow> meta_codec (pkt_meta p) \<noteq> Codec_Opus"
    by (cases "pkt_meta p") (auto simp: meta_is_video_def meta_codec_def)
  ultimately show ?thesis using rmc_convert_accepted [OF assms(2)] assms(1) by (auto simp: pkt_wf_def rtp_wf_def to_webrtc_extensions_def)
qed

theorem rmc_convert_typed_witness:
  "\<exists>s' p. rmc_convert \<lparr>rtp_pt = 96, rtp_ssrc = 7, rtp_seq = 5, rtp_timestamp = 6, rtp_marker = True,
       rtp_ext = \<lparr>ext_rid = Some [0x31], ext_audio_level = None, ext_video_orientation = Some VDeg90, ext_vla = Some [[[100, 200]], [[400]]]\<rparr>,
       rtp_payload = [0x90, 0xE0, 0x85, 0x01, 0x07, 0x40, 0x00, 0x00]\<rparr>
     (rmc_set_config [(96, \<lparr>cs_codec = Str0m_Vp8, cs_format = \<lparr>fp_profile_level_id = None, fp_packetization_mode = None, fp_profile_id = None\<rparr>\<rparr>)]
       (rmc_default :: unit remote_media_convert)) = Some (Inr (s', Some p)) \<and> pkt_wf p \<and> pkt_seq p = 5"
proof -
  let ?rtp = "\<lparr>rtp_pt = 96, rtp_ssrc = 7, rtp_seq = 5, rtp_timestamp = 6, rtp_marker = True,
       rtp_ext = \<lparr>ext_rid = Some [0x31], ext_audio_level = None, ext_video_orientation = Some VDeg90, ext_vla = Some [[[100, 200]], [[400]]]\<rparr>,
       rtp_payload = [0x90, 0xE0, 0x85, 0x01, 0x07, 0x40, 0x00, 0x00]\<rparr>"
  let ?s = "rmc_set_config [(96, \<lparr>cs_codec = Str0m_Vp8, cs_format = \<lparr>fp_profile_level_id = None, fp_packetization_mode = None, fp_profile_id = None\<rparr>\<rparr>)]
       (rmc_default :: unit remote_media_convert)"
  have "vp8_parse_rtp [0x90, 0xE0, 0x85, 0x01, 0x07, 0x40, 0x00, 0x00] (Some 1) (Some Deg90) = Inr (Some (Vp8 True (Some \<lparr>vp8_picture_id = Some 1281,
      vp8_tl0_pic_idx = Some 7, vp8_spatial = 1, vp8_temporal = 1, vp8_layer_sync = False\<rparr>) (Some Deg90)))" by code_simp
  moreover have "extract_simulcast [[[100, 200]], [[400]]] = Inr (Some (Some (Some 100, Some 200, None), Some (Some 400, None, None), None))"
    by (simp add: extract_simulcast_def layers_default_def layer_default_def layer_set_layer_def layers_set_layer_def as_u16_def)
  ultimately obtain s' p where c: "rmc_convert ?rtp ?s = Some (Inr (s', Some p))"
    by (simp add: rmc_convert_def rmc_spatial_def rid_to_spatial_def rmc_set_config_def rmc_default_def rmc_remote_pt_to_codec_def im_contains_def im_get_def
        str0m_codec_convert_def rtp_media_def rtp_layers_def from_webrtc_orientation_def)
  have "rtp_wf ?rtp" by (simp add: rtp_wf_def)
  from rmc_convert_typed [OF this c] have "pkt_wf p" "pkt_seq p = 5" by simp_all
  with c show ?thesis by blast
qed

end
