(* ===== verification/Media_Path.thy ===== *)
theory Media_Path
  imports Media_Convert
begin

text \<open>
  The path of a media packet through the server: received and converted by
  \<^verbatim>\<open>RemoteMediaConvert::convert\<close>, selected and renumbered by the \<^verbatim>\<open>PacketSelector\<close> of a viewer's local
  track, and rewritten by \<^verbatim>\<open>LocalMediaConvert::rewrite_pkt\<close> before it is sent. The definitions of this
  theory only connect the models of the three components.
\<close>

section \<open>What the selector changes\<close>

text \<open>A selector renumbers pictures and base layers and leaves the rest of the metadata alone.\<close>

fun renumbered :: "media_meta \<Rightarrow> media_meta \<Rightarrow> bool" where
  "renumbered (Vp8 key (Some sim) rot) m \<longleftrightarrow> (\<exists>a b. m = Vp8 key (Some (sim\<lparr>vp8_picture_id := a, vp8_tl0_pic_idx := b\<rparr>)) rot \<and>
     (a = None \<longleftrightarrow> vp8_picture_id sim = None) \<and> (b = None \<longleftrightarrow> vp8_tl0_pic_idx sim = None))"
| "renumbered (Vp9 key prof (Some svc) rot) m \<longleftrightarrow> (\<exists>a. m = Vp9 key prof (Some (svc\<lparr>vp9_picture_id := a\<rparr>)) rot)"
| "renumbered m' m \<longleftrightarrow> m = m'"

lemma sim_same: "sim\<lparr>vp8_picture_id := vp8_picture_id sim, vp8_tl0_pic_idx := vp8_tl0_pic_idx sim\<rparr> = (sim :: vp8_sim)"
  by simp


lemma renumbered_refl [simp]: "renumbered m m"
proof (cases "(m, m)" rule: renumbered.cases)
  case (1 key sim rot)
  then show ?thesis using sim_same [of sim] by (metis prod.inject renumbered.simps(1))
next
  case (2 key prof svc rot)
  moreover have "svc = svc\<lparr>vp9_picture_id := vp9_picture_id svc\<rparr>" by simp
  ultimately show ?thesis by (metis prod.inject renumbered.simps(2))
qed auto










section \<open>What is sent\<close>




section \<open>The relay\<close>



















end
