(* ===== verification/Endpoint_Types.thy ===== *)
theory Endpoint_Types
  imports Cluster_Types Packet_Selector Bitrate_Allocator
begin

text \<open>
  The messages of an endpoint: requests and answers of the client
  (\<^verbatim>\<open>packages/media_core/src/endpoint.rs\<close>), events of the transport (\<^verbatim>\<open>src/transport.rs\<close>), errors
  (\<^verbatim>\<open>src/errors.rs\<close>), and the events for the connector and the recorder with the cases and fields
  that an endpoint uses. IP addresses are their texts. An \<^verbatim>\<open>RpcResult<()>\<close> is \<open>endpoint_errors + unit\<close>: the code and the message of an
  error are functions of the constructor.
\<close>

datatype endpoint_errors = EndpointNotInRoom | LocalTrackNotPinSource | LocalTrackInvalidPriority | RemoteTrackInvalidPriority
  | RemoteTrackStopped | AudioMixerWrongMode | Destroying

definition error_code :: "endpoint_errors \<Rightarrow> nat" where
  "error_code e = (case e of EndpointNotInRoom \<Rightarrow> 0x0001 | LocalTrackNotPinSource \<Rightarrow> 0x1001 | LocalTrackInvalidPriority \<Rightarrow> 0x1002
     | RemoteTrackInvalidPriority \<Rightarrow> 0x2001 | RemoteTrackStopped \<Rightarrow> 0x2002 | AudioMixerWrongMode \<Rightarrow> 0x3001 | Destroying \<Rightarrow> 0x4001)"

type_synonym rpc_result = "endpoint_errors + unit"

record remote_track_config =
  rtc_priority :: nat
  rtc_control :: bitrate_control_mode

datatype remote_track_req = Rrq_Config remote_track_config

datatype remote_track_res = Rrs_Config rpc_result

record local_track_config =
  ltc_priority :: nat
  ltc_max_spatial :: nat
  ltc_max_temporal :: nat
  ltc_min_spatial :: "nat option"
  ltc_min_temporal :: "nat option"

datatype local_track_req = Lrq_Attach track_source local_track_config | Lrq_Detach | Lrq_Config local_track_config

datatype local_track_res = Lrs_Attach rpc_result | Lrs_Detach rpc_result | Lrs_Config rpc_result

datatype receiver_status = St_Waiting | St_Active | St_Inactive

datatype endpoint_local_track_event = Elt_Media media_packet | Elt_Status receiver_status | Elt_VoiceActivity int

datatype endpoint_remote_track_event = Ert_RequestKeyFrame | Ert_LimitBitrateBps nat nat

datatype local_track_event = Lte_Started media_kind | Lte_RequestKeyFrame | Lte_Ended

definition lte_need_create :: "local_track_event \<Rightarrow> media_kind option" where
  "lte_need_create ev = (case ev of Lte_Started kind \<Rightarrow> Some kind | _ \<Rightarrow> None)"

datatype remote_track_event = Rte_Started track_name nat track_meta | Rte_Paused | Rte_Resumed | Rte_Media media_packet | Rte_Ended

definition rte_need_create :: "remote_track_event \<Rightarrow> (track_name \<times> nat \<times> track_meta) option" where
  "rte_need_create ev = (case ev of Rte_Started name priority meta \<Rightarrow> Some (name, priority, meta) | _ \<Rightarrow> None)"

datatype peer_event =
    Pe_Connecting string
  | Pe_Connected nat string
  | Pe_ConnectError nat nat
  | Pe_Reconnect string
  | Pe_Reconnected nat string
  | Pe_Disconnected nat nat
  | Pe_Join string peer_id
  | Pe_Leave string peer_id
  | Pe_RemoteTrackStarted track_name media_kind
  | Pe_RemoteTrackEnded track_name media_kind
  | Pe_LocalTrack nat media_kind
  | Pe_LocalTrackAttach nat peer_id track_name
  | Pe_LocalTrackDetach nat peer_id track_name

datatype session_record_event =
    Rec_JoinRoom string string peer_id
  | Rec_LeaveRoom
  | Rec_TrackStarted nat track_name track_meta
  | Rec_TrackStopped nat
  | Rec_TrackMedia nat media_packet
  | Rec_Disconnected

section \<open>The transport\<close>

datatype transport_error = Timeout

datatype transport_state =
    Tst_New
  | Tst_Connecting string
  | Tst_ConnectError transport_error
  | Tst_Connected string
  | Tst_Reconnecting string
  | Tst_Disconnected "transport_error option"

text \<open>\<^verbatim>\<open>Stats\<close> carries numbers that the endpoint ignores.\<close>

datatype transport_event =
    Te_State transport_state
  | Te_RemoteTrack nat remote_track_event
  | Te_LocalTrack nat local_track_event
  | Te_Stats
  | Te_EgressBitrateEstimate nat

section \<open>Requests, answers and events of the client\<close>

datatype audio_mixer_req = Amq_Attach "track_source list" | Amq_Detach "track_source list"

datatype audio_mixer_res = Ams_Attach rpc_result | Ams_Detach rpc_result

datatype message_channel_req = Mcq_Subscribe | Mcq_Unsubscribe | Mcq_StartPublish | Mcq_StopPublish | Mcq_PublishData bytes

datatype message_channel_res = Mcs_Subscribe rpc_result | Mcs_Unsubscribe rpc_result | Mcs_StartPublish rpc_result
  | Mcs_StopPublish rpc_result | Mcs_PublishData rpc_result

datatype endpoint_req =
    Erq_JoinRoom string peer_id peer_meta room_info_publish room_info_subscribe "audio_mixer_config option"
  | Erq_LeaveRoom
  | Erq_SubscribePeer peer_id
  | Erq_UnsubscribePeer peer_id
  | Erq_AudioMixer audio_mixer_req
  | Erq_RemoteTrack nat remote_track_req
  | Erq_LocalTrack nat local_track_req
  | Erq_MessageChannel string message_channel_req

datatype endpoint_res =
    Ers_JoinRoom rpc_result
  | Ers_LeaveRoom rpc_result
  | Ers_SubscribePeer rpc_result
  | Ers_UnsubscribePeer rpc_result
  | Ers_AudioMixer audio_mixer_res
  | Ers_RemoteTrack nat remote_track_res
  | Ers_LocalTrack nat local_track_res
  | Ers_MessageChannel string message_channel_res

datatype endpoint_audio_mixer_event = Eam_SlotSet nat peer_id track_name | Eam_SlotUnset nat

datatype endpoint_event =
    Ev_PeerJoined peer_id peer_meta
  | Ev_PeerLeaved peer_id peer_meta
  | Ev_PeerTrackStarted peer_id track_name track_meta
  | Ev_PeerTrackStopped peer_id track_name track_meta
  | Ev_AudioMixer endpoint_audio_mixer_event
  | Ev_RemoteMediaTrack nat endpoint_remote_track_event
  | Ev_LocalMediaTrack nat endpoint_local_track_event
  | Ev_BweConfig nat nat
  | Ev_GoAway nat "string option"
  | Ev_ChannelMessage string peer_id bytes

record endpoint_cfg =
  ec_app :: string
  ec_max_egress_bitrate :: nat
  ec_max_ingress_bitrate :: nat
  ec_record :: bool

end
