(* ===== verification/Local_Track.thy ===== *)
theory Local_Track
  imports Endpoint_Types
begin

text \<open>
  \<^verbatim>\<open>packages/media_core/src/endpoint/internal/local_track.rs\<close>: the track on which a client receives
  media. It subscribes to a source on request, passes the media of the source through its packet
  selector, reports its status and forwards requests for key frames and bitrates to the cluster.
  The clock \<^verbatim>\<open>TimePivot\<close> of the network library is a parameter: the function from instants to
  milliseconds that the track is created with.
\<close>

section \<open>Draining the selector\<close>

text \<open>\<^verbatim>\<open>while let Some(action) = self.selector.pop_output(now_ms)\<close>: the actions in order.\<close>

definition ps_pending :: "packet_selector \<Rightarrow> nat" where
  "ps_pending s = length (ps_queue s) + (case ps_selector s of None \<Rightarrow> 0 | Some v \<Rightarrow> vs_pending v)"

lemma ps_pop_selector_pending:
  "ps_pop_selector now v s = (s', Some a) \<Longrightarrow> ps_queue s' = ps_queue s \<and> (\<exists>v'. ps_selector s' = Some v' \<and> vs_pending v' < vs_pending v)"
proof (induction now v s rule: ps_pop_selector.induct)
  case (1 now v s)
  obtain v1 a1 where pop: "vs_pop_action v = (v1, a1)" by fastforce
  show ?case
  proof (cases a1)
    case None
    then show ?thesis using 1(2) pop by (simp add: ps_pop_selector.simps [of now v])
  next
    case (Some r)
    then have less: "vs_pending v1 < vs_pending v" using vs_pop_less [of v1 r v] pop by simp
    show ?thesis
    proof (cases "ps_may_request now s")
      case True
      then show ?thesis using 1(2) pop Some less by (cases r) (auto simp: ps_pop_selector.simps [of now v])
    next
      case False
      then have "ps_pop_selector now v1 s = (s', Some a)" using 1(2) pop Some by (cases r) (simp add: ps_pop_selector.simps [of now v])
      with "1.IH" [OF pop [symmetric]] Some False less show ?thesis by (cases r) fastforce
    qed
  qed
qed

lemma ps_pop_less: "ps_pop_output now s = (s', Some a) \<Longrightarrow> ps_pending s' < ps_pending s"
  using ps_pop_selector_pending [of now "the (ps_selector s)" s s' a]
  by (auto simp: ps_pop_output_def ps_pending_def split: list.splits option.splits)

function ps_drain :: "nat \<Rightarrow> packet_selector \<Rightarrow> packet_selector \<times> action list" where
  "ps_drain now s = (case ps_pop_output now s of (s1, None) \<Rightarrow> (s1, [])
     | (s1, Some a) \<Rightarrow> (case ps_drain now s1 of (s2, as) \<Rightarrow> (s2, a # as)))"
  by pat_completeness auto
termination
  by (relation "measure (\<lambda>(_, s). ps_pending s)") (auto dest: ps_pop_less [OF sym])

declare ps_drain.simps [simp del]

section \<open>The track\<close>

definition MEDIA_TIMEOUT_MS :: nat where "MEDIA_TIMEOUT_MS = 2000"

datatype lt_input =
    Li_JoinRoom room_hash
  | Li_LeaveRoom
  | Li_Cluster cluster_local_track_event
  | Li_Event local_track_event
  | Li_RpcReq nat local_track_req
  | Li_BitrateAllocation set_bitrate

datatype lt_output =
    Lo_Event endpoint_local_track_event
  | Lo_Cluster room_hash cluster_local_track_control
  | Lo_PeerEvent nat peer_event
  | Lo_RpcRes nat local_track_res
  | Lo_Bind media_kind nat
  | Lo_Updated media_kind nat
  | Lo_Unbind media_kind
  | Lo_OnResourceEmpty

datatype lt_status = Waiting | Active nat | Inactive

record endpoint_local_track =
  lt_track :: nat
  lt_kind :: media_kind
  lt_room :: "room_hash option"
  lt_bind :: "(peer_id \<times> track_name \<times> lt_status) option"
  lt_queue :: "lt_output list"
  lt_selector :: packet_selector
  lt_timer :: "nat \<Rightarrow> nat"
  lt_voice_activity :: voice_activity
  lt_shutdown :: bool

definition lt_new :: "(nat \<Rightarrow> nat) \<Rightarrow> nat \<Rightarrow> media_kind \<Rightarrow> room_hash option \<Rightarrow> endpoint_local_track" where
  "lt_new timer track kind room = \<lparr>lt_track = track, lt_kind = kind, lt_room = room, lt_bind = None, lt_queue = [],
     lt_selector = ps_new kind 2 2, lt_timer = timer, lt_voice_activity = \<lparr>va_last_activity = 0\<rparr>, lt_shutdown = False\<rparr>"

definition lt_push :: "lt_output list \<Rightarrow> endpoint_local_track \<Rightarrow> endpoint_local_track" where
  "lt_push os s = s\<lparr>lt_queue := lt_queue s @ os\<rparr>"

definition lt_on_join_room :: "room_hash \<Rightarrow> endpoint_local_track \<Rightarrow> endpoint_local_track run" where
  "lt_on_join_room room s = rbind (rassert (lt_room s = None)) (\<lambda>_. rbind (rassert (lt_bind s = None)) (\<lambda>_.
     Inr (s\<lparr>lt_room := Some room\<rparr>)))"

definition lt_on_leave_room :: "nat \<Rightarrow> endpoint_local_track \<Rightarrow> endpoint_local_track run" where
  "lt_on_leave_room now s = rbind (rassert (lt_room s \<noteq> None)) (\<lambda>_. case lt_room s of None \<Rightarrow> Inr s
     | Some room \<Rightarrow> (let s1 = s\<lparr>lt_room := None\<rparr> in case lt_bind s1 of None \<Rightarrow> Inr s1
         | Some (peer, track, _) \<Rightarrow> Inr (lt_push [Lo_Cluster room Clt_Unsubscribe, Lo_PeerEvent now (Pe_LocalTrackDetach (lt_track s) peer track)]
             (s1\<lparr>lt_bind := None\<rparr>))))"

definition lt_pop_selector :: "nat \<Rightarrow> endpoint_local_track \<Rightarrow> endpoint_local_track" where
  "lt_pop_selector now_ms s = (case lt_room s of None \<Rightarrow> s
     | Some room \<Rightarrow> (case ps_drain now_ms (lt_selector s) of (sel, acts) \<Rightarrow>
         lt_push (map (\<lambda>a. case a of RequestKeyFrame \<Rightarrow> Lo_Cluster room Clt_RequestKeyFrame) acts) (s\<lparr>lt_selector := sel\<rparr>)))"

text \<open>The status of the bound source when a packet of it is forwarded.\<close>

definition lt_media_status :: "nat \<Rightarrow> endpoint_local_track \<Rightarrow> endpoint_local_track" where
  "lt_media_status now_ms s = (case lt_bind s of None \<Rightarrow> s
     | Some (peer, track, status) \<Rightarrow> (case status of
           Active _ \<Rightarrow> s\<lparr>lt_bind := Some (peer, track, Active now_ms)\<rparr>
         | _ \<Rightarrow> lt_push [Lo_Event (Elt_Status St_Active)] (s\<lparr>lt_bind := Some (peer, track, Active now_ms)\<rparr>)))"

definition lt_voice :: "nat \<Rightarrow> media_meta \<Rightarrow> endpoint_local_track \<Rightarrow> endpoint_local_track" where
  "lt_voice now_ms meta s = (case meta of
     Opus audio_level \<Rightarrow> (case va_on_audio now_ms audio_level (lt_voice_activity s) of (va, r) \<Rightarrow>
       (case r of None \<Rightarrow> s\<lparr>lt_voice_activity := va\<rparr>
        | Some level \<Rightarrow> lt_push [Lo_Event (Elt_VoiceActivity level)] (s\<lparr>lt_voice_activity := va\<rparr>)))
   | _ \<Rightarrow> s)"

definition lt_on_cluster_event :: "nat \<Rightarrow> cluster_local_track_event \<Rightarrow> endpoint_local_track \<Rightarrow> endpoint_local_track run" where
  "lt_on_cluster_event now event s = (case event of
     Cle_RelayChanged \<Rightarrow>
       (if kind_is_video (lt_kind s) then (case lt_room s of None \<Rightarrow> Inr s
          | Some room \<Rightarrow> Inr (lt_push [Lo_Cluster room Clt_RequestKeyFrame] s)) else Inr s)
   | Cle_SourceChanged \<Rightarrow> Inr (s\<lparr>lt_selector := ps_reset (lt_selector s)\<rparr>)
   | Cle_Media channel pkt \<Rightarrow>
       (let now_ms = lt_timer s now in
        rbind (ps_select now_ms channel pkt (lt_selector s)) (\<lambda>(sel, pkt1, ok).
        let s1 = s\<lparr>lt_selector := sel\<rparr> in
        if ok then Inr (lt_push [Lo_Event (Elt_Media pkt1)] (lt_voice now_ms (pkt_meta pkt1) (lt_media_status now_ms (lt_pop_selector now_ms s1))))
        else Inr s1)))"

definition lt_on_transport_event :: "local_track_event \<Rightarrow> endpoint_local_track \<Rightarrow> endpoint_local_track run" where
  "lt_on_transport_event event s = (case event of
     Lte_Started _ \<Rightarrow> Inr s
   | Lte_RequestKeyFrame \<Rightarrow> (case lt_room s of None \<Rightarrow> Inr s | Some room \<Rightarrow> Inr (lt_push [Lo_Cluster room Clt_RequestKeyFrame] s))
   | Lte_Ended \<Rightarrow> Inr s)"

definition lt_attach :: "nat \<Rightarrow> nat \<Rightarrow> room_hash \<Rightarrow> track_source \<Rightarrow> local_track_config \<Rightarrow> endpoint_local_track \<Rightarrow> endpoint_local_track run" where
  "lt_attach now req_id room source config s =
     (let peer = tsrc_peer source; track = tsrc_track source; now_ms = lt_timer s now;
          s1 = lt_push [Lo_RpcRes req_id (Lrs_Attach (Inr ()))] s;
          s2 = (case lt_bind s1 of None \<Rightarrow> s1
            | Some _ \<Rightarrow> lt_push [Lo_Cluster room Clt_Unsubscribe, Lo_Unbind (lt_kind s1)] (s1\<lparr>lt_bind := None\<rparr>));
          s3 = s2\<lparr>lt_bind := Some (peer, track, Waiting)\<rparr> in
      rbind (ps_set_limit_layer now_ms (ltc_max_spatial config) (ltc_max_temporal config) (lt_selector s3)) (\<lambda>sel.
      Inr ((lt_push [Lo_Bind (lt_kind s3) (ltc_priority config), Lo_Cluster room (Clt_Subscribe peer track),
        Lo_PeerEvent now (Pe_LocalTrackAttach (lt_track s3) peer track)] s3)\<lparr>lt_selector := ps_reset sel\<rparr>)))"

definition lt_on_rpc_req :: "nat \<Rightarrow> nat \<Rightarrow> local_track_req \<Rightarrow> endpoint_local_track \<Rightarrow> endpoint_local_track run" where
  "lt_on_rpc_req now req_id req s = (case req of
     Lrq_Attach source config \<Rightarrow>
       (if ltc_priority config = 0 then Inr (lt_push [Lo_RpcRes req_id (Lrs_Attach (Inl LocalTrackInvalidPriority))] s)
        else case lt_room s of
          Some room \<Rightarrow> lt_attach now req_id room source config s
        | None \<Rightarrow> Inr (lt_push [Lo_RpcRes req_id (Lrs_Attach (Inl EndpointNotInRoom))] s))
   | Lrq_Detach \<Rightarrow>
       (case lt_room s of
          Some room \<Rightarrow> (case lt_bind s of
              Some (peer, track, _) \<Rightarrow> Inr (lt_push [Lo_RpcRes req_id (Lrs_Detach (Inr ())), Lo_Unbind (lt_kind s), Lo_Cluster room Clt_Unsubscribe,
                Lo_PeerEvent now (Pe_LocalTrackDetach (lt_track s) peer track)] (s\<lparr>lt_bind := None\<rparr>))
            | None \<Rightarrow> Inr (lt_push [Lo_RpcRes req_id (Lrs_Detach (Inl LocalTrackNotPinSource))] s))
        | None \<Rightarrow> Inr (lt_push [Lo_RpcRes req_id (Lrs_Detach (Inl EndpointNotInRoom))] s))
   | Lrq_Config config \<Rightarrow>
       rbind (ps_set_limit_layer (lt_timer s now) (ltc_max_spatial config) (ltc_max_temporal config) (lt_selector s)) (\<lambda>sel.
       Inr (lt_push [Lo_RpcRes req_id (Lrs_Config (Inr ())), Lo_Updated (lt_kind s) (ltc_priority config)] (s\<lparr>lt_selector := sel\<rparr>))))"

definition lt_on_bitrate_allocation_action :: "nat \<Rightarrow> set_bitrate \<Rightarrow> endpoint_local_track \<Rightarrow> endpoint_local_track run" where
  "lt_on_bitrate_allocation_action now act s = (case act of SetBitrate bitrate \<Rightarrow>
     (let now_ms = lt_timer s now in
      rbind (ps_set_target_bitrate now_ms bitrate (lt_selector s)) (\<lambda>sel.
      let s1 = lt_pop_selector now_ms (s\<lparr>lt_selector := sel\<rparr>) in
      Inr (case lt_room s1 of None \<Rightarrow> s1 | Some room \<Rightarrow> lt_push [Lo_Cluster room (Clt_DesiredBitrate bitrate)] s1))))"

definition lt_on_tick :: "nat \<Rightarrow> endpoint_local_track \<Rightarrow> endpoint_local_track" where
  "lt_on_tick now s =
     (let now_ms = lt_timer s now; s1 = lt_pop_selector now_ms (s\<lparr>lt_selector := ps_on_tick now_ms (lt_selector s)\<rparr>) in
      case lt_bind s1 of
        Some (peer, track, Active last_media_ts) \<Rightarrow>
          if u64_add last_media_ts MEDIA_TIMEOUT_MS \<le> now_ms
          then lt_push [Lo_Event (Elt_Status St_Inactive)] (s1\<lparr>lt_bind := Some (peer, track, Inactive)\<rparr>) else s1
      | _ \<Rightarrow> s1)"

definition lt_on_event :: "nat \<Rightarrow> lt_input \<Rightarrow> endpoint_local_track \<Rightarrow> endpoint_local_track run" where
  "lt_on_event now input s = (case input of
     Li_JoinRoom room \<Rightarrow> lt_on_join_room room s
   | Li_LeaveRoom \<Rightarrow> lt_on_leave_room now s
   | Li_Cluster event \<Rightarrow> lt_on_cluster_event now event s
   | Li_Event event \<Rightarrow> lt_on_transport_event event s
   | Li_RpcReq req_id req \<Rightarrow> lt_on_rpc_req now req_id req s
   | Li_BitrateAllocation act \<Rightarrow> lt_on_bitrate_allocation_action now act s)"

definition lt_on_shutdown :: "nat \<Rightarrow> endpoint_local_track \<Rightarrow> endpoint_local_track run" where
  "lt_on_shutdown now s = (if lt_shutdown s then Inr s else
     (let s1 = s\<lparr>lt_shutdown := True\<rparr> in if lt_room s1 \<noteq> None then lt_on_leave_room now s1 else Inr s1))"

definition lt_is_empty :: "endpoint_local_track \<Rightarrow> bool" where
  "lt_is_empty s \<longleftrightarrow> lt_shutdown s \<and> lt_queue s = []"

definition lt_pop_output :: "endpoint_local_track \<Rightarrow> endpoint_local_track \<times> lt_output option" where
  "lt_pop_output s = (case lt_queue s of [] \<Rightarrow> (s, None) | x # q \<Rightarrow> (s\<lparr>lt_queue := q\<rparr>, Some x))"

definition lt_drop :: "endpoint_local_track \<Rightarrow> unit run" where
  "lt_drop s = rassert (lt_queue s = [])"

section \<open>Runs\<close>

text \<open>A run of calls, with the outputs that were taken from the queue.\<close>

datatype lt_op = Lt_Event nat lt_input | Lt_Tick nat | Lt_Shutdown nat | Lt_Pop

type_synonym lt_run_state = "endpoint_local_track \<times> lt_output list"

definition lt_step :: "lt_op \<Rightarrow> lt_run_state \<Rightarrow> lt_run_state run" where
  "lt_step x = (\<lambda>(s, log). case x of
     Lt_Event now input \<Rightarrow> rbind (lt_on_event now input s) (\<lambda>s1. Inr (s1, log))
   | Lt_Tick now \<Rightarrow> Inr (lt_on_tick now s, log)
   | Lt_Shutdown now \<Rightarrow> rbind (lt_on_shutdown now s) (\<lambda>s1. Inr (s1, log))
   | Lt_Pop \<Rightarrow> (case lt_pop_output s of (s1, None) \<Rightarrow> Inr (s1, log) | (s1, Some q) \<Rightarrow> Inr (s1, log @ [q])))"

fun lt_act :: "lt_output \<Rightarrow> (room_hash \<times> session_act) option" where
  "lt_act (Lo_Cluster room (Clt_Subscribe _ _)) = Some (room, Opens)"
| "lt_act (Lo_Cluster room Clt_Unsubscribe) = Some (room, Closes)"
| "lt_act _ = None"

definition lt_ctls :: "lt_output list \<Rightarrow> (room_hash \<times> session_act) list" where
  "lt_ctls = List.map_filter lt_act"

definition lt_held :: "endpoint_local_track \<Rightarrow> room_hash set" where
  "lt_held s = (if lt_bind s = None then {} else set_option (lt_room s))"

definition lt_wf :: "endpoint_local_track \<Rightarrow> bool" where
  "lt_wf s \<longleftrightarrow> (lt_bind s \<noteq> None \<longrightarrow> lt_room s \<noteq> None) \<and> ps_wf (lt_selector s)"

text \<open>The endpoint tells a track to join a room only when it is in none, and to leave only when it is in
  one; media packets have the widths that the conversion gives them.\<close>

fun lt_admits :: "lt_op \<Rightarrow> lt_run_state \<Rightarrow> bool" where
  "lt_admits (Lt_Event _ (Li_JoinRoom _)) (s, _) \<longleftrightarrow> lt_room s = None"
| "lt_admits (Lt_Event _ Li_LeaveRoom) (s, _) \<longleftrightarrow> lt_room s \<noteq> None"
| "lt_admits (Lt_Event _ (Li_Cluster (Cle_Media _ pkt))) (s, _) \<longleftrightarrow> pkt_wf pkt"
| "lt_admits _ _ \<longleftrightarrow> True"

lemma lt_ctls_append [simp]: "lt_ctls (xs @ ys) = lt_ctls xs @ lt_ctls ys"
  by (simp add: lt_ctls_def List.map_filter_def)

lemma lt_ctls_simps [simp]: "lt_ctls [] = []" "lt_ctls (x # xs) = (case lt_act x of None \<Rightarrow> lt_ctls xs | Some c \<Rightarrow> c # lt_ctls xs)"
  by (simp_all add: lt_ctls_def List.map_filter_def split: option.split)

lemma lt_push_simps [simp]:
  "lt_queue (lt_push os s) = lt_queue s @ os" "lt_room (lt_push os s) = lt_room s" "lt_bind (lt_push os s) = lt_bind s"
  "lt_selector (lt_push os s) = lt_selector s" "lt_kind (lt_push os s) = lt_kind s" "lt_timer (lt_push os s) = lt_timer s"
  "lt_track (lt_push os s) = lt_track s" "lt_shutdown (lt_push os s) = lt_shutdown s"
  by (simp_all add: lt_push_def)

lemma ps_drain_wf: "ps_wf s \<Longrightarrow> ps_wf (fst (ps_drain now s))"
proof (induction now s rule: ps_drain.induct)
  case (1 now s)
  obtain s1 a where pop: "ps_pop_output now s = (s1, a)" by fastforce
  have "ps_wf s1" using ps_step_safe [OF "1.prems", of "Ps_Pop now"] pop by (auto split: option.splits)
  then show ?case using "1.IH" [OF pop [symmetric]] pop by (cases a) (auto simp: ps_drain.simps [of now s] split: prod.splits)
qed

lemma lt_ctls_event: "lt_ctls [Lo_Event x] = []"
  by simp

text \<open>What a track is with respect to the cluster: a step that keeps the binding emits no subscription.\<close>

definition lt_same :: "endpoint_local_track \<Rightarrow> endpoint_local_track \<Rightarrow> bool" where
  "lt_same s s' \<longleftrightarrow> lt_room s' = lt_room s \<and> (lt_bind s' = None \<longleftrightarrow> lt_bind s = None) \<and> (\<exists>os. lt_queue s' = lt_queue s @ os \<and> lt_ctls os = []) \<and>
     (ps_wf (lt_selector s) \<longrightarrow> ps_wf (lt_selector s'))"

lemma lt_same_trans: "lt_same s s1 \<Longrightarrow> lt_same s1 s2 \<Longrightarrow> lt_same s s2"
  by (force simp: lt_same_def)

lemma lt_same_push: "lt_ctls os = [] \<Longrightarrow> lt_same s (lt_push os s)"
  by (auto simp: lt_same_def)

lemma lt_same_selector: "(ps_wf (lt_selector s) \<longrightarrow> ps_wf sel) \<Longrightarrow> lt_same s (s\<lparr>lt_selector := sel\<rparr>)"
  by (simp add: lt_same_def)

lemma lt_same_pop_selector: "lt_same s (lt_pop_selector now_ms s)"
proof -
  have "lt_ctls (map (\<lambda>a. case a of RequestKeyFrame \<Rightarrow> Lo_Cluster room Clt_RequestKeyFrame) acts) = []" for room acts
  proof (induction acts)
    case (Cons a acts)
    then show ?case by (cases a) simp
  qed simp
  then show ?thesis using ps_drain_wf [of "lt_selector s" now_ms]
    by (auto simp: lt_same_def lt_pop_selector_def split: option.splits prod.splits)
qed

lemma lt_same_media: "lt_same s (lt_media_status now_ms s)" "lt_same s (lt_voice now_ms meta s)"
  by (auto simp: lt_same_def lt_media_status_def lt_voice_def split: option.splits lt_status.splits media_meta.splits prod.splits)

lemma lt_same_tick: "lt_same s (lt_on_tick now s)"
proof -
  let ?s = "s\<lparr>lt_selector := ps_on_tick (lt_timer s now) (lt_selector s)\<rparr>"
  have 0: "lt_same s ?s" by (rule lt_same_selector) (simp add: ps_on_tick_def ps_wf_def)
  have "lt_same ?s (lt_on_tick now s)"
    using lt_same_pop_selector [of ?s "lt_timer s now"]
    by (auto simp: lt_on_tick_def lt_same_def Let_def split: option.splits lt_status.splits)
  with 0 show ?thesis by (rule lt_same_trans)
qed

definition lt_moves :: "endpoint_local_track \<Rightarrow> endpoint_local_track \<Rightarrow> bool" where
  "lt_moves s s' \<longleftrightarrow> lt_wf s' \<and> (\<exists>os. lt_queue s' = lt_queue s @ os \<and> sessions (lt_held s) (lt_ctls os) = Some (lt_held s'))"

lemma lt_same_moves: "lt_wf s \<Longrightarrow> lt_same s s' \<Longrightarrow> lt_moves s s'"
  by (auto simp: lt_same_def lt_moves_def lt_wf_def lt_held_def)

lemma lt_selector_ok:
  assumes "lt_wf s"
  shows "\<exists>sel. ps_set_limit_layer now m n (lt_selector s) = Inr sel \<and> ps_wf sel" "\<exists>sel. ps_set_target_bitrate now b (lt_selector s) = Inr sel \<and> ps_wf sel"
proof -
  have "ps_wf (lt_selector s)" using assms by (simp add: lt_wf_def)
  from ps_set_ok [OF this] show "\<exists>sel. ps_set_limit_layer now m n (lt_selector s) = Inr sel \<and> ps_wf sel"
    "\<exists>sel. ps_set_target_bitrate now b (lt_selector s) = Inr sel \<and> ps_wf sel" by blast+
qed

lemma lt_cluster_moves:
  assumes "lt_wf s" "\<forall>ch pkt. event = Cle_Media ch pkt \<longrightarrow> pkt_wf pkt"
  shows "\<exists>s'. lt_on_cluster_event now event s = Inr s' \<and> lt_same s s'"
proof (cases event)
  case Cle_RelayChanged
  then show ?thesis using lt_same_push [of "[Lo_Cluster _ Clt_RequestKeyFrame]" s] lt_same_push [of "[]" s]
    by (auto simp: lt_on_cluster_event_def lt_same_def split: option.split)
next
  case Cle_SourceChanged
  then show ?thesis by (auto simp: lt_on_cluster_event_def ps_reset_def ps_wf_def intro!: lt_same_selector)
next
  case (Cle_Media ch pkt)
  let ?ms = "lt_timer s now"
  obtain sel pkt1 ok where sel: "ps_select ?ms ch pkt (lt_selector s) = Inr (sel, pkt1, ok)" "ps_wf sel"
    using ps_select_ok [of "lt_selector s" pkt ?ms ch] assms Cle_Media by (auto simp: lt_wf_def)
  let ?s = "s\<lparr>lt_selector := sel\<rparr>"
  have 1: "lt_same s ?s" using sel(2) by (intro lt_same_selector) simp
  have "lt_same ?s (lt_push [Lo_Event (Elt_Media pkt1)] (lt_voice ?ms (pkt_meta pkt1) (lt_media_status ?ms (lt_pop_selector ?ms ?s))))"
    using lt_same_pop_selector [of ?s ?ms] lt_same_media lt_same_push [of "[Lo_Event (Elt_Media pkt1)]"] by (meson lt_same_trans lt_ctls_event)
  with 1 have "lt_same s (lt_push [Lo_Event (Elt_Media pkt1)] (lt_voice ?ms (pkt_meta pkt1) (lt_media_status ?ms (lt_pop_selector ?ms ?s))))"
    by (rule lt_same_trans)
  then show ?thesis using sel(1) 1 Cle_Media by (cases ok) (auto simp: lt_on_cluster_event_def Let_def)
qed

lemma lt_attach_moves:
  assumes "lt_wf s" "lt_room s = Some room"
  shows "\<exists>s'. lt_attach now req_id room source config s = Inr s' \<and> lt_moves s s'"
proof -
  obtain sel where sel: "ps_set_limit_layer (lt_timer s now) (ltc_max_spatial config) (ltc_max_temporal config) (lt_selector s) = Inr sel" "ps_wf sel"
    using lt_selector_ok(1) [OF assms(1)] by blast
  have "ps_wf (ps_reset sel)" using sel(2) by (simp add: ps_reset_def ps_wf_def)
  then show ?thesis using sel(1) assms
    by (cases "lt_bind s") (auto simp: lt_attach_def Let_def lt_moves_def lt_wf_def lt_held_def)
qed

lemma lt_rpc_moves:
  assumes "lt_wf s"
  shows "\<exists>s'. lt_on_rpc_req now req_id req s = Inr s' \<and> lt_moves s s'"
proof (cases req)
  case (Lrq_Attach source config)
  then show ?thesis using lt_attach_moves [OF assms, of _ now req_id source config] lt_same_moves [OF assms lt_same_push]
    by (cases "lt_room s") (auto simp: lt_on_rpc_req_def)
next
  case Lrq_Detach
  then show ?thesis using assms lt_same_moves [OF assms lt_same_push]
    by (cases "lt_room s"; cases "lt_bind s") (auto simp: lt_on_rpc_req_def lt_moves_def lt_wf_def lt_held_def)
next
  case (Lrq_Config config)
  obtain sel where sel: "ps_set_limit_layer (lt_timer s now) (ltc_max_spatial config) (ltc_max_temporal config) (lt_selector s) = Inr sel" "ps_wf sel"
    using lt_selector_ok(1) [OF assms] by blast
  then show ?thesis using assms Lrq_Config by (auto simp: lt_on_rpc_req_def lt_moves_def lt_wf_def lt_held_def)
qed

lemma lt_allocation_moves:
  assumes "lt_wf s"
  shows "\<exists>s'. lt_on_bitrate_allocation_action now act s = Inr s' \<and> lt_same s s'"
proof (cases act)
  case (SetBitrate bitrate)
  obtain sel where sel: "ps_set_target_bitrate (lt_timer s now) bitrate (lt_selector s) = Inr sel" "ps_wf sel"
    using lt_selector_ok(2) [OF assms] by blast
  let ?s = "lt_pop_selector (lt_timer s now) (s\<lparr>lt_selector := sel\<rparr>)"
  have "lt_same s (s\<lparr>lt_selector := sel\<rparr>)" using sel(2) by (intro lt_same_selector) simp
  then have 1: "lt_same s ?s" using lt_same_pop_selector by (rule lt_same_trans)
  have "lt_same s (lt_push [Lo_Cluster room (Clt_DesiredBitrate bitrate)] ?s)" for room using lt_same_trans [OF 1 lt_same_push] by simp
  then show ?thesis using sel(1) 1 SetBitrate by (auto simp: lt_on_bitrate_allocation_action_def Let_def split: option.split)
qed

lemma lt_leave_moves:
  assumes "lt_wf s" "lt_room s \<noteq> None"
  shows "\<exists>s'. lt_on_leave_room now s = Inr s' \<and> lt_moves s s'"
  using assms by (cases "lt_bind s") (auto simp: lt_on_leave_room_def Let_def lt_moves_def lt_wf_def lt_held_def)

lemma lt_event_moves:
  assumes "lt_wf s" "lt_admits (Lt_Event now input) (s, log)"
  shows "\<exists>s'. lt_on_event now input s = Inr s' \<and> lt_moves s s'"
proof (cases input)
  case (Li_JoinRoom room)
  then show ?thesis using assms by (auto simp: lt_on_event_def lt_on_join_room_def lt_moves_def lt_wf_def lt_held_def)
next
  case Li_LeaveRoom
  then show ?thesis using lt_leave_moves [OF assms(1), of now] assms(2) by (simp add: lt_on_event_def)
next
  case (Li_Cluster event)
  have "\<forall>ch pkt. event = Cle_Media ch pkt \<longrightarrow> pkt_wf pkt" using assms(2) Li_Cluster by auto
  from lt_cluster_moves [OF assms(1) this, of now] show ?thesis using lt_same_moves [OF assms(1)] Li_Cluster by (auto simp: lt_on_event_def)
next
  case (Li_Event event)
  have "lt_moves s s" "\<And>room. lt_moves s (lt_push [Lo_Cluster room Clt_RequestKeyFrame] s)"
    using lt_same_moves [OF assms(1)] by (auto simp: lt_same_def)
  then show ?thesis using Li_Event by (auto simp: lt_on_event_def lt_on_transport_event_def split: local_track_event.split option.split)
next
  case (Li_RpcReq req_id req)
  then show ?thesis using lt_rpc_moves [OF assms(1)] by (simp add: lt_on_event_def)
next
  case (Li_BitrateAllocation act)
  then show ?thesis using lt_allocation_moves [OF assms(1), of now act] lt_same_moves [OF assms(1)] by (auto simp: lt_on_event_def)
qed

lemma lt_shutdown_moves:
  assumes "lt_wf s"
  shows "\<exists>s'. lt_on_shutdown now s = Inr s' \<and> lt_moves s s'"
proof -
  let ?s = "s\<lparr>lt_shutdown := True\<rparr>"
  have same: "lt_moves s ?s" "lt_moves s s" using assms by (auto simp: lt_moves_def lt_wf_def lt_held_def intro!: exI [of _ "[]"])
  have wf: "lt_wf ?s" using assms by (simp add: lt_wf_def)
  show ?thesis
  proof (cases "lt_shutdown s \<or> lt_room s = None")
    case True
    then show ?thesis using same by (auto simp: lt_on_shutdown_def)
  next
    case False
    then obtain s' where "lt_on_leave_room now ?s = Inr s'" "lt_moves ?s s'" using lt_leave_moves [OF wf, of now] by auto
    then show ?thesis using False by (auto simp: lt_on_shutdown_def Let_def lt_moves_def lt_held_def)
  qed
qed

lemma lt_step_sessions:
  assumes "lt_wf (fst st)" "lt_admits x st"
  shows "\<exists>st' cs. lt_step x st = Inr st' \<and> lt_wf (fst st') \<and> lt_ctls (snd st' @ lt_queue (fst st')) = lt_ctls (snd st @ lt_queue (fst st)) @ cs \<and>
     sessions (lt_held (fst st)) cs = Some (lt_held (fst st'))"
proof -
  obtain s log where st: "st = (s, log)" by (cases st)
  have moves: "\<exists>st' cs. Inr (s', log) = Inr st' \<and> lt_wf (fst st') \<and> lt_ctls (snd st' @ lt_queue (fst st')) = lt_ctls (snd st @ lt_queue (fst st)) @ cs \<and>
     sessions (lt_held (fst st)) cs = Some (lt_held (fst st'))" if "lt_moves s s'" for s'
    using that by (auto simp: st lt_moves_def)
  show ?thesis
  proof (cases x)
    case (Lt_Event now input)
    then show ?thesis using lt_event_moves [of s now input log] assms moves by (auto simp: st lt_step_def)
  next
    case (Lt_Tick now)
    then show ?thesis using moves [OF lt_same_moves [OF _ lt_same_tick]] assms(1) by (simp add: st lt_step_def)
  next
    case (Lt_Shutdown now)
    then show ?thesis using lt_shutdown_moves [of s now] assms moves by (auto simp: st lt_step_def)
  next
    case Lt_Pop
    then show ?thesis using assms(1)
      by (cases "lt_queue s") (auto simp: st lt_step_def lt_pop_output_def lt_wf_def lt_held_def split: option.splits)
  qed
qed

interpretation ltc: session_client lt_step "\<lambda>st. lt_ctls (snd st @ lt_queue (fst st))" "\<lambda>st. lt_held (fst st)" "\<lambda>st. lt_wf (fst st)" lt_admits
  by unfold_locales (rule lt_step_sessions)

text \<open>
  C10. A local track's subscription: through any sequence of calls in which it joins and leaves rooms
  alternately and receives well-formed media, no call panics, not even the assertions on joining and
  leaving or the rewriting of packets; and what it sends to the cluster subscribes in the room it is in,
  unsubscribes before it subscribes to another source and before it leaves, and ends with a
  subscription exactly when the track is bound to a source.
\<close>
theorem lt_subscription_sessions:
  assumes "admits_run lt_admits lt_step xs (lt_new timer track kind room, [])"
  shows "\<exists>s log. rfold lt_step xs (lt_new timer track kind room, []) = Inr (s, log) \<and>
     sessions {} (lt_ctls (log @ lt_queue s)) = Some (if lt_bind s = None then {} else set_option (lt_room s)) \<and>
     (lt_bind s \<noteq> None \<longrightarrow> lt_room s \<noteq> None)"
proof -
  have wf: "lt_wf (fst (lt_new timer track kind room, []))" by (simp add: lt_wf_def lt_new_def ps_wf_new)
  have init: "lt_held (lt_new timer track kind room) = {}" "lt_queue (lt_new timer track kind room) = []" by (simp_all add: lt_held_def lt_new_def)
  from ltc.run_sessions [OF wf assms] obtain st cs where "rfold lt_step xs (lt_new timer track kind room, []) = Inr st" "lt_wf (fst st)"
    "lt_ctls (snd st @ lt_queue (fst st)) = cs" "sessions {} cs = Some (lt_held (fst st))"
    by (auto simp: init)
  then show ?thesis by (cases st) (auto simp: lt_wf_def lt_held_def)
qed

theorem lt_subscription_sessions_witness:
  "\<exists>s log. rfold lt_step [Lt_Event 0 (Li_JoinRoom 3), Lt_Event 1 (Li_RpcReq 7 (Lrq_Attach \<lparr>tsrc_peer = ''bob'', tsrc_track = ''mic''\<rparr>
         \<lparr>ltc_priority = 1, ltc_max_spatial = 2, ltc_max_temporal = 2, ltc_min_spatial = None, ltc_min_temporal = None\<rparr>)),
       Lt_Pop, Lt_Event 2 Li_LeaveRoom, Lt_Event 3 (Li_Cluster (Cle_Media 9 (build_audio 0 1 None [])))]
     (lt_new (\<lambda>t. t) 5 Audio None, []) = Inr (s, log) \<and>
     sessions {} (lt_ctls (log @ lt_queue s)) = Some (if lt_bind s = None then {} else set_option (lt_room s))"
proof -
  have "admits_run lt_admits lt_step [Lt_Event 0 (Li_JoinRoom 3), Lt_Event 1 (Li_RpcReq 7 (Lrq_Attach \<lparr>tsrc_peer = ''bob'', tsrc_track = ''mic''\<rparr>
         \<lparr>ltc_priority = 1, ltc_max_spatial = 2, ltc_max_temporal = 2, ltc_min_spatial = None, ltc_min_temporal = None\<rparr>)),
       Lt_Pop, Lt_Event 2 Li_LeaveRoom, Lt_Event 3 (Li_Cluster (Cle_Media 9 (build_audio 0 1 None [])))] (lt_new (\<lambda>t. t) 5 Audio None, [])"
    by (simp add: lt_step_def lt_on_event_def lt_new_def lt_on_join_room_def lt_on_rpc_req_def lt_attach_def ps_set_limit_layer_def ps_new_def
        lt_push_def lt_pop_output_def lt_on_leave_room_def pkt_wf_def build_audio_def meta_wf_def Let_def)
      (simp split: sum.split)
  from lt_subscription_sessions [OF this] show ?thesis by blast
qed

text \<open>The allocator is not told when a track leaves its room: an attached video track that leaves keeps
  its share of the egress bitrate.\<close>

theorem lt_leave_keeps_bind:
  assumes "lt_room s = Some room" "lt_bind s = Some (peer, track, status)"
  shows "\<exists>s'. lt_on_leave_room now s = Inr s' \<and> lt_bind s' = None \<and>
     lt_queue s' = lt_queue s @ [Lo_Cluster room Clt_Unsubscribe, Lo_PeerEvent now (Pe_LocalTrackDetach (lt_track s) peer track)]"
  using assms by (simp add: lt_on_leave_room_def lt_push_def)

end
