(* ===== verification/Remote_Track.thy ===== *)
theory Remote_Track
  imports Endpoint_Types
begin

text \<open>
  \<^verbatim>\<open>packages/media_core/src/endpoint/internal/remote_track.rs\<close>: the track on which a client sends
  media. It publishes the track in the room of the endpoint, forwards its media to the cluster and
  to the recorder, and turns the limits of the cluster and of the bitrate allocator into a limit for
  the client.
\<close>

section \<open>The track\<close>

datatype rt_input =
    Ri_JoinRoom room_hash
  | Ri_LeaveRoom
  | Ri_Cluster cluster_remote_track_event
  | Ri_Event remote_track_event
  | Ri_RpcReq nat remote_track_req
  | Ri_BitrateAllocation set_bitrate

datatype rt_output =
    Ro_Event endpoint_remote_track_event
  | Ro_Cluster room_hash cluster_remote_track_control
  | Ro_PeerEvent nat peer_event
  | Ro_RecordEvent nat session_record_event
  | Ro_RpcRes nat remote_track_res
  | Ro_Started media_kind nat
  | Ro_Update media_kind nat
  | Ro_Stopped media_kind

record endpoint_remote_track =
  rt_id :: nat
  rt_meta :: track_meta
  rt_room :: "room_hash option"
  rt_name :: track_name
  rt_queue :: "rt_output list"
  rt_allocate_bitrate :: "nat option"
  rt_last_layers :: "media_layers_bitrate option"
  rt_cluster_bitrate_limit :: "(nat \<times> nat) option"
  rt_record :: bool
  rt_shutdown :: bool

definition rt_new :: "room_hash option \<Rightarrow> nat \<Rightarrow> track_name \<Rightarrow> track_meta \<Rightarrow> bool \<Rightarrow> endpoint_remote_track" where
  "rt_new room i name meta record = \<lparr>rt_id = i, rt_meta = meta, rt_room = room, rt_name = name, rt_queue = [], rt_allocate_bitrate = None,
     rt_last_layers = None, rt_cluster_bitrate_limit = None, rt_record = record, rt_shutdown = False\<rparr>"

definition rt_push :: "rt_output list \<Rightarrow> endpoint_remote_track \<Rightarrow> endpoint_remote_track" where
  "rt_push os s = s\<lparr>rt_queue := rt_queue s @ os\<rparr>"

definition rt_on_join_room :: "nat \<Rightarrow> room_hash \<Rightarrow> endpoint_remote_track \<Rightarrow> endpoint_remote_track run" where
  "rt_on_join_room now room s = rbind (rassert (rt_room s = None)) (\<lambda>_.
     Inr (rt_push ([Ro_Cluster room (Crt_Started (rt_name s) (rt_meta s))] @
       (if rt_record s then [Ro_RecordEvent now (Rec_TrackStarted (rt_id s) (rt_name s) (rt_meta s))] else []) @
       [Ro_PeerEvent now (Pe_RemoteTrackStarted (rt_name s) (tm_kind (rt_meta s)))]) (s\<lparr>rt_room := Some room\<rparr>)))"

text \<open>What both ways of ending a track in a room send.\<close>

definition rt_ended :: "nat \<Rightarrow> room_hash \<Rightarrow> endpoint_remote_track \<Rightarrow> rt_output list" where
  "rt_ended now room s = [Ro_Cluster room (Crt_Ended (rt_name s) (rt_meta s))] @
     (if rt_record s then [Ro_RecordEvent now (Rec_TrackStopped (rt_id s))] else []) @
     [Ro_PeerEvent now (Pe_RemoteTrackEnded (rt_name s) (tm_kind (rt_meta s)))]"

definition rt_on_leave_room :: "nat \<Rightarrow> endpoint_remote_track \<Rightarrow> endpoint_remote_track run" where
  "rt_on_leave_room now s = rbind (rexpect (rt_room s)) (\<lambda>room. Inr (rt_push (rt_ended now room s) (s\<lparr>rt_room := None\<rparr>)))"

definition rt_calc_limit_bitrate :: "endpoint_remote_track \<Rightarrow> (nat \<times> nat) option" where
  "rt_calc_limit_bitrate s =
     (let cluster_limit = (if tm_control (rt_meta s) = DynamicConsumers then rt_cluster_bitrate_limit s else None) in
      case (rt_allocate_bitrate s, cluster_limit) of
        (Some b1, Some (mn, mx)) \<Rightarrow> Some (min mn b1, min mx b1)
      | (Some b1, None) \<Rightarrow> Some (b1, b1)
      | (None, Some (mn, mx)) \<Rightarrow> Some (mn, mx)
      | (None, None) \<Rightarrow> None)"

definition rt_limit :: "endpoint_remote_track \<Rightarrow> rt_output list" where
  "rt_limit s = (case rt_calc_limit_bitrate s of None \<Rightarrow> [] | Some (mn, mx) \<Rightarrow> [Ro_Event (Ert_LimitBitrateBps mn mx)])"

definition rt_on_cluster_event :: "cluster_remote_track_event \<Rightarrow> endpoint_remote_track \<Rightarrow> endpoint_remote_track" where
  "rt_on_cluster_event event s = (case event of
     Cre_RequestKeyFrame \<Rightarrow> rt_push [Ro_Event Ert_RequestKeyFrame] s
   | Cre_LimitBitrate mn mx \<Rightarrow>
       (let s1 = s\<lparr>rt_cluster_bitrate_limit := Some (mn, mx)\<rparr> in
        if tm_control (rt_meta s1) = DynamicConsumers then rt_push (rt_limit s1) s1 else s1))"

text \<open>The layers of a media packet: remembered, and restored on a key frame without them.\<close>

definition rt_restore_layers :: "media_packet \<Rightarrow> endpoint_remote_track \<Rightarrow> endpoint_remote_track \<times> media_packet" where
  "rt_restore_layers media s =
     (let s1 = (if pkt_layers media \<noteq> None then s\<lparr>rt_last_layers := pkt_layers media\<rparr> else s) in
      (s1, if is_video_key (pkt_meta media) \<and> pkt_layers media = None \<and> rt_last_layers s1 \<noteq> None
           then media\<lparr>pkt_layers := rt_last_layers s1\<rparr> else media))"

definition rt_on_transport_event :: "nat \<Rightarrow> remote_track_event \<Rightarrow> endpoint_remote_track \<Rightarrow> endpoint_remote_track" where
  "rt_on_transport_event now event s = (case event of
     Rte_Started name priority meta \<Rightarrow>
       (case rt_room s of None \<Rightarrow> s
        | Some room \<Rightarrow> rt_push ([Ro_Cluster room (Crt_Started name (rt_meta s)), Ro_Started (tm_kind (rt_meta s)) priority] @
            (if rt_record s then [Ro_RecordEvent now (Rec_TrackStarted (rt_id s) name (rt_meta s))] else []) @
            [Ro_PeerEvent now (Pe_RemoteTrackStarted name (tm_kind meta))]) s)
   | Rte_Paused \<Rightarrow> s
   | Rte_Resumed \<Rightarrow> s
   | Rte_Media media \<Rightarrow>
       (case rt_restore_layers media s of (s1, media1) \<Rightarrow>
         (let s2 = (if rt_record s1 then rt_push [Ro_RecordEvent now (Rec_TrackMedia (rt_id s1) media1)] s1 else s1) in
          case rt_room s2 of None \<Rightarrow> s2 | Some room \<Rightarrow> rt_push [Ro_Cluster room (Crt_Media media1)] s2))
   | Rte_Ended \<Rightarrow>
       (case rt_room s of None \<Rightarrow> s | Some room \<Rightarrow> (rt_push (rt_ended now room s) s)\<lparr>rt_shutdown := True\<rparr>))"

definition rt_on_rpc_req :: "nat \<Rightarrow> remote_track_req \<Rightarrow> endpoint_remote_track \<Rightarrow> endpoint_remote_track" where
  "rt_on_rpc_req req_id req s = (case req of Rrq_Config config \<Rightarrow>
     if rtc_priority config = 0 then rt_push [Ro_RpcRes req_id (Rrs_Config (Inl RemoteTrackInvalidPriority))] s
     else rt_push [Ro_RpcRes req_id (Rrs_Config (Inr ())), Ro_Update (tm_kind (rt_meta s)) (rtc_priority config)]
            (s\<lparr>rt_meta := (rt_meta s)\<lparr>tm_control := rtc_control config\<rparr>\<rparr>))"

definition rt_on_bitrate_allocation_action :: "set_bitrate \<Rightarrow> endpoint_remote_track \<Rightarrow> endpoint_remote_track" where
  "rt_on_bitrate_allocation_action act s = (case act of SetBitrate bitrate \<Rightarrow>
     (let s1 = s\<lparr>rt_allocate_bitrate := Some bitrate\<rparr> in rt_push (rt_limit s1) s1))"

definition rt_on_event :: "nat \<Rightarrow> rt_input \<Rightarrow> endpoint_remote_track \<Rightarrow> endpoint_remote_track run" where
  "rt_on_event now input s = (case input of
     Ri_JoinRoom room \<Rightarrow> rt_on_join_room now room s
   | Ri_LeaveRoom \<Rightarrow> rt_on_leave_room now s
   | Ri_Cluster event \<Rightarrow> Inr (rt_on_cluster_event event s)
   | Ri_Event event \<Rightarrow> Inr (rt_on_transport_event now event s)
   | Ri_RpcReq req_id req \<Rightarrow> Inr (rt_on_rpc_req req_id req s)
   | Ri_BitrateAllocation act \<Rightarrow> Inr (rt_on_bitrate_allocation_action act s))"

definition rt_on_tick :: "nat \<Rightarrow> endpoint_remote_track \<Rightarrow> endpoint_remote_track" where
  "rt_on_tick now s = s"

definition rt_on_shutdown :: "nat \<Rightarrow> endpoint_remote_track \<Rightarrow> endpoint_remote_track run" where
  "rt_on_shutdown now s = (if rt_shutdown s then Inr s else
     (let s1 = s\<lparr>rt_shutdown := True\<rparr> in if rt_room s1 \<noteq> None then rt_on_leave_room now s1 else Inr s1))"

definition rt_is_empty :: "endpoint_remote_track \<Rightarrow> bool" where
  "rt_is_empty s \<longleftrightarrow> rt_shutdown s \<and> rt_queue s = []"

definition rt_empty_event :: "endpoint_remote_track \<Rightarrow> rt_output" where
  "rt_empty_event s = Ro_Stopped (tm_kind (rt_meta s))"

definition rt_pop_output :: "endpoint_remote_track \<Rightarrow> endpoint_remote_track \<times> rt_output option" where
  "rt_pop_output s = (case rt_queue s of [] \<Rightarrow> (s, None) | x # q \<Rightarrow> (s\<lparr>rt_queue := q\<rparr>, Some x))"

definition rt_drop :: "endpoint_remote_track \<Rightarrow> unit run" where
  "rt_drop s = rassert (rt_queue s = [])"

section \<open>Runs\<close>

datatype rt_op = Rt_Event nat rt_input | Rt_Tick nat | Rt_Shutdown nat | Rt_Pop

type_synonym rt_run_state = "endpoint_remote_track \<times> rt_output list"

definition rt_step :: "rt_op \<Rightarrow> rt_run_state \<Rightarrow> rt_run_state run" where
  "rt_step x = (\<lambda>(s, log). case x of
     Rt_Event now input \<Rightarrow> rbind (rt_on_event now input s) (\<lambda>s1. Inr (s1, log))
   | Rt_Tick now \<Rightarrow> Inr (rt_on_tick now s, log)
   | Rt_Shutdown now \<Rightarrow> rbind (rt_on_shutdown now s) (\<lambda>s1. Inr (s1, log))
   | Rt_Pop \<Rightarrow> (case rt_pop_output s of (s1, None) \<Rightarrow> Inr (s1, log) | (s1, Some q) \<Rightarrow> Inr (s1, log @ [q])))"

text \<open>The endpoint creates a track for the transport's event that starts it, and passes the event on.\<close>

definition rt_start :: "nat \<Rightarrow> room_hash option \<Rightarrow> nat \<Rightarrow> track_name \<Rightarrow> nat \<Rightarrow> track_meta \<Rightarrow> bool \<Rightarrow> endpoint_remote_track" where
  "rt_start now room i name priority meta record = rt_on_transport_event now (Rte_Started name priority meta) (rt_new room i name meta record)"

fun rt_act :: "rt_output \<Rightarrow> (room_hash \<times> session_act) option" where
  "rt_act (Ro_Cluster room (Crt_Started _ _)) = Some (room, Opens)"
| "rt_act (Ro_Cluster room (Crt_Media _)) = Some (room, Uses)"
| "rt_act (Ro_Cluster room (Crt_Ended _ _)) = Some (room, Closes)"
| "rt_act _ = None"

definition rt_ctls :: "rt_output list \<Rightarrow> (room_hash \<times> session_act) list" where
  "rt_ctls = List.map_filter rt_act"

definition rt_held :: "endpoint_remote_track \<Rightarrow> room_hash set" where
  "rt_held s = (if rt_shutdown s then {} else set_option (rt_room s))"

text \<open>The transport starts a track once and ends it once; rooms are joined and left alternately; a track
  that has ended hears nothing of rooms and media any more.\<close>

fun rt_admits :: "rt_op \<Rightarrow> rt_run_state \<Rightarrow> bool" where
  "rt_admits (Rt_Event _ (Ri_JoinRoom _)) (s, _) \<longleftrightarrow> \<not> rt_shutdown s \<and> rt_room s = None"
| "rt_admits (Rt_Event _ Ri_LeaveRoom) (s, _) \<longleftrightarrow> \<not> rt_shutdown s \<and> rt_room s \<noteq> None"
| "rt_admits (Rt_Event _ (Ri_Event (Rte_Started _ _ _))) (s, _) \<longleftrightarrow> False"
| "rt_admits (Rt_Event _ (Ri_Event _)) (s, _) \<longleftrightarrow> \<not> rt_shutdown s"
| "rt_admits _ _ \<longleftrightarrow> True"

lemma rt_ctls_append [simp]: "rt_ctls (xs @ ys) = rt_ctls xs @ rt_ctls ys"
  by (simp add: rt_ctls_def List.map_filter_def)

lemma rt_ctls_simps [simp]: "rt_ctls [] = []" "rt_ctls (x # xs) = (case rt_act x of None \<Rightarrow> rt_ctls xs | Some c \<Rightarrow> c # rt_ctls xs)"
  by (simp_all add: rt_ctls_def List.map_filter_def split: option.split)

lemma rt_push_simps [simp]:
  "rt_queue (rt_push os s) = rt_queue s @ os" "rt_room (rt_push os s) = rt_room s" "rt_shutdown (rt_push os s) = rt_shutdown s"
  "rt_record (rt_push os s) = rt_record s" "rt_name (rt_push os s) = rt_name s" "rt_meta (rt_push os s) = rt_meta s" "rt_id (rt_push os s) = rt_id s"
  by (simp_all add: rt_push_def)

lemma rt_outputs [simp]: "rt_ctls (rt_ended now room s) = [(room, Closes)]" "rt_ctls (rt_limit s) = []"
  by (auto simp: rt_ended_def rt_limit_def split: option.split)

definition rt_moves :: "endpoint_remote_track \<Rightarrow> endpoint_remote_track \<Rightarrow> bool" where
  "rt_moves s s' \<longleftrightarrow> rt_name s' = rt_name s \<and> (\<exists>os. rt_queue s' = rt_queue s @ os \<and> sessions (rt_held s) (rt_ctls os) = Some (rt_held s'))"

lemmas rt_unfold = rt_moves_def rt_held_def rt_on_event_def

lemma rt_leave_moves:
  assumes "\<not> rt_shutdown s" "rt_room s \<noteq> None"
  shows "\<exists>s'. rt_on_leave_room now s = Inr s' \<and> rt_moves s s'"
  using assms by (auto simp: rt_on_leave_room_def rt_unfold)

lemma rt_transport_moves:
  assumes "rt_admits (Rt_Event now (Ri_Event event)) (s, log)"
  shows "rt_moves s (rt_on_transport_event now event s)"
proof (cases event)
  case (Rte_Media media)
  obtain s1 m where r: "rt_restore_layers media s = (s1, m)" by fastforce
  then have "rt_queue s1 = rt_queue s" "rt_room s1 = rt_room s" "rt_shutdown s1 = rt_shutdown s" "rt_name s1 = rt_name s"
    by (auto simp: rt_restore_layers_def Let_def split: if_splits)
  then show ?thesis using assms r Rte_Media by (cases "rt_room s") (auto simp: rt_on_transport_event_def rt_unfold Let_def)
next
  case Rte_Ended
  then show ?thesis using assms by (cases "rt_room s") (auto simp: rt_on_transport_event_def rt_unfold)
qed (use assms in \<open>auto simp: rt_on_transport_event_def rt_unfold\<close>)

lemma rt_event_moves:
  assumes "rt_admits (Rt_Event now input) (s, log)"
  shows "\<exists>s'. rt_on_event now input s = Inr s' \<and> rt_moves s s'"
proof (cases input)
  case (Ri_JoinRoom room)
  then show ?thesis using assms by (auto simp: rt_on_join_room_def rt_unfold)
next
  case Ri_LeaveRoom
  then show ?thesis using assms rt_leave_moves [of s now] by (simp add: rt_on_event_def)
next
  case (Ri_Cluster event)
  then show ?thesis by (cases event) (auto simp: rt_on_cluster_event_def rt_unfold Let_def)
next
  case (Ri_Event event)
  then show ?thesis using rt_transport_moves [of now event s log] assms by (simp add: rt_on_event_def)
next
  case (Ri_RpcReq req_id req)
  then show ?thesis by (cases req) (auto simp: rt_on_rpc_req_def rt_unfold)
next
  case (Ri_BitrateAllocation act)
  then show ?thesis by (cases act) (auto simp: rt_on_bitrate_allocation_action_def rt_unfold Let_def)
qed

lemma rt_shutdown_moves: "\<exists>s'. rt_on_shutdown now s = Inr s' \<and> rt_moves s s'"
  by (cases "rt_shutdown s"; cases "rt_room s") (auto simp: rt_on_shutdown_def rt_on_leave_room_def rt_unfold Let_def)

lemma rt_step_sessions:
  assumes "rt_admits x st"
  shows "\<exists>st' cs. rt_step x st = Inr st' \<and> rt_name (fst st') = rt_name (fst st) \<and>
     rt_ctls (snd st' @ rt_queue (fst st')) = rt_ctls (snd st @ rt_queue (fst st)) @ cs \<and> sessions (rt_held (fst st)) cs = Some (rt_held (fst st'))"
proof -
  obtain s log where st: "st = (s, log)" by (cases st)
  have moves: "\<exists>st' cs. Inr (s', log) = Inr st' \<and> rt_name (fst st') = rt_name (fst st) \<and>
     rt_ctls (snd st' @ rt_queue (fst st')) = rt_ctls (snd st @ rt_queue (fst st)) @ cs \<and> sessions (rt_held (fst st)) cs = Some (rt_held (fst st'))"
    if "rt_moves s s'" for s' using that by (auto simp: st rt_moves_def)
  show ?thesis
  proof (cases x)
    case (Rt_Event now input)
    then show ?thesis using rt_event_moves [of now input s log] assms moves by (auto simp: st rt_step_def)
  next
    case (Rt_Tick now)
    then show ?thesis by (simp add: st rt_step_def rt_on_tick_def)
  next
    case (Rt_Shutdown now)
    then show ?thesis using rt_shutdown_moves [of now s] moves by (auto simp: st rt_step_def)
  next
    case Rt_Pop
    then show ?thesis by (cases "rt_queue s") (auto simp: st rt_step_def rt_pop_output_def rt_held_def split: option.splits)
  qed
qed

interpretation rtc: session_client rt_step "\<lambda>st. rt_ctls (snd st @ rt_queue (fst st))" "\<lambda>st. rt_held (fst st)" "\<lambda>st. rt_name (fst st) = name" rt_admits
  for name :: track_name
  by unfold_locales (use rt_step_sessions in auto)

text \<open>
  C11. A remote track's publication: whenever the endpoint joins and leaves rooms alternately and the
  transport ends a track at most once, no call panics, and what the track sends to the cluster starts it
  in the room of the endpoint before any of its media, ends it exactly once before the endpoint leaves or
  when the transport ends it, and sends no media after that.
\<close>
theorem rt_publication_sessions:
  assumes "admits_run rt_admits rt_step xs (rt_start now room i name priority meta record, [])"
  shows "\<exists>s log. rfold rt_step xs (rt_start now room i name priority meta record, []) = Inr (s, log) \<and>
     sessions {} (rt_ctls (log @ rt_queue s)) = Some (if rt_shutdown s then {} else set_option (rt_room s))"
proof -
  let ?s = "rt_start now room i name priority meta record"
  have s: "rt_name ?s = name" "sessions {} (rt_ctls (rt_queue ?s)) = Some (rt_held ?s)"
    by (auto simp: rt_start_def rt_on_transport_event_def rt_new_def rt_held_def split: option.split)
  from rtc.run_sessions [OF _ assms, of name] s(1) obtain st cs where run: "rfold rt_step xs (?s, []) = Inr st"
    "rt_ctls (snd st @ rt_queue (fst st)) = rt_ctls (rt_queue ?s) @ cs" "sessions (rt_held ?s) cs = Some (rt_held (fst st))" by auto
  then have "sessions {} (rt_ctls (snd st @ rt_queue (fst st))) = Some (rt_held (fst st))" using s(2) by (simp add: sessions_append)
  then show ?thesis using run(1) by (cases st) (simp add: rt_held_def)
qed

theorem rt_publication_sessions_witness:
  "\<exists>s log. rfold rt_step [Rt_Event 1 (Ri_Event (Rte_Media (build_audio 0 1 None []))), Rt_Event 2 Ri_LeaveRoom, Rt_Pop,
       Rt_Event 3 (Ri_JoinRoom 4), Rt_Event 4 (Ri_Event Rte_Ended)] (rt_start 0 (Some 3) 5 ''mic'' 1 default_audio True, []) = Inr (s, log) \<and>
     sessions {} (rt_ctls (log @ rt_queue s)) = Some (if rt_shutdown s then {} else set_option (rt_room s))"
proof -
  have "admits_run rt_admits rt_step [Rt_Event 1 (Ri_Event (Rte_Media (build_audio 0 1 None []))), Rt_Event 2 Ri_LeaveRoom, Rt_Pop,
       Rt_Event 3 (Ri_JoinRoom 4), Rt_Event 4 (Ri_Event Rte_Ended)] (rt_start 0 (Some 3) 5 ''mic'' 1 default_audio True, [])"
    by (simp add: rt_step_def rt_on_event_def rt_start_def rt_new_def rt_on_transport_event_def rt_restore_layers_def build_audio_def rt_push_def
        rt_on_leave_room_def rt_pop_output_def rt_on_join_room_def rt_ended_def default_audio_def)
  from rt_publication_sessions [OF this] show ?thesis by blast
qed

text \<open>A track that the transport ends while the endpoint is in no room stays: it is published when the
  endpoint joins a room.\<close>

theorem rt_ended_track_published:
  assumes "rt_room s = None"
  shows "rt_on_transport_event now Rte_Ended s = s \<and>
    (\<exists>s'. rt_on_join_room later room (rt_on_transport_event now Rte_Ended s) = Inr s' \<and> \<not> rt_is_empty s' \<and>
       Ro_Cluster room (Crt_Started (rt_name s) (rt_meta s)) \<in> set (rt_queue s'))"
  using assms by (simp add: rt_on_transport_event_def rt_on_join_room_def rt_push_def rt_is_empty_def)

text \<open>The bitrate limit sent to the client never exceeds what the allocator gave to the track.\<close>

lemma rt_limit_allocated: "rt_calc_limit_bitrate s = Some (mn, mx) \<Longrightarrow> rt_allocate_bitrate s = Some b \<Longrightarrow> mn \<le> b \<and> mx \<le> b"
  by (auto simp: rt_calc_limit_bitrate_def Let_def split: option.splits if_splits)

end
