(* ===== verification/Endpoint_Internal.thy ===== *)
theory Endpoint_Internal
  imports Local_Track Remote_Track Index_Map_2d Room_Audio_Mixer
begin

text \<open>
  \<^verbatim>\<open>packages/media_core/src/endpoint/internal.rs\<close>: the hub of an endpoint, which owns its local and
  remote tracks and its bitrate allocator, handles the requests of the client and the events of the
  transport, and moves the endpoint between rooms.

  The tracks live in task groups of the runtime library, tables by index in which the index of a new
  task is an argument. What the library does with an event for an index that holds no task is the
  parameter \<open>ee_ignore_absent\<close>: it is ignored or it panics. The loops that poll the children until
  nothing is left run along a schedule, the list of children in the order in which the library's
  switcher names them, which is an argument too. A schedule that ends before the children are empty
  gives \<open>Loop_Unfinished\<close>; \<open>ei_schedule_exists\<close> shows that a schedule that suffices always exists.
\<close>

section \<open>Parameters and state\<close>

record 'f endpoint_env =
  ee_cluster :: "'f cluster_env"
  ee_ignore_absent :: bool
  ee_timer :: "nat \<Rightarrow> nat"

definition tg_event :: "bool \<Rightarrow> nat \<Rightarrow> ('t \<Rightarrow> 't run) \<Rightarrow> (nat, 't) imap \<Rightarrow> (nat, 't) imap run" where
  "tg_event ignore i f ts = (case im_get ts i of None \<Rightarrow> if ignore then Inr ts else Inl Explicit_Panic
     | Some t \<Rightarrow> rbind (f t) (\<lambda>t'. Inr (im_insert i t' ts)))"

datatype internal_output =
    Io_Event endpoint_event
  | Io_PeerEvent nat peer_event
  | Io_RecordEvent nat session_record_event
  | Io_RpcRes nat endpoint_res
  | Io_Cluster room_hash cluster_endpoint_control
  | Io_OnResourceEmpty

type_synonym wait_join = "(nat \<times> string \<times> peer_id \<times> peer_meta \<times> room_info_publish \<times> room_info_subscribe \<times> audio_mixer_config option) option"

record endpoint_internal =
  ei_cfg :: endpoint_cfg
  ei_state :: "(nat \<times> transport_state) option"
  ei_wait_join :: wait_join
  ei_joined :: "(room_hash \<times> string \<times> peer_id \<times> audio_mixer_mode option) option"
  ei_local_tracks_id :: "(nat, nat) index_map_2d"
  ei_remote_tracks_id :: "(nat, nat) index_map_2d"
  ei_local_tracks :: "(nat, endpoint_local_track) imap"
  ei_remote_tracks :: "(nat, endpoint_remote_track) imap"
  ei_bitrate_allocator :: bitrate_allocator
  ei_queue :: "internal_output list"
  ei_shutdown :: bool

definition ei_new :: "endpoint_cfg \<Rightarrow> endpoint_internal" where
  "ei_new cfg = \<lparr>ei_cfg = cfg, ei_state = None, ei_wait_join = None, ei_joined = None, ei_local_tracks_id = im2_default,
     ei_remote_tracks_id = im2_default, ei_local_tracks = [], ei_remote_tracks = [],
     ei_bitrate_allocator = ba_new (ec_max_ingress_bitrate cfg) (ec_max_ingress_bitrate cfg), ei_queue = [], ei_shutdown = False\<rparr>"

definition ei_push :: "internal_output list \<Rightarrow> endpoint_internal \<Rightarrow> endpoint_internal" where
  "ei_push os s = s\<lparr>ei_queue := ei_queue s @ os\<rparr>"

definition ei_local :: "'f endpoint_env \<Rightarrow> nat \<Rightarrow> nat \<Rightarrow> lt_input \<Rightarrow> endpoint_internal \<Rightarrow> endpoint_internal run" where
  "ei_local env now index input s = rbind (tg_event (ee_ignore_absent env) index (lt_on_event now input) (ei_local_tracks s))
     (\<lambda>ts. Inr (s\<lparr>ei_local_tracks := ts\<rparr>))"

definition ei_remote :: "'f endpoint_env \<Rightarrow> nat \<Rightarrow> nat \<Rightarrow> rt_input \<Rightarrow> endpoint_internal \<Rightarrow> endpoint_internal run" where
  "ei_remote env now index input s = rbind (tg_event (ee_ignore_absent env) index (rt_on_event now input) (ei_remote_tracks s))
     (\<lambda>ts. Inr (s\<lparr>ei_remote_tracks := ts\<rparr>))"

definition ei_allocator :: "(bitrate_allocator \<Rightarrow> bitrate_allocator) \<Rightarrow> endpoint_internal \<Rightarrow> endpoint_internal" where
  "ei_allocator f s = s\<lparr>ei_bitrate_allocator := f (ei_bitrate_allocator s)\<rparr>"

section \<open>Polling the children\<close>

definition ei_on_remote_output :: "nat \<Rightarrow> rt_output \<Rightarrow> endpoint_internal \<Rightarrow> endpoint_internal run" where
  "ei_on_remote_output index out s = rbind (rexpect (im2_get2 (ei_remote_tracks_id s) index)) (\<lambda>i. case out of
     Ro_Event event \<Rightarrow> Inr (ei_push [Io_Event (Ev_RemoteMediaTrack i event)] s)
   | Ro_Cluster room control \<Rightarrow> Inr (ei_push [Io_Cluster room (Cec_RemoteTrack i control)] s)
   | Ro_RpcRes req_id res \<Rightarrow> Inr (ei_push [Io_RpcRes req_id (Ers_RemoteTrack i res)] s)
   | Ro_Started kind priority \<Rightarrow> Inr (if kind_is_video kind then ei_allocator (ba_set_ingress_video_track i priority) s else s)
   | Ro_Update kind priority \<Rightarrow> Inr (if kind_is_video kind then ei_allocator (ba_set_ingress_video_track i priority) s else s)
   | Ro_Stopped kind \<Rightarrow>
       (let s1 = (if kind_is_video kind then ei_allocator (ba_del_ingress_video_track i) s else s) in
        rbind (case im_get (ei_remote_tracks s1) index of None \<Rightarrow> Inr () | Some t \<Rightarrow> rt_drop t) (\<lambda>_.
        Inr (s1\<lparr>ei_remote_tracks := im_swap_remove index (ei_remote_tracks s1)\<rparr>)))
   | Ro_PeerEvent ts event \<Rightarrow> Inr (ei_push [Io_PeerEvent ts event] s)
   | Ro_RecordEvent ts event \<Rightarrow> Inr (ei_push [Io_RecordEvent ts event] s))"

definition ei_pop_remote_tracks :: "nat \<Rightarrow> endpoint_internal \<Rightarrow> endpoint_internal run" where
  "ei_pop_remote_tracks index s = (case im_get (ei_remote_tracks s) index of None \<Rightarrow> Inr s
     | Some t \<Rightarrow> if rt_is_empty t then ei_on_remote_output index (rt_empty_event t) s
         else (case rt_pop_output t of (_, None) \<Rightarrow> Inr s
           | (t', Some out) \<Rightarrow> ei_on_remote_output index out (s\<lparr>ei_remote_tracks := im_insert index t' (ei_remote_tracks s)\<rparr>)))"

definition ei_on_local_output :: "nat \<Rightarrow> lt_output \<Rightarrow> endpoint_internal \<Rightarrow> endpoint_internal run" where
  "ei_on_local_output index out s = rbind (rexpect (im2_get2 (ei_local_tracks_id s) index)) (\<lambda>i. case out of
     Lo_Event event \<Rightarrow> Inr (ei_push [Io_Event (Ev_LocalMediaTrack i event)] s)
   | Lo_Cluster room control \<Rightarrow> Inr (ei_push [Io_Cluster room (Cec_LocalTrack i control)] s)
   | Lo_RpcRes req_id res \<Rightarrow> Inr (ei_push [Io_RpcRes req_id (Ers_LocalTrack i res)] s)
   | Lo_Bind kind priority \<Rightarrow> Inr (if kind_is_video kind then ei_allocator (ba_set_egress_video_track i priority) s else s)
   | Lo_Updated kind priority \<Rightarrow> Inr (if kind_is_video kind then ei_allocator (ba_set_egress_video_track i priority) s else s)
   | Lo_Unbind kind \<Rightarrow> Inr (if kind_is_video kind then ei_allocator (ba_del_egress_video_track i) s else s)
   | Lo_PeerEvent ts event \<Rightarrow> Inr (ei_push [Io_PeerEvent ts event] s)
   | Lo_OnResourceEmpty \<Rightarrow>
       rbind (case im_get (ei_local_tracks s) index of None \<Rightarrow> Inr () | Some t \<Rightarrow> lt_drop t) (\<lambda>_.
       Inr (s\<lparr>ei_local_tracks := im_swap_remove index (ei_local_tracks s), ei_local_tracks_id := fst (im2_remove1 i (ei_local_tracks_id s))\<rparr>)))"

definition ei_pop_local_tracks :: "nat \<Rightarrow> endpoint_internal \<Rightarrow> endpoint_internal run" where
  "ei_pop_local_tracks index s = (case im_get (ei_local_tracks s) index of None \<Rightarrow> Inr s
     | Some t \<Rightarrow> if lt_is_empty t then ei_on_local_output index Lo_OnResourceEmpty s
         else (case lt_pop_output t of (_, None) \<Rightarrow> Inr s
           | (t', Some out) \<Rightarrow> ei_on_local_output index out (s\<lparr>ei_local_tracks := im_insert index t' (ei_local_tracks s)\<rparr>)))"

definition ei_pop_bitrate_allocator :: "'f endpoint_env \<Rightarrow> nat \<Rightarrow> endpoint_internal \<Rightarrow> endpoint_internal run" where
  "ei_pop_bitrate_allocator env now s = (case ba_pop_output (ei_bitrate_allocator s) of (ba, out) \<Rightarrow>
     (let s1 = s\<lparr>ei_bitrate_allocator := ba\<rparr> in case out of
        None \<Rightarrow> Inr s1
      | Some (Ba_RemoteTrack track act) \<Rightarrow> (case im2_get1 (ei_remote_tracks_id s1) track of None \<Rightarrow> Inr s1
          | Some index \<Rightarrow> ei_remote env now index (Ri_BitrateAllocation act) s1)
      | Some (Ba_LocalTrack track act) \<Rightarrow> (case im2_get1 (ei_local_tracks_id s1) track of None \<Rightarrow> Inr s1
          | Some index \<Rightarrow> ei_local env now index (Li_BitrateAllocation act) s1)
      | Some (Ba_BweConfig current desired) \<Rightarrow> Inr (ei_push [Io_Event (Ev_BweConfig current desired)] s1)))"

datatype ei_child = Ch_BitrateAllocator | Ch_LocalTracks nat | Ch_RemoteTracks nat

definition ei_poll :: "'f endpoint_env \<Rightarrow> nat \<Rightarrow> ei_child \<Rightarrow> endpoint_internal \<Rightarrow> endpoint_internal run" where
  "ei_poll env now c s = (case c of Ch_BitrateAllocator \<Rightarrow> ei_pop_bitrate_allocator env now s
     | Ch_LocalTracks index \<Rightarrow> ei_pop_local_tracks index s
     | Ch_RemoteTracks index \<Rightarrow> ei_pop_remote_tracks index s)"

definition ei_drained :: "endpoint_internal \<Rightarrow> bool" where
  "ei_drained s \<longleftrightarrow> ba_pending (ei_bitrate_allocator s) = 0 \<and> (\<forall>(_, t)\<in>set (ei_local_tracks s). lt_queue t = [] \<and> \<not> lt_shutdown t) \<and>
     (\<forall>(_, t)\<in>set (ei_remote_tracks s). rt_queue t = [] \<and> \<not> rt_shutdown t)"

fun ei_poll_all :: "'f endpoint_env \<Rightarrow> nat \<Rightarrow> ei_child list \<Rightarrow> endpoint_internal \<Rightarrow> endpoint_internal run" where
  "ei_poll_all env now sched s = (if ei_drained s then Inr s else
     (case sched of [] \<Rightarrow> Inl Loop_Unfinished | c # cs \<Rightarrow> rbind (ei_poll env now c s) (ei_poll_all env now cs)))"

declare ei_poll_all.simps [simp del]

section \<open>Rooms\<close>

definition ei_on_tick :: "nat \<Rightarrow> endpoint_internal \<Rightarrow> endpoint_internal run" where
  "ei_on_tick now s = rbind (tg_run_all (\<lambda>t. Inr (lt_on_tick now t)) (ei_local_tracks s)) (\<lambda>ls.
     rbind (tg_run_all (\<lambda>t. Inr (rt_on_tick now t)) (ei_remote_tracks s)) (\<lambda>rs.
     Inr ((ei_allocator ba_on_tick s)\<lparr>ei_local_tracks := ls, ei_remote_tracks := rs\<rparr>)))"

text \<open>What leaving a room sends, after the children have been emptied.\<close>

definition ei_left :: "nat \<Rightarrow> room_hash \<Rightarrow> string \<Rightarrow> peer_id \<Rightarrow> endpoint_internal \<Rightarrow> endpoint_internal" where
  "ei_left now hash room peer s = ei_push ([Io_Cluster hash Cec_Leave] @ (if ec_record (ei_cfg s) then [Io_RecordEvent now Rec_LeaveRoom] else []) @
     [Io_PeerEvent now (Pe_Leave room peer)]) s"

definition ei_on_shutdown :: "'f endpoint_env \<Rightarrow> nat \<Rightarrow> ei_child list \<Rightarrow> endpoint_internal \<Rightarrow> endpoint_internal run" where
  "ei_on_shutdown env now sched s = (if ei_shutdown s then Inr s else
     rbind (tg_run_all (lt_on_shutdown now) (ei_local_tracks s)) (\<lambda>ls.
     rbind (tg_run_all (rt_on_shutdown now) (ei_remote_tracks s)) (\<lambda>rs.
     rbind (ei_poll_all env now sched (s\<lparr>ei_shutdown := True, ei_local_tracks := ls, ei_remote_tracks := rs\<rparr>)) (\<lambda>s1.
     case ei_joined s1 of None \<Rightarrow> Inr s1
     | Some (hash, room, peer, _) \<Rightarrow> Inr (ei_left now hash room peer (s1\<lparr>ei_joined := None\<rparr>))))))"

definition ei_leave_room :: "'f endpoint_env \<Rightarrow> nat \<Rightarrow> ei_child list \<Rightarrow> endpoint_internal \<Rightarrow> endpoint_internal run" where
  "ei_leave_room env now sched s = (case ei_joined s of None \<Rightarrow> Inr s
     | Some (hash, room, peer, _) \<Rightarrow>
       rbind (rfold (\<lambda>(_, index). ei_local env now index Li_LeaveRoom) (im2_pairs (ei_local_tracks_id s)) (s\<lparr>ei_joined := None\<rparr>)) (\<lambda>s1.
       rbind (rfold (\<lambda>(_, index). ei_remote env now index Ri_LeaveRoom) (im2_pairs (ei_remote_tracks_id s1)) s1) (\<lambda>s2.
       rbind (ei_poll_all env now sched s2) (\<lambda>s3. Inr (ei_left now hash room peer s3)))))"

definition ei_join_room :: "'f endpoint_env \<Rightarrow> nat \<Rightarrow> ei_child list \<Rightarrow> nat \<Rightarrow> string \<Rightarrow> peer_id \<Rightarrow> peer_meta \<Rightarrow> room_info_publish \<Rightarrow>
    room_info_subscribe \<Rightarrow> audio_mixer_config option \<Rightarrow> endpoint_internal \<Rightarrow> endpoint_internal run" where
  "ei_join_room env now sched req_id room peer meta publish subscribe mixer s =
     (let room_hash = room_hash_generate (ee_cluster env) (ec_app (ei_cfg s)) room in
      rbind (ei_leave_room env now sched (ei_push [Io_RpcRes req_id (Ers_JoinRoom (Inr ()))] s)) (\<lambda>s1.
      let s2 = ei_push ([Io_Cluster room_hash (Cec_Join peer meta publish subscribe mixer)] @
            (if ec_record (ei_cfg s1) then [Io_RecordEvent now (Rec_JoinRoom (ec_app (ei_cfg s1)) room peer)] else []) @
            [Io_PeerEvent now (Pe_Join room peer)]) (s1\<lparr>ei_joined := Some (room_hash, room, peer, map_option amc_mode mixer)\<rparr>) in
      rbind (rfold (\<lambda>(_, index). ei_local env now index (Li_JoinRoom room_hash)) (im2_pairs (ei_local_tracks_id s2)) s2) (\<lambda>s3.
      rfold (\<lambda>(_, index). ei_remote env now index (Ri_JoinRoom room_hash)) (im2_pairs (ei_remote_tracks_id s3)) s3)))"

section \<open>Events of the transport\<close>

text \<open>\<^verbatim>\<open>(pre_ts - now).as_millis() as u32\<close>: the subtraction of instants saturates at zero.\<close>

definition after_ms :: "nat \<Rightarrow> nat \<Rightarrow> nat" where
  "after_ms pre_ts now = as_u32 ((pre_ts - now) div 1000000)"

definition ei_on_transport_state_changed :: "'f endpoint_env \<Rightarrow> nat \<Rightarrow> ei_child list \<Rightarrow> transport_state \<Rightarrow> endpoint_internal \<Rightarrow> endpoint_internal run" where
  "ei_on_transport_state_changed env now sched st s =
     (let pre_state = ei_state s; s0 = s\<lparr>ei_state := Some (now, st)\<rparr> in case st of
        Tst_New \<Rightarrow> Inr s0
      | Tst_Connecting ip \<Rightarrow> Inr (ei_push [Io_PeerEvent now (Pe_Connecting ip)] s0)
      | Tst_ConnectError _ \<Rightarrow> rbind (rexpect pre_state) (\<lambda>(pre_ts, _).
          ei_on_shutdown env now sched (ei_push [Io_PeerEvent now (Pe_ConnectError (after_ms pre_ts now) 0)] s0))
      | Tst_Connected ip \<Rightarrow> rbind (rexpect pre_state) (\<lambda>(pre_ts, pre_event).
          let s1 = ei_push [Io_PeerEvent now (case pre_event of Tst_Reconnecting _ \<Rightarrow> Pe_Reconnected (after_ms pre_ts now) ip
                | _ \<Rightarrow> Pe_Connected (after_ms pre_ts now) ip)] s0 in
          case ei_wait_join s1 of None \<Rightarrow> Inr s1
          | Some (req_id, room, peer, meta, publish, subscribe, mixer) \<Rightarrow>
              ei_join_room env now sched req_id room peer meta publish subscribe mixer (s1\<lparr>ei_wait_join := None\<rparr>))
      | Tst_Reconnecting ip \<Rightarrow> Inr (ei_push [Io_PeerEvent now (Pe_Reconnect ip)] s0)
      | Tst_Disconnected _ \<Rightarrow>
          ei_on_shutdown env now sched (ei_push ([Io_PeerEvent now (Pe_Disconnected 0 0)] @
            (if ec_record (ei_cfg s0) then [Io_RecordEvent now Rec_Disconnected] else [])) s0))"

text \<open>\<open>index\<close> is the place of a track that is created.\<close>

definition ei_on_transport_remote_track :: "'f endpoint_env \<Rightarrow> nat \<Rightarrow> nat \<Rightarrow> nat \<Rightarrow> remote_track_event \<Rightarrow> endpoint_internal \<Rightarrow> endpoint_internal run" where
  "ei_on_transport_remote_track env now index track event s =
     (let s1 = (case rte_need_create event of None \<Rightarrow> s
        | Some (name, _, meta) \<Rightarrow> s\<lparr>ei_remote_tracks := im_insert index (rt_new (map_option fst (ei_joined s)) track name meta (ec_record (ei_cfg s))) (ei_remote_tracks s),
            ei_remote_tracks_id := im2_insert track index (ei_remote_tracks_id s)\<rparr>) in
      case im2_get1 (ei_remote_tracks_id s1) track of None \<Rightarrow> Inr s1 | Some i \<Rightarrow> ei_remote env now i (Ri_Event event) s1)"

definition ei_on_transport_local_track :: "'f endpoint_env \<Rightarrow> nat \<Rightarrow> nat \<Rightarrow> nat \<Rightarrow> local_track_event \<Rightarrow> endpoint_internal \<Rightarrow> endpoint_internal run" where
  "ei_on_transport_local_track env now index track event s =
     (let s1 = (case lte_need_create event of None \<Rightarrow> s
        | Some kind \<Rightarrow> ei_push [Io_PeerEvent now (Pe_LocalTrack track kind)]
            (s\<lparr>ei_local_tracks := im_insert index (lt_new (ee_timer env) track kind (map_option fst (ei_joined s))) (ei_local_tracks s),
            ei_local_tracks_id := im2_insert track index (ei_local_tracks_id s)\<rparr>)) in
      case im2_get1 (ei_local_tracks_id s1) track of None \<Rightarrow> Inr s1 | Some i \<Rightarrow> ei_local env now i (Li_Event event) s1)"

definition ei_on_transport_event :: "'f endpoint_env \<Rightarrow> nat \<Rightarrow> ei_child list \<Rightarrow> nat \<Rightarrow> transport_event \<Rightarrow> endpoint_internal \<Rightarrow> endpoint_internal run" where
  "ei_on_transport_event env now sched index event s = (case event of
     Te_State st \<Rightarrow> ei_on_transport_state_changed env now sched st s
   | Te_RemoteTrack track ev \<Rightarrow> ei_on_transport_remote_track env now index track ev s
   | Te_LocalTrack track ev \<Rightarrow> ei_on_transport_local_track env now index track ev s
   | Te_Stats \<Rightarrow> Inr s
   | Te_EgressBitrateEstimate bitrate \<Rightarrow> Inr (ei_allocator (ba_set_egress_estimate (min bitrate (ec_max_egress_bitrate (ei_cfg s)))) s))"

section \<open>Requests of the client\<close>

text \<open>An answer, and a control for the room when the endpoint is in one.\<close>

definition ei_in_room :: "nat \<Rightarrow> (rpc_result \<Rightarrow> endpoint_res) \<Rightarrow> (peer_id \<Rightarrow> cluster_endpoint_control) \<Rightarrow> endpoint_internal \<Rightarrow> endpoint_internal" where
  "ei_in_room req_id res control s = (case ei_joined s of
     Some (room, _, peer, _) \<Rightarrow> ei_push [Io_RpcRes req_id (res (Inr ())), Io_Cluster room (control peer)] s
   | None \<Rightarrow> ei_push [Io_RpcRes req_id (res (Inl EndpointNotInRoom))] s)"

definition ei_in_manual_mode :: "nat \<Rightarrow> (rpc_result \<Rightarrow> audio_mixer_res) \<Rightarrow> cluster_audio_mixer_control \<Rightarrow> endpoint_internal \<Rightarrow> endpoint_internal" where
  "ei_in_manual_mode req_id res control s = (case ei_joined s of
     Some (room, _, _, Some Mixer_Manual) \<Rightarrow> ei_push [Io_RpcRes req_id (Ers_AudioMixer (res (Inr ()))), Io_Cluster room (Cec_AudioMixer control)] s
   | _ \<Rightarrow> ei_push [Io_RpcRes req_id (Ers_AudioMixer (res (Inl AudioMixerWrongMode)))] s)"

definition ei_on_message_channel :: "nat \<Rightarrow> string \<Rightarrow> message_channel_req \<Rightarrow> endpoint_internal \<Rightarrow> endpoint_internal" where
  "ei_on_message_channel req_id label req s = (case req of
     Mcq_Subscribe \<Rightarrow> ei_in_room req_id (\<lambda>r. Ers_MessageChannel label (Mcs_Subscribe r)) (\<lambda>_. Cec_MessageChannel label Cmc_Subscribe) s
   | Mcq_Unsubscribe \<Rightarrow> ei_in_room req_id (\<lambda>r. Ers_MessageChannel label (Mcs_Unsubscribe r)) (\<lambda>_. Cec_MessageChannel label Cmc_Unsubscribe) s
   | Mcq_StartPublish \<Rightarrow> ei_in_room req_id (\<lambda>r. Ers_MessageChannel label (Mcs_StartPublish r)) (\<lambda>_. Cec_MessageChannel label Cmc_StartPublish) s
   | Mcq_StopPublish \<Rightarrow> ei_in_room req_id (\<lambda>r. Ers_MessageChannel label (Mcs_StopPublish r)) (\<lambda>_. Cec_MessageChannel label Cmc_StopPublish) s
   | Mcq_PublishData data \<Rightarrow> ei_in_room req_id (\<lambda>r. Ers_MessageChannel label (Mcs_PublishData r)) (\<lambda>peer. Cec_MessageChannel label (Cmc_PublishData peer data)) s)"

definition ei_on_transport_rpc :: "'f endpoint_env \<Rightarrow> nat \<Rightarrow> ei_child list \<Rightarrow> nat \<Rightarrow> endpoint_req \<Rightarrow> endpoint_internal \<Rightarrow> endpoint_internal run" where
  "ei_on_transport_rpc env now sched req_id req s = (case req of
     Erq_JoinRoom room peer meta publish subscribe mixer \<Rightarrow>
       (if ei_state s = None \<or> (\<exists>ts ip. ei_state s = Some (ts, Tst_Connecting ip))
        then Inr (s\<lparr>ei_wait_join := Some (req_id, room, peer, meta, publish, subscribe, mixer)\<rparr>)
        else ei_join_room env now sched req_id room peer meta publish subscribe mixer s)
   | Erq_LeaveRoom \<Rightarrow>
       (let s1 = ei_push [Io_RpcRes req_id (Ers_LeaveRoom (Inr ()))] (s\<lparr>ei_wait_join := None\<rparr>) in
        if ei_wait_join s \<noteq> None then Inr s1 else ei_leave_room env now sched s1)
   | Erq_SubscribePeer peer \<Rightarrow> Inr (ei_in_room req_id Ers_SubscribePeer (\<lambda>_. Cec_SubscribePeer peer) s)
   | Erq_UnsubscribePeer peer \<Rightarrow> Inr (ei_in_room req_id Ers_UnsubscribePeer (\<lambda>_. Cec_UnsubscribePeer peer) s)
   | Erq_RemoteTrack track r \<Rightarrow> (case im2_get1 (ei_remote_tracks_id s) track of None \<Rightarrow> Inr s
       | Some index \<Rightarrow> ei_remote env now index (Ri_RpcReq req_id r) s)
   | Erq_LocalTrack track r \<Rightarrow> (case im2_get1 (ei_local_tracks_id s) track of None \<Rightarrow> Inr s
       | Some index \<Rightarrow> ei_local env now index (Li_RpcReq req_id r) s)
   | Erq_AudioMixer (Amq_Attach sources) \<Rightarrow> Inr (ei_in_manual_mode req_id Ams_Attach (Cam_Attach sources) s)
   | Erq_AudioMixer (Amq_Detach sources) \<Rightarrow> Inr (ei_in_manual_mode req_id Ams_Detach (Cam_Detach sources) s)
   | Erq_MessageChannel label r \<Rightarrow> Inr (ei_on_message_channel req_id label r s))"

section \<open>Events of the cluster\<close>

definition ei_on_cluster_remote_track :: "'f endpoint_env \<Rightarrow> nat \<Rightarrow> nat \<Rightarrow> cluster_remote_track_event \<Rightarrow> endpoint_internal \<Rightarrow> endpoint_internal run" where
  "ei_on_cluster_remote_track env now i event s = (case im2_get1 (ei_remote_tracks_id s) i of None \<Rightarrow> Inr s
     | Some index \<Rightarrow> ei_remote env now index (Ri_Cluster event) s)"

definition ei_on_cluster_local_track :: "'f endpoint_env \<Rightarrow> nat \<Rightarrow> nat \<Rightarrow> cluster_local_track_event \<Rightarrow> endpoint_internal \<Rightarrow> endpoint_internal run" where
  "ei_on_cluster_local_track env now i event s = (case im2_get1 (ei_local_tracks_id s) i of None \<Rightarrow> Inr s
     | Some index \<Rightarrow> ei_local env now index (Li_Cluster event) s)"

definition ei_on_cluster_event :: "'f endpoint_env \<Rightarrow> nat \<Rightarrow> cluster_endpoint_event \<Rightarrow> endpoint_internal \<Rightarrow> endpoint_internal run" where
  "ei_on_cluster_event env now event s = (case event of
     Cee_PeerJoined peer meta \<Rightarrow> Inr (ei_push [Io_Event (Ev_PeerJoined peer meta)] s)
   | Cee_PeerLeaved peer meta \<Rightarrow> Inr (ei_push [Io_Event (Ev_PeerLeaved peer meta)] s)
   | Cee_TrackStarted peer track meta \<Rightarrow> Inr (ei_push [Io_Event (Ev_PeerTrackStarted peer track meta)] s)
   | Cee_TrackStopped peer track meta \<Rightarrow> Inr (ei_push [Io_Event (Ev_PeerTrackStopped peer track meta)] s)
   | Cee_AudioMixer (Cae_SlotSet slot peer track) \<Rightarrow> Inr (ei_push [Io_Event (Ev_AudioMixer (Eam_SlotSet slot peer track))] s)
   | Cee_AudioMixer (Cae_SlotUnset slot) \<Rightarrow> Inr (ei_push [Io_Event (Ev_AudioMixer (Eam_SlotUnset slot))] s)
   | Cee_RemoteTrack track ev \<Rightarrow> ei_on_cluster_remote_track env now track ev s
   | Cee_LocalTrack track ev \<Rightarrow> ei_on_cluster_local_track env now track ev s
   | Cee_MessageChannelData key sender message \<Rightarrow> Inr (ei_push [Io_Event (Ev_ChannelMessage key sender message)] s))"

section \<open>Outputs\<close>

definition ei_is_empty :: "endpoint_internal \<Rightarrow> bool" where
  "ei_is_empty s \<longleftrightarrow> ei_shutdown s \<and> ei_queue s = [] \<and> ei_local_tracks s = [] \<and> ei_remote_tracks s = []"

text \<open>\<^verbatim>\<open>pop_output\<close>: the queue first, otherwise the children along a schedule until one of them fills it.\<close>

fun ei_pop_output :: "'f endpoint_env \<Rightarrow> nat \<Rightarrow> ei_child list \<Rightarrow> endpoint_internal \<Rightarrow> (endpoint_internal \<times> internal_output option) run" where
  "ei_pop_output env now sched s = (case ei_queue s of x # q \<Rightarrow> Inr (s\<lparr>ei_queue := q\<rparr>, Some x)
     | [] \<Rightarrow> (case sched of [] \<Rightarrow> Inr (s, None) | c # cs \<Rightarrow> rbind (ei_poll env now c s) (ei_pop_output env now cs)))"

declare ei_pop_output.simps [simp del]

definition ei_drop :: "endpoint_internal \<Rightarrow> unit run" where
  "ei_drop s = rassert (ei_queue s = [])"

end
