(* ===== verification/Endpoint_Tables.thy ===== *)
theory Endpoint_Tables
  imports Endpoint_Internal
begin

text \<open>
  The tables in which an endpoint keeps its tracks, and what its tracks are with respect to its room.
  \<open>tab_ok fits ids ts\<close> says that every task of the table \<open>ts\<close> is named by the two-way map \<open>ids\<close> and
  satisfies \<open>fits\<close>; the lemmas \<open>tab_...\<close> are the laws of creating, addressing and removing tasks under
  such a predicate. \<open>lt_fits\<close> and \<open>rt_fits\<close> are the predicates that the endpoint keeps: a track is in a
  room that is allowed and what it has queued for the cluster is for the room of the endpoint.
\<close>

section \<open>Tables of tracks\<close>

definition tab_ok :: "('t \<Rightarrow> bool) \<Rightarrow> (nat, nat) index_map_2d \<Rightarrow> (nat, 't) imap \<Rightarrow> bool" where
  "tab_ok fits ids ts \<longleftrightarrow> im2_wf ids \<and> im_wf ts \<and> (\<forall>i t. im_get ts i = Some t \<longrightarrow> im2_get2 ids i \<noteq> None \<and> fits t)"

lemma tab_mono: "tab_ok fits ids ts \<Longrightarrow> (\<And>i t. im_get ts i = Some t \<Longrightarrow> fits t \<Longrightarrow> fits' t) \<Longrightarrow> tab_ok fits' ids ts"
  by (auto simp: tab_ok_def)

lemma tabD: "tab_ok fits ids ts \<Longrightarrow> im_get ts i = Some t \<Longrightarrow> (\<exists>k. im2_get2 ids i = Some k) \<and> fits t"
  unfolding tab_ok_def by blast

lemma tab_put: "tab_ok fits ids ts \<Longrightarrow> im_get ts i = Some t \<Longrightarrow> fits t' \<Longrightarrow> tab_ok fits ids (im_insert i t' ts)"
  by (auto simp: tab_ok_def list_upd)

lemma tab_remove: "tab_ok fits ids ts \<Longrightarrow> tab_ok fits ids (im_swap_remove i ts)"
  by (auto simp: tab_ok_def list_upd split: if_splits)

lemma tab_remove_id:
  assumes "tab_ok fits ids ts" "im2_get2 ids i = Some k"
  shows "tab_ok fits (fst (im2_remove1 k ids)) (im_swap_remove i ts)"
proof -
  have wf: "im2_wf ids" using assms(1) by (simp add: tab_ok_def)
  have "im2_get2 (fst (im2_remove1 k ids)) j \<noteq> None" if k': "im2_get2 ids j = Some k'" and "j \<noteq> i" for j k'
  proof -
    have "k' \<noteq> k" using im2.sides [OF wf] assms(2) k' \<open>j \<noteq> i\<close> by (metis option.inject)
    then have "im2_get1 (fst (im2_remove1 k ids)) k' = Some j" using im2.look1_drop1 [OF wf] im2.sides [OF wf] k' by simp
    then show ?thesis using im2.sides [OF im2_wf_remove1 [OF wf]] by auto
  qed
  then have "im2_get2 (fst (im2_remove1 k ids)) j \<noteq> None \<and> fits t" if "im_get (im_swap_remove i ts) j = Some t" for j t
    using assms(1) that by (fastforce simp: tab_ok_def list_upd split: if_splits)
  then show ?thesis using assms(1) im2_wf_remove1 [OF wf] by (simp add: tab_ok_def list_upd)
qed

lemma im2_get2_insert: "im2_get2 (im2_insert k i ids) = (im2_get2 ids)(i := Some k)"
  by (simp add: im2_get2_def im2_insert_def list_upd)

lemma tab_new: "tab_ok fits ids ts \<Longrightarrow> im2_get1 ids k = None \<Longrightarrow> im2_get2 ids i = None \<Longrightarrow> fits t \<Longrightarrow> tab_ok fits (im2_insert k i ids) (im_insert i t ts)"
  by (auto simp: tab_ok_def list_upd im2.bind2_sides im2_get2_insert)

lemma tab_event:
  assumes "tab_ok fits ids ts" "\<And>t. im_get ts i = Some t \<Longrightarrow> fits t \<Longrightarrow> \<exists>t'. f t = Inr t' \<and> fits t'"
  shows "\<exists>ts'. tg_event True i f ts = Inr ts' \<and> tab_ok fits ids ts'"
proof (cases "im_get ts i")
  case None
  then show ?thesis using assms(1) by (simp add: tg_event_def)
next
  case (Some t)
  then obtain t' where "f t = Inr t'" "fits t'" using assms by (auto simp: tab_ok_def)
  then show ?thesis using Some tab_put [OF assms(1) Some] by (auto simp: tg_event_def)
qed

text \<open>An event for every index of a list without repetitions changes every task there once.\<close>

lemma tab_events:
  assumes "distinct (map snd ps)" "im_wf ts"
    "\<And>i t. im_get ts i = Some t \<Longrightarrow> if i \<in> snd ` set ps then fits t else fits' t" "\<And>t. fits t \<Longrightarrow> \<exists>t'. f t = Inr t' \<and> fits' t'"
  shows "\<exists>ts'. rfold (\<lambda>(_, i). tg_event True i f) ps ts = Inr ts' \<and> im_wf ts' \<and> (\<forall>i. (im_get ts' i = None) = (im_get ts i = None)) \<and>
     (\<forall>i t. im_get ts' i = Some t \<longrightarrow> fits' t)"
  using assms
proof (induction ps arbitrary: ts)
  case Nil
  then show ?case by auto
next
  case (Cons p ps)
  obtain k i where p: "p = (k, i)" by (cases p)
  have i: "i \<notin> snd ` set ps" using Cons.prems(1) by (simp add: p)
  have "\<exists>ts1. tg_event True i f ts = Inr ts1 \<and> im_wf ts1 \<and> (\<forall>j. (im_get ts1 j = None) = (im_get ts j = None)) \<and>
     (\<forall>j t. im_get ts1 j = Some t \<longrightarrow> (if j \<in> snd ` set ps then fits t else fits' t))"
  proof (cases "im_get ts i")
    case None
    then have "if j \<in> snd ` set ps then fits t else fits' t" if "im_get ts j = Some t" for j t
      using Cons.prems(3) [OF that] that by (auto simp: p split: if_splits)
    then show ?thesis using None Cons.prems(2) by (simp add: tg_event_def)
  next
    case (Some t)
    then obtain t' where t': "f t = Inr t'" "fits' t'" using Cons.prems(3) [OF Some] Cons.prems(4) by (auto simp: p)
    have "if j \<in> snd ` set ps then fits u else fits' u" if "im_get (im_insert i t' ts) j = Some u" for j u
      using Cons.prems(3) [of j u] that t'(2) i by (auto simp: p list_upd split: if_splits)
    moreover have "tg_event True i f ts = Inr (im_insert i t' ts)" "im_wf (im_insert i t' ts)"
      "\<forall>j. (im_get (im_insert i t' ts) j = None) = (im_get ts j = None)" using Some t'(1) Cons.prems(2) by (simp_all add: tg_event_def list_upd)
    ultimately show ?thesis by blast
  qed
  then obtain ts1 where ts1: "tg_event True i f ts = Inr ts1" "im_wf ts1" "\<forall>j. (im_get ts1 j = None) = (im_get ts j = None)"
    "\<And>j t. im_get ts1 j = Some t \<Longrightarrow> if j \<in> snd ` set ps then fits t else fits' t" by blast
  have "distinct (map snd ps)" using Cons.prems(1) by simp
  from Cons.IH [OF this ts1(2,4) Cons.prems(4)] show ?case using ts1(1,3) by (simp add: p)
qed

lemma im2_pairs_distinct:
  assumes "im2_wf ids" shows "distinct (map snd (im2_pairs ids))" "im2_get2 ids i \<noteq> None \<longleftrightarrow> i \<in> snd ` set (im2_pairs ids)"
proof -
  have get: "(k, i) \<in> set (im2_pairs ids) \<longleftrightarrow> im2_get2 ids i = Some k" for k i
    using assms im2.sides [OF assms] by (simp add: im2_pairs_def im2_get1_def im2_wf_def im_wf_map_of)
  then show "im2_get2 ids i \<noteq> None \<longleftrightarrow> i \<in> snd ` set (im2_pairs ids)" by force
  have d: "distinct (im2_pairs ids)" using assms by (auto simp: im2_wf_def im_wf_def im2_pairs_def distinct_map)
  have "inj_on snd (set (im2_pairs ids))" using get by (auto simp: inj_on_def)
  with d show "distinct (map snd (im2_pairs ids))" by (simp add: distinct_map)
qed

lemma tab_all_events:
  assumes "tab_ok fits ids ts" "\<And>t. fits t \<Longrightarrow> \<exists>t'. f t = Inr t' \<and> fits' t'"
  shows "\<exists>ts'. rfold (\<lambda>(_, i). tg_event True i f) (im2_pairs ids) ts = Inr ts' \<and> tab_ok fits' ids ts'"
proof -
  have ids: "im2_wf ids" "im_wf ts" using assms(1) by (simp_all add: tab_ok_def)
  have "if i \<in> snd ` set (im2_pairs ids) then fits t else fits' t" if "im_get ts i = Some t" for i t
    using assms(1) that im2_pairs_distinct(2) [OF ids(1), of i] by (auto simp: tab_ok_def)
  from tab_events [where fits = fits and fits' = fits' and f = f, OF im2_pairs_distinct(1) [OF ids(1)] ids(2) this assms(2)]
  obtain ts' where "rfold (\<lambda>(_, i). tg_event True i f) (im2_pairs ids) ts = Inr ts'" "im_wf ts'" "\<forall>i. (im_get ts' i = None) = (im_get ts i = None)"
    "\<forall>i t. im_get ts' i = Some t \<longrightarrow> fits' t" by blast
  then show ?thesis using assms(1) unfolding tab_ok_def by (metis option.distinct(1) option.exhaust)
qed

lemma tab_run_all:
  assumes "tab_ok fits ids ts" "\<And>t. fits t \<Longrightarrow> \<exists>t'. f t = Inr t' \<and> fits' t'"
  shows "\<exists>ts'. tg_run_all f ts = Inr ts' \<and> tab_ok fits' ids ts'"
proof -
  have wf: "im2_wf ids" "im_wf ts" using assms(1) by (simp_all add: tab_ok_def)
  have "\<exists>t'. f t = Inr t' \<and> im2_get2 ids i \<noteq> None \<and> fits' t'" if "(i, t) \<in> set ts" for i t
    using assms im_get_eq_Some [OF wf(2)] that by (fastforce simp: tab_ok_def)
  from tg_run_all_ok [of ts f "\<lambda>i t. im2_get2 ids i \<noteq> None \<and> fits' t", OF this] obtain ts' where ts': "tg_run_all f ts = Inr ts'" "map fst ts' = map fst ts" "\<forall>(i, t)\<in>set ts'. im2_get2 ids i \<noteq> None \<and> fits' t"
    by blast
  moreover have "im_wf ts'" using wf(2) ts'(2) by (simp add: im_wf_def)
  ultimately show ?thesis using wf(1) im_get_eq_Some [of ts'] by (auto simp: tab_ok_def)
qed

section \<open>Tracks in the room of the endpoint\<close>

definition lt_rooms :: "lt_output list \<Rightarrow> room_hash set" where
  "lt_rooms os = {room. \<exists>control. Lo_Cluster room control \<in> set os}"

definition rt_rooms :: "rt_output list \<Rightarrow> room_hash set" where
  "rt_rooms os = {room. \<exists>control. Ro_Cluster room control \<in> set os}"

lemma lt_rooms_simps [simp]: "lt_rooms [] = {}" "lt_rooms (x # xs) = (case x of Lo_Cluster room _ \<Rightarrow> {room} | _ \<Rightarrow> {}) \<union> lt_rooms xs"
  "lt_rooms (xs @ ys) = lt_rooms xs \<union> lt_rooms ys"
  by (auto simp: lt_rooms_def split: lt_output.splits)

lemma rt_rooms_simps [simp]: "rt_rooms [] = {}" "rt_rooms (x # xs) = (case x of Ro_Cluster room _ \<Rightarrow> {room} | _ \<Rightarrow> {}) \<union> rt_rooms xs"
  "rt_rooms (xs @ ys) = rt_rooms xs \<union> rt_rooms ys"
  by (auto simp: rt_rooms_def split: rt_output.splits)

text \<open>What a local track adds to its queue is for its room.\<close>

definition lt_grows :: "endpoint_local_track \<Rightarrow> endpoint_local_track \<Rightarrow> bool" where
  "lt_grows s s' \<longleftrightarrow> lt_room s' = lt_room s \<and> lt_shutdown s' = lt_shutdown s \<and> lt_rooms (lt_queue s') \<subseteq> lt_rooms (lt_queue s) \<union> set_option (lt_room s) \<and>
     (Lo_OnResourceEmpty \<in> set (lt_queue s') \<longrightarrow> Lo_OnResourceEmpty \<in> set (lt_queue s))"

lemma lt_grows_trans: "lt_grows s s1 \<Longrightarrow> lt_grows s1 s2 \<Longrightarrow> lt_grows s s2"
  by (auto simp: lt_grows_def)

lemma lt_grows_pop_selector: "lt_grows s (lt_pop_selector now_ms s)"
proof -
  have "lt_rooms (map (\<lambda>a. case a of RequestKeyFrame \<Rightarrow> Lo_Cluster room Clt_RequestKeyFrame) acts) \<subseteq> {room}" for room acts
    by (induction acts) (auto split: action.splits)
  moreover have "Lo_OnResourceEmpty \<notin> set (map (\<lambda>a. case a of RequestKeyFrame \<Rightarrow> Lo_Cluster room Clt_RequestKeyFrame) acts)" for room acts
    by (induction acts) (auto split: action.splits)
  ultimately show ?thesis by (auto simp: lt_grows_def lt_pop_selector_def simp del: set_map split: option.splits prod.splits)
qed

lemma lt_grows_media: "lt_grows s (lt_media_status now_ms s)" "lt_grows s (lt_voice now_ms meta s)"
  by (auto simp: lt_grows_def lt_media_status_def lt_voice_def split: option.splits lt_status.splits media_meta.splits prod.splits)

lemma lt_grows_simps: "lt_grows s (s\<lparr>lt_selector := sel\<rparr>)" "lt_rooms os \<subseteq> set_option (lt_room s) \<Longrightarrow> Lo_OnResourceEmpty \<notin> set os \<Longrightarrow> lt_grows s (lt_push os s)"
  by (auto simp: lt_grows_def)

lemma lt_grows_tick: "lt_grows s (lt_on_tick now s)"
proof -
  let ?s = "s\<lparr>lt_selector := ps_on_tick (lt_timer s now) (lt_selector s)\<rparr>"
  have "lt_grows ?s (lt_on_tick now s)" using lt_grows_pop_selector [of ?s "lt_timer s now"]
    by (auto simp: lt_on_tick_def lt_grows_def Let_def split: option.splits lt_status.splits)
  with lt_grows_simps(1) show ?thesis by (rule lt_grows_trans)
qed

lemma lt_grows_cluster:
  assumes "lt_on_cluster_event now event s = Inr s'" shows "lt_grows s s'"
proof (cases event)
  case (Cle_Media ch pkt)
  let ?ms = "lt_timer s now"
  obtain sel pkt1 ok where sel: "ps_select ?ms ch pkt (lt_selector s) = Inr (sel, pkt1, ok)" using assms Cle_Media
    by (auto simp: lt_on_cluster_event_def Let_def run_simps)
  let ?s = "s\<lparr>lt_selector := sel\<rparr>"
  have "lt_grows ?s (lt_push [Lo_Event (Elt_Media pkt1)] (lt_voice ?ms (pkt_meta pkt1) (lt_media_status ?ms (lt_pop_selector ?ms ?s))))"
    by (rule lt_grows_trans [OF lt_grows_pop_selector lt_grows_trans [OF lt_grows_media(1) lt_grows_trans [OF lt_grows_media(2) lt_grows_simps(2)]]]) simp_all
  from lt_grows_trans [OF lt_grows_simps(1) this] lt_grows_simps(1) show ?thesis
    using assms Cle_Media sel by (cases ok) (auto simp: lt_on_cluster_event_def Let_def)
qed (use assms in \<open>auto simp: lt_on_cluster_event_def lt_grows_def split: if_splits option.splits\<close>)

lemma lt_grows_rpc: "lt_on_rpc_req now req_id req s = Inr s' \<Longrightarrow> lt_grows s s'"
  by (cases req) (auto simp: lt_on_rpc_req_def lt_attach_def lt_grows_def Let_def run_simps split: if_splits option.splits)

lemma lt_grows_allocation:
  assumes "lt_on_bitrate_allocation_action now act s = Inr s'" shows "lt_grows s s'"
proof (cases act)
  case (SetBitrate b)
  obtain sel where sel: "ps_set_target_bitrate (lt_timer s now) b (lt_selector s) = Inr sel" using assms SetBitrate
    by (auto simp: lt_on_bitrate_allocation_action_def Let_def run_simps)
  let ?s = "lt_pop_selector (lt_timer s now) (s\<lparr>lt_selector := sel\<rparr>)"
  have 1: "lt_grows s ?s" using lt_grows_simps(1) lt_grows_pop_selector by (rule lt_grows_trans)
  have "s' = (case lt_room ?s of None \<Rightarrow> ?s | Some room \<Rightarrow> lt_push [Lo_Cluster room (Clt_DesiredBitrate b)] ?s)"
    using assms SetBitrate sel by (simp add: lt_on_bitrate_allocation_action_def Let_def)
  then have "lt_grows ?s s'" by (auto simp: lt_grows_def split: option.split)
  with 1 show ?thesis by (rule lt_grows_trans)
qed

text \<open>\<open>R\<close> are the rooms the track may be in, \<open>H\<close> the room of the endpoint's session, and \<open>D\<close> says that the
  tracks have been shut down.\<close>

definition lt_fits :: "room_hash option set \<Rightarrow> room_hash option \<Rightarrow> bool \<Rightarrow> endpoint_local_track \<Rightarrow> bool" where
  "lt_fits R H D t \<longleftrightarrow> lt_wf t \<and> lt_room t \<in> R \<and> lt_rooms (lt_queue t) \<subseteq> set_option H \<and> Lo_OnResourceEmpty \<notin> set (lt_queue t) \<and> (D \<longrightarrow> lt_shutdown t)"

definition rt_fits :: "room_hash option set \<Rightarrow> room_hash option \<Rightarrow> bool \<Rightarrow> endpoint_remote_track \<Rightarrow> bool" where
  "rt_fits R H D t \<longleftrightarrow> rt_room t \<in> R \<and> rt_rooms (rt_queue t) \<subseteq> set_option H \<and> (\<forall>kind. Ro_Stopped kind \<notin> set (rt_queue t)) \<and> (D \<longrightarrow> rt_shutdown t)"

fun lt_plain :: "lt_input \<Rightarrow> bool" where
  "lt_plain (Li_JoinRoom _) = False" | "lt_plain Li_LeaveRoom = False" | "lt_plain (Li_Cluster (Cle_Media _ pkt)) = pkt_wf pkt" | "lt_plain _ = True"

fun rt_plain :: "rt_input \<Rightarrow> bool" where
  "rt_plain (Ri_JoinRoom _) = False" | "rt_plain Ri_LeaveRoom = False" | "rt_plain _ = True"

lemma lt_grows_fits: "lt_fits R H D t \<Longrightarrow> R \<subseteq> {None, H} \<Longrightarrow> lt_grows t t' \<Longrightarrow> lt_wf t' \<Longrightarrow> lt_fits R H D t'"
proof -
  assume a: "lt_fits R H D t" "R \<subseteq> {None, H}" "lt_grows t t'" "lt_wf t'"
  then have "set_option (lt_room t) \<subseteq> set_option H" by (auto simp: lt_fits_def)
  then show ?thesis using a by (auto simp: lt_fits_def lt_grows_def)
qed

lemma lt_fits_event:
  assumes "lt_fits R H D t" "R \<subseteq> {None, H}" "lt_plain input"
  shows "\<exists>t'. lt_on_event now input t = Inr t' \<and> lt_fits R H D t'"
proof -
  have wf: "lt_wf t" using assms(1) by (simp add: lt_fits_def)
  have "lt_admits (Lt_Event now input) (t, [])" using assms(3) by (cases "(input)" rule: lt_plain.cases) auto
  from lt_event_moves [OF wf this] obtain t' where t': "lt_on_event now input t = Inr t'" "lt_wf t'" by (auto simp: lt_moves_def)
  have "lt_grows t t'"
  proof (cases input)
    case (Li_Event event)
    then show ?thesis using t'(1) by (auto simp: lt_on_event_def lt_on_transport_event_def lt_grows_def split: local_track_event.splits option.splits)
  qed (use t'(1) assms(3) in \<open>auto simp: lt_on_event_def intro: lt_grows_cluster lt_grows_rpc lt_grows_allocation\<close>)
  then show ?thesis using t' lt_grows_fits [OF assms(1,2)] by blast
qed

lemma lt_fits_tick: "lt_fits R H D t \<Longrightarrow> R \<subseteq> {None, H} \<Longrightarrow> lt_fits R H D (lt_on_tick now t)"
  by (rule lt_grows_fits [OF _ _ lt_grows_tick]) (use lt_same_moves [OF _ lt_same_tick] in \<open>simp_all add: lt_fits_def lt_moves_def\<close>)

lemma lt_fits_leave:
  assumes "lt_fits {Some h} (Some h) D t" shows "\<exists>t'. lt_on_event now Li_LeaveRoom t = Inr t' \<and> lt_fits {None} (Some h) D t'"
  using assms by (cases "lt_bind t") (auto simp: lt_fits_def lt_on_event_def lt_on_leave_room_def lt_wf_def)

lemma lt_fits_join:
  assumes "lt_fits {None} None D t" shows "\<exists>t'. lt_on_event now (Li_JoinRoom h) t = Inr t' \<and> lt_fits {Some h} (Some h) D t'"
  using assms by (cases "lt_bind t") (auto simp: lt_fits_def lt_on_event_def lt_on_join_room_def lt_wf_def)

lemma lt_fits_shutdown:
  assumes "lt_fits {H} H D t" shows "\<exists>t'. lt_on_shutdown now t = Inr t' \<and> lt_fits {None, H} H True t'"
  using assms by (cases "lt_shutdown t"; cases "lt_bind t"; cases H) (auto simp: lt_fits_def lt_on_shutdown_def lt_on_leave_room_def lt_wf_def Let_def)

lemma rt_fits_event:
  assumes "rt_fits R H D t" "R \<subseteq> {None, H}" "rt_plain input"
  shows "\<exists>t'. rt_on_event now input t = Inr t' \<and> rt_fits R H D t'"
proof (cases input)
  case (Ri_Event event)
  have "rt_fits R H D (rt_on_transport_event now event t)"
    using assms(1,2) by (cases event) (auto simp: rt_fits_def rt_on_transport_event_def rt_restore_layers_def rt_ended_def Let_def split: option.splits)
  then show ?thesis using Ri_Event by (simp add: rt_on_event_def)
next
  case (Ri_Cluster event)
  then show ?thesis using assms by (cases event) (auto simp: rt_on_event_def rt_fits_def rt_on_cluster_event_def rt_limit_def Let_def split: option.split)
next
  case (Ri_RpcReq i req)
  then show ?thesis using assms by (cases req) (auto simp: rt_on_event_def rt_fits_def rt_on_rpc_req_def)
next
  case (Ri_BitrateAllocation act)
  then show ?thesis using assms by (cases act) (auto simp: rt_on_event_def rt_fits_def rt_on_bitrate_allocation_action_def rt_limit_def Let_def split: option.split)
qed (use assms in auto)

lemma rt_fits_leave:
  assumes "rt_fits {Some h} (Some h) D t" shows "\<exists>t'. rt_on_event now Ri_LeaveRoom t = Inr t' \<and> rt_fits {None} (Some h) D t'"
  using assms by (auto simp: rt_fits_def rt_on_event_def rt_on_leave_room_def rt_ended_def)

lemma rt_fits_join:
  assumes "rt_fits {None} None D t" shows "\<exists>t'. rt_on_event now (Ri_JoinRoom h) t = Inr t' \<and> rt_fits {Some h} (Some h) D t'"
  using assms by (auto simp: rt_fits_def rt_on_event_def rt_on_join_room_def)

lemma rt_fits_shutdown:
  assumes "rt_fits {H} H D t" shows "\<exists>t'. rt_on_shutdown now t = Inr t' \<and> rt_fits {None, H} H True t'"
  using assms by (cases "rt_shutdown t"; cases H) (auto simp: rt_fits_def rt_on_shutdown_def rt_on_leave_room_def rt_ended_def Let_def)

end
