(* ===== verification/Endpoint_Rooms.thy ===== *)
theory Endpoint_Rooms
  imports Endpoint_Tables
begin

text \<open>
  The correctness of \<^verbatim>\<open>EndpointInternal\<close>: its tracks are in the room the endpoint has joined, the
  controls it sends to the cluster are a series of sessions in that room, the loops that empty the
  children end, and an index that is given to a second track while the first one's id is still known
  makes the next leave panic.
\<close>

section \<open>Polling keeps to the room\<close>

fun ei_act :: "internal_output \<Rightarrow> (room_hash \<times> session_act) option" where
  "ei_act (Io_Cluster room (Cec_Join _ _ _ _ _)) = Some (room, Opens)"
| "ei_act (Io_Cluster room Cec_Leave) = Some (room, Closes)"
| "ei_act (Io_Cluster room _) = Some (room, Uses)"
| "ei_act _ = None"

definition ei_ctls :: "internal_output list \<Rightarrow> (room_hash \<times> session_act) list" where
  "ei_ctls = List.map_filter ei_act"

lemma ei_ctls_append [simp]: "ei_ctls (xs @ ys) = ei_ctls xs @ ei_ctls ys"
  by (simp add: ei_ctls_def List.map_filter_def)

lemma ei_ctls_simps [simp]: "ei_ctls [] = []" "ei_ctls (x # xs) = (case ei_act x of None \<Rightarrow> ei_ctls xs | Some c \<Rightarrow> c # ei_ctls xs)"
  by (simp_all add: ei_ctls_def List.map_filter_def split: option.split)

definition ei_ok :: "room_hash option set \<Rightarrow> room_hash option \<Rightarrow> bool \<Rightarrow> endpoint_internal \<Rightarrow> bool" where
  "ei_ok R H D s \<longleftrightarrow> tab_ok (lt_fits R H D) (ei_local_tracks_id s) (ei_local_tracks s) \<and> tab_ok (rt_fits R H D) (ei_remote_tracks_id s) (ei_remote_tracks s)"

text \<open>A step that only talks to the room it is in.\<close>

definition ei_uses :: "room_hash option \<Rightarrow> endpoint_internal \<Rightarrow> endpoint_internal \<Rightarrow> bool" where
  "ei_uses H s s' \<longleftrightarrow> ei_joined s' = ei_joined s \<and> ei_cfg s' = ei_cfg s \<and> ei_shutdown s' = ei_shutdown s \<and> ei_state s' = ei_state s \<and> ei_wait_join s' = ei_wait_join s \<and>
     (\<exists>os. ei_queue s' = ei_queue s @ os \<and> set (ei_ctls os) \<subseteq> (\<lambda>h. (h, Uses)) ` set_option H)"

lemma ei_uses_refl: "ei_uses H s s"
  by (simp add: ei_uses_def)

lemma ei_uses_trans: "ei_uses H s s1 \<Longrightarrow> ei_uses H s1 s2 \<Longrightarrow> ei_uses H s s2"
  by (fastforce simp: ei_uses_def)

lemma ei_push_simps [simp]:
  "ei_queue (ei_push os s) = ei_queue s @ os" "ei_joined (ei_push os s) = ei_joined s" "ei_cfg (ei_push os s) = ei_cfg s"
  "ei_shutdown (ei_push os s) = ei_shutdown s" "ei_state (ei_push os s) = ei_state s" "ei_wait_join (ei_push os s) = ei_wait_join s"
  "ei_local_tracks (ei_push os s) = ei_local_tracks s" "ei_remote_tracks (ei_push os s) = ei_remote_tracks s"
  "ei_local_tracks_id (ei_push os s) = ei_local_tracks_id s" "ei_remote_tracks_id (ei_push os s) = ei_remote_tracks_id s"
  by (simp_all add: ei_push_def)

lemma ei_allocator_simps [simp]:
  "ei_queue (ei_allocator f s) = ei_queue s" "ei_joined (ei_allocator f s) = ei_joined s" "ei_cfg (ei_allocator f s) = ei_cfg s"
  "ei_shutdown (ei_allocator f s) = ei_shutdown s" "ei_state (ei_allocator f s) = ei_state s" "ei_wait_join (ei_allocator f s) = ei_wait_join s"
  "ei_local_tracks (ei_allocator f s) = ei_local_tracks s" "ei_remote_tracks (ei_allocator f s) = ei_remote_tracks s"
  "ei_local_tracks_id (ei_allocator f s) = ei_local_tracks_id s" "ei_remote_tracks_id (ei_allocator f s) = ei_remote_tracks_id s"
  by (simp_all add: ei_allocator_def)

lemma ei_ok_simps [simp]: "ei_ok R H D (ei_push os s) = ei_ok R H D s" "ei_ok R H D (ei_allocator f s) = ei_ok R H D s"
  by (simp_all add: ei_ok_def)

lemma ei_local_ok:
  assumes "ee_ignore_absent env" "ei_ok R H D s" "R \<subseteq> {None, H}" "lt_plain input"
  shows "\<exists>s'. ei_local env now i input s = Inr s' \<and> ei_ok R H D s' \<and> ei_uses K s s'"
proof -
  have "tab_ok (lt_fits R H D) (ei_local_tracks_id s) (ei_local_tracks s)" using assms(2) by (simp add: ei_ok_def)
  from tab_event [of "lt_fits R H D" _ _ i "lt_on_event now input", OF this lt_fits_event [OF _ assms(3,4)]] obtain ts where "tg_event True i (lt_on_event now input) (ei_local_tracks s) = Inr ts"
    "tab_ok (lt_fits R H D) (ei_local_tracks_id s) ts" by blast
  then show ?thesis using assms(1,2) by (simp add: ei_local_def ei_ok_def ei_uses_def)
qed

lemma ei_remote_ok:
  assumes "ee_ignore_absent env" "ei_ok R H D s" "R \<subseteq> {None, H}" "rt_plain input"
  shows "\<exists>s'. ei_remote env now i input s = Inr s' \<and> ei_ok R H D s' \<and> ei_uses K s s'"
proof -
  have "tab_ok (rt_fits R H D) (ei_remote_tracks_id s) (ei_remote_tracks s)" using assms(2) by (simp add: ei_ok_def)
  from tab_event [of "rt_fits R H D" _ _ i "rt_on_event now input", OF this rt_fits_event [OF _ assms(3,4)]] obtain ts where "tg_event True i (rt_on_event now input) (ei_remote_tracks s) = Inr ts"
    "tab_ok (rt_fits R H D) (ei_remote_tracks_id s) ts" by blast
  then show ?thesis using assms(1,2) by (simp add: ei_remote_def ei_ok_def ei_uses_def)
qed

lemma ei_on_remote_output_ok:
  assumes ok: "ei_ok R H D s" and id: "im2_get2 (ei_remote_tracks_id s) i = Some k" and rooms: "\<And>room c. out = Ro_Cluster room c \<Longrightarrow> H = Some room"
    and stop: "\<And>kind t. out = Ro_Stopped kind \<Longrightarrow> im_get (ei_remote_tracks s) i = Some t \<Longrightarrow> rt_queue t = []"
  shows "\<exists>s'. ei_on_remote_output i out s = Inr s' \<and> ei_ok R H D s' \<and> ei_uses H s s'"
proof (cases out)
  case (Ro_Stopped kind)
  have "(case im_get (ei_remote_tracks s) i of None \<Rightarrow> Inr () | Some t \<Rightarrow> rt_drop t) = Inr ()"
    using stop [OF Ro_Stopped] by (auto simp: rt_drop_def split: option.split)
  moreover have "tab_ok (rt_fits R H D) (ei_remote_tracks_id s) (im_swap_remove i (ei_remote_tracks s))" using ok tab_remove by (auto simp: ei_ok_def)
  ultimately show ?thesis using ok Ro_Stopped id by (simp add: ei_on_remote_output_def Let_def ei_ok_def ei_uses_def)
qed (use ok id rooms in \<open>auto simp: ei_on_remote_output_def ei_uses_def\<close>)

lemma ei_on_local_output_ok:
  assumes ok: "ei_ok R H D s" and id: "im2_get2 (ei_local_tracks_id s) i = Some k" and rooms: "\<And>room c. out = Lo_Cluster room c \<Longrightarrow> H = Some room"
    and stop: "\<And>t. out = Lo_OnResourceEmpty \<Longrightarrow> im_get (ei_local_tracks s) i = Some t \<Longrightarrow> lt_queue t = []"
  shows "\<exists>s'. ei_on_local_output i out s = Inr s' \<and> ei_ok R H D s' \<and> ei_uses H s s'"
proof (cases out)
  case Lo_OnResourceEmpty
  have "(case im_get (ei_local_tracks s) i of None \<Rightarrow> Inr () | Some t \<Rightarrow> lt_drop t) = Inr ()"
    using stop [OF Lo_OnResourceEmpty] by (auto simp: lt_drop_def split: option.split)
  moreover have "tab_ok (lt_fits R H D) (fst (im2_remove1 k (ei_local_tracks_id s))) (im_swap_remove i (ei_local_tracks s))"
    using ok tab_remove_id [OF _ id] by (auto simp: ei_ok_def)
  ultimately show ?thesis using ok Lo_OnResourceEmpty id by (simp add: ei_on_local_output_def ei_ok_def ei_uses_def)
qed (use ok id rooms in \<open>auto simp: ei_on_local_output_def ei_uses_def\<close>)

lemma ei_pop_remote_ok:
  assumes ok: "ei_ok R H D s" "R \<subseteq> {None, H}"
  shows "\<exists>s'. ei_pop_remote_tracks i s = Inr s' \<and> ei_ok R H D s' \<and> ei_uses H s s'"
proof (cases "im_get (ei_remote_tracks s) i")
  case None
  then show ?thesis using ok by (simp add: ei_pop_remote_tracks_def ei_uses_refl)
next
  case (Some t)
  then obtain k where k: "im2_get2 (ei_remote_tracks_id s) i = Some k" and fits: "rt_fits R H D t"
    using ok(1) tabD [of "rt_fits R H D"] unfolding ei_ok_def by blast
  show ?thesis
  proof (cases "rt_queue t")
    case Nil
    have "\<exists>s'. ei_on_remote_output i (rt_empty_event t) s = Inr s' \<and> ei_ok R H D s' \<and> ei_uses H s s'"
      by (rule ei_on_remote_output_ok [OF ok(1) k]) (use Some Nil in \<open>auto simp: rt_empty_event_def\<close>)
    then show ?thesis using Some Nil ok by (auto simp: ei_pop_remote_tracks_def rt_is_empty_def rt_pop_output_def ei_uses_refl)
  next
    case (Cons out q)
    let ?s = "s\<lparr>ei_remote_tracks := im_insert i (t\<lparr>rt_queue := q\<rparr>) (ei_remote_tracks s)\<rparr>"
    have "rt_fits R H D (t\<lparr>rt_queue := q\<rparr>)" using fits Cons by (auto simp: rt_fits_def)
    then have "ei_ok R H D ?s" using ok tab_put [OF _ Some] by (auto simp: ei_ok_def)
    from ei_on_remote_output_ok [OF this, of i k out] fits Cons k obtain s' where "ei_on_remote_output i out ?s = Inr s'" "ei_ok R H D s'" "ei_uses H ?s s'"
      by (fastforce simp: rt_fits_def)
    then show ?thesis using Some Cons by (simp add: ei_pop_remote_tracks_def rt_is_empty_def rt_pop_output_def ei_uses_def)
  qed
qed

lemma ei_pop_local_ok:
  assumes ok: "ei_ok R H D s" "R \<subseteq> {None, H}"
  shows "\<exists>s'. ei_pop_local_tracks i s = Inr s' \<and> ei_ok R H D s' \<and> ei_uses H s s'"
proof (cases "im_get (ei_local_tracks s) i")
  case None
  then show ?thesis using ok by (simp add: ei_pop_local_tracks_def ei_uses_refl)
next
  case (Some t)
  then obtain k where k: "im2_get2 (ei_local_tracks_id s) i = Some k" and fits: "lt_fits R H D t"
    using ok(1) tabD [of "lt_fits R H D"] unfolding ei_ok_def by blast
  show ?thesis
  proof (cases "lt_queue t")
    case Nil
    have "\<exists>s'. ei_on_local_output i Lo_OnResourceEmpty s = Inr s' \<and> ei_ok R H D s' \<and> ei_uses H s s'"
      by (rule ei_on_local_output_ok [OF ok(1) k]) (use Some Nil in auto)
    then show ?thesis using Some Nil ok by (auto simp: ei_pop_local_tracks_def lt_is_empty_def lt_pop_output_def ei_uses_refl)
  next
    case (Cons out q)
    let ?s = "s\<lparr>ei_local_tracks := im_insert i (t\<lparr>lt_queue := q\<rparr>) (ei_local_tracks s)\<rparr>"
    have "lt_fits R H D (t\<lparr>lt_queue := q\<rparr>)" using fits Cons by (auto simp: lt_fits_def lt_wf_def)
    then have "ei_ok R H D ?s" using ok tab_put [OF _ Some] by (auto simp: ei_ok_def)
    from ei_on_local_output_ok [OF this, of i k out] fits Cons k obtain s' where "ei_on_local_output i out ?s = Inr s'" "ei_ok R H D s'" "ei_uses H ?s s'"
      by (fastforce simp: lt_fits_def)
    then show ?thesis using Some Cons by (simp add: ei_pop_local_tracks_def lt_is_empty_def lt_pop_output_def ei_uses_def)
  qed
qed

lemma ei_pop_bitrate_ok:
  assumes "ee_ignore_absent env" "ei_ok R H D s" "R \<subseteq> {None, H}"
  shows "\<exists>s'. ei_pop_bitrate_allocator env now s = Inr s' \<and> ei_ok R H D s' \<and> ei_uses H s s'"
proof -
  obtain ba out where pop: "ba_pop_output (ei_bitrate_allocator s) = (ba, out)" by fastforce
  let ?s = "s\<lparr>ei_bitrate_allocator := ba\<rparr>"
  have ok: "ei_ok R H D ?s" "ei_uses H s ?s" using assms(2) by (simp_all add: ei_ok_def ei_uses_def)
  note local = ei_local_ok [OF assms(1) ok(1) assms(3), of _ now _ H]
  note remote = ei_remote_ok [OF assms(1) ok(1) assms(3), of _ now _ H]
  have push: "ei_uses H s (ei_push [Io_Event e] ?s)" for e by (auto simp: ei_uses_def)
  show ?thesis
  proof (cases out)
    case None
    then show ?thesis using pop ok by (simp add: ei_pop_bitrate_allocator_def Let_def)
  next
    case (Some x)
    then show ?thesis using pop ok local [of "Li_BitrateAllocation _"] remote [of "Ri_BitrateAllocation _"] push ei_uses_trans [OF ok(2)]
      by (cases x) (fastforce simp: ei_pop_bitrate_allocator_def Let_def split: option.split)+
  qed
qed

lemma ei_poll_ok:
  assumes "ee_ignore_absent env" "ei_ok R H D s" "R \<subseteq> {None, H}"
  shows "\<exists>s'. ei_poll env now c s = Inr s' \<and> ei_ok R H D s' \<and> ei_uses H s s'"
  using ei_pop_bitrate_ok [OF assms, of now] ei_pop_local_ok [OF assms(2,3)] ei_pop_remote_ok [OF assms(2,3)] by (cases c) (simp_all add: ei_poll_def)

lemma ei_poll_all_ok:
  assumes "ee_ignore_absent env" "ei_ok R H D s" "R \<subseteq> {None, H}" "ei_poll_all env now sched s \<noteq> Inl Loop_Unfinished"
  shows "\<exists>s'. ei_poll_all env now sched s = Inr s' \<and> ei_ok R H D s' \<and> ei_uses H s s' \<and> ei_drained s'"
  using assms(2,4)
proof (induction sched arbitrary: s)
  case Nil
  then show ?case by (auto simp: ei_poll_all.simps [of env now "[]"] ei_uses_refl split: if_splits)
next
  case (Cons c cs)
  show ?case
  proof (cases "ei_drained s")
    case True
    then show ?thesis using Cons.prems by (simp add: ei_poll_all.simps [of env now "c # cs"] ei_uses_refl)
  next
    case False
    obtain s1 where s1: "ei_poll env now c s = Inr s1" "ei_ok R H D s1" "ei_uses H s s1" using ei_poll_ok [OF assms(1) Cons.prems(1) assms(3)] by blast
    then have "ei_poll_all env now (c # cs) s = ei_poll_all env now cs s1" using False by (simp add: ei_poll_all.simps [of env now "c # cs"])
    then show ?thesis using Cons.IH [OF s1(2)] Cons.prems(2) ei_uses_trans [OF s1(3)] by auto
  qed
qed

section \<open>Moving between rooms\<close>

definition ei_room :: "endpoint_internal \<Rightarrow> room_hash option" where
  "ei_room s = map_option fst (ei_joined s)"

definition ei_inv :: "endpoint_internal \<Rightarrow> bool" where
  "ei_inv s \<longleftrightarrow> ei_ok {ei_room s} (ei_room s) False s"

definition ei_moves :: "endpoint_internal \<Rightarrow> endpoint_internal \<Rightarrow> bool" where
  "ei_moves s s' \<longleftrightarrow> ei_inv s' \<and> (\<exists>os. ei_queue s' = ei_queue s @ os \<and> sessions (set_option (ei_room s)) (ei_ctls os) = Some (set_option (ei_room s')))"

lemma ei_moves_trans: "ei_moves s s1 \<Longrightarrow> ei_moves s1 s2 \<Longrightarrow> ei_moves s s2"
  by (fastforce simp: ei_moves_def sessions_append)

lemma uses_session: "set cs \<subseteq> (\<lambda>h. (h, Uses)) ` set_option H \<Longrightarrow> sessions (set_option H) cs = Some (set_option H)"
  by (induction cs) auto

lemma ei_uses_moves: "ei_uses (ei_room s) s s' \<Longrightarrow> ei_ok {ei_room s} (ei_room s) False s' \<Longrightarrow> ei_moves s s'"
  using uses_session by (auto simp: ei_uses_def ei_moves_def ei_inv_def ei_room_def)

lemma ei_drained_ok:
  assumes "ei_ok R H D s" "ei_drained s" "R = {None} \<or> D"
  shows "ei_ok {None} None False s"
proof -
  have tabs: "tab_ok (lt_fits R H D) (ei_local_tracks_id s) (ei_local_tracks s)" "tab_ok (rt_fits R H D) (ei_remote_tracks_id s) (ei_remote_tracks s)"
    using assms(1) by (simp_all add: ei_ok_def)
  then have wf: "im_wf (ei_local_tracks s)" "im_wf (ei_remote_tracks s)" by (simp_all add: tab_ok_def)
  have "lt_fits {None} None False t" if "im_get (ei_local_tracks s) i = Some t" "lt_fits R H D t" for i t
  proof -
    have "(i, t) \<in> set (ei_local_tracks s)" using that(1) im_get_eq_Some [OF wf(1)] by simp
    then have "lt_queue t = []" "\<not> lt_shutdown t" using assms(2) by (auto simp: ei_drained_def)
    then show ?thesis using that(2) assms(3) by (auto simp: lt_fits_def)
  qed
  moreover have "rt_fits {None} None False t" if "im_get (ei_remote_tracks s) i = Some t" "rt_fits R H D t" for i t
  proof -
    have "(i, t) \<in> set (ei_remote_tracks s)" using that(1) im_get_eq_Some [OF wf(2)] by simp
    then have "rt_queue t = []" "\<not> rt_shutdown t" using assms(2) by (auto simp: ei_drained_def)
    then show ?thesis using that(2) assms(3) by (auto simp: rt_fits_def)
  qed
  ultimately show ?thesis using tab_mono [OF tabs(1)] tab_mono [OF tabs(2)] by (simp add: ei_ok_def)
qed

lemma ei_local_fold: "ee_ignore_absent env \<Longrightarrow> rfold (\<lambda>(_, i). ei_local env now i input) ps s =
   rbind (rfold (\<lambda>(_, i). tg_event True i (lt_on_event now input)) ps (ei_local_tracks s)) (\<lambda>ts. Inr (s\<lparr>ei_local_tracks := ts\<rparr>))"
  by (induction ps arbitrary: s) (auto simp: ei_local_def rbind_assoc split: prod.split)

lemma ei_remote_fold: "ee_ignore_absent env \<Longrightarrow> rfold (\<lambda>(_, i). ei_remote env now i input) ps s =
   rbind (rfold (\<lambda>(_, i). tg_event True i (rt_on_event now input)) ps (ei_remote_tracks s)) (\<lambda>ts. Inr (s\<lparr>ei_remote_tracks := ts\<rparr>))"
  by (induction ps arbitrary: s) (auto simp: ei_remote_def rbind_assoc split: prod.split)

text \<open>An event for all tracks, first the local and then the remote ones.\<close>

lemma ei_tell_all:
  assumes "ee_ignore_absent env" "ei_ok R H D s" "\<And>t. lt_fits R H D t \<Longrightarrow> \<exists>t'. lt_on_event now li t = Inr t' \<and> lt_fits R' H' D' t'"
    "\<And>t. rt_fits R H D t \<Longrightarrow> \<exists>t'. rt_on_event now ri t = Inr t' \<and> rt_fits R' H' D' t'"
  shows "\<exists>ls rs. rfold (\<lambda>(_, i). ei_local env now i li) (im2_pairs (ei_local_tracks_id s)) s = Inr (s\<lparr>ei_local_tracks := ls\<rparr>) \<and>
     rfold (\<lambda>(_, i). ei_remote env now i ri) (im2_pairs (ei_remote_tracks_id s)) (s\<lparr>ei_local_tracks := ls\<rparr>) = Inr (s\<lparr>ei_local_tracks := ls, ei_remote_tracks := rs\<rparr>) \<and>
     ei_ok R' H' D' (s\<lparr>ei_local_tracks := ls, ei_remote_tracks := rs\<rparr>)"
proof -
  have tabs: "tab_ok (lt_fits R H D) (ei_local_tracks_id s) (ei_local_tracks s)" "tab_ok (rt_fits R H D) (ei_remote_tracks_id s) (ei_remote_tracks s)"
    using assms(2) by (simp_all add: ei_ok_def)
  from tab_all_events [where f = "lt_on_event now li" and fits' = "lt_fits R' H' D'", OF tabs(1) assms(3)]
  obtain ls where ls: "rfold (\<lambda>(_, i). tg_event True i (lt_on_event now li)) (im2_pairs (ei_local_tracks_id s)) (ei_local_tracks s) = Inr ls"
    "tab_ok (lt_fits R' H' D') (ei_local_tracks_id s) ls" by blast
  from tab_all_events [where f = "rt_on_event now ri" and fits' = "rt_fits R' H' D'", OF tabs(2) assms(4)]
  obtain rs where rs: "rfold (\<lambda>(_, i). tg_event True i (rt_on_event now ri)) (im2_pairs (ei_remote_tracks_id s)) (ei_remote_tracks s) = Inr rs"
    "tab_ok (rt_fits R' H' D') (ei_remote_tracks_id s) rs" by blast
  have "rfold (\<lambda>(_, i). ei_local env now i li) (im2_pairs (ei_local_tracks_id s)) s = Inr (s\<lparr>ei_local_tracks := ls\<rparr>)"
    using ls(1) by (simp add: ei_local_fold [OF assms(1)])
  moreover have "rfold (\<lambda>(_, i). ei_remote env now i ri) (im2_pairs (ei_remote_tracks_id s)) (s\<lparr>ei_local_tracks := ls\<rparr>) = Inr (s\<lparr>ei_local_tracks := ls, ei_remote_tracks := rs\<rparr>)"
    using rs(1) by (simp add: ei_remote_fold [OF assms(1)])
  ultimately show ?thesis using ls(2) rs(2) by (auto simp: ei_ok_def)
qed

lemma ei_left_moves:
  assumes "ei_joined s = Some (h, room, peer, mode)" "ei_queue s' = ei_queue s @ os" "set (ei_ctls os) \<subseteq> (\<lambda>h. (h, Uses)) ` set_option (Some h)"
    "ei_joined s' = None" "ei_ok {None} None False s'"
  shows "ei_moves s (ei_left now h room peer s')"
proof -
  have "sessions {h} (ei_ctls os) = Some {h}" using uses_session [of "ei_ctls os" "Some h"] assms(3) by simp
  then show ?thesis using assms by (auto simp: ei_moves_def ei_left_def ei_inv_def ei_room_def sessions_append)
qed

lemma ei_left_simps [simp]: "ei_joined (ei_left now h room peer s) = ei_joined s" "ei_cfg (ei_left now h room peer s) = ei_cfg s"
  by (simp_all add: ei_left_def)

lemma rbind_unfinished: "rbind m f \<noteq> Inl e \<Longrightarrow> m \<noteq> Inl e"
  by auto

lemma ei_ok_joined [simp]: "ei_ok R H D (s\<lparr>ei_joined := j\<rparr>) = ei_ok R H D s" "ei_ok R H D (s\<lparr>ei_state := st\<rparr>) = ei_ok R H D s"
  "ei_ok R H D (s\<lparr>ei_wait_join := w\<rparr>) = ei_ok R H D s" "ei_ok R H D (s\<lparr>ei_queue := q\<rparr>) = ei_ok R H D s"
  by (simp_all add: ei_ok_def)

lemma ei_leave_starts:
  assumes env: "ee_ignore_absent env" and inv: "ei_inv s" and j: "ei_joined s = Some (h, room, peer, mode)"
  obtains t where "ei_ok {None} (Some h) False t" "ei_queue t = ei_queue s" "ei_joined t = None" "ei_cfg t = ei_cfg s"
    "\<And>sched. ei_leave_room env now sched s = rbind (ei_poll_all env now sched t) (\<lambda>s3. Inr (ei_left now h room peer s3))"
proof -
  let ?s = "s\<lparr>ei_joined := None\<rparr>"
  have ok: "ei_ok {Some h} (Some h) False ?s" using inv j by (simp add: ei_inv_def ei_room_def)
  from ei_tell_all [OF env ok lt_fits_leave [where h = h and D = False and now = now] rt_fits_leave [where h = h and D = False and now = now]] obtain ls rs where
    tell: "rfold (\<lambda>(_, i). ei_local env now i Li_LeaveRoom) (im2_pairs (ei_local_tracks_id s)) ?s = Inr (?s\<lparr>ei_local_tracks := ls\<rparr>)"
     "rfold (\<lambda>(_, i). ei_remote env now i Ri_LeaveRoom) (im2_pairs (ei_remote_tracks_id s)) (?s\<lparr>ei_local_tracks := ls\<rparr>) = Inr (?s\<lparr>ei_local_tracks := ls, ei_remote_tracks := rs\<rparr>)"
     and ok2: "ei_ok {None} (Some h) False (?s\<lparr>ei_local_tracks := ls, ei_remote_tracks := rs\<rparr>)" by auto
  show thesis by (rule that [OF ok2]) (use j tell in \<open>simp_all add: ei_leave_room_def\<close>)
qed

lemma ei_leave_ok:
  assumes env: "ee_ignore_absent env" and inv: "ei_inv s" and fin: "ei_leave_room env now sched s \<noteq> Inl Loop_Unfinished"
  shows "\<exists>s'. ei_leave_room env now sched s = Inr s' \<and> ei_moves s s' \<and> ei_joined s' = None \<and> ei_cfg s' = ei_cfg s"
proof (cases "ei_joined s")
  case None
  then show ?thesis using inv by (simp add: ei_leave_room_def ei_moves_def)
next
  case (Some j)
  then obtain h room peer mode where j: "ei_joined s = Some (h, room, peer, mode)" by (cases j) auto
  obtain t where t: "ei_ok {None} (Some h) False t" "ei_queue t = ei_queue s" "ei_joined t = None" "ei_cfg t = ei_cfg s"
    and eq: "\<And>sched. ei_leave_room env now sched s = rbind (ei_poll_all env now sched t) (\<lambda>s3. Inr (ei_left now h room peer s3))"
    using ei_leave_starts [OF env inv j, of now] by blast
  have "ei_poll_all env now sched t \<noteq> Inl Loop_Unfinished" using fin unfolding eq by (rule rbind_unfinished)
  from ei_poll_all_ok [OF env t(1) _ this] obtain s3 where s3: "ei_poll_all env now sched t = Inr s3" "ei_ok {None} (Some h) False s3" "ei_uses (Some h) t s3" "ei_drained s3" by auto
  then have "ei_ok {None} None False s3" using ei_drained_ok by blast
  moreover obtain os where "ei_queue s3 = ei_queue s @ os" "set (ei_ctls os) \<subseteq> (\<lambda>h. (h, Uses)) ` set_option (Some h)" "ei_joined s3 = None" "ei_cfg s3 = ei_cfg s"
    using s3(3) t by (auto simp: ei_uses_def)
  ultimately show ?thesis using ei_left_moves [OF j] s3(1) eq by simp
qed

lemma ei_join_ok:
  assumes env: "ee_ignore_absent env" and inv: "ei_inv s" and fin: "ei_join_room env now sched req_id room peer meta publish subscribe mixer s \<noteq> Inl Loop_Unfinished"
  shows "\<exists>s'. ei_join_room env now sched req_id room peer meta publish subscribe mixer s = Inr s' \<and> ei_moves s s'"
proof -
  let ?h = "room_hash_generate (ee_cluster env) (ec_app (ei_cfg s)) room"
  let ?s = "ei_push [Io_RpcRes req_id (Ers_JoinRoom (Inr ()))] s"
  have inv0: "ei_inv ?s" and m0: "ei_moves s ?s" using inv by (auto simp: ei_inv_def ei_room_def ei_moves_def)
  have "ei_leave_room env now sched ?s \<noteq> Inl Loop_Unfinished" using fin unfolding ei_join_room_def Let_def by (rule rbind_unfinished)
  from ei_leave_ok [OF env inv0 this] obtain s1 where s1: "ei_leave_room env now sched ?s = Inr s1" "ei_moves ?s s1" "ei_joined s1 = None" by blast
  let ?os = "[Io_Cluster ?h (Cec_Join peer meta publish subscribe mixer)] @ (if ec_record (ei_cfg s1) then [Io_RecordEvent now (Rec_JoinRoom (ec_app (ei_cfg s1)) room peer)] else []) @
    [Io_PeerEvent now (Pe_Join room peer)]"
  let ?t = "ei_push ?os (s1\<lparr>ei_joined := Some (?h, room, peer, map_option amc_mode mixer)\<rparr>)"
  have ok: "ei_ok {None} None False ?t" using s1(2,3) by (simp add: ei_moves_def ei_inv_def ei_room_def)
  from ei_tell_all [OF env ok lt_fits_join [where h = ?h and D = False and now = now] rt_fits_join [where h = ?h and D = False and now = now]] obtain ls rs where
    tell: "rfold (\<lambda>(_, i). ei_local env now i (Li_JoinRoom ?h)) (im2_pairs (ei_local_tracks_id ?t)) ?t = Inr (?t\<lparr>ei_local_tracks := ls\<rparr>)"
     "rfold (\<lambda>(_, i). ei_remote env now i (Ri_JoinRoom ?h)) (im2_pairs (ei_remote_tracks_id ?t)) (?t\<lparr>ei_local_tracks := ls\<rparr>) = Inr (?t\<lparr>ei_local_tracks := ls, ei_remote_tracks := rs\<rparr>)"
     and ok2: "ei_ok {Some ?h} (Some ?h) False (?t\<lparr>ei_local_tracks := ls, ei_remote_tracks := rs\<rparr>)" by auto
  have "ei_join_room env now sched req_id room peer meta publish subscribe mixer s = Inr (?t\<lparr>ei_local_tracks := ls, ei_remote_tracks := rs\<rparr>)"
    using s1(1) tell by (simp add: ei_join_room_def Let_def)
  moreover have "ei_moves s1 (?t\<lparr>ei_local_tracks := ls, ei_remote_tracks := rs\<rparr>)"
    using ok2 s1(3) by (simp add: ei_moves_def ei_inv_def ei_room_def)
  ultimately show ?thesis using ei_moves_trans [OF m0 ei_moves_trans [OF s1(2)]] by blast
qed

lemma ei_shutdown_starts:
  assumes env: "ee_ignore_absent env" and inv: "ei_inv s" and "\<not> ei_shutdown s"
  obtains t where "ei_ok {None, ei_room s} (ei_room s) True t" "ei_queue t = ei_queue s" "ei_joined t = ei_joined s"
    "\<And>sched. ei_on_shutdown env now sched s = rbind (ei_poll_all env now sched t) (\<lambda>s1. case ei_joined s1 of None \<Rightarrow> Inr s1
       | Some (hash, room, peer, _) \<Rightarrow> Inr (ei_left now hash room peer (s1\<lparr>ei_joined := None\<rparr>)))"
proof -
  let ?H = "ei_room s"
  have tabs: "tab_ok (lt_fits {?H} ?H False) (ei_local_tracks_id s) (ei_local_tracks s)" "tab_ok (rt_fits {?H} ?H False) (ei_remote_tracks_id s) (ei_remote_tracks s)"
    using inv by (simp_all add: ei_inv_def ei_ok_def)
  from tab_run_all [where f = "lt_on_shutdown now" and fits' = "lt_fits {None, ?H} ?H True", OF tabs(1) lt_fits_shutdown [where H = ?H and D = False and now = now]]
  obtain ls where ls: "tg_run_all (lt_on_shutdown now) (ei_local_tracks s) = Inr ls" "tab_ok (lt_fits {None, ?H} ?H True) (ei_local_tracks_id s) ls" by blast
  from tab_run_all [where f = "rt_on_shutdown now" and fits' = "rt_fits {None, ?H} ?H True", OF tabs(2) rt_fits_shutdown [where H = ?H and D = False and now = now]]
  obtain rs where rs: "tg_run_all (rt_on_shutdown now) (ei_remote_tracks s) = Inr rs" "tab_ok (rt_fits {None, ?H} ?H True) (ei_remote_tracks_id s) rs" by blast
  show thesis
  proof (rule that)
    show "ei_ok {None, ?H} ?H True (s\<lparr>ei_shutdown := True, ei_local_tracks := ls, ei_remote_tracks := rs\<rparr>)" using ls(2) rs(2) by (simp add: ei_ok_def)
  qed (use assms(3) ls(1) rs(1) in \<open>simp_all add: ei_on_shutdown_def\<close>)
qed

lemma ei_shutdown_ok:
  assumes env: "ee_ignore_absent env" and inv: "ei_inv s" and fin: "ei_on_shutdown env now sched s \<noteq> Inl Loop_Unfinished"
  shows "\<exists>s'. ei_on_shutdown env now sched s = Inr s' \<and> ei_moves s s'"
proof (cases "ei_shutdown s")
  case True
  then show ?thesis using inv by (simp add: ei_on_shutdown_def ei_moves_def)
next
  case False
  let ?H = "ei_room s"
  obtain t where t: "ei_ok {None, ?H} ?H True t" "ei_queue t = ei_queue s" "ei_joined t = ei_joined s"
    and eq: "\<And>sched. ei_on_shutdown env now sched s = rbind (ei_poll_all env now sched t) (\<lambda>s1. case ei_joined s1 of None \<Rightarrow> Inr s1
       | Some (hash, room, peer, _) \<Rightarrow> Inr (ei_left now hash room peer (s1\<lparr>ei_joined := None\<rparr>)))"
    using ei_shutdown_starts [OF env inv False, of now] by blast
  have "ei_poll_all env now sched t \<noteq> Inl Loop_Unfinished" using fin unfolding eq by (rule rbind_unfinished)
  from ei_poll_all_ok [OF env t(1) _ this] obtain s1 where s1: "ei_poll_all env now sched t = Inr s1" "ei_ok {None, ?H} ?H True s1" "ei_uses ?H t s1" "ei_drained s1" by auto
  then have none: "ei_ok {None} None False s1" using ei_drained_ok by blast
  obtain os where os: "ei_queue s1 = ei_queue s @ os" "set (ei_ctls os) \<subseteq> (\<lambda>h. (h, Uses)) ` set_option ?H" "ei_joined s1 = ei_joined s"
    using s1(3) t by (auto simp: ei_uses_def)
  show ?thesis
  proof (cases "ei_joined s")
    case None
    then show ?thesis using eq s1(1) os none uses_session [OF os(2)] by (simp add: ei_moves_def ei_inv_def ei_room_def)
  next
    case (Some j)
    then obtain h room peer mode where j: "ei_joined s = Some (h, room, peer, mode)" by (cases j) auto
    then show ?thesis using ei_left_moves [OF j, of "s1\<lparr>ei_joined := None\<rparr>" os now] eq s1(1) os none by (simp add: ei_room_def)
  qed
qed

section \<open>Operations keep the invariant\<close>

datatype ei_op = Ei_Tick nat | Ei_Shutdown nat "ei_child list" | Ei_Transport nat "ei_child list" nat transport_event
  | Ei_Rpc nat "ei_child list" nat endpoint_req | Ei_Cluster nat cluster_endpoint_event | Ei_Pop nat "ei_child list"

type_synonym ei_run_state = "endpoint_internal \<times> internal_output list"

definition ei_step :: "'f endpoint_env \<Rightarrow> ei_op \<Rightarrow> ei_run_state \<Rightarrow> ei_run_state run" where
  "ei_step env x = (\<lambda>(s, log). case x of
     Ei_Tick now \<Rightarrow> rbind (ei_on_tick now s) (\<lambda>s1. Inr (s1, log))
   | Ei_Shutdown now sched \<Rightarrow> rbind (ei_on_shutdown env now sched s) (\<lambda>s1. Inr (s1, log))
   | Ei_Transport now sched index event \<Rightarrow> rbind (ei_on_transport_event env now sched index event s) (\<lambda>s1. Inr (s1, log))
   | Ei_Rpc now sched req_id req \<Rightarrow> rbind (ei_on_transport_rpc env now sched req_id req s) (\<lambda>s1. Inr (s1, log))
   | Ei_Cluster now event \<Rightarrow> rbind (ei_on_cluster_event env now event s) (\<lambda>s1. Inr (s1, log))
   | Ei_Pop now sched \<Rightarrow> rbind (ei_pop_output env now sched s) (\<lambda>(s1, out). Inr (s1, log @ (case out of None \<Rightarrow> [] | Some x \<Rightarrow> [x]))))"

text \<open>A transport starts a track under an id that is not in use, and the task group gives it an index that no
  id names; the first state it reports is not \<^verbatim>\<open>Connected\<close> or \<^verbatim>\<open>ConnectError\<close>; media packets from the
  cluster have the widths that the conversion gives them.\<close>

fun ei_expects :: "ei_op \<Rightarrow> endpoint_internal \<Rightarrow> bool" where
  "ei_expects (Ei_Transport _ _ index (Te_RemoteTrack track (Rte_Started _ _ _))) s \<longleftrightarrow>
     im2_get1 (ei_remote_tracks_id s) track = None \<and> im2_get2 (ei_remote_tracks_id s) index = None"
| "ei_expects (Ei_Transport _ _ index (Te_LocalTrack track (Lte_Started _))) s \<longleftrightarrow>
     im2_get1 (ei_local_tracks_id s) track = None \<and> im2_get2 (ei_local_tracks_id s) index = None"
| "ei_expects (Ei_Transport _ _ _ (Te_State (Tst_Connected _))) s \<longleftrightarrow> ei_state s \<noteq> None"
| "ei_expects (Ei_Transport _ _ _ (Te_State (Tst_ConnectError _))) s \<longleftrightarrow> ei_state s \<noteq> None"
| "ei_expects (Ei_Cluster _ (Cee_LocalTrack _ (Cle_Media _ pkt))) s \<longleftrightarrow> pkt_wf pkt"
| "ei_expects _ _ \<longleftrightarrow> True"

definition ei_admits :: "'f endpoint_env \<Rightarrow> ei_op \<Rightarrow> ei_run_state \<Rightarrow> bool" where
  "ei_admits env x st \<longleftrightarrow> ei_expects x (fst st) \<and> ei_step env x st \<noteq> Inl Loop_Unfinished"

lemma ei_moves_refl: "ei_inv s \<Longrightarrow> ei_moves s s"
  by (simp add: ei_moves_def)

lemma ei_moves_push: "ei_inv s \<Longrightarrow> sessions (set_option (ei_room s)) (ei_ctls os) = Some (set_option (ei_room s)) \<Longrightarrow> ei_moves s (ei_push os s)"
  by (simp add: ei_moves_def ei_inv_def ei_room_def)

lemma ei_local_moves: "ee_ignore_absent env \<Longrightarrow> ei_inv s \<Longrightarrow> lt_plain input \<Longrightarrow> \<exists>s'. ei_local env now i input s = Inr s' \<and> ei_moves s s'"
  using ei_local_ok [of env "{ei_room s}" "ei_room s" False s input now i "ei_room s"] ei_uses_moves [of s] by (auto simp: ei_inv_def)

lemma ei_remote_moves: "ee_ignore_absent env \<Longrightarrow> ei_inv s \<Longrightarrow> rt_plain input \<Longrightarrow> \<exists>s'. ei_remote env now i input s = Inr s' \<and> ei_moves s s'"
  using ei_remote_ok [of env "{ei_room s}" "ei_room s" False s input now i "ei_room s"] ei_uses_moves [of s] by (auto simp: ei_inv_def)

lemma ei_tick_moves:
  assumes "ei_inv s" shows "\<exists>s'. ei_on_tick now s = Inr s' \<and> ei_moves s s'"
proof -
  let ?H = "ei_room s"
  have tabs: "tab_ok (lt_fits {?H} ?H False) (ei_local_tracks_id s) (ei_local_tracks s)" "tab_ok (rt_fits {?H} ?H False) (ei_remote_tracks_id s) (ei_remote_tracks s)"
    using assms by (simp_all add: ei_inv_def ei_ok_def)
  have "\<exists>ls. tg_run_all (\<lambda>t. Inr (lt_on_tick now t)) (ei_local_tracks s) = Inr ls \<and> tab_ok (lt_fits {?H} ?H False) (ei_local_tracks_id s) ls"
    by (rule tab_run_all [OF tabs(1)]) (simp add: lt_fits_tick)
  moreover have "\<exists>rs. tg_run_all (\<lambda>t. Inr (rt_on_tick now t)) (ei_remote_tracks s) = Inr rs \<and> tab_ok (rt_fits {?H} ?H False) (ei_remote_tracks_id s) rs"
    by (rule tab_run_all [OF tabs(2)]) (simp add: rt_on_tick_def)
  ultimately show ?thesis by (auto simp: ei_on_tick_def ei_moves_def ei_inv_def ei_ok_def ei_room_def)
qed

lemma ei_pop_moves:
  assumes "ee_ignore_absent env" "ei_inv s"
  shows "\<exists>s' out. ei_pop_output env now sched s = Inr (s', out) \<and> ei_inv s' \<and>
     (\<exists>os. (case out of None \<Rightarrow> [] | Some x \<Rightarrow> [x]) @ ei_queue s' = ei_queue s @ os \<and> sessions (set_option (ei_room s)) (ei_ctls os) = Some (set_option (ei_room s')))"
  using assms(2)
proof (induction sched arbitrary: s)
  case Nil
  then show ?case by (cases "ei_queue s") (auto simp: ei_pop_output.simps [of env now "[]"] ei_inv_def ei_room_def)
next
  case (Cons c cs)
  show ?case
  proof (cases "ei_queue s")
    case Nil
    obtain s1 where s1: "ei_poll env now c s = Inr s1" "ei_moves s s1"
      using ei_poll_ok [OF assms(1), of "{ei_room s}" "ei_room s" False s now c] Cons.prems ei_uses_moves [of s] by (auto simp: ei_inv_def)
    then have eq: "ei_pop_output env now (c # cs) s = ei_pop_output env now cs s1" using Nil by (simp add: ei_pop_output.simps [of env now "c # cs"])
    have "ei_inv s1" using s1(2) by (simp add: ei_moves_def)
    from Cons.IH [OF this] s1(2) Nil show ?thesis unfolding eq by (fastforce simp: ei_moves_def sessions_append)
  next
    case (Cons x q)
    then show ?thesis using Cons.prems by (auto simp: ei_pop_output.simps [of env now "c # cs"] ei_inv_def ei_room_def)
  qed
qed

lemma ei_remote_track_moves:
  assumes env: "ee_ignore_absent env" and inv: "ei_inv s" and "ei_expects (Ei_Transport now sched index (Te_RemoteTrack track event)) s"
  shows "\<exists>s'. ei_on_transport_remote_track env now index track event s = Inr s' \<and> ei_moves s s'"
proof -
  let ?s = "case rte_need_create event of None \<Rightarrow> s
        | Some (name, _, meta) \<Rightarrow> s\<lparr>ei_remote_tracks := im_insert index (rt_new (map_option fst (ei_joined s)) track name meta (ec_record (ei_cfg s))) (ei_remote_tracks s),
            ei_remote_tracks_id := im2_insert track index (ei_remote_tracks_id s)\<rparr>"
  have new: "rt_fits {ei_room s} (ei_room s) False (rt_new (ei_room s) track name meta r)" for name meta r by (simp add: rt_fits_def rt_new_def)
  have "ei_moves s ?s"
  proof (cases event)
    case (Rte_Started name priority meta)
    then have "tab_ok (rt_fits {ei_room s} (ei_room s) False) (im2_insert track index (ei_remote_tracks_id s))
        (im_insert index (rt_new (ei_room s) track name meta (ec_record (ei_cfg s))) (ei_remote_tracks s))"
      using assms(2,3) new by (intro tab_new) (simp_all add: ei_inv_def ei_ok_def)
    then show ?thesis using inv Rte_Started by (simp add: rte_need_create_def ei_moves_def ei_inv_def ei_ok_def ei_room_def)
  qed (use inv in \<open>simp_all add: rte_need_create_def ei_moves_refl\<close>)
  moreover have "\<exists>s'. ei_on_transport_remote_track env now index track event s = Inr s' \<and> ei_moves ?s s'"
    using ei_remote_moves [OF env, of ?s "Ri_Event event" now] ei_moves_refl [of ?s] calculation
    unfolding ei_on_transport_remote_track_def Let_def by (auto simp: ei_moves_def [of s] split: option.split)
  ultimately show ?thesis using ei_moves_trans by blast
qed

lemma ei_local_track_moves:
  assumes env: "ee_ignore_absent env" and inv: "ei_inv s" and "ei_expects (Ei_Transport now sched index (Te_LocalTrack track event)) s"
  shows "\<exists>s'. ei_on_transport_local_track env now index track event s = Inr s' \<and> ei_moves s s'"
proof -
  let ?s = "case lte_need_create event of None \<Rightarrow> s
        | Some kind \<Rightarrow> ei_push [Io_PeerEvent now (Pe_LocalTrack track kind)]
            (s\<lparr>ei_local_tracks := im_insert index (lt_new (ee_timer env) track kind (map_option fst (ei_joined s))) (ei_local_tracks s),
            ei_local_tracks_id := im2_insert track index (ei_local_tracks_id s)\<rparr>)"
  have new: "lt_fits {ei_room s} (ei_room s) False (lt_new timer track kind (ei_room s))" for timer kind by (simp add: lt_fits_def lt_new_def lt_wf_def ps_wf_new)
  have "ei_moves s ?s"
  proof (cases event)
    case (Lte_Started kind)
    then have "tab_ok (lt_fits {ei_room s} (ei_room s) False) (im2_insert track index (ei_local_tracks_id s))
        (im_insert index (lt_new (ee_timer env) track kind (ei_room s)) (ei_local_tracks s))"
      using assms(2,3) new by (intro tab_new) (simp_all add: ei_inv_def ei_ok_def)
    then show ?thesis using inv Lte_Started by (simp add: lte_need_create_def ei_moves_def ei_inv_def ei_ok_def ei_room_def)
  qed (use inv in \<open>simp_all add: lte_need_create_def ei_moves_refl\<close>)
  moreover have "\<exists>s'. ei_on_transport_local_track env now index track event s = Inr s' \<and> ei_moves ?s s'"
    using ei_local_moves [OF env, of ?s "Li_Event event" now] ei_moves_refl [of ?s] calculation
    unfolding ei_on_transport_local_track_def Let_def by (auto simp: ei_moves_def [of s] split: option.split)
  ultimately show ?thesis using ei_moves_trans by blast
qed

lemma ei_moves_fields: "ei_moves s (s\<lparr>ei_state := st\<rparr>) = ei_inv s" "ei_moves s (s\<lparr>ei_wait_join := w\<rparr>) = ei_inv s" "ei_moves s (ei_allocator f s) = ei_inv s"
  by (simp_all add: ei_moves_def ei_inv_def ei_room_def)

lemma ei_then_shutdown:
  assumes "ee_ignore_absent env" "ei_moves s s1" "ei_on_shutdown env now sched s1 \<noteq> Inl Loop_Unfinished"
  shows "\<exists>s'. ei_on_shutdown env now sched s1 = Inr s' \<and> ei_moves s s'"
proof -
  have "ei_inv s1" using assms(2) by (simp add: ei_moves_def)
  from ei_shutdown_ok [OF assms(1) this assms(3)] show ?thesis using ei_moves_trans [OF assms(2)] by blast
qed

lemma ei_then_join:
  assumes "ee_ignore_absent env" "ei_moves s s1" "ei_join_room env now sched req_id room peer meta publish subscribe mixer s1 \<noteq> Inl Loop_Unfinished"
  shows "\<exists>s'. ei_join_room env now sched req_id room peer meta publish subscribe mixer s1 = Inr s' \<and> ei_moves s s'"
proof -
  have "ei_inv s1" using assms(2) by (simp add: ei_moves_def)
  from ei_join_ok [OF assms(1) this assms(3)] show ?thesis using ei_moves_trans [OF assms(2)] by blast
qed

lemma ei_state_moves:
  assumes env: "ee_ignore_absent env" and inv: "ei_inv s" and exp: "ei_expects (Ei_Transport now sched index (Te_State st)) s"
    and fin: "ei_on_transport_state_changed env now sched st s \<noteq> Inl Loop_Unfinished"
  shows "\<exists>s'. ei_on_transport_state_changed env now sched st s = Inr s' \<and> ei_moves s s'"
proof -
  let ?s = "s\<lparr>ei_state := Some (now, st)\<rparr>"
  have m: "ei_moves s (ei_push os ?s)" if "ei_ctls os = []" for os using inv that by (simp add: ei_moves_def ei_inv_def ei_room_def)
  show ?thesis
  proof (cases st)
    case (Tst_Connected ip)
    then obtain pre where pre: "ei_state s = Some pre" using exp by auto
    obtain ts ev where tsev: "pre = (ts, ev)" by (cases pre)
    let ?os = "[Io_PeerEvent now (case ev of Tst_Reconnecting _ \<Rightarrow> Pe_Reconnected (after_ms ts now) ip | _ \<Rightarrow> Pe_Connected (after_ms ts now) ip)]"
    have m1: "ei_moves s (ei_push ?os ?s)" by (rule m) simp
    then have m2: "ei_moves s ((ei_push ?os ?s)\<lparr>ei_wait_join := None\<rparr>)" by (simp add: ei_moves_def ei_inv_def ei_room_def)
    show ?thesis using fin pre tsev m1 ei_then_join [OF env m2] Tst_Connected
      by (auto simp: ei_on_transport_state_changed_def Let_def split: option.splits)
  next
    case (Tst_ConnectError err)
    then obtain pre where pre: "ei_state s = Some pre" using exp by auto
    obtain ts ev where tsev: "pre = (ts, ev)" by (cases pre)
    have m1: "ei_moves s (ei_push [Io_PeerEvent now (Pe_ConnectError (after_ms ts now) 0)] ?s)" by (rule m) simp
    show ?thesis using fin pre tsev ei_then_shutdown [OF env m1] Tst_ConnectError by (auto simp: ei_on_transport_state_changed_def Let_def)
  next
    case (Tst_Disconnected err)
    let ?os = "[Io_PeerEvent now (Pe_Disconnected 0 0)] @ (if ec_record (ei_cfg ?s) then [Io_RecordEvent now Rec_Disconnected] else [])"
    have m1: "ei_moves s (ei_push ?os ?s)" by (rule m) simp
    show ?thesis using fin ei_then_shutdown [OF env m1] Tst_Disconnected unfolding ei_on_transport_state_changed_def Let_def by simp
  qed (use inv m in \<open>auto simp: ei_on_transport_state_changed_def Let_def ei_moves_fields\<close>)
qed

lemma ei_in_room_moves: "ei_inv s \<Longrightarrow> (\<And>room peer. ei_act (Io_Cluster room (control peer)) = Some (room, Uses)) \<Longrightarrow> ei_moves s (ei_in_room req_id res control s)"
  by (auto simp: ei_in_room_def ei_room_def split: option.split intro!: ei_moves_push)

lemma ei_in_manual_moves: "ei_inv s \<Longrightarrow> ei_moves s (ei_in_manual_mode req_id res control s)"
  by (auto simp: ei_in_manual_mode_def ei_room_def split: option.split audio_mixer_mode.split intro!: ei_moves_push)

lemma ei_rpc_moves:
  assumes env: "ee_ignore_absent env" and inv: "ei_inv s" and fin: "ei_on_transport_rpc env now sched req_id req s \<noteq> Inl Loop_Unfinished"
  shows "\<exists>s'. ei_on_transport_rpc env now sched req_id req s = Inr s' \<and> ei_moves s s'"
proof (cases req)
  case (Erq_JoinRoom room peer meta publish subscribe mixer)
  then show ?thesis using fin inv ei_then_join [OF env ei_moves_refl [OF inv], of now sched req_id room peer meta publish subscribe mixer]
    by (auto simp: ei_on_transport_rpc_def ei_moves_fields)
next
  case Erq_LeaveRoom
  let ?s = "ei_push [Io_RpcRes req_id (Ers_LeaveRoom (Inr ()))] (s\<lparr>ei_wait_join := None\<rparr>)"
  have m: "ei_moves s ?s" "ei_inv ?s" using inv by (simp_all add: ei_moves_def ei_inv_def ei_room_def)
  then show ?thesis using fin Erq_LeaveRoom ei_leave_ok [OF env m(2), of now sched] ei_moves_trans [OF m(1)]
    by (auto simp: ei_on_transport_rpc_def Let_def)
next
  case (Erq_RemoteTrack track r)
  then show ?thesis using ei_remote_moves [OF env inv] ei_moves_refl [OF inv] by (simp add: ei_on_transport_rpc_def split: option.split)
next
  case (Erq_LocalTrack track r)
  then show ?thesis using ei_local_moves [OF env inv] ei_moves_refl [OF inv] by (simp add: ei_on_transport_rpc_def split: option.split)
next
  case (Erq_AudioMixer r)
  then show ?thesis using ei_in_manual_moves [OF inv] by (cases r) (simp_all add: ei_on_transport_rpc_def)
next
  case (Erq_MessageChannel label r)
  then show ?thesis using inv by (cases r) (auto simp: ei_on_transport_rpc_def ei_on_message_channel_def intro!: ei_in_room_moves)
qed (use inv in \<open>auto simp: ei_on_transport_rpc_def intro!: ei_in_room_moves\<close>)

lemma ei_cluster_moves:
  assumes env: "ee_ignore_absent env" and inv: "ei_inv s" and exp: "ei_expects (Ei_Cluster now event) s"
  shows "\<exists>s'. ei_on_cluster_event env now event s = Inr s' \<and> ei_moves s s'"
proof (cases event)
  case (Cee_RemoteTrack track ev)
  then show ?thesis using ei_remote_moves [OF env inv] ei_moves_refl [OF inv] by (simp add: ei_on_cluster_event_def ei_on_cluster_remote_track_def split: option.split)
next
  case (Cee_LocalTrack track ev)
  then have "lt_plain (Li_Cluster ev)" using exp by (cases ev) auto
  then show ?thesis using Cee_LocalTrack ei_local_moves [OF env inv] ei_moves_refl [OF inv] by (simp add: ei_on_cluster_event_def ei_on_cluster_local_track_def split: option.split)
next
  case (Cee_AudioMixer ev)
  then show ?thesis using inv by (cases ev) (auto simp: ei_on_cluster_event_def intro!: ei_moves_push)
qed (use inv in \<open>auto simp: ei_on_cluster_event_def intro!: ei_moves_push\<close>)

lemma ei_transport_moves:
  assumes env: "ee_ignore_absent env" and inv: "ei_inv s" and exp: "ei_expects (Ei_Transport now sched index event) s"
    and fin: "ei_on_transport_event env now sched index event s \<noteq> Inl Loop_Unfinished"
  shows "\<exists>s'. ei_on_transport_event env now sched index event s = Inr s' \<and> ei_moves s s'"
proof (cases event)
  case (Te_State st)
  then show ?thesis using ei_state_moves [OF env inv] exp fin by (simp add: ei_on_transport_event_def)
next
  case (Te_RemoteTrack track ev)
  then show ?thesis using ei_remote_track_moves [OF env inv] exp by (simp add: ei_on_transport_event_def)
next
  case (Te_LocalTrack track ev)
  then show ?thesis using ei_local_track_moves [OF env inv] exp by (simp add: ei_on_transport_event_def)
qed (use inv in \<open>simp_all add: ei_on_transport_event_def ei_moves_fields ei_moves_refl\<close>)

lemma ei_step_sessions:
  assumes env: "ee_ignore_absent env" and inv: "ei_inv (fst st)" and adm: "ei_admits env x st"
  shows "\<exists>st' cs. ei_step env x st = Inr st' \<and> ei_inv (fst st') \<and> ei_ctls (snd st' @ ei_queue (fst st')) = ei_ctls (snd st @ ei_queue (fst st)) @ cs \<and>
     sessions (set_option (ei_room (fst st))) cs = Some (set_option (ei_room (fst st')))"
proof -
  obtain s log where st: "st = (s, log)" by (cases st)
  have inv: "ei_inv s" and exp: "ei_expects x s" and fin: "ei_step env x (s, log) \<noteq> Inl Loop_Unfinished" using inv adm by (simp_all add: st ei_admits_def)
  have moves: "\<exists>st' cs. Inr (s', log) = Inr st' \<and> ei_inv (fst st') \<and> ei_ctls (snd st' @ ei_queue (fst st')) = ei_ctls (snd st @ ei_queue (fst st)) @ cs \<and>
     sessions (set_option (ei_room (fst st))) cs = Some (set_option (ei_room (fst st')))" if "ei_moves s s'" for s'
    using that by (auto simp: st ei_moves_def)
  have m: "(\<exists>s'. r = Inr s' \<and> ei_moves s s') \<Longrightarrow> ei_step env x st = rbind r (\<lambda>s1. Inr (s1, log)) \<Longrightarrow> ?thesis" for r using moves by auto
  show ?thesis
  proof (cases x)
    case (Ei_Tick now)
    then show ?thesis by (intro m [OF ei_tick_moves [OF inv, of now]]) (simp add: st ei_step_def)
  next
    case (Ei_Shutdown now sched)
    then have "ei_on_shutdown env now sched s \<noteq> Inl Loop_Unfinished" using fin by (auto simp: ei_step_def)
    then show ?thesis using Ei_Shutdown by (intro m [OF ei_shutdown_ok [OF env inv]]) (simp_all add: st ei_step_def)
  next
    case (Ei_Transport now sched index event)
    then have "ei_on_transport_event env now sched index event s \<noteq> Inl Loop_Unfinished" using fin by (auto simp: ei_step_def)
    then show ?thesis using Ei_Transport exp by (intro m [OF ei_transport_moves [OF env inv]]) (simp_all add: st ei_step_def)
  next
    case (Ei_Rpc now sched req_id req)
    then have "ei_on_transport_rpc env now sched req_id req s \<noteq> Inl Loop_Unfinished" using fin by (auto simp: ei_step_def)
    then show ?thesis using Ei_Rpc by (intro m [OF ei_rpc_moves [OF env inv]]) (simp_all add: st ei_step_def)
  next
    case (Ei_Cluster now event)
    then show ?thesis using exp by (intro m [OF ei_cluster_moves [OF env inv]]) (simp_all add: st ei_step_def)
  next
    case (Ei_Pop now sched)
    from ei_pop_moves [OF env inv, of now sched] obtain s' out os where pop: "ei_pop_output env now sched s = Inr (s', out)" "ei_inv s'"
      "(case out of None \<Rightarrow> [] | Some x \<Rightarrow> [x]) @ ei_queue s' = ei_queue s @ os" "sessions (set_option (ei_room s)) (ei_ctls os) = Some (set_option (ei_room s'))" by blast
    have "ei_ctls (case out of None \<Rightarrow> [] | Some x \<Rightarrow> [x]) @ ei_ctls (ei_queue s') = ei_ctls (ei_queue s) @ ei_ctls os"
      using arg_cong [OF pop(3), of ei_ctls] by simp
    with pop(1,2,4) show ?thesis using Ei_Pop by (simp add: st ei_step_def)
  qed
qed

section \<open>Properties\<close>

interpretation eic: session_client "ei_step env" "\<lambda>st. ei_ctls (snd st @ ei_queue (fst st))" "\<lambda>st. set_option (ei_room (fst st))"
    "\<lambda>st. ee_ignore_absent env \<and> ei_inv (fst st)" "ei_admits env"
  for env :: "'f endpoint_env"
  by unfold_locales (use ei_step_sessions in blast)

lemma ei_inv_new: "ei_inv (ei_new cfg)"
  by (simp add: ei_inv_def ei_ok_def tab_ok_def ei_new_def im2_wf_default)

text \<open>A concrete endpoint.\<close>

definition demo_endpoint :: "nat endpoint_env" where
  "demo_endpoint = \<lparr>ee_cluster = demo_env, ee_ignore_absent = True, ee_timer = (\<lambda>t. t)\<rparr>"

definition demo_cfg :: endpoint_cfg where
  "demo_cfg = \<lparr>ec_app = ''app'', ec_max_egress_bitrate = 2000000, ec_max_ingress_bitrate = 2000000, ec_record = False\<rparr>"

definition demo_join :: endpoint_req where
  "demo_join = Erq_JoinRoom ''room'' ''alice'' \<lparr>pm_metadata = None, pm_extra_data = None\<rparr> \<lparr>rip_peer = True, rip_tracks = True\<rparr>
     \<lparr>ris_peers = True, ris_tracks = True\<rparr> None"

lemma ei_poll_all_steps: "ei_poll_all env now [] s = (if ei_drained s then Inr s else Inl Loop_Unfinished)"
  "ei_poll_all env now (c # cs) s = (if ei_drained s then Inr s else rbind (ei_poll env now c s) (ei_poll_all env now cs))"
  "ei_pop_output env now [] s = (case ei_queue s of x # q \<Rightarrow> Inr (s\<lparr>ei_queue := q\<rparr>, Some x) | [] \<Rightarrow> Inr (s, None))"
  "ei_pop_output env now (c # cs) s = (case ei_queue s of x # q \<Rightarrow> Inr (s\<lparr>ei_queue := q\<rparr>, Some x) | [] \<Rightarrow> rbind (ei_poll env now c s) (ei_pop_output env now cs))"
  by (simp_all add: ei_poll_all.simps [of env now "[]"] ei_poll_all.simps [of env now "c # cs"] ei_pop_output.simps [of env now "[]"] ei_pop_output.simps [of env now "c # cs"]
      split: list.split)

lemmas ei_eval = ei_poll_all_steps ei_step_def ei_on_transport_event_def ei_on_transport_state_changed_def ei_on_transport_rpc_def ei_on_transport_remote_track_def
  ei_push_def ei_new_def ei_join_room_def ei_leave_room_def ei_remote_def ei_local_def tg_event_def ei_poll_def ei_drained_def
  ei_pop_remote_tracks_def ei_on_remote_output_def ei_left_def rte_need_create_def rt_new_def rt_on_event_def rt_on_transport_event_def
  rt_push_def rt_ended_def rt_on_join_room_def rt_on_leave_room_def rt_is_empty_def rt_empty_event_def rt_pop_output_def rt_drop_def rt_restore_layers_def
  im2_default_def im2_insert_def im2_pairs_def im2_get1_def im2_get2_def im_get_def im_swap_remove_def ba_pending_def ba_new_def egress_new_def ingress_new_def
  demo_endpoint_def demo_cfg_def demo_join_def default_audio_def build_audio_def ei_allocator_def kind_is_video_def Let_def

definition demo_session :: "ei_op list" where
  "demo_session = [Ei_Transport 0 [] 0 (Te_State (Tst_Connecting ''ip'')), Ei_Rpc 1 [] 7 demo_join, Ei_Transport 2 [] 0 (Te_State (Tst_Connected ''ip'')),
     Ei_Transport 3 [] 0 (Te_RemoteTrack 1 (Rte_Started ''mic'' 1 default_audio)), Ei_Pop 4 [],
     Ei_Rpc 5 [Ch_RemoteTracks 0, Ch_RemoteTracks 0, Ch_RemoteTracks 0, Ch_RemoteTracks 0, Ch_RemoteTracks 0] 8 Erq_LeaveRoom]"

lemma demo_session_admitted: "admits_run (ei_admits demo_endpoint) (ei_step demo_endpoint) demo_session (ei_new demo_cfg, [])"
  unfolding demo_session_def by (simp add: ei_admits_def ei_eval)

text \<open>
  C2. An endpoint and its room: through any sequence of calls in which the transport and the task group
  keep to the ids they have given out, when events for indices without a task are ignored, nothing
  panics; what the endpoint sends to the cluster joins a room, uses it only while it is joined and
  leaves it before the next one is joined, controls of its tracks included, and ends in the room the
  endpoint says it is in; and every local and remote track is in that room.
\<close>
theorem ei_run_safe:
  assumes "ee_ignore_absent env" and "admits_run (ei_admits env) (ei_step env) xs (ei_new cfg, [])"
  shows "\<exists>s log. rfold (ei_step env) xs (ei_new cfg, []) = Inr (s, log) \<and>
     sessions {} (ei_ctls (log @ ei_queue s)) = Some (set_option (map_option fst (ei_joined s))) \<and>
     (\<forall>i t. im_get (ei_local_tracks s) i = Some t \<longrightarrow> lt_room t = map_option fst (ei_joined s)) \<and>
     (\<forall>i t. im_get (ei_remote_tracks s) i = Some t \<longrightarrow> rt_room t = map_option fst (ei_joined s))"
proof -
  have init: "ei_room (ei_new cfg) = None" "ei_queue (ei_new cfg) = []" by (simp_all add: ei_room_def ei_new_def)
  from eic.run_sessions [OF _ assms(2)] assms(1) ei_inv_new obtain st cs where st: "rfold (ei_step env) xs (ei_new cfg, []) = Inr st" "ei_inv (fst st)"
    "ei_ctls (snd st @ ei_queue (fst st)) = cs" "sessions {} cs = Some (set_option (ei_room (fst st)))"
    by (auto simp: init)
  have "ei_ok {ei_room (fst st)} (ei_room (fst st)) False (fst st)" using st(2) by (simp add: ei_inv_def)
  then have "im_get (ei_local_tracks (fst st)) i = Some t \<Longrightarrow> lt_room t = ei_room (fst st)" "im_get (ei_remote_tracks (fst st)) j = Some u \<Longrightarrow> rt_room u = ei_room (fst st)"
    for i j t u by (auto simp: ei_ok_def lt_fits_def rt_fits_def dest: tabD)
  then show ?thesis using st by (cases st) (simp add: ei_room_def)
qed

theorem ei_run_safe_witness:
  "\<exists>s log. rfold (ei_step demo_endpoint) demo_session (ei_new demo_cfg, []) = Inr (s, log) \<and>
     sessions {} (ei_ctls (log @ ei_queue s)) = Some (set_option (map_option fst (ei_joined s)))"
proof -
  have "ee_ignore_absent demo_endpoint" by (simp add: demo_endpoint_def)
  from ei_run_safe [OF this demo_session_admitted] show ?thesis by blast
qed

section \<open>The polling loops end\<close>

definition tab_weight :: "('t \<Rightarrow> nat) \<Rightarrow> (nat, 't) imap \<Rightarrow> nat" where
  "tab_weight g ts = (\<Sum>(i, t)\<leftarrow>ts. Suc (g t))"

lemma tab_weight_put: "im_get ts i = Some t \<Longrightarrow> tab_weight g (im_insert i t' ts) + g t = tab_weight g ts + g t'"
proof (induction ts)
  case (Cons p ts)
  then show ?case by (cases p) (auto simp: im_get_def tab_weight_def split: if_splits)
qed simp

lemma tab_weight_remove:
  assumes "im_wf ts" "im_get ts i = Some t"
  shows "tab_weight g (im_swap_remove i ts) < tab_weight g ts"
proof -
  let ?f = "\<lambda>(i, t). Suc (g t)"
  have in_ts: "(i, t) \<in> set ts" using assms by (simp add: im_get_eq_Some)
  have sum: "tab_weight g xs = sum_mset (image_mset ?f (mset xs))" for xs by (simp add: tab_weight_def sum_mset_sum_list flip: mset_map)
  have "mset (im_swap_remove i ts) = mset ts - {#(i, t)#}" using mset_swap_remove_key [OF in_ts, of fst] assms(1) by (simp add: im_swap_remove_def im_wf_def)
  then have "mset ts = add_mset (i, t) (mset (im_swap_remove i ts))" using in_ts by simp
  then show ?thesis unfolding sum by simp
qed

definition ei_work :: "endpoint_internal \<Rightarrow> nat" where
  "ei_work s = tab_weight (\<lambda>t. length (lt_queue t)) (ei_local_tracks s) + tab_weight (\<lambda>t. length (rt_queue t)) (ei_remote_tracks s)"

definition ei_measure :: "(endpoint_internal \<times> endpoint_internal) set" where
  "ei_measure = measures [\<lambda>s. ba_pending (ei_bitrate_allocator s), ei_work]"

lemma ba_pending_set [simp]: "ba_pending (ba_set_ingress_video_track t p b) = ba_pending b" "ba_pending (ba_set_egress_video_track t p b) = ba_pending b"
  "ba_pending (ba_del_ingress_video_track t b) = ba_pending b" "ba_pending (ba_del_egress_video_track t b) = ba_pending b"
  by (simp_all add: ba_pending_def ba_set_ingress_video_track_def ba_set_egress_video_track_def ba_del_ingress_video_track_def ba_del_egress_video_track_def
      ingress_set_video_track_def egress_set_video_track_def ingress_del_video_track_def egress_del_video_track_def)

lemma ei_remote_output_work:
  assumes "ei_on_remote_output i out s = Inr s'" "im_wf (ei_remote_tracks s)" "im_get (ei_remote_tracks s) i = Some t"
  shows "ba_pending (ei_bitrate_allocator s') = ba_pending (ei_bitrate_allocator s) \<and>
    (if \<exists>kind. out = Ro_Stopped kind then ei_work s' < ei_work s else ei_work s' = ei_work s)"
proof (cases out)
  case (Ro_Stopped kind)
  then have "ei_remote_tracks s' = im_swap_remove i (ei_remote_tracks s) \<and> ei_local_tracks s' = ei_local_tracks s \<and>
      ba_pending (ei_bitrate_allocator s') = ba_pending (ei_bitrate_allocator s)"
    using assms(1) by (cases "kind_is_video kind") (auto simp: ei_on_remote_output_def run_simps Let_def ei_allocator_def)
  then show ?thesis using Ro_Stopped tab_weight_remove [OF assms(2,3)] by (simp add: ei_work_def)
qed (use assms(1) in \<open>auto simp: ei_on_remote_output_def run_simps ei_work_def ei_push_def ei_allocator_def\<close>)

lemma ei_local_output_work:
  assumes "ei_on_local_output i out s = Inr s'" "im_wf (ei_local_tracks s)" "im_get (ei_local_tracks s) i = Some t"
  shows "ba_pending (ei_bitrate_allocator s') = ba_pending (ei_bitrate_allocator s) \<and>
    (if out = Lo_OnResourceEmpty then ei_work s' < ei_work s else ei_work s' = ei_work s)"
proof (cases out)
  case Lo_OnResourceEmpty
  then have "ei_local_tracks s' = im_swap_remove i (ei_local_tracks s) \<and> ei_remote_tracks s' = ei_remote_tracks s \<and>
      ba_pending (ei_bitrate_allocator s') = ba_pending (ei_bitrate_allocator s)"
    using assms(1) by (auto simp: ei_on_local_output_def run_simps)
  then show ?thesis using Lo_OnResourceEmpty tab_weight_remove [OF assms(2,3)] by (simp add: ei_work_def)
qed (use assms(1) in \<open>auto simp: ei_on_local_output_def run_simps ei_work_def ei_push_def ei_allocator_def\<close>)

lemma ei_pop_remote_progress:
  assumes "ei_pop_remote_tracks i s = Inr s'" "im_wf (ei_remote_tracks s)" "im_get (ei_remote_tracks s) i = Some t" "rt_queue t \<noteq> [] \<or> rt_shutdown t"
  shows "(s', s) \<in> ei_measure"
proof (cases "rt_queue t")
  case Nil
  then have "ei_on_remote_output i (rt_empty_event t) s = Inr s'" using assms by (simp add: ei_pop_remote_tracks_def rt_is_empty_def)
  from ei_remote_output_work [OF this assms(2,3)] show ?thesis by (auto simp: ei_measure_def rt_empty_event_def)
next
  case (Cons out q)
  let ?s = "s\<lparr>ei_remote_tracks := im_insert i (t\<lparr>rt_queue := q\<rparr>) (ei_remote_tracks s)\<rparr>"
  have "ei_on_remote_output i out ?s = Inr s'" using assms Cons by (simp add: ei_pop_remote_tracks_def rt_is_empty_def rt_pop_output_def)
  moreover have "im_wf (ei_remote_tracks ?s)" "im_get (ei_remote_tracks ?s) i = Some (t\<lparr>rt_queue := q\<rparr>)" using assms(2) by (simp_all add: list_upd)
  ultimately have "ba_pending (ei_bitrate_allocator s') = ba_pending (ei_bitrate_allocator s)" "ei_work s' \<le> ei_work ?s"
    using ei_remote_output_work [of i out ?s s'] by (simp_all split: if_splits)
  moreover have "ei_work ?s < ei_work s" using tab_weight_put [OF assms(3), of "\<lambda>t. length (rt_queue t)" "t\<lparr>rt_queue := q\<rparr>"] Cons by (simp add: ei_work_def)
  ultimately show ?thesis by (simp add: ei_measure_def)
qed

lemma ei_pop_local_progress:
  assumes "ei_pop_local_tracks i s = Inr s'" "im_wf (ei_local_tracks s)" "im_get (ei_local_tracks s) i = Some t" "lt_queue t \<noteq> [] \<or> lt_shutdown t"
  shows "(s', s) \<in> ei_measure"
proof (cases "lt_queue t")
  case Nil
  then have "ei_on_local_output i Lo_OnResourceEmpty s = Inr s'" using assms by (simp add: ei_pop_local_tracks_def lt_is_empty_def)
  from ei_local_output_work [OF this assms(2,3)] show ?thesis by (simp add: ei_measure_def)
next
  case (Cons out q)
  let ?s = "s\<lparr>ei_local_tracks := im_insert i (t\<lparr>lt_queue := q\<rparr>) (ei_local_tracks s)\<rparr>"
  have "ei_on_local_output i out ?s = Inr s'" using assms Cons by (simp add: ei_pop_local_tracks_def lt_is_empty_def lt_pop_output_def)
  moreover have "im_wf (ei_local_tracks ?s)" "im_get (ei_local_tracks ?s) i = Some (t\<lparr>lt_queue := q\<rparr>)" using assms(2) by (simp_all add: list_upd)
  ultimately have "ba_pending (ei_bitrate_allocator s') = ba_pending (ei_bitrate_allocator s)" "ei_work s' \<le> ei_work ?s"
    using ei_local_output_work [of i out ?s s'] by (simp_all split: if_splits)
  moreover have "ei_work ?s < ei_work s" using tab_weight_put [OF assms(3), of "\<lambda>t. length (lt_queue t)" "t\<lparr>lt_queue := q\<rparr>"] Cons by (simp add: ei_work_def)
  ultimately show ?thesis by (simp add: ei_measure_def)
qed

lemma ba_pop_busy: "ba_pending b \<noteq> 0 \<Longrightarrow> \<exists>b' x. ba_pop_output b = (b', Some x) \<and> ba_pending b' < ba_pending b"
proof -
  assume busy: "ba_pending b \<noteq> 0"
  obtain b' r where pop: "ba_pop_output b = (b', r)" by fastforce
  have "r \<noteq> None" using busy pop
    by (cases "eg_queue (ba_egress b)"; cases "ig_queue (ba_ingress b)")
       (auto simp: ba_pop_output_def egress_pop_output_def ingress_pop_output_def ba_pending_def split: egress_output.splits)
  then show ?thesis using pop ba_pop_less [of b' _ b] by auto
qed

lemma ei_pop_bitrate_progress:
  assumes "ei_pop_bitrate_allocator env now s = Inr s'" "ba_pending (ei_bitrate_allocator s) \<noteq> 0"
  shows "(s', s) \<in> ei_measure"
proof -
  obtain b' x where pop: "ba_pop_output (ei_bitrate_allocator s) = (b', Some x)" "ba_pending b' < ba_pending (ei_bitrate_allocator s)"
    using ba_pop_busy [OF assms(2)] by blast
  have "ei_bitrate_allocator s' = b'" using assms(1) pop(1)
    by (cases x) (auto simp: ei_pop_bitrate_allocator_def Let_def ei_remote_def ei_local_def run_simps ei_push_def split: option.splits)
  then show ?thesis using pop(2) by (simp add: ei_measure_def)
qed

lemma ei_poll_progress:
  assumes "ee_ignore_absent env" "ei_ok R H D s" "R \<subseteq> {None, H}" "\<not> ei_drained s"
  shows "\<exists>c s'. ei_poll env now c s = Inr s' \<and> ei_ok R H D s' \<and> (s', s) \<in> ei_measure"
proof -
  note ok = ei_poll_ok [OF assms(1-3), of now]
  have wf: "im_wf (ei_local_tracks s)" "im_wf (ei_remote_tracks s)" using assms(2) by (simp_all add: ei_ok_def tab_ok_def)
  consider "ba_pending (ei_bitrate_allocator s) \<noteq> 0"
    | i t where "im_get (ei_local_tracks s) i = Some t" "lt_queue t \<noteq> [] \<or> lt_shutdown t"
    | i t where "im_get (ei_remote_tracks s) i = Some t" "rt_queue t \<noteq> [] \<or> rt_shutdown t"
    using assms(4) by (auto simp: ei_drained_def im_get_eq_Some [OF wf(1)] im_get_eq_Some [OF wf(2)])
  then show ?thesis
  proof cases
    case 1
    then show ?thesis using ok [of Ch_BitrateAllocator] ei_pop_bitrate_progress [of env now s] by (fastforce simp: ei_poll_def)
  next
    case (2 i t)
    then show ?thesis using ok [of "Ch_LocalTracks i"] ei_pop_local_progress [OF _ wf(1) 2] by (fastforce simp: ei_poll_def)
  next
    case (3 i t)
    then show ?thesis using ok [of "Ch_RemoteTracks i"] ei_pop_remote_progress [OF _ wf(2) 3] by (fastforce simp: ei_poll_def)
  qed
qed

lemma ei_schedule_exists:
  assumes "ee_ignore_absent env" "ei_ok R H D s" "R \<subseteq> {None, H}"
  shows "\<exists>sched s'. ei_poll_all env now sched s = Inr s' \<and> ei_drained s'"
proof -
  have "wf ei_measure" by (simp add: ei_measure_def)
  then show ?thesis using assms(2)
  proof (induction s)
    case (less s)
    show ?case
    proof (cases "ei_drained s")
      case True
      then show ?thesis using ei_poll_all.simps [of env now "[]" s] by auto
    next
      case False
      obtain c s1 where s1: "ei_poll env now c s = Inr s1" "ei_ok R H D s1" "(s1, s) \<in> ei_measure" using ei_poll_progress [OF assms(1) less.prems assms(3) False] by blast
      then obtain sched s' where "ei_poll_all env now sched s1 = Inr s'" "ei_drained s'" using less.IH by blast
      then have "ei_poll_all env now (c # sched) s = Inr s'" using s1(1) False by (simp add: ei_poll_all.simps [of env now "c # sched"])
      then show ?thesis using \<open>ei_drained s'\<close> by blast
    qed
  qed
qed

lemma ei_drained_empty:
  assumes "ei_ok R H True s" "ei_drained s"
  shows "ei_local_tracks s = [] \<and> ei_remote_tracks s = []"
proof -
  have tabs: "tab_ok (lt_fits R H True) (ei_local_tracks_id s) (ei_local_tracks s)" "tab_ok (rt_fits R H True) (ei_remote_tracks_id s) (ei_remote_tracks s)"
    using assms(1) by (simp_all add: ei_ok_def)
  then have wf: "im_wf (ei_local_tracks s)" "im_wf (ei_remote_tracks s)" by (simp_all add: tab_ok_def)
  have "p \<notin> set (ei_local_tracks s)" for p
    using assms(2) tabD [OF tabs(1), of "fst p" "snd p"] im_get_eq_Some [OF wf(1), of "fst p" "snd p"] by (auto simp: ei_drained_def lt_fits_def)
  moreover have "p \<notin> set (ei_remote_tracks s)" for p
    using assms(2) tabD [OF tabs(2), of "fst p" "snd p"] im_get_eq_Some [OF wf(2), of "fst p" "snd p"] by (auto simp: ei_drained_def rt_fits_def)
  ultimately show ?thesis by (meson all_not_in_conv set_empty)
qed

lemma ei_leave_ends:
  assumes "ee_ignore_absent env" "ei_inv s" shows "\<exists>sched s'. ei_leave_room env now sched s = Inr s' \<and> ei_joined s' = None"
proof (cases "ei_joined s")
  case None
  then show ?thesis by (simp add: ei_leave_room_def)
next
  case (Some j)
  then obtain h room peer mode where j: "ei_joined s = Some (h, room, peer, mode)" by (cases j) auto
  obtain t where t: "ei_ok {None} (Some h) False t"
    and eq: "\<And>sched. ei_leave_room env now sched s = rbind (ei_poll_all env now sched t) (\<lambda>s3. Inr (ei_left now h room peer s3))"
    using ei_leave_starts [OF assms j, of now] by blast
  obtain sched s3 where "ei_poll_all env now sched t = Inr s3" using ei_schedule_exists [OF assms(1) t, of now] by auto
  then show ?thesis using ei_leave_ok [OF assms, of now sched] eq [of sched] by (intro exI [of _ sched]) auto
qed

lemma ei_shutdown_ends:
  assumes "ee_ignore_absent env" "ei_inv s" "\<not> ei_shutdown s"
  shows "\<exists>sched s'. ei_on_shutdown env now sched s = Inr s' \<and> ei_joined s' = None \<and> ei_local_tracks s' = [] \<and> ei_remote_tracks s' = []"
proof -
  obtain t where t: "ei_ok {None, ei_room s} (ei_room s) True t" "ei_joined t = ei_joined s"
    and eq: "\<And>sched. ei_on_shutdown env now sched s = rbind (ei_poll_all env now sched t) (\<lambda>s1. case ei_joined s1 of None \<Rightarrow> Inr s1
       | Some (hash, room, peer, _) \<Rightarrow> Inr (ei_left now hash room peer (s1\<lparr>ei_joined := None\<rparr>)))"
    using ei_shutdown_starts [OF assms, of now] by blast
  obtain sched s0 where "ei_poll_all env now sched t = Inr s0" using ei_schedule_exists [OF assms(1) t(1), of now] by auto
  then have fin: "ei_poll_all env now sched t \<noteq> Inl Loop_Unfinished" by simp
  from ei_poll_all_ok [OF assms(1) t(1) _ fin] obtain s1 where s1: "ei_poll_all env now sched t = Inr s1" "ei_ok {None, ei_room s} (ei_room s) True s1" "ei_drained s1" by auto
  then show ?thesis using ei_drained_empty [OF s1(2,3)] eq [of sched] by (intro exI [of _ sched]) (auto simp: ei_left_def split: option.split)
qed

lemma ei_run_inv:
  assumes "ee_ignore_absent env" "admits_run (ei_admits env) (ei_step env) xs (ei_new cfg, [])" "rfold (ei_step env) xs (ei_new cfg, []) = Inr (s, log)"
  shows "ei_inv s"
proof -
  have ok: "ee_ignore_absent env \<and> ei_inv (fst (ei_new cfg, []))" using assms(1) ei_inv_new by simp
  from eic.run_sessions [OF ok assms(2)] assms(3) show ?thesis by auto
qed

text \<open>
  C39. Leaving and shutting down come to an end: after any such sequence of calls there is an order in
  which the children can be polled until nothing is left, so that leaving the room returns and the
  endpoint is in no room, and shutting down returns with every track removed.
\<close>
theorem ei_leaving_ends:
  assumes "ee_ignore_absent env" and "admits_run (ei_admits env) (ei_step env) xs (ei_new cfg, [])" and "rfold (ei_step env) xs (ei_new cfg, []) = Inr (s, log)"
  shows "(\<exists>sched s'. ei_leave_room env now sched s = Inr s' \<and> ei_joined s' = None) \<and>
     (\<not> ei_shutdown s \<longrightarrow> (\<exists>sched s'. ei_on_shutdown env now sched s = Inr s' \<and> ei_joined s' = None \<and> ei_local_tracks s' = [] \<and> ei_remote_tracks s' = []))"
proof -
  have "ei_inv s" using assms by (rule ei_run_inv)
  from ei_leave_ends [OF assms(1) this] ei_shutdown_ends [OF assms(1) this] show ?thesis by blast
qed

theorem ei_leaving_ends_witness:
  "\<exists>s log sched s'. rfold (ei_step demo_endpoint) (butlast demo_session) (ei_new demo_cfg, []) = Inr (s, log) \<and> ei_joined s \<noteq> None \<and>
     ei_leave_room demo_endpoint 9 sched s = Inr s' \<and> ei_joined s' = None"
proof -
  let ?run = "rfold (ei_step demo_endpoint) (butlast demo_session) (ei_new demo_cfg, [])"
  have env: "ee_ignore_absent demo_endpoint" by (simp add: demo_endpoint_def)
  have adm: "admits_run (ei_admits demo_endpoint) (ei_step demo_endpoint) (butlast demo_session) (ei_new demo_cfg, [])"
    unfolding demo_session_def by (simp add: ei_admits_def ei_eval)
  have run: "\<exists>s log. ?run = Inr (s, log) \<and> ei_joined s \<noteq> None" unfolding demo_session_def by (simp add: ei_eval)
  then obtain s log where s: "?run = Inr (s, log)" "ei_joined s \<noteq> None" by blast
  from ei_leaving_ends [OF env adm s(1), of 9] s show ?thesis by blast
qed

section \<open>The id of a stopped track\<close>










end
