(* ===== verification/Bwe_State.thy ===== *)
theory Bwe_State
  imports Prelude
begin

text \<open>
  \<^verbatim>\<open>packages/transport_webrtc/src/transport/bwe_state.rs\<close>: \<^verbatim>\<open>BweState\<close>, which keeps the bandwidth estimate of
  a connection from starting too low: no estimate is used without video, and in the first seconds of
  video it is not allowed below a floor. Instants are nanoseconds; \<^verbatim>\<open>duration_since\<close> saturates at zero.
\<close>

definition WARM_UP_BWE_BPS :: nat where "WARM_UP_BWE_BPS = 800000"
definition WARM_UP_DESIRED_BPS :: nat where "WARM_UP_DESIRED_BPS = 1000000"
definition WARM_UP_MS :: nat where "WARM_UP_MS = 5000"
definition TIMEOUT_MS :: nat where "TIMEOUT_MS = 2000"

datatype bwe_state = Bwe_Inactive | Bwe_WarmUp nat nat bool | Bwe_Active nat

definition millis_since :: "nat \<Rightarrow> nat \<Rightarrow> nat" where
  "millis_since now t = (now - t) div 1000000"

definition bwe_on_tick :: "nat \<Rightarrow> bwe_state \<Rightarrow> bwe_state \<times> nat option" where
  "bwe_on_tick now s = (case s of
     Bwe_Inactive \<Rightarrow> (s, None)
   | Bwe_WarmUp started_at last_video_pkt reset_bwe \<Rightarrow>
       if reset_bwe then (Bwe_WarmUp started_at last_video_pkt False, Some WARM_UP_BWE_BPS)
       else if millis_since now last_video_pkt \<ge> TIMEOUT_MS then (Bwe_Inactive, Some 0)
       else if millis_since now started_at \<ge> WARM_UP_MS then (Bwe_Active last_video_pkt, None)
       else (s, None)
   | Bwe_Active last_video_pkt \<Rightarrow>
       if millis_since now last_video_pkt \<ge> TIMEOUT_MS then (Bwe_Inactive, Some 0) else (s, None))"

definition bwe_on_send_video :: "nat \<Rightarrow> bwe_state \<Rightarrow> bwe_state" where
  "bwe_on_send_video now s = (case s of
     Bwe_Inactive \<Rightarrow> Bwe_WarmUp now now True
   | Bwe_WarmUp started_at _ reset_bwe \<Rightarrow> Bwe_WarmUp started_at now reset_bwe
   | Bwe_Active _ \<Rightarrow> Bwe_Active now)"

definition filter_bwe :: "nat \<Rightarrow> bwe_state \<Rightarrow> nat" where
  "filter_bwe bwe s = (case s of Bwe_Inactive \<Rightarrow> 0 | Bwe_WarmUp _ _ _ \<Rightarrow> max bwe WARM_UP_BWE_BPS | Bwe_Active _ \<Rightarrow> bwe)"

definition filter_bwe_config :: "nat \<Rightarrow> nat \<Rightarrow> bwe_state \<Rightarrow> nat \<times> nat" where
  "filter_bwe_config current desired s = (case s of Bwe_Inactive \<Rightarrow> (0, 0)
     | Bwe_WarmUp _ _ _ \<Rightarrow> (max current WARM_UP_BWE_BPS, max desired WARM_UP_DESIRED_BPS) | Bwe_Active _ \<Rightarrow> (current, desired))"

section \<open>Runs\<close>

datatype bwe_op = Bwe_Tick nat | Bwe_Send nat

definition bwe_step :: "bwe_op \<Rightarrow> bwe_state \<Rightarrow> bwe_state" where
  "bwe_step x s = (case x of Bwe_Tick now \<Rightarrow> fst (bwe_on_tick now s) | Bwe_Send now \<Rightarrow> bwe_on_send_video now s)"

text \<open>What is known of a state that was reached by a run \<open>xs\<close>.\<close>

definition bwe_ok :: "bwe_op list \<Rightarrow> bwe_state \<Rightarrow> bool" where
  "bwe_ok xs s \<longleftrightarrow> (case s of Bwe_Inactive \<Rightarrow> True
     | Bwe_WarmUp started_at last_video_pkt _ \<Rightarrow> Bwe_Send started_at \<in> set xs \<and> Bwe_Send last_video_pkt \<in> set xs
     | Bwe_Active last_video_pkt \<Rightarrow> Bwe_Send last_video_pkt \<in> set xs \<and>
         (\<exists>started_at now. Bwe_Send started_at \<in> set xs \<and> Bwe_Tick now \<in> set xs \<and> millis_since now started_at \<ge> WARM_UP_MS))"

lemma bwe_ok_step: "bwe_ok xs s \<Longrightarrow> bwe_ok (xs @ [x]) (bwe_step x s)"
  by (cases x; cases s) (auto simp: bwe_ok_def bwe_step_def bwe_on_tick_def bwe_on_send_video_def)

lemma bwe_ok_run: "bwe_ok xs (fold bwe_step xs Bwe_Inactive)"
  by (induction xs rule: rev_induct) (simp add: bwe_ok_def, simp add: bwe_ok_step)

text \<open>
  The estimate is used as it is only after a warm-up: when the state passes estimates unchanged, video was
  sent at some time and a tick came at least five seconds later; without any video sent the
  estimate is zero.
\<close>
lemma bwe_unfiltered_after_warmup:
  assumes "fold bwe_step xs Bwe_Inactive = s" "filter_bwe bwe s < WARM_UP_BWE_BPS" "0 < filter_bwe bwe s"
  shows "filter_bwe bwe s = bwe \<and> (\<exists>started_at now. Bwe_Send started_at \<in> set xs \<and> Bwe_Tick now \<in> set xs \<and> millis_since now started_at \<ge> WARM_UP_MS)"
  using bwe_ok_run [of xs] assms by (auto simp: filter_bwe_def bwe_ok_def split: bwe_state.splits)

text \<open>Silence of two seconds ends in the inactive state at the next tick, or at the one after it when the
  reset of the estimate was still to be announced.\<close>
lemma bwe_silence:
  assumes "s = Bwe_WarmUp started last_video_pkt r \<or> s = Bwe_Active last_video_pkt" "millis_since now last_video_pkt \<ge> TIMEOUT_MS" "now \<le> later"
  shows "fst (bwe_on_tick later (fst (bwe_on_tick now s))) = Bwe_Inactive"
proof -
  have "millis_since later last_video_pkt \<ge> TIMEOUT_MS" using assms(2,3) by (auto simp: millis_since_def intro: le_trans div_le_mono diff_le_mono)
  then show ?thesis using assms by (auto simp: bwe_on_tick_def)
qed

end
