(* ===== verification/Session_Messages.thy ===== *)
theory Session_Messages
  imports Endpoint_Types
begin

text \<open>
  The messages that a client and its session exchange over the data channel
  (\<^verbatim>\<open>packages/protocol/src/protobuf\<close>: \<^verbatim>\<open>session.rs\<close>, \<^verbatim>\<open>shared.rs\<close>, \<^verbatim>\<open>features.rs\<close>,
  \<^verbatim>\<open>features.mixer.rs\<close>, \<^verbatim>\<open>gateway.rs\<close>), their conversions to the types of the endpoint, and the errors of the
  session. A message whose only field is a \<^verbatim>\<open>oneof\<close> is that field, an \<open>option\<close>. Fields of an
  enumeration hold its number, an \<^verbatim>\<open>i32\<close> that a client may choose outside of the enumeration: the generated
  accessor then gives the default. The wire format is the code generator's and is not modelled.
\<close>

section \<open>Shared messages\<close>

record proto_error =
  per_code :: nat
  per_message :: string

record proto_receiver_source =
  prs_peer :: string
  prs_track :: string

record proto_receiver_config =
  prc_priority :: nat
  prc_max_spatial :: nat
  prc_max_temporal :: nat
  prc_min_spatial :: "nat option"
  prc_min_temporal :: "nat option"

record proto_receiver_state =
  prt_config :: "proto_receiver_config option"
  prt_source :: "proto_receiver_source option"

record proto_receiver =
  pr_kind :: int
  pr_name :: string
  pr_state :: "proto_receiver_state option"

record proto_sender_source =
  pss_id :: string
  pss_screen :: bool
  pss_metadata :: "string option"

record proto_sender_config =
  psc_priority :: nat
  psc_bitrate :: int

record proto_sender_state =
  pst_config :: "proto_sender_config option"
  pst_source :: "proto_sender_source option"

record proto_sender =
  psn_kind :: int
  psn_name :: string
  psn_state :: "proto_sender_state option"

record proto_tracks =
  ptr_receivers :: "proto_receiver list"
  ptr_senders :: "proto_sender list"

record proto_mixer_config =
  pmx_mode :: int
  pmx_outputs :: "string list"
  pmx_sources :: "proto_receiver_source list"

record proto_features_config =
  pfc_mixer :: "proto_mixer_config option"

record room_join =
  rj_room :: string
  rj_peer :: string
  rj_publish :: "room_info_publish option"
  rj_subscribe :: "room_info_subscribe option"
  rj_features :: "proto_features_config option"
  rj_metadata :: "string option"

record connect_request =
  crq_version :: string
  crq_join :: "room_join option"
  crq_tracks :: "proto_tracks option"
  crq_sdp :: string

text \<open>The default value of a message: every field is empty, zero or \<open>False\<close>.\<close>

definition receiver_source_default :: proto_receiver_source where
  "receiver_source_default = \<lparr>prs_peer = '''', prs_track = ''''\<rparr>"

definition receiver_config_default :: proto_receiver_config where
  "receiver_config_default = \<lparr>prc_priority = 0, prc_max_spatial = 0, prc_max_temporal = 0, prc_min_spatial = None, prc_min_temporal = None\<rparr>"

definition sender_source_default :: proto_sender_source where
  "sender_source_default = \<lparr>pss_id = '''', pss_screen = False, pss_metadata = None\<rparr>"

definition sender_config_default :: proto_sender_config where
  "sender_config_default = \<lparr>psc_priority = 0, psc_bitrate = 0\<rparr>"

definition sender_state_default :: proto_sender_state where
  "sender_state_default = \<lparr>pst_config = None, pst_source = None\<rparr>"

definition tracks_default :: proto_tracks where
  "tracks_default = \<lparr>ptr_receivers = [], ptr_senders = []\<rparr>"

definition room_join_default :: room_join where
  "room_join_default = \<lparr>rj_room = '''', rj_peer = '''', rj_publish = None, rj_subscribe = None, rj_features = None, rj_metadata = None\<rparr>"

definition publish_default :: room_info_publish where
  "publish_default = \<lparr>rip_peer = False, rip_tracks = False\<rparr>"

definition subscribe_default :: room_info_subscribe where
  "subscribe_default = \<lparr>ris_peers = False, ris_tracks = False\<rparr>"

definition or_default :: "'a \<Rightarrow> 'a option \<Rightarrow> 'a" where
  "or_default d x = (case x of None \<Rightarrow> d | Some v \<Rightarrow> v)"

section \<open>Conversions\<close>

definition proto_kind :: "int \<Rightarrow> media_kind" where
  "proto_kind v = (if v = 1 then Video else Audio)"

definition kind_number :: "media_kind \<Rightarrow> int" where
  "kind_number k = (case k of Audio \<Rightarrow> 0 | Video \<Rightarrow> 1)"

definition proto_bitrate_mode :: "int \<Rightarrow> bitrate_control_mode" where
  "proto_bitrate_mode v = (if v = 1 then MaxBitrate else DynamicConsumers)"

definition proto_mixer_mode :: "int \<Rightarrow> audio_mixer_mode" where
  "proto_mixer_mode v = (if v = 1 then Mixer_Manual else Mixer_Auto)"

definition status_number :: "receiver_status \<Rightarrow> int" where
  "status_number st = (case st of St_Waiting \<Rightarrow> 0 | St_Active \<Rightarrow> 1 | St_Inactive \<Rightarrow> 2)"

definition sender_status_number :: "bool \<Rightarrow> int" where
  "sender_status_number active = (if active then 0 else 1)"

definition track_source_of :: "proto_receiver_source \<Rightarrow> track_source" where
  "track_source_of s = \<lparr>tsrc_peer = prs_peer s, tsrc_track = prs_track s\<rparr>"

definition remote_track_config_of :: "proto_sender_config \<Rightarrow> remote_track_config" where
  "remote_track_config_of c = \<lparr>rtc_priority = psc_priority c, rtc_control = proto_bitrate_mode (psc_bitrate c)\<rparr>"

definition local_track_config_of :: "proto_receiver_config \<Rightarrow> local_track_config" where
  "local_track_config_of c = \<lparr>ltc_priority = prc_priority c, ltc_max_spatial = as_u8 (prc_max_spatial c), ltc_max_temporal = as_u8 (prc_max_temporal c),
     ltc_min_spatial = map_option as_u8 (prc_min_spatial c), ltc_min_temporal = map_option as_u8 (prc_min_temporal c)\<rparr>"

section \<open>Requests of the client\<close>

datatype session_request = Sr_Join "room_join option" string | Sr_Leave | Sr_Sdp "proto_tracks option" string | Sr_Disconnect

datatype room_request = Rmr_Subscribe string | Rmr_Unsubscribe string

datatype channel_request = Chr_StartPub | Chr_StopPub | Chr_Sub | Chr_Unsub | Chr_Pub bytes

datatype sender_request = Snr_Attach "proto_sender_source option" "proto_sender_config option" | Snr_Detach | Snr_Config proto_sender_config

datatype receiver_request = Rcr_Attach "proto_receiver_source option" "proto_receiver_config option" | Rcr_Detach | Rcr_Config proto_receiver_config

datatype mixer_request = Mxr_Attach "proto_receiver_source list" | Mxr_Detach "proto_receiver_source list"

datatype features_request = Ftr_Mixer "mixer_request option"

datatype client_request =
    Crq_Session "session_request option"
  | Crq_Room "room_request option"
  | Crq_Sender string "sender_request option"
  | Crq_Receiver string "receiver_request option"
  | Crq_Features "features_request option"
  | Crq_MessageChannel string "channel_request option"

datatype client_event_body = Cev_Request nat "client_request option"

record client_event =
  cev_seq :: nat
  cev_event :: "client_event_body option"

section \<open>Answers and events of the session\<close>

datatype session_response = Ssr_Join | Ssr_Leave | Ssr_Sdp string | Ssr_Disconnect

datatype room_response = Rmp_Subscribe | Rmp_Unsubscribe

datatype channel_response = Chp_StartPub | Chp_StopPub | Chp_Sub | Chp_Unsub | Chp_Pub

datatype sender_response = Snp_Attach | Snp_Detach | Snp_Config

datatype receiver_response = Rcp_Attach | Rcp_Detach | Rcp_Config

datatype mixer_response = Mxp_Attach | Mxp_Detach

datatype features_response = Ftp_Mixer "mixer_response option"

datatype response =
    Rsp_Error proto_error
  | Rsp_Session "session_response option"
  | Rsp_Room "room_response option"
  | Rsp_Sender "sender_response option"
  | Rsp_Receiver "receiver_response option"
  | Rsp_Features "features_response option"
  | Rsp_MessageChannel string "channel_response option"

datatype server_session_event = Sse_Connected | Sse_Joined string string | Sse_Leaved string string | Sse_Disconnected string | Sse_GoAway string nat

datatype server_room_event =
    Sre_PeerJoined string "string option" "string option"
  | Sre_PeerUpdated string "string option"
  | Sre_PeerLeaved string
  | Sre_TrackStarted string string int "string option"
  | Sre_TrackUpdated string string int "string option"
  | Sre_TrackStopped string string int

datatype server_channel_event = Sce_Message string bytes

datatype server_sender_event = Sne_State int

text \<open>The statistics of a receiver are numbers that this code never builds.\<close>

datatype server_receiver_event = Sve_State int | Sve_Stats | Sve_VoiceActivity int

datatype server_mixer_event = Sme_SlotSet nat "proto_receiver_source option" | Sme_SlotUnset nat

datatype server_features_event = Sfe_Mixer "server_mixer_event option"

datatype server_event_body =
    Sv_Session "server_session_event option"
  | Sv_Room "server_room_event option"
  | Sv_Sender string "server_sender_event option"
  | Sv_Receiver string "server_receiver_event option"
  | Sv_Response nat "response option"
  | Sv_Features "server_features_event option"
  | Sv_MessageChannel string "server_channel_event option"

record server_event =
  sv_seq :: nat
  sv_event :: "server_event_body option"

section \<open>Errors\<close>

datatype webrtc_error = InvalidSdp | InternalServerError | RpcInvalidRequest | RpcTrackNameNotFound | RpcTrackNotAttached | RpcTrackAlreadyAttached
  | RpcEndpointNotFound | RpcTokenInvalid | RpcTokenRoomPeerNotMatch | RpcTokenAppNotMatch | RpcAlreadyDisconnected

definition webrtc_error_code :: "webrtc_error \<Rightarrow> nat" where
  "webrtc_error_code e = (case e of InvalidSdp \<Rightarrow> 0x2000 | InternalServerError \<Rightarrow> 0x2001 | RpcInvalidRequest \<Rightarrow> 0x2002 | RpcTrackNameNotFound \<Rightarrow> 0x2003
     | RpcTrackNotAttached \<Rightarrow> 0x2004 | RpcTrackAlreadyAttached \<Rightarrow> 0x2005 | RpcEndpointNotFound \<Rightarrow> 0x2006 | RpcTokenInvalid \<Rightarrow> 0x2007
     | RpcTokenRoomPeerNotMatch \<Rightarrow> 0x2008 | RpcTokenAppNotMatch \<Rightarrow> 0x2009 | RpcAlreadyDisconnected \<Rightarrow> 0x2010)"

text \<open>The text of an error is the name of its case.\<close>

definition webrtc_error_text :: "webrtc_error \<Rightarrow> string" where
  "webrtc_error_text e = (case e of InvalidSdp \<Rightarrow> ''InvalidSdp'' | InternalServerError \<Rightarrow> ''InternalServerError'' | RpcInvalidRequest \<Rightarrow> ''RpcInvalidRequest''
     | RpcTrackNameNotFound \<Rightarrow> ''RpcTrackNameNotFound'' | RpcTrackNotAttached \<Rightarrow> ''RpcTrackNotAttached'' | RpcTrackAlreadyAttached \<Rightarrow> ''RpcTrackAlreadyAttached''
     | RpcEndpointNotFound \<Rightarrow> ''RpcEndpointNotFound'' | RpcTokenInvalid \<Rightarrow> ''RpcTokenInvalid'' | RpcTokenRoomPeerNotMatch \<Rightarrow> ''RpcTokenRoomPeerNotMatch''
     | RpcTokenAppNotMatch \<Rightarrow> ''RpcTokenAppNotMatch'' | RpcAlreadyDisconnected \<Rightarrow> ''RpcAlreadyDisconnected'')"

definition endpoint_error_text :: "endpoint_errors \<Rightarrow> string" where
  "endpoint_error_text e = (case e of EndpointNotInRoom \<Rightarrow> ''EndpointNotInRoom'' | LocalTrackNotPinSource \<Rightarrow> ''LocalTrackNotPinSource''
     | LocalTrackInvalidPriority \<Rightarrow> ''LocalTrackInvalidPriority'' | RemoteTrackInvalidPriority \<Rightarrow> ''RemoteTrackInvalidPriority''
     | RemoteTrackStopped \<Rightarrow> ''RemoteTrackStopped'' | AudioMixerWrongMode \<Rightarrow> ''AudioMixerWrongMode'' | Destroying \<Rightarrow> ''Destroying'')"

definition webrtc_rpc_error :: "webrtc_error \<Rightarrow> proto_error" where
  "webrtc_rpc_error e = \<lparr>per_code = webrtc_error_code e, per_message = webrtc_error_text e\<rparr>"

definition endpoint_rpc_error :: "endpoint_errors \<Rightarrow> proto_error" where
  "endpoint_rpc_error e = \<lparr>per_code = error_code e, per_message = endpoint_error_text e\<rparr>"

text \<open>The numbers do not tell the two kinds of errors apart.\<close>

lemma error_codes_clash:
  "webrtc_error_code InternalServerError = error_code RemoteTrackInvalidPriority" "webrtc_error_code RpcInvalidRequest = error_code RemoteTrackStopped"
  by (simp_all add: webrtc_error_code_def error_code_def)

lemma webrtc_error_code_inj: "webrtc_error_code e = webrtc_error_code e' \<Longrightarrow> e = e'"
  by (cases e; cases e') (simp_all add: webrtc_error_code_def)

lemma proto_kind_roundtrip: "proto_kind (kind_number k) = k"
  by (cases k) (simp_all add: proto_kind_def kind_number_def)

end
