(* ===== verification/Webrtc_Internal.thy ===== *)
theory Webrtc_Internal
  imports Session_Messages Media_Convert Bwe_State
begin

text \<open>
  The interface \<^verbatim>\<open>TransportWebrtcInternal\<close> of \<^verbatim>\<open>packages/transport_webrtc/src/transport.rs\<close>: a session above the WebRTC library, with
  what it is given (events of the library, events and answers of the endpoint) and what it emits. The
  three sessions, for the SDK, WHIP and WHEP, are in theories of their own.

  A session tells the endpoint what the connection and its tracks do by a series of transport
  events. What the endpoint relies on is the automaton \<open>tv_step\<close>: connection states follow one another
  as \<open>ts_next\<close> allows, so that the first state is never \<^verbatim>\<open>Connected\<close> or \<^verbatim>\<open>ConnectError\<close>; a remote track
  is started only while it is not running, and a local track at most once. The locale
  \<open>webrtc_session\<close> is the contract of a session, with that automaton as a part of what an observer knows.

  The library's ids of media sections and channels are numbers; the events of the library list what
  the sessions look at, \<open>Se_Other\<close> stands for all others. A data-channel message is given decoded, \<open>None\<close> when it is not a
  message of the protocol, and sent before it is encoded.
\<close>

section \<open>Messages\<close>

type_synonym mid = nat

datatype keyframe_kind = Pli | Fir

datatype variant = Variant_Whip | Variant_Whep | Variant_Webrtc

datatype ext_out =
    Xo_RemoteIce nat variant "proto_error + nat"
  | Xo_RestartIce nat variant "proto_error + (bool \<times> string)"
  | Xo_Disconnect nat variant "proto_error + unit"

text \<open>A datagram with the slot of the socket it leaves from and its destination.\<close>

record udp_packet =
  udp_slot :: nat
  udp_to :: string
  udp_data :: bytes

datatype transport_output =
    To_Net udp_packet
  | To_Event transport_event
  | To_RpcReq nat endpoint_req
  | To_Ext ext_out
  | To_OnResourceEmpty

datatype internal_rpc_req = Irq_SetRemoteSdp string

datatype internal_rpc_res = Irs_SetRemoteSdp string

datatype webrtc_output =
    Wo_Keyframe mid keyframe_kind
  | Wo_LimitBitrate mid nat
  | Wo_SendMedia mid media_packet
  | Wo_SendData nat server_event
  | Wo_Bwe nat nat
  | Wo_ResetBwe nat
  | Wo_RpcReq nat internal_rpc_req
  | Wo_Transport transport_output

datatype ice_state = Ice_New | Ice_Checking | Ice_Connected | Ice_Completed | Ice_Disconnected

datatype direction = Dir_RecvOnly | Dir_SendRecv | Dir_SendOnly | Dir_Inactive

record media_added =
  ma_mid :: mid
  ma_kind :: media_kind
  ma_direction :: direction
  ma_simulcast :: bool

datatype str0m_event =
    Se_Connected
  | Se_ChannelOpen nat string
  | Se_ChannelData "client_event option"
  | Se_ChannelClose nat
  | Se_IceConnectionStateChange ice_state
  | Se_MediaAdded media_added
  | Se_KeyframeRequest mid
  | Se_RtpPacket "mid option" rtp_packet
  | Se_StreamPaused nat mid bool
  | Se_EgressBitrateEstimate nat
  | Se_Other

datatype webrtc_input =
    Wi_CodecConfig "(nat \<times> codec_spec) list"
  | Wi_Tick nat
  | Wi_RpcRes nat "proto_error + internal_rpc_res"
  | Wi_TransportRpcRes nat nat endpoint_res
  | Wi_EndpointEvent nat endpoint_event
  | Wi_Str0mEvent nat str0m_event
  | Wi_Shutdown nat

text \<open>The connection state, declared alike by the three sessions.\<close>

datatype ws_state = Ws_New | Ws_Connecting nat | Ws_ConnectError | Ws_Connected | Ws_Reconnecting nat | Ws_Disconnected

definition ws_is_shutdown :: "ws_state \<Rightarrow> bool" where
  "ws_is_shutdown st \<longleftrightarrow> st = Ws_ConnectError \<or> st = Ws_Disconnected"

definition TIMEOUT_SEC :: nat where "TIMEOUT_SEC = 10"

definition timed_out :: "nat \<Rightarrow> nat \<Rightarrow> bool" where
  "timed_out now at \<longleftrightarrow> now - at \<ge> TIMEOUT_SEC * 1000000000"

abbreviation Wo_State :: "transport_state \<Rightarrow> webrtc_output" where
  "Wo_State st \<equiv> Wo_Transport (To_Event (Te_State st))"

abbreviation Wo_Remote :: "nat \<Rightarrow> remote_track_event \<Rightarrow> webrtc_output" where
  "Wo_Remote track ev \<equiv> Wo_Transport (To_Event (Te_RemoteTrack track ev))"

abbreviation Wo_Local :: "nat \<Rightarrow> local_track_event \<Rightarrow> webrtc_output" where
  "Wo_Local track ev \<equiv> Wo_Transport (To_Event (Te_LocalTrack track ev))"

section \<open>What the endpoint relies on\<close>

record transport_view =
  tv_state :: "transport_state option"
  tv_remote :: "nat set"
  tv_ended :: "nat set"
  tv_local :: "nat set"

definition tv_init :: transport_view where
  "tv_init = \<lparr>tv_state = None, tv_remote = {}, tv_ended = {}, tv_local = {}\<rparr>"

definition ts_next :: "transport_state option \<Rightarrow> transport_state \<Rightarrow> bool" where
  "ts_next pre st \<longleftrightarrow> (case st of
     Tst_New \<Rightarrow> False
   | Tst_Connecting _ \<Rightarrow> pre = None
   | Tst_ConnectError _ \<Rightarrow> (\<exists>ip. pre = Some (Tst_Connecting ip))
   | Tst_Connected _ \<Rightarrow> pre \<noteq> None
   | Tst_Reconnecting _ \<Rightarrow> (\<exists>ip. pre = Some (Tst_Connected ip))
   | Tst_Disconnected e \<Rightarrow> (\<forall>e'. pre \<noteq> Some (Tst_Disconnected e')) \<and> (e \<noteq> None \<longrightarrow> (\<exists>ip. pre = Some (Tst_Reconnecting ip))))"

fun tv_step :: "transport_event \<Rightarrow> transport_view \<Rightarrow> transport_view option" where
  "tv_step (Te_State st) v = (if ts_next (tv_state v) st then Some (v\<lparr>tv_state := Some st\<rparr>) else None)"
| "tv_step (Te_RemoteTrack track (Rte_Started _ _ _)) v = (if track \<in> tv_remote v then None else Some (v\<lparr>tv_remote := insert track (tv_remote v)\<rparr>))"
| "tv_step (Te_RemoteTrack track Rte_Ended) v = Some (v\<lparr>tv_remote := tv_remote v - {track}, tv_ended := insert track (tv_ended v)\<rparr>)"
| "tv_step (Te_LocalTrack track (Lte_Started _)) v = (if track \<in> tv_local v then None else Some (v\<lparr>tv_local := insert track (tv_local v)\<rparr>))"
| "tv_step _ v = Some v"

text \<open>The connection state of a session and the last state it has told.\<close>

definition ws_agrees :: "ws_state \<Rightarrow> transport_state option \<Rightarrow> bool" where
  "ws_agrees ws st \<longleftrightarrow> (case ws of
     Ws_New \<Rightarrow> st = None
   | Ws_Connecting _ \<Rightarrow> (\<exists>ip. st = Some (Tst_Connecting ip))
   | Ws_ConnectError \<Rightarrow> (\<exists>e. st = Some (Tst_ConnectError e))
   | Ws_Connected \<Rightarrow> (\<exists>ip. st = Some (Tst_Connected ip))
   | Ws_Reconnecting _ \<Rightarrow> (\<exists>ip. st = Some (Tst_Reconnecting ip))
   | Ws_Disconnected \<Rightarrow> (\<exists>e. st = Some (Tst_Disconnected e)))"

section \<open>The contract of a session\<close>

text \<open>
  An observer reads the outputs of a session one after the other, and what it knows is its view: \<open>look\<close> extends a
  view by an output and fails if the output breaks the rules; \<open>transport\<close> is the part of the view that
  the endpoint relies on. \<open>step\<close> is the call of one of the methods, \<open>pop\<close> is \<^verbatim>\<open>pop_output\<close>, \<open>empty\<close> is \<^verbatim>\<open>is_empty\<close>,
  \<open>queue\<close> what has not been popped. \<open>inv s v\<close> relates a session to the view of an observer of all its outputs, the queued
  ones included.
\<close>

fun ob_run :: "('o \<Rightarrow> 'v \<Rightarrow> 'v option) \<Rightarrow> 'o list \<Rightarrow> 'v \<Rightarrow> 'v option" where
  "ob_run look [] v = Some v"
| "ob_run look (out # os) v = (case look out v of None \<Rightarrow> None | Some v' \<Rightarrow> ob_run look os v')"

lemma ob_run_append: "ob_run look (os @ os') v = (case ob_run look os v of None \<Rightarrow> None | Some v' \<Rightarrow> ob_run look os' v')"
  by (induction os arbitrary: v) (auto split: option.splits)

text \<open>A packet that can be sent is one whose payload has the descriptor that its metadata announces.\<close>

definition sendable :: "media_packet \<Rightarrow> bool" where
  "sendable pkt \<longleftrightarrow> (case lmc_rewrite_pkt pkt of Inl _ \<Rightarrow> False | Inr _ \<Rightarrow> True)"

definition tv_look :: "webrtc_output \<Rightarrow> transport_view \<Rightarrow> transport_view option" where
  "tv_look out v = (case out of Wo_Transport (To_Event e) \<Rightarrow> tv_step e v | Wo_SendMedia _ pkt \<Rightarrow> if sendable pkt then Some v else None | _ \<Rightarrow> Some v)"

datatype session_op = So_Input webrtc_input | So_Pop

definition so_step :: "(webrtc_input \<Rightarrow> 's \<Rightarrow> 's run) \<Rightarrow> ('s \<Rightarrow> 's \<times> webrtc_output option) \<Rightarrow> session_op \<Rightarrow>
    's \<times> webrtc_output list \<Rightarrow> ('s \<times> webrtc_output list) run" where
  "so_step step pop x = (\<lambda>(s, log). case x of
     So_Input i \<Rightarrow> rbind (step i s) (\<lambda>s'. Inr (s', log))
   | So_Pop \<Rightarrow> (case pop s of (s', out) \<Rightarrow> Inr (s', log @ (case out of None \<Rightarrow> [] | Some out \<Rightarrow> [out]))))"

definition so_admits :: "(webrtc_input \<Rightarrow> 's \<Rightarrow> bool) \<Rightarrow> session_op \<Rightarrow> 's \<times> webrtc_output list \<Rightarrow> bool" where
  "so_admits admits x st = (case x of So_Input i \<Rightarrow> admits i (fst st) | So_Pop \<Rightarrow> True)"

locale output_observer =
  fixes look :: "webrtc_output \<Rightarrow> 'v \<Rightarrow> 'v option"
    and transport :: "'v \<Rightarrow> transport_view"
    and start :: 'v
  assumes look_transport: "look out v = Some v' \<Longrightarrow> tv_look out (transport v) = Some (transport v')"
    and transport_start: "transport start = tv_init"
begin

lemma observe_transport: "ob_run look os v = Some v' \<Longrightarrow> ob_run tv_look os (transport v) = Some (transport v')"
proof (induction os arbitrary: v)
  case (Cons out os)
  then obtain v1 where "look out v = Some v1" "ob_run look os v1 = Some v'" by (auto split: option.splits)
  with Cons.IH look_transport show ?case by fastforce
qed simp

end

locale webrtc_session = output_observer look transport start
  for look :: "webrtc_output \<Rightarrow> 'v \<Rightarrow> 'v option" and transport :: "'v \<Rightarrow> transport_view" and start :: 'v +
  fixes step :: "webrtc_input \<Rightarrow> 's \<Rightarrow> 's run"
    and pop :: "'s \<Rightarrow> 's \<times> webrtc_output option"
    and empty :: "'s \<Rightarrow> bool"
    and queue :: "'s \<Rightarrow> webrtc_output list"
    and state :: "'s \<Rightarrow> ws_state"
    and inv :: "'s \<Rightarrow> 'v \<Rightarrow> bool"
    and admits :: "webrtc_input \<Rightarrow> 's \<Rightarrow> bool"
  assumes step_law: "inv s v \<Longrightarrow> admits x s \<Longrightarrow>
      \<exists>s' os v'. step x s = Inr s' \<and> queue s' = queue s @ os \<and> ob_run look os v = Some v' \<and> inv s' v'"
    and pop_none: "queue s = [] \<Longrightarrow> pop s = (s, None)"
    and pop_some: "queue s = out # q \<Longrightarrow> \<exists>s'. pop s = (s', Some out) \<and> queue s' = q \<and> state s' = state s \<and> (\<forall>v. inv s v \<longrightarrow> inv s' v)"
    and empty_law: "empty s \<longleftrightarrow> ws_is_shutdown (state s) \<and> queue s = []"
    and shutdown_law: "step (Wi_Shutdown now) s = Inr s' \<Longrightarrow> ws_is_shutdown (state s')"
    and shutdown_admitted: "admits (Wi_Shutdown now) s"
begin

definition follows :: "'s \<times> webrtc_output list \<Rightarrow> bool" where
  "follows st \<longleftrightarrow> (\<exists>v. ob_run look (snd st @ queue (fst st)) start = Some v \<and> inv (fst st) v)"

lemma followsD: "follows (s, log) \<Longrightarrow> \<exists>v. ob_run look (log @ queue s) start = Some v \<and> inv s v"
  by (simp add: follows_def)

lemma follows_init: "inv s start \<Longrightarrow> queue s = [] \<Longrightarrow> follows (s, [])"
  by (auto simp: follows_def)

lemma follows_step:
  assumes "follows st" "so_admits admits x st"
  shows "\<exists>st'. so_step step pop x st = Inr st' \<and> follows st'"
proof -
  obtain s log where st: "st = (s, log)" by (cases st)
  obtain v where v: "ob_run look (log @ queue s) start = Some v" "inv s v" using assms(1) followsD by (auto simp: st)
  show ?thesis
  proof (cases x)
    case (So_Input i)
    then have "admits i s" using assms(2) by (simp add: so_admits_def st)
    from step_law [OF v(2) this] obtain s' os v' where s': "step i s = Inr s'" "queue s' = queue s @ os" "ob_run look os v = Some v'" "inv s' v'" by blast
    then have "follows (s', log)" using v(1) ob_run_append [of look "log @ queue s" os start] by (auto simp: follows_def)
    then show ?thesis using So_Input s'(1) by (simp add: so_step_def st)
  next
    case So_Pop
    show ?thesis
    proof (cases "queue s")
      case Nil
      then show ?thesis using So_Pop assms(1) by (simp add: so_step_def st pop_none)
    next
      case (Cons out q)
      from pop_some [OF this] obtain s' where s': "pop s = (s', Some out)" "queue s' = q" "inv s' v" using v(2) by blast
      then have "follows (s', log @ [out])" using v(1) Cons by (auto simp: follows_def)
      then show ?thesis using So_Pop s'(1) by (simp add: so_step_def st)
    qed
  qed
qed

lemma run_follows:
  assumes "follows st" "admits_run (so_admits admits) (so_step step pop) xs st"
  shows "\<exists>st'. rfold (so_step step pop) xs st = Inr st' \<and> follows st'"
  using admits_run_invariant [OF assms follows_step] .

lemma drains:
  "\<exists>s'. rfold (so_step step pop) (replicate (length (queue s)) So_Pop) (s, log) = Inr (s', log @ queue s) \<and> queue s' = [] \<and> state s' = state s"
proof (induction "queue s" arbitrary: s log)
  case (Cons out q)
  from pop_some [OF Cons.hyps(2) [symmetric]] obtain s1 where s1: "pop s = (s1, Some out)" "queue s1 = q" "state s1 = state s" by blast
  from Cons.hyps(1) [of s1 "log @ [out]"] s1 show ?case by (auto simp: so_step_def Cons.hyps(2) [symmetric])
qed auto

text \<open>A session that is shut down becomes empty as soon as its outputs have been taken.\<close>

lemma shutdown_ends:
  assumes "follows (s, log)"
  shows "\<exists>s1 s'. step (Wi_Shutdown now) s = Inr s1 \<and>
     rfold (so_step step pop) (replicate (length (queue s1)) So_Pop) (s1, log) = Inr (s', log @ queue s1) \<and> empty s'"
proof -
  from follows_step [OF assms, of "So_Input (Wi_Shutdown now)"] obtain s1 where s1: "step (Wi_Shutdown now) s = Inr s1"
    by (cases "step (Wi_Shutdown now) s") (auto simp: so_admits_def shutdown_admitted so_step_def)
  from drains [of s1 log] shutdown_law [OF s1] s1 show ?thesis by (auto simp: empty_law)
qed

end

end
