(* ===== verification/Webrtc_Whip.thy ===== *)
theory Webrtc_Whip
  imports Webrtc_Internal
begin

text \<open>
  \<^verbatim>\<open>packages/transport_webrtc/src/transport/whip.rs\<close>: the session of a WHIP client, which publishes at most one audio
  and one video track to a room. Interpretation \<open>wpc\<close> of the contract of a session.
\<close>

section \<open>The session\<close>

definition WHIP_AUDIO_TRACK :: nat where "WHIP_AUDIO_TRACK = 0"
definition WHIP_AUDIO_NAME :: string where "WHIP_AUDIO_NAME = ''audio_main''"
definition WHIP_VIDEO_TRACK :: nat where "WHIP_VIDEO_TRACK = 1"
definition WHIP_VIDEO_NAME :: string where "WHIP_VIDEO_NAME = ''video_main''"

record webrtc_whip =
  wp_remote :: string
  wp_room :: string
  wp_peer :: string
  wp_extra_data :: "string option"
  wp_state :: ws_state
  wp_audio_mid :: "mid option"
  wp_video_mid :: "(mid \<times> bool) option"
  wp_queue :: "webrtc_output list"
  wp_media_convert :: "mid remote_media_convert"

definition wp_new :: "string \<Rightarrow> string \<Rightarrow> string option \<Rightarrow> string \<Rightarrow> webrtc_whip" where
  "wp_new room peer extra_data remote = \<lparr>wp_remote = remote, wp_room = room, wp_peer = peer, wp_extra_data = extra_data, wp_state = Ws_New,
     wp_audio_mid = None, wp_video_mid = None, wp_queue = [], wp_media_convert = rmc_default\<rparr>"

definition wp_push :: "webrtc_output list \<Rightarrow> webrtc_whip \<Rightarrow> webrtc_whip" where
  "wp_push os s = s\<lparr>wp_queue := wp_queue s @ os\<rparr>"

definition wp_on_codec_config :: "(nat \<times> codec_spec) list \<Rightarrow> webrtc_whip \<Rightarrow> webrtc_whip" where
  "wp_on_codec_config cfg s = s\<lparr>wp_media_convert := rmc_set_config cfg (wp_media_convert s)\<rparr>"

definition wp_is_empty :: "webrtc_whip \<Rightarrow> bool" where
  "wp_is_empty s \<longleftrightarrow> ws_is_shutdown (wp_state s) \<and> wp_queue s = []"

definition wp_on_tick :: "nat \<Rightarrow> webrtc_whip \<Rightarrow> webrtc_whip" where
  "wp_on_tick now s = (case wp_state s of
     Ws_New \<Rightarrow> wp_push [Wo_State (Tst_Connecting (wp_remote s))] (s\<lparr>wp_state := Ws_Connecting now\<rparr>)
   | Ws_Connecting at \<Rightarrow> if timed_out now at then wp_push [Wo_State (Tst_ConnectError Timeout)] (s\<lparr>wp_state := Ws_ConnectError\<rparr>) else s
   | Ws_Reconnecting at \<Rightarrow> if timed_out now at then wp_push [Wo_State (Tst_Disconnected (Some Timeout))] (s\<lparr>wp_state := Ws_Disconnected\<rparr>) else s
   | _ \<Rightarrow> s)"

definition wp_on_rpc_res :: "nat \<Rightarrow> proto_error + internal_rpc_res \<Rightarrow> webrtc_whip \<Rightarrow> webrtc_whip" where
  "wp_on_rpc_res req_id res s = s"

definition wp_on_transport_rpc_res :: "nat \<Rightarrow> nat \<Rightarrow> endpoint_res \<Rightarrow> webrtc_whip \<Rightarrow> webrtc_whip" where
  "wp_on_transport_rpc_res now req_id res s = s"

definition wp_on_endpoint_event :: "nat \<Rightarrow> endpoint_event \<Rightarrow> webrtc_whip \<Rightarrow> webrtc_whip" where
  "wp_on_endpoint_event now event s = (case event of
     Ev_RemoteMediaTrack _ Ert_RequestKeyFrame \<Rightarrow> (case wp_video_mid s of None \<Rightarrow> s | Some (mid, _) \<Rightarrow> wp_push [Wo_Keyframe mid Fir] s)
   | Ev_RemoteMediaTrack _ (Ert_LimitBitrateBps min_bps max_bps) \<Rightarrow> (case wp_video_mid s of None \<Rightarrow> s
       | Some (mid, sim) \<Rightarrow> wp_push [Wo_LimitBitrate mid (if sim then max_bps else min_bps)] s)
   | _ \<Rightarrow> s)"

definition wp_on_str0m_state :: "nat \<Rightarrow> ice_state \<Rightarrow> webrtc_whip \<Rightarrow> webrtc_whip" where
  "wp_on_str0m_state now state s = (case state of
     Ice_New \<Rightarrow> s
   | Ice_Checking \<Rightarrow> s
   | Ice_Disconnected \<Rightarrow> if wp_state s = Ws_Connected then wp_push [Wo_State (Tst_Reconnecting (wp_remote s))] (s\<lparr>wp_state := Ws_Reconnecting now\<rparr>) else s
   | _ \<Rightarrow> (case wp_state s of Ws_Reconnecting at \<Rightarrow> wp_push [Wo_State (Tst_Connected (wp_remote s))] (s\<lparr>wp_state := Ws_Connected\<rparr>) | _ \<Rightarrow> s))"

definition wp_on_str0m_media_added :: "nat \<Rightarrow> media_added \<Rightarrow> webrtc_whip \<Rightarrow> webrtc_whip" where
  "wp_on_str0m_media_added now media s =
     (if ma_direction media = Dir_SendOnly \<or> ma_direction media = Dir_Inactive then s
      else if ma_kind media = Audio then
        (if wp_audio_mid s \<noteq> None then s
         else wp_push [Wo_Remote WHIP_AUDIO_TRACK (Rte_Started WHIP_AUDIO_NAME 1
             \<lparr>tm_kind = Audio, tm_scaling = Scaling_None, tm_control = MaxBitrate, tm_metadata = None\<rparr>)]
           (s\<lparr>wp_audio_mid := Some (ma_mid media)\<rparr>))
      else
        (if wp_video_mid s \<noteq> None then s
         else wp_push [Wo_Remote WHIP_VIDEO_TRACK (Rte_Started WHIP_VIDEO_NAME 1
             \<lparr>tm_kind = Video, tm_scaling = (if ma_simulcast media then Simulcast else Scaling_None), tm_control = MaxBitrate, tm_metadata = None\<rparr>)]
           (s\<lparr>wp_video_mid := Some (ma_mid media, ma_simulcast media)\<rparr>)))"

definition wp_on_str0m_event :: "nat \<Rightarrow> str0m_event \<Rightarrow> webrtc_whip \<Rightarrow> webrtc_whip run" where
  "wp_on_str0m_event now event s = (case event of
     Se_Connected \<Rightarrow> Inr (wp_push [Wo_State (Tst_Connected (wp_remote s)),
         Wo_Transport (To_RpcReq 0 (Erq_JoinRoom (wp_room s) (wp_peer s) \<lparr>pm_metadata = None, pm_extra_data = wp_extra_data s\<rparr>
           \<lparr>rip_peer = True, rip_tracks = True\<rparr> \<lparr>ris_peers = False, ris_tracks = False\<rparr> None))] (s\<lparr>wp_state := Ws_Connected\<rparr>))
   | Se_IceConnectionStateChange state \<Rightarrow> Inr (wp_on_str0m_state now state s)
   | Se_MediaAdded media \<Rightarrow> Inr (wp_on_str0m_media_added now media s)
   | Se_RtpPacket _ rtp \<Rightarrow>
       (let track = (if rtp_pt rtp = 111 then WHIP_AUDIO_TRACK else WHIP_VIDEO_TRACK) in
        case rmc_convert rtp (wp_media_convert s) of None \<Rightarrow> Inl Loop_Unfinished
        | Some r \<Rightarrow> rbind r (\<lambda>(conv, pkt). let s1 = s\<lparr>wp_media_convert := conv\<rparr> in
            Inr (case pkt of None \<Rightarrow> s1 | Some pkt \<Rightarrow> wp_push [Wo_Remote track (Rte_Media pkt)] s1)))
   | _ \<Rightarrow> Inr s)"

definition wp_on_shutdown :: "nat \<Rightarrow> webrtc_whip \<Rightarrow> webrtc_whip" where
  "wp_on_shutdown now s = (if wp_state s \<noteq> Ws_Disconnected then wp_push [Wo_State (Tst_Disconnected None)] (s\<lparr>wp_state := Ws_Disconnected\<rparr>) else s)"

definition wp_pop_output :: "webrtc_whip \<Rightarrow> webrtc_whip \<times> webrtc_output option" where
  "wp_pop_output s = (case wp_queue s of [] \<Rightarrow> (s, None) | out # q \<Rightarrow> (s\<lparr>wp_queue := q\<rparr>, Some out))"

definition wp_step :: "webrtc_input \<Rightarrow> webrtc_whip \<Rightarrow> webrtc_whip run" where
  "wp_step x s = (case x of
     Wi_CodecConfig cfg \<Rightarrow> Inr (wp_on_codec_config cfg s)
   | Wi_Tick now \<Rightarrow> Inr (wp_on_tick now s)
   | Wi_RpcRes req_id res \<Rightarrow> Inr (wp_on_rpc_res req_id res s)
   | Wi_TransportRpcRes now req_id res \<Rightarrow> Inr (wp_on_transport_rpc_res now req_id res s)
   | Wi_EndpointEvent now event \<Rightarrow> Inr (wp_on_endpoint_event now event s)
   | Wi_Str0mEvent now event \<Rightarrow> wp_on_str0m_event now event s
   | Wi_Shutdown now \<Rightarrow> Inr (wp_on_shutdown now s))"

section \<open>The contract\<close>

definition wp_inv :: "webrtc_whip \<Rightarrow> transport_view \<Rightarrow> bool" where
  "wp_inv s v \<longleftrightarrow> ws_agrees (wp_state s) (tv_state v) \<and> tv_local v = {} \<and> tv_ended v = {} \<and>
     tv_remote v = (if wp_audio_mid s = None then {} else {WHIP_AUDIO_TRACK}) \<union> (if wp_video_mid s = None then {} else {WHIP_VIDEO_TRACK})"

text \<open>The library reports the connection only after the first tick; the packets it hands over have a layers
  allocation that fits, and no bit that the VP9 parser does not support.\<close>

fun wp_admits :: "webrtc_input \<Rightarrow> webrtc_whip \<Rightarrow> bool" where
  "wp_admits (Wi_Str0mEvent _ Se_Connected) s \<longleftrightarrow> wp_state s \<noteq> Ws_New"
| "wp_admits (Wi_Str0mEvent _ (Se_RtpPacket _ rtp)) s \<longleftrightarrow> rtp_mild (im_get (rmc_map (wp_media_convert s)) (rtp_pt rtp)) rtp"
| "wp_admits _ _ \<longleftrightarrow> True"

definition wp_tells :: "webrtc_whip \<Rightarrow> transport_view \<Rightarrow> webrtc_whip \<Rightarrow> bool" where
  "wp_tells s v s' \<longleftrightarrow> (\<exists>os v'. wp_queue s' = wp_queue s @ os \<and> ob_run tv_look os v = Some v' \<and> wp_inv s' v')"

lemma wp_tells_push: "wp_queue s1 = wp_queue s \<Longrightarrow> wp_tells s v (wp_push os s1) \<longleftrightarrow> (\<exists>v'. ob_run tv_look os v = Some v' \<and> wp_inv s1 v')"
  by (auto simp: wp_tells_def wp_push_def wp_inv_def)

lemma wp_tells_same: "wp_queue s1 = wp_queue s \<Longrightarrow> wp_tells s v s1 \<longleftrightarrow> wp_inv s1 v"
  by (auto simp: wp_tells_def)

lemmas wp_tells_simps = wp_tells_push wp_tells_same tv_look_def

lemmas wp_view_simps = wp_inv_def ws_agrees_def ts_next_def WHIP_AUDIO_TRACK_def WHIP_VIDEO_TRACK_def

lemma wp_tick_tells: "wp_inv s v \<Longrightarrow> wp_tells s v (wp_on_tick now s)"
  by (cases "wp_state s") (auto simp: wp_on_tick_def wp_view_simps wp_tells_simps)

lemma wp_str0m_state_tells: "wp_inv s v \<Longrightarrow> wp_tells s v (wp_on_str0m_state now st s)"
  by (cases st; cases "wp_state s") (auto simp: wp_on_str0m_state_def wp_view_simps wp_tells_simps)

lemma wp_media_added_tells: "wp_inv s v \<Longrightarrow> wp_tells s v (wp_on_str0m_media_added now media s)"
  by (auto simp: wp_on_str0m_media_added_def wp_inv_def WHIP_AUDIO_TRACK_def WHIP_VIDEO_TRACK_def wp_tells_simps)

lemma wp_str0m_event_tells:
  assumes "wp_inv s v" "wp_admits (Wi_Str0mEvent now event) s"
  shows "\<exists>s'. wp_on_str0m_event now event s = Inr s' \<and> wp_tells s v s'"
proof (cases event)
  case Se_Connected
  then show ?thesis using assms by (auto simp: wp_on_str0m_event_def wp_view_simps wp_tells_simps split: ws_state.splits)
next
  case (Se_RtpPacket m rtp)
  then have "rtp_mild (im_get (rmc_map (wp_media_convert s)) (rtp_pt rtp)) rtp" using assms(2) by simp
  from rmc_convert_safe [OF this] obtain conv pkt where "rmc_convert rtp (wp_media_convert s) = Some (Inr (conv, pkt))" by blast
  moreover have "wp_inv (s\<lparr>wp_media_convert := conv\<rparr>) v" using assms(1) by (simp add: wp_inv_def)
  ultimately show ?thesis using Se_RtpPacket by (cases pkt) (auto simp: wp_on_str0m_event_def Let_def wp_tells_simps)
qed (use assms in \<open>auto simp: wp_on_str0m_event_def wp_tells_simps intro: wp_str0m_state_tells wp_media_added_tells\<close>)

lemma wp_endpoint_event_tells: "wp_inv s v \<Longrightarrow> wp_tells s v (wp_on_endpoint_event now event s)"
  by (auto simp: wp_on_endpoint_event_def wp_tells_simps split: endpoint_event.split endpoint_remote_track_event.split option.split)

lemma wp_shutdown_tells: "wp_inv s v \<Longrightarrow> wp_tells s v (wp_on_shutdown now s)"
  by (cases "wp_state s") (auto simp: wp_on_shutdown_def wp_view_simps wp_tells_simps)

lemma wp_step_tells:
  assumes "wp_inv s v" "wp_admits x s"
  shows "\<exists>s'. wp_step x s = Inr s' \<and> wp_tells s v s'"
proof (cases x)
  case (Wi_CodecConfig cfg)
  then show ?thesis using assms(1) by (auto simp: wp_step_def wp_on_codec_config_def wp_inv_def wp_tells_simps)
next
  case (Wi_Str0mEvent now event)
  then show ?thesis using wp_str0m_event_tells [OF assms(1)] assms(2) by (simp add: wp_step_def)
qed (use assms(1) in \<open>auto simp: wp_step_def wp_on_rpc_res_def wp_on_transport_rpc_res_def wp_tells_simps
    intro: wp_tick_tells wp_endpoint_event_tells wp_shutdown_tells\<close>)

interpretation wpc: webrtc_session tv_look "\<lambda>v. v" tv_init wp_step wp_pop_output wp_is_empty wp_queue wp_state wp_inv wp_admits
proof unfold_locales
  show "\<exists>s' os v'. wp_step x s = Inr s' \<and> wp_queue s' = wp_queue s @ os \<and> ob_run tv_look os v = Some v' \<and> wp_inv s' v'"
    if "wp_inv s v" "wp_admits x s" for s v x using wp_step_tells [OF that] unfolding wp_tells_def by blast
qed (auto simp: wp_pop_output_def wp_is_empty_def wp_inv_def wp_step_def wp_on_shutdown_def wp_push_def ws_is_shutdown_def split: if_splits)

section \<open>Properties\<close>

text \<open>
  C35. A WHIP session keeps its promises to the endpoint: through any sequence of calls and polls in which the
  library reports the connection only after the first tick, and hands over no packet that announces a layers allocation of
  more than three layers and no VP9 packet with a scalability structure (such packets panic the parsers), nothing panics; the
  connection states it tells are a path of the connection's life, each of its two tracks is started at most
  once; and a shutdown at the end leaves it empty as soon as its outputs have been taken.
\<close>
theorem wp_run_follows:
  assumes "admits_run (so_admits wp_admits) (so_step wp_step wp_pop_output) xs (wp_new room peer extra remote, [])"
  shows "\<exists>s log v. rfold (so_step wp_step wp_pop_output) xs (wp_new room peer extra remote, []) = Inr (s, log) \<and>
     ob_run tv_look (log @ wp_queue s) tv_init = Some v \<and> wp_inv s v \<and>
     (\<exists>s1 s'. wp_step (Wi_Shutdown now) s = Inr s1 \<and>
        rfold (so_step wp_step wp_pop_output) (replicate (length (wp_queue s1)) So_Pop) (s1, log) = Inr (s', log @ wp_queue s1) \<and> wp_is_empty s')"
proof -
  have "wpc.follows (wp_new room peer extra remote, [])" by (rule wpc.follows_init) (simp_all add: wp_new_def wp_inv_def ws_agrees_def tv_init_def)
  from wpc.run_follows [OF this assms] obtain s log where run: "rfold (so_step wp_step wp_pop_output) xs (wp_new room peer extra remote, []) = Inr (s, log)"
    and fol: "wpc.follows (s, log)" by (auto simp del: split_paired_Ex split_paired_All)
  from wpc.followsD [OF fol] run wpc.shutdown_ends [OF fol, of now] show ?thesis by blast
qed

definition demo_video :: session_op where
  "demo_video = So_Input (Wi_Str0mEvent 2 (Se_MediaAdded \<lparr>ma_mid = 5, ma_kind = Video, ma_direction = Dir_SendRecv, ma_simulcast = True\<rparr>))"

theorem wp_run_follows_witness:
  "\<exists>s log v. rfold (so_step wp_step wp_pop_output) [So_Input (Wi_Tick 0), So_Input (Wi_Str0mEvent 1 Se_Connected), demo_video, So_Pop, demo_video]
       (wp_new ''room'' ''alice'' None ''ip'', []) = Inr (s, log) \<and> ob_run tv_look (log @ wp_queue s) tv_init = Some v \<and> wp_inv s v \<and>
     (\<exists>s1 s'. wp_step (Wi_Shutdown 3) s = Inr s1 \<and>
        rfold (so_step wp_step wp_pop_output) (replicate (length (wp_queue s1)) So_Pop) (s1, log) = Inr (s', log @ wp_queue s1) \<and> wp_is_empty s')"
  by (rule wp_run_follows) (simp add: so_admits_def so_step_def wp_step_def wp_on_tick_def wp_on_str0m_event_def wp_on_str0m_media_added_def wp_new_def wp_push_def wp_pop_output_def demo_video_def)

text \<open>A connection that the library reports after the time-out revives the session: \<^verbatim>\<open>Connected\<close> follows \<^verbatim>\<open>ConnectError\<close>.\<close>

lemma wp_revived_after_timeout:
  assumes "wp_state s = Ws_Connecting at" "timed_out now at"
  shows "\<exists>s'. wp_on_str0m_event later Se_Connected (wp_on_tick now s) = Inr s' \<and> wp_state s' = Ws_Connected \<and> \<not> wp_is_empty s'"
  using assms by (simp add: wp_on_tick_def wp_on_str0m_event_def wp_push_def wp_is_empty_def ws_is_shutdown_def)

end
