(* ===== verification/Webrtc_Whep.thy ===== *)
theory Webrtc_Whep
  imports Webrtc_Internal
begin

text \<open>
  \<^verbatim>\<open>packages/transport_webrtc/src/transport/whep.rs\<close>: the session of a WHEP client, which plays at most one audio and
  one video track of one peer of a room. Interpretation \<open>whc\<close> of the contract of a session; beyond it,
  a reader of the requests to the endpoint knows what each track is attached to.
\<close>

section \<open>The session\<close>

definition WHEP_AUDIO_TRACK :: nat where "WHEP_AUDIO_TRACK = 0"
definition WHEP_VIDEO_TRACK :: nat where "WHEP_VIDEO_TRACK = 1"
definition DEFAULT_PRIORITY :: nat where "DEFAULT_PRIORITY = 1"

record subscribe_streams =
  sub_peer :: "peer_id option"
  sub_audio :: "track_name option"
  sub_video :: "track_name option"

record webrtc_whep =
  wh_remote :: string
  wh_room :: string
  wh_peer :: string
  wh_extra_data :: "string option"
  wh_state :: ws_state
  wh_audio_mid :: "mid option"
  wh_video_mid :: "mid option"
  wh_subscribed :: subscribe_streams
  wh_audio_subscribe_waits :: "(peer_id \<times> track_name \<times> track_meta) list"
  wh_video_subscribe_waits :: "(peer_id \<times> track_name \<times> track_meta) list"
  wh_bwe_state :: bwe_state
  wh_queue :: "webrtc_output list"

definition wh_new :: "string \<Rightarrow> string \<Rightarrow> string option \<Rightarrow> string \<Rightarrow> webrtc_whep" where
  "wh_new room peer extra_data remote = \<lparr>wh_remote = remote, wh_room = room, wh_peer = peer, wh_extra_data = extra_data, wh_state = Ws_New,
     wh_audio_mid = None, wh_video_mid = None, wh_subscribed = \<lparr>sub_peer = None, sub_audio = None, sub_video = None\<rparr>,
     wh_audio_subscribe_waits = [], wh_video_subscribe_waits = [], wh_bwe_state = Bwe_Inactive, wh_queue = []\<rparr>"

definition wh_push :: "webrtc_output list \<Rightarrow> webrtc_whep \<Rightarrow> webrtc_whep" where
  "wh_push os s = s\<lparr>wh_queue := wh_queue s @ os\<rparr>"

definition wh_attach :: "nat \<Rightarrow> peer_id \<Rightarrow> track_name \<Rightarrow> webrtc_output" where
  "wh_attach local peer track = Wo_Transport (To_RpcReq 0 (Erq_LocalTrack local (Lrq_Attach \<lparr>tsrc_peer = peer, tsrc_track = track\<rparr>
     \<lparr>ltc_priority = DEFAULT_PRIORITY, ltc_max_spatial = 2, ltc_max_temporal = 2, ltc_min_spatial = None, ltc_min_temporal = None\<rparr>)))"

definition wh_try_subscribe :: "peer_id \<Rightarrow> track_name \<Rightarrow> track_meta \<Rightarrow> webrtc_whep \<Rightarrow> webrtc_whep" where
  "wh_try_subscribe peer track meta s = (let sub = wh_subscribed s in
     if sub_peer sub = None \<or> sub_peer sub = Some peer then
       if sub_audio sub = None \<and> kind_is_audio (tm_kind meta) then
         wh_push [wh_attach WHEP_AUDIO_TRACK peer track] (s\<lparr>wh_subscribed := sub\<lparr>sub_peer := Some peer, sub_audio := Some track\<rparr>\<rparr>)
       else if sub_video sub = None \<and> kind_is_video (tm_kind meta) then
         wh_push [wh_attach WHEP_VIDEO_TRACK peer track] (s\<lparr>wh_subscribed := sub\<lparr>sub_peer := Some peer, sub_video := Some track\<rparr>\<rparr>)
       else s
     else s)"

definition wh_try_unsubscribe :: "peer_id \<Rightarrow> track_name \<Rightarrow> webrtc_whep \<Rightarrow> webrtc_whep" where
  "wh_try_unsubscribe peer track s =
     (if sub_peer (wh_subscribed s) = Some peer then
        let s1 = (if sub_audio (wh_subscribed s) = Some track
              then wh_push [Wo_Transport (To_RpcReq 0 (Erq_LocalTrack WHEP_AUDIO_TRACK Lrq_Detach))] (s\<lparr>wh_subscribed := (wh_subscribed s)\<lparr>sub_audio := None\<rparr>\<rparr>) else s);
            s2 = (if sub_video (wh_subscribed s1) = Some track
              then wh_push [Wo_Transport (To_RpcReq 0 (Erq_LocalTrack WHEP_VIDEO_TRACK Lrq_Detach))] (s1\<lparr>wh_subscribed := (wh_subscribed s1)\<lparr>sub_video := None\<rparr>\<rparr>) else s1) in
        if sub_audio (wh_subscribed s2) = None \<and> sub_video (wh_subscribed s2) = None then s2\<lparr>wh_subscribed := (wh_subscribed s2)\<lparr>sub_peer := None\<rparr>\<rparr> else s2
      else s)"

definition wh_on_codec_config :: "(nat \<times> codec_spec) list \<Rightarrow> webrtc_whep \<Rightarrow> webrtc_whep" where
  "wh_on_codec_config cfg s = s"

definition wh_is_empty :: "webrtc_whep \<Rightarrow> bool" where
  "wh_is_empty s \<longleftrightarrow> ws_is_shutdown (wh_state s) \<and> wh_queue s = []"

definition wh_on_tick :: "nat \<Rightarrow> webrtc_whep \<Rightarrow> webrtc_whep" where
  "wh_on_tick now s0 = (case bwe_on_tick now (wh_bwe_state s0) of (bwe, init_bitrate) \<Rightarrow>
     (let s1 = s0\<lparr>wh_bwe_state := bwe\<rparr>; s = (case init_bitrate of None \<Rightarrow> s1 | Some b \<Rightarrow> wh_push [Wo_ResetBwe b] s1) in
      case wh_state s of
        Ws_New \<Rightarrow> wh_push [Wo_State (Tst_Connecting (wh_remote s))] (s\<lparr>wh_state := Ws_Connecting now\<rparr>)
      | Ws_Connecting at \<Rightarrow> if timed_out now at then wh_push [Wo_State (Tst_ConnectError Timeout)] (s\<lparr>wh_state := Ws_ConnectError\<rparr>) else s
      | Ws_Reconnecting at \<Rightarrow> if timed_out now at then wh_push [Wo_State (Tst_Disconnected (Some Timeout))] (s\<lparr>wh_state := Ws_Disconnected\<rparr>) else s
      | _ \<Rightarrow> s))"

definition wh_on_rpc_res :: "nat \<Rightarrow> proto_error + internal_rpc_res \<Rightarrow> webrtc_whep \<Rightarrow> webrtc_whep" where
  "wh_on_rpc_res req_id res s = s"

definition wh_on_transport_rpc_res :: "nat \<Rightarrow> nat \<Rightarrow> endpoint_res \<Rightarrow> webrtc_whep \<Rightarrow> webrtc_whep" where
  "wh_on_transport_rpc_res now req_id res s = s"

definition wh_on_endpoint_event :: "nat \<Rightarrow> endpoint_event \<Rightarrow> webrtc_whep \<Rightarrow> webrtc_whep" where
  "wh_on_endpoint_event now event s = (case event of
     Ev_PeerTrackStarted peer track meta \<Rightarrow>
       if wh_audio_mid s = None \<and> kind_is_audio (tm_kind meta) then s\<lparr>wh_audio_subscribe_waits := wh_audio_subscribe_waits s @ [(peer, track, meta)]\<rparr>
       else if wh_video_mid s = None \<and> kind_is_video (tm_kind meta) then s\<lparr>wh_video_subscribe_waits := wh_video_subscribe_waits s @ [(peer, track, meta)]\<rparr>
       else wh_try_subscribe peer track meta s
   | Ev_PeerTrackStopped peer track _ \<Rightarrow> wh_try_unsubscribe peer track s
   | Ev_LocalMediaTrack _ (Elt_Media pkt) \<Rightarrow>
       if meta_is_audio (pkt_meta pkt) then (case wh_audio_mid s of None \<Rightarrow> s | Some mid \<Rightarrow> wh_push [Wo_SendMedia mid pkt] s)
       else (case wh_video_mid s of None \<Rightarrow> s
         | Some mid \<Rightarrow> wh_push [Wo_SendMedia mid pkt] (s\<lparr>wh_bwe_state := bwe_on_send_video now (wh_bwe_state s)\<rparr>))
   | Ev_BweConfig current desired \<Rightarrow> (case filter_bwe_config current desired (wh_bwe_state s) of (current, desired) \<Rightarrow> wh_push [Wo_Bwe current desired] s)
   | _ \<Rightarrow> s)"

definition wh_on_str0m_state :: "nat \<Rightarrow> ice_state \<Rightarrow> webrtc_whep \<Rightarrow> webrtc_whep" where
  "wh_on_str0m_state now state s = (case state of
     Ice_New \<Rightarrow> s
   | Ice_Checking \<Rightarrow> s
   | Ice_Disconnected \<Rightarrow> if wh_state s = Ws_Connected then wh_push [Wo_State (Tst_Reconnecting (wh_remote s))] (s\<lparr>wh_state := Ws_Reconnecting now\<rparr>) else s
   | _ \<Rightarrow> (case wh_state s of Ws_Reconnecting at \<Rightarrow> wh_push [Wo_State (Tst_Connected (wh_remote s))] (s\<lparr>wh_state := Ws_Connected\<rparr>) | _ \<Rightarrow> s))"

definition wh_on_str0m_media_added :: "nat \<Rightarrow> media_added \<Rightarrow> webrtc_whep \<Rightarrow> webrtc_whep" where
  "wh_on_str0m_media_added now media s =
     (if ma_direction media = Dir_RecvOnly \<or> ma_direction media = Dir_Inactive then s
      else if ma_kind media = Audio then
        (if wh_audio_mid s \<noteq> None then s
         else let s1 = wh_push [Wo_Local WHEP_AUDIO_TRACK (Lte_Started Audio)] (s\<lparr>wh_audio_mid := Some (ma_mid media)\<rparr>) in
           fold (\<lambda>(peer, track, meta). wh_try_subscribe peer track meta) (wh_audio_subscribe_waits s1) (s1\<lparr>wh_audio_subscribe_waits := []\<rparr>))
      else
        (if wh_video_mid s \<noteq> None then s
         else let s1 = wh_push [Wo_Local WHEP_VIDEO_TRACK (Lte_Started Video)] (s\<lparr>wh_video_mid := Some (ma_mid media)\<rparr>) in
           fold (\<lambda>(peer, track, meta). wh_try_subscribe peer track meta) (wh_video_subscribe_waits s1) (s1\<lparr>wh_video_subscribe_waits := []\<rparr>)))"

definition wh_on_str0m_event :: "nat \<Rightarrow> str0m_event \<Rightarrow> webrtc_whep \<Rightarrow> webrtc_whep" where
  "wh_on_str0m_event now event s = (case event of
     Se_Connected \<Rightarrow> wh_push [Wo_State (Tst_Connected (wh_remote s)),
         Wo_Transport (To_RpcReq 0 (Erq_JoinRoom (wh_room s) (wh_peer s) \<lparr>pm_metadata = None, pm_extra_data = wh_extra_data s\<rparr>
           \<lparr>rip_peer = False, rip_tracks = False\<rparr> \<lparr>ris_peers = False, ris_tracks = True\<rparr> None))] (s\<lparr>wh_state := Ws_Connected\<rparr>)
   | Se_IceConnectionStateChange state \<Rightarrow> wh_on_str0m_state now state s
   | Se_MediaAdded media \<Rightarrow> wh_on_str0m_media_added now media s
   | Se_KeyframeRequest mid \<Rightarrow> if wh_video_mid s = Some mid then wh_push [Wo_Local WHEP_VIDEO_TRACK Lte_RequestKeyFrame] s else s
   | Se_EgressBitrateEstimate bitrate \<Rightarrow> wh_push [Wo_Transport (To_Event (Te_EgressBitrateEstimate (filter_bwe bitrate (wh_bwe_state s))))] s
   | _ \<Rightarrow> s)"

definition wh_on_shutdown :: "nat \<Rightarrow> webrtc_whep \<Rightarrow> webrtc_whep" where
  "wh_on_shutdown now s = (if wh_state s \<noteq> Ws_Disconnected then wh_push [Wo_State (Tst_Disconnected None)] (s\<lparr>wh_state := Ws_Disconnected\<rparr>) else s)"

definition wh_pop_output :: "webrtc_whep \<Rightarrow> webrtc_whep \<times> webrtc_output option" where
  "wh_pop_output s = (case wh_queue s of [] \<Rightarrow> (s, None) | out # q \<Rightarrow> (s\<lparr>wh_queue := q\<rparr>, Some out))"

definition wh_step :: "webrtc_input \<Rightarrow> webrtc_whep \<Rightarrow> webrtc_whep run" where
  "wh_step x s = Inr (case x of
     Wi_CodecConfig cfg \<Rightarrow> wh_on_codec_config cfg s
   | Wi_Tick now \<Rightarrow> wh_on_tick now s
   | Wi_RpcRes req_id res \<Rightarrow> wh_on_rpc_res req_id res s
   | Wi_TransportRpcRes now req_id res \<Rightarrow> wh_on_transport_rpc_res now req_id res s
   | Wi_EndpointEvent now event \<Rightarrow> wh_on_endpoint_event now event s
   | Wi_Str0mEvent now event \<Rightarrow> wh_on_str0m_event now event s
   | Wi_Shutdown now \<Rightarrow> wh_on_shutdown now s)"

section \<open>The contract\<close>

text \<open>A reader of the outputs who follows the transport events and knows what each local track is attached to: a
  track is attached only after it has been started and while nothing is attached to it.\<close>

type_synonym whep_view = "transport_view \<times> (nat \<Rightarrow> track_source option)"

fun wv_step :: "webrtc_output \<Rightarrow> whep_view \<Rightarrow> whep_view option" where
  "wv_step (Wo_Transport (To_Event e)) (v, a) = map_option (\<lambda>v'. (v', a)) (tv_step e v)"
| "wv_step (Wo_Transport (To_RpcReq _ (Erq_LocalTrack t (Lrq_Attach source _)))) (v, a) =
     (if t \<in> tv_local v \<and> a t = None then Some (v, a(t \<mapsto> source)) else None)"
| "wv_step (Wo_Transport (To_RpcReq _ (Erq_LocalTrack t Lrq_Detach))) (v, a) = (if a t \<noteq> None then Some (v, a(t := None)) else None)"
| "wv_step (Wo_SendMedia _ pkt) w = (if sendable pkt then Some w else None)"
| "wv_step _ w = Some w"

lemma wv_step_transport: "wv_step x w = Some w' \<Longrightarrow> tv_look x (fst w) = Some (fst w')"
  by (induction x w rule: wv_step.induct) (auto simp: tv_look_def split: if_splits)

definition sub_source :: "subscribe_streams \<Rightarrow> track_name option \<Rightarrow> track_source option" where
  "sub_source sub track = (case (sub_peer sub, track) of (Some p, Some t) \<Rightarrow> Some \<lparr>tsrc_peer = p, tsrc_track = t\<rparr> | _ \<Rightarrow> None)"

definition wh_attached :: "subscribe_streams \<Rightarrow> nat \<Rightarrow> track_source option" where
  "wh_attached sub = (\<lambda>_. None)(WHEP_AUDIO_TRACK := sub_source sub (sub_audio sub), WHEP_VIDEO_TRACK := sub_source sub (sub_video sub))"

definition sub_wf :: "subscribe_streams \<Rightarrow> bool" where
  "sub_wf sub \<longleftrightarrow> (sub_peer sub = None \<longleftrightarrow> sub_audio sub = None \<and> sub_video sub = None)"

definition wh_inv :: "webrtc_whep \<Rightarrow> whep_view \<Rightarrow> bool" where
  "wh_inv s = (\<lambda>(v, a). ws_agrees (wh_state s) (tv_state v) \<and> tv_remote v = {} \<and> tv_ended v = {} \<and>
     tv_local v = (if wh_audio_mid s = None then {} else {WHEP_AUDIO_TRACK}) \<union> (if wh_video_mid s = None then {} else {WHEP_VIDEO_TRACK}) \<and>
     a = wh_attached (wh_subscribed s) \<and> sub_wf (wh_subscribed s) \<and>
     (\<forall>(_, _, meta)\<in>set (wh_audio_subscribe_waits s). tm_kind meta = Audio) \<and> (\<forall>(_, _, meta)\<in>set (wh_video_subscribe_waits s). tm_kind meta = Video))"

definition wh_tells :: "webrtc_whep \<Rightarrow> whep_view \<Rightarrow> webrtc_whep \<Rightarrow> bool" where
  "wh_tells s w s' \<longleftrightarrow> (\<exists>os w'. wh_queue s' = wh_queue s @ os \<and> ob_run wv_step os w = Some w' \<and> wh_inv s' w')"

lemma wh_tells_push: "wh_queue s1 = wh_queue s \<Longrightarrow> wh_tells s w (wh_push os s1) \<longleftrightarrow> (\<exists>w'. ob_run wv_step os w = Some w' \<and> wh_inv s1 w')"
  by (auto simp: wh_tells_def wh_push_def wh_inv_def)

lemma wh_tells_same: "wh_queue s1 = wh_queue s \<Longrightarrow> wh_tells s w s1 \<longleftrightarrow> wh_inv s1 w"
  by (cases w) (auto simp: wh_tells_def)

lemmas wh_tells_simps = wh_tells_push wh_tells_same

lemma wh_tells_trans:
  assumes "wh_tells s w s1" "\<And>w1. wh_inv s1 w1 \<Longrightarrow> wh_tells s1 w1 s2"
  shows "wh_tells s w s2"
proof -
  obtain os w1 where 1: "wh_queue s1 = wh_queue s @ os" "ob_run wv_step os w = Some w1" "wh_inv s1 w1" using assms(1) by (auto simp: wh_tells_def)
  obtain os' w2 where "wh_queue s2 = wh_queue s1 @ os'" "ob_run wv_step os' w1 = Some w2" "wh_inv s2 w2" using assms(2) [OF 1(3)] by (auto simp: wh_tells_def)
  then show ?thesis unfolding wh_tells_def by (intro exI [of _ "os @ os'"] exI [of _ w2]) (simp add: 1 ob_run_append)
qed

lemmas wh_track_defs = WHEP_AUDIO_TRACK_def WHEP_VIDEO_TRACK_def

lemma wh_attached_updates:
  "sub_wf sub \<Longrightarrow> sub_peer sub = None \<or> sub_peer sub = Some p \<Longrightarrow>
     wh_attached (sub\<lparr>sub_peer := Some p, sub_audio := Some t\<rparr>) = (wh_attached sub)(WHEP_AUDIO_TRACK \<mapsto> \<lparr>tsrc_peer = p, tsrc_track = t\<rparr>) \<and>
     wh_attached (sub\<lparr>sub_peer := Some p, sub_video := Some t\<rparr>) = (wh_attached sub)(WHEP_VIDEO_TRACK \<mapsto> \<lparr>tsrc_peer = p, tsrc_track = t\<rparr>)"
  "wh_attached (sub\<lparr>sub_audio := None\<rparr>) = (wh_attached sub)(WHEP_AUDIO_TRACK := None)"
  "wh_attached (sub\<lparr>sub_video := None\<rparr>) = (wh_attached sub)(WHEP_VIDEO_TRACK := None)"
  "sub_audio sub = None \<Longrightarrow> sub_video sub = None \<Longrightarrow> wh_attached (sub\<lparr>sub_peer := None\<rparr>) = wh_attached sub"
  by (auto simp: wh_attached_def sub_source_def sub_wf_def wh_track_defs fun_eq_iff split: option.splits)

lemma wh_attached_at:
  "sub_wf sub \<Longrightarrow> wh_attached sub WHEP_AUDIO_TRACK = None \<longleftrightarrow> sub_audio sub = None" "sub_wf sub \<Longrightarrow> wh_attached sub WHEP_VIDEO_TRACK = None \<longleftrightarrow> sub_video sub = None"
  by (auto simp: wh_attached_def sub_source_def sub_wf_def wh_track_defs split: option.splits)

lemma wh_subscribe_tells:
  assumes "wh_inv s w" "if tm_kind meta = Audio then wh_audio_mid s \<noteq> None else wh_video_mid s \<noteq> None"
  shows "wh_tells s w (wh_try_subscribe peer track meta s)"
proof -
  let ?sub = "wh_subscribed s"
  obtain v a where w: "w = (v, a)" by (cases w)
  have wf: "sub_wf ?sub" "a = wh_attached ?sub" using assms(1) by (simp_all add: w wh_inv_def)
  have kind: "tm_kind meta = Audio \<or> tm_kind meta = Video" by (cases "tm_kind meta") auto
  show ?thesis
  proof (cases "sub_peer ?sub = None \<or> sub_peer ?sub = Some peer")
    case True
    from wh_attached_updates(1) [OF wf(1) True] show ?thesis using kind assms True
      by (auto simp: w wh_try_subscribe_def Let_def wh_tells_simps wh_inv_def wh_attach_def sub_wf_def kind_is_audio_def kind_is_video_def wh_attached_at)
  qed (use assms(1) in \<open>auto simp: wh_try_subscribe_def Let_def wh_tells_simps\<close>)
qed

lemma wh_tracks_differ [simp]: "WHEP_AUDIO_TRACK \<noteq> WHEP_VIDEO_TRACK" "WHEP_VIDEO_TRACK \<noteq> WHEP_AUDIO_TRACK"
  by (simp_all add: wh_track_defs)

lemma wh_unsubscribe_tells:
  assumes "wh_inv s w" shows "wh_tells s w (wh_try_unsubscribe peer track s)"
proof -
  obtain v a where w: "w = (v, a)" by (cases w)
  have wf: "sub_wf (wh_subscribed s)" using assms by (simp add: w wh_inv_def)
  note at = wh_attached_at [OF wf]
  show ?thesis using assms wf
    by (auto simp: w wh_try_unsubscribe_def Let_def wh_tells_def wh_push_def wh_inv_def wh_attached_updates at sub_wf_def)
qed

lemma wh_waits_tell:
  assumes "wh_inv s w" "\<forall>(_, _, meta)\<in>set waits. if tm_kind meta = Audio then wh_audio_mid s \<noteq> None else wh_video_mid s \<noteq> None"
  shows "wh_tells s w (fold (\<lambda>(peer, track, meta). wh_try_subscribe peer track meta) waits s)"
  using assms
proof (induction waits arbitrary: s w)
  case (Cons x waits)
  obtain peer track meta where x: "x = (peer, track, meta)" by (cases x)
  let ?s = "wh_try_subscribe peer track meta s"
  have mids: "wh_audio_mid ?s = wh_audio_mid s" "wh_video_mid ?s = wh_video_mid s" by (simp_all add: wh_try_subscribe_def Let_def wh_push_def)
  have "wh_tells s w ?s" using wh_subscribe_tells [OF Cons.prems(1)] Cons.prems(2) by (simp add: x)
  then have "wh_tells s w (fold (\<lambda>(peer, track, meta). wh_try_subscribe peer track meta) waits ?s)"
  proof (rule wh_tells_trans)
    fix w1 assume "wh_inv ?s w1"
    then show "wh_tells ?s w1 (fold (\<lambda>(peer, track, meta). wh_try_subscribe peer track meta) waits ?s)"
      by (rule Cons.IH) (use Cons.prems(2) in \<open>auto simp: mids\<close>)
  qed
  then show ?case by (simp add: x)
qed (simp add: wh_tells_same)

lemma wh_tick_tells: "wh_inv s w \<Longrightarrow> wh_tells s w (wh_on_tick now s)"
proof -
  assume inv: "wh_inv s w"
  obtain bwe init where b: "bwe_on_tick now (wh_bwe_state s) = (bwe, init)" by (cases "bwe_on_tick now (wh_bwe_state s)")
  let ?s = "case init of None \<Rightarrow> s\<lparr>wh_bwe_state := bwe\<rparr> | Some b \<Rightarrow> wh_push [Wo_ResetBwe b] (s\<lparr>wh_bwe_state := bwe\<rparr>)"
  have "wh_tells s w ?s" using inv by (cases w) (auto simp: wh_tells_simps wh_inv_def split: option.split)
  then show ?thesis
  proof (rule wh_tells_trans)
    fix w1 assume "wh_inv ?s w1"
    then show "wh_tells ?s w1 (wh_on_tick now s)"
      by (cases w1; cases "wh_state ?s") (auto simp: wh_on_tick_def b Let_def wh_tells_simps wh_inv_def ws_agrees_def ts_next_def simp del: split_paired_Ex)
  qed
qed

lemma wh_str0m_state_tells: "wh_inv s w \<Longrightarrow> wh_tells s w (wh_on_str0m_state now st s)"
  by (cases w; cases st; cases "wh_state s") (auto simp: wh_on_str0m_state_def wh_tells_simps wh_inv_def ws_agrees_def ts_next_def)

lemma wh_media_added_tells:
  assumes "wh_inv s w"
  shows "wh_tells s w (wh_on_str0m_media_added now media s)"
proof -
  obtain v a where w: "w = (v, a)" by (cases w)
  let ?sa = "wh_push [Wo_Local WHEP_AUDIO_TRACK (Lte_Started Audio)] (s\<lparr>wh_audio_mid := Some (ma_mid media)\<rparr>)"
  let ?sv = "wh_push [Wo_Local WHEP_VIDEO_TRACK (Lte_Started Video)] (s\<lparr>wh_video_mid := Some (ma_mid media)\<rparr>)"
  have audio: "wh_tells s w (?sa\<lparr>wh_audio_subscribe_waits := []\<rparr>)" "\<forall>(_, _, meta)\<in>set (wh_audio_subscribe_waits s). tm_kind meta = Audio" if "wh_audio_mid s = None"
    using assms that by (auto simp: w wh_tells_def wh_push_def wh_inv_def)
  have video: "wh_tells s w (?sv\<lparr>wh_video_subscribe_waits := []\<rparr>)" "\<forall>(_, _, meta)\<in>set (wh_video_subscribe_waits s). tm_kind meta = Video" if "wh_video_mid s = None"
    using assms that by (auto simp: w wh_tells_def wh_push_def wh_inv_def)
  have "wh_tells s w (fold (\<lambda>(peer, track, meta). wh_try_subscribe peer track meta) (wh_audio_subscribe_waits s) (?sa\<lparr>wh_audio_subscribe_waits := []\<rparr>))"
    if "wh_audio_mid s = None"
    by (rule wh_tells_trans [OF audio(1) [OF that]], rule wh_waits_tell) (use audio(2) [OF that] in \<open>auto simp: wh_push_def\<close>)
  moreover have "wh_tells s w (fold (\<lambda>(peer, track, meta). wh_try_subscribe peer track meta) (wh_video_subscribe_waits s) (?sv\<lparr>wh_video_subscribe_waits := []\<rparr>))"
    if "wh_video_mid s = None"
    by (rule wh_tells_trans [OF video(1) [OF that]], rule wh_waits_tell) (use video(2) [OF that] in \<open>auto simp: wh_push_def\<close>)
  ultimately show ?thesis using assms by (auto simp: wh_on_str0m_media_added_def Let_def wh_tells_same wh_push_def)
qed

text \<open>The library reports the connection only after the first tick; the endpoint hands over packets that can be sent.\<close>

fun wh_admits :: "webrtc_input \<Rightarrow> webrtc_whep \<Rightarrow> bool" where
  "wh_admits (Wi_Str0mEvent _ Se_Connected) s \<longleftrightarrow> wh_state s \<noteq> Ws_New"
| "wh_admits (Wi_EndpointEvent _ (Ev_LocalMediaTrack _ (Elt_Media pkt))) s \<longleftrightarrow> sendable pkt"
| "wh_admits _ _ \<longleftrightarrow> True"

lemma wh_str0m_event_tells:
  assumes "wh_inv s w" "wh_admits (Wi_Str0mEvent now event) s"
  shows "wh_tells s w (wh_on_str0m_event now event s)"
  using assms
proof (cases w; cases event)
  fix v a assume w: "w = (v, a)" and Se_Connected: "event = Se_Connected"
  then show ?thesis using assms by (auto simp: wh_on_str0m_event_def wh_inv_def ws_agrees_def ts_next_def wh_tells_simps split: ws_state.splits)
qed (auto simp: wh_on_str0m_event_def wh_tells_simps intro: wh_str0m_state_tells wh_media_added_tells)

lemma wh_endpoint_event_tells:
  assumes "wh_inv s w" "wh_admits (Wi_EndpointEvent now event) s" shows "wh_tells s w (wh_on_endpoint_event now event s)"
proof (cases event)
  case (Ev_PeerTrackStarted peer track meta)
  obtain v a where w: "w = (v, a)" by (cases w)
  show ?thesis
  proof (cases "if tm_kind meta = Audio then wh_audio_mid s \<noteq> None else wh_video_mid s \<noteq> None")
    case True
    then show ?thesis using wh_subscribe_tells [OF assms(1) True, of peer track] Ev_PeerTrackStarted
      by (cases "tm_kind meta") (auto simp: wh_on_endpoint_event_def kind_is_audio_def kind_is_video_def)
  next
    case False
    then show ?thesis using assms Ev_PeerTrackStarted
      by (cases "tm_kind meta") (auto simp: w wh_on_endpoint_event_def kind_is_audio_def kind_is_video_def wh_tells_simps wh_inv_def)
  qed
next
  case (Ev_PeerTrackStopped peer track meta)
  then show ?thesis using wh_unsubscribe_tells [OF assms(1)] by (simp add: wh_on_endpoint_event_def)
next
  case (Ev_LocalMediaTrack track ev)
  then show ?thesis using assms
    by (cases w; cases ev) (auto simp: wh_on_endpoint_event_def wh_tells_simps wh_inv_def split: option.split)
qed (use assms in \<open>cases w, auto simp: wh_on_endpoint_event_def wh_tells_simps split: prod.split\<close>)

lemma wh_shutdown_tells: "wh_inv s w \<Longrightarrow> wh_tells s w (wh_on_shutdown now s)"
  by (cases w; cases "wh_state s") (auto simp: wh_on_shutdown_def wh_tells_simps wh_inv_def ws_agrees_def ts_next_def)

lemma wh_step_tells: "wh_inv s w \<Longrightarrow> wh_admits x s \<Longrightarrow> \<exists>s'. wh_step x s = Inr s' \<and> wh_tells s w s'"
  by (cases x) (auto simp: wh_step_def wh_on_codec_config_def wh_on_rpc_res_def wh_on_transport_rpc_res_def wh_tells_same
      intro: wh_tick_tells wh_endpoint_event_tells wh_str0m_event_tells wh_shutdown_tells)

interpretation whc: webrtc_session wv_step fst "(tv_init, \<lambda>_. None)" wh_step wh_pop_output wh_is_empty wh_queue wh_state wh_inv wh_admits
proof unfold_locales
  show "\<exists>s' os v'. wh_step x s = Inr s' \<and> wh_queue s' = wh_queue s @ os \<and> ob_run wv_step os w = Some v' \<and> wh_inv s' v'"
    if "wh_inv s w" "wh_admits x s" for s w x using wh_step_tells [OF that] unfolding wh_tells_def by blast
qed (auto simp: wv_step_transport wh_pop_output_def wh_is_empty_def wh_inv_def wh_step_def wh_on_shutdown_def wh_push_def ws_is_shutdown_def split: if_splits)

section \<open>Properties\<close>

text \<open>
  C34. A WHEP session plays at most one audio and one video track, of one peer: through any sequence of calls and
  polls in which the library reports the connection only after the first tick, the requests to the endpoint
  attach a track only after it has been started and while nothing is attached to it, and detach it only while
  something is; and what they leave attached is what the session notes down, sources of one and
  the same peer.
\<close>
theorem wh_attaches_one_peer:
  assumes "admits_run (so_admits wh_admits) (so_step wh_step wh_pop_output) xs (wh_new room peer extra remote, [])"
  shows "\<exists>s log v. rfold (so_step wh_step wh_pop_output) xs (wh_new room peer extra remote, []) = Inr (s, log) \<and>
     ob_run wv_step (log @ wh_queue s) (tv_init, \<lambda>_. None) = Some (v, wh_attached (wh_subscribed s)) \<and>
     (\<forall>t source. wh_attached (wh_subscribed s) t = Some source \<longrightarrow> sub_peer (wh_subscribed s) = Some (tsrc_peer source))"
proof -
  have "whc.follows (wh_new room peer extra remote, [])"
    by (rule whc.follows_init) (simp_all add: wh_new_def wh_inv_def ws_agrees_def tv_init_def wh_attached_def sub_source_def sub_wf_def)
  from whc.run_follows [OF this assms] obtain s log where run: "rfold (so_step wh_step wh_pop_output) xs (wh_new room peer extra remote, []) = Inr (s, log)"
    and fol: "whc.follows (s, log)" by (auto simp del: split_paired_Ex split_paired_All)
  from whc.followsD [OF fol] obtain v a where "ob_run wv_step (log @ wh_queue s) (tv_init, \<lambda>_. None) = Some (v, a)" "wh_inv s (v, a)" by auto
  moreover have "sub_peer sub = Some (tsrc_peer source)" if "wh_attached sub t = Some source" for sub t source
    using that by (auto simp: wh_attached_def sub_source_def split: if_splits option.splits)
  ultimately show ?thesis using run by (auto simp: wh_inv_def)
qed

definition demo_audio :: session_op where
  "demo_audio = So_Input (Wi_Str0mEvent 2 (Se_MediaAdded \<lparr>ma_mid = 5, ma_kind = Audio, ma_direction = Dir_SendOnly, ma_simulcast = False\<rparr>))"

theorem wh_attaches_one_peer_witness:
  "\<exists>s log v. rfold (so_step wh_step wh_pop_output) [So_Input (Wi_Tick 0), So_Input (Wi_Str0mEvent 1 Se_Connected),
         So_Input (Wi_EndpointEvent 1 (Ev_PeerTrackStarted ''bob'' ''mic'' default_audio)), demo_audio, So_Pop,
         So_Input (Wi_EndpointEvent 3 (Ev_PeerTrackStopped ''bob'' ''mic'' default_audio)), So_Input (Wi_EndpointEvent 4 (Ev_PeerTrackStarted ''eve'' ''mic'' default_audio))]
       (wh_new ''room'' ''alice'' None ''ip'', []) = Inr (s, log) \<and>
     ob_run wv_step (log @ wh_queue s) (tv_init, \<lambda>_. None) = Some (v, wh_attached (wh_subscribed s)) \<and>
     (\<forall>t source. wh_attached (wh_subscribed s) t = Some source \<longrightarrow> sub_peer (wh_subscribed s) = Some (tsrc_peer source))"
  by (rule wh_attaches_one_peer) (simp add: so_admits_def so_step_def wh_step_def wh_on_tick_def bwe_on_tick_def wh_new_def wh_push_def Let_def demo_audio_def wh_pop_output_def wh_on_endpoint_event_def
      wh_on_str0m_event_def wh_on_str0m_media_added_def wh_try_subscribe_def wh_try_unsubscribe_def kind_is_audio_def kind_is_video_def default_audio_def)

text \<open>A track that stops while it waits for the client's media section stays a candidate, and the session attaches to it when the section comes.\<close>

lemma wh_attaches_stopped_track:
  assumes "wh_audio_mid s = None" "wh_audio_subscribe_waits s = []" "wh_subscribed s = \<lparr>sub_peer = None, sub_audio = None, sub_video = None\<rparr>" "tm_kind meta = Audio"
  shows "\<exists>q. wh_queue (wh_on_str0m_media_added now2 \<lparr>ma_mid = 0, ma_kind = Audio, ma_direction = Dir_SendOnly, ma_simulcast = False\<rparr>
     (wh_on_endpoint_event now1 (Ev_PeerTrackStopped peer track meta) (wh_on_endpoint_event now (Ev_PeerTrackStarted peer track meta) s))) =
     q @ [wh_attach WHEP_AUDIO_TRACK peer track]"
  using assms by (simp add: wh_on_endpoint_event_def wh_on_str0m_media_added_def wh_try_unsubscribe_def wh_try_subscribe_def kind_is_audio_def Let_def wh_push_def)

end
