(* ===== verification/Webrtc_Sdk.thy ===== *)
theory Webrtc_Sdk
  imports Webrtc_Internal
begin

text \<open>
  \<^verbatim>\<open>packages/transport_webrtc/src/transport/webrtc.rs\<close> with \<^verbatim>\<open>webrtc/local_track.rs\<close> and \<^verbatim>\<open>webrtc/remote_track.rs\<close>: the session
  of a client that uses the SDK. It maps the client's named senders and receivers to the media sections of the
  connection, turns requests of the data channel into requests of the endpoint, and events and
  answers of the endpoint into messages of the data channel. Interpretation \<open>sdc\<close> of the contract of a
  session. The decoding of tokens (\<^verbatim>\<open>MediaEdgeSecure::decode_token\<close>) is the parameter \<open>decode_token\<close>; \<^verbatim>\<open>todo!()\<close> panics.
\<close>

section \<open>Tracks\<close>

record sdk_local_track =
  slt_id :: nat
  slt_name :: track_name
  slt_kind :: media_kind
  slt_mid :: "mid option"

definition slt_new :: "nat \<Rightarrow> proto_receiver \<Rightarrow> sdk_local_track" where
  "slt_new i cfg = \<lparr>slt_id = i, slt_name = pr_name cfg, slt_kind = proto_kind (pr_kind cfg), slt_mid = None\<rparr>"

definition slt_set_mid :: "mid \<Rightarrow> sdk_local_track \<Rightarrow> sdk_local_track run" where
  "slt_set_mid mid t = rbind (rassert (slt_mid t = None)) (\<lambda>_. Inr (t\<lparr>slt_mid := Some mid\<rparr>))"

definition MIN_STREAM_BITRATE_BPS :: nat where "MIN_STREAM_BITRATE_BPS = 100000"

record sdk_remote_track =
  srt_id :: nat
  srt_name :: track_name
  srt_kind :: media_kind
  srt_source :: "proto_sender_source option"
  srt_config :: proto_sender_config
  srt_scaling :: media_scaling
  srt_mid :: "mid option"

definition srt_new :: "nat \<Rightarrow> proto_sender \<Rightarrow> sdk_remote_track" where
  "srt_new i cfg = (let state = or_default sender_state_default (psn_state cfg) in
     \<lparr>srt_id = i, srt_name = psn_name cfg, srt_kind = proto_kind (psn_kind cfg), srt_source = pst_source state,
       srt_config = or_default sender_config_default (pst_config state), srt_scaling = Scaling_None, srt_mid = None\<rparr>)"

definition srt_priority :: "sdk_remote_track \<Rightarrow> nat" where
  "srt_priority t = psc_priority (srt_config t)"

definition srt_has_source :: "sdk_remote_track \<Rightarrow> bool" where
  "srt_has_source t \<longleftrightarrow> srt_source t \<noteq> None"

definition srt_set_source :: "proto_sender_source \<Rightarrow> sdk_remote_track \<Rightarrow> sdk_remote_track" where
  "srt_set_source source t = t\<lparr>srt_source := Some source\<rparr>"

definition srt_del_source :: "sdk_remote_track \<Rightarrow> sdk_remote_track" where
  "srt_del_source t = t\<lparr>srt_source := None\<rparr>"

definition srt_set_str0m :: "mid \<Rightarrow> bool \<Rightarrow> sdk_remote_track \<Rightarrow> sdk_remote_track run" where
  "srt_set_str0m mid sim t = rbind (rassert (srt_mid t = None)) (\<lambda>_.
     let t1 = t\<lparr>srt_mid := Some mid\<rparr> in Inr (if sim then t1\<lparr>srt_scaling := Simulcast\<rparr> else t1))"

definition srt_meta :: "sdk_remote_track \<Rightarrow> track_meta" where
  "srt_meta t = \<lparr>tm_kind = srt_kind t, tm_scaling = srt_scaling t, tm_control = proto_bitrate_mode (psc_bitrate (srt_config t)),
     tm_metadata = (case srt_source t of None \<Rightarrow> None | Some s \<Rightarrow> pss_metadata s)\<rparr>"

definition srt_calc_limit_bitrate :: "nat \<Rightarrow> nat \<Rightarrow> sdk_remote_track \<Rightarrow> nat" where
  "srt_calc_limit_bitrate min_bps max_bps t = (case srt_scaling t of Scaling_None \<Rightarrow> max min_bps MIN_STREAM_BITRATE_BPS | Simulcast \<Rightarrow> max_bps)"

definition srt_started :: "sdk_remote_track \<Rightarrow> remote_track_event" where
  "srt_started t = Rte_Started (srt_name t) (srt_priority t) (srt_meta t)"

section \<open>The session\<close>

record webrtc_token =
  wt_room :: "string option"
  wt_peer :: "string option"
  wt_record :: bool
  wt_extra_data :: "string option"

type_synonym decode_token = "string \<Rightarrow> (string \<times> webrtc_token) option"

record webrtc_sdk =
  sdk_app :: string
  sdk_remote :: string
  sdk_extra_data :: "string option"
  sdk_join :: "(string \<times> peer_id \<times> string option \<times> room_info_publish \<times> room_info_subscribe) option"
  sdk_state :: ws_state
  sdk_queue :: "webrtc_output list"
  sdk_channel :: "nat option"
  sdk_event_seq :: nat
  sdk_local_tracks :: "sdk_local_track list"
  sdk_remote_tracks :: "sdk_remote_track list"
  sdk_audio_mixer :: "audio_mixer_config option"
  sdk_media_convert :: "mid remote_media_convert"
  sdk_bwe_state :: bwe_state

text \<open>The mixer a client asks for: the outputs are its receivers by name, unknown ones left out.\<close>

definition sdk_mixer_config :: "sdk_local_track list \<Rightarrow> proto_features_config option \<Rightarrow> audio_mixer_config option" where
  "sdk_mixer_config tracks features = (case features of None \<Rightarrow> None | Some f \<Rightarrow> map_option (\<lambda>m.
     \<lparr>amc_mode = proto_mixer_mode (pmx_mode m), amc_outputs = List.map_filter (\<lambda>r. map_option slt_id (find (\<lambda>l. slt_name l = r) tracks)) (pmx_outputs m),
       amc_sources = map track_source_of (pmx_sources m)\<rparr>) (pfc_mixer f))"

definition sdk_new :: "string \<Rightarrow> connect_request \<Rightarrow> string option \<Rightarrow> string \<Rightarrow> webrtc_sdk" where
  "sdk_new app req extra_data remote =
     (let tracks = or_default tracks_default (crq_tracks req);
          local_tracks = map (\<lambda>(i, r). slt_new (as_u16 i) r) (enumerate 0 (ptr_receivers tracks));
          remote_tracks = map (\<lambda>(i, s). srt_new (as_u16 i) s) (enumerate 0 (ptr_senders tracks)) in
      \<lparr>sdk_app = app, sdk_remote = remote, sdk_extra_data = extra_data,
        sdk_join = map_option (\<lambda>j. (rj_room j, rj_peer j, rj_metadata j, or_default publish_default (rj_publish j), or_default subscribe_default (rj_subscribe j))) (crq_join req),
        sdk_state = Ws_New, sdk_queue = [], sdk_channel = None, sdk_event_seq = 0, sdk_local_tracks = local_tracks, sdk_remote_tracks = remote_tracks,
        sdk_audio_mixer = (case crq_join req of None \<Rightarrow> None | Some j \<Rightarrow> sdk_mixer_config local_tracks (rj_features j)),
        sdk_media_convert = rmc_default, sdk_bwe_state = Bwe_Inactive\<rparr>)"

definition sdk_push :: "webrtc_output list \<Rightarrow> webrtc_sdk \<Rightarrow> webrtc_sdk" where
  "sdk_push os s = s\<lparr>sdk_queue := sdk_queue s @ os\<rparr>"

definition sdk_remote_track_by_id :: "nat \<Rightarrow> webrtc_sdk \<Rightarrow> sdk_remote_track option" where
  "sdk_remote_track_by_id i s = find (\<lambda>t. srt_id t = i) (sdk_remote_tracks s)"

definition sdk_remote_track_by_mid :: "mid \<Rightarrow> webrtc_sdk \<Rightarrow> sdk_remote_track option" where
  "sdk_remote_track_by_mid mid s = find (\<lambda>t. srt_mid t = Some mid) (sdk_remote_tracks s)"

definition sdk_remote_track_by_name :: "track_name \<Rightarrow> webrtc_sdk \<Rightarrow> sdk_remote_track option" where
  "sdk_remote_track_by_name name s = find (\<lambda>t. srt_name t = name) (sdk_remote_tracks s)"

definition sdk_local_track_by_id :: "nat \<Rightarrow> webrtc_sdk \<Rightarrow> sdk_local_track option" where
  "sdk_local_track_by_id i s = find (\<lambda>t. slt_id t = i) (sdk_local_tracks s)"

definition sdk_local_track_by_mid :: "mid \<Rightarrow> webrtc_sdk \<Rightarrow> sdk_local_track option" where
  "sdk_local_track_by_mid mid s = find (\<lambda>t. slt_mid t = Some mid) (sdk_local_tracks s)"

definition sdk_local_track_by_name :: "track_name \<Rightarrow> webrtc_sdk \<Rightarrow> sdk_local_track option" where
  "sdk_local_track_by_name name s = find (\<lambda>t. slt_name t = name) (sdk_local_tracks s)"

definition sdk_send_event :: "server_event_body \<Rightarrow> webrtc_sdk \<Rightarrow> webrtc_sdk" where
  "sdk_send_event event s = (case sdk_channel s of None \<Rightarrow> s
     | Some channel \<Rightarrow> sdk_push [Wo_SendData channel \<lparr>sv_seq = sdk_event_seq s, sv_event = Some event\<rparr>]
         (s\<lparr>sdk_event_seq := u32_add (sdk_event_seq s) 1\<rparr>))"

definition sdk_send_rpc_res :: "nat \<Rightarrow> response \<Rightarrow> webrtc_sdk \<Rightarrow> webrtc_sdk" where
  "sdk_send_rpc_res req_id res s = sdk_send_event (Sv_Response req_id (Some res)) s"

definition sdk_send_rpc_res_err :: "nat \<Rightarrow> proto_error \<Rightarrow> webrtc_sdk \<Rightarrow> webrtc_sdk" where
  "sdk_send_rpc_res_err req_id err s = sdk_send_event (Sv_Response req_id (Some (Rsp_Error err))) s"

definition sdk_on_codec_config :: "(nat \<times> codec_spec) list \<Rightarrow> webrtc_sdk \<Rightarrow> webrtc_sdk" where
  "sdk_on_codec_config cfg s = s\<lparr>sdk_media_convert := rmc_set_config cfg (sdk_media_convert s)\<rparr>"

definition sdk_is_empty :: "webrtc_sdk \<Rightarrow> bool" where
  "sdk_is_empty s \<longleftrightarrow> ws_is_shutdown (sdk_state s) \<and> sdk_queue s = []"

definition sdk_on_tick :: "nat \<Rightarrow> webrtc_sdk \<Rightarrow> webrtc_sdk" where
  "sdk_on_tick now s0 = (case bwe_on_tick now (sdk_bwe_state s0) of (bwe, init_bitrate) \<Rightarrow>
     (let s1 = s0\<lparr>sdk_bwe_state := bwe\<rparr>; s = (case init_bitrate of None \<Rightarrow> s1 | Some b \<Rightarrow> sdk_push [Wo_ResetBwe b] s1) in
      case sdk_state s of
        Ws_New \<Rightarrow> sdk_push [Wo_State (Tst_Connecting (sdk_remote s))] (s\<lparr>sdk_state := Ws_Connecting now\<rparr>)
      | Ws_Connecting at \<Rightarrow> if timed_out now at then sdk_push [Wo_State (Tst_ConnectError Timeout)] (s\<lparr>sdk_state := Ws_ConnectError\<rparr>) else s
      | Ws_Reconnecting at \<Rightarrow> if timed_out now at then sdk_push [Wo_State (Tst_Disconnected (Some Timeout))] (s\<lparr>sdk_state := Ws_Disconnected\<rparr>) else s
      | _ \<Rightarrow> s))"

definition sdk_on_rpc_res :: "nat \<Rightarrow> proto_error + internal_rpc_res \<Rightarrow> webrtc_sdk \<Rightarrow> webrtc_sdk" where
  "sdk_on_rpc_res req_id res s = (case res of
     Inr (Irs_SetRemoteSdp answer) \<Rightarrow> sdk_send_rpc_res req_id (Rsp_Session (Some (Ssr_Sdp answer))) s
   | Inl err \<Rightarrow> sdk_send_rpc_res_err req_id err s)"

definition sdk_on_endpoint_event :: "nat \<Rightarrow> endpoint_event \<Rightarrow> webrtc_sdk \<Rightarrow> webrtc_sdk" where
  "sdk_on_endpoint_event now event s = (case event of
     Ev_PeerJoined peer meta \<Rightarrow> sdk_send_event (Sv_Room (Some (Sre_PeerJoined peer (pm_metadata meta) (pm_extra_data meta)))) s
   | Ev_PeerLeaved peer _ \<Rightarrow> sdk_send_event (Sv_Room (Some (Sre_PeerLeaved peer))) s
   | Ev_PeerTrackStarted peer track meta \<Rightarrow> sdk_send_event (Sv_Room (Some (Sre_TrackStarted peer track (kind_number (tm_kind meta)) (tm_metadata meta)))) s
   | Ev_PeerTrackStopped peer track meta \<Rightarrow> sdk_send_event (Sv_Room (Some (Sre_TrackStopped peer track (kind_number (tm_kind meta))))) s
   | Ev_AudioMixer (Eam_SlotSet slot peer track) \<Rightarrow>
       sdk_send_event (Sv_Features (Some (Sfe_Mixer (Some (Sme_SlotSet slot (Some \<lparr>prs_peer = peer, prs_track = track\<rparr>)))))) s
   | Ev_AudioMixer (Eam_SlotUnset slot) \<Rightarrow> sdk_send_event (Sv_Features (Some (Sfe_Mixer (Some (Sme_SlotUnset slot))))) s
   | Ev_RemoteMediaTrack track Ert_RequestKeyFrame \<Rightarrow> (case sdk_remote_track_by_id track s of None \<Rightarrow> s | Some t \<Rightarrow>
       (case srt_mid t of None \<Rightarrow> s | Some mid \<Rightarrow> sdk_push [Wo_Keyframe mid Fir] s))
   | Ev_RemoteMediaTrack track (Ert_LimitBitrateBps min_bps max_bps) \<Rightarrow> (case sdk_remote_track_by_id track s of None \<Rightarrow> s | Some t \<Rightarrow>
       (case srt_mid t of None \<Rightarrow> s | Some mid \<Rightarrow> sdk_push [Wo_LimitBitrate mid (srt_calc_limit_bitrate min_bps max_bps t)] s))
   | Ev_LocalMediaTrack track (Elt_Media pkt) \<Rightarrow> (case sdk_local_track_by_id track s of None \<Rightarrow> s | Some t \<Rightarrow>
       (case slt_mid t of None \<Rightarrow> s | Some mid \<Rightarrow>
          sdk_push [Wo_SendMedia mid pkt] (if kind_is_video (slt_kind t) then s\<lparr>sdk_bwe_state := bwe_on_send_video now (sdk_bwe_state s)\<rparr> else s)))
   | Ev_LocalMediaTrack track (Elt_Status status) \<Rightarrow> (case sdk_local_track_by_id track s of None \<Rightarrow> s
       | Some t \<Rightarrow> sdk_send_event (Sv_Receiver (slt_name t) (Some (Sve_State (status_number status)))) s)
   | Ev_LocalMediaTrack track (Elt_VoiceActivity level) \<Rightarrow> (case sdk_local_track_by_id track s of None \<Rightarrow> s
       | Some t \<Rightarrow> sdk_send_event (Sv_Receiver (slt_name t) (Some (Sve_VoiceActivity level))) s)
   | Ev_BweConfig current desired \<Rightarrow> (case filter_bwe_config current desired (sdk_bwe_state s) of (current, desired) \<Rightarrow> sdk_push [Wo_Bwe current desired] s)
   | Ev_ChannelMessage label peer message \<Rightarrow> sdk_send_event (Sv_MessageChannel label (Some (Sce_Message peer message))) s
   | Ev_GoAway _ _ \<Rightarrow> s)"

text \<open>An answer of the endpoint: \<open>ok\<close> when it is a success, its error otherwise.\<close>

definition sdk_answer :: "nat \<Rightarrow> response \<Rightarrow> rpc_result \<Rightarrow> webrtc_sdk \<Rightarrow> webrtc_sdk" where
  "sdk_answer req_id ok res s = (case res of Inr _ \<Rightarrow> sdk_send_rpc_res req_id ok s | Inl err \<Rightarrow> sdk_send_rpc_res_err req_id (endpoint_rpc_error err) s)"

definition sdk_on_transport_rpc_res :: "nat \<Rightarrow> nat \<Rightarrow> endpoint_res \<Rightarrow> webrtc_sdk \<Rightarrow> webrtc_sdk run" where
  "sdk_on_transport_rpc_res now req_id res s = (case res of
     Ers_JoinRoom r \<Rightarrow> Inr (sdk_answer req_id (Rsp_Session (Some Ssr_Join)) r s)
   | Ers_LeaveRoom r \<Rightarrow> Inr (sdk_answer req_id (Rsp_Session (Some Ssr_Leave)) r s)
   | Ers_SubscribePeer _ \<Rightarrow> Inl Explicit_Panic
   | Ers_UnsubscribePeer _ \<Rightarrow> Inl Explicit_Panic
   | Ers_RemoteTrack _ (Rrs_Config r) \<Rightarrow> Inr (sdk_answer req_id (Rsp_Sender (Some Snp_Config)) r s)
   | Ers_LocalTrack _ (Lrs_Attach r) \<Rightarrow> Inr (sdk_answer req_id (Rsp_Receiver (Some Rcp_Attach)) r s)
   | Ers_LocalTrack _ (Lrs_Detach r) \<Rightarrow> Inr (sdk_answer req_id (Rsp_Receiver (Some Rcp_Detach)) r s)
   | Ers_LocalTrack _ (Lrs_Config r) \<Rightarrow> Inr (sdk_answer req_id (Rsp_Receiver (Some Rcp_Config)) r s)
   | Ers_AudioMixer (Ams_Attach r) \<Rightarrow> Inr (sdk_answer req_id (Rsp_Features (Some (Ftp_Mixer (Some Mxp_Attach)))) r s)
   | Ers_AudioMixer (Ams_Detach r) \<Rightarrow> Inr (sdk_answer req_id (Rsp_Features (Some (Ftp_Mixer (Some Mxp_Detach)))) r s)
   | Ers_MessageChannel label (Mcs_Subscribe r) \<Rightarrow> Inr (sdk_answer req_id (Rsp_MessageChannel label (Some Chp_Sub)) r s)
   | Ers_MessageChannel label (Mcs_Unsubscribe r) \<Rightarrow> Inr (sdk_answer req_id (Rsp_MessageChannel label (Some Chp_Unsub)) r s)
   | Ers_MessageChannel label (Mcs_StartPublish r) \<Rightarrow> Inr (sdk_answer req_id (Rsp_MessageChannel label (Some Chp_StartPub)) r s)
   | Ers_MessageChannel label (Mcs_StopPublish r) \<Rightarrow> Inr (sdk_answer req_id (Rsp_MessageChannel label (Some Chp_StopPub)) r s)
   | Ers_MessageChannel label (Mcs_PublishData r) \<Rightarrow> Inr (sdk_answer req_id (Rsp_MessageChannel label (Some Chp_Pub)) r s))"

section \<open>Requests of the client\<close>

abbreviation Wo_Request :: "nat \<Rightarrow> endpoint_req \<Rightarrow> webrtc_output" where
  "Wo_Request req_id req \<equiv> Wo_Transport (To_RpcReq req_id req)"

definition sdk_add_remote :: "proto_sender list \<Rightarrow> webrtc_sdk \<Rightarrow> webrtc_sdk" where
  "sdk_add_remote senders s = fold (\<lambda>(i, x) s. if sdk_remote_track_by_name (psn_name x) s = None
     then s\<lparr>sdk_remote_tracks := sdk_remote_tracks s @ [srt_new (as_u16 i) x]\<rparr> else s) (enumerate 0 senders) s"

definition sdk_add_local :: "proto_receiver list \<Rightarrow> webrtc_sdk \<Rightarrow> webrtc_sdk" where
  "sdk_add_local receivers s = fold (\<lambda>(i, x) s. if sdk_local_track_by_name (pr_name x) s = None
     then s\<lparr>sdk_local_tracks := sdk_local_tracks s @ [slt_new (as_u16 i) x]\<rparr> else s) (enumerate 0 receivers) s"

definition sdk_on_session_req :: "decode_token \<Rightarrow> nat \<Rightarrow> session_request \<Rightarrow> webrtc_sdk \<Rightarrow> webrtc_sdk" where
  "sdk_on_session_req decode_token req_id req s = (case req of
     Sr_Join info token \<Rightarrow>
       (let info = or_default room_join_default info; meta = \<lparr>pm_metadata = rj_metadata info, pm_extra_data = sdk_extra_data s\<rparr> in
        case decode_token token of None \<Rightarrow> sdk_send_rpc_res_err req_id (webrtc_rpc_error RpcTokenInvalid) s
        | Some (app, token) \<Rightarrow>
            if app \<noteq> sdk_app s then sdk_send_rpc_res_err req_id (webrtc_rpc_error RpcTokenAppNotMatch) s
            else if wt_room token = Some (rj_room info) \<and> wt_peer token = Some (rj_peer info) then
              sdk_push [Wo_Request req_id (Erq_JoinRoom (rj_room info) (rj_peer info) meta (or_default publish_default (rj_publish info))
                (or_default subscribe_default (rj_subscribe info)) (sdk_mixer_config (sdk_local_tracks s) (rj_features info)))] s
            else sdk_send_rpc_res_err req_id (webrtc_rpc_error RpcTokenRoomPeerNotMatch) s)
   | Sr_Leave \<Rightarrow> sdk_push [Wo_Request req_id Erq_LeaveRoom] s
   | Sr_Sdp tracks sdp \<Rightarrow>
       (let tracks = or_default tracks_default tracks in
        sdk_push [Wo_RpcReq req_id (Irq_SetRemoteSdp sdp)] (sdk_add_local (ptr_receivers tracks) (sdk_add_remote (ptr_senders tracks) s)))
   | Sr_Disconnect \<Rightarrow>
       (if sdk_state s \<noteq> Ws_Disconnected
        then sdk_send_rpc_res req_id (Rsp_Session (Some Ssr_Disconnect)) (sdk_push [Wo_State (Tst_Disconnected None)] (s\<lparr>sdk_state := Ws_Disconnected\<rparr>))
        else sdk_send_rpc_res_err req_id (webrtc_rpc_error RpcAlreadyDisconnected) s))"

definition sdk_put_remote :: "track_name \<Rightarrow> sdk_remote_track \<Rightarrow> webrtc_sdk \<Rightarrow> webrtc_sdk" where
  "sdk_put_remote name t s = s\<lparr>sdk_remote_tracks := upd_first (\<lambda>t. srt_name t = name) (\<lambda>_. t) (sdk_remote_tracks s)\<rparr>"

definition sdk_on_sender_req :: "nat \<Rightarrow> track_name \<Rightarrow> sender_request \<Rightarrow> webrtc_sdk \<Rightarrow> webrtc_sdk" where
  "sdk_on_sender_req req_id name req s = (case sdk_remote_track_by_name name s of
     None \<Rightarrow> sdk_send_rpc_res_err req_id (webrtc_rpc_error RpcTrackNameNotFound) s
   | Some track \<Rightarrow> (case req of
       Snr_Attach source _ \<Rightarrow>
         if \<not> srt_has_source track then
           let track = srt_set_source (or_default sender_source_default source) track in
           sdk_push [Wo_Remote (srt_id track) (srt_started track)] (sdk_send_rpc_res req_id (Rsp_Sender (Some Snp_Attach)) (sdk_put_remote name track s))
         else sdk_send_rpc_res_err req_id (webrtc_rpc_error RpcTrackAlreadyAttached) s
     | Snr_Detach \<Rightarrow>
         if srt_has_source track then
           let track = srt_del_source track in
           sdk_push [Wo_Remote (srt_id track) Rte_Ended] (sdk_send_rpc_res req_id (Rsp_Sender (Some Snp_Detach)) (sdk_put_remote name track s))
         else sdk_send_rpc_res_err req_id (webrtc_rpc_error RpcTrackNotAttached) s
     | Snr_Config config \<Rightarrow> sdk_push [Wo_Request req_id (Erq_RemoteTrack (srt_id track) (Rrq_Config (remote_track_config_of config)))] s))"

definition sdk_on_receiver_req :: "nat \<Rightarrow> track_name \<Rightarrow> receiver_request \<Rightarrow> webrtc_sdk \<Rightarrow> webrtc_sdk" where
  "sdk_on_receiver_req req_id name req s = (case sdk_local_track_by_name name s of
     None \<Rightarrow> sdk_send_rpc_res_err req_id (webrtc_rpc_error RpcTrackNameNotFound) s
   | Some track \<Rightarrow> sdk_push [Wo_Request req_id (Erq_LocalTrack (slt_id track) (case req of
       Rcr_Attach source config \<Rightarrow> Lrq_Attach (track_source_of (or_default receiver_source_default source)) (local_track_config_of (or_default receiver_config_default config))
     | Rcr_Detach \<Rightarrow> Lrq_Detach
     | Rcr_Config config \<Rightarrow> Lrq_Config (local_track_config_of config)))] s)"

definition sdk_on_mixer_req :: "nat \<Rightarrow> mixer_request \<Rightarrow> webrtc_sdk \<Rightarrow> webrtc_sdk" where
  "sdk_on_mixer_req req_id req s = (case req of
     Mxr_Attach sources \<Rightarrow> sdk_push [Wo_Request req_id (Erq_AudioMixer (Amq_Attach (map track_source_of sources)))] s
   | Mxr_Detach sources \<Rightarrow> sdk_push [Wo_Request req_id (Erq_AudioMixer (Amq_Detach (map track_source_of sources)))] s)"

definition sdk_on_msg_chan_req :: "nat \<Rightarrow> string \<Rightarrow> channel_request \<Rightarrow> webrtc_sdk \<Rightarrow> webrtc_sdk" where
  "sdk_on_msg_chan_req req_id label req s = sdk_push [Wo_Request req_id (Erq_MessageChannel label (case req of
     Chr_Sub \<Rightarrow> Mcq_Subscribe | Chr_Unsub \<Rightarrow> Mcq_Unsubscribe | Chr_StartPub \<Rightarrow> Mcq_StartPublish | Chr_StopPub \<Rightarrow> Mcq_StopPublish
   | Chr_Pub data \<Rightarrow> Mcq_PublishData data))] s"

definition sdk_on_room_req :: "nat \<Rightarrow> room_request \<Rightarrow> webrtc_sdk \<Rightarrow> webrtc_sdk run" where
  "sdk_on_room_req req_id req s = Inl Explicit_Panic"

definition sdk_on_str0m_channel_event :: "decode_token \<Rightarrow> client_event \<Rightarrow> webrtc_sdk \<Rightarrow> webrtc_sdk run" where
  "sdk_on_str0m_channel_event decode_token event s = (case cev_event event of None \<Rightarrow> Inr s
     | Some (Cev_Request req_id request) \<Rightarrow> (let invalid = sdk_send_rpc_res_err req_id (webrtc_rpc_error RpcInvalidRequest) s in case request of
         Some (Crq_Session r) \<Rightarrow> Inr (case r of Some req \<Rightarrow> sdk_on_session_req decode_token req_id req s | None \<Rightarrow> invalid)
       | Some (Crq_Sender name r) \<Rightarrow> Inr (case r of Some req \<Rightarrow> sdk_on_sender_req req_id name req s | None \<Rightarrow> invalid)
       | Some (Crq_Receiver name r) \<Rightarrow> Inr (case r of Some req \<Rightarrow> sdk_on_receiver_req req_id name req s | None \<Rightarrow> invalid)
       | Some (Crq_Room r) \<Rightarrow> (case r of Some req \<Rightarrow> sdk_on_room_req req_id req s | None \<Rightarrow> Inr invalid)
       | Some (Crq_MessageChannel label r) \<Rightarrow> Inr (case r of Some req \<Rightarrow> sdk_on_msg_chan_req req_id label req s | None \<Rightarrow> invalid)
       | Some (Crq_Features r) \<Rightarrow> Inr (case r of Some (Ftr_Mixer (Some req)) \<Rightarrow> sdk_on_mixer_req req_id req s | _ \<Rightarrow> s)
       | None \<Rightarrow> Inr invalid))"

section \<open>Events of the library\<close>

definition sdk_on_str0m_state :: "nat \<Rightarrow> ice_state \<Rightarrow> webrtc_sdk \<Rightarrow> webrtc_sdk" where
  "sdk_on_str0m_state now state s = (case state of
     Ice_New \<Rightarrow> s
   | Ice_Checking \<Rightarrow> s
   | Ice_Disconnected \<Rightarrow> if sdk_state s = Ws_Connected then sdk_push [Wo_State (Tst_Reconnecting (sdk_remote s))] (s\<lparr>sdk_state := Ws_Reconnecting now\<rparr>) else s
   | _ \<Rightarrow> (case sdk_state s of Ws_Reconnecting at \<Rightarrow> sdk_push [Wo_State (Tst_Connected (sdk_remote s))] (s\<lparr>sdk_state := Ws_Connected\<rparr>) | _ \<Rightarrow> s))"

definition sdk_on_str0m_media_added :: "nat \<Rightarrow> media_added \<Rightarrow> webrtc_sdk \<Rightarrow> webrtc_sdk run" where
  "sdk_on_str0m_media_added now media s = (case ma_direction media of
     Dir_SendOnly \<Rightarrow> (case find (\<lambda>t. slt_mid t = None) (sdk_local_tracks s) of None \<Rightarrow> Inr s
       | Some track \<Rightarrow> rbind (slt_set_mid (ma_mid media) track) (\<lambda>track.
           Inr (sdk_push [Wo_Local (slt_id track) (Lte_Started (slt_kind track))]
             (s\<lparr>sdk_local_tracks := upd_first (\<lambda>t. slt_mid t = None) (\<lambda>_. track) (sdk_local_tracks s)\<rparr>))))
   | Dir_Inactive \<Rightarrow> Inr s
   | _ \<Rightarrow> (case find (\<lambda>t. srt_mid t = None) (sdk_remote_tracks s) of None \<Rightarrow> Inr s
       | Some track \<Rightarrow> rbind (srt_set_str0m (ma_mid media) (ma_simulcast media) track) (\<lambda>track.
           let s1 = s\<lparr>sdk_remote_tracks := upd_first (\<lambda>t. srt_mid t = None) (\<lambda>_. track) (sdk_remote_tracks s)\<rparr> in
           Inr (if srt_has_source track then sdk_push [Wo_Remote (srt_id track) (srt_started track)] s1 else s1))))"

definition sdk_on_str0m_event :: "decode_token \<Rightarrow> nat \<Rightarrow> str0m_event \<Rightarrow> webrtc_sdk \<Rightarrow> webrtc_sdk run" where
  "sdk_on_str0m_event decode_token now event s = (case event of
     Se_ChannelOpen channel _ \<Rightarrow>
       (let s1 = sdk_push [Wo_State (Tst_Connected (sdk_remote s))] (s\<lparr>sdk_state := Ws_Connected, sdk_channel := Some channel\<rparr>) in
        Inr (case sdk_join s of None \<Rightarrow> s1
          | Some (room, peer, metadata, publish, subscribe) \<Rightarrow>
              sdk_push [Wo_Request 0 (Erq_JoinRoom room peer \<lparr>pm_metadata = metadata, pm_extra_data = sdk_extra_data s\<rparr> publish subscribe (sdk_audio_mixer s))]
                (s1\<lparr>sdk_audio_mixer := None\<rparr>)))
   | Se_ChannelData data \<Rightarrow> (case data of None \<Rightarrow> Inr s | Some event \<Rightarrow> sdk_on_str0m_channel_event decode_token event s)
   | Se_ChannelClose _ \<Rightarrow> Inr (if sdk_state s \<noteq> Ws_Disconnected then sdk_push [Wo_State (Tst_Disconnected None)] (s\<lparr>sdk_state := Ws_Disconnected\<rparr>) else s)
   | Se_IceConnectionStateChange state \<Rightarrow> Inr (sdk_on_str0m_state now state s)
   | Se_MediaAdded media \<Rightarrow> sdk_on_str0m_media_added now media s
   | Se_KeyframeRequest mid \<Rightarrow> Inr (case sdk_local_track_by_mid mid s of None \<Rightarrow> s | Some t \<Rightarrow> sdk_push [Wo_Local (slt_id t) Lte_RequestKeyFrame] s)
   | Se_RtpPacket mid rtp \<Rightarrow> (case rmc_get_mid (rtp_ssrc rtp) mid (sdk_media_convert s) of (conv, mid) \<Rightarrow>
       (let s1 = s\<lparr>sdk_media_convert := conv\<rparr> in case mid of None \<Rightarrow> Inr s1 | Some mid \<Rightarrow>
         (case sdk_remote_track_by_mid mid s1 of None \<Rightarrow> Inr s1 | Some t \<Rightarrow>
           (case rmc_convert rtp conv of None \<Rightarrow> Inl Loop_Unfinished | Some r \<Rightarrow> rbind r (\<lambda>(conv, pkt). let s2 = s1\<lparr>sdk_media_convert := conv\<rparr> in
             Inr (case pkt of None \<Rightarrow> s2 | Some pkt \<Rightarrow> sdk_push [Wo_Remote (srt_id t) (Rte_Media pkt)] s2))))))
   | Se_StreamPaused ssrc mid paused \<Rightarrow>
       (let s1 = s\<lparr>sdk_media_convert := fst (rmc_get_mid ssrc (Some mid) (sdk_media_convert s))\<rparr> in
        Inr (case sdk_remote_track_by_mid mid s1 of None \<Rightarrow> s1
          | Some t \<Rightarrow> sdk_send_event (Sv_Sender (srt_name t) (Some (Sne_State (sender_status_number (\<not> paused))))) s1))
   | Se_EgressBitrateEstimate bitrate \<Rightarrow> Inr (sdk_push [Wo_Transport (To_Event (Te_EgressBitrateEstimate (filter_bwe bitrate (sdk_bwe_state s))))] s)
   | _ \<Rightarrow> Inr s)"

definition sdk_on_shutdown :: "nat \<Rightarrow> webrtc_sdk \<Rightarrow> webrtc_sdk" where
  "sdk_on_shutdown now s = (if \<not> ws_is_shutdown (sdk_state s) then sdk_push [Wo_State (Tst_Disconnected None)] (s\<lparr>sdk_state := Ws_Disconnected\<rparr>) else s)"

definition sdk_pop_output :: "webrtc_sdk \<Rightarrow> webrtc_sdk \<times> webrtc_output option" where
  "sdk_pop_output s = (case sdk_queue s of [] \<Rightarrow> (s, None) | out # q \<Rightarrow> (s\<lparr>sdk_queue := q\<rparr>, Some out))"

definition sdk_step :: "decode_token \<Rightarrow> webrtc_input \<Rightarrow> webrtc_sdk \<Rightarrow> webrtc_sdk run" where
  "sdk_step decode_token x s = (case x of
     Wi_CodecConfig cfg \<Rightarrow> Inr (sdk_on_codec_config cfg s)
   | Wi_Tick now \<Rightarrow> Inr (sdk_on_tick now s)
   | Wi_RpcRes req_id res \<Rightarrow> Inr (sdk_on_rpc_res req_id res s)
   | Wi_TransportRpcRes now req_id res \<Rightarrow> sdk_on_transport_rpc_res now req_id res s
   | Wi_EndpointEvent now event \<Rightarrow> Inr (sdk_on_endpoint_event now event s)
   | Wi_Str0mEvent now event \<Rightarrow> sdk_on_str0m_event decode_token now event s
   | Wi_Shutdown now \<Rightarrow> Inr (sdk_on_shutdown now s))"

section \<open>The contract\<close>

definition srt_live :: "sdk_remote_track list \<Rightarrow> nat set" where
  "srt_live ts = set (map srt_id (filter (\<lambda>t. srt_mid t \<noteq> None \<and> srt_has_source t) ts))"

definition slt_live :: "sdk_local_track list \<Rightarrow> nat set" where
  "slt_live ts = set (map slt_id (filter (\<lambda>t. slt_mid t \<noteq> None) ts))"

text \<open>An observer who follows the transport events and expects the messages of the data channel to be numbered consecutively.\<close>

type_synonym sdk_view = "transport_view \<times> nat"

fun sq_step :: "webrtc_output \<Rightarrow> sdk_view \<Rightarrow> sdk_view option" where
  "sq_step (Wo_Transport (To_Event e)) (v, n) = map_option (\<lambda>v'. (v', n)) (tv_step e v)"
| "sq_step (Wo_SendData _ ev) (v, n) = (if sv_seq ev = n then Some (v, u32_add n 1) else None)"
| "sq_step (Wo_SendMedia _ pkt) w = (if sendable pkt then Some w else None)"
| "sq_step _ w = Some w"

lemma sq_step_transport: "sq_step x w = Some w' \<Longrightarrow> tv_look x (fst w) = Some (fst w')"
  by (induction x w rule: sq_step.induct) (auto simp: tv_look_def split: if_splits)

definition sdk_inv :: "webrtc_sdk \<Rightarrow> sdk_view \<Rightarrow> bool" where
  "sdk_inv s = (\<lambda>(v, n). n = sdk_event_seq s \<and> ws_agrees (sdk_state s) (tv_state v) \<and> distinct (map srt_id (sdk_remote_tracks s)) \<and> distinct (map slt_id (sdk_local_tracks s)) \<and>
     tv_remote v = srt_live (sdk_remote_tracks s) \<and> tv_local v = slt_live (sdk_local_tracks s))"

lemma srt_live_put:
  assumes "find p ts = Some t" "distinct (map srt_id ts)" "srt_id t' = srt_id t"
  shows "distinct (map srt_id (upd_first p (\<lambda>_. t') ts))"
    "srt_live (upd_first p (\<lambda>_. t') ts) = srt_live ts - {srt_id t} \<union> (if srt_mid t' \<noteq> None \<and> srt_has_source t' then {srt_id t} else {})"
    "srt_id t \<in> srt_live ts \<longleftrightarrow> srt_mid t \<noteq> None \<and> srt_has_source t"
proof -
  obtain ys zs where ts: "ts = ys @ t # zs" "upd_first p (\<lambda>_. t') ts = ys @ t' # zs" using find_split [OF assms(1)] by auto
  have "srt_id t \<notin> srt_id ` set ys" "srt_id t \<notin> srt_id ` set zs" using assms(2) by (simp_all add: ts(1))
  then have d: "\<forall>x\<in>set ys \<union> set zs. srt_id x \<noteq> srt_id t" by (metis Un_iff image_eqI)
  show "distinct (map srt_id (upd_first p (\<lambda>_. t') ts))" using assms(2,3) unfolding ts(2) by (simp add: ts(1))
  show "srt_live (upd_first p (\<lambda>_. t') ts) = srt_live ts - {srt_id t} \<union> (if srt_mid t' \<noteq> None \<and> srt_has_source t' then {srt_id t} else {})"
    using d assms(3) unfolding ts(2) srt_live_def by (auto simp: ts(1))
  show "srt_id t \<in> srt_live ts \<longleftrightarrow> srt_mid t \<noteq> None \<and> srt_has_source t" using d by (auto simp: ts(1) srt_live_def)
qed

lemma slt_live_put:
  assumes "find p ts = Some t" "distinct (map slt_id ts)" "slt_mid t = None"
  shows "distinct (map slt_id (upd_first p (\<lambda>_. t\<lparr>slt_mid := Some m\<rparr>) ts))"
    "slt_live (upd_first p (\<lambda>_. t\<lparr>slt_mid := Some m\<rparr>) ts) = insert (slt_id t) (slt_live ts)" "slt_id t \<notin> slt_live ts"
proof -
  let ?t = "t\<lparr>slt_mid := Some m\<rparr>"
  obtain ys zs where ts: "ts = ys @ t # zs" "upd_first p (\<lambda>_. ?t) ts = ys @ ?t # zs" using find_split [OF assms(1)] by auto
  have "slt_id t \<notin> slt_id ` set ys" "slt_id t \<notin> slt_id ` set zs" using assms(2) by (simp_all add: ts(1))
  then have d: "\<forall>x\<in>set ys \<union> set zs. slt_id x \<noteq> slt_id t" by (metis Un_iff image_eqI)
  show "distinct (map slt_id (upd_first p (\<lambda>_. ?t) ts))" using assms(2) unfolding ts(2) by (simp add: ts(1))
  have "slt_live (ys @ ?t # zs) = insert (slt_id t) (slt_live (ys @ t # zs))" using assms(3) by (simp add: slt_live_def)
  then show "slt_live (upd_first p (\<lambda>_. ?t) ts) = insert (slt_id t) (slt_live ts)" unfolding ts(2) by (simp only: ts(1))
  show "slt_id t \<notin> slt_live ts" using d assms(3) by (auto simp: ts(1) slt_live_def)
qed

text \<open>New tracks have no media section yet.\<close>

lemma sdk_add_remote_grows: "\<exists>new. sdk_add_remote senders s = s\<lparr>sdk_remote_tracks := sdk_remote_tracks s @ new\<rparr> \<and> (\<forall>t\<in>set new. srt_mid t = None)"
proof -
  have "\<exists>new. fold (\<lambda>(i, x) s. if sdk_remote_track_by_name (psn_name x) s = None then s\<lparr>sdk_remote_tracks := sdk_remote_tracks s @ [srt_new (as_u16 i) x]\<rparr> else s) ps s =
      s\<lparr>sdk_remote_tracks := sdk_remote_tracks s @ new\<rparr> \<and> (\<forall>t\<in>set new. srt_mid t = None)" for ps
  proof (induction ps arbitrary: s)
    case (Cons p ps)
    obtain i x where p: "p = (i, x)" by (cases p)
    have new: "srt_mid (srt_new (as_u16 i) x) = None" by (simp add: srt_new_def Let_def)
    show ?case
    proof (cases "sdk_remote_track_by_name (psn_name x) s = None")
      case True
      from Cons.IH [of "s\<lparr>sdk_remote_tracks := sdk_remote_tracks s @ [srt_new (as_u16 i) x]\<rparr>"] obtain new where
        "fold (\<lambda>(i, x) s. if sdk_remote_track_by_name (psn_name x) s = None then s\<lparr>sdk_remote_tracks := sdk_remote_tracks s @ [srt_new (as_u16 i) x]\<rparr> else s) ps
           (s\<lparr>sdk_remote_tracks := sdk_remote_tracks s @ [srt_new (as_u16 i) x]\<rparr>) = s\<lparr>sdk_remote_tracks := sdk_remote_tracks s @ srt_new (as_u16 i) x # new\<rparr>"
        "\<forall>t\<in>set new. srt_mid t = None" by auto
      then show ?thesis using True new by (intro exI [of _ "srt_new (as_u16 i) x # new"]) (simp add: p)
    qed (use Cons.IH [of s] in \<open>auto simp: p\<close>)
  qed (auto intro!: exI [of _ "[]"])
  then show ?thesis unfolding sdk_add_remote_def by blast
qed

lemma sdk_add_local_grows: "\<exists>new. sdk_add_local receivers s = s\<lparr>sdk_local_tracks := sdk_local_tracks s @ new\<rparr> \<and> (\<forall>t\<in>set new. slt_mid t = None)"
proof -
  have "\<exists>new. fold (\<lambda>(i, x) s. if sdk_local_track_by_name (pr_name x) s = None then s\<lparr>sdk_local_tracks := sdk_local_tracks s @ [slt_new (as_u16 i) x]\<rparr> else s) ps s =
      s\<lparr>sdk_local_tracks := sdk_local_tracks s @ new\<rparr> \<and> (\<forall>t\<in>set new. slt_mid t = None)" for ps
  proof (induction ps arbitrary: s)
    case (Cons p ps)
    obtain i x where p: "p = (i, x)" by (cases p)
    show ?case
    proof (cases "sdk_local_track_by_name (pr_name x) s = None")
      case True
      from Cons.IH [of "s\<lparr>sdk_local_tracks := sdk_local_tracks s @ [slt_new (as_u16 i) x]\<rparr>"] obtain new where
        "fold (\<lambda>(i, x) s. if sdk_local_track_by_name (pr_name x) s = None then s\<lparr>sdk_local_tracks := sdk_local_tracks s @ [slt_new (as_u16 i) x]\<rparr> else s) ps
           (s\<lparr>sdk_local_tracks := sdk_local_tracks s @ [slt_new (as_u16 i) x]\<rparr>) = s\<lparr>sdk_local_tracks := sdk_local_tracks s @ slt_new (as_u16 i) x # new\<rparr>"
        "\<forall>t\<in>set new. slt_mid t = None" by auto
      then show ?thesis using True by (intro exI [of _ "slt_new (as_u16 i) x # new"]) (simp add: p slt_new_def)
    qed (use Cons.IH [of s] in \<open>auto simp: p\<close>)
  qed (auto intro!: exI [of _ "[]"])
  then show ?thesis unfolding sdk_add_local_def by blast
qed

definition sdk_tells :: "webrtc_sdk \<Rightarrow> sdk_view \<Rightarrow> webrtc_sdk \<Rightarrow> bool" where
  "sdk_tells s w s' \<longleftrightarrow> (\<exists>os w'. sdk_queue s' = sdk_queue s @ os \<and> ob_run sq_step os w = Some w' \<and> sdk_inv s' w')"

lemma sdk_tells_push: "sdk_queue s1 = sdk_queue s \<Longrightarrow> sdk_tells s w (sdk_push os s1) \<longleftrightarrow> (\<exists>w'. ob_run sq_step os w = Some w' \<and> sdk_inv s1 w')"
  by (auto simp: sdk_tells_def sdk_push_def sdk_inv_def)

lemma sdk_tells_same: "sdk_queue s1 = sdk_queue s \<Longrightarrow> sdk_tells s w s1 \<longleftrightarrow> sdk_inv s1 w"
  by (cases w) (auto simp: sdk_tells_def)

lemma sdk_tells_trans:
  assumes "sdk_tells s w s1" "\<And>w1. sdk_inv s1 w1 \<Longrightarrow> sdk_tells s1 w1 s2"
  shows "sdk_tells s w s2"
proof -
  obtain os w1 where 1: "sdk_queue s1 = sdk_queue s @ os" "ob_run sq_step os w = Some w1" "sdk_inv s1 w1" using assms(1) by (auto simp: sdk_tells_def)
  obtain os' w2 where "sdk_queue s2 = sdk_queue s1 @ os'" "ob_run sq_step os' w1 = Some w2" "sdk_inv s2 w2" using assms(2) [OF 1(3)] by (auto simp: sdk_tells_def)
  then show ?thesis unfolding sdk_tells_def by (intro exI [of _ "os @ os'"] exI [of _ w2]) (simp add: 1 ob_run_append)
qed

lemma sdk_tells_send: "sdk_queue s1 = sdk_queue s \<Longrightarrow> sdk_inv s1 w \<Longrightarrow> sdk_tells s w (sdk_send_event e s1)"
  by (cases w) (auto simp: sdk_send_event_def sdk_tells_push sdk_tells_same sdk_inv_def split: option.split)

lemmas sdk_tells_simps = sdk_tells_push sdk_tells_same sdk_tells_send sdk_send_rpc_res_def sdk_send_rpc_res_err_def

text \<open>A message before or after a transport event changes nothing for the endpoint.\<close>

lemma sdk_tells_push_sent:
  assumes "sdk_queue s1 = sdk_queue s" "\<exists>v'. tv_step ev (fst w) = Some v' \<and> sdk_inv s1 (v', snd w)"
  shows "sdk_tells s w (sdk_push [Wo_Transport (To_Event ev)] (sdk_send_event e s1))" "sdk_tells s w (sdk_send_event e (sdk_push [Wo_Transport (To_Event ev)] s1))"
  using assms by (cases w; auto simp: sdk_send_event_def sdk_tells_def sdk_push_def sdk_inv_def split: option.split)+

text \<open>
  What a session relies on. The library opens the channel only after the first tick, and its packets are as for WHIP. The
  client makes no requests about the room; an update of the session description gives new tracks ids that are
  not in use; a sender is attached only when its media section is there. The endpoint does not
  answer requests that a session never makes, and hands over packets that can be sent.
\<close>

definition sdk_request_ok :: "client_event \<Rightarrow> webrtc_sdk \<Rightarrow> bool" where
  "sdk_request_ok event s \<longleftrightarrow> (case cev_event event of
     Some (Cev_Request _ (Some (Crq_Room (Some _)))) \<Rightarrow> False
   | Some (Cev_Request _ (Some (Crq_Session (Some (Sr_Sdp tracks _))))) \<Rightarrow>
       (let tracks = or_default tracks_default tracks; s' = sdk_add_local (ptr_receivers tracks) (sdk_add_remote (ptr_senders tracks) s) in
        distinct (map srt_id (sdk_remote_tracks s')) \<and> distinct (map slt_id (sdk_local_tracks s')))
   | Some (Cev_Request _ (Some (Crq_Sender name (Some (Snr_Attach _ _))))) \<Rightarrow> (case sdk_remote_track_by_name name s of None \<Rightarrow> True | Some t \<Rightarrow> srt_mid t \<noteq> None)
   | _ \<Rightarrow> True)"

definition sdk_admits :: "webrtc_input \<Rightarrow> webrtc_sdk \<Rightarrow> bool" where
  "sdk_admits x s \<longleftrightarrow> (case x of
     Wi_Str0mEvent _ (Se_ChannelOpen _ _) \<Rightarrow> sdk_state s \<noteq> Ws_New
   | Wi_Str0mEvent _ (Se_RtpPacket _ rtp) \<Rightarrow> rtp_mild (im_get (rmc_map (sdk_media_convert s)) (rtp_pt rtp)) rtp
   | Wi_Str0mEvent _ (Se_ChannelData (Some event)) \<Rightarrow> sdk_request_ok event s
   | Wi_EndpointEvent _ (Ev_LocalMediaTrack _ (Elt_Media pkt)) \<Rightarrow> sendable pkt
   | Wi_TransportRpcRes _ _ (Ers_SubscribePeer _) \<Rightarrow> False
   | Wi_TransportRpcRes _ _ (Ers_UnsubscribePeer _) \<Rightarrow> False
   | _ \<Rightarrow> True)"

lemma sdk_tick_tells:
  assumes "sdk_inv s w" shows "sdk_tells s w (sdk_on_tick now s)"
proof -
  obtain bwe init where b: "bwe_on_tick now (sdk_bwe_state s) = (bwe, init)" by (cases "bwe_on_tick now (sdk_bwe_state s)")
  let ?s = "case init of None \<Rightarrow> s\<lparr>sdk_bwe_state := bwe\<rparr> | Some b \<Rightarrow> sdk_push [Wo_ResetBwe b] (s\<lparr>sdk_bwe_state := bwe\<rparr>)"
  have "sdk_tells s w ?s" using assms by (auto simp: sdk_tells_simps sdk_inv_def split: option.split)
  then show ?thesis
  proof (rule sdk_tells_trans)
    fix w1 assume "sdk_inv ?s w1"
    then show "sdk_tells ?s w1 (sdk_on_tick now s)"
      by (cases "sdk_state ?s") (auto simp: sdk_on_tick_def b Let_def sdk_tells_simps sdk_inv_def ws_agrees_def ts_next_def)
  qed
qed

lemma sdk_answer_tells: "sdk_inv s w \<Longrightarrow> sdk_tells s w (sdk_answer req_id ok r s)"
  by (auto simp: sdk_answer_def sdk_tells_simps split: sum.split)

lemma sdk_transport_rpc_tells:
  assumes "sdk_inv s w" "sdk_admits (Wi_TransportRpcRes now req_id res) s"
  shows "\<exists>s'. sdk_on_transport_rpc_res now req_id res s = Inr s' \<and> sdk_tells s w s'"
  using assms by (cases res) (auto simp: sdk_on_transport_rpc_res_def sdk_admits_def intro: sdk_answer_tells
      split: remote_track_res.split local_track_res.split audio_mixer_res.split message_channel_res.split)

lemma sdk_endpoint_event_tells: "sdk_inv s w \<Longrightarrow> sdk_admits (Wi_EndpointEvent now event) s \<Longrightarrow> sdk_tells s w (sdk_on_endpoint_event now event s)"
  by (cases w; cases event) (auto simp: sdk_on_endpoint_event_def sdk_admits_def sdk_tells_simps sdk_inv_def
      split: endpoint_audio_mixer_event.split endpoint_remote_track_event.split endpoint_local_track_event.splits option.split prod.split)

lemma sdk_str0m_state_tells: "sdk_inv s w \<Longrightarrow> sdk_tells s w (sdk_on_str0m_state now st s)"
  by (cases st; cases "sdk_state s") (auto simp: sdk_on_str0m_state_def sdk_tells_simps sdk_inv_def ws_agrees_def ts_next_def)

lemma sdk_disconnect_tells: "sdk_inv s w \<Longrightarrow> sdk_state s \<noteq> Ws_Disconnected \<Longrightarrow>
    \<exists>v'. tv_step (Te_State (Tst_Disconnected None)) (fst w) = Some v' \<and> sdk_inv (s\<lparr>sdk_state := Ws_Disconnected\<rparr>) (v', snd w)"
  by (cases w; cases "sdk_state s") (auto simp: sdk_inv_def ws_agrees_def ts_next_def)

lemma sdk_media_added_tells:
  assumes "sdk_inv s w"
  shows "\<exists>s'. sdk_on_str0m_media_added now media s = Inr s' \<and> sdk_tells s w s'"
proof -
  obtain v n where w: "w = (v, n)" by (cases w)
  have ids: "distinct (map srt_id (sdk_remote_tracks s))" "distinct (map slt_id (sdk_local_tracks s))" using assms by (simp_all add: w sdk_inv_def)
  have loc: "\<exists>s'. sdk_on_str0m_media_added now media s = Inr s' \<and> sdk_tells s w s'" if "ma_direction media = Dir_SendOnly"
  proof (cases "find (\<lambda>t. slt_mid t = None) (sdk_local_tracks s)")
    case (Some t)
    then have "slt_mid t = None" by (auto simp: find_Some_iff)
    with slt_live_put [OF Some ids(2) this] assms Some that show ?thesis
      by (auto simp: w sdk_on_str0m_media_added_def slt_set_mid_def sdk_tells_simps sdk_inv_def)
  qed (use assms that in \<open>auto simp: w sdk_on_str0m_media_added_def sdk_tells_simps\<close>)
  have rem: "\<exists>s'. sdk_on_str0m_media_added now media s = Inr s' \<and> sdk_tells s w s'" if "ma_direction media = Dir_RecvOnly \<or> ma_direction media = Dir_SendRecv"
  proof (cases "find (\<lambda>t. srt_mid t = None) (sdk_remote_tracks s)")
    case (Some t)
    then have none: "srt_mid t = None" by (auto simp: find_Some_iff)
    obtain t' where t': "srt_set_str0m (ma_mid media) (ma_simulcast media) t = Inr t'" "srt_id t' = srt_id t" "srt_mid t' \<noteq> None" "srt_has_source t' = srt_has_source t"
      using none by (auto simp: srt_set_str0m_def Let_def srt_has_source_def)
    from srt_live_put [OF Some ids(1) t'(2)] assms Some that t' none show ?thesis
      by (auto simp: w sdk_on_str0m_media_added_def sdk_tells_simps sdk_inv_def srt_started_def Let_def)
  qed (use assms that in \<open>auto simp: w sdk_on_str0m_media_added_def sdk_tells_simps\<close>)
  show ?thesis using loc rem assms by (cases "ma_direction media") (auto simp: w sdk_on_str0m_media_added_def sdk_tells_simps)
qed

lemma sdk_sender_tells:
  assumes "sdk_inv s w" "case req of Snr_Attach _ _ \<Rightarrow> (case sdk_remote_track_by_name name s of None \<Rightarrow> True | Some t \<Rightarrow> srt_mid t \<noteq> None) | _ \<Rightarrow> True"
  shows "sdk_tells s w (sdk_on_sender_req req_id name req s)"
proof (cases "sdk_remote_track_by_name name s")
  case (Some t)
  obtain v n where w: "w = (v, n)" by (cases w)
  note found = Some [unfolded sdk_remote_track_by_name_def]
  have ids: "distinct (map srt_id (sdk_remote_tracks s))" using assms(1) by (simp add: w sdk_inv_def)
  have put: "distinct (map srt_id (sdk_remote_tracks (sdk_put_remote name t' s))) \<and> srt_live (sdk_remote_tracks (sdk_put_remote name t' s)) =
      srt_live (sdk_remote_tracks s) - {srt_id t} \<union> (if srt_mid t' \<noteq> None \<and> srt_has_source t' then {srt_id t} else {}) \<and>
      (srt_id t \<in> srt_live (sdk_remote_tracks s) \<longleftrightarrow> srt_mid t \<noteq> None \<and> srt_has_source t)" if "srt_id t' = srt_id t" for t'
    using srt_live_put [OF found ids that] by (simp add: sdk_put_remote_def)
  show ?thesis
  proof (cases req)
    case (Snr_Attach source config)
    let ?t = "srt_set_source (or_default sender_source_default source) t"
    have "srt_id ?t = srt_id t" "srt_mid ?t \<noteq> None" "srt_has_source ?t" using assms(2) Some Snr_Attach by (simp_all add: srt_set_source_def srt_has_source_def)
    then show ?thesis using put [of ?t] assms(1) Some Snr_Attach
      by (auto simp: w sdk_on_sender_req_def Let_def sdk_tells_simps sdk_inv_def srt_started_def sdk_put_remote_def intro!: sdk_tells_push_sent(1))
  next
    case Snr_Detach
    have "srt_id (srt_del_source t) = srt_id t" "\<not> srt_has_source (srt_del_source t)" by (simp_all add: srt_del_source_def srt_has_source_def)
    then show ?thesis using put [of "srt_del_source t"] assms(1) Some Snr_Detach
      by (auto simp: w sdk_on_sender_req_def Let_def sdk_tells_simps sdk_inv_def sdk_put_remote_def intro!: sdk_tells_push_sent(1))
  qed (use Some assms(1) in \<open>simp add: sdk_on_sender_req_def sdk_tells_simps\<close>)
qed (use assms(1) in \<open>simp add: sdk_on_sender_req_def sdk_tells_simps\<close>)

lemma sdk_sdp_keeps:
  assumes "sdk_inv s w" "s' = sdk_add_local receivers (sdk_add_remote senders s)" "distinct (map srt_id (sdk_remote_tracks s'))" "distinct (map slt_id (sdk_local_tracks s'))"
  shows "sdk_inv s' w \<and> sdk_queue s' = sdk_queue s"
proof -
  obtain v n where w: "w = (v, n)" by (cases w)
  obtain new where r: "sdk_add_remote senders s = s\<lparr>sdk_remote_tracks := sdk_remote_tracks s @ new\<rparr>" "\<forall>t\<in>set new. srt_mid t = None"
    using sdk_add_remote_grows by blast
  obtain new' where l: "sdk_add_local receivers (sdk_add_remote senders s) = (sdk_add_remote senders s)\<lparr>sdk_local_tracks := sdk_local_tracks (sdk_add_remote senders s) @ new'\<rparr>"
    "\<forall>t\<in>set new'. slt_mid t = None" using sdk_add_local_grows by blast
  have s': "s' = s\<lparr>sdk_remote_tracks := sdk_remote_tracks s @ new, sdk_local_tracks := sdk_local_tracks s @ new'\<rparr>" using assms(2) l(1) r(1) by simp
  have "srt_live (sdk_remote_tracks s @ new) = srt_live (sdk_remote_tracks s)" "slt_live (sdk_local_tracks s @ new') = slt_live (sdk_local_tracks s)"
    using r(2) l(2) by (auto simp: srt_live_def slt_live_def)
  then show ?thesis using assms(1,3,4) by (simp add: w s' sdk_inv_def)
qed

lemma sdk_session_tells:
  assumes "sdk_inv s w" "case req of Sr_Sdp tracks _ \<Rightarrow>
       (let tracks = or_default tracks_default tracks; s' = sdk_add_local (ptr_receivers tracks) (sdk_add_remote (ptr_senders tracks) s) in
        distinct (map srt_id (sdk_remote_tracks s')) \<and> distinct (map slt_id (sdk_local_tracks s'))) | _ \<Rightarrow> True"
  shows "sdk_tells s w (sdk_on_session_req dt req_id req s)"
proof (cases req)
  case (Sr_Join info token)
  then show ?thesis using assms(1) by (cases w) (auto simp: sdk_on_session_req_def Let_def sdk_tells_simps split: option.split prod.split)
next
  case (Sr_Sdp tracks sdp)
  let ?t = "or_default tracks_default tracks"
  let ?s = "sdk_add_local (ptr_receivers ?t) (sdk_add_remote (ptr_senders ?t) s)"
  have "sdk_inv ?s w \<and> sdk_queue ?s = sdk_queue s" using sdk_sdp_keeps [OF assms(1) refl] assms(2) Sr_Sdp by (simp add: Let_def)
  then show ?thesis using Sr_Sdp by (cases w) (auto simp: sdk_on_session_req_def Let_def sdk_tells_simps)
next
  case Sr_Disconnect
  then show ?thesis using assms(1) sdk_disconnect_tells [OF assms(1)]
    by (auto simp: sdk_on_session_req_def sdk_tells_simps intro!: sdk_tells_push_sent(2) simp del: tv_step.simps)
qed (use assms(1) in \<open>cases w, auto simp: sdk_on_session_req_def sdk_tells_simps\<close>)

lemma sdk_request_tells:
  assumes inv: "sdk_inv s w" and ok: "sdk_request_ok event s"
  shows "\<exists>s'. sdk_on_str0m_channel_event dt event s = Inr s' \<and> sdk_tells s w s'"
proof (cases "cev_event event")
  case (Some body)
  obtain v n where w: "w = (v, n)" by (cases w)
  obtain req_id request where body: "body = Cev_Request req_id request" by (cases body)
  have invalid: "sdk_tells s w (sdk_send_rpc_res_err req_id e s)" for e using inv by (simp add: sdk_tells_simps)
  note defs = sdk_on_str0m_channel_event_def Some body Let_def
  show ?thesis
  proof (cases request)
    case None
    then show ?thesis using invalid by (simp add: defs)
  next
    case (Some r)
    show ?thesis
    proof (cases r)
      case (Crq_Session q)
      then show ?thesis using invalid sdk_session_tells [OF inv] ok Some
        by (cases q) (auto simp: defs sdk_request_ok_def split: session_request.splits)
    next
      case (Crq_Sender name q)
      then show ?thesis using invalid sdk_sender_tells [OF inv] ok Some
        by (cases q) (auto simp: defs sdk_request_ok_def split: sender_request.splits)
    next
      case (Crq_Receiver name q)
      then show ?thesis using invalid inv Some by (cases q) (auto simp: w defs sdk_on_receiver_req_def sdk_tells_simps split: option.split)
    next
      case (Crq_Room q)
      then show ?thesis using invalid ok Some by (cases q) (auto simp: defs sdk_request_ok_def)
    next
      case (Crq_Features q)
      then show ?thesis using inv Some by (auto simp: w defs sdk_on_mixer_req_def sdk_tells_simps split: option.split features_request.split mixer_request.split)
    next
      case (Crq_MessageChannel label q)
      then show ?thesis using invalid inv Some by (cases q) (auto simp: w defs sdk_on_msg_chan_req_def sdk_tells_simps)
    qed
  qed
qed (use inv in \<open>simp add: sdk_on_str0m_channel_event_def sdk_tells_simps\<close>)

lemma sdk_str0m_event_tells:
  assumes "sdk_inv s w" "sdk_admits (Wi_Str0mEvent now event) s"
  shows "\<exists>s'. sdk_on_str0m_event dt now event s = Inr s' \<and> sdk_tells s w s'"
proof -
  obtain v n where w: "w = (v, n)" by (cases w)
  have conv: "sdk_inv (s\<lparr>sdk_media_convert := c\<rparr>) w" for c using assms(1) by (simp add: w sdk_inv_def)
  show ?thesis
  proof (cases event)
    case (Se_ChannelOpen channel name)
    then show ?thesis using assms
      by (auto simp: w sdk_on_str0m_event_def sdk_admits_def Let_def sdk_push_def sdk_tells_def sdk_inv_def ws_agrees_def ts_next_def split: ws_state.splits option.split)
  next
    case (Se_ChannelData data)
    then show ?thesis using assms sdk_request_tells [OF assms(1)]
      by (cases data) (auto simp: sdk_on_str0m_event_def sdk_admits_def sdk_tells_simps)
  next
    case (Se_ChannelClose channel)
    then show ?thesis using assms(1) sdk_disconnect_tells [OF assms(1)] by (auto simp: w sdk_on_str0m_event_def sdk_tells_simps simp del: tv_step.simps)
  next
    case (Se_MediaAdded media)
    then show ?thesis using sdk_media_added_tells [OF assms(1)] by (simp add: sdk_on_str0m_event_def)
  next
    case (Se_RtpPacket m rtp)
    obtain c mid where c: "rmc_get_mid (rtp_ssrc rtp) m (sdk_media_convert s) = (c, mid)" by (cases "rmc_get_mid (rtp_ssrc rtp) m (sdk_media_convert s)")
    then have "rmc_map c = rmc_map (sdk_media_convert s)" by (auto simp: rmc_get_mid_def split: option.splits)
    then have "rtp_mild (im_get (rmc_map c) (rtp_pt rtp)) rtp" using assms(2) Se_RtpPacket by (simp add: sdk_admits_def)
    from rmc_convert_safe [OF this] obtain c' pkt where "rmc_convert rtp c = Some (Inr (c', pkt))" by blast
    then show ?thesis using Se_RtpPacket c conv [of c] conv [of c']
      by (auto simp: w sdk_on_str0m_event_def Let_def sdk_tells_simps split: option.split)
  next
    case (Se_StreamPaused ssrc mid paused)
    then show ?thesis using conv by (auto simp: sdk_on_str0m_event_def Let_def sdk_tells_simps split: option.split)
  qed (use assms(1) in \<open>auto simp: w sdk_on_str0m_event_def sdk_tells_simps intro: sdk_str0m_state_tells split: option.split\<close>)
qed

lemma sdk_step_tells:
  assumes "sdk_inv s w" "sdk_admits x s"
  shows "\<exists>s'. sdk_step dt x s = Inr s' \<and> sdk_tells s w s'"
proof (cases x)
  case (Wi_CodecConfig cfg)
  then show ?thesis using assms(1) by (cases w) (auto simp: sdk_step_def sdk_on_codec_config_def sdk_inv_def sdk_tells_simps)
next
  case (Wi_Shutdown now)
  then show ?thesis using assms(1) sdk_disconnect_tells [OF assms(1)]
    by (cases w) (auto simp: sdk_step_def sdk_on_shutdown_def ws_is_shutdown_def sdk_tells_simps simp del: tv_step.simps)
next
  case (Wi_Str0mEvent now event)
  then show ?thesis using sdk_str0m_event_tells assms by (simp add: sdk_step_def)
next
  case (Wi_TransportRpcRes now req_id res)
  then show ?thesis using sdk_transport_rpc_tells assms by (simp add: sdk_step_def)
qed (use assms in \<open>auto simp: sdk_step_def sdk_on_rpc_res_def sdk_tells_simps intro: sdk_tick_tells sdk_endpoint_event_tells split: sum.split internal_rpc_res.split\<close>)

interpretation sdc: webrtc_session sq_step fst "(tv_init, 0)" "sdk_step decode_token" sdk_pop_output sdk_is_empty sdk_queue sdk_state sdk_inv sdk_admits
  for decode_token :: decode_token
proof unfold_locales
  show "\<exists>s' os v'. sdk_step decode_token x s = Inr s' \<and> sdk_queue s' = sdk_queue s @ os \<and> ob_run sq_step os w = Some v' \<and> sdk_inv s' v'"
    if "sdk_inv s w" "sdk_admits x s" for s w x using sdk_step_tells [OF that] unfolding sdk_tells_def by blast
qed (auto simp: sq_step_transport sdk_pop_output_def sdk_is_empty_def sdk_inv_def sdk_step_def sdk_admits_def sdk_on_shutdown_def sdk_push_def ws_is_shutdown_def split: if_splits)

section \<open>Properties\<close>

lemma enumerate_ids_distinct: "length xs \<le> 2 ^ 16 \<Longrightarrow> distinct (map (\<lambda>(i, x). as_u16 i) (enumerate 0 xs))"
proof -
  assume "length xs \<le> 2 ^ 16"
  then have "map (\<lambda>(i, x). as_u16 i) (enumerate 0 xs) = [0..<length xs]"
    by (intro nth_equalityI) (simp_all add: nth_enumerate_eq as_u16_def)
  then show ?thesis by simp
qed

lemma sdk_inv_new:
  assumes "length (ptr_receivers (or_default tracks_default (crq_tracks req))) \<le> 2 ^ 16" "length (ptr_senders (or_default tracks_default (crq_tracks req))) \<le> 2 ^ 16"
  shows "sdk_inv (sdk_new app req extra remote) (tv_init, 0) \<and> sdk_queue (sdk_new app req extra remote) = []"
  using enumerate_ids_distinct [OF assms(1)] enumerate_ids_distinct [OF assms(2)]
  by (simp add: sdk_new_def Let_def sdk_inv_def tv_init_def ws_agrees_def srt_live_def slt_live_def o_def case_prod_unfold slt_new_def srt_new_def filter_map filter_False)

text \<open>
  C12. A session of the SDK keeps its promises to the endpoint and to the client, through any sequence of calls and
  polls with a well-behaved library and client: nothing panics; the connection states it tells are a path of the
  connection's life, a sender's track is started only while it is not running and a receiver's track
  at most once; and the messages to the client are numbered consecutively.
\<close>
theorem sdk_run_follows:
  assumes "length (ptr_receivers (or_default tracks_default (crq_tracks req))) \<le> 2 ^ 16" "length (ptr_senders (or_default tracks_default (crq_tracks req))) \<le> 2 ^ 16"
    and "admits_run (so_admits sdk_admits) (so_step (sdk_step decode_token) sdk_pop_output) xs (sdk_new app req extra remote, [])"
  shows "\<exists>s log v. rfold (so_step (sdk_step decode_token) sdk_pop_output) xs (sdk_new app req extra remote, []) = Inr (s, log) \<and>
     ob_run sq_step (log @ sdk_queue s) (tv_init, 0) = Some (v, sdk_event_seq s) \<and>
     tv_remote v = srt_live (sdk_remote_tracks s) \<and> tv_local v = slt_live (sdk_local_tracks s)"
proof -
  have "sdc.follows (sdk_new app req extra remote, [])" using sdk_inv_new [OF assms(1,2)] sdc.follows_init by blast
  from sdc.run_follows [OF this assms(3)] obtain s log where run: "rfold (so_step (sdk_step decode_token) sdk_pop_output) xs (sdk_new app req extra remote, []) = Inr (s, log)"
    and fol: "sdc.follows (s, log)" by (auto simp del: split_paired_Ex split_paired_All)
  from sdc.followsD [OF fol] obtain v n where "ob_run sq_step (log @ sdk_queue s) (tv_init, 0) = Some (v, n)" "sdk_inv s (v, n)" by auto
  with run show ?thesis by (auto simp: sdk_inv_def)
qed

text \<open>A client with a sender that has no source yet and a receiver.\<close>

definition demo_connect :: connect_request where
  "demo_connect = \<lparr>crq_version = '''', crq_join = Some \<lparr>rj_room = ''room'', rj_peer = ''alice'', rj_publish = None, rj_subscribe = None, rj_features = None, rj_metadata = None\<rparr>,
     crq_tracks = Some \<lparr>ptr_receivers = [\<lparr>pr_kind = 1, pr_name = ''view'', pr_state = None\<rparr>], ptr_senders = [\<lparr>psn_kind = 0, psn_name = ''mic'', psn_state = None\<rparr>]\<rparr>,
     crq_sdp = ''''\<rparr>"

definition demo_request :: "nat \<Rightarrow> client_request \<Rightarrow> session_op" where
  "demo_request i r = So_Input (Wi_Str0mEvent 2 (Se_ChannelData (Some \<lparr>cev_seq = 0, cev_event = Some (Cev_Request i (Some r))\<rparr>)))"

definition demo_media :: session_op where
  "demo_media = So_Input (Wi_Str0mEvent 3 (Se_MediaAdded \<lparr>ma_mid = 5, ma_kind = Audio, ma_direction = Dir_RecvOnly, ma_simulcast = False\<rparr>))"

definition demo_attach :: session_op where
  "demo_attach = demo_request 7 (Crq_Sender ''mic'' (Some (Snr_Attach None None)))"

lemmas sdk_eval = sdk_new_def demo_connect_def demo_request_def demo_media_def demo_attach_def so_admits_def so_step_def sdk_step_def sdk_admits_def sdk_request_ok_def
  sdk_on_tick_def bwe_on_tick_def sdk_on_str0m_event_def sdk_on_str0m_channel_event_def sdk_on_sender_req_def sdk_remote_track_by_name_def
  sdk_on_str0m_media_added_def srt_set_str0m_def srt_has_source_def srt_set_source_def srt_del_source_def sdk_put_remote_def srt_new_def slt_new_def sdk_send_rpc_res_def
  sdk_send_rpc_res_err_def sdk_send_event_def sdk_push_def sdk_pop_output_def or_default_def sender_state_default_def sdk_on_shutdown_def ws_is_shutdown_def
  srt_started_def srt_priority_def srt_meta_def as_u16_def ts_next_def Let_def

theorem sdk_run_follows_witness:
  "\<exists>s log v. rfold (so_step (sdk_step (\<lambda>_. None)) sdk_pop_output)
       [So_Input (Wi_Tick 0), So_Input (Wi_Str0mEvent 1 (Se_ChannelOpen 0 ''data'')), demo_media, demo_attach, So_Pop,
        demo_request 8 (Crq_Sender ''mic'' (Some Snr_Detach)), demo_attach, So_Input (Wi_Shutdown 9)] (sdk_new ''app'' demo_connect None ''ip'', []) = Inr (s, log) \<and>
     ob_run sq_step (log @ sdk_queue s) (tv_init, 0) = Some (v, sdk_event_seq s) \<and>
     tv_remote v = srt_live (sdk_remote_tracks s) \<and> tv_local v = slt_live (sdk_local_tracks s)"
  by (rule sdk_run_follows) (simp_all add: sdk_eval)

section \<open>Answers\<close>

fun wo_req_id :: "webrtc_output \<Rightarrow> nat option" where
  "wo_req_id (Wo_SendData _ ev) = (case sv_event ev of Some (Sv_Response r _) \<Rightarrow> Some r | _ \<Rightarrow> None)"
| "wo_req_id (Wo_RpcReq r _) = Some r"
| "wo_req_id (Wo_Transport (To_RpcReq r _)) = Some r"
| "wo_req_id _ = None"

definition sdk_answers :: "nat \<Rightarrow> webrtc_sdk \<Rightarrow> webrtc_sdk \<Rightarrow> bool" where
  "sdk_answers req_id s s' \<longleftrightarrow> (\<exists>os. sdk_queue s' = sdk_queue s @ os \<and> List.map_filter wo_req_id os = [req_id])"

lemmas sdk_answers_simps = sdk_send_rpc_res_def sdk_send_rpc_res_err_def sdk_send_event_def sdk_push_def map_filter_simps

lemma sdk_session_answers:
  assumes "sdk_channel s = Some channel"
  shows "sdk_answers req_id s (sdk_on_session_req decode_token req_id req s)"
proof (cases req)
  case (Sr_Sdp tracks sdp)
  let ?t = "or_default tracks_default tracks"
  obtain new where "sdk_add_remote (ptr_senders ?t) s = s\<lparr>sdk_remote_tracks := sdk_remote_tracks s @ new\<rparr>" using sdk_add_remote_grows by blast
  moreover obtain new' where "sdk_add_local (ptr_receivers ?t) (sdk_add_remote (ptr_senders ?t) s) =
      (sdk_add_remote (ptr_senders ?t) s)\<lparr>sdk_local_tracks := sdk_local_tracks (sdk_add_remote (ptr_senders ?t) s) @ new'\<rparr>" using sdk_add_local_grows by blast
  ultimately show ?thesis using Sr_Sdp by (simp add: sdk_answers_def sdk_on_session_req_def Let_def sdk_answers_simps)
qed (use assms in \<open>auto simp: sdk_answers_def sdk_on_session_req_def Let_def sdk_answers_simps split: option.split\<close>)

lemma sdk_sender_answers:
  assumes "sdk_channel s = Some channel"
  shows "sdk_answers req_id s (sdk_on_sender_req req_id name req s)"
  using assms by (auto simp: sdk_answers_def sdk_on_sender_req_def Let_def sdk_answers_simps sdk_put_remote_def split: option.split sender_request.split)

text \<open>The answers that the endpoint gives to the requests of a session, and a message to the client that answers one.\<close>

fun answers_request :: "endpoint_res \<Rightarrow> bool" where
  "answers_request (Ers_SubscribePeer _) \<longleftrightarrow> False"
| "answers_request (Ers_UnsubscribePeer _) \<longleftrightarrow> False"
| "answers_request _ \<longleftrightarrow> True"

definition sdk_replies :: "nat \<Rightarrow> nat \<Rightarrow> webrtc_sdk \<Rightarrow> webrtc_sdk \<Rightarrow> bool" where
  "sdk_replies channel req_id s s' \<longleftrightarrow> (\<exists>ev r. sdk_queue s' = sdk_queue s @ [Wo_SendData channel ev] \<and> sv_event ev = Some (Sv_Response req_id (Some r)))"

lemma sdk_answer_replies: "sdk_channel s = Some channel \<Longrightarrow> sdk_replies channel req_id s (sdk_answer req_id r res s)"
  by (auto simp: sdk_replies_def sdk_answer_def sdk_answers_simps split: sum.split)

lemma sdk_rpc_res_replies: "sdk_channel s = Some channel \<Longrightarrow> sdk_replies channel req_id s (sdk_on_rpc_res req_id res s)"
  by (auto simp: sdk_replies_def sdk_on_rpc_res_def sdk_answers_simps split: sum.split internal_rpc_res.split)

lemma sdk_transport_rpc_res_replies:
  assumes "sdk_channel s = Some channel" "answers_request res"
  shows "\<exists>s'. sdk_on_transport_rpc_res now req_id res s = Inr s' \<and> sdk_replies channel req_id s s'"
  using assms sdk_answer_replies [OF assms(1)]
  by (cases res) (auto simp: sdk_on_transport_rpc_res_def split: remote_track_res.split local_track_res.split audio_mixer_res.split message_channel_res.split)

lemma sdk_request_one_output:
  assumes "sdk_channel s = Some channel" "cev_event event = Some (Cev_Request req_id request)"
    and "\<forall>r. request \<noteq> Some (Crq_Room (Some r))" "\<forall>q. request = Some (Crq_Features q) \<longrightarrow> (\<exists>r. q = Some (Ftr_Mixer (Some r)))"
  shows "\<exists>s' os. sdk_on_str0m_channel_event decode_token event s = Inr s' \<and> sdk_queue s' = sdk_queue s @ os \<and> List.map_filter wo_req_id os = [req_id]"
proof (cases request)
  case None
  then show ?thesis using assms by (simp add: sdk_on_str0m_channel_event_def sdk_answers_simps)
next
  case (Some r)
  note defs = sdk_on_str0m_channel_event_def assms(2) Some Let_def
  show ?thesis
  proof (cases r)
    case (Crq_Session q)
    then show ?thesis using sdk_session_answers [OF assms(1)] assms(1) by (cases q) (auto simp: defs sdk_answers_simps sdk_answers_def)
  next
    case (Crq_Sender name q)
    then show ?thesis using sdk_sender_answers [OF assms(1)] assms(1) by (cases q) (auto simp: defs sdk_answers_simps sdk_answers_def)
  next
    case (Crq_Receiver name q)
    then show ?thesis using assms(1) by (cases q) (auto simp: defs sdk_on_receiver_req_def sdk_answers_simps split: option.split)
  next
    case (Crq_Features q)
    then show ?thesis using assms(4) Some by (auto simp: defs sdk_on_mixer_req_def sdk_answers_simps split: mixer_request.split)
  next
    case (Crq_MessageChannel label q)
    then show ?thesis using assms(1) by (cases q) (auto simp: defs sdk_on_msg_chan_req_def sdk_answers_simps)
  qed (use assms(1,3) Some in \<open>auto simp: defs sdk_answers_simps split: option.splits\<close>)
qed

text \<open>
  C33. Every request is accounted for once: when the channel is open, a request of the client that is not about the
  room and, if it is one for a feature, names what it wants, adds exactly one output with its id, an
  answer to the client or a request to the endpoint or to the connection; no other request id appears. Whatever the endpoint
  or the connection then answers, at any later time while a channel is open, is passed to the client as exactly one message, with the id
  of the request. (Whether they answer is up to them: the endpoint drops requests for tracks it does not know.)
\<close>
theorem sdk_request_accounted:
  assumes "sdk_channel s = Some channel" "cev_event event = Some (Cev_Request req_id request)"
    and "\<forall>r. request \<noteq> Some (Crq_Room (Some r))" "\<forall>q. request = Some (Crq_Features q) \<longrightarrow> (\<exists>r. q = Some (Ftr_Mixer (Some r)))"
  shows "(\<exists>s' os. sdk_on_str0m_channel_event decode_token event s = Inr s' \<and> sdk_queue s' = sdk_queue s @ os \<and> List.map_filter wo_req_id os = [req_id]) \<and>
     (\<forall>later ch. sdk_channel later = Some ch \<longrightarrow>
        (\<forall>now res. answers_request res \<longrightarrow> (\<exists>s'. sdk_on_transport_rpc_res now req_id res later = Inr s' \<and> sdk_replies ch req_id later s')) \<and>
        (\<forall>res. sdk_replies ch req_id later (sdk_on_rpc_res req_id res later)))"
  using sdk_request_one_output [OF assms] sdk_transport_rpc_res_replies sdk_rpc_res_replies by blast

theorem sdk_request_accounted_witness:
  "(\<exists>s' os. sdk_on_str0m_channel_event (\<lambda>_. None) \<lparr>cev_seq = 0, cev_event = Some (Cev_Request 7 (Some (Crq_Session (Some Sr_Leave))))\<rparr>
       ((sdk_new ''app'' demo_connect None ''ip'')\<lparr>sdk_channel := Some 0\<rparr>) = Inr s' \<and>
     sdk_queue s' = sdk_queue ((sdk_new ''app'' demo_connect None ''ip'')\<lparr>sdk_channel := Some 0\<rparr>) @ os \<and> List.map_filter wo_req_id os = [7]) \<and>
   (\<exists>s'. sdk_on_transport_rpc_res 5 7 (Ers_LeaveRoom (Inr ())) ((sdk_new ''app'' demo_connect None ''ip'')\<lparr>sdk_channel := Some 0\<rparr>) = Inr s' \<and>
     sdk_replies 0 7 ((sdk_new ''app'' demo_connect None ''ip'')\<lparr>sdk_channel := Some 0\<rparr>) s')"
  using sdk_request_accounted [of "(sdk_new ''app'' demo_connect None ''ip'')\<lparr>sdk_channel := Some 0\<rparr>" 0
      "\<lparr>cev_seq = 0, cev_event = Some (Cev_Request 7 (Some (Crq_Session (Some Sr_Leave))))\<rparr>" 7 "Some (Crq_Session (Some Sr_Leave))" "\<lambda>_. None"] by simp

section \<open>Sessions that break the contract\<close>

text \<open>A request about the room stops the session.\<close>

lemma sdk_room_request_panics:
  "sdk_on_str0m_event decode_token now (Se_ChannelData (Some \<lparr>cev_seq = n, cev_event = Some (Cev_Request i (Some (Crq_Room (Some r))))\<rparr>)) s = Inl Explicit_Panic"
  by (simp add: sdk_on_str0m_event_def sdk_on_str0m_channel_event_def sdk_on_room_req_def Let_def)

text \<open>A sender that is attached before its media section is there is started twice.\<close>

lemma sdk_early_attach_starts_twice:
  "\<exists>s log. rfold (so_step (sdk_step (\<lambda>_. None)) sdk_pop_output)
       [So_Input (Wi_Tick 0), So_Input (Wi_Str0mEvent 1 (Se_ChannelOpen 0 ''data'')), demo_attach, demo_media] (sdk_new ''app'' demo_connect None ''ip'', []) = Inr (s, log) \<and>
     ob_run sq_step (log @ sdk_queue s) (tv_init, 0) = None"
  by (simp add: sdk_eval tv_init_def)

text \<open>A channel that opens before the first tick makes \<^verbatim>\<open>Connected\<close> the first state, at which the endpoint panics.\<close>

lemma sdk_open_before_tick:
  "\<exists>s log. rfold (so_step (sdk_step (\<lambda>_. None)) sdk_pop_output) [So_Input (Wi_Str0mEvent 1 (Se_ChannelOpen 0 ''data''))] (sdk_new ''app'' demo_connect None ''ip'', []) = Inr (s, log) \<and>
     ob_run sq_step (log @ sdk_queue s) (tv_init, 0) = None"
  by (simp add: sdk_eval tv_init_def)

text \<open>An update that lists a new sender where an old one was gives both the same id.\<close>

lemma sdk_sdp_update_reuses_id:
  "map srt_id (sdk_remote_tracks (sdk_add_remote [\<lparr>psn_kind = 0, psn_name = ''screen'', psn_state = None\<rparr>] (sdk_new ''app'' demo_connect None ''ip''))) = [0, 0]"
  by (simp add: sdk_eval sdk_add_remote_def)

end
