(* ===== verification/Gateway_Store.thy ===== *)
theory Gateway_Store
  imports Prelude "HOL-Library.Multiset"
begin

text \<open>
  \<^verbatim>\<open>packages/media_gateway/src/store.rs\<close> and \<^verbatim>\<open>store/service.rs\<close>: how a gateway chooses the node for a new
  session. It keeps, for each kind of service, the media nodes of its own zone and the gateways of
  other zones, as their pings report them, and answers with the least loaded node of the zone that is
  nearest to the client.

  Locations are of any type: the only thing the store does with them is to compare distances, so
  \<^verbatim>\<open>distance\<close>, a square root in \<^verbatim>\<open>f32\<close>, is a parameter \<open>dis\<close> with values in a linear order (the coordinates are
  numbers, so no distance is \<^verbatim>\<open>NaN\<close>). \<^verbatim>\<open>Vec::sort\<close> is stable and compares by usage alone: \<open>sort_key\<close>.
\<close>

section \<open>One service\<close>

definition PING_TIMEOUT :: nat where "PING_TIMEOUT = 5000"

datatype service_kind = Webrtc | RtpEngine

record service_stats =
  st_live :: nat
  st_max :: nat
  st_active :: bool

record node_source =
  ns_node :: nat
  ns_usage :: nat
  ns_stats :: service_stats
  ns_last_updated :: nat

record 'l zone_source =
  zs_zone :: nat
  zs_usage :: nat
  zs_location :: 'l
  zs_last_updated :: nat
  zs_gateways :: "node_source list"

record 'l service_store =
  ss_zone :: nat
  ss_kind :: service_kind
  ss_location :: 'l
  ss_local_sources :: "node_source list"
  ss_zone_sources :: "'l zone_source list"

definition ss_new :: "nat \<Rightarrow> service_kind \<Rightarrow> 'l \<Rightarrow> 'l service_store" where
  "ss_new zone kind location = \<lparr>ss_zone = zone, ss_kind = kind, ss_location = location, ss_local_sources = [], ss_zone_sources = []\<rparr>"

definition ns_alive :: "nat \<Rightarrow> node_source \<Rightarrow> bool" where
  "ns_alive now s \<longleftrightarrow> u64_add (ns_last_updated s) PING_TIMEOUT > now"

definition ss_on_tick :: "nat \<Rightarrow> 'l service_store \<Rightarrow> 'l service_store" where
  "ss_on_tick now s = s\<lparr>ss_local_sources := filter (ns_alive now) (ss_local_sources s),
     ss_zone_sources := filter (\<lambda>z. zs_gateways z \<noteq> []) (map (\<lambda>z. z\<lparr>zs_gateways := filter (ns_alive now) (zs_gateways z)\<rparr>) (ss_zone_sources s))\<rparr>"

text \<open>The entry of a node after a ping: refreshed in place, or added with the statistics of the ping.\<close>

definition ns_ping :: "nat \<Rightarrow> nat \<Rightarrow> nat \<Rightarrow> service_stats \<Rightarrow> node_source list \<Rightarrow> node_source list" where
  "ns_ping now node usage stats ns = (if \<exists>s\<in>set ns. ns_node s = node
     then upd_first (\<lambda>s. ns_node s = node) (\<lambda>s. s\<lparr>ns_usage := usage, ns_last_updated := now\<rparr>) ns
     else ns @ [\<lparr>ns_node = node, ns_usage = usage, ns_stats = stats, ns_last_updated = now\<rparr>])"

definition ss_on_node_ping :: "nat \<Rightarrow> nat \<Rightarrow> nat \<Rightarrow> service_stats \<Rightarrow> 'l service_store \<Rightarrow> 'l service_store" where
  "ss_on_node_ping now node usage stats s = s\<lparr>ss_local_sources := sort_key ns_usage (ns_ping now node usage stats (ss_local_sources s))\<rparr>"

definition ss_remove_node :: "nat \<Rightarrow> 'l service_store \<Rightarrow> 'l service_store" where
  "ss_remove_node node s = s\<lparr>ss_local_sources := del_first (\<lambda>x. ns_node x = node) (ss_local_sources s)\<rparr>"

definition ss_on_gateway_ping :: "nat \<Rightarrow> nat \<Rightarrow> nat \<Rightarrow> nat \<Rightarrow> 'l \<Rightarrow> nat \<Rightarrow> service_stats \<Rightarrow> 'l service_store \<Rightarrow> 'l service_store" where
  "ss_on_gateway_ping now zone gateway gateway_usage location usage stats s =
     (let s1 = (if \<exists>z\<in>set (ss_zone_sources s). zs_zone z = zone
        then s\<lparr>ss_zone_sources := upd_first (\<lambda>z. zs_zone z = zone) (\<lambda>z. z\<lparr>zs_usage := usage, zs_last_updated := now,
               zs_gateways := sort_key ns_usage (ns_ping now gateway gateway_usage stats (zs_gateways z))\<rparr>) (ss_zone_sources s)\<rparr>
        else s\<lparr>ss_zone_sources := ss_zone_sources s @ [\<lparr>zs_zone = zone, zs_usage = usage, zs_location = location, zs_last_updated = now,
               zs_gateways = [\<lparr>ns_node = gateway, ns_usage = gateway_usage, ns_stats = stats, ns_last_updated = now\<rparr>]\<rparr>]\<rparr>) in
      s1\<lparr>ss_local_sources := sort_key ns_usage (ss_local_sources s1)\<rparr>)"

definition ss_remove_gateway :: "nat \<Rightarrow> nat \<Rightarrow> 'l service_store \<Rightarrow> 'l service_store" where
  "ss_remove_gateway zone gateway s =
     (let zs = upd_first (\<lambda>z. zs_zone z = zone) (\<lambda>z. z\<lparr>zs_gateways := del_first (\<lambda>g. ns_node g = gateway) (zs_gateways z)\<rparr>) (ss_zone_sources s) in
      s\<lparr>ss_zone_sources := (case find (\<lambda>z. zs_zone z = zone) zs of Some z \<Rightarrow> if zs_gateways z = [] then del_first (\<lambda>z. zs_zone z = zone) zs else zs | None \<Rightarrow> zs)\<rparr>)"

definition ns_first :: "node_source list \<Rightarrow> nat option" where
  "ns_first ns = (case ns of [] \<Rightarrow> None | s # _ \<Rightarrow> Some (ns_node s))"

definition ss_best_for :: "('l \<Rightarrow> 'l \<Rightarrow> 'd::linorder) \<Rightarrow> 'l option \<Rightarrow> 'l service_store \<Rightarrow> nat option" where
  "ss_best_for dis location s =
     (let loc = (case location of None \<Rightarrow> ss_location s | Some l \<Rightarrow> l) in
      snd (foldl (\<lambda>(min_dis, min_node) z. if min_node = None \<or> min_dis > dis loc (zs_location z)
            then (dis loc (zs_location z), ns_first (zs_gateways z)) else (min_dis, min_node))
          (dis (ss_location s) loc, ns_first (ss_local_sources s)) (ss_zone_sources s)))"

definition zone_of :: "nat \<Rightarrow> nat" where
  "zone_of node = node div 2 ^ 8"

definition ss_dest_for :: "nat \<Rightarrow> 'l service_store \<Rightarrow> nat option" where
  "ss_dest_for dest s =
     (if zone_of dest = ss_zone s then (if \<exists>n\<in>set (ss_local_sources s). ns_node n = dest then Some dest else None)
      else (case find (\<lambda>z. zs_zone z = zone_of dest) (ss_zone_sources s) of None \<Rightarrow> None | Some z \<Rightarrow> ns_first (zs_gateways z)))"

definition ss_local_stats :: "'l service_store \<Rightarrow> service_stats option" where
  "ss_local_stats s = (if ss_local_sources s = [] then None
     else Some (foldl (\<lambda>stats n. \<lparr>st_live = u32_add (st_live stats) (st_live (ns_stats n)), st_max = u32_add (st_max stats) (st_max (ns_stats n)),
         st_active = (st_active stats \<or> st_active (ns_stats n))\<rparr>) \<lparr>st_live = 0, st_max = 0, st_active = False\<rparr> (ss_local_sources s)))"

section \<open>The gateway\<close>

record node_metrics =
  nm_cpu :: nat
  nm_memory :: nat
  nm_disk :: nat

datatype 'l ping_origin = Og_Media | Og_Gateway nat "'l option"

record 'l ping_event =
  pg_cpu :: nat
  pg_memory :: nat
  pg_disk :: nat
  pg_origin :: "'l ping_origin"
  pg_webrtc :: "service_stats option"
  pg_rtpengine :: "service_stats option"

record 'l gateway_store =
  gs_zone :: nat
  gs_node :: node_metrics
  gs_location :: 'l
  gs_webrtc :: "'l service_store"
  gs_rtpengine :: "'l service_store"
  gs_output :: "'l ping_event option"
  gs_max_cpu :: nat
  gs_max_memory :: nat
  gs_max_disk :: nat

definition gs_new :: "nat \<Rightarrow> 'l \<Rightarrow> nat \<Rightarrow> nat \<Rightarrow> nat \<Rightarrow> 'l gateway_store" where
  "gs_new zone location max_cpu max_memory max_disk = \<lparr>gs_zone = zone, gs_node = \<lparr>nm_cpu = 0, nm_memory = 0, nm_disk = 0\<rparr>, gs_location = location,
     gs_webrtc = ss_new zone Webrtc location, gs_rtpengine = ss_new zone RtpEngine location, gs_output = None,
     gs_max_cpu = max_cpu, gs_max_memory = max_memory, gs_max_disk = max_disk\<rparr>"

definition gs_on_node_metrics :: "node_metrics \<Rightarrow> 'l gateway_store \<Rightarrow> 'l gateway_store" where
  "gs_on_node_metrics metrics s = s\<lparr>gs_node := metrics\<rparr>"

definition gs_on_tick :: "nat \<Rightarrow> 'l gateway_store \<Rightarrow> 'l gateway_store" where
  "gs_on_tick now s =
     (let s1 = s\<lparr>gs_webrtc := ss_on_tick now (gs_webrtc s), gs_rtpengine := ss_on_tick now (gs_rtpengine s)\<rparr> in
      s1\<lparr>gs_output := Some \<lparr>pg_cpu = nm_cpu (gs_node s1), pg_memory = nm_memory (gs_node s1), pg_disk = nm_disk (gs_node s1),
        pg_origin = Og_Gateway (gs_zone s1) (Some (gs_location s1)), pg_webrtc = ss_local_stats (gs_webrtc s1),
        pg_rtpengine = ss_local_stats (gs_rtpengine s1)\<rparr>\<rparr>)"

definition node_usage :: "'l ping_event \<Rightarrow> nat \<Rightarrow> nat \<Rightarrow> nat \<Rightarrow> nat option" where
  "node_usage ping max_cpu max_memory max_disk =
     (if pg_cpu ping \<ge> max_cpu then None else if pg_memory ping \<ge> max_memory then None else if pg_disk ping \<ge> max_disk then None
      else Some (pg_cpu ping))"

text \<open>\<^verbatim>\<open>((live * 100) / max) as u8\<close> in 32 bits: the product wraps, a division by zero panics, the quotient
  is cut to eight bits.\<close>

definition load_percent :: "service_stats \<Rightarrow> nat run" where
  "load_percent st = (if st_max st = 0 then Inl Explicit_Panic else Inr (as_u8 (as_u32 (st_live st * 100) div st_max st)))"

definition service_usage :: "'l ping_event \<Rightarrow> service_stats option \<Rightarrow> nat \<Rightarrow> nat \<Rightarrow> nat \<Rightarrow> nat option run" where
  "service_usage ping stats max_cpu max_memory max_disk =
     (if node_usage ping max_cpu max_memory max_disk = None then Inr None
      else case stats of None \<Rightarrow> Inr None
        | Some st \<Rightarrow> if st_active st then rbind (load_percent st) (\<lambda>p. Inr (Some (max (pg_cpu ping) p))) else Inr None)"

definition webrtc_usage :: "'l ping_event \<Rightarrow> nat \<Rightarrow> nat \<Rightarrow> nat \<Rightarrow> nat option run" where
  "webrtc_usage ping = service_usage ping (pg_webrtc ping)"

definition rtpengine_usage :: "'l ping_event \<Rightarrow> nat \<Rightarrow> nat \<Rightarrow> nat \<Rightarrow> nat option run" where
  "rtpengine_usage ping = service_usage ping (pg_rtpengine ping)"

definition ss_ping :: "nat \<Rightarrow> nat \<Rightarrow> nat option \<Rightarrow> nat option \<Rightarrow> service_stats option \<Rightarrow> 'l service_store \<Rightarrow> 'l service_store" where
  "ss_ping now node n_usage usage stats s = (case (n_usage, usage, stats) of
     (Some _, Some u, Some st) \<Rightarrow> ss_on_node_ping now node u st s | _ \<Rightarrow> ss_remove_node node s)"

definition gs_on_ping :: "nat \<Rightarrow> nat \<Rightarrow> 'l ping_event \<Rightarrow> 'l gateway_store \<Rightarrow> 'l gateway_store run" where
  "gs_on_ping now node ping s =
     (let n_usage = node_usage ping (gs_max_cpu s) (gs_max_memory s) (gs_max_disk s) in
      rbind (webrtc_usage ping (gs_max_cpu s) (gs_max_memory s) (gs_max_disk s)) (\<lambda>w.
      rbind (rtpengine_usage ping (gs_max_cpu s) (gs_max_memory s) (gs_max_disk s)) (\<lambda>r.
      Inr (case pg_origin ping of
        Og_Media \<Rightarrow> s\<lparr>gs_webrtc := ss_ping now node n_usage w (pg_webrtc ping) (gs_webrtc s),
                      gs_rtpengine := ss_ping now node n_usage r (pg_rtpengine ping) (gs_rtpengine s)\<rparr>
      | Og_Gateway zone location \<Rightarrow>
          if zone = gs_zone s then s
          else (case (n_usage, w, location, pg_webrtc ping) of
             (Some nu, Some u, Some l, Some st) \<Rightarrow> s\<lparr>gs_webrtc := ss_on_gateway_ping now zone node nu l u st (gs_webrtc s)\<rparr>
           | _ \<Rightarrow> s\<lparr>gs_webrtc := ss_remove_gateway zone node (gs_webrtc s), gs_rtpengine := ss_remove_gateway zone node (gs_rtpengine s)\<rparr>)))))"

definition gs_service :: "service_kind \<Rightarrow> 'l gateway_store \<Rightarrow> 'l service_store" where
  "gs_service kind s = (case kind of Webrtc \<Rightarrow> gs_webrtc s | RtpEngine \<Rightarrow> gs_rtpengine s)"

definition gs_best_for :: "('l \<Rightarrow> 'l \<Rightarrow> 'd::linorder) \<Rightarrow> service_kind \<Rightarrow> 'l option \<Rightarrow> 'l gateway_store \<Rightarrow> nat option" where
  "gs_best_for dis kind location s = ss_best_for dis location (gs_service kind s)"

definition gs_dest_for :: "service_kind \<Rightarrow> nat \<Rightarrow> 'l gateway_store \<Rightarrow> nat option" where
  "gs_dest_for kind dest s = ss_dest_for dest (gs_service kind s)"

definition gs_local_stats :: "'l gateway_store \<Rightarrow> service_stats option" where
  "gs_local_stats s = ss_local_stats (gs_webrtc s)"

definition gs_pop_output :: "'l gateway_store \<Rightarrow> 'l gateway_store \<times> 'l ping_event option" where
  "gs_pop_output s = (s\<lparr>gs_output := None\<rparr>, gs_output s)"

section \<open>Runs\<close>

datatype 'l gs_op = Gs_Ping nat nat "'l ping_event" | Gs_Tick nat | Gs_Metrics node_metrics | Gs_Pop

definition gs_step :: "'l gs_op \<Rightarrow> 'l gateway_store \<Rightarrow> 'l gateway_store run" where
  "gs_step x s = (case x of Gs_Ping now node ping \<Rightarrow> gs_on_ping now node ping s | Gs_Tick now \<Rightarrow> Inr (gs_on_tick now s)
     | Gs_Metrics metrics \<Rightarrow> Inr (gs_on_node_metrics metrics s) | Gs_Pop \<Rightarrow> Inr (fst (gs_pop_output s)))"

section \<open>Invariant\<close>

definition ns_ok :: "node_source list \<Rightarrow> bool" where
  "ns_ok ns \<longleftrightarrow> sorted (map ns_usage ns) \<and> distinct (map ns_node ns)"

definition ss_wf :: "'l service_store \<Rightarrow> bool" where
  "ss_wf s \<longleftrightarrow> ns_ok (ss_local_sources s) \<and> distinct (map zs_zone (ss_zone_sources s)) \<and>
     (\<forall>z\<in>set (ss_zone_sources s). ns_ok (zs_gateways z) \<and> zs_gateways z \<noteq> [])"

lemma ns_ok_sort: "distinct (map ns_node ns) \<Longrightarrow> ns_ok (sort_key ns_usage ns)"
proof -
  have "mset (map ns_node (sort_key ns_usage ns)) = mset (map ns_node ns)" by simp
  then have "distinct (map ns_node (sort_key ns_usage ns)) = distinct (map ns_node ns)" using mset_eq_imp_distinct_iff by blast
  then show "distinct (map ns_node ns) \<Longrightarrow> ?thesis" by (simp add: ns_ok_def)
qed

lemma ns_ping_distinct: "distinct (map ns_node ns) \<Longrightarrow> distinct (map ns_node (ns_ping now node usage stats ns))"
  by (auto simp: ns_ping_def map_upd_first)

lemma ns_ping_not_Nil: "sort_key ns_usage (ns_ping now node usage stats ns) \<noteq> []"
proof -
  have "ns_ping now node usage stats ns \<noteq> []" by (cases ns) (auto simp: ns_ping_def)
  then show ?thesis by (metis set_empty set_sort)
qed

lemma ns_ok_filter: "ns_ok ns \<Longrightarrow> ns_ok (filter p ns)"
  by (simp add: ns_ok_def sorted_filter distinct_map_filter)

lemma ss_wf_tick: "ss_wf s \<Longrightarrow> ss_wf (ss_on_tick now s)"
  by (auto simp: ss_wf_def ss_on_tick_def ns_ok_filter comp_def intro!: distinct_map_filter)

lemma ss_wf_ping: "ss_wf s \<Longrightarrow> ss_wf (ss_ping now node nu u st s)"
proof -
  assume wf: "ss_wf s"
  then have "ns_ok (sort_key ns_usage (ns_ping now node a b (ss_local_sources s)))" for a b
    by (intro ns_ok_sort ns_ping_distinct) (simp add: ss_wf_def ns_ok_def)
  moreover have "ns_ok (del_first (\<lambda>x. ns_node x = node) (ss_local_sources s))" using wf by (simp add: ss_wf_def ns_ok_def del_first_distinct del_first_sorted)
  ultimately show ?thesis using wf by (auto simp: ss_wf_def ss_ping_def ss_on_node_ping_def ss_remove_node_def split: option.split)
qed

lemma ss_wf_gateway_ping:
  assumes wf: "ss_wf s" shows "ss_wf (ss_on_gateway_ping now zone gateway gu location usage stats s)"
proof -
  let ?f = "\<lambda>z. z\<lparr>zs_usage := usage, zs_last_updated := now, zs_gateways := sort_key ns_usage (ns_ping now gateway gu stats (zs_gateways z))\<rparr>"
  let ?zs = "upd_first (\<lambda>z. zs_zone z = zone) ?f (ss_zone_sources s)"
  have "ns_ok (zs_gateways (?f z)) \<and> zs_gateways (?f z) \<noteq> []" if "z \<in> set (ss_zone_sources s)" for z
    using wf that ns_ping_not_Nil ns_ok_sort [OF ns_ping_distinct, of "zs_gateways z" now gateway gu stats] by (simp add: ss_wf_def ns_ok_def)
  then have "\<forall>z\<in>set ?zs. ns_ok (zs_gateways z) \<and> zs_gateways z \<noteq> []" using wf by (auto simp: ss_wf_def dest!: set_upd_first)
  moreover have "map zs_zone ?zs = map zs_zone (ss_zone_sources s)" by (rule map_upd_first) simp
  moreover have "ns_ok (sort_key ns_usage (ss_local_sources s))" using wf by (intro ns_ok_sort) (simp add: ss_wf_def ns_ok_def)
  ultimately show ?thesis using wf by (auto simp: ss_wf_def ss_on_gateway_ping_def Let_def ns_ok_def)
qed

lemma ss_wf_remove_gateway:
  assumes wf: "ss_wf s" shows "ss_wf (ss_remove_gateway zone gateway s)"
proof -
  let ?f = "\<lambda>z. z\<lparr>zs_gateways := del_first (\<lambda>g. ns_node g = gateway) (zs_gateways z)\<rparr>"
  let ?p = "\<lambda>z. zs_zone z = zone"
  let ?zs = "upd_first ?p ?f (ss_zone_sources s)"
  have zones: "map zs_zone ?zs = map zs_zone (ss_zone_sources s)" by (rule map_upd_first) simp
  then have d: "distinct (map zs_zone ?zs)" using wf by (simp add: ss_wf_def)
  have ok: "ns_ok (zs_gateways z) \<and> (zs_zone z \<noteq> zone \<longrightarrow> zs_gateways z \<noteq> [])" if "z \<in> set ?zs" for z
    using set_upd_first [OF that] wf by (auto simp: ss_wf_def ns_ok_def del_first_distinct del_first_sorted)
  have del: "z \<in> set (del_first ?p xs) \<Longrightarrow> distinct (map zs_zone xs) \<Longrightarrow> zs_zone z \<noteq> zone" for z xs
    by (induction xs) (auto split: if_splits simp: image_iff)
  show ?thesis
  proof (cases "find ?p ?zs")
    case None
    then have "\<forall>z\<in>set ?zs. zs_zone z \<noteq> zone" by (simp add: find_None_iff)
    then show ?thesis using None wf d ok by (auto simp: ss_remove_gateway_def ss_wf_def Let_def)
  next
    case (Some z)
    then have z: "z \<in> set ?zs" "zs_zone z = zone" by (auto simp: find_Some_iff)
    have same: "x = z" if "x \<in> set ?zs" "zs_zone x = zone" for x using d z that by (auto simp: distinct_map inj_on_def)
    show ?thesis
    proof (cases "zs_gateways z = []")
      case True
      have "ns_ok (zs_gateways x) \<and> zs_gateways x \<noteq> []" if "x \<in> set (del_first ?p ?zs)" for x
        using del [OF that d] ok subsetD [OF del_first_subset that] by blast
      then show ?thesis using Some True wf del_first_distinct [OF d, of ?p] by (simp add: ss_remove_gateway_def ss_wf_def Let_def)
    next
      case False
      have "ns_ok (zs_gateways x) \<and> zs_gateways x \<noteq> []" if "x \<in> set ?zs" for x using ok [OF that] same [OF that] False by blast
      then show ?thesis using Some False wf d by (simp add: ss_remove_gateway_def ss_wf_def Let_def)
    qed
  qed
qed

definition gs_wf :: "'l gateway_store \<Rightarrow> bool" where
  "gs_wf s \<longleftrightarrow> ss_wf (gs_webrtc s) \<and> ss_wf (gs_rtpengine s)"

lemma gs_wf_ping:
  assumes "gs_wf s" "gs_on_ping now node ping s = Inr s'" shows "gs_wf s'"
proof -
  obtain w r where s': "s' = (case pg_origin ping of
        Og_Media \<Rightarrow> s\<lparr>gs_webrtc := ss_ping now node (node_usage ping (gs_max_cpu s) (gs_max_memory s) (gs_max_disk s)) w (pg_webrtc ping) (gs_webrtc s),
                      gs_rtpengine := ss_ping now node (node_usage ping (gs_max_cpu s) (gs_max_memory s) (gs_max_disk s)) r (pg_rtpengine ping) (gs_rtpengine s)\<rparr>
      | Og_Gateway zone location \<Rightarrow>
          if zone = gs_zone s then s
          else (case (node_usage ping (gs_max_cpu s) (gs_max_memory s) (gs_max_disk s), w, location, pg_webrtc ping) of
             (Some nu, Some u, Some l, Some st) \<Rightarrow> s\<lparr>gs_webrtc := ss_on_gateway_ping now zone node nu l u st (gs_webrtc s)\<rparr>
           | _ \<Rightarrow> s\<lparr>gs_webrtc := ss_remove_gateway zone node (gs_webrtc s), gs_rtpengine := ss_remove_gateway zone node (gs_rtpengine s)\<rparr>))"
    using assms(2) by (auto simp: gs_on_ping_def Let_def run_simps)
  show ?thesis unfolding s' using assms(1) by (simp add: gs_wf_def ss_wf_ping ss_wf_gateway_ping ss_wf_remove_gateway split: ping_origin.split option.split)
qed

lemma gs_wf_step: "gs_wf s \<Longrightarrow> gs_step x s = Inr s' \<Longrightarrow> gs_wf s'"
  by (cases x) (auto simp: gs_step_def gs_wf_ping, auto simp: gs_wf_def gs_on_tick_def gs_on_node_metrics_def gs_pop_output_def Let_def ss_wf_tick)

lemma gs_wf_run: "gs_wf s \<Longrightarrow> rfold gs_step xs s = Inr s' \<Longrightarrow> gs_wf s'"
  by (induction xs arbitrary: s) (auto simp: run_simps dest: gs_wf_step)

lemma gs_wf_new: "gs_wf (gs_new zone location a b c)"
  by (simp add: gs_wf_def gs_new_def ss_new_def ss_wf_def ns_ok_def)

section \<open>The best node\<close>

text \<open>The loop of \<^verbatim>\<open>best_for\<close> keeps what it has unless a zone is nearer, or it has nothing.\<close>

lemma nearest_loop:
  fixes f :: "'z \<Rightarrow> 'd::linorder" and g :: "'z \<Rightarrow> 'n option"
  assumes "\<And>z. z \<in> set zs \<Longrightarrow> g z \<noteq> None"
    and "foldl (\<lambda>(d, n) z. if n = None \<or> d > f z then (f z, g z) else (d, n)) (d0, n0) zs = (d, n)"
  shows "(n0 \<noteq> None \<or> zs = []) \<and> n = n0 \<and> (\<forall>z\<in>set zs. d0 \<le> f z) \<or>
     (\<exists>z\<in>set zs. n = g z \<and> (\<forall>z'\<in>set zs. f z \<le> f z') \<and> (n0 \<noteq> None \<longrightarrow> f z < d0))"
  using assms
proof (induction zs arbitrary: d0 n0)
  case (Cons y ys)
  show ?case
  proof (cases "n0 = None \<or> d0 > f y")
    case True
    have gy: "g y \<noteq> None" using Cons.prems(1) by simp
    have "foldl (\<lambda>(d, n) z. if n = None \<or> d > f z then (f z, g z) else (d, n)) (f y, g y) ys = (d, n)" using Cons.prems(2) True by auto
    from Cons.IH [OF _ this] Cons.prems(1) gy consider "n = g y" "\<forall>z\<in>set ys. f y \<le> f z"
      | z where "z \<in> set ys" "n = g z" "\<forall>z'\<in>set ys. f z \<le> f z'" "f z < f y" by auto
    then show ?thesis
    proof cases
      case 1
      then show ?thesis using True by auto
    next
      case (2 z)
      then show ?thesis using True by (intro disjI2 bexI [of _ z]) auto
    qed
  next
    case False
    have "foldl (\<lambda>(d, n) z. if n = None \<or> d > f z then (f z, g z) else (d, n)) (d0, n0) ys = (d, n)" using Cons.prems(2) False by auto
    from Cons.IH [OF _ this] Cons.prems(1) False consider "n = n0" "\<forall>z\<in>set ys. d0 \<le> f z"
      | z where "z \<in> set ys" "n = g z" "\<forall>z'\<in>set ys. f z \<le> f z'" "f z < d0" by auto
    then show ?thesis
    proof cases
      case 1
      then show ?thesis using False by auto
    next
      case (2 z)
      then show ?thesis using False by (intro disjI2 bexI [of _ z]) auto
    qed
  qed
qed simp

lemma ns_first_least: "ns_ok ns \<Longrightarrow> ns_first ns = Some n \<Longrightarrow> \<exists>g\<in>set ns. ns_node g = n \<and> (\<forall>x\<in>set ns. ns_usage g \<le> ns_usage x)"
  by (auto simp: ns_ok_def ns_first_def split: list.splits)

lemma ns_first_None: "ns_first ns = None \<longleftrightarrow> ns = []"
  by (simp add: ns_first_def split: list.split)

lemma ss_best_for_cases:
  fixes dis :: "'l \<Rightarrow> 'l \<Rightarrow> 'd::linorder"
  assumes wf: "ss_wf s" and loc: "loc = (case location of None \<Rightarrow> ss_location s | Some l \<Rightarrow> l)"
  shows "(case ss_best_for dis location s of
     None \<Rightarrow> ss_local_sources s = [] \<and> ss_zone_sources s = []
   | Some n \<Rightarrow>
       (\<exists>g\<in>set (ss_local_sources s). ns_node g = n \<and> (\<forall>x\<in>set (ss_local_sources s). ns_usage g \<le> ns_usage x) \<and>
          (\<forall>z\<in>set (ss_zone_sources s). dis (ss_location s) loc \<le> dis loc (zs_location z))) \<or>
       (\<exists>z\<in>set (ss_zone_sources s). \<exists>g\<in>set (zs_gateways z). ns_node g = n \<and> (\<forall>x\<in>set (zs_gateways z). ns_usage g \<le> ns_usage x) \<and>
          (\<forall>z'\<in>set (ss_zone_sources s). dis loc (zs_location z) \<le> dis loc (zs_location z')) \<and>
          (ss_local_sources s \<noteq> [] \<longrightarrow> dis loc (zs_location z) < dis (ss_location s) loc)))"
proof -
  let ?f = "\<lambda>z. dis loc (zs_location z)" and ?g = "\<lambda>z. ns_first (zs_gateways z)"
  obtain d n where dn: "foldl (\<lambda>(d, n) z. if n = None \<or> d > ?f z then (?f z, ?g z) else (d, n)) (dis (ss_location s) loc, ns_first (ss_local_sources s)) (ss_zone_sources s) = (d, n)"
    by fastforce
  then have best: "ss_best_for dis location s = n" by (simp add: ss_best_for_def Let_def loc [symmetric])
  have gws: "z \<in> set (ss_zone_sources s) \<Longrightarrow> ?g z \<noteq> None \<and> ns_ok (zs_gateways z)" for z using wf by (simp add: ss_wf_def ns_first_None)
  have ok: "ns_ok (ss_local_sources s)" using wf by (simp add: ss_wf_def)
  from nearest_loop [where g = ?g and f = ?f, OF _ dn] gws
  consider "ns_first (ss_local_sources s) \<noteq> None \<or> ss_zone_sources s = []" "n = ns_first (ss_local_sources s)" "\<forall>z\<in>set (ss_zone_sources s). dis (ss_location s) loc \<le> ?f z"
    | z where "z \<in> set (ss_zone_sources s)" "n = ?g z" "\<forall>z'\<in>set (ss_zone_sources s). ?f z \<le> ?f z'" "ss_local_sources s \<noteq> [] \<longrightarrow> ?f z < dis (ss_location s) loc"
    by (auto simp: ns_first_None)
  then show ?thesis
  proof cases
    case 1
    show ?thesis
    proof (cases n)
      case None
      then have "ss_local_sources s = []" using 1(2) ns_first_None [of "ss_local_sources s"] by simp
      then show ?thesis using 1(1) best None by (simp add: ns_first_def)
    next
      case (Some m)
      then have "ss_best_for dis location s = Some m" "ns_first (ss_local_sources s) = Some m" using 1(2) best by simp_all
      then show ?thesis using ns_first_least [OF ok] 1(3) by auto
    qed
  next
    case (2 z)
    then obtain m where "n = Some m" using gws [OF 2(1)] by auto
    then obtain g where "g \<in> set (zs_gateways z)" "ns_node g = m" "\<forall>x\<in>set (zs_gateways z). ns_usage g \<le> ns_usage x"
      using 2(2) ns_first_least [of "zs_gateways z" m] gws [OF 2(1)] by auto
    then show ?thesis using best \<open>n = Some m\<close> 2(1,3,4) by (simp del: split_paired_Ex) blast
  qed
qed

text \<open>
  C36. The gateway's choice is optimal for what it knows: through any sequence of pings and ticks, it
  answers nothing only when it knows no node at all; otherwise the node it names is a least loaded one of
  its own zone, which no other zone undercuts in distance, or a least loaded gateway of a zone that
  is nearest among all zones and nearer than its own zone when that has a node.
\<close>
theorem gs_best_for_optimal:
  fixes dis :: "'l \<Rightarrow> 'l \<Rightarrow> 'd::linorder" and kind :: service_kind and client :: "'l option"
  assumes "rfold gs_step xs (gs_new zone location max_cpu max_memory max_disk) = Inr s"
  defines "st \<equiv> gs_service kind s"
  defines "loc \<equiv> (case client of None \<Rightarrow> ss_location st | Some l \<Rightarrow> l)"
  shows "case gs_best_for dis kind client s of
     None \<Rightarrow> ss_local_sources st = [] \<and> ss_zone_sources st = []
   | Some n \<Rightarrow>
       (\<exists>g\<in>set (ss_local_sources st). ns_node g = n \<and> (\<forall>x\<in>set (ss_local_sources st). ns_usage g \<le> ns_usage x) \<and>
          (\<forall>z\<in>set (ss_zone_sources st). dis (ss_location st) loc \<le> dis loc (zs_location z))) \<or>
       (\<exists>z\<in>set (ss_zone_sources st). \<exists>g\<in>set (zs_gateways z). ns_node g = n \<and> (\<forall>x\<in>set (zs_gateways z). ns_usage g \<le> ns_usage x) \<and>
          (\<forall>z'\<in>set (ss_zone_sources st). dis loc (zs_location z) \<le> dis loc (zs_location z')) \<and>
          (ss_local_sources st \<noteq> [] \<longrightarrow> dis loc (zs_location z) < dis (ss_location st) loc))"
proof -
  have "gs_wf s" using gs_wf_run [OF gs_wf_new assms(1)] .
  then have "ss_wf st" by (cases kind) (simp_all add: st_def gs_service_def gs_wf_def)
  from ss_best_for_cases [OF this, of loc client dis] show ?thesis by (simp add: gs_best_for_def loc_def st_def)
qed

definition demo_ping :: "nat \<Rightarrow> nat \<Rightarrow> nat ping_event" where
  "demo_ping cpu live = \<lparr>pg_cpu = cpu, pg_memory = 10, pg_disk = 10, pg_origin = Og_Media,
     pg_webrtc = Some \<lparr>st_live = live, st_max = 1000, st_active = True\<rparr>, pg_rtpengine = None\<rparr>"

lemmas gs_eval = gs_step_def gs_on_ping_def gs_new_def ss_new_def demo_ping_def node_usage_def webrtc_usage_def rtpengine_usage_def service_usage_def load_percent_def
  ss_ping_def ss_on_node_ping_def ss_remove_node_def ns_ping_def gs_best_for_def gs_service_def ss_best_for_def ns_first_def as_u8_def as_u32_def

theorem gs_best_for_optimal_witness:
  "\<exists>s. rfold gs_step [Gs_Ping 0 1 (demo_ping 20 100), Gs_Ping 5 2 (demo_ping 5 100)] (gs_new 0 (7::nat) 60 80 90) = Inr s \<and>
     gs_best_for (\<lambda>a b. a - b + (b - a)) Webrtc None s = Some 2 \<and>
     (\<exists>g\<in>set (ss_local_sources (gs_service Webrtc s)). ns_node g = 2 \<and> (\<forall>x\<in>set (ss_local_sources (gs_service Webrtc s)). ns_usage g \<le> ns_usage x))"
proof -
  let ?run = "rfold gs_step [Gs_Ping 0 1 (demo_ping 20 100), Gs_Ping 5 2 (demo_ping 5 100)] (gs_new 0 (7::nat) 60 80 90)"
  have run: "\<exists>s. ?run = Inr s \<and> ss_zone_sources (gs_service Webrtc s) = [] \<and> gs_best_for (\<lambda>a b. a - b + (b - a)) Webrtc None s = Some 2"
    by (simp add: gs_eval)
  then obtain s where s: "?run = Inr s" "ss_zone_sources (gs_service Webrtc s) = []" "gs_best_for (\<lambda>a b. a - b + (b - a)) Webrtc None s = Some 2" by blast
  from gs_best_for_optimal [OF s(1), where dis = "\<lambda>a b. a - b + (b - a)" and kind = Webrtc and client = None] s(2,3) have
    "\<exists>g\<in>set (ss_local_sources (gs_service Webrtc s)). ns_node g = 2 \<and> (\<forall>x\<in>set (ss_local_sources (gs_service Webrtc s)). ns_usage g \<le> ns_usage x)" by simp
  then show ?thesis using s(1,3) by blast
qed

section \<open>Only nodes that have pinged recently\<close>

text \<open>Where the entries come from: a set \<open>K\<close> of times and nodes of accepted pings.\<close>

definition ns_from :: "(nat \<times> nat) set \<Rightarrow> node_source list \<Rightarrow> bool" where
  "ns_from K ns \<longleftrightarrow> (\<forall>x\<in>set ns. (ns_last_updated x, ns_node x) \<in> K)"

definition ss_from :: "(nat \<times> nat) set \<Rightarrow> 'l service_store \<Rightarrow> bool" where
  "ss_from K s \<longleftrightarrow> ns_from K (ss_local_sources s) \<and> (\<forall>z\<in>set (ss_zone_sources s). ns_from K (zs_gateways z))"

lemma ns_from_ping: "ns_from K ns \<Longrightarrow> (now, node) \<in> K \<Longrightarrow> ns_from K (ns_ping now node usage stats ns)"
  by (auto simp: ns_from_def ns_ping_def dest!: set_upd_first)

lemma ns_from_subset: "ns_from K ns \<Longrightarrow> set ms \<subseteq> set ns \<Longrightarrow> ns_from K ms"
  by (auto simp: ns_from_def)

lemma ss_from_tick: "ss_from K s \<Longrightarrow> ss_from {(t, n). (t, n) \<in> K \<and> u64_add t PING_TIMEOUT > now} (ss_on_tick now s)"
  by (auto simp: ss_from_def ss_on_tick_def ns_from_def ns_alive_def)

lemma ss_from_remove: "ss_from K s \<Longrightarrow> ss_from K (ss_remove_node node s)" "ss_from K s \<Longrightarrow> ss_from K (ss_remove_gateway zone node s)"
proof -
  assume from_K: "ss_from K s"
  then show "ss_from K (ss_remove_node node s)" using del_first_subset by (fastforce simp: ss_from_def ss_remove_node_def ns_from_def)
  let ?f = "\<lambda>z. z\<lparr>zs_gateways := del_first (\<lambda>g. ns_node g = node) (zs_gateways z)\<rparr>"
  have "ns_from K (zs_gateways z)" if "z \<in> set (upd_first (\<lambda>z. zs_zone z = zone) ?f (ss_zone_sources s))" for z
    using set_upd_first [OF that] from_K ns_from_subset [OF _ del_first_subset] by (auto simp: ss_from_def)
  then show "ss_from K (ss_remove_gateway zone node s)" using from_K del_first_subset
    by (fastforce simp: ss_from_def ss_remove_gateway_def Let_def split: option.split)
qed

lemma ss_from_ping:
  assumes "ss_from K s" "(now, node) \<in> K"
  shows "ss_from K (ss_on_node_ping now node usage stats s)" "ss_from K (ss_on_gateway_ping now zone node gu location usage stats s)"
proof -
  have sorted: "ns_from K ns \<Longrightarrow> ns_from K (sort_key ns_usage ns)" for ns by (simp add: ns_from_def)
  then show "ss_from K (ss_on_node_ping now node usage stats s)" using assms ns_from_ping by (simp add: ss_from_def ss_on_node_ping_def)
  let ?f = "\<lambda>z. z\<lparr>zs_usage := usage, zs_last_updated := now, zs_gateways := sort_key ns_usage (ns_ping now node gu stats (zs_gateways z))\<rparr>"
  have "ns_from K (zs_gateways z)" if "z \<in> set (upd_first (\<lambda>z. zs_zone z = zone) ?f (ss_zone_sources s))" for z
    using set_upd_first [OF that] assms sorted ns_from_ping by (auto simp: ss_from_def)
  then show "ss_from K (ss_on_gateway_ping now zone node gu location usage stats s)"
    using assms sorted by (auto simp: ss_from_def ss_on_gateway_ping_def Let_def ns_from_def)
qed

text \<open>The times and nodes of the pings of a run that were below the limits.\<close>

definition gs_accepted :: "'l gs_op list \<Rightarrow> nat \<Rightarrow> nat \<Rightarrow> nat \<Rightarrow> (nat \<times> nat) set" where
  "gs_accepted xs a b c = {(t, n). \<exists>ping. Gs_Ping t n ping \<in> set xs \<and> node_usage ping a b c \<noteq> None}"

definition gs_from :: "(nat \<times> nat) set \<Rightarrow> 'l gateway_store \<Rightarrow> bool" where
  "gs_from K s \<longleftrightarrow> ss_from K (gs_webrtc s) \<and> ss_from K (gs_rtpengine s)"

lemma ss_from_mono: "ss_from K s \<Longrightarrow> K \<subseteq> K' \<Longrightarrow> ss_from K' s"
  by (auto simp: ss_from_def ns_from_def)

lemma gs_from_step:
  assumes "gs_from K s" "gs_step x s = Inr s'" "gs_max_cpu s = a" "gs_max_memory s = b" "gs_max_disk s = c"
  shows "gs_from (K \<union> gs_accepted [x] a b c) s' \<and> gs_max_cpu s' = a \<and> gs_max_memory s' = b \<and> gs_max_disk s' = c"
proof (cases x)
  case (Gs_Ping now node ping)
  let ?K = "K \<union> gs_accepted [x] a b c"
  have K: "ss_from ?K (gs_webrtc s)" "ss_from ?K (gs_rtpengine s)" using assms(1) by (simp_all add: gs_from_def ss_from_mono [OF _ Un_upper1])
  have acc: "node_usage ping a b c = Some u \<Longrightarrow> (now, node) \<in> ?K" for u using Gs_Ping by (auto simp: gs_accepted_def)
  obtain w r where "s' = (case pg_origin ping of
        Og_Media \<Rightarrow> s\<lparr>gs_webrtc := ss_ping now node (node_usage ping a b c) w (pg_webrtc ping) (gs_webrtc s),
                      gs_rtpengine := ss_ping now node (node_usage ping a b c) r (pg_rtpengine ping) (gs_rtpengine s)\<rparr>
      | Og_Gateway zone location \<Rightarrow>
          if zone = gs_zone s then s
          else (case (node_usage ping a b c, w, location, pg_webrtc ping) of
             (Some nu, Some u, Some l, Some st) \<Rightarrow> s\<lparr>gs_webrtc := ss_on_gateway_ping now zone node nu l u st (gs_webrtc s)\<rparr>
           | _ \<Rightarrow> s\<lparr>gs_webrtc := ss_remove_gateway zone node (gs_webrtc s), gs_rtpengine := ss_remove_gateway zone node (gs_rtpengine s)\<rparr>))"
    using assms(2-5) Gs_Ping by (auto simp: gs_step_def gs_on_ping_def Let_def run_simps)
  moreover have "ss_from ?K (ss_ping now node (node_usage ping a b c) u st t)" if "ss_from ?K t" for u st and t :: "'a service_store"
    using that ss_from_ping(1) [OF that acc] ss_from_remove(1) [OF that] by (auto simp: ss_ping_def split: option.split)
  ultimately show ?thesis using K ss_from_ping(2) [OF K(1) acc] ss_from_remove(2) [OF K(1)] ss_from_remove(2) [OF K(2)] assms(3-5)
    by (simp add: gs_from_def split: ping_origin.split option.split)
next
  case (Gs_Tick now)
  have "ss_from (K \<union> gs_accepted [x] a b c) (ss_on_tick now t)" if "ss_from K t" for t :: "'a service_store"
    using ss_from_tick [OF that, of now] by (rule ss_from_mono) auto
  then show ?thesis using assms Gs_Tick by (auto simp: gs_step_def gs_on_tick_def gs_from_def Let_def)
qed (use assms in \<open>auto simp: gs_step_def gs_on_node_metrics_def gs_pop_output_def gs_from_def ss_from_mono [OF _ Un_upper1]\<close>)

lemma gs_accepted_append: "gs_accepted (xs @ ys) a b c = gs_accepted xs a b c \<union> gs_accepted ys a b c"
  by (auto simp: gs_accepted_def)

lemma gs_from_run:
  assumes "gs_from K s" "rfold gs_step xs s = Inr s'" "gs_max_cpu s = a" "gs_max_memory s = b" "gs_max_disk s = c"
  shows "gs_from (K \<union> gs_accepted xs a b c) s'"
  using assms
proof (induction xs arbitrary: s K)
  case (Cons x xs)
  then obtain s1 where s1: "gs_step x s = Inr s1" "rfold gs_step xs s1 = Inr s'" by (auto simp: run_simps)
  have step: "gs_from (K \<union> gs_accepted [x] a b c) s1" "gs_max_cpu s1 = a" "gs_max_memory s1 = b" "gs_max_disk s1 = c"
    using gs_from_step [OF Cons.prems(1) s1(1) Cons.prems(3-5)] by simp_all
  from Cons.IH [OF step(1) s1(2) step(2-4)] show ?case using gs_accepted_append [of "[x]" xs a b c] by (simp add: Un_assoc)
qed (simp add: gs_accepted_def)

lemma ss_best_for_known:
  assumes "ss_wf s" "ss_from K s" "ss_best_for dis location s = Some n"
  shows "\<exists>t. (t, n) \<in> K"
  using ss_best_for_cases [OF assms(1) refl, of dis location] assms(2,3) by (fastforce simp: ss_from_def ns_from_def)

text \<open>
  The gateway never names a dead or overloaded node: right after a tick, the node it names has sent a
  ping less than five seconds before, and that ping was below the limits for processor, memory and disk.
\<close>
theorem gs_best_for_recent:
  assumes "rfold gs_step (xs @ [Gs_Tick now]) (gs_new zone location max_cpu max_memory max_disk) = Inr s"
    and "gs_best_for dis kind client s = Some n"
  shows "\<exists>t ping. Gs_Ping t n ping \<in> set xs \<and> u64_add t PING_TIMEOUT > now \<and>
     pg_cpu ping < max_cpu \<and> pg_memory ping < max_memory \<and> pg_disk ping < max_disk"
proof -
  let ?new = "gs_new zone location max_cpu max_memory max_disk"
  obtain s0 where s0: "rfold gs_step xs ?new = Inr s0" "s = gs_on_tick now s0"
    using assms(1) by (auto simp: rfold_append run_simps gs_step_def)
  have "gs_from ({} \<union> gs_accepted xs max_cpu max_memory max_disk) s0"
    by (rule gs_from_run [OF _ s0(1)]) (simp_all add: gs_from_def gs_new_def ss_new_def ss_from_def ns_from_def)
  then have "ss_from {(t, n). (t, n) \<in> gs_accepted xs max_cpu max_memory max_disk \<and> u64_add t PING_TIMEOUT > now} (gs_service kind s)"
    using s0(2) ss_from_tick by (cases kind) (auto simp: gs_from_def gs_service_def gs_on_tick_def Let_def)
  moreover have "gs_wf s" using gs_wf_run [OF gs_wf_new assms(1)] .
  then have "ss_wf (gs_service kind s)" by (cases kind) (simp_all add: gs_service_def gs_wf_def)
  ultimately have "\<exists>t. (t, n) \<in> {(t, n). (t, n) \<in> gs_accepted xs max_cpu max_memory max_disk \<and> u64_add t PING_TIMEOUT > now}"
    using ss_best_for_known assms(2) unfolding gs_best_for_def by blast
  then show ?thesis by (auto simp: gs_accepted_def node_usage_def not_le split: if_splits)
qed

theorem gs_best_for_recent_witness:
  "\<exists>t ping. Gs_Ping t 2 ping \<in> set [Gs_Ping 0 1 (demo_ping 20 100), Gs_Ping 3000 2 (demo_ping 30 100)] \<and> u64_add t PING_TIMEOUT > 6000 \<and>
     pg_cpu ping < 60 \<and> pg_memory ping < 80 \<and> pg_disk ping < 90"
proof -
  let ?run = "rfold gs_step ([Gs_Ping 0 1 (demo_ping 20 100), Gs_Ping 3000 2 (demo_ping 30 100)] @ [Gs_Tick 6000]) (gs_new 0 (7::nat) 60 80 90)"
  have "\<exists>s. ?run = Inr s \<and> gs_best_for (\<lambda>a b. a - b + (b - a)) Webrtc None s = Some 2"
    by (simp add: gs_eval gs_on_tick_def ss_on_tick_def ns_alive_def PING_TIMEOUT_def Let_def)
  then show ?thesis using gs_best_for_recent [where dis = "\<lambda>a b. a - b + (b - a)" and kind = Webrtc and client = None] by blast
qed

text \<open>A ping that announces an active service with no capacity makes the gateway divide by zero.\<close>

lemma gs_zero_capacity_panics:
  assumes "node_usage ping (gs_max_cpu s) (gs_max_memory s) (gs_max_disk s) \<noteq> None" "pg_webrtc ping = Some st" "st_active st" "st_max st = 0"
  shows "gs_on_ping now node ping s = Inl Explicit_Panic"
proof -
  have "webrtc_usage ping (gs_max_cpu s) (gs_max_memory s) (gs_max_disk s) = Inl Explicit_Panic"
    using assms by (auto simp: webrtc_usage_def service_usage_def load_percent_def)
  then show ?thesis unfolding gs_on_ping_def Let_def by simp
qed

end
