(* ===== verification/Message_Queue.thy ===== *)
theory Message_Queue
  imports Index_Map
begin

text \<open>
  \<^verbatim>\<open>packages/media_connector/src/msg_queue.rs\<close>: the queue from which the connector's agent sends its
  events. A message that has been sent stays in flight until it is acknowledged and is sent again a
  second after it was last sent; at most \<^verbatim>\<open>MAX_INFLIGHT\<close> messages are in flight. The ordered map of send
  times is a list in ascending order of its keys; the messages are of any type, \<open>mid\<close> is their \<^verbatim>\<open>msg_id\<close>.
\<close>

section \<open>The queue\<close>

definition RESEND_AFTER_MS :: nat where "RESEND_AFTER_MS = 1000"

type_synonym send_times = "(nat \<times> nat list) list"

record 'm message_queue =
  mq_inflight_ts :: send_times
  mq_inflight :: "(nat, 'm) imap"
  mq_queue :: "'m list"
  mq_acked :: nat

definition mq_default :: "'m message_queue" where
  "mq_default = \<lparr>mq_inflight_ts = [], mq_inflight = [], mq_queue = [], mq_acked = 0\<rparr>"

definition mq_push :: "'m \<Rightarrow> 'm message_queue \<Rightarrow> 'm message_queue" where
  "mq_push msg s = s\<lparr>mq_queue := mq_queue s @ [msg]\<rparr>"

definition mq_on_ack :: "nat \<Rightarrow> 'm message_queue \<Rightarrow> 'm message_queue" where
  "mq_on_ack i s = (if im_contains (mq_inflight s) i
     then s\<lparr>mq_inflight := im_swap_remove i (mq_inflight s), mq_acked := mq_acked s + 1\<rparr> else s)"

text \<open>\<^verbatim>\<open>inflight_ts.entry(now_ms).or_default().push(msg_id)\<close>\<close>

fun times_push :: "nat \<Rightarrow> nat \<Rightarrow> send_times \<Rightarrow> send_times" where
  "times_push now i [] = [(now, [i])]"
| "times_push now i ((k, is) # ts) = (if now < k then (now, [i]) # (k, is) # ts else if now = k then (k, is @ [i]) # ts else (k, is) # times_push now i ts)"

text \<open>The loop of \<^verbatim>\<open>pop_retry_msg_id\<close>: the last id of the first send time, while that time is overdue, until
  one of a message still in flight is found.\<close>

function mq_retry :: "nat \<Rightarrow> (nat, 'm) imap \<Rightarrow> send_times \<Rightarrow> (send_times \<times> nat option) run" where
  "mq_retry now inflight ts = (case ts of [] \<Rightarrow> Inr ([], None)
     | (k, is) # rest \<Rightarrow>
         if u64_add k RESEND_AFTER_MS \<le> now then
           (if is = [] then Inl Expect_None
            else (let i = last is; is' = butlast is; ts' = (if is' = [] then rest else (k, is') # rest) in
              if im_contains inflight i then Inr (ts', Some i) else mq_retry now inflight ts'))
         else Inr (ts, None))"
  by pat_completeness auto
termination
  by (relation "measure (\<lambda>(_, _, ts). \<Sum>(k, is)\<leftarrow>ts. length is)") (auto simp: Let_def)

declare mq_retry.simps [simp del]

definition mq_pop_retry_msg_id :: "nat \<Rightarrow> 'm message_queue \<Rightarrow> ('m message_queue \<times> nat option) run" where
  "mq_pop_retry_msg_id now s = rbind (mq_retry now (mq_inflight s) (mq_inflight_ts s)) (\<lambda>(ts, i). Inr (s\<lparr>mq_inflight_ts := ts\<rparr>, i))"

definition mq_pop :: "('m \<Rightarrow> nat) \<Rightarrow> nat \<Rightarrow> nat \<Rightarrow> 'm message_queue \<Rightarrow> ('m message_queue \<times> 'm option) run" where
  "mq_pop mid MAX_INFLIGHT now s = rbind (mq_pop_retry_msg_id now s) (\<lambda>(s1, retry). case retry of
     Some i \<Rightarrow> (let s2 = s1\<lparr>mq_inflight_ts := times_push now i (mq_inflight_ts s1)\<rparr> in
        rbind (rexpect (im_get (mq_inflight s2) i)) (\<lambda>msg. Inr (s2, Some msg)))
   | None \<Rightarrow> if length (mq_inflight s1) < MAX_INFLIGHT then
        (case mq_queue s1 of [] \<Rightarrow> Inr (s1, None)
         | msg # q \<Rightarrow> (let s2 = s1\<lparr>mq_queue := q, mq_inflight_ts := times_push now (mid msg) (mq_inflight_ts s1), mq_inflight := im_insert (mid msg) msg (mq_inflight s1)\<rparr> in
             Inr (s2, im_get (mq_inflight s2) (mid msg))))
      else Inr (s1, None))"

definition mq_waits :: "'m message_queue \<Rightarrow> nat" where
  "mq_waits s = length (mq_queue s)"

definition mq_inflight_count :: "'m message_queue \<Rightarrow> nat" where
  "mq_inflight_count s = length (mq_inflight s)"

section \<open>Runs\<close>

datatype 'm mq_op = Mq_Push 'm | Mq_Ack nat | Mq_Pop nat

text \<open>A run, with the messages that were handed out.\<close>

definition mq_step :: "('m \<Rightarrow> nat) \<Rightarrow> nat \<Rightarrow> 'm mq_op \<Rightarrow> 'm message_queue \<times> 'm list \<Rightarrow> ('m message_queue \<times> 'm list) run" where
  "mq_step mid MAX_INFLIGHT x = (\<lambda>(s, out). case x of
     Mq_Push msg \<Rightarrow> Inr (mq_push msg s, out)
   | Mq_Ack i \<Rightarrow> Inr (mq_on_ack i s, out)
   | Mq_Pop now \<Rightarrow> rbind (mq_pop mid MAX_INFLIGHT now s) (\<lambda>(s1, r). Inr (s1, out @ (case r of None \<Rightarrow> [] | Some msg \<Rightarrow> [msg]))))"

definition mq_pushed :: "'m mq_op list \<Rightarrow> 'm list" where
  "mq_pushed = List.map_filter (\<lambda>x. case x of Mq_Push msg \<Rightarrow> Some msg | _ \<Rightarrow> None)"

section \<open>Invariant\<close>

definition times_ids :: "send_times \<Rightarrow> nat set" where
  "times_ids ts = \<Union> ((\<lambda>(k, is). set is) ` set ts)"

text \<open>Send times ascend, none is empty, and every message in flight has one.\<close>

definition times_wf :: "send_times \<Rightarrow> bool" where
  "times_wf ts \<longleftrightarrow> sorted_wrt (<) (map fst ts) \<and> (\<forall>(k, is)\<in>set ts. is \<noteq> [])"

definition mq_wf :: "('m \<Rightarrow> nat) \<Rightarrow> nat \<Rightarrow> 'm message_queue \<Rightarrow> bool" where
  "mq_wf mid MAX_INFLIGHT s \<longleftrightarrow> times_wf (mq_inflight_ts s) \<and> im_wf (mq_inflight s) \<and> (\<forall>i msg. im_get (mq_inflight s) i = Some msg \<longrightarrow> mid msg = i) \<and>
     fst ` set (mq_inflight s) \<subseteq> times_ids (mq_inflight_ts s) \<and> length (mq_inflight s) \<le> MAX_INFLIGHT"

lemma times_ids_simps [simp]: "times_ids [] = {}" "times_ids ((k, is) # ts) = set is \<union> times_ids ts"
  by (auto simp: times_ids_def)

lemma times_ids_push [simp]: "times_ids (times_push now i ts) = insert i (times_ids ts)"
  by (induction now i ts rule: times_push.induct) auto

lemma times_push_keys: "fst ` set (times_push now i ts) = insert now (fst ` set ts)"
  by (induction now i ts rule: times_push.induct) auto

lemma times_wf_push: "times_wf ts \<Longrightarrow> times_wf (times_push now i ts)"
proof (induction now i ts rule: times_push.induct)
  case (2 now i k "is" ts)
  then show ?case using times_push_keys [of now i ts] by (fastforce simp: times_wf_def)
qed (simp add: times_wf_def)

lemma mq_retry_ok:
  assumes "times_wf ts"
  shows "\<exists>ts' r. mq_retry now inflight ts = Inr (ts', r) \<and> times_wf ts' \<and> times_ids ts \<inter> fst ` set inflight \<subseteq> times_ids ts' \<union> set_option r \<and>
     (case r of Some i \<Rightarrow> im_get inflight i \<noteq> None | None \<Rightarrow> (case ts' of [] \<Rightarrow> True | (k, is) # _ \<Rightarrow> \<not> u64_add k RESEND_AFTER_MS \<le> now))"
  using assms
proof (induction now inflight ts rule: mq_retry.induct)
  case (1 now inflight ts)
  show ?case
  proof (cases ts)
    case Nil
    then show ?thesis by (simp add: mq_retry.simps [of now inflight "[]"] times_wf_def)
  next
    case (Cons e rest)
    obtain k "is" where e: "e = (k, is)" by (cases e)
    have ne: "is \<noteq> []" and wf: "times_wf rest" using "1.prems" by (auto simp: Cons e times_wf_def)
    show ?thesis
    proof (cases "u64_add k RESEND_AFTER_MS \<le> now")
      case False
      then have "mq_retry now inflight ts = Inr (ts, None)" by (simp add: mq_retry.simps [of now inflight "(k, is) # rest"] Cons e)
      then show ?thesis using "1.prems" False by (auto simp: Cons e)
    next
      case True
      let ?ts = "if butlast is = [] then rest else (k, butlast is) # rest"
      have wf': "times_wf ?ts" using "1.prems" by (auto simp: Cons e times_wf_def)
      have split: "is = butlast is @ [last is]" using ne by simp
      have ids: "times_ids ts = insert (last is) (times_ids ?ts)" by (subst Cons, subst e, subst split) auto
      show ?thesis
      proof (cases "im_contains inflight (last is)")
        case in_flight: True
        then have "mq_retry now inflight ts = Inr (?ts, Some (last is))" using True ne by (simp add: mq_retry.simps [of now inflight "(k, is) # rest"] Cons e Let_def)
        then show ?thesis using wf' ids in_flight by (auto simp: im_contains_def)
      next
        case gone: False
        then have eq: "mq_retry now inflight ts = mq_retry now inflight ?ts" using True ne by (simp add: mq_retry.simps [of now inflight "(k, is) # rest"] Cons e Let_def)
        have "times_ids ts \<inter> fst ` set inflight = times_ids ?ts \<inter> fst ` set inflight" using ids gone by (auto simp: im_contains_iff)
        then show ?thesis using "1.IH" [OF Cons e [symmetric] True ne refl refl refl gone wf'] eq by simp
      qed
    qed
  qed
qed

lemma mq_pop_ok:
  assumes wf: "mq_wf mid N s" and fresh: "\<And>msg. msg \<in> set (mq_queue s) \<Longrightarrow> im_get (mq_inflight s) (mid msg) = None"
  shows "\<exists>s' r. mq_pop mid N now s = Inr (s', r) \<and> mq_wf mid N s' \<and> mq_acked s' = mq_acked s \<and>
     (mq_queue s' = mq_queue s \<and> mq_inflight s' = mq_inflight s \<and> (\<forall>msg. r = Some msg \<longrightarrow> msg \<in> snd ` set (mq_inflight s)) \<or>
      (\<exists>msg. mq_queue s = msg # mq_queue s' \<and> mq_inflight s' = im_insert (mid msg) msg (mq_inflight s) \<and> r = Some msg))"
proof -
  have "times_wf (mq_inflight_ts s)" using wf by (simp add: mq_wf_def)
  then obtain ts r where retry: "mq_retry now (mq_inflight s) (mq_inflight_ts s) = Inr (ts, r)" "times_wf ts"
    "times_ids (mq_inflight_ts s) \<inter> fst ` set (mq_inflight s) \<subseteq> times_ids ts \<union> set_option r" "case r of Some i \<Rightarrow> im_get (mq_inflight s) i \<noteq> None | None \<Rightarrow> True"
    using mq_retry_ok [of "mq_inflight_ts s" now "mq_inflight s"] by (fastforce split: option.splits)
  then have pop: "mq_pop_retry_msg_id now s = Inr (s\<lparr>mq_inflight_ts := ts\<rparr>, r)" by (simp add: mq_pop_retry_msg_id_def)
  have ids: "fst ` set (mq_inflight s) \<subseteq> times_ids ts \<union> set_option r" using wf retry(3) unfolding mq_wf_def by blast
  show ?thesis
  proof (cases r)
    case (Some i)
    then obtain msg where msg: "im_get (mq_inflight s) i = Some msg" using retry(4) by auto
    then have "msg \<in> snd ` set (mq_inflight s)" using wf im_get_eq_Some [of "mq_inflight s"] by (force simp: mq_wf_def)
    then show ?thesis using pop Some msg wf ids times_wf_push [OF retry(2)] by (auto simp: mq_pop_def Let_def mq_wf_def)
  next
    case None
    have wf1: "mq_wf mid N (s\<lparr>mq_inflight_ts := ts\<rparr>)" using wf ids None retry(2) by (auto simp: mq_wf_def)
    show ?thesis
    proof (cases "length (mq_inflight s) < N \<and> mq_queue s \<noteq> []")
      case False
      then show ?thesis using pop None wf1 by (auto simp: mq_pop_def split: list.splits)
    next
      case True
      then obtain msg q where q: "mq_queue s = msg # q" by (cases "mq_queue s") auto
      then have new: "im_get (mq_inflight s) (mid msg) = None" using fresh by simp
      have "im_insert (mid msg) msg (mq_inflight s) = mq_inflight s @ [(mid msg, msg)]" using new by (rule set_im_insert_fresh)
      then have "length (im_insert (mid msg) msg (mq_inflight s)) \<le> N" using True by simp
      then show ?thesis using pop None True q wf ids times_wf_push [OF retry(2)]
        by (auto simp: mq_pop_def Let_def mq_wf_def list_upd im_keys_insert)
    qed
  qed
qed

text \<open>What a run has done with the messages pushed so far: a first part has been sent, each of them is in
  flight or acknowledged, and the rest waits.\<close>

definition mq_run_ok :: "('m \<Rightarrow> nat) \<Rightarrow> nat \<Rightarrow> 'm list \<Rightarrow> 'm message_queue \<times> 'm list \<Rightarrow> bool" where
  "mq_run_ok mid N pushed = (\<lambda>(s, out). mq_wf mid N s \<and> (\<exists>sent acked. pushed = sent @ mq_queue s \<and> set out = set sent \<and>
     mset sent = mset (map snd (mq_inflight s)) + mset acked \<and> length acked = mq_acked s))"

lemma mset_swap_remove:
  assumes "im_wf m" "im_get m i = Some msg"
  shows "mset (map snd m) = add_mset msg (mset (map snd (im_swap_remove i m)))"
proof -
  have "(i, msg) \<in> set m" using assms by (simp add: im_get_eq_Some)
  moreover have "mset (im_swap_remove i m) = mset m - {#(i, msg)#}"
    using mset_swap_remove_key [OF calculation, of fst] assms(1) by (simp add: im_swap_remove_def im_wf_def)
  ultimately have "mset m = add_mset (i, msg) (mset (im_swap_remove i m))" by simp
  then show ?thesis by simp
qed

lemma mq_ack_ok:
  assumes "mq_run_ok mid N pushed (s, out)" shows "mq_run_ok mid N pushed (mq_on_ack i s, out)"
proof (cases "im_get (mq_inflight s) i")
  case None
  then show ?thesis using assms by (simp add: mq_on_ack_def im_contains_def)
next
  case (Some msg)
  obtain sent acked where r: "pushed = sent @ mq_queue s" "set out = set sent" "mset sent = mset (map snd (mq_inflight s)) + mset acked" "length acked = mq_acked s"
    and wf: "mq_wf mid N s" using assms by (auto simp: mq_run_ok_def)
  have im: "im_wf (mq_inflight s)" using wf by (simp add: mq_wf_def)
  have "length (im_swap_remove i (mq_inflight s)) \<le> length (mq_inflight s)" using arg_cong [OF mset_swap_remove [OF im Some], of size] by simp
  then have "mq_wf mid N (mq_on_ack i s)" using wf Some
    by (auto simp: mq_wf_def mq_on_ack_def im_contains_def list_upd im_keys_swap_remove [OF im] split: if_splits)
  moreover have "mset sent = mset (map snd (im_swap_remove i (mq_inflight s))) + mset (msg # acked)" using r(3) mset_swap_remove [OF im Some] by simp
  ultimately show ?thesis using r Some by (auto simp: mq_run_ok_def mq_on_ack_def im_contains_def intro!: exI [of _ "msg # acked"])
qed

lemma mq_pop_run_ok:
  assumes run: "mq_run_ok mid N pushed (s, out)" and d: "distinct (map mid pushed)"
  shows "\<exists>st. mq_step mid N (Mq_Pop now) (s, out) = Inr st \<and> mq_run_ok mid N pushed st"
proof -
  obtain sent acked where r: "pushed = sent @ mq_queue s" "set out = set sent" "mset sent = mset (map snd (mq_inflight s)) + mset acked" "length acked = mq_acked s"
    and wf: "mq_wf mid N s" using run by (auto simp: mq_run_ok_def)
  have flying: "snd ` set (mq_inflight s) \<subseteq> set sent" using arg_cong [OF r(3), of set_mset] by auto
  have fresh: "im_get (mq_inflight s) (mid msg) = None" if "msg \<in> set (mq_queue s)" for msg
  proof (rule ccontr)
    assume "im_get (mq_inflight s) (mid msg) \<noteq> None"
    then obtain m where m: "im_get (mq_inflight s) (mid msg) = Some m" by auto
    then have "m \<in> set sent" "mid m = mid msg" using wf flying im_get_eq_Some [of "mq_inflight s"] by (force simp: mq_wf_def)+
    then show False using d that by (auto simp: r(1) image_iff)
  qed
  from mq_pop_ok [OF wf fresh, of now] obtain s' p where pop: "mq_pop mid N now s = Inr (s', p)" "mq_wf mid N s'" "mq_acked s' = mq_acked s"
    and or: "mq_queue s' = mq_queue s \<and> mq_inflight s' = mq_inflight s \<and> (\<forall>msg. p = Some msg \<longrightarrow> msg \<in> snd ` set (mq_inflight s)) \<or>
      (\<exists>msg. mq_queue s = msg # mq_queue s' \<and> mq_inflight s' = im_insert (mid msg) msg (mq_inflight s) \<and> p = Some msg)" by blast
  have step: "mq_step mid N (Mq_Pop now) (s, out) = Inr (s', out @ (case p of None \<Rightarrow> [] | Some msg \<Rightarrow> [msg]))" using pop(1) by (simp add: mq_step_def)
  from or show ?thesis
  proof
    assume "mq_queue s' = mq_queue s \<and> mq_inflight s' = mq_inflight s \<and> (\<forall>msg. p = Some msg \<longrightarrow> msg \<in> snd ` set (mq_inflight s))"
    then show ?thesis using step r pop flying by (auto simp: mq_run_ok_def split: option.split)
  next
    assume "\<exists>msg. mq_queue s = msg # mq_queue s' \<and> mq_inflight s' = im_insert (mid msg) msg (mq_inflight s) \<and> p = Some msg"
    then obtain msg where msg: "mq_queue s = msg # mq_queue s'" "mq_inflight s' = im_insert (mid msg) msg (mq_inflight s)" "p = Some msg" by blast
    then have "mq_inflight s' = mq_inflight s @ [(mid msg, msg)]" using set_im_insert_fresh [OF fresh [of msg]] by simp
    then show ?thesis using step r pop msg by (auto simp: mq_run_ok_def intro!: exI [of _ "sent @ [msg]"] exI [of _ acked])
  qed
qed

section \<open>Properties\<close>

lemma mq_pushed_snoc: "mq_pushed (xs @ [x]) = mq_pushed xs @ (case x of Mq_Push msg \<Rightarrow> [msg] | _ \<Rightarrow> [])"
  by (simp add: mq_pushed_def List.map_filter_def split: mq_op.split)

lemma mq_run_invariant:
  assumes "distinct (map mid (mq_pushed xs))"
  shows "\<exists>st. rfold (mq_step mid N) xs (mq_default, []) = Inr st \<and> mq_run_ok mid N (mq_pushed xs) st"
  using assms
proof (induction xs rule: rev_induct)
  case Nil
  then show ?case by (simp add: mq_run_ok_def mq_default_def mq_wf_def times_wf_def mq_pushed_def List.map_filter_def)
next
  case (snoc x xs)
  have d: "distinct (map mid (mq_pushed xs))" using snoc.prems by (simp add: mq_pushed_snoc)
  then obtain s out where st: "rfold (mq_step mid N) xs (mq_default, []) = Inr (s, out)" "mq_run_ok mid N (mq_pushed xs) (s, out)" using snoc.IH by auto
  have "\<exists>st'. mq_step mid N x (s, out) = Inr st' \<and> mq_run_ok mid N (mq_pushed (xs @ [x])) st'"
  proof (cases x)
    case (Mq_Push msg)
    then show ?thesis using st(2) by (auto simp: mq_step_def mq_push_def mq_pushed_snoc mq_run_ok_def mq_wf_def)
  next
    case (Mq_Ack i)
    then show ?thesis using mq_ack_ok [OF st(2)] by (simp add: mq_step_def mq_pushed_snoc)
  next
    case (Mq_Pop now)
    then show ?thesis using mq_pop_run_ok [OF st(2) d] by (simp add: mq_pushed_snoc)
  qed
  then obtain st' where "mq_step mid N x (s, out) = Inr st'" "mq_run_ok mid N (mq_pushed (xs @ [x])) st'" by blast
  then have "rfold (mq_step mid N) (xs @ [x]) (mq_default, []) = Inr st'" using st(1) by (simp add: rfold_append)
  then show ?case using \<open>mq_run_ok mid N (mq_pushed (xs @ [x])) st'\<close> by blast
qed

text \<open>
  The connector's queue loses nothing: when messages have different ids, no sequence of pushes, pops
  and acknowledgements makes it panic; what was pushed is what was sent followed by what waits, in
  order; every message that was sent is in flight or acknowledged, never more than
  \<^verbatim>\<open>MAX_INFLIGHT\<close> are in flight, and each of those has a time at which it will be sent again.
\<close>
theorem mq_loses_nothing:
  assumes "distinct (map mid (mq_pushed xs))"
  shows "\<exists>s out sent acked. rfold (mq_step mid N) xs (mq_default, []) = Inr (s, out) \<and>
     mq_pushed xs = sent @ mq_queue s \<and> set out = set sent \<and> mset sent = mset (map snd (mq_inflight s)) + mset acked \<and> length acked = mq_acked s \<and>
     length (mq_inflight s) \<le> N \<and> (\<forall>i\<in>fst ` set (mq_inflight s). \<exists>(k, is)\<in>set (mq_inflight_ts s). i \<in> set is)"
proof -
  obtain s out where run: "rfold (mq_step mid N) xs (mq_default, []) = Inr (s, out)" "mq_run_ok mid N (mq_pushed xs) (s, out)"
    using mq_run_invariant [OF assms, of N] by auto
  then have "\<forall>i\<in>fst ` set (mq_inflight s). \<exists>(k, is)\<in>set (mq_inflight_ts s). i \<in> set is" by (fastforce simp: mq_run_ok_def mq_wf_def times_ids_def)
  moreover have "length (mq_inflight s) \<le> N" using run(2) by (simp add: mq_run_ok_def mq_wf_def)
  ultimately show ?thesis using run by (auto simp: mq_run_ok_def)
qed

theorem mq_loses_nothing_witness:
  "\<exists>s out sent acked. rfold (mq_step (\<lambda>m::nat. m) 2) [Mq_Push 7, Mq_Push 8, Mq_Push 9, Mq_Pop 0, Mq_Pop 0, Mq_Pop 0, Mq_Ack 7, Mq_Pop 1500] (mq_default, []) = Inr (s, out) \<and>
     [7, 8, 9] = sent @ mq_queue s \<and> mset sent = mset (map snd (mq_inflight s)) + mset acked \<and> length (mq_inflight s) \<le> 2"
proof -
  let ?xs = "[Mq_Push 7, Mq_Push 8, Mq_Push 9, Mq_Pop 0, Mq_Pop 0, Mq_Pop 0, Mq_Ack 7, Mq_Pop 1500] :: nat mq_op list"
  have p: "mq_pushed ?xs = [7, 8, 9]" by (simp add: mq_pushed_def List.map_filter_def)
  have "distinct (map (\<lambda>m::nat. m) (mq_pushed ?xs))" by (simp add: p)
  from mq_loses_nothing [OF this, of 2] show ?thesis unfolding p by blast
qed

text \<open>A message that is in flight and overdue is sent again at the next pop, before any that waits.\<close>

lemma mq_retry_due:
  assumes "times_wf ts" "mq_retry now inflight ts = Inr (ts', None)" "(k, is) \<in> set ts" "k + RESEND_AFTER_MS \<le> now" "now < 2 ^ 64"
  shows "set is \<inter> fst ` set inflight = {}"
  using assms
proof (induction now inflight ts arbitrary: "is" rule: mq_retry.induct)
  case (1 now inflight ts)
  obtain k0 is0 rest where ts: "ts = (k0, is0) # rest" using "1.prems"(3) by (cases ts) auto
  have ne: "is0 \<noteq> []" and "k0 \<le> k" using "1.prems"(1,3) by (auto simp: ts times_wf_def)
  then have "u64_add k0 RESEND_AFTER_MS = k0 + RESEND_AFTER_MS" using "1.prems"(4,5) by (intro u64_add_small) simp
  then have due: "u64_add k0 RESEND_AFTER_MS \<le> now" using "1.prems"(4) \<open>k0 \<le> k\<close> by simp
  let ?ts = "if butlast is0 = [] then rest else (k0, butlast is0) # rest"
  have step: "(if im_contains inflight (last is0) then Inr (?ts, Some (last is0)) else mq_retry now inflight ?ts) = Inr (ts', None)"
    using "1.prems"(2) due ne by (simp add: ts mq_retry.simps [of now inflight "(k0, is0) # rest"] Let_def)
  then have gone: "\<not> im_contains inflight (last is0)" and rest: "mq_retry now inflight ?ts = Inr (ts', None)" by (simp_all split: if_splits)
  have wf': "times_wf ?ts" using "1.prems"(1) by (auto simp: ts times_wf_def)
  note IH = "1.IH" [OF ts refl due ne refl refl refl gone wf' rest _ "1.prems"(4,5)]
  show ?case
  proof (cases "(k, is) = (k0, is0)")
    case True
    have "is0 = butlast is0 @ [last is0]" using ne by simp
    then have "set is = insert (last is0) (set (butlast is0))" using True by (metis (no_types) Pair_inject list.simps(15) rotate1.simps(2) set_rotate1)
    moreover have "set (butlast is0) \<inter> fst ` set inflight = {}" using IH [of "butlast is0"] True by (cases "butlast is0 = []") auto
    ultimately show ?thesis using gone by (auto simp: im_contains_iff)
  next
    case False
    then have "(k, is) \<in> set ?ts" using "1.prems"(3) by (auto simp: ts)
    then show ?thesis by (rule IH)
  qed
qed

lemma mq_overdue_resent:
  assumes wf: "mq_wf mid N s" and "(k, is) \<in> set (mq_inflight_ts s)" "i \<in> set is" "im_get (mq_inflight s) i \<noteq> None" "k + RESEND_AFTER_MS \<le> now" "now < 2 ^ 64"
  shows "\<exists>s' msg. mq_pop mid N now s = Inr (s', Some msg) \<and> mq_queue s' = mq_queue s \<and> msg \<in> snd ` set (mq_inflight s)"
proof -
  have tw: "times_wf (mq_inflight_ts s)" using wf by (simp add: mq_wf_def)
  then obtain ts r where retry: "mq_retry now (mq_inflight s) (mq_inflight_ts s) = Inr (ts, r)" "case r of Some i \<Rightarrow> im_get (mq_inflight s) i \<noteq> None | None \<Rightarrow> True"
    using mq_retry_ok [OF tw, of now "mq_inflight s"] by (fastforce split: option.splits)
  have "r \<noteq> None"
  proof
    assume "r = None"
    then have "set is \<inter> fst ` set (mq_inflight s) = {}" using mq_retry_due [OF tw _ assms(2,5,6)] retry(1) by blast
    then show False using assms(3,4) by (auto simp: im_get_None_iff)
  qed
  then obtain j msg where j: "r = Some j" "im_get (mq_inflight s) j = Some msg" using retry(2) by auto
  then have "msg \<in> snd ` set (mq_inflight s)" using wf im_get_eq_Some [of "mq_inflight s"] by (force simp: mq_wf_def)
  then show ?thesis using retry(1) j by (simp add: mq_pop_def mq_pop_retry_msg_id_def Let_def)
qed

end
