(* ===== verification/Net_Service.thy ===== *)
theory Net_Service
  imports Index_Map
begin

text \<open>
  The interface through which the services of \<^verbatim>\<open>media_gateway\<close> and \<^verbatim>\<open>media_connector\<close> talk to the network
  library: what a service is given (\<^verbatim>\<open>ServiceInput\<close>, \<^verbatim>\<open>ServiceSharedInput\<close>), what it returns
  (\<^verbatim>\<open>ServiceOutput\<close>) and the data feature they send datagrams with, restricted to the constructors the
  services use. Datagrams \<open>'b\<close> are made and read by the serialiser of the protobuf library, a parameter
  of each service. A control arrives as the result of \<^verbatim>\<open>control.try_into()\<close>, \<open>None\<close> when it is one of another
  service. The worker side of a service hands everything it receives to its controller.
\<close>

datatype broadcast_level = Level_Global | Level_Group

datatype route_rule = To_Services nat broadcast_level nat | To_Service nat | To_Node nat

datatype 'b data_control =
    Data_Listen nat
  | Data_Send_Rule nat route_rule bool 'b \<comment> \<open>port, rule, \<open>meta.source\<close>, data\<close>

datatype ('u, 'e, 'b) service_output = Out_Feature "'b data_control" | Out_Event 'u 'e

datatype 'b data_event = Data_Pong | Data_Recv nat "nat option" 'b \<comment> \<open>port, \<open>meta.source\<close>, data\<close>

datatype ('u, 'c, 'b) service_input =
    In_Control 'u "'c option"
  | In_From_Worker
  | In_Data "'b data_event"
  | In_Feature

datatype shared_input = Shared_Tick | Shared_Connection

section \<open>The worker side\<close>

datatype ('u, 'c, 'f) worker_input = Wi_Control 'u 'c | Wi_From_Controller | Wi_Feature 'f

datatype ('u, 'c, 'f) worker_output = Wo_Control 'u 'c | Wo_Feature 'f

record ('u, 'c, 'f) service_worker =
  sw_queue :: "('u, 'c, 'f) worker_output list"
  sw_shutdown :: bool

definition sw_new :: "('u, 'c, 'f) service_worker" where
  "sw_new = \<lparr>sw_queue = [], sw_shutdown = False\<rparr>"

definition sw_is_service_empty :: "('u, 'c, 'f) service_worker \<Rightarrow> bool" where
  "sw_is_service_empty w \<longleftrightarrow> sw_shutdown w \<and> sw_queue w = []"

definition sw_on_input :: "('u, 'c, 'f) worker_input \<Rightarrow> ('u, 'c, 'f) service_worker \<Rightarrow> ('u, 'c, 'f) service_worker" where
  "sw_on_input i w = (case i of
     Wi_Control u c \<Rightarrow> w\<lparr>sw_queue := sw_queue w @ [Wo_Control u c]\<rparr>
   | Wi_From_Controller \<Rightarrow> w
   | Wi_Feature e \<Rightarrow> w\<lparr>sw_queue := sw_queue w @ [Wo_Feature e]\<rparr>)"

definition sw_on_shutdown :: "('u, 'c, 'f) service_worker \<Rightarrow> ('u, 'c, 'f) service_worker" where
  "sw_on_shutdown w = w\<lparr>sw_shutdown := True\<rparr>"

definition sw_pop_output2 :: "('u, 'c, 'f) service_worker \<Rightarrow> ('u, 'c, 'f) service_worker \<times> ('u, 'c, 'f) worker_output option" where
  "sw_pop_output2 w = (case sw_queue w of [] \<Rightarrow> (w, None) | x # xs \<Rightarrow> (w\<lparr>sw_queue := xs\<rparr>, Some x))"

end
