(* ===== verification/Connector_Service.thy ===== *)
theory Connector_Service
  imports Net_Service Message_Queue
begin

text \<open>
  \<^verbatim>\<open>packages/media_connector/src/agent_service.rs\<close> and \<^verbatim>\<open>handler_service.rs\<close>: how the events of a node reach
  the connector. The agent on each node numbers the requests it is given, sends each from its
  message queue until it is acknowledged, and hands a response to the actor that made the request. The
  handler on the connector's node passes each request to its subscriber once, remembering what it has
  seen in a cache of 10000 keys, and sends back the responses the subscriber gives it.

  Requests \<open>'q\<close> and responses \<open>'s\<close> are of any type. The protobuf serialisers (\<open>enc_req\<close>, \<open>dec_req\<close>, \<open>enc_res\<close>,
  \<open>dec_res\<close>) and \<^verbatim>\<open>LruCache::put\<close> (\<open>lru_put\<close>, which also tells whether the key was there) are parameters.
\<close>

section \<open>Messages\<close>

definition CONNECTOR_DATA_PORT :: nat where "CONNECTOR_DATA_PORT = 10002"
definition HANDLER_SERVICE_ID :: nat where "HANDLER_SERVICE_ID = 104"
definition MAX_INFLIGHT :: nat where "MAX_INFLIGHT = 1024"

record 'q connector_request =
  cq_req_id :: nat
  cq_ts :: nat
  cq_request :: "'q option"

record 's connector_response =
  cp_req_id :: nat
  cp_response :: "'s option"

section \<open>The agent\<close>

datatype 'q agent_control = Agent_Sub | Agent_Request nat 'q

datatype 's agent_event = Agent_Response 's | Agent_Stats nat nat nat

record ('u, 'q, 's, 'b) connector_agent =
  ca_req_id_seed :: nat
  ca_req_data :: "(nat, 'u) imap"
  ca_subscriber :: "'u option"
  ca_msg_queue :: "'q connector_request message_queue"
  ca_queue :: "('u, 's agent_event, 'b) service_output list"
  ca_shutdown :: bool

definition ca_new :: "('u, 'q, 's, 'b) connector_agent" where
  "ca_new = \<lparr>ca_req_id_seed = 0, ca_req_data = [], ca_subscriber = None, ca_msg_queue = mq_default,
     ca_queue = [Out_Feature (Data_Listen CONNECTOR_DATA_PORT)], ca_shutdown = False\<rparr>"

definition ca_is_service_empty :: "('u, 'q, 's, 'b) connector_agent \<Rightarrow> bool" where
  "ca_is_service_empty a \<longleftrightarrow> ca_shutdown a \<and> ca_queue a = []"

definition ca_on_shared_input :: "shared_input \<Rightarrow> ('u, 'q, 's, 'b) connector_agent \<Rightarrow> ('u, 'q, 's, 'b) connector_agent" where
  "ca_on_shared_input i a = (case i of
     Shared_Tick \<Rightarrow> (case ca_subscriber a of None \<Rightarrow> a
       | Some u \<Rightarrow> a\<lparr>ca_queue := ca_queue a @ [Out_Event u (Agent_Stats (mq_waits (ca_msg_queue a)) (mq_inflight_count (ca_msg_queue a)) (mq_acked (ca_msg_queue a)))]\<rparr>)
   | Shared_Connection \<Rightarrow> a)"

definition ca_on_control :: "'u \<Rightarrow> 'q agent_control \<Rightarrow> ('u, 'q, 's, 'b) connector_agent \<Rightarrow> ('u, 'q, 's, 'b) connector_agent" where
  "ca_on_control owner c a = (case c of
     Agent_Request ts request \<Rightarrow> (let req_id = ca_req_id_seed a in
       a\<lparr>ca_req_id_seed := u64_add (ca_req_id_seed a) 1, ca_req_data := im_insert req_id owner (ca_req_data a),
         ca_msg_queue := mq_push \<lparr>cq_req_id = req_id, cq_ts = ts, cq_request = Some request\<rparr> (ca_msg_queue a)\<rparr>)
   | Agent_Sub \<Rightarrow> a\<lparr>ca_subscriber := Some owner\<rparr>)"

definition ca_on_response :: "'s connector_response \<Rightarrow> ('u, 'q, 's, 'b) connector_agent \<Rightarrow> ('u, 'q, 's, 'b) connector_agent" where
  "ca_on_response msg a = (case im_get (ca_req_data a) (cp_req_id msg) of None \<Rightarrow> a
     | Some actor \<Rightarrow> (let a1 = a\<lparr>ca_req_data := im_swap_remove (cp_req_id msg) (ca_req_data a), ca_msg_queue := mq_on_ack (cp_req_id msg) (ca_msg_queue a)\<rparr> in
         case cp_response msg of None \<Rightarrow> a1
         | Some res \<Rightarrow> a1\<lparr>ca_queue := ca_queue a1 @ [Out_Event actor (Agent_Response res)]\<rparr>))"

definition ca_on_input :: "('b \<Rightarrow> 's connector_response option) \<Rightarrow> ('u, 'q agent_control, 'b) service_input \<Rightarrow> ('u, 'q, 's, 'b) connector_agent \<Rightarrow> ('u, 'q, 's, 'b) connector_agent" where
  "ca_on_input dec_res i a = (case i of
     In_Control owner control \<Rightarrow> (case control of None \<Rightarrow> a | Some c \<Rightarrow> ca_on_control owner c a)
   | In_From_Worker \<Rightarrow> a
   | In_Data event \<Rightarrow> (case event of Data_Pong \<Rightarrow> a
       | Data_Recv _ _ buf \<Rightarrow> (case dec_res buf of Some msg \<Rightarrow> ca_on_response msg a | None \<Rightarrow> a))
   | In_Feature \<Rightarrow> a)"

definition ca_on_shutdown :: "('u, 'q, 's, 'b) connector_agent \<Rightarrow> ('u, 'q, 's, 'b) connector_agent" where
  "ca_on_shutdown a = a\<lparr>ca_shutdown := True\<rparr>"

definition ca_pop_output2 :: "('q connector_request \<Rightarrow> 'b) \<Rightarrow> nat \<Rightarrow> ('u, 'q, 's, 'b) connector_agent \<Rightarrow> (('u, 'q, 's, 'b) connector_agent \<times> ('u, 's agent_event, 'b) service_output option) run" where
  "ca_pop_output2 enc_req now a = (case ca_queue a of x # xs \<Rightarrow> Inr (a\<lparr>ca_queue := xs\<rparr>, Some x)
     | [] \<Rightarrow> rbind (mq_pop cq_req_id MAX_INFLIGHT now (ca_msg_queue a)) (\<lambda>(q, out). Inr (a\<lparr>ca_msg_queue := q\<rparr>,
         map_option (\<lambda>m. Out_Feature (Data_Send_Rule CONNECTOR_DATA_PORT (To_Service HANDLER_SERVICE_ID) True (enc_req m))) out)))"

section \<open>The handler\<close>

datatype 's handler_control = Handler_Sub | Handler_Res nat nat 's

datatype 'q handler_event = Handler_Req nat nat nat 'q

record ('u, 'q, 'b, 'c) connector_handler =
  ch_lru :: 'c
  ch_subscriber :: "'u option"
  ch_queue :: "('u, 'q handler_event, 'b) service_output list"
  ch_shutdown :: bool

text \<open>\<^verbatim>\<open>new\<close>, given the empty cache of 10000 entries.\<close>

definition ch_new :: "'c \<Rightarrow> ('u, 'q, 'b, 'c) connector_handler" where
  "ch_new lru = \<lparr>ch_lru = lru, ch_subscriber = None, ch_queue = [Out_Feature (Data_Listen CONNECTOR_DATA_PORT)], ch_shutdown = False\<rparr>"

definition ch_is_service_empty :: "('u, 'q, 'b, 'c) connector_handler \<Rightarrow> bool" where
  "ch_is_service_empty h \<longleftrightarrow> ch_shutdown h \<and> ch_queue h = []"

definition ch_on_control :: "('s connector_response \<Rightarrow> 'b) \<Rightarrow> 'u \<Rightarrow> 's handler_control \<Rightarrow> ('u, 'q, 'b, 'c) connector_handler \<Rightarrow> ('u, 'q, 'b, 'c) connector_handler" where
  "ch_on_control enc_res owner c h = (case c of
     Handler_Sub \<Rightarrow> h\<lparr>ch_subscriber := Some owner\<rparr>
   | Handler_Res source req_id res \<Rightarrow> h\<lparr>ch_queue := ch_queue h @
       [Out_Feature (Data_Send_Rule CONNECTOR_DATA_PORT (To_Node source) False (enc_res \<lparr>cp_req_id = req_id, cp_response = Some res\<rparr>))]\<rparr>)"

type_synonym req_uuid = "nat \<times> nat \<times> nat"

definition ch_on_request :: "(req_uuid \<Rightarrow> 'c \<Rightarrow> 'c \<times> bool) \<Rightarrow> nat option \<Rightarrow> 'q connector_request \<Rightarrow> ('u, 'q, 'b, 'c) connector_handler \<Rightarrow> ('u, 'q, 'b, 'c) connector_handler" where
  "ch_on_request lru_put source msg h = (case source of None \<Rightarrow> h
     | Some src \<Rightarrow> (let (lru, seen) = lru_put (src, cq_ts msg, cq_req_id msg) (ch_lru h); h1 = h\<lparr>ch_lru := lru\<rparr> in
         if seen then h1
         else (case cq_request msg of None \<Rightarrow> h1
           | Some event \<Rightarrow> (case ch_subscriber h1 of None \<Rightarrow> h1
               | Some actor \<Rightarrow> h1\<lparr>ch_queue := ch_queue h1 @ [Out_Event actor (Handler_Req src (cq_ts msg) (cq_req_id msg) event)]\<rparr>))))"

definition ch_on_input :: "('s connector_response \<Rightarrow> 'b) \<Rightarrow> ('b \<Rightarrow> 'q connector_request option) \<Rightarrow> (req_uuid \<Rightarrow> 'c \<Rightarrow> 'c \<times> bool) \<Rightarrow>
    ('u, 's handler_control, 'b) service_input \<Rightarrow> ('u, 'q, 'b, 'c) connector_handler \<Rightarrow> ('u, 'q, 'b, 'c) connector_handler" where
  "ch_on_input enc_res dec_req lru_put i h = (case i of
     In_Control owner control \<Rightarrow> (case control of None \<Rightarrow> h | Some c \<Rightarrow> ch_on_control enc_res owner c h)
   | In_From_Worker \<Rightarrow> h
   | In_Data event \<Rightarrow> (case event of Data_Pong \<Rightarrow> h
       | Data_Recv _ source buf \<Rightarrow> (case dec_req buf of Some msg \<Rightarrow> ch_on_request lru_put source msg h | None \<Rightarrow> h))
   | In_Feature \<Rightarrow> h)"

definition ch_on_shutdown :: "('u, 'q, 'b, 'c) connector_handler \<Rightarrow> ('u, 'q, 'b, 'c) connector_handler" where
  "ch_on_shutdown h = h\<lparr>ch_shutdown := True\<rparr>"

definition ch_pop_output2 :: "('u, 'q, 'b, 'c) connector_handler \<Rightarrow> ('u, 'q, 'b, 'c) connector_handler \<times> ('u, 'q handler_event, 'b) service_output option" where
  "ch_pop_output2 h = (case ch_queue h of [] \<Rightarrow> (h, None) | x # xs \<Rightarrow> (h\<lparr>ch_queue := xs\<rparr>, Some x))"

end
