(* ===== verification/Connector_Net.thy ===== *)
theory Connector_Net
  imports Connector_Service
begin

text \<open>
  The connector's agents and its handler together: every node has an agent, one node has the handler, and
  the network between them may lose, repeat and reorder datagrams. A datagram that was sent stays on
  the wire; \<open>Cn_Deliver\<close> and \<open>Cn_Return\<close> hand any of them to its receiver, as often as the network likes.
\<close>

record ('q, 's, 'b, 'c) connector_env =
  enc_req :: "'q connector_request \<Rightarrow> 'b"
  dec_req :: "'b \<Rightarrow> 'q connector_request option"
  enc_res :: "'s connector_response \<Rightarrow> 'b"
  dec_res :: "'b \<Rightarrow> 's connector_response option"
  lru_put :: "req_uuid \<Rightarrow> 'c \<Rightarrow> 'c \<times> bool"

text \<open>The state of the system, with a record of what was asked for (node, request id, actor, time,
  request), handed to the handler's subscriber, answered by it, and told to an actor on a node.\<close>

record ('u, 'q, 's, 'b, 'c) connector_net =
  cn_agents :: "nat \<Rightarrow> ('u, 'q, 's, 'b) connector_agent"
  cn_handler :: "('u, 'q, 'b, 'c) connector_handler"
  cn_to_handler :: "(nat option \<times> 'b) list"
  cn_to_agent :: "(nat \<times> 'b) list"
  cn_asked :: "(nat \<times> nat \<times> 'u \<times> nat \<times> 'q) list"
  cn_handed :: "(nat \<times> nat \<times> nat \<times> 'q) list"
  cn_answered :: "(nat \<times> nat \<times> 's) list"
  cn_told :: "(nat \<times> 'u \<times> 's) list"

definition cn_new :: "'c \<Rightarrow> ('u, 'q, 's, 'b, 'c) connector_net" where
  "cn_new lru = \<lparr>cn_agents = (\<lambda>_. ca_new), cn_handler = ch_new lru, cn_to_handler = [], cn_to_agent = [], cn_asked = [], cn_handed = [], cn_answered = [], cn_told = []\<rparr>"

datatype ('u, 'q, 's) cn_op =
    Cn_Ask nat 'u nat 'q
  | Cn_Agent_Sub nat 'u
  | Cn_Tick nat
  | Cn_Agent_Pop nat nat
  | Cn_Handler_Sub 'u
  | Cn_Deliver nat
  | Cn_Handler_Pop
  | Cn_Answer 'u nat nat 's
  | Cn_Return nat

text \<open>What the network does with an output of the agent on node \<open>n\<close>, and with one of the handler.\<close>

definition cn_route_agent :: "nat \<Rightarrow> ('u, 's agent_event, 'b) service_output option \<Rightarrow> ('u, 'q, 's, 'b, 'c) connector_net \<Rightarrow> ('u, 'q, 's, 'b, 'c) connector_net" where
  "cn_route_agent n out st = (case out of
     Some (Out_Feature (Data_Send_Rule _ _ source b)) \<Rightarrow> st\<lparr>cn_to_handler := cn_to_handler st @ [(if source then Some n else None, b)]\<rparr>
   | Some (Out_Event u (Agent_Response s)) \<Rightarrow> st\<lparr>cn_told := cn_told st @ [(n, u, s)]\<rparr>
   | _ \<Rightarrow> st)"

definition cn_route_handler :: "('u, 'q handler_event, 'b) service_output option \<Rightarrow> ('u, 'q, 's, 'b, 'c) connector_net \<Rightarrow> ('u, 'q, 's, 'b, 'c) connector_net" where
  "cn_route_handler out st = (case out of
     Some (Out_Feature (Data_Send_Rule _ (To_Node n) _ b)) \<Rightarrow> st\<lparr>cn_to_agent := cn_to_agent st @ [(n, b)]\<rparr>
   | Some (Out_Event _ (Handler_Req n ts i q)) \<Rightarrow> st\<lparr>cn_handed := cn_handed st @ [(n, ts, i, q)]\<rparr>
   | _ \<Rightarrow> st)"

definition cn_agent :: "('q, 's, 'b, 'c) connector_env \<Rightarrow> nat \<Rightarrow> ('u, 'q agent_control, 'b) service_input \<Rightarrow> ('u, 'q, 's, 'b, 'c) connector_net \<Rightarrow> ('u, 'q, 's, 'b, 'c) connector_net" where
  "cn_agent e n i st = st\<lparr>cn_agents := (cn_agents st)(n := ca_on_input (dec_res e) i (cn_agents st n))\<rparr>"

definition cn_handle :: "('q, 's, 'b, 'c) connector_env \<Rightarrow> ('u, 's handler_control, 'b) service_input \<Rightarrow> ('u, 'q, 's, 'b, 'c) connector_net \<Rightarrow> ('u, 'q, 's, 'b, 'c) connector_net" where
  "cn_handle e i st = st\<lparr>cn_handler := ch_on_input (enc_res e) (dec_req e) (lru_put e) i (cn_handler st)\<rparr>"

definition cn_step :: "('q, 's, 'b, 'c) connector_env \<Rightarrow> ('u, 'q, 's) cn_op \<Rightarrow> ('u, 'q, 's, 'b, 'c) connector_net \<Rightarrow> ('u, 'q, 's, 'b, 'c) connector_net run" where
  "cn_step e x st = (case x of
     Cn_Ask n u ts q \<Rightarrow> Inr (cn_agent e n (In_Control u (Some (Agent_Request ts q))) (st\<lparr>cn_asked := cn_asked st @ [(n, ca_req_id_seed (cn_agents st n), u, ts, q)]\<rparr>))
   | Cn_Agent_Sub n u \<Rightarrow> Inr (cn_agent e n (In_Control u (Some Agent_Sub)) st)
   | Cn_Tick n \<Rightarrow> Inr (st\<lparr>cn_agents := (cn_agents st)(n := ca_on_shared_input Shared_Tick (cn_agents st n))\<rparr>)
   | Cn_Agent_Pop n now \<Rightarrow> rbind (ca_pop_output2 (enc_req e) now (cn_agents st n)) (\<lambda>(a, out). Inr (cn_route_agent n out (st\<lparr>cn_agents := (cn_agents st)(n := a)\<rparr>)))
   | Cn_Handler_Sub u \<Rightarrow> Inr (cn_handle e (In_Control u (Some Handler_Sub)) st)
   | Cn_Deliver k \<Rightarrow> Inr (if k < length (cn_to_handler st) then (case cn_to_handler st ! k of (source, b) \<Rightarrow> cn_handle e (In_Data (Data_Recv CONNECTOR_DATA_PORT source b)) st) else st)
   | Cn_Handler_Pop \<Rightarrow> Inr (case ch_pop_output2 (cn_handler st) of (h, out) \<Rightarrow> cn_route_handler out (st\<lparr>cn_handler := h\<rparr>))
   | Cn_Answer u n i s \<Rightarrow> Inr (cn_handle e (In_Control u (Some (Handler_Res n i s))) (st\<lparr>cn_answered := cn_answered st @ [(n, i, s)]\<rparr>))
   | Cn_Return k \<Rightarrow> Inr (if k < length (cn_to_agent st) then (case cn_to_agent st ! k of (n, b) \<Rightarrow> cn_agent e n (In_Data (Data_Recv CONNECTOR_DATA_PORT None b)) st) else st))"

section \<open>What is assumed of the libraries\<close>

text \<open>Messages survive the serialiser, and the cache forgets nothing before it holds more keys than its
  capacity; \<open>keys\<close> are those it holds.\<close>

definition codec_ok :: "('q, 's, 'b, 'c) connector_env \<Rightarrow> bool" where
  "codec_ok e \<longleftrightarrow> (\<forall>m. dec_req e (enc_req e m) = Some m) \<and> (\<forall>m. dec_res e (enc_res e m) = Some m)"

definition lru_ok :: "(req_uuid \<Rightarrow> 'c \<Rightarrow> 'c \<times> bool) \<Rightarrow> ('c \<Rightarrow> req_uuid set) \<Rightarrow> nat \<Rightarrow> bool" where
  "lru_ok put keys cap \<longleftrightarrow> (\<forall>k c. snd (put k c) = (k \<in> keys c)) \<and>
     (\<forall>k c. card (insert k (keys c)) \<le> cap \<longrightarrow> keys (fst (put k c)) = insert k (keys c))"

section \<open>Invariant\<close>

definition responses :: "('u, 's agent_event, 'b) service_output list \<Rightarrow> ('u \<times> 's) list" where
  "responses = List.map_filter (\<lambda>x. case x of Out_Event u (Agent_Response s) \<Rightarrow> Some (u, s) | _ \<Rightarrow> None)"

definition requests_out :: "('u, 'q handler_event, 'b) service_output list \<Rightarrow> (nat \<times> nat \<times> nat \<times> 'q) list" where
  "requests_out = List.map_filter (\<lambda>x. case x of Out_Event _ (Handler_Req n ts i q) \<Rightarrow> Some (n, ts, i, q) | _ \<Rightarrow> None)"

definition told_on :: "nat \<Rightarrow> (nat \<times> 'u \<times> 's) list \<Rightarrow> ('u \<times> 's) list" where
  "told_on n told = map snd (filter (\<lambda>t. fst t = n) told)"

lemma service_lists [simp]: "responses [] = []" "responses (xs @ ys) = responses xs @ responses ys" "requests_out [] = []" "requests_out (zs @ ws) = requests_out zs @ requests_out ws"
  "responses (Out_Feature d # xs) = responses xs" "responses (Out_Event u (Agent_Response s) # xs) = (u, s) # responses xs" "responses (Out_Event u (Agent_Stats a b c) # xs) = responses xs"
  "requests_out (Out_Feature d # zs) = requests_out zs" "requests_out (Out_Event u (Handler_Req n ts i q) # zs) = (n, ts, i, q) # requests_out zs"
  by (simp_all add: responses_def requests_out_def List.map_filter_def)

lemma told_on_simps [simp]: "told_on n [] = []" "told_on n (xs @ ys) = told_on n xs @ told_on n ys" "told_on n [(m, u, s)] = (if m = n then [(u, s)] else [])"
  by (simp_all add: told_on_def)

text \<open>Request \<open>i\<close> of node \<open>n\<close> was made by actor \<open>u\<close>; a message as it was asked for on node \<open>n\<close>.\<close>

definition asked_by :: "(nat \<times> nat \<times> 'u \<times> nat \<times> 'q) list \<Rightarrow> nat \<Rightarrow> nat \<Rightarrow> 'u \<Rightarrow> bool" where
  "asked_by L n i u \<longleftrightarrow> (\<exists>ts q. (n, i, u, ts, q) \<in> set L)"

definition asked_msg :: "(nat \<times> nat \<times> 'u \<times> nat \<times> 'q) list \<Rightarrow> nat \<Rightarrow> 'q connector_request \<Rightarrow> bool" where
  "asked_msg L n m \<longleftrightarrow> (\<exists>u q. cq_request m = Some q \<and> (n, cq_req_id m, u, cq_ts m, q) \<in> set L)"

text \<open>The queue of node \<open>n\<close>: what waits or flies is what was asked for, under different ids.\<close>

definition queue_ok :: "(nat \<times> nat \<times> 'u \<times> nat \<times> 'q) list \<Rightarrow> nat \<Rightarrow> 'q connector_request message_queue \<Rightarrow> bool" where
  "queue_ok L n q \<longleftrightarrow> mq_wf cq_req_id MAX_INFLIGHT q \<and> distinct (map cq_req_id (mq_queue q)) \<and> (\<forall>m\<in>set (mq_queue q). im_get (mq_inflight q) (cq_req_id m) = None) \<and>
     (\<forall>m\<in>set (mq_queue q) \<union> snd ` set (mq_inflight q). asked_msg L n m)"

text \<open>The answers told on node \<open>n\<close> or about to be, each to the actor of a request of its own.\<close>

definition answers_ok :: "(nat \<times> nat \<times> 'u \<times> nat \<times> 'q) list \<Rightarrow> (nat \<times> nat \<times> 's) list \<Rightarrow> nat \<Rightarrow> nat set \<Rightarrow> ('u \<times> 's) list \<Rightarrow> bool" where
  "answers_ok L A n open_ids rs \<longleftrightarrow> (\<exists>is. distinct is \<and> set is \<inter> open_ids = {} \<and>
     list_all2 (\<lambda>i (u, s). asked_by L n i u \<and> (n, i, s) \<in> set A) is rs)"

definition agent_ok :: "(nat \<times> nat \<times> 'u \<times> nat \<times> 'q) list \<Rightarrow> (nat \<times> nat \<times> 's) list \<Rightarrow> nat \<Rightarrow> ('u \<times> 's) list \<Rightarrow> ('u, 'q, 's, 'b) connector_agent \<Rightarrow> bool" where
  "agent_ok L A n told a \<longleftrightarrow> ca_req_id_seed a \<le> length L \<and> (\<forall>i u. asked_by L n i u \<longrightarrow> i < ca_req_id_seed a) \<and> queue_ok L n (ca_msg_queue a) \<and>
     im_wf (ca_req_data a) \<and> (\<forall>i u. im_get (ca_req_data a) i = Some u \<longrightarrow> asked_by L n i u) \<and>
     answers_ok L A n (fst ` set (ca_req_data a)) (told @ responses (ca_queue a)) \<and>
     (\<forall>p r f b. Out_Feature (Data_Send_Rule p r f b) \<notin> set (ca_queue a))"

definition asked_keys :: "(nat \<times> nat \<times> 'u \<times> nat \<times> 'q) list \<Rightarrow> req_uuid list" where
  "asked_keys L = map (\<lambda>(n, i, u, ts, q). (n, ts, i)) L"

definition handed_ok :: "(nat \<times> nat \<times> 'u \<times> nat \<times> 'q) list \<Rightarrow> nat \<times> nat \<times> nat \<times> 'q \<Rightarrow> bool" where
  "handed_ok L = (\<lambda>(n, ts, i, q). \<exists>u. (n, i, u, ts, q) \<in> set L)"

text \<open>The flag \<open>few\<close> says that the run makes no more requests than the cache has places: only then does the
  cache know all requests that were handed over.\<close>

definition handler_ok :: "bool \<Rightarrow> ('c \<Rightarrow> req_uuid set) \<Rightarrow> ('s connector_response \<Rightarrow> 'b) \<Rightarrow> (nat \<times> nat \<times> 'u \<times> nat \<times> 'q) list \<Rightarrow> (nat \<times> nat \<times> 's) list \<Rightarrow> (nat \<times> nat \<times> nat \<times> 'q) list \<Rightarrow> ('u, 'q, 'b, 'c) connector_handler \<Rightarrow> bool" where
  "handler_ok few keys enc L A handed h \<longleftrightarrow>
     (few \<longrightarrow> keys (ch_lru h) \<subseteq> set (asked_keys L) \<and> distinct (map (\<lambda>(n, ts, i, q). (n, ts, i)) (handed @ requests_out (ch_queue h))) \<and>
        (\<lambda>(n, ts, i, q). (n, ts, i)) ` set (handed @ requests_out (ch_queue h)) \<subseteq> keys (ch_lru h)) \<and>
     (\<forall>x\<in>set (handed @ requests_out (ch_queue h)). handed_ok L x) \<and>
     (\<forall>p n f b. Out_Feature (Data_Send_Rule p (To_Node n) f b) \<in> set (ch_queue h) \<longrightarrow> (\<exists>i s. b = enc \<lparr>cp_req_id = i, cp_response = Some s\<rparr> \<and> (n, i, s) \<in> set A))"

definition cn_ok :: "bool \<Rightarrow> ('c \<Rightarrow> req_uuid set) \<Rightarrow> ('q, 's, 'b, 'c) connector_env \<Rightarrow> ('u, 'q, 's, 'b, 'c) connector_net \<Rightarrow> bool" where
  "cn_ok few keys e st \<longleftrightarrow> distinct (map (\<lambda>(n, i, u, ts, q). (n, i)) (cn_asked st)) \<and>
     (\<forall>n. agent_ok (cn_asked st) (cn_answered st) n (told_on n (cn_told st)) (cn_agents st n)) \<and>
     handler_ok few keys (enc_res e) (cn_asked st) (cn_answered st) (cn_handed st) (cn_handler st) \<and>
     (\<forall>(source, b)\<in>set (cn_to_handler st). \<exists>n m. source = Some n \<and> b = enc_req e m \<and> asked_msg (cn_asked st) n m) \<and>
     (\<forall>(n, b)\<in>set (cn_to_agent st). \<exists>i s. b = enc_res e \<lparr>cp_req_id = i, cp_response = Some s\<rparr> \<and> (n, i, s) \<in> set (cn_answered st))"

lemma asked_by_append [simp]: "asked_by [] n i u \<longleftrightarrow> False" "asked_by (L @ L') n i u \<longleftrightarrow> asked_by L n i u \<or> asked_by L' n i u" "asked_by [(m, j, v, ts, q)] n i u \<longleftrightarrow> m = n \<and> j = i \<and> v = u"
  by (auto simp: asked_by_def)

lemma cn_ok_new: "keys lru = {} \<Longrightarrow> cn_ok few keys e (cn_new lru)"
  by (auto simp: cn_ok_def cn_new_def agent_ok_def handler_ok_def ca_new_def ch_new_def queue_ok_def answers_ok_def mq_default_def mq_wf_def times_wf_def)

section \<open>Growing logs\<close>

lemma asked_msg_mono: "asked_msg L n m \<Longrightarrow> set L \<subseteq> set L' \<Longrightarrow> asked_msg L' n m"
  by (auto simp: asked_msg_def)

lemma asked_by_mono: "asked_by L n i u \<Longrightarrow> set L \<subseteq> set L' \<Longrightarrow> asked_by L' n i u"
  by (auto simp: asked_by_def)

lemma asked_msg_by: "asked_msg L n m \<Longrightarrow> \<exists>u. asked_by L n (cq_req_id m) u"
  by (auto simp: asked_msg_def asked_by_def)

lemma queue_ok_mono: "queue_ok L n q \<Longrightarrow> set L \<subseteq> set L' \<Longrightarrow> queue_ok L' n q"
  by (auto simp: queue_ok_def intro: asked_msg_mono)

lemma answers_ok_mono:
  assumes "answers_ok L A n J rs" "set L \<subseteq> set L'" "set A \<subseteq> set A'" "J' \<subseteq> J" shows "answers_ok L' A' n J' rs"
proof -
  obtain "is" where "distinct is" "set is \<inter> J = {}" "list_all2 (\<lambda>i (u, s). asked_by L n i u \<and> (n, i, s) \<in> set A) is rs"
    using assms(1) by (auto simp: answers_ok_def)
  moreover from this(3) have "list_all2 (\<lambda>i (u, s). asked_by L' n i u \<and> (n, i, s) \<in> set A') is rs"
    by (rule list_all2_mono) (auto intro: asked_by_mono [OF _ assms(2)] subsetD [OF assms(3)])
  ultimately show ?thesis using assms(4) unfolding answers_ok_def by blast
qed

lemma answers_ok_open:
  assumes "answers_ok L A n J rs" "\<And>u. \<not> asked_by L n i u" shows "answers_ok L A n (insert i J) rs"
proof -
  obtain "is" where "is": "distinct is" "set is \<inter> J = {}" "list_all2 (\<lambda>i (u, s). asked_by L n i u \<and> (n, i, s) \<in> set A) is rs"
    using assms(1) by (auto simp: answers_ok_def)
  have "\<exists>u. asked_by L n j u" if "j \<in> set is" for j using "is"(3) that by (induction rule: list_all2_induct) auto
  then have "i \<notin> set is" using assms(2) by blast
  then show ?thesis using "is" unfolding answers_ok_def by blast
qed

lemma answers_ok_told:
  assumes "answers_ok L A n J rs" "i \<in> J" "asked_by L n i u" "(n, i, s) \<in> set A" shows "answers_ok L A n (J - {i}) (rs @ [(u, s)])"
proof -
  obtain "is" where "is": "distinct is" "set is \<inter> J = {}" "list_all2 (\<lambda>i (u, s). asked_by L n i u \<and> (n, i, s) \<in> set A) is rs"
    using assms(1) by (auto simp: answers_ok_def)
  have "distinct (is @ [i])" "set (is @ [i]) \<inter> (J - {i}) = {}" using "is"(1,2) assms(2) by auto
  moreover have "list_all2 (\<lambda>i (u, s). asked_by L n i u \<and> (n, i, s) \<in> set A) (is @ [i]) (rs @ [(u, s)])"
    using "is"(3) assms(3,4) by (intro list_all2_appendI) auto
  ultimately show ?thesis unfolding answers_ok_def by blast
qed

section \<open>Steps of the agents\<close>

lemma agent_ok_other:
  assumes "agent_ok L A n told a" "m \<noteq> n" shows "agent_ok (L @ [(m, x)]) A n told a"
  using assms by (cases x) (auto simp: agent_ok_def intro: queue_ok_mono answers_ok_mono)

lemma agent_ok_answered: "agent_ok L A n told a \<Longrightarrow> agent_ok L (A @ [y]) n told a"
  by (auto simp: agent_ok_def intro: answers_ok_mono)

lemma inflight_msg:
  assumes "mq_wf mid N q" "im_get (mq_inflight q) i = Some m" shows "mid m = i" "m \<in> snd ` set (mq_inflight q)"
proof -
  have "im_wf (mq_inflight q)" using assms(1) by (simp add: mq_wf_def)
  then have "(i, m) \<in> set (mq_inflight q)" using assms(2) im_get_eq_Some by metis
  then show "m \<in> snd ` set (mq_inflight q)" by (rule rev_image_eqI) simp
  show "mid m = i" using assms by (simp add: mq_wf_def)
qed

lemma agent_ok_ask:
  assumes ok: "agent_ok L A n told a" and small: "Suc (length L) < 2 ^ 64"
  shows "agent_ok (L @ [(n, ca_req_id_seed a, u, ts, q)]) A n told (ca_on_control u (Agent_Request ts q) a)"
proof -
  let ?i = "ca_req_id_seed a" and ?L = "L @ [(n, ca_req_id_seed a, u, ts, q)]"
  have fresh: "\<not> asked_by L n ?i u'" for u' using ok by (auto simp: agent_ok_def)
  have new: "cq_req_id m \<noteq> ?i" if "asked_msg L n m" for m using asked_msg_by [OF that] fresh by auto
  have mq: "queue_ok L n (ca_msg_queue a)" using ok by (simp add: agent_ok_def)
  then have "\<forall>m\<in>set (mq_queue (ca_msg_queue a)) \<union> snd ` set (mq_inflight (ca_msg_queue a)). cq_req_id m \<noteq> ?i" using new by (auto simp: queue_ok_def)
  moreover have "im_get (mq_inflight (ca_msg_queue a)) ?i = None"
  proof (rule ccontr)
    assume "im_get (mq_inflight (ca_msg_queue a)) ?i \<noteq> None"
    then obtain m where m: "im_get (mq_inflight (ca_msg_queue a)) ?i = Some m" by auto
    then have "cq_req_id m = ?i" "m \<in> snd ` set (mq_inflight (ca_msg_queue a))" using mq inflight_msg [OF _ m] by (auto simp: queue_ok_def)
    then show False using mq new [of m] unfolding queue_ok_def by blast
  qed
  moreover have "asked_msg ?L n \<lparr>cq_req_id = ?i, cq_ts = ts, cq_request = Some q\<rparr>" by (auto simp: asked_msg_def)
  moreover have "queue_ok ?L n (ca_msg_queue a)" using mq by (rule queue_ok_mono) auto
  ultimately have push: "queue_ok ?L n (mq_push \<lparr>cq_req_id = ?i, cq_ts = ts, cq_request = Some q\<rparr> (ca_msg_queue a))"
    by (auto simp: queue_ok_def mq_push_def mq_wf_def)
  have "answers_ok L A n (fst ` set (ca_req_data a)) (told @ responses (ca_queue a))" using ok by (simp add: agent_ok_def)
  from answers_ok_open [OF this fresh] have answers: "answers_ok ?L A n (insert ?i (fst ` set (ca_req_data a))) (told @ responses (ca_queue a))"
    by (rule answers_ok_mono) auto
  have "?i \<le> length L" using ok by (simp add: agent_ok_def)
  then have "u64_add ?i 1 = Suc ?i" using small by (simp add: u64_add_def)
  moreover have "i < Suc ?i" if "asked_by L n i v" for i v using that ok by (auto simp: agent_ok_def intro: less_SucI)
  ultimately show ?thesis using ok push answers
    by (simp add: agent_ok_def ca_on_control_def Let_def im_upd im_keys_insert)
qed

lemma queue_ok_ack: assumes "queue_ok L n q" shows "queue_ok L n (mq_on_ack i q)"
proof (cases "im_get (mq_inflight q) i")
  case (Some msg)
  have im: "im_wf (mq_inflight q)" using assms by (simp add: queue_ok_def mq_wf_def)
  have sub: "set (im_swap_remove i (mq_inflight q)) \<subseteq> set (mq_inflight q)"
    using im im_wf_swap_remove [OF im, of i] by (auto simp flip: im_get_eq_Some simp: im_get_swap_remove split: if_splits)
  have "length (im_swap_remove i (mq_inflight q)) \<le> length (mq_inflight q)" using arg_cong [OF mset_swap_remove [OF im Some], of size] by simp
  then have "mq_wf cq_req_id MAX_INFLIGHT (mq_on_ack i q)" using assms Some
    by (auto simp: queue_ok_def mq_wf_def mq_on_ack_def im_contains_def list_upd im_keys_swap_remove [OF im] split: if_splits)
  then show ?thesis using assms sub im Some by (auto simp: queue_ok_def mq_on_ack_def im_contains_def im_get_swap_remove)
qed (use assms in \<open>simp add: mq_on_ack_def im_contains_def\<close>)

lemma agent_ok_response:
  assumes ok: "agent_ok L A n told a" and "(n, i, s) \<in> set A"
  shows "agent_ok L A n told (ca_on_response \<lparr>cp_req_id = i, cp_response = Some s\<rparr> a)"
proof (cases "im_get (ca_req_data a) i")
  case None
  then show ?thesis using ok by (simp add: ca_on_response_def)
next
  case (Some u)
  have wf: "im_wf (ca_req_data a)" using ok by (simp add: agent_ok_def)
  have L: "asked_by L n i u" using ok Some by (simp add: agent_ok_def)
  have "i \<in> fst ` set (ca_req_data a)" using Some by (rule im_get_Some_key)
  moreover have "answers_ok L A n (fst ` set (ca_req_data a)) (told @ responses (ca_queue a))" using ok by (simp add: agent_ok_def)
  ultimately have "answers_ok L A n (fst ` set (ca_req_data a) - {i}) ((told @ responses (ca_queue a)) @ [(u, s)])" using L assms(2) by (intro answers_ok_told)
  moreover have "queue_ok L n (mq_on_ack i (ca_msg_queue a))" by (rule queue_ok_ack) (use ok in \<open>simp add: agent_ok_def\<close>)
  moreover have "ca_on_response \<lparr>cp_req_id = i, cp_response = Some s\<rparr> a = a\<lparr>ca_req_data := im_swap_remove i (ca_req_data a),
      ca_msg_queue := mq_on_ack i (ca_msg_queue a), ca_queue := ca_queue a @ [Out_Event u (Agent_Response s)]\<rparr>" by (simp add: ca_on_response_def Some Let_def)
  moreover have "fst ` set (im_swap_remove i (ca_req_data a)) = fst ` set (ca_req_data a) - {i}" "im_get (im_swap_remove i (ca_req_data a)) = (im_get (ca_req_data a))(i := None)"
    "im_wf (im_swap_remove i (ca_req_data a))" using wf by (simp_all add: im_keys_swap_remove im_upd)
  ultimately show ?thesis using ok by (simp add: agent_ok_def)
qed

lemma agent_ok_pop:
  assumes ok: "agent_ok L A n (told_on n T) a"
  shows "\<exists>a' out. ca_pop_output2 enc now a = Inr (a', out) \<and>
     (case out of None \<Rightarrow> agent_ok L A n (told_on n T) a'
      | Some (Out_Event u (Agent_Response s)) \<Rightarrow> agent_ok L A n (told_on n (T @ [(n, u, s)])) a'
      | Some (Out_Feature (Data_Send_Rule _ _ f b)) \<Rightarrow> agent_ok L A n (told_on n T) a' \<and> f \<and> (\<exists>m. b = enc m \<and> asked_msg L n m)
      | _ \<Rightarrow> agent_ok L A n (told_on n T) a')"
proof (cases "ca_queue a")
  case (Cons x xs)
  then have "ca_pop_output2 enc now a = Inr (a\<lparr>ca_queue := xs\<rparr>, Some x)" by (simp add: ca_pop_output2_def)
  moreover have "case x of Out_Event u (Agent_Response s) \<Rightarrow> agent_ok L A n (told_on n (T @ [(n, u, s)])) (a\<lparr>ca_queue := xs\<rparr>)
      | Out_Feature (Data_Send_Rule _ _ f b) \<Rightarrow> False | _ \<Rightarrow> agent_ok L A n (told_on n T) (a\<lparr>ca_queue := xs\<rparr>)"
  proof (cases x)
    case (Out_Feature d)
    have "Out_Feature d \<in> set (ca_queue a)" using Cons Out_Feature by simp
    then have "d \<noteq> Data_Send_Rule p r f b" for p r f b using ok unfolding agent_ok_def by blast
    then show ?thesis using ok Cons Out_Feature by (cases d) (auto simp: agent_ok_def)
  next
    case (Out_Event u ev)
    then show ?thesis using ok Cons by (cases ev) (auto simp: agent_ok_def)
  qed
  ultimately show ?thesis by (auto split: service_output.splits data_control.splits agent_event.splits)
next
  case Nil
  let ?q = "ca_msg_queue a"
  have q: "queue_ok L n ?q" using ok by (simp add: agent_ok_def)
  then have wf: "mq_wf cq_req_id MAX_INFLIGHT ?q" "\<And>m. m \<in> set (mq_queue ?q) \<Longrightarrow> im_get (mq_inflight ?q) (cq_req_id m) = None" by (auto simp: queue_ok_def)
  from mq_pop_ok [OF wf, of now] obtain q' r where pop: "mq_pop cq_req_id MAX_INFLIGHT now ?q = Inr (q', r)" "mq_wf cq_req_id MAX_INFLIGHT q'"
    and or: "mq_queue q' = mq_queue ?q \<and> mq_inflight q' = mq_inflight ?q \<and> (\<forall>msg. r = Some msg \<longrightarrow> msg \<in> snd ` set (mq_inflight ?q)) \<or>
      (\<exists>msg. mq_queue ?q = msg # mq_queue q' \<and> mq_inflight q' = im_insert (cq_req_id msg) msg (mq_inflight ?q) \<and> r = Some msg)" by blast
  have run: "ca_pop_output2 enc now a = Inr (a\<lparr>ca_msg_queue := q'\<rparr>, map_option (\<lambda>m. Out_Feature (Data_Send_Rule CONNECTOR_DATA_PORT (To_Service HANDLER_SERVICE_ID) True (enc m))) r)"
    using Nil pop(1) by (simp add: ca_pop_output2_def)
  from or have "queue_ok L n q' \<and> (\<forall>m. r = Some m \<longrightarrow> asked_msg L n m)"
  proof
    assume "mq_queue q' = mq_queue ?q \<and> mq_inflight q' = mq_inflight ?q \<and> (\<forall>msg. r = Some msg \<longrightarrow> msg \<in> snd ` set (mq_inflight ?q))"
    then show ?thesis using q pop(2) by (auto simp: queue_ok_def)
  next
    assume "\<exists>msg. mq_queue ?q = msg # mq_queue q' \<and> mq_inflight q' = im_insert (cq_req_id msg) msg (mq_inflight ?q) \<and> r = Some msg"
    then obtain msg where msg: "mq_queue ?q = msg # mq_queue q'" "mq_inflight q' = im_insert (cq_req_id msg) msg (mq_inflight ?q)" "r = Some msg" by blast
    then have "mq_inflight q' = mq_inflight ?q @ [(cq_req_id msg, msg)]" using set_im_insert_fresh [OF wf(2) [of msg]] by simp
    moreover have "im_get (mq_inflight q') (cq_req_id m) = None" if "m \<in> set (mq_queue q')" for m
    proof -
      have "cq_req_id m \<noteq> cq_req_id msg" using that q msg(1) by (auto simp: queue_ok_def image_iff)
      then show ?thesis using that q msg by (simp add: queue_ok_def im_get_insert)
    qed
    ultimately show ?thesis using q pop(2) msg by (auto simp: queue_ok_def)
  qed
  then have "agent_ok L A n (told_on n T) (a\<lparr>ca_msg_queue := q'\<rparr>)" "\<forall>m. r = Some m \<longrightarrow> asked_msg L n m" using ok by (simp_all add: agent_ok_def)
  then show ?thesis using run by (cases r) auto
qed

section \<open>Steps of the handler\<close>

lemma handed_ok_mono: "handed_ok L x \<Longrightarrow> set L \<subseteq> set L' \<Longrightarrow> handed_ok L' x"
  by (auto simp: handed_ok_def)

lemma handler_ok_mono:
  assumes ok: "handler_ok few keys enc L A handed h" and L: "set L \<subseteq> set L'" and A: "set A \<subseteq> set A'"
  shows "handler_ok few keys enc L' A' handed h"
  unfolding handler_ok_def
proof (intro conjI)
  have "set (asked_keys L) \<subseteq> set (asked_keys L')" using image_mono [OF L] by (simp add: asked_keys_def)
  then show "few \<longrightarrow> keys (ch_lru h) \<subseteq> set (asked_keys L') \<and> distinct (map (\<lambda>(n, ts, i, q). (n, ts, i)) (handed @ requests_out (ch_queue h))) \<and>
      (\<lambda>(n, ts, i, q). (n, ts, i)) ` set (handed @ requests_out (ch_queue h)) \<subseteq> keys (ch_lru h)" using ok unfolding handler_ok_def by blast
  show "\<forall>x\<in>set (handed @ requests_out (ch_queue h)). handed_ok L' x"
    using ok handed_ok_mono [OF _ L] unfolding handler_ok_def by blast
  show "\<forall>p n f b. Out_Feature (Data_Send_Rule p (To_Node n) f b) \<in> set (ch_queue h) \<longrightarrow> (\<exists>i s. b = enc \<lparr>cp_req_id = i, cp_response = Some s\<rparr> \<and> (n, i, s) \<in> set A')"
  proof (intro allI impI)
    fix p n f b assume "Out_Feature (Data_Send_Rule p (To_Node n) f b) \<in> set (ch_queue h)"
    then obtain i s where "b = enc \<lparr>cp_req_id = i, cp_response = Some s\<rparr>" "(n, i, s) \<in> set A" using ok unfolding handler_ok_def by blast
    then show "\<exists>i s. b = enc \<lparr>cp_req_id = i, cp_response = Some s\<rparr> \<and> (n, i, s) \<in> set A'" using A by blast
  qed
qed

lemma lru_okD:
  assumes "lru_ok put keys cap" "put k c = (c', seen)"
  shows "seen \<longleftrightarrow> k \<in> keys c" "card (insert k (keys c)) \<le> cap \<Longrightarrow> keys c' = insert k (keys c)"
  using assms unfolding lru_ok_def by (metis snd_conv, metis fst_conv)

lemma handler_ok_request:
  assumes ok: "handler_ok few keys enc L A handed h" and lru: "lru_ok put keys cap" and small: "few \<Longrightarrow> length L \<le> cap" and msg: "asked_msg L n m"
  shows "handler_ok few keys enc L A handed (ch_on_request put (Some n) m h)"
proof -
  let ?k = "(n, cq_ts m, cq_req_id m)"
  obtain c seen where put: "put ?k (ch_lru h) = (c, seen)" by (cases "put ?k (ch_lru h)")
  obtain u q where q: "cq_request m = Some q" "(n, cq_req_id m, u, cq_ts m, q) \<in> set L" using msg by (auto simp: asked_msg_def)
  then have k: "?k \<in> set (asked_keys L)" by (force simp: asked_keys_def)
  have seen: "seen \<longleftrightarrow> ?k \<in> keys (ch_lru h)" using lru_okD(1) [OF lru put] .
  have c: "keys c = insert ?k (keys (ch_lru h))" if few
  proof -
    have "card (insert ?k (keys (ch_lru h))) \<le> card (set (asked_keys L))" using ok k that by (intro card_mono) (auto simp: handler_ok_def)
    also have "\<dots> \<le> cap" using small [OF that] card_length [of "asked_keys L"] by (simp add: asked_keys_def)
    finally show ?thesis using lru_okD(2) [OF lru put] by blast
  qed
  have base: "handler_ok few keys enc L A handed (h\<lparr>ch_lru := c\<rparr>)" using ok k c unfolding handler_ok_def by auto
  show ?thesis
  proof (cases "seen \<or> ch_subscriber h = None")
    case True
    then show ?thesis using base q(1) by (auto simp: ch_on_request_def put Let_def)
  next
    case False
    then obtain actor where actor: "ch_subscriber h = Some actor" by auto
    then have eq: "ch_on_request put (Some n) m h = h\<lparr>ch_lru := c, ch_queue := ch_queue h @ [Out_Event actor (Handler_Req n (cq_ts m) (cq_req_id m) q)]\<rparr>"
      using False q(1) by (simp add: ch_on_request_def put)
    have "few \<Longrightarrow> ?k \<notin> (\<lambda>(n, ts, i, q). (n, ts, i)) ` set (handed @ requests_out (ch_queue h))"
      using ok False seen unfolding handler_ok_def by blast
    moreover have "handed_ok L (n, cq_ts m, cq_req_id m, q)" using q(2) by (auto simp: handed_ok_def)
    ultimately show ?thesis unfolding eq using base c by (simp add: handler_ok_def) blast
  qed
qed

lemma handler_ok_res: "handler_ok few keys enc L A handed h \<Longrightarrow> (n, i, s) \<in> set A \<Longrightarrow> handler_ok few keys enc L A handed (ch_on_control enc u (Handler_Res n i s) h)"
  by (auto simp: handler_ok_def ch_on_control_def)

lemma handler_ok_pop:
  assumes ok: "handler_ok few keys enc L A handed h" and pop: "ch_pop_output2 h = (h', out)"
  shows "case out of Some (Out_Event _ (Handler_Req n ts i q)) \<Rightarrow> handler_ok few keys enc L A (handed @ [(n, ts, i, q)]) h'
     | Some (Out_Feature (Data_Send_Rule _ (To_Node n) _ b)) \<Rightarrow> handler_ok few keys enc L A handed h' \<and> (\<exists>i s. b = enc \<lparr>cp_req_id = i, cp_response = Some s\<rparr> \<and> (n, i, s) \<in> set A)
     | _ \<Rightarrow> handler_ok few keys enc L A handed h'"
proof (cases "ch_queue h")
  case Nil
  then show ?thesis using ok pop by (simp add: ch_pop_output2_def)
next
  case (Cons x xs)
  then have h': "h' = h\<lparr>ch_queue := xs\<rparr>" "out = Some x" using pop by (auto simp: ch_pop_output2_def)
  have send: "\<exists>i s. b = enc \<lparr>cp_req_id = i, cp_response = Some s\<rparr> \<and> (n, i, s) \<in> set A" if "Out_Feature (Data_Send_Rule p (To_Node n) f b) \<in> set (x # xs)" for p n f b
    using ok that unfolding handler_ok_def Cons by blast
  show ?thesis
  proof (cases x)
    case (Out_Feature d)
    then have "handler_ok few keys enc L A handed h'" using ok Cons h' by (auto simp: handler_ok_def)
    moreover have "\<exists>i s. b = enc \<lparr>cp_req_id = i, cp_response = Some s\<rparr> \<and> (n, i, s) \<in> set A" if "d = Data_Send_Rule p (To_Node n) f b" for p n f b
      by (rule send [of p n f b]) (simp add: Out_Feature that)
    ultimately show ?thesis using h'(2) Out_Feature by (simp split: data_control.split route_rule.split)
  next
    case (Out_Event u ev)
    then show ?thesis using ok Cons h' by (cases ev) (auto simp: handler_ok_def)
  qed
qed

section \<open>Runs\<close>

lemma cn_ok_agent:
  assumes "cn_ok few keys e st" "agent_ok (cn_asked st) (cn_answered st) n (told_on n (cn_told st)) a"
  shows "cn_ok few keys e (st\<lparr>cn_agents := (cn_agents st)(n := a)\<rparr>)"
  using assms by (simp add: cn_ok_def)

lemma cn_ok_ask:
  assumes ok: "cn_ok few keys e st" and small: "Suc (length (cn_asked st)) < 2 ^ 64"
  shows "\<exists>st'. cn_step e (Cn_Ask n u ts q) st = Inr st' \<and> cn_ok few keys e st'"
proof -
  let ?x = "(n, ca_req_id_seed (cn_agents st n), u, ts, q)"
  let ?L = "cn_asked st @ [?x]"
  have new: "agent_ok ?L (cn_answered st) n (told_on n (cn_told st)) (ca_on_control u (Agent_Request ts q) (cn_agents st n))"
    by (intro agent_ok_ask) (use ok small in \<open>simp_all add: cn_ok_def\<close>)
  have others: "agent_ok ?L (cn_answered st) m (told_on m (cn_told st)) (cn_agents st m)" if "m \<noteq> n" for m
    by (intro agent_ok_other) (use ok that in \<open>simp_all add: cn_ok_def\<close>)
  have "handler_ok few keys (enc_res e) ?L (cn_answered st) (cn_handed st) (cn_handler st)" using ok by (auto simp: cn_ok_def intro: handler_ok_mono)
  moreover have "\<forall>(source, b)\<in>set (cn_to_handler st). \<exists>n m. source = Some n \<and> b = enc_req e m \<and> asked_msg ?L n m"
    using ok asked_msg_mono [of "cn_asked st" _ _ ?L] unfolding cn_ok_def by fastforce
  moreover have "(n, ca_req_id_seed (cn_agents st n)) \<notin> (\<lambda>(n, i, u, ts, q). (n, i)) ` set (cn_asked st)"
  proof
    assume "(n, ca_req_id_seed (cn_agents st n)) \<in> (\<lambda>(n, i, u, ts, q). (n, i)) ` set (cn_asked st)"
    then obtain v where v: "asked_by (cn_asked st) n (ca_req_id_seed (cn_agents st n)) v" by (auto simp: asked_by_def)
    have "agent_ok (cn_asked st) (cn_answered st) n (told_on n (cn_told st)) (cn_agents st n)" using ok by (simp add: cn_ok_def)
    then show False using v unfolding agent_ok_def by blast
  qed
  ultimately have "cn_ok few keys e (st\<lparr>cn_asked := ?L, cn_agents := (cn_agents st)(n := ca_on_control u (Agent_Request ts q) (cn_agents st n))\<rparr>)"
    using ok new others by (simp add: cn_ok_def)
  then show ?thesis by (simp add: cn_step_def cn_agent_def ca_on_input_def)
qed

lemma cn_ok_agent_pop:
  assumes ok: "cn_ok few keys e st"
  shows "\<exists>st'. cn_step e (Cn_Agent_Pop n now) st = Inr st' \<and> cn_ok few keys e st' \<and> cn_asked st' = cn_asked st"
proof -
  have "agent_ok (cn_asked st) (cn_answered st) n (told_on n (cn_told st)) (cn_agents st n)" using ok by (simp add: cn_ok_def)
  from agent_ok_pop [OF this, of "enc_req e" now] obtain a out where pop: "ca_pop_output2 (enc_req e) now (cn_agents st n) = Inr (a, out)"
    and out: "case out of None \<Rightarrow> agent_ok (cn_asked st) (cn_answered st) n (told_on n (cn_told st)) a
      | Some (Out_Event u (Agent_Response s)) \<Rightarrow> agent_ok (cn_asked st) (cn_answered st) n (told_on n (cn_told st @ [(n, u, s)])) a
      | Some (Out_Feature (Data_Send_Rule _ _ f b)) \<Rightarrow> agent_ok (cn_asked st) (cn_answered st) n (told_on n (cn_told st)) a \<and> f \<and> (\<exists>m. b = enc_req e m \<and> asked_msg (cn_asked st) n m)
      | _ \<Rightarrow> agent_ok (cn_asked st) (cn_answered st) n (told_on n (cn_told st)) a" by blast
  have "cn_ok few keys e (cn_route_agent n out (st\<lparr>cn_agents := (cn_agents st)(n := a)\<rparr>))"
    using ok out by (auto simp: cn_ok_def cn_route_agent_def split: option.splits service_output.splits data_control.splits agent_event.splits)
  moreover have "cn_asked (cn_route_agent n out (st\<lparr>cn_agents := (cn_agents st)(n := a)\<rparr>)) = cn_asked st"
    by (simp add: cn_route_agent_def split: option.split service_output.split data_control.split agent_event.split)
  ultimately show ?thesis using pop by (simp add: cn_step_def)
qed

lemma cn_ok_handler_pop:
  assumes ok: "cn_ok few keys e st"
  shows "\<exists>st'. cn_step e Cn_Handler_Pop st = Inr st' \<and> cn_ok few keys e st' \<and> cn_asked st' = cn_asked st"
proof -
  obtain h out where pop: "ch_pop_output2 (cn_handler st) = (h, out)" by (cases "ch_pop_output2 (cn_handler st)")
  have "handler_ok few keys (enc_res e) (cn_asked st) (cn_answered st) (cn_handed st) (cn_handler st)" using ok by (simp add: cn_ok_def)
  note h = handler_ok_pop [OF this pop]
  have "cn_ok few keys e (cn_route_handler out (st\<lparr>cn_handler := h\<rparr>))"
    using ok h by (auto simp: cn_ok_def cn_route_handler_def split: option.splits service_output.splits data_control.splits route_rule.splits handler_event.splits)
  moreover have "cn_asked (cn_route_handler out (st\<lparr>cn_handler := h\<rparr>)) = cn_asked st"
    by (simp add: cn_route_handler_def split: option.split service_output.split data_control.split route_rule.split handler_event.split)
  ultimately show ?thesis using pop by (simp add: cn_step_def)
qed

lemma cn_ok_deliver:
  assumes ok: "cn_ok few keys e st" and lib: "codec_ok e" "lru_ok (lru_put e) keys 10000" and small: "few \<Longrightarrow> length (cn_asked st) \<le> 10000"
  shows "\<exists>st'. cn_step e (Cn_Deliver k) st = Inr st' \<and> cn_ok few keys e st' \<and> cn_asked st' = cn_asked st"
proof (cases "k < length (cn_to_handler st)")
  case False
  then show ?thesis using ok by (simp add: cn_step_def)
next
  case True
  obtain source b where wire: "cn_to_handler st ! k = (source, b)" by (cases "cn_to_handler st ! k")
  then have "(source, b) \<in> set (cn_to_handler st)" using True nth_mem by metis
  then obtain n m where m: "source = Some n" "b = enc_req e m" "asked_msg (cn_asked st) n m" using ok unfolding cn_ok_def by blast
  have "handler_ok few keys (enc_res e) (cn_asked st) (cn_answered st) (cn_handed st) (cn_handler st)" using ok by (simp add: cn_ok_def)
  from handler_ok_request [OF this lib(2) small m(3)] have "cn_ok few keys e (st\<lparr>cn_handler := ch_on_request (lru_put e) (Some n) m (cn_handler st)\<rparr>)"
    using ok by (simp add: cn_ok_def)
  then show ?thesis using lib(1) True wire m by (simp add: cn_step_def cn_handle_def ch_on_input_def codec_ok_def)
qed

lemma cn_ok_return:
  assumes ok: "cn_ok few keys e st" and lib: "codec_ok e"
  shows "\<exists>st'. cn_step e (Cn_Return k) st = Inr st' \<and> cn_ok few keys e st' \<and> cn_asked st' = cn_asked st"
proof (cases "k < length (cn_to_agent st)")
  case False
  then show ?thesis using ok by (simp add: cn_step_def)
next
  case True
  obtain n b where wire: "cn_to_agent st ! k = (n, b)" by (cases "cn_to_agent st ! k")
  then have "(n, b) \<in> set (cn_to_agent st)" using True nth_mem by metis
  then obtain i s where r: "b = enc_res e \<lparr>cp_req_id = i, cp_response = Some s\<rparr>" "(n, i, s) \<in> set (cn_answered st)" using ok unfolding cn_ok_def by blast
  have "agent_ok (cn_asked st) (cn_answered st) n (told_on n (cn_told st)) (cn_agents st n)" using ok by (simp add: cn_ok_def)
  from cn_ok_agent [OF ok agent_ok_response [OF this r(2)]]
  show ?thesis using lib True wire r by (simp add: cn_step_def cn_agent_def ca_on_input_def codec_ok_def)
qed

lemma cn_ok_answer:
  assumes ok: "cn_ok few keys e st"
  shows "\<exists>st'. cn_step e (Cn_Answer u n i s) st = Inr st' \<and> cn_ok few keys e st' \<and> cn_asked st' = cn_asked st"
proof -
  let ?A = "cn_answered st @ [(n, i, s)]"
  have "handler_ok few keys (enc_res e) (cn_asked st) (cn_answered st) (cn_handed st) (cn_handler st)" using ok by (simp add: cn_ok_def)
  then have "handler_ok few keys (enc_res e) (cn_asked st) ?A (cn_handed st) (cn_handler st)" by (rule handler_ok_mono) auto
  then have "handler_ok few keys (enc_res e) (cn_asked st) ?A (cn_handed st) (ch_on_control (enc_res e) u (Handler_Res n i s) (cn_handler st))" by (rule handler_ok_res) simp
  moreover have "agent_ok (cn_asked st) ?A m (told_on m (cn_told st)) (cn_agents st m)" for m
    by (intro agent_ok_answered) (use ok in \<open>simp add: cn_ok_def\<close>)
  moreover have "\<forall>(n, b)\<in>set (cn_to_agent st). \<exists>i s. b = enc_res e \<lparr>cp_req_id = i, cp_response = Some s\<rparr> \<and> (n, i, s) \<in> set ?A"
    using ok unfolding cn_ok_def by fastforce
  ultimately have "cn_ok few keys e (st\<lparr>cn_answered := ?A, cn_handler := ch_on_control (enc_res e) u (Handler_Res n i s) (cn_handler st)\<rparr>)" using ok by (simp add: cn_ok_def)
  then show ?thesis by (simp add: cn_step_def cn_handle_def ch_on_input_def)
qed

lemma cn_ok_quiet:
  assumes ok: "cn_ok few keys e st" and "x \<in> {Cn_Agent_Sub n u, Cn_Tick n, Cn_Handler_Sub u}"
  shows "\<exists>st'. cn_step e x st = Inr st' \<and> cn_ok few keys e st' \<and> cn_asked st' = cn_asked st"
proof -
  have a: "agent_ok (cn_asked st) (cn_answered st) n (told_on n (cn_told st)) (cn_agents st n)" and h: "handler_ok few keys (enc_res e) (cn_asked st) (cn_answered st) (cn_handed st) (cn_handler st)"
    using ok by (simp_all add: cn_ok_def)
  have "agent_ok (cn_asked st) (cn_answered st) n (told_on n (cn_told st)) (ca_on_control u Agent_Sub (cn_agents st n))" using a by (simp add: agent_ok_def ca_on_control_def)
  moreover have "agent_ok (cn_asked st) (cn_answered st) n (told_on n (cn_told st)) (ca_on_shared_input Shared_Tick (cn_agents st n))"
    using a by (simp add: agent_ok_def ca_on_shared_input_def split: option.split)
  moreover have "handler_ok few keys (enc_res e) (cn_asked st) (cn_answered st) (cn_handed st) (ch_on_control (enc_res e) u Handler_Sub (cn_handler st))"
    using h by (simp add: handler_ok_def ch_on_control_def)
  ultimately show ?thesis using assms
    by (auto simp: cn_step_def cn_agent_def cn_handle_def ca_on_input_def ch_on_input_def intro: cn_ok_agent) (simp add: cn_ok_def)
qed

text \<open>The requests a run makes, and those of the log, without the ids the agents gave them.\<close>

definition cn_asks :: "('u, 'q, 's) cn_op list \<Rightarrow> (nat \<times> 'u \<times> nat \<times> 'q) list" where
  "cn_asks = List.map_filter (\<lambda>x. case x of Cn_Ask n u ts q \<Rightarrow> Some (n, u, ts, q) | _ \<Rightarrow> None)"

definition no_ids :: "(nat \<times> nat \<times> 'u \<times> nat \<times> 'q) list \<Rightarrow> (nat \<times> 'u \<times> nat \<times> 'q) list" where
  "no_ids = map (\<lambda>(n, i, u, ts, q). (n, u, ts, q))"

lemma cn_asks_simps [simp]: "cn_asks [] = []" "cn_asks (Cn_Ask n u ts q # xs) = (n, u, ts, q) # cn_asks xs"
  "(\<And>n u ts q. x \<noteq> Cn_Ask n u ts q) \<Longrightarrow> cn_asks (x # xs) = cn_asks xs"
  by (auto simp: cn_asks_def List.map_filter_def split: cn_op.split)

lemma cn_ok_step:
  assumes ok: "cn_ok few keys e st" and lib: "codec_ok e" "lru_ok (lru_put e) keys 10000"
    and small: "few \<Longrightarrow> length (cn_asked st) \<le> 10000" "Suc (length (cn_asked st)) < 2 ^ 64 \<or> cn_asks [x] = []"
  shows "\<exists>st'. cn_step e x st = Inr st' \<and> cn_ok few keys e st' \<and> no_ids (cn_asked st') = no_ids (cn_asked st) @ cn_asks [x]"
proof (cases x)
  case (Cn_Ask n u ts q)
  then show ?thesis using cn_ok_ask [OF ok, of n u ts q] small(2) by (auto simp: no_ids_def cn_step_def cn_agent_def)
next
  case (Cn_Agent_Sub n u) then show ?thesis using cn_ok_quiet [OF ok, of x n u] by auto
next
  case (Cn_Tick n) then show ?thesis using cn_ok_quiet [OF ok, of x n undefined] by auto
next
  case (Cn_Handler_Sub u) then show ?thesis using cn_ok_quiet [OF ok, of x undefined u] by auto
next
  case (Cn_Agent_Pop n now) then show ?thesis using cn_ok_agent_pop [OF ok, of n now] by auto
next
  case (Cn_Deliver k) then show ?thesis using cn_ok_deliver [OF ok lib small(1), of k] by auto
next
  case Cn_Handler_Pop then show ?thesis using cn_ok_handler_pop [OF ok] by auto
next
  case (Cn_Answer u n i s) then show ?thesis using cn_ok_answer [OF ok, of u n i s] by auto
next
  case (Cn_Return k) then show ?thesis using cn_ok_return [OF ok lib(1), of k] by auto
qed

lemma cn_ok_run:
  assumes "cn_ok few keys e st" "codec_ok e" "lru_ok (lru_put e) keys 10000" "length (cn_asked st) + length (cn_asks xs) < 2 ^ 64"
    and "few \<Longrightarrow> length (cn_asked st) + length (cn_asks xs) \<le> 10000"
  shows "\<exists>st'. rfold (cn_step e) xs st = Inr st' \<and> cn_ok few keys e st' \<and> no_ids (cn_asked st') = no_ids (cn_asked st) @ cn_asks xs"
  using assms(1,4,5)
proof (induction xs arbitrary: st)
  case (Cons x xs)
  have n: "cn_asks (x # xs) = cn_asks [x] @ cn_asks xs" by (simp add: cn_asks_def List.map_filter_def)
  have "Suc (length (cn_asked st)) < 2 ^ 64 \<or> cn_asks [x] = []" using Cons.prems(2) unfolding n by (cases "cn_asks [x]") simp_all
  moreover have "few \<Longrightarrow> length (cn_asked st) \<le> 10000" using Cons.prems(3) by simp
  ultimately obtain st' where st': "cn_step e x st = Inr st'" "cn_ok few keys e st'" "no_ids (cn_asked st') = no_ids (cn_asked st) @ cn_asks [x]"
    using cn_ok_step [OF Cons.prems(1) assms(2,3), of x] by blast
  have "length (cn_asked st') = length (cn_asked st) + length (cn_asks [x])" using arg_cong [OF st'(3), of length] by (simp add: no_ids_def)
  then have len: "length (cn_asked st') + length (cn_asks xs) = length (cn_asked st) + length (cn_asks (x # xs))" using n by simp
  from Cons.IH [OF st'(2)] show ?case using st' n len Cons.prems(2,3) by auto
qed simp

section \<open>Properties\<close>

text \<open>
  C6. However the network loses, repeats and reorders datagrams, and however many requests are made (fewer than \<open>2 ^ 64\<close>, the range
  of their ids), no run makes an agent or the handler panic; what is handed to the handler's subscriber was asked for, with the time and
  content it was made with; and every response an actor is told answers a request that this actor made on
  that node, is one the subscriber gave for it, and no request is answered twice. As long as no more than
  10000 requests are made, the capacity of the handler's cache, each request is handed to the subscriber at most once.
\<close>
theorem cn_at_most_once:
  assumes "codec_ok e" "lru_ok (lru_put e) keys 10000" "keys lru = {}" "length (cn_asks xs) < 2 ^ 64"
  shows "\<exists>st. rfold (cn_step e) xs (cn_new lru) = Inr st \<and> no_ids (cn_asked st) = cn_asks xs \<and> distinct (map (\<lambda>(n, i, u, ts, q). (n, i)) (cn_asked st)) \<and>
     (length (cn_asks xs) \<le> 10000 \<longrightarrow> distinct (map (\<lambda>(n, ts, i, q). (n, ts, i)) (cn_handed st))) \<and> (\<forall>(n, ts, i, q)\<in>set (cn_handed st). \<exists>u. (n, i, u, ts, q) \<in> set (cn_asked st)) \<and>
     (\<forall>n. \<exists>is. distinct is \<and> list_all2 (\<lambda>i (u, s). (\<exists>ts q. (n, i, u, ts, q) \<in> set (cn_asked st)) \<and> (n, i, s) \<in> set (cn_answered st)) is (told_on n (cn_told st)))"
proof -
  let ?few = "length (cn_asks xs) \<le> 10000"
  have len: "length (cn_asked (cn_new lru)) + length (cn_asks xs) = length (cn_asks xs)" by (simp add: cn_new_def)
  from cn_ok_run [OF cn_ok_new [of keys lru ?few e, OF assms(3)] assms(1,2), of xs] assms(4) obtain st
    where st: "rfold (cn_step e) xs (cn_new lru) = Inr st" "cn_ok ?few keys e st" "no_ids (cn_asked st) = cn_asks xs" unfolding len by (auto simp: cn_new_def no_ids_def)
  have h: "handler_ok ?few keys (enc_res e) (cn_asked st) (cn_answered st) (cn_handed st) (cn_handler st)" using st(2) by (simp add: cn_ok_def)
  have handed: "\<forall>(n, ts, i, q)\<in>set (cn_handed st). \<exists>u. (n, i, u, ts, q) \<in> set (cn_asked st)"
  proof -
    have "\<forall>x\<in>set (cn_handed st). handed_ok (cn_asked st) x" using h by (auto simp: handler_ok_def)
    then show ?thesis by (auto simp: handed_ok_def)
  qed
  have told: "\<exists>is. distinct is \<and> list_all2 (\<lambda>i (u, s). (\<exists>ts q. (n, i, u, ts, q) \<in> set (cn_asked st)) \<and> (n, i, s) \<in> set (cn_answered st)) is (told_on n (cn_told st))" for n
  proof -
    let ?P = "\<lambda>i (u, s). asked_by (cn_asked st) n i u \<and> (n, i, s) \<in> set (cn_answered st)" and ?T = "told_on n (cn_told st)"
    have "answers_ok (cn_asked st) (cn_answered st) n (fst ` set (ca_req_data (cn_agents st n))) (?T @ responses (ca_queue (cn_agents st n)))"
      using st(2) by (simp add: cn_ok_def agent_ok_def)
    then obtain "is" where "is": "distinct is" "list_all2 ?P is (?T @ responses (ca_queue (cn_agents st n)))" unfolding answers_ok_def by blast
    then have "list_all2 ?P (take (length ?T) is) ?T" using list_all2_takeI [OF "is"(2), of "length ?T"] by simp
    then show ?thesis using distinct_take [OF "is"(1)] unfolding asked_by_def by blast
  qed
  show ?thesis using st handed told h by (auto simp: cn_ok_def handler_ok_def)
qed

definition demo_lru :: "req_uuid \<Rightarrow> req_uuid list \<Rightarrow> req_uuid list \<times> bool" where
  "demo_lru k c = (take 10000 (k # remdups (removeAll k c)), k \<in> set c)"

definition demo_connector :: "(nat, nat, nat connector_request + nat connector_response, req_uuid list) connector_env" where
  "demo_connector = \<lparr>enc_req = Inl, dec_req = (\<lambda>b. case b of Inl m \<Rightarrow> Some m | Inr _ \<Rightarrow> None), enc_res = Inr, dec_res = (\<lambda>b. case b of Inl _ \<Rightarrow> None | Inr m \<Rightarrow> Some m), lru_put = demo_lru\<rparr>"

lemma demo_lru_ok: "lru_ok demo_lru set 10000"
proof -
  have "set (fst (demo_lru k c)) = insert k (set c)" if "card (insert k (set c)) \<le> 10000" for k c
  proof -
    have "length (remdups (removeAll k c)) = card (set c - {k})" by (simp add: length_remdups_card_conv)
    moreover have "card (insert k (set c)) = Suc (card (set c - {k}))" by (simp add: card.insert_remove)
    ultimately have "take 10000 (k # remdups (removeAll k c)) = k # remdups (removeAll k c)" using that by simp
    then show ?thesis by (auto simp: demo_lru_def)
  qed
  then show ?thesis by (simp add: lru_ok_def demo_lru_def)
qed

theorem cn_at_most_once_witness:
  "\<exists>st. rfold (cn_step demo_connector) [Cn_Handler_Sub 9, Cn_Ask 1 5 77 42, Cn_Agent_Pop 1 0, Cn_Agent_Pop 1 0, Cn_Deliver 0, Cn_Deliver 0, Cn_Handler_Pop, Cn_Handler_Pop, Cn_Answer 9 1 0 43, Cn_Handler_Pop, Cn_Return 0, Cn_Return 0, Cn_Agent_Pop 1 0] (cn_new []) = Inr st \<and>
     no_ids (cn_asked st) = [(1, 5::nat, 77, 42)] \<and> distinct (map (\<lambda>(n, ts, i, q). (n, ts, i)) (cn_handed st))"
proof -
  let ?xs = "[Cn_Handler_Sub 9, Cn_Ask 1 5 77 42, Cn_Agent_Pop 1 0, Cn_Agent_Pop 1 0, Cn_Deliver 0, Cn_Deliver 0, Cn_Handler_Pop, Cn_Handler_Pop, Cn_Answer 9 1 0 43, Cn_Handler_Pop, Cn_Return 0, Cn_Return 0, Cn_Agent_Pop 1 0]
    :: (nat, nat, nat) cn_op list"
  have p: "cn_asks ?xs = [(1, 5, 77, 42)]" by simp
  have "codec_ok demo_connector" by (simp add: codec_ok_def demo_connector_def)
  moreover have "lru_ok (lru_put demo_connector) set 10000" using demo_lru_ok by (simp add: demo_connector_def)
  moreover have "length (cn_asks ?xs) < 2 ^ 64" by simp
  moreover have "set [] = ({}::req_uuid set)" by simp
  ultimately show ?thesis using cn_at_most_once [of demo_connector set "[]" ?xs] unfolding p by auto
qed

text \<open>A request the handler has seen gets nothing from it when it is sent again: if the response to it was
  lost, or its subscriber gave none because storing the event failed, the agent goes on sending it
  every second and no answer will come.\<close>

lemma ch_repeat_ignored:
  assumes "lru_ok put keys cap" "(n, cq_ts m, cq_req_id m) \<in> keys (ch_lru h)" "dec buf = Some m"
  shows "ch_queue (ch_on_input enc dec put (In_Data (Data_Recv p (Some n) buf)) h) = ch_queue h"
proof -
  obtain c seen where put: "put (n, cq_ts m, cq_req_id m) (ch_lru h) = (c, seen)" by fastforce
  then have seen using lru_okD(1) [OF assms(1) put] assms(2) by simp
  then show ?thesis using put assms(3) by (simp add: ch_on_input_def ch_on_request_def)
qed

text \<open>An agent that has been shut down counts as empty while requests wait in its queue.\<close>

lemma ca_empty_with_requests:
  "\<exists>a::(nat, nat, nat, nat) connector_agent. ca_is_service_empty a \<and> mq_queue (ca_msg_queue a) \<noteq> [] \<and>
     (\<exists>enc. rbind (ca_pop_output2 enc 0 ca_new) (\<lambda>(b, _). Inr (ca_on_shutdown (ca_on_control 1 (Agent_Request 2 3) b))) = Inr a)"
  by (rule exI [of _ "ca_on_shutdown (ca_on_control 1 (Agent_Request 2 3) (ca_new\<lparr>ca_queue := []\<rparr>))"])
    (simp add: ca_is_service_empty_def ca_on_shutdown_def ca_on_control_def ca_new_def ca_pop_output2_def mq_push_def mq_default_def Let_def)

end
