(* ===== verification/Connector_Storage.thy ===== *)
theory Connector_Storage
  imports Conn_Id
begin

text \<open>
  \<^verbatim>\<open>packages/media_connector/src/sql_storage.rs\<close>: how the connector turns the events of peers into rows of
  its tables and into hook events: a room starts when somebody joins it, stops some time after the last
  peer has left, and is recorded under a path of its own. The messages are those of
  \<^verbatim>\<open>protocol/src/protobuf/cluster_connector.rs\<close>.

  The database is a list of rows per table, in the order of their ids; an insert takes the next id. Every
  call of the database may fail: \<open>sq_faults\<close> says, call after call, which of them do, and a call that fails
  changes nothing. \<^verbatim>\<open>one\<close> answers the first row that matches. Ids and times are natural numbers
  (session ids have 63 bits, so \<^verbatim>\<open>as i64\<close> is the identity). The conversion of parameters to JSON
  and the presigned address of an object are parameters.
\<close>

section \<open>Messages\<close>

datatype conn_event =
    Ce_RouteBegin string
  | Ce_RouteSuccess nat nat
  | Ce_RouteError nat "nat option" nat
  | Ce_Connecting string
  | Ce_Connected nat string
  | Ce_ConnectError nat nat
  | Ce_Stats nat nat
  | Ce_Reconnect string
  | Ce_Reconnected nat string
  | Ce_Disconnected nat nat
  | Ce_Join string string
  | Ce_Leave string string
  | Ce_RemoteTrackStarted string nat
  | Ce_RemoteTrackEnded string nat
  | Ce_LocalTrack nat nat
  | Ce_LocalTrackAttach nat string string
  | Ce_LocalTrackDetach nat string string

record conn_peer_event =
  cpe_app :: string
  cpe_session_id :: nat
  cpe_event :: "conn_event option"

record record_req =
  rq_room :: string
  rq_peer :: string
  rq_session :: nat
  rq_index :: nat
  rq_from_ts :: nat
  rq_to_ts :: nat
  rq_app :: string

datatype storage_request = Rq_Peer conn_peer_event | Rq_Record record_req

datatype storage_response = Rs_Peer | Rs_Record string

datatype room_hook = Rh_Started | Rh_PeerJoined string | Rh_PeerLeaved string | Rh_AllPeersLeaved | Rh_Stopped

datatype record_hook = Kh_Started string | Kh_PeerJoined string string

datatype hook_body =
    Hook_Room string string room_hook
  | Hook_Peer conn_peer_event
  | Hook_Record string string record_hook

record hook_event =
  hk_node :: nat
  hk_ts :: nat
  hk_event :: hook_body

section \<open>Tables\<close>

record room_row =
  rr_id :: nat
  rr_app :: string
  rr_room :: string
  rr_record :: "string option"
  rr_created_at :: nat
  rr_last_peer_leaved_at :: "nat option"
  rr_destroyed_at :: "nat option"

record peer_row =
  pr_id :: nat
  pr_room :: nat
  pr_peer :: string
  pr_created_at :: nat

record session_row =
  sr_id :: nat
  sr_app :: string
  sr_created_at :: nat

record peer_session_row =
  ps_id :: nat
  ps_peer :: nat
  ps_room :: nat
  ps_session :: nat
  ps_record :: "string option"
  ps_created_at :: nat
  ps_joined_at :: nat
  ps_leaved_at :: "nat option"

record 'j event_row =
  er_id :: nat
  er_node :: nat
  er_node_ts :: nat
  er_session :: nat
  er_created_at :: nat
  er_event :: string
  er_meta :: "'j option"

record 'j sql_storage =
  sq_node :: nat
  sq_rooms :: "room_row list"
  sq_peers :: "peer_row list"
  sq_sessions :: "session_row list"
  sq_peer_sessions :: "peer_session_row list"
  sq_events :: "'j event_row list"
  sq_room_seq :: nat
  sq_peer_seq :: nat
  sq_peer_session_seq :: nat
  sq_event_seq :: nat
  sq_faults :: "bool list"
  sq_s3_sub_folder :: string
  sq_room_destroy_after_ms :: nat
  sq_hook_events :: "(string \<times> hook_event) list"

definition sq_new :: "nat \<Rightarrow> string \<Rightarrow> nat \<Rightarrow> bool list \<Rightarrow> 'j sql_storage" where
  "sq_new node s3_sub_folder room_destroy_after_ms faults = \<lparr>sq_node = node, sq_rooms = [], sq_peers = [], sq_sessions = [], sq_peer_sessions = [], sq_events = [],
     sq_room_seq = 1, sq_peer_seq = 1, sq_peer_session_seq = 1, sq_event_seq = 1, sq_faults = faults, sq_s3_sub_folder = s3_sub_folder,
     sq_room_destroy_after_ms = room_destroy_after_ms, sq_hook_events = []\<rparr>"

section \<open>Calls of the database\<close>

datatype 'a db_res = Db_Ok 'a | Db_Err | Db_Panic

type_synonym ('j, 'a) db = "'j sql_storage \<Rightarrow> 'j sql_storage \<times> 'a db_res"

definition dret :: "'a \<Rightarrow> ('j, 'a) db" where
  "dret x s = (s, Db_Ok x)"

definition dbind :: "('j, 'a) db \<Rightarrow> ('a \<Rightarrow> ('j, 'b) db) \<Rightarrow> ('j, 'b) db" where
  "dbind m f s = (case m s of (s', Db_Ok x) \<Rightarrow> f x s' | (s', Db_Err) \<Rightarrow> (s', Db_Err) | (s', Db_Panic) \<Rightarrow> (s', Db_Panic))"

definition dcall :: "('j sql_storage \<Rightarrow> 'j sql_storage \<times> 'a) \<Rightarrow> ('j, 'a) db" where
  "dcall f s = (case sq_faults s of True # r \<Rightarrow> (s\<lparr>sq_faults := r\<rparr>, Db_Err)
     | _ \<Rightarrow> (let (s', x) = f (s\<lparr>sq_faults := tl (sq_faults s)\<rparr>) in (s', Db_Ok x)))"

definition dselect :: "('j sql_storage \<Rightarrow> 'a) \<Rightarrow> ('j, 'a) db" where
  "dselect q = dcall (\<lambda>s. (s, q s))"

definition dhook :: "string \<Rightarrow> hook_event \<Rightarrow> ('j, unit) db" where
  "dhook app e s = (s\<lparr>sq_hook_events := sq_hook_events s @ [(app, e)]\<rparr>, Db_Ok ())"

definition dwhen :: "bool \<Rightarrow> ('j, unit) db \<Rightarrow> ('j, unit) db" where
  "dwhen b m = (if b then m else dret ())"

fun dmap :: "('a \<Rightarrow> ('j, unit) db) \<Rightarrow> 'a list \<Rightarrow> ('j, unit) db" where
  "dmap f [] = dret ()"
| "dmap f (x # xs) = dbind (f x) (\<lambda>_. dmap f xs)"

text \<open>\<^verbatim>\<open>model.save\<close> on a row that exists: the row of that id gets the new columns.\<close>

definition upd_room :: "nat \<Rightarrow> (room_row \<Rightarrow> room_row) \<Rightarrow> 'j sql_storage \<Rightarrow> 'j sql_storage \<times> unit" where
  "upd_room i f s = (s\<lparr>sq_rooms := map (\<lambda>r. if rr_id r = i then f r else r) (sq_rooms s)\<rparr>, ())"

definition upd_peer_session :: "nat \<Rightarrow> (peer_session_row \<Rightarrow> peer_session_row) \<Rightarrow> 'j sql_storage \<Rightarrow> 'j sql_storage \<times> unit" where
  "upd_peer_session i f s = (s\<lparr>sq_peer_sessions := map (\<lambda>p. if ps_id p = i then f p else p) (sq_peer_sessions s)\<rparr>, ())"

section \<open>Rooms, peers and sessions\<close>

definition room_hook_event :: "nat \<Rightarrow> nat \<Rightarrow> string \<Rightarrow> string \<Rightarrow> room_hook \<Rightarrow> hook_event" where
  "room_hook_event node ts app room e = \<lparr>hk_node = node, hk_ts = ts, hk_event = Hook_Room app room e\<rparr>"

definition sq_live_room :: "string \<Rightarrow> string \<Rightarrow> 'j sql_storage \<Rightarrow> room_row option" where
  "sq_live_room app room s = find (\<lambda>r. rr_app r = app \<and> rr_room r = room \<and> rr_destroyed_at r = None) (sq_rooms s)"

definition insert_room :: "nat \<Rightarrow> string \<Rightarrow> string \<Rightarrow> 'j sql_storage \<Rightarrow> 'j sql_storage \<times> nat" where
  "insert_room now app room s = (s\<lparr>sq_room_seq := sq_room_seq s + 1, sq_rooms := sq_rooms s @
     [\<lparr>rr_id = sq_room_seq s, rr_app = app, rr_room = room, rr_record = None, rr_created_at = now, rr_last_peer_leaved_at = None, rr_destroyed_at = None\<rparr>]\<rparr>, sq_room_seq s)"

definition sq_upsert_room :: "nat \<Rightarrow> nat \<Rightarrow> string \<Rightarrow> string \<Rightarrow> ('j, nat) db" where
  "sq_upsert_room now event_ts app room = dbind (dselect (\<lambda>s. (sq_node s, sq_live_room app room s))) (\<lambda>(node, row). case row of
     Some info \<Rightarrow> dbind (dwhen (rr_last_peer_leaved_at info \<noteq> None) (dcall (upd_room (rr_id info) (\<lambda>r. r\<lparr>rr_last_peer_leaved_at := None\<rparr>)))) (\<lambda>_. dret (rr_id info))
   | None \<Rightarrow> dbind (dhook app (room_hook_event node event_ts app room Rh_Started)) (\<lambda>_. dcall (insert_room now app room)))"

definition insert_peer :: "nat \<Rightarrow> nat \<Rightarrow> string \<Rightarrow> 'j sql_storage \<Rightarrow> 'j sql_storage \<times> nat" where
  "insert_peer now room peer s = (s\<lparr>sq_peer_seq := sq_peer_seq s + 1, sq_peers := sq_peers s @ [\<lparr>pr_id = sq_peer_seq s, pr_room = room, pr_peer = peer, pr_created_at = now\<rparr>]\<rparr>, sq_peer_seq s)"

definition sq_upsert_peer :: "nat \<Rightarrow> nat \<Rightarrow> string \<Rightarrow> ('j, nat) db" where
  "sq_upsert_peer now room peer = dbind (dselect (\<lambda>s. find (\<lambda>p. pr_room p = room \<and> pr_peer p = peer) (sq_peers s))) (\<lambda>row. case row of
     Some info \<Rightarrow> dret (pr_id info) | None \<Rightarrow> dcall (insert_peer now room peer))"

definition insert_peer_session :: "nat \<Rightarrow> nat \<Rightarrow> nat \<Rightarrow> nat \<Rightarrow> nat \<Rightarrow> 'j sql_storage \<Rightarrow> 'j sql_storage \<times> nat" where
  "insert_peer_session now room peer session event_ts s = (s\<lparr>sq_peer_session_seq := sq_peer_session_seq s + 1, sq_peer_sessions := sq_peer_sessions s @
     [\<lparr>ps_id = sq_peer_session_seq s, ps_peer = peer, ps_room = room, ps_session = session, ps_record = None, ps_created_at = now, ps_joined_at = event_ts, ps_leaved_at = None\<rparr>]\<rparr>, sq_peer_session_seq s)"

definition sq_upsert_peer_session :: "nat \<Rightarrow> nat \<Rightarrow> nat \<Rightarrow> nat \<Rightarrow> nat \<Rightarrow> ('j, nat) db" where
  "sq_upsert_peer_session now room peer session event_ts = dbind (dselect (\<lambda>s. find (\<lambda>p. ps_session p = session \<and> ps_peer p = peer \<and> ps_leaved_at p = None) (sq_peer_sessions s))) (\<lambda>row. case row of
     Some info \<Rightarrow> dret (ps_id info) | None \<Rightarrow> dcall (insert_peer_session now room peer session event_ts))"

text \<open>The sessions that are open, joined with the peers of the room.\<close>

definition online_in :: "nat \<Rightarrow> 'j sql_storage \<Rightarrow> peer_session_row list" where
  "online_in room s = filter (\<lambda>p. ps_leaved_at p = None \<and> (\<exists>q\<in>set (sq_peers s). pr_id q = ps_peer p \<and> pr_room q = room)) (sq_peer_sessions s)"

definition sq_online_peers_count :: "nat \<Rightarrow> ('j, nat) db" where
  "sq_online_peers_count room = dselect (\<lambda>s. length (online_in room s))"

section \<open>Events\<close>

fun ce_name :: "conn_event \<Rightarrow> string" where
  "ce_name (Ce_RouteBegin _) = ''RouteBegin''"
| "ce_name (Ce_RouteSuccess _ _) = ''RouteSuccess''"
| "ce_name (Ce_RouteError _ _ _) = ''RouteError''"
| "ce_name (Ce_Connecting _) = ''Connecting''"
| "ce_name (Ce_Connected _ _) = ''Connected''"
| "ce_name (Ce_ConnectError _ _) = ''ConnectError''"
| "ce_name (Ce_Stats _ _) = ''Stats''"
| "ce_name (Ce_Reconnect _) = ''Reconnect''"
| "ce_name (Ce_Reconnected _ _) = ''Reconnected''"
| "ce_name (Ce_Disconnected _ _) = ''Disconnected''"
| "ce_name (Ce_Join _ _) = ''Join''"
| "ce_name (Ce_Leave _ _) = ''Leave''"
| "ce_name (Ce_RemoteTrackStarted _ _) = ''RemoteTrackStarted''"
| "ce_name (Ce_RemoteTrackEnded _ _) = ''RemoteTrackEnded''"
| "ce_name (Ce_LocalTrack _ _) = ''LocalTrack''"
| "ce_name (Ce_LocalTrackAttach _ _ _) = ''LocalTrackAttach''"
| "ce_name (Ce_LocalTrackDetach _ _ _) = ''LocalTrackDetach''"

definition insert_event :: "(conn_event \<Rightarrow> 'j) \<Rightarrow> nat \<Rightarrow> nat \<Rightarrow> nat \<Rightarrow> nat \<Rightarrow> conn_event \<Rightarrow> 'j sql_storage \<Rightarrow> 'j sql_storage \<times> unit" where
  "insert_event json now node event_ts session e s = (s\<lparr>sq_event_seq := sq_event_seq s + 1, sq_events := sq_events s @
     [\<lparr>er_id = sq_event_seq s, er_node = node, er_node_ts = event_ts, er_session = session, er_created_at = now, er_event = ce_name e, er_meta = Some (json e)\<rparr>]\<rparr>, ())"

definition sq_ensure_session :: "nat \<Rightarrow> string \<Rightarrow> nat \<Rightarrow> ('j, unit) db" where
  "sq_ensure_session now app session = dbind (dselect (\<lambda>s. find (\<lambda>r. sr_id r = session) (sq_sessions s))) (\<lambda>row.
     dwhen (row = None) (dcall (\<lambda>s. (s\<lparr>sq_sessions := sq_sessions s @ [\<lparr>sr_id = session, sr_app = app, sr_created_at = now\<rparr>]\<rparr>, ()))))"

definition sq_on_join :: "nat \<Rightarrow> nat \<Rightarrow> string \<Rightarrow> nat \<Rightarrow> string \<Rightarrow> string \<Rightarrow> ('j, unit) db" where
  "sq_on_join now event_ts app session room_name peer_name =
     dbind (sq_upsert_room now event_ts app room_name) (\<lambda>room.
     dbind (sq_upsert_peer now room peer_name) (\<lambda>peer.
     dbind (sq_upsert_peer_session now room peer session event_ts) (\<lambda>_ s.
     dhook app (room_hook_event (sq_node s) event_ts app room_name (Rh_PeerJoined peer_name)) s)))"

definition sq_close_session :: "nat \<Rightarrow> nat \<Rightarrow> nat \<Rightarrow> ('j, unit) db" where
  "sq_close_session event_ts peer session = dbind (dselect (\<lambda>s. find (\<lambda>p. ps_peer p = peer \<and> ps_session p = session) (sq_peer_sessions s))) (\<lambda>row. case row of
     None \<Rightarrow> dret () | Some p \<Rightarrow> dcall (upd_peer_session (ps_id p) (\<lambda>p. p\<lparr>ps_leaved_at := Some event_ts\<rparr>)))"

definition sq_on_leave :: "nat \<Rightarrow> nat \<Rightarrow> string \<Rightarrow> nat \<Rightarrow> string \<Rightarrow> string \<Rightarrow> ('j, unit) db" where
  "sq_on_leave now event_ts app session room_name peer_name =
     dbind (\<lambda>s. dhook app (room_hook_event (sq_node s) event_ts app room_name (Rh_PeerLeaved peer_name)) s) (\<lambda>_.
     dbind (sq_upsert_room now event_ts app room_name) (\<lambda>room.
     dbind (sq_upsert_peer now room peer_name) (\<lambda>peer.
     dbind (sq_close_session event_ts peer session) (\<lambda>_.
     dbind (sq_online_peers_count room) (\<lambda>online.
     dwhen (online = 0)
       (dbind (dcall (upd_room room (\<lambda>r. r\<lparr>rr_last_peer_leaved_at := Some now\<rparr>))) (\<lambda>_ s.
        dhook app (room_hook_event (sq_node s) event_ts app room_name Rh_AllPeersLeaved) s)))))))"

definition sq_on_peer_event :: "(conn_event \<Rightarrow> 'j) \<Rightarrow> nat \<Rightarrow> nat \<Rightarrow> nat \<Rightarrow> string \<Rightarrow> nat \<Rightarrow> conn_event \<Rightarrow> ('j, unit) db" where
  "sq_on_peer_event json now node event_ts app session e = dbind (sq_ensure_session now app session) (\<lambda>_. case e of
     Ce_Stats _ _ \<Rightarrow> (\<lambda>s. (s, Db_Panic))
   | Ce_Join room peer \<Rightarrow> dbind (sq_on_join now event_ts app session room peer) (\<lambda>_. dcall (insert_event json now node event_ts session e))
   | Ce_Leave room peer \<Rightarrow> dbind (sq_on_leave now event_ts app session room peer) (\<lambda>_. dcall (insert_event json now node event_ts session e))
   | _ \<Rightarrow> dcall (insert_event json now node event_ts session e))"

section \<open>Stopping rooms\<close>

definition sq_close_exited_rooms :: "nat \<Rightarrow> ('j, unit) db" where
  "sq_close_exited_rooms now = dbind (dselect (\<lambda>s. (sq_node s, take 100 (filter (\<lambda>r. rr_destroyed_at r = None \<and>
       (case rr_last_peer_leaved_at r of None \<Rightarrow> False | Some t \<Rightarrow> t \<le> u64_sub now (sq_room_destroy_after_ms s))) (sq_rooms s))))) (\<lambda>(node, rooms).
     dmap (\<lambda>r. dbind (dcall (upd_room (rr_id r) (\<lambda>x. x\<lparr>rr_destroyed_at := Some now\<rparr>))) (\<lambda>_.
       dhook (rr_app r) (room_hook_event node now (rr_app r) (rr_room r) Rh_Stopped))) rooms)"

definition sq_on_tick :: "nat \<Rightarrow> 'j sql_storage \<Rightarrow> 'j sql_storage" where
  "sq_on_tick now s = fst (sq_close_exited_rooms now s)"

section \<open>Recording\<close>

text \<open>\<^verbatim>\<open>std::path::Path::join\<close>: an absolute path replaces, and a separator is added where there is none.\<close>

definition path_join :: "string \<Rightarrow> string \<Rightarrow> string" where
  "path_join a b = (if b \<noteq> [] \<and> hd b = CHR ''/'' then b else if a = [] \<or> last a = CHR ''/'' then a @ b else a @ ''/'' @ b)"

definition record_hook_event :: "nat \<Rightarrow> nat \<Rightarrow> string \<Rightarrow> string \<Rightarrow> record_hook \<Rightarrow> hook_event" where
  "record_hook_event node ts app room e = \<lparr>hk_node = node, hk_ts = ts, hk_event = Hook_Record app room e\<rparr>"

text \<open>\<^verbatim>\<open>.ok()??\<close>: nothing found is a failure like one of the database.\<close>

definition dsome :: "('j, 'a option) db \<Rightarrow> ('j, 'a) db" where
  "dsome m = dbind m (\<lambda>r. case r of Some x \<Rightarrow> dret x | None \<Rightarrow> (\<lambda>s. (s, Db_Err)))"

definition sq_room_path :: "nat \<Rightarrow> nat \<Rightarrow> record_req \<Rightarrow> room_row \<Rightarrow> ('j, string) db" where
  "sq_room_path node event_ts req room = (case rr_record room of Some path \<Rightarrow> dret path
     | None \<Rightarrow> (\<lambda>s. let path = path_join (path_join (path_join (sq_s3_sub_folder s) (rq_app req)) (rq_room req)) (show_nat (rr_id room)) in
         dbind (dhook (rq_app req) (record_hook_event node event_ts (rq_app req) (rq_room req) (Kh_Started path))) (\<lambda>_.
         dbind (dcall (upd_room (rr_id room) (\<lambda>r. r\<lparr>rr_record := Some path\<rparr>))) (\<lambda>_. dret path)) s))"

definition sq_peer_path :: "nat \<Rightarrow> nat \<Rightarrow> record_req \<Rightarrow> peer_session_row \<Rightarrow> ('j, string) db" where
  "sq_peer_path node event_ts req p = (case ps_record p of Some path \<Rightarrow> dret path
     | None \<Rightarrow> (let path = path_join (rq_peer req) (show_nat (ps_id p)) in
         dbind (dhook (rq_app req) (record_hook_event node event_ts (rq_app req) (rq_room req) (Kh_PeerJoined (rq_peer req) path))) (\<lambda>_.
         dbind (dcall (upd_peer_session (ps_id p) (\<lambda>p. p\<lparr>ps_record := Some path\<rparr>))) (\<lambda>_. dret path))))"

text \<open>\<^verbatim>\<open>order_by_desc(CreatedAt)\<close>, then the first row.\<close>

definition newest_session :: "nat \<Rightarrow> nat \<Rightarrow> 'j sql_storage \<Rightarrow> peer_session_row option" where
  "newest_session session room s = (case sort_key (\<lambda>p. - int (ps_created_at p)) (filter (\<lambda>p. ps_session p = session \<and> ps_room p = room) (sq_peer_sessions s)) of [] \<Rightarrow> None | p # _ \<Rightarrow> Some p)"

definition rec_file :: "record_req \<Rightarrow> string" where
  "rec_file req = show_nat (rq_index req) @ ''-'' @ show_nat (rq_from_ts req) @ ''-'' @ show_nat (rq_to_ts req) @ ''.rec''"

definition sq_on_record :: "(string \<Rightarrow> string) \<Rightarrow> nat \<Rightarrow> nat \<Rightarrow> record_req \<Rightarrow> ('j, string) db" where
  "sq_on_record presign node event_ts req =
     dbind (dsome (dselect (sq_live_room (rq_app req) (rq_room req)))) (\<lambda>room.
     dbind (sq_room_path node event_ts req room) (\<lambda>room_path.
     dbind (dsome (dselect (newest_session (rq_session req) (rr_id room)))) (\<lambda>p.
     dbind (sq_peer_path node event_ts req p) (\<lambda>peer_path.
     dret (presign (path_join (path_join room_path peer_path) (rec_file req)))))))"

section \<open>Requests\<close>

definition sq_on_event :: "(conn_event \<Rightarrow> 'j) \<Rightarrow> (string \<Rightarrow> string) \<Rightarrow> nat \<Rightarrow> nat \<Rightarrow> nat \<Rightarrow> storage_request \<Rightarrow> 'j sql_storage \<Rightarrow> ('j sql_storage \<times> storage_response option) run" where
  "sq_on_event json presign now node event_ts req s = (case req of
     Rq_Peer event \<Rightarrow> (case cpe_event event of None \<Rightarrow> Inr (s, None)
       | Some e \<Rightarrow> (case sq_on_peer_event json now node event_ts (cpe_app event) (cpe_session_id event) e s of
           (s', Db_Ok _) \<Rightarrow> Inr (s'\<lparr>sq_hook_events := sq_hook_events s' @ [(cpe_app event, \<lparr>hk_node = node, hk_ts = event_ts, hk_event = Hook_Peer event\<rparr>)]\<rparr>, Some Rs_Peer)
         | (s', Db_Err) \<Rightarrow> Inr (s', None)
         | (s', Db_Panic) \<Rightarrow> Inl Explicit_Panic))
   | Rq_Record r \<Rightarrow> (case sq_on_record presign node event_ts r s of (s', Db_Ok uri) \<Rightarrow> Inr (s', Some (Rs_Record uri)) | (s', _) \<Rightarrow> Inr (s', None)))"

definition sq_pop_hook_event :: "'j sql_storage \<Rightarrow> 'j sql_storage \<times> (string \<times> hook_event) option" where
  "sq_pop_hook_event s = (case sq_hook_events s of [] \<Rightarrow> (s, None) | x # xs \<Rightarrow> (s\<lparr>sq_hook_events := xs\<rparr>, Some x))"

section \<open>Pages\<close>

definition calc_page_num :: "nat \<Rightarrow> nat \<Rightarrow> nat run" where
  "calc_page_num elms page_size = (if elms = 0 then Inr 0 else if page_size = 0 then Inl Explicit_Panic else Inr (1 + (elms - 1) div page_size))"

record 'a paging_response =
  pg_data :: "'a list"
  pg_total :: nat
  pg_current :: nat

definition event_matches :: "nat option \<Rightarrow> nat option \<Rightarrow> nat option \<Rightarrow> 'j event_row \<Rightarrow> bool" where
  "event_matches session from_ts to_ts r \<longleftrightarrow> (case session of Some i \<Rightarrow> er_session r = i | None \<Rightarrow> True) \<and>
     (case from_ts of Some t \<Rightarrow> er_created_at r \<ge> t | None \<Rightarrow> True) \<and> (case to_ts of Some t \<Rightarrow> er_created_at r \<le> t | None \<Rightarrow> True)"

definition sq_events_page :: "nat option \<Rightarrow> nat option \<Rightarrow> nat option \<Rightarrow> nat \<Rightarrow> nat \<Rightarrow> 'j sql_storage \<Rightarrow> 'j event_row paging_response run" where
  "sq_events_page session from_ts to_ts page limit s = (let rows = filter (event_matches session from_ts to_ts) (sq_events s) in
     rbind (calc_page_num (length rows) limit) (\<lambda>total.
       Inr \<lparr>pg_data = take limit (drop (page * limit) (sort_key (\<lambda>r. - int (er_created_at r)) rows)), pg_total = total, pg_current = page\<rparr>))"

end
