(* ===== verification/Connector_Rooms.thy ===== *)
theory Connector_Rooms
  imports Connector_Storage
begin

text \<open>
  What the tables of the connector say of its rooms, whatever calls of the database fail: at most one
  room of a name is live, ids are unique, every session belongs to a peer of its room, and a room
  counts as left only while nobody is online in it. A small logic of pre- and postconditions
  (\<open>dhoare\<close>) carries these facts through the calls.
\<close>

section \<open>Pre- and postconditions\<close>

definition dhoare :: "('j sql_storage \<Rightarrow> bool) \<Rightarrow> ('j sql_storage \<Rightarrow> bool) \<Rightarrow> ('j, 'a) db \<Rightarrow> ('a \<Rightarrow> 'j sql_storage \<Rightarrow> bool) \<Rightarrow> bool" where
  "dhoare E P m Q \<longleftrightarrow> (\<forall>s. P s \<longrightarrow> (case snd (m s) of Db_Ok x \<Rightarrow> Q x (fst (m s)) | _ \<Rightarrow> E (fst (m s))))"

lemma dhoare_ret: "(\<And>s. P s \<Longrightarrow> Q x s) \<Longrightarrow> dhoare E P (dret x) Q"
  by (simp add: dhoare_def dret_def)

lemma dhoare_bind: "dhoare E P m R \<Longrightarrow> (\<And>x. dhoare E (R x) (f x) Q) \<Longrightarrow> dhoare E P (dbind m f) Q"
  by (fastforce simp: dhoare_def dbind_def split: prod.split db_res.split)

lemma dhoare_call:
  assumes "\<And>s r. P s \<Longrightarrow> sq_faults s \<noteq> [] \<Longrightarrow> E (s\<lparr>sq_faults := r\<rparr>)" "\<And>s. P s \<Longrightarrow> Q (snd (f (s\<lparr>sq_faults := tl (sq_faults s)\<rparr>))) (fst (f (s\<lparr>sq_faults := tl (sq_faults s)\<rparr>)))"
  shows "dhoare E P (dcall f) Q"
  unfolding dhoare_def
proof (intro allI impI)
  fix s assume P: "P s"
  show "case snd (dcall f s) of Db_Ok x \<Rightarrow> Q x (fst (dcall f s)) | _ \<Rightarrow> E (fst (dcall f s))"
    using assms(1) [OF P] assms(2) [OF P] by (cases "f (s\<lparr>sq_faults := tl (sq_faults s)\<rparr>)") (auto simp: dcall_def split: list.split bool.split)
qed

lemma dhoare_exec:
  assumes "\<And>s r. P s \<Longrightarrow> P (s\<lparr>sq_faults := r\<rparr>)" "\<And>s r. P s \<Longrightarrow> sq_faults s \<noteq> [] \<Longrightarrow> E (s\<lparr>sq_faults := r\<rparr>)" "\<And>s. P s \<Longrightarrow> Q (snd (f s)) (fst (f s))"
  shows "dhoare E P (dcall f) Q"
  by (rule dhoare_call) (use assms in auto)

lemma dhoare_select:
  assumes "\<And>s r. P s \<Longrightarrow> sq_faults s \<noteq> [] \<Longrightarrow> E (s\<lparr>sq_faults := r\<rparr>)" "\<And>s. P s \<Longrightarrow> Q (q (s\<lparr>sq_faults := tl (sq_faults s)\<rparr>)) (s\<lparr>sq_faults := tl (sq_faults s)\<rparr>)"
  shows "dhoare E P (dselect q) Q"
  unfolding dselect_def by (rule dhoare_call) (use assms in auto)

lemma dhoare_read:
  assumes "\<And>s r. P s \<Longrightarrow> P (s\<lparr>sq_faults := r\<rparr>)" "\<And>s r. P s \<Longrightarrow> sq_faults s \<noteq> [] \<Longrightarrow> E (s\<lparr>sq_faults := r\<rparr>)"
  shows "dhoare E P (dselect q) (\<lambda>x s. P s \<and> x = q s)"
  by (rule dhoare_select) (use assms in auto)

lemma dhoare_hook: "(\<And>s. P s \<Longrightarrow> Q () (s\<lparr>sq_hook_events := sq_hook_events s @ [(app, e)]\<rparr>)) \<Longrightarrow> dhoare E P (dhook app e) Q"
  by (simp add: dhoare_def dhook_def)

lemma dhoare_get: "(\<And>x. dhoare E (\<lambda>s. P s \<and> s = x) (f x) Q) \<Longrightarrow> dhoare E P (\<lambda>s. f s s) Q"
  by (simp add: dhoare_def)

lemma dhoare_when: "dhoare E (\<lambda>s. P s \<and> b) m Q \<Longrightarrow> (\<And>s. P s \<Longrightarrow> \<not> b \<Longrightarrow> Q () s) \<Longrightarrow> dhoare E P (dwhen b m) Q"
  by (auto simp: dhoare_def dwhen_def dret_def)

lemma dhoare_dmap: "(\<And>x. x \<in> set xs \<Longrightarrow> dhoare E I (f x) (\<lambda>_. I)) \<Longrightarrow> dhoare E I (dmap f xs) (\<lambda>_. I)"
  by (induction xs) (auto intro!: dhoare_bind [where R = "\<lambda>_. I"] dhoare_ret)

lemma dhoare_weaken: "dhoare E P' m Q' \<Longrightarrow> (\<And>s. P s \<Longrightarrow> P' s) \<Longrightarrow> (\<And>x s. Q' x s \<Longrightarrow> Q x s) \<Longrightarrow> dhoare E P m Q"
  by (fastforce simp: dhoare_def split: db_res.splits)

lemma dhoare_pre: "dhoare E P' m Q \<Longrightarrow> (\<And>s. P s \<Longrightarrow> P' s) \<Longrightarrow> dhoare E P m Q"
  by (auto simp: dhoare_def)

lemma dhoare_pure: "(b \<Longrightarrow> dhoare E P m Q) \<Longrightarrow> dhoare E (\<lambda>s. P s \<and> b) m Q"
  by (auto simp: dhoare_def)

lemma find_in: "Some x = find P xs \<Longrightarrow> x \<in> set xs \<and> P x"
  by (auto simp: find_Some_iff2)

section \<open>Invariant\<close>

definition rooms_ok :: "nat \<Rightarrow> room_row list \<Rightarrow> bool" where
  "rooms_ok n rs \<longleftrightarrow> distinct (map rr_id rs) \<and> (\<forall>r\<in>set rs. rr_id r < n) \<and> (\<forall>r\<in>set rs. rr_destroyed_at r \<noteq> None \<longrightarrow> rr_last_peer_leaved_at r \<noteq> None) \<and>
     distinct (map (\<lambda>r. (rr_app r, rr_room r)) (filter (\<lambda>r. rr_destroyed_at r = None) rs))"

definition peers_ok :: "nat \<Rightarrow> nat \<Rightarrow> peer_row list \<Rightarrow> bool" where
  "peers_ok n m ps \<longleftrightarrow> distinct (map pr_id ps) \<and> (\<forall>p\<in>set ps. pr_id p < n \<and> pr_room p < m) \<and> distinct (map (\<lambda>p. (pr_room p, pr_peer p)) ps)"

definition sessions_ok :: "nat \<Rightarrow> peer_row list \<Rightarrow> peer_session_row list \<Rightarrow> bool" where
  "sessions_ok n peers ps \<longleftrightarrow> distinct (map ps_id ps) \<and> (\<forall>p\<in>set ps. ps_id p < n \<and> (\<exists>q\<in>set peers. pr_id q = ps_peer p \<and> pr_room q = ps_room p)) \<and>
     distinct (map (\<lambda>p. (ps_session p, ps_peer p)) (filter (\<lambda>p. ps_leaved_at p = None) ps))"

text \<open>A room that counts as left has nobody online.\<close>

definition left_ok :: "'j sql_storage \<Rightarrow> bool" where
  "left_ok s \<longleftrightarrow> (\<forall>r\<in>set (sq_rooms s). rr_last_peer_leaved_at r \<noteq> None \<longrightarrow> online_in (rr_id r) s = [])"

definition sq_ok :: "'j sql_storage \<Rightarrow> bool" where
  "sq_ok s \<longleftrightarrow> rooms_ok (sq_room_seq s) (sq_rooms s) \<and> peers_ok (sq_peer_seq s) (sq_room_seq s) (sq_peers s) \<and> sessions_ok (sq_peer_session_seq s) (sq_peers s) (sq_peer_sessions s) \<and> left_ok s"

text \<open>A room that is live and not left, and a peer of it.\<close>

definition room_open :: "nat \<Rightarrow> 'j sql_storage \<Rightarrow> bool" where
  "room_open i s \<longleftrightarrow> (\<exists>r\<in>set (sq_rooms s). rr_id r = i \<and> rr_last_peer_leaved_at r = None)"

definition peer_in :: "nat \<Rightarrow> nat \<Rightarrow> 'j sql_storage \<Rightarrow> bool" where
  "peer_in room peer s \<longleftrightarrow> (\<exists>q\<in>set (sq_peers s). pr_id q = peer \<and> pr_room q = room)"

lemma online_in_upd [simp]: "online_in i (s\<lparr>sq_faults := f\<rparr>) = online_in i s" "online_in i (s\<lparr>sq_hook_events := h\<rparr>) = online_in i s" "online_in i (s\<lparr>sq_rooms := r\<rparr>) = online_in i s"
  "online_in i (s\<lparr>sq_room_seq := n\<rparr>) = online_in i s" "online_in i (s\<lparr>sq_sessions := x\<rparr>) = online_in i s" "online_in i (s\<lparr>sq_events := y\<rparr>) = online_in i s" "online_in i (s\<lparr>sq_event_seq := n\<rparr>) = online_in i s"
  "online_in i (s\<lparr>sq_peer_seq := n\<rparr>) = online_in i s" "online_in i (s\<lparr>sq_peer_session_seq := n\<rparr>) = online_in i s"
  by (simp_all add: online_in_def)

lemma sq_ok_upd [simp]: "sq_ok (s\<lparr>sq_faults := f\<rparr>) = sq_ok s" "sq_ok (s\<lparr>sq_hook_events := h\<rparr>) = sq_ok s" "sq_ok (s\<lparr>sq_sessions := x\<rparr>) = sq_ok s" "sq_ok (s\<lparr>sq_event_seq := n, sq_events := y\<rparr>) = sq_ok s"
  by (simp_all add: sq_ok_def left_ok_def)

lemma room_open_upd [simp]: "room_open i (s\<lparr>sq_faults := f\<rparr>) = room_open i s" "room_open i (s\<lparr>sq_hook_events := h\<rparr>) = room_open i s" "peer_in i j (s\<lparr>sq_faults := f\<rparr>) = peer_in i j s" "peer_in i j (s\<lparr>sq_hook_events := h\<rparr>) = peer_in i j s"
  by (simp_all add: room_open_def peer_in_def)

lemma online_in_iff: "p \<in> set (online_in i s) \<longleftrightarrow> p \<in> set (sq_peer_sessions s) \<and> ps_leaved_at p = None \<and> peer_in i (ps_peer p) s"
  by (auto simp: online_in_def peer_in_def)

section \<open>Single calls\<close>

lemma rooms_ok_upd:
  assumes ok: "rooms_ok n rs" and "\<And>r. rr_id (f r) = rr_id r" "\<And>r. rr_app (f r) = rr_app r" "\<And>r. rr_room (f r) = rr_room r"
    and "\<And>r. r \<in> set rs \<Longrightarrow> rr_id r = i \<Longrightarrow> rr_destroyed_at (f r) = None \<Longrightarrow> rr_destroyed_at r = None"
    and left: "\<And>r. r \<in> set rs \<Longrightarrow> rr_id r = i \<Longrightarrow> rr_destroyed_at (f r) \<noteq> None \<Longrightarrow> rr_last_peer_leaved_at (f r) \<noteq> None"
  shows "rooms_ok n (map (\<lambda>r. if rr_id r = i then f r else r) rs)"
proof -
  let ?g = "\<lambda>r. if rr_id r = i then f r else r"
  have ids: "map rr_id (map ?g rs) = map rr_id rs" using assms(2) by simp
  have live: "rr_destroyed_at r = None" if "r \<in> set rs" "rr_destroyed_at (?g r) = None" for r using that assms(5) by (auto split: if_splits)
  have "map (\<lambda>r. (rr_app r, rr_room r)) (filter (\<lambda>r. rr_destroyed_at r = None) (map ?g rs)) = map (\<lambda>r. (rr_app r, rr_room r)) (filter (\<lambda>r. rr_destroyed_at (?g r) = None) rs)"
    using assms(3,4) by (simp add: filter_map comp_def)
  also have "filter (\<lambda>r. rr_destroyed_at (?g r) = None) rs = filter (\<lambda>r. rr_destroyed_at (?g r) = None) (filter (\<lambda>r. rr_destroyed_at r = None) rs)"
    unfolding filter_filter by (rule filter_cong) (use live in \<open>blast+\<close>)
  finally have eq: "map (\<lambda>r. (rr_app r, rr_room r)) (filter (\<lambda>r. rr_destroyed_at r = None) (map ?g rs)) =
      map (\<lambda>r. (rr_app r, rr_room r)) (filter (\<lambda>r. rr_destroyed_at (?g r) = None) (filter (\<lambda>r. rr_destroyed_at r = None) rs))" .
  have "distinct (map (\<lambda>r. (rr_app r, rr_room r)) (filter (\<lambda>r. rr_destroyed_at r = None) (map ?g rs)))"
    unfolding eq by (rule distinct_map_filter) (use ok in \<open>simp add: rooms_ok_def\<close>)
  moreover have "distinct (map rr_id (map ?g rs))" unfolding ids using ok by (simp add: rooms_ok_def)
  moreover have "\<forall>r\<in>set (map ?g rs). rr_destroyed_at r \<noteq> None \<longrightarrow> rr_last_peer_leaved_at r \<noteq> None" using ok left by (auto simp: rooms_ok_def)
  moreover have "\<forall>r\<in>set (map ?g rs). rr_id r < n" using ok assms(2) by (auto simp: rooms_ok_def)
  ultimately show ?thesis unfolding rooms_ok_def by blast
qed

lemma sq_live_room_eq:
  assumes "sq_live_room app room s = Some r"
  shows "r \<in> set (sq_rooms s)" "rr_app r = app" "rr_room r = room" "rr_destroyed_at r = None"
  using assms by (auto simp: sq_live_room_def find_Some_iff)

lemma sq_ok_upd_room:
  assumes ok: "sq_ok s" and "\<And>r. rr_id (f r) = rr_id r" "\<And>r. rr_app (f r) = rr_app r" "\<And>r. rr_room (f r) = rr_room r"
    and "\<And>r. r \<in> set (sq_rooms s) \<Longrightarrow> rr_id r = i \<Longrightarrow> rr_destroyed_at (f r) = None \<Longrightarrow> rr_destroyed_at r = None"
    and "\<And>r. r \<in> set (sq_rooms s) \<Longrightarrow> rr_id r = i \<Longrightarrow> rr_destroyed_at (f r) \<noteq> None \<Longrightarrow> rr_last_peer_leaved_at (f r) \<noteq> None"
    and empty: "\<And>r. r \<in> set (sq_rooms s) \<Longrightarrow> rr_id r = i \<Longrightarrow> rr_last_peer_leaved_at (f r) \<noteq> None \<Longrightarrow> rr_last_peer_leaved_at r \<noteq> None \<or> online_in i s = []"
  shows "sq_ok (fst (upd_room i f s))"
proof -
  have "rooms_ok (sq_room_seq s) (map (\<lambda>r. if rr_id r = i then f r else r) (sq_rooms s))"
    by (rule rooms_ok_upd) (use assms in \<open>auto simp: sq_ok_def\<close>)
  moreover have "left_ok (fst (upd_room i f s))"
    unfolding left_ok_def
  proof (intro ballI impI)
    fix r assume "r \<in> set (sq_rooms (fst (upd_room i f s)))" and left: "rr_last_peer_leaved_at r \<noteq> None"
    then obtain x where x: "x \<in> set (sq_rooms s)" "r = (if rr_id x = i then f x else x)" by (auto simp: upd_room_def)
    then have "rr_id r = rr_id x" "rr_last_peer_leaved_at x \<noteq> None \<or> online_in (rr_id x) s = []" using left empty [OF x(1)] assms(2) by (auto split: if_splits)
    then show "online_in (rr_id r) (fst (upd_room i f s)) = []" using ok x(1) by (auto simp: sq_ok_def left_ok_def upd_room_def)
  qed
  ultimately show ?thesis using ok by (simp add: sq_ok_def upd_room_def)
qed

lemma sq_live_roomE:
  assumes "Some r = sq_live_room app room s"
  shows "r \<in> set (sq_rooms s)" "rr_app r = app" "rr_room r = room" "rr_destroyed_at r = None"
  using sq_live_room_eq [OF assms [symmetric]] by auto

lemma sq_ok_unique_id: "sq_ok s \<Longrightarrow> r \<in> set (sq_rooms s) \<Longrightarrow> r' \<in> set (sq_rooms s) \<Longrightarrow> rr_id r = rr_id r' \<Longrightarrow> r = r'"
  by (auto simp: sq_ok_def rooms_ok_def distinct_map inj_on_def)

lemma sq_ok_insert_room:
  assumes ok: "sq_ok s" and none: "sq_live_room app room s = None"
  shows "sq_ok (fst (insert_room now app room s))"
proof -
  let ?s = "fst (insert_room now app room s)"
  have fresh: "(app, room) \<notin> (\<lambda>r. (rr_app r, rr_room r)) ` set (filter (\<lambda>r. rr_destroyed_at r = None) (sq_rooms s))"
    using none by (auto simp: sq_live_room_def find_None_iff)
  have "rooms_ok (sq_room_seq ?s) (sq_rooms ?s)" using ok fresh by (auto simp: sq_ok_def rooms_ok_def insert_room_def)
  moreover have "peers_ok (sq_peer_seq ?s) (sq_room_seq ?s) (sq_peers ?s)" using ok by (auto simp: sq_ok_def peers_ok_def insert_room_def)
  ultimately show ?thesis using ok by (simp add: sq_ok_def left_ok_def insert_room_def)
qed

lemma sq_live_room_upd [simp]: "sq_live_room app room (s\<lparr>sq_faults := f\<rparr>) = sq_live_room app room s" "sq_live_room app room (s\<lparr>sq_hook_events := h\<rparr>) = sq_live_room app room s"
  by (simp_all add: sq_live_room_def)

lemma upsert_room_ok: "dhoare sq_ok sq_ok (sq_upsert_room now event_ts app room) (\<lambda>i s. sq_ok s \<and> room_open i s)"
  unfolding sq_upsert_room_def
proof (rule dhoare_bind)
  show "dhoare sq_ok sq_ok (dselect (\<lambda>s. (sq_node s, sq_live_room app room s))) (\<lambda>x s. sq_ok s \<and> x = (sq_node s, sq_live_room app room s))"
    by (rule dhoare_read) auto
  fix x :: "nat \<times> room_row option"
  obtain node row where x: "x = (node, row)" by (cases x)
  have new: "dhoare sq_ok (\<lambda>s. sq_ok s \<and> sq_live_room app room s = None) (dbind (dhook app e) (\<lambda>_. dcall (insert_room now app room))) (\<lambda>i s. sq_ok s \<and> room_open i s)" for e
    by (rule dhoare_bind [where R = "\<lambda>_ s. sq_ok s \<and> sq_live_room app room s = None"], rule dhoare_hook, simp, rule dhoare_exec)
      (auto intro: sq_ok_insert_room, simp add: room_open_def insert_room_def)
  have found: "dhoare sq_ok (\<lambda>s. sq_ok s \<and> Some r = sq_live_room app room s) (dbind (dwhen (rr_last_peer_leaved_at r \<noteq> None) (dcall (upd_room (rr_id r) (\<lambda>r. r\<lparr>rr_last_peer_leaved_at := None\<rparr>)))) (\<lambda>_. dret (rr_id r)))
      (\<lambda>i s. sq_ok s \<and> room_open i s)" for r
  proof (rule dhoare_bind [where R = "\<lambda>_ s. sq_ok s \<and> room_open (rr_id r) s"], rule dhoare_when, rule dhoare_call)
    fix s assume P: "(sq_ok s \<and> Some r = sq_live_room app room s) \<and> rr_last_peer_leaved_at r \<noteq> None"
    let ?s = "s\<lparr>sq_faults := tl (sq_faults s)\<rparr>" and ?f = "\<lambda>r. r\<lparr>rr_last_peer_leaved_at := None\<rparr>"
    have r: "r \<in> set (sq_rooms s)" "rr_destroyed_at r = None" using P sq_live_roomE by auto
    then have "r' = r" if "r' \<in> set (sq_rooms s)" "rr_id r' = rr_id r" for r' using P that sq_ok_unique_id by blast
    then have "sq_ok (fst (upd_room (rr_id r) ?f ?s))" using P r by (intro sq_ok_upd_room) force+
    moreover have "room_open (rr_id r) (fst (upd_room (rr_id r) ?f ?s))" using r(1) by (auto simp: room_open_def upd_room_def intro!: bexI [of _ "?f r"] image_eqI [of _ _ r])
    ultimately show "sq_ok (fst (upd_room (rr_id r) ?f ?s)) \<and> room_open (rr_id r) (fst (upd_room (rr_id r) ?f ?s))" by blast
  next
    fix s assume "sq_ok s \<and> Some r = sq_live_room app room s" "\<not> rr_last_peer_leaved_at r \<noteq> None"
    then show "sq_ok s \<and> room_open (rr_id r) s" using sq_live_roomE(1) [of r app room s] by (auto simp: room_open_def)
  qed (auto intro: dhoare_ret)
  show "dhoare sq_ok (\<lambda>s. sq_ok s \<and> x = (sq_node s, sq_live_room app room s)) (case x of (node, row) \<Rightarrow> case row of
       Some info \<Rightarrow> dbind (dwhen (rr_last_peer_leaved_at info \<noteq> None) (dcall (upd_room (rr_id info) (\<lambda>r. r\<lparr>rr_last_peer_leaved_at := None\<rparr>)))) (\<lambda>_. dret (rr_id info))
     | None \<Rightarrow> dbind (dhook app (room_hook_event node event_ts app room Rh_Started)) (\<lambda>_. dcall (insert_room now app room))) (\<lambda>i s. sq_ok s \<and> room_open i s)"
    unfolding x by (cases row) (simp_all, rule dhoare_pre [OF new], auto, rule dhoare_pre [OF found [simplified]], auto)
qed

lemma upsert_peer_ok: "dhoare sq_ok (\<lambda>s. sq_ok s \<and> room_open i s) (sq_upsert_peer now i name) (\<lambda>p s. sq_ok s \<and> room_open i s \<and> peer_in i p s)"
  unfolding sq_upsert_peer_def
proof (rule dhoare_bind)
  let ?q = "\<lambda>s. find (\<lambda>p. pr_room p = i \<and> pr_peer p = name) (sq_peers s)"
  show "dhoare sq_ok (\<lambda>s. sq_ok s \<and> room_open i s) (dselect ?q) (\<lambda>x s. (sq_ok s \<and> room_open i s) \<and> x = ?q s)" by (rule dhoare_read) auto
  fix row
  show "dhoare sq_ok (\<lambda>s. (sq_ok s \<and> room_open i s) \<and> row = ?q s) (case row of Some info \<Rightarrow> dret (pr_id info) | None \<Rightarrow> dcall (insert_peer now i name)) (\<lambda>p s. sq_ok s \<and> room_open i s \<and> peer_in i p s)"
  proof (cases row)
    case (Some info)
    then show ?thesis by (auto intro!: dhoare_ret simp: peer_in_def dest: find_in)
  next
    case None
    have "sq_ok (fst (insert_peer now i name s)) \<and> room_open i (fst (insert_peer now i name s)) \<and> peer_in i (sq_peer_seq s) (fst (insert_peer now i name s))"
      if P: "sq_ok s" "room_open i s" "None = ?q s" for s
    proof -
      let ?s = "fst (insert_peer now i name s)"
      have "(i, name) \<notin> (\<lambda>p. (pr_room p, pr_peer p)) ` set (sq_peers s)" using P(3) by (auto simp: find_None_iff2)
      moreover have "i < sq_room_seq s" using P(1,2) by (auto simp: sq_ok_def rooms_ok_def room_open_def)
      ultimately have "peers_ok (sq_peer_seq ?s) (sq_room_seq ?s) (sq_peers ?s)" using P(1) by (fastforce simp: sq_ok_def peers_ok_def insert_peer_def)
      moreover have ses: "sessions_ok (sq_peer_session_seq s) (sq_peers s) (sq_peer_sessions s)" using P(1) by (simp add: sq_ok_def)
      then have "sessions_ok (sq_peer_session_seq ?s) (sq_peers ?s) (sq_peer_sessions ?s)" by (auto simp: sessions_ok_def insert_peer_def)
      moreover have "sq_peer_seq s \<notin> ps_peer ` set (sq_peer_sessions s)" using ses P(1) by (fastforce simp: sessions_ok_def sq_ok_def peers_ok_def)
      then have "online_in j ?s = online_in j s" for j by (auto simp: online_in_def insert_peer_def intro!: filter_cong)
      ultimately show ?thesis using P(1,2) by (auto simp: sq_ok_def left_ok_def room_open_def peer_in_def insert_peer_def)
    qed
    then show ?thesis unfolding None by simp (rule dhoare_exec, auto simp: insert_peer_def)
  qed
qed

lemma upsert_peer_session_ok: "dhoare sq_ok (\<lambda>s. sq_ok s \<and> room_open i s \<and> peer_in i p s) (sq_upsert_peer_session now i p session event_ts) (\<lambda>_. sq_ok)"
  unfolding sq_upsert_peer_session_def
proof (rule dhoare_bind)
  let ?q = "\<lambda>s. find (\<lambda>x. ps_session x = session \<and> ps_peer x = p \<and> ps_leaved_at x = None) (sq_peer_sessions s)"
  let ?P = "\<lambda>s. sq_ok s \<and> room_open i s \<and> peer_in i p s"
  show "dhoare sq_ok ?P (dselect ?q) (\<lambda>x s. ?P s \<and> x = ?q s)" by (rule dhoare_read) auto
  fix row
  show "dhoare sq_ok (\<lambda>s. ?P s \<and> row = ?q s) (case row of Some info \<Rightarrow> dret (ps_id info) | None \<Rightarrow> dcall (insert_peer_session now i p session event_ts)) (\<lambda>_. sq_ok)"
  proof (cases row)
    case (Some info)
    then show ?thesis by (auto intro!: dhoare_ret)
  next
    case None
    have "sq_ok (fst (insert_peer_session now i p session event_ts s))" if P: "sq_ok s" "room_open i s" "peer_in i p s" "None = ?q s" for s
    proof -
      let ?s = "fst (insert_peer_session now i p session event_ts s)"
      have "(session, p) \<notin> (\<lambda>x. (ps_session x, ps_peer x)) ` set (filter (\<lambda>x. ps_leaved_at x = None) (sq_peer_sessions s))" using P(4) by (auto simp: find_None_iff2)
      moreover have "sessions_ok (sq_peer_session_seq s) (sq_peers s) (sq_peer_sessions s)" using P(1) by (simp add: sq_ok_def)
      ultimately have "sessions_ok (sq_peer_session_seq ?s) (sq_peers ?s) (sq_peer_sessions ?s)" using P(3) by (auto simp: sessions_ok_def insert_peer_session_def peer_in_def)
      moreover have "left_ok ?s"
        unfolding left_ok_def
      proof (intro ballI impI)
        fix r assume "r \<in> set (sq_rooms ?s)" and left: "rr_last_peer_leaved_at r \<noteq> None"
        then have r: "r \<in> set (sq_rooms s)" by (simp add: insert_peer_session_def)
        obtain r' where r': "r' \<in> set (sq_rooms s)" "rr_id r' = i" "rr_last_peer_leaved_at r' = None" using P(2) by (auto simp: room_open_def)
        then have "rr_id r \<noteq> i" using sq_ok_unique_id [OF P(1) r r'(1)] left by auto
        moreover have "distinct (map pr_id (sq_peers s))" using P(1) by (simp add: sq_ok_def peers_ok_def)
        ultimately have "\<not> peer_in (rr_id r) p s" using P(3) by (auto simp: peer_in_def distinct_map inj_on_def)
        then have "online_in (rr_id r) ?s = online_in (rr_id r) s" by (auto simp: online_in_def insert_peer_session_def peer_in_def)
        then show "online_in (rr_id r) ?s = []" using P(1) r left by (auto simp: sq_ok_def left_ok_def)
      qed
      ultimately show ?thesis using P(1) by (simp add: sq_ok_def insert_peer_session_def)
    qed
    then show ?thesis unfolding None by simp (rule dhoare_exec, auto)
  qed
qed

lemma join_ok: "dhoare sq_ok sq_ok (sq_on_join now event_ts app session room peer) (\<lambda>_. sq_ok)"
  unfolding sq_on_join_def
  by (rule dhoare_bind [OF upsert_room_ok], rule dhoare_bind [OF upsert_peer_ok], rule dhoare_bind [OF upsert_peer_session_ok])
    (simp add: dhoare_def dhook_def)

lemma sq_ok_upd_peer_session:
  assumes ok: "sq_ok s" and f: "\<And>p. ps_id (f p) = ps_id p" "\<And>p. ps_peer (f p) = ps_peer p" "\<And>p. ps_room (f p) = ps_room p" "\<And>p. ps_session (f p) = ps_session p"
    and closed: "\<And>p. ps_leaved_at (f p) = None \<Longrightarrow> ps_leaved_at p = None"
  shows "sq_ok (fst (upd_peer_session i f s))"
proof -
  let ?g = "\<lambda>p. if ps_id p = i then f p else p" and ?ps = "sq_peer_sessions s" and ?k = "\<lambda>p. (ps_session p, ps_peer p)"
  have ids: "map ps_id (map ?g ?ps) = map ps_id ?ps" using f(1) by simp
  have live: "ps_leaved_at p = None" if "ps_leaved_at (?g p) = None" for p using that closed by (auto split: if_splits)
  have "map ?k (filter (\<lambda>p. ps_leaved_at p = None) (map ?g ?ps)) = map ?k (filter (\<lambda>p. ps_leaved_at (?g p) = None) ?ps)" using f(2,4) by (simp add: filter_map comp_def)
  also have "filter (\<lambda>p. ps_leaved_at (?g p) = None) ?ps = filter (\<lambda>p. ps_leaved_at (?g p) = None) (filter (\<lambda>p. ps_leaved_at p = None) ?ps)"
    unfolding filter_filter by (rule filter_cong) (use live in \<open>blast+\<close>)
  finally have eq: "map ?k (filter (\<lambda>p. ps_leaved_at p = None) (map ?g ?ps)) = map ?k (filter (\<lambda>p. ps_leaved_at (?g p) = None) (filter (\<lambda>p. ps_leaved_at p = None) ?ps))" .
  have "distinct (map ?k (filter (\<lambda>p. ps_leaved_at p = None) (map ?g ?ps)))" unfolding eq by (rule distinct_map_filter) (use ok in \<open>simp add: sq_ok_def sessions_ok_def\<close>)
  moreover have "distinct (map ps_id (map ?g ?ps))" unfolding ids using ok by (simp add: sq_ok_def sessions_ok_def)
  moreover have "\<forall>p\<in>set (map ?g ?ps). ps_id p < sq_peer_session_seq s \<and> (\<exists>q\<in>set (sq_peers s). pr_id q = ps_peer p \<and> pr_room q = ps_room p)"
  proof
    fix p assume "p \<in> set (map ?g ?ps)"
    then obtain x where "x \<in> set ?ps" "p = ?g x" by auto
    moreover from this have "ps_id p = ps_id x" "ps_peer p = ps_peer x" "ps_room p = ps_room x" using f by auto
    ultimately show "ps_id p < sq_peer_session_seq s \<and> (\<exists>q\<in>set (sq_peers s). pr_id q = ps_peer p \<and> pr_room q = ps_room p)" using ok by (auto simp: sq_ok_def sessions_ok_def)
  qed
  ultimately have "sessions_ok (sq_peer_session_seq s) (sq_peers s) (map ?g ?ps)" unfolding sessions_ok_def by blast
  moreover have "online_in j (fst (upd_peer_session i f s)) = []" if "online_in j s = []" for j
  proof -
    have base: "\<not> (ps_leaved_at p = None \<and> peer_in j (ps_peer p) s)" if "p \<in> set ?ps" for p using \<open>online_in j s = []\<close> that online_in_iff [of p j s] by auto
    have none: "\<not> (ps_leaved_at (?g p) = None \<and> peer_in j (ps_peer (?g p)) s)" if "p \<in> set ?ps" for p using base [OF that] live [of p] f(2) by (auto split: if_splits)
    show ?thesis
    proof (rule ccontr)
      assume "online_in j (fst (upd_peer_session i f s)) \<noteq> []"
      then obtain p where "p \<in> set (online_in j (fst (upd_peer_session i f s)))" using hd_in_set by blast
      then have p: "p \<in> ?g ` set ?ps" "ps_leaved_at p = None" "peer_in j (ps_peer p) s" unfolding online_in_iff by (auto simp: upd_peer_session_def peer_in_def)
      then obtain x where "x \<in> set ?ps" "p = ?g x" by blast
      then show False using none [of x] p(2,3) by blast
    qed
  qed
  then have "left_ok (fst (upd_peer_session i f s))" using ok by (simp add: sq_ok_def left_ok_def upd_peer_session_def)
  ultimately show ?thesis using ok by (simp add: sq_ok_def upd_peer_session_def)
qed

lemma room_open_upd_peer_session [simp]: "room_open i (fst (upd_peer_session j f s)) = room_open i s"
  by (simp add: room_open_def upd_peer_session_def)

lemma close_session_ok: "dhoare sq_ok (\<lambda>s. sq_ok s \<and> room_open i s) (sq_close_session event_ts peer session) (\<lambda>_ s. sq_ok s \<and> room_open i s)"
  unfolding sq_close_session_def
proof (rule dhoare_bind)
  let ?q = "\<lambda>s. find (\<lambda>p. ps_peer p = peer \<and> ps_session p = session) (sq_peer_sessions s)"
  show "dhoare sq_ok (\<lambda>s. sq_ok s \<and> room_open i s) (dselect ?q) (\<lambda>x s. (sq_ok s \<and> room_open i s) \<and> x = ?q s)" by (rule dhoare_read) auto
  fix row
  have "dhoare sq_ok (\<lambda>s. sq_ok s \<and> room_open i s) (dcall (upd_peer_session j (\<lambda>p. p\<lparr>ps_leaved_at := Some event_ts\<rparr>))) (\<lambda>_ s. sq_ok s \<and> room_open i s)" for j
    by (rule dhoare_exec) (auto intro!: sq_ok_upd_peer_session)
  then show "dhoare sq_ok (\<lambda>s. (sq_ok s \<and> room_open i s) \<and> row = ?q s) (case row of None \<Rightarrow> dret () | Some p \<Rightarrow> dcall (upd_peer_session (ps_id p) (\<lambda>p. p\<lparr>ps_leaved_at := Some event_ts\<rparr>))) (\<lambda>_ s. sq_ok s \<and> room_open i s)"
    by (cases row) (auto intro!: dhoare_ret intro: dhoare_weaken)
qed

lemma leave_ok: "dhoare sq_ok sq_ok (sq_on_leave now event_ts app session room peer) (\<lambda>_. sq_ok)"
proof -
  have last: "dhoare sq_ok (\<lambda>s. (sq_ok s \<and> room_open i s) \<and> online = length (online_in i s)) (dwhen (online = 0) (dbind (dcall (upd_room i (\<lambda>r. r\<lparr>rr_last_peer_leaved_at := Some now\<rparr>))) (\<lambda>_ s.
        dhook app (room_hook_event (sq_node s) event_ts app room Rh_AllPeersLeaved) s))) (\<lambda>_. sq_ok)" for i online
  proof (rule dhoare_when, rule dhoare_bind)
    show "dhoare sq_ok (\<lambda>s. ((sq_ok s \<and> room_open i s) \<and> online = length (online_in i s)) \<and> online = 0) (dcall (upd_room i (\<lambda>r. r\<lparr>rr_last_peer_leaved_at := Some now\<rparr>))) (\<lambda>_. sq_ok)"
      by (rule dhoare_exec) (auto intro!: sq_ok_upd_room)
  qed (auto simp: dhoare_def dhook_def)
  have count: "dhoare sq_ok (\<lambda>s. sq_ok s \<and> room_open i s) (sq_online_peers_count i) (\<lambda>n s. (sq_ok s \<and> room_open i s) \<and> n = length (online_in i s))" for i
    unfolding sq_online_peers_count_def by (rule dhoare_read) auto
  have hook: "dhoare sq_ok sq_ok (\<lambda>s. dhook app (room_hook_event (sq_node s) event_ts app room (Rh_PeerLeaved peer)) s) (\<lambda>_. sq_ok)" by (simp add: dhoare_def dhook_def)
  have peer': "dhoare sq_ok (\<lambda>s. sq_ok s \<and> room_open i s) (sq_upsert_peer now i peer) (\<lambda>_ s. sq_ok s \<and> room_open i s)" for i by (rule dhoare_weaken [OF upsert_peer_ok]) auto
  show ?thesis unfolding sq_on_leave_def
    by (rule dhoare_bind [OF hook], rule dhoare_bind [OF upsert_room_ok], rule dhoare_bind [OF peer'], rule dhoare_bind [OF close_session_ok], rule dhoare_bind [OF count], rule last)
qed


lemma ensure_session_ok: "dhoare sq_ok sq_ok (sq_ensure_session now app session) (\<lambda>_. sq_ok)"
  unfolding sq_ensure_session_def
  by (rule dhoare_bind [where R = "\<lambda>_. sq_ok"], rule dhoare_select, simp_all, rule dhoare_when, rule dhoare_exec) auto

lemma insert_event_ok: "dhoare sq_ok sq_ok (dcall (insert_event json now node event_ts session e)) (\<lambda>_. sq_ok)"
  by (rule dhoare_exec) (auto simp: insert_event_def)

lemma peer_event_ok: "dhoare sq_ok sq_ok (sq_on_peer_event json now node event_ts app session e) (\<lambda>_. sq_ok)"
  unfolding sq_on_peer_event_def
proof (rule dhoare_bind [OF ensure_session_ok])
  have "dhoare sq_ok sq_ok (\<lambda>s. (s, Db_Panic)) (\<lambda>_::unit. sq_ok)" by (simp add: dhoare_def)
  then show "dhoare sq_ok sq_ok (case e of Ce_Stats _ _ \<Rightarrow> (\<lambda>s. (s, Db_Panic))
     | Ce_Join room peer \<Rightarrow> dbind (sq_on_join now event_ts app session room peer) (\<lambda>_. dcall (insert_event json now node event_ts session e))
     | Ce_Leave room peer \<Rightarrow> dbind (sq_on_leave now event_ts app session room peer) (\<lambda>_. dcall (insert_event json now node event_ts session e))
     | _ \<Rightarrow> dcall (insert_event json now node event_ts session e)) (\<lambda>_. sq_ok)" for x :: unit
    by (cases e) (auto intro: dhoare_bind [OF join_ok] dhoare_bind [OF leave_ok] insert_event_ok)
qed

lemma close_exited_ok: "dhoare sq_ok sq_ok (sq_close_exited_rooms now) (\<lambda>_. sq_ok)"
  unfolding sq_close_exited_rooms_def
proof (rule dhoare_bind)
  let ?left = "\<lambda>rs s. \<forall>r\<in>set rs. \<exists>x\<in>set (sq_rooms s). rr_id x = rr_id r \<and> rr_last_peer_leaved_at x \<noteq> None"
  let ?q = "\<lambda>s. (sq_node s, take 100 (filter (\<lambda>r. rr_destroyed_at r = None \<and> (case rr_last_peer_leaved_at r of None \<Rightarrow> False | Some t \<Rightarrow> t \<le> u64_sub now (sq_room_destroy_after_ms s))) (sq_rooms s)))"
  show "dhoare sq_ok sq_ok (dselect ?q) (\<lambda>x s. sq_ok s \<and> ?left (snd x) s)"
    by (rule dhoare_select) (auto dest!: in_set_takeD split: option.splits)
  fix x :: "nat \<times> room_row list"
  obtain node rs where x: "x = (node, rs)" by (cases x)
  have one: "dhoare sq_ok (\<lambda>s. sq_ok s \<and> ?left rs s) (dbind (dcall (upd_room (rr_id r) (\<lambda>x. x\<lparr>rr_destroyed_at := Some now\<rparr>))) (\<lambda>_. dhook app e)) (\<lambda>_ s. sq_ok s \<and> ?left rs s)" if "r \<in> set rs" for r app e
  proof (rule dhoare_bind [where R = "\<lambda>_ s. sq_ok s \<and> ?left rs s"], rule dhoare_exec)
    fix s assume P: "sq_ok s \<and> ?left rs s"
    let ?f = "\<lambda>x. x\<lparr>rr_destroyed_at := Some now\<rparr>" and ?s = "fst (upd_room (rr_id r) (\<lambda>x. x\<lparr>rr_destroyed_at := Some now\<rparr>) s)"
    obtain x where x: "x \<in> set (sq_rooms s)" "rr_id x = rr_id r" "rr_last_peer_leaved_at x \<noteq> None" using P \<open>r \<in> set rs\<close> by blast
    then have "y = x" if "y \<in> set (sq_rooms s)" "rr_id y = rr_id r" for y using P that sq_ok_unique_id [of s y x] by simp
    then have "rr_last_peer_leaved_at y \<noteq> None" if "y \<in> set (sq_rooms s)" "rr_id y = rr_id r" for y using that x(3) by blast
    then have "sq_ok ?s" using P by (intro sq_ok_upd_room) simp_all
    moreover have "?left rs ?s"
    proof
      fix r' assume "r' \<in> set rs"
      then obtain y where "y \<in> set (sq_rooms s)" "rr_id y = rr_id r'" "rr_last_peer_leaved_at y \<noteq> None" using P by blast
      then show "\<exists>x\<in>set (sq_rooms ?s). rr_id x = rr_id r' \<and> rr_last_peer_leaved_at x \<noteq> None"
        by (intro bexI [of _ "if rr_id y = rr_id r then ?f y else y"]) (auto simp: upd_room_def)
    qed
    ultimately show "sq_ok ?s \<and> ?left rs ?s" by blast
  qed (auto intro: dhoare_hook)
  have "dhoare sq_ok (\<lambda>s. sq_ok s \<and> ?left rs s) (dmap (\<lambda>r. dbind (dcall (upd_room (rr_id r) (\<lambda>x. x\<lparr>rr_destroyed_at := Some now\<rparr>))) (\<lambda>_.
       dhook (rr_app r) (room_hook_event node now (rr_app r) (rr_room r) Rh_Stopped))) rs) (\<lambda>_ s. sq_ok s \<and> ?left rs s)"
    by (rule dhoare_dmap) (rule one)
  then show "dhoare sq_ok (\<lambda>s. sq_ok s \<and> ?left (snd x) s) (case x of (node, rooms) \<Rightarrow> dmap (\<lambda>r. dbind (dcall (upd_room (rr_id r) (\<lambda>x. x\<lparr>rr_destroyed_at := Some now\<rparr>))) (\<lambda>_.
       dhook (rr_app r) (room_hook_event node now (rr_app r) (rr_room r) Rh_Stopped))) rooms) (\<lambda>_. sq_ok)"
    unfolding x prod.case snd_conv by (rule dhoare_weaken) auto
qed


section \<open>Recording\<close>

lemma sq_ok_destroyed: "sq_ok s \<Longrightarrow> r \<in> set (sq_rooms s) \<Longrightarrow> rr_destroyed_at r \<noteq> None \<Longrightarrow> rr_last_peer_leaved_at r \<noteq> None"
  by (auto simp: sq_ok_def rooms_ok_def)

lemma keep_bind: "dhoare sq_ok sq_ok m (\<lambda>_. sq_ok) \<Longrightarrow> (\<And>x. dhoare sq_ok sq_ok (f x) (\<lambda>_. sq_ok)) \<Longrightarrow> dhoare sq_ok sq_ok (dbind m f) (\<lambda>_. sq_ok)"
  by (rule dhoare_bind)

lemma keep_calls:
  "dhoare sq_ok sq_ok (dselect q) (\<lambda>_. sq_ok)" "dhoare sq_ok sq_ok (dhook app e) (\<lambda>_. sq_ok)" "dhoare sq_ok sq_ok (dret x) (\<lambda>_. sq_ok)"
  "dhoare sq_ok sq_ok (dcall (upd_peer_session i (\<lambda>r. r\<lparr>ps_record := p\<rparr>))) (\<lambda>_. sq_ok)" "dhoare sq_ok sq_ok (dcall (upd_room i (\<lambda>r. r\<lparr>rr_record := p\<rparr>))) (\<lambda>_. sq_ok)"
proof -
  show "dhoare sq_ok sq_ok (dselect q) (\<lambda>_. sq_ok)" by (rule dhoare_select) auto
  show "dhoare sq_ok sq_ok (dhook app e) (\<lambda>_. sq_ok)" by (rule dhoare_hook) simp
  show "dhoare sq_ok sq_ok (dret x) (\<lambda>_. sq_ok)" by (rule dhoare_ret)
  show "dhoare sq_ok sq_ok (dcall (upd_peer_session i (\<lambda>r. r\<lparr>ps_record := p\<rparr>))) (\<lambda>_. sq_ok)" by (rule dhoare_exec) (auto intro!: sq_ok_upd_peer_session)
  show "dhoare sq_ok sq_ok (dcall (upd_room i (\<lambda>r. r\<lparr>rr_record := p\<rparr>))) (\<lambda>_. sq_ok)" by (rule dhoare_exec) (auto intro!: sq_ok_upd_room dest: sq_ok_destroyed)
qed

lemma keep_some: "dhoare sq_ok sq_ok m (\<lambda>_. sq_ok) \<Longrightarrow> dhoare sq_ok sq_ok (dsome m) (\<lambda>_. sq_ok)"
  unfolding dsome_def by (erule keep_bind) (auto simp: dhoare_def dret_def split: option.split)

lemma record_ok: "dhoare sq_ok sq_ok (sq_on_record presign node event_ts req) (\<lambda>_. sq_ok)"
proof -
  have "dhoare sq_ok sq_ok (sq_room_path node event_ts req room) (\<lambda>_. sq_ok)" for room
  proof (cases "rr_record room")
    case None
    let ?p = "\<lambda>s. path_join (path_join (path_join (sq_s3_sub_folder s) (rq_app req)) (rq_room req)) (show_nat (rr_id room))"
    let ?m = "\<lambda>p. dbind (dhook (rq_app req) (record_hook_event node event_ts (rq_app req) (rq_room req) (Kh_Started p))) (\<lambda>_. dbind (dcall (upd_room (rr_id room) (\<lambda>r. r\<lparr>rr_record := Some p\<rparr>))) (\<lambda>_. dret p))"
    have m: "dhoare sq_ok sq_ok (?m p) (\<lambda>_. sq_ok)" for p by (intro keep_bind keep_calls)
    have "dhoare sq_ok sq_ok (\<lambda>s. ?m (?p s) s) (\<lambda>_. sq_ok)" by (rule dhoare_get [of _ _ "\<lambda>s. ?m (?p s)"], rule dhoare_pre [OF m]) simp
    then show ?thesis by (simp add: sq_room_path_def None Let_def)
  next
    case (Some path)
    then show ?thesis by (simp add: sq_room_path_def keep_calls)
  qed
  moreover have "dhoare sq_ok sq_ok (sq_peer_path node event_ts req p) (\<lambda>_. sq_ok)" for p
    unfolding sq_peer_path_def Let_def by (cases "ps_record p") (auto intro!: keep_bind keep_calls)
  ultimately show ?thesis unfolding sq_on_record_def by (intro keep_bind keep_some keep_calls)
qed

section \<open>Runs\<close>

datatype sq_op = Sq_Event nat nat nat storage_request | Sq_Tick nat | Sq_Pop

text \<open>A run, with the hook events that were handed out.\<close>

definition sq_step :: "(conn_event \<Rightarrow> 'j) \<Rightarrow> (string \<Rightarrow> string) \<Rightarrow> sq_op \<Rightarrow> 'j sql_storage \<times> (string \<times> hook_event) list \<Rightarrow> ('j sql_storage \<times> (string \<times> hook_event) list) run" where
  "sq_step json presign x = (\<lambda>(s, sent). case x of
     Sq_Event now node ts req \<Rightarrow> rbind (sq_on_event json presign now node ts req s) (\<lambda>(s', _). Inr (s', sent))
   | Sq_Tick now \<Rightarrow> Inr (sq_on_tick now s, sent)
   | Sq_Pop \<Rightarrow> (case sq_pop_hook_event s of (s', e) \<Rightarrow> Inr (s', sent @ (case e of None \<Rightarrow> [] | Some h \<Rightarrow> [h]))))"

definition no_stats :: "sq_op \<Rightarrow> bool" where
  "no_stats x \<longleftrightarrow> (case x of Sq_Event _ _ _ (Rq_Peer event) \<Rightarrow> (case cpe_event event of Some (Ce_Stats _ _) \<Rightarrow> False | _ \<Rightarrow> True) | _ \<Rightarrow> True)"

lemma dhoareD: "dhoare E P m Q \<Longrightarrow> P s \<Longrightarrow> (case snd (m s) of Db_Ok x \<Rightarrow> Q x (fst (m s)) | _ \<Rightarrow> E (fst (m s)))"
  by (simp add: dhoare_def)

lemma dhoare_fst: "dhoare I I m (\<lambda>_. I) \<Longrightarrow> I s \<Longrightarrow> I (fst (m s))"
  by (drule (1) dhoareD) (auto split: db_res.splits)

text \<open>Nothing panics but an event with statistics.\<close>

definition no_panic :: "('j, 'a) db \<Rightarrow> bool" where
  "no_panic m \<longleftrightarrow> (\<forall>s. snd (m s) \<noteq> Db_Panic)"

lemma no_panic_bind: "no_panic m \<Longrightarrow> (\<And>x. no_panic (g x)) \<Longrightarrow> no_panic (dbind m g)"
  unfolding no_panic_def dbind_def by (auto split: prod.split db_res.split) (metis snd_conv)

lemma no_panic_calls: "no_panic (dcall f)" "no_panic (dselect q)" "no_panic (dhook app e)" "no_panic (dret x)" "no_panic (\<lambda>s. dhook app (h s) s)"
  by (auto simp: no_panic_def dcall_def dselect_def dhook_def dret_def split: list.split bool.split prod.split)

lemma no_panic_when: "no_panic m \<Longrightarrow> no_panic (dwhen b m)"
  by (simp add: dwhen_def no_panic_calls)

lemmas no_panic_intros = no_panic_bind no_panic_calls no_panic_when

lemma no_panic_upserts:
  "no_panic (sq_upsert_room now event_ts app r)" "no_panic (sq_upsert_peer now i name)" "no_panic (sq_upsert_peer_session now i p session event_ts)" "no_panic (sq_close_session event_ts p session)"
  unfolding sq_upsert_room_def sq_upsert_peer_def sq_upsert_peer_session_def sq_close_session_def
  by (rule no_panic_bind, rule no_panic_calls, auto intro!: no_panic_intros split: option.split)+

lemma no_panic_peer_event:
  assumes "case e of Ce_Stats _ _ \<Rightarrow> False | _ \<Rightarrow> True" shows "no_panic (sq_on_peer_event json now node event_ts app session e)"
proof -
  have "no_panic (sq_on_join now event_ts app session r p)" for r p unfolding sq_on_join_def by (intro no_panic_intros no_panic_upserts)
  moreover have "no_panic (sq_on_leave now event_ts app session r p)" for r p
    unfolding sq_on_leave_def sq_online_peers_count_def by (intro no_panic_intros no_panic_upserts)
  moreover have "no_panic (sq_ensure_session now app session)" unfolding sq_ensure_session_def by (intro no_panic_intros)
  ultimately show ?thesis unfolding sq_on_peer_event_def using assms by (cases e) (auto intro!: no_panic_intros)
qed

lemma sq_step_ok:
  assumes ok: "sq_ok s" and "no_stats x" shows "\<exists>s' sent'. sq_step json presign x (s, sent) = Inr (s', sent') \<and> sq_ok s'"
proof (cases x)
  case (Sq_Tick now)
  then show ?thesis using dhoare_fst [OF close_exited_ok ok] by (simp add: sq_step_def sq_on_tick_def)
next
  case Sq_Pop
  then show ?thesis using ok by (cases "sq_hook_events s") (auto simp: sq_step_def sq_pop_hook_event_def)
next
  case (Sq_Event now node ts req)
  show ?thesis
  proof (cases req)
    case (Rq_Record r)
    have "sq_ok (fst (sq_on_record presign node ts r s))" using record_ok ok by (rule dhoare_fst)
    then show ?thesis using Sq_Event Rq_Record by (cases "sq_on_record presign node ts r s") (auto simp: sq_step_def sq_on_event_def split: db_res.split)
  next
    case (Rq_Peer event)
    show ?thesis
    proof (cases "cpe_event event")
      case None
      then show ?thesis using ok Sq_Event Rq_Peer by (simp add: sq_step_def sq_on_event_def)
    next
      case (Some e)
      let ?r = "sq_on_peer_event json now node ts (cpe_app event) (cpe_session_id event) e s"
      have "sq_ok (fst ?r)" using peer_event_ok ok by (rule dhoare_fst)
      moreover have "snd ?r \<noteq> Db_Panic" 
      proof -
        have "case e of Ce_Stats _ _ \<Rightarrow> False | _ \<Rightarrow> True" using assms(2) Sq_Event Rq_Peer Some by (simp add: no_stats_def)
        then show ?thesis using no_panic_peer_event unfolding no_panic_def by blast
      qed
      ultimately show ?thesis using Sq_Event Rq_Peer Some by (cases ?r) (auto simp: sq_step_def sq_on_event_def split: db_res.split)
    qed
  qed
qed

lemma sq_ok_new: "sq_ok (sq_new node folder after faults)"
  by (simp add: sq_ok_def sq_new_def rooms_ok_def peers_ok_def sessions_ok_def left_ok_def)

lemma sq_run_ok:
  assumes "sq_ok s" "\<forall>x\<in>set xs. no_stats x" shows "\<exists>s' sent'. rfold (sq_step json presign) xs (s, sent) = Inr (s', sent') \<and> sq_ok s'"
  using assms
proof (induction xs arbitrary: s sent)
  case (Cons x xs)
  have "no_stats x" using Cons.prems(2) by simp
  from sq_step_ok [OF Cons.prems(1) this, where json = json and presign = presign and sent = sent]
  obtain s1 sent1 where step: "sq_step json presign x (s, sent) = Inr (s1, sent1)" "sq_ok s1" by blast
  then show ?case using Cons.IH [OF step(2), of sent1] Cons.prems(2) by simp
qed simp

section \<open>Properties\<close>

text \<open>
  C7. Whatever events arrive, in whatever order, and whichever calls of the database fail, the tables of the
  connector stay consistent: no two live rooms have the same name, no peer is listed twice in a
  room or has two open sessions of the same id, and a room is only ever stopped while nobody is
  online in it. No event but one with statistics makes the connector panic.
\<close>
theorem sq_rooms_consistent:
  assumes "\<forall>x\<in>set xs. no_stats x"
  shows "\<exists>s sent. rfold (sq_step json presign) xs (sq_new node folder after faults, []) = Inr (s, sent) \<and>
     distinct (map (\<lambda>r. (rr_app r, rr_room r)) (filter (\<lambda>r. rr_destroyed_at r = None) (sq_rooms s))) \<and>
     distinct (map (\<lambda>p. (pr_room p, pr_peer p)) (sq_peers s)) \<and>
     distinct (map (\<lambda>p. (ps_session p, ps_peer p)) (filter (\<lambda>p. ps_leaved_at p = None) (sq_peer_sessions s))) \<and>
     (\<forall>r\<in>set (sq_rooms s). rr_destroyed_at r \<noteq> None \<longrightarrow> online_in (rr_id r) s = [])"
proof -
  obtain s sent where run: "rfold (sq_step json presign) xs (sq_new node folder after faults, []) = Inr (s, sent)" "sq_ok s"
    using sq_run_ok [OF sq_ok_new assms, where json = json and presign = presign and sent = "[]"] by blast
  then have "\<forall>r\<in>set (sq_rooms s). rr_destroyed_at r \<noteq> None \<longrightarrow> online_in (rr_id r) s = []" using sq_ok_destroyed by (fastforce simp: sq_ok_def left_ok_def)
  then show ?thesis using run by (auto simp: sq_ok_def rooms_ok_def peers_ok_def sessions_ok_def)
qed


definition demo_event :: "nat \<Rightarrow> conn_event \<Rightarrow> sq_op" where
  "demo_event now e = Sq_Event now 1 now (Rq_Peer \<lparr>cpe_app = ''app'', cpe_session_id = 7, cpe_event = Some e\<rparr>)"

theorem sq_rooms_consistent_witness:
  "\<exists>s sent. rfold (sq_step (\<lambda>_. ()) (\<lambda>p. p)) [demo_event 1 (Ce_Join ''r'' ''p''), demo_event 2 (Ce_Leave ''r'' ''p''), Sq_Tick 300, Sq_Pop] (sq_new 1 [] 100 [False, False, True], []) = Inr (s, sent) \<and>
     distinct (map (\<lambda>r. (rr_app r, rr_room r)) (filter (\<lambda>r. rr_destroyed_at r = None) (sq_rooms s))) \<and> (\<forall>r\<in>set (sq_rooms s). rr_destroyed_at r \<noteq> None \<longrightarrow> online_in (rr_id r) s = [])"
proof -
  let ?xs = "[demo_event 1 (Ce_Join ''r'' ''p''), demo_event 2 (Ce_Leave ''r'' ''p''), Sq_Tick 300, Sq_Pop]"
  have "\<forall>x\<in>set ?xs. no_stats x" by (simp add: no_stats_def demo_event_def)
  from sq_rooms_consistent [OF this, where json = "\<lambda>_. ()" and presign = "\<lambda>p. p" and node = 1 and folder = "[]" and after = 100 and faults = "[False, False, True]"]
  show ?thesis by blast
qed

lemmas sq_eval = sq_step_def sq_on_event_def sq_on_peer_event_def sq_ensure_session_def sq_on_join_def sq_on_leave_def sq_upsert_room_def sq_upsert_peer_def sq_upsert_peer_session_def
  sq_close_session_def sq_online_peers_count_def dbind_def dret_def dcall_def dselect_def dhook_def dwhen_def upd_room_def upd_peer_session_def insert_room_def insert_peer_def
  insert_peer_session_def insert_event_def sq_live_room_def online_in_def room_hook_event_def sq_new_def demo_event_def

text \<open>A peer that leaves and joins again in the same session has two rows; when it leaves for the second time
  the first of them is marked again, the second stays open, and the room is never stopped.\<close>

lemma sq_rejoin_stays_online:
  "\<exists>s sent. rfold (sq_step (\<lambda>_. ()) (\<lambda>p. p)) [demo_event 1 (Ce_Join ''r'' ''p''), demo_event 2 (Ce_Leave ''r'' ''p''), demo_event 3 (Ce_Join ''r'' ''p''), demo_event 4 (Ce_Leave ''r'' ''p'')]
       (sq_new 1 [] 100 [], []) = Inr (s, sent) \<and> online_in 1 s \<noteq> [] \<and> (\<forall>r\<in>set (sq_rooms s). rr_last_peer_leaved_at r = None)"
  by (simp add: sq_eval)

text \<open>A peer that leaves a room which has been stopped starts it again.\<close>

lemma sq_late_leave_restarts:
  assumes "sq_live_room app room s = None" "sq_faults s = []" "find (\<lambda>p. ps_peer p = sq_peer_seq s \<and> ps_session p = session) (sq_peer_sessions s) = None"
    "find (\<lambda>p. pr_room p = sq_room_seq s \<and> pr_peer p = peer) (sq_peers s) = None" "\<forall>p\<in>set (sq_peer_sessions s). ps_peer p \<noteq> sq_peer_seq s" "\<forall>p\<in>set (sq_peers s). pr_room p \<noteq> sq_room_seq s"
  shows "map (hk_event \<circ> snd) (sq_hook_events (fst (sq_on_leave now ts app session room peer s))) =
     map (hk_event \<circ> snd) (sq_hook_events s) @ [Hook_Room app room (Rh_PeerLeaved peer), Hook_Room app room Rh_Started, Hook_Room app room Rh_AllPeersLeaved]"
proof -
  have "filter (\<lambda>p. ps_leaved_at p = None \<and> (\<exists>q\<in>insert \<lparr>pr_id = sq_peer_seq s, pr_room = sq_room_seq s, pr_peer = peer, pr_created_at = now\<rparr> (set (sq_peers s)). pr_id q = ps_peer p \<and> pr_room q = sq_room_seq s)) (sq_peer_sessions s) = []"
    using assms(5,6) by (auto simp: filter_empty_conv)
  then show ?thesis using assms(1-4) by (simp add: sq_eval)
qed

text \<open>When the insertion of a room fails, the hook event of its start has been queued and will be again.\<close>

lemma sq_started_twice:
  "\<exists>s sent. rfold (sq_step (\<lambda>_. ()) (\<lambda>p. p)) [demo_event 1 (Ce_Join ''r'' ''p''), demo_event 2 (Ce_Join ''r'' ''p'')] (sq_new 1 [] 100 [False, False, False, True], []) = Inr (s, sent) \<and>
     length (filter (\<lambda>h. hk_event (snd h) = Hook_Room ''app'' ''r'' Rh_Started) (sq_hook_events s)) = 2"
  by (simp add: sq_eval)

lemma sq_stats_panics: "sq_on_event json presign now node ts (Rq_Peer \<lparr>cpe_app = app, cpe_session_id = i, cpe_event = Some (Ce_Stats a b)\<rparr>) (sq_new n f d []) = Inl Explicit_Panic"
  by (simp add: sq_eval)

text \<open>The pages of a list, one after the other, are the list; a limit of zero panics.\<close>

lemma pages_complete:
  assumes "calc_page_num (length xs) limit = Inr n" "limit > 0" shows "concat (map (\<lambda>p. take limit (drop (p * limit) xs)) [0..<n]) = xs"
proof -
  have pages: "concat (map (\<lambda>p. take limit (drop (p * limit) xs)) [0..<m]) = take (m * limit) xs" for m
    by (induction m) (simp_all add: take_add [symmetric] add.commute [of limit])
  have "length xs \<le> n * limit"
  proof (cases "xs = []")
    case False
    then have "n = 1 + (length xs - 1) div limit" using assms by (auto simp: calc_page_num_def split: if_splits)
    then have "length xs - 1 < n * limit" using assms(2) dividend_less_div_times [of limit "length xs - 1"] by simp
    then show ?thesis by simp
  qed simp
  then show ?thesis by (simp add: pages)
qed

lemma sq_events_pages:
  assumes "limit > 0"
  shows "\<exists>n. concat (map (\<lambda>p. case sq_events_page session from_ts to_ts p limit s of Inr r \<Rightarrow> pg_data r | Inl _ \<Rightarrow> []) [0..<n]) =
       sort_key (\<lambda>r. - int (er_created_at r)) (filter (event_matches session from_ts to_ts) (sq_events s)) \<and> map_sum id pg_total (sq_events_page session from_ts to_ts 0 limit s) = Inr n"
proof -
  let ?rows = "filter (event_matches session from_ts to_ts) (sq_events s)"
  have "\<exists>n. calc_page_num (length ?rows) limit = Inr n" using assms by (simp add: calc_page_num_def)
  then obtain n where n: "calc_page_num (length ?rows) limit = Inr n" by blast
  then have "calc_page_num (length (sort_key (\<lambda>r. - int (er_created_at r)) ?rows)) limit = Inr n" by simp
  from pages_complete [OF this assms] show ?thesis using n by (intro exI [of _ n]) (simp add: sq_events_page_def Let_def)
qed

lemma page_limit_zero: "filter (event_matches None None None) (sq_events s) \<noteq> [] \<Longrightarrow> sq_events_page None None None page 0 s = Inl Explicit_Panic"
  by (simp add: sq_events_page_def calc_page_num_def Let_def)

end
