(* ===== verification/Gateway_Service.thy ===== *)
theory Gateway_Service
  imports Net_Service Gateway_Store
begin

text \<open>
  \<^verbatim>\<open>packages/media_gateway/src/agent_service.rs\<close> and \<^verbatim>\<open>store_service.rs\<close>: the agent on a media node, which
  tells the gateways of its zone once per tick how busy the node is, and the store service on a
  gateway, which feeds what it hears into the store (\<open>Gateway_Store\<close>), tells the other zones about its own
  and answers the questions for a node. The serialiser of the protobuf library is a parameter, and
  the counters of broadcasts wrap at 16 bits, as they do in a release build.
\<close>

section \<open>Messages\<close>

definition GATEWAY_DATA_PORT :: nat where "GATEWAY_DATA_PORT = 10001"
definition STORE_SERVICE_ID :: nat where "STORE_SERVICE_ID = 101"

record 'l gateway_ping =
  gp_cpu :: nat
  gp_memory :: nat
  gp_disk :: nat
  gp_webrtc :: "service_stats option"
  gp_rtpengine :: "service_stats option"
  gp_origin :: "'l ping_origin option"

datatype 'l gateway_event_body = Ge_Ping "'l gateway_ping"

record 'l gateway_event =
  ge_event :: "'l gateway_event_body option"

section \<open>The agent\<close>

record service_workers_stats =
  ws_max :: nat
  ws_workers :: "(nat, nat) imap"

text \<open>\<^verbatim>\<open>From<&ServiceWorkersStats> for ServiceStats\<close>\<close>

definition ws_stats :: "service_workers_stats \<Rightarrow> service_stats" where
  "ws_stats w = \<lparr>st_live = foldl u32_add 0 (map snd (ws_workers w)), st_max = ws_max w, st_active = True\<rparr>"

datatype gateway_agent_control = Ga_NodeStats node_metrics | Ga_WorkerUsage service_kind nat nat

record ('u, 'b) gateway_agent =
  ga_output :: "('u, unit, 'b) service_output option"
  ga_seq :: nat
  ga_node :: node_metrics
  ga_services :: "(service_kind, service_workers_stats) imap"
  ga_shutdown :: bool

definition ga_new :: "(service_kind, nat) imap \<Rightarrow> ('u, 'b) gateway_agent" where
  "ga_new mx = \<lparr>ga_output = None, ga_seq = 0, ga_node = \<lparr>nm_cpu = 0, nm_memory = 0, nm_disk = 0\<rparr>,
     ga_services = im_map (\<lambda>v. \<lparr>ws_max = v, ws_workers = []\<rparr>) mx, ga_shutdown = False\<rparr>"

definition ga_is_service_empty :: "('u, 'b) gateway_agent \<Rightarrow> bool" where
  "ga_is_service_empty a \<longleftrightarrow> ga_shutdown a \<and> ga_output a = None"

definition ga_on_shared_input :: "('l gateway_event \<Rightarrow> 'b) \<Rightarrow> shared_input \<Rightarrow> ('u, 'b) gateway_agent \<Rightarrow> ('u, 'b) gateway_agent" where
  "ga_on_shared_input enc i a = (case i of
     Shared_Tick \<Rightarrow> (let rule = To_Services STORE_SERVICE_ID Level_Group (ga_seq a);
         data = enc \<lparr>ge_event = Some (Ge_Ping \<lparr>gp_cpu = nm_cpu (ga_node a), gp_memory = nm_memory (ga_node a), gp_disk = nm_disk (ga_node a),
           gp_webrtc = map_option ws_stats (im_get (ga_services a) Webrtc), gp_rtpengine = map_option ws_stats (im_get (ga_services a) RtpEngine), gp_origin = Some Og_Media\<rparr>)\<rparr> in
       a\<lparr>ga_seq := as_u16 (ga_seq a + 1), ga_output := Some (Out_Feature (Data_Send_Rule GATEWAY_DATA_PORT rule True data))\<rparr>)
   | Shared_Connection \<Rightarrow> a)"

definition ga_on_control :: "gateway_agent_control \<Rightarrow> ('u, 'b) gateway_agent \<Rightarrow> ('u, 'b) gateway_agent" where
  "ga_on_control c a = (case c of
     Ga_NodeStats metrics \<Rightarrow> a\<lparr>ga_node := metrics\<rparr>
   | Ga_WorkerUsage kind worker live \<Rightarrow> (case im_get (ga_services a) kind of None \<Rightarrow> a
       | Some service \<Rightarrow> a\<lparr>ga_services := im_insert kind (service\<lparr>ws_workers := im_insert worker live (ws_workers service)\<rparr>) (ga_services a)\<rparr>))"

definition ga_on_input :: "('u, gateway_agent_control, 'b) service_input \<Rightarrow> ('u, 'b) gateway_agent \<Rightarrow> ('u, 'b) gateway_agent" where
  "ga_on_input i a = (case i of
     In_Control _ control \<Rightarrow> (case control of None \<Rightarrow> a | Some c \<Rightarrow> ga_on_control c a)
   | In_From_Worker \<Rightarrow> a
   | In_Data _ \<Rightarrow> a
   | In_Feature \<Rightarrow> a)"

definition ga_on_shutdown :: "('u, 'b) gateway_agent \<Rightarrow> ('u, 'b) gateway_agent" where
  "ga_on_shutdown a = a\<lparr>ga_shutdown := True\<rparr>"

definition ga_pop_output2 :: "('u, 'b) gateway_agent \<Rightarrow> ('u, 'b) gateway_agent \<times> ('u, unit, 'b) service_output option" where
  "ga_pop_output2 a = (a\<lparr>ga_output := None\<rparr>, ga_output a)"

section \<open>The store service\<close>

datatype 'l store_control =
    Sc_NodeStats node_metrics
  | Sc_FindNodeReq nat service_kind "'l option"
  | Sc_FindDestReq nat service_kind nat
  | Sc_GetMediaStats

datatype store_event = Se_MediaStats nat nat | Se_FindNodeRes nat "nat option" | Se_FindDestRes nat "nat option"

record ('u, 'l, 'b) store_service =
  gss_queue :: "('u, store_event, 'b) service_output list"
  gss_store :: "'l gateway_store"
  gss_seq :: nat
  gss_shutdown :: bool

definition gss_new :: "nat \<Rightarrow> 'l \<Rightarrow> nat \<Rightarrow> nat \<Rightarrow> nat \<Rightarrow> ('u, 'l, 'b) store_service" where
  "gss_new zone location max_cpu max_memory max_disk = \<lparr>gss_queue = [Out_Feature (Data_Listen GATEWAY_DATA_PORT)],
     gss_store = gs_new zone location max_cpu max_memory max_disk, gss_seq = 0, gss_shutdown = False\<rparr>"

definition gss_handle_event :: "('b \<Rightarrow> 'l gateway_event option) \<Rightarrow> nat \<Rightarrow> nat option \<Rightarrow> 'b \<Rightarrow> ('u, 'l, 'b) store_service \<Rightarrow> ('u, 'l, 'b) store_service run" where
  "gss_handle_event dec now source data s = (case source of None \<Rightarrow> Inr s
     | Some src \<Rightarrow> (case dec data of None \<Rightarrow> Inr s
       | Some req \<Rightarrow> (case ge_event req of None \<Rightarrow> Inr s
         | Some (Ge_Ping ping) \<Rightarrow> (case gp_origin ping of None \<Rightarrow> Inr s
           | Some origin \<Rightarrow> rbind (gs_on_ping now src \<lparr>pg_cpu = as_u8 (gp_cpu ping), pg_memory = as_u8 (gp_memory ping), pg_disk = as_u8 (gp_disk ping),
               pg_origin = origin, pg_webrtc = gp_webrtc ping, pg_rtpengine = gp_rtpengine ping\<rparr> (gss_store s)) (\<lambda>st. Inr (s\<lparr>gss_store := st\<rparr>))))))"

definition gss_is_service_empty :: "('u, 'l, 'b) store_service \<Rightarrow> bool" where
  "gss_is_service_empty s \<longleftrightarrow> gss_shutdown s \<and> gss_queue s = []"

definition gss_on_shared_input :: "('l gateway_event \<Rightarrow> 'b) \<Rightarrow> nat \<Rightarrow> shared_input \<Rightarrow> ('u, 'l, 'b) store_service \<Rightarrow> ('u, 'l, 'b) store_service" where
  "gss_on_shared_input enc now i s = (case i of
     Shared_Tick \<Rightarrow> (let (st, out) = gs_pop_output (gs_on_tick now (gss_store s)); s1 = s\<lparr>gss_store := st\<rparr> in case out of None \<Rightarrow> s1
       | Some ping \<Rightarrow> (let rule = To_Services STORE_SERVICE_ID Level_Global (gss_seq s1);
           data = enc \<lparr>ge_event = Some (Ge_Ping \<lparr>gp_cpu = pg_cpu ping, gp_memory = pg_memory ping, gp_disk = pg_disk ping, gp_webrtc = pg_webrtc ping,
             gp_rtpengine = pg_rtpengine ping, gp_origin = Some (pg_origin ping)\<rparr>)\<rparr> in
           s1\<lparr>gss_seq := as_u16 (gss_seq s1 + 1), gss_queue := gss_queue s1 @ [Out_Feature (Data_Send_Rule GATEWAY_DATA_PORT rule True data)]\<rparr>))
   | Shared_Connection \<Rightarrow> s)"

definition gss_on_control :: "('l \<Rightarrow> 'l \<Rightarrow> 'd::linorder) \<Rightarrow> 'u \<Rightarrow> 'l store_control \<Rightarrow> ('u, 'l, 'b) store_service \<Rightarrow> ('u, 'l, 'b) store_service" where
  "gss_on_control dis actor c s = (case c of
     Sc_FindNodeReq req_id kind location \<Rightarrow> s\<lparr>gss_queue := gss_queue s @ [Out_Event actor (Se_FindNodeRes req_id (gs_best_for dis kind location (gss_store s)))]\<rparr>
   | Sc_FindDestReq req_id kind dest \<Rightarrow> s\<lparr>gss_queue := gss_queue s @ [Out_Event actor (Se_FindDestRes req_id (gs_dest_for kind dest (gss_store s)))]\<rparr>
   | Sc_NodeStats metrics \<Rightarrow> s\<lparr>gss_store := gs_on_node_metrics metrics (gss_store s)\<rparr>
   | Sc_GetMediaStats \<Rightarrow> (case gs_local_stats (gss_store s) of None \<Rightarrow> s
       | Some stats \<Rightarrow> s\<lparr>gss_queue := gss_queue s @ [Out_Event actor (Se_MediaStats (st_live stats) (st_max stats))]\<rparr>))"

definition gss_on_input :: "('l \<Rightarrow> 'l \<Rightarrow> 'd::linorder) \<Rightarrow> ('b \<Rightarrow> 'l gateway_event option) \<Rightarrow> nat \<Rightarrow> ('u, 'l store_control, 'b) service_input \<Rightarrow> ('u, 'l, 'b) store_service \<Rightarrow> ('u, 'l, 'b) store_service run" where
  "gss_on_input dis dec now i s = (case i of
     In_Data (Data_Recv _ source data) \<Rightarrow> gss_handle_event dec now source data s
   | In_Control actor (Some c) \<Rightarrow> Inr (gss_on_control dis actor c s)
   | _ \<Rightarrow> Inr s)"

definition gss_on_shutdown :: "('u, 'l, 'b) store_service \<Rightarrow> ('u, 'l, 'b) store_service" where
  "gss_on_shutdown s = s\<lparr>gss_shutdown := True\<rparr>"

definition gss_pop_output2 :: "('u, 'l, 'b) store_service \<Rightarrow> ('u, 'l, 'b) store_service \<times> ('u, store_event, 'b) service_output option" where
  "gss_pop_output2 s = (case gss_queue s of [] \<Rightarrow> (s, None) | x # xs \<Rightarrow> (s\<lparr>gss_queue := xs\<rparr>, Some x))"

section \<open>What an agent knows\<close>

text \<open>The metrics and the usage of a worker last reported to an agent, and the workers of a service.\<close>

fun last_metrics :: "gateway_agent_control list \<Rightarrow> node_metrics" where
  "last_metrics [] = \<lparr>nm_cpu = 0, nm_memory = 0, nm_disk = 0\<rparr>"
| "last_metrics (Ga_NodeStats m # cs) = m"
| "last_metrics (Ga_WorkerUsage _ _ _ # cs) = last_metrics cs"

fun last_usage :: "service_kind \<Rightarrow> nat \<Rightarrow> gateway_agent_control list \<Rightarrow> nat" where
  "last_usage kind w [] = 0"
| "last_usage kind w (Ga_NodeStats _ # cs) = last_usage kind w cs"
| "last_usage kind w (Ga_WorkerUsage k v live # cs) = (if k = kind \<and> v = w then live else last_usage kind w cs)"

definition workers_of :: "service_kind \<Rightarrow> gateway_agent_control list \<Rightarrow> nat set" where
  "workers_of kind cs = {w. \<exists>live. Ga_WorkerUsage kind w live \<in> set cs}"

lemma workers_of_simps [simp]: "workers_of kind [] = {}" "workers_of kind (Ga_NodeStats m # cs) = workers_of kind cs"
  "workers_of kind (Ga_WorkerUsage k w live # cs) = (if k = kind then insert w (workers_of kind cs) else workers_of kind cs)"
  by (auto simp: workers_of_def)

definition service_known :: "nat option \<Rightarrow> service_kind \<Rightarrow> gateway_agent_control list \<Rightarrow> service_workers_stats option \<Rightarrow> bool" where
  "service_known mx kind cs x \<longleftrightarrow> (case x of None \<Rightarrow> mx = None
     | Some s \<Rightarrow> mx = Some (ws_max s) \<and> im_wf (ws_workers s) \<and> fst ` set (ws_workers s) = workers_of kind cs \<and> (\<forall>w\<in>workers_of kind cs. im_get (ws_workers s) w = Some (last_usage kind w cs)))"

definition agent_knows :: "(service_kind, nat) imap \<Rightarrow> gateway_agent_control list \<Rightarrow> ('u, 'b) gateway_agent \<Rightarrow> bool" where
  "agent_knows mx cs a \<longleftrightarrow> ga_node a = last_metrics cs \<and> (\<forall>kind. service_known (im_get mx kind) kind cs (im_get (ga_services a) kind))"

lemma service_known_other: "service_known mx kind cs x \<Longrightarrow> k \<noteq> kind \<Longrightarrow> service_known mx kind (Ga_WorkerUsage k w live # cs) x" "service_known mx kind cs x \<Longrightarrow> service_known mx kind (Ga_NodeStats m # cs) x"
  by (auto simp: service_known_def split: option.splits)

lemma service_known_same:
  "service_known mx kind cs None \<Longrightarrow> service_known mx kind (Ga_WorkerUsage kind w live # cs) None"
  "service_known mx kind cs (Some s) \<Longrightarrow> service_known mx kind (Ga_WorkerUsage kind w live # cs) (Some (s\<lparr>ws_workers := im_insert w live (ws_workers s)\<rparr>))"
  by (auto simp: service_known_def im_upd im_keys_insert)

lemma agent_knows_step:
  assumes "agent_knows mx cs a" shows "agent_knows mx (c # cs) (ga_on_control c a)"
proof (cases c)
  case (Ga_NodeStats m)
  then show ?thesis using assms service_known_other(2) by (simp add: agent_knows_def ga_on_control_def)
next
  case (Ga_WorkerUsage k w live)
  show ?thesis
  proof (cases "im_get (ga_services a) k")
    case None
    then have "service_known (im_get mx kind) kind (c # cs) (im_get (ga_services a) kind)" for kind
      using assms service_known_other(1) service_known_same(1) unfolding agent_knows_def Ga_WorkerUsage by metis
    then show ?thesis using assms None by (simp add: agent_knows_def ga_on_control_def Ga_WorkerUsage)
  next
    case (Some s)
    let ?s = "s\<lparr>ws_workers := im_insert w live (ws_workers s)\<rparr>"
    have "service_known (im_get mx k) k (c # cs) (Some ?s)" using assms Some unfolding agent_knows_def Ga_WorkerUsage by (intro service_known_same(2)) metis
    moreover have "service_known (im_get mx kind) kind (c # cs) (im_get (ga_services a) kind)" if "kind \<noteq> k" for kind
      using assms that unfolding agent_knows_def Ga_WorkerUsage by (intro service_known_other(1)) auto
    ultimately show ?thesis using assms Some by (simp add: agent_knows_def ga_on_control_def Ga_WorkerUsage im_get_insert)
  qed
qed

lemma agent_knows_run: "agent_knows mx (rev cs) (fold ga_on_control cs (ga_new mx))"
proof (induction cs rule: rev_induct)
  case Nil
  then show ?case by (auto simp: agent_knows_def service_known_def ga_new_def split: option.split)
next
  case (snoc c cs)
  then show ?case using agent_knows_step by simp
qed

lemma sum_u32: "sum_list xs < 2 ^ 32 \<Longrightarrow> foldl u32_add 0 xs = sum_list xs"
proof (induction xs rule: rev_induct)
  case (snoc x xs)
  then have "foldl u32_add 0 xs = sum_list xs" by simp
  then show ?case using snoc.prems u32_add_small [of "sum_list xs" x] by simp
qed simp

text \<open>What a node has to say of a service, from what was reported to its agent.\<close>

definition reported :: "(service_kind, nat) imap \<Rightarrow> gateway_agent_control list \<Rightarrow> service_kind \<Rightarrow> service_stats option" where
  "reported mx cs kind = map_option (\<lambda>m. \<lparr>st_live = (\<Sum>w\<in>workers_of kind (rev cs). last_usage kind w (rev cs)), st_max = m, st_active = True\<rparr>) (im_get mx kind)"

lemma known_stats:
  assumes "service_known mx kind cs x" "(\<Sum>w\<in>workers_of kind cs. last_usage kind w cs) < 2 ^ 32"
  shows "map_option ws_stats x = map_option (\<lambda>m. \<lparr>st_live = (\<Sum>w\<in>workers_of kind cs. last_usage kind w cs), st_max = m, st_active = True\<rparr>) mx"
proof (cases x)
  case None
  then show ?thesis using assms(1) by (simp add: service_known_def)
next
  case (Some s)
  have s: "mx = Some (ws_max s)" "im_wf (ws_workers s)" "fst ` set (ws_workers s) = workers_of kind cs" "\<forall>w\<in>workers_of kind cs. im_get (ws_workers s) w = Some (last_usage kind w cs)"
    using assms(1) Some by (simp_all add: service_known_def)
  have "snd p = last_usage kind (fst p) cs" if "p \<in> set (ws_workers s)" for p
  proof -
    have "im_get (ws_workers s) (fst p) = Some (snd p)" using that im_get_eq_Some [OF s(2)] by simp
    moreover have "fst p \<in> workers_of kind cs" using that s(3) by blast
    ultimately show ?thesis using s(4) by simp
  qed
  then have "sum_list (map snd (ws_workers s)) = sum_list (map (\<lambda>p. last_usage kind (fst p) cs) (ws_workers s))" by (metis map_cong)
  also have "\<dots> = sum_list (map (\<lambda>w. last_usage kind w cs) (map fst (ws_workers s)))" by (simp add: comp_def)
  also have "\<dots> = (\<Sum>w\<in>set (map fst (ws_workers s)). last_usage kind w cs)" by (rule sum_list_distinct_conv_sum_set) (use s(2) in \<open>simp add: im_wf_def\<close>)
  also have "\<dots> = (\<Sum>w\<in>workers_of kind cs. last_usage kind w cs)" using s(3) by simp
  finally have "foldl u32_add 0 (map snd (ws_workers s)) = (\<Sum>w\<in>workers_of kind cs. last_usage kind w cs)" using sum_u32 assms(2) by simp
  then show ?thesis using Some s(1) by (simp add: ws_stats_def)
qed

lemma agent_run_node: "ga_node (fold ga_on_control cs (ga_new mx)) = last_metrics (rev cs)"
  by (rule agent_knows_run [unfolded agent_knows_def, THEN conjunct1])

lemma agent_run_stats:
  assumes "\<forall>kind. (\<Sum>w\<in>workers_of kind (rev cs). last_usage kind w (rev cs)) < 2 ^ 32"
  shows "map_option ws_stats (im_get (ga_services (fold ga_on_control cs (ga_new mx))) kind) = reported mx cs kind"
  unfolding reported_def by (rule known_stats, rule agent_knows_run [unfolded agent_knows_def, THEN conjunct2, rule_format]) (use assms in simp)

section \<open>The store behind the service\<close>

text \<open>Every question for a node gets one answer, to the actor that asked and with its id: the node the store
  chooses at that moment.\<close>

lemma gss_answers:
  "gss_on_input dis dec now (In_Control actor (Some (Sc_FindNodeReq i kind location))) s = Inr (s\<lparr>gss_queue := gss_queue s @ [Out_Event actor (Se_FindNodeRes i (gs_best_for dis kind location (gss_store s)))]\<rparr>)"
  by (simp add: gss_on_input_def gss_on_control_def)

text \<open>The store of a service is one that the operations of \<open>Gateway_Store\<close> reach, so what is proved of them holds
  for its answers.\<close>

definition gss_step :: "('l \<Rightarrow> 'l \<Rightarrow> 'd::linorder) \<Rightarrow> ('l gateway_event \<Rightarrow> 'b) \<Rightarrow> ('b \<Rightarrow> 'l gateway_event option) \<Rightarrow> nat \<times> ('u, 'l store_control, 'b) service_input option \<Rightarrow> ('u, 'l, 'b) store_service \<Rightarrow> ('u, 'l, 'b) store_service run" where
  "gss_step dis enc dec = (\<lambda>(now, i) s. case i of None \<Rightarrow> Inr (gss_on_shared_input enc now Shared_Tick s) | Some i \<Rightarrow> gss_on_input dis dec now i s)"

lemma gss_step_store: "gss_step dis enc dec x s = Inr s' \<Longrightarrow> \<exists>ys. rfold gs_step ys (gss_store s) = Inr (gss_store s')"
proof -
  assume step: "gss_step dis enc dec x s = Inr s'"
  obtain now i where x: "x = (now, i)" by (cases x)
  show ?thesis
  proof (cases "gss_store s' = gss_store s")
    case True
    then show ?thesis by (intro exI [of _ "[]"]) simp
  next
    case False
    have "rfold gs_step [Gs_Tick now, Gs_Pop] (gss_store s) = Inr (gss_store s') \<or> (\<exists>y. gs_step y (gss_store s) = Inr (gss_store s'))"
    proof (cases i)
      case None
      then show ?thesis using step by (auto simp: x gss_step_def gss_on_shared_input_def gs_step_def gs_pop_output_def Let_def split: option.splits)
    next
      case (Some j)
      then consider (data) p source b where "j = In_Data (Data_Recv p source b)" "gss_handle_event dec now source b s = Inr s'"
        | (control) u c where "s' = gss_on_control dis u c s" using step False
        by (auto simp: x gss_step_def gss_on_input_def split: service_input.splits data_event.splits option.splits)
      then show ?thesis
      proof cases
        case data
        then obtain ping src where "gs_on_ping now src ping (gss_store s) = Inr (gss_store s')" using False
          by (auto simp: gss_handle_event_def rbind_eq_Inr split: option.splits gateway_event_body.splits)
        then show ?thesis by (intro disjI2 exI [of _ "Gs_Ping now src ping"]) (simp add: gs_step_def)
      next
        case control
        then obtain m where "gss_store s' = gs_on_node_metrics m (gss_store s)" using False by (auto simp: gss_on_control_def split: store_control.splits option.splits)
        then show ?thesis by (intro disjI2 exI [of _ "Gs_Metrics m"]) (simp add: gs_step_def)
      qed
    qed
    then show ?thesis by (metis rbind_Inr rfold.simps)
  qed
qed

lemma gss_run_store: "rfold (gss_step dis enc dec) xs s = Inr s' \<Longrightarrow> \<exists>ys. rfold gs_step ys (gss_store s) = Inr (gss_store s')"
proof (induction xs arbitrary: s)
  case (Cons x xs)
  then obtain s1 where s1: "gss_step dis enc dec x s = Inr s1" "rfold (gss_step dis enc dec) xs s1 = Inr s'" by (auto simp: rbind_eq_Inr)
  obtain ys zs where "rfold gs_step ys (gss_store s) = Inr (gss_store s1)" "rfold gs_step zs (gss_store s1) = Inr (gss_store s')" using gss_step_store [OF s1(1)] Cons.IH [OF s1(2)] by blast
  then show ?case by (intro exI [of _ "ys @ zs"]) (simp add: rfold_append)
qed (intro exI [of _ "[]"], simp)

section \<open>What a gateway knows of a node\<close>

text \<open>The entry of a node of the gateway's own zone, and the entry a ping leaves: with the statistics of the ping when the
  node was unknown, and with those the node had when it was known.\<close>

definition gs_entry :: "service_kind \<Rightarrow> nat \<Rightarrow> 'l gateway_store \<Rightarrow> node_source option" where
  "gs_entry kind node st = find (\<lambda>e. ns_node e = node) (ss_local_sources (gs_service kind st))"

definition entry_stats :: "node_source option \<Rightarrow> service_stats \<Rightarrow> service_stats" where
  "entry_stats e stats = (case e of None \<Rightarrow> stats | Some x \<Rightarrow> ns_stats x)"

lemma find_node: "distinct (map ns_node ns) \<Longrightarrow> find (\<lambda>e. ns_node e = n) ns = Some e \<longleftrightarrow> e \<in> set ns \<and> ns_node e = n"
  by (induction ns) (auto simp: image_iff)

lemma find_sorted:
  fixes ns :: "node_source list"
  assumes "distinct (map ns_node ns)" shows "find (\<lambda>e. ns_node e = n) (sort_key ns_usage ns) = find (\<lambda>e. ns_node e = n) ns"
proof -
  have "distinct (map ns_node (sort_key ns_usage ns))" using ns_ok_sort [OF assms] by (simp add: ns_ok_def)
  from find_node [OF this, of n] find_node [OF assms, of n] have "find (\<lambda>e. ns_node e = n) (sort_key ns_usage ns) = Some e \<longleftrightarrow> find (\<lambda>e. ns_node e = n) ns = Some e" for e by simp
  then show ?thesis by (cases "find (\<lambda>e. ns_node e = n) ns") (auto intro: option.expand)
qed

lemma find_ns_ping:
  "find (\<lambda>e. ns_node e = n) (ns_ping now node usage stats ns) = (if n = node
     then Some \<lparr>ns_node = node, ns_usage = usage, ns_stats = entry_stats (find (\<lambda>e. ns_node e = node) ns) stats, ns_last_updated = now\<rparr>
     else find (\<lambda>e. ns_node e = n) ns)"
proof -
  have app: "find p (xs @ ys) = (case find p xs of None \<Rightarrow> find p ys | Some x \<Rightarrow> Some x)" for p :: "node_source \<Rightarrow> bool" and xs ys by (induction xs) auto
  have upd: "find (\<lambda>e. ns_node e = n) (upd_first (\<lambda>s. ns_node s = node) (\<lambda>s. s\<lparr>ns_usage := usage, ns_last_updated := now\<rparr>) ns) =
      (if n = node then map_option (\<lambda>s. s\<lparr>ns_usage := usage, ns_last_updated := now\<rparr>) (find (\<lambda>e. ns_node e = node) ns) else find (\<lambda>e. ns_node e = n) ns)"
    by (induction ns) auto
  show ?thesis
  proof (cases "find (\<lambda>e. ns_node e = node) ns")
    case None
    then have "\<not> (\<exists>s\<in>set ns. ns_node s = node)" by (simp add: find_None_iff)
    then show ?thesis using None by (simp add: ns_ping_def app entry_stats_def split: option.split)
  next
    case (Some e)
    then have e: "e \<in> set ns" "ns_node e = node" by (auto simp: find_Some_iff)
    then have "\<exists>s\<in>set ns. ns_node s = node" by blast
    then show ?thesis using Some e(2) by (cases e) (simp add: ns_ping_def upd entry_stats_def)
  qed
qed

lemma find_del_first: "distinct (map ns_node ns) \<Longrightarrow>
    find (\<lambda>e. ns_node e = n) (del_first (\<lambda>x. ns_node x = node) ns) = (if n = node then None else find (\<lambda>e. ns_node e = n) ns)"
  by (induction ns) (auto simp: find_None_iff image_iff)

lemma find_ss_ping:
  assumes "ss_wf s"
  shows "find (\<lambda>e. ns_node e = n) (ss_local_sources (ss_ping now node nu u stats s)) = (if n \<noteq> node then find (\<lambda>e. ns_node e = n) (ss_local_sources s)
     else case (nu, u, stats) of
       (Some _, Some v, Some st) \<Rightarrow> Some \<lparr>ns_node = node, ns_usage = v, ns_stats = entry_stats (find (\<lambda>e. ns_node e = node) (ss_local_sources s)) st, ns_last_updated = now\<rparr>
     | _ \<Rightarrow> None)"
proof -
  have "distinct (map ns_node (ss_local_sources s))" using assms by (simp add: ss_wf_def ns_ok_def)
  then show ?thesis
    by (simp add: ss_ping_def ss_on_node_ping_def ss_remove_node_def find_sorted ns_ping_distinct find_ns_ping find_del_first split: option.split)
qed

text \<open>The load of a service as the gateway counts it, and the entry for it when the node is within its limits.\<close>

definition load_of :: "nat \<Rightarrow> service_stats \<Rightarrow> nat" where
  "load_of cpu r = max cpu (as_u8 (as_u32 (st_live r * 100) div st_max r))"

definition within_limits :: "node_metrics \<Rightarrow> 'l gateway_store \<Rightarrow> bool" where
  "within_limits m st \<longleftrightarrow> nm_cpu m < gs_max_cpu st \<and> nm_memory m < gs_max_memory st \<and> nm_disk m < gs_max_disk st"

lemma service_usage_reported:
  assumes "pg_cpu ping = nm_cpu m" "pg_memory ping = nm_memory m" "pg_disk ping = nm_disk m" "\<forall>r. stats = Some r \<longrightarrow> st_active r \<and> 0 < st_max r"
  shows "service_usage ping stats (gs_max_cpu st) (gs_max_memory st) (gs_max_disk st) = Inr (if within_limits m st then map_option (load_of (nm_cpu m)) stats else None)"
  using assms by (auto simp: service_usage_def node_usage_def within_limits_def load_percent_def load_of_def split: option.split)

lemma gs_on_ping_entries:
  fixes stats
  assumes "gs_wf st" "\<forall>kind r. stats kind = Some r \<longrightarrow> st_active r \<and> 0 < st_max r"
  shows "\<exists>st'. gs_on_ping now node \<lparr>pg_cpu = nm_cpu m, pg_memory = nm_memory m, pg_disk = nm_disk m, pg_origin = Og_Media,
       pg_webrtc = stats Webrtc, pg_rtpengine = stats RtpEngine\<rparr> st = Inr st' \<and>
     (\<forall>kind n. gs_entry kind n st' = (if n \<noteq> node then gs_entry kind n st else if \<not> within_limits m st then None
        else map_option (\<lambda>r. \<lparr>ns_node = node, ns_usage = load_of (nm_cpu m) r, ns_stats = entry_stats (gs_entry kind node st) r, ns_last_updated = now\<rparr>) (stats kind)))"
proof -
  let ?ping = "\<lparr>pg_cpu = nm_cpu m, pg_memory = nm_memory m, pg_disk = nm_disk m, pg_origin = Og_Media, pg_webrtc = stats Webrtc, pg_rtpengine = stats RtpEngine\<rparr>"
  let ?n = "if within_limits m st then Some (nm_cpu m) else None" and ?u = "\<lambda>kind. if within_limits m st then map_option (load_of (nm_cpu m)) (stats kind) else None"
  let ?st = "st\<lparr>gs_webrtc := ss_ping now node ?n (?u Webrtc) (stats Webrtc) (gs_webrtc st), gs_rtpengine := ss_ping now node ?n (?u RtpEngine) (stats RtpEngine) (gs_rtpengine st)\<rparr>"
  have usage: "service_usage ?ping (stats kind) (gs_max_cpu st) (gs_max_memory st) (gs_max_disk st) = Inr (?u kind)" for kind
    by (rule service_usage_reported) (use assms(2) in simp_all)
  have limit: "node_usage ?ping (gs_max_cpu st) (gs_max_memory st) (gs_max_disk st) = ?n" by (auto simp: node_usage_def within_limits_def)
  have "gs_on_ping now node ?ping st = Inr ?st" unfolding gs_on_ping_def Let_def limit webrtc_usage_def rtpengine_usage_def by (simp only: ping_event.simps usage ping_origin.simps rbind_Inr)
  moreover have "gs_service kind ?st = ss_ping now node ?n (?u kind) (stats kind) (gs_service kind st)" for kind by (cases kind) (simp_all add: gs_service_def)
  moreover have "ss_wf (gs_service kind st)" for kind using assms(1) by (cases kind) (simp_all add: gs_service_def gs_wf_def)
  ultimately show ?thesis by (intro exI [of _ ?st]) (auto simp: gs_entry_def find_ss_ping split: option.split)
qed

section \<open>Properties\<close>

text \<open>
  C37. A node is known at a gateway of its zone as it is: whatever was reported to the agent of a node, with services of nonzero
  capacity, percentages in 8 bits and sums of sessions in 32 bits, the ping of its next tick, when a gateway receives it in
  any state the gateway's service can reach, is taken without a panic and leaves this in the gateway's store. For each service
  the node offers, there is an entry of the node, marked with the present time, whose usage is the larger one of the processor load last
  reported and the percentage of the service's capacity that the sessions last reported by each worker take (as the code
  computes it, in 32 and then 8 bits). Its statistics are the reported ones when the node had no entry; when it had one they stay the old ones (the
  store does not refresh them). There is no entry for a service the node does not offer, and none at
  all when a metric reaches the gateway's limit. The entries of all other nodes are as before.
\<close>
theorem gateway_hears_node:
  assumes codec: "\<And>m. dec (enc m) = Some m"
    and small: "\<forall>m. Ga_NodeStats m \<in> set cs \<longrightarrow> nm_cpu m < 256 \<and> nm_memory m < 256 \<and> nm_disk m < 256"
      "\<forall>kind. (\<Sum>w\<in>workers_of kind (rev cs). last_usage kind w (rev cs)) < 2 ^ 32" "\<forall>kind m. im_get mx kind = Some m \<longrightarrow> 0 < m"
    and reach: "rfold (gss_step dis enc dec) xs (gss_new zone location max_cpu max_memory max_disk) = Inr s"
  shows "\<exists>a rule b st. ga_pop_output2 (ga_on_shared_input enc Shared_Tick (fold ga_on_control cs (ga_new mx))) = (a, Some (Out_Feature (Data_Send_Rule GATEWAY_DATA_PORT rule True b))) \<and>
     gss_on_input dis dec now (In_Data (Data_Recv GATEWAY_DATA_PORT (Some node) b)) s = Inr (s\<lparr>gss_store := st\<rparr>) \<and>
     (\<forall>kind. gs_entry kind node st = (if within_limits (last_metrics (rev cs)) (gss_store s)
        then map_option (\<lambda>r. \<lparr>ns_node = node, ns_usage = load_of (nm_cpu (last_metrics (rev cs))) r, ns_stats = entry_stats (gs_entry kind node (gss_store s)) r,
          ns_last_updated = now\<rparr>) (reported mx cs kind) else None)) \<and>
     (\<forall>kind n. n \<noteq> node \<longrightarrow> gs_entry kind n st = gs_entry kind n (gss_store s))"
proof -
  let ?m = "last_metrics (rev cs)"
  have "nm_cpu m < 256 \<and> nm_memory m < 256 \<and> nm_disk m < 256" if "m = last_metrics ds" "\<forall>m. Ga_NodeStats m \<in> set ds \<longrightarrow> nm_cpu m < 256 \<and> nm_memory m < 256 \<and> nm_disk m < 256" for m ds
    using that by (induction ds rule: last_metrics.induct) auto
  from this [OF refl, of "rev cs"] have u8: "nm_cpu ?m < 256" "nm_memory ?m < 256" "nm_disk ?m < 256" using small(1) by simp_all
  obtain ys where "rfold gs_step ys (gs_new zone location max_cpu max_memory max_disk) = Inr (gss_store s)" using gss_run_store [OF reach] by (auto simp: gss_new_def)
  then have wf: "gs_wf (gss_store s)" by (rule gs_wf_run [OF gs_wf_new])
  have "\<forall>kind r. reported mx cs kind = Some r \<longrightarrow> st_active r \<and> 0 < st_max r" using small(3) by (auto simp: reported_def)
  from gs_on_ping_entries [OF wf this, of now node ?m] obtain st where st: "gs_on_ping now node \<lparr>pg_cpu = nm_cpu ?m, pg_memory = nm_memory ?m, pg_disk = nm_disk ?m, pg_origin = Og_Media,
       pg_webrtc = reported mx cs Webrtc, pg_rtpengine = reported mx cs RtpEngine\<rparr> (gss_store s) = Inr st"
    "\<And>kind n. gs_entry kind n st = (if n \<noteq> node then gs_entry kind n (gss_store s) else if \<not> within_limits ?m (gss_store s) then None
       else map_option (\<lambda>r. \<lparr>ns_node = node, ns_usage = load_of (nm_cpu ?m) r, ns_stats = entry_stats (gs_entry kind node (gss_store s)) r, ns_last_updated = now\<rparr>) (reported mx cs kind))" by blast
  show ?thesis using u8 st(1)
    by (simp add: ga_pop_output2_def ga_on_shared_input_def Let_def gss_on_input_def gss_handle_event_def codec agent_run_node agent_run_stats [OF small(2)] exI [of _ st] st(2) cong: if_cong)
qed

definition demo_reports :: "gateway_agent_control list" where
  "demo_reports = [Ga_NodeStats \<lparr>nm_cpu = 20, nm_memory = 30, nm_disk = 40\<rparr>, Ga_WorkerUsage Webrtc 0 5, Ga_WorkerUsage Webrtc 1 7, Ga_WorkerUsage Webrtc 0 26]"

lemma demo_workers: "workers_of kind (rev demo_reports) = (if kind = Webrtc then {0, 1} else {})"
  by (auto simp: demo_reports_def)

theorem gateway_hears_node_witness:
  "\<exists>a rule b st. ga_pop_output2 (ga_on_shared_input (\<lambda>m::nat gateway_event. m) Shared_Tick (fold ga_on_control demo_reports (ga_new [(Webrtc, 100)] :: (nat, nat gateway_event) gateway_agent))) = (a, Some (Out_Feature (Data_Send_Rule GATEWAY_DATA_PORT rule True b))) \<and>
     gss_on_input (\<lambda>x y. x + y) Some 1000 (In_Data (Data_Recv GATEWAY_DATA_PORT (Some 9) b)) (gss_new 0 1 80 80 80 :: (nat, nat, nat gateway_event) store_service) = Inr ((gss_new 0 1 80 80 80)\<lparr>gss_store := st\<rparr>) \<and>
     gs_entry Webrtc 9 st = Some \<lparr>ns_node = 9, ns_usage = 33, ns_stats = \<lparr>st_live = 33, st_max = 100, st_active = True\<rparr>, ns_last_updated = 1000\<rparr> \<and> gs_entry RtpEngine 9 st = None"
proof -
  let ?new = "gss_new 0 1 80 80 80 :: (nat, nat, nat gateway_event) store_service"
  have sums: "\<forall>kind. (\<Sum>w\<in>workers_of kind (rev demo_reports). last_usage kind w (rev demo_reports)) < 2 ^ 32"
    unfolding demo_workers by (simp add: demo_reports_def)
  have small: "\<forall>m. Ga_NodeStats m \<in> set demo_reports \<longrightarrow> nm_cpu m < 256 \<and> nm_memory m < 256 \<and> nm_disk m < 256" by (simp add: demo_reports_def)
  have caps: "\<forall>kind m. im_get [(Webrtc, 100)] kind = Some m \<longrightarrow> (0::nat) < m" by (simp add: im_get_def)
  have rep: "reported [(Webrtc, 100)] demo_reports Webrtc = Some \<lparr>st_live = 33, st_max = 100, st_active = True\<rparr>" "reported [(Webrtc, 100)] demo_reports RtpEngine = None"
    unfolding reported_def demo_workers by (simp_all add: demo_reports_def im_get_def)
  have metrics: "last_metrics (rev demo_reports) = \<lparr>nm_cpu = 20, nm_memory = 30, nm_disk = 40\<rparr>" by (simp add: demo_reports_def)
  have limits: "within_limits \<lparr>nm_cpu = 20, nm_memory = 30, nm_disk = 40\<rparr> (gss_store ?new)" by (simp add: within_limits_def gss_new_def gs_new_def)
  have unknown: "gs_entry Webrtc 9 (gss_store ?new) = None" by (simp add: gs_entry_def gss_new_def gs_new_def gs_service_def ss_new_def)
  have load: "load_of 20 \<lparr>st_live = 33, st_max = 100, st_active = True\<rparr> = 33" by (simp add: load_of_def as_u8_def as_u32_def)
  from gateway_hears_node [of Some "\<lambda>m. m" demo_reports "[(Webrtc, 100)]" "\<lambda>x y. x + y" "[]" 0 1 80 80 80 ?new 1000 9, OF _ small sums caps]
  obtain a rule b st where
    "ga_pop_output2 (ga_on_shared_input (\<lambda>m::nat gateway_event. m) Shared_Tick (fold ga_on_control demo_reports (ga_new [(Webrtc, 100)] :: (nat, nat gateway_event) gateway_agent))) = (a, Some (Out_Feature (Data_Send_Rule GATEWAY_DATA_PORT rule True b)))"
    "gss_on_input (\<lambda>x y. x + y) Some 1000 (In_Data (Data_Recv GATEWAY_DATA_PORT (Some 9) b)) ?new = Inr (?new\<lparr>gss_store := st\<rparr>)"
    "\<forall>kind. gs_entry kind 9 st = map_option (\<lambda>r. \<lparr>ns_node = 9, ns_usage = load_of 20 r, ns_stats = entry_stats (gs_entry kind 9 (gss_store ?new)) r, ns_last_updated = 1000\<rparr>) (reported [(Webrtc, 100)] demo_reports kind)"
    unfolding metrics by (simp only: limits if_True node_metrics.simps rfold.simps) blast
  then show ?thesis using rep load unknown by (intro exI conjI) (assumption | simp add: entry_stats_def)+
qed

end
