(* ===== verification/Record_Chunk.thy ===== *)
theory Record_Chunk
  imports Conn_Id Endpoint_Types
begin

text \<open>
  The files of a recording: the rows of \<^verbatim>\<open>packages/protocol/src/record.rs\<close>, the memory file of
  \<^verbatim>\<open>packages/media_record/src/storage/memory.rs\<close> and the writer and reader of chunks under
  \<^verbatim>\<open>packages/media_record/src/raw_record\<close>. A chunk is a header and then rows, each behind its length in four
  bytes. The encoding by \<^verbatim>\<open>bincode\<close> is a parameter; \<open>good_header\<close> and \<open>good_row\<close> say
  of a value that it fits the buffer and that what was encoded decodes to it.

  What a reader reads from (the body of an HTTP response) is the bytes that arrive and whether the connection
  then breaks; a read that finds too few bytes fails with the end of the file or with the broken connection.
  The main result is that a chunk that was written is read back row by row, and that a file is as
  long as its length says, whatever the size of the pieces it is read in.
\<close>

section \<open>Rows\<close>

record record_header =
  rh_room :: string
  rh_peer :: string
  rh_session :: nat
  rh_start_ts :: nat
  rh_end_ts :: nat

record record_row =
  row_ts :: nat
  row_event :: session_record_event

record record_codec =
  rc_header :: "record_header \<Rightarrow> bytes"
  rc_read_header :: "bytes \<Rightarrow> record_header option"
  rc_row :: "record_row \<Rightarrow> bytes"
  rc_read_row :: "bytes \<Rightarrow> record_row option"

datatype io_error = Io_UnexpectedEof | Io_BrokenPipe | Io_InvalidInput | Io_OutOfMemory | Io_Other

definition header_write_to :: "record_codec \<Rightarrow> record_header \<Rightarrow> nat \<Rightarrow> io_error + bytes" where
  "header_write_to codec h buf_len = (let data = rc_header codec h in
     if length data > buf_len then Inl Io_OutOfMemory else Inr data)"

definition header_read_from :: "record_codec \<Rightarrow> bytes \<Rightarrow> io_error + record_header" where
  "header_read_from codec buf = (case rc_read_header codec buf of None \<Rightarrow> Inl Io_InvalidInput | Some h \<Rightarrow> Inr h)"

definition row_write_to :: "record_codec \<Rightarrow> record_row \<Rightarrow> nat \<Rightarrow> io_error + bytes" where
  "row_write_to codec r buf_len = (let data = rc_row codec r in
     if length data > buf_len then Inl Io_OutOfMemory else Inr data)"

definition row_read_from :: "record_codec \<Rightarrow> bytes \<Rightarrow> io_error + record_row" where
  "row_read_from codec buf = (case rc_read_row codec buf of None \<Rightarrow> Inl Io_InvalidInput | Some r \<Rightarrow> Inr r)"

section \<open>The memory file\<close>

record memory_file =
  mem_chunks :: "(nat \<times> bytes) list"
  mem_id :: nat
  mem_len :: nat
  mem_start_ts :: "nat option"
  mem_end_ts :: "nat option"

text \<open>The id of a new file is random: it is an argument.\<close>

definition mem_default :: "nat \<Rightarrow> memory_file" where
  "mem_default fid = \<lparr>mem_chunks = [], mem_id = fid, mem_len = 0, mem_start_ts = None, mem_end_ts = None\<rparr>"

definition mem_set_start_ts :: "nat \<Rightarrow> memory_file \<Rightarrow> memory_file" where
  "mem_set_start_ts ts f = f\<lparr>mem_start_ts := Some ts\<rparr>"

definition mem_set_end_ts :: "nat \<Rightarrow> memory_file \<Rightarrow> memory_file" where
  "mem_set_end_ts ts f = f\<lparr>mem_end_ts := Some ts\<rparr>"

definition mem_write :: "bytes \<Rightarrow> memory_file \<Rightarrow> memory_file \<times> nat" where
  "mem_write buf f = (f\<lparr>mem_chunks := mem_chunks f @ [(0, buf)], mem_len := mem_len f + length buf\<rparr>, length buf)"

definition mem_flush :: "memory_file \<Rightarrow> memory_file" where
  "mem_flush f = f\<lparr>mem_chunks := [], mem_len := 0\<rparr>"

text \<open>\<^verbatim>\<open>write_all\<close> of the standard library writes as long as something is left; one call of \<open>mem_write\<close> takes
  all of it.\<close>

definition mem_write_all :: "bytes \<Rightarrow> memory_file \<Rightarrow> memory_file" where
  "mem_write_all buf f = (if buf = [] then f else fst (mem_write buf f))"

definition mem_poll_read :: "nat \<Rightarrow> memory_file \<Rightarrow> bytes \<times> memory_file" where
  "mem_poll_read remaining f = (case mem_chunks f of [] \<Rightarrow> ([], f)
     | (used_len, data) # rest \<Rightarrow>
         let read_len = min remaining (length data - used_len);
             used = used_len + read_len
         in (take read_len (drop used_len data),
             f\<lparr>mem_chunks := (if used = length data then rest else (used, data) # rest),
               mem_len := mem_len f - read_len\<rparr>))"

definition mem_left :: "memory_file \<Rightarrow> bytes" where
  "mem_left f = concat (map (\<lambda>(used, data). drop used data) (mem_chunks f))"

text \<open>How a file is sent: it is read in pieces of at most \<open>cap\<close> bytes until a read gives nothing.\<close>

lemma take_drop_append: "take n (drop a xs) @ drop (a + n) xs = drop a xs"
  by (metis add.commute append_take_drop_id drop_drop)

lemma mem_poll_read_left:
  "\<forall>(used, data) \<in> set (mem_chunks f). used < length data \<Longrightarrow> fst (mem_poll_read cap f) @ mem_left (snd (mem_poll_read cap f)) = mem_left f"
  by (cases "mem_chunks f") (auto simp: mem_poll_read_def mem_left_def Let_def min_def take_drop_append)

lemma mem_poll_read_shorter:
  assumes "fst (mem_poll_read cap f) \<noteq> []"
  shows "length (mem_left (snd (mem_poll_read cap f))) < length (mem_left f)"
proof (cases "mem_chunks f")
  case Nil
  then show ?thesis using assms by (simp add: mem_poll_read_def)
next
  case (Cons a rest)
  then obtain used data where a: "a = (used, data)" by (cases a) simp
  from assms have n: "0 < min cap (length data - used)" by (simp add: mem_poll_read_def Cons a Let_def)
  show ?thesis using n by (auto simp: mem_poll_read_def mem_left_def Cons a Let_def)
qed

function mem_stream :: "nat \<Rightarrow> memory_file \<Rightarrow> bytes" where
  "mem_stream cap f = (case mem_poll_read cap f of (part, f') \<Rightarrow> if part = [] then [] else part @ mem_stream cap f')"
  by auto
termination
  by (relation "measure (\<lambda>(cap, f). length (mem_left f))") (simp, metis case_prod_conv fst_conv in_measure mem_poll_read_shorter snd_conv)

declare mem_stream.simps [simp del]

section \<open>The writer of chunks\<close>

text \<open>\<^verbatim>\<open>to_be_bytes\<close> and \<^verbatim>\<open>read_u32\<close>.\<close>

definition u32_be :: "nat \<Rightarrow> bytes" where
  "u32_be n = [word_of_nat (n div 2 ^ 24), word_of_nat (n div 2 ^ 16), word_of_nat (n div 2 ^ 8), word_of_nat n]"

fun u32_of_be :: "bytes \<Rightarrow> nat" where
  "u32_of_be bs = foldl (\<lambda>acc b. acc * 2 ^ 8 + unat b) 0 bs"

definition CHUNK_BUF :: nat where "CHUNK_BUF = 1500"

record chunk_writer =
  rcw_file :: memory_file

definition framed :: "bytes \<Rightarrow> bytes" where
  "framed data = u32_be (length data) @ data"

definition rcw_new :: "record_codec \<Rightarrow> nat \<Rightarrow> string \<Rightarrow> string \<Rightarrow> nat \<Rightarrow> nat \<Rightarrow> nat \<Rightarrow> chunk_writer run" where
  "rcw_new codec fid room peer session start_ts end_ts =
     (let header = \<lparr>rh_room = room, rh_peer = peer, rh_session = session, rh_start_ts = start_ts, rh_end_ts = end_ts\<rparr>;
          file = mem_set_end_ts end_ts (mem_set_start_ts start_ts (mem_default fid))
      in case header_write_to codec header (CHUNK_BUF - 4) of Inl _ \<Rightarrow> Inl Expect_None
         | Inr data \<Rightarrow> Inr \<lparr>rcw_file = mem_write_all (framed data) file\<rparr>)"

definition rcw_push :: "record_codec \<Rightarrow> record_row \<Rightarrow> chunk_writer \<Rightarrow> chunk_writer run" where
  "rcw_push codec r w = (case row_write_to codec r (CHUNK_BUF - 4) of Inl _ \<Rightarrow> Inl Expect_None
     | Inr data \<Rightarrow> Inr (w\<lparr>rcw_file := mem_write_all (framed data) (rcw_file w)\<rparr>))"

definition rcw_take :: "chunk_writer \<Rightarrow> memory_file" where
  "rcw_take w = rcw_file w"

section \<open>The reader of chunks\<close>

record source =
  src_data :: bytes
  src_broken :: bool

definition read_exact :: "nat \<Rightarrow> source \<Rightarrow> source \<times> (io_error + bytes)" where
  "read_exact n src = (if n \<le> length (src_data src)
     then (src\<lparr>src_data := drop n (src_data src)\<rparr>, Inr (take n (src_data src)))
     else (src\<lparr>src_data := []\<rparr>, Inl (if src_broken src then Io_BrokenPipe else Io_UnexpectedEof)))"

definition read_u32 :: "source \<Rightarrow> source \<times> (io_error + nat)" where
  "read_u32 src = (case read_exact 4 src of (src', Inl e) \<Rightarrow> (src', Inl e) | (src', Inr bs) \<Rightarrow> (src', Inr (u32_of_be bs)))"

text \<open>Slicing the buffer panics when the length does not fit it.\<close>

definition read_util_full :: "nat \<Rightarrow> source \<Rightarrow> (source \<times> (io_error + bytes)) run" where
  "read_util_full n src = (if n \<le> CHUNK_BUF
     then Inr (if n = 0 then (src, Inr []) else read_exact n src) else Inl Index_Out_Of_Bounds)"

record chunk_reader =
  rcr_source :: source
  rcr_header :: "record_header option"
  rcr_peek :: "record_row option"

definition rcr_new :: "source \<Rightarrow> chunk_reader" where
  "rcr_new src = \<lparr>rcr_source = src, rcr_header = None, rcr_peek = None\<rparr>"

definition rcr_connect :: "record_codec \<Rightarrow> chunk_reader \<Rightarrow> (chunk_reader \<times> (io_error + unit)) run" where
  "rcr_connect codec r = (case read_u32 (rcr_source r) of
       (src, Inl e) \<Rightarrow> Inr (r\<lparr>rcr_source := src\<rparr>, Inl e)
     | (src, Inr header_len) \<Rightarrow> rbind (read_util_full header_len src) (\<lambda>(src', res). case res of
           Inl e \<Rightarrow> Inr (r\<lparr>rcr_source := src'\<rparr>, Inl e)
         | Inr buf \<Rightarrow> (case header_read_from codec buf of
               Inl e \<Rightarrow> Inr (r\<lparr>rcr_source := src'\<rparr>, Inl e)
             | Inr h \<Rightarrow> Inr (r\<lparr>rcr_source := src', rcr_header := Some h\<rparr>, Inr ()))))"

definition rcr_pop :: "record_codec \<Rightarrow> chunk_reader \<Rightarrow> (chunk_reader \<times> (io_error + record_row option)) run" where
  "rcr_pop codec r = (case rcr_peek r of
       Some row \<Rightarrow> Inr (r\<lparr>rcr_peek := None\<rparr>, Inr (Some row))
     | None \<Rightarrow> (case read_u32 (rcr_source r) of
           (src, Inl e) \<Rightarrow> Inr (r\<lparr>rcr_source := src\<rparr>, if e = Io_UnexpectedEof then Inr None else Inl e)
         | (src, Inr chunk_len) \<Rightarrow> rbind (read_util_full chunk_len src) (\<lambda>(src', res). case res of
               Inl e \<Rightarrow> Inr (r\<lparr>rcr_source := src'\<rparr>, Inl e)
             | Inr buf \<Rightarrow> (case row_read_from codec buf of
                   Inl e \<Rightarrow> Inr (r\<lparr>rcr_source := src'\<rparr>, Inl e)
                 | Inr row \<Rightarrow> Inr (r\<lparr>rcr_source := src'\<rparr>, Inr (Some row))))))"

definition rcr_peek_ts :: "record_codec \<Rightarrow> chunk_reader \<Rightarrow> (chunk_reader \<times> nat option) run" where
  "rcr_peek_ts codec r = (case rcr_peek r of
       Some row \<Rightarrow> Inr (r, Some (row_ts row))
     | None \<Rightarrow> rbind (rcr_pop codec r) (\<lambda>(r', res). case res of
           Inl _ \<Rightarrow> Inr (r', None)
         | Inr row \<Rightarrow> Inr (r'\<lparr>rcr_peek := row\<rparr>, map_option row_ts row)))"

section \<open>A file as its bytes\<close>

definition mem_ok :: "memory_file \<Rightarrow> bool" where
  "mem_ok f \<longleftrightarrow> (\<forall>(used, data) \<in> set (mem_chunks f). used < length data) \<and> mem_len f = length (mem_left f)"

lemma mem_left_poll: "mem_ok f \<Longrightarrow> fst (mem_poll_read cap f) @ mem_left (snd (mem_poll_read cap f)) = mem_left f"
  by (simp add: mem_ok_def mem_poll_read_left)

lemma mem_ok_poll_read:
  assumes "mem_ok f"
  shows "mem_ok (snd (mem_poll_read cap f))"
proof -
  have "length (mem_left (snd (mem_poll_read cap f))) = length (mem_left f) - length (fst (mem_poll_read cap f))"
    using mem_left_poll [OF assms, of cap] by (metis add_diff_cancel_left' length_append)
  moreover have "mem_len (snd (mem_poll_read cap f)) = mem_len f - length (fst (mem_poll_read cap f))"
    by (auto simp: mem_poll_read_def Let_def split: list.splits prod.splits)
  moreover have "\<forall>(used, data) \<in> set (mem_chunks (snd (mem_poll_read cap f))). used < length data"
    using assms by (auto simp: mem_ok_def mem_poll_read_def Let_def min_def split: list.splits prod.splits)
  ultimately show ?thesis using assms by (simp add: mem_ok_def)
qed

lemma mem_poll_read_progress:
  "mem_ok f \<Longrightarrow> 0 < cap \<Longrightarrow> fst (mem_poll_read cap f) = [] \<Longrightarrow> mem_left f = []"
  by (auto simp: mem_ok_def mem_poll_read_def mem_left_def Let_def split: list.splits prod.splits)

lemma mem_stream_left: "mem_ok f \<Longrightarrow> 0 < cap \<Longrightarrow> mem_stream cap f = mem_left f"
proof (induction cap f rule: mem_stream.induct)
  case (1 cap f)
  obtain part f' where p: "mem_poll_read cap f = (part, f')" by (cases "mem_poll_read cap f") simp
  show ?case
  proof (cases "part = []")
    case True
    then show ?thesis using mem_poll_read_progress [OF 1(2,3)] p by (subst mem_stream.simps) simp
  next
    case False
    have "mem_stream cap f' = mem_left f'" using 1(1) [OF p [symmetric] False] mem_ok_poll_read [OF 1(2), of cap] p 1(3) by simp
    then show ?thesis using False p mem_left_poll [OF 1(2), of cap] by (subst mem_stream.simps) simp
  qed
qed

lemma mem_ok_default [simp]: "mem_ok (mem_default fid)" "mem_left (mem_default fid) = []"
  by (simp_all add: mem_ok_def mem_default_def mem_left_def)

lemma mem_ok_times [simp]:
  "mem_ok (mem_set_start_ts ts f) = mem_ok f" "mem_left (mem_set_start_ts ts f) = mem_left f"
  "mem_ok (mem_set_end_ts ts f) = mem_ok f" "mem_left (mem_set_end_ts ts f) = mem_left f"
  by (simp_all add: mem_ok_def mem_set_start_ts_def mem_set_end_ts_def mem_left_def)

lemma mem_write_all_left [simp]: "mem_left (mem_write_all buf f) = mem_left f @ buf"
  by (simp add: mem_write_all_def mem_write_def mem_left_def)

lemma mem_ok_write_all [simp]: "mem_ok f \<Longrightarrow> mem_ok (mem_write_all buf f)"
  by (auto simp: mem_ok_def mem_write_all_def mem_write_def mem_left_def)

section \<open>Reading back\<close>

lemma length_u32_be [simp]: "length (u32_be n) = 4"
  by (simp add: u32_be_def)

lemma u32_split:
  fixes n :: nat
  assumes "n < 2 ^ 32"
  shows "((n div 2 ^ 24 mod 256 * 256 + n div 2 ^ 16 mod 256) * 256 + n div 2 ^ 8 mod 256) * 256 + n mod 256 = n"
proof -
  have d: "n div 2 ^ 16 = n div 2 ^ 8 div 256" "n div 2 ^ 24 = n div 2 ^ 8 div 256 div 256"
    by (simp_all add: div_mult2_eq [symmetric])
  moreover have "n div 2 ^ 24 < 256" using assms by (simp add: less_mult_imp_div_less)
  ultimately show ?thesis by (simp add: div_mult_mod_eq)
qed

lemma u32_of_be_u32_be: "n < 2 ^ 32 \<Longrightarrow> u32_of_be (u32_be n) = n"
  using u32_split [of n] by (simp add: u32_be_def unat_of_nat)

lemma read_exact_append [simp]: "read_exact n \<lparr>src_data = xs @ ys, src_broken = b\<rparr> = (\<lparr>src_data = ys, src_broken = b\<rparr>, Inr xs)"
  if "length xs = n"
  using that by (auto simp: read_exact_def)

lemma read_u32_framed:
  "length data < 2 ^ 32 \<Longrightarrow> read_u32 \<lparr>src_data = framed data @ rest, src_broken = b\<rparr>
     = (\<lparr>src_data = data @ rest, src_broken = b\<rparr>, Inr (length data))"
  by (simp add: read_u32_def framed_def u32_of_be_u32_be del: u32_of_be.simps)

lemma read_util_full_append:
  "length data \<le> CHUNK_BUF \<Longrightarrow> read_util_full (length data) \<lparr>src_data = data @ rest, src_broken = b\<rparr>
     = Inr (\<lparr>src_data = rest, src_broken = b\<rparr>, Inr data)"
  by (simp add: read_util_full_def)

definition fits :: "bytes \<Rightarrow> bool" where
  "fits data \<longleftrightarrow> length data \<le> CHUNK_BUF - 4"

definition good_header :: "record_codec \<Rightarrow> record_header \<Rightarrow> bool" where
  "good_header codec h \<longleftrightarrow> fits (rc_header codec h) \<and> rc_read_header codec (rc_header codec h) = Some h"

definition good_row :: "record_codec \<Rightarrow> record_row \<Rightarrow> bool" where
  "good_row codec r \<longleftrightarrow> fits (rc_row codec r) \<and> rc_read_row codec (rc_row codec r) = Some r"

lemma fits_bounds: "fits data \<Longrightarrow> length data < 2 ^ 32 \<and> length data \<le> CHUNK_BUF"
  by (simp add: fits_def CHUNK_BUF_def)

definition rows_bytes :: "record_codec \<Rightarrow> record_row list \<Rightarrow> bytes" where
  "rows_bytes codec rows = concat (map (\<lambda>r. framed (rc_row codec r)) rows)"

definition chunk_bytes :: "record_codec \<Rightarrow> record_header \<Rightarrow> record_row list \<Rightarrow> bytes" where
  "chunk_bytes codec h rows = framed (rc_header codec h) @ rows_bytes codec rows"

lemma rows_bytes_simps [simp]:
  "rows_bytes codec [] = []" "rows_bytes codec (r # rows) = framed (rc_row codec r) @ rows_bytes codec rows"
  "rows_bytes codec (xs @ ys) = rows_bytes codec xs @ rows_bytes codec ys"
  by (simp_all add: rows_bytes_def)

definition reader_at :: "record_codec \<Rightarrow> record_row list \<Rightarrow> chunk_reader \<Rightarrow> bool" where
  "reader_at codec rows r \<longleftrightarrow> rcr_peek r = None \<and> rcr_source r = \<lparr>src_data = rows_bytes codec rows, src_broken = False\<rparr>"

lemma rcr_connect_chunk:
  assumes "good_header codec h"
  shows "\<exists>r. rcr_connect codec (rcr_new \<lparr>src_data = chunk_bytes codec h rows, src_broken = False\<rparr>) = Inr (r, Inr ())
    \<and> reader_at codec rows r \<and> rcr_header r = Some h"
  using assms fits_bounds [of "rc_header codec h"]
  by (simp add: rcr_connect_def rcr_new_def chunk_bytes_def read_u32_framed read_util_full_append header_read_from_def good_header_def reader_at_def)

lemma rcr_pop_row:
  assumes "good_row codec row" and "reader_at codec (row # rows) r"
  shows "\<exists>r'. rcr_pop codec r = Inr (r', Inr (Some row)) \<and> reader_at codec rows r'"
  using assms fits_bounds [of "rc_row codec row"]
  by (simp add: rcr_pop_def reader_at_def read_u32_framed read_util_full_append row_read_from_def good_row_def)

lemma rcr_pop_end: "reader_at codec [] r \<Longrightarrow> \<exists>r'. rcr_pop codec r = Inr (r', Inr None)"
  by (simp add: rcr_pop_def reader_at_def read_u32_def read_exact_def)

lemma rcw_new_file:
  assumes "rcw_new codec fid room peer session start_ts end_ts = Inr w"
  shows "mem_ok (rcw_file w)" "mem_left (rcw_file w) = framed (rc_header codec \<lparr>rh_room = room, rh_peer = peer, rh_session = session, rh_start_ts = start_ts, rh_end_ts = end_ts\<rparr>)"
  using assms by (auto simp: rcw_new_def Let_def header_write_to_def split: if_splits)

lemma rcw_push_fits: "fits (rc_row codec r) \<Longrightarrow> rcw_push codec r w = Inr (w\<lparr>rcw_file := mem_write_all (framed (rc_row codec r)) (rcw_file w)\<rparr>)"
  by (simp add: rcw_push_def row_write_to_def fits_def)

lemma rcw_push_too_long: "\<not> fits (rc_row codec r) \<Longrightarrow> rcw_push codec r w = Inl Expect_None"
  by (simp add: rcw_push_def row_write_to_def fits_def)

lemma rcw_push_all:
  "\<forall>r \<in> set rows. fits (rc_row codec r) \<Longrightarrow> mem_ok (rcw_file w) \<Longrightarrow>
   \<exists>w'. rfold (rcw_push codec) rows w = Inr w' \<and> mem_ok (rcw_file w') \<and> mem_left (rcw_file w') = mem_left (rcw_file w) @ rows_bytes codec rows
     \<and> mem_id (rcw_file w') = mem_id (rcw_file w)"
proof (induction rows arbitrary: w)
  case (Cons r rows)
  let ?w = "w\<lparr>rcw_file := mem_write_all (framed (rc_row codec r)) (rcw_file w)\<rparr>"
  have "mem_id (rcw_file ?w) = mem_id (rcw_file w)" by (simp add: mem_write_all_def mem_write_def)
  then show ?case using Cons.IH [of ?w] Cons.prems by (auto simp: rcw_push_fits)
qed simp

end
