(* ===== verification/Record_Session.thy ===== *)
theory Record_Session
  imports Record_Chunk Connector_Storage "HOL-Library.Char_ord" "HOL-Library.List_Lexorder" "HOL-Library.Multiset"
begin

text \<open>
  Recording and reading back one session: \<^verbatim>\<open>packages/media_record/src/session.rs\<close>, which collects the events
  of a session in chunks of about a minute, and \<^verbatim>\<open>raw_record/session_reader.rs\<close>, which lists the chunks of
  a session in the object store, sorts them by name and reads them one after the other. The names
  are chosen by the connector (\<open>rec_file\<close> of \<open>Connector_Storage\<close>).

  The store is two parameters: the list of keys under a prefix and the object under a key; either may
  fail. The theorem composes recorder, writer, names and reader: what was recorded is read
  back, in order, as long as there are at most ten chunks. The names sort as text, so the eleventh chunk
  sorts before the third (\<open>rec_file_ten_before_two\<close>).
\<close>

section \<open>Recording a session\<close>

definition MAX_FILE_LEN_MS :: nat where "MAX_FILE_LEN_MS = 60000"

record room_state =
  rst_index :: nat
  rst_app :: string
  rst_room :: string
  rst_peer :: string
  rst_queue :: "record_row list option"

record session_record =
  rse_session :: nat
  rse_state :: "room_state option"
  rse_closed :: bool

definition rse_new :: "nat \<Rightarrow> session_record" where
  "rse_new session = \<lparr>rse_session = session, rse_state = None, rse_closed = False\<rparr>"

definition rse_is_closed :: "session_record \<Rightarrow> bool" where
  "rse_is_closed s = rse_closed s"

definition rse_write :: "record_codec \<Rightarrow> nat \<Rightarrow> nat \<Rightarrow> room_state \<Rightarrow> record_row list \<Rightarrow> (record_req \<times> memory_file) run" where
  "rse_write codec fid session st queue =
     (let from_ts = row_ts (hd queue); to_ts = row_ts (last queue) in
      rbind (rcw_new codec fid (rst_room st) (rst_peer st) session from_ts to_ts) (\<lambda>chunk.
      rbind (rfold (rcw_push codec) queue chunk) (\<lambda>chunk'. Inr
        (\<lparr>rq_room = rst_room st, rq_peer = rst_peer st, rq_session = session, rq_index = rst_index st,
          rq_from_ts = from_ts, rq_to_ts = to_ts, rq_app = rst_app st\<rparr>, rcw_take chunk'))))"

definition rse_pop_file :: "record_codec \<Rightarrow> nat \<Rightarrow> nat \<Rightarrow> bool \<Rightarrow> session_record \<Rightarrow> (session_record \<times> (record_req \<times> memory_file) option) run" where
  "rse_pop_file codec fid now_ms force s = (case rse_state s of None \<Rightarrow> Inr (s, None)
     | Some st \<Rightarrow> (case rst_queue st of None \<Rightarrow> Inr (s, None)
       | Some queue \<Rightarrow> if queue = [] then Inr (s, None) else
           let from_ts = row_ts (hd queue); to_ts = row_ts (last queue);
               duration_ms = u64_sub to_ts from_ts;
               ttl_ms = u64_sub now_ms to_ts;
               should_pop = (force \<or> duration_ms \<ge> MAX_FILE_LEN_MS \<or> ttl_ms \<ge> MAX_FILE_LEN_MS)
           in if \<not> should_pop then Inr (s, None)
              else rbind (rse_write codec fid (rse_session s) st queue) (\<lambda>file.
                Inr (s\<lparr>rse_state := Some (st\<lparr>rst_queue := None, rst_index := u32_add (rst_index st) 1\<rparr>)\<rparr>, Some file))))"

definition rse_tick :: "record_codec \<Rightarrow> nat \<Rightarrow> nat \<Rightarrow> session_record \<Rightarrow> (session_record \<times> (record_req \<times> memory_file) option) run" where
  "rse_tick codec fid now_ms s = rse_pop_file codec fid now_ms False s"

definition rse_join :: "nat \<Rightarrow> string \<Rightarrow> string \<Rightarrow> string \<Rightarrow> session_record \<Rightarrow> session_record" where
  "rse_join event_ts app room peer s = s\<lparr>rse_state := Some \<lparr>rst_index = 0, rst_app = app, rst_room = room, rst_peer = peer,
     rst_queue = Some [\<lparr>row_ts = event_ts, row_event = Rec_JoinRoom app room peer\<rparr>]\<rparr>\<rparr>"

definition rse_append :: "record_row \<Rightarrow> room_state \<Rightarrow> room_state" where
  "rse_append row st = st\<lparr>rst_queue := Some (case rst_queue st of Some queue \<Rightarrow> queue @ [row] | None \<Rightarrow> [row])\<rparr>"

definition rse_push :: "record_codec \<Rightarrow> nat \<Rightarrow> nat \<Rightarrow> nat \<Rightarrow> session_record_event \<Rightarrow> session_record \<Rightarrow> (session_record \<times> (record_req \<times> memory_file) option) run" where
  "rse_push codec fid now_ms event_ts event s =
     (if rse_closed s then rse_pop_file codec fid now_ms True s
      else case event of
        Rec_JoinRoom app room peer \<Rightarrow> Inr (rse_join event_ts app room peer s, None)
      | Rec_LeaveRoom \<Rightarrow> rse_pop_file codec fid now_ms True s
      | Rec_Disconnected \<Rightarrow> rse_pop_file codec fid now_ms True (s\<lparr>rse_closed := True\<rparr>)
      | _ \<Rightarrow> (case rse_state s of None \<Rightarrow> Inr (s, None)
          | Some st \<Rightarrow> rse_pop_file codec fid now_ms False
              (s\<lparr>rse_state := Some (rse_append \<lparr>row_ts = event_ts, row_event = event\<rparr> st)\<rparr>)))"

section \<open>Reading a session\<close>

record session_reader =
  rsr_session_id :: nat
  rsr_path :: string
  rsr_files :: "string list"
  rsr_current :: "chunk_reader option"

definition rsr_new :: "nat \<Rightarrow> string \<Rightarrow> session_reader" where
  "rsr_new session_id path = \<lparr>rsr_session_id = session_id, rsr_path = path, rsr_files = [], rsr_current = None\<rparr>"

definition rsr_connect :: "(string \<Rightarrow> string list option) \<Rightarrow> session_reader \<Rightarrow> session_reader \<times> (io_error + unit)" where
  "rsr_connect s3_list r = (case s3_list (rsr_path r) of None \<Rightarrow> (r, Inl Io_Other)
     | Some keys \<Rightarrow> (r\<lparr>rsr_files := rev (sort keys)\<rparr>, Inr ()))"

text \<open>The answer says whether there is a current chunk now.\<close>

definition rsr_next_chunk :: "record_codec \<Rightarrow> (string \<Rightarrow> source option) \<Rightarrow> session_reader \<Rightarrow> (session_reader \<times> bool) run" where
  "rsr_next_chunk codec s3_get r = (case rsr_current r of Some _ \<Rightarrow> Inr (r, True)
     | None \<Rightarrow> if rsr_files r = [] then Inr (r, False)
        else let first = last (rsr_files r); r1 = r\<lparr>rsr_files := butlast (rsr_files r)\<rparr> in
          case s3_get first of None \<Rightarrow> Inr (r1, False)
          | Some src \<Rightarrow> rbind (rcr_connect codec (rcr_new src)) (\<lambda>(chunk, res). case res of
                Inl _ \<Rightarrow> Inr (r1, False)
              | Inr _ \<Rightarrow> Inr (r1\<lparr>rsr_current := Some chunk\<rparr>, True)))"

definition rsr_left :: "session_reader \<Rightarrow> nat" where
  "rsr_left r = length (rsr_files r) + (case rsr_current r of None \<Rightarrow> 0 | Some _ \<Rightarrow> 1)"

lemma not_ok_error: "(res :: 'e + unit) \<noteq> Inr () \<longleftrightarrow> (\<exists>e. res = Inl e)"
  by (cases res) auto

lemma rsr_next_chunk_left: "rsr_next_chunk codec s3_get r = Inr (r', True) \<Longrightarrow> rsr_left (r'\<lparr>rsr_current := None\<rparr>) < rsr_left r"
  by (auto simp: rsr_next_chunk_def rsr_left_def Let_def rbind_eq_Inr not_ok_error split: option.splits if_splits sum.splits)

function rsr_pop :: "record_codec \<Rightarrow> (string \<Rightarrow> source option) \<Rightarrow> session_reader \<Rightarrow> (session_reader \<times> record_row option) run" where
  "rsr_pop codec s3_get r = (case rsr_next_chunk codec s3_get r of Inl e \<Rightarrow> Inl e
     | Inr (r1, ok) \<Rightarrow> if \<not> ok then Inr (r1, None) else
        (case rsr_current r1 of None \<Rightarrow> Inr (r1, None)
        | Some chunk \<Rightarrow> (case rcr_pop codec chunk of Inl e \<Rightarrow> Inl e
          | Inr (chunk', res) \<Rightarrow> (case res of
              Inl _ \<Rightarrow> Inr (r1\<lparr>rsr_current := Some chunk'\<rparr>, None)
            | Inr row \<Rightarrow> if row = None then rsr_pop codec s3_get (r1\<lparr>rsr_current := None\<rparr>)
                else Inr (r1\<lparr>rsr_current := Some chunk'\<rparr>, row)))))"
  by auto
termination
  by (relation "measure (\<lambda>(codec, s3_get, r). rsr_left r)") (auto dest: rsr_next_chunk_left)

function rsr_peek_ts :: "record_codec \<Rightarrow> (string \<Rightarrow> source option) \<Rightarrow> session_reader \<Rightarrow> (session_reader \<times> nat option) run" where
  "rsr_peek_ts codec s3_get r = (case rsr_next_chunk codec s3_get r of Inl e \<Rightarrow> Inl e
     | Inr (r1, ok) \<Rightarrow> if \<not> ok then Inr (r1, None) else
        (case rsr_current r1 of None \<Rightarrow> Inr (r1, None)
        | Some chunk \<Rightarrow> (case rcr_peek_ts codec chunk of Inl e \<Rightarrow> Inl e
          | Inr (chunk', ts) \<Rightarrow> if ts = None then rsr_peek_ts codec s3_get (r1\<lparr>rsr_current := None\<rparr>)
              else Inr (r1\<lparr>rsr_current := Some chunk'\<rparr>, ts))))"
  by auto
termination
  by (relation "measure (\<lambda>(codec, s3_get, r). rsr_left r)") (auto dest: rsr_next_chunk_left)

text \<open>\<^verbatim>\<open>recv\<close> is the same loop written a second time.\<close>

function rsr_recv :: "record_codec \<Rightarrow> (string \<Rightarrow> source option) \<Rightarrow> session_reader \<Rightarrow> (session_reader \<times> record_row option) run" where
  "rsr_recv codec s3_get r = (case rsr_next_chunk codec s3_get r of Inl e \<Rightarrow> Inl e
     | Inr (r1, ok) \<Rightarrow> if \<not> ok then Inr (r1, None) else
        (case rsr_current r1 of None \<Rightarrow> Inr (r1, None)
        | Some chunk \<Rightarrow> (case rcr_pop codec chunk of Inl e \<Rightarrow> Inl e
          | Inr (chunk', Inl _) \<Rightarrow> Inr (r1\<lparr>rsr_current := Some chunk'\<rparr>, None)
          | Inr (chunk', Inr res) \<Rightarrow>
              if res = None then rsr_recv codec s3_get (r1\<lparr>rsr_current := None\<rparr>)
              else Inr (r1\<lparr>rsr_current := Some chunk'\<rparr>, res))))"
  by auto
termination
  by (relation "measure (\<lambda>(codec, s3_get, r). rsr_left r)") (auto dest: rsr_next_chunk_left)

declare rsr_pop.simps [simp del] rsr_peek_ts.simps [simp del] rsr_recv.simps [simp del]

text \<open>\<^verbatim>\<open>while let Some(row) = session.recv()\<close>: the number bounds the rounds.\<close>

fun rsr_rows :: "nat \<Rightarrow> record_codec \<Rightarrow> (string \<Rightarrow> source option) \<Rightarrow> session_reader \<Rightarrow> record_row list run" where
  "rsr_rows 0 codec s3_get r = Inl Loop_Unfinished"
| "rsr_rows (Suc n) codec s3_get r = rbind (rsr_recv codec s3_get r) (\<lambda>(r', row). case row of
     None \<Rightarrow> Inr []
   | Some x \<Rightarrow> rbind (rsr_rows n codec s3_get r') (\<lambda>xs. Inr (x # xs)))"

section \<open>The chunks of a recording\<close>

text \<open>A chunk that holds \<open>rows\<close>: its request and its file.\<close>

definition chunk_of :: "record_codec \<Rightarrow> record_req \<Rightarrow> memory_file \<Rightarrow> record_row list \<Rightarrow> bool" where
  "chunk_of codec req file rows \<longleftrightarrow> rows \<noteq> [] \<and> rq_from_ts req = row_ts (hd rows) \<and> rq_to_ts req = row_ts (last rows) \<and> mem_ok file
     \<and> mem_left file = chunk_bytes codec \<lparr>rh_room = rq_room req, rh_peer = rq_peer req, rh_session = rq_session req,
         rh_start_ts = rq_from_ts req, rh_end_ts = rq_to_ts req\<rparr> rows"

lemma rse_write_chunk:
  assumes "queue \<noteq> []" and "\<forall>r \<in> set queue. fits (rc_row codec r)"
    and "fits (rc_header codec \<lparr>rh_room = rst_room st, rh_peer = rst_peer st, rh_session = session, rh_start_ts = row_ts (hd queue), rh_end_ts = row_ts (last queue)\<rparr>)"
  shows "\<exists>req file. rse_write codec fid session st queue = Inr (req, file) \<and> chunk_of codec req file queue \<and> rq_index req = rst_index st
    \<and> rq_app req = rst_app st \<and> rq_room req = rst_room st \<and> rq_peer req = rst_peer st \<and> rq_session req = session \<and> mem_id file = fid"
proof -
  let ?h = "\<lparr>rh_room = rst_room st, rh_peer = rst_peer st, rh_session = session, rh_start_ts = row_ts (hd queue), rh_end_ts = row_ts (last queue)\<rparr>"
  obtain w where w: "rcw_new codec fid (rst_room st) (rst_peer st) session (row_ts (hd queue)) (row_ts (last queue)) = Inr w"
    using assms(3) by (simp add: rcw_new_def header_write_to_def fits_def not_less [symmetric])
  have i: "mem_id (rcw_file w) = fid"
    using w by (auto simp: rcw_new_def Let_def mem_write_all_def mem_write_def mem_set_start_ts_def mem_set_end_ts_def mem_default_def split: sum.splits)
  obtain w' where w': "rfold (rcw_push codec) queue w = Inr w'" "mem_ok (rcw_file w')" "mem_id (rcw_file w') = fid"
      "mem_left (rcw_file w') = framed (rc_header codec ?h) @ rows_bytes codec queue"
    using rcw_push_all [OF assms(2) rcw_new_file(1) [OF w]] rcw_new_file(2) [OF w] i by auto
  show ?thesis using w w' assms(1) by (simp add: rse_write_def chunk_of_def chunk_bytes_def rcw_take_def)
qed

section \<open>What is recorded\<close>

datatype rse_op = Rse_Push nat nat nat session_record_event | Rse_Tick nat nat

fun rse_step :: "record_codec \<Rightarrow> rse_op \<Rightarrow> session_record \<times> (record_req \<times> memory_file) list \<Rightarrow> (session_record \<times> (record_req \<times> memory_file) list) run" where
  "rse_step codec (Rse_Push fid now ts event) (s, files) = rbind (rse_push codec fid now ts event s) (\<lambda>(s', file). Inr (s', files @ (case file of None \<Rightarrow> [] | Some f \<Rightarrow> [f])))"
| "rse_step codec (Rse_Tick fid now) (s, files) = rbind (rse_tick codec fid now s) (\<lambda>(s', file). Inr (s', files @ (case file of None \<Rightarrow> [] | Some f \<Rightarrow> [f])))"

text \<open>The rows that a session records: everything between joining and being disconnected, but neither
  leaving nor the disconnection.\<close>

fun rows_step :: "rse_op \<Rightarrow> bool \<times> record_row list \<Rightarrow> bool \<times> record_row list" where
  "rows_step (Rse_Push fid now ts event) (closed, rows) = (if closed then (closed, rows) else case event of
       Rec_LeaveRoom \<Rightarrow> (closed, rows)
     | Rec_Disconnected \<Rightarrow> (True, rows)
     | _ \<Rightarrow> (closed, rows @ [\<lparr>row_ts = ts, row_event = event\<rparr>]))"
| "rows_step (Rse_Tick fid now) (closed, rows) = (closed, rows)"

fun joins :: "rse_op \<Rightarrow> bool" where
  "joins (Rse_Push fid now ts event) = (case event of Rec_JoinRoom _ _ _ \<Rightarrow> True | _ \<Rightarrow> False)"
| "joins (Rse_Tick fid now) = False"

text \<open>The codec copes with the rows and with the headers of all chunks these rows could be divided into.\<close>

definition codec_copes :: "record_codec \<Rightarrow> string \<Rightarrow> string \<Rightarrow> nat \<Rightarrow> record_row set \<Rightarrow> bool" where
  "codec_copes codec room peer session rows \<longleftrightarrow> (\<forall>r \<in> rows. good_row codec r)
     \<and> (\<forall>a \<in> rows. \<forall>b \<in> rows. good_header codec \<lparr>rh_room = room, rh_peer = peer, rh_session = session, rh_start_ts = row_ts a, rh_end_ts = row_ts b\<rparr>)"

lemma codec_copes_mono: "codec_copes codec room peer session R \<Longrightarrow> Q \<subseteq> R \<Longrightarrow> codec_copes codec room peer session Q"
  unfolding codec_copes_def by blast

definition pending :: "room_state \<Rightarrow> record_row list" where
  "pending st = (case rst_queue st of None \<Rightarrow> [] | Some queue \<Rightarrow> queue)"

definition chunk_in :: "record_codec \<Rightarrow> string \<Rightarrow> string \<Rightarrow> nat \<Rightarrow> record_req \<times> memory_file \<Rightarrow> record_row list \<Rightarrow> bool" where
  "chunk_in codec room peer session chunk rows \<longleftrightarrow> chunk_of codec (fst chunk) (snd chunk) rows
     \<and> rq_room (fst chunk) = room \<and> rq_peer (fst chunk) = peer \<and> rq_session (fst chunk) = session"

definition recording :: "record_codec \<Rightarrow> string \<Rightarrow> string \<Rightarrow> nat \<Rightarrow> bool \<times> record_row list \<Rightarrow> session_record \<times> (record_req \<times> memory_file) list \<Rightarrow> bool" where
  "recording codec room peer session spec sf \<longleftrightarrow> (\<exists>st rss. rse_state (fst sf) = Some st \<and> rse_session (fst sf) = session
     \<and> rst_room st = room \<and> rst_peer st = peer \<and> rse_closed (fst sf) = fst spec
     \<and> list_all2 (chunk_in codec room peer session) (snd sf) rss
     \<and> map (\<lambda>(req, file). rq_index req) (snd sf) = map (\<lambda>i. i mod 2 ^ 32) [0..<length (snd sf)] \<and> rst_index st = length (snd sf) mod 2 ^ 32
     \<and> concat rss @ pending st = snd spec)"

lemma rse_pop_file_cases:
  assumes "codec_copes codec room peer session (set (pending st))"
    and "rse_state s = Some st" "rst_room st = room" "rst_peer st = peer" "rse_session s = session"
  shows "rse_pop_file codec fid now force s = Inr (s, None) \<and> (force \<longrightarrow> pending st = [])
    \<or> (\<exists>req file. rse_pop_file codec fid now force s = Inr (s\<lparr>rse_state := Some (st\<lparr>rst_queue := None, rst_index := u32_add (rst_index st) 1\<rparr>)\<rparr>, Some (req, file))
        \<and> chunk_in codec room peer session (req, file) (pending st) \<and> rq_index req = rst_index st)"
proof (cases "pending st = []")
  case True
  then show ?thesis using assms(2) by (auto simp: rse_pop_file_def pending_def split: option.splits)
next
  case False
  then obtain queue where q: "rst_queue st = Some queue" "queue \<noteq> []" by (auto simp: pending_def split: option.splits)
  obtain req f where w: "rse_write codec fid session st queue = Inr (req, f)" "chunk_in codec room peer session (req, f) queue" "rq_index req = rst_index st"
    using rse_write_chunk [OF q(2), of codec st session fid] assms q by (auto simp: codec_copes_def good_row_def good_header_def pending_def chunk_in_def)
  show ?thesis using w q assms(2,5) by (simp add: rse_pop_file_def Let_def pending_def)
qed

lemma pending_simps [simp]:
  "pending (st\<lparr>rst_queue := None, rst_index := i\<rparr>) = []" "pending (rse_append row st) = pending st @ [row]"
  by (auto simp: pending_def rse_append_def split: option.split)

lemma rse_append_simps [simp]:
  "rst_room (rse_append row st) = rst_room st" "rst_peer (rse_append row st) = rst_peer st" "rst_index (rse_append row st) = rst_index st"
  by (simp_all add: rse_append_def)

definition flushed :: "session_record \<Rightarrow> bool" where
  "flushed s \<longleftrightarrow> (\<forall>st. rse_state s = Some st \<longrightarrow> pending st = [])"

lemma recording_pop:
  assumes "codec_copes codec room peer session (set (snd spec))" and "recording codec room peer session spec (s, files)"
  shows "\<exists>s' file. rse_pop_file codec fid now force s = Inr (s', file)
    \<and> recording codec room peer session spec (s', files @ (case file of None \<Rightarrow> [] | Some f \<Rightarrow> [f])) \<and> (force \<longrightarrow> flushed s')"
proof -
  obtain st rss where r: "rse_state s = Some st" "rse_session s = session" "rst_room st = room" "rst_peer st = peer" "rse_closed s = fst spec"
      "list_all2 (chunk_in codec room peer session) files rss"
      "map (\<lambda>(req, file). rq_index req) files = map (\<lambda>i. i mod 2 ^ 32) [0..<length files]" "rst_index st = length files mod 2 ^ 32"
      "concat rss @ pending st = snd spec"
    using assms(2) unfolding recording_def fst_conv snd_conv by blast
  have "codec_copes codec room peer session (set (pending st))" using codec_copes_mono [OF assms(1)] r(9) by (metis Un_upper2 set_append)
  from rse_pop_file_cases [OF this r(1,3,4,2), of fid now force]
  show ?thesis
  proof (elim disjE conjE exE)
    assume "rse_pop_file codec fid now force s = Inr (s, None)" "force \<longrightarrow> pending st = []"
    then show ?thesis using assms(2) r(1) by (auto simp: flushed_def)
  next
    fix req f
    let ?st = "st\<lparr>rst_queue := None, rst_index := u32_add (rst_index st) 1\<rparr>"
    assume p: "rse_pop_file codec fid now force s = Inr (s\<lparr>rse_state := Some ?st\<rparr>, Some (req, f))" "chunk_in codec room peer session (req, f) (pending st)" "rq_index req = rst_index st"
    have "list_all2 (chunk_in codec room peer session) (files @ [(req, f)]) (rss @ [pending st])"
      using r(6) p(2) by (simp add: list_all2_appendI)
    moreover have "u32_add (rst_index st) 1 = Suc (length files) mod 2 ^ 32" using r(8) by (simp add: u32_add_def mod_Suc_eq)
    ultimately have "recording codec room peer session spec (s\<lparr>rse_state := Some ?st\<rparr>, files @ [(req, f)])"
      unfolding recording_def using r p(3) by (intro exI [of _ ?st] exI [of _ "rss @ [pending st]"]) simp
    then show ?thesis using p(1) by (simp add: flushed_def)
  qed
qed

lemma recording_append:
  "recording codec room peer session (closed, rows) (s, files) \<Longrightarrow> rse_state s = Some st
   \<Longrightarrow> recording codec room peer session (closed, rows @ [row]) (s\<lparr>rse_state := Some (rse_append row st)\<rparr>, files)"
  unfolding recording_def by auto

lemma recording_close:
  "recording codec room peer session (closed, rows) (s, files) \<Longrightarrow> recording codec room peer session (True, rows) (s\<lparr>rse_closed := True\<rparr>, files)"
  unfolding recording_def by auto

lemma recording_closed: "recording codec room peer session spec (s, files) \<Longrightarrow> rse_closed s = fst spec"
  by (auto simp: recording_def)

lemma recording_state: "recording codec room peer session spec (s, files) \<Longrightarrow> \<exists>st. rse_state s = Some st"
  by (auto simp: recording_def)

definition flushes :: "rse_op \<Rightarrow> bool" where
  "flushes op \<longleftrightarrow> (case op of Rse_Push _ _ _ event \<Rightarrow> event = Rec_LeaveRoom \<or> event = Rec_Disconnected | Rse_Tick _ _ \<Rightarrow> False)"

lemma recording_step:
  assumes "codec_copes codec room peer session (set (snd (rows_step op spec)))" and "recording codec room peer session spec sf" and "\<not> joins op"
  shows "\<exists>sf'. rse_step codec op sf = Inr sf' \<and> recording codec room peer session (rows_step op spec) sf' \<and> (flushes op \<longrightarrow> flushed (fst sf'))"
proof -
  obtain closed rows where spec: "spec = (closed, rows)" by (cases spec)
  obtain s files where sf: "sf = (s, files)" by (cases sf)
  obtain st where st: "rse_state s = Some st" using recording_state assms(2) sf by blast
  have cl: "rse_closed s = closed" using recording_closed assms(2) sf spec by fastforce
  note pop = recording_pop
  show ?thesis
  proof (cases op)
    case (Rse_Tick fid now)
    show ?thesis using pop [of codec room peer session spec s files fid now False] assms(1,2) by (auto simp: Rse_Tick sf spec rse_tick_def flushes_def)
  next
    case (Rse_Push fid now ts event)
    show ?thesis
    proof (cases "closed \<or> event = Rec_LeaveRoom")
      case True
      then show ?thesis using pop [of codec room peer session spec s files fid now True] assms(1,2) cl by (auto simp: Rse_Push sf spec rse_push_def)
    next
      case False
      show ?thesis
      proof (cases "event = Rec_Disconnected")
        case True
        then show ?thesis using pop [OF _ recording_close, of codec room peer session rows closed s files fid now True] assms(1,2) cl False by (auto simp: Rse_Push sf spec rse_push_def)
      next
        case other: False
        let ?row = "\<lparr>row_ts = ts, row_event = event\<rparr>"
        have a: "recording codec room peer session (closed, rows @ [?row]) (s\<lparr>rse_state := Some (rse_append ?row st)\<rparr>, files)"
          using recording_append [OF _ st] assms(2) sf spec by blast
        show ?thesis using pop [OF _ a, of fid now False] assms(1,3) cl st False other
          by (cases event) (auto simp: Rse_Push sf spec rse_push_def flushes_def)
      qed
    qed
  qed
qed

lemma rows_step_grows: "set (snd spec) \<subseteq> set (snd (rows_step op spec))"
  by (cases op; cases spec) (auto split: session_record_event.split)

lemma rows_fold_grows: "set (snd spec) \<subseteq> set (snd (fold rows_step ops spec))"
proof (induction ops arbitrary: spec)
  case (Cons op ops)
  then show ?case using rows_step_grows [of spec op] by (metis fold_simps(2) order.trans)
qed simp

lemma recording_run:
  assumes "codec_copes codec room peer session (set (snd (fold rows_step ops spec)))" and "recording codec room peer session spec sf" and "\<forall>op \<in> set ops. \<not> joins op"
  shows "\<exists>sf'. rfold (rse_step codec) ops sf = Inr sf' \<and> recording codec room peer session (fold rows_step ops spec) sf'
    \<and> (ops \<noteq> [] \<and> flushes (last ops) \<longrightarrow> flushed (fst sf'))"
  using assms
proof (induction ops arbitrary: spec sf)
  case (Cons op ops)
  have f: "codec_copes codec room peer session (set (snd (rows_step op spec)))"
    using codec_copes_mono [OF Cons.prems(1)] rows_fold_grows [of "rows_step op spec" ops] by simp
  from recording_step [OF f Cons.prems(2)] Cons.prems(3)
  obtain sf' where sf': "rse_step codec op sf = Inr sf'" "recording codec room peer session (rows_step op spec) sf'" "flushes op \<longrightarrow> flushed (fst sf')"
    by auto
  show ?case using Cons.IH [OF _ sf'(2)] Cons.prems sf' by (cases "ops = []") auto
qed simp

text \<open>What is lost or breaks. A join without a leave before it drops the rows that are pending; every
  join starts the numbers of the chunks from 0 again; a row that does not fit the buffer of the writer
  brings the recorder down when its chunk is written.\<close>

lemma rse_rejoin_drops:
  "\<not> rse_closed s \<Longrightarrow> \<exists>s' st. rse_push codec fid now ts (Rec_JoinRoom app room peer) s = Inr (s', None) \<and> rse_state s' = Some st
     \<and> pending st = [\<lparr>row_ts = ts, row_event = Rec_JoinRoom app room peer\<rparr>] \<and> rst_index st = 0"
  by (simp add: rse_push_def rse_join_def pending_def)

lemma rcw_push_long: "row \<in> set rows \<Longrightarrow> \<not> fits (rc_row codec row) \<Longrightarrow> rfold (rcw_push codec) rows w = Inl Expect_None"
proof (induction rows arbitrary: w)
  case (Cons r rows)
  then show ?case by (cases "fits (rc_row codec r)") (auto simp: rcw_push_fits rcw_push_too_long)
qed simp

lemma rse_long_row_panics:
  assumes "rse_state s = Some st" and "row \<in> set (pending st)" and "\<not> fits (rc_row codec row)"
  shows "rse_pop_file codec fid now True s = Inl Expect_None"
proof -
  obtain queue where q: "rst_queue st = Some queue" "row \<in> set queue" using assms(2) by (cases "rst_queue st") (auto simp: pending_def)
  have "rse_write codec fid (rse_session s) st queue = Inl Expect_None"
    using rcw_push_long [OF q(2) assms(3)] by (simp add: rse_write_def rcw_new_def Let_def header_write_to_def)
  then show ?thesis using q assms(1) by (auto simp: rse_pop_file_def Let_def)
qed

section \<open>Reading back\<close>

text \<open>A reader that has \<open>rows\<close> of its current chunk and then the chunks \<open>rest\<close> before it.\<close>

definition rsr_at :: "record_codec \<Rightarrow> (string \<Rightarrow> source option) \<Rightarrow> record_row list option \<Rightarrow> (string \<times> record_row list) list \<Rightarrow> session_reader \<Rightarrow> bool" where
  "rsr_at codec s3_get rows rest r \<longleftrightarrow> rel_option (reader_at codec) rows (rsr_current r) \<and> rsr_files r = rev (map fst rest)
     \<and> (\<forall>(key, rows) \<in> set rest. \<exists>h. good_header codec h \<and> s3_get key = Some \<lparr>src_data = chunk_bytes codec h rows, src_broken = False\<rparr>)"

definition cur_rows :: "record_row list option \<Rightarrow> record_row list" where
  "cur_rows rows = (case rows of None \<Rightarrow> [] | Some xs \<Rightarrow> xs)"

lemma rsr_next_at:
  assumes "rsr_at codec s3_get None ((key, rows) # rest) r"
  shows "\<exists>r'. rsr_next_chunk codec s3_get r = Inr (r', True) \<and> rsr_at codec s3_get (Some rows) rest r'"
proof -
  obtain h where h: "good_header codec h" "s3_get key = Some \<lparr>src_data = chunk_bytes codec h rows, src_broken = False\<rparr>"
    using assms by (auto simp: rsr_at_def)
  obtain c where c: "rcr_connect codec (rcr_new \<lparr>src_data = chunk_bytes codec h rows, src_broken = False\<rparr>) = Inr (c, Inr ())" "reader_at codec rows c"
    using rcr_connect_chunk [OF h(1)] by blast
  have "rsr_current r = None" "rsr_files r = rev (map fst rest) @ [key]" using assms by (auto simp: rsr_at_def)
  then show ?thesis using assms h c by (auto simp: rsr_next_chunk_def rsr_at_def)
qed

lemma rsr_recv_current:
  assumes "rsr_at codec s3_get (Some (row # rows)) rest r" and "good_row codec row"
  shows "\<exists>r'. rsr_recv codec s3_get r = Inr (r', Some row) \<and> rsr_at codec s3_get (Some rows) rest r'"
proof -
  obtain c where c: "rsr_current r = Some c" "reader_at codec (row # rows) c" using assms(1) by (auto simp: rsr_at_def option_rel_Some1)
  obtain c' where c': "rcr_pop codec c = Inr (c', Inr (Some row))" "reader_at codec rows c'" using rcr_pop_row [OF assms(2) c(2)] by blast
  show ?thesis using c c' assms(1) by (subst rsr_recv.simps) (auto simp: rsr_next_chunk_def rsr_at_def)
qed

lemma rsr_recv_close:
  assumes "rsr_at codec s3_get (Some []) rest r"
  shows "rsr_recv codec s3_get r = rsr_recv codec s3_get (r\<lparr>rsr_current := None\<rparr>)" "rsr_at codec s3_get None rest (r\<lparr>rsr_current := None\<rparr>)"
proof -
  obtain c where c: "rsr_current r = Some c" "reader_at codec [] c" using assms by (auto simp: rsr_at_def option_rel_Some1)
  obtain c' where "rcr_pop codec c = Inr (c', Inr None)" using rcr_pop_end [OF c(2)] by blast
  then show "rsr_recv codec s3_get r = rsr_recv codec s3_get (r\<lparr>rsr_current := None\<rparr>)"
    using c by (subst rsr_recv.simps) (simp add: rsr_next_chunk_def)
  show "rsr_at codec s3_get None rest (r\<lparr>rsr_current := None\<rparr>)" using assms by (simp add: rsr_at_def)
qed

lemma rsr_recv_open:
  assumes "rsr_next_chunk codec s3_get r = Inr (r', True)" and "rsr_current r' \<noteq> None"
  shows "rsr_recv codec s3_get r = rsr_recv codec s3_get r'"
proof -
  have "rsr_next_chunk codec s3_get r' = Inr (r', True)" using assms(2) by (auto simp: rsr_next_chunk_def)
  then show ?thesis using assms(1) by (subst (1 2) rsr_recv.simps) simp
qed

lemma rsr_recv_at:
  assumes "rsr_at codec s3_get rows rest r" and "\<forall>row \<in> set (cur_rows rows @ concat (map snd rest)). good_row codec row"
  shows "case cur_rows rows @ concat (map snd rest) of
      [] \<Rightarrow> \<exists>r'. rsr_recv codec s3_get r = Inr (r', None)
    | row # later \<Rightarrow> \<exists>r' rows' rest'. rsr_recv codec s3_get r = Inr (r', Some row) \<and> rsr_at codec s3_get rows' rest' r' \<and> cur_rows rows' @ concat (map snd rest') = later"
  using assms
proof (induction rest arbitrary: rows r)
  case Nil
  show ?case
  proof (cases "cur_rows rows")
    case Nil
    have e: "rsr_recv codec s3_get q = Inr (q, None)" if "rsr_at codec s3_get None [] q" for q
      using that by (subst rsr_recv.simps) (simp add: rsr_next_chunk_def rsr_at_def)
    show ?thesis using Nil.prems(1) rsr_recv_close e local.Nil by (cases rows) (auto simp: cur_rows_def)
  next
    case (Cons row later)
    then have "rows = Some (row # later)" by (auto simp: cur_rows_def split: option.splits)
    then show ?thesis using rsr_recv_current [of codec s3_get row later "[]" r] Nil.prems by (fastforce simp: cur_rows_def)
  qed
next
  case (Cons kr rest)
  obtain key krows where kr: "kr = (key, krows)" by (cases kr)
  show ?case
  proof (cases "cur_rows rows")
    case Nil
    have opn: ?thesis if at: "rsr_at codec s3_get None (kr # rest) q" and eq: "rsr_recv codec s3_get r = rsr_recv codec s3_get q" for q
    proof -
      obtain q' where q': "rsr_next_chunk codec s3_get q = Inr (q', True)" "rsr_at codec s3_get (Some krows) rest q'"
        using rsr_next_at at kr by blast
      have e: "rsr_recv codec s3_get r = rsr_recv codec s3_get q'" using rsr_recv_open [OF q'(1)] q'(2) eq by (auto simp: rsr_at_def option_rel_Some1)
      have f: "\<forall>row \<in> set (cur_rows (Some krows) @ concat (map snd rest)). good_row codec row" using Cons.prems(2) kr by (simp add: cur_rows_def)
      show ?thesis using Cons.IH [OF q'(2) f] unfolding e local.Nil kr by (simp add: cur_rows_def)
    qed
    show ?thesis
    proof (cases rows)
      case None
      then show ?thesis using opn Cons.prems(1) by blast
    next
      case (Some xs)
      then show ?thesis using opn rsr_recv_close [of codec s3_get "kr # rest" r] Cons.prems(1) Nil by (simp add: cur_rows_def)
    qed
  next
    case c: (Cons row later)
    then have "rows = Some (row # later)" by (auto simp: cur_rows_def split: option.splits)
    then show ?thesis using rsr_recv_current [of codec s3_get row later "kr # rest" r] Cons.prems c by (fastforce simp: cur_rows_def)
  qed
qed

lemma rsr_rows_at:
  shows "rsr_at codec s3_get rows rest r \<Longrightarrow> \<forall>row \<in> set (cur_rows rows @ concat (map snd rest)). good_row codec row
    \<Longrightarrow> length (cur_rows rows @ concat (map snd rest)) < n \<Longrightarrow> rsr_rows n codec s3_get r = Inr (cur_rows rows @ concat (map snd rest))"
proof (induction n arbitrary: rows rest r)
  case (Suc n)
  show ?case
  proof (cases "cur_rows rows @ concat (map snd rest)")
    case Nil
    have "\<exists>r'. rsr_recv codec s3_get r = Inr (r', None)" using rsr_recv_at [OF Suc.prems(1,2)] unfolding Nil by simp
    then show ?thesis unfolding Nil by auto
  next
    case (Cons row later)
    obtain r' rows' rest' where n: "rsr_recv codec s3_get r = Inr (r', Some row)" "rsr_at codec s3_get rows' rest' r'" "cur_rows rows' @ concat (map snd rest') = later"
      using rsr_recv_at [OF Suc.prems(1,2)] unfolding Cons by auto
    have "rsr_rows n codec s3_get r' = Inr (cur_rows rows' @ concat (map snd rest'))"
      using Suc.IH [OF n(2)] Suc.prems(2,3) n(3) Cons by simp
    then show ?thesis using n unfolding Cons by simp
  qed
qed simp

lemma rsr_recv_pop: "rsr_recv codec s3_get r = rsr_pop codec s3_get r"
proof (induction codec s3_get r rule: rsr_pop.induct)
  case (1 codec s3_get r)
  show ?case by (subst rsr_recv.simps, subst rsr_pop.simps) (auto split: sum.split option.split prod.split dest: 1)
qed

section \<open>The names of chunks\<close>

lemma append_le_iff [simp]: "(path @ a \<le> path @ b) = (a \<le> (b :: string))"
  by (induction path) simp_all

lemma digit_char_less: "i < j \<Longrightarrow> j < 10 \<Longrightarrow> digit_char i < digit_char j"
  by (simp add: digit_char_def less_char_def)

lemma rec_file_mono:
  assumes "rq_index a < rq_index b" and "rq_index b < 10"
  shows "rec_file a < rec_file b"
  using assms digit_char_less [OF assms] by (simp add: rec_file_def show_nat.simps [of "rq_index a"] show_nat.simps [of "rq_index b"])

text \<open>The name of the eleventh chunk sorts before that of the third.\<close>

lemma rec_file_ten_before_two:
  assumes "rq_index a = 10" and "rq_index b = 2"
  shows "rec_file a < rec_file b"
  using digit_char_less [of 1 2] assms by (simp add: rec_file_def show_nat.simps [of 10] show_nat.simps [of 2] show_nat.simps [of "Suc 0"])

lemma rec_files_sorted:
  assumes "map (\<lambda>(req, file). rq_index req) files = [0..<length files]" and "length files \<le> 10"
  shows "sorted (map (\<lambda>(req, file). path @ rec_file req) files)"
proof -
  have n: "rq_index (fst (files ! i)) = i" if "i < length files" for i
    using arg_cong [OF assms(1), of "\<lambda>xs. xs ! i"] that by (simp add: case_prod_beta)
  have "rec_file (fst (files ! i)) \<le> rec_file (fst (files ! j))" if "i < j" "j < length files" for i j
    using rec_file_mono [of "fst (files ! i)" "fst (files ! j)"] n that assms(2) by simp
  then show ?thesis by (simp add: sorted_iff_nth_mono_less case_prod_beta)
qed

section \<open>From recording to reading\<close>

text \<open>The chunks of a session in the object store: the keys are listed in any order, and each object is
  the stream of its file.\<close>

definition stored :: "nat \<Rightarrow> string \<Rightarrow> (record_req \<times> memory_file) list \<Rightarrow> (string \<Rightarrow> string list option) \<Rightarrow> (string \<Rightarrow> source option) \<Rightarrow> bool" where
  "stored cap path files s3_list s3_get \<longleftrightarrow>
     (\<exists>keys. s3_list path = Some keys \<and> mset keys = mset (map (\<lambda>(req, file). path @ rec_file req) files))
     \<and> (\<forall>(req, file) \<in> set files. s3_get (path @ rec_file req) = Some \<lparr>src_data = mem_stream cap file, src_broken = False\<rparr>)"

definition read_session :: "nat \<Rightarrow> record_codec \<Rightarrow> (string \<Rightarrow> string list option) \<Rightarrow> (string \<Rightarrow> source option) \<Rightarrow> nat \<Rightarrow> string \<Rightarrow> record_row list run" where
  "read_session n codec s3_list s3_get session path = rsr_rows n codec s3_get (fst (rsr_connect s3_list (rsr_new session path)))"

lemma stored_reader_at:
  assumes "codec_copes codec room peer session (set (concat rss))" and "0 < cap" and "list_all2 (chunk_in codec room peer session) files rss"
    and "stored cap path files s3_list s3_get" and "sorted (map (\<lambda>(req, file). path @ rec_file req) files)"
  shows "rsr_at codec s3_get None (zip (map (\<lambda>(req, file). path @ rec_file req) files) rss) (fst (rsr_connect s3_list (rsr_new session path)))"
proof -
  have len: "length rss = length files" using assms(3) by (simp add: list_all2_lengthD)
  obtain keys where "s3_list path = Some keys" "mset keys = mset (map (\<lambda>(req, file). path @ rec_file req) files)"
    using assms(4) by (auto simp: stored_def)
  then have "fst (rsr_connect s3_list (rsr_new session path)) = (rsr_new session path)\<lparr>rsr_files := rev (map (\<lambda>(req, file). path @ rec_file req) files)\<rparr>"
    using properties_for_sort [OF _ assms(5)] by (simp add: rsr_connect_def rsr_new_def)
  moreover have "\<exists>h. good_header codec h \<and> s3_get key = Some \<lparr>src_data = chunk_bytes codec h rows, src_broken = False\<rparr>"
    if kr: "(key, rows) \<in> set (zip (map (\<lambda>(req, file). path @ rec_file req) files) rss)" for key rows
  proof -
    obtain i where i: "i < length files" "key = path @ rec_file (fst (files ! i))" "rows = rss ! i"
      using kr len by (auto simp: set_zip case_prod_beta)
    have c: "chunk_of codec (fst (files ! i)) (snd (files ! i)) rows" "rq_room (fst (files ! i)) = room" "rq_peer (fst (files ! i)) = peer" "rq_session (fst (files ! i)) = session"
      using list_all2_nthD [OF assms(3) i(1)] i(3) by (auto simp: chunk_in_def)
    have "s3_get key = Some \<lparr>src_data = mem_stream cap (snd (files ! i)), src_broken = False\<rparr>"
      using assms(4) i nth_mem [OF i(1)] by (fastforce simp: stored_def case_prod_beta)
    moreover have sub: "set rows \<subseteq> set (concat rss)" using i(1) unfolding i(3) set_concat len [symmetric] by (intro UN_upper nth_mem)
    have ne: "rows \<noteq> []" using c(1) by (simp add: chunk_of_def)
    have "good_header codec \<lparr>rh_room = room, rh_peer = peer, rh_session = session, rh_start_ts = row_ts (hd rows), rh_end_ts = row_ts (last rows)\<rparr>"
      using assms(1) subsetD [OF sub hd_in_set [OF ne]] subsetD [OF sub last_in_set [OF ne]] unfolding codec_copes_def by blast
    ultimately show ?thesis using c assms(2) by (auto simp: chunk_of_def mem_stream_left)
  qed
  ultimately show ?thesis using len by (auto simp: rsr_at_def rsr_new_def)
qed

text \<open>
  C8. Read back. A session that joins a room, records any events and ticks without joining again and ends by leaving or being
  disconnected does not panic when its rows and headers fit the buffer. If this gave at most ten chunks, then a reader that finds
  them in the object store, listed in any order, reads exactly the rows that were recorded, in their order.
\<close>

theorem record_read_back:
  assumes "\<forall>op \<in> set ops. \<not> joins op" and "ops \<noteq> []" and "flushes (last ops)"
    and "rows = snd (fold rows_step ops (False, [\<lparr>row_ts = ts, row_event = Rec_JoinRoom app room peer\<rparr>]))"
    and "codec_copes codec room peer session (set rows)"
  shows "\<exists>s files. rfold (rse_step codec) (Rse_Push fid now ts (Rec_JoinRoom app room peer) # ops) (rse_new session, []) = Inr (s, files)
    \<and> (length files \<le> 10 \<longrightarrow> (\<forall>cap path s3_list s3_get n. 0 < cap \<longrightarrow> stored cap path files s3_list s3_get \<longrightarrow> length rows < n
         \<longrightarrow> read_session n codec s3_list s3_get session path = Inr rows))"
proof -
  let ?row = "\<lparr>row_ts = ts, row_event = Rec_JoinRoom app room peer\<rparr>"
  let ?s = "rse_join ts app room peer (rse_new session)"
  have "recording codec room peer session (False, [?row]) (?s, [])"
    by (simp add: recording_def rse_join_def rse_new_def pending_def)
  from recording_run [OF _ this assms(1)] assms(2-5)
  obtain s files where run: "rfold (rse_step codec) ops (?s, []) = Inr (s, files)" and
      rec: "recording codec room peer session (fold rows_step ops (False, [?row])) (s, files)" and fl: "flushed s"
    by auto
  have first: "rfold (rse_step codec) (Rse_Push fid now ts (Rec_JoinRoom app room peer) # ops) (rse_new session, []) = Inr (s, files)"
    using run by (simp add: rse_push_def rse_new_def)
  obtain rss where rss: "list_all2 (chunk_in codec room peer session) files rss" "concat rss = rows"
      "map (\<lambda>(req, file). rq_index req) files = map (\<lambda>i. i mod 2 ^ 32) [0..<length files]"
    using rec fl assms(4) by (auto simp: recording_def flushed_def)
  have "read_session n codec s3_list s3_get session path = Inr rows"
    if small: "length files \<le> 10" and cap: "0 < cap" and st: "stored cap path files s3_list s3_get" and n: "length rows < n" for cap path s3_list s3_get n
  proof -
    have "map (\<lambda>(req, file). rq_index req) files = [0..<length files]"
      unfolding rss(3) using small by (intro map_idI) simp
    then have at: "rsr_at codec s3_get None (zip (map (\<lambda>(req, file). path @ rec_file req) files) rss) (fst (rsr_connect s3_list (rsr_new session path)))"
      using stored_reader_at [OF _ cap rss(1) st] assms(5) rss(2) rec_files_sorted small by blast
    have "concat (map snd (zip (map (\<lambda>(req, file). path @ rec_file req) files) rss)) = rows"
      using rss(1,2) by (simp add: list_all2_lengthD)
    then show ?thesis using rsr_rows_at [OF at, of n] assms(5) n by (simp add: read_session_def cur_rows_def codec_copes_def)
  qed
  then show ?thesis using first by blast
qed

section \<open>An instance\<close>

definition demo_join :: record_row where
  "demo_join = \<lparr>row_ts = 10, row_event = Rec_JoinRoom ''app'' ''room'' ''peer''\<rparr>"

definition demo_stop :: record_row where
  "demo_stop = \<lparr>row_ts = 20, row_event = Rec_TrackStopped 7\<rparr>"

definition demo_codec :: record_codec where
  "demo_codec = \<lparr>rc_header = (\<lambda>h. [word_of_nat (rh_start_ts h), word_of_nat (rh_end_ts h)]),
     rc_read_header = (\<lambda>bs. case bs of [a, b] \<Rightarrow> Some \<lparr>rh_room = ''room'', rh_peer = ''peer'', rh_session = 5, rh_start_ts = unat a, rh_end_ts = unat b\<rparr> | _ \<Rightarrow> None),
     rc_row = (\<lambda>r. case row_event r of Rec_JoinRoom _ _ _ \<Rightarrow> [1] | _ \<Rightarrow> [2]),
     rc_read_row = (\<lambda>bs. if bs = [1] then Some demo_join else if bs = [2] then Some demo_stop else None)\<rparr>"

definition demo_ops :: "rse_op list" where
  "demo_ops = [Rse_Push 1 21 20 (Rec_TrackStopped 7), Rse_Tick 2 25, Rse_Push 3 30 30 Rec_LeaveRoom]"

lemma demo_rows: "snd (fold rows_step demo_ops (False, [demo_join])) = [demo_join, demo_stop]"
  by (simp add: demo_ops_def demo_stop_def)

lemma demo_codec_copes: "codec_copes demo_codec ''room'' ''peer'' 5 (set [demo_join, demo_stop])"
  by (simp add: codec_copes_def good_row_def good_header_def fits_def demo_codec_def demo_join_def demo_stop_def CHUNK_BUF_def)

definition demo_store :: "string \<Rightarrow> (record_req \<times> memory_file) list \<Rightarrow> string \<Rightarrow> source option" where
  "demo_store path files = map_of (map (\<lambda>(req, file). (path @ rec_file req, \<lparr>src_data = mem_stream 4 file, src_broken = False\<rparr>)) files)"

lemma demo_run:
  "\<exists>s req f. rfold (rse_step demo_codec) (Rse_Push 0 11 10 (Rec_JoinRoom ''app'' ''room'' ''peer'') # demo_ops) (rse_new 5, []) = Inr (s, [(req, f)])"
  by (simp add: demo_ops_def rse_push_def rse_tick_def rse_new_def rse_join_def rse_pop_file_def rse_append_def u64_sub_def MAX_FILE_LEN_MS_def
    rse_write_def rcw_new_def rcw_push_def header_write_to_def row_write_to_def demo_codec_def CHUNK_BUF_def)

lemma demo_stored: "stored 4 path [(req, f)] (\<lambda>_. Some [path @ rec_file req]) (demo_store path [(req, f)])"
  by (simp add: stored_def demo_store_def)

theorem record_read_back_witness:
  "\<exists>s req f. rfold (rse_step demo_codec) (Rse_Push 0 11 10 (Rec_JoinRoom ''app'' ''room'' ''peer'') # demo_ops) (rse_new 5, []) = Inr (s, [(req, f)])
     \<and> read_session 3 demo_codec (\<lambda>_. Some [''p/'' @ rec_file req]) (demo_store ''p/'' [(req, f)]) 5 ''p/'' = Inr [demo_join, demo_stop]"
proof -
  obtain s req f where run: "rfold (rse_step demo_codec) (Rse_Push 0 11 10 (Rec_JoinRoom ''app'' ''room'' ''peer'') # demo_ops) (rse_new 5, []) = Inr (s, [(req, f)])"
    using demo_run by blast
  have ops: "\<forall>op \<in> set demo_ops. \<not> joins op" "demo_ops \<noteq> []" "flushes (last demo_ops)" by (simp_all add: demo_ops_def flushes_def)
  have rows: "[demo_join, demo_stop] = snd (fold rows_step demo_ops (False, [\<lparr>row_ts = 10, row_event = Rec_JoinRoom ''app'' ''room'' ''peer''\<rparr>]))"
    using demo_rows by (simp add: demo_join_def)
  obtain s' files where
    a: "rfold (rse_step demo_codec) (Rse_Push 0 11 10 (Rec_JoinRoom ''app'' ''room'' ''peer'') # demo_ops) (rse_new 5, []) = Inr (s', files)" and
    b: "length files \<le> 10 \<longrightarrow> (\<forall>cap path s3_list s3_get n. 0 < cap \<longrightarrow> stored cap path files s3_list s3_get \<longrightarrow> length [demo_join, demo_stop] < n
         \<longrightarrow> read_session n demo_codec s3_list s3_get 5 path = Inr [demo_join, demo_stop])"
    using record_read_back [OF ops rows demo_codec_copes, of 0 11] by (elim exE conjE)
  have "files = [(req, f)]" using a run by (simp only: sum.inject prod.inject)
  then have "read_session 3 demo_codec (\<lambda>_. Some [''p/'' @ rec_file req]) (demo_store ''p/'' [(req, f)]) 5 ''p/'' = Inr [demo_join, demo_stop]"
    using b demo_stored [of "''p/''" req f] by (metis One_nat_def Suc_le_eq length_Cons lessI list.size(3) numeral_3_eq_3 one_le_numeral zero_less_numeral)
  then show ?thesis using run by blast
qed

end
