(* ===== verification/Record_Upload.thy ===== *)
theory Record_Upload
  imports Record_Session Index_Map
begin

text \<open>
  What becomes of the chunks: \<^verbatim>\<open>MediaRecordService\<close> (\<^verbatim>\<open>packages/media_record/src/lib.rs\<close>) keeps a recorder per
  session, asks the connector for an address for every chunk and hands the chunk to the upload worker
  (\<^verbatim>\<open>worker.rs\<close>) over a channel of ten places; the worker keeps it in the storage in memory or on disk
  (\<^verbatim>\<open>storage\<close>) until the address has come, and one of its children sends it.

  The channel is the list of what waits in it. The ids of files are random numbers and given to the operations;
  whether the copy to disk succeeds is an argument. Sizes of data in memory do not reach the width of \<^verbatim>\<open>usize\<close>. A file on disk is its contents. What a child sends is
  the address, the announced length and the body.
\<close>

section \<open>The storage\<close>

record memory_storage =
  mst_files :: "(nat, memory_file) imap"
  mst_current_size :: nat
  mst_max_size :: nat

record disk_file =
  dsk_id :: nat
  dsk_len :: nat
  dsk_start_ts :: "nat option"
  dsk_end_ts :: "nat option"
  dsk_data :: bytes

datatype hybrid_file = Hf_Mem memory_file | Hf_Disk disk_file

record hybrid_storage =
  hst_mem :: memory_storage
  hst_disk :: "(nat, disk_file) imap"

definition mst_new :: "nat \<Rightarrow> memory_storage" where
  "mst_new max_size = \<lparr>mst_files = [], mst_current_size = 0, mst_max_size = max_size\<rparr>"

definition mst_push :: "memory_file \<Rightarrow> memory_storage \<Rightarrow> memory_storage" where
  "mst_push f s = s\<lparr>mst_current_size := mst_current_size s + mem_len f, mst_files := im_insert (mem_id f) f (mst_files s)\<rparr>"

definition mst_pop :: "nat \<Rightarrow> memory_storage \<Rightarrow> memory_storage \<times> memory_file option" where
  "mst_pop file_id s = (case im_get (mst_files s) file_id of None \<Rightarrow> (s, None)
     | Some f \<Rightarrow> (s\<lparr>mst_files := im_swap_remove file_id (mst_files s), mst_current_size := mst_current_size s - mem_len f\<rparr>, Some f))"

definition mst_can_push :: "nat \<Rightarrow> memory_storage \<Rightarrow> bool" where
  "mst_can_push len s \<longleftrightarrow> mst_current_size s + len \<le> mst_max_size s"

definition dst_push :: "disk_file \<Rightarrow> (nat, disk_file) imap \<Rightarrow> (nat, disk_file) imap" where
  "dst_push f files = im_insert (dsk_id f) f files"

definition dst_pop :: "nat \<Rightarrow> (nat, disk_file) imap \<Rightarrow> (nat, disk_file) imap \<times> disk_file option" where
  "dst_pop file_id files = (im_swap_remove file_id files, im_get files file_id)"

definition dst_can_push :: "nat \<Rightarrow> (nat, disk_file) imap \<Rightarrow> bool" where
  "dst_can_push len files = True"

text \<open>The standard copy reads the file to its end in pieces of 8 kB.\<close>

definition COPY_BUF :: nat where "COPY_BUF = 8192"

definition dst_copy_from_mem :: "bool \<Rightarrow> memory_file \<Rightarrow> disk_file option" where
  "dst_copy_from_mem disk_ok old = (if disk_ok then Some \<lparr>dsk_id = mem_id old, dsk_len = mem_len old, dsk_start_ts = mem_start_ts old,
     dsk_end_ts = mem_end_ts old, dsk_data = mem_stream COPY_BUF old\<rparr> else None)"

definition hst_new :: "nat \<Rightarrow> hybrid_storage" where
  "hst_new max_memory_size = \<lparr>hst_mem = mst_new max_memory_size, hst_disk = []\<rparr>"

definition hst_push :: "bool \<Rightarrow> hybrid_file \<Rightarrow> hybrid_storage \<Rightarrow> hybrid_storage" where
  "hst_push disk_ok file s = (case file of
     Hf_Mem f \<Rightarrow> if mst_can_push (mem_len f) (hst_mem s) then s\<lparr>hst_mem := mst_push f (hst_mem s)\<rparr>
       else if dst_can_push (mem_len f) (hst_disk s) then
         (case dst_copy_from_mem disk_ok f of Some d \<Rightarrow> s\<lparr>hst_disk := dst_push d (hst_disk s)\<rparr> | None \<Rightarrow> s)
       else s
   | Hf_Disk d \<Rightarrow> if dst_can_push (dsk_len d) (hst_disk s) then s\<lparr>hst_disk := dst_push d (hst_disk s)\<rparr> else s)"

definition hst_pop :: "nat \<Rightarrow> hybrid_storage \<Rightarrow> hybrid_storage \<times> hybrid_file option" where
  "hst_pop file_id s = (case mst_pop file_id (hst_mem s) of
     (mem, Some f) \<Rightarrow> (s\<lparr>hst_mem := mem\<rparr>, Some (Hf_Mem f))
   | (mem, None) \<Rightarrow> (case dst_pop file_id (hst_disk s) of (disk, d) \<Rightarrow> (s\<lparr>hst_mem := mem, hst_disk := disk\<rparr>, map_option Hf_Disk d)))"

definition hst_can_push :: "nat \<Rightarrow> hybrid_storage \<Rightarrow> bool" where
  "hst_can_push len s \<longleftrightarrow> mst_can_push len (hst_mem s) \<or> dst_can_push len (hst_disk s)"

definition hf_id :: "hybrid_file \<Rightarrow> nat" where
  "hf_id file = (case file of Hf_Mem f \<Rightarrow> mem_id f | Hf_Disk f \<Rightarrow> dsk_id f)"

definition hf_len :: "hybrid_file \<Rightarrow> nat" where
  "hf_len file = (case file of Hf_Mem f \<Rightarrow> mem_len f | Hf_Disk f \<Rightarrow> dsk_len f)"

text \<open>The body of the request is a stream that reads the file in pieces of 4 kB.\<close>

definition STREAM_BUF :: nat where "STREAM_BUF = 4096"

definition hf_stream :: "hybrid_file \<Rightarrow> bytes" where
  "hf_stream file = (case file of Hf_Mem f \<Rightarrow> mem_stream STREAM_BUF f | Hf_Disk f \<Rightarrow> dsk_data f)"

section \<open>The upload worker\<close>

datatype worker_input = Wi_RecordChunk memory_file | Wi_UploadLink nat string

record upload_worker =
  upw_storage :: hybrid_storage
  upw_job_queue :: "(nat \<times> string) list"

definition WORKER_CHANNEL :: nat where "WORKER_CHANNEL = 10"

definition upw_new :: "nat \<Rightarrow> upload_worker" where
  "upw_new max_memory_size = \<lparr>upw_storage = hst_new max_memory_size, upw_job_queue = []\<rparr>"

definition upw_recv :: "bool \<Rightarrow> worker_input \<Rightarrow> upload_worker \<Rightarrow> upload_worker" where
  "upw_recv disk_ok input w = (case input of
     Wi_RecordChunk file \<Rightarrow> if hst_can_push (mem_len file) (upw_storage w)
       then w\<lparr>upw_storage := hst_push disk_ok (Hf_Mem file) (upw_storage w)\<rparr> else w
   | Wi_UploadLink file_id link \<Rightarrow> w\<lparr>upw_job_queue := upw_job_queue w @ [(file_id, link)]\<rparr>)"

record upload =
  upl_file :: nat
  upl_link :: string
  upl_len :: nat
  upl_body :: bytes

text \<open>One round of a child. A request that fails is not tried again, so its outcome changes nothing here.\<close>

definition upw_child :: "upload_worker \<Rightarrow> upload_worker \<times> upload option" where
  "upw_child w = (case upw_job_queue w of [] \<Rightarrow> (w, None)
     | (file_id, link) # jobs \<Rightarrow> (case hst_pop file_id (upw_storage w) of (storage, popped) \<Rightarrow>
         (w\<lparr>upw_job_queue := jobs, upw_storage := storage\<rparr>,
          map_option (\<lambda>f. \<lparr>upl_file = file_id, upl_link = link, upl_len = hf_len f, upl_body = hf_stream f\<rparr>) popped)))"

section \<open>The record service\<close>

datatype record_output = Ro_UploadRequest nat record_req

record media_record_service =
  mrs_req_id_seed :: nat
  mrs_queue :: "record_output list"
  mrs_chunk_map :: "(nat, nat) imap"
  mrs_sessions :: "(nat, session_record) imap"
  mrs_worker_tx :: "worker_input list"

definition mrs_new :: media_record_service where
  "mrs_new = \<lparr>mrs_req_id_seed = 0, mrs_queue = [], mrs_chunk_map = [], mrs_sessions = [], mrs_worker_tx = []\<rparr>"

text \<open>\<^verbatim>\<open>try_send\<close> refuses what does not fit the channel; the error is only logged.\<close>

definition try_send :: "worker_input \<Rightarrow> media_record_service \<Rightarrow> media_record_service" where
  "try_send input s = (if length (mrs_worker_tx s) < WORKER_CHANNEL then s\<lparr>mrs_worker_tx := mrs_worker_tx s @ [input]\<rparr> else s)"

definition mrs_process_chunk :: "record_req \<Rightarrow> memory_file \<Rightarrow> media_record_service \<Rightarrow> media_record_service" where
  "mrs_process_chunk req file s = (let req_id = mrs_req_id_seed s in
     try_send (Wi_RecordChunk file) (s\<lparr>mrs_req_id_seed := u64_add req_id 1, mrs_queue := mrs_queue s @ [Ro_UploadRequest req_id req],
       mrs_chunk_map := im_insert req_id (mem_id file) (mrs_chunk_map s)\<rparr>))"

definition mrs_chunk :: "(record_req \<times> memory_file) option \<Rightarrow> media_record_service \<Rightarrow> media_record_service" where
  "mrs_chunk chunk s = (case chunk of None \<Rightarrow> s | Some (req, file) \<Rightarrow> mrs_process_chunk req file s)"

definition mrs_session_push :: "record_codec \<Rightarrow> nat \<Rightarrow> nat \<Rightarrow> nat \<Rightarrow> nat \<Rightarrow> session_record_event \<Rightarrow> media_record_service \<Rightarrow> (media_record_service \<times> (record_req \<times> memory_file) option) run" where
  "mrs_session_push codec fid now_ms session event_ts event s =
     rbind (rse_push codec fid now_ms event_ts event (im_or (mrs_sessions s) session (rse_new session))) (\<lambda>(se, chunk).
       Inr (s\<lparr>mrs_sessions := im_insert session se (mrs_sessions s)\<rparr>, chunk))"

definition mrs_on_record_event :: "record_codec \<Rightarrow> nat \<Rightarrow> nat \<Rightarrow> nat \<Rightarrow> nat \<Rightarrow> session_record_event \<Rightarrow> media_record_service \<Rightarrow> media_record_service run" where
  "mrs_on_record_event codec fid now_ms session event_ts event s =
     rbind (mrs_session_push codec fid now_ms session event_ts event s) (\<lambda>(s', chunk). Inr (mrs_chunk chunk s'))"

definition mrs_session_tick :: "record_codec \<Rightarrow> nat \<Rightarrow> nat \<Rightarrow> nat \<Rightarrow> media_record_service \<Rightarrow> (media_record_service \<times> (record_req \<times> memory_file) option) run" where
  "mrs_session_tick codec fid now session s = (case im_get (mrs_sessions s) session of None \<Rightarrow> Inr (s, None)
     | Some se \<Rightarrow> rbind (rse_tick codec fid now se) (\<lambda>(se', chunk). Inr (s\<lparr>mrs_sessions := im_insert session se' (mrs_sessions s)\<rparr>, chunk)))"

definition mrs_retain :: "media_record_service \<Rightarrow> media_record_service" where
  "mrs_retain s = s\<lparr>mrs_sessions := filter (\<lambda>(_, se). \<not> rse_is_closed se) (mrs_sessions s)\<rparr>"

definition mrs_on_tick :: "record_codec \<Rightarrow> (nat \<Rightarrow> nat) \<Rightarrow> nat \<Rightarrow> media_record_service \<Rightarrow> media_record_service run" where
  "mrs_on_tick codec fids now s =
     rbind (rfold (\<lambda>session s. rbind (mrs_session_tick codec (fids session) now session s) (\<lambda>(s', chunk). Inr (mrs_chunk chunk s')))
       (map fst (mrs_sessions s)) s) (\<lambda>s'. Inr (mrs_retain s'))"

definition mrs_on_response :: "nat \<Rightarrow> string \<Rightarrow> media_record_service \<Rightarrow> media_record_service" where
  "mrs_on_response req_id s3_uri s = (case im_get (mrs_chunk_map s) req_id of None \<Rightarrow> s
     | Some file_id \<Rightarrow> try_send (Wi_UploadLink file_id s3_uri) (s\<lparr>mrs_chunk_map := im_swap_remove req_id (mrs_chunk_map s)\<rparr>))"

definition mrs_pop_output :: "media_record_service \<Rightarrow> media_record_service \<times> record_output option" where
  "mrs_pop_output s = (case mrs_queue s of [] \<Rightarrow> (s, None) | x # xs \<Rightarrow> (s\<lparr>mrs_queue := xs\<rparr>, Some x))"

section \<open>Files from the recorders\<close>

text \<open>A session whose pending rows and headers fit the writer's buffer.\<close>

definition room_header_fits :: "record_codec \<Rightarrow> string \<Rightarrow> string \<Rightarrow> bool" where
  "room_header_fits codec room peer \<longleftrightarrow>
     (\<forall>session a b. fits (rc_header codec \<lparr>rh_room = room, rh_peer = peer, rh_session = session, rh_start_ts = a, rh_end_ts = b\<rparr>))"

definition sess_ok :: "record_codec \<Rightarrow> session_record \<Rightarrow> bool" where
  "sess_ok codec se \<longleftrightarrow> (\<forall>st. rse_state se = Some st \<longrightarrow> (\<forall>r \<in> set (pending st). fits (rc_row codec r)) \<and> room_header_fits codec (rst_room st) (rst_peer st))"

definition event_fits :: "record_codec \<Rightarrow> nat \<Rightarrow> session_record_event \<Rightarrow> bool" where
  "event_fits codec ts event \<longleftrightarrow> fits (rc_row codec \<lparr>row_ts = ts, row_event = event\<rparr>)
     \<and> (case event of Rec_JoinRoom app room peer \<Rightarrow> room_header_fits codec room peer | _ \<Rightarrow> True)"

definition file_ok :: "nat \<Rightarrow> (record_req \<times> memory_file) option \<Rightarrow> bool" where
  "file_ok fid chunk \<longleftrightarrow> (\<forall>req f. chunk = Some (req, f) \<longrightarrow> mem_ok f \<and> mem_id f = fid)"

lemma sess_ok_pop_file:
  assumes "sess_ok codec se"
  shows "\<exists>se' chunk. rse_pop_file codec fid now force se = Inr (se', chunk) \<and> sess_ok codec se' \<and> file_ok fid chunk"
proof (cases "\<exists>st queue. rse_state se = Some st \<and> rst_queue st = Some queue \<and> queue \<noteq> []")
  case True
  then obtain st queue where q: "rse_state se = Some st" "rst_queue st = Some queue" "queue \<noteq> []" by blast
  have "\<forall>r \<in> set queue. fits (rc_row codec r)" "room_header_fits codec (rst_room st) (rst_peer st)"
    using assms q by (auto simp: sess_ok_def pending_def)
  from rse_write_chunk [OF q(3) this(1), of st "rse_session se" fid] this(2)
  obtain req f where w: "rse_write codec fid (rse_session se) st queue = Inr (req, f)" "chunk_of codec req f queue" "mem_id f = fid"
    by (auto simp: room_header_fits_def)
  show ?thesis using q w assms by (auto simp: rse_pop_file_def Let_def sess_ok_def file_ok_def chunk_of_def pending_def)
next
  case False
  then show ?thesis using assms by (auto simp: rse_pop_file_def file_ok_def split: option.split)
qed

lemma sess_ok_push:
  assumes "sess_ok codec se" and "event_fits codec ts event"
  shows "\<exists>se' chunk. rse_push codec fid now ts event se = Inr (se', chunk) \<and> sess_ok codec se' \<and> file_ok fid chunk"
proof -
  have c: "sess_ok codec (se\<lparr>rse_closed := True\<rparr>)" using assms(1) by (simp add: sess_ok_def)
  have a: "sess_ok codec (se\<lparr>rse_state := Some (rse_append \<lparr>row_ts = ts, row_event = event\<rparr> st)\<rparr>)" if "rse_state se = Some st" for st
    using assms that by (auto simp: sess_ok_def event_fits_def)
  have j: "sess_ok codec (rse_join ts app room peer se)" if "event = Rec_JoinRoom app room peer" for app room peer
    using assms(2) that by (simp add: sess_ok_def rse_join_def event_fits_def pending_def)
  show ?thesis using sess_ok_pop_file [OF assms(1)] sess_ok_pop_file [OF c] sess_ok_pop_file [OF a] j assms(1)
    by (cases event) (auto simp: rse_push_def file_ok_def split: option.split)
qed

section \<open>Service and worker together\<close>

text \<open>Besides the state of the two, a run collects the chunks that were made with the number of their
  request, the addresses that were answered, and the uploads.\<close>

record record_run =
  rr_service :: media_record_service
  rr_worker :: upload_worker
  rr_chunks :: "(nat \<times> record_req \<times> memory_file) list"
  rr_answers :: "(nat \<times> string) list"
  rr_uploads :: "upload list"

definition rr_start :: "nat \<Rightarrow> record_run" where
  "rr_start max_size = \<lparr>rr_service = mrs_new, rr_worker = upw_new max_size, rr_chunks = [], rr_answers = [], rr_uploads = []\<rparr>"

datatype rr_op = Rr_Event nat nat nat nat session_record_event | Rr_Tick "nat \<Rightarrow> nat" nat | Rr_Response nat string | Rr_Pop | Rr_Recv bool | Rr_Child

definition rr_emit :: "(record_req \<times> memory_file) option \<Rightarrow> media_record_service \<Rightarrow> record_run \<Rightarrow> record_run" where
  "rr_emit chunk s rr = rr\<lparr>rr_service := mrs_chunk chunk s,
     rr_chunks := rr_chunks rr @ (case chunk of None \<Rightarrow> [] | Some (req, f) \<Rightarrow> [(mrs_req_id_seed s, req, f)])\<rparr>"

definition rr_tick_one :: "record_codec \<Rightarrow> (nat \<Rightarrow> nat) \<Rightarrow> nat \<Rightarrow> nat \<Rightarrow> record_run \<Rightarrow> record_run run" where
  "rr_tick_one codec fids now session rr = rbind (mrs_session_tick codec (fids session) now session (rr_service rr)) (\<lambda>(s, chunk). Inr (rr_emit chunk s rr))"

fun rr_step :: "record_codec \<Rightarrow> rr_op \<Rightarrow> record_run \<Rightarrow> record_run run" where
  "rr_step codec (Rr_Event fid now session ts event) rr =
     rbind (mrs_session_push codec fid now session ts event (rr_service rr)) (\<lambda>(s, chunk). Inr (rr_emit chunk s rr))"
| "rr_step codec (Rr_Tick fids now) rr =
     rbind (rfold (rr_tick_one codec fids now) (map fst (mrs_sessions (rr_service rr))) rr) (\<lambda>rr'. Inr (rr'\<lparr>rr_service := mrs_retain (rr_service rr')\<rparr>))"
| "rr_step codec (Rr_Response req_id uri) rr = Inr (rr\<lparr>rr_service := mrs_on_response req_id uri (rr_service rr), rr_answers := rr_answers rr @ [(req_id, uri)]\<rparr>)"
| "rr_step codec Rr_Pop rr = Inr (rr\<lparr>rr_service := fst (mrs_pop_output (rr_service rr))\<rparr>)"
| "rr_step codec (Rr_Recv disk_ok) rr = Inr (case mrs_worker_tx (rr_service rr) of [] \<Rightarrow> rr
     | input # rest \<Rightarrow> rr\<lparr>rr_service := (rr_service rr)\<lparr>mrs_worker_tx := rest\<rparr>, rr_worker := upw_recv disk_ok input (rr_worker rr)\<rparr>)"
| "rr_step codec Rr_Child rr = Inr (case upw_child (rr_worker rr) of (w, up) \<Rightarrow>
     rr\<lparr>rr_worker := w, rr_uploads := rr_uploads rr @ (case up of None \<Rightarrow> [] | Some u \<Rightarrow> [u])\<rparr>)"

text \<open>The steps are those of the service.\<close>

lemma rr_event_service: "rr_step codec (Rr_Event fid now session ts event) rr = Inr rr' \<Longrightarrow>
    mrs_on_record_event codec fid now session ts event (rr_service rr) = Inr (rr_service rr')"
  by (auto simp: rbind_eq_Inr mrs_on_record_event_def rr_emit_def)

lemma rr_ticks_service:
  "rfold (rr_tick_one codec fids now) ks rr = Inr rr' \<Longrightarrow>
   rfold (\<lambda>session s. rbind (mrs_session_tick codec (fids session) now session s) (\<lambda>(s', chunk). Inr (mrs_chunk chunk s'))) ks (rr_service rr) = Inr (rr_service rr')"
proof (induction ks arbitrary: rr)
  case (Cons k ks)
  then obtain rr1 where r1: "rr_tick_one codec fids now k rr = Inr rr1" "rfold (rr_tick_one codec fids now) ks rr1 = Inr rr'" by (auto simp: rbind_eq_Inr)
  have "rbind (mrs_session_tick codec (fids k) now k (rr_service rr)) (\<lambda>(s', chunk). Inr (mrs_chunk chunk s')) = Inr (rr_service rr1)"
    using r1(1) by (auto simp: rr_tick_one_def rr_emit_def rbind_eq_Inr)
  then show ?case using Cons.IH [OF r1(2)] by simp
qed simp

lemma rr_tick_service: "rr_step codec (Rr_Tick fids now) rr = Inr rr' \<Longrightarrow> mrs_on_tick codec fids now (rr_service rr) = Inr (rr_service rr')"
  using rr_ticks_service by (fastforce simp: rbind_eq_Inr mrs_on_tick_def)

section \<open>The invariant\<close>

definition file_ids :: "record_run \<Rightarrow> nat list" where
  "file_ids rr = map (\<lambda>(_, _, f). mem_id f) (rr_chunks rr)"

definition made :: "record_run \<Rightarrow> memory_file \<Rightarrow> bool" where
  "made rr f \<longleftrightarrow> (\<exists>req_id req. (req_id, req, f) \<in> set (rr_chunks rr))"

definition linked :: "record_run \<Rightarrow> nat \<Rightarrow> string \<Rightarrow> bool" where
  "linked rr fid uri \<longleftrightarrow> (\<exists>req_id req f. (req_id, req, f) \<in> set (rr_chunks rr) \<and> mem_id f = fid \<and> (req_id, uri) \<in> set (rr_answers rr))"

definition input_ok :: "record_run \<Rightarrow> worker_input \<Rightarrow> bool" where
  "input_ok rr input = (case input of Wi_RecordChunk f \<Rightarrow> made rr f | Wi_UploadLink fid uri \<Rightarrow> linked rr fid uri)"

definition map_ok :: "record_run \<Rightarrow> (nat, nat) imap \<Rightarrow> bool" where
  "map_ok rr m \<longleftrightarrow> im_wf m \<and> (\<forall>(req_id, fid) \<in> set m. \<exists>req f. (req_id, req, f) \<in> set (rr_chunks rr) \<and> mem_id f = fid)"

definition mst_ok :: "record_run \<Rightarrow> memory_storage \<Rightarrow> bool" where
  "mst_ok rr m \<longleftrightarrow> im_wf (mst_files m) \<and> (\<forall>(fid, f) \<in> set (mst_files m). mem_id f = fid \<and> made rr f)
     \<and> mst_current_size m = (\<Sum>(fid, f) \<leftarrow> mst_files m. mem_len f) \<and> mst_current_size m \<le> mst_max_size m"

definition dst_ok :: "record_run \<Rightarrow> (nat, disk_file) imap \<Rightarrow> bool" where
  "dst_ok rr m \<longleftrightarrow> im_wf m \<and> (\<forall>(fid, d) \<in> set m. dsk_id d = fid \<and> (\<exists>f. made rr f \<and> mem_id f = fid \<and> dsk_len d = mem_len f \<and> dsk_data d = mem_left f))"

definition upload_ok :: "record_run \<Rightarrow> upload \<Rightarrow> bool" where
  "upload_ok rr u \<longleftrightarrow> linked rr (upl_file u) (upl_link u) \<and> upl_len u = length (upl_body u) \<and> (\<exists>f. made rr f \<and> mem_id f = upl_file u \<and> upl_body u = mem_left f)"

fun waiting :: "worker_input \<Rightarrow> nat list" where
  "waiting (Wi_RecordChunk f) = [mem_id f]"
| "waiting (Wi_UploadLink _ _) = []"

text \<open>Where files are: in the channel, in memory, on disk or sent.\<close>

definition places :: "record_run \<Rightarrow> nat list" where
  "places rr = concat (map waiting (mrs_worker_tx (rr_service rr))) @ map fst (mst_files (hst_mem (upw_storage (rr_worker rr))))
     @ map fst (hst_disk (upw_storage (rr_worker rr))) @ map upl_file (rr_uploads rr)"

definition rr_ok :: "record_codec \<Rightarrow> record_run \<Rightarrow> bool" where
  "rr_ok codec rr \<longleftrightarrow>
     (\<forall>f. made rr f \<longrightarrow> mem_ok f)
   \<and> distinct (file_ids rr) \<and> distinct (places rr) \<and> set (places rr) \<subseteq> set (file_ids rr)
   \<and> map_ok rr (mrs_chunk_map (rr_service rr))
   \<and> (\<forall>x \<in> set (mrs_worker_tx (rr_service rr)). input_ok rr x)
   \<and> (\<forall>(fid, uri) \<in> set (upw_job_queue (rr_worker rr)). linked rr fid uri)
   \<and> mst_ok rr (hst_mem (upw_storage (rr_worker rr)))
   \<and> dst_ok rr (hst_disk (upw_storage (rr_worker rr)))
   \<and> (\<forall>u \<in> set (rr_uploads rr). upload_ok rr u)
   \<and> im_wf (mrs_sessions (rr_service rr)) \<and> (\<forall>(k, se) \<in> set (mrs_sessions (rr_service rr)). sess_ok codec se)"

lemma rr_ok_parts:
  assumes "rr_ok codec rr"
  shows "made rr f \<Longrightarrow> mem_ok f" "distinct (file_ids rr)" "distinct (places rr)" "set (places rr) \<subseteq> set (file_ids rr)"
    "map_ok rr (mrs_chunk_map (rr_service rr))" "\<forall>x \<in> set (mrs_worker_tx (rr_service rr)). input_ok rr x"
    "\<forall>(fid, uri) \<in> set (upw_job_queue (rr_worker rr)). linked rr fid uri" "mst_ok rr (hst_mem (upw_storage (rr_worker rr)))"
    "dst_ok rr (hst_disk (upw_storage (rr_worker rr)))" "\<forall>u \<in> set (rr_uploads rr). upload_ok rr u"
    "im_wf (mrs_sessions (rr_service rr))" "\<forall>(k, se) \<in> set (mrs_sessions (rr_service rr)). sess_ok codec se"
  using assms unfolding rr_ok_def by blast+

definition grows :: "record_run \<Rightarrow> record_run \<Rightarrow> bool" where
  "grows rr rr' \<longleftrightarrow> set (rr_chunks rr) \<subseteq> set (rr_chunks rr') \<and> set (rr_answers rr) \<subseteq> set (rr_answers rr')"

lemma grows_mono:
  assumes "grows rr rr'"
  shows "made rr f \<Longrightarrow> made rr' f" "linked rr fid uri \<Longrightarrow> linked rr' fid uri" "input_ok rr x \<Longrightarrow> input_ok rr' x"
    "map_ok rr m \<Longrightarrow> map_ok rr' m" "mst_ok rr mem \<Longrightarrow> mst_ok rr' mem" "dst_ok rr disk \<Longrightarrow> dst_ok rr' disk" "upload_ok rr u \<Longrightarrow> upload_ok rr' u"
proof -
  show m: "made rr f \<Longrightarrow> made rr' f" for f using assms by (auto simp: grows_def made_def)
  show l: "linked rr fid uri \<Longrightarrow> linked rr' fid uri" for fid uri using assms unfolding grows_def linked_def by blast
  show "input_ok rr x \<Longrightarrow> input_ok rr' x" using m l by (auto simp: input_ok_def split: worker_input.splits)
  show "map_ok rr m \<Longrightarrow> map_ok rr' m" using assms by (fastforce simp: map_ok_def grows_def)
  show "mst_ok rr mem \<Longrightarrow> mst_ok rr' mem" using m by (fastforce simp: mst_ok_def)
  show "dst_ok rr disk \<Longrightarrow> dst_ok rr' disk" using m by (fastforce simp: dst_ok_def)
  show "upload_ok rr u \<Longrightarrow> upload_ok rr' u" using m l unfolding upload_ok_def by blast
qed

text \<open>A step that adds no chunk and moves no file.\<close>

lemma rr_ok_grows:
  assumes "rr_ok codec rr" and "rr_chunks rr' = rr_chunks rr" and "set (rr_answers rr) \<subseteq> set (rr_answers rr')" and "rr_uploads rr' = rr_uploads rr" and "rr_worker rr' = rr_worker rr"
    and "concat (map waiting (mrs_worker_tx (rr_service rr'))) = concat (map waiting (mrs_worker_tx (rr_service rr)))"
    and "\<forall>x \<in> set (mrs_worker_tx (rr_service rr')). input_ok rr' x" and "map_ok rr (mrs_chunk_map (rr_service rr'))"
    and "im_wf (mrs_sessions (rr_service rr'))" and "\<forall>(k, se) \<in> set (mrs_sessions (rr_service rr')). sess_ok codec se"
  shows "rr_ok codec rr'"
proof -
  have g: "grows rr rr'" using assms by (simp add: grows_def)
  have "file_ids rr' = file_ids rr" "places rr' = places rr" using assms by (simp_all add: file_ids_def places_def)
  moreover have "made rr' f \<longleftrightarrow> made rr f" for f using assms(2) by (simp add: made_def)
  ultimately show ?thesis
    using rr_ok_parts [OF assms(1)] grows_mono [OF g] assms unfolding rr_ok_def by (auto 0 3)
qed

lemma rr_ok_same:
  assumes "rr_ok codec rr" and "rr_chunks rr' = rr_chunks rr" and "rr_answers rr' = rr_answers rr" and "rr_uploads rr' = rr_uploads rr" and "rr_worker rr' = rr_worker rr"
    and "mrs_worker_tx (rr_service rr') = mrs_worker_tx (rr_service rr)" and "map_ok rr (mrs_chunk_map (rr_service rr'))"
    and "im_wf (mrs_sessions (rr_service rr'))" and "\<forall>(k, se) \<in> set (mrs_sessions (rr_service rr')). sess_ok codec se"
  shows "rr_ok codec rr'"
proof -
  have "grows rr rr'" using assms by (simp add: grows_def)
  then have "\<forall>x \<in> set (mrs_worker_tx (rr_service rr')). input_ok rr' x" using grows_mono(3) rr_ok_parts(6) [OF assms(1)] assms(6) by simp
  then show ?thesis using assms by (intro rr_ok_grows [OF assms(1)]) simp_all
qed

lemma try_send_simps [simp]:
  "mrs_req_id_seed (try_send x s) = mrs_req_id_seed s" "mrs_queue (try_send x s) = mrs_queue s"
  "mrs_chunk_map (try_send x s) = mrs_chunk_map s" "mrs_sessions (try_send x s) = mrs_sessions s"
  by (simp_all add: try_send_def)

lemma try_send_tx: "mrs_worker_tx (try_send x s) = mrs_worker_tx s \<or> mrs_worker_tx (try_send x s) = mrs_worker_tx s @ [x]"
  by (simp add: try_send_def)

lemma rr_emit_None: "rr_emit None s rr = rr\<lparr>rr_service := s\<rparr>"
  by (cases rr) (simp add: rr_emit_def mrs_chunk_def)

lemma places_emit:
  assumes "rr_ok codec (rr\<lparr>rr_service := s\<rparr>)" and "mem_id f \<notin> set (file_ids rr)"
  shows "distinct (places (rr_emit (Some (req, f)) s rr))" "set (places (rr_emit (Some (req, f)) s rr)) \<subseteq> insert (mem_id f) (set (file_ids rr))"
proof -
  let ?q = "rr\<lparr>rr_service := s\<rparr>"
  have "file_ids ?q = file_ids rr" by (simp add: file_ids_def)
  then have d: "distinct (places ?q)" "set (places ?q) \<subseteq> set (file_ids rr)" "mem_id f \<notin> set (places ?q)"
    using rr_ok_parts(3,4) [OF assms(1)] assms(2) by auto
  show "distinct (places (rr_emit (Some (req, f)) s rr))"
    using d(1,3) by (auto simp: places_def rr_emit_def mrs_chunk_def mrs_process_chunk_def Let_def try_send_def)
  show "set (places (rr_emit (Some (req, f)) s rr)) \<subseteq> insert (mem_id f) (set (file_ids rr))"
    using d(2) by (auto simp: places_def rr_emit_def mrs_chunk_def mrs_process_chunk_def Let_def try_send_def)
qed

lemma rr_emit_ok:
  assumes ok: "rr_ok codec (rr\<lparr>rr_service := s\<rparr>)" and "file_ok fid chunk" and "fid \<notin> set (file_ids rr)"
  shows "rr_ok codec (rr_emit chunk s rr)"
proof (cases chunk)
  case None
  then show ?thesis using ok by (simp add: rr_emit_None)
next
  case (Some rf)
  obtain req f where rf: "chunk = Some (req, f)" using Some by (cases rf) simp
  have f: "mem_ok f" "mem_id f = fid" using assms(2) rf by (auto simp: file_ok_def)
  let ?q = "rr\<lparr>rr_service := s\<rparr>" and ?r = "rr_emit chunk s rr"
  have ch: "rr_chunks ?r = rr_chunks ?q @ [(mrs_req_id_seed s, req, f)]" by (simp add: rr_emit_def rf)
  then have g: "grows ?q ?r" by (auto simp: grows_def rr_emit_def)
  have srv: "mrs_sessions (rr_service ?r) = mrs_sessions s" "mrs_chunk_map (rr_service ?r) = im_insert (mrs_req_id_seed s) fid (mrs_chunk_map s)"
    by (simp_all add: rr_emit_def rf mrs_chunk_def mrs_process_chunk_def Let_def f)
  have rest: "rr_worker ?r = rr_worker ?q" "rr_uploads ?r = rr_uploads ?q" by (simp_all add: rr_emit_def)
  have ids: "file_ids ?r = file_ids rr @ [fid]" using ch f(2) by (simp add: file_ids_def)
  have tx: "set (mrs_worker_tx (rr_service ?r)) \<subseteq> insert (Wi_RecordChunk f) (set (mrs_worker_tx s))"
    by (auto simp: rr_emit_def rf mrs_chunk_def mrs_process_chunk_def Let_def try_send_def)
  have mf: "made ?r f" using ch by (auto simp: made_def)
  note old = rr_ok_parts [OF ok, simplified] and mono = grows_mono [OF g]
  have "mem_ok g" if "made ?r g" for g using that ch old(1) [of g] f(1) by (auto simp: made_def)
  moreover have "distinct (file_ids ?r)" "set (places ?r) \<subseteq> set (file_ids ?r)" "distinct (places ?r)"
    using ids old(2) assms(3) places_emit [OF ok, of f req] f(2) rf by (auto simp: file_ids_def)
  moreover have "map_ok ?r (mrs_chunk_map (rr_service ?r))"
  proof -
    have "map_ok ?r (mrs_chunk_map s)" using mono(4) old(5) by blast
    then show ?thesis using ch f(2) srv(2) by (auto simp: map_ok_def im_wf_insert dest!: set_im_insert_in)
  qed
  moreover have "\<forall>x \<in> set (mrs_worker_tx (rr_service ?r)). input_ok ?r x" using tx mono(3) old(6) mf by (fastforce simp: input_ok_def)
  moreover have "\<forall>(fid, uri) \<in> set (upw_job_queue (rr_worker ?r)). linked ?r fid uri" using rest mono(2) old(7) by fastforce
  moreover have "mst_ok ?r (hst_mem (upw_storage (rr_worker ?r)))" "dst_ok ?r (hst_disk (upw_storage (rr_worker ?r)))" using rest mono(5,6) old(8,9) by simp_all
  moreover have "\<forall>u \<in> set (rr_uploads ?r). upload_ok ?r u" using rest mono(7) old(10) by simp
  ultimately show ?thesis using srv(1) old(11,12) unfolding rr_ok_def by simp
qed

lemma rr_emit_ids: "file_ok fid chunk \<Longrightarrow> set (file_ids (rr_emit chunk s rr)) \<subseteq> insert fid (set (file_ids rr))"
  by (cases chunk) (simp_all add: file_ids_def rr_emit_def file_ok_def case_prod_beta subset_insertI2 image_Un split_paired_all subset_iff)

text \<open>Recording and ticking.\<close>

lemma rr_set_session:
  assumes "rr_ok codec rr" and "sess_ok codec se"
  shows "rr_ok codec (rr\<lparr>rr_service := (rr_service rr)\<lparr>mrs_sessions := im_insert k se (mrs_sessions (rr_service rr))\<rparr>\<rparr>)"
  using rr_ok_parts(5,11,12) [OF assms(1)] assms(2)
  by (intro rr_ok_same [OF assms(1)]) (auto simp: im_wf_insert dest!: set_im_insert_in)

lemma rr_session_ok: "rr_ok codec rr \<Longrightarrow> im_get (mrs_sessions (rr_service rr)) k = Some se \<Longrightarrow> sess_ok codec se"
  using rr_ok_parts(11,12) by (fastforce simp: im_get_eq_Some)

lemma rr_event_ok:
  assumes "rr_ok codec rr" and "event_fits codec ts event" and "fid \<notin> set (file_ids rr)"
  shows "\<exists>rr'. rr_step codec (Rr_Event fid now session ts event) rr = Inr rr' \<and> rr_ok codec rr'"
proof -
  have "sess_ok codec (im_or (mrs_sessions (rr_service rr)) session (rse_new session))"
    using rr_session_ok [OF assms(1)] by (auto simp: sess_ok_def rse_new_def split: option.split)
  then obtain se chunk where p: "rse_push codec fid now ts event (im_or (mrs_sessions (rr_service rr)) session (rse_new session)) = Inr (se, chunk)"
      "sess_ok codec se" "file_ok fid chunk"
    using sess_ok_push [OF _ assms(2)] by blast
  show ?thesis using rr_emit_ok [OF rr_set_session [OF assms(1) p(2), of session] p(3)] assms(3) p(1) by (simp add: mrs_session_push_def)
qed

lemma mrs_chunk_sessions [simp]: "mrs_sessions (mrs_chunk chunk s) = mrs_sessions s"
  by (simp add: mrs_chunk_def mrs_process_chunk_def Let_def split: option.split prod.split)

lemma rr_tick_one_ok:
  assumes "rr_ok codec rr" and "fids k \<notin> set (file_ids rr)"
  shows "\<exists>rr'. rr_tick_one codec fids now k rr = Inr rr' \<and> rr_ok codec rr' \<and> set (file_ids rr') \<subseteq> insert (fids k) (set (file_ids rr))"
proof (cases "im_get (mrs_sessions (rr_service rr)) k")
  case None
  have "rr\<lparr>rr_service := rr_service rr\<rparr> = rr" by simp
  then show ?thesis using None assms(1) by (auto simp: rr_tick_one_def mrs_session_tick_def rr_emit_None)
next
  case (Some se)
  obtain se' chunk where p: "rse_tick codec (fids k) now se = Inr (se', chunk)" "sess_ok codec se'" "file_ok (fids k) chunk"
    using sess_ok_pop_file [OF rr_session_ok [OF assms(1) Some]] unfolding rse_tick_def by blast
  show ?thesis using rr_emit_ok [OF rr_set_session [OF assms(1) p(2), of k] p(3)] rr_emit_ids [OF p(3)] assms(2) p(1) Some
    by (simp add: rr_tick_one_def mrs_session_tick_def)
qed

lemma rr_ticks_ok:
  "rr_ok codec rr \<Longrightarrow> distinct ks \<Longrightarrow> inj_on fids (set ks) \<Longrightarrow> fids ` set ks \<inter> set (file_ids rr) = {} \<Longrightarrow>
   \<exists>rr'. rfold (rr_tick_one codec fids now) ks rr = Inr rr' \<and> rr_ok codec rr'"
proof (induction ks arbitrary: rr)
  case (Cons k ks)
  then obtain rr1 where r1: "rr_tick_one codec fids now k rr = Inr rr1" "rr_ok codec rr1" "set (file_ids rr1) \<subseteq> insert (fids k) (set (file_ids rr))"
    using rr_tick_one_ok [of codec rr fids k now] by auto
  have "fids k \<notin> fids ` set ks" using Cons.prems(2,3) by (auto simp: inj_on_def)
  moreover have "fids ` set ks \<inter> set (file_ids rr) = {}" using Cons.prems(4) by (simp add: Int_insert_left split: if_splits)
  ultimately have "x \<notin> insert (fids k) (set (file_ids rr))" if "x \<in> fids ` set ks" for x using that by (metis disjoint_iff insertE)
  then have "fids ` set ks \<inter> set (file_ids rr1) = {}" using r1(3) by (meson disjoint_iff subsetD)
  then show ?case using Cons.IH [OF r1(2)] Cons.prems r1(1) by simp
qed simp

lemma rr_retain_ok:
  assumes "rr_ok codec rr"
  shows "rr_ok codec (rr\<lparr>rr_service := mrs_retain (rr_service rr)\<rparr>)"
proof (rule rr_ok_same [OF assms])
  show "im_wf (mrs_sessions (rr_service (rr\<lparr>rr_service := mrs_retain (rr_service rr)\<rparr>)))"
    using rr_ok_parts(11) [OF assms] by (auto simp: mrs_retain_def im_wf_def intro: distinct_map_filter)
qed (use rr_ok_parts(5,12) [OF assms] in \<open>auto simp: mrs_retain_def\<close>)

text \<open>Answers of the connector, and the worker.\<close>

lemma map_ok_remove: "map_ok rr m \<Longrightarrow> map_ok rr (im_swap_remove k m)"
  by (auto simp: map_ok_def im_wf_swap_remove im_swap_remove_def im_wf_def set_swap_remove_key distinct_swap_remove_key)

lemma rr_response_ok:
  assumes "rr_ok codec rr"
  shows "\<exists>rr'. rr_step codec (Rr_Response req_id uri) rr = Inr rr' \<and> rr_ok codec rr'"
proof -
  let ?s = "rr_service rr" and ?r = "rr\<lparr>rr_service := mrs_on_response req_id uri (rr_service rr), rr_answers := rr_answers rr @ [(req_id, uri)]\<rparr>"
  have g: "grows rr ?r" by (auto simp: grows_def)
  have old: "\<forall>x \<in> set (mrs_worker_tx ?s). input_ok ?r x" using rr_ok_parts(6) [OF assms] grows_mono(3) [OF g] by blast
  have l: "linked ?r fid uri" if "im_get (mrs_chunk_map ?s) req_id = Some fid" for fid
    using that rr_ok_parts(5) [OF assms] by (fastforce simp: map_ok_def im_get_eq_Some linked_def)
  have "rr_ok codec ?r"
    using old l rr_ok_parts(5,11,12) [OF assms]
    by (intro rr_ok_grows [OF assms]) (auto simp: mrs_on_response_def map_ok_remove try_send_def input_ok_def split: option.splits worker_input.splits)
  then show ?thesis by simp
qed

lemma rr_pop_ok: "rr_ok codec rr \<Longrightarrow> \<exists>rr'. rr_step codec Rr_Pop rr = Inr rr' \<and> rr_ok codec rr'"
  using rr_ok_parts(5,11,12) [of codec rr]
  by (auto simp: mrs_pop_output_def intro!: rr_ok_same [of codec rr] split: list.split)

definition move_worker :: "worker_input list \<Rightarrow> upload_worker \<Rightarrow> upload list \<Rightarrow> record_run \<Rightarrow> record_run" where
  "move_worker tx w ups rr = rr\<lparr>rr_service := (rr_service rr)\<lparr>mrs_worker_tx := tx\<rparr>, rr_worker := w, rr_uploads := ups\<rparr>"

text \<open>A step of the worker: files move between the places, and the history stays.\<close>

lemma rr_ok_move:
  assumes "rr_ok codec rr" and "set tx \<subseteq> set (mrs_worker_tx (rr_service rr))"
    and "\<forall>(fid, uri) \<in> set (upw_job_queue w). linked rr fid uri" and "mst_ok rr (hst_mem (upw_storage w))" and "dst_ok rr (hst_disk (upw_storage w))"
    and "\<forall>u \<in> set ups. upload_ok rr u" and "distinct (places (move_worker tx w ups rr))" and "set (places (move_worker tx w ups rr)) \<subseteq> set (places rr)"
  shows "rr_ok codec (move_worker tx w ups rr)"
proof -
  let ?r = "move_worker tx w ups rr"
  have g: "grows rr ?r" by (simp add: grows_def move_worker_def)
  have same: "file_ids ?r = file_ids rr" "\<And>f. made ?r f = made rr f" by (simp_all add: file_ids_def made_def move_worker_def)
  have srv: "mrs_chunk_map (rr_service ?r) = mrs_chunk_map (rr_service rr)" "mrs_sessions (rr_service ?r) = mrs_sessions (rr_service rr)"
      "mrs_worker_tx (rr_service ?r) = tx" "rr_worker ?r = w" "rr_uploads ?r = ups"
    by (simp_all add: move_worker_def)
  note old = rr_ok_parts [OF assms(1)] and mono = grows_mono [OF g]
  have "\<forall>x \<in> set tx. input_ok ?r x" using old(6) assms(2) mono(3) by blast
  moreover have "\<forall>(fid, uri) \<in> set (upw_job_queue w). linked ?r fid uri" using assms(3) mono(2) by fastforce
  moreover have "\<forall>u \<in> set ups. upload_ok ?r u" using assms(6) mono(7) by blast
  ultimately show ?thesis
    unfolding rr_ok_def srv same using old(1,2,4,5,11,12) mono(4,5,6) assms(4,5,7,8) by (auto 0 3)
qed

lemma mst_ok_push:
  assumes "mst_ok rr m" and "made rr f" and "im_get (mst_files m) (mem_id f) = None" and "mst_can_push (mem_len f) m"
  shows "mst_ok rr (mst_push f m)"
  using assms by (auto simp: mst_ok_def mst_push_def mst_can_push_def set_im_insert_fresh im_wf_def im_get_None_iff)

lemma mst_ok_pop:
  assumes "mst_ok rr m" and "im_get (mst_files m) fid = Some f"
  shows "mst_ok rr (m\<lparr>mst_files := im_swap_remove fid (mst_files m), mst_current_size := mst_current_size m - mem_len f\<rparr>)"
proof -
  have wf: "distinct (map fst (mst_files m))" and i: "(fid, f) \<in> set (mst_files m)" using assms by (auto simp: mst_ok_def im_wf_def im_get_eq_Some)
  have "mset (swap_remove_key fst fid (mst_files m)) = mset (mst_files m) - {#(fid, f)#}" using mset_swap_remove_key [OF i wf] by simp
  then have "mset (mst_files m) = add_mset (fid, f) (mset (swap_remove_key fst fid (mst_files m)))" using i by simp
  then have "sum_mset (image_mset (\<lambda>(fid, f). mem_len f) (mset (mst_files m))) = mem_len f + sum_mset (image_mset (\<lambda>(fid, f). mem_len f) (mset (swap_remove_key fst fid (mst_files m))))"
    by simp
  then have "(\<Sum>(fid, f) \<leftarrow> mst_files m. mem_len f) = mem_len f + (\<Sum>(fid, f) \<leftarrow> swap_remove_key fst fid (mst_files m). mem_len f)"
    by (simp only: sum_mset_sum_list [symmetric] mset_map)
  then show ?thesis using assms(1) wf
    by (auto simp: mst_ok_def im_swap_remove_def im_wf_def set_swap_remove_key distinct_swap_remove_key)
qed

lemma dst_ok_push:
  assumes "dst_ok rr m" and "made rr f" and "mem_ok f" and "dst_copy_from_mem disk_ok f = Some d"
  shows "dst_ok rr (dst_push d m)" "dsk_id d = mem_id f"
proof -
  have d: "dsk_id d = mem_id f" "dsk_len d = mem_len f" "dsk_data d = mem_left f"
    using assms(3,4) by (auto simp: dst_copy_from_mem_def mem_stream_left COPY_BUF_def split: if_splits)
  show "dsk_id d = mem_id f" by (rule d(1))
  show "dst_ok rr (dst_push d m)" using assms(1,2) d by (auto simp: dst_ok_def dst_push_def im_wf_insert dest!: set_im_insert_in)
qed

lemma dst_ok_pop: "dst_ok rr m \<Longrightarrow> dst_ok rr (im_swap_remove fid m)"
  by (auto simp: dst_ok_def im_wf_swap_remove im_swap_remove_def im_wf_def set_swap_remove_key distinct_swap_remove_key)

lemma rr_recv_chunk_ok:
  assumes "rr_ok codec rr" and "mrs_worker_tx (rr_service rr) = Wi_RecordChunk f # rest"
  shows "rr_ok codec (move_worker rest (upw_recv disk_ok (Wi_RecordChunk f) (rr_worker rr)) (rr_uploads rr) rr)"
proof -
  let ?st = "upw_storage (rr_worker rr)"
  note old = rr_ok_parts [OF assms(1)]
  have m: "made rr f" using old(6) assms(2) by (auto simp: input_ok_def)
  have fresh: "im_get (mst_files (hst_mem ?st)) (mem_id f) = None" "im_get (hst_disk ?st) (mem_id f) = None"
    using old(3) assms(2) by (auto simp: places_def im_get_None_iff)
  have pl: "distinct (places rr)" "places rr = mem_id f # concat (map waiting rest) @ map fst (mst_files (hst_mem ?st)) @ map fst (hst_disk ?st) @ map upl_file (rr_uploads rr)"
    using old(3) assms(2) by (simp_all add: places_def)
  have w: "upw_recv disk_ok (Wi_RecordChunk f) (rr_worker rr) = (rr_worker rr)\<lparr>upw_storage := hst_push disk_ok (Hf_Mem f) ?st\<rparr>"
    by (simp add: upw_recv_def hst_can_push_def dst_can_push_def)
  consider (mem) "mst_can_push (mem_len f) (hst_mem ?st)" | (disk) d where "\<not> mst_can_push (mem_len f) (hst_mem ?st)" "dst_copy_from_mem disk_ok f = Some d"
    | (lost) "\<not> mst_can_push (mem_len f) (hst_mem ?st)" "dst_copy_from_mem disk_ok f = None" by (cases "dst_copy_from_mem disk_ok f") auto
  then show ?thesis
  proof cases
    case mem
    then show ?thesis unfolding w using pl fresh old(7-10) mst_ok_push [OF old(8) m fresh(1) mem] assms(2)
      by (intro rr_ok_move [OF assms(1)]) (auto simp: hst_push_def places_def move_worker_def mst_push_def set_im_insert_fresh)
  next
    case disk
    note d = dst_ok_push [OF old(9) m old(1) [OF m] disk(2)]
    show ?thesis unfolding w using disk d pl fresh old(7-10) assms(2)
      by (intro rr_ok_move [OF assms(1)]) (auto simp: hst_push_def places_def move_worker_def dst_can_push_def dst_push_def set_im_insert_fresh)
  next
    case lost
    then show ?thesis unfolding w using pl old(7-10) assms(2)
      by (intro rr_ok_move [OF assms(1)]) (auto simp: hst_push_def places_def move_worker_def dst_can_push_def)
  qed
qed

lemma rr_recv_ok:
  assumes "rr_ok codec rr"
  shows "\<exists>rr'. rr_step codec (Rr_Recv disk_ok) rr = Inr rr' \<and> rr_ok codec rr'"
proof (cases "mrs_worker_tx (rr_service rr)")
  case Nil
  then show ?thesis using assms by simp
next
  case (Cons input rest)
  have st: "rr_step codec (Rr_Recv disk_ok) rr = Inr (move_worker rest (upw_recv disk_ok input (rr_worker rr)) (rr_uploads rr) rr)"
    by (cases rr) (use Cons in \<open>simp add: move_worker_def\<close>)
  note old = rr_ok_parts [OF assms]
  show ?thesis
  proof (cases input)
    case (Wi_RecordChunk f)
    then show ?thesis using rr_recv_chunk_ok [OF assms] Cons st by simp
  next
    case (Wi_UploadLink fid link)
    have "linked rr fid link" using old(6) Cons Wi_UploadLink by (auto simp: input_ok_def)
    then have "rr_ok codec (move_worker rest (upw_recv disk_ok input (rr_worker rr)) (rr_uploads rr) rr)"
      using old Cons Wi_UploadLink by (intro rr_ok_move [OF assms]) (auto simp: upw_recv_def places_def move_worker_def)
    then show ?thesis using st by simp
  qed
qed

lemma distinct_move:
  assumes "distinct (as @ bs @ cs)" and "x \<in> set bs" and "distinct bs'" and "set bs' = set bs - {x}"
  shows "distinct (as @ bs' @ cs @ [x])" "set (as @ bs' @ cs @ [x]) \<subseteq> set (as @ bs @ cs)"
  using assms by auto

lemma rr_child_ok:
  assumes "rr_ok codec rr"
  shows "\<exists>rr'. rr_step codec Rr_Child rr = Inr rr' \<and> rr_ok codec rr'"
proof (cases "upw_job_queue (rr_worker rr)")
  case Nil
  have "rr\<lparr>rr_worker := rr_worker rr, rr_uploads := rr_uploads rr\<rparr> = rr" by simp
  then show ?thesis using assms Nil by (simp add: upw_child_def)
next
  case (Cons job jobs)
  obtain fid link where job: "job = (fid, link)" by (cases job)
  let ?st = "upw_storage (rr_worker rr)" and ?tx = "mrs_worker_tx (rr_service rr)"
  note old = rr_ok_parts [OF assms]
  have l: "linked rr fid link" using old(7) Cons job by auto
  have pl: "distinct (concat (map waiting ?tx) @ map fst (mst_files (hst_mem ?st)) @ map fst (hst_disk ?st) @ map upl_file (rr_uploads rr))"
    using old(3) by (simp add: places_def)
  have st: "rr_step codec Rr_Child rr = Inr (move_worker ?tx (fst (upw_child (rr_worker rr))) (rr_uploads rr @ (case snd (upw_child (rr_worker rr)) of None \<Rightarrow> [] | Some u \<Rightarrow> [u])) rr)"
    by (cases rr) (simp add: move_worker_def case_prod_beta)
  have "rr_ok codec (move_worker ?tx (fst (upw_child (rr_worker rr))) (rr_uploads rr @ (case snd (upw_child (rr_worker rr)) of None \<Rightarrow> [] | Some u \<Rightarrow> [u])) rr)"
  proof (cases "im_get (mst_files (hst_mem ?st)) fid")
    case (Some f)
    have i: "(fid, f) \<in> set (mst_files (hst_mem ?st))" using Some old(8) by (auto simp: mst_ok_def im_get_eq_Some)
    have k: "fid \<in> fst ` set (mst_files (hst_mem ?st))" using i by force
    have f: "made rr f" "mem_id f = fid" using i old(8) by (auto simp: mst_ok_def)
    have u: "upload_ok rr \<lparr>upl_file = fid, upl_link = link, upl_len = mem_len f, upl_body = mem_stream STREAM_BUF f\<rparr>"
      using old(1) [OF f(1)] f l by (auto simp: upload_ok_def mem_stream_left STREAM_BUF_def mem_ok_def)
    let ?m = "map fst (im_swap_remove fid (mst_files (hst_mem ?st)))"
    have "set ?m = set (map fst (mst_files (hst_mem ?st))) - {fid}" "distinct ?m"
      using pl by (auto simp: im_swap_remove_def set_swap_remove_key distinct_swap_remove_key)
    from distinct_move [OF pl _ this(2,1)] k
    have mv: "distinct (concat (map waiting ?tx) @ ?m @ map fst (hst_disk ?st) @ map upl_file (rr_uploads rr) @ [fid])"
        "set (concat (map waiting ?tx) @ ?m @ map fst (hst_disk ?st) @ map upl_file (rr_uploads rr) @ [fid]) \<subseteq> set (places rr)"
      by (simp_all add: places_def)
    show ?thesis using Some u old(7,9,10) mst_ok_pop [OF old(8) Some] mv Cons job
      by (intro rr_ok_move [OF assms]) (simp_all add: upw_child_def hst_pop_def mst_pop_def hf_len_def hf_stream_def places_def move_worker_def)
  next
    case None
    show ?thesis
    proof (cases "im_get (hst_disk ?st) fid")
      case (Some d)
      have i: "(fid, d) \<in> set (hst_disk ?st)" using Some old(9) by (auto simp: dst_ok_def im_get_eq_Some)
      have k: "fid \<in> fst ` set (hst_disk ?st)" using i by force
      obtain f where f: "made rr f" "mem_id f = fid" "dsk_len d = mem_len f" "dsk_data d = mem_left f" using i old(9) by (auto simp: dst_ok_def)
      have u: "upload_ok rr \<lparr>upl_file = fid, upl_link = link, upl_len = dsk_len d, upl_body = dsk_data d\<rparr>"
        using old(1) [OF f(1)] f l by (auto simp: upload_ok_def mem_ok_def)
      let ?d = "map fst (im_swap_remove fid (hst_disk ?st))"
      have "set ?d = set (map fst (hst_disk ?st)) - {fid}" "distinct ?d"
        using pl by (auto simp: im_swap_remove_def set_swap_remove_key distinct_swap_remove_key)
      from distinct_move [of "concat (map waiting ?tx) @ map fst (mst_files (hst_mem ?st))" "map fst (hst_disk ?st)" "map upl_file (rr_uploads rr)" fid, OF _ _ this(2,1)] k pl
      have mv: "distinct (concat (map waiting ?tx) @ map fst (mst_files (hst_mem ?st)) @ ?d @ map upl_file (rr_uploads rr) @ [fid])"
          "set (concat (map waiting ?tx) @ map fst (mst_files (hst_mem ?st)) @ ?d @ map upl_file (rr_uploads rr) @ [fid]) \<subseteq> set (places rr)"
        unfolding places_def append_assoc set_map by blast+
      show ?thesis using None Some u old(7,8,10) dst_ok_pop [OF old(9)] mv Cons job
        by (intro rr_ok_move [OF assms]) (simp_all add: upw_child_def hst_pop_def mst_pop_def dst_pop_def hf_len_def hf_stream_def places_def move_worker_def)
    next
      case none: None
      then have "im_swap_remove fid (hst_disk ?st) = hst_disk ?st" by (simp add: im_get_None_iff im_swap_remove_def swap_remove_key_absent)
      then show ?thesis using None none old(6-10) pl Cons job
        by (intro rr_ok_move [OF assms]) (auto simp: upw_child_def hst_pop_def mst_pop_def dst_pop_def places_def move_worker_def)
    qed
  qed
  then show ?thesis using st by simp
qed

definition rr_admits :: "record_codec \<Rightarrow> rr_op \<Rightarrow> record_run \<Rightarrow> bool" where
  "rr_admits codec op rr = (case op of
     Rr_Event fid now session ts event \<Rightarrow> event_fits codec ts event \<and> fid \<notin> set (file_ids rr)
   | Rr_Tick fids now \<Rightarrow> inj_on fids (set (map fst (mrs_sessions (rr_service rr)))) \<and> fids ` set (map fst (mrs_sessions (rr_service rr))) \<inter> set (file_ids rr) = {}
   | _ \<Rightarrow> True)"

lemma rr_step_ok:
  assumes "rr_ok codec rr" and "rr_admits codec op rr"
  shows "\<exists>rr'. rr_step codec op rr = Inr rr' \<and> rr_ok codec rr'"
proof (cases op)
  case (Rr_Event fid now session ts event)
  then show ?thesis using rr_event_ok [OF assms(1)] assms(2) by (simp add: rr_admits_def del: rr_step.simps)
next
  case (Rr_Tick fids now)
  have "distinct (map fst (mrs_sessions (rr_service rr)))" using rr_ok_parts(11) [OF assms(1)] by (simp add: im_wf_def)
  then obtain rr' where "rfold (rr_tick_one codec fids now) (map fst (mrs_sessions (rr_service rr))) rr = Inr rr'" "rr_ok codec rr'"
    using rr_ticks_ok [OF assms(1), of "map fst (mrs_sessions (rr_service rr))" fids now] assms(2) Rr_Tick by (auto simp: rr_admits_def)
  then show ?thesis using rr_retain_ok Rr_Tick by simp
next
  case (Rr_Response req_id uri)
  then show ?thesis using rr_response_ok [OF assms(1)] by (simp del: rr_step.simps)
next
  case Rr_Pop
  then show ?thesis using rr_pop_ok [OF assms(1)] by (simp del: rr_step.simps)
next
  case (Rr_Recv disk_ok)
  then show ?thesis using rr_recv_ok [OF assms(1)] by (simp del: rr_step.simps)
next
  case Rr_Child
  then show ?thesis using rr_child_ok [OF assms(1)] by (simp del: rr_step.simps)
qed

lemma rr_start_ok: "rr_ok codec (rr_start max_size)"
  by (simp add: rr_ok_def rr_start_def mrs_new_def upw_new_def hst_new_def mst_new_def made_def file_ids_def places_def map_ok_def mst_ok_def dst_ok_def)

lemma distinct_file_ids:
  assumes "distinct (file_ids rr)" and "(i, r, f) \<in> set (rr_chunks rr)" and "(j, q, g) \<in> set (rr_chunks rr)" and "mem_id f = mem_id g"
  shows "(i, r, f) = (j, q, g)"
  using assms unfolding file_ids_def distinct_map by (metis (mono_tags, lifting) inj_onD old.prod.case)

text \<open>
  C13. What is uploaded. In a run of record service and upload worker whose rows fit the writer and whose file ids do not
  repeat, nothing panics. Every upload sends a chunk that was recorded, complete and with the right length, to
  the address answered to the request made for this very chunk, and no chunk is sent twice. The memory
  storage counts the bytes it holds and stays within its limit.
\<close>

theorem uploads_are_chunks:
  assumes "admits_run (rr_admits codec) (rr_step codec) ops (rr_start max_size)"
  shows "\<exists>rr. rfold (rr_step codec) ops (rr_start max_size) = Inr rr \<and> distinct (map upl_file (rr_uploads rr))
    \<and> (\<forall>u \<in> set (rr_uploads rr). \<exists>req_id req f. (req_id, req, f) \<in> set (rr_chunks rr) \<and> mem_id f = upl_file u
         \<and> (req_id, upl_link u) \<in> set (rr_answers rr) \<and> upl_body u = mem_left f \<and> upl_len u = length (upl_body u))
    \<and> (let m = hst_mem (upw_storage (rr_worker rr)) in
         mst_current_size m = (\<Sum>(fid, f) \<leftarrow> mst_files m. mem_len f) \<and> mst_current_size m \<le> mst_max_size m)"
proof -
  obtain rr where r: "rfold (rr_step codec) ops (rr_start max_size) = Inr rr" "rr_ok codec rr"
    using admits_run_invariant [of "rr_ok codec", OF rr_start_ok assms rr_step_ok] by blast
  have "distinct (map upl_file (rr_uploads rr))" using rr_ok_parts(3) [OF r(2)] by (simp add: places_def)
  moreover have "\<exists>req_id req f. (req_id, req, f) \<in> set (rr_chunks rr) \<and> mem_id f = upl_file u
      \<and> (req_id, upl_link u) \<in> set (rr_answers rr) \<and> upl_body u = mem_left f \<and> upl_len u = length (upl_body u)" if "u \<in> set (rr_uploads rr)" for u
  proof -
    have "upload_ok rr u" using rr_ok_parts(10) [OF r(2)] that by blast
    then show ?thesis using distinct_file_ids [OF rr_ok_parts(2) [OF r(2)]] unfolding upload_ok_def linked_def made_def by (metis prod.inject)
  qed
  moreover have "mst_ok rr (hst_mem (upw_storage (rr_worker rr)))" using rr_ok_parts(8) [OF r(2)] .
  ultimately show ?thesis using r(1) by (auto simp: mst_ok_def Let_def)
qed

text \<open>The channel has ten places: what the service hands over when it is full is lost, although an address
  for it is still asked for and answered.\<close>

lemma full_channel_loses:
  assumes "length (mrs_worker_tx s) = WORKER_CHANNEL"
  shows "mrs_worker_tx (mrs_process_chunk req file s) = mrs_worker_tx s"
    "mrs_queue (mrs_process_chunk req file s) = mrs_queue s @ [Ro_UploadRequest (mrs_req_id_seed s) req]"
  using assms by (simp_all add: mrs_process_chunk_def Let_def try_send_def)

definition demo_upload :: "rr_op list" where
  "demo_upload = [Rr_Event 0 11 5 10 (Rec_JoinRoom ''app'' ''room'' ''peer''), Rr_Tick (\<lambda>k. k + 20) 15, Rr_Event 7 30 5 30 Rec_LeaveRoom,
     Rr_Recv True, Rr_Pop, Rr_Response 0 ''link'', Rr_Recv True, Rr_Child]"

lemma demo_codec_simps:
  "rc_header demo_codec h = [word_of_nat (rh_start_ts h), word_of_nat (rh_end_ts h)]"
  "rc_row demo_codec r = (case row_event r of Rec_JoinRoom _ _ _ \<Rightarrow> [1] | _ \<Rightarrow> [2])"
  by (simp_all add: demo_codec_def)

lemmas demo_upload_simps = demo_upload_def rr_start_def mrs_new_def upw_new_def hst_new_def mst_new_def rr_emit_def mrs_chunk_def mrs_session_push_def
  mrs_session_tick_def rr_tick_one_def mrs_retain_def rse_is_closed_def mrs_process_chunk_def try_send_def WORKER_CHANNEL_def mrs_on_response_def mrs_pop_output_def
  upw_recv_def upw_child_def hst_can_push_def dst_can_push_def hst_push_def hst_pop_def mst_pop_def mst_can_push_def mst_push_def
  rse_push_def rse_tick_def rse_new_def rse_join_def rse_pop_file_def rse_append_def u64_sub_def u64_add_def u32_add_def MAX_FILE_LEN_MS_def
  rse_write_def rcw_new_def rcw_push_def header_write_to_def row_write_to_def demo_codec_simps CHUNK_BUF_def rcw_take_def
  mem_write_all_def mem_write_def mem_default_def mem_set_start_ts_def mem_set_end_ts_def framed_def u32_be_def im_get_def im_swap_remove_def

lemma demo_event_fits: "event_fits demo_codec ts event"
  by (auto simp: event_fits_def room_header_fits_def fits_def demo_codec_def CHUNK_BUF_def split: session_record_event.split)

lemma demo_admits: "admits_run (rr_admits demo_codec) (rr_step demo_codec) demo_upload (rr_start 1000)"
  by (simp add: rr_admits_def demo_event_fits file_ids_def inj_on_def demo_upload_simps)

lemma demo_uploads: "\<exists>rr. rfold (rr_step demo_codec) demo_upload (rr_start 1000) = Inr rr \<and> map upl_link (rr_uploads rr) = [''link'']"
  by (simp add: demo_upload_simps)

theorem uploads_are_chunks_witness:
  "\<exists>rr. rfold (rr_step demo_codec) demo_upload (rr_start 1000) = Inr rr \<and> map upl_link (rr_uploads rr) = [''link'']
    \<and> (\<forall>u \<in> set (rr_uploads rr). \<exists>req_id req f. (req_id, req, f) \<in> set (rr_chunks rr) \<and> mem_id f = upl_file u
         \<and> (req_id, upl_link u) \<in> set (rr_answers rr) \<and> upl_body u = mem_left f \<and> upl_len u = length (upl_body u))"
proof -
  obtain rr where r: "rfold (rr_step demo_codec) demo_upload (rr_start 1000) = Inr rr" "map upl_link (rr_uploads rr) = [''link'']" using demo_uploads by (elim exE conjE)
  obtain q where q: "rfold (rr_step demo_codec) demo_upload (rr_start 1000) = Inr q" and
    u: "\<forall>u \<in> set (rr_uploads q). \<exists>req_id req f. (req_id, req, f) \<in> set (rr_chunks q) \<and> mem_id f = upl_file u
         \<and> (req_id, upl_link u) \<in> set (rr_answers q) \<and> upl_body u = mem_left f \<and> upl_len u = length (upl_body u)"
    using uploads_are_chunks [OF demo_admits] by (elim exE conjE)
  have "q = rr" using q r(1) by (simp only: sum.inject)
  then show ?thesis using r u by (intro exI [of _ rr]) simp
qed

end
