(* ===== verification/Mixer_Buffer.thy ===== *)
theory Mixer_Buffer
  imports Prelude "HOL-Library.Multiset"
begin

text \<open>
  \<^verbatim>\<open>packages/media_record/src/convert/composer/audio_mixer/mixer_buffer.rs\<close>: how the converter of recordings
  mixes the decoded audio of all tracks. A frame of 20 ms sums the samples of the tracks that fall into
  it; at most ten frames wait, and the oldest is popped when there are more.

  Samples are integers in the range of \<^verbatim>\<open>i16\<close>, the sums wrap at 32 bits (\<open>i32_add\<close>). The specification keeps
  for every frame the contributions it was mixed from; the theorem says that each popped sample is the
  clamped sum over the contributions of its frame, and that no contribution is lost but those older than
  the oldest frame. A block longer than a frame makes the buffer panic (\<open>mb_long_block_panics\<close>).
\<close>

section \<open>Frames\<close>

definition FRAME_TS_DIFF_ACCEPTABLE :: nat where "FRAME_TS_DIFF_ACCEPTABLE = 100"
definition FRAME_QUEUE_LIMIT :: nat where "FRAME_QUEUE_LIMIT = 10"
definition FRAME_SAMPLES :: nat where "FRAME_SAMPLES = 960"

definition i32_add :: "int \<Rightarrow> int \<Rightarrow> int" where
  "i32_add a b = (a + b + 2 ^ 31) mod 2 ^ 32 - 2 ^ 31"

record 'tid mixed_frame =
  mfr_ts :: nat
  mfr_buffer :: "int list"
  mfr_tracks :: "'tid list"

text \<open>\<^verbatim>\<open>for (i, sample) in data.iter().enumerate() { self.buffer[i] += *sample as i32; }\<close>; the caller has checked that
  the data are no longer than the buffer.\<close>

fun mfr_add :: "int list \<Rightarrow> int list \<Rightarrow> int list" where
  "mfr_add (b # bs) (x # xs) = i32_add b x # mfr_add bs xs"
| "mfr_add bs [] = bs"
| "mfr_add [] (x # xs) = []"

definition mfr_put_into :: "'tid \<Rightarrow> nat \<Rightarrow> int list \<Rightarrow> 'tid mixed_frame \<Rightarrow> 'tid mixed_frame \<times> bool" where
  "mfr_put_into track_id ts data f =
     (if length data > length (mfr_buffer f) then (f, False)
      else if track_id \<in> set (mfr_tracks f) then (f, False)
      else if u64_add (mfr_ts f) FRAME_TS_DIFF_ACCEPTABLE \<le> ts \<or> u64_add ts FRAME_TS_DIFF_ACCEPTABLE \<le> mfr_ts f then (f, False)
      else (f\<lparr>mfr_tracks := mfr_tracks f @ [track_id], mfr_buffer := mfr_add (mfr_buffer f) data\<rparr>, True))"

definition cap_i16_cast :: "int \<Rightarrow> int" where
  "cap_i16_cast v = (if v > 32767 then 32767 else if v < - 32768 then - 32768 else v)"

section \<open>The buffer\<close>

record 'tid mixer_buffer =
  mb_frames :: "'tid mixed_frame list"

definition mb_new :: "'tid mixer_buffer" where
  "mb_new = \<lparr>mb_frames = []\<rparr>"

definition mb_force_pop :: "'tid mixer_buffer \<Rightarrow> 'tid mixer_buffer \<times> (nat \<times> int list) option" where
  "mb_force_pop s = (case mb_frames s of [] \<Rightarrow> (s, None)
     | frame # rest \<Rightarrow> (s\<lparr>mb_frames := rest\<rparr>, Some (mfr_ts frame, map cap_i16_cast (mfr_buffer frame))))"

text \<open>The loop over the frames: the index of the first that takes the data, and the frames afterwards.\<close>

fun mb_put_first :: "'tid \<Rightarrow> nat \<Rightarrow> int list \<Rightarrow> 'tid mixed_frame list \<Rightarrow> (nat \<times> 'tid mixed_frame list) option" where
  "mb_put_first track_id ts data [] = None"
| "mb_put_first track_id ts data (f # fs) = (case mfr_put_into track_id ts data f of (f', ok) \<Rightarrow>
     if ok then Some (0, f' # fs) else map_option (\<lambda>(i, fs'). (Suc i, f # fs')) (mb_put_first track_id ts data fs))"

definition mb_push_data_to_frame :: "nat \<Rightarrow> 'tid \<Rightarrow> int list \<Rightarrow> 'tid mixer_buffer \<Rightarrow> ('tid mixer_buffer \<times> nat option) run" where
  "mb_push_data_to_frame ts track_id data s = (case mb_put_first track_id ts data (mb_frames s) of
     Some (i, fs) \<Rightarrow> Inr (s\<lparr>mb_frames := fs\<rparr>, Some i)
   | None \<Rightarrow> (let front_ts = (case mb_frames s of [] \<Rightarrow> ts | f # _ \<Rightarrow> mfr_ts f) in
       if ts < front_ts then Inr (s, None)
       else case mfr_put_into track_id ts data \<lparr>mfr_ts = ts, mfr_buffer = replicate FRAME_SAMPLES 0, mfr_tracks = []\<rparr> of (frame, ok) \<Rightarrow>
         rbind (rassert ok) (\<lambda>_. Inr (s\<lparr>mb_frames := mb_frames s @ [frame]\<rparr>, Some (length (mb_frames s))))))"

definition mb_push :: "nat \<Rightarrow> 'tid \<Rightarrow> int list \<Rightarrow> 'tid mixer_buffer \<Rightarrow> ('tid mixer_buffer \<times> (nat \<times> int list) option) run" where
  "mb_push ts track_id data s = rbind (mb_push_data_to_frame ts track_id data s) (\<lambda>(s', frame_idx). case frame_idx of
     None \<Rightarrow> Inr (s', None)
   | Some _ \<Rightarrow> Inr (if length (mb_frames s') > FRAME_QUEUE_LIMIT then mb_force_pop s' else (s', None)))"

section \<open>Frames as contributions\<close>

type_synonym 'tid contribution = "'tid \<times> nat \<times> int list"

definition sample_at :: "int list \<Rightarrow> nat \<Rightarrow> int" where
  "sample_at data i = (if i < length data then data ! i else 0)"

definition mixed :: "'tid contribution list \<Rightarrow> int list" where
  "mixed cs = map (\<lambda>i. \<Sum>(_, _, data) \<leftarrow> cs. sample_at data i) [0..<FRAME_SAMPLES]"

definition frame_of :: "nat \<times> 'tid contribution list \<Rightarrow> 'tid mixed_frame" where
  "frame_of fc = \<lparr>mfr_ts = fst fc, mfr_buffer = mixed (snd fc), mfr_tracks = map fst (snd fc)\<rparr>"

definition block_ok :: "'tid set \<Rightarrow> 'tid contribution \<Rightarrow> bool" where
  "block_ok T c \<longleftrightarrow> (case c of (track_id, ts, data) \<Rightarrow> track_id \<in> T \<and> length data \<le> FRAME_SAMPLES \<and> ts + FRAME_TS_DIFF_ACCEPTABLE < 2 ^ 64
     \<and> (\<forall>x \<in> set data. - 32768 \<le> x \<and> x \<le> 32767))"

definition frame_ok :: "'tid set \<Rightarrow> nat \<times> 'tid contribution list \<Rightarrow> bool" where
  "frame_ok T fc \<longleftrightarrow> fst fc + FRAME_TS_DIFF_ACCEPTABLE < 2 ^ 64 \<and> snd fc \<noteq> [] \<and> distinct (map fst (snd fc)) \<and> (\<forall>c \<in> set (snd fc). block_ok T c)
     \<and> (\<forall>(track_id, ts, data) \<in> set (snd fc). ts < fst fc + FRAME_TS_DIFF_ACCEPTABLE \<and> fst fc < ts + FRAME_TS_DIFF_ACCEPTABLE)"

lemma length_mixed [simp]: "length (mixed cs) = FRAME_SAMPLES"
  by (simp add: mixed_def)

lemma nth_mixed: "i < FRAME_SAMPLES \<Longrightarrow> mixed cs ! i = (\<Sum>(_, _, data) \<leftarrow> cs. sample_at data i)"
  by (simp add: mixed_def)

lemma mixed_Nil: "mixed [] = replicate FRAME_SAMPLES 0"
  by (simp add: mixed_def map_replicate_const)

lemma sum_bound:
  assumes "\<forall>c \<in> set cs. block_ok T c"
  shows "\<bar>\<Sum>(_, _, data) \<leftarrow> cs. sample_at data i\<bar> \<le> 32768 * int (length cs)"
  using assms
proof (induction cs)
  case (Cons c cs)
  obtain t ts data where c: "c = (t, ts, data)" by (cases c)
  have "\<bar>sample_at data i\<bar> \<le> 32768" using Cons.prems c by (auto simp: block_ok_def sample_at_def dest!: bspec [OF _ nth_mem])
  then show ?case using Cons c by (simp add: algebra_simps)
qed simp

lemma i32_add_small: "\<bar>a + b\<bar> < 2 ^ 31 \<Longrightarrow> i32_add a b = a + b"
  by (simp add: i32_add_def)

lemma length_mfr_add: "length xs \<le> length bs \<Longrightarrow> length (mfr_add bs xs) = length bs"
  by (induction bs xs rule: mfr_add.induct) auto

lemma nth_mfr_add: "length xs \<le> length bs \<Longrightarrow> i < length bs \<Longrightarrow> mfr_add bs xs ! i = (if i < length xs then i32_add (bs ! i) (xs ! i) else bs ! i)"
  by (induction bs xs arbitrary: i rule: mfr_add.induct) (auto simp: nth_Cons split: nat.split)

lemma mfr_add_mixed:
  assumes "\<forall>c \<in> set (cs @ [(t, ts, data)]). block_ok T c" and "length cs < 2 ^ 16 - 1"
  shows "mfr_add (mixed cs) data = mixed (cs @ [(t, ts, data)])"
proof (rule nth_equalityI)
  have d: "length data \<le> FRAME_SAMPLES" using assms(1) by (simp add: block_ok_def)
  then show len: "length (mfr_add (mixed cs) data) = length (mixed (cs @ [(t, ts, data)]))" by (simp add: length_mfr_add)
  fix i assume "i < length (mfr_add (mixed cs) data)"
  then have i: "i < FRAME_SAMPLES" using len by simp
  have "\<bar>\<Sum>(_, _, data) \<leftarrow> cs @ [(t, ts, data)]. sample_at data i\<bar> < 2 ^ 31" using sum_bound [OF assms(1), of i] assms(2) by simp
  then show "mfr_add (mixed cs) data ! i = mixed (cs @ [(t, ts, data)]) ! i"
    using nth_mfr_add [of data "mixed cs" i] d i by (auto simp: nth_mixed sample_at_def [of data] i32_add_small)
qed

lemma frame_room:
  assumes "frame_ok T fc" and "finite T" and "card T < 2 ^ 16" and "t \<in> T" and "t \<notin> fst ` set (snd fc)"
  shows "length (snd fc) < 2 ^ 16 - 1"
proof -
  have "fst ` set (snd fc) \<subseteq> T - {t}" using assms(1,5) by (auto simp: frame_ok_def block_ok_def)
  then have "card (set (map fst (snd fc))) \<le> card (T - {t})" using assms(2) by (simp add: card_mono)
  then have "length (snd fc) \<le> card T - 1" using assms(1,2,4) distinct_card [of "map fst (snd fc)"] by (simp add: frame_ok_def)
  then show ?thesis using assms(2,3,4) card_gt_0_iff [of T] by fastforce
qed

lemma put_into_frame:
  assumes "frame_ok T fc" and "finite T" and "card T < 2 ^ 16" and "block_ok T (t, ts, data)"
  shows "snd (mfr_put_into t ts data (frame_of fc)) \<Longrightarrow> fst (mfr_put_into t ts data (frame_of fc)) = frame_of (fst fc, snd fc @ [(t, ts, data)]) \<and> frame_ok T (fst fc, snd fc @ [(t, ts, data)])"
    "\<not> snd (mfr_put_into t ts data (frame_of fc)) \<Longrightarrow> fst (mfr_put_into t ts data (frame_of fc)) = frame_of fc"
proof -
  have w: "u64_add (fst fc) FRAME_TS_DIFF_ACCEPTABLE = fst fc + FRAME_TS_DIFF_ACCEPTABLE" "u64_add ts FRAME_TS_DIFF_ACCEPTABLE = ts + FRAME_TS_DIFF_ACCEPTABLE"
    using assms(1,4) by (simp_all add: frame_ok_def block_ok_def u64_add_def)
  show "fst (mfr_put_into t ts data (frame_of fc)) = frame_of fc" if "\<not> snd (mfr_put_into t ts data (frame_of fc))"
    using that by (auto simp: mfr_put_into_def)
  show "fst (mfr_put_into t ts data (frame_of fc)) = frame_of (fst fc, snd fc @ [(t, ts, data)]) \<and> frame_ok T (fst fc, snd fc @ [(t, ts, data)])"
    if ok: "snd (mfr_put_into t ts data (frame_of fc))"
  proof -
    have n: "t \<notin> fst ` set (snd fc)" "ts < fst fc + FRAME_TS_DIFF_ACCEPTABLE" "fst fc < ts + FRAME_TS_DIFF_ACCEPTABLE"
      using ok w by (auto simp: mfr_put_into_def frame_of_def split: if_splits)
    have t: "t \<in> T" using assms(4) by (simp add: block_ok_def)
    have "mfr_add (mixed (snd fc)) data = mixed (snd fc @ [(t, ts, data)])"
      using mfr_add_mixed [of "snd fc" t ts data T] frame_room [OF assms(1-3) t n(1)] assms(1,4) by (simp add: frame_ok_def)
    then have "fst (mfr_put_into t ts data (frame_of fc)) = frame_of (fst fc, snd fc @ [(t, ts, data)])"
      using ok by (auto simp: mfr_put_into_def frame_of_def split: if_splits)
    moreover have "frame_ok T (fst fc, snd fc @ [(t, ts, data)])" using assms(1,4) n by (auto simp: frame_ok_def)
    ultimately show ?thesis by blast
  qed
qed

lemma put_into_new:
  assumes "block_ok T (t, ts, data)"
  shows "mfr_put_into t ts data \<lparr>mfr_ts = ts, mfr_buffer = replicate FRAME_SAMPLES 0, mfr_tracks = []\<rparr> = (frame_of (ts, [(t, ts, data)]), True)" "frame_ok T (ts, [(t, ts, data)])"
proof -
  have w: "u64_add ts FRAME_TS_DIFF_ACCEPTABLE = ts + FRAME_TS_DIFF_ACCEPTABLE" "0 < FRAME_TS_DIFF_ACCEPTABLE"
    using assms by (simp_all add: block_ok_def u64_add_def FRAME_TS_DIFF_ACCEPTABLE_def)
  show "mfr_put_into t ts data \<lparr>mfr_ts = ts, mfr_buffer = replicate FRAME_SAMPLES 0, mfr_tracks = []\<rparr> = (frame_of (ts, [(t, ts, data)]), True)"
    using mfr_add_mixed [of "[]" t ts data T] assms w by (simp add: mfr_put_into_def frame_of_def mixed_Nil block_ok_def)
  show "frame_ok T (ts, [(t, ts, data)])" using assms w by (simp add: frame_ok_def block_ok_def)
qed

lemma put_first_frames:
  assumes "\<forall>fc \<in> set q. frame_ok T fc" and "finite T" and "card T < 2 ^ 16" and "block_ok T (t, ts, data)"
  shows "case mb_put_first t ts data (map frame_of q) of None \<Rightarrow> True
    | Some (i, fs) \<Rightarrow> \<exists>q'. fs = map frame_of q' \<and> (\<forall>fc \<in> set q'. frame_ok T fc) \<and> map fst q' = map fst q
        \<and> mset (concat (map snd q')) = add_mset (t, ts, data) (mset (concat (map snd q)))"
  using assms(1)
proof (induction q)
  case (Cons fc q)
  note put = put_into_frame [OF _ assms(2-4), of fc]
  show ?case
  proof (cases "snd (mfr_put_into t ts data (frame_of fc))")
    case True
    then have "mb_put_first t ts data (map frame_of (fc # q)) = Some (0, map frame_of ((fst fc, snd fc @ [(t, ts, data)]) # q))"
      using put(1) Cons.prems by (simp add: case_prod_beta)
    then show ?thesis using put(1) True Cons.prems by (simp only: option.case prod.case) (intro exI [of _ "(fst fc, snd fc @ [(t, ts, data)]) # q"], simp)
  next
    case False
    then have r: "mb_put_first t ts data (map frame_of (fc # q)) = map_option (\<lambda>(i, fs'). (Suc i, frame_of fc # fs')) (mb_put_first t ts data (map frame_of q))"
      by (simp add: case_prod_beta)
    show ?thesis
    proof (cases "mb_put_first t ts data (map frame_of q)")
      case (Some x)
      then obtain i q' where x: "x = (i, map frame_of q')" "\<forall>fc \<in> set q'. frame_ok T fc" "map fst q' = map fst q"
          "mset (concat (map snd q')) = add_mset (t, ts, data) (mset (concat (map snd q)))"
        using Cons.IH Cons.prems by (cases x) auto
      then show ?thesis using r Some Cons.prems by (simp only: r) (auto intro!: exI [of _ "fc # q'"])
    qed (simp only: r, simp)
  qed
qed simp

section \<open>What is mixed\<close>

datatype 'tid mb_op = Mb_Push nat 'tid "int list" | Mb_Pop

fun mb_step :: "'tid mb_op \<Rightarrow> 'tid mixer_buffer \<times> (nat \<times> int list) list \<Rightarrow> ('tid mixer_buffer \<times> (nat \<times> int list) list) run" where
  "mb_step (Mb_Push ts track_id data) (s, outs) = rbind (mb_push ts track_id data s) (\<lambda>(s', out). Inr (s', outs @ (case out of None \<Rightarrow> [] | Some x \<Rightarrow> [x])))"
| "mb_step Mb_Pop (s, outs) = (case mb_force_pop s of (s', out) \<Rightarrow> Inr (s', outs @ (case out of None \<Rightarrow> [] | Some x \<Rightarrow> [x])))"

fun blocks :: "'tid mb_op \<Rightarrow> 'tid contribution list" where
  "blocks (Mb_Push ts track_id data) = [(track_id, ts, data)]"
| "blocks Mb_Pop = []"

definition popped_frame :: "nat \<times> 'tid contribution list \<Rightarrow> nat \<times> int list" where
  "popped_frame fc = (fst fc, map cap_i16_cast (mixed (snd fc)))"

definition mb_ok :: "'tid set \<Rightarrow> 'tid contribution multiset \<Rightarrow> 'tid mixer_buffer \<times> (nat \<times> int list) list \<Rightarrow> bool" where
  "mb_ok T B so \<longleftrightarrow> (\<exists>p q lost. snd so = map popped_frame p \<and> mb_frames (fst so) = map frame_of q \<and> length q \<le> FRAME_QUEUE_LIMIT
     \<and> (\<forall>fc \<in> set (p @ q). frame_ok T fc) \<and> mset (concat (map snd (p @ q))) + mset lost = B
     \<and> (\<forall>(t, ts, data) \<in> set lost. \<exists>fts \<in> set (map fst (p @ q)). ts < fts))"

lemma mb_ok_pop:
  assumes "mb_frames s = map frame_of q" and "outs = map popped_frame p"
  shows "\<exists>p' q'. p @ q = p' @ q' \<and> mb_frames (fst (mb_force_pop s)) = map frame_of q'
    \<and> outs @ (case snd (mb_force_pop s) of None \<Rightarrow> [] | Some x \<Rightarrow> [x]) = map popped_frame p' \<and> length q' = length q - 1"
proof (cases q)
  case Nil
  then show ?thesis using assms by (intro exI [of _ p] exI [of _ "[]"]) (simp add: mb_force_pop_def)
next
  case (Cons fc q')
  then show ?thesis using assms by (intro exI [of _ "p @ [fc]"] exI [of _ q']) (simp add: mb_force_pop_def popped_frame_def frame_of_def)
qed

text \<open>Where a block ends up: in a frame, in a new frame at the end, or nowhere because it is older than all frames.\<close>

lemma push_data_frames:
  assumes "\<forall>fc \<in> set q. frame_ok T fc" and "finite T" and "card T < 2 ^ 16" and "block_ok T (t, ts, data)" and "mb_frames s = map frame_of q"
  shows "(\<exists>fts \<in> set (map fst q). ts < fts) \<and> mb_push_data_to_frame ts t data s = Inr (s, None)
    \<or> (\<exists>q' i. mb_push_data_to_frame ts t data s = Inr (s\<lparr>mb_frames := map frame_of q'\<rparr>, Some i) \<and> (\<forall>fc \<in> set q'. frame_ok T fc)
        \<and> mset (concat (map snd q')) = add_mset (t, ts, data) (mset (concat (map snd q))) \<and> (map fst q' = map fst q \<or> map fst q' = map fst q @ [ts]))"
proof (cases "mb_put_first t ts data (map frame_of q)")
  case (Some x)
  then show ?thesis using put_first_frames [OF assms(1-4)] assms(5) by (cases x) (auto simp: mb_push_data_to_frame_def)
next
  case None
  show ?thesis
  proof (cases "q \<noteq> [] \<and> ts < fst (hd q)")
    case True
    then have "ts < mfr_ts (hd (map frame_of q))" "fst (hd q) \<in> set (map fst q)" by (auto simp: hd_map frame_of_def)
    then show ?thesis using None True assms(5) by (auto simp: mb_push_data_to_frame_def Let_def split: list.split intro!: bexI [of _ "hd q"])
  next
    case False
    then have f: "\<not> ts < (case map frame_of q of [] \<Rightarrow> ts | f # _ \<Rightarrow> mfr_ts f)" by (cases q) (auto simp: frame_of_def)
    have "mb_push_data_to_frame ts t data s = Inr (s\<lparr>mb_frames := map frame_of (q @ [(ts, [(t, ts, data)])])\<rparr>, Some (length q))"
      using None f put_into_new(1) [OF assms(4)] assms(5) by (simp add: mb_push_data_to_frame_def Let_def rassert_def)
    then show ?thesis using put_into_new(2) [OF assms(4)] assms(1)
      by (intro disjI2 exI [of _ "q @ [(ts, [(t, ts, data)])]"] exI [of _ "length q"]) simp
  qed
qed

lemma mb_ok_push:
  assumes "mb_ok T B (s, outs)" and "finite T" and "card T < 2 ^ 16" and "block_ok T (t, ts, data)"
  shows "\<exists>so'. mb_step (Mb_Push ts t data) (s, outs) = Inr so' \<and> mb_ok T (add_mset (t, ts, data) B) so'"
proof -
  obtain p q lost where old: "outs = map popped_frame p" "mb_frames s = map frame_of q" "length q \<le> FRAME_QUEUE_LIMIT" "\<forall>fc \<in> set (p @ q). frame_ok T fc"
      "mset (concat (map snd (p @ q))) + mset lost = B" "\<forall>(t, ts, data) \<in> set lost. \<exists>fts \<in> set (map fst (p @ q)). ts < fts"
    using assms(1) unfolding mb_ok_def fst_conv snd_conv by blast
  from push_data_frames [OF _ assms(2-4) old(2)] old(4)
  consider (lost) "\<exists>fts \<in> set (map fst q). ts < fts" "mb_push_data_to_frame ts t data s = Inr (s, None)"
    | (put) q' i where "mb_push_data_to_frame ts t data s = Inr (s\<lparr>mb_frames := map frame_of q'\<rparr>, Some i)" "\<forall>fc \<in> set q'. frame_ok T fc"
        "mset (concat (map snd q')) = add_mset (t, ts, data) (mset (concat (map snd q)))" "map fst q' = map fst q \<or> map fst q' = map fst q @ [ts]"
    by auto
  then show ?thesis
  proof cases
    case lost
    have "mb_ok T (add_mset (t, ts, data) B) (s, outs)" unfolding mb_ok_def fst_conv snd_conv
      using old lost(1) by (intro exI [of _ p] exI [of _ q] exI [of _ "(t, ts, data) # lost"]) auto
    then show ?thesis using lost(2) by (simp add: mb_push_def)
  next
    case put
    let ?s = "s\<lparr>mb_frames := map frame_of q'\<rparr>"
    have len: "length q' \<le> Suc FRAME_QUEUE_LIMIT" using put(4) old(3) by (metis (no_types, lifting) Suc_le_mono le_SucI length_append_singleton length_map)
    have "set (map fst (p @ q)) \<subseteq> set (map fst (p @ q'))" unfolding map_append set_append using put(4) by (elim disjE) auto
    then have fr: "\<forall>(t, ts, data) \<in> set lost. \<exists>fts \<in> set (map fst (p @ q')). ts < fts" using old(6) unfolding case_prod_beta by (meson subsetD)
    have "\<forall>fc \<in> set (p @ q'). frame_ok T fc" "mset (concat (map snd (p @ q'))) + mset lost = add_mset (t, ts, data) B"
      using old(4,5) put(2,3) by auto
    note fr = this fr
    obtain p2 q2 where pq: "p @ q' = p2 @ q2" "mb_frames (fst (mb_force_pop ?s)) = map frame_of q2"
        "outs @ (case snd (mb_force_pop ?s) of None \<Rightarrow> [] | Some x \<Rightarrow> [x]) = map popped_frame p2" "length q2 = length q' - 1"
      using mb_ok_pop [of ?s q' outs p] old(1) by auto
    show ?thesis
    proof (cases "length q' > FRAME_QUEUE_LIMIT")
      case True
      have "mb_ok T (add_mset (t, ts, data) B) (fst (mb_force_pop ?s), outs @ (case snd (mb_force_pop ?s) of None \<Rightarrow> [] | Some x \<Rightarrow> [x]))"
        unfolding mb_ok_def fst_conv snd_conv using fr [unfolded pq(1)] pq(2-4) len by (intro exI [of _ p2] exI [of _ q2] exI [of _ lost]) simp
      then show ?thesis using put(1) True by (simp add: mb_push_def case_prod_beta)
    next
      case False
      have "mb_ok T (add_mset (t, ts, data) B) (?s, outs)" unfolding mb_ok_def fst_conv snd_conv
        using fr old(1) False by (intro exI [of _ p] exI [of _ q'] exI [of _ lost]) simp
      then show ?thesis using put(1) False by (simp add: mb_push_def)
    qed
  qed
qed

lemma mb_ok_run:
  assumes "finite T" and "card T < 2 ^ 16"
  shows "mb_ok T B so \<Longrightarrow> \<forall>op \<in> set ops. \<forall>c \<in> set (blocks op). block_ok T c \<Longrightarrow>
    \<exists>so'. rfold mb_step ops so = Inr so' \<and> mb_ok T (B + mset (concat (map blocks ops))) so'"
proof (induction ops arbitrary: B so)
  case (Cons op ops)
  obtain s outs where so: "so = (s, outs)" by (cases so)
  have "\<exists>so1. mb_step op so = Inr so1 \<and> mb_ok T (B + mset (blocks op)) so1"
  proof (cases op)
    case (Mb_Push ts t data)
    then show ?thesis using mb_ok_push [OF _ assms, of B s outs t ts data] Cons.prems so by simp
  next
    case Mb_Pop
    obtain p q lost where old: "outs = map popped_frame p" "mb_frames s = map frame_of q" "length q \<le> FRAME_QUEUE_LIMIT" "\<forall>fc \<in> set (p @ q). frame_ok T fc"
        "mset (concat (map snd (p @ q))) + mset lost = B" "\<forall>(t, ts, data) \<in> set lost. \<exists>fts \<in> set (map fst (p @ q)). ts < fts"
      using Cons.prems(1) unfolding mb_ok_def so fst_conv snd_conv by blast
    obtain p2 q2 where pq: "p @ q = p2 @ q2" "mb_frames (fst (mb_force_pop s)) = map frame_of q2"
        "outs @ (case snd (mb_force_pop s) of None \<Rightarrow> [] | Some x \<Rightarrow> [x]) = map popped_frame p2" "length q2 = length q - 1"
      using mb_ok_pop [OF old(2,1)] by blast
    have "mb_ok T B (fst (mb_force_pop s), outs @ (case snd (mb_force_pop s) of None \<Rightarrow> [] | Some x \<Rightarrow> [x]))"
      unfolding mb_ok_def fst_conv snd_conv using old(3-6) [unfolded pq(1)] pq(2-4) by (intro exI [of _ p2] exI [of _ q2] exI [of _ lost]) simp
    then show ?thesis using Mb_Pop so by (simp add: case_prod_beta)
  qed
  then obtain so1 where so1: "mb_step op so = Inr so1" "mb_ok T (B + mset (blocks op)) so1" by blast
  show ?case using Cons.IH [OF so1(2)] Cons.prems(2) so1(1) by (simp add: add.assoc)
qed simp

text \<open>
  C29. Mixing. When blocks are no longer than a frame and come from fewer than 65536 tracks, no run of the buffer panics, and
  at most ten frames wait. Every frame is mixed from blocks of different tracks, less than 100 ms away from
  it; each sample that is popped is the sum of the samples of these blocks, without overflow, clamped to
  16 bits. Every block is in exactly one frame, but for those that are older than a frame already there.
\<close>

theorem mixer_buffer_mixes:
  assumes "finite T" and "card T < 2 ^ 16" and "\<forall>op \<in> set ops. \<forall>c \<in> set (blocks op). block_ok T c"
  shows "\<exists>s outs p q lost. rfold mb_step ops (mb_new, []) = Inr (s, outs) \<and> length (mb_frames s) \<le> FRAME_QUEUE_LIMIT
    \<and> outs = map popped_frame p \<and> mb_frames s = map frame_of q \<and> (\<forall>fc \<in> set (p @ q). frame_ok T fc)
    \<and> mset (concat (map snd (p @ q))) + mset lost = mset (concat (map blocks ops))
    \<and> (\<forall>(t, ts, data) \<in> set lost. \<exists>fts \<in> set (map fst (p @ q)). ts < fts)"
proof -
  have "mb_ok T {#} (mb_new, [])" unfolding mb_ok_def by (intro exI [of _ "[]"]) (simp add: mb_new_def)
  from mb_ok_run [OF assms(1,2) this assms(3)]
  obtain so where so: "rfold mb_step ops (mb_new, []) = Inr so" "mb_ok T (mset (concat (map blocks ops))) so" by auto
  show ?thesis using so unfolding mb_ok_def by (cases so) auto
qed

definition demo_mix :: "nat mb_op list" where
  "demo_mix = [Mb_Push 0 1 [30000, 5], Mb_Push 5 2 [10000], Mb_Push 20 1 [7], Mb_Pop]"

theorem mixer_buffer_mixes_witness:
  "\<exists>s outs p q lost. rfold mb_step demo_mix (mb_new, []) = Inr (s, outs) \<and> length (mb_frames s) \<le> FRAME_QUEUE_LIMIT
    \<and> outs = map popped_frame p \<and> mb_frames s = map frame_of q \<and> (\<forall>fc \<in> set (p @ q). frame_ok {1, 2} fc)
    \<and> mset (concat (map snd (p @ q))) + mset lost = mset (concat (map blocks demo_mix))
    \<and> (\<forall>(t, ts, data) \<in> set lost. \<exists>fts \<in> set (map fst (p @ q)). ts < fts)"
  by (rule mixer_buffer_mixes) (simp_all add: demo_mix_def block_ok_def FRAME_SAMPLES_def FRAME_TS_DIFF_ACCEPTABLE_def)

text \<open>A block longer than a frame is refused by every frame; when it is not older than the oldest, the check on the new frame fails.\<close>

lemma mb_put_first_long: "\<forall>f \<in> set fs. length (mfr_buffer f) = FRAME_SAMPLES \<Longrightarrow> length data > FRAME_SAMPLES \<Longrightarrow> mb_put_first t ts data fs = None"
  by (induction fs) (auto simp: mfr_put_into_def)

lemma mb_long_block_panics:
  assumes "length data > FRAME_SAMPLES" and "\<forall>f \<in> set (mb_frames s). length (mfr_buffer f) = FRAME_SAMPLES \<and> mfr_ts f \<le> ts"
  shows "mb_push ts t data s = Inl Assert_Failed"
proof -
  have "mb_put_first t ts data (mb_frames s) = None" by (rule mb_put_first_long) (use assms in auto)
  moreover have "\<not> ts < (case mb_frames s of [] \<Rightarrow> ts | f # _ \<Rightarrow> mfr_ts f)" using assms(2) by (auto split: list.split)
  ultimately show ?thesis using assms(1) by (simp add: mb_push_def mb_push_data_to_frame_def Let_def mfr_put_into_def rassert_def)
qed

end
