(* ===== verification/Record_Convert.thy ===== *)
theory Record_Convert
  imports Record_Chunk Conn_Id Index_Map
begin

text \<open>
  Writing recordings to media files, \<^verbatim>\<open>packages/media_record/src/convert\<close>: the assembly of VP8 and VP9 frames
  (\<^verbatim>\<open>codec/vpx_demuxer.rs\<close>), the file writer (\<^verbatim>\<open>codec/vpx_writer.rs\<close>), the writer with one file per track and the
  summary of the transmuxer (\<^verbatim>\<open>transmuxer/track_writer.rs\<close>, \<^verbatim>\<open>transmuxer.rs\<close>).

  The file of the container library is the list of frames that were added to it. Taking a packet's payload
  apart is a parameter (the depacketizers of the RTP library), and whether a file can be created an
  argument. The theorem follows a track from its first packet to its last: which segments the summary has
  and which frames are in the files.
\<close>

section \<open>Frames of a video\<close>

record vpx_demuxer =
  vd_seen_key_frame :: bool
  vd_current_frame :: "(bool \<times> bytes) option"

definition vd_new :: vpx_demuxer where
  "vd_new = \<lparr>vd_seen_key_frame = False, vd_current_frame = None\<rparr>"

text \<open>Which packets are taken, and whether they are key frames; the other codecs panic.\<close>

definition vd_accept :: "media_meta \<Rightarrow> bool option run" where
  "vd_accept m = (case m of
     Opus _ \<Rightarrow> Inl Explicit_Panic
   | H264 _ _ _ _ \<Rightarrow> Inl Explicit_Panic
   | Vp8 key sim _ \<Rightarrow> Inr (case sim of Some s \<Rightarrow> if vp8_spatial s \<noteq> 0 then None else Some key | None \<Rightarrow> Some key)
   | Vp9 key _ _ _ \<Rightarrow> Inr (Some key))"

definition vd_push :: "(media_meta \<Rightarrow> bytes \<Rightarrow> bytes option) \<Rightarrow> media_packet \<Rightarrow> vpx_demuxer \<Rightarrow> (vpx_demuxer \<times> (bool \<times> bytes) option) run" where
  "vd_push depacketize rtp d = rbind (vd_accept (pkt_meta rtp)) (\<lambda>accepted. case accepted of
     None \<Rightarrow> Inr (d, None)
   | Some is_key_frame \<Rightarrow> rbind (rexpect (depacketize (pkt_meta rtp) (pkt_data rtp))) (\<lambda>payload.
       if \<not> vd_seen_key_frame d \<and> \<not> is_key_frame then Inr (d, None)
       else let frame = (case vd_current_frame d of Some (is_key, current) \<Rightarrow> (is_key, current @ payload) | None \<Rightarrow> (is_key_frame, payload)) in
         Inr (if \<not> pkt_marker rtp then (d\<lparr>vd_seen_key_frame := True, vd_current_frame := Some frame\<rparr>, None)
              else (d\<lparr>vd_seen_key_frame := True, vd_current_frame := None\<rparr>, Some frame))))"

section \<open>The file writer\<close>

datatype webm_frame = Wf_Audio bytes nat | Wf_Video bool bytes nat

record vpx_writer =
  vw_audio :: bool
  vw_video :: "vpx_demuxer option"
  vw_start_ts :: nat
  vw_last_ts :: nat
  vw_webm :: "webm_frame list"

definition vw_new :: "nat \<Rightarrow> vpx_writer" where
  "vw_new start_ts = \<lparr>vw_audio = False, vw_video = None, vw_start_ts = start_ts, vw_last_ts = start_ts, vw_webm = []\<rparr>"

definition vw_duration :: "vpx_writer \<Rightarrow> nat" where
  "vw_duration w = u64_sub (vw_last_ts w) (vw_start_ts w)"

definition vw_push_media :: "(media_meta \<Rightarrow> bytes \<Rightarrow> bytes option) \<Rightarrow> nat \<Rightarrow> media_packet \<Rightarrow> vpx_writer \<Rightarrow> vpx_writer run" where
  "vw_push_media depacketize pkt_ms pkt w =
     (let delta_ts = u64_sub pkt_ms (vw_start_ts w); w1 = w\<lparr>vw_last_ts := pkt_ms\<rparr> in
      if meta_is_audio (pkt_meta pkt)
      then Inr (w1\<lparr>vw_audio := True, vw_webm := vw_webm w @ [Wf_Audio (pkt_data pkt) (u64_mul delta_ts 1000000)]\<rparr>)
      else rbind (case vw_video w of Some demuxer \<Rightarrow> Inr demuxer
          | None \<Rightarrow> (case pkt_meta pkt of Vp8 _ _ _ \<Rightarrow> Inr vd_new | Vp9 _ _ _ _ \<Rightarrow> Inr vd_new | _ \<Rightarrow> Inl Explicit_Panic)) (\<lambda>demuxer.
        rbind (vd_push depacketize pkt demuxer) (\<lambda>(demuxer', frame).
          Inr (w1\<lparr>vw_video := Some demuxer', vw_webm := vw_webm w @ (case frame of None \<Rightarrow> []
             | Some (key, data) \<Rightarrow> [Wf_Video key data (u64_mul delta_ts 1000000)])\<rparr>))))"

section \<open>One file per track\<close>

datatype track_event = Te_TrackStart track_name media_kind nat string | Te_TrackStop track_name media_kind nat

record track_writer =
  tw_prefix :: string
  tw_meta :: "(nat, track_name \<times> track_meta) imap"
  tw_writer :: "(nat, vpx_writer) imap"

definition tw_new :: "string \<Rightarrow> track_writer" where
  "tw_new prefix = \<lparr>tw_prefix = prefix, tw_meta = [], tw_writer = []\<rparr>"

definition tw_file_name :: "string \<Rightarrow> string \<Rightarrow> track_name \<Rightarrow> nat \<Rightarrow> string" where
  "tw_file_name prefix codec name ts = prefix @ ''-'' @ codec @ ''-'' @ name @ ''-'' @ show_nat ts @ ''.webm''"

text \<open>The name of a new file; H264 is a \<^verbatim>\<open>todo!()\<close>, and a file that cannot be created is unwrapped.\<close>

definition tw_create :: "bool \<Rightarrow> string \<Rightarrow> track_name \<Rightarrow> media_meta \<Rightarrow> nat \<Rightarrow> (string \<times> vpx_writer) run" where
  "tw_create create_ok prefix name m ts = rbind (case m of Opus _ \<Rightarrow> Inr ''opus'' | H264 _ _ _ _ \<Rightarrow> Inl Explicit_Panic
       | Vp8 _ _ _ \<Rightarrow> Inr ''vp8'' | Vp9 _ _ _ _ \<Rightarrow> Inr ''vp9'') (\<lambda>codec.
     if create_ok then Inr (tw_file_name prefix codec name ts, vw_new ts) else Inl Expect_None)"

definition tw_media :: "(media_meta \<Rightarrow> bytes \<Rightarrow> bytes option) \<Rightarrow> nat \<Rightarrow> nat \<Rightarrow> media_packet \<Rightarrow> track_event option \<Rightarrow> track_writer \<Rightarrow> (track_writer \<times> track_event option) run" where
  "tw_media depacketize ts rid media out s = rbind (rexpect (im_get (tw_writer s) rid)) (\<lambda>w.
     rbind (vw_push_media depacketize ts media w) (\<lambda>w'. Inr (s\<lparr>tw_writer := im_insert rid w' (tw_writer s)\<rparr>, out)))"

definition tw_push :: "(media_meta \<Rightarrow> bytes \<Rightarrow> bytes option) \<Rightarrow> bool \<Rightarrow> record_row \<Rightarrow> track_writer \<Rightarrow> (track_writer \<times> track_event option) run" where
  "tw_push depacketize create_ok row s = (case row_event row of
     Rec_TrackStarted rid name meta \<Rightarrow> Inr (s\<lparr>tw_meta := im_insert rid (name, meta) (tw_meta s)\<rparr>, None)
   | Rec_TrackStopped rid \<Rightarrow> (case im_get (tw_meta s) rid of None \<Rightarrow> Inr (s, None)
       | Some (name, meta) \<Rightarrow>
           let s1 = s\<lparr>tw_meta := im_swap_remove rid (tw_meta s)\<rparr> in
           case im_get (tw_writer s) rid of None \<Rightarrow> Inr (s1, None)
           | Some w \<Rightarrow> Inr (s1\<lparr>tw_writer := im_swap_remove rid (tw_writer s)\<rparr>, Some (Te_TrackStop name (tm_kind meta) (row_ts row))))
   | Rec_TrackMedia rid media \<Rightarrow>
       if im_contains (tw_writer s) rid then tw_media depacketize (row_ts row) rid media None s
       else (case im_get (tw_meta s) rid of None \<Rightarrow> Inr (s, None)
         | Some (name, meta) \<Rightarrow> rbind (tw_create create_ok (tw_prefix s) name (pkt_meta media) (row_ts row)) (\<lambda>(file_name, w).
             tw_media depacketize (row_ts row) rid media (Some (Te_TrackStart name (tm_kind meta) (row_ts row) file_name))
               (s\<lparr>tw_writer := im_insert rid w (tw_writer s)\<rparr>)))
   | _ \<Rightarrow> Inr (s, None))"

section \<open>The summary of the transmuxer\<close>

record track_timeline =
  tl_path :: string
  tl_start :: nat
  tl_end :: "nat option"

record track_summary =
  tsm_kind :: media_kind
  tsm_timeline :: "track_timeline list"

type_synonym session_summary = "(track_name, track_summary) imap"
type_synonym peer_summary = "(nat, session_summary) imap"
type_synonym transmux_summary = "(string, peer_summary) imap"

definition close_last :: "nat \<Rightarrow> track_timeline list \<Rightarrow> track_timeline list" where
  "close_last ts timeline = (case rev timeline of [] \<Rightarrow> []
     | t # rest \<Rightarrow> rev ((if tl_end t = None then t\<lparr>tl_end := Some ts\<rparr> else t) # rest))"

definition session_on_event :: "track_event \<Rightarrow> session_summary \<Rightarrow> session_summary" where
  "session_on_event event session = (case event of
     Te_TrackStart name kind ts path \<Rightarrow>
       (let track = im_or session name \<lparr>tsm_kind = kind, tsm_timeline = []\<rparr> in
        im_insert name (track\<lparr>tsm_timeline := tsm_timeline track @ [\<lparr>tl_path = path, tl_start = ts, tl_end = None\<rparr>]\<rparr>) session)
   | Te_TrackStop name _ ts \<Rightarrow> (case im_get session name of None \<Rightarrow> session
       | Some track \<Rightarrow> im_insert name (track\<lparr>tsm_timeline := close_last ts (tsm_timeline track)\<rparr>) session))"

definition summary_on_event :: "string \<Rightarrow> nat \<Rightarrow> track_event \<Rightarrow> transmux_summary \<Rightarrow> transmux_summary" where
  "summary_on_event peer_id session_id event record_summary =
     (let peer = im_or record_summary peer_id []; session = im_or peer session_id [] in
      im_insert peer_id (im_insert session_id (session_on_event event session) peer) record_summary)"

section \<open>The segments of a session\<close>

text \<open>The rows of one session go through its track writer, and the events of the writer into the summary. With
  each row comes what the file system would say if the row made the writer create a file.\<close>

type_synonym tm_op = "record_row \<times> bool"

definition tm_step :: "(media_meta \<Rightarrow> bytes \<Rightarrow> bytes option) \<Rightarrow> tm_op \<Rightarrow> track_writer \<times> session_summary \<Rightarrow> (track_writer \<times> session_summary) run" where
  "tm_step depacketize op ss = rbind (tw_push depacketize (snd op) (fst op) (fst ss)) (\<lambda>(s', event).
     Inr (s', case event of None \<Rightarrow> snd ss | Some e \<Rightarrow> session_on_event e (snd ss)))"

text \<open>The row makes the writer create a file: media of a started track that is not being written yet.\<close>

definition tm_creates :: "record_row \<Rightarrow> track_writer \<Rightarrow> bool" where
  "tm_creates row s = (case row_event row of
     Rec_TrackMedia rid _ \<Rightarrow> im_get (tw_meta s) rid \<noteq> None \<and> im_get (tw_writer s) rid = None
   | _ \<Rightarrow> False)"

text \<open>Rows that the writer can cope with: a track is started under an id and a name that no other started track
  has, media is not H264, and a video payload can be taken apart.\<close>

definition tm_admits :: "(media_meta \<Rightarrow> bytes \<Rightarrow> bytes option) \<Rightarrow> tm_op \<Rightarrow> track_writer \<times> session_summary \<Rightarrow> bool" where
  "tm_admits depacketize op ss = (case row_event (fst op) of
     Rec_TrackStarted rid name meta \<Rightarrow> im_get (tw_meta (fst ss)) rid = None \<and> (\<forall>k m. im_get (tw_meta (fst ss)) k \<noteq> Some (name, m))
   | Rec_TrackMedia rid media \<Rightarrow> (case pkt_meta media of H264 _ _ _ _ \<Rightarrow> False | Opus _ \<Rightarrow> True | _ \<Rightarrow> depacketize (pkt_meta media) (pkt_data media) \<noteq> None)
   | _ \<Rightarrow> True)"

definition writing :: "track_writer \<Rightarrow> track_name \<Rightarrow> bool" where
  "writing s name \<longleftrightarrow> (\<exists>rid m. im_get (tw_meta s) rid = Some (name, m) \<and> im_get (tw_writer s) rid \<noteq> None)"

definition segments_ok :: "bool \<Rightarrow> track_timeline list \<Rightarrow> bool" where
  "segments_ok is_open timeline \<longleftrightarrow> timeline \<noteq> [] \<and> (\<forall>t \<in> set (butlast timeline). tl_end t \<noteq> None) \<and> (tl_end (last timeline) = None \<longleftrightarrow> is_open)"

definition track_ok :: "bool \<Rightarrow> track_summary option \<Rightarrow> bool" where
  "track_ok is_open entry = (case entry of None \<Rightarrow> \<not> is_open | Some track \<Rightarrow> segments_ok is_open (tsm_timeline track))"

definition tm_ok :: "track_writer \<times> session_summary \<Rightarrow> bool" where
  "tm_ok ss \<longleftrightarrow> im_wf (tw_meta (fst ss)) \<and> im_wf (tw_writer (fst ss))
     \<and> (\<forall>rid. im_get (tw_writer (fst ss)) rid \<noteq> None \<longrightarrow> im_get (tw_meta (fst ss)) rid \<noteq> None)
     \<and> (\<forall>i j name m n. im_get (tw_meta (fst ss)) i = Some (name, m) \<longrightarrow> im_get (tw_meta (fst ss)) j = Some (name, n) \<longrightarrow> i = j)
     \<and> (\<forall>name. track_ok (writing (fst ss) name) (im_get (snd ss) name))"

lemma vw_push_media_ok:
  assumes "case pkt_meta media of H264 _ _ _ _ \<Rightarrow> False | Opus _ \<Rightarrow> True | _ \<Rightarrow> depacketize (pkt_meta media) (pkt_data media) \<noteq> None"
  shows "\<exists>w'. vw_push_media depacketize ts media w = Inr w'"
proof (cases "meta_is_audio (pkt_meta media)")
  case True
  then show ?thesis by (simp add: vw_push_media_def Let_def)
next
  case False
  obtain acc where acc: "vd_accept (pkt_meta media) = Inr acc" using assms False by (cases "pkt_meta media") (auto simp: vd_accept_def meta_is_audio_def)
  obtain payload where y: "depacketize (pkt_meta media) (pkt_data media) = Some payload" using assms False by (cases "pkt_meta media") (auto simp: meta_is_audio_def)
  have d: "\<exists>d' out. vd_push depacketize media d = Inr (d', out)" for d
    by (auto simp: vd_push_def acc y rexpect_def Let_def split: option.split)
  show ?thesis using d [of vd_new] d [of "the (vw_video w)"] assms False
    by (cases "vw_video w"; cases "pkt_meta media") (auto simp: vw_push_media_def Let_def meta_is_audio_def)
qed

lemma segments_start: "segments_ok False line \<Longrightarrow> tl_end t = None \<Longrightarrow> segments_ok True (line @ [t])"
  by (auto simp: segments_ok_def) (metis append_butlast_last_id in_set_conv_decomp rotate1.simps(2) set_ConsD set_rotate1)

lemma segments_first: "tl_end t = None \<Longrightarrow> segments_ok True [t]"
  by (simp add: segments_ok_def)

lemma segments_stop: "segments_ok True line \<Longrightarrow> segments_ok False (close_last ts line)"
  by (cases line rule: rev_cases) (auto simp: segments_ok_def close_last_def)

lemma tm_ok_track: "tm_ok (s, sm) \<Longrightarrow> track_ok (writing s name) (im_get sm name)"
  by (simp add: tm_ok_def)

lemma writing_cong:
  "(\<And>rid m. im_get (tw_meta s') rid = Some (k, m) \<and> im_get (tw_writer s') rid \<noteq> None \<longleftrightarrow> im_get (tw_meta s) rid = Some (k, m) \<and> im_get (tw_writer s) rid \<noteq> None)
   \<Longrightarrow> writing s' k = writing s k"
  by (simp add: writing_def)

lemma tm_ok_writer_update:
  assumes "tm_ok (s, sm)" and "im_get (tw_writer s) rid \<noteq> None"
  shows "tm_ok (s\<lparr>tw_writer := im_insert rid w (tw_writer s)\<rparr>, sm)"
proof -
  have "writing (s\<lparr>tw_writer := im_insert rid w (tw_writer s)\<rparr>) name = writing s name" for name
    using assms(2) by (intro writing_cong) (auto simp: im_get_insert)
  then show ?thesis using assms by (auto simp: tm_ok_def im_get_insert im_wf_insert)
qed

lemma tm_ok_start:
  assumes "tm_ok (s, sm)" and "im_get (tw_writer s) rid = None" and "im_get (tw_meta s) rid = Some (name, m)"
  shows "tm_ok (s\<lparr>tw_writer := im_insert rid w (tw_writer s)\<rparr>, session_on_event (Te_TrackStart name kind ts path) sm)"
proof -
  let ?s = "s\<lparr>tw_writer := im_insert rid w (tw_writer s)\<rparr>"
  have uniq: "im_get (tw_meta s) j = Some (name, n) \<Longrightarrow> j = rid" for j n using assms(1,3) by (auto simp: tm_ok_def)
  have before: "\<not> writing s name" using uniq assms(2) by (auto simp: writing_def)
  have after: "writing ?s name" using assms(3) by (auto simp: writing_def im_get_insert)
  have others: "writing ?s k = writing s k" if "k \<noteq> name" for k using assms(3) that by (intro writing_cong) (auto simp: im_get_insert)
  have seg: "track_ok (writing ?s k) (im_get (session_on_event (Te_TrackStart name kind ts path) sm) k)" for k
  proof (cases "k = name")
    case True
    have "track_ok False (im_get sm name)" using tm_ok_track [OF assms(1), of name] before by simp
    then show ?thesis using True after segments_start segments_first by (auto simp: track_ok_def session_on_event_def im_get_insert Let_def split: option.splits)
  next
    case False
    then show ?thesis using assms(1) others by (simp add: session_on_event_def im_get_insert Let_def tm_ok_def)
  qed
  show ?thesis using assms seg by (simp add: tm_ok_def im_get_insert im_wf_insert)
qed

lemma tm_ok_stop:
  assumes "tm_ok (s, sm)" and "im_get (tw_meta s) rid = Some (name, m)"
  shows "im_get (tw_writer s) rid = None \<Longrightarrow> tm_ok (s\<lparr>tw_meta := im_swap_remove rid (tw_meta s)\<rparr>, sm)"
    "im_get (tw_writer s) rid \<noteq> None \<Longrightarrow> tm_ok (s\<lparr>tw_meta := im_swap_remove rid (tw_meta s), tw_writer := im_swap_remove rid (tw_writer s)\<rparr>, session_on_event (Te_TrackStop name kind ts) sm)"
proof -
  have wf: "im_wf (tw_meta s)" "im_wf (tw_writer s)" using assms(1) by (simp_all add: tm_ok_def)
  have uniq: "im_get (tw_meta s) j = Some (name, n) \<Longrightarrow> j = rid" for j n using assms by (auto simp: tm_ok_def)
  show "tm_ok (s\<lparr>tw_meta := im_swap_remove rid (tw_meta s)\<rparr>, sm)" if none: "im_get (tw_writer s) rid = None"
  proof -
    have "writing (s\<lparr>tw_meta := im_swap_remove rid (tw_meta s)\<rparr>) k = writing s k" for k using none wf by (intro writing_cong) (auto simp: im_get_swap_remove)
    then show ?thesis using assms(1) wf none by (auto simp: tm_ok_def im_get_swap_remove im_wf_swap_remove)
  qed
  show "tm_ok (s\<lparr>tw_meta := im_swap_remove rid (tw_meta s), tw_writer := im_swap_remove rid (tw_writer s)\<rparr>, session_on_event (Te_TrackStop name kind ts) sm)"
    if some: "im_get (tw_writer s) rid \<noteq> None"
  proof -
    let ?s = "s\<lparr>tw_meta := im_swap_remove rid (tw_meta s), tw_writer := im_swap_remove rid (tw_writer s)\<rparr>"
    have before: "writing s name" using assms(2) some by (auto simp: writing_def)
    have after: "\<not> writing ?s name" using uniq wf by (auto simp: writing_def im_get_swap_remove)
    have others: "writing ?s k = writing s k" if "k \<noteq> name" for k using assms(2) that wf by (intro writing_cong) (auto simp: im_get_swap_remove)
    have seg: "track_ok (writing ?s k) (im_get (session_on_event (Te_TrackStop name kind ts) sm) k)" for k
    proof (cases "k = name")
      case True
      have "track_ok True (im_get sm name)" using tm_ok_track [OF assms(1), of name] before by simp
      then obtain track where "im_get sm name = Some track" "segments_ok True (tsm_timeline track)" by (auto simp: track_ok_def split: option.splits)
      then show ?thesis using True after segments_stop by (auto simp: track_ok_def session_on_event_def im_get_insert)
    next
      case False
      then show ?thesis using assms(1) others by (simp add: session_on_event_def im_get_insert tm_ok_def split: option.split)
    qed
    show ?thesis using assms(1) wf seg by (auto simp: tm_ok_def im_get_swap_remove im_wf_swap_remove)
  qed
qed

lemma tm_ok_begin:
  assumes "tm_ok (s, sm)" and "im_get (tw_meta s) rid = None" and "\<forall>k m. im_get (tw_meta s) k \<noteq> Some (name, m)"
  shows "tm_ok (s\<lparr>tw_meta := im_insert rid (name, meta) (tw_meta s)\<rparr>, sm)"
proof -
  have w: "im_get (tw_writer s) rid = None" using assms(1,2) by (auto simp: tm_ok_def)
  have "writing (s\<lparr>tw_meta := im_insert rid (name, meta) (tw_meta s)\<rparr>) k = writing s k" for k
    using w assms(2) by (intro writing_cong) (auto simp: im_get_insert)
  then show ?thesis using assms w by (auto simp: tm_ok_def im_get_insert im_wf_insert)
qed

lemma tm_step_ok:
  assumes "tm_ok ss" and "tm_admits depacketize op ss" and "tm_creates (fst op) (fst ss) \<Longrightarrow> snd op"
  shows "\<exists>ss'. tm_step depacketize op ss = Inr ss' \<and> tm_ok ss'"
proof -
  obtain s sm where ss: "ss = (s, sm)" by (cases ss)
  let ?row = "fst op"
  show ?thesis
  proof (cases "row_event ?row")
    case (Rec_TrackStarted rid name meta)
    then show ?thesis using tm_ok_begin assms by (simp add: ss tm_step_def tw_push_def tm_admits_def)
  next
    case (Rec_TrackStopped rid)
    show ?thesis
    proof (cases "im_get (tw_meta s) rid")
      case None
      then show ?thesis using Rec_TrackStopped assms(1) by (simp add: ss tm_step_def tw_push_def)
    next
      case (Some nm)
      obtain name m where nm: "nm = (name, m)" by (cases nm)
      show ?thesis using tm_ok_stop [of s sm rid name m] Some nm Rec_TrackStopped assms(1)
        by (cases "im_get (tw_writer s) rid") (simp_all add: ss tm_step_def tw_push_def)
    qed
  next
    case (Rec_TrackMedia rid media)
    have pm: "\<exists>w'. vw_push_media depacketize (row_ts ?row) media w = Inr w'" for w
      using vw_push_media_ok assms(2) by (simp add: tm_admits_def Rec_TrackMedia)
    show ?thesis
    proof (cases "im_get (tw_writer s) rid")
      case (Some w)
      then show ?thesis using pm [of w] tm_ok_writer_update assms(1) by (auto simp: ss Rec_TrackMedia tm_step_def tw_push_def tw_media_def im_contains_def rexpect_def)
    next
      case none: None
      show ?thesis
      proof (cases "im_get (tw_meta s) rid")
        case None
        then show ?thesis using none assms(1) by (simp add: ss Rec_TrackMedia tm_step_def tw_push_def im_contains_def)
      next
        case (Some nm)
        obtain name m where nm: "nm = (name, m)" by (cases nm)
        have "snd op" using assms(3) none Some by (simp add: ss tm_creates_def Rec_TrackMedia)
        then obtain path w where c: "tw_create (snd op) (tw_prefix s) name (pkt_meta media) (row_ts ?row) = Inr (path, w)"
          using assms(2) by (cases "pkt_meta media") (auto simp: tw_create_def tm_admits_def Rec_TrackMedia)
        obtain w' where w': "vw_push_media depacketize (row_ts ?row) media w = Inr w'" using pm by blast
        let ?s1 = "s\<lparr>tw_writer := im_insert rid w (tw_writer s)\<rparr>" and ?sm = "session_on_event (Te_TrackStart name (tm_kind m) (row_ts ?row) path) sm"
        have "tm_ok (?s1, ?sm)" using tm_ok_start none Some nm assms(1) ss by blast
        then have "tm_ok (?s1\<lparr>tw_writer := im_insert rid w' (tw_writer ?s1)\<rparr>, ?sm)" by (rule tm_ok_writer_update) (simp add: im_get_insert)
        then show ?thesis using none Some nm c w' by (simp add: ss Rec_TrackMedia tm_step_def tw_push_def tw_media_def im_contains_def rexpect_def im_get_insert)
      qed
    qed
  qed (use assms(1) in \<open>simp_all add: ss tm_step_def tw_push_def\<close>)
qed

lemma tm_step_no_file:
  assumes "tm_admits depacketize op ss" and "tm_creates (fst op) (fst ss)" and "\<not> snd op"
  shows "tm_step depacketize op ss = Inl Expect_None"
proof -
  obtain rid media nm where m: "row_event (fst op) = Rec_TrackMedia rid media" "im_get (tw_meta (fst ss)) rid = Some nm" "im_get (tw_writer (fst ss)) rid = None"
    using assms(2) by (auto simp: tm_creates_def split: session_record_event.splits)
  then show ?thesis using assms(1,3) by (cases nm; cases "pkt_meta media") (simp_all add: tm_step_def tw_push_def im_contains_def tw_create_def tm_admits_def)
qed

definition summary_ok :: "track_writer \<Rightarrow> session_summary \<Rightarrow> bool" where
  "summary_ok s sm \<longleftrightarrow> (\<forall>name track. im_get sm name = Some track \<longrightarrow> segments_ok (writing s name) (tsm_timeline track))
     \<and> (\<forall>name. writing s name \<longrightarrow> im_get sm name \<noteq> None)"

lemma tm_ok_summary: "tm_ok (s, sm) \<Longrightarrow> summary_ok s sm"
  unfolding summary_ok_def using tm_ok_track [of s sm] by (metis option.simps(4) option.simps(5) track_ok_def)

text \<open>
  C20. Segments. Of the rows of a session in which a track starts under an id and a name that no other started track
  has, no media is H264 and video payloads can be taken apart, the track writer handles all, or it panics at the
  first row for which it cannot create the file of a track (the name of the file contains the name the client gave the
  track). Up to there the summary lists for every name its segments: all but the last are closed, and the last is
  open exactly while a started track of this name is being written.
\<close>

theorem transmux_segments:
  assumes "admits_run (tm_admits depacketize) (tm_step depacketize) rows (tw_new prefix, [])"
  shows "(\<exists>s sm. rfold (tm_step depacketize) rows (tw_new prefix, []) = Inr (s, sm) \<and> summary_ok s sm)
    \<or> (\<exists>i s sm. i < length rows \<and> rfold (tm_step depacketize) (take i rows) (tw_new prefix, []) = Inr (s, sm) \<and> summary_ok s sm
        \<and> tm_creates (fst (rows ! i)) s \<and> \<not> snd (rows ! i) \<and> rfold (tm_step depacketize) rows (tw_new prefix, []) = Inl Expect_None)"
proof -
  let ?B = "\<lambda>op ss e. tm_creates (fst op) (fst ss) \<and> \<not> snd op \<and> e = Expect_None"
  have start: "tm_ok (tw_new prefix, [])" by (simp add: tm_ok_def tw_new_def track_ok_def writing_def)
  have step: "(\<exists>ss'. tm_step depacketize op ss = Inr ss' \<and> tm_ok ss') \<or> (\<exists>e. tm_step depacketize op ss = Inl e \<and> ?B op ss e)"
    if "tm_ok ss" "tm_admits depacketize op ss" for op ss
    using tm_step_ok [OF that] tm_step_no_file [OF that(2)] by blast
  from admits_run_outcome [of tm_ok, OF start assms step] show ?thesis
    by (auto dest: tm_ok_summary)
qed

definition demo_session :: "tm_op list" where
  "demo_session = [(\<lparr>row_ts = 1, row_event = Rec_TrackStarted 7 ''a'' default_audio\<rparr>, False), (\<lparr>row_ts = 5, row_event = Rec_TrackMedia 7 (build_audio 0 0 None [9])\<rparr>, True),
     (\<lparr>row_ts = 8, row_event = Rec_TrackStopped 7\<rparr>, False), (\<lparr>row_ts = 9, row_event = Rec_TrackStarted 7 ''a/b'' default_audio\<rparr>, False),
     (\<lparr>row_ts = 9, row_event = Rec_TrackMedia 7 (build_audio 0 0 None [9])\<rparr>, False)]"

theorem transmux_segments_witness:
  "(\<exists>s sm. rfold (tm_step (\<lambda>_ bs. Some bs)) demo_session (tw_new ''p'', []) = Inr (s, sm) \<and> summary_ok s sm)
    \<or> (\<exists>i s sm. i < length demo_session \<and> rfold (tm_step (\<lambda>_ bs. Some bs)) (take i demo_session) (tw_new ''p'', []) = Inr (s, sm) \<and> summary_ok s sm
        \<and> tm_creates (fst (demo_session ! i)) s \<and> \<not> snd (demo_session ! i) \<and> rfold (tm_step (\<lambda>_ bs. Some bs)) demo_session (tw_new ''p'', []) = Inl Expect_None)"
proof -
  have "admits_run (tm_admits (\<lambda>_ bs. Some bs)) (tm_step (\<lambda>_ bs. Some bs)) demo_session (tw_new ''p'', [])"
    by (simp add: demo_session_def tw_new_def tm_admits_def tm_step_def tw_push_def tw_media_def tw_create_def vw_push_media_def vw_new_def build_audio_def
      meta_is_audio_def rexpect_def im_contains_def im_get_def im_swap_remove_def)
  then show ?thesis by (rule transmux_segments)
qed

end
