(* ===== verification/Record_Compose.thy ===== *)
theory Record_Compose
  imports Record_Session Record_Convert Mixer_Buffer
begin

text \<open>
  Composing a recording into one file: \<^verbatim>\<open>packages/media_record/src/convert/composer.rs\<close> and
  \<^verbatim>\<open>composer/audio_mixer.rs\<close>. The composer reads all sessions of a room in the order of time, decodes and mixes
  their audio and writes the mix. (Video is only logged by \<^verbatim>\<open>composer/video_composer.rs\<close>.)

  The audio codec is a parameter with its states (\<open>opus_lib\<close>). The heap of sessions is the list of them, its top
  the first with the least next time. The reader of a session is that of \<open>Record_Session\<close>. The loop over the sessions
  is given a bound on its rounds, which the theorem shows to be enough when it exceeds the number of rows and sessions.
\<close>

section \<open>Mixing audio\<close>

record ('d, 'e) opus_lib =
  ol_decoder :: 'd
  ol_decode :: "bytes \<Rightarrow> 'd \<Rightarrow> 'd \<times> int list option"
  ol_encoder :: 'e
  ol_encode :: "int list \<Rightarrow> 'e \<Rightarrow> 'e \<times> bytes option"

record ('d, 'e) audio_composer =
  acm_tracks :: "(nat \<times> nat, 'd) imap"
  acm_mixer :: "(nat \<times> nat) mixer_buffer"
  acm_encoder :: 'e

definition acm_new :: "('d, 'e) opus_lib \<Rightarrow> ('d, 'e) audio_composer" where
  "acm_new lib = \<lparr>acm_tracks = [], acm_mixer = mb_new, acm_encoder = ol_encoder lib\<rparr>"

definition acm_add_track :: "('d, 'e) opus_lib \<Rightarrow> nat \<Rightarrow> nat \<Rightarrow> ('d, 'e) audio_composer \<Rightarrow> ('d, 'e) audio_composer" where
  "acm_add_track lib session_id rid m = m\<lparr>acm_tracks := im_insert (session_id, rid) (ol_decoder lib) (acm_tracks m)\<rparr>"

definition acm_remove_track :: "nat \<Rightarrow> nat \<Rightarrow> ('d, 'e) audio_composer \<Rightarrow> ('d, 'e) audio_composer" where
  "acm_remove_track session_id rid m = m\<lparr>acm_tracks := im_swap_remove (session_id, rid) (acm_tracks m)\<rparr>"

definition acm_encode :: "('d, 'e) opus_lib \<Rightarrow> nat \<times> int list \<Rightarrow> ('d, 'e) audio_composer \<Rightarrow> ('d, 'e) audio_composer \<times> (nat \<times> media_packet) option" where
  "acm_encode lib frame m = (case ol_encode lib (snd frame) (acm_encoder m) of (enc, data) \<Rightarrow>
     (m\<lparr>acm_encoder := enc\<rparr>, map_option (\<lambda>bs. (fst frame, build_audio 0 0 None bs)) data))"

definition acm_on_media :: "('d, 'e) opus_lib \<Rightarrow> nat \<Rightarrow> nat \<Rightarrow> nat \<Rightarrow> media_packet \<Rightarrow> ('d, 'e) audio_composer \<Rightarrow> (('d, 'e) audio_composer \<times> (nat \<times> media_packet) option) run" where
  "acm_on_media lib session_id rid ts media m =
     (if pkt_data media = [] then Inr (m, None)
      else case im_get (acm_tracks m) (session_id, rid) of None \<Rightarrow> Inr (m, None)
      | Some decoder \<Rightarrow> (case ol_decode lib (pkt_data media) decoder of (decoder', samples) \<Rightarrow>
          let m1 = m\<lparr>acm_tracks := im_insert (session_id, rid) decoder' (acm_tracks m)\<rparr> in
          case samples of None \<Rightarrow> Inr (m1, None)
          | Some data \<Rightarrow> rbind (mb_push ts (session_id, rid) data (acm_mixer m1)) (\<lambda>(mixer, frame).
              let m2 = m1\<lparr>acm_mixer := mixer\<rparr> in
              case frame of None \<Rightarrow> Inr (m2, None) | Some f \<Rightarrow> Inr (acm_encode lib f m2))))"

definition acm_force_pop :: "('d, 'e) opus_lib \<Rightarrow> ('d, 'e) audio_composer \<Rightarrow> ('d, 'e) audio_composer \<times> (nat \<times> media_packet) option" where
  "acm_force_pop lib m = (case mb_force_pop (acm_mixer m) of (mixer, frame) \<Rightarrow>
     let m1 = m\<lparr>acm_mixer := mixer\<rparr> in
     case frame of None \<Rightarrow> (m1, None) | Some f \<Rightarrow> acm_encode lib f m1)"

section \<open>The composer\<close>

record session_wrapper =
  sw_session :: session_reader
  sw_front_ts :: nat

definition sw_id :: "session_wrapper \<Rightarrow> nat" where
  "sw_id w = rsr_session_id (sw_session w)"

definition sw_pop :: "record_codec \<Rightarrow> (string \<Rightarrow> source option) \<Rightarrow> session_wrapper \<Rightarrow> (session_wrapper \<times> record_row option) run" where
  "sw_pop codec s3_get w = rbind (rsr_pop codec s3_get (sw_session w)) (\<lambda>(r, res). case res of
     None \<Rightarrow> Inr (w\<lparr>sw_session := r\<rparr>, None)
   | Some row \<Rightarrow> rbind (rsr_peek_ts codec s3_get r) (\<lambda>(r', ts).
       Inr (w\<lparr>sw_session := r', sw_front_ts := (case ts of Some t \<Rightarrow> t | None \<Rightarrow> row_ts row)\<rparr>, Some row)))"

record ('d, 'e) composer =
  rcp_audio :: bool
  rcp_video :: bool
  rcp_sessions :: "session_wrapper list"
  rcp_audio_mixer :: "('d, 'e) audio_composer option"
  rcp_track_writer :: "vpx_writer option"

datatype compose_error = Ce_Io | Ce_Create_File | Ce_Record_Empty

definition rcp_new :: "('d, 'e) opus_lib \<Rightarrow> bool \<Rightarrow> bool \<Rightarrow> ('d, 'e) composer run" where
  "rcp_new lib audio video = rbind (rassert (audio \<or> video)) (\<lambda>_. Inr \<lparr>rcp_audio = audio, rcp_video = video, rcp_sessions = [],
     rcp_audio_mixer = (if audio then Some (acm_new lib) else None), rcp_track_writer = None\<rparr>)"

text \<open>Opening the sessions of a room: one that is empty is left out.\<close>

definition rcp_open :: "record_codec \<Rightarrow> (string \<Rightarrow> string list option) \<Rightarrow> (string \<Rightarrow> source option) \<Rightarrow> nat \<times> string \<Rightarrow> ('d, 'e) composer \<Rightarrow> (compose_error + ('d, 'e) composer) run" where
  "rcp_open codec s3_list s3_get se c = (case rsr_connect s3_list (rsr_new (fst se) (snd se)) of
     (_, Inl _) \<Rightarrow> Inr (Inl Ce_Io)
   | (r, Inr _) \<Rightarrow> rbind (rsr_peek_ts codec s3_get r) (\<lambda>(r', peek). Inr (Inr (case peek of
        None \<Rightarrow> c
      | Some ts \<Rightarrow> c\<lparr>rcp_sessions := rcp_sessions c @ [\<lparr>sw_session = r', sw_front_ts = ts\<rparr>]\<rparr>))))"

definition rcp_write :: "(media_meta \<Rightarrow> bytes \<Rightarrow> bytes option) \<Rightarrow> bool \<Rightarrow> nat \<Rightarrow> media_packet \<Rightarrow> ('d, 'e) composer \<Rightarrow> (compose_error + ('d, 'e) composer) run" where
  "rcp_write depacketize create_ok ts pkt c = (case rcp_track_writer c of
     Some file \<Rightarrow> rbind (vw_push_media depacketize ts pkt file) (\<lambda>file'. Inr (Inr (c\<lparr>rcp_track_writer := Some file'\<rparr>)))
   | None \<Rightarrow> if \<not> create_ok then Inr (Inl Ce_Create_File)
       else rbind (vw_push_media depacketize ts pkt (vw_new ts)) (\<lambda>file'. Inr (Inr (c\<lparr>rcp_track_writer := Some file'\<rparr>))))"

definition rcp_media :: "('d, 'e) opus_lib \<Rightarrow> nat \<Rightarrow> nat \<Rightarrow> nat \<Rightarrow> media_packet \<Rightarrow> ('d, 'e) composer \<Rightarrow> (('d, 'e) composer \<times> (nat \<times> media_packet) option) run" where
  "rcp_media lib session_id rid ts media c = (case rcp_audio_mixer c of
     Some mixer \<Rightarrow> if meta_is_audio (pkt_meta media)
       then rbind (acm_on_media lib session_id rid ts media mixer) (\<lambda>(mixer', out). Inr (c\<lparr>rcp_audio_mixer := Some mixer'\<rparr>, out))
       else Inr (c, None)
   | None \<Rightarrow> Inr (c, None))"

text \<open>One row of a session.\<close>

definition rcp_on_row :: "('d, 'e) opus_lib \<Rightarrow> (media_meta \<Rightarrow> bytes \<Rightarrow> bytes option) \<Rightarrow> bool \<Rightarrow> nat \<times> record_row \<Rightarrow> ('d, 'e) composer \<Rightarrow> (compose_error + ('d, 'e) composer) run" where
  "rcp_on_row lib depacketize create_ok srow c = (case srow of (session_id, pkt) \<Rightarrow> (case row_event pkt of
     Rec_TrackStarted rid name meta \<Rightarrow>
       if \<not> rcp_audio c \<and> kind_is_audio (tm_kind meta) \<or> \<not> rcp_video c \<and> kind_is_video (tm_kind meta) then Inr (Inr c)
       else Inr (Inr (if kind_is_audio (tm_kind meta) then c\<lparr>rcp_audio_mixer := map_option (acm_add_track lib session_id rid) (rcp_audio_mixer c)\<rparr> else c))
   | Rec_TrackMedia rid media \<Rightarrow>
       if \<not> rcp_audio c \<and> meta_is_audio (pkt_meta media) \<or> \<not> rcp_video c \<and> meta_is_video (pkt_meta media) then Inr (Inr c)
       else rbind (rcp_media lib session_id rid (row_ts pkt) media c) (\<lambda>(c', out). case out of
         None \<Rightarrow> Inr (Inr c')
       | Some (ts, mpkt) \<Rightarrow> rcp_write depacketize create_ok ts mpkt c')
   | Rec_TrackStopped rid \<Rightarrow> Inr (Inr (c\<lparr>rcp_audio_mixer := map_option (acm_remove_track session_id rid) (rcp_audio_mixer c)\<rparr>))
   | _ \<Rightarrow> Inr (Inr c)))"

fun first_min :: "session_wrapper list \<Rightarrow> nat" where
  "first_min [] = 0"
| "first_min [w] = 0"
| "first_min (w # v # ws) = (let i = first_min (v # ws) in if sw_front_ts w \<le> sw_front_ts ((v # ws) ! i) then 0 else Suc i)"

definition remove_at :: "nat \<Rightarrow> 'a list \<Rightarrow> 'a list" where
  "remove_at i xs = take i xs @ drop (Suc i) xs"

fun rcp_loop :: "nat \<Rightarrow> record_codec \<Rightarrow> (string \<Rightarrow> source option) \<Rightarrow> (nat \<times> record_row \<Rightarrow> ('d, 'e) composer \<Rightarrow> (compose_error + ('d, 'e) composer) run)
    \<Rightarrow> ('d, 'e) composer \<Rightarrow> (compose_error + ('d, 'e) composer) run" where
  "rcp_loop 0 codec s3_get on_row c = Inl Loop_Unfinished"
| "rcp_loop (Suc n) codec s3_get on_row c =
     (if rcp_sessions c = [] then Inr (Inr c)
      else let i = first_min (rcp_sessions c) in
        rbind (sw_pop codec s3_get (rcp_sessions c ! i)) (\<lambda>(w, pkt).
          let c1 = c\<lparr>rcp_sessions := (rcp_sessions c)[i := w]\<rparr> in
          case pkt of
            Some row \<Rightarrow> rbind (on_row (sw_id w, row) c1) (\<lambda>res. case res of Inl e \<Rightarrow> Inr (Inl e) | Inr c2 \<Rightarrow> rcp_loop n codec s3_get on_row c2)
          | None \<Rightarrow> rcp_loop n codec s3_get on_row (c1\<lparr>rcp_sessions := remove_at (first_min (rcp_sessions c1)) (rcp_sessions c1)\<rparr>)))"

text \<open>What is left in the mixer at the end is written to the file, which is expected to exist.\<close>

lemma acm_force_pop_fewer:
  "acm_force_pop lib m = (m', Some x) \<Longrightarrow> length (mb_frames (acm_mixer m')) < length (mb_frames (acm_mixer m))"
  by (auto simp: acm_force_pop_def mb_force_pop_def acm_encode_def Let_def split: list.splits prod.splits)

function rcp_flush :: "('d, 'e) opus_lib \<Rightarrow> (media_meta \<Rightarrow> bytes \<Rightarrow> bytes option) \<Rightarrow> ('d, 'e) audio_composer \<Rightarrow> vpx_writer option \<Rightarrow> vpx_writer option run" where
  "rcp_flush lib depacketize mixer w = (case acm_force_pop lib mixer of (mixer', out) \<Rightarrow> (case out of
     None \<Rightarrow> Inr w
   | Some (ts, pkt) \<Rightarrow> (case w of None \<Rightarrow> Inl Expect_None
       | Some file \<Rightarrow> (case vw_push_media depacketize ts pkt file of Inl e \<Rightarrow> Inl e | Inr file' \<Rightarrow> rcp_flush lib depacketize mixer' (Some file')))))"
  by pat_completeness auto
termination
  by (relation "measure (\<lambda>(lib, depacketize, mixer, w). length (mb_frames (acm_mixer mixer)))") (auto dest: acm_force_pop_fewer [OF sym])

declare rcp_flush.simps [simp del]

definition rcp_finish :: "('d, 'e) opus_lib \<Rightarrow> (media_meta \<Rightarrow> bytes \<Rightarrow> bytes option) \<Rightarrow> ('d, 'e) composer \<Rightarrow> (compose_error + nat \<times> vpx_writer) run" where
  "rcp_finish lib depacketize c = rbind (case rcp_audio_mixer c of None \<Rightarrow> Inr (rcp_track_writer c) | Some m \<Rightarrow> rcp_flush lib depacketize m (rcp_track_writer c)) (\<lambda>w.
     Inr (case w of None \<Rightarrow> Inl Ce_Record_Empty | Some file \<Rightarrow> Inr (vw_duration file, file)))"

fun rcp_open_all :: "record_codec \<Rightarrow> (string \<Rightarrow> string list option) \<Rightarrow> (string \<Rightarrow> source option) \<Rightarrow> (nat \<times> string) list \<Rightarrow> ('d, 'e) composer \<Rightarrow> (compose_error + ('d, 'e) composer) run" where
  "rcp_open_all codec s3_list s3_get [] c = Inr (Inr c)"
| "rcp_open_all codec s3_list s3_get (se # rest) c = rbind (rcp_open codec s3_list s3_get se c) (\<lambda>res. case res of
     Inl e \<Rightarrow> Inr (Inl e) | Inr c' \<Rightarrow> rcp_open_all codec s3_list s3_get rest c')"

text \<open>\<^verbatim>\<open>compose\<close>, from the list of sessions that the object store gave to the finished file.\<close>

definition rcp_compose :: "nat \<Rightarrow> ('d, 'e) opus_lib \<Rightarrow> (media_meta \<Rightarrow> bytes \<Rightarrow> bytes option) \<Rightarrow> record_codec \<Rightarrow> (string \<Rightarrow> string list option) \<Rightarrow> (string \<Rightarrow> source option)
    \<Rightarrow> bool \<Rightarrow> (nat \<times> string) list \<Rightarrow> ('d, 'e) composer \<Rightarrow> (compose_error + nat \<times> vpx_writer) run" where
  "rcp_compose n lib depacketize codec s3_list s3_get create_ok ses c =
     rbind (rcp_open_all codec s3_list s3_get ses c) (\<lambda>res. case res of Inl e \<Rightarrow> Inr (Inl e)
     | Inr c1 \<Rightarrow> rbind (rcp_loop n codec s3_get (rcp_on_row lib depacketize create_ok) c1) (\<lambda>res. case res of Inl e \<Rightarrow> Inr (Inl e)
       | Inr c2 \<Rightarrow> rcp_finish lib depacketize c2))"

section \<open>What a reader delivers\<close>

definition rsr_fresh :: "record_codec \<Rightarrow> (string \<Rightarrow> source option) \<Rightarrow> record_row list \<Rightarrow> session_reader \<Rightarrow> bool" where
  "rsr_fresh codec s3_get rows r \<longleftrightarrow> (\<exists>cur rest. rsr_at codec s3_get cur rest r \<and> (\<forall>kr \<in> set rest. snd kr \<noteq> [])
     \<and> cur_rows cur @ concat (map snd rest) = rows \<and> (\<forall>row \<in> set rows. good_row codec row))"

text \<open>A reader that will answer exactly \<open>rows\<close>: the next row may have been peeked at.\<close>

definition delivers :: "record_codec \<Rightarrow> (string \<Rightarrow> source option) \<Rightarrow> record_row list \<Rightarrow> session_reader \<Rightarrow> bool" where
  "delivers codec s3_get rows r \<longleftrightarrow> rsr_fresh codec s3_get rows r
     \<or> (\<exists>c row rows'. rows = row # rows' \<and> rsr_current r = Some c \<and> rcr_peek c = Some row
          \<and> rsr_fresh codec s3_get rows' (r\<lparr>rsr_current := Some (c\<lparr>rcr_peek := None\<rparr>)\<rparr>))"

lemma rsr_pop_open:
  assumes "rsr_next_chunk codec s3_get r = Inr (r', True)" and "rsr_current r' \<noteq> None"
  shows "rsr_pop codec s3_get r = rsr_pop codec s3_get r'" "rsr_peek_ts codec s3_get r = rsr_peek_ts codec s3_get r'"
proof -
  have n: "rsr_next_chunk codec s3_get r' = Inr (r', True)" using assms(2) by (auto simp: rsr_next_chunk_def)
  show "rsr_pop codec s3_get r = rsr_pop codec s3_get r'" using assms(1) n by (subst (1 2) rsr_pop.simps) simp
  show "rsr_peek_ts codec s3_get r = rsr_peek_ts codec s3_get r'" using assms(1) n by (subst (1 2) rsr_peek_ts.simps) simp
qed

lemma rsr_pop_close:
  assumes "rsr_at codec s3_get (Some []) rest r"
  shows "rsr_pop codec s3_get r = rsr_pop codec s3_get (r\<lparr>rsr_current := None\<rparr>)" "rsr_peek_ts codec s3_get r = rsr_peek_ts codec s3_get (r\<lparr>rsr_current := None\<rparr>)"
    "rsr_at codec s3_get None rest (r\<lparr>rsr_current := None\<rparr>)"
proof -
  obtain c where c: "rsr_current r = Some c" "reader_at codec [] c" using assms by (auto simp: rsr_at_def option_rel_Some1)
  obtain c' where c': "rcr_pop codec c = Inr (c', Inr None)" using rcr_pop_end [OF c(2)] by blast
  have p: "rcr_peek c = None" using c(2) by (simp add: reader_at_def)
  show "rsr_pop codec s3_get r = rsr_pop codec s3_get (r\<lparr>rsr_current := None\<rparr>)"
    using c c' by (subst rsr_pop.simps) (simp add: rsr_next_chunk_def)
  show "rsr_peek_ts codec s3_get r = rsr_peek_ts codec s3_get (r\<lparr>rsr_current := None\<rparr>)"
    using c c' p by (subst rsr_peek_ts.simps) (simp add: rsr_next_chunk_def rcr_peek_ts_def)
  show "rsr_at codec s3_get None rest (r\<lparr>rsr_current := None\<rparr>)" using assms by (simp add: rsr_at_def)
qed

lemma rsr_next_chunk_id: "rsr_next_chunk codec s3_get r = Inr (r', b) \<Longrightarrow> rsr_session_id r' = rsr_session_id r"
  by (auto simp: rsr_next_chunk_def Let_def rbind_eq_Inr not_ok_error split: option.splits if_splits sum.splits)

text \<open>Reader \<open>q\<close> answers like \<open>r\<close> and stands before \<open>row\<close> in an open chunk.\<close>

lemma rsr_settle:
  assumes "rsr_fresh codec s3_get (row # rows) r"
  shows "\<exists>q xs rest. rsr_at codec s3_get (Some (row # xs)) rest q \<and> (\<forall>kr \<in> set rest. snd kr \<noteq> []) \<and> xs @ concat (map snd rest) = rows
    \<and> rsr_session_id q = rsr_session_id r \<and> rsr_pop codec s3_get r = rsr_pop codec s3_get q \<and> rsr_peek_ts codec s3_get r = rsr_peek_ts codec s3_get q"
proof -
  obtain cur rest where f: "rsr_at codec s3_get cur rest r" "\<forall>kr \<in> set rest. snd kr \<noteq> []" "cur_rows cur @ concat (map snd rest) = row # rows"
    using assms by (auto simp: rsr_fresh_def)
  have opened: ?thesis if at: "rsr_at codec s3_get None rest q0" and sid: "rsr_session_id q0 = rsr_session_id r" and e: "cur_rows cur = []"
      and eq: "rsr_pop codec s3_get r = rsr_pop codec s3_get q0" "rsr_peek_ts codec s3_get r = rsr_peek_ts codec s3_get q0" for q0
  proof -
    obtain key krows rest' where rest: "rest = (key, krows) # rest'" using f(3) e by (cases rest) auto
    obtain xs where k: "krows = row # xs" using f(2,3) e rest by (cases krows) auto
    obtain q where q: "rsr_next_chunk codec s3_get q0 = Inr (q, True)" "rsr_at codec s3_get (Some krows) rest' q" using rsr_next_at at rest by blast
    have "rsr_current q \<noteq> None" using q(2) by (auto simp: rsr_at_def option_rel_Some1)
    from rsr_pop_open [OF q(1) this] show ?thesis using q k f e rest eq sid rsr_next_chunk_id [OF q(1)] by (intro exI [of _ q] exI [of _ xs] exI [of _ rest']) simp
  qed
  show ?thesis
  proof (cases cur)
    case None
    then show ?thesis using opened [of r] f(1) by (simp add: cur_rows_def)
  next
    case (Some ys)
    show ?thesis
    proof (cases ys)
      case Nil
      then show ?thesis using opened [of "r\<lparr>rsr_current := None\<rparr>"] rsr_pop_close [of codec s3_get rest r] f(1) Some by (simp add: cur_rows_def)
    next
      case (Cons y xs)
      then have "y = row" "xs @ concat (map snd rest) = rows" using f(3) Some by (auto simp: cur_rows_def)
      then show ?thesis using f(1,2) Some Cons by (intro exI [of _ r] exI [of _ xs] exI [of _ rest]) simp
    qed
  qed
qed

lemma delivers_pop:
  assumes "delivers codec s3_get (row # rows) r"
  shows "\<exists>r'. rsr_pop codec s3_get r = Inr (r', Some row) \<and> delivers codec s3_get rows r' \<and> rsr_session_id r' = rsr_session_id r"
proof (cases "rsr_fresh codec s3_get (row # rows) r")
  case True
  obtain q xs rest where q: "rsr_at codec s3_get (Some (row # xs)) rest q" "\<forall>kr \<in> set rest. snd kr \<noteq> []" "xs @ concat (map snd rest) = rows"
      "rsr_session_id q = rsr_session_id r" "rsr_pop codec s3_get r = rsr_pop codec s3_get q"
    using rsr_settle [OF True] by blast
  have good: "\<forall>x \<in> set (row # rows). good_row codec x" using True by (auto simp: rsr_fresh_def)
  obtain c where c: "rsr_current q = Some c" "reader_at codec (row # xs) c" using q(1) by (auto simp: rsr_at_def option_rel_Some1)
  obtain c' where c': "rcr_pop codec c = Inr (c', Inr (Some row))" "reader_at codec xs c'" using rcr_pop_row [OF _ c(2)] good by auto
  have "rsr_pop codec s3_get q = Inr (q\<lparr>rsr_current := Some c'\<rparr>, Some row)" using c c' by (subst rsr_pop.simps) (simp add: rsr_next_chunk_def)
  moreover have "rsr_fresh codec s3_get rows (q\<lparr>rsr_current := Some c'\<rparr>)"
    using q(1-3) c' good unfolding rsr_fresh_def by (intro exI [of _ "Some xs"] exI [of _ rest]) (simp add: rsr_at_def cur_rows_def)
  ultimately show ?thesis using q(4,5) by (simp add: delivers_def)
next
  case False
  then obtain c where c: "rsr_current r = Some c" "rcr_peek c = Some row" "rsr_fresh codec s3_get rows (r\<lparr>rsr_current := Some (c\<lparr>rcr_peek := None\<rparr>)\<rparr>)"
    using assms by (auto simp: delivers_def)
  then show ?thesis by (subst rsr_pop.simps) (simp add: rsr_next_chunk_def rcr_pop_def delivers_def)
qed

lemma delivers_Nil:
  assumes "delivers codec s3_get [] r"
  shows "rsr_at codec s3_get None [] r \<or> rsr_at codec s3_get (Some []) [] r"
proof -
  obtain cur rest where f: "rsr_at codec s3_get cur rest r" "\<forall>kr \<in> set rest. snd kr \<noteq> []" "cur_rows cur @ concat (map snd rest) = []"
    using assms by (auto simp: delivers_def rsr_fresh_def)
  have "rest = []" using f(2,3) by (cases rest) auto
  then show ?thesis using f(1,3) by (cases cur) (auto simp: cur_rows_def)
qed

lemma rsr_at_end:
  assumes "rsr_at codec s3_get None [] r"
  shows "rsr_pop codec s3_get r = Inr (r, None)" "rsr_peek_ts codec s3_get r = Inr (r, None)" "delivers codec s3_get [] r"
proof -
  show "rsr_pop codec s3_get r = Inr (r, None)" using assms by (subst rsr_pop.simps) (simp add: rsr_next_chunk_def rsr_at_def)
  show "rsr_peek_ts codec s3_get r = Inr (r, None)" using assms by (subst rsr_peek_ts.simps) (simp add: rsr_next_chunk_def rsr_at_def)
  show "delivers codec s3_get [] r" using assms unfolding delivers_def rsr_fresh_def
    by (intro disjI1 exI [of _ None] exI [of _ "[]"]) (simp add: cur_rows_def)
qed

lemma delivers_end:
  assumes "delivers codec s3_get [] r"
  shows "\<exists>r'. rsr_pop codec s3_get r = Inr (r', None) \<and> rsr_peek_ts codec s3_get r = Inr (r', None) \<and> delivers codec s3_get [] r' \<and> rsr_session_id r' = rsr_session_id r"
  using delivers_Nil [OF assms]
proof
  assume "rsr_at codec s3_get None [] r"
  then show ?thesis using rsr_at_end by blast
next
  assume a: "rsr_at codec s3_get (Some []) [] r"
  show ?thesis using rsr_pop_close [OF a] rsr_at_end [OF rsr_pop_close(3) [OF a]] by simp
qed

lemma delivers_peek:
  assumes "delivers codec s3_get rows r"
  shows "\<exists>r'. rsr_peek_ts codec s3_get r = Inr (r', (case rows of [] \<Rightarrow> None | row # _ \<Rightarrow> Some (row_ts row))) \<and> delivers codec s3_get rows r' \<and> rsr_session_id r' = rsr_session_id r"
proof (cases rows)
  case Nil
  then show ?thesis using delivers_end assms by (metis list.simps(4))
next
  case (Cons row rows')
  show ?thesis
  proof (cases "rsr_fresh codec s3_get (row # rows') r")
    case True
    obtain q xs rest where q: "rsr_at codec s3_get (Some (row # xs)) rest q" "\<forall>kr \<in> set rest. snd kr \<noteq> []" "xs @ concat (map snd rest) = rows'"
        "rsr_session_id q = rsr_session_id r" "rsr_peek_ts codec s3_get r = rsr_peek_ts codec s3_get q"
      using rsr_settle [OF True] by blast
    have good: "\<forall>x \<in> set (row # rows'). good_row codec x" using True by (auto simp: rsr_fresh_def)
    obtain c where c: "rsr_current q = Some c" "reader_at codec (row # xs) c" using q(1) by (auto simp: rsr_at_def option_rel_Some1)
    obtain c' where c': "rcr_pop codec c = Inr (c', Inr (Some row))" "reader_at codec xs c'" using rcr_pop_row [OF _ c(2)] good by auto
    have p: "rcr_peek c = None" "c'\<lparr>rcr_peek := None\<rparr> = c'" using c(2) c'(2) by (simp_all add: reader_at_def)
    have "rsr_peek_ts codec s3_get q = Inr (q\<lparr>rsr_current := Some (c'\<lparr>rcr_peek := Some row\<rparr>)\<rparr>, Some (row_ts row))"
      using c c' p(1) by (subst rsr_peek_ts.simps) (simp add: rsr_next_chunk_def rcr_peek_ts_def)
    moreover have "rsr_fresh codec s3_get rows' (q\<lparr>rsr_current := Some c'\<rparr>)"
      using q(1-3) c' good unfolding rsr_fresh_def by (intro exI [of _ "Some xs"] exI [of _ rest]) (simp add: rsr_at_def cur_rows_def)
    ultimately show ?thesis using q(4,5) Cons p(2) by (simp add: delivers_def)
  next
    case False
    then obtain c where c: "rsr_current r = Some c" "rcr_peek c = Some row" using assms Cons by (auto simp: delivers_def)
    have "r\<lparr>rsr_current := Some c\<rparr> = r" using c(1) by simp
    then have "rsr_peek_ts codec s3_get r = Inr (r, Some (row_ts row))"
      using c by (subst rsr_peek_ts.simps) (simp add: rsr_next_chunk_def rcr_peek_ts_def)
    then show ?thesis using assms Cons by simp
  qed
qed

section \<open>The order of the rows\<close>

text \<open>The specification: sessions as their number, the time under which they are in the heap and the rows
  that are left; the rows of all of them in the order in which the composer takes them.\<close>

type_synonym open_session = "nat \<times> nat \<times> record_row list"

fun min_at :: "nat list \<Rightarrow> nat" where
  "min_at [] = 0"
| "min_at [x] = 0"
| "min_at (x # y # xs) = (let i = min_at (y # xs) in if x \<le> (y # xs) ! i then 0 else Suc i)"

definition next_front :: "record_row \<Rightarrow> record_row list \<Rightarrow> nat" where
  "next_front r rs = (case rs of [] \<Rightarrow> row_ts r | x # _ \<Rightarrow> row_ts x)"

fun taken :: "nat \<Rightarrow> open_session list \<Rightarrow> (nat \<times> record_row) list" where
  "taken 0 ss = []"
| "taken (Suc n) ss = (if ss = [] then [] else let i = min_at (map (fst \<circ> snd) ss) in
     case ss ! i of (sid, front, rows) \<Rightarrow> (case rows of
       [] \<Rightarrow> taken n (remove_at i ss)
     | r # rs \<Rightarrow> (sid, r) # taken n (ss[i := (sid, next_front r rs, rs)])))"

definition work :: "open_session list \<Rightarrow> nat" where
  "work ss = (\<Sum>(sid, front, rows) \<leftarrow> ss. Suc (length rows))"

lemma min_at_least: "xs \<noteq> [] \<Longrightarrow> min_at xs < length xs \<and> (\<forall>j < length xs. xs ! min_at xs \<le> xs ! j)"
proof (induction xs rule: min_at.induct)
  case (3 x y xs)
  then show ?case by (auto simp: Let_def nth_Cons less_Suc_eq_0_disj split: nat.split)
qed auto

lemma first_min_fronts: "first_min ws = min_at (map sw_front_ts ws)"
proof (induction ws rule: first_min.induct)
  case (3 w v ws)
  have "min_at (map sw_front_ts (v # ws)) < length (v # ws)" using min_at_least [of "map sw_front_ts (v # ws)"] by simp
  then have "map sw_front_ts (v # ws) ! min_at (map sw_front_ts (v # ws)) = sw_front_ts ((v # ws) ! min_at (map sw_front_ts (v # ws)))" by (rule nth_map)
  then show ?case using 3 by (simp add: Let_def)
qed auto

lemma mset_remove_at: "i < length xs \<Longrightarrow> mset xs = add_mset (xs ! i) (mset (remove_at i xs))"
  by (metis remove_at_def id_take_nth_drop mset.simps(2) mset_append union_mset_add_mset_right)

lemma length_remove_at: "i < length xs \<Longrightarrow> length (remove_at i xs) = length xs - 1"
  by (simp add: remove_at_def)

lemma work_split: "i < length ss \<Longrightarrow> work ss = Suc (length (snd (snd (ss ! i)))) + work (remove_at i ss)"
  unfolding work_def sum_mset_sum_list [symmetric] mset_map by (subst mset_remove_at) (auto simp: case_prod_beta)

lemma remove_at_update [simp]: "remove_at i (xs[i := y]) = remove_at i xs"
  by (simp add: remove_at_def)

lemma work_update: "i < length ss \<Longrightarrow> work (ss[i := (sid, front, rows)]) = Suc (length rows) + work (remove_at i ss)"
  using work_split [of i "ss[i := (sid, front, rows)]"] by simp

text \<open>An induction that follows \<^const>\<open>taken\<close>.\<close>

lemma taken_cases [case_names finished closed row]:
  assumes "work ss < n"
  obtains "ss = []" "taken n ss = []"
  | m i sid front where "n = Suc m" "i = min_at (map (fst \<circ> snd) ss)" "i < length ss" "ss ! i = (sid, front, [])" "taken n ss = taken m (remove_at i ss)" "work (remove_at i ss) < m"
  | m i sid front r rs where "n = Suc m" "i = min_at (map (fst \<circ> snd) ss)" "i < length ss" "ss ! i = (sid, front, r # rs)"
      "taken n ss = (sid, r) # taken m (ss[i := (sid, next_front r rs, rs)])" "work (ss[i := (sid, next_front r rs, rs)]) < m"
proof (cases "ss = []")
  case True
  then show ?thesis using that(1) by (cases n) auto
next
  case False
  obtain m where m: "n = Suc m" using assms by (cases n) auto
  let ?i = "min_at (map (fst \<circ> snd) ss)"
  have i: "?i < length ss" using min_at_least [of "map (fst \<circ> snd) ss"] False by simp
  obtain sid front rows where s: "ss ! ?i = (sid, front, rows)" by (cases "ss ! ?i") auto
  show ?thesis
  proof (cases rows)
    case Nil
    then show ?thesis using that(2) [of m ?i sid front] m i s False work_split [OF i] assms by simp
  next
    case (Cons r rs)
    then show ?thesis using that(3) [of m ?i sid front r rs] m i s False work_split [OF i] work_update [OF i] assms by simp
  qed
qed

lemma set_remove_at: "i < length xs \<Longrightarrow> set xs = insert (xs ! i) (set (remove_at i xs))"
  using mset_remove_at [of i xs] by (metis set_mset_add_mset_insert set_mset_mset)

lemma distinct_remove_at:
  assumes "distinct (map f xs)" and "i < length xs"
  shows "distinct (map f (remove_at i xs))" "f (xs ! i) \<notin> f ` set (remove_at i xs)"
proof -
  have "mset (map f xs) = mset (f (xs ! i) # map f (remove_at i xs))" using mset_remove_at [OF assms(2)] by simp
  then have "distinct (f (xs ! i) # map f (remove_at i xs))" using assms(1) mset_eq_imp_distinct_iff by blast
  then show "distinct (map f (remove_at i xs))" "f (xs ! i) \<notin> f ` set (remove_at i xs)" by simp_all
qed

lemma taken_mset: "work ss < n \<Longrightarrow> mset (taken n ss) = (\<Sum>(sid, front, rows) \<in># mset ss. mset (map (Pair sid) rows))"
proof (induction n arbitrary: ss)
  case (Suc n)
  from Suc.prems show ?case
  proof (cases rule: taken_cases)
    case (closed m i sid front)
    then show ?thesis using Suc.IH mset_remove_at [OF closed(3)] by simp
  next
    case (row m i sid front r rs)
    have "mset (ss[i := (sid, next_front r rs, rs)]) = add_mset (sid, next_front r rs, rs) (mset (remove_at i ss))"
      using mset_remove_at [of i "ss[i := (sid, next_front r rs, rs)]"] row(3) by simp
    then show ?thesis using Suc.IH row mset_remove_at [OF row(3)] by simp
  qed simp
qed simp

lemma taken_ids: "work ss < n \<Longrightarrow> fst ` set (taken n ss) \<subseteq> fst ` set ss"
proof -
  assume "work ss < n"
  then have "set (taken n ss) = (\<Union>(sid, front, rows) \<in> set ss. Pair sid ` set rows)"
    using arg_cong [OF taken_mset, of ss n set_mset] by (simp add: case_prod_beta)
  then show ?thesis by force
qed

lemma taken_keeps_order:
  "work ss < n \<Longrightarrow> distinct (map fst ss) \<Longrightarrow> (sid, front, rows) \<in> set ss \<Longrightarrow> map snd (filter (\<lambda>x. fst x = sid) (taken n ss)) = rows"
proof (induction n arbitrary: ss front rows)
  case (Suc n)
  from Suc.prems(1) show ?case
  proof (cases rule: taken_cases)
    case (closed m i sid' front')
    have d: "distinct (map fst (remove_at i ss))" "sid' \<notin> fst ` set (remove_at i ss)"
      using distinct_remove_at [OF Suc.prems(2) closed(3)] closed(4) by simp_all
    show ?thesis
    proof (cases "sid = sid'")
      case True
      then have "rows = []" using Suc.prems(2,3) closed(3,4) by (metis distinct_map fst_conv inj_onD nth_mem snd_conv)
      moreover have "filter (\<lambda>x. fst x = sid) (taken m (remove_at i ss)) = []" using taken_ids [of "remove_at i ss" m] closed d True by (auto simp: filter_empty_conv)
      ultimately show ?thesis using closed by simp
    next
      case False
      then have "(sid, front, rows) \<in> set (remove_at i ss)" using Suc.prems(3) set_remove_at [OF closed(3)] closed(4) by auto
      then show ?thesis using Suc.IH [of "remove_at i ss"] closed d by simp
    qed
  next
    case (row m i sid' front' r rs)
    let ?ss = "ss[i := (sid', next_front r rs, rs)]"
    have f: "map fst ?ss = map fst ss" using row(3,4) by (metis fst_conv list_update_id map_update nth_map)
    then have d: "distinct (map fst ?ss)" using Suc.prems(2) by simp
    show ?thesis
    proof (cases "sid = sid'")
      case True
      then have "rows = r # rs" using Suc.prems(2,3) row(3,4) by (metis distinct_map fst_conv inj_onD nth_mem snd_conv)
      moreover have "(sid, next_front r rs, rs) \<in> set ?ss" using True row(3) by (simp add: set_update_memI)
      ultimately show ?thesis using Suc.IH [of ?ss] row d True by simp
    next
      case False
      then have "(sid, front, rows) \<in> set ?ss" using Suc.prems(3) set_remove_at [OF row(3)] set_remove_at [of i ?ss] row(3,4) by auto
      then show ?thesis using Suc.IH [of ?ss] row d False by simp
    qed
  qed (use Suc.prems in simp)
qed simp

definition timed :: "open_session \<Rightarrow> bool" where
  "timed os \<longleftrightarrow> (case os of (sid, front, rows) \<Rightarrow> sorted (map row_ts rows) \<and> (rows \<noteq> [] \<longrightarrow> front = row_ts (hd rows)))"

lemma timed_front: "timed (sid, front, rows) \<Longrightarrow> r \<in> set rows \<Longrightarrow> front \<le> row_ts r"
  by (cases rows) (auto simp: timed_def)

lemma taken_sorted: "work ss < n \<Longrightarrow> \<forall>os \<in> set ss. timed os \<Longrightarrow> sorted (map (row_ts \<circ> snd) (taken n ss))"
proof (induction n arbitrary: ss)
  case (Suc n)
  from Suc.prems(1) show ?case
  proof (cases rule: taken_cases)
    case (closed m i sid front)
    then show ?thesis using Suc.IH [of "remove_at i ss"] Suc.prems(2) set_remove_at [OF closed(3)] by simp
  next
    case (row m i sid front r rs)
    let ?ss = "ss[i := (sid, next_front r rs, rs)]"
    have t: "timed (sid, front, r # rs)" using Suc.prems(2) row(3,4) nth_mem by metis
    have t': "timed (sid, next_front r rs, rs)" using t by (auto simp: timed_def next_front_def split: list.split)
    have all: "\<forall>os \<in> set ?ss. timed os" using Suc.prems(2) t' by (blast dest: set_update_subset_insert [THEN subsetD])
    have "row_ts r \<le> row_ts x" if "(k, x) \<in> set (taken m ?ss)" for k x
    proof -
      have "(k, x) \<in># (\<Sum>(sid, front, rows) \<in># mset ?ss. mset (map (Pair sid) rows))" using that taken_mset [OF row(6)] by (metis set_mset_mset)
      then obtain f rows where k: "(k, f, rows) \<in> set ?ss" "x \<in> set rows" by auto
      show ?thesis
      proof (cases "(k, f, rows) = (sid, next_front r rs, rs)")
        case True
        then show ?thesis using t k(2) by (auto simp: timed_def)
      next
        case False
        then have "(k, f, rows) \<in> set ss" using k(1) by (blast dest: set_update_subset_insert [THEN subsetD])
        then obtain j where j: "j < length ss" "ss ! j = (k, f, rows)" by (meson in_set_conv_nth)
        then have "ss \<noteq> []" by auto
        then have "fst (snd (ss ! i)) \<le> fst (snd (ss ! j))" using min_at_least [of "map (fst \<circ> snd) ss"] j(1) row(2,3) by simp
        then have "row_ts r \<le> f" using j(2) row(4) t by (simp add: timed_def)
        then show ?thesis using timed_front k(2) Suc.prems(2) \<open>(k, f, rows) \<in> set ss\<close> by (meson order.trans)
      qed
    qed
    then show ?thesis using Suc.IH [of ?ss] row(1,6) all row(5) by (auto simp del: taken.simps)
  qed simp
qed simp

section \<open>The loop takes the rows in this order\<close>

fun rcp_rows :: "(nat \<times> record_row \<Rightarrow> 'c \<Rightarrow> (compose_error + 'c) run) \<Rightarrow> (nat \<times> record_row) list \<Rightarrow> 'c \<Rightarrow> (compose_error + 'c) run" where
  "rcp_rows on_row [] c = Inr (Inr c)"
| "rcp_rows on_row (x # xs) c = rbind (on_row x c) (\<lambda>res. case res of Inl e \<Rightarrow> Inr (Inl e) | Inr c' \<Rightarrow> rcp_rows on_row xs c')"

definition map_res :: "('c \<Rightarrow> 'c) \<Rightarrow> (compose_error + 'c) run \<Rightarrow> (compose_error + 'c) run" where
  "map_res f m = rbind m (\<lambda>res. Inr (case res of Inl e \<Rightarrow> Inl e | Inr c \<Rightarrow> Inr (f c)))"

text \<open>Handling a row does not touch the sessions.\<close>

lemma rcp_on_row_sessions:
  "rcp_on_row lib depacketize create_ok x (c\<lparr>rcp_sessions := ss\<rparr>) = map_res (\<lambda>c'. c'\<lparr>rcp_sessions := ss\<rparr>) (rcp_on_row lib depacketize create_ok x c)"
proof -
  obtain sid pkt where x: "x = (sid, pkt)" by (cases x)
  have w: "rcp_write depacketize create_ok ts p (c\<lparr>rcp_sessions := ss\<rparr>) = map_res (\<lambda>c'. c'\<lparr>rcp_sessions := ss\<rparr>) (rcp_write depacketize create_ok ts p c)" for ts p and c :: "('a, 'b) composer"
    by (auto simp: rcp_write_def map_res_def rbind_def split: option.split sum.split)
  have m: "rcp_media lib sid rid ts p (c\<lparr>rcp_sessions := ss\<rparr>) = rbind (rcp_media lib sid rid ts p c) (\<lambda>(c', out). Inr (c'\<lparr>rcp_sessions := ss\<rparr>, out))" for rid ts p
    by (auto simp: rcp_media_def rbind_def split: option.split sum.split prod.split)
  show ?thesis
    by (cases "row_event pkt") (auto simp: x rcp_on_row_def m w map_res_def rbind_assoc case_prod_beta split: option.split intro!: rbind_cong)
qed

definition holds_session :: "record_codec \<Rightarrow> (string \<Rightarrow> source option) \<Rightarrow> session_wrapper \<Rightarrow> open_session \<Rightarrow> bool" where
  "holds_session codec s3_get w os \<longleftrightarrow> (case os of (sid, front, rows) \<Rightarrow> sw_id w = sid \<and> sw_front_ts w = front \<and> delivers codec s3_get rows (sw_session w))"

lemma sw_pop_Nil:
  assumes "holds_session codec s3_get w (sid, front, [])"
  shows "\<exists>w'. sw_pop codec s3_get w = Inr (w', None) \<and> sw_front_ts w' = front"
  using delivers_end [of codec s3_get "sw_session w"] assms by (auto simp: sw_pop_def holds_session_def)

lemma sw_pop_Cons:
  assumes "holds_session codec s3_get w (sid, front, r # rs)"
  shows "\<exists>w'. sw_pop codec s3_get w = Inr (w', Some r) \<and> holds_session codec s3_get w' (sid, next_front r rs, rs)"
proof -
  obtain r1 where r1: "rsr_pop codec s3_get (sw_session w) = Inr (r1, Some r)" "delivers codec s3_get rs r1" "rsr_session_id r1 = rsr_session_id (sw_session w)"
    using delivers_pop [of codec s3_get r rs "sw_session w"] assms by (auto simp: holds_session_def)
  obtain r2 where r2: "rsr_peek_ts codec s3_get r1 = Inr (r2, (case rs of [] \<Rightarrow> None | row # _ \<Rightarrow> Some (row_ts row)))" "delivers codec s3_get rs r2" "rsr_session_id r2 = rsr_session_id r1"
    using delivers_peek [OF r1(2)] by blast
  show ?thesis using assms r1 r2 by (cases rs) (auto simp: sw_pop_def holds_session_def sw_id_def next_front_def)
qed

lemma list_all2_remove_at: "list_all2 P xs ys \<Longrightarrow> i < length xs \<Longrightarrow> list_all2 P (remove_at i xs) (remove_at i ys)"
  by (simp add: remove_at_def list_all2_takeI list_all2_dropI list_all2_appendI)

lemma rcp_loop_taken:
  assumes on_row: "\<And>x c ss. on_row x (c\<lparr>rcp_sessions := ss\<rparr>) = map_res (\<lambda>c'. c'\<lparr>rcp_sessions := ss\<rparr>) (on_row x c)"
  shows "list_all2 (holds_session codec s3_get) (rcp_sessions c) ss \<Longrightarrow> work ss < n \<Longrightarrow>
    rcp_loop n codec s3_get on_row c = rcp_rows on_row (taken n ss) (c\<lparr>rcp_sessions := []\<rparr>)"
proof (induction n arbitrary: c ss)
  case (Suc n)
  have fm: "first_min (rcp_sessions c) = min_at (map (fst \<circ> snd) ss)"
  proof -
    have "map sw_front_ts (rcp_sessions c) = map (fst \<circ> snd) ss"
      using Suc.prems(1) by (induction rule: list_all2_induct) (auto simp: holds_session_def)
    then show ?thesis by (simp add: first_min_fronts)
  qed
  from Suc.prems(2) show ?case
  proof (cases rule: taken_cases)
    case finished
    then have "rcp_sessions c = []" using Suc.prems(1) by simp
    then show ?thesis using finished by (cases c) simp
  next
    case (closed m i sid front)
    have len: "i < length (rcp_sessions c)" "rcp_sessions c \<noteq> []" using Suc.prems(1) closed(3) by (auto simp: list_all2_lengthD)
    have h: "holds_session codec s3_get (rcp_sessions c ! i) (sid, front, [])" using list_all2_nthD2 [OF Suc.prems(1) closed(3)] closed(4) by simp
    obtain w where w: "sw_pop codec s3_get (rcp_sessions c ! i) = Inr (w, None)" "sw_front_ts w = front" using sw_pop_Nil [OF h] by blast
    have "sw_front_ts (rcp_sessions c ! i) = front" using h by (simp add: holds_session_def)
    then have "map sw_front_ts ((rcp_sessions c)[i := w]) = map sw_front_ts (rcp_sessions c)" using w(2) len by (metis list_update_id map_update nth_map)
    then have "first_min ((rcp_sessions c)[i := w]) = i" using fm closed(2) by (simp add: first_min_fronts)
    then have "rcp_loop (Suc n) codec s3_get on_row c = rcp_loop n codec s3_get on_row (c\<lparr>rcp_sessions := remove_at i (rcp_sessions c)\<rparr>)"
      using len w fm closed(2) by (simp add: Let_def)
    also have "\<dots> = rcp_rows on_row (taken n (remove_at i ss)) (c\<lparr>rcp_sessions := []\<rparr>)"
      using Suc.IH [of "c\<lparr>rcp_sessions := remove_at i (rcp_sessions c)\<rparr>" "remove_at i ss"] list_all2_remove_at [OF Suc.prems(1) len(1)] closed(1,6) by simp
    finally show ?thesis using closed(1,5) by simp
  next
    case (row m i sid front r rs)
    have len: "i < length (rcp_sessions c)" "rcp_sessions c \<noteq> []" using Suc.prems(1) row(3) by (auto simp: list_all2_lengthD)
    have h: "holds_session codec s3_get (rcp_sessions c ! i) (sid, front, r # rs)" using list_all2_nthD2 [OF Suc.prems(1) row(3)] row(4) by simp
    obtain w where w: "sw_pop codec s3_get (rcp_sessions c ! i) = Inr (w, Some r)" "holds_session codec s3_get w (sid, next_front r rs, rs)" using sw_pop_Cons [OF h] by blast
    let ?ws = "(rcp_sessions c)[i := w]" and ?ss = "ss[i := (sid, next_front r rs, rs)]"
    have all: "list_all2 (holds_session codec s3_get) ?ws ?ss" using Suc.prems(1) w(2) by (rule list_all2_update_cong)
    have sid: "sw_id w = sid" using w(2) by (simp add: holds_session_def)
    have "rcp_loop (Suc n) codec s3_get on_row c = rbind (on_row (sid, r) (c\<lparr>rcp_sessions := ?ws\<rparr>)) (\<lambda>res. case res of Inl e \<Rightarrow> Inr (Inl e) | Inr c2 \<Rightarrow> rcp_loop n codec s3_get on_row c2)"
      using len w(1) fm row(2) sid by (simp add: Let_def)
    also have "\<dots> = rcp_rows on_row ((sid, r) # taken n ?ss) (c\<lparr>rcp_sessions := []\<rparr>)"
      using Suc.IH [of "c'\<lparr>rcp_sessions := ?ws\<rparr>" ?ss for c'] all row(1,6)
      by (auto simp: on_row map_res_def rbind_assoc intro!: rbind_cong split: sum.split)
    finally show ?thesis using row(1,5) by simp
  qed
qed simp

section \<open>From the sessions to the file\<close>

definition session_delivers :: "record_codec \<Rightarrow> (string \<Rightarrow> string list option) \<Rightarrow> (string \<Rightarrow> source option) \<Rightarrow> nat \<times> string \<Rightarrow> record_row list \<Rightarrow> bool" where
  "session_delivers codec s3_list s3_get se rows \<longleftrightarrow> (\<exists>r. rsr_connect s3_list (rsr_new (fst se) (snd se)) = (r, Inr ()) \<and> delivers codec s3_get rows r)"

definition opened :: "(nat \<times> string) list \<Rightarrow> record_row list list \<Rightarrow> open_session list" where
  "opened ses rss = concat (map2 (\<lambda>se rows. if rows = [] then [] else [(fst se, row_ts (hd rows), rows)]) ses rss)"

lemma opened_simps [simp]:
  "opened [] [] = []"
  "opened (se # ses) (rows # rss) = (if rows = [] then [] else [(fst se, row_ts (hd rows), rows)]) @ opened ses rss"
  by (simp_all add: opened_def)

lemma rcp_open_delivers:
  assumes "session_delivers codec s3_list s3_get se rows"
  shows "\<exists>ws. rcp_open codec s3_list s3_get se c = Inr (Inr (c\<lparr>rcp_sessions := rcp_sessions c @ ws\<rparr>))
    \<and> list_all2 (holds_session codec s3_get) ws (if rows = [] then [] else [(fst se, row_ts (hd rows), rows)])"
proof -
  obtain r where r: "rsr_connect s3_list (rsr_new (fst se) (snd se)) = (r, Inr ())" "delivers codec s3_get rows r" using assms by (auto simp: session_delivers_def)
  have sid: "rsr_session_id r = fst se" using r(1) by (auto simp: rsr_connect_def rsr_new_def split: option.splits)
  obtain r' where r': "rsr_peek_ts codec s3_get r = Inr (r', (case rows of [] \<Rightarrow> None | row # _ \<Rightarrow> Some (row_ts row)))" "delivers codec s3_get rows r'" "rsr_session_id r' = rsr_session_id r"
    using delivers_peek [OF r(2)] by blast
  show ?thesis
  proof (cases rows)
    case Nil
    then show ?thesis using r(1) r' by (intro exI [of _ "[]"]) (simp add: rcp_open_def)
  next
    case (Cons row later)
    then show ?thesis using r(1) r' sid by (intro exI [of _ "[\<lparr>sw_session = r', sw_front_ts = row_ts row\<rparr>]"]) (simp add: rcp_open_def holds_session_def sw_id_def)
  qed
qed

lemma rcp_open_all_delivers:
  "list_all2 (session_delivers codec s3_list s3_get) ses rss \<Longrightarrow>
   \<exists>ws. rcp_open_all codec s3_list s3_get ses c = Inr (Inr (c\<lparr>rcp_sessions := rcp_sessions c @ ws\<rparr>)) \<and> list_all2 (holds_session codec s3_get) ws (opened ses rss)"
proof (induction ses rss arbitrary: c rule: list_all2_induct)
  case Nil
  show ?case by (intro exI [of _ "[]"]) simp
next
  case (Cons se ses rows rss)
  obtain ws1 where w1: "rcp_open codec s3_list s3_get se c = Inr (Inr (c\<lparr>rcp_sessions := rcp_sessions c @ ws1\<rparr>))"
      "list_all2 (holds_session codec s3_get) ws1 (if rows = [] then [] else [(fst se, row_ts (hd rows), rows)])"
    using rcp_open_delivers [OF Cons(1)] by blast
  obtain ws2 where w2: "rcp_open_all codec s3_list s3_get ses (c\<lparr>rcp_sessions := rcp_sessions c @ ws1\<rparr>) = Inr (Inr (c\<lparr>rcp_sessions := rcp_sessions c @ ws1 @ ws2\<rparr>))"
      "list_all2 (holds_session codec s3_get) ws2 (opened ses rss)"
    using Cons(3) [of "c\<lparr>rcp_sessions := rcp_sessions c @ ws1\<rparr>"] by auto
  show ?case using w1 w2 by (intro exI [of _ "ws1 @ ws2"]) (simp add: list_all2_appendI)
qed

lemma opened_facts:
  assumes "length ses = length rss"
  shows "work (opened ses rss) \<le> length ses + length (concat rss)" "distinct (map fst ses) \<Longrightarrow> distinct (map fst (opened ses rss))"
    "fst ` set (opened ses rss) \<subseteq> fst ` set ses" "i < length ses \<Longrightarrow> rss ! i \<noteq> [] \<Longrightarrow> (fst (ses ! i), row_ts (hd (rss ! i)), rss ! i) \<in> set (opened ses rss)"
    "\<forall>os \<in> set (opened ses rss). snd (snd os) \<in> set rss \<and> fst (snd os) = row_ts (hd (snd (snd os)))"
proof -
  have sub: "fst ` set (opened ses rss) \<subseteq> fst ` set ses" if "length ses = length rss" for ses :: "(nat \<times> string) list" and rss
    using that by (induction ses rss rule: list_induct2) (auto split: if_splits)
  show "fst ` set (opened ses rss) \<subseteq> fst ` set ses" by (rule sub [OF assms])
  show "work (opened ses rss) \<le> length ses + length (concat rss)"
    using assms by (induction ses rss rule: list_induct2) (auto simp: work_def)
  show "distinct (map fst (opened ses rss))" if "distinct (map fst ses)"
    using assms that
  proof (induction ses rss rule: list_induct2)
    case (Cons se ses rows rss)
    then show ?case using Cons sub [OF Cons(1)] by auto
  qed simp
  show "(fst (ses ! i), row_ts (hd (rss ! i)), rss ! i) \<in> set (opened ses rss)" if "i < length ses" "rss ! i \<noteq> []"
    using assms that by (induction ses rss arbitrary: i rule: list_induct2) (auto simp: nth_Cons split: nat.splits)
  show "\<forall>os \<in> set (opened ses rss). snd (snd os) \<in> set rss \<and> fst (snd os) = row_ts (hd (snd (snd os)))"
    using assms by (induction ses rss rule: list_induct2) (auto split: if_splits)
qed

lemma opened_member:
  assumes "length ses = length rss" and "os \<in> set (opened ses rss)"
  shows "\<exists>j < length ses. fst (ses ! j) = fst os \<and> rss ! j \<noteq> []"
  using assms
proof (induction ses rss rule: list_induct2)
  case (Cons se ses rows rss)
  then consider "rows \<noteq> []" "fst os = fst se" | "os \<in> set (opened ses rss)" using Cons.prems by (auto split: if_splits)
  then show ?case
  proof cases
    case 1
    then show ?thesis by (intro exI [of _ 0]) simp
  next
    case 2
    then obtain j where "j < length ses" "fst (ses ! j) = fst os" "rss ! j \<noteq> []" using Cons.IH by blast
    then show ?thesis by (intro exI [of _ "Suc j"]) simp
  qed
qed simp

text \<open>
  C9. Composing. When the readers of the sessions deliver rows that are in the order of time, composing handles every row of every
  session exactly once, the rows of all sessions together in the order of time and those of each session
  in their own order; then it writes what is left in the mixer. The loop ends after at most one round per row
  and session.
\<close>

theorem compose_in_order:
  assumes "list_all2 (session_delivers codec s3_list s3_get) ses rss" and "distinct (map fst ses)" and "\<forall>rows \<in> set rss. sorted (map row_ts rows)"
    and "rcp_sessions c = []" and "length ses + length (concat rss) < n"
  shows "\<exists>rows. rcp_compose n lib depacketize codec s3_list s3_get create_ok ses c
      = rbind (rcp_rows (rcp_on_row lib depacketize create_ok) rows c) (\<lambda>res. case res of Inl e \<Rightarrow> Inr (Inl e) | Inr c' \<Rightarrow> rcp_finish lib depacketize c')
    \<and> sorted (map (row_ts \<circ> snd) rows) \<and> fst ` set rows \<subseteq> fst ` set ses
    \<and> (\<forall>i < length ses. map snd (filter (\<lambda>x. fst x = fst (ses ! i)) rows) = rss ! i)"
proof -
  note len = list_all2_lengthD [OF assms(1)]
  let ?ss = "opened ses rss"
  have work: "work ?ss < n" using opened_facts(1) [OF len] assms(5) by linarith
  obtain ws where ws: "rcp_open_all codec s3_list s3_get ses c = Inr (Inr (c\<lparr>rcp_sessions := ws\<rparr>))" "list_all2 (holds_session codec s3_get) ws ?ss"
    using rcp_open_all_delivers [OF assms(1), of c] assms(4) by auto
  have c0: "c\<lparr>rcp_sessions := []\<rparr> = c" using assms(4) by simp
  have loop: "rcp_loop n codec s3_get (rcp_on_row lib depacketize create_ok) (c\<lparr>rcp_sessions := ws\<rparr>) = rcp_rows (rcp_on_row lib depacketize create_ok) (taken n ?ss) c"
    using rcp_loop_taken [of "rcp_on_row lib depacketize create_ok" codec s3_get "c\<lparr>rcp_sessions := ws\<rparr>" ?ss n, OF rcp_on_row_sessions] ws(2) work c0 by simp
  have "timed os" if os: "os \<in> set ?ss" for os
  proof -
    obtain sid front rows where o3: "os = (sid, front, rows)" by (cases os)
    then have "rows \<in> set rss" "front = row_ts (hd rows)" using opened_facts(5) [OF len] os by auto
    then show ?thesis using assms(3) o3 by (simp add: timed_def)
  qed
  then have sorted: "sorted (map (row_ts \<circ> snd) (taken n ?ss))" using taken_sorted [OF work] by blast
  have ids: "fst ` set (taken n ?ss) \<subseteq> fst ` set ?ss" by (rule taken_ids [OF work])
  have order: "map snd (filter (\<lambda>x. fst x = fst (ses ! i)) (taken n ?ss)) = rss ! i" if i: "i < length ses" for i
  proof (cases "rss ! i = []")
    case False
    then show ?thesis using taken_keeps_order [OF work opened_facts(2) [OF len assms(2)] opened_facts(4) [OF len i]] by simp
  next
    case True
    have "fst (ses ! i) \<notin> fst ` set ?ss"
    proof
      assume "fst (ses ! i) \<in> fst ` set ?ss"
      then obtain j where "j < length ses" "fst (ses ! j) = fst (ses ! i)" "rss ! j \<noteq> []" using opened_member [OF len] by fastforce
      then show False using assms(2) i True by (simp add: distinct_conv_nth) metis
    qed
    then have "filter (\<lambda>x. fst x = fst (ses ! i)) (taken n ?ss) = []" using ids by (metis (mono_tags, lifting) filter_False imageI subsetD)
    then show ?thesis using True by simp
  qed
  show ?thesis using ws(1) loop sorted ids order opened_facts(3) [OF len]
    by (intro exI [of _ "taken n ?ss"]) (auto simp: rcp_compose_def)
qed

text \<open>The file is created with the first frame that leaves the mixer while rows are read, which is when
  there are more than ten. A recording that ends before has its frames in the mixer and no file, and the
  last loop panics instead of writing it.\<close>

lemma rcp_short_recording_panics:
  assumes "rcp_track_writer c = None" and "rcp_audio_mixer c = Some m" and "mb_frames (acm_mixer m) = frame # frames"
    and "snd (ol_encode lib (map cap_i16_cast (mfr_buffer frame)) (acm_encoder m)) \<noteq> None"
  shows "rcp_finish lib depacketize c = Inl Expect_None"
proof -
  obtain enc data where "ol_encode lib (map cap_i16_cast (mfr_buffer frame)) (acm_encoder m) = (enc, Some data)"
    using assms(4) by (cases "ol_encode lib (map cap_i16_cast (mfr_buffer frame)) (acm_encoder m)") auto
  then have "rcp_flush lib depacketize m None = Inl Expect_None"
    using assms(3) by (subst rcp_flush.simps) (simp add: acm_force_pop_def mb_force_pop_def acm_encode_def Let_def)
  then show ?thesis using assms(1,2) by (simp add: rcp_finish_def)
qed

lemma acm_few_frames_silent:
  assumes "acm_on_media lib session_id rid ts media m = Inr (m', out)" and "length (mb_frames (acm_mixer m)) < FRAME_QUEUE_LIMIT"
  shows "out = None"
proof -
  have few: "frame = None" if p: "mb_push ts t data s = Inr (s', frame)" and few: "length (mb_frames s) < FRAME_QUEUE_LIMIT" for ts t data and s s' :: "(nat \<times> nat) mixer_buffer" and frame
  proof -
    have put: "mb_put_first t ts data fs = Some (i, fs') \<Longrightarrow> length fs' = length fs" for fs fs' i
      by (induction fs arbitrary: fs' i) (auto simp: case_prod_beta split: if_splits prod.splits option.splits)
    show ?thesis using p few put
      by (auto simp: mb_push_def mb_push_data_to_frame_def rbind_eq_Inr Let_def rassert_def case_prod_beta split: option.splits if_splits prod.splits)
  qed
  show ?thesis using assms by (auto simp: acm_on_media_def rbind_eq_Inr Let_def split: if_splits option.splits prod.splits dest!: few [rotated])
qed

section \<open>A recorded session composed\<close>

definition demo_lib :: "(unit, unit) opus_lib" where
  "demo_lib = \<lparr>ol_decoder = (), ol_decode = (\<lambda>bs d. (d, Some (map (\<lambda>b. int (unat b)) bs))), ol_encoder = (), ol_encode = (\<lambda>samples e. (e, Some [1]))\<rparr>"

definition demo_composer :: "(unit, unit) composer" where
  "demo_composer = \<lparr>rcp_audio = True, rcp_video = False, rcp_sessions = [], rcp_audio_mixer = Some (acm_new demo_lib), rcp_track_writer = None\<rparr>"

lemma demo_recorded:
  "\<exists>req f. stored 4 ''p/'' [(req, f)] (\<lambda>_. Some [''p/'' @ rec_file req]) (demo_store ''p/'' [(req, f)])
     \<and> session_delivers demo_codec (\<lambda>_. Some [''p/'' @ rec_file req]) (demo_store ''p/'' [(req, f)]) (5, ''p/'') [demo_join, demo_stop]"
proof -
  let ?s = "rse_join 10 ''app'' ''room'' ''peer'' (rse_new 5)"
  obtain s req f where run: "rfold (rse_step demo_codec) (Rse_Push 0 11 10 (Rec_JoinRoom ''app'' ''room'' ''peer'') # demo_ops) (rse_new 5, []) = Inr (s, [(req, f)])"
    using demo_run by (elim exE)
  have start: "recording demo_codec ''room'' ''peer'' 5 (False, [demo_join]) (?s, [])"
    by (simp add: recording_def rse_join_def rse_new_def pending_def demo_join_def)
  have ops: "\<forall>op \<in> set demo_ops. \<not> joins op" "demo_ops \<noteq> []" "flushes (last demo_ops)" by (simp_all add: demo_ops_def flushes_def)
  have "rfold (rse_step demo_codec) demo_ops (?s, []) = Inr (s, [(req, f)])" using run by (simp add: rse_push_def rse_new_def)
  then have rec: "recording demo_codec ''room'' ''peer'' 5 (fold rows_step demo_ops (False, [demo_join])) (s, [(req, f)])" "flushed s"
    using recording_run [OF _ start ops(1)] demo_codec_copes demo_rows ops(2,3) by auto
  obtain rss where rss: "list_all2 (chunk_in demo_codec ''room'' ''peer'' 5) [(req, f)] rss" "concat rss = [demo_join, demo_stop]"
    using rec demo_rows by (auto simp: recording_def flushed_def)
  have st: "stored 4 ''p/'' [(req, f)] (\<lambda>_. Some [''p/'' @ rec_file req]) (demo_store ''p/'' [(req, f)])" by (rule demo_stored)
  have at: "rsr_at demo_codec (demo_store ''p/'' [(req, f)]) None (zip (map (\<lambda>(req, file). ''p/'' @ rec_file req) [(req, f)]) rss)
      (fst (rsr_connect (\<lambda>_. Some [''p/'' @ rec_file req]) (rsr_new 5 ''p/'')))"
    using stored_reader_at [OF _ _ rss(1) st] demo_codec_copes rss(2) by simp
  have one: "rss = [[demo_join, demo_stop]]" using rss by (auto simp: list_all2_Cons1)
  have good: "\<forall>row \<in> set [demo_join, demo_stop]. good_row demo_codec row" using demo_codec_copes by (simp add: codec_copes_def)
  have "rsr_fresh demo_codec (demo_store ''p/'' [(req, f)]) [demo_join, demo_stop] (fst (rsr_connect (\<lambda>_. Some [''p/'' @ rec_file req]) (rsr_new 5 ''p/'')))"
    unfolding rsr_fresh_def using at one good by (intro exI [of _ None] exI [of _ "[(''p/'' @ rec_file req, [demo_join, demo_stop])]"]) (simp add: cur_rows_def)
  then have "session_delivers demo_codec (\<lambda>_. Some [''p/'' @ rec_file req]) (demo_store ''p/'' [(req, f)]) (5, ''p/'') [demo_join, demo_stop]"
    by (auto simp: session_delivers_def delivers_def rsr_connect_def rsr_new_def)
  then show ?thesis using st by blast
qed

theorem compose_in_order_witness:
  "\<exists>req f rows. rcp_compose 4 demo_lib (\<lambda>_ bs. Some bs) demo_codec (\<lambda>_. Some [''p/'' @ rec_file req]) (demo_store ''p/'' [(req, f)]) True [(5, ''p/'')] demo_composer
      = rbind (rcp_rows (rcp_on_row demo_lib (\<lambda>_ bs. Some bs) True) rows demo_composer) (\<lambda>res. case res of Inl e \<Rightarrow> Inr (Inl e) | Inr c' \<Rightarrow> rcp_finish demo_lib (\<lambda>_ bs. Some bs) c')
    \<and> map snd (filter (\<lambda>x. fst x = 5) rows) = [demo_join, demo_stop]"
proof -
  obtain req f where d: "session_delivers demo_codec (\<lambda>_. Some [''p/'' @ rec_file req]) (demo_store ''p/'' [(req, f)]) (5, ''p/'') [demo_join, demo_stop]"
    using demo_recorded by (elim exE conjE)
  obtain rows where "rcp_compose 4 demo_lib (\<lambda>_ bs. Some bs) demo_codec (\<lambda>_. Some [''p/'' @ rec_file req]) (demo_store ''p/'' [(req, f)]) True [(5, ''p/'')] demo_composer
      = rbind (rcp_rows (rcp_on_row demo_lib (\<lambda>_ bs. Some bs) True) rows demo_composer) (\<lambda>res. case res of Inl e \<Rightarrow> Inr (Inl e) | Inr c' \<Rightarrow> rcp_finish demo_lib (\<lambda>_ bs. Some bs) c')"
    and "\<forall>i < length [(5 :: nat, ''p/'')]. map snd (filter (\<lambda>x. fst x = fst ([(5, ''p/'')] ! i)) rows) = [[demo_join, demo_stop]] ! i"
    using compose_in_order [of demo_codec "\<lambda>_. Some [''p/'' @ rec_file req]" "demo_store ''p/'' [(req, f)]" "[(5, ''p/'')]" "[[demo_join, demo_stop]]" demo_composer 4 demo_lib "\<lambda>_ bs. Some bs" True]
      d by (auto simp: demo_composer_def demo_join_def demo_stop_def)
  then show ?thesis by (intro exI [of _ req] exI [of _ f] exI [of _ rows]) simp
qed

end
