(* ===== verification/Spec2Isabelle.thy ===== *)
theory Spec2Isabelle
  imports Prelude Index_Map Index_Map_2d Seq_Rewrite Seq_Extend State_Queue Ts_Rewrite Media_Types
    Video_Selectors Packet_Selector Bitrate_Allocator Cluster_Types Media_Track Message_Channel
    Audio_Mixer Room_Mixers Room_Metadata Room_Audio_Mixer Cluster_Room Media_Cluster Conn_Id
    Rtp_Codecs Media_Convert Media_Path Endpoint_Types Local_Track Remote_Track
    Endpoint_Internal Endpoint_Tables Endpoint_Rooms Bwe_State Session_Messages Webrtc_Internal
    Webrtc_Whip Webrtc_Whep Webrtc_Sdk Gateway_Store Message_Queue Net_Service
    Connector_Service Connector_Net Connector_Storage Connector_Rooms Gateway_Service
    Record_Chunk Record_Session Record_Upload Mixer_Buffer Record_Convert Record_Compose
begin

text \<open>
  Verification of the media server: the parts under \<^verbatim>\<open>src/packages\<close> that decide what is sent where,
  what is recorded, and what the connector and the gateways know of the nodes.

  \<^bold>\<open>The program.\<close> Clients connect over a transport (WebRTC, RTP engine); an endpoint
  (\<^verbatim>\<open>media_core/src/endpoint\<close>) keeps one track per stream it sends or receives; the cluster
  (\<^verbatim>\<open>media_core/src/cluster\<close>) keeps one room per conference, and each room relays media, metadata,
  mixed audio and messages between its endpoints and those of other nodes over channels and key-value
  maps of the network library. On the way to a viewer a packet passes the selector of the viewer's
  track (\<^verbatim>\<open>endpoint/internal/local_track/packet_selector\<close>), which chooses layers and renumbers sequence
  numbers, timestamps and picture ids so that the viewer sees one stream without gaps. Gateways choose
  the node for a new session (\<^verbatim>\<open>media_gateway\<close>), the connector keeps a database of rooms, peers and
  sessions from the events the nodes report (\<^verbatim>\<open>media_connector\<close>), and the recorder stores what a session
  receives, reads it back and composes it into media files (\<^verbatim>\<open>media_record\<close>).

  \<^bold>\<open>Conventions.\<close> Components are \<open>record\<close>s and their operations top-level functions with the source's
  names, prefixed by a short tag per struct. Code that can panic returns \<open>'a run\<close> (theory \<open>Prelude\<close>):
  \<open>Inl\<close> a panic, \<open>Inr\<close> a result. Unsigned integers are naturals with the wrap-around written out
  where it matters, bytes are words, instants are natural numbers of nanoseconds. Hash maps, index maps and
  index sets are association lists and lists with the source's order of removal (\<open>Index_Map\<close>). What a
  component hands to its parent is its queue of outputs; runs are lists of operations folded by
  \<open>rfold\<close>, and \<open>admits_run\<close> says that each operation of a run is one its caller may issue in the state
  it is issued in. Logging and metrics are left out.

  \<^bold>\<open>Parameters.\<close> Code outside the repository is an argument: the hash functions and serialisers used by
  the cluster (\<open>cluster_env\<close>), the clock and the task group of the runtime library (\<open>endpoint_env\<close>, and the
  index of a new task), the order in which the library's switcher polls the children (a schedule, or
  one operation per poll). The gateway and the connector take the serialisers of their datagrams, the
  cache of seen requests and the distance between locations, the connector's storage the conversion
  to JSON, the presigned addresses and which calls of the database fail; the recorder takes the \<^verbatim>\<open>bincode\<close> codec, the
  listing and the objects of the store, the audio codec, the depacketizers and the random ids of
  files; the SDK session takes the decoding of tokens. Where a theorem relies on one of them, the law
  it needs (what was encoded decodes to itself, the cache remembers what was put) is a named hypothesis, and
  the witness discharges it on a concrete instance. \<open>demo_env\<close> and \<open>demo_endpoint\<close> are the
  instances for the cluster and the endpoint.

  \<^bold>\<open>Theories and sources.\<close>
  \<^item> \<open>Prelude\<close>, \<open>Index_Map\<close>: panics, arithmetic, index maps and sets; the locales \<open>keyed_store\<close> and
    \<open>member_store\<close> are the interface through which the components use them.
  \<^item> \<open>Index_Map_2d\<close>, \<open>Seq_Rewrite\<close>, \<open>Seq_Extend\<close>, \<open>Ts_Rewrite\<close>, \<open>State_Queue\<close>: \<^verbatim>\<open>media_utils\<close>. The rewriter of
    sequence numbers emits consecutive numbers whatever is dropped, the extender recovers the unwrapped
    number, the timestamp rewriter keeps the pace of its source.
  \<^item> \<open>Media_Types\<close>: packets, metadata and layer tables of \<^verbatim>\<open>protocol/src/media.rs\<close>; \<open>Conn_Id\<close>: the text form of
    connection ids, with its round trip.
  \<^item> \<open>Video_Selectors\<close>, \<open>Packet_Selector\<close>: the selectors for single streams, H264 and VP8 simulcast and VP9 SVC
    and the packet selector that owns one: no panic, key frames before deltas, requests for key frames
    at a bounded rate, gap-free numbering.
  \<^item> \<open>Bitrate_Allocator\<close>: egress and ingress allocation by priority.
  \<^item> \<open>Cluster_Types\<close>, \<open>Media_Track\<close>, \<open>Message_Channel\<close>, \<open>Audio_Mixer\<close>, \<open>Room_Mixers\<close>, \<open>Room_Metadata\<close>,
    \<open>Room_Audio_Mixer\<close>, \<open>Cluster_Room\<close>, \<open>Media_Cluster\<close>: the cluster. The locale \<open>session_client\<close> of \<open>Cluster_Types\<close> is
    the contract between a part and the network: \<open>sessions\<close> runs the controls a part has sent, each opening, using or
    closing a channel, and is defined only when every channel is opened once before it is used and
    closed once. Every part interprets it (\<open>Media_Track\<close> twice for each side: for all runs, and for those whose callers
    pair their calls, where no channel is left behind); \<open>Cluster_Room\<close> composes the four features of a room, and
    \<open>Media_Cluster\<close> shows that rooms do not influence each other.
  \<^item> \<open>Rtp_Codecs\<close>, \<open>Media_Convert\<close>: \<^verbatim>\<open>transport_webrtc/src/media\<close>, the payload descriptors of VP8, VP9 and H264
    and the conversion of RTP packets; \<open>Media_Path\<close> composes conversion, selection and rewriting: of
    received packets only those with a layers allocation of more than three layers or a VP9 scalability structure can
    make the way to a viewer panic, and what is sent carries the numbers the selector chose.
  \<^item> \<open>Endpoint_Types\<close>, \<open>Local_Track\<close>, \<open>Remote_Track\<close>, \<open>Endpoint_Internal\<close>, \<open>Endpoint_Tables\<close>, \<open>Endpoint_Rooms\<close>: the endpoint. A local
    track is subscribed exactly while it is bound to a source, a remote track is published exactly
    while it lives and the endpoint is in a room, and the endpoint's controls are a series of sessions
    in the room it has joined; its loops end. (The id of a stopped track outlives it, and leaving panics once its index is reused.)
  \<^item> \<open>Bwe_State\<close>, \<open>Session_Messages\<close>, \<open>Webrtc_Internal\<close>, \<open>Webrtc_Whip\<close>, \<open>Webrtc_Whep\<close>, \<open>Webrtc_Sdk\<close>:
    \<^verbatim>\<open>transport_webrtc/src/transport\<close>, the sessions between the WebRTC library and an endpoint, and the messages of their
    data channel. The locale \<open>webrtc_session\<close>, which extends \<open>output_observer\<close>, is the contract of a session:
    what it tells the endpoint is a run of the automaton of connection and track states. The three sessions
    interpret it, each with the observer of its own promises (one output for each request for the SDK, tracks of
    one peer for WHEP).
  \<^item> \<open>Net_Service\<close>, \<open>Gateway_Store\<close>, \<open>Gateway_Service\<close>: \<^verbatim>\<open>media_gateway\<close>. A gateway answers with the least loaded
    node of the nearest zone that can take the session, and the ping of a node leaves the entry in the store that its
    workers' reports call for.
  \<^item> \<open>Message_Queue\<close>, \<open>Connector_Service\<close>, \<open>Connector_Net\<close>: how the nodes report to the connector. Over a network
    that loses, repeats and reorders datagrams, an answer reaches only the actor that asked, once, and a request is handed over at most once
    as long as no more requests are made than the handler's cache holds.
  \<^item> \<open>Connector_Storage\<close>, \<open>Connector_Rooms\<close>: the connector's tables, with a small logic of pre- and postconditions
    (\<open>dhoare\<close>) over calls of the database of which any may fail; the tables stay consistent.
  \<^item> \<open>Record_Chunk\<close>, \<open>Record_Session\<close>, \<open>Record_Upload\<close>: the recorder. What a session recorded is read back in order, and what
    is uploaded are the chunks that the recorders finished, each to an address given for it.
  \<^item> \<open>Mixer_Buffer\<close>, \<open>Record_Convert\<close>, \<open>Record_Compose\<close>: the converter of recordings. A mixed sample is the clamped sum of
    the contributions to its frame, the summary of the transmuxer describes the files it wrote (until one cannot be created), and the
    composer takes the rows of all sessions in the order of time and ends.

  \<^bold>\<open>Loops and fuel.\<close> Loops over data are structural recursion or have a termination measure. The parser of
  VP9 reference lists may run as long as its input and is a \<open>partial_function\<close> with the theorem that it
  returns. The loops that poll an endpoint's children until they are empty take the schedule as an
  argument, and \<open>ei_schedule_exists\<close> shows that one that suffices exists, by the measure \<open>ei_measure\<close>. The reader
  of a session (\<open>rsr_rows\<close>) and the loop of the composer (\<open>rcp_loop\<close>) take a bound on their rounds; every round
  consumes a row or a session, and the theorems show that a bound above their number is enough.

  \<^bold>\<open>Not modelled.\<close> The servers and HTTP APIs under \<^verbatim>\<open>bin\<close>, the lists the connector answers to a console and
  its hooks, the listing of rooms and peers in the object store and the upload of converted files, the workers around WebRTC, RTP
  engine and the media server, tokens and tenants, the audio codecs and the remote procedure calls over QUIC: their behaviour is that
  of the libraries they call or of the operating system. Code generated from protobuf definitions is
  represented by the types the modelled code uses. The manifest lists each of them.
\<close>

end
